(* ===== verification/AgentOS_Prelude.thy ===== *)
theory AgentOS_Prelude
  imports Complex_Main "HOL-Library.AList" "HOL-Library.Word"
begin

text \<open>
  Shared foundations of the development.

  \<^item> Go maps are association lists with distinct keys (\<open>gomap\<close>, invariant \<open>gwf\<close>): the list order
    stands for the iteration order, which Go leaves unspecified, so theorems never depend on it.
  \<^item> Go strings are byte strings (\<open>string\<close>); the helpers of package strings that the program uses
    are defined here on their ASCII behaviour.
  \<^item> \<open>time.Time\<close> is an \<open>int\<close>, the nanoseconds since Go's zero time, so the zero value is 0;
    \<open>time.Duration\<close> is an \<open>int\<close> (a 64-bit word where a computation can overflow).
  \<^item> Generic loops over slices (\<open>upd_first\<close>, \<open>remove_first\<close>) with the facts that carry the
    component proofs, a reachability predicate, and the locales shared by several components:
    \<open>inv_system\<close> for invariants of step relations and \<open>keyed_store\<close> for registries and stores.
\<close>

named_theorems op_defs \<open>definitions of the operations of the components\<close>

type_synonym time = int
type_synonym duration = int

abbreviation millisecond :: duration where "millisecond \<equiv> 1000000"
abbreviation second :: duration where "second \<equiv> 1000000000"
abbreviation minute :: duration where "minute \<equiv> 60000000000"
abbreviation hour :: duration where "hour \<equiv> 3600000000000"

subsection \<open>Go maps\<close>

type_synonym ('k, 'v) gomap = "('k \<times> 'v) list"

definition gwf :: "('k, 'v) gomap \<Rightarrow> bool" where
  "gwf m \<longleftrightarrow> distinct (map fst m)"

definition mget :: "('k, 'v) gomap \<Rightarrow> 'k \<Rightarrow> 'v option" where
  "mget m k = map_of m k"

definition mput :: "'k \<Rightarrow> 'v \<Rightarrow> ('k, 'v) gomap \<Rightarrow> ('k, 'v) gomap" where
  "mput k v m = AList.update k v m"

definition mdel :: "'k \<Rightarrow> ('k, 'v) gomap \<Rightarrow> ('k, 'v) gomap" where
  "mdel k m = AList.delete k m"

definition mkeys :: "('k, 'v) gomap \<Rightarrow> 'k list" where
  "mkeys m = map fst m"

definition mfilter :: "('k \<Rightarrow> 'v \<Rightarrow> bool) \<Rightarrow> ('k, 'v) gomap \<Rightarrow> ('k, 'v) gomap" where
  "mfilter P m = filter (\<lambda>(k, v). P k v) m"

definition zget :: "'v \<Rightarrow> ('k, 'v) gomap \<Rightarrow> 'k \<Rightarrow> 'v" where
  "zget z m k = (case mget m k of None \<Rightarrow> z | Some v \<Rightarrow> v)"

subsection \<open>Loops over slices\<close>

fun upd_first :: "('a \<Rightarrow> bool) \<Rightarrow> ('a \<Rightarrow> 'a) \<Rightarrow> 'a list \<Rightarrow> ('a \<times> 'a list) option" where
  "upd_first P f [] = None"
| "upd_first P f (x # xs) =
     (if P x then Some (f x, f x # xs)
      else map_option (\<lambda>(y, ys). (y, x # ys)) (upd_first P f xs))"

fun remove_first :: "('a \<Rightarrow> bool) \<Rightarrow> 'a list \<Rightarrow> 'a list option" where
  "remove_first P [] = None"
| "remove_first P (x # xs) = (if P x then Some xs else map_option ((#) x) (remove_first P xs))"

definition last_n :: "nat \<Rightarrow> 'a list \<Rightarrow> 'a list" where
  "last_n n xs = drop (length xs - n) xs"

subsection \<open>Strings\<close>

definition isSpace :: "char \<Rightarrow> bool" where
  "isSpace c \<longleftrightarrow> c \<in> set [CHR '' '', CHR 0x09, CHR 0x0A, CHR 0x0B, CHR 0x0C, CHR 0x0D]"

definition TrimSpace :: "string \<Rightarrow> string" where
  "TrimSpace s = rev (dropWhile isSpace (rev (dropWhile isSpace s)))"

definition lowerChar :: "char \<Rightarrow> char" where
  "lowerChar c = (let n = of_char c :: nat in if 65 \<le> n \<and> n \<le> 90 then char_of (n + 32) else c)"

definition ToLower :: "string \<Rightarrow> string" where
  "ToLower s = map lowerChar s"

definition EqualFold :: "string \<Rightarrow> string \<Rightarrow> bool" where
  "EqualFold s t \<longleftrightarrow> ToLower s = ToLower t"

fun HasPrefix :: "string \<Rightarrow> string \<Rightarrow> bool" where
  "HasPrefix s [] = True"
| "HasPrefix [] (p # ps) = False"
| "HasPrefix (c # cs) (p # ps) = (c = p \<and> HasPrefix cs ps)"

definition HasSuffix :: "string \<Rightarrow> string \<Rightarrow> bool" where
  "HasSuffix s p = HasPrefix (rev s) (rev p)"

fun Contains :: "string \<Rightarrow> string \<Rightarrow> bool" where
  "Contains [] p = (p = [])"
| "Contains (c # cs) p = (HasPrefix (c # cs) p \<or> Contains cs p)"

definition TrimPrefix :: "string \<Rightarrow> string \<Rightarrow> string" where
  "TrimPrefix s p = (if HasPrefix s p then drop (length p) s else s)"

fun splitByte :: "char \<Rightarrow> string \<Rightarrow> string list" where
  "splitByte d [] = [[]]"
| "splitByte d (c # cs) =
     (if c = d then [] # splitByte d cs
      else (case splitByte d cs of [] \<Rightarrow> [[c]] | (w # ws) \<Rightarrow> (c # w) # ws))"

fun joinByte :: "char \<Rightarrow> string list \<Rightarrow> string" where
  "joinByte d [] = []"
| "joinByte d [w] = w"
| "joinByte d (w # ws) = w @ d # joinByte d ws"

definition isDigit :: "char \<Rightarrow> bool" where
  "isDigit c \<longleftrightarrow> (let n = of_char c :: nat in 48 \<le> n \<and> n \<le> 57)"

fun atoiDigits :: "int \<Rightarrow> string \<Rightarrow> int option" where
  "atoiDigits acc [] = Some acc"
| "atoiDigits acc (c # cs) =
     (if isDigit c then atoiDigits (acc * 10 + (of_char c - 48)) cs else None)"

definition Atoi :: "string \<Rightarrow> int option" where
  "Atoi s =
     (let (neg, ds) = (case s of [] \<Rightarrow> (False, []) | c # cs \<Rightarrow>
                         if c = CHR ''-'' then (True, cs) else if c = CHR ''+'' then (False, cs)
                         else (False, s)) in
      if ds = [] then None
      else case atoiDigits 0 ds of None \<Rightarrow> None
           | Some n \<Rightarrow> let v = (if neg then - n else n) in
               if - (2 ^ 63) \<le> v \<and> v < 2 ^ 63 then Some v else None)"

fun fieldsAux :: "string \<Rightarrow> string \<Rightarrow> string list" where
  "fieldsAux w [] = (if w = [] then [] else [rev w])"
| "fieldsAux w (c # cs) =
     (if isSpace c then (if w = [] then fieldsAux [] cs else rev w # fieldsAux [] cs)
      else fieldsAux (c # w) cs)"

definition Fields :: "string \<Rightarrow> string list" where
  "Fields s = fieldsAux [] s"

subsection \<open>JSON values and HTTP errors\<close>

datatype json = JNull | JBool bool | JNum rat | JStr string | JArr "json list" | JObj "(string \<times> json) list"

definition jobj :: "(string, json) gomap \<Rightarrow> string \<Rightarrow> json" where
  "jobj m k = zget JNull m k"

definition asString :: "json \<Rightarrow> string option" where
  "asString j = (case j of JStr s \<Rightarrow> Some s | _ \<Rightarrow> None)"

definition asBool :: "json \<Rightarrow> bool option" where
  "asBool j = (case j of JBool b \<Rightarrow> Some b | _ \<Rightarrow> None)"

record httpError =
  he_status :: int
  he_code :: string
  he_message :: string
  he_retryable :: bool

definition httpxError :: "int \<Rightarrow> string \<Rightarrow> string \<Rightarrow> bool \<Rightarrow> httpError" where
  "httpxError st code msg retryable =
     \<lparr>he_status = st, he_code = code, he_message = msg, he_retryable = retryable\<rparr>"

subsection \<open>Reachability\<close>

inductive reachable :: "('s \<Rightarrow> bool) \<Rightarrow> ('s \<Rightarrow> 's \<Rightarrow> bool) \<Rightarrow> 's \<Rightarrow> bool"
  for init :: "'s \<Rightarrow> bool" and step :: "'s \<Rightarrow> 's \<Rightarrow> bool" where
  reach_init: "init s \<Longrightarrow> reachable init step s"
| reach_step: "reachable init step s \<Longrightarrow> step s t \<Longrightarrow> reachable init step t"

lemma reach_one: "init s \<Longrightarrow> step s t \<Longrightarrow> reachable init step t"
  by (rule reach_step[where s = s], rule reach_init)

subsection \<open>Facts on Go maps\<close>

lemma mget_mput [simp]: "mget (mput k v m) k' = (if k' = k then Some v else mget m k')"
  by (simp add: mget_def mput_def update_conv')

lemma mget_mdel [simp]: "mget (mdel k m) k' = (if k' = k then None else mget m k')"
  by (simp add: mget_def mdel_def delete_conv')

lemma mget_Nil [simp]: "mget [] k = None"
  by (simp add: mget_def)

lemma mget_Cons: "mget ((k, v) # m) k' = (if k' = k then Some v else mget m k')"
  by (simp add: mget_def)

lemma gwf_Nil [simp]: "gwf []"
  by (simp add: gwf_def)

lemma gwf_Cons: "gwf ((k, v) # m) \<longleftrightarrow> k \<notin> fst ` set m \<and> gwf m"
  by (simp add: gwf_def)

lemma gwf_mput [simp]: "gwf m \<Longrightarrow> gwf (mput k v m)"
  by (simp add: gwf_def mput_def distinct_update)

lemma gwf_mdel [simp]: "gwf m \<Longrightarrow> gwf (mdel k m)"
  by (simp add: gwf_def mdel_def distinct_delete)

lemma gwf_filter [simp]: "gwf m \<Longrightarrow> gwf (filter P m)"
  by (simp add: gwf_def distinct_map_filter)

lemma gwf_mfilter [simp]: "gwf m \<Longrightarrow> gwf (mfilter P m)"
  by (simp add: mfilter_def)

lemma mget_None_iff: "mget m k = None \<longleftrightarrow> k \<notin> fst ` set m"
  by (simp add: mget_def map_of_eq_None_iff)

lemma mget_in_set: "mget m k = Some v \<Longrightarrow> (k, v) \<in> set m"
  by (simp add: mget_def map_of_SomeD)

lemma mget_iff: "gwf m \<Longrightarrow> mget m k = Some v \<longleftrightarrow> (k, v) \<in> set m"
  by (simp add: mget_def gwf_def map_of_eq_Some_iff)

lemma mget_mfilter:
  assumes "gwf m"
  shows "mget (mfilter P m) k =
     (case mget m k of None \<Rightarrow> None | Some v \<Rightarrow> if P k v then Some v else None)"
proof -
  have "mget (mfilter P m) k = Some v \<longleftrightarrow> mget m k = Some v \<and> P k v" for v
    unfolding mget_iff[OF assms] mget_iff[OF gwf_mfilter[OF assms]] by (auto simp: mfilter_def)
  note * = this
  show ?thesis
  proof (cases "mget (mfilter P m) k")
    case None
    then have "\<And>v. mget m k = Some v \<Longrightarrow> \<not> P k v" using * by fastforce
    with None show ?thesis by (auto split: option.split)
  next
    case (Some v)
    with *[of v] show ?thesis by simp
  qed
qed

lemma length_mput:
  "length (mput k v m) = (if k \<in> fst ` set m then length m else Suc (length m))"
  by (induction m) (auto simp: mput_def)

lemma length_mput_le: "length (mput k v m) \<le> Suc (length m)"
  by (simp add: length_mput)

lemma length_mdel_le [simp]: "length (mdel k m) \<le> length m"
  by (simp add: mdel_def length_delete_le)

lemma mdel_absent: "k \<notin> fst ` set m \<Longrightarrow> mdel k m = m"
  by (induction m) (auto simp: mdel_def)

lemma length_mdel:
  "gwf m \<Longrightarrow> length (mdel k m) = (if k \<in> fst ` set m then length m - 1 else length m)"
proof (induction m)
  case (Cons kv m)
  obtain k0 v0 where [simp]: "kv = (k0, v0)" by (cases kv)
  have *: "k0 \<notin> fst ` set m" "gwf m" using Cons.prems by (auto simp: gwf_def)
  show ?case
  proof (cases "k0 = k")
    case True
    with * mdel_absent[of k m] show ?thesis by (simp add: mdel_def)
  next
    case False
    have "k \<in> fst ` set m \<Longrightarrow> 0 < length m" by (cases m) auto
    with False Cons.IH[OF *(2)] show ?thesis by (auto simp: mdel_def)
  qed
qed (simp add: mdel_def)

lemma set_mdel: "set (mdel k m) = {e \<in> set m. fst e \<noteq> k}"
  by (auto simp: mdel_def AList.delete_eq)

lemma keys_mput [simp]: "fst ` set (mput k v m) = insert k (fst ` set m)"
  by (simp add: mput_def dom_update)

lemma keys_mdel [simp]: "fst ` set (mdel k m) = fst ` set m - {k}"
  by (force simp: set_mdel)

lemma set_mput_subset: "set (mput k v m) \<subseteq> insert (k, v) (set m)"
  by (induction m) (auto simp: mput_def)

lemma set_mput: "gwf m \<Longrightarrow> set (mput k v m) = insert (k, v) {e \<in> set m. fst e \<noteq> k}"
  by (induction m) (force simp: mput_def gwf_def)+

lemma length_mfilter_le [simp]: "length (mfilter P m) \<le> length m"
  by (simp add: mfilter_def)

lemma zget_mput [simp]: "zget z (mput k v m) k' = (if k' = k then v else zget z m k')"
  by (simp add: zget_def)

lemma zget_mdel [simp]: "zget z (mdel k m) k' = (if k' = k then z else zget z m k')"
  by (simp add: zget_def)

lemma zget_Nil [simp]: "zget z [] k = z"
  by (simp add: zget_def)

subsection \<open>Facts on slice loops\<close>

lemma upd_first_append:
  "\<forall>u\<in>set us. \<not> P u \<Longrightarrow> P x \<Longrightarrow> upd_first P f (us @ x # vs) = Some (f x, us @ f x # vs)"
  by (induction us) auto

lemma upd_firstE:
  assumes "upd_first P f xs = Some (y, ys)"
  obtains us x vs where "xs = us @ x # vs" "\<forall>u\<in>set us. \<not> P u" "P x" "y = f x" "ys = us @ y # vs"
proof (cases "\<exists>x\<in>set xs. P x")
  case True
  then obtain us x vs where "xs = us @ x # vs" "P x" "\<forall>u\<in>set us. \<not> P u"
    by (auto dest!: split_list_first_prop)
  with assms that show ?thesis by (auto simp: upd_first_append)
next
  case False
  then have "upd_first P f xs = None" by (induction xs) auto
  with assms show ?thesis by simp
qed

lemma upd_first_Some_iff:
  "upd_first P f xs = Some (y, ys) \<longleftrightarrow>
     (\<exists>us x vs. xs = us @ x # vs \<and> (\<forall>u\<in>set us. \<not> P u) \<and> P x \<and> y = f x \<and> ys = us @ y # vs)"
  by (auto elim!: upd_firstE simp: upd_first_append)

lemma upd_first_None_iff: "upd_first P f xs = None \<longleftrightarrow> (\<forall>x\<in>set xs. \<not> P x)"
  by (induction xs) auto

lemma upd_first_length: "upd_first P f xs = Some (y, ys) \<Longrightarrow> length ys = length xs"
  by (auto simp: upd_first_Some_iff)

lemma remove_first_append:
  "\<forall>u\<in>set us. \<not> P u \<Longrightarrow> P x \<Longrightarrow> remove_first P (us @ x # vs) = Some (us @ vs)"
  by (induction us) auto

lemma remove_firstE:
  assumes "remove_first P xs = Some ys"
  obtains us x vs where "xs = us @ x # vs" "\<forall>u\<in>set us. \<not> P u" "P x" "ys = us @ vs"
proof (cases "\<exists>x\<in>set xs. P x")
  case True
  then obtain us x vs where "xs = us @ x # vs" "P x" "\<forall>u\<in>set us. \<not> P u"
    by (auto dest!: split_list_first_prop)
  with assms that show ?thesis by (auto simp: remove_first_append)
next
  case False
  then have "remove_first P xs = None" by (induction xs) auto
  with assms show ?thesis by simp
qed

lemma remove_first_Some_iff:
  "remove_first P xs = Some ys \<longleftrightarrow>
     (\<exists>us x vs. xs = us @ x # vs \<and> (\<forall>u\<in>set us. \<not> P u) \<and> P x \<and> ys = us @ vs)"
  by (auto elim!: remove_firstE simp: remove_first_append)

lemma remove_first_None_iff: "remove_first P xs = None \<longleftrightarrow> (\<forall>x\<in>set xs. \<not> P x)"
  by (induction xs) auto

lemma remove_first_length: "remove_first P xs = Some ys \<Longrightarrow> length xs = Suc (length ys)"
  by (auto simp: remove_first_Some_iff)

lemma remove_first_set: "remove_first P xs = Some ys \<Longrightarrow> set ys \<subseteq> set xs"
  by (auto simp: remove_first_Some_iff)

lemma length_last_n [simp]: "length (last_n n xs) = min n (length xs)"
  by (simp add: last_n_def)

lemma last_n_all: "length xs \<le> n \<Longrightarrow> last_n n xs = xs"
  by (simp add: last_n_def)

lemma set_last_n: "set (last_n n xs) \<subseteq> set xs"
  by (simp add: last_n_def set_drop_subset)

subsection \<open>Facts on strings\<close>

lemma HasPrefix_iff: "HasPrefix s p \<longleftrightarrow> (\<exists>r. s = p @ r)"
  by (induction s p rule: HasPrefix.induct) auto

lemma TrimSpace_Nil [simp]: "TrimSpace [] = []"
  by (simp add: TrimSpace_def)

lemma TrimSpace_idem [simp]: "TrimSpace (TrimSpace s) = TrimSpace s"
proof -
  let ?y = "dropWhile isSpace s"
  let ?z = "rev (dropWhile isSpace (rev ?y))"
  obtain w where "?y = ?z @ w"
    by (metis rev_append rev_rev_ident takeWhile_dropWhile_id)
  then have "?z = [] \<or> hd ?z = hd ?y \<and> ?y \<noteq> []" by (metis append_is_Nil_conv hd_append2)
  moreover have "?y \<noteq> [] \<Longrightarrow> \<not> isSpace (hd ?y)" by (rule hd_dropWhile)
  ultimately have "dropWhile isSpace ?z = ?z" by (metis dropWhile_eq_self_iff)
  then show ?thesis by (simp add: TrimSpace_def)
qed

lemma HasPrefix_append [simp]: "HasPrefix (p @ r) p"
  by (auto simp: HasPrefix_iff)

lemma EqualFold_refl [simp]: "EqualFold s s"
  by (simp add: EqualFold_def)

lemma splitByte_not_Nil [simp]: "splitByte d s \<noteq> []"
  by (induction s) (auto split: list.splits)

lemma joinByte_Cons: "ws \<noteq> [] \<Longrightarrow> joinByte d (w # ws) = w @ d # joinByte d ws"
  by (cases ws) auto

lemma joinByte_splitByte [simp]: "joinByte d (splitByte d s) = s"
proof (induction s)
  case (Cons c cs)
  obtain w ws where "splitByte d cs = w # ws" by (cases "splitByte d cs") auto
  with Cons.IH show ?case by (cases ws) auto
qed simp

lemma splitByte_append:
  "d \<notin> set w \<Longrightarrow> splitByte d (w @ d # s) = w # splitByte d s"
  by (induction w) auto

lemma splitByte_plain: "d \<notin> set w \<Longrightarrow> splitByte d w = [w]"
  by (induction w) auto

lemma splitByte_joinByte:
  "ws \<noteq> [] \<Longrightarrow> \<forall>w\<in>set ws. d \<notin> set w \<Longrightarrow> splitByte d (joinByte d ws) = ws"
  by (induction d ws rule: joinByte.induct) (auto simp: splitByte_append splitByte_plain)

lemma httpxError_sel [simp]:
  "he_status (httpxError s c m r) = s" "he_code (httpxError s c m r) = c"
  "he_message (httpxError s c m r) = m" "he_retryable (httpxError s c m r) = r"
  by (simp_all add: httpxError_def)

subsection \<open>64-bit integers\<close>

lemma sint_word_of_int64:
  "- (2 ^ 63) \<le> i \<Longrightarrow> i < 2 ^ 63 \<Longrightarrow> sint (word_of_int i :: 64 word) = i"
  by (simp add: int_word_sint)

subsection \<open>Invariants of step relations\<close>

locale inv_system =
  fixes init :: "'s \<Rightarrow> bool" and step :: "'s \<Rightarrow> 's \<Rightarrow> bool" and inv :: "'s \<Rightarrow> bool"
  assumes inv_init: "init s \<Longrightarrow> inv s"
    and inv_step: "inv s \<Longrightarrow> step s t \<Longrightarrow> inv t"
begin

lemma inv_reachable: "reachable init step s \<Longrightarrow> inv s"
  by (induction rule: reachable.induct) (auto intro: inv_init inv_step)

lemma inv_steps: "step\<^sup>*\<^sup>* s t \<Longrightarrow> inv s \<Longrightarrow> inv t"
  by (induction rule: rtranclp_induct) (auto intro: inv_step)

end

subsection \<open>Keyed stores\<close>

locale keyed_store =
  fixes get :: "'s \<Rightarrow> 'k \<Rightarrow> 'v option"
    and put :: "'k \<Rightarrow> 'v \<Rightarrow> 's \<Rightarrow> 's"
    and del :: "'k \<Rightarrow> 's \<Rightarrow> 's"
    and ok :: "'s \<Rightarrow> bool"
  assumes get_put: "ok s \<Longrightarrow> get (put k v s) k' = (if k' = k then Some v else get s k')"
    and get_del: "ok s \<Longrightarrow> get (del k s) k' = (if k' = k then None else get s k')"
    and ok_put: "ok s \<Longrightarrow> ok (put k v s)"
    and ok_del: "ok s \<Longrightarrow> ok (del k s)"
begin

lemma put_commute:
  assumes "ok s" "k \<noteq> k'"
  shows "get (put k v (put k' v' s)) = get (put k' v' (put k v s))"
  using assms by (auto simp: get_put ok_put)

lemma del_put:
  assumes "ok s"
  shows "get (del k (put k v s)) = get (del k s)"
  using assms by (auto simp: get_put get_del ok_put)

lemma get_put_fold:
  assumes "ok s"
  shows "ok (fold (\<lambda>(k, v). put k v) kvs s) \<and>
         get (fold (\<lambda>(k, v). put k v) kvs s) k =
           (case map_of (rev kvs) k of Some v \<Rightarrow> Some v | None \<Rightarrow> get s k)"
  using assms
proof (induction kvs arbitrary: s)
  case (Cons kv kvs)
  obtain a b where [simp]: "kv = (a, b)" by (cases kv)
  from Cons.IH[OF ok_put[OF Cons.prems, of a b]] Cons.prems show ?case
    by (auto simp: get_put map_of_append map_add_def split: option.splits)
qed simp

end

interpretation gomap: keyed_store mget mput mdel gwf
  by unfold_locales simp_all

end
