(* ===== verification/Jobs_Queue.thy ===== *)
theory Jobs_Queue
  imports AgentOS_Prelude
begin

text \<open>
  The background job queue and its worker (internal/jobs/queue.go, worker.go, errors.go).

  \<^item> \<open>job\<close> and \<open>memoryQueue\<close> mirror the structs \<open>Job\<close> and \<open>MemoryQueue\<close>; the operations \<open>Enqueue\<close>,
    \<open>evictLocked\<close>, \<open>Dequeue\<close>, \<open>Complete\<close>, \<open>Fail\<close> and \<open>backoff\<close> follow the methods. The clock reading
    \<open>now\<close>, the fresh identifier of \<open>id.New\<close> and the outcome of \<open>json.Marshal\<close> are arguments.
  \<^item> \<open>backoff\<close> multiplies in a 64-bit word, as \<open>time.Duration\<close> does.
  \<^item> \<open>poll\<close> is the worker's method over the \<open>Queue\<close> interface: the operations are arguments, and the
    locale \<open>job_queue\<close> states what the interface promises; it is interpreted on \<open>MemoryQueue\<close>.
  \<^item> \<open>queue_step\<close> is the step relation of the queue under arbitrary clients.
\<close>

subsection \<open>Model\<close>

datatype jobType = JobWebhook | JobDataExport | JobDataDelete | JobPurge | JobOther string

datatype jobStatus = StatusPending | StatusRunning | StatusCompleted | StatusFailed

datatype jobErr = ErrJobNotFound | ErrMarshal string | ErrBackend string

record job =
  job_ID :: string
  job_Type :: jobType
  job_Payload :: string
  job_Status :: jobStatus
  job_Attempts :: int
  job_MaxAttempts :: int
  job_NextRunAt :: time
  job_CreatedAt :: time
  job_LastError :: string

record enqueueOptions =
  eo_MaxAttempts :: int
  eo_Delay :: duration

definition WithMaxAttempts :: "int \<Rightarrow> enqueueOptions \<Rightarrow> enqueueOptions" where
  "WithMaxAttempts n o' = o'\<lparr>eo_MaxAttempts := n\<rparr>"

definition WithDelay :: "duration \<Rightarrow> enqueueOptions \<Rightarrow> enqueueOptions" where
  "WithDelay d o' = o'\<lparr>eo_Delay := d\<rparr>"

definition defaultEnqueueOptions :: enqueueOptions where
  "defaultEnqueueOptions = \<lparr>eo_MaxAttempts = 3, eo_Delay = 0\<rparr>"

definition memoryQueueMaxJobs :: nat where
  "memoryQueueMaxJobs = 10000"

record memoryQueue =
  mq_jobs :: "job list"

definition NewMemoryQueue :: memoryQueue where
  "NewMemoryQueue = \<lparr>mq_jobs = []\<rparr>"

definition finished :: "job \<Rightarrow> bool" where
  "finished j \<longleftrightarrow> job_Status j = StatusCompleted \<or> job_Status j = StatusFailed"

definition evictOne :: "job list \<Rightarrow> job list" where
  "evictOne js = (case remove_first finished js of Some js' \<Rightarrow> js' | None \<Rightarrow> tl js)"

lemma length_evictOne [simp]: "length (evictOne js) = length js - 1"
  by (auto simp: evictOne_def dest: remove_first_length split: option.split)

function evictLocked :: "job list \<Rightarrow> job list" where
  "evictLocked js = (if length js \<ge> memoryQueueMaxJobs then evictLocked (evictOne js) else js)"
  by pat_completeness auto
termination
  by (relation "measure length") (auto simp: memoryQueueMaxJobs_def)

declare evictLocked.simps [simp del]

definition Enqueue ::
  "time \<Rightarrow> string \<Rightarrow> string + string \<Rightarrow> jobType \<Rightarrow> (enqueueOptions \<Rightarrow> enqueueOptions) list
   \<Rightarrow> memoryQueue \<Rightarrow> (jobErr + string) \<times> memoryQueue" where
  "Enqueue now newID marshalled jobType opts q =
     (let o' = fold (\<lambda>fn acc. fn acc) opts defaultEnqueueOptions in
      case marshalled of
        Inl e \<Rightarrow> (Inl (ErrMarshal e), q)
      | Inr raw \<Rightarrow>
          let j = \<lparr>job_ID = newID, job_Type = jobType, job_Payload = raw, job_Status = StatusPending,
                   job_Attempts = 0, job_MaxAttempts = eo_MaxAttempts o',
                   job_NextRunAt = now + eo_Delay o', job_CreatedAt = now, job_LastError = []\<rparr> in
          (Inr newID, q\<lparr>mq_jobs := evictLocked (mq_jobs q) @ [j]\<rparr>))"

definition eligible :: "time \<Rightarrow> job \<Rightarrow> bool" where
  "eligible now j \<longleftrightarrow> job_Status j = StatusPending \<and> \<not> now < job_NextRunAt j"

definition Dequeue :: "time \<Rightarrow> memoryQueue \<Rightarrow> (jobErr + job option) \<times> memoryQueue" where
  "Dequeue now q =
     (case upd_first (eligible now)
             (\<lambda>j. j\<lparr>job_Status := StatusRunning, job_Attempts := job_Attempts j + 1\<rparr>) (mq_jobs q) of
        Some (j, js) \<Rightarrow> (Inr (Some j), q\<lparr>mq_jobs := js\<rparr>)
      | None \<Rightarrow> (Inr None, q))"

definition Complete :: "string \<Rightarrow> memoryQueue \<Rightarrow> jobErr option \<times> memoryQueue" where
  "Complete jobID q =
     (case upd_first (\<lambda>j. job_ID j = jobID) (\<lambda>j. j\<lparr>job_Status := StatusCompleted\<rparr>) (mq_jobs q) of
        Some (_, js) \<Rightarrow> (None, q\<lparr>mq_jobs := js\<rparr>)
      | None \<Rightarrow> (Some ErrJobNotFound, q))"

fun backoffLoop :: "nat \<Rightarrow> 64 word \<Rightarrow> 64 word" where
  "backoffLoop 0 d = d"
| "backoffLoop (Suc i) d = backoffLoop i (d * 3)"

definition backoff :: "int \<Rightarrow> 64 word" where
  "backoff attempt = backoffLoop (nat (attempt - 1)) (word_of_int (5 * second))"

definition failJob :: "time \<Rightarrow> string \<Rightarrow> job \<Rightarrow> job" where
  "failJob now errMsg j =
     (let j' = j\<lparr>job_LastError := errMsg\<rparr> in
      if job_Attempts j' < job_MaxAttempts j'
      then j'\<lparr>job_Status := StatusPending, job_NextRunAt := now + sint (backoff (job_Attempts j'))\<rparr>
      else j'\<lparr>job_Status := StatusFailed\<rparr>)"

definition Fail :: "time \<Rightarrow> string \<Rightarrow> string \<Rightarrow> memoryQueue \<Rightarrow> jobErr option \<times> memoryQueue" where
  "Fail now jobID errMsg q =
     (case upd_first (\<lambda>j. job_ID j = jobID) (failJob now errMsg) (mq_jobs q) of
        Some (_, js) \<Rightarrow> (None, q\<lparr>mq_jobs := js\<rparr>)
      | None \<Rightarrow> (Some ErrJobNotFound, q))"

subsubsection \<open>The worker\<close>

type_synonym handlerFunc = "job \<Rightarrow> string option"

definition RegisterHandler ::
  "jobType \<Rightarrow> handlerFunc \<Rightarrow> (jobType, handlerFunc) gomap \<Rightarrow> (jobType, handlerFunc) gomap" where
  "RegisterHandler jt fn handlers = mput jt fn handlers"

definition noHandlerMsg :: string where
  "noHandlerMsg = ''no handler registered for job type''"

definition poll ::
  "(time \<Rightarrow> 'q \<Rightarrow> (jobErr + job option) \<times> 'q) \<Rightarrow> (string \<Rightarrow> 'q \<Rightarrow> jobErr option \<times> 'q)
   \<Rightarrow> (time \<Rightarrow> string \<Rightarrow> string \<Rightarrow> 'q \<Rightarrow> jobErr option \<times> 'q)
   \<Rightarrow> (jobType, handlerFunc) gomap \<Rightarrow> time \<Rightarrow> time \<Rightarrow> 'q \<Rightarrow> 'q" where
  "poll dequeue markDone fail handlers now doneAt q =
     (case dequeue now q of
        (Inl _, q') \<Rightarrow> q'
      | (Inr None, q') \<Rightarrow> q'
      | (Inr (Some j), q') \<Rightarrow>
          (case mget handlers (job_Type j) of
             None \<Rightarrow> snd (fail doneAt (job_ID j) noHandlerMsg q')
           | Some handler \<Rightarrow>
               (case handler j of
                  Some hErr \<Rightarrow> snd (fail doneAt (job_ID j) hErr q')
                | None \<Rightarrow> snd (markDone (job_ID j) q'))))"

datatype loopEvent = Tick time time | CtxDone | WorkerDone

fun workerLoop :: "(time \<Rightarrow> time \<Rightarrow> 'q \<Rightarrow> 'q) \<Rightarrow> loopEvent list \<Rightarrow> 'q \<Rightarrow> 'q" where
  "workerLoop pollOnce [] q = q"
| "workerLoop pollOnce (Tick now doneAt # es) q = workerLoop pollOnce es (pollOnce now doneAt q)"
| "workerLoop pollOnce (CtxDone # es) q = q"
| "workerLoop pollOnce (WorkerDone # es) q = q"

subsubsection \<open>Steps of the queue\<close>

inductive queue_step :: "memoryQueue \<Rightarrow> memoryQueue \<Rightarrow> bool" where
  qs_enqueue: "queue_step q (snd (Enqueue now newID marshalled jt opts q))"
| qs_dequeue: "queue_step q (snd (Dequeue now q))"
| qs_complete: "queue_step q (snd (Complete jobID q))"
| qs_fail: "queue_step q (snd (Fail now jobID errMsg q))"

inductive_cases queue_stepE: "queue_step q q'"

definition jobOk :: "job \<Rightarrow> bool" where
  "jobOk j \<longleftrightarrow> 0 \<le> job_Attempts j \<and> job_Attempts j \<le> max 1 (job_MaxAttempts j) \<and>
     (job_Status j = StatusPending \<longrightarrow> job_Attempts j = 0 \<or> job_Attempts j < job_MaxAttempts j)"

definition queueInv :: "memoryQueue \<Rightarrow> bool" where
  "queueInv q \<longleftrightarrow> length (mq_jobs q) \<le> memoryQueueMaxJobs \<and> (\<forall>j\<in>set (mq_jobs q). jobOk j)"

subsubsection \<open>Views used in statements\<close>

definition uniqueIDs :: "memoryQueue \<Rightarrow> bool" where
  "uniqueIDs q \<longleftrightarrow> distinct (map job_ID (mq_jobs q))"

definition jobOf :: "memoryQueue \<Rightarrow> string \<Rightarrow> job option" where
  "jobOf q i = map_of (map (\<lambda>j. (job_ID j, j)) (mq_jobs q)) i"

definition runningIDs :: "memoryQueue \<Rightarrow> string set" where
  "runningIDs q = {i. \<exists>j. jobOf q i = Some j \<and> job_Status j = StatusRunning}"

definition statusView :: "memoryQueue \<Rightarrow> string \<Rightarrow> jobStatus option" where
  "statusView q i = map_option job_Status (jobOf q i)"

subsection \<open>Eviction\<close>

lemma evictOne_subset: "set (evictOne js) \<subseteq> set js"
  by (auto simp: evictOne_def dest: remove_first_set list.set_sel(2)[rotated] split: option.splits)
     (metis list.sel(2) list.set_sel(2))

lemma evictLocked_length: "length (evictLocked js) < memoryQueueMaxJobs"
proof (induction js rule: evictLocked.induct)
  case (1 js)
  then show ?case by (subst evictLocked.simps) auto
qed

lemma evictLocked_subset: "set (evictLocked js) \<subseteq> set js"
proof (induction js rule: evictLocked.induct)
  case (1 js)
  then show ?case
    using evictOne_subset[of js] by (subst evictLocked.simps) auto
qed

lemma evictLocked_below: "length js < memoryQueueMaxJobs \<Longrightarrow> evictLocked js = js"
  by (subst evictLocked.simps) simp

lemma evictLocked_at_cap:
  "length js = memoryQueueMaxJobs \<Longrightarrow> evictLocked js = evictOne js"
  by (subst evictLocked.simps) (simp add: evictLocked_below memoryQueueMaxJobs_def)

lemma evictOne_keeps_active:
  assumes "\<exists>j\<in>set js. finished j" "j \<in> set js" "\<not> finished j"
  shows "j \<in> set (evictOne js)"
proof -
  obtain js' where "remove_first finished js = Some js'"
    using assms(1) remove_first_None_iff[of finished js] by (cases "remove_first finished js") auto
  then show ?thesis using assms by (auto simp: evictOne_def elim!: remove_firstE)
qed

subsection \<open>Retry accounting\<close>

lemma jobOk_failJob: "jobOk j \<Longrightarrow> jobOk (failJob now e j)"
  by (auto simp: jobOk_def failJob_def Let_def)

lemma queueInv_Enqueue: "queueInv q \<Longrightarrow> queueInv (snd (Enqueue now i m jt opts q))"
  using evictLocked_length[of "mq_jobs q"] evictLocked_subset[of "mq_jobs q"]
  by (auto simp: queueInv_def Enqueue_def Let_def jobOk_def split: sum.split)

lemma queueInv_Dequeue: "queueInv q \<Longrightarrow> queueInv (snd (Dequeue now q))"
  by (auto simp: queueInv_def Dequeue_def eligible_def jobOk_def split: option.splits
           elim!: upd_firstE)

lemma queueInv_Complete: "queueInv q \<Longrightarrow> queueInv (snd (Complete i q))"
  by (auto simp: queueInv_def Complete_def jobOk_def split: option.splits elim!: upd_firstE)

lemma queueInv_Fail: "queueInv q \<Longrightarrow> queueInv (snd (Fail now i e q))"
  by (auto simp: queueInv_def Fail_def jobOk_failJob split: option.splits elim!: upd_firstE)

lemmas queueInv_ops = queueInv_Enqueue queueInv_Dequeue queueInv_Complete queueInv_Fail

interpretation jobq: inv_system "\<lambda>q. q = NewMemoryQueue" queue_step queueInv
proof
  show "s = NewMemoryQueue \<Longrightarrow> queueInv s" for s
    by (simp add: queueInv_def NewMemoryQueue_def)
  show "queueInv s \<Longrightarrow> queue_step s t \<Longrightarrow> queueInv t" for s t
    by (auto elim!: queue_stepE intro: queueInv_ops)
qed

subsection \<open>Backoff\<close>

lemma backoffLoop_mult: "backoffLoop n d = d * 3 ^ n"
  by (induction n arbitrary: d) (simp_all add: mult.assoc mult.commute)

lemma backoff_word: "1 \<le> a \<Longrightarrow> backoff a = word_of_int (5 * second * 3 ^ nat (a - 1))"
  by (simp add: backoff_def backoffLoop_mult)

lemma sint_backoff:
  assumes "1 \<le> a" "a \<le> 20"
  shows "sint (backoff a) = 5 * second * 3 ^ nat (a - 1)"
proof -
  have "(3::int) ^ nat (a - 1) \<le> 3 ^ 19" using assms by (intro power_increasing) auto
  then have "5 * second * 3 ^ nat (a - 1) < 2 ^ 63" "0 \<le> 5 * second * (3::int) ^ nat (a - 1)" by auto
  then show ?thesis
    using assms sint_word_of_int64[of "5 * second * 3 ^ nat (a - 1)"] by (simp only: backoff_word)
qed

subsection \<open>The queue interface of the worker\<close>

locale job_queue =
  fixes dequeue :: "time \<Rightarrow> 'q \<Rightarrow> (jobErr + job option) \<times> 'q"
    and markDone :: "string \<Rightarrow> 'q \<Rightarrow> jobErr option \<times> 'q"
    and fail :: "time \<Rightarrow> string \<Rightarrow> string \<Rightarrow> 'q \<Rightarrow> jobErr option \<times> 'q"
    and view :: "'q \<Rightarrow> string \<Rightarrow> jobStatus option"
    and ok :: "'q \<Rightarrow> bool"
  assumes deq_none: "ok q \<Longrightarrow> \<forall>j. fst (dequeue now q) \<noteq> Inr (Some j) \<Longrightarrow>
      ok (snd (dequeue now q)) \<and> view (snd (dequeue now q)) = view q"
    and deq_some: "ok q \<Longrightarrow> fst (dequeue now q) = Inr (Some j) \<Longrightarrow>
      ok (snd (dequeue now q)) \<and> view q (job_ID j) = Some StatusPending \<and>
      view (snd (dequeue now q)) = (view q)(job_ID j \<mapsto> StatusRunning)"
    and complete_ok: "ok q \<Longrightarrow> view q i \<noteq> None \<Longrightarrow>
      ok (snd (markDone i q)) \<and> view (snd (markDone i q)) = (view q)(i \<mapsto> StatusCompleted)"
    and fail_ok: "ok q \<Longrightarrow> view q i \<noteq> None \<Longrightarrow> ok (snd (fail now i e q)) \<and>
      (\<exists>s\<in>{StatusPending, StatusFailed}. view (snd (fail now i e q)) = (view q)(i \<mapsto> s))"
begin

abbreviation running :: "'q \<Rightarrow> string set" where
  "running q \<equiv> {i. view q i = Some StatusRunning}"

lemma poll_view:
  assumes "ok q"
  shows "ok (poll dequeue markDone fail handlers now doneAt q) \<and>
    (view (poll dequeue markDone fail handlers now doneAt q) = view q \<or>
     (\<exists>i s. view q i = Some StatusPending \<and> s \<noteq> StatusRunning \<and>
        view (poll dequeue markDone fail handlers now doneAt q) = (view q)(i \<mapsto> s)))"
proof (cases "\<exists>j. fst (dequeue now q) = Inr (Some j)")
  case False
  with deq_none[OF assms, of now] show ?thesis
    by (cases "dequeue now q") (auto simp: poll_def split: sum.splits option.splits)
next
  case True
  then obtain j q' where q': "dequeue now q = (Inr (Some j), q')" by (metis prod.collapse)
  with deq_some[OF assms, of now j]
  have *: "ok q'" "view q (job_ID j) = Some StatusPending"
    "view q' = (view q)(job_ID j \<mapsto> StatusRunning)" by auto
  have f: "ok (snd (fail doneAt (job_ID j) e q')) \<and>
    (\<exists>s\<in>{StatusPending, StatusFailed}. view (snd (fail doneAt (job_ID j) e q')) = (view q)(job_ID j \<mapsto> s))" for e
    using fail_ok[OF *(1), of "job_ID j" doneAt e] *(3) by auto
  have c: "ok (snd (markDone (job_ID j) q')) \<and>
    view (snd (markDone (job_ID j) q')) = (view q)(job_ID j \<mapsto> StatusCompleted)"
    using complete_ok[OF *(1), of "job_ID j"] *(3) by auto
  show ?thesis
  proof (cases "poll dequeue markDone fail handlers now doneAt q = snd (markDone (job_ID j) q')")
    case True
    then show ?thesis using c *(2) by auto
  next
    case False
    then obtain e where "poll dequeue markDone fail handlers now doneAt q = snd (fail doneAt (job_ID j) e q')"
      by (force simp: poll_def q' split: option.splits)
    then show ?thesis using f[of e] *(2) by fastforce
  qed
qed

lemma poll_running:
  assumes "ok q"
  shows "running (poll dequeue markDone fail handlers now doneAt q) = running q"
  using poll_view[OF assms, of handlers now doneAt] by (auto split: if_splits)

lemma workerLoop_running:
  "ok q \<Longrightarrow> ok (workerLoop (poll dequeue markDone fail handlers) es q) \<and>
     running (workerLoop (poll dequeue markDone fail handlers) es q) = running q"
proof (induction es arbitrary: q)
  case (Cons e es)
  show ?case
  proof (cases e)
    case (Tick now doneAt)
    have "ok (poll dequeue markDone fail handlers now doneAt q)"
      using poll_view[OF Cons.prems] by blast
    from Cons.IH[OF this] show ?thesis by (simp add: Tick poll_running[OF Cons.prems])
  qed (use Cons.prems in auto)
qed simp

end

lemma jobOf_append: "jobOf q i = Some j \<Longrightarrow> job_ID j = i \<and> j \<in> set (mq_jobs q)"
  by (auto simp: jobOf_def dest!: map_of_SomeD)

lemma jobOf_upd_first:
  assumes "uniqueIDs q" "upd_first P f (mq_jobs q) = Some (y, js)" "\<And>j. job_ID (f j) = job_ID j"
  shows "uniqueIDs (q\<lparr>mq_jobs := js\<rparr>) \<and>
    (\<exists>x. jobOf q (job_ID x) = Some x \<and> P x \<and> y = f x \<and>
         jobOf (q\<lparr>mq_jobs := js\<rparr>) = (jobOf q)(job_ID x \<mapsto> f x))"
proof -
  from assms(2) obtain us x vs where
    "mq_jobs q = us @ x # vs" "P x" "y = f x" "js = us @ y # vs" by (rule upd_firstE)
  moreover have "map_of (map (\<lambda>j. (job_ID j, j)) us) (job_ID x) = None"
    using assms(1) calculation(1) by (force simp: uniqueIDs_def map_of_eq_None_iff)
  ultimately show ?thesis
    using assms(1,3)
    by (intro conjI exI[of _ x]) (auto simp: uniqueIDs_def jobOf_def map_add_def fun_eq_iff
        split: option.splits)
qed

lemma jobOf_None: "jobOf q i = None \<longleftrightarrow> (\<forall>j\<in>set (mq_jobs q). job_ID j \<noteq> i)"
  by (force simp: jobOf_def map_of_eq_None_iff)

lemma job_ID_failJob [simp]: "job_ID (failJob now e j) = job_ID j"
  by (simp add: failJob_def Let_def)

lemma failJob_status: "job_Status (failJob now e j) \<in> {StatusPending, StatusFailed}"
  by (simp add: failJob_def Let_def)

lemma statusView_Complete:
  assumes "uniqueIDs q" "statusView q i \<noteq> None"
  shows "uniqueIDs (snd (Complete i q)) \<and>
    statusView (snd (Complete i q)) = (statusView q)(i \<mapsto> StatusCompleted)"
proof (cases "upd_first (\<lambda>j. job_ID j = i) (\<lambda>j. j\<lparr>job_Status := StatusCompleted\<rparr>) (mq_jobs q)")
  case None
  with assms show ?thesis by (auto simp: statusView_def upd_first_None_iff dest: jobOf_append)
next
  case (Some a)
  then obtain y js where "upd_first (\<lambda>j. job_ID j = i) (\<lambda>j. j\<lparr>job_Status := StatusCompleted\<rparr>)
    (mq_jobs q) = Some (y, js)" by (cases a) auto
  from jobOf_upd_first[OF assms(1) this] this show ?thesis
    by (auto simp: Complete_def statusView_def fun_eq_iff)
qed

lemma statusView_Fail:
  assumes "uniqueIDs q" "statusView q i \<noteq> None"
  shows "uniqueIDs (snd (Fail now i e q)) \<and>
    (\<exists>s\<in>{StatusPending, StatusFailed}. statusView (snd (Fail now i e q)) = (statusView q)(i \<mapsto> s))"
proof (cases "upd_first (\<lambda>j. job_ID j = i) (failJob now e) (mq_jobs q)")
  case None
  with assms show ?thesis by (auto simp: statusView_def upd_first_None_iff dest: jobOf_append)
next
  case (Some a)
  then obtain y js where u: "upd_first (\<lambda>j. job_ID j = i) (failJob now e) (mq_jobs q) = Some (y, js)"
    by (cases a) auto
  from jobOf_upd_first[OF assms(1) u] obtain x where "job_ID x = i" "uniqueIDs (q\<lparr>mq_jobs := js\<rparr>)"
    "jobOf (q\<lparr>mq_jobs := js\<rparr>) = (jobOf q)(i \<mapsto> failJob now e x)" by auto
  then show ?thesis
    using u failJob_status[of now e x]
    by (intro conjI bexI[of _ "job_Status (failJob now e x)"])
       (auto simp: Fail_def statusView_def fun_eq_iff)
qed

lemma statusView_Dequeue_some:
  assumes "uniqueIDs q" "fst (Dequeue now q) = Inr (Some j)"
  shows "uniqueIDs (snd (Dequeue now q)) \<and> statusView q (job_ID j) = Some StatusPending \<and>
    statusView (snd (Dequeue now q)) = (statusView q)(job_ID j \<mapsto> StatusRunning)"
proof -
  obtain js where u: "upd_first (eligible now)
      (\<lambda>j. j\<lparr>job_Status := StatusRunning, job_Attempts := job_Attempts j + 1\<rparr>) (mq_jobs q) = Some (j, js)"
    using assms(2) by (auto simp: Dequeue_def split: option.splits)
  from jobOf_upd_first[OF assms(1) u] u show ?thesis
    by (auto simp: Dequeue_def statusView_def fun_eq_iff eligible_def)
qed

interpretation mq: job_queue Dequeue Complete Fail statusView uniqueIDs
proof
  show "uniqueIDs q \<Longrightarrow> \<forall>j. fst (Dequeue now q) \<noteq> Inr (Some j) \<Longrightarrow>
      uniqueIDs (snd (Dequeue now q)) \<and> statusView (snd (Dequeue now q)) = statusView q" for q now
    by (auto simp: Dequeue_def split: option.splits)
qed (use statusView_Dequeue_some statusView_Complete statusView_Fail in blast)+

lemma runningIDs_view: "runningIDs q = {i. statusView q i = Some StatusRunning}"
  by (auto simp: runningIDs_def statusView_def)

subsection \<open>Properties\<close>

text \<open>In every state the queue can reach from the empty queue by any sequence of Enqueue, Dequeue,
  Complete and Fail calls, it holds at most memoryQueueMaxJobs jobs, and no job has been attempted more
  often than its MaxAttempts allows (a job with MaxAttempts below one is still tried once).\<close>

theorem queue_reachable_bounded:
  assumes "reachable (\<lambda>q. q = NewMemoryQueue) queue_step q"
  shows "length (mq_jobs q) \<le> 10000 \<and>
    (\<forall>j\<in>set (mq_jobs q). 0 \<le> job_Attempts j \<and> job_Attempts j \<le> max 1 (job_MaxAttempts j))"
  using jobq.inv_reachable[OF assms] by (auto simp: queueInv_def jobOk_def memoryQueueMaxJobs_def)

theorem queue_reachable_bounded_witness:
  "length (mq_jobs (snd (Enqueue 5 ''job_1'' (Inr ''{}'') JobPurge [] NewMemoryQueue))) \<le> 10000"
proof -
  have "reachable (\<lambda>q. q = NewMemoryQueue) queue_step
      (snd (Enqueue 5 ''job_1'' (Inr ''{}'') JobPurge [] NewMemoryQueue))"
    by (rule reach_step[where s = NewMemoryQueue]) (auto intro: reach_init qs_enqueue)
  from queue_reachable_bounded[OF this] show ?thesis by blast
qed

text \<open>Enqueue at capacity: when the queue holds exactly memoryQueueMaxJobs jobs and at least one of
  them is completed or failed, every pending or running job is kept and the new job is appended as the
  last one; only finished jobs are ever sacrificed.\<close>

theorem Enqueue_keeps_active:
  assumes "length (mq_jobs q) = 10000" "\<exists>j\<in>set (mq_jobs q). finished j"
  shows "fst (Enqueue now i (Inr raw) jt opts q) = Inr i \<and>
    length (mq_jobs (snd (Enqueue now i (Inr raw) jt opts q))) = 10000 \<and>
    job_ID (last (mq_jobs (snd (Enqueue now i (Inr raw) jt opts q)))) = i \<and>
    (\<forall>j\<in>set (mq_jobs q). \<not> finished j \<longrightarrow> j \<in> set (mq_jobs (snd (Enqueue now i (Inr raw) jt opts q))))"
  using assms evictOne_keeps_active[OF assms(2)]
  by (auto simp: Enqueue_def Let_def evictLocked_at_cap memoryQueueMaxJobs_def)

definition sampleJob :: "string \<Rightarrow> jobStatus \<Rightarrow> job" where
  "sampleJob i st = \<lparr>job_ID = i, job_Type = JobPurge, job_Payload = [], job_Status = st,
     job_Attempts = 0, job_MaxAttempts = 3, job_NextRunAt = 0, job_CreatedAt = 0, job_LastError = []\<rparr>"

theorem Enqueue_keeps_active_witness:
  "sampleJob ''a'' StatusPending \<in> set (mq_jobs (snd (Enqueue 5 ''n'' (Inr []) JobPurge []
     \<lparr>mq_jobs = sampleJob ''a'' StatusPending # replicate 9999 (sampleJob ''b'' StatusFailed)\<rparr>)))"
proof -
  let ?q = "\<lparr>mq_jobs = sampleJob ''a'' StatusPending # replicate 9999 (sampleJob ''b'' StatusFailed)\<rparr>"
  have "length (mq_jobs ?q) = 10000" "\<exists>j\<in>set (mq_jobs ?q). finished j"
    by (simp_all add: finished_def sampleJob_def)
  from Enqueue_keeps_active[OF this, of 5 "''n''" "[]" JobPurge "[]"] show ?thesis
    by (simp add: finished_def sampleJob_def)
qed

text \<open>Dequeue is first-in first-out among the eligible jobs: if it returns a job, that job stood at a
  position before which no job is pending and due, it is now running with one more attempt, and nothing
  else in the queue has changed.\<close>

theorem Dequeue_fifo:
  assumes "fst (Dequeue now q) = Inr (Some j)"
  shows "\<exists>us x vs. mq_jobs q = us @ x # vs \<and> (\<forall>u\<in>set us. \<not> eligible now u) \<and> eligible now x \<and>
    j = x\<lparr>job_Status := StatusRunning, job_Attempts := job_Attempts x + 1\<rparr> \<and>
    mq_jobs (snd (Dequeue now q)) = us @ j # vs"
proof -
  obtain js where u: "upd_first (eligible now)
      (\<lambda>j. j\<lparr>job_Status := StatusRunning, job_Attempts := job_Attempts j + 1\<rparr>) (mq_jobs q) = Some (j, js)"
    using assms by (auto simp: Dequeue_def split: option.splits)
  then have "mq_jobs (snd (Dequeue now q)) = js" by (simp add: Dequeue_def)
  with u[unfolded upd_first_Some_iff] show ?thesis by metis
qed

theorem Dequeue_fifo_witness:
  "\<exists>us x vs. [sampleJob ''a'' StatusRunning, sampleJob ''b'' StatusPending] = us @ x # vs \<and>
     (\<forall>u\<in>set us. \<not> eligible 7 u) \<and> eligible 7 x"
proof -
  have "fst (Dequeue 7 \<lparr>mq_jobs = [sampleJob ''a'' StatusRunning, sampleJob ''b'' StatusPending]\<rparr>) =
    Inr (Some ((sampleJob ''b'' StatusPending)\<lparr>job_Status := StatusRunning, job_Attempts := 1\<rparr>))"
    by (simp add: Dequeue_def eligible_def sampleJob_def)
  from Dequeue_fifo[OF this] show ?thesis by (metis memoryQueue.select_convs(1))
qed

text \<open>C20. The worker never leaves a job behind in the running state: over any sequence of ticks and stop
  events, with any handlers (missing, failing or succeeding), the set of running jobs after the loop is
  the set before it, when job identifiers are unique.\<close>

theorem workerLoop_no_stuck_job:
  assumes "uniqueIDs q"
  shows "runningIDs (workerLoop (poll Dequeue Complete Fail handlers) es q) = runningIDs q"
  using mq.workerLoop_running[OF assms] by (simp add: runningIDs_view)

theorem workerLoop_no_stuck_job_witness:
  "runningIDs (workerLoop (poll Dequeue Complete Fail [(JobPurge, \<lambda>j. Some ''boom'')]) [Tick 5 6, WorkerDone]
     \<lparr>mq_jobs = [sampleJob ''a'' StatusPending]\<rparr>) = runningIDs \<lparr>mq_jobs = [sampleJob ''a'' StatusPending]\<rparr>"
  by (rule workerLoop_no_stuck_job) (simp add: uniqueIDs_def)

text \<open>The retry delay of attempt number a is 5 s times 3 to the power a - 1, without overflow, for
  every attempt up to the twentieth; at the twenty-first the 64-bit duration has wrapped to a negative
  value, so the job is rescheduled in the past.\<close>

theorem backoff_closed_form:
  "(\<forall>a. 1 \<le> a \<longrightarrow> a \<le> 20 \<longrightarrow> sint (backoff a) = 5 * second * 3 ^ nat (a - 1)) \<and> sint (backoff 21) < 0"
proof -
  have "sint (backoff 21) < 0" by (simp add: backoff_word)
  then show ?thesis using sint_backoff by blast
qed

theorem backoff_closed_form_witness: "sint (backoff 3) = 45 * second"
  using spec[OF conjunct1[OF backoff_closed_form], of 3] by simp

end
