(* ===== verification/Quota_Limiter.thy ===== *)
theory Quota_Limiter
  imports AgentOS_Prelude
begin

text \<open>
  Per-tenant quotas (internal/quota/limiter.go, backend.go, token_budget.go).

  \<^item> \<open>memoryBackend\<close> is the struct \<open>MemoryBackend\<close>: token buckets, concurrency counters and the call
    counter that triggers the sweep. The bucket level is a \<open>rat\<close> where the code has a float64, so rounding
    of the refill is not modelled.
  \<^item> \<open>limiter\<close> wraps a backend; the locale \<open>quota_backend\<close> states the counter contract of the
    \<open>QuotaBackend\<close> interface and is interpreted on \<open>memoryBackend\<close>.
  \<^item> \<open>level\<close> is the abstract specification of a token bucket: the tokens a tenant would see at a time.
    \<open>AllowQPS\<close> refines it, sweeps included, tenant by tenant.
  \<^item> \<open>tokenBudget\<close> is the hourly token budget; the persistent recorder (PostgreSQL) is an argument: its
    answer to \<open>HourlyUsage\<close>, and the rows given to \<open>Record\<close> as an output.
\<close>

subsection \<open>Model\<close>

definition bucketIdleTTL :: duration where "bucketIdleTTL = hour"

definition limiterSweepEvery :: int where "limiterSweepEvery = 100"

record bucket =
  bk_tokens :: rat
  bk_last :: time
  bk_lastAccess :: time

record memoryBackend =
  mb_buckets :: "(string, bucket) gomap"
  mb_concurrent :: "(string, int) gomap"
  mb_allowCount :: int

record 'b limiter =
  lim_backend :: 'b
  lim_qps :: int
  lim_maxConcurrent :: int

definition NewMemoryBackend :: memoryBackend where
  "NewMemoryBackend = \<lparr>mb_buckets = [], mb_concurrent = [], mb_allowCount = 0\<rparr>"

definition envInt :: "(string \<Rightarrow> string) \<Rightarrow> string \<Rightarrow> int \<Rightarrow> int" where
  "envInt getenv key def =
     (let v = getenv key in
      if v = [] then def
      else case Atoi v of None \<Rightarrow> def | Some i \<Rightarrow> if i \<le> 0 then def else i)"

definition NewFromEnv ::
  "(string \<Rightarrow> string) \<Rightarrow> string \<Rightarrow> string \<Rightarrow> int \<Rightarrow> int \<Rightarrow> memoryBackend limiter" where
  "NewFromEnv getenv qpsEnv concurrentEnv defaultQPS defaultConcurrent =
     \<lparr>lim_backend = NewMemoryBackend, lim_qps = envInt getenv qpsEnv defaultQPS,
      lim_maxConcurrent = envInt getenv concurrentEnv defaultConcurrent\<rparr>"

definition NewFromEnvWithDB ::
  "(string \<Rightarrow> string) \<Rightarrow> string \<Rightarrow> string \<Rightarrow> int \<Rightarrow> int \<Rightarrow> 'pg option \<Rightarrow> (memoryBackend + 'pg) limiter" where
  "NewFromEnvWithDB getenv qpsEnv concurrentEnv defaultQPS defaultConcurrent db =
     (let backend = (if getenv ''AGENTOS_QUOTA_BACKEND'' = ''postgres''
                     then (case db of None \<Rightarrow> Inl NewMemoryBackend | Some pg \<Rightarrow> Inr pg)
                     else Inl NewMemoryBackend) in
      \<lparr>lim_backend = backend, lim_qps = envInt getenv qpsEnv defaultQPS,
       lim_maxConcurrent = envInt getenv concurrentEnv defaultConcurrent\<rparr>)"

definition sweepLocked :: "time \<Rightarrow> memoryBackend \<Rightarrow> memoryBackend" where
  "sweepLocked now m =
     (let cutoff = now - bucketIdleTTL;
          bs = mfilter (\<lambda>tenant b. \<not> bk_lastAccess b < cutoff) (mb_buckets m);
          cs = mfilter (\<lambda>tenant count. \<not> (count \<le> 0 \<and> mget bs tenant = None)) (mb_concurrent m) in
      m\<lparr>mb_buckets := bs, mb_concurrent := cs\<rparr>)"

definition elapsedSeconds :: "time \<Rightarrow> time \<Rightarrow> rat" where
  "elapsedSeconds t1 t2 = rat_of_int (t2 - t1) / rat_of_int second"

definition refillBucket :: "int \<Rightarrow> time \<Rightarrow> bucket \<Rightarrow> rat" where
  "refillBucket qps now b =
     (let tokens = bk_tokens b + elapsedSeconds (bk_last b) now * rat_of_int qps in
      if tokens > rat_of_int qps then rat_of_int qps else tokens)"

definition AllowQPS :: "time \<Rightarrow> string \<Rightarrow> int \<Rightarrow> memoryBackend \<Rightarrow> bool \<times> memoryBackend" where
  "AllowQPS now tenant qps m0 =
     (let m1 = m0\<lparr>mb_allowCount := mb_allowCount m0 + 1\<rparr>;
          m = (if mb_allowCount m1 mod limiterSweepEvery = 0 then sweepLocked now m1 else m1);
          b = (case mget (mb_buckets m) tenant of
                 Some b \<Rightarrow> b
               | None \<Rightarrow> \<lparr>bk_tokens = rat_of_int qps, bk_last = now, bk_lastAccess = now\<rparr>);
          tokens = refillBucket qps now b in
      if tokens < 1
      then (False, m\<lparr>mb_buckets := mput tenant \<lparr>bk_tokens = tokens, bk_last = now, bk_lastAccess = now\<rparr>
                                       (mb_buckets m)\<rparr>)
      else (True, m\<lparr>mb_buckets := mput tenant \<lparr>bk_tokens = tokens - 1, bk_last = now, bk_lastAccess = now\<rparr>
                                      (mb_buckets m)\<rparr>))"

definition TryIncConcurrent :: "string \<Rightarrow> int \<Rightarrow> memoryBackend \<Rightarrow> bool \<times> memoryBackend" where
  "TryIncConcurrent tenant max' m =
     (let cur = zget 0 (mb_concurrent m) tenant in
      if cur \<ge> max' then (False, m)
      else (True, m\<lparr>mb_concurrent := mput tenant (cur + 1) (mb_concurrent m)\<rparr>))"

definition DecConcurrent :: "string \<Rightarrow> memoryBackend \<Rightarrow> memoryBackend" where
  "DecConcurrent tenant m =
     (let cur = zget 0 (mb_concurrent m) tenant - 1;
          cur' = (if cur < 0 then 0 else cur) in
      m\<lparr>mb_concurrent := mput tenant cur' (mb_concurrent m)\<rparr>)"

definition WithInitialConcurrent :: "(string, int) gomap \<Rightarrow> memoryBackend \<Rightarrow> memoryBackend" where
  "WithInitialConcurrent counts m =
     m\<lparr>mb_concurrent := fold (\<lambda>(tenant, count). mput tenant count) counts (mb_concurrent m)\<rparr>"

subsubsection \<open>The limiter over any backend\<close>

definition Limiter_TryIncConcurrent ::
  "(string \<Rightarrow> int \<Rightarrow> 'b \<Rightarrow> bool \<times> 'b) \<Rightarrow> string \<Rightarrow> 'b limiter \<Rightarrow> bool \<times> 'b limiter" where
  "Limiter_TryIncConcurrent tryInc tenant l =
     (let (ok, b) = tryInc tenant (lim_maxConcurrent l) (lim_backend l) in (ok, l\<lparr>lim_backend := b\<rparr>))"

definition Limiter_DecConcurrent ::
  "(string \<Rightarrow> 'b \<Rightarrow> 'b) \<Rightarrow> string \<Rightarrow> 'b limiter \<Rightarrow> 'b limiter" where
  "Limiter_DecConcurrent dec tenant l = l\<lparr>lim_backend := dec tenant (lim_backend l)\<rparr>"

definition Limiter_AllowQPS ::
  "(time \<Rightarrow> string \<Rightarrow> int \<Rightarrow> 'b \<Rightarrow> bool \<times> 'b) \<Rightarrow> time \<Rightarrow> string \<Rightarrow> 'b limiter \<Rightarrow> bool \<times> 'b limiter" where
  "Limiter_AllowQPS allow now tenant l =
     (let (ok, b) = allow now tenant (lim_qps l) (lim_backend l) in (ok, l\<lparr>lim_backend := b\<rparr>))"

datatype slotOp = Acquire string | Release string

fun slotStep :: "(string \<Rightarrow> int \<Rightarrow> 'b \<Rightarrow> bool \<times> 'b) \<Rightarrow> (string \<Rightarrow> 'b \<Rightarrow> 'b) \<Rightarrow> slotOp \<Rightarrow> 'b limiter \<Rightarrow> 'b limiter" where
  "slotStep tryInc dec (Acquire t) l = snd (Limiter_TryIncConcurrent tryInc t l)"
| "slotStep tryInc dec (Release t) l = Limiter_DecConcurrent dec t l"

subsubsection \<open>Traces of QPS checks\<close>

fun allowTrace :: "int \<Rightarrow> (time \<times> string) list \<Rightarrow> memoryBackend \<Rightarrow> bool list \<times> memoryBackend" where
  "allowTrace qps [] m = ([], m)"
| "allowTrace qps ((now, tenant) # cs) m =
     (let (ok, m') = AllowQPS now tenant qps m; (oks, m'') = allowTrace qps cs m' in (ok # oks, m''))"

definition allowedOf :: "string \<Rightarrow> (time \<times> string) list \<Rightarrow> bool list \<Rightarrow> nat" where
  "allowedOf tenant cs oks = length (filter (\<lambda>((_, t), ok). ok \<and> t = tenant) (zip cs oks))"

subsubsection \<open>Abstract token bucket\<close>

definition level :: "int \<Rightarrow> memoryBackend \<Rightarrow> string \<Rightarrow> time \<Rightarrow> rat" where
  "level qps m tenant now =
     (case mget (mb_buckets m) tenant of None \<Rightarrow> rat_of_int qps | Some b \<Rightarrow> refillBucket qps now b)"

definition preAllow :: "time \<Rightarrow> memoryBackend \<Rightarrow> memoryBackend" where
  "preAllow now m0 = (let m1 = m0\<lparr>mb_allowCount := mb_allowCount m0 + 1\<rparr> in
     if mb_allowCount m1 mod limiterSweepEvery = 0 then sweepLocked now m1 else m1)"

definition bucketOk :: "int \<Rightarrow> time \<Rightarrow> bucket \<Rightarrow> bool" where
  "bucketOk qps now b \<longleftrightarrow>
     0 \<le> bk_tokens b \<and> bk_tokens b \<le> rat_of_int qps \<and> bk_lastAccess b = bk_last b \<and> bk_last b \<le> now"

definition backendOk :: "int \<Rightarrow> time \<Rightarrow> memoryBackend \<Rightarrow> bool" where
  "backendOk qps now m \<longleftrightarrow> gwf (mb_buckets m) \<and> gwf (mb_concurrent m) \<and>
     (\<forall>t b. mget (mb_buckets m) t = Some b \<longrightarrow> bucketOk qps now b)"

subsubsection \<open>Hourly token budget\<close>

record tokenWindow =
  tw_tokens :: int
  tw_windowEnd :: time

record tokenBudget =
  tb_windows :: "(string, tokenWindow) gomap"
  tb_limit :: int

type_synonym hourlyUsage = "string \<Rightarrow> time \<Rightarrow> string + int"

definition NewTokenBudget :: "int \<Rightarrow> tokenBudget" where
  "NewTokenBudget limit = \<lparr>tb_windows = [], tb_limit = limit\<rparr>"

definition NewTokenBudgetFromEnv :: "(string \<Rightarrow> string) \<Rightarrow> tokenBudget" where
  "NewTokenBudgetFromEnv getenv = NewTokenBudget (envInt getenv ''AGENTOS_QUOTA_HOURLY_TOKENS'' 0)"

definition getOrCreateWindow ::
  "hourlyUsage option \<Rightarrow> time \<Rightarrow> string \<Rightarrow> tokenBudget \<Rightarrow> tokenWindow \<times> tokenBudget" where
  "getOrCreateWindow store now tenant tb =
     (let create =
        (let ws = mfilter (\<lambda>_ tw. \<not> tw_windowEnd tw < now) (mdel tenant (tb_windows tb));
             initialTokens = (case store of None \<Rightarrow> 0
                              | Some usage \<Rightarrow> (case usage tenant now of Inr u \<Rightarrow> u | Inl _ \<Rightarrow> 0));
             w = \<lparr>tw_tokens = initialTokens, tw_windowEnd = now + hour\<rparr> in
         (w, tb\<lparr>tb_windows := mput tenant w ws\<rparr>)) in
      case mget (tb_windows tb) tenant of
        None \<Rightarrow> create
      | Some w \<Rightarrow> if tw_windowEnd w < now then create else (w, tb))"

definition CheckBudget :: "hourlyUsage option \<Rightarrow> time \<Rightarrow> string \<Rightarrow> tokenBudget \<Rightarrow> bool \<times> tokenBudget" where
  "CheckBudget store now tenant tb =
     (if tb_limit tb \<le> 0 then (True, tb)
      else let (w, tb') = getOrCreateWindow store now tenant tb in (tw_tokens w < tb_limit tb, tb'))"

definition Remaining :: "hourlyUsage option \<Rightarrow> time \<Rightarrow> string \<Rightarrow> tokenBudget \<Rightarrow> int \<times> tokenBudget" where
  "Remaining store now tenant tb =
     (if tb_limit tb \<le> 0 then (-1, tb)
      else let (w, tb') = getOrCreateWindow store now tenant tb; rem = tb_limit tb - tw_tokens w in
           (if rem < 0 then 0 else rem, tb'))"

definition RecordTokens ::
  "hourlyUsage option \<Rightarrow> time \<Rightarrow> string \<Rightarrow> int \<Rightarrow> tokenBudget
   \<Rightarrow> bool \<times> tokenBudget \<times> (string \<times> int) option" where
  "RecordTokens store now tenant tokens tb =
     (let persisted = (if store = None then None else Some (tenant, tokens)) in
      if tb_limit tb \<le> 0 then (True, tb, persisted)
      else let (w, tb') = getOrCreateWindow store now tenant tb;
               w' = w\<lparr>tw_tokens := tw_tokens w + tokens\<rparr> in
           (tw_tokens w' \<le> tb_limit tb, tb'\<lparr>tb_windows := mput tenant w' (tb_windows tb')\<rparr>, persisted))"

definition windowUse :: "time \<Rightarrow> string \<Rightarrow> tokenBudget \<Rightarrow> int" where
  "windowUse now tenant tb =
     (case mget (tb_windows tb) tenant of None \<Rightarrow> 0 | Some w \<Rightarrow> if tw_windowEnd w < now then 0 else tw_tokens w)"

subsection \<open>The token bucket refines its abstract level\<close>

lemma elapsedSeconds_hour: "elapsedSeconds (now - d) now = rat_of_int d / rat_of_int second"
  by (simp add: elapsedSeconds_def)

lemma elapsedSeconds_nonneg: "t1 \<le> t2 \<Longrightarrow> 0 \<le> elapsedSeconds t1 t2"
  by (simp add: elapsedSeconds_def)

lemma elapsedSeconds_add: "elapsedSeconds t1 t2 + elapsedSeconds t2 t3 = elapsedSeconds t1 t3"
  by (simp add: elapsedSeconds_def field_simps)

lemma refill_le: "refillBucket qps now b \<le> rat_of_int qps"
  by (simp add: refillBucket_def Let_def)

lemma refill_nonneg: "0 \<le> qps \<Longrightarrow> bucketOk qps now b \<Longrightarrow> 0 \<le> refillBucket qps now b"
  by (simp add: refillBucket_def Let_def bucketOk_def elapsedSeconds_nonneg)

lemma refill_idle:
  assumes "0 \<le> qps" "bucketOk qps now b" "bk_lastAccess b < now - bucketIdleTTL"
  shows "refillBucket qps now b = rat_of_int qps"
proof -
  have "1 \<le> elapsedSeconds (bk_last b) now"
    using assms(2,3) by (simp add: elapsedSeconds_def bucketOk_def bucketIdleTTL_def)
  then have "1 * rat_of_int qps \<le> elapsedSeconds (bk_last b) now * rat_of_int qps"
    using assms(1) by (intro mult_right_mono) auto
  then have "rat_of_int qps \<le> bk_tokens b + elapsedSeconds (bk_last b) now * rat_of_int qps"
    using assms(2) by (simp add: bucketOk_def)
  then show ?thesis by (simp add: refillBucket_def Let_def)
qed

lemma refill_later:
  assumes "0 \<le> qps" "t1 \<le> t2"
  shows "refillBucket qps t2 b \<le> refillBucket qps t1 b + elapsedSeconds t1 t2 * rat_of_int qps"
proof -
  have "elapsedSeconds (bk_last b) t2 * rat_of_int qps =
        elapsedSeconds (bk_last b) t1 * rat_of_int qps + elapsedSeconds t1 t2 * rat_of_int qps"
    by (simp add: elapsedSeconds_add[of "bk_last b" t1 t2, symmetric] distrib_right)
  moreover have "0 \<le> elapsedSeconds t1 t2 * rat_of_int qps"
    using assms by (simp add: elapsedSeconds_nonneg)
  ultimately show ?thesis by (auto simp: refillBucket_def Let_def)
qed

lemma level_later:
  "0 \<le> qps \<Longrightarrow> t1 \<le> t2 \<Longrightarrow> level qps m t t2 \<le> level qps m t t1 + elapsedSeconds t1 t2 * rat_of_int qps"
  by (auto simp: level_def refill_later elapsedSeconds_nonneg split: option.split)

lemma backendOk_sweep: "backendOk qps now m \<Longrightarrow> backendOk qps now (sweepLocked now m)"
  by (auto simp: backendOk_def sweepLocked_def Let_def mget_mfilter split: option.splits if_splits)

lemma level_sweep:
  assumes "0 \<le> qps" "backendOk qps now m"
  shows "level qps (sweepLocked now m) t now = level qps m t now"
  using assms refill_idle[OF assms(1)]
  by (auto simp: level_def sweepLocked_def Let_def backendOk_def mget_mfilter split: option.split)

lemma backendOk_count [simp]: "backendOk qps now (m\<lparr>mb_allowCount := n\<rparr>) = backendOk qps now m"
  by (simp add: backendOk_def)

lemma level_count [simp]: "level qps (m\<lparr>mb_allowCount := n\<rparr>) t now = level qps m t now"
  by (simp add: level_def)

lemma backendOk_mono: "backendOk qps t1 m \<Longrightarrow> t1 \<le> t2 \<Longrightarrow> backendOk qps t2 m"
  by (force simp: backendOk_def bucketOk_def)

lemma refill_same: "refillBucket qps now \<lparr>bk_tokens = x, bk_last = now, bk_lastAccess = a\<rparr> =
    (if x > rat_of_int qps then rat_of_int qps else x)"
  by (simp add: refillBucket_def Let_def elapsedSeconds_def)

lemma preAllow_ok:
  assumes "0 \<le> qps" "backendOk qps now m"
  shows "backendOk qps now (preAllow now m)" "level qps (preAllow now m) t now = level qps m t now"
  using assms by (simp_all add: preAllow_def Let_def backendOk_sweep level_sweep)

lemma AllowQPS_level:
  "AllowQPS now tenant qps m =
     (let x = level qps (preAllow now m) tenant now in
      (\<not> x < 1, (preAllow now m)\<lparr>mb_buckets := mput tenant
         \<lparr>bk_tokens = (if x < 1 then x else x - 1), bk_last = now, bk_lastAccess = now\<rparr>
         (mb_buckets (preAllow now m))\<rparr>))"
  by (simp add: AllowQPS_def preAllow_def level_def Let_def refill_same split: option.split)

lemma level_put:
  "level qps (m\<lparr>mb_buckets := mput tenant \<lparr>bk_tokens = x, bk_last = now, bk_lastAccess = now\<rparr> bs\<rparr>) t now =
     (if t = tenant then (if x > rat_of_int qps then rat_of_int qps else x)
      else level qps (m\<lparr>mb_buckets := bs\<rparr>) t now)"
  by (simp add: level_def refill_same)

lemma level_le: "level qps m t now \<le> rat_of_int qps"
  by (simp add: level_def refill_le split: option.split)

lemma level_nonneg: "0 \<le> qps \<Longrightarrow> backendOk qps now m \<Longrightarrow> 0 \<le> level qps m t now"
  by (auto simp: level_def backendOk_def refill_nonneg split: option.split)

lemma AllowQPS_refines:
  assumes "0 \<le> qps" "backendOk qps now m" "AllowQPS now tenant qps m = (ok, m')"
  shows "backendOk qps now m'" "ok \<longleftrightarrow> 1 \<le> level qps m tenant now"
    "level qps m' t now = level qps m t now - (if ok \<and> t = tenant then 1 else 0)"
proof -
  note pre = preAllow_ok[OF assms(1,2)]
  let ?x = "level qps m tenant now"
  have m': "m' = (preAllow now m)\<lparr>mb_buckets := mput tenant
         \<lparr>bk_tokens = (if ?x < 1 then ?x else ?x - 1), bk_last = now, bk_lastAccess = now\<rparr>
         (mb_buckets (preAllow now m))\<rparr>" and ok: "ok = (\<not> ?x < 1)"
    using assms(3) by (simp_all add: AllowQPS_level Let_def pre(2))
  show "ok \<longleftrightarrow> 1 \<le> ?x" using ok by auto
  show "backendOk qps now m'"
    using pre(1) level_le[of qps m tenant now] level_nonneg[OF assms(1,2), of tenant]
    by (auto simp: m' backendOk_def bucketOk_def)
  show "level qps m' t now = level qps m t now - (if ok \<and> t = tenant then 1 else 0)"
    using level_le[of qps m tenant now] pre(2)[of t] by (simp add: m' ok level_put)
qed

lemma allowTrace_bound:
  assumes "0 \<le> qps" "backendOk qps t0 m" "sorted (t0 # map fst cs)" "allowTrace qps cs m = (oks, m')"
    "\<forall>c\<in>set cs. fst c \<le> t1" "t0 \<le> t1"
  shows "rat_of_nat (allowedOf tenant cs oks) \<le> level qps m tenant t0 + elapsedSeconds t0 t1 * rat_of_int qps"
  using assms(2-)
proof (induction cs arbitrary: t0 m oks)
  case Nil
  have "0 \<le> elapsedSeconds t0 t1 * rat_of_int qps" using Nil assms(1) by (simp add: elapsedSeconds_nonneg)
  with Nil show ?case using level_nonneg[OF assms(1) Nil(1), of tenant] by (auto simp: allowedOf_def)
next
  case (Cons c cs)
  obtain now t where c: "c = (now, t)" by (cases c)
  obtain ok m1 where a: "AllowQPS now t qps m = (ok, m1)" by (cases "AllowQPS now t qps m")
  obtain oks' where tr: "allowTrace qps cs m1 = (oks', m')" "oks = ok # oks'"
    using Cons.prems(3) by (auto simp: c a split: prod.splits)
  have le: "t0 \<le> now" "now \<le> t1" using Cons.prems by (auto simp: c)
  have bo: "backendOk qps now m" using backendOk_mono[OF Cons.prems(1)] le by simp
  note r = AllowQPS_refines[OF assms(1) bo a]
  have "rat_of_nat (allowedOf tenant cs oks') \<le> level qps m1 tenant now + elapsedSeconds now t1 * rat_of_int qps"
    by (rule Cons.IH[OF r(1) _ tr(1)]) (use Cons.prems le in \<open>auto simp: c\<close>)
  moreover have "rat_of_nat (allowedOf tenant (c # cs) oks) =
      rat_of_nat (allowedOf tenant cs oks') + (if ok \<and> tenant = t then 1 else 0)"
    by (auto simp: allowedOf_def tr(2) c)
  moreover note r(3)[of tenant] level_later[OF assms(1) le(1), of m tenant]
  moreover have "elapsedSeconds t0 t1 * rat_of_int qps =
      elapsedSeconds t0 now * rat_of_int qps + elapsedSeconds now t1 * rat_of_int qps"
    by (simp add: elapsedSeconds_add[of t0 now t1, symmetric] distrib_right)
  ultimately show ?case by (auto split: if_splits)
qed

subsection \<open>Concurrency slots\<close>

locale quota_backend =
  fixes tryInc :: "string \<Rightarrow> int \<Rightarrow> 'b \<Rightarrow> bool \<times> 'b"
    and dec :: "string \<Rightarrow> 'b \<Rightarrow> 'b"
    and count :: "'b \<Rightarrow> string \<Rightarrow> int"
  assumes tryInc_result: "fst (tryInc t n b) \<longleftrightarrow> count b t < n"
    and tryInc_count: "count (snd (tryInc t n b)) = (if count b t < n then (count b)(t := count b t + 1) else count b)"
    and dec_count: "count (dec t b) = (count b)(t := max 0 (count b t - 1))"
begin

lemma slotStep_bounded:
  assumes "0 \<le> lim_maxConcurrent l" "\<forall>t. 0 \<le> count (lim_backend l) t \<and> count (lim_backend l) t \<le> lim_maxConcurrent l"
  shows "lim_maxConcurrent (slotStep tryInc dec op l) = lim_maxConcurrent l \<and>
    (\<forall>t. 0 \<le> count (lim_backend (slotStep tryInc dec op l)) t \<and>
         count (lim_backend (slotStep tryInc dec op l)) t \<le> lim_maxConcurrent l)"
proof (cases op)
  case (Acquire t)
  have "slotStep tryInc dec op l = l\<lparr>lim_backend := snd (tryInc t (lim_maxConcurrent l) (lim_backend l))\<rparr>"
    by (simp add: Acquire Limiter_TryIncConcurrent_def split_beta)
  then show ?thesis using assms by (auto simp: tryInc_count)
next
  case (Release t)
  have "0 \<le> count (lim_backend l) t" "count (lim_backend l) t - 1 \<le> lim_maxConcurrent l"
    using spec[OF assms(2), of t] by auto
  with assms show ?thesis by (simp add: Release Limiter_DecConcurrent_def dec_count)
qed

lemma slots_bounded:
  assumes "0 \<le> lim_maxConcurrent l" "\<forall>t. 0 \<le> count (lim_backend l) t \<and> count (lim_backend l) t \<le> lim_maxConcurrent l"
  shows "\<forall>t. 0 \<le> count (lim_backend (fold (slotStep tryInc dec) ops l)) t \<and>
             count (lim_backend (fold (slotStep tryInc dec) ops l)) t \<le> lim_maxConcurrent l"
  using assms
proof (induction ops arbitrary: l)
  case (Cons op ops)
  note s = slotStep_bounded[OF Cons.prems, of op]
  from Cons.IH[of "slotStep tryInc dec op l"] s Cons.prems(1) show ?case by simp
qed simp

lemma release_frees:
  assumes "0 < count b t" "count b t \<le> n"
  shows "fst (tryInc t n (dec t b))"
  using assms by (simp add: tryInc_result dec_count)

end

interpretation memq: quota_backend TryIncConcurrent DecConcurrent "\<lambda>m. zget 0 (mb_concurrent m)"
  by unfold_locales (auto simp: TryIncConcurrent_def DecConcurrent_def Let_def fun_eq_iff)

subsection \<open>Token windows\<close>

lemma getOrCreateWindow_use:
  assumes "getOrCreateWindow None now tenant tb = (w, tb')" "gwf (tb_windows tb)"
  shows "tw_tokens w = windowUse now tenant tb" "mget (tb_windows tb') tenant = Some w" "\<not> tw_windowEnd w < now"
    "tb_limit tb' = tb_limit tb" "gwf (tb_windows tb')" "windowUse now t tb' = windowUse now t tb"
  using assms
  by (auto simp: getOrCreateWindow_def windowUse_def Let_def mget_mfilter split: option.splits if_splits)

lemma windowUse_put:
  "mget (tb_windows tb) tenant = Some w \<Longrightarrow> \<not> tw_windowEnd w < now \<Longrightarrow>
   windowUse now t (tb\<lparr>tb_windows := mput tenant (w\<lparr>tw_tokens := n\<rparr>) (tb_windows tb)\<rparr>) =
     (if t = tenant then n else windowUse now t tb)"
  by (simp add: windowUse_def)

lemma CheckBudget_use:
  "0 < tb_limit tb \<Longrightarrow> gwf (tb_windows tb) \<Longrightarrow>
   fst (CheckBudget None now t tb) = (windowUse now t tb < tb_limit tb)"
  by (auto simp: CheckBudget_def getOrCreateWindow_use split: prod.split)

lemma Remaining_use:
  "0 < tb_limit tb \<Longrightarrow> gwf (tb_windows tb) \<Longrightarrow>
   fst (Remaining None now t tb) = max 0 (tb_limit tb - windowUse now t tb)"
  by (auto simp: Remaining_def Let_def getOrCreateWindow_use split: prod.split)

lemma RecordTokens_use:
  assumes "0 < tb_limit tb" "gwf (tb_windows tb)" "RecordTokens None now t n tb = (ok, tb', p)"
  shows "ok = (windowUse now t tb + n \<le> tb_limit tb)" "gwf (tb_windows tb')" "tb_limit tb' = tb_limit tb"
    "windowUse now t' tb' = windowUse now t' tb + (if t' = t then n else 0)"
proof -
  obtain w tb1 where g: "getOrCreateWindow None now t tb = (w, tb1)" by (cases "getOrCreateWindow None now t tb")
  note u = getOrCreateWindow_use[OF g assms(2)]
  have tb': "tb' = tb1\<lparr>tb_windows := mput t (w\<lparr>tw_tokens := tw_tokens w + n\<rparr>) (tb_windows tb1)\<rparr>"
    and ok: "ok = (tw_tokens w + n \<le> tb_limit tb)"
    using assms(1,3) by (auto simp: RecordTokens_def g Let_def)
  show "ok = (windowUse now t tb + n \<le> tb_limit tb)" using ok u(1) by simp
  show "gwf (tb_windows tb')" "tb_limit tb' = tb_limit tb" using u by (simp_all add: tb')
  show "windowUse now t' tb' = windowUse now t' tb + (if t' = t then n else 0)"
    using u(1,6) by (simp add: tb' windowUse_put[OF u(2,3)])
qed

subsection \<open>Properties\<close>

text \<open>C6. Rate limit and tenant isolation: over any sequence of AllowQPS calls of any tenants at
  non-decreasing times, starting from an empty backend at t0, the number of calls admitted for one tenant up
  to time t1 is at most qps plus qps times the elapsed seconds, whatever the other tenants do and whenever the
  idle-bucket sweep runs.\<close>

theorem AllowQPS_rate_bound:
  assumes "0 \<le> qps" "sorted (t0 # map fst cs)" "\<forall>c\<in>set cs. fst c \<le> t1" "t0 \<le> t1"
  shows "rat_of_nat (allowedOf tenant cs (fst (allowTrace qps cs NewMemoryBackend)))
    \<le> rat_of_int qps + elapsedSeconds t0 t1 * rat_of_int qps"
proof -
  have "backendOk qps t0 NewMemoryBackend" by (simp add: backendOk_def NewMemoryBackend_def)
  from allowTrace_bound[OF assms(1) this assms(2) prod.collapse[symmetric] assms(3,4), of tenant]
    level_le[of qps NewMemoryBackend tenant t0]
  show ?thesis by linarith
qed

theorem AllowQPS_rate_bound_witness:
  "rat_of_nat (allowedOf ''a'' [(0, ''a''), (0, ''b''), (second, ''a''), (second, ''a'')]
     (fst (allowTrace 1 [(0, ''a''), (0, ''b''), (second, ''a''), (second, ''a'')] NewMemoryBackend))) \<le> 2"
  using AllowQPS_rate_bound[of 1 0 "[(0, ''a''), (0, ''b''), (second, ''a''), (second, ''a'')]" second "''a''"]
  by (simp add: elapsedSeconds_def)

text \<open>AllowQPS implements the abstract token bucket: a call is admitted exactly when the tenant's level at
  that time is at least one, it then lowers that tenant's level by one, and it changes no other tenant's level,
  even when the call triggers the sweep that deletes idle buckets.\<close>

theorem AllowQPS_refinement:
  assumes "0 \<le> qps" "backendOk qps now m" "AllowQPS now tenant qps m = (ok, m')"
  shows "backendOk qps now m' \<and> (ok \<longleftrightarrow> 1 \<le> level qps m tenant now) \<and>
    (\<forall>t. level qps m' t now = level qps m t now - (if ok \<and> t = tenant then 1 else 0))"
  using AllowQPS_refines[OF assms] by blast

theorem AllowQPS_refinement_witness:
  "level 2 (snd (AllowQPS 5 ''a'' 2 NewMemoryBackend)) ''a'' 5 = 1"
proof -
  have "backendOk 2 5 NewMemoryBackend" by (simp add: backendOk_def NewMemoryBackend_def)
  moreover obtain ok m' where a: "AllowQPS 5 ''a'' 2 NewMemoryBackend = (ok, m')"
    by (cases "AllowQPS 5 ''a'' 2 NewMemoryBackend")
  moreover have "level 2 NewMemoryBackend ''a'' 5 = 2" by (simp add: level_def NewMemoryBackend_def)
  ultimately show ?thesis using AllowQPS_refinement[of 2 5 NewMemoryBackend "''a''" ok m'] by simp
qed

text \<open>Concurrency slots: for any interleaving of TryIncConcurrent and DecConcurrent calls of any tenants on
  a limiter whose counters start within bounds, every tenant's counter stays between zero and maxConcurrent.\<close>

theorem limiter_slots_bounded:
  assumes "0 \<le> lim_maxConcurrent l"
    "\<forall>t. 0 \<le> zget 0 (mb_concurrent (lim_backend l)) t \<and>
         zget 0 (mb_concurrent (lim_backend l)) t \<le> lim_maxConcurrent l"
  shows "0 \<le> zget 0 (mb_concurrent (lim_backend (fold (slotStep TryIncConcurrent DecConcurrent) ops l))) t \<and>
    zget 0 (mb_concurrent (lim_backend (fold (slotStep TryIncConcurrent DecConcurrent) ops l))) t \<le> lim_maxConcurrent l"
  using memq.slots_bounded[OF assms] by blast

theorem limiter_slots_bounded_witness:
  "zget 0 (mb_concurrent (lim_backend (fold (slotStep TryIncConcurrent DecConcurrent)
     [Acquire ''a'', Acquire ''a'', Acquire ''a'', Release ''b'']
     \<lparr>lim_backend = NewMemoryBackend, lim_qps = 10, lim_maxConcurrent = 2\<rparr>))) ''a'' \<le> 2"
  using limiter_slots_bounded[of "\<lparr>lim_backend = NewMemoryBackend, lim_qps = 10, lim_maxConcurrent = 2\<rparr>"
    "[Acquire ''a'', Acquire ''a'', Acquire ''a'', Release ''b'']" "''a''"]
  by (simp add: NewMemoryBackend_def)

text \<open>Hourly token budget: with a positive limit, recording n tokens adds n to the tenant's use in its
  current window and to no other tenant's, reports whether the limit still holds, and the next Check and
  Remaining answer from exactly that use; expired windows count as empty.\<close>

theorem token_budget_accounting:
  assumes "0 < tb_limit tb" "gwf (tb_windows tb)" "RecordTokens None now t n tb = (ok, tb', p)"
  shows "(ok \<longleftrightarrow> windowUse now t tb + n \<le> tb_limit tb) \<and>
    (\<forall>t'. windowUse now t' tb' = windowUse now t' tb + (if t' = t then n else 0)) \<and>
    (fst (CheckBudget None now t tb') \<longleftrightarrow> windowUse now t tb + n < tb_limit tb) \<and>
    fst (Remaining None now t tb') = max 0 (tb_limit tb - (windowUse now t tb + n))"
  using RecordTokens_use[OF assms] assms(1) by (simp add: CheckBudget_use Remaining_use)

theorem token_budget_accounting_witness:
  "fst (Remaining None 7 ''a'' (fst (snd (RecordTokens None 7 ''a'' 30 (NewTokenBudget 100))))) = 70"
proof -
  obtain ok tb' p where r: "RecordTokens None 7 ''a'' 30 (NewTokenBudget 100) = (ok, tb', p)"
    by (cases "RecordTokens None 7 ''a'' 30 (NewTokenBudget 100)")
  have "0 < tb_limit (NewTokenBudget 100)" "gwf (tb_windows (NewTokenBudget 100))"
    by (simp_all add: NewTokenBudget_def)
  from token_budget_accounting[OF this r] have "fst (Remaining None 7 ''a'' tb') = 70"
    by (simp add: NewTokenBudget_def windowUse_def)
  then show ?thesis by (simp add: r)
qed

end
