(* ===== verification/Resilience.thy ===== *)
theory Resilience
  imports AgentOS_Prelude
begin

text \<open>
  Retry and circuit breaking around model providers (modelpolicy/resilience.go, with ProviderError and
  retryAfterSeconds of modelpolicy/openai_provider.go).

  \<^item> \<open>circuitBreaker\<close> is the struct, \<open>allow\<close>, \<open>recordSuccess\<close>, \<open>recordFailure\<close> its methods, with the clock
    reading as an argument; \<open>breaker_step\<close> is the step relation under arbitrary concurrent callers.
  \<^item> \<open>ChatComplete\<close> is the retry loop. The wrapped provider, the context and the clock are given attempt by
    attempt in an \<open>attemptEnv\<close>; the loop returns its outcome, the breaker, the waits it made and the
    number of calls it passed to the wrapped provider. ChatCompleteStream has the same loop.
  \<^item> \<open>backoffDuration\<close> computes on \<open>rat\<close> where the code has float64; the random draw is an argument.
\<close>

subsection \<open>Model\<close>

record retryConfig =
  rc_MaxAttempts :: int
  rc_BaseBackoff :: duration
  rc_MaxBackoff :: duration
  rc_BackoffScale :: rat

definition DefaultRetryConfig :: retryConfig where
  "DefaultRetryConfig = \<lparr>rc_MaxAttempts = 3, rc_BaseBackoff = 500 * millisecond,
     rc_MaxBackoff = 30 * second, rc_BackoffScale = 2\<rparr>"

datatype circuitState = CircuitClosed | CircuitOpen | CircuitHalfOpen

record circuitBreakerConfig =
  cc_FailureThreshold :: int
  cc_RecoveryTimeout :: duration
  cc_HalfOpenMax :: int

definition envPositive :: "(string \<Rightarrow> string) \<Rightarrow> string \<Rightarrow> int \<Rightarrow> int" where
  "envPositive getenv key def =
     (if getenv key \<noteq> [] then (case Atoi (getenv key) of Some n \<Rightarrow> if n > 0 then n else def | None \<Rightarrow> def)
      else def)"

definition DefaultCircuitBreakerConfig :: "(string \<Rightarrow> string) \<Rightarrow> circuitBreakerConfig" where
  "DefaultCircuitBreakerConfig getenv =
     \<lparr>cc_FailureThreshold = envPositive getenv ''AGENTOS_CB_FAILURE_THRESHOLD'' 8,
      cc_RecoveryTimeout = sint (word_of_int (envPositive getenv ''AGENTOS_CB_RECOVERY_TIMEOUT'' 60 * second) :: 64 word),
      cc_HalfOpenMax = envPositive getenv ''AGENTOS_CB_HALF_OPEN_MAX'' 2\<rparr>"

record circuitBreaker =
  cb_state :: circuitState
  cb_failures :: int
  cb_lastFailure :: time
  cb_halfOpenActive :: int
  cb_cfg :: circuitBreakerConfig

definition newCircuitBreaker :: "circuitBreakerConfig \<Rightarrow> circuitBreaker" where
  "newCircuitBreaker cfg = \<lparr>cb_state = CircuitClosed, cb_failures = 0, cb_lastFailure = 0,
     cb_halfOpenActive = 0, cb_cfg = cfg\<rparr>"

definition allow :: "time \<Rightarrow> circuitBreaker \<Rightarrow> bool \<times> circuitBreaker" where
  "allow now cb =
     (case cb_state cb of
        CircuitClosed \<Rightarrow> (True, cb)
      | CircuitOpen \<Rightarrow>
          if now - cb_lastFailure cb \<ge> cc_RecoveryTimeout (cb_cfg cb)
          then (True, cb\<lparr>cb_state := CircuitHalfOpen, cb_halfOpenActive := 1\<rparr>)
          else (False, cb)
      | CircuitHalfOpen \<Rightarrow>
          if cb_halfOpenActive cb < cc_HalfOpenMax (cb_cfg cb)
          then (True, cb\<lparr>cb_halfOpenActive := cb_halfOpenActive cb + 1\<rparr>)
          else (False, cb))"

definition recordSuccess :: "circuitBreaker \<Rightarrow> circuitBreaker" where
  "recordSuccess cb = cb\<lparr>cb_failures := 0, cb_halfOpenActive := 0, cb_state := CircuitClosed\<rparr>"

definition recordFailure :: "time \<Rightarrow> circuitBreaker \<Rightarrow> circuitBreaker" where
  "recordFailure now cb0 =
     (let cb = cb0\<lparr>cb_failures := cb_failures cb0 + 1, cb_lastFailure := now\<rparr> in
      if cb_state cb = CircuitHalfOpen then cb\<lparr>cb_state := CircuitOpen, cb_halfOpenActive := 0\<rparr>
      else if cb_failures cb \<ge> cc_FailureThreshold (cb_cfg cb) then cb\<lparr>cb_state := CircuitOpen\<rparr>
      else cb)"

record circuitBreakerStatusInfo =
  si_State :: string
  si_Failures :: int
  si_LastFailure :: time
  si_RecoveryTimeout :: duration

definition CircuitBreakerStatus :: "circuitBreaker \<Rightarrow> circuitBreakerStatusInfo" where
  "CircuitBreakerStatus cb =
     \<lparr>si_State = (case cb_state cb of CircuitClosed \<Rightarrow> ''closed'' | CircuitOpen \<Rightarrow> ''open''
                   | CircuitHalfOpen \<Rightarrow> ''half_open''),
      si_Failures = cb_failures cb, si_LastFailure = cb_lastFailure cb,
      si_RecoveryTimeout = cc_RecoveryTimeout (cb_cfg cb)\<rparr>"

subsubsection \<open>Errors and waits\<close>

record providerError =
  pe_StatusCode :: int
  pe_Code :: string
  pe_Message :: string
  pe_RetryAfter :: string

datatype chatErr = ErrProvider providerError | ErrTransport string | ErrCircuitOpen | ErrContext string

definition isRetryable :: "chatErr option \<Rightarrow> bool" where
  "isRetryable err =
     (case err of None \<Rightarrow> False
      | Some (ErrProvider pe) \<Rightarrow>
          if pe_StatusCode pe \<ge> 500 then True else if pe_StatusCode pe = 429 then True else False
      | Some _ \<Rightarrow> True)"

definition truncRat :: "rat \<Rightarrow> int" where
  "truncRat x = (if 0 \<le> x then \<lfloor>x\<rfloor> else \<lceil>x\<rceil>)"

definition backoffDuration :: "rat \<Rightarrow> nat \<Rightarrow> retryConfig \<Rightarrow> duration" where
  "backoffDuration rnd attempt cfg =
     (let base0 = rat_of_int (rc_BaseBackoff cfg) * rc_BackoffScale cfg ^ attempt;
          base = (if base0 > rat_of_int (rc_MaxBackoff cfg) then rat_of_int (rc_MaxBackoff cfg) else base0);
          jitter = base * (1 / 4) * (2 * rnd - 1);
          d = truncRat (base + jitter) in
      if d < 0 then rc_BaseBackoff cfg else d)"

definition retryAfterSeconds :: "providerError \<Rightarrow> int" where
  "retryAfterSeconds pe =
     (if pe_RetryAfter pe = [] then 0
      else case Atoi (pe_RetryAfter pe) of None \<Rightarrow> 0 | Some n \<Rightarrow> n)"

definition retryAfterDuration :: "chatErr option \<Rightarrow> duration" where
  "retryAfterDuration err =
     (case err of
        Some (ErrProvider pe) \<Rightarrow>
          if pe_RetryAfter pe \<noteq> [] \<and> retryAfterSeconds pe > 0
          then sint (word_of_int (retryAfterSeconds pe * second) :: 64 word) else 0
      | _ \<Rightarrow> 0)"

subsubsection \<open>The retry loop\<close>

record 'r attemptEnv =
  ae_ctxErr :: "string option"
  ae_rand :: rat
  ae_allowAt :: time
  ae_reply :: "chatErr + 'r"
  ae_failAt :: time

datatype 'r outcome = Response 'r | Failed chatErr | NoResult

record 'r chatRun =
  cr_outcome :: "'r outcome"
  cr_breaker :: circuitBreaker
  cr_waits :: "duration list"
  cr_calls :: nat

definition waitBefore :: "retryConfig \<Rightarrow> nat \<Rightarrow> rat \<Rightarrow> chatErr option \<Rightarrow> duration list" where
  "waitBefore retry attempt rnd lastErr =
     (if attempt > 0
      then (let wait = backoffDuration rnd (attempt - 1) retry; ra = retryAfterDuration lastErr in
            [if ra > wait then ra else wait])
      else [])"

fun chatLoop ::
  "retryConfig \<Rightarrow> (nat \<Rightarrow> 'r attemptEnv) \<Rightarrow> nat \<Rightarrow> nat \<Rightarrow> chatErr option \<Rightarrow> circuitBreaker \<Rightarrow> duration list \<Rightarrow> nat
   \<Rightarrow> 'r chatRun" where
  "chatLoop retry env 0 attempt lastErr cb waits calls =
     \<lparr>cr_outcome = (case lastErr of None \<Rightarrow> NoResult | Some e \<Rightarrow> Failed e), cr_breaker = cb,
      cr_waits = waits, cr_calls = calls\<rparr>"
| "chatLoop retry env (Suc left) attempt lastErr cb waits calls =
     (let ae = env attempt; ws = waits @ waitBefore retry attempt (ae_rand ae) lastErr in
      case (if attempt > 0 then ae_ctxErr ae else None) of
        Some e \<Rightarrow> \<lparr>cr_outcome = Failed (ErrContext e), cr_breaker = cb, cr_waits = ws, cr_calls = calls\<rparr>
      | None \<Rightarrow>
        (let (ok, cb1) = allow (ae_allowAt ae) cb in
         if \<not> ok then chatLoop retry env left (Suc attempt) (Some ErrCircuitOpen) cb1 ws calls
         else case ae_reply ae of
                Inr resp \<Rightarrow> \<lparr>cr_outcome = Response resp, cr_breaker = recordSuccess cb1, cr_waits = ws,
                             cr_calls = Suc calls\<rparr>
              | Inl err \<Rightarrow>
                  if \<not> isRetryable (Some err)
                  then \<lparr>cr_outcome = Failed err, cr_breaker = cb1, cr_waits = ws, cr_calls = Suc calls\<rparr>
                  else chatLoop retry env left (Suc attempt) (Some err) (recordFailure (ae_failAt ae) cb1) ws
                         (Suc calls)))"

declare chatLoop.simps(2) [simp del]

definition ChatComplete :: "retryConfig \<Rightarrow> (nat \<Rightarrow> 'r attemptEnv) \<Rightarrow> circuitBreaker \<Rightarrow> 'r chatRun" where
  "ChatComplete retry env cb = chatLoop retry env (nat (rc_MaxAttempts retry)) 0 None cb [] 0"

subsubsection \<open>The breaker as a state machine\<close>

inductive breaker_step :: "circuitBreaker \<Rightarrow> circuitBreaker \<Rightarrow> bool" where
  bs_allow: "breaker_step cb (snd (allow now cb))"
| bs_success: "breaker_step cb (recordSuccess cb)"
| bs_failure: "breaker_step cb (recordFailure now cb)"

inductive_cases breaker_stepE: "breaker_step cb cb'"

definition breakerInv :: "circuitBreakerConfig \<Rightarrow> circuitBreaker \<Rightarrow> bool" where
  "breakerInv cfg cb \<longleftrightarrow> cb_cfg cb = cfg \<and> 0 \<le> cb_failures cb \<and>
     (cb_state cb = CircuitClosed \<longrightarrow> cb_failures cb < cc_FailureThreshold cfg) \<and>
     (cb_state cb = CircuitHalfOpen \<longrightarrow> 1 \<le> cb_halfOpenActive cb \<and> cb_halfOpenActive cb \<le> cc_HalfOpenMax cfg) \<and>
     (cb_state cb \<noteq> CircuitHalfOpen \<longrightarrow> cb_halfOpenActive cb = 0)"

definition saturated :: "circuitBreaker \<Rightarrow> bool" where
  "saturated cb \<longleftrightarrow> cb_state cb = CircuitHalfOpen \<and> cc_HalfOpenMax (cb_cfg cb) \<le> cb_halfOpenActive cb"

text \<open>The configuration is fixed at construction, so the invariant is stated for the configurations that
  \<open>DefaultCircuitBreakerConfig\<close> can produce: positive threshold and at least one probe.\<close>

definition validConfig :: "circuitBreakerConfig \<Rightarrow> bool" where
  "validConfig cfg \<longleftrightarrow> 1 \<le> cc_FailureThreshold cfg \<and> 1 \<le> cc_HalfOpenMax cfg"

subsection \<open>Breaker lemmas\<close>

lemmas breaker_defs = allow_def recordSuccess_def recordFailure_def

lemma allow_refused: "fst (allow now cb) = False \<Longrightarrow> snd (allow now cb) = cb"
  by (auto simp: allow_def split: circuitState.splits if_splits)

lemma breakerInv_allow: "breakerInv cfg cb \<Longrightarrow> 1 \<le> cc_HalfOpenMax cfg \<Longrightarrow> breakerInv cfg (snd (allow now cb))"
  by (auto simp: breakerInv_def allow_def split: circuitState.split)

lemma breakerInv_success: "breakerInv cfg cb \<Longrightarrow> 1 \<le> cc_FailureThreshold cfg \<Longrightarrow> breakerInv cfg (recordSuccess cb)"
  by (simp add: breakerInv_def recordSuccess_def)

lemma breakerInv_failure: "breakerInv cfg cb \<Longrightarrow> breakerInv cfg (recordFailure now cb)"
  by (cases "cb_state cb") (auto simp: breakerInv_def recordFailure_def Let_def)

lemma breakerInv_step:
  "1 \<le> cc_HalfOpenMax cfg \<Longrightarrow> 1 \<le> cc_FailureThreshold cfg \<Longrightarrow> breakerInv cfg s \<Longrightarrow> breaker_step s t \<Longrightarrow>
   breakerInv cfg t"
  by (auto elim!: breaker_stepE intro: breakerInv_allow breakerInv_success breakerInv_failure)

lemma breakerInv_new: "1 \<le> cc_FailureThreshold cfg \<Longrightarrow> breakerInv cfg (newCircuitBreaker cfg)"
  by (simp add: breakerInv_def newCircuitBreaker_def)

lemma envPositive_pos: "1 \<le> def \<Longrightarrow> 1 \<le> envPositive getenv key def"
  by (auto simp: envPositive_def split: option.split)

lemma validConfig_default: "validConfig (DefaultCircuitBreakerConfig getenv)"
  by (simp add: validConfig_def DefaultCircuitBreakerConfig_def envPositive_pos)

interpretation breaker: inv_system
  "\<lambda>cb. validConfig (cb_cfg cb) \<and> cb = newCircuitBreaker (cb_cfg cb)" breaker_step
  "\<lambda>cb. validConfig (cb_cfg cb) \<and> breakerInv (cb_cfg cb) cb"
proof
  show "validConfig (cb_cfg s) \<and> s = newCircuitBreaker (cb_cfg s) \<Longrightarrow>
      validConfig (cb_cfg s) \<and> breakerInv (cb_cfg s) s" for s
    using breakerInv_new[of "cb_cfg s"] by (auto simp: validConfig_def)
  show "validConfig (cb_cfg s) \<and> breakerInv (cb_cfg s) s \<Longrightarrow> breaker_step s t \<Longrightarrow>
      validConfig (cb_cfg t) \<and> breakerInv (cb_cfg t) t" for s t
  proof -
    assume a: "validConfig (cb_cfg s) \<and> breakerInv (cb_cfg s) s" "breaker_step s t"
    then have "breakerInv (cb_cfg s) t" by (auto simp: validConfig_def intro: breakerInv_step)
    moreover from this have "cb_cfg t = cb_cfg s" by (simp add: breakerInv_def)
    ultimately show "validConfig (cb_cfg t) \<and> breakerInv (cb_cfg t) t" using a(1) by simp
  qed
qed

lemma saturated_refuses: "saturated cb \<Longrightarrow> allow now cb = (False, cb)"
  by (simp add: saturated_def allow_def)

lemma consecutive_failures:
  assumes "cb_state cb = CircuitClosed" "cb_failures cb + int (length ts) < cc_FailureThreshold (cb_cfg cb)"
  shows "cb_state (fold recordFailure ts cb) = CircuitClosed \<and>
     cb_failures (fold recordFailure ts cb) = cb_failures cb + int (length ts) \<and>
     cb_cfg (fold recordFailure ts cb) = cb_cfg cb"
  using assms by (induction ts arbitrary: cb) (auto simp: recordFailure_def Let_def)

subsection \<open>Loop lemmas\<close>

lemma chatLoop_Suc_cases:
  obtains (ctx) e cb' ws' where "chatLoop retry env (Suc n) a le cb ws calls =
      \<lparr>cr_outcome = Failed e, cr_breaker = cb', cr_waits = ws', cr_calls = calls\<rparr>"
  | (refused) cb' ws' where "chatLoop retry env (Suc n) a le cb ws calls =
      chatLoop retry env n (Suc a) (Some ErrCircuitOpen) cb' ws' calls"
  | (response) r cb' ws' where "ae_reply (env a) = Inr r" "chatLoop retry env (Suc n) a le cb ws calls =
      \<lparr>cr_outcome = Response r, cr_breaker = recordSuccess cb', cr_waits = ws', cr_calls = Suc calls\<rparr>"
  | (fatal) e cb' ws' where "chatLoop retry env (Suc n) a le cb ws calls =
      \<lparr>cr_outcome = Failed e, cr_breaker = cb', cr_waits = ws', cr_calls = Suc calls\<rparr>"
  | (retry) e cb' ws' where "chatLoop retry env (Suc n) a le cb ws calls =
      chatLoop retry env n (Suc a) (Some e) cb' ws' (Suc calls)"
proof (cases "if a > 0 then ae_ctxErr (env a) else None")
  case (Some e)
  then show ?thesis using ctx by (simp add: Let_def chatLoop.simps(2))
next
  case None
  obtain ok cb1 where al: "allow (ae_allowAt (env a)) cb = (ok, cb1)" by (cases "allow (ae_allowAt (env a)) cb")
  show ?thesis
  proof (cases "ae_reply (env a)")
    case (Inl err)
    with None al show ?thesis using refused fatal retry
      by (cases ok; cases "isRetryable (Some err)") (simp_all add: Let_def chatLoop.simps(2))
  next
    case (Inr r)
    with None al show ?thesis using refused response by (cases ok) (simp_all add: Let_def chatLoop.simps(2))
  qed
qed

lemma chatLoop_calls:
  "calls \<le> cr_calls (chatLoop retry env n a le cb ws calls) \<and>
   cr_calls (chatLoop retry env n a le cb ws calls) \<le> calls + n"
proof (induction n arbitrary: a le cb ws calls)
  case (Suc n)
  show ?case
  proof (cases rule: chatLoop_Suc_cases[of retry env n a le cb ws calls])
    case (refused cb' ws')
    then show ?thesis using Suc.IH[of calls "Suc a" "Some ErrCircuitOpen" cb' ws'] by auto
  next
    case (retry e cb' ws')
    then show ?thesis using Suc.IH[of "Suc calls" "Suc a" "Some e" cb' ws'] by auto
  qed simp_all
qed simp

lemma chatLoop_refused:
  "ae_ctxErr (env a) = None \<Longrightarrow> allow (ae_allowAt (env a)) cb = (False, cb) \<Longrightarrow>
   chatLoop retry env (Suc n) a le cb ws calls =
   chatLoop retry env n (Suc a) (Some ErrCircuitOpen) cb (ws @ waitBefore retry a (ae_rand (env a)) le) calls"
  by (cases a) (simp_all add: Let_def chatLoop.simps(2))

lemma chatLoop_blocked:
  assumes "\<And>i. a \<le> i \<Longrightarrow> i < a + n \<Longrightarrow> allow (ae_allowAt (env i)) cb = (False, cb)"
    "\<And>i. ae_ctxErr (env i) = None"
  shows "cr_calls (chatLoop retry env n a le cb ws calls) = calls \<and>
    cr_breaker (chatLoop retry env n a le cb ws calls) = cb \<and>
    (0 < n \<or> le = Some ErrCircuitOpen \<longrightarrow>
       cr_outcome (chatLoop retry env n a le cb ws calls) = Failed ErrCircuitOpen)"
  using assms
proof (induction n arbitrary: a le ws)
  case (Suc n)
  have "allow (ae_allowAt (env a)) cb = (False, cb)" using Suc.prems(1) by simp
  note r = chatLoop_refused[of env a cb retry n le ws calls, OF Suc.prems(2) this]
  show ?case unfolding r
    using Suc.IH[of "Suc a" "Some ErrCircuitOpen" "ws @ waitBefore retry a (ae_rand (env a)) le"] Suc.prems
    by simp
qed auto

lemma chatLoop_response:
  "cr_outcome (chatLoop retry env n a le cb ws calls) = Response r \<Longrightarrow>
   (\<exists>i\<ge>a. i < a + n \<and> ae_reply (env i) = Inr r) \<and>
   cb_state (cr_breaker (chatLoop retry env n a le cb ws calls)) = CircuitClosed \<and>
   cb_failures (cr_breaker (chatLoop retry env n a le cb ws calls)) = 0"
proof (induction n arbitrary: a le cb ws calls)
  case (Suc n)
  have shift: "\<exists>i\<ge>a. i < a + Suc n \<and> ae_reply (env i) = Inr r"
    if "\<exists>i\<ge>Suc a. i < Suc a + n \<and> ae_reply (env i) = Inr r"
    using that by (metis Suc_leD add_Suc_shift)
  show ?case
  proof (cases rule: chatLoop_Suc_cases[of retry env n a le cb ws calls])
    case (refused cb' ws')
    then show ?thesis using Suc.IH[of "Suc a" "Some ErrCircuitOpen" cb' ws' calls] Suc.prems shift by simp
  next
    case (retry e cb' ws')
    then show ?thesis using Suc.IH[of "Suc a" "Some e" cb' ws' "Suc calls"] Suc.prems shift by simp
  next
    case (response r' cb' ws')
    then show ?thesis using Suc.prems by (auto simp: recordSuccess_def intro: exI[of _ a])
  qed (use Suc.prems in simp_all)
qed (simp split: option.splits)

lemma chatLoop_probe:
  assumes "0 < n" "allow (ae_allowAt (env 0)) cb = (True, cb')" "ae_reply (env 0) = Inl err"
    "\<not> isRetryable (Some err)"
  shows "cr_breaker (chatLoop retry env n 0 None cb ws calls) = cb'"
  using assms by (cases n) (simp_all add: Let_def chatLoop.simps(2))

lemma probes_saturate:
  assumes "0 < rc_MaxAttempts retry" "ae_reply (env 0) = Inl err" "\<not> isRetryable (Some err)"
    "cb_state cb = CircuitHalfOpen" "cb_halfOpenActive cb + int k \<le> cc_HalfOpenMax (cb_cfg cb)"
  shows "((\<lambda>cb. cr_breaker (ChatComplete retry env cb)) ^^ k) cb = cb\<lparr>cb_halfOpenActive := cb_halfOpenActive cb + int k\<rparr>"
  using assms(4,5)
proof (induction k arbitrary: cb)
  case (Suc k)
  let ?cb = "cb\<lparr>cb_halfOpenActive := cb_halfOpenActive cb + 1\<rparr>"
  have "allow (ae_allowAt (env 0)) cb = (True, ?cb)" using Suc.prems by (simp add: allow_def)
  then have "cr_breaker (ChatComplete retry env cb) = ?cb"
    using assms(1-3) chatLoop_probe[of "nat (rc_MaxAttempts retry)" env cb] by (simp add: ChatComplete_def)
  with Suc.IH[of ?cb] Suc.prems show ?case
    by (simp only: funpow_Suc_right comp_def) (simp add: add.commute add.left_commute)
qed simp

lemma backoff_base_bounds:
  assumes "0 \<le> x" "0 \<le> (r::rat)" "r \<le> 1"
  shows "0 \<le> truncRat (x + x * (1 / 4) * (2 * r - 1))" "rat_of_int (truncRat (x + x * (1 / 4) * (2 * r - 1))) \<le> 5 / 4 * x"
    "3 / 4 * x < rat_of_int (truncRat (x + x * (1 / 4) * (2 * r - 1))) + 1"
proof -
  have "x * (1 / 4) * (2 * r - 1) \<le> x * (1 / 4) * 1"
    by (rule mult_left_mono) (use assms in auto)
  moreover have "x * (1 / 4) * (- 1) \<le> x * (1 / 4) * (2 * r - 1)"
    by (rule mult_left_mono) (use assms in auto)
  ultimately have b: "x + x * (1 / 4) * (2 * r - 1) \<le> 5 / 4 * x" "3 / 4 * x \<le> x + x * (1 / 4) * (2 * r - 1)" by auto
  with assms(1) have "0 \<le> x + x * (1 / 4) * (2 * r - 1)" by linarith
  with b show "0 \<le> truncRat (x + x * (1 / 4) * (2 * r - 1))"
    "rat_of_int (truncRat (x + x * (1 / 4) * (2 * r - 1))) \<le> 5 / 4 * x"
    "3 / 4 * x < rat_of_int (truncRat (x + x * (1 / 4) * (2 * r - 1))) + 1"
    unfolding truncRat_def by (simp, (simp, linarith), (simp, linarith))
qed

subsection \<open>Properties\<close>

text \<open>In every state the circuit breaker can reach, under any interleaving of allow, recordSuccess and
  recordFailure calls, a closed breaker has seen fewer consecutive failures than the threshold, a half-open
  breaker has admitted between one and HalfOpenMax probes, and no probe is counted in the other states.\<close>

theorem breaker_reachable_inv:
  assumes "reachable (\<lambda>cb. validConfig (cb_cfg cb) \<and> cb = newCircuitBreaker (cb_cfg cb)) breaker_step cb"
  shows "(cb_state cb = CircuitClosed \<longrightarrow> cb_failures cb < cc_FailureThreshold (cb_cfg cb)) \<and>
    (cb_state cb = CircuitHalfOpen \<longrightarrow>
       1 \<le> cb_halfOpenActive cb \<and> cb_halfOpenActive cb \<le> cc_HalfOpenMax (cb_cfg cb)) \<and>
    (cb_state cb \<noteq> CircuitHalfOpen \<longrightarrow> cb_halfOpenActive cb = 0)"
  using breaker.inv_reachable[OF assms] by (simp add: breakerInv_def)

theorem breaker_reachable_inv_witness:
  "cb_halfOpenActive (recordFailure 9 (newCircuitBreaker (DefaultCircuitBreakerConfig (\<lambda>_. [])))) = 0"
proof -
  let ?cb = "newCircuitBreaker (DefaultCircuitBreakerConfig (\<lambda>_. []))"
  have "reachable (\<lambda>cb. validConfig (cb_cfg cb) \<and> cb = newCircuitBreaker (cb_cfg cb)) breaker_step (recordFailure 9 ?cb)"
    by (rule reach_one[where s = ?cb]) (simp_all add: newCircuitBreaker_def validConfig_default bs_failure)
  from breaker_reachable_inv[OF this] show ?thesis
    by (simp add: recordFailure_def newCircuitBreaker_def DefaultCircuitBreakerConfig_def envPositive_def Let_def)
qed

text \<open>The breaker opens exactly at the failure threshold: after fewer consecutive failures every request is
  admitted; after FailureThreshold of them, the last at time t, a request at time now is refused until the
  recovery timeout has passed since t, and the first one after it is admitted as a half-open probe.\<close>

theorem breaker_opens_at_threshold:
  assumes "validConfig cfg" "int (length ts) + 1 = cc_FailureThreshold cfg"
  shows "allow now (fold recordFailure ts (newCircuitBreaker cfg)) = (True, fold recordFailure ts (newCircuitBreaker cfg)) \<and>
    cb_state (recordFailure t (fold recordFailure ts (newCircuitBreaker cfg))) = CircuitOpen \<and>
    (fst (allow now (recordFailure t (fold recordFailure ts (newCircuitBreaker cfg)))) \<longleftrightarrow>
       t + cc_RecoveryTimeout cfg \<le> now)"
proof -
  have "cb_state (fold recordFailure ts (newCircuitBreaker cfg)) = CircuitClosed \<and>
     cb_failures (fold recordFailure ts (newCircuitBreaker cfg)) = int (length ts) \<and>
     cb_cfg (fold recordFailure ts (newCircuitBreaker cfg)) = cfg"
    using consecutive_failures[of "newCircuitBreaker cfg" ts] assms by (simp add: newCircuitBreaker_def)
  with assms(2) show ?thesis by (auto simp: allow_def recordFailure_def Let_def)
qed

theorem breaker_opens_at_threshold_witness:
  "cb_state (recordFailure 3 (fold recordFailure [1, 2]
     (newCircuitBreaker \<lparr>cc_FailureThreshold = 3, cc_RecoveryTimeout = 60, cc_HalfOpenMax = 2\<rparr>))) = CircuitOpen"
  using breaker_opens_at_threshold[of "\<lparr>cc_FailureThreshold = 3, cc_RecoveryTimeout = 60, cc_HalfOpenMax = 2\<rparr>" "[1, 2]" 0 3]
  by (simp add: validConfig_def)

text \<open>Fail fast: while the breaker refuses at every attempt time of a call, ChatComplete makes no request to
  the wrapped provider, leaves the breaker as it is and returns ErrCircuitOpen.\<close>

theorem ChatComplete_fails_fast:
  assumes "0 < rc_MaxAttempts retry" "\<forall>i < nat (rc_MaxAttempts retry). \<not> fst (allow (ae_allowAt (env i)) cb)"
    "\<forall>i. ae_ctxErr (env i) = None"
  shows "cr_outcome (ChatComplete retry env cb) = Failed ErrCircuitOpen \<and> cr_calls (ChatComplete retry env cb) = 0 \<and>
    cr_breaker (ChatComplete retry env cb) = cb"
proof -
  have "allow (ae_allowAt (env i)) cb = (False, cb)" if "i < nat (rc_MaxAttempts retry)" for i
    using allow_refused[of "ae_allowAt (env i)" cb] assms(2) that by (metis (full_types) prod.collapse)
  then show ?thesis
    using chatLoop_blocked[of 0 "nat (rc_MaxAttempts retry)" env cb retry None "[]" 0] assms(1,3)
    by (simp add: ChatComplete_def)
qed

theorem ChatComplete_fails_fast_witness:
  "cr_calls (ChatComplete DefaultRetryConfig
     (\<lambda>_. \<lparr>ae_ctxErr = None, ae_rand = 0, ae_allowAt = 10, ae_reply = Inr (), ae_failAt = 10\<rparr>)
     \<lparr>cb_state = CircuitOpen, cb_failures = 8, cb_lastFailure = 9, cb_halfOpenActive = 0,
      cb_cfg = DefaultCircuitBreakerConfig (\<lambda>_. [])\<rparr>) = 0"
  by (rule conjunct1[OF conjunct2[OF ChatComplete_fails_fast]])
     (simp_all add: DefaultRetryConfig_def allow_def DefaultCircuitBreakerConfig_def envPositive_def int_word_sint)

text \<open>C23. Retry budget and success: ChatComplete calls the wrapped provider at most MaxAttempts times; when it
  returns a response, that response is the provider's answer to one of these attempts and the breaker is closed
  with its failure count reset.\<close>

theorem ChatComplete_attempts:
  "cr_calls (ChatComplete retry env cb) \<le> nat (rc_MaxAttempts retry) \<and>
   (cr_outcome (ChatComplete retry env cb) = Response r \<longrightarrow>
      (\<exists>i < nat (rc_MaxAttempts retry). ae_reply (env i) = Inr r) \<and>
      cb_state (cr_breaker (ChatComplete retry env cb)) = CircuitClosed \<and>
      cb_failures (cr_breaker (ChatComplete retry env cb)) = 0)"
  using chatLoop_calls[of 0 retry env "nat (rc_MaxAttempts retry)" 0 None cb "[]"]
    chatLoop_response[of retry env "nat (rc_MaxAttempts retry)" 0 None cb "[]" 0 r]
  by (auto simp: ChatComplete_def)

theorem ChatComplete_attempts_witness:
  "cb_failures (cr_breaker (ChatComplete DefaultRetryConfig
     (\<lambda>_. \<lparr>ae_ctxErr = None, ae_rand = 0, ae_allowAt = 10, ae_reply = Inr (), ae_failAt = 10\<rparr>)
     (newCircuitBreaker (DefaultCircuitBreakerConfig (\<lambda>_. []))))) = 0"
  by (rule conjunct2[OF conjunct2[OF mp[OF conjunct2[OF ChatComplete_attempts]]]])
     (simp add: ChatComplete_def DefaultRetryConfig_def newCircuitBreaker_def allow_def Let_def
        numeral_eq_Suc chatLoop.simps(2))

text \<open>Half-open probes that end in a non-retryable error are never given back: once HalfOpenMax such calls
  have been admitted, every later ChatComplete call, at whatever time, is refused without reaching the provider
  and leaves the breaker as it is, so the breaker never recovers.\<close>

theorem breaker_probe_leak:
  assumes "0 < rc_MaxAttempts retry" "ae_reply (env 0) = Inl err" "\<not> isRetryable (Some err)"
    "cb_state cb = CircuitHalfOpen" "cb_halfOpenActive cb + int k = cc_HalfOpenMax (cb_cfg cb)"
    "cb' = ((\<lambda>cb. cr_breaker (ChatComplete retry env cb)) ^^ k) cb"
    "0 < rc_MaxAttempts retry'" "\<forall>i. ae_ctxErr (env' i) = None"
  shows "cr_outcome (ChatComplete retry' env' cb') = Failed ErrCircuitOpen \<and>
    cr_calls (ChatComplete retry' env' cb') = 0 \<and> cr_breaker (ChatComplete retry' env' cb') = cb'"
proof -
  have "saturated cb'"
    using probes_saturate[where env = env and err = err and cb = cb and k = k, OF assms(1-4)] assms(4-6)
    by (simp add: saturated_def)
  then have "allow now cb' = (False, cb')" for now by (rule saturated_refuses)
  then show ?thesis
    using chatLoop_blocked[of 0 "nat (rc_MaxAttempts retry')" env' cb' retry' None "[]" 0] assms(7,8)
    by (simp add: ChatComplete_def)
qed

theorem breaker_probe_leak_witness:
  "\<exists>cb' :: circuitBreaker. cr_calls (ChatComplete DefaultRetryConfig
     (\<lambda>_. \<lparr>ae_ctxErr = None, ae_rand = 0, ae_allowAt = 1000000000000000, ae_reply = Inr (), ae_failAt = 10\<rparr>) cb') = 0"
proof -
  let ?bad = "ErrProvider \<lparr>pe_StatusCode = 400, pe_Code = [], pe_Message = [], pe_RetryAfter = []\<rparr>"
  let ?env = "\<lambda>_ :: nat. \<lparr>ae_ctxErr = None, ae_rand = 0, ae_allowAt = 5, ae_reply = Inl ?bad :: chatErr + unit, ae_failAt = 10\<rparr>"
  let ?cb = "\<lparr>cb_state = CircuitHalfOpen, cb_failures = 8, cb_lastFailure = 9, cb_halfOpenActive = 1,
       cb_cfg = DefaultCircuitBreakerConfig (\<lambda>_. [])\<rparr>"
  have "0 < rc_MaxAttempts DefaultRetryConfig" "ae_reply (?env 0) = Inl ?bad" "\<not> isRetryable (Some ?bad)"
    "cb_state ?cb = CircuitHalfOpen" "cb_halfOpenActive ?cb + int 1 = cc_HalfOpenMax (cb_cfg ?cb)"
    by (simp_all add: DefaultRetryConfig_def isRetryable_def DefaultCircuitBreakerConfig_def envPositive_def)
  from breaker_probe_leak[where env = ?env and cb = ?cb, OF this refl this(1), of
    "\<lambda>_. \<lparr>ae_ctxErr = None, ae_rand = 0, ae_allowAt = 1000000000000000, ae_reply = Inr (), ae_failAt = 10\<rparr>"]
  show ?thesis by auto
qed

text \<open>The wait before a retry is never negative and stays within a quarter of the capped exponential
  backoff: it is at most 5/4 of MaxBackoff.\<close>

theorem backoffDuration_bounds:
  assumes "0 \<le> rc_BaseBackoff cfg" "0 \<le> rc_MaxBackoff cfg" "0 \<le> rc_BackoffScale cfg" "0 \<le> rnd" "rnd \<le> 1"
  shows "0 \<le> backoffDuration rnd attempt cfg \<and>
    rat_of_int (backoffDuration rnd attempt cfg) \<le> 5 / 4 * rat_of_int (rc_MaxBackoff cfg) \<and>
    3 / 4 * min (rat_of_int (rc_MaxBackoff cfg)) (rat_of_int (rc_BaseBackoff cfg) * rc_BackoffScale cfg ^ attempt)
      < rat_of_int (backoffDuration rnd attempt cfg) + 1"
proof -
  let ?b = "rat_of_int (rc_BaseBackoff cfg) * rc_BackoffScale cfg ^ attempt"
  let ?x = "min (rat_of_int (rc_MaxBackoff cfg)) ?b"
  have "0 \<le> ?x" using assms by (simp add: min_def)
  note b = backoff_base_bounds[OF this assms(4,5)]
  have "backoffDuration rnd attempt cfg = truncRat (?x + ?x * (1 / 4) * (2 * rnd - 1))"
    using b(1) by (cases "rat_of_int (rc_MaxBackoff cfg) < ?b")
      (simp_all add: backoffDuration_def Let_def min_absorb1 min_absorb2)
  moreover have "5 / 4 * ?x \<le> 5 / 4 * rat_of_int (rc_MaxBackoff cfg)" by (intro mult_left_mono) simp_all
  ultimately show ?thesis using b by linarith
qed

theorem backoffDuration_bounds_witness:
  "rat_of_int (backoffDuration (1 / 2) 9 DefaultRetryConfig) \<le> 5 / 4 * rat_of_int (30 * second)"
  using backoffDuration_bounds[of DefaultRetryConfig "1 / 2" 9] by (simp add: DefaultRetryConfig_def)

end
