(* ===== verification/Governance.thy ===== *)
theory Governance
  imports AgentOS_Prelude
begin

text \<open>
  The governance engine (internal/governance/types.go, engine.go, killswitch.go, registry.go, loader.go).

  \<^item> The configuration structs are records; \<open>engine\<close> holds the configuration, the kill switch and the three
    behaviour trackers. The trackers are interfaces in the code, so the engine takes their operations as a record
    \<open>trackerOps\<close>; \<open>inMemoryOps\<close> is the bundle that \<open>NewEngineFromConfig\<close> installs.
  \<^item> The formatted reasons of decisions are constructors of \<open>reason\<close>, one per format string.
  \<^item> \<open>ParseDuration\<close> models the function of package time on strings with ASCII units.
  \<^item> The locale \<open>rate_tracker\<close> is the contract of the \<open>RateLimiter\<close> interface used for the hourly limit and
    \<open>circuit_tracker\<close> that of \<open>CircuitBreakerTracker\<close>; both are interpreted on the in-memory implementations.
\<close>

subsection \<open>Configuration\<close>

record agentPolicy =
  ap_Role :: string
  ap_Description :: string
  ap_Clearance :: string
  ap_Auth :: string

record rateLimit =
  rl_PerHour :: int
  rl_PerDay :: int
  rl_ObservePerHour :: int
  rl_ActionPerHour :: int

record loopDetectionConfig =
  ld_MaxAttemptsPerTarget :: int
  ld_Window :: string
  ld_OnTrigger :: string

record govBreakerConfig =
  gb_ConsecutiveFailures :: int
  gb_Action :: string
  gb_Notify :: string
  gb_AutoUnfreeze :: bool

record behaviorConfig =
  bc_RateLimits :: "(string, rateLimit) gomap"
  bc_LoopDetection :: loopDetectionConfig
  bc_CircuitBreaker :: govBreakerConfig

record segmentationEntry =
  se_AllowedActions :: "string list"
  se_DeniedActions :: "string list"
  se_ProtectedTargets :: "string list"
  se_ProtectedGate :: string
  se_Scope :: string

record governanceConfig =
  gc_Version :: string
  gc_Framework :: string
  gc_Agents :: "(string, agentPolicy) gomap"
  gc_Behavior :: behaviorConfig
  gc_Segments :: "(string, segmentationEntry) gomap"

datatype configErr = MissingVersion | NoAgents | AgentWithoutRole string | UnknownSegmentAgent string

definition validateConfig :: "governanceConfig \<Rightarrow> configErr option" where
  "validateConfig cfg =
     (if gc_Version cfg = [] then Some MissingVersion
      else if gc_Agents cfg = [] then Some NoAgents
      else case find (\<lambda>(name, agent). ap_Role agent = []) (gc_Agents cfg) of
        Some (name, _) \<Rightarrow> Some (AgentWithoutRole name)
      | None \<Rightarrow>
          (case find (\<lambda>(name, _). mget (gc_Agents cfg) name = None) (gc_Segments cfg) of
             Some (name, _) \<Rightarrow> Some (UnknownSegmentAgent name)
           | None \<Rightarrow> None))"

datatype verdict = Allow | Deny

datatype reason =
    RFrozen string | RUnknownAgent string | RNoSegmentation string | RExplicitDeny string string
  | RNotAllowed string string | RBreakerFrozen string | RHourly string string int int | RDaily string int int
  | RLoop string string string int duration int

record decision =
  d_Verdict :: verdict
  d_Reason :: "reason option"
  d_Domain :: string

definition denyBy :: "reason \<Rightarrow> string \<Rightarrow> decision" where
  "denyBy r d = \<lparr>d_Verdict = Deny, d_Reason = Some r, d_Domain = d\<rparr>"

definition allowed :: decision where
  "allowed = \<lparr>d_Verdict = Allow, d_Reason = None, d_Domain = []\<rparr>"

subsection \<open>Kill switch and registry\<close>

record freezeRecord =
  fr_AgentID :: string
  fr_Reason :: string
  fr_FrozenBy :: string
  fr_FrozenAt :: time

type_synonym killSwitch = "(string, freezeRecord) gomap"

definition KS_Freeze :: "time \<Rightarrow> string \<Rightarrow> string \<Rightarrow> string \<Rightarrow> killSwitch \<Rightarrow> killSwitch" where
  "KS_Freeze now agentID reason frozenBy ks =
     mput agentID \<lparr>fr_AgentID = agentID, fr_Reason = reason, fr_FrozenBy = frozenBy, fr_FrozenAt = now\<rparr> ks"

definition KS_Unfreeze :: "string \<Rightarrow> killSwitch \<Rightarrow> killSwitch" where
  "KS_Unfreeze agentID ks = (if mget ks agentID \<noteq> None then mdel agentID ks else ks)"

definition KS_IsFrozen :: "killSwitch \<Rightarrow> string \<Rightarrow> bool \<times> string" where
  "KS_IsFrozen ks agentID = (case mget ks agentID of None \<Rightarrow> (False, []) | Some rec \<Rightarrow> (True, fr_Reason rec))"

definition ListFrozen :: "killSwitch \<Rightarrow> freezeRecord list" where
  "ListFrozen ks = map snd ks"

record agentEntry =
  ae_role :: string
  ae_connectedAt :: time
  ae_lastActionAt :: time
  ae_actionCount :: int

record agentRegistry =
  ar_agents :: "(string, agentEntry) gomap"
  ar_validRoles :: "string list"

definition NewAgentRegistry :: "governanceConfig \<Rightarrow> agentRegistry" where
  "NewAgentRegistry cfg =
     \<lparr>ar_agents = [], ar_validRoles = filter (\<lambda>r. r \<noteq> []) (map (\<lambda>(_, p). ap_Role p) (gc_Agents cfg))\<rparr>"

definition Reg_Register :: "time \<Rightarrow> string \<Rightarrow> string \<Rightarrow> agentRegistry \<Rightarrow> bool \<times> agentRegistry" where
  "Reg_Register now agentID role r =
     (if role \<notin> set (ar_validRoles r) then (False, r)
      else (True, r\<lparr>ar_agents := mput agentID
              \<lparr>ae_role = role, ae_connectedAt = now, ae_lastActionAt = 0, ae_actionCount = 0\<rparr> (ar_agents r)\<rparr>))"

definition Reg_GetRole :: "agentRegistry \<Rightarrow> string \<Rightarrow> string option" where
  "Reg_GetRole r agentID = map_option ae_role (mget (ar_agents r) agentID)"

definition Reg_RecordAction :: "time \<Rightarrow> string \<Rightarrow> agentRegistry \<Rightarrow> agentRegistry" where
  "Reg_RecordAction now agentID r =
     (case mget (ar_agents r) agentID of None \<Rightarrow> r
      | Some e \<Rightarrow> r\<lparr>ar_agents := mput agentID
                     (e\<lparr>ae_actionCount := ae_actionCount e + 1, ae_lastActionAt := now\<rparr>) (ar_agents r)\<rparr>)"

definition Reg_GetStats :: "agentRegistry \<Rightarrow> string \<Rightarrow> agentEntry" where
  "Reg_GetStats r agentID =
     (case mget (ar_agents r) agentID of
        None \<Rightarrow> \<lparr>ae_role = [], ae_connectedAt = 0, ae_lastActionAt = 0, ae_actionCount = 0\<rparr>
      | Some e \<Rightarrow> e)"

subsection \<open>Behaviour trackers\<close>

type_synonym tsMap = "(string, time list) gomap"

abbreviation CategoryObserve :: string where "CategoryObserve \<equiv> ''observe''"
abbreviation CategoryAction :: string where "CategoryAction \<equiv> ''action''"

definition rateBucketKey :: "string \<Rightarrow> string \<Rightarrow> string" where
  "rateBucketKey agentID category = agentID @ '':'' @ category"

definition maxRateBuckets :: nat where "maxRateBuckets = 10000"

definition latestOf :: "time list \<Rightarrow> time" where
  "latestOf ts = fold (\<lambda>t latest. if latest < t then t else latest) ts 0"

definition oldestIdx :: "(string \<times> time) list \<Rightarrow> nat" where
  "oldestIdx es = fold (\<lambda>j oldest. if snd (es ! j) < snd (es ! oldest) then j else oldest) [1..<length es] 0"

fun evictSelect :: "nat \<Rightarrow> (string \<times> time) list \<Rightarrow> tsMap \<Rightarrow> tsMap" where
  "evictSelect 0 es m = m"
| "evictSelect (Suc n) [] m = m"
| "evictSelect (Suc n) (e # es) m =
     (let o' = oldestIdx (e # es); old = (e # es) ! o'; es' = (e # es)[0 := old, o' := e] in
      evictSelect n (tl es') (mdel (fst old) m))"

definition evictOldestBuckets :: "tsMap \<Rightarrow> tsMap" where
  "evictOldestBuckets m =
     (let toRemove = (if length m div 10 < 1 then 1 else length m div 10);
          entries = map (\<lambda>(k, ts). (k, latestOf ts)) m in
      evictSelect toRemove entries m)"

definition RL_RecordAction :: "string \<Rightarrow> string \<Rightarrow> time \<Rightarrow> tsMap \<Rightarrow> tsMap" where
  "RL_RecordAction agentID category t buckets =
     (let key = rateBucketKey agentID category; m = mput key (zget [] buckets key @ [t]) buckets in
      if length m > maxRateBuckets then evictOldestBuckets m else m)"

definition hourLimitFor :: "string \<Rightarrow> rateLimit \<Rightarrow> int" where
  "hourLimitFor category limits =
     (if category = CategoryObserve \<and> rl_ObservePerHour limits > 0 then rl_ObservePerHour limits
      else if category = CategoryAction \<and> rl_ActionPerHour limits > 0 then rl_ActionPerHour limits
      else rl_PerHour limits)"

definition RL_Check :: "string \<Rightarrow> string \<Rightarrow> rateLimit \<Rightarrow> time \<Rightarrow> tsMap \<Rightarrow> reason option \<times> tsMap" where
  "RL_Check agentID category limits now buckets =
     (let key = rateBucketKey agentID category; timestamps = zget [] buckets key;
          hourAgo = now - hour; dayAgo = now - 24 * hour;
          alive = filter (\<lambda>t. dayAgo < t) timestamps;
          hourCount = int (length (filter (\<lambda>t. hourAgo < t) alive));
          m = mput key alive buckets;
          hourLimit = hourLimitFor category limits in
      if hourLimit > 0 \<and> hourCount \<ge> hourLimit
      then (Some (RHourly agentID category hourCount hourLimit), m)
      else
        let dayCount = int (length (filter (\<lambda>t. dayAgo < t) (zget [] m (rateBucketKey agentID CategoryObserve))) +
                            length (filter (\<lambda>t. dayAgo < t) (zget [] m (rateBucketKey agentID CategoryAction)))) in
        if rl_PerDay limits > 0 \<and> dayCount \<ge> rl_PerDay limits
        then (Some (RDaily agentID dayCount (rl_PerDay limits)), m)
        else (None, m))"

definition loopKey :: "string \<Rightarrow> string \<Rightarrow> string \<Rightarrow> string" where
  "loopKey agentID action target = agentID @ ''|'' @ action @ ''|'' @ target"

definition maxLoopBuckets :: nat where "maxLoopBuckets = 10000"

definition LD_RecordAttempt :: "string \<Rightarrow> string \<Rightarrow> string \<Rightarrow> time \<Rightarrow> tsMap \<Rightarrow> tsMap" where
  "LD_RecordAttempt agentID action target t attempts =
     (let key = loopKey agentID action target; m = mput key (zget [] attempts key @ [t]) attempts in
      if length m > maxLoopBuckets
      then (let cutoff = t - 24 * hour in
            filter (\<lambda>(k, alive). alive \<noteq> []) (map (\<lambda>(k, ts). (k, filter (\<lambda>tt. cutoff < tt) ts)) m))
      else m)"

definition LD_Check ::
  "string \<Rightarrow> string \<Rightarrow> string \<Rightarrow> int \<Rightarrow> duration \<Rightarrow> time \<Rightarrow> tsMap \<Rightarrow> reason option \<times> tsMap" where
  "LD_Check agentID action target maxAttempts window now attempts =
     (let key = loopKey agentID action target; cutoff = now - window;
          alive = filter (\<lambda>t. cutoff < t) (zget [] attempts key);
          count = int (length alive); m = mput key alive attempts in
      if count \<ge> maxAttempts then (Some (RLoop agentID action target count window maxAttempts), m)
      else (None, m))"

record govBreaker =
  gv_failures :: "(string, int) gomap"
  gv_frozen :: "(string, bool) gomap"

definition CB_RecordSuccess :: "string \<Rightarrow> govBreaker \<Rightarrow> govBreaker" where
  "CB_RecordSuccess agentID cb = cb\<lparr>gv_failures := mput agentID 0 (gv_failures cb)\<rparr>"

definition CB_RecordFailure :: "string \<Rightarrow> govBreaker \<Rightarrow> int \<times> govBreaker" where
  "CB_RecordFailure agentID cb =
     (let n = zget 0 (gv_failures cb) agentID + 1 in (n, cb\<lparr>gv_failures := mput agentID n (gv_failures cb)\<rparr>))"

definition CB_ConsecutiveFailures :: "govBreaker \<Rightarrow> string \<Rightarrow> int" where
  "CB_ConsecutiveFailures cb agentID = zget 0 (gv_failures cb) agentID"

definition CB_IsFrozen :: "govBreaker \<Rightarrow> string \<Rightarrow> bool" where
  "CB_IsFrozen cb agentID = zget False (gv_frozen cb) agentID"

definition CB_Freeze :: "string \<Rightarrow> govBreaker \<Rightarrow> govBreaker" where
  "CB_Freeze agentID cb = cb\<lparr>gv_frozen := mput agentID True (gv_frozen cb)\<rparr>"

subsection \<open>Durations\<close>

definition unitOf :: "string \<Rightarrow> int option" where
  "unitOf u = mget [(''ns'', 1), (''us'', 1000), (''ms'', millisecond), (''s'', second), (''m'', minute), (''h'', hour)] u"

definition digitsVal :: "string \<Rightarrow> int" where
  "digitsVal ds = fold (\<lambda>c acc. acc * 10 + (of_char c - 48)) ds 0"

definition lexNumber :: "string \<Rightarrow> string \<times> string \<times> string" where
  "lexNumber s =
     (let pre = takeWhile isDigit s; s1 = dropWhile isDigit s in
      if s1 \<noteq> [] \<and> hd s1 = CHR ''.''
      then (pre, takeWhile isDigit (tl s1), dropWhile isDigit (tl s1))
      else (pre, [], s1))"

definition isUnitChar :: "char \<Rightarrow> bool" where
  "isUnitChar c \<longleftrightarrow> \<not> (c = CHR ''.'' \<or> isDigit c)"

lemma lexNumber_length: "lexNumber s = (pre, post, s2) \<Longrightarrow> length s2 \<le> length s"
  unfolding lexNumber_def Let_def
  by (metis (no_types, lifting) Pair_inject diff_le_self dual_order.trans length_dropWhile_le length_tl)

lemma length_dropWhile_less:
  assumes "takeWhile P s \<noteq> []" "length s \<le> n"
  shows "length (dropWhile P s) < n"
proof -
  have "length (takeWhile P s) + length (dropWhile P s) = length s"
    by (metis length_append takeWhile_dropWhile_id)
  with assms show ?thesis by (cases "takeWhile P s") auto
qed

function parseDurLoop :: "string \<Rightarrow> int \<Rightarrow> int option" where
  "parseDurLoop s d =
     (if s = [] then Some d
      else case lexNumber s of (pre, post, s2) \<Rightarrow>
        if pre = [] \<and> post = [] then None
        else if takeWhile isUnitChar s2 = [] then None
        else case unitOf (takeWhile isUnitChar s2) of None \<Rightarrow> None
             | Some unit \<Rightarrow>
                 let v = digitsVal pre * unit + digitsVal post * unit div 10 ^ length post in
                 if v > 2 ^ 63 \<or> d + v > 2 ^ 63 then None
                 else parseDurLoop (dropWhile isUnitChar s2) (d + v))"
  by pat_completeness auto
termination
  by (relation "measure (\<lambda>(s, d). length s)")
     (auto intro!: length_dropWhile_less dest: lexNumber_length[OF sym])

declare parseDurLoop.simps [simp del]

definition ParseDuration :: "string \<Rightarrow> duration option" where
  "ParseDuration s0 =
     (let neg = (s0 \<noteq> [] \<and> hd s0 = CHR ''-'');
          s = (if s0 \<noteq> [] \<and> (hd s0 = CHR ''-'' \<or> hd s0 = CHR ''+'') then tl s0 else s0) in
      if s = ''0'' then Some 0
      else if s = [] then None
      else case parseDurLoop s 0 of None \<Rightarrow> None
           | Some d \<Rightarrow> if neg then Some (- d) else if d > 2 ^ 63 - 1 then None else Some d)"

definition parseWindow :: "string \<Rightarrow> duration" where
  "parseWindow s = (case ParseDuration s of None \<Rightarrow> hour | Some d \<Rightarrow> d)"

subsection \<open>The engine\<close>

record ('rl, 'ld, 'cb) trackerOps =
  rlCheck :: "string \<Rightarrow> string \<Rightarrow> rateLimit \<Rightarrow> time \<Rightarrow> 'rl \<Rightarrow> reason option \<times> 'rl"
  rlRecord :: "string \<Rightarrow> string \<Rightarrow> time \<Rightarrow> 'rl \<Rightarrow> 'rl"
  ldCheck :: "string \<Rightarrow> string \<Rightarrow> string \<Rightarrow> int \<Rightarrow> duration \<Rightarrow> time \<Rightarrow> 'ld \<Rightarrow> reason option \<times> 'ld"
  ldRecord :: "string \<Rightarrow> string \<Rightarrow> string \<Rightarrow> time \<Rightarrow> 'ld \<Rightarrow> 'ld"
  cbSuccess :: "string \<Rightarrow> 'cb \<Rightarrow> 'cb"
  cbFailure :: "string \<Rightarrow> 'cb \<Rightarrow> int \<times> 'cb"
  cbFrozen :: "'cb \<Rightarrow> string \<Rightarrow> bool"
  cbFreeze :: "string \<Rightarrow> 'cb \<Rightarrow> 'cb"

definition inMemoryOps :: "(tsMap, tsMap, govBreaker) trackerOps" where
  "inMemoryOps = \<lparr>rlCheck = RL_Check, rlRecord = RL_RecordAction, ldCheck = LD_Check, ldRecord = LD_RecordAttempt,
     cbSuccess = CB_RecordSuccess, cbFailure = CB_RecordFailure, cbFrozen = CB_IsFrozen, cbFreeze = CB_Freeze\<rparr>"

record ('rl, 'ld, 'cb) engine =
  en_cfg :: governanceConfig
  en_killSwitch :: killSwitch
  en_rateLimiter :: 'rl
  en_loopDetector :: 'ld
  en_circuitBreaker :: 'cb

type_synonym memEngine = "(tsMap, tsMap, govBreaker) engine"

definition NewEngineFromConfig :: "governanceConfig \<Rightarrow> memEngine" where
  "NewEngineFromConfig cfg = \<lparr>en_cfg = cfg, en_killSwitch = [], en_rateLimiter = [], en_loopDetector = [],
     en_circuitBreaker = \<lparr>gv_failures = [], gv_frozen = []\<rparr>\<rparr>"

type_synonym args = "(string, json) gomap"

definition checkSegmentation :: "governanceConfig \<Rightarrow> string \<Rightarrow> string \<Rightarrow> args \<Rightarrow> decision option" where
  "checkSegmentation cfg agentID toolName as =
     (case mget (gc_Segments cfg) agentID of
        None \<Rightarrow> Some (denyBy (RNoSegmentation agentID) ''segmentation'')
      | Some seg \<Rightarrow>
          if toolName \<in> set (se_DeniedActions seg)
          then Some (denyBy (RExplicitDeny toolName agentID) ''segmentation'')
          else if toolName \<notin> set (se_AllowedActions seg)
          then Some (denyBy (RNotAllowed toolName agentID) ''segmentation'')
          else None)"

definition targetArg :: "args \<Rightarrow> string" where
  "targetArg as = (case asString (jobj as ''target'') of Some t \<Rightarrow> t | None \<Rightarrow> [])"

definition checkRate ::
  "('rl, 'ld, 'cb) trackerOps \<Rightarrow> governanceConfig \<Rightarrow> time \<Rightarrow> string \<Rightarrow> string \<Rightarrow> 'rl \<Rightarrow> reason option \<times> 'rl" where
  "checkRate ops cfg now agentID category rl =
     (case mget (bc_RateLimits (gc_Behavior cfg)) agentID of
        None \<Rightarrow> (None, rl)
      | Some limits \<Rightarrow> rlCheck ops agentID category limits now rl)"

definition checkLoop ::
  "('rl, 'ld, 'cb) trackerOps \<Rightarrow> governanceConfig \<Rightarrow> time \<Rightarrow> string \<Rightarrow> string \<Rightarrow> string \<Rightarrow> 'ld \<Rightarrow> reason option \<times> 'ld" where
  "checkLoop ops cfg now agentID toolName target ld =
     (let lc = bc_LoopDetection (gc_Behavior cfg) in
      if target \<noteq> [] \<and> ld_MaxAttemptsPerTarget lc > 0
      then ldCheck ops agentID toolName target (ld_MaxAttemptsPerTarget lc) (parseWindow (ld_Window lc)) now ld
      else (None, ld))"

definition checkBehavior ::
  "('rl, 'ld, 'cb) trackerOps \<Rightarrow> time \<Rightarrow> string \<Rightarrow> string \<Rightarrow> string \<Rightarrow> args \<Rightarrow> ('rl, 'ld, 'cb) engine
   \<Rightarrow> decision option \<times> ('rl, 'ld, 'cb) engine" where
  "checkBehavior ops now agentID toolName category as e =
     (if cbFrozen ops (en_circuitBreaker e) agentID
      then (Some (denyBy (RBreakerFrozen agentID) ''behavior''), e)
      else
        let (r1, rl) = checkRate ops (en_cfg e) now agentID category (en_rateLimiter e);
            e1 = e\<lparr>en_rateLimiter := rl\<rparr> in
        case r1 of
          Some r \<Rightarrow> (Some (denyBy r ''behavior''), e1)
        | None \<Rightarrow>
            (let target = targetArg as;
                 (r2, ld) = checkLoop ops (en_cfg e) now agentID toolName target (en_loopDetector e1);
                 e2 = e1\<lparr>en_loopDetector := ld\<rparr> in
             case r2 of
               Some r \<Rightarrow> (Some (denyBy r ''behavior''), e2)
             | None \<Rightarrow>
                 (let e3 = e2\<lparr>en_rateLimiter := rlRecord ops agentID category now (en_rateLimiter e2)\<rparr> in
                  (None, if target \<noteq> []
                         then e3\<lparr>en_loopDetector := ldRecord ops agentID toolName target now (en_loopDetector e3)\<rparr>
                         else e3))))"

definition checkCategory :: "string option \<Rightarrow> string" where
  "checkCategory opts = (case opts of Some c \<Rightarrow> if c \<noteq> [] then c else CategoryAction | None \<Rightarrow> CategoryAction)"

definition Check ::
  "('rl, 'ld, 'cb) trackerOps \<Rightarrow> time \<Rightarrow> string \<Rightarrow> string \<Rightarrow> args \<Rightarrow> string option \<Rightarrow> ('rl, 'ld, 'cb) engine
   \<Rightarrow> decision \<times> ('rl, 'ld, 'cb) engine" where
  "Check ops now agentID toolName as opts e =
     (let (frozen, rsn) = KS_IsFrozen (en_killSwitch e) agentID in
      if frozen then (denyBy (RFrozen rsn) ''killswitch'', e)
      else case mget (gc_Agents (en_cfg e)) agentID of
        None \<Rightarrow> (denyBy (RUnknownAgent agentID) ''identity'', e)
      | Some agent \<Rightarrow>
          (case checkSegmentation (en_cfg e) agentID toolName as of
             Some d \<Rightarrow> (d, e)
           | None \<Rightarrow>
               (case checkBehavior ops now agentID toolName (checkCategory opts) as e of
                  (Some d, e') \<Rightarrow> (d, e')
                | (None, e') \<Rightarrow> (allowed, e'))))"

definition RecordResult :: "('rl, 'ld, 'cb) trackerOps \<Rightarrow> string \<Rightarrow> bool \<Rightarrow> ('rl, 'ld, 'cb) engine \<Rightarrow> ('rl, 'ld, 'cb) engine" where
  "RecordResult ops agentID success e =
     (if success then e\<lparr>en_circuitBreaker := cbSuccess ops agentID (en_circuitBreaker e)\<rparr>
      else
        let (count, cb) = cbFailure ops agentID (en_circuitBreaker e);
            threshold = gb_ConsecutiveFailures (bc_CircuitBreaker (gc_Behavior (en_cfg e))) in
        if threshold > 0 \<and> count \<ge> threshold
        then e\<lparr>en_circuitBreaker := cbFreeze ops agentID cb\<rparr>
        else e\<lparr>en_circuitBreaker := cb\<rparr>)"

definition EngineFreeze :: "time \<Rightarrow> string \<Rightarrow> string \<Rightarrow> string \<Rightarrow> ('rl, 'ld, 'cb) engine \<Rightarrow> ('rl, 'ld, 'cb) engine" where
  "EngineFreeze now agentID rsn by' e = e\<lparr>en_killSwitch := KS_Freeze now agentID rsn by' (en_killSwitch e)\<rparr>"

definition EngineUnfreeze :: "string \<Rightarrow> ('rl, 'ld, 'cb) engine \<Rightarrow> ('rl, 'ld, 'cb) engine" where
  "EngineUnfreeze agentID e = e\<lparr>en_killSwitch := KS_Unfreeze agentID (en_killSwitch e)\<rparr>"

subsubsection \<open>Steps and traces\<close>

inductive engine_step :: "('rl, 'ld, 'cb) trackerOps \<Rightarrow> ('rl, 'ld, 'cb) engine \<Rightarrow> ('rl, 'ld, 'cb) engine \<Rightarrow> bool"
  for ops where
  es_check: "engine_step ops e (snd (Check ops now agentID toolName as opts e))"
| es_result: "engine_step ops e (RecordResult ops agentID success e)"
| es_freeze: "engine_step ops e (EngineFreeze now agentID rsn by' e)"
| es_unfreeze: "engine_step ops e (EngineUnfreeze agentID e)"

inductive_cases engine_stepE: "engine_step ops e e'"

record govCall =
  gl_now :: time
  gl_agent :: string
  gl_tool :: string
  gl_args :: args
  gl_category :: string

definition checkCall :: "('rl, 'ld, 'cb) trackerOps \<Rightarrow> govCall \<Rightarrow> ('rl, 'ld, 'cb) engine \<Rightarrow> decision \<times> ('rl, 'ld, 'cb) engine" where
  "checkCall ops c e = Check ops (gl_now c) (gl_agent c) (gl_tool c) (gl_args c) (Some (gl_category c)) e"

fun checkTrace ::
  "('rl, 'ld, 'cb) trackerOps \<Rightarrow> govCall list \<Rightarrow> ('rl, 'ld, 'cb) engine \<Rightarrow> decision list \<times> ('rl, 'ld, 'cb) engine" where
  "checkTrace ops [] e = ([], e)"
| "checkTrace ops (c # cs) e =
     (let (d, e') = checkCall ops c e; (ds, e'') = checkTrace ops cs e' in (d # ds, e''))"

definition allowedSince :: "string \<Rightarrow> string \<Rightarrow> time \<Rightarrow> govCall list \<Rightarrow> decision list \<Rightarrow> nat" where
  "allowedSince agent category since cs ds =
     length (filter (\<lambda>(c, d). gl_agent c = agent \<and> gl_category c = category \<and> since < gl_now c \<and> d_Verdict d = Allow)
              (zip cs ds))"

definition recentCalls :: "tsMap \<Rightarrow> string \<Rightarrow> string \<Rightarrow> time \<Rightarrow> nat" where
  "recentCalls m agent category since = length (filter (\<lambda>t. since < t) (zget [] m (rateBucketKey agent category)))"

definition categories :: "string set" where
  "categories = {CategoryObserve, CategoryAction}"

definition bucketsOk :: "string list \<Rightarrow> tsMap \<Rightarrow> bool" where
  "bucketsOk agents m \<longleftrightarrow> gwf m \<and> 2 * length agents \<le> maxRateBuckets \<and>
     fst ` set m \<subseteq> (\<lambda>(a, c). rateBucketKey a c) ` (set agents \<times> categories)"

subsection \<open>Decisions\<close>

lemma denyBy_sel [simp]: "d_Verdict (denyBy r d) = Deny" "d_Reason (denyBy r d) = Some r" "d_Domain (denyBy r d) = d"
  by (simp_all add: denyBy_def)

lemma allowed_sel [simp]: "d_Verdict allowed = Allow"
  by (simp add: allowed_def)

lemma checkSegmentation_deny: "checkSegmentation cfg a tool as = Some d \<Longrightarrow> d_Verdict d = Deny"
  by (auto simp: checkSegmentation_def split: option.splits if_splits)

lemma checkBehavior_deny: "checkBehavior ops now a tool c as e = (Some d, e') \<Longrightarrow> d_Verdict d = Deny"
  by (auto simp: checkBehavior_def Let_def split: option.splits if_splits prod.splits)

lemma checkBehavior_frame:
  "checkBehavior ops now a tool c as e = (r, e') \<Longrightarrow>
   en_cfg e' = en_cfg e \<and> en_killSwitch e' = en_killSwitch e \<and> en_circuitBreaker e' = en_circuitBreaker e"
  by (auto simp: checkBehavior_def Let_def split: option.splits if_splits prod.splits)

lemma Check_frame:
  "Check ops now a tool as opts e = (d, e') \<Longrightarrow>
   en_cfg e' = en_cfg e \<and> en_killSwitch e' = en_killSwitch e \<and> en_circuitBreaker e' = en_circuitBreaker e"
  by (auto simp: Check_def Let_def dest: checkBehavior_frame split: option.splits if_splits prod.splits)

lemma checkBehavior_rate:
  assumes "checkBehavior ops now a tool c as e = (r, e')"
  shows "r = None \<Longrightarrow> \<not> cbFrozen ops (en_circuitBreaker e) a \<and>
      (\<exists>rl. checkRate ops (en_cfg e) now a c (en_rateLimiter e) = (None, rl) \<and> en_rateLimiter e' = rlRecord ops a c now rl)"
    and "r \<noteq> None \<Longrightarrow> en_rateLimiter e' = en_rateLimiter e \<or>
      en_rateLimiter e' = snd (checkRate ops (en_cfg e) now a c (en_rateLimiter e))"
  using assms by (auto simp: checkBehavior_def Let_def split: option.splits if_splits prod.splits)

lemma Check_allow:
  assumes "Check ops now a tool as opts e = (d, e')" "d_Verdict d = Allow"
  shows "d = allowed" "fst (KS_IsFrozen (en_killSwitch e) a) = False"
    "mget (gc_Agents (en_cfg e)) a \<noteq> None" "checkSegmentation (en_cfg e) a tool as = None"
    "checkBehavior ops now a tool (checkCategory opts) as e = (None, e')"
  using assms
  by (auto simp: Check_def Let_def dest: checkSegmentation_deny checkBehavior_deny
      split: option.splits if_splits prod.splits)

lemma Check_deny_reason:
  assumes "Check ops now a tool as opts e = (d, e')" "d_Verdict d = Deny"
  shows "d_Reason d \<noteq> None \<and> d_Domain d \<in> {''killswitch'', ''identity'', ''segmentation'', ''behavior''}"
proof -
  have "d_Domain d' = ''segmentation'' \<and> d_Reason d' \<noteq> None"
    if "checkSegmentation (en_cfg e) a tool as = Some d'" for d'
    using that by (auto simp: checkSegmentation_def denyBy_def split: option.splits if_splits)
  moreover have "d_Domain d' = ''behavior'' \<and> d_Reason d' \<noteq> None"
    if "checkBehavior ops now a tool c as e = (Some d', e'')" for c d' e''
    using that by (auto simp: checkBehavior_def denyBy_def Let_def split: option.splits if_splits prod.splits)
  ultimately show ?thesis
    using assms by (auto simp: Check_def Let_def split: option.splits if_splits prod.splits)
qed

lemma Check_deny_rate:
  assumes "Check ops now a tool as opts e = (d, e')" "d_Verdict d = Deny"
  shows "en_rateLimiter e' = en_rateLimiter e \<or>
    en_rateLimiter e' = snd (checkRate ops (en_cfg e) now a (checkCategory opts) (en_rateLimiter e)) \<and>
    mget (gc_Agents (en_cfg e)) a \<noteq> None"
  using assms checkBehavior_rate(2)[of ops now a tool "checkCategory opts" as e]
  by (fastforce simp: Check_def Let_def split: option.splits if_splits prod.splits)

subsection \<open>The contract of the rate limiter\<close>

locale rate_tracker =
  fixes ops :: "('rl, 'ld, 'cb) trackerOps"
    and recent :: "'rl \<Rightarrow> string \<Rightarrow> string \<Rightarrow> time \<Rightarrow> nat"
    and ok :: "string list \<Rightarrow> 'rl \<Rightarrow> bool"
  assumes check_limit: "ok as rl \<Longrightarrow> rlCheck ops a c lm now rl = (None, rl') \<Longrightarrow> hourLimitFor c lm > 0 \<Longrightarrow>
      int (recent rl a c (now - hour)) < hourLimitFor c lm"
    and check_recent: "ok as rl \<Longrightarrow> now - hour \<le> since \<Longrightarrow>
      recent (snd (rlCheck ops a c lm now rl)) a' c' since = recent rl a' c' since"
    and record_recent: "ok as rl \<Longrightarrow> a \<in> set as \<Longrightarrow> c \<in> categories \<Longrightarrow> c' \<in> categories \<Longrightarrow>
      recent (rlRecord ops a c now rl) a' c' since =
        recent rl a' c' since + (if a' = a \<and> c' = c \<and> since < now then 1 else 0)"
    and recent_mono: "since \<le> since' \<Longrightarrow> recent rl a c since' \<le> recent rl a c since"
    and ok_check: "ok as rl \<Longrightarrow> a \<in> set as \<Longrightarrow> c \<in> categories \<Longrightarrow> ok as (snd (rlCheck ops a c lm now rl))"
    and ok_record: "ok as rl \<Longrightarrow> a \<in> set as \<Longrightarrow> c \<in> categories \<Longrightarrow> ok as (rlRecord ops a c now rl)"
begin

lemma checkRate_recent:
  "ok as rl \<Longrightarrow> now - hour \<le> since \<Longrightarrow> recent (snd (checkRate ops cfg now a c rl)) a' c' since = recent rl a' c' since"
  by (auto simp: checkRate_def check_recent split: option.split)

lemma ok_checkRate:
  "ok as rl \<Longrightarrow> a \<in> set as \<Longrightarrow> c \<in> categories \<Longrightarrow> ok as (snd (checkRate ops cfg now a c rl))"
  by (auto simp: checkRate_def ok_check split: option.split)

lemma category_some: "c \<in> categories \<Longrightarrow> checkCategory (Some c) = c"
  by (auto simp: checkCategory_def categories_def)

lemma checkCall_recent:
  assumes "ok as (en_rateLimiter e)" "as = map fst (gc_Agents (en_cfg e))" "gl_category c \<in> categories"
    "checkCall ops c e = (d, e')"
  shows "ok as (en_rateLimiter e')"
    and "gl_now c - hour \<le> since \<Longrightarrow> cat \<in> categories \<Longrightarrow>
      recent (en_rateLimiter e') a cat since = recent (en_rateLimiter e) a cat since +
        (if a = gl_agent c \<and> cat = gl_category c \<and> since < gl_now c \<and> d_Verdict d = Allow then 1 else 0)"
    and "d_Verdict d = Allow \<Longrightarrow> mget (bc_RateLimits (gc_Behavior (en_cfg e))) (gl_agent c) = Some lm \<Longrightarrow>
      hourLimitFor (gl_category c) lm > 0 \<Longrightarrow>
      int (recent (en_rateLimiter e) (gl_agent c) (gl_category c) (gl_now c - hour)) < hourLimitFor (gl_category c) lm"
proof -
  note cc = assms(4)[unfolded checkCall_def]
  let ?chk = "checkRate ops (en_cfg e) (gl_now c) (gl_agent c) (gl_category c) (en_rateLimiter e)"
  have known: "gl_agent c \<in> set as" if "mget (gc_Agents (en_cfg e)) (gl_agent c) \<noteq> None"
    using that assms(2) mget_None_iff[of "gc_Agents (en_cfg e)" "gl_agent c"] by auto
  have al: "\<exists>rl. ?chk = (None, rl) \<and> en_rateLimiter e' = rlRecord ops (gl_agent c) (gl_category c) (gl_now c) rl
      \<and> gl_agent c \<in> set as" if "d_Verdict d = Allow"
    using Check_allow(3,5)[OF cc that] checkBehavior_rate(1) known category_some[OF assms(3)] by fastforce
  have de: "en_rateLimiter e' = en_rateLimiter e \<or> en_rateLimiter e' = snd ?chk \<and> gl_agent c \<in> set as"
    if "d_Verdict d = Deny"
    using Check_deny_rate[OF cc that] known category_some[OF assms(3)] by auto
  show "ok as (en_rateLimiter e')"
    using al de ok_checkRate[OF assms(1) _ assms(3)] ok_record[OF _ _ assms(3)] assms(1)
    by (cases "d_Verdict d") (metis snd_conv)+
  show "recent (en_rateLimiter e') a cat since = recent (en_rateLimiter e) a cat since +
        (if a = gl_agent c \<and> cat = gl_category c \<and> since < gl_now c \<and> d_Verdict d = Allow then 1 else 0)"
    if "gl_now c - hour \<le> since" "cat \<in> categories"
  proof (cases "d_Verdict d")
    case Allow
    then obtain rl where rl: "?chk = (None, rl)" "en_rateLimiter e' = rlRecord ops (gl_agent c) (gl_category c) (gl_now c) rl"
      "gl_agent c \<in> set as" using al by blast
    have "ok as rl" using ok_checkRate[OF assms(1) rl(3) assms(3), of "en_cfg e" "gl_now c"] rl(1) by simp
    moreover have "recent rl a cat since = recent (en_rateLimiter e) a cat since"
      using checkRate_recent[OF assms(1) that(1), of "en_cfg e" "gl_agent c" "gl_category c" a cat] rl(1) by simp
    ultimately show ?thesis
      using record_recent[OF _ rl(3) assms(3) that(2), of rl "gl_now c" a since] by (simp add: rl(2) Allow)
  next
    case Deny
    then show ?thesis using de checkRate_recent[OF assms(1) that(1)] by auto
  qed
  show "int (recent (en_rateLimiter e) (gl_agent c) (gl_category c) (gl_now c - hour)) < hourLimitFor (gl_category c) lm"
    if "d_Verdict d = Allow" "mget (bc_RateLimits (gc_Behavior (en_cfg e))) (gl_agent c) = Some lm"
      "hourLimitFor (gl_category c) lm > 0"
    using al[OF that(1)] that(2,3) check_limit[OF assms(1)] by (auto simp: checkRate_def)
qed

lemma trace_hourly:
  assumes "as = map fst (gc_Agents cfg)" "mget (bc_RateLimits (gc_Behavior cfg)) a = Some lm"
    "hourLimitFor cat lm > 0" "cat \<in> categories"
  shows "en_cfg e = cfg \<Longrightarrow> ok as (en_rateLimiter e) \<Longrightarrow>
    int (recent (en_rateLimiter e) a cat (t0 - hour)) \<le> hourLimitFor cat lm \<Longrightarrow>
    sorted (t0 # map gl_now cs) \<Longrightarrow> \<forall>c\<in>set cs. gl_now c \<le> T \<and> gl_category c \<in> categories \<Longrightarrow> t0 \<le> T \<Longrightarrow>
    checkTrace ops cs e = (ds, e') \<Longrightarrow>
    int (recent (en_rateLimiter e) a cat (T - hour)) + int (allowedSince a cat (T - hour) cs ds) \<le> hourLimitFor cat lm"
proof (induction cs arbitrary: t0 e ds)
  case Nil
  then show ?case using recent_mono[of "t0 - hour" "T - hour" "en_rateLimiter e" a cat] by (auto simp: allowedSince_def)
next
  case (Cons c cs)
  obtain d e1 where st: "checkCall ops c e = (d, e1)" by (cases "checkCall ops c e")
  obtain ds' where tr: "checkTrace ops cs e1 = (ds', e')" "ds = d # ds'"
    using Cons.prems(7) by (auto simp: st split: prod.splits)
  have le: "t0 \<le> gl_now c" "gl_now c \<le> T" "gl_category c \<in> categories" using Cons.prems by auto
  have as: "as = map fst (gc_Agents (en_cfg e))" using assms(1) Cons.prems(1) by simp
  note s = checkCall_recent[OF Cons.prems(2) as le(3) st]
  have cfg: "en_cfg e1 = cfg" using Check_frame[OF st[unfolded checkCall_def]] Cons.prems(1) by simp
  have m: "int (recent (en_rateLimiter e) a cat (gl_now c - hour)) \<le> hourLimitFor cat lm"
    using recent_mono[of "t0 - hour" "gl_now c - hour" "en_rateLimiter e" a cat] Cons.prems(3) le(1) by simp
  have "int (recent (en_rateLimiter e1) a cat (gl_now c - hour)) \<le> hourLimitFor cat lm"
    using s(2)[of "gl_now c - hour" cat a] s(3)[of lm] m assms(2-4) Cons.prems(1) by (auto split: if_splits)
  from Cons.IH[OF cfg s(1) this _ _ le(2) tr(1)] Cons.prems(4,5)
  have "int (recent (en_rateLimiter e1) a cat (T - hour)) + int (allowedSince a cat (T - hour) cs ds') \<le> hourLimitFor cat lm"
    by simp
  moreover have "int (allowedSince a cat (T - hour) (c # cs) (d # ds')) =
     (if a = gl_agent c \<and> cat = gl_category c \<and> T - hour < gl_now c \<and> d_Verdict d = Allow then 1 else 0) +
     int (allowedSince a cat (T - hour) cs ds')"
    by (auto simp: allowedSince_def)
  moreover note s(2)[of "T - hour" cat a]
  ultimately show ?case using le(2) assms(4) tr(2)
    by (cases "a = gl_agent c \<and> cat = gl_category c \<and> T - hour < gl_now c \<and> d_Verdict d = Allow") simp_all
qed

end

lemma rateBucketKey_inj:
  "c \<in> categories \<Longrightarrow> c' \<in> categories \<Longrightarrow> rateBucketKey a c = rateBucketKey a' c' \<longleftrightarrow> a = a' \<and> c = c'"
  by (auto simp: rateBucketKey_def categories_def)

lemma length_gwf: "gwf m \<Longrightarrow> length m = card (fst ` set m)"
  by (metis distinct_card gwf_def length_map list.set_map)

lemma bucketsOk_length: "bucketsOk as m \<Longrightarrow> length m \<le> maxRateBuckets"
proof -
  assume ok: "bucketsOk as m"
  have "card (fst ` set m) \<le> card ((\<lambda>(a, c). rateBucketKey a c) ` (set as \<times> categories))"
    using ok by (intro card_mono) (auto simp: bucketsOk_def categories_def)
  also have "\<dots> \<le> card (set as \<times> categories)" by (intro card_image_le) (auto simp: categories_def)
  also have "\<dots> \<le> 2 * length as"
    using card_length[of as] by (simp add: card_cartesian_product categories_def)
  finally show ?thesis using ok length_gwf[of m] by (simp add: bucketsOk_def)
qed

lemma bucketsOk_mput: "bucketsOk as m \<Longrightarrow> a \<in> set as \<Longrightarrow> c \<in> categories \<Longrightarrow> bucketsOk as (mput (rateBucketKey a c) v m)"
  by (auto simp: bucketsOk_def)

lemma RL_Record_noevict:
  assumes "bucketsOk as m" "a \<in> set as" "c \<in> categories"
  shows "RL_RecordAction a c t m = mput (rateBucketKey a c) (zget [] m (rateBucketKey a c) @ [t]) m"
proof -
  have "\<not> maxRateBuckets < length (mput (rateBucketKey a c) (zget [] m (rateBucketKey a c) @ [t]) m)"
    using bucketsOk_length[OF bucketsOk_mput[OF assms]] by (simp add: not_less)
  then show ?thesis by (simp add: RL_RecordAction_def Let_def)
qed

lemma RL_Check_state:
  "snd (RL_Check a c lm now m) = mput (rateBucketKey a c) (filter (\<lambda>t. now - 24 * hour < t) (zget [] m (rateBucketKey a c))) m"
  by (simp add: RL_Check_def Let_def)

lemma filter_recent:
  "(now::int) - 24 * hour \<le> since \<Longrightarrow>
   filter (\<lambda>t. since < t) (filter (\<lambda>t. now - 24 * hour < t) ts) = filter (\<lambda>t. since < t) ts"
  by (induction ts) auto

lemma RL_Check_limit:
  assumes "RL_Check a c lm now m = (None, m')" "hourLimitFor c lm > 0"
  shows "int (recentCalls m a c (now - hour)) < hourLimitFor c lm"
proof -
  have "filter (\<lambda>t. now - hour < t) (filter (\<lambda>t. now - 24 * hour < t) (zget [] m (rateBucketKey a c))) =
        filter (\<lambda>t. now - hour < t) (zget [] m (rateBucketKey a c))" by (rule filter_recent) simp
  with assms show ?thesis
    by (simp add: RL_Check_def Let_def recentCalls_def not_le split: if_splits)
qed

interpretation memRL: rate_tracker inMemoryOps recentCalls bucketsOk
proof
  show "recentCalls (snd (rlCheck inMemoryOps a c lm now rl)) a' c' since = recentCalls rl a' c' since"
    if "bucketsOk as rl" "now - hour \<le> since" for as rl a c lm now a' c' since
  proof -
    have "filter (\<lambda>t. since < t) (filter (\<lambda>t. now - 24 * hour < t) ts) = filter (\<lambda>t. since < t) ts" for ts
      using that(2) by (intro filter_recent) simp
    then show ?thesis by (simp add: inMemoryOps_def RL_Check_state recentCalls_def)
  qed
  show "recentCalls (rlRecord inMemoryOps a c now rl) a' c' since =
      recentCalls rl a' c' since + (if a' = a \<and> c' = c \<and> since < now then 1 else 0)"
    if "bucketsOk as rl" "a \<in> set as" "c \<in> categories" "c' \<in> categories" for as rl a c now a' c' since
    using that by (auto simp: inMemoryOps_def RL_Record_noevict recentCalls_def rateBucketKey_inj)
  show "recentCalls rl a c since' \<le> recentCalls rl a c since" if "since \<le> since'" for since since' rl a c
    unfolding recentCalls_def using that
    by (induction "zget [] rl (rateBucketKey a c)" arbitrary: rl rule: list.induct)
       (auto intro: order.trans[OF _ length_filter_le] simp: length_filter_conv_card card_mono Collect_mono)
  show "bucketsOk as (snd (rlCheck inMemoryOps a c lm now rl))"
    if "bucketsOk as rl" "a \<in> set as" "c \<in> categories" for as rl a c lm now
    using that by (simp add: inMemoryOps_def RL_Check_state bucketsOk_mput)
  show "bucketsOk as (rlRecord inMemoryOps a c now rl)"
    if "bucketsOk as rl" "a \<in> set as" "c \<in> categories" for as rl a c now
    using that by (simp add: inMemoryOps_def RL_Record_noevict bucketsOk_mput)
qed (simp add: inMemoryOps_def RL_Check_limit)

subsection \<open>The contract of the circuit breaker tracker\<close>

locale circuit_tracker =
  fixes ops :: "('rl, 'ld, 'cb) trackerOps" and failures :: "'cb \<Rightarrow> string \<Rightarrow> int"
  assumes frozen_success: "cbFrozen ops (cbSuccess ops a cb) = cbFrozen ops cb"
    and frozen_failure: "cbFrozen ops (snd (cbFailure ops a cb)) = cbFrozen ops cb"
    and frozen_freeze: "cbFrozen ops (cbFreeze ops a cb) a' \<longleftrightarrow> a' = a \<or> cbFrozen ops cb a'"
    and failure_count: "fst (cbFailure ops a cb) = failures cb a + 1"
    and failures_failure: "failures (snd (cbFailure ops a cb)) = (failures cb)(a := failures cb a + 1)"
    and failures_success: "failures (cbSuccess ops a cb) = (failures cb)(a := 0)"
    and failures_freeze: "failures (cbFreeze ops a cb) = failures cb"
begin

lemma RecordResult_cfg [simp]: "en_cfg (RecordResult ops a ok e) = en_cfg e"
  by (simp add: RecordResult_def Let_def split: prod.split)

lemma frozen_step:
  "engine_step ops e e' \<Longrightarrow> cbFrozen ops (en_circuitBreaker e) a \<Longrightarrow> cbFrozen ops (en_circuitBreaker e') a"
proof (induction rule: engine_step.induct)
  case (es_check e now agentID toolName as opts)
  obtain d e' where c: "Check ops now agentID toolName as opts e = (d, e')"
    by (cases "Check ops now agentID toolName as opts e")
  from Check_frame[OF c] es_check show ?case by (simp add: c)
next
  case (es_result e agentID success)
  moreover have "cbFrozen ops (snd (cbFailure ops agentID (en_circuitBreaker e))) a"
    using es_result by (simp add: frozen_failure)
  ultimately show ?case
    by (auto simp: RecordResult_def Let_def frozen_success frozen_freeze split: prod.splits)
qed (simp_all add: EngineFreeze_def EngineUnfreeze_def)

lemma frozen_steps:
  "(engine_step ops)\<^sup>*\<^sup>* e e' \<Longrightarrow> cbFrozen ops (en_circuitBreaker e) a \<Longrightarrow> cbFrozen ops (en_circuitBreaker e') a"
  by (induction rule: rtranclp_induct) (auto intro: frozen_step)

lemma frozen_denied:
  "cbFrozen ops (en_circuitBreaker e) a \<Longrightarrow> d_Verdict (fst (Check ops now a tool as opts e)) = Deny"
proof (rule ccontr)
  assume f: "cbFrozen ops (en_circuitBreaker e) a" and n: "d_Verdict (fst (Check ops now a tool as opts e)) \<noteq> Deny"
  obtain d e' where c: "Check ops now a tool as opts e = (d, e')" by (cases "Check ops now a tool as opts e")
  have "d_Verdict d = Allow" using n c by (cases "d_Verdict d") auto
  from Check_allow(5)[OF c this] f show False by (simp add: checkBehavior_def)
qed

lemma failures_freeze_agent:
  assumes "0 < k" "gb_ConsecutiveFailures (bc_CircuitBreaker (gc_Behavior (en_cfg e))) > 0"
    "failures (en_circuitBreaker e) a + int k \<ge> gb_ConsecutiveFailures (bc_CircuitBreaker (gc_Behavior (en_cfg e)))"
  shows "cbFrozen ops (en_circuitBreaker ((RecordResult ops a False ^^ k) e)) a"
  using assms
proof (induction k arbitrary: e)
  case (Suc k)
  let ?e = "RecordResult ops a False e"
  have cnt: "failures (en_circuitBreaker ?e) a = failures (en_circuitBreaker e) a + 1"
    using failures_failure[of a "en_circuitBreaker e"]
    by (auto simp: RecordResult_def Let_def failures_freeze split: prod.splits)
  show ?case
  proof (cases "k = 0")
    case True
    with Suc.prems show ?thesis
      using failure_count[of a "en_circuitBreaker e"]
      by (auto simp: RecordResult_def Let_def frozen_freeze split: prod.splits)
  next
    case False
    with Suc.IH[of ?e] Suc.prems cnt show ?thesis by (simp add: funpow_swap1)
  qed
qed simp

end

interpretation memCB: circuit_tracker inMemoryOps CB_ConsecutiveFailures
  by unfold_locales
     (auto simp: inMemoryOps_def CB_RecordSuccess_def CB_RecordFailure_def CB_IsFrozen_def CB_Freeze_def
       CB_ConsecutiveFailures_def Let_def fun_eq_iff)

subsection \<open>Kill switch lemmas\<close>

lemma KS_frozen_iff: "fst (KS_IsFrozen ks a) \<longleftrightarrow> mget ks a \<noteq> None"
  by (auto simp: KS_IsFrozen_def split: option.split)

lemma Check_killswitch_cong:
  assumes "KS_IsFrozen ks a = KS_IsFrozen (en_killSwitch e) a"
  shows "fst (Check ops now a tool as opts (e\<lparr>en_killSwitch := ks\<rparr>)) = fst (Check ops now a tool as opts e)"
proof -
  have "checkBehavior ops now a tool c as (e\<lparr>en_killSwitch := ks\<rparr>) =
        (\<lambda>(r, e'). (r, e'\<lparr>en_killSwitch := ks\<rparr>)) (checkBehavior ops now a tool c as e)" for c
    by (auto simp: checkBehavior_def Let_def split: prod.split option.split)
  then show ?thesis using assms by (auto simp: Check_def Let_def split: prod.split option.split)
qed

lemma LD_Check_count:
  "LD_Check a act t n w now m = (None, m') \<Longrightarrow>
   int (length (filter (\<lambda>x. now - w < x) (zget [] m (loopKey a act t)))) < n"
  by (simp add: LD_Check_def Let_def not_le split: if_splits)

lemma checkBehavior_loop:
  assumes "checkBehavior ops now a tool c as e = (None, e')"
  shows "\<exists>ld. checkLoop ops (en_cfg e) now a tool (targetArg as) (en_loopDetector e) = (None, ld)"
  using assms by (auto simp: checkBehavior_def Let_def split: option.splits if_splits prod.splits)

subsubsection \<open>Sample configuration\<close>

definition sampleConfig :: governanceConfig where
  "sampleConfig = \<lparr>gc_Version = ''1'', gc_Framework = [],
     gc_Agents = [(''ops'', \<lparr>ap_Role = ''operator'', ap_Description = [], ap_Clearance = [], ap_Auth = []\<rparr>)],
     gc_Behavior = \<lparr>bc_RateLimits = [(''ops'', \<lparr>rl_PerHour = 2, rl_PerDay = 0, rl_ObservePerHour = 0, rl_ActionPerHour = 1\<rparr>)],
       bc_LoopDetection = \<lparr>ld_MaxAttemptsPerTarget = 3, ld_Window = ''1h'', ld_OnTrigger = []\<rparr>,
       bc_CircuitBreaker = \<lparr>gb_ConsecutiveFailures = 2, gb_Action = [], gb_Notify = [], gb_AutoUnfreeze = True\<rparr>\<rparr>,
     gc_Segments = [(''ops'', \<lparr>se_AllowedActions = [''restart''], se_DeniedActions = [''purge''], se_ProtectedTargets = [],
       se_ProtectedGate = [], se_Scope = []\<rparr>)]\<rparr>"

lemma sample_Check:
  "\<exists>e'. Check inMemoryOps 10 ''ops'' ''restart'' [] None (NewEngineFromConfig sampleConfig) = (allowed, e')"
  by (simp add: Check_def NewEngineFromConfig_def sampleConfig_def KS_IsFrozen_def checkSegmentation_def checkBehavior_def
      checkRate_def checkLoop_def targetArg_def jobj_def asString_def inMemoryOps_def CB_IsFrozen_def RL_Check_def
      hourLimitFor_def checkCategory_def mget_def zget_def rateBucketKey_def Let_def)

subsection \<open>Properties\<close>

text \<open>C5. Governance fails closed: whenever Check answers Allow, the agent is not frozen by the kill switch, it is an
  agent of the configuration, its segmentation entry exists, allows the tool and does not deny it, it is not frozen
  by the circuit breaker, and the configured rate limit was checked and passed; in every other case the verdict is
  Deny and carries a reason and the policy domain that triggered it.\<close>

theorem Check_fails_closed:
  assumes "Check ops now a tool as opts e = (d, e')"
  shows "(d_Verdict d = Deny \<longrightarrow> d_Reason d \<noteq> None \<and> d_Domain d \<in> {''killswitch'', ''identity'', ''segmentation'', ''behavior''}) \<and>
    (d_Verdict d = Allow \<longrightarrow>
      mget (en_killSwitch e) a = None \<and> mget (gc_Agents (en_cfg e)) a \<noteq> None \<and>
      (\<exists>seg. mget (gc_Segments (en_cfg e)) a = Some seg \<and> tool \<in> set (se_AllowedActions seg) \<and>
             tool \<notin> set (se_DeniedActions seg)) \<and>
      \<not> cbFrozen ops (en_circuitBreaker e) a \<and>
      (\<forall>lm. mget (bc_RateLimits (gc_Behavior (en_cfg e))) a = Some lm \<longrightarrow>
         fst (rlCheck ops a (checkCategory opts) lm now (en_rateLimiter e)) = None))"
proof (cases "d_Verdict d")
  case Deny
  then show ?thesis using Check_deny_reason[OF assms] by simp
next
  case Allow
  note al = Check_allow[OF assms Allow]
  have seg: "\<exists>seg. mget (gc_Segments (en_cfg e)) a = Some seg \<and> tool \<in> set (se_AllowedActions seg) \<and>
      tool \<notin> set (se_DeniedActions seg)"
    using al(4) by (auto simp: checkSegmentation_def split: option.splits if_splits)
  have "mget (en_killSwitch e) a = None" using al(2) by (simp add: KS_frozen_iff)
  moreover have "fst (rlCheck ops a (checkCategory opts) lm now (en_rateLimiter e)) = None"
    if "mget (bc_RateLimits (gc_Behavior (en_cfg e))) a = Some lm" for lm
    using checkBehavior_rate(1)[OF al(5)] that by (auto simp: checkRate_def)
  ultimately show ?thesis
    using al(3) seg checkBehavior_rate(1)[OF al(5) refl] Allow by auto
qed

theorem Check_fails_closed_witness:
  "\<exists>seg. mget (gc_Segments sampleConfig) ''ops'' = Some seg \<and> ''restart'' \<in> set (se_AllowedActions seg)"
proof -
  obtain e' where "Check inMemoryOps 10 ''ops'' ''restart'' [] None (NewEngineFromConfig sampleConfig) = (allowed, e')"
    using sample_Check by blast
  from Check_fails_closed[OF this] show ?thesis by (auto simp: NewEngineFromConfig_def)
qed

text \<open>Hourly rate limit: over any sequence of Check calls of any agents at non-decreasing times, starting from a
  new engine, the number of calls allowed to one agent in one category within the last hour never exceeds the limit
  configured for it (the category limit if set, else the combined one), as long as the configuration has at most
  5000 agents, so that the bucket cap of 10000 is never reached.\<close>

theorem governance_hourly_limit:
  assumes "2 * length (gc_Agents cfg) \<le> 10000" "mget (bc_RateLimits (gc_Behavior cfg)) a = Some lm"
    "hourLimitFor cat lm > 0" "cat \<in> {''observe'', ''action''}" "sorted (map gl_now cs)"
    "\<forall>c\<in>set cs. gl_now c \<le> T \<and> gl_category c \<in> {''observe'', ''action''}"
  shows "int (allowedSince a cat (T - hour) cs (fst (checkTrace inMemoryOps cs (NewEngineFromConfig cfg))))
    \<le> hourLimitFor cat lm"
proof -
  let ?e = "NewEngineFromConfig cfg"
  define t0 where "t0 = (case cs of [] \<Rightarrow> T | c # _ \<Rightarrow> gl_now c)"
  have s: "sorted (t0 # map gl_now cs)" "t0 \<le> T"
    using assms(5,6) by (auto simp: t0_def split: list.splits)
  have ok: "bucketsOk (map fst (gc_Agents cfg)) (en_rateLimiter ?e)"
    using assms(1) by (simp add: bucketsOk_def NewEngineFromConfig_def maxRateBuckets_def)
  have r: "int (recentCalls (en_rateLimiter ?e) a cat (t0 - hour)) \<le> hourLimitFor cat lm"
    using assms(3) by (simp add: NewEngineFromConfig_def recentCalls_def)
  have "en_cfg ?e = cfg" by (simp add: NewEngineFromConfig_def)
  from memRL.trace_hourly[OF refl assms(2,3) _ this ok r s(1) _ s(2) prod.collapse[symmetric]] assms(4,6)
  show ?thesis by (simp add: categories_def)
qed

theorem governance_hourly_limit_witness:
  "int (allowedSince ''ops'' ''action'' (20 - hour) (replicate 3 \<lparr>gl_now = 10, gl_agent = ''ops'', gl_tool = ''restart'',
     gl_args = [], gl_category = ''action''\<rparr>) (fst (checkTrace inMemoryOps (replicate 3 \<lparr>gl_now = 10, gl_agent = ''ops'',
     gl_tool = ''restart'', gl_args = [], gl_category = ''action''\<rparr>) (NewEngineFromConfig sampleConfig)))) \<le> 1"
  using governance_hourly_limit[of sampleConfig "''ops''" "\<lparr>rl_PerHour = 2, rl_PerDay = 0, rl_ObservePerHour = 0, rl_ActionPerHour = 1\<rparr>"
    "''action''" "replicate 3 \<lparr>gl_now = 10, gl_agent = ''ops'', gl_tool = ''restart'', gl_args = [], gl_category = ''action''\<rparr>" 20]
  by (simp add: sampleConfig_def hourLimitFor_def mget_def sorted_replicate)

text \<open>Circuit breaker: after the configured number of consecutive failed tool calls the agent is denied, and it
  stays denied through every later sequence of engine operations, including successful results and kill-switch
  freezes and unfreezes, also when the configuration asks for automatic unfreezing.\<close>

theorem governance_breaker_permanent:
  assumes "gb_ConsecutiveFailures (bc_CircuitBreaker (gc_Behavior (en_cfg e))) = int k" "0 < k"
    "0 \<le> CB_ConsecutiveFailures (en_circuitBreaker e) a"
    "(engine_step inMemoryOps)\<^sup>*\<^sup>* ((RecordResult inMemoryOps a False ^^ k) e) e'"
  shows "d_Verdict (fst (Check inMemoryOps now a tool as opts e')) = Deny"
proof -
  have "cbFrozen inMemoryOps (en_circuitBreaker ((RecordResult inMemoryOps a False ^^ k) e)) a"
    using assms(1-3) by (intro memCB.failures_freeze_agent) simp_all
  from memCB.frozen_steps[OF assms(4) this] show ?thesis by (rule memCB.frozen_denied)
qed

theorem governance_breaker_permanent_witness:
  "d_Verdict (fst (Check inMemoryOps 99 ''ops'' ''restart'' [] None
     ((RecordResult inMemoryOps ''ops'' False ^^ 2) (NewEngineFromConfig sampleConfig)))) = Deny"
  by (rule governance_breaker_permanent[where e = "NewEngineFromConfig sampleConfig" and k = 2])
     (simp_all add: NewEngineFromConfig_def sampleConfig_def CB_ConsecutiveFailures_def)

text \<open>Kill switch: freezing an agent denies its next call in the domain killswitch and leaves the engine as it
  was, changes the decision of no other agent, and unfreezing an agent that was not frozen before gives back exactly
  the decision it would have had.\<close>

theorem kill_switch_effect:
  "fst (Check ops now a tool as opts (EngineFreeze t a rsn by' e)) = denyBy (RFrozen rsn) ''killswitch'' \<and>
   snd (Check ops now a tool as opts (EngineFreeze t a rsn by' e)) = EngineFreeze t a rsn by' e \<and>
   (b \<noteq> a \<longrightarrow> fst (Check ops now b tool as opts (EngineFreeze t a rsn by' e)) = fst (Check ops now b tool as opts e)) \<and>
   (mget (en_killSwitch e) a = None \<longrightarrow>
      fst (Check ops now a tool as opts (EngineUnfreeze a (EngineFreeze t a rsn by' e))) = fst (Check ops now a tool as opts e))"
proof -
  have "fst (Check ops now a tool as opts (EngineUnfreeze a (EngineFreeze t a rsn by' e))) = fst (Check ops now a tool as opts e)"
    if "mget (en_killSwitch e) a = None"
    using Check_killswitch_cong[of "KS_Unfreeze a (KS_Freeze t a rsn by' (en_killSwitch e))" a e ops now tool as opts] that
    by (simp add: EngineFreeze_def EngineUnfreeze_def KS_Unfreeze_def KS_Freeze_def KS_IsFrozen_def)
  moreover have "fst (Check ops now b tool as opts (EngineFreeze t a rsn by' e)) = fst (Check ops now b tool as opts e)"
    if "b \<noteq> a"
    using Check_killswitch_cong[of "KS_Freeze t a rsn by' (en_killSwitch e)" b e ops now tool as opts] that
    by (simp add: EngineFreeze_def KS_Freeze_def KS_IsFrozen_def)
  ultimately show ?thesis by (simp add: Check_def EngineFreeze_def KS_Freeze_def KS_IsFrozen_def)
qed

theorem kill_switch_effect_witness:
  "fst (Check inMemoryOps 5 ''x'' ''restart'' [] None (EngineFreeze 4 ''ops'' ''stop'' ''root'' (NewEngineFromConfig sampleConfig))) =
   fst (Check inMemoryOps 5 ''x'' ''restart'' [] None (NewEngineFromConfig sampleConfig))"
  by (rule mp[OF conjunct1[OF conjunct2[OF conjunct2[OF kill_switch_effect]]]]) simp

text \<open>Loop detection: a call on a target is allowed only if fewer than the configured number of attempts of the
  same action of the same agent on the same target are recorded within the window.\<close>

theorem governance_loop_limit:
  assumes "Check inMemoryOps now a tool as opts e = (d, e')" "d_Verdict d = Allow" "targetArg as \<noteq> []"
    "lc = bc_LoopDetection (gc_Behavior (en_cfg e))" "ld_MaxAttemptsPerTarget lc > 0"
  shows "int (length (filter (\<lambda>t. now - parseWindow (ld_Window lc) < t)
      (zget [] (en_loopDetector e) (loopKey a tool (targetArg as))))) < ld_MaxAttemptsPerTarget lc"
proof -
  from checkBehavior_loop[OF Check_allow(5)[OF assms(1,2)]] obtain ld where
    "checkLoop inMemoryOps (en_cfg e) now a tool (targetArg as) (en_loopDetector e) = (None, ld)" by blast
  with assms(3-5) show ?thesis
    by (auto simp: checkLoop_def Let_def inMemoryOps_def intro: LD_Check_count)
qed

theorem governance_loop_limit_witness:
  "int (length (filter (\<lambda>t. 10 - parseWindow ''1h'' < t) (zget [] [] (loopKey ''ops'' ''restart'' ''db'')))) < 3"
proof -
  let ?e = "NewEngineFromConfig sampleConfig" and ?as = "[(''target'', JStr ''db'')]"
  obtain e' where c: "Check inMemoryOps 10 ''ops'' ''restart'' ?as None ?e = (allowed, e')"
    by (simp add: Check_def NewEngineFromConfig_def sampleConfig_def KS_IsFrozen_def checkSegmentation_def checkBehavior_def
      checkRate_def checkLoop_def targetArg_def jobj_def asString_def inMemoryOps_def CB_IsFrozen_def RL_Check_def
      LD_Check_def hourLimitFor_def checkCategory_def mget_def zget_def rateBucketKey_def Let_def)
  show ?thesis
    using governance_loop_limit[OF c _ _ refl]
    by (simp add: NewEngineFromConfig_def sampleConfig_def targetArg_def jobj_def asString_def zget_def mget_def)
qed

end
