(* ===== verification/Auth_Access.thy ===== *)
theory Auth_Access
  imports AgentOS_Prelude
begin

text \<open>
  Authentication and access control (internal/auth/context.go, rbac.go, apikey.go, oidc.go;
  internal/middleware/auth.go, apikey.go, rbac.go, metrics_protect.go; internal/storage/postgres/member_store.go
  and apikey_store.go).

  \<^item> A request is seen through \<open>header\<close>, the function of \<open>http.Header.Get\<close> (the empty string when absent);
    the environment through \<open>getenv\<close>.
  \<^item> A middleware is a function from the auth context to \<open>Inl\<close> an HTTP error or \<open>Inr\<close> the context given to the
    next handler; \<open>authPipeline\<close> composes WithAuth, APIKeyMiddleware and RBACMiddleware as the orchestrator does.
  \<^item> The PostgreSQL stores are tables (lists of rows) with an explicit fault per statement, the error the driver
    reports; bcrypt and JWT verification are function arguments, as they are third-party code.
  \<^item> The locale \<open>member_store\<close> is the contract RBACMiddleware relies on; it is interpreted on the member table.
\<close>

subsection \<open>Model\<close>

record authContext =
  ac_TenantID :: string
  ac_PrincipalID :: string
  ac_Scopes :: "string list"
  ac_SubjectType :: string
  ac_APIKeyID :: string
  ac_Role :: string
  ac_BearerToken :: string
  ac_TokenTenantID :: string
  ac_TokenPrincipalID :: string
  ac_Validated :: bool

definition emptyAuthContext :: authContext where
  "emptyAuthContext = \<lparr>ac_TenantID = [], ac_PrincipalID = [], ac_Scopes = [], ac_SubjectType = [],
     ac_APIKeyID = [], ac_Role = [], ac_BearerToken = [], ac_TokenTenantID = [], ac_TokenPrincipalID = [],
     ac_Validated = False\<rparr>"

definition DevMode :: "(string \<Rightarrow> string) \<Rightarrow> bool" where
  "DevMode getenv \<longleftrightarrow> getenv ''AGENTOS_DEV_MODE'' = ''true''"

definition parseScopes :: "string \<Rightarrow> string list" where
  "parseScopes raw0 =
     (let raw = TrimSpace raw0 in
      if raw = [] then []
      else filter (\<lambda>p. p \<noteq> []) (map TrimSpace (Fields (map (\<lambda>c. if c = CHR '','' then CHR '' '' else c) raw))))"

definition FromRequest :: "(string \<Rightarrow> string) \<Rightarrow> authContext" where
  "FromRequest header =
     (let ac = emptyAuthContext\<lparr>ac_TenantID := TrimSpace (header ''X-Tenant-Id''),
                 ac_PrincipalID := TrimSpace (header ''X-Principal-Id''),
                 ac_Scopes := parseScopes (header ''X-Scopes''),
                 ac_SubjectType := TrimSpace (header ''X-Subject-Type''),
                 ac_APIKeyID := TrimSpace (header ''X-Api-Key-Id'')\<rparr>;
          authz = TrimSpace (header ''Authorization'') in
      if HasPrefix (ToLower authz) ''bearer ''
      then (let token = TrimSpace (drop (length ''bearer '') authz) in
            if token \<noteq> [] then ac\<lparr>ac_BearerToken := token\<rparr> else ac)
      else ac)"

definition DefaultTenant :: "(string \<Rightarrow> string) \<Rightarrow> string" where
  "DefaultTenant getenv = TrimSpace (getenv ''AGENTOS_DEFAULT_TENANT'')"

datatype tenantErr = ErrTenantRequired | ErrTenantMismatch

definition RequireTenant :: "(string \<Rightarrow> string) \<Rightarrow> authContext \<Rightarrow> tenantErr + string" where
  "RequireTenant getenv ac =
     (let tokenTenant = TrimSpace (ac_TokenTenantID ac); headerTenant = TrimSpace (ac_TenantID ac) in
      if tokenTenant \<noteq> [] \<and> headerTenant \<noteq> [] \<and> tokenTenant \<noteq> headerTenant then Inl ErrTenantMismatch
      else if tokenTenant \<noteq> [] then Inr tokenTenant
      else if headerTenant \<noteq> [] then Inr headerTenant
      else let dt = DefaultTenant getenv in if dt \<noteq> [] then Inr dt else Inl ErrTenantRequired)"

definition tenantErrMsg :: "tenantErr \<Rightarrow> string" where
  "tenantErrMsg e = (case e of ErrTenantRequired \<Rightarrow> ''tenant_id required''
     | ErrTenantMismatch \<Rightarrow> ''tenant_id mismatch between token and header'')"

definition ResolveTenantHTTP :: "(string \<Rightarrow> string) \<Rightarrow> authContext \<Rightarrow> httpError + string" where
  "ResolveTenantHTTP getenv ac =
     (case RequireTenant getenv ac of
        Inl ErrTenantMismatch \<Rightarrow> Inl (httpxError 400 ''tenant_mismatch'' (tenantErrMsg ErrTenantMismatch) False)
      | Inl e \<Rightarrow> Inl (httpxError 401 ''unauthorized'' (tenantErrMsg e) False)
      | Inr t \<Rightarrow> Inr t)"

subsubsection \<open>Roles\<close>

definition roleLevel :: "(string, int) gomap" where
  "roleLevel = [(''owner'', 40), (''admin'', 30), (''developer'', 20), (''viewer'', 10)]"

definition HasPermission :: "string \<Rightarrow> string \<Rightarrow> bool" where
  "HasPermission userRole requiredRole =
     (case (mget roleLevel userRole, mget roleLevel requiredRole) of
        (Some u, Some r) \<Rightarrow> u \<ge> r
      | _ \<Rightarrow> False)"

definition ValidRole :: "string \<Rightarrow> bool" where
  "ValidRole s \<longleftrightarrow> mget roleLevel s \<noteq> None"

subsubsection \<open>API keys\<close>

definition keyPrefix :: string where "keyPrefix = ''aos_live_''"

definition prefixLen :: nat where "prefixLen = 8"

definition IsAPIKey :: "string \<Rightarrow> bool" where
  "IsAPIKey token = HasPrefix token keyPrefix"

definition ExtractPrefix :: "string \<Rightarrow> string" where
  "ExtractPrefix fullKey =
     (if \<not> HasPrefix fullKey keyPrefix then []
      else let body = drop (length keyPrefix) fullKey in
           if length body < prefixLen then [] else take prefixLen body)"

definition MaskKey :: "string \<Rightarrow> string" where
  "MaskKey fullKey =
     (if \<not> HasPrefix fullKey keyPrefix then ''****''
      else let body = drop (length keyPrefix) fullKey in
           if length body < 4 then keyPrefix @ ''****'' else keyPrefix @ ''****'' @ last_n 4 body)"

record generatedKey =
  gk_keyID :: string
  gk_fullKey :: string
  gk_prefix :: string
  gk_keyHash :: string

definition GenerateKey ::
  "(string \<Rightarrow> string + string) \<Rightarrow> string + string \<Rightarrow> string + string \<Rightarrow> string + generatedKey" where
  "GenerateKey bcryptHash rawHex idHex =
     (case rawHex of Inl e \<Rightarrow> Inl e | Inr body \<Rightarrow>
       (let fullKey = keyPrefix @ body in
        case idHex of Inl e \<Rightarrow> Inl e | Inr idr \<Rightarrow>
          (case bcryptHash fullKey of Inl e \<Rightarrow> Inl e | Inr h \<Rightarrow>
             Inr \<lparr>gk_keyID = ''key_'' @ idr, gk_fullKey = fullKey, gk_prefix = take prefixLen body, gk_keyHash = h\<rparr>)))"

record apiKeyRecord =
  ak_KeyID :: string
  ak_TenantID :: string
  ak_KeyHash :: string
  ak_KeyPrefix :: string
  ak_Name :: string
  ak_Role :: string
  ak_CreatedBy :: string
  ak_CreatedAt :: time
  ak_ExpiresAt :: "time option"
  ak_RevokedAt :: "time option"

datatype storeErr = ErrAPIKeyNotFound | ErrMemberNotFound | ErrDriver string

definition APIKey_Create :: "string option \<Rightarrow> apiKeyRecord \<Rightarrow> apiKeyRecord list \<Rightarrow> storeErr option \<times> apiKeyRecord list" where
  "APIKey_Create fault key rows =
     (case fault of Some e \<Rightarrow> (Some (ErrDriver e), rows) | None \<Rightarrow> (None, rows @ [key\<lparr>ak_RevokedAt := None\<rparr>]))"

definition GetByPrefix :: "string option \<Rightarrow> apiKeyRecord list \<Rightarrow> string \<Rightarrow> string \<Rightarrow> storeErr + apiKeyRecord" where
  "GetByPrefix fault rows tenantID prefix =
     (case fault of Some e \<Rightarrow> Inl (ErrDriver e)
      | None \<Rightarrow> (case find (\<lambda>r. ak_TenantID r = tenantID \<and> ak_KeyPrefix r = prefix) rows of
                   None \<Rightarrow> Inl ErrAPIKeyNotFound | Some r \<Rightarrow> Inr r))"

definition LookupByPrefix :: "string option \<Rightarrow> apiKeyRecord list \<Rightarrow> string \<Rightarrow> storeErr + apiKeyRecord" where
  "LookupByPrefix fault rows prefix =
     (case fault of Some e \<Rightarrow> Inl (ErrDriver e)
      | None \<Rightarrow> (case find (\<lambda>r. ak_KeyPrefix r = prefix) rows of
                   None \<Rightarrow> Inl ErrAPIKeyNotFound | Some r \<Rightarrow> Inr r))"

definition revokeHit :: "string \<Rightarrow> string \<Rightarrow> apiKeyRecord \<Rightarrow> bool" where
  "revokeHit tenantID keyID r \<longleftrightarrow> ak_TenantID r = tenantID \<and> ak_KeyID r = keyID \<and> ak_RevokedAt r = None"

definition revokeRow :: "time \<Rightarrow> string \<Rightarrow> string \<Rightarrow> apiKeyRecord \<Rightarrow> apiKeyRecord" where
  "revokeRow now tenantID keyID r = (if revokeHit tenantID keyID r then r\<lparr>ak_RevokedAt := Some now\<rparr> else r)"

definition Revoke :: "string option \<Rightarrow> time \<Rightarrow> string \<Rightarrow> string \<Rightarrow> apiKeyRecord list \<Rightarrow> storeErr option \<times> apiKeyRecord list" where
  "Revoke fault now tenantID keyID rows =
     (case fault of Some e \<Rightarrow> (Some (ErrDriver e), rows)
      | None \<Rightarrow> if filter (revokeHit tenantID keyID) rows = [] then (Some ErrAPIKeyNotFound, rows)
                else (None, map (revokeRow now tenantID keyID) rows))"

definition APIKey_List :: "string option \<Rightarrow> apiKeyRecord list \<Rightarrow> string \<Rightarrow> storeErr + apiKeyRecord list" where
  "APIKey_List fault rows tenantID =
     (case fault of Some e \<Rightarrow> Inl (ErrDriver e)
      | None \<Rightarrow> Inr (map (\<lambda>r. r\<lparr>ak_KeyHash := []\<rparr>)
                  (sort_key (\<lambda>r. - ak_CreatedAt r) (filter (\<lambda>r. ak_TenantID r = tenantID) rows))))"

definition unauthorized :: httpError where
  "unauthorized = httpxError 401 [] ''Unauthorized'' False"

definition APIKeyMiddleware ::
  "(string \<Rightarrow> string) \<Rightarrow> (string \<Rightarrow> string \<Rightarrow> bool) \<Rightarrow> time
   \<Rightarrow> ((string \<Rightarrow> string \<Rightarrow> storeErr + apiKeyRecord) \<times> (string \<Rightarrow> storeErr + apiKeyRecord) option) option
   \<Rightarrow> authContext \<Rightarrow> httpError + authContext" where
  "APIKeyMiddleware getenv bcryptOk now store ac =
     (case store of
        None \<Rightarrow> if DevMode getenv then Inr ac else Inl unauthorized
      | Some (getByPrefix, lookupByPrefix) \<Rightarrow>
          (let token = ac_BearerToken ac in
           if \<not> IsAPIKey token then Inr ac
           else let prefix = ExtractPrefix token in
             if prefix = [] then Inl unauthorized
             else
               case (case RequireTenant getenv ac of
                       Inr tenantID \<Rightarrow> getByPrefix tenantID prefix
                     | Inl _ \<Rightarrow> (case lookupByPrefix of Some lookup \<Rightarrow> lookup prefix
                                 | None \<Rightarrow> Inl ErrAPIKeyNotFound)) of
                 Inl _ \<Rightarrow> Inl unauthorized
               | Inr rec \<Rightarrow>
                   if \<not> bcryptOk (ak_KeyHash rec) token then Inl unauthorized
                   else if ak_RevokedAt rec \<noteq> None then Inl unauthorized
                   else if (case ak_ExpiresAt rec of None \<Rightarrow> False | Some e \<Rightarrow> e < now) then Inl unauthorized
                   else Inr (ac\<lparr>ac_TenantID := ak_TenantID rec, ac_PrincipalID := ak_KeyID rec,
                               ac_Role := ak_Role rec, ac_APIKeyID := ak_KeyID rec, ac_Validated := True\<rparr>)))"

subsubsection \<open>OIDC\<close>

record oidcConfig =
  oc_IssuerURL :: string
  oc_Audience :: string
  oc_TenantClaim :: string

definition LoadOIDCConfig :: "(string \<Rightarrow> string) \<Rightarrow> oidcConfig" where
  "LoadOIDCConfig getenv =
     (let tc = TrimSpace (getenv ''AGENTOS_OIDC_TENANT_CLAIM'');
          tenantClaim = (if tc = [] then ''tenant_id'' else tc) in
      \<lparr>oc_IssuerURL = TrimSpace (getenv ''AGENTOS_OIDC_ISSUER_URL''),
       oc_Audience = TrimSpace (getenv ''AGENTOS_OIDC_AUDIENCE''), oc_TenantClaim = tenantClaim\<rparr>)"

definition Enabled :: "oidcConfig \<Rightarrow> bool" where
  "Enabled c \<longleftrightarrow> oc_IssuerURL c \<noteq> []"

definition validateAudience :: "oidcConfig \<Rightarrow> (string, json) gomap \<Rightarrow> bool" where
  "validateAudience cfg claims =
     (case jobj claims ''aud'' of
        JStr aud \<Rightarrow> aud = oc_Audience cfg
      | JArr as \<Rightarrow> list_ex (\<lambda>a. a = JStr (oc_Audience cfg)) as
      | _ \<Rightarrow> False)"

definition ValidateToken ::
  "oidcConfig \<Rightarrow> (string \<Rightarrow> string + (string, json) gomap) \<Rightarrow> string \<Rightarrow> string + (string, json) gomap" where
  "ValidateToken cfg jwtParse token =
     (case jwtParse token of
        Inl e \<Rightarrow> Inl (''token validation failed: '' @ e)
      | Inr claims \<Rightarrow>
          if oc_Audience cfg \<noteq> [] \<and> \<not> validateAudience cfg claims then Inl ''audience''
          else Inr claims)"

definition nonEmptyClaim :: "(string, json) gomap \<Rightarrow> string \<Rightarrow> string option" where
  "nonEmptyClaim claims k = (case jobj claims k of JStr v \<Rightarrow> if v \<noteq> [] then Some v else None | _ \<Rightarrow> None)"

fun firstClaim :: "(string, json) gomap \<Rightarrow> string list \<Rightarrow> string" where
  "firstClaim claims [] = []"
| "firstClaim claims (k # ks) = (case nonEmptyClaim claims k of Some v \<Rightarrow> v | None \<Rightarrow> firstClaim claims ks)"

definition ExtractTenantFromClaims :: "oidcConfig \<Rightarrow> (string, json) gomap \<Rightarrow> string" where
  "ExtractTenantFromClaims cfg claims =
     firstClaim claims [oc_TenantClaim cfg, ''tenant_id'', ''tid'', ''org_id'', ''organization_id'']"

definition applyClaims :: "oidcConfig \<Rightarrow> (string, json) gomap \<Rightarrow> authContext \<Rightarrow> authContext" where
  "applyClaims cfg claims ac0 =
     (let ac1 = ac0\<lparr>ac_Validated := True\<rparr>;
          ac2 = (if ac_TenantID ac1 = []
                 then (let tenant = ExtractTenantFromClaims cfg claims in
                       if tenant \<noteq> [] then ac1\<lparr>ac_TenantID := tenant, ac_TokenTenantID := tenant\<rparr> else ac1)
                 else ac1);
          ac3 = (if ac_PrincipalID ac2 = []
                 then (case nonEmptyClaim claims ''sub'' of
                         Some sub \<Rightarrow> ac2\<lparr>ac_PrincipalID := TrimSpace sub, ac_TokenPrincipalID := TrimSpace sub\<rparr>
                       | None \<Rightarrow> ac2)
                 else ac2) in
      if ac_Scopes ac3 = []
      then (case asString (jobj claims ''scope'') of Some sc \<Rightarrow> ac3\<lparr>ac_Scopes := Fields sc\<rparr> | None \<Rightarrow> ac3)
      else ac3)"

definition WithAuth ::
  "(oidcConfig \<times> (string \<Rightarrow> string + (string, json) gomap)) option \<Rightarrow> (string \<Rightarrow> string) \<Rightarrow> httpError + authContext" where
  "WithAuth oidc header =
     (let ac = FromRequest header in
      case oidc of
        None \<Rightarrow> Inr ac
      | Some (cfg, jwtParse) \<Rightarrow>
          if ac_BearerToken ac \<noteq> [] \<and> \<not> IsAPIKey (ac_BearerToken ac)
          then (case ValidateToken cfg jwtParse (ac_BearerToken ac) of
                  Inl _ \<Rightarrow> Inl unauthorized
                | Inr claims \<Rightarrow> Inr (applyClaims cfg claims ac))
          else Inr ac)"

subsubsection \<open>Membership\<close>

record member =
  mem_Role :: string
  mem_CreatedAt :: time
  mem_UpdatedAt :: time

type_synonym memberTable = "(string \<times> string, member) gomap"

definition GetRole :: "string option \<Rightarrow> memberTable \<Rightarrow> string \<Rightarrow> string \<Rightarrow> storeErr + string" where
  "GetRole fault tbl tenantID principalID =
     (case fault of Some e \<Rightarrow> Inl (ErrDriver e)
      | None \<Rightarrow> (case mget tbl (tenantID, principalID) of
                   None \<Rightarrow> Inl ErrMemberNotFound | Some r \<Rightarrow> Inr (mem_Role r)))"

definition SetRole ::
  "string option \<Rightarrow> time \<Rightarrow> string \<Rightarrow> string \<Rightarrow> string \<Rightarrow> memberTable \<Rightarrow> storeErr option \<times> memberTable" where
  "SetRole fault now tenantID principalID role tbl =
     (case fault of Some e \<Rightarrow> (Some (ErrDriver e), tbl)
      | None \<Rightarrow> (None, mput (tenantID, principalID)
                   (case mget tbl (tenantID, principalID) of
                      None \<Rightarrow> \<lparr>mem_Role = role, mem_CreatedAt = now, mem_UpdatedAt = now\<rparr>
                    | Some m \<Rightarrow> m\<lparr>mem_Role := role, mem_UpdatedAt := now\<rparr>) tbl))"

definition CountMembers :: "string option \<Rightarrow> memberTable \<Rightarrow> string \<Rightarrow> storeErr + int" where
  "CountMembers fault tbl tenantID =
     (case fault of Some e \<Rightarrow> Inl (ErrDriver e)
      | None \<Rightarrow> Inr (int (length (filter (\<lambda>((t, p), m). t = tenantID) tbl))))"

definition DeleteMember :: "string option \<Rightarrow> string \<Rightarrow> string \<Rightarrow> memberTable \<Rightarrow> storeErr option \<times> memberTable" where
  "DeleteMember fault tenantID principalID tbl =
     (case fault of Some e \<Rightarrow> (Some (ErrDriver e), tbl)
      | None \<Rightarrow> if mget tbl (tenantID, principalID) = None then (Some ErrMemberNotFound, tbl)
                else (None, mdel (tenantID, principalID) tbl))"

definition ListMembers :: "string option \<Rightarrow> memberTable \<Rightarrow> string \<Rightarrow> storeErr + ((string \<times> string) \<times> member) list" where
  "ListMembers fault tbl tenantID =
     (case fault of Some e \<Rightarrow> Inl (ErrDriver e)
      | None \<Rightarrow> Inr (sort_key (\<lambda>(k, m). mem_CreatedAt m) (filter (\<lambda>((t, p), m). t = tenantID) tbl)))"

definition forbidden :: "string \<Rightarrow> httpError" where
  "forbidden msg = httpxError 403 ''forbidden'' msg False"

definition resolveRole ::
  "('m \<Rightarrow> string \<Rightarrow> string \<Rightarrow> storeErr + string) \<Rightarrow> ('m \<Rightarrow> string \<Rightarrow> storeErr + int)
   \<Rightarrow> (string \<Rightarrow> string \<Rightarrow> string \<Rightarrow> 'm \<Rightarrow> storeErr option \<times> 'm)
   \<Rightarrow> string \<Rightarrow> authContext \<Rightarrow> 'm \<Rightarrow> (httpError + string) \<times> 'm" where
  "resolveRole getRole countMembers setRole tenantID ac st =
     (if ac_Role ac \<noteq> [] then (Inr (ac_Role ac), st)
      else case getRole st tenantID (ac_PrincipalID ac) of
        Inr role \<Rightarrow> (Inr role, st)
      | Inl ErrMemberNotFound \<Rightarrow>
          (case countMembers st tenantID of
             Inl _ \<Rightarrow> (Inl (forbidden ''access denied''), st)
           | Inr count \<Rightarrow>
               if count = 0
               then (case setRole tenantID (ac_PrincipalID ac) ''owner'' st of
                       (Some _, st') \<Rightarrow> (Inl (forbidden ''access denied''), st')
                     | (None, st') \<Rightarrow> (Inr ''owner'', st'))
               else (Inl (forbidden ''not a member of this tenant''), st))
      | Inl _ \<Rightarrow> (Inl (forbidden ''access denied''), st))"

definition RBACMiddleware ::
  "(string \<Rightarrow> string) \<Rightarrow> ('m \<Rightarrow> string \<Rightarrow> string \<Rightarrow> storeErr + string) \<Rightarrow> ('m \<Rightarrow> string \<Rightarrow> storeErr + int)
   \<Rightarrow> (string \<Rightarrow> string \<Rightarrow> string \<Rightarrow> 'm \<Rightarrow> storeErr option \<times> 'm)
   \<Rightarrow> string \<Rightarrow> authContext option \<Rightarrow> 'm option \<Rightarrow> (httpError + authContext option) \<times> 'm option" where
  "RBACMiddleware getenv getRole countMembers setRole requiredRole acOpt store =
     (case store of
        None \<Rightarrow> (if DevMode getenv then Inr acOpt else Inl (forbidden ''RBAC not configured''), None)
      | Some st \<Rightarrow>
          (case acOpt of
             None \<Rightarrow> (Inl (forbidden ''authentication required''), Some st)
           | Some ac \<Rightarrow>
               if ac_PrincipalID ac = [] then (Inl (forbidden ''authentication required''), Some st)
               else
                 case RequireTenant getenv ac of
                   Inl _ \<Rightarrow> (Inl (forbidden ''tenant required''), Some st)
                 | Inr tenantID \<Rightarrow>
                     (case resolveRole getRole countMembers setRole tenantID ac st of
                        (Inl e, st') \<Rightarrow> (Inl e, Some st')
                      | (Inr role, st') \<Rightarrow>
                          if \<not> HasPermission role requiredRole
                          then (Inl (forbidden ''insufficient permissions''), Some st')
                          else (Inr (Some (ac\<lparr>ac_Role := role\<rparr>)), Some st'))))"

definition ProtectMetrics :: "(string \<Rightarrow> string) \<Rightarrow> bool \<Rightarrow> authContext \<Rightarrow> httpError option" where
  "ProtectMetrics getenv requireAuth ac =
     (if \<not> requireAuth then None
      else case RequireTenant getenv ac of
        Inr _ \<Rightarrow> None
      | Inl ErrTenantMismatch \<Rightarrow> Some (httpxError 400 ''tenant_mismatch'' (tenantErrMsg ErrTenantMismatch) False)
      | Inl e \<Rightarrow> Some (httpxError 401 ''unauthorized'' (tenantErrMsg e) False))"

subsubsection \<open>The pipeline of the orchestrator\<close>

record pgFaults =
  pf_getRole :: "string option"
  pf_count :: "string option"
  pf_setRole :: "string option"
  pf_apiKey :: "string option"

definition authPipeline ::
  "(string \<Rightarrow> string) \<Rightarrow> (oidcConfig \<times> (string \<Rightarrow> string + (string, json) gomap)) option \<Rightarrow> (string \<Rightarrow> string \<Rightarrow> bool)
   \<Rightarrow> time \<Rightarrow> pgFaults \<Rightarrow> apiKeyRecord list \<Rightarrow> string \<Rightarrow> (string \<Rightarrow> string) \<Rightarrow> memberTable
   \<Rightarrow> (httpError + authContext option) \<times> memberTable option" where
  "authPipeline getenv oidc bcryptOk now faults keys requiredRole header tbl =
     (case WithAuth oidc header of
        Inl e \<Rightarrow> (Inl e, Some tbl)
      | Inr ac \<Rightarrow>
          (case APIKeyMiddleware getenv bcryptOk now
                  (Some (GetByPrefix (pf_apiKey faults) keys, Some (LookupByPrefix (pf_apiKey faults) keys))) ac of
             Inl e \<Rightarrow> (Inl e, Some tbl)
           | Inr ac' \<Rightarrow> RBACMiddleware getenv (GetRole (pf_getRole faults)) (CountMembers (pf_count faults))
                         (SetRole (pf_setRole faults) now) requiredRole (Some ac') (Some tbl)))"

definition roleView :: "memberTable \<Rightarrow> string \<Rightarrow> string \<Rightarrow> string option" where
  "roleView tbl t p = map_option mem_Role (mget tbl (t, p))"

definition keyAccepts :: "(string \<Rightarrow> string \<Rightarrow> bool) \<Rightarrow> time \<Rightarrow> string \<Rightarrow> apiKeyRecord \<Rightarrow> bool" where
  "keyAccepts bcryptOk now token rec \<longleftrightarrow> ak_KeyPrefix rec = ExtractPrefix token \<and> bcryptOk (ak_KeyHash rec) token \<and>
     ak_RevokedAt rec = None \<and> (\<forall>e. ak_ExpiresAt rec = Some e \<longrightarrow> now \<le> e)"

subsubsection \<open>Sample data\<close>

definition sampleKey :: apiKeyRecord where
  "sampleKey = \<lparr>ak_KeyID = ''key_1'', ak_TenantID = ''t1'', ak_KeyHash = ''h'', ak_KeyPrefix = ''01234567'', ak_Name = [],
     ak_Role = ''viewer'', ak_CreatedBy = [], ak_CreatedAt = 0, ak_ExpiresAt = Some 9, ak_RevokedAt = None\<rparr>"

definition sampleToken :: string where
  "sampleToken = ''aos_live_0123456789''"

definition sampleMembers :: memberTable where
  "sampleMembers = [((''t1'', ''alice''), \<lparr>mem_Role = ''owner'', mem_CreatedAt = 0, mem_UpdatedAt = 0\<rparr>)]"

subsection \<open>The contract of the member store\<close>

text \<open>
  The three statements of the middleware are separate: between GetRole and CountMembers, and again before SetRole, other
  requests may change the table, here by arbitrary functions \<open>w1\<close> and \<open>w2\<close> of it. \<open>firstOwner\<close> says what the bootstrap of
  a first user does: nobody was found as a member when it was checked, and the table other requests had left by the time of
  the write gets the principal as owner, nothing else.
\<close>

definition firstOwner :: "('m \<Rightarrow> string \<Rightarrow> string \<Rightarrow> string option) \<Rightarrow> ('m \<Rightarrow> 'm) \<Rightarrow> ('m \<Rightarrow> 'm) \<Rightarrow> string \<Rightarrow> authContext \<Rightarrow> 'm \<Rightarrow> 'm \<Rightarrow> bool" where
  "firstOwner role w1 w2 t ac st st' \<longleftrightarrow> ac_Role ac = [] \<and> role st t (ac_PrincipalID ac) = None \<and> (\<forall>p. role (w1 st) t p = None) \<and>
     (\<forall>t' p'. role st' t' p' = (if t' = t \<and> p' = ac_PrincipalID ac then Some ''owner'' else role (w2 st) t' p'))"

locale member_store =
  fixes getRole :: "'m \<Rightarrow> string \<Rightarrow> string \<Rightarrow> storeErr + string"
    and countMembers :: "'m \<Rightarrow> string \<Rightarrow> storeErr + int"
    and setRole :: "string \<Rightarrow> string \<Rightarrow> string \<Rightarrow> 'm \<Rightarrow> storeErr option \<times> 'm"
    and role :: "'m \<Rightarrow> string \<Rightarrow> string \<Rightarrow> string option"
    and ok :: "'m \<Rightarrow> bool"
  assumes getRole_some: "getRole st t p = Inr r \<Longrightarrow> role st t p = Some r"
    and getRole_none: "getRole st t p = Inl ErrMemberNotFound \<Longrightarrow> role st t p = None"
    and count_zero: "ok st \<Longrightarrow> countMembers st t = Inr 0 \<Longrightarrow> role st t p = None"
    and setRole_ok: "setRole t p r st = (None, st') \<Longrightarrow>
        role st' t' p' = (if t' = t \<and> p' = p then Some r else role st t' p')"
    and setRole_err: "setRole t p r st = (Some e, st') \<Longrightarrow> st' = st"
    and setRole_inv: "ok st \<Longrightarrow> ok (snd (setRole t p r st))"
begin

lemma resolveRole_sound:
  assumes "ok st" "resolveRole getRole countMembers setRole t ac st = (res, st')"
  shows "ok st'"
    and "st' \<noteq> st \<Longrightarrow> res = Inr ''owner'' \<and> (\<forall>p. role st t p = None) \<and>
           (\<forall>t' p'. role st' t' p' = (if t' = t \<and> p' = ac_PrincipalID ac then Some ''owner'' else role st t' p'))"
    and "res = Inr r \<Longrightarrow> ac_Role ac \<noteq> [] \<and> r = ac_Role ac \<or>
           ac_Role ac = [] \<and> role st' t (ac_PrincipalID ac) = Some r"
  using assms setRole_inv[OF assms(1), of t "ac_PrincipalID ac" "''owner''"]
  by (auto simp: resolveRole_def setRole_ok count_zero dest: getRole_some setRole_err
      split: if_splits sum.splits storeErr.splits option.splits prod.splits)

lemma RBAC_sound:
  assumes "ok st" "RBACMiddleware getenv getRole countMembers setRole req (Some ac) (Some st) = (Inr res, Some st')"
  shows "\<exists>t r. RequireTenant getenv ac = Inr t \<and> ac_PrincipalID ac \<noteq> [] \<and> HasPermission r req \<and>
      res = Some (ac\<lparr>ac_Role := r\<rparr>) \<and>
      (ac_Role ac \<noteq> [] \<and> r = ac_Role ac \<or> ac_Role ac = [] \<and> role st' t (ac_PrincipalID ac) = Some r) \<and>
      (st' \<noteq> st \<longrightarrow> r = ''owner'' \<and> (\<forall>p. role st t p = None))"
proof -
  from assms(2) obtain t r where *: "RequireTenant getenv ac = Inr t" "ac_PrincipalID ac \<noteq> []"
    "resolveRole getRole countMembers setRole t ac st = (Inr r, st')" "HasPermission r req"
    "res = Some (ac\<lparr>ac_Role := r\<rparr>)"
    by (auto simp: RBACMiddleware_def split: if_splits sum.splits prod.splits)
  from resolveRole_sound(2,3)[OF assms(1) *(3)] * show ?thesis by blast
qed

lemma resolveRole_interleaved:
  assumes "ok (w1 st)"
    "resolveRole getRole (\<lambda>st. countMembers (w1 st)) (\<lambda>t p r st. setRole t p r (w2 st)) t ac st = (res, st')"
  shows "st' = st \<or> st' = w2 st \<or> res = Inr ''owner'' \<and> firstOwner role w1 w2 t ac st st'"
    and "res = Inr r \<Longrightarrow> ac_Role ac \<noteq> [] \<and> r = ac_Role ac \<or> ac_Role ac = [] \<and> role st t (ac_PrincipalID ac) = Some r \<or>
           r = ''owner'' \<and> firstOwner role w1 w2 t ac st st'"
  using assms
  by (auto simp: resolveRole_def firstOwner_def setRole_ok count_zero dest: getRole_some getRole_none setRole_err
      split: if_splits sum.splits storeErr.splits option.splits prod.splits)

lemma RBAC_interleaved:
  assumes "ok (w1 st)"
    "RBACMiddleware getenv getRole (\<lambda>st. countMembers (w1 st)) (\<lambda>t p r st. setRole t p r (w2 st)) req acOpt (Some st) = (res, Some st')"
  shows "(st' = st \<or> st' = w2 st \<or> (\<exists>ac t. acOpt = Some ac \<and> ac_PrincipalID ac \<noteq> [] \<and> RequireTenant getenv ac = Inr t \<and>
        firstOwner role w1 w2 t ac st st')) \<and>
    (case res of Inl e \<Rightarrow> he_status e = 403
     | Inr x \<Rightarrow> \<exists>ac t r. acOpt = Some ac \<and> RequireTenant getenv ac = Inr t \<and> ac_PrincipalID ac \<noteq> [] \<and> HasPermission r req \<and>
         x = Some (ac\<lparr>ac_Role := r\<rparr>) \<and>
         (ac_Role ac \<noteq> [] \<and> r = ac_Role ac \<or> ac_Role ac = [] \<and> role st t (ac_PrincipalID ac) = Some r \<or>
          r = ''owner'' \<and> firstOwner role w1 w2 t ac st st'))"
proof (cases "\<exists>ac t. acOpt = Some ac \<and> ac_PrincipalID ac \<noteq> [] \<and> RequireTenant getenv ac = Inr t")
  case False
  then show ?thesis using assms(2) by (auto simp: RBACMiddleware_def forbidden_def split: option.splits if_splits sum.splits)
next
  case True
  then obtain ac t where a: "acOpt = Some ac" "ac_PrincipalID ac \<noteq> []" "RequireTenant getenv ac = Inr t" by blast
  obtain rr st2 where rr: "resolveRole getRole (\<lambda>st. countMembers (w1 st)) (\<lambda>t p r st. setRole t p r (w2 st)) t ac st = (rr, st2)"
    by (cases "resolveRole getRole (\<lambda>st. countMembers (w1 st)) (\<lambda>t p r st. setRole t p r (w2 st)) t ac st")
  have e: "rr = Inl e \<Longrightarrow> he_status e = 403" for e
    using rr by (auto simp: resolveRole_def forbidden_def split: if_splits sum.splits storeErr.splits prod.splits option.splits)
  note S = resolveRole_interleaved[where ?w1.0 = w1, OF assms(1) rr]
  show ?thesis
  proof (cases rr)
    case (Inl x)
    with assms(2) a rr e S(1) show ?thesis by (auto simp: RBACMiddleware_def)
  next
    case (Inr r)
    then have "st' = st2" "HasPermission r req \<and> res = Inr (Some (ac\<lparr>ac_Role := r\<rparr>)) \<or> (\<exists>e. res = Inl e \<and> he_status e = 403)"
      using assms(2) a rr by (auto simp: RBACMiddleware_def forbidden_def split: if_splits)
    note st' = this
    have allowed: "\<exists>ac' t' r'. acOpt = Some ac' \<and> RequireTenant getenv ac' = Inr t' \<and> ac_PrincipalID ac' \<noteq> [] \<and> HasPermission r' req \<and>
         Some (ac\<lparr>ac_Role := r\<rparr>) = Some (ac'\<lparr>ac_Role := r'\<rparr>) \<and>
         (ac_Role ac' \<noteq> [] \<and> r' = ac_Role ac' \<or> ac_Role ac' = [] \<and> role st t' (ac_PrincipalID ac') = Some r' \<or>
          r' = ''owner'' \<and> firstOwner role w1 w2 t' ac' st st')" if "HasPermission r req"
      using a that S(2)[OF Inr] st'(1) by (intro exI[of _ ac] exI[of _ t] exI[of _ r]) simp
    show ?thesis
    proof (rule conjI)
      show "st' = st \<or> st' = w2 st \<or> (\<exists>ac t. acOpt = Some ac \<and> ac_PrincipalID ac \<noteq> [] \<and> RequireTenant getenv ac = Inr t \<and>
          firstOwner role w1 w2 t ac st st')" using S(1) st'(1) a by auto
    qed (use st'(2) allowed in \<open>elim disjE exE, simp_all del: option.inject\<close>)
  qed
qed

end

lemma CountMembers_zero:
  "gwf tbl \<Longrightarrow> CountMembers fault tbl t = Inr 0 \<Longrightarrow> roleView tbl t p = None"
  by (cases fault) (auto simp: CountMembers_def roleView_def mget_None_iff filter_empty_conv)

interpretation pgm: member_store "GetRole f1" "CountMembers f2" "SetRole f3 now" roleView gwf
  for f1 f2 f3 now
proof
  show "GetRole f1 st t p = Inr r \<Longrightarrow> roleView st t p = Some r" for st t p r
    by (auto simp: GetRole_def roleView_def split: option.splits)
  show "GetRole f1 st t p = Inl ErrMemberNotFound \<Longrightarrow> roleView st t p = None" for st t p
    by (auto simp: GetRole_def roleView_def split: option.splits)
  show "SetRole f3 now t p r st = (None, st') \<Longrightarrow>
      roleView st' t' p' = (if t' = t \<and> p' = p then Some r else roleView st t' p')" for st t p r st' t' p'
    by (auto simp: SetRole_def roleView_def split: option.splits)
  show "SetRole f3 now t p r st = (Some e, st') \<Longrightarrow> st' = st" for st t p r st' e
    by (auto simp: SetRole_def split: option.splits)
  show "gwf st \<Longrightarrow> gwf (snd (SetRole f3 now t p r st))" for st t p r
    by (auto simp: SetRole_def split: option.splits)
qed (rule CountMembers_zero)

text \<open>Two first users of a tenant can both become owner: each counts the members before the other has written.\<close>

lemma bootstrap_race:
  assumes "\<forall>p. roleView tbl t p = None" "ac_Role a = []" "ac_Role b = []"
    "ac_PrincipalID a \<noteq> ac_PrincipalID b"
  shows "\<exists>tbl'. resolveRole (GetRole None) (CountMembers None)
      (\<lambda>t p r st. SetRole None now t p r (snd (resolveRole (GetRole None) (CountMembers None) (SetRole None now) t b st))) t a tbl
        = (Inr ''owner'', tbl') \<and>
    roleView tbl' t (ac_PrincipalID a) = Some ''owner'' \<and> roleView tbl' t (ac_PrincipalID b) = Some ''owner''"
proof -
  have none: "mget tbl (t, p) = None" for p using assms(1) by (simp add: roleView_def)
  have "filter (\<lambda>((t', p), m). t' = t) tbl = []" using none by (force simp: filter_empty_conv mget_None_iff)
  then show ?thesis using assms(2-4) none by (simp add: resolveRole_def GetRole_def CountMembers_def SetRole_def roleView_def)
qed

subsection \<open>Acceptance by the middlewares\<close>

lemma find_in_set: "find P xs = Some x \<Longrightarrow> P x \<and> x \<in> set xs"
  by (induction xs) (auto split: if_splits)

lemma APIKey_accept:
  assumes "IsAPIKey (ac_BearerToken ac)"
    "APIKeyMiddleware getenv bcryptOk now (Some (GetByPrefix f keys, Some (LookupByPrefix f keys))) ac = Inr ac'"
  shows "\<exists>rec\<in>set keys. keyAccepts bcryptOk now (ac_BearerToken ac) rec \<and>
    (\<forall>t. RequireTenant getenv ac = Inr t \<longrightarrow> ak_TenantID rec = t) \<and>
    ac' = ac\<lparr>ac_TenantID := ak_TenantID rec, ac_PrincipalID := ak_KeyID rec, ac_Role := ak_Role rec,
             ac_APIKeyID := ak_KeyID rec, ac_Validated := True\<rparr>"
  using assms
  by (auto simp: APIKeyMiddleware_def Let_def GetByPrefix_def LookupByPrefix_def keyAccepts_def not_less
      split: if_splits sum.splits option.splits dest!: find_in_set)

lemma APIKey_accept_lookup:
  assumes "IsAPIKey (ac_BearerToken ac)" "ExtractPrefix (ac_BearerToken ac) \<noteq> []" "RequireTenant getenv ac = Inl e"
    "LookupByPrefix f keys (ExtractPrefix (ac_BearerToken ac)) = Inr rec" "keyAccepts bcryptOk now (ac_BearerToken ac) rec"
  shows "APIKeyMiddleware getenv bcryptOk now (Some (GetByPrefix f keys, Some (LookupByPrefix f keys))) ac =
    Inr (ac\<lparr>ac_TenantID := ak_TenantID rec, ac_PrincipalID := ak_KeyID rec, ac_Role := ak_Role rec,
             ac_APIKeyID := ak_KeyID rec, ac_Validated := True\<rparr>)"
  using assms by (auto simp: APIKeyMiddleware_def Let_def keyAccepts_def not_less split: option.split)

lemma sampleToken_facts:
  "IsAPIKey sampleToken" "ExtractPrefix sampleToken = ''01234567''"
  by (simp_all add: IsAPIKey_def ExtractPrefix_def keyPrefix_def sampleToken_def prefixLen_def Let_def)

lemma sampleKey_accepted:
  assumes "find (\<lambda>r. ak_KeyPrefix r = ''01234567'') keys = Some sampleKey"
  shows "APIKeyMiddleware (\<lambda>_. []) (\<lambda>h t. h = ''h'') 5 (Some (GetByPrefix None keys, Some (LookupByPrefix None keys)))
     (emptyAuthContext\<lparr>ac_BearerToken := sampleToken\<rparr>) =
     Inr (emptyAuthContext\<lparr>ac_BearerToken := sampleToken, ac_TenantID := ''t1'', ac_PrincipalID := ''key_1'',
            ac_Role := ''viewer'', ac_APIKeyID := ''key_1'', ac_Validated := True\<rparr>)"
proof -
  have "RequireTenant (\<lambda>_. []) (emptyAuthContext\<lparr>ac_BearerToken := sampleToken\<rparr>) = Inl ErrTenantRequired"
    by (simp add: RequireTenant_def DefaultTenant_def emptyAuthContext_def Let_def)
  from APIKey_accept_lookup[OF _ _ this, of None keys sampleKey "\<lambda>h t. h = ''h''" 5] assms sampleToken_facts
  show ?thesis by (simp add: keyAccepts_def LookupByPrefix_def sampleKey_def)
qed

lemma revokeRow_revoked:
  "ak_RevokedAt (revokeRow now t k r) = None \<Longrightarrow>
   \<not> (ak_TenantID (revokeRow now t k r) = t \<and> ak_KeyID (revokeRow now t k r) = k)"
  by (auto simp: revokeRow_def revokeHit_def split: if_splits)

lemma FromRequest_no_authz:
  "TrimSpace (header ''Authorization'') = [] \<Longrightarrow> ac_BearerToken (FromRequest header) = [] \<and>
     ac_TenantID (FromRequest header) = TrimSpace (header ''X-Tenant-Id'') \<and>
     ac_PrincipalID (FromRequest header) = TrimSpace (header ''X-Principal-Id'') \<and>
     ac_Role (FromRequest header) = [] \<and> \<not> ac_Validated (FromRequest header) \<and> ac_TokenTenantID (FromRequest header) = []"
  by (simp add: FromRequest_def Let_def emptyAuthContext_def ToLower_def)

lemma IsAPIKey_Nil [simp]: "\<not> IsAPIKey []"
  by (simp add: IsAPIKey_def keyPrefix_def)

lemma WithAuth_no_token: "ac_BearerToken (FromRequest header) = [] \<Longrightarrow> WithAuth oidc header = Inr (FromRequest header)"
  by (simp add: WithAuth_def Let_def split: option.split)

subsection \<open>Properties\<close>

text \<open>C7. RBAC is sound, with other requests changing the member table between its three statements: a request that is let
  through has a resolved tenant, a principal and a role with the required permission, and the role comes from an earlier
  middleware, from the member table, or from the bootstrap of a first user. Whatever is answered, the request itself writes
  nothing to the table unless it is that bootstrap, which requires that no role was given, that the principal was not a
  member and that no member of the tenant was counted, and which makes the principal owner and changes no other row. A
  refusal is a 403.\<close>
theorem RBACMiddleware_sound:
  assumes "gwf (w1 tbl)"
    "RBACMiddleware getenv (GetRole f1) (\<lambda>st. CountMembers f2 (w1 st)) (\<lambda>t p r st. SetRole f3 now t p r (w2 st)) req acOpt (Some tbl)
       = (res, Some tbl')"
  shows "(tbl' = tbl \<or> tbl' = w2 tbl \<or> (\<exists>ac t. acOpt = Some ac \<and> ac_PrincipalID ac \<noteq> [] \<and> RequireTenant getenv ac = Inr t \<and>
        firstOwner roleView w1 w2 t ac tbl tbl')) \<and>
    (case res of Inl e \<Rightarrow> he_status e = 403
     | Inr x \<Rightarrow> \<exists>ac t r. acOpt = Some ac \<and> RequireTenant getenv ac = Inr t \<and> ac_PrincipalID ac \<noteq> [] \<and> HasPermission r req \<and>
         x = Some (ac\<lparr>ac_Role := r\<rparr>) \<and>
         (ac_Role ac \<noteq> [] \<and> r = ac_Role ac \<or> ac_Role ac = [] \<and> roleView tbl t (ac_PrincipalID ac) = Some r \<or>
          r = ''owner'' \<and> firstOwner roleView w1 w2 t ac tbl tbl'))"
  using pgm.RBAC_interleaved[OF assms] .

theorem RBACMiddleware_sound_witness:
  "HasPermission ''owner'' ''developer'' \<and> roleView sampleMembers ''t1'' ''alice'' = Some ''owner''"
proof -
  let ?ac = "emptyAuthContext\<lparr>ac_TenantID := ''t1'', ac_PrincipalID := ''alice''\<rparr>"
  have t: "RequireTenant (\<lambda>_. []) ?ac = Inr ''t1''"
    by (simp add: RequireTenant_def emptyAuthContext_def TrimSpace_def isSpace_def)
  have "resolveRole (GetRole None) (CountMembers None) (SetRole None 5) ''t1'' ?ac sampleMembers = (Inr ''owner'', sampleMembers)"
    by (simp add: resolveRole_def emptyAuthContext_def GetRole_def mget_def sampleMembers_def)
  moreover have "HasPermission ''owner'' ''developer''" by (simp add: HasPermission_def roleLevel_def mget_def)
  ultimately have "RBACMiddleware (\<lambda>_. []) (GetRole None) (CountMembers None) (SetRole None 5) ''developer'' (Some ?ac)
      (Some sampleMembers) = (Inr (Some (?ac\<lparr>ac_Role := ''owner''\<rparr>)), Some sampleMembers)"
    by (simp add: RBACMiddleware_def t)
  moreover have "gwf sampleMembers" by (simp add: gwf_def sampleMembers_def)
  moreover have "roleView sampleMembers ''t1'' ''alice'' = Some ''owner''" by (simp add: roleView_def sampleMembers_def mget_def)
  ultimately show ?thesis
    using RBACMiddleware_sound[where tbl = sampleMembers and ?w1.0 = id and ?w2.0 = id and req = "''developer''" and ?f1.0 = None and ?f2.0 = None
        and ?f3.0 = None and now = 5 and acOpt = "Some ?ac" and getenv = "\<lambda>_. []"]
    by (fastforce simp: emptyAuthContext_def)
qed

text \<open>C8. API keys fail closed: a request whose bearer token looks like an API key is let through only if some
  stored key has its prefix, a hash that bcrypt accepts for the whole token, no revocation and no expiry before
  now; the context then carries the tenant, role and identifier of that very record, whatever the headers said.\<close>

theorem APIKeyMiddleware_fail_closed:
  assumes "IsAPIKey (ac_BearerToken ac)"
    "APIKeyMiddleware getenv bcryptOk now (Some (GetByPrefix f keys, Some (LookupByPrefix f keys))) ac = Inr ac'"
  shows "\<exists>rec\<in>set keys. ak_KeyPrefix rec = ExtractPrefix (ac_BearerToken ac) \<and>
    bcryptOk (ak_KeyHash rec) (ac_BearerToken ac) \<and> ak_RevokedAt rec = None \<and>
    (\<forall>e. ak_ExpiresAt rec = Some e \<longrightarrow> now \<le> e) \<and>
    ac_TenantID ac' = ak_TenantID rec \<and> ac_PrincipalID ac' = ak_KeyID rec \<and> ac_Role ac' = ak_Role rec \<and>
    ac_Validated ac'"
  using APIKey_accept[OF assms] by (auto simp: keyAccepts_def)

theorem APIKeyMiddleware_fail_closed_witness:
  "\<exists>rec\<in>set [sampleKey]. ak_KeyPrefix rec = ExtractPrefix sampleToken \<and> ak_RevokedAt rec = None"
proof -
  have "find (\<lambda>r. ak_KeyPrefix r = ''01234567'') [sampleKey] = Some sampleKey" by (simp add: sampleKey_def)
  from APIKeyMiddleware_fail_closed[OF _ sampleKey_accepted[OF this]] sampleToken_facts(1)
  show ?thesis by simp
qed

text \<open>Revocation is effective: once Revoke of a tenant's key has succeeded, no request is ever let through as
  that key of that tenant, whatever token it bears.\<close>

theorem Revoke_effective:
  assumes "Revoke f now tenant kid keys = (None, keys')" "IsAPIKey (ac_BearerToken ac)"
    "APIKeyMiddleware getenv bcryptOk now' (Some (GetByPrefix f' keys', Some (LookupByPrefix f' keys'))) ac = Inr ac'"
  shows "\<not> (ac_TenantID ac' = tenant \<and> ac_PrincipalID ac' = kid)"
proof
  assume eq: "ac_TenantID ac' = tenant \<and> ac_PrincipalID ac' = kid"
  from APIKey_accept[OF assms(2,3)] obtain rec where
    "rec \<in> set keys'" "ak_RevokedAt rec = None" "ak_TenantID rec = ac_TenantID ac'" "ak_KeyID rec = ac_PrincipalID ac'"
    by (auto simp: keyAccepts_def)
  moreover have "keys' = map (revokeRow now tenant kid) keys"
    using assms(1) by (auto simp: Revoke_def split: option.splits if_splits)
  ultimately show False using eq revokeRow_revoked by fastforce
qed

theorem Revoke_effective_witness:
  "\<exists>ac'. APIKeyMiddleware (\<lambda>_. []) (\<lambda>h t. h = ''h'') 5
     (Some (GetByPrefix None (snd (Revoke None 4 ''t2'' ''key_2'' [sampleKey, sampleKey\<lparr>ak_TenantID := ''t2'', ak_KeyID := ''key_2''\<rparr>])),
            Some (LookupByPrefix None (snd (Revoke None 4 ''t2'' ''key_2'' [sampleKey, sampleKey\<lparr>ak_TenantID := ''t2'', ak_KeyID := ''key_2''\<rparr>])))))
     (emptyAuthContext\<lparr>ac_BearerToken := sampleToken\<rparr>) = Inr ac' \<and>
     \<not> (ac_TenantID ac' = ''t2'' \<and> ac_PrincipalID ac' = ''key_2'')"
proof -
  let ?keys = "[sampleKey, sampleKey\<lparr>ak_TenantID := ''t2'', ak_KeyID := ''key_2''\<rparr>]"
  obtain keys' where r: "Revoke None 4 ''t2'' ''key_2'' ?keys = (None, keys')" "hd keys' = sampleKey" "keys' \<noteq> []"
    by (simp add: Revoke_def revokeRow_def revokeHit_def sampleKey_def)
  then have "find (\<lambda>r. ak_KeyPrefix r = ''01234567'') keys' = Some sampleKey"
    by (cases keys') (auto simp: sampleKey_def)
  note acc = sampleKey_accepted[OF this]
  have "IsAPIKey (ac_BearerToken (emptyAuthContext\<lparr>ac_BearerToken := sampleToken\<rparr>))" by (simp add: sampleToken_facts)
  from Revoke_effective[OF r(1) this acc] acc r(1) show ?thesis by auto
qed

text \<open>The pipeline trusts header-derived identity: without any credential (no Authorization header), in
  production mode and with every store configured, a request that names a tenant and one of its members in the
  X-Tenant-Id and X-Principal-Id headers is let through with that member's role, its context not validated.\<close>

theorem authPipeline_trusts_headers:
  assumes "TrimSpace (header ''Authorization'') = []" "TrimSpace (header ''X-Tenant-Id'') = t" "t \<noteq> []"
    "TrimSpace (header ''X-Principal-Id'') = p" "p \<noteq> []" "roleView tbl t p = Some r" "HasPermission r req"
    "pf_getRole faults = None"
  shows "\<exists>ac. authPipeline getenv oidc bcryptOk now faults keys req header tbl = (Inr (Some ac), Some tbl) \<and>
    ac_Role ac = r \<and> ac_TenantID ac = t \<and> ac_PrincipalID ac = p \<and> \<not> ac_Validated ac"
proof -
  let ?ac = "FromRequest header"
  note f = FromRequest_no_authz[of header, OF assms(1)]
  have t: "RequireTenant getenv ?ac = Inr t"
    using f assms(2,3) by (auto simp: RequireTenant_def Let_def)
  have "resolveRole (GetRole None) (CountMembers (pf_count faults)) (SetRole (pf_setRole faults) now) t ?ac tbl = (Inr r, tbl)"
    using f assms(4,6) by (auto simp: resolveRole_def GetRole_def roleView_def)
  then show ?thesis
    using f assms t WithAuth_no_token[of header oidc]
    by (simp add: authPipeline_def APIKeyMiddleware_def RBACMiddleware_def)
qed

theorem authPipeline_trusts_headers_witness:
  "\<exists>ac. authPipeline (\<lambda>_. []) None (\<lambda>h t. False) 7 \<lparr>pf_getRole = None, pf_count = None, pf_setRole = None, pf_apiKey = None\<rparr>
     [] ''admin'' (\<lambda>h. if h = ''X-Tenant-Id'' then ''t1'' else if h = ''X-Principal-Id'' then ''alice'' else [])
     sampleMembers = (Inr (Some ac), Some sampleMembers) \<and>
     ac_Role ac = ''owner'' \<and> ac_TenantID ac = ''t1'' \<and> ac_PrincipalID ac = ''alice'' \<and> \<not> ac_Validated ac"
  by (rule authPipeline_trusts_headers)
     (simp_all add: TrimSpace_def isSpace_def roleView_def mget_def HasPermission_def roleLevel_def sampleMembers_def)

text \<open>Keys round-trip and masking leaks nothing but the last four characters: a generated key is recognised
  as an API key and its lookup prefix is the stored one; two API keys whose bodies have at least four characters
  and end in the same four have the same mask.\<close>

theorem api_key_roundtrip_and_mask:
  assumes "GenerateKey bcryptHash (Inr body) (Inr i) = Inr k" "8 \<le> length body"
  shows "IsAPIKey (gk_fullKey k) \<and> ExtractPrefix (gk_fullKey k) = gk_prefix k \<and> gk_prefix k \<noteq> [] \<and>
    MaskKey (gk_fullKey k) = keyPrefix @ ''****'' @ last_n 4 body"
proof -
  have k: "gk_fullKey k = keyPrefix @ body" "gk_prefix k = take prefixLen body"
    using assms(1) by (auto simp: GenerateKey_def Let_def split: sum.splits)
  have "body \<noteq> []" using assms(2) by auto
  with assms(2) show ?thesis
    by (simp add: k IsAPIKey_def ExtractPrefix_def MaskKey_def prefixLen_def Let_def)
qed

theorem api_key_roundtrip_and_mask_witness:
  "ExtractPrefix ''aos_live_0123456789abcdef'' = ''01234567''"
proof -
  obtain k where g: "GenerateKey (\<lambda>_. Inr ''h'') (Inr ''0123456789abcdef'') (Inr ''1'') = Inr k"
    by (simp add: GenerateKey_def Let_def)
  moreover from g have "gk_fullKey k = ''aos_live_0123456789abcdef''" "gk_prefix k = ''01234567''"
    by (auto simp: GenerateKey_def Let_def keyPrefix_def prefixLen_def)
  ultimately show ?thesis using api_key_roundtrip_and_mask[OF g] by simp
qed

end
