(* ===== verification/MCP_Server.thy ===== *)
theory MCP_Server
  imports Governance Auth_Access "HOL-Library.Multiset" "HOL-Library.List_Lexorder" "HOL-Library.Char_ord"
begin

text \<open>
  The MCP JSON-RPC server (mcp/server.go, registry.go, auth.go, clearance_store.go, types.go,
  governance_middleware.go, facets/registry.go).

  \<^item> \<open>mcpServer\<close> holds the tool registry, the optional clearance store, the optional governance engine and the
    initialized flag. \<open>handleRPC\<close> dispatches as the HTTP handler does; it returns the response, the new state and the
    tool invocation made, if any.
  \<^item> JSON decoding and encoding of the transport is a record of functions \<open>jsonCodec\<close>; header names are the
    canonical ones of net/http. The auth context found in the request context is an argument.
  \<^item> The locale \<open>clearance_store\<close> is the interface of the same name; it is interpreted on the in-memory store.
  \<^item> \<open>serveMCP\<close> is the handler chain that NewServer installs: no authentication middleware, so the context
    handed to \<open>handleRPC\<close> is the zero AuthContext.
\<close>

subsection \<open>Tools and their registry\<close>

record mcpAuthContext =
  ma_AgentID :: string
  ma_TenantID :: string

type_synonym toolHandler = "mcpAuthContext option \<Rightarrow> string \<Rightarrow> string + json"

record tool =
  tl_Name :: string
  tl_Description :: string
  tl_InputSchema :: string
  tl_Handler :: "toolHandler option"
  tl_MinClearance :: int
  tl_Static :: bool
  tl_Category :: string

definition ClearancePublic :: int where "ClearancePublic = 0"
definition ClearanceInternal :: int where "ClearanceInternal = 1"
definition ClearanceExecute :: int where "ClearanceExecute = 2"
definition ClearanceAdmin :: int where "ClearanceAdmin = 3"
definition ClearanceSuperAdmin :: int where "ClearanceSuperAdmin = 4"

type_synonym toolRegistry = "(string, tool) gomap"

datatype registryErr = EmptyName | NoHandler string | AlreadyRegistered string | NotFound string

definition Tool_Register :: "tool \<Rightarrow> toolRegistry \<Rightarrow> registryErr option \<times> toolRegistry" where
  "Tool_Register t r =
     (if tl_Name t = [] then (Some EmptyName, r)
      else if tl_Handler t = None then (Some (NoHandler (tl_Name t)), r)
      else if mget r (tl_Name t) \<noteq> None then (Some (AlreadyRegistered (tl_Name t)), r)
      else (None, mput (tl_Name t) t r))"

definition Tool_Unregister :: "string \<Rightarrow> toolRegistry \<Rightarrow> registryErr option \<times> toolRegistry" where
  "Tool_Unregister name r =
     (if mget r name = None then (Some (NotFound name), r) else (None, mdel name r))"

definition Tool_Get :: "toolRegistry \<Rightarrow> string \<Rightarrow> tool option" where
  "Tool_Get r name = mget r name"

definition Tool_List :: "toolRegistry \<Rightarrow> tool list" where
  "Tool_List r = map snd r"

subsubsection \<open>Facets\<close>

record facet =
  fc_Name :: string
  fc_Description :: string
  fc_Values :: "string list"
  fc_Dynamic :: bool

type_synonym facetRegistry = "(string, facet) gomap"

definition defaultFacets :: "facet list" where
  "defaultFacets =
     [\<lparr>fc_Name = ''task'', fc_Description = ''Primary task type inferred from the prompt.'',
       fc_Values = [''code'', ''reasoning'', ''factual'', ''creative'', ''analysis''], fc_Dynamic = False\<rparr>,
      \<lparr>fc_Name = ''complexity'', fc_Description = ''Estimated prompt complexity.'',
       fc_Values = [''low'', ''medium'', ''high''], fc_Dynamic = False\<rparr>,
      \<lparr>fc_Name = ''thinking'', fc_Description = ''Whether extended thinking / chain-of-thought is recommended.'',
       fc_Values = [''true'', ''false''], fc_Dynamic = False\<rparr>]"

definition NewFacetRegistry :: facetRegistry where
  "NewFacetRegistry = fold (\<lambda>f. mput (fc_Name f) f) defaultFacets []"

definition Facet_Register :: "facet \<Rightarrow> facetRegistry \<Rightarrow> registryErr option \<times> facetRegistry" where
  "Facet_Register f r =
     (if fc_Name f = [] then (Some EmptyName, r)
      else if mget r (fc_Name f) \<noteq> None then (Some (AlreadyRegistered (fc_Name f)), r)
      else (None, mput (fc_Name f) f r))"

definition Facet_Unregister :: "string \<Rightarrow> facetRegistry \<Rightarrow> registryErr option \<times> facetRegistry" where
  "Facet_Unregister name r =
     (if mget r name = None then (Some (NotFound name), r) else (None, mdel name r))"

definition Facet_Get :: "facetRegistry \<Rightarrow> string \<Rightarrow> facet option" where
  "Facet_Get r name = mget r name"

definition Facet_List :: "facetRegistry \<Rightarrow> facet list" where
  "Facet_List r = sort_key fc_Name (map snd r)"

subsection \<open>Clearance\<close>

record clearanceMem =
  cl_agents :: "(string, int) gomap"
  cl_defaultTier :: int
  cl_failClosed :: bool

definition WithDefaultTier :: "int \<Rightarrow> clearanceMem \<Rightarrow> clearanceMem" where
  "WithDefaultTier tier s = s\<lparr>cl_defaultTier := tier, cl_failClosed := False\<rparr>"

definition WithAgents :: "(string, int) gomap \<Rightarrow> clearanceMem \<Rightarrow> clearanceMem" where
  "WithAgents agents s = s\<lparr>cl_agents := fold (\<lambda>(k, v). mput k v) agents (cl_agents s)\<rparr>"

definition NewInMemoryClearanceStore :: "(clearanceMem \<Rightarrow> clearanceMem) list \<Rightarrow> clearanceMem" where
  "NewInMemoryClearanceStore opts =
     fold (\<lambda>opt s. opt s) opts \<lparr>cl_agents = [], cl_defaultTier = 0, cl_failClosed = True\<rparr>"

datatype clearErr = EmptyAgent | UnknownAgent string | ClearBackend string

definition GetClearance :: "clearanceMem \<Rightarrow> string \<Rightarrow> clearErr + int" where
  "GetClearance s agentID =
     (if agentID = [] then Inl EmptyAgent
      else case mget (cl_agents s) agentID of
        Some tier \<Rightarrow> Inr tier
      | None \<Rightarrow> if cl_failClosed s then Inl (UnknownAgent agentID) else Inr (cl_defaultTier s))"

definition SetClearance :: "string \<Rightarrow> int \<Rightarrow> clearanceMem \<Rightarrow> clearErr option \<times> clearanceMem" where
  "SetClearance agentID tier s =
     (if agentID = [] then (Some EmptyAgent, s) else (None, s\<lparr>cl_agents := mput agentID tier (cl_agents s)\<rparr>))"

subsection \<open>JSON-RPC\<close>

definition CodeParseError :: int where "CodeParseError = -32700"
definition CodeInvalidRequest :: int where "CodeInvalidRequest = -32600"
definition CodeMethodNotFound :: int where "CodeMethodNotFound = -32601"
definition CodeInvalidParams :: int where "CodeInvalidParams = -32602"
definition CodeInternalError :: int where "CodeInternalError = -32603"

record rpcRequest =
  rq_JSONRPC :: string
  rq_ID :: string
  rq_Method :: string
  rq_Params :: string

record toolCallParams =
  tp_Name :: string
  tp_Arguments :: string

datatype rpcMsg = Msg string | MsgMethod string | MsgTool string | MsgClearance clearErr | MsgTier int int
  | MsgGov "reason option"

datatype rpcBody =
    InitializeResult string string string
  | ToolsListResult "(string \<times> string \<times> string) list"
  | ToolCallResult string bool
  | RPCError int rpcMsg

record rpcResponse =
  rs_ID :: "string option"
  rs_Body :: rpcBody

record jsonCodec =
  jc_request :: "string \<Rightarrow> rpcRequest option"
  jc_params :: "string \<Rightarrow> toolCallParams option"
  jc_args :: "string \<Rightarrow> args option"
  jc_marshal :: "json \<Rightarrow> string option"

definition writeError :: "string option \<Rightarrow> int \<Rightarrow> rpcMsg \<Rightarrow> rpcResponse" where
  "writeError i code msg = \<lparr>rs_ID = i, rs_Body = RPCError code msg\<rparr>"

definition writeResult :: "string \<Rightarrow> rpcBody \<Rightarrow> rpcResponse" where
  "writeResult i b = \<lparr>rs_ID = Some i, rs_Body = b\<rparr>"

subsection \<open>Authorization of a tool call\<close>

definition AuthorizeToolCall ::
  "('c \<Rightarrow> string \<Rightarrow> clearErr + int) \<Rightarrow> mcpAuthContext option \<Rightarrow> tool \<Rightarrow> 'c \<Rightarrow> (int \<times> rpcMsg) option" where
  "AuthorizeToolCall getClearance acOpt tool store =
     (case acOpt of
        None \<Rightarrow> Some (CodeInvalidRequest, Msg ''insufficient clearance: missing auth context'')
      | Some ac \<Rightarrow>
          if ma_AgentID ac = [] then Some (CodeInvalidRequest, Msg ''insufficient clearance: missing agent identity'')
          else case getClearance store (ma_AgentID ac) of
            Inl e \<Rightarrow> Some (CodeInvalidRequest, MsgClearance e)
          | Inr tier \<Rightarrow>
              if tier < tl_MinClearance tool then Some (CodeInvalidRequest, MsgTier tier (tl_MinClearance tool))
              else None)"

definition mcpIdentity ::
  "bool \<Rightarrow> (string \<Rightarrow> string) \<Rightarrow> (int \<times> rpcMsg) + mcpAuthContext option" where
  "mcpIdentity trusted header =
     (let agentID = header ''X-Agent-Id''; tenantID = header ''X-Tenant-Id'' in
      if trusted
      then (if agentID \<noteq> [] then Inr (Some \<lparr>ma_AgentID = agentID, ma_TenantID = tenantID\<rparr>)
            else if tenantID \<noteq> [] then Inr (Some \<lparr>ma_AgentID = tenantID, ma_TenantID = tenantID\<rparr>)
            else Inr None)
      else if agentID \<noteq> [] \<or> tenantID \<noteq> []
      then Inl (CodeInvalidRequest, Msg ''insufficient clearance: identity headers require validated credentials'')
      else Inr None)"

subsection \<open>The server\<close>

record ('c, 'rl, 'ld, 'cb) mcpServer =
  ms_registry :: toolRegistry
  ms_clearanceStore :: "'c option"
  ms_govEngine :: "('rl, 'ld, 'cb) engine option"
  ms_version :: string
  ms_initialized :: bool

definition NewServer ::
  "string \<Rightarrow> toolRegistry \<Rightarrow> 'c option \<Rightarrow> ('rl, 'ld, 'cb) engine option \<Rightarrow> ('c, 'rl, 'ld, 'cb) mcpServer" where
  "NewServer version registry clearanceStore govEngine =
     \<lparr>ms_registry = registry, ms_clearanceStore = clearanceStore, ms_govEngine = govEngine,
      ms_version = version, ms_initialized = False\<rparr>"

record invocation =
  iv_tool :: tool
  iv_auth :: "mcpAuthContext option"
  iv_args :: string

definition handleInitialize ::
  "rpcRequest \<Rightarrow> ('c, 'rl, 'ld, 'cb) mcpServer \<Rightarrow> rpcResponse \<times> ('c, 'rl, 'ld, 'cb) mcpServer" where
  "handleInitialize req s =
     (writeResult (rq_ID req) (InitializeResult ''2024-11-05'' ''agentos-mcp'' (ms_version s)), s\<lparr>ms_initialized := True\<rparr>)"

definition notInitialized :: "rpcRequest \<Rightarrow> rpcResponse" where
  "notInitialized req = writeError (Some (rq_ID req)) CodeInvalidRequest (Msg ''server not initialized'')"

definition handleToolsList :: "rpcRequest \<Rightarrow> ('c, 'rl, 'ld, 'cb) mcpServer \<Rightarrow> rpcResponse" where
  "handleToolsList req s =
     (if \<not> ms_initialized s then notInitialized req
      else writeResult (rq_ID req)
             (ToolsListResult (map (\<lambda>t. (tl_Name t, tl_Description t, tl_InputSchema t)) (Tool_List (ms_registry s)))))"

definition toolCategory :: "tool \<Rightarrow> string" where
  "toolCategory tool = (if tl_Category tool = ''observe'' then CategoryObserve else CategoryAction)"

definition govCheck ::
  "('rl, 'ld, 'cb) trackerOps \<Rightarrow> jsonCodec \<Rightarrow> time \<Rightarrow> mcpAuthContext option \<Rightarrow> tool \<Rightarrow> toolCallParams
   \<Rightarrow> ('c, 'rl, 'ld, 'cb) mcpServer \<Rightarrow> decision option \<times> ('c, 'rl, 'ld, 'cb) mcpServer" where
  "govCheck ops jc now ma tool p s =
     (case ms_govEngine s of
        None \<Rightarrow> (None, s)
      | Some e \<Rightarrow>
          (let govArgs = (case jc_args jc (tp_Arguments p) of Some as \<Rightarrow> as | None \<Rightarrow> []);
               agentID = (case ma of Some ac \<Rightarrow> ma_AgentID ac | None \<Rightarrow> []);
               (d, e') = Check ops now agentID (tp_Name p) govArgs (Some (toolCategory tool)) e in
           (Some d, s\<lparr>ms_govEngine := Some e'\<rparr>)))"

definition govRecord ::
  "('rl, 'ld, 'cb) trackerOps \<Rightarrow> mcpAuthContext option \<Rightarrow> bool \<Rightarrow> ('c, 'rl, 'ld, 'cb) mcpServer \<Rightarrow> ('c, 'rl, 'ld, 'cb) mcpServer" where
  "govRecord ops ma success s =
     (case ms_govEngine s of None \<Rightarrow> s
      | Some e \<Rightarrow> s\<lparr>ms_govEngine := Some (RecordResult ops (case ma of Some ac \<Rightarrow> ma_AgentID ac | None \<Rightarrow> []) success e)\<rparr>)"

definition runTool ::
  "('rl, 'ld, 'cb) trackerOps \<Rightarrow> jsonCodec \<Rightarrow> rpcRequest \<Rightarrow> mcpAuthContext option \<Rightarrow> tool \<Rightarrow> toolCallParams
   \<Rightarrow> ('c, 'rl, 'ld, 'cb) mcpServer \<Rightarrow> rpcResponse \<times> ('c, 'rl, 'ld, 'cb) mcpServer" where
  "runTool ops jc req ma tool p s =
     (case (case tl_Handler tool of Some h \<Rightarrow> h ma (tp_Arguments p) | None \<Rightarrow> Inl ''nil handler'') of
        Inl err \<Rightarrow> (writeResult (rq_ID req) (ToolCallResult err True), govRecord ops ma False s)
      | Inr result \<Rightarrow>
          (writeResult (rq_ID req)
             (case jc_marshal jc result of
                None \<Rightarrow> ToolCallResult ''internal error: failed to marshal result'' True
              | Some txt \<Rightarrow> ToolCallResult txt False),
           govRecord ops ma True s))"

definition handleToolsCall ::
  "('rl, 'ld, 'cb) trackerOps \<Rightarrow> ('c \<Rightarrow> string \<Rightarrow> clearErr + int) \<Rightarrow> jsonCodec \<Rightarrow> (string \<Rightarrow> string) \<Rightarrow> time
   \<Rightarrow> authContext \<Rightarrow> (string \<Rightarrow> string) \<Rightarrow> rpcRequest \<Rightarrow> ('c, 'rl, 'ld, 'cb) mcpServer
   \<Rightarrow> rpcResponse \<times> ('c, 'rl, 'ld, 'cb) mcpServer \<times> invocation option" where
  "handleToolsCall ops getClearance jc getenv now ac header req s =
     (if \<not> ms_initialized s then (notInitialized req, s, None)
      else case mcpIdentity (ac_Validated ac \<or> DevMode getenv) header of
        Inl (code, msg) \<Rightarrow> (writeError (Some (rq_ID req)) code msg, s, None)
      | Inr ma \<Rightarrow>
          (case jc_params jc (rq_Params req) of
             None \<Rightarrow> (writeError (Some (rq_ID req)) CodeInvalidParams (Msg ''invalid tools/call params''), s, None)
           | Some p \<Rightarrow>
               (case Tool_Get (ms_registry s) (tp_Name p) of
                  None \<Rightarrow> (writeError (Some (rq_ID req)) CodeInvalidParams (MsgTool (tp_Name p)), s, None)
                | Some tool \<Rightarrow>
                    (case ms_clearanceStore s of
                       None \<Rightarrow> (writeError (Some (rq_ID req)) CodeInternalError (Msg ''authorization unavailable''), s, None)
                     | Some store \<Rightarrow>
                         (case AuthorizeToolCall getClearance ma tool store of
                            Some (code, msg) \<Rightarrow> (writeError (Some (rq_ID req)) code msg, s, None)
                          | None \<Rightarrow>
                              (let (d, s1) = govCheck ops jc now ma tool p s in
                               if (case d of Some dec \<Rightarrow> d_Verdict dec = Deny | None \<Rightarrow> False)
                               then (writeError (Some (rq_ID req)) CodeInvalidRequest (MsgGov (d_Reason (the d))), s1, None)
                               else let (resp, s2) = runTool ops jc req ma tool p s1 in
                                    (resp, s2, Some \<lparr>iv_tool = tool, iv_auth = ma, iv_args = tp_Arguments p\<rparr>)))))))"

datatype bodyRead = ReadFailed | BodyRead string

definition handleRPC ::
  "('rl, 'ld, 'cb) trackerOps \<Rightarrow> ('c \<Rightarrow> string \<Rightarrow> clearErr + int) \<Rightarrow> jsonCodec \<Rightarrow> (string \<Rightarrow> string) \<Rightarrow> time
   \<Rightarrow> authContext \<Rightarrow> (string \<Rightarrow> string) \<Rightarrow> string \<Rightarrow> bodyRead \<Rightarrow> ('c, 'rl, 'ld, 'cb) mcpServer
   \<Rightarrow> rpcResponse \<times> ('c, 'rl, 'ld, 'cb) mcpServer \<times> invocation option" where
  "handleRPC ops getClearance jc getenv now ac header httpMethod body s =
     (if httpMethod \<noteq> ''POST'' then (writeError None CodeInvalidRequest (Msg ''only POST is allowed''), s, None)
      else case body of
        ReadFailed \<Rightarrow> (writeError None CodeParseError (Msg ''failed to read request body''), s, None)
      | BodyRead b \<Rightarrow>
          (case jc_request jc b of
             None \<Rightarrow> (writeError None CodeParseError (Msg ''invalid JSON''), s, None)
           | Some req \<Rightarrow>
               if rq_JSONRPC req \<noteq> ''2.0''
               then (writeError (Some (rq_ID req)) CodeInvalidRequest (Msg ''jsonrpc must be 2.0''), s, None)
               else if rq_Method req = ''initialize''
               then (let (resp, s') = handleInitialize req s in (resp, s', None))
               else if rq_Method req = ''tools/list'' then (handleToolsList req s, s, None)
               else if rq_Method req = ''tools/call''
               then handleToolsCall ops getClearance jc getenv now ac header req s
               else (writeError (Some (rq_ID req)) CodeMethodNotFound (MsgMethod (rq_Method req)), s, None)))"

text \<open>The mux of NewServer routes every path to \<open>handleRPC\<close> with no middleware around it.\<close>

definition serveMCP ::
  "('rl, 'ld, 'cb) trackerOps \<Rightarrow> ('c \<Rightarrow> string \<Rightarrow> clearErr + int) \<Rightarrow> jsonCodec \<Rightarrow> (string \<Rightarrow> string) \<Rightarrow> time
   \<Rightarrow> (string \<Rightarrow> string) \<Rightarrow> string \<Rightarrow> bodyRead \<Rightarrow> ('c, 'rl, 'ld, 'cb) mcpServer
   \<Rightarrow> rpcResponse \<times> ('c, 'rl, 'ld, 'cb) mcpServer \<times> invocation option" where
  "serveMCP ops getClearance jc getenv now header httpMethod body s =
     handleRPC ops getClearance jc getenv now emptyAuthContext header httpMethod body s"

subsection \<open>The per-tool governance wrapper\<close>

definition GovernanceMiddleware ::
  "('rl, 'ld, 'cb) trackerOps \<Rightarrow> jsonCodec \<Rightarrow> time \<Rightarrow> string \<Rightarrow> toolHandler \<Rightarrow> mcpAuthContext option \<Rightarrow> string
   \<Rightarrow> ('rl, 'ld, 'cb) engine \<Rightarrow> (string + json) \<times> ('rl, 'ld, 'cb) engine \<times> bool" where
  "GovernanceMiddleware ops jc now toolName handler ma params e =
     (case ma of
        None \<Rightarrow> (Inl ''governance denied: missing auth context'', e, False)
      | Some ac \<Rightarrow>
          if ma_AgentID ac = [] then (Inl ''governance denied: empty agent ID'', e, False)
          else
            let as = (if length params > 0 then (case jc_args jc params of Some m \<Rightarrow> m | None \<Rightarrow> []) else []) in
            if toolName = [] then (Inl ''governance denied: missing tool name in context'', e, False)
            else
              let (d, e1) = Check ops now (ma_AgentID ac) toolName as None e in
              if d_Verdict d = Deny then (Inl ''governance denied'', e1, False)
              else let r = handler ma params in
                   (r, RecordResult ops (ma_AgentID ac) (case r of Inr _ \<Rightarrow> True | Inl _ \<Rightarrow> False) e1, True))"

subsection \<open>The contract of a clearance store\<close>

locale clearance_store =
  fixes getClearance :: "'c \<Rightarrow> string \<Rightarrow> clearErr + int" and tier :: "'c \<Rightarrow> string \<Rightarrow> int option"
  assumes get_tier: "getClearance st a = Inr t \<Longrightarrow> tier st a = Some t"
    and tier_get: "tier st a = Some t \<Longrightarrow> getClearance st a = Inr t"
    and tier_empty: "tier st [] = None"
begin

lemma authorize_iff:
  "AuthorizeToolCall getClearance ma tool store = None \<longleftrightarrow>
   (\<exists>ac t. ma = Some ac \<and> tier store (ma_AgentID ac) = Some t \<and> tl_MinClearance tool \<le> t)"
  by (auto simp: AuthorizeToolCall_def tier_empty dest: get_tier tier_get split: option.splits sum.splits if_splits)

lemma call_invokes:
  assumes "handleToolsCall ops getClearance jc getenv now ac header req s = (resp, s', Some iv)"
  shows "ms_initialized s" "ac_Validated ac \<or> DevMode getenv"
    "\<exists>st ma t. ms_clearanceStore s = Some st \<and> iv_auth iv = Some ma \<and>
       tier st (ma_AgentID ma) = Some t \<and> tl_MinClearance (iv_tool iv) \<le> t"
    "\<exists>ma. iv_auth iv = Some ma \<and> ma_AgentID ma \<in> {header ''X-Agent-Id'', header ''X-Tenant-Id''} \<and> ma_AgentID ma \<noteq> []"
    "\<exists>p. jc_params jc (rq_Params req) = Some p \<and> Tool_Get (ms_registry s) (tp_Name p) = Some (iv_tool iv) \<and>
       iv_args iv = tp_Arguments p \<and> (\<exists>s1. govCheck ops jc now (iv_auth iv) (iv_tool iv) p s =
          (fst (govCheck ops jc now (iv_auth iv) (iv_tool iv) p s), s1) \<and>
          runTool ops jc req (iv_auth iv) (iv_tool iv) p s1 = (resp, s') \<and>
          (\<forall>d. fst (govCheck ops jc now (iv_auth iv) (iv_tool iv) p s) = Some d \<longrightarrow> d_Verdict d = Allow))"
proof -
  obtain ma p tool st d s1 where *: "ms_initialized s"
    "mcpIdentity (ac_Validated ac \<or> DevMode getenv) header = Inr ma" "jc_params jc (rq_Params req) = Some p"
    "Tool_Get (ms_registry s) (tp_Name p) = Some tool" "ms_clearanceStore s = Some st"
    "AuthorizeToolCall getClearance ma tool st = None" "govCheck ops jc now ma tool p s = (d, s1)"
    "\<not> (case d of Some dec \<Rightarrow> d_Verdict dec = Deny | None \<Rightarrow> False)" "runTool ops jc req ma tool p s1 = (resp, s')"
    "iv = \<lparr>iv_tool = tool, iv_auth = ma, iv_args = tp_Arguments p\<rparr>"
    using assms unfolding handleToolsCall_def by (auto simp: Let_def split: if_splits sum.splits option.splits prod.splits)
  show "ms_initialized s" by (rule *(1))
  from *(6)[unfolded authorize_iff] obtain mac t where m: "ma = Some mac" "tier st (ma_AgentID mac) = Some t"
    "tl_MinClearance tool \<le> t" by blast
  then show "\<exists>st ma t. ms_clearanceStore s = Some st \<and> iv_auth iv = Some ma \<and>
       tier st (ma_AgentID ma) = Some t \<and> tl_MinClearance (iv_tool iv) \<le> t" using * by auto
  have id: "(ac_Validated ac \<or> DevMode getenv) \<and> ma_AgentID mac \<in> {header ''X-Agent-Id'', header ''X-Tenant-Id''} \<and>
      ma_AgentID mac \<noteq> []"
    using *(2) m(1) by (auto simp: mcpIdentity_def Let_def split: if_splits)
  then show "ac_Validated ac \<or> DevMode getenv" by blast
  show "\<exists>ma. iv_auth iv = Some ma \<and> ma_AgentID ma \<in> {header ''X-Agent-Id'', header ''X-Tenant-Id''} \<and> ma_AgentID ma \<noteq> []"
    using id * m(1) by auto
  have "\<forall>d'. d = Some d' \<longrightarrow> d_Verdict d' = Allow" using *(8) verdict.exhaust by (auto split: option.splits)
  then show "\<exists>p. jc_params jc (rq_Params req) = Some p \<and> Tool_Get (ms_registry s) (tp_Name p) = Some (iv_tool iv) \<and>
       iv_args iv = tp_Arguments p \<and> (\<exists>s1. govCheck ops jc now (iv_auth iv) (iv_tool iv) p s =
          (fst (govCheck ops jc now (iv_auth iv) (iv_tool iv) p s), s1) \<and>
          runTool ops jc req (iv_auth iv) (iv_tool iv) p s1 = (resp, s') \<and>
          (\<forall>d. fst (govCheck ops jc now (iv_auth iv) (iv_tool iv) p s) = Some d \<longrightarrow> d_Verdict d = Allow))"
    using * by auto
qed

end

definition tierView :: "clearanceMem \<Rightarrow> string \<Rightarrow> int option" where
  "tierView s a = (if a = [] then None else case mget (cl_agents s) a of Some t \<Rightarrow> Some t
     | None \<Rightarrow> if cl_failClosed s then None else Some (cl_defaultTier s))"

interpretation memClear: clearance_store GetClearance tierView
  by unfold_locales (auto simp: GetClearance_def tierView_def split: option.splits if_splits)

interpretation toolReg: keyed_store Tool_Get "\<lambda>k t. mput k t" mdel gwf
  by unfold_locales (simp_all add: Tool_Get_def)

lemma handleRPC_invokes:
  assumes "handleRPC ops gc jc getenv now ac header httpMethod body s = (resp, s', Some iv)"
  shows "\<exists>b req. httpMethod = ''POST'' \<and> body = BodyRead b \<and> jc_request jc b = Some req \<and> rq_Method req = ''tools/call'' \<and>
    handleToolsCall ops gc jc getenv now ac header req s = (resp, s', Some iv)"
  using assms unfolding handleRPC_def
  by (auto simp: handleInitialize_def split: if_splits bodyRead.splits option.splits)

lemma govCheck_engine:
  assumes "ms_govEngine s = Some e" "govCheck ops jc now (Some ma) tool p s = (d, s1)"
  shows "\<exists>dec e1. Check ops now (ma_AgentID ma) (tp_Name p) (case jc_args jc (tp_Arguments p) of Some as \<Rightarrow> as | None \<Rightarrow> [])
      (Some (toolCategory tool)) e = (dec, e1) \<and> d = Some dec \<and> ms_govEngine s1 = Some e1"
  using assms by (auto simp: govCheck_def Let_def split: prod.splits)

lemma runTool_engine:
  assumes "ms_govEngine s1 = Some e1" "runTool ops jc req (Some ma) tool p s1 = (resp, s')"
  shows "\<exists>success. ms_govEngine s' = Some (RecordResult ops (ma_AgentID ma) success e1) \<and>
    (success \<longleftrightarrow> (\<exists>h r. tl_Handler tool = Some h \<and> h (Some ma) (tp_Arguments p) = Inr r))"
  using assms by (auto simp: runTool_def govRecord_def split: option.splits sum.splits)

lemma Check_action_default: "Check ops now a name as (Some CategoryAction) e = Check ops now a name as None e"
proof -
  have "checkCategory (Some CategoryAction) = checkCategory None" by (simp add: checkCategory_def)
  then show ?thesis by (simp only: Check_def)
qed

lemma Check_None_identity: "mcpIdentity False header = Inr ma \<Longrightarrow> ma = None"
  by (auto simp: mcpIdentity_def Let_def split: if_splits)

lemma untrusted_no_call:
  assumes "\<not> ac_Validated ac" "\<not> DevMode getenv"
  shows "snd (snd (handleToolsCall ops gc jc getenv now ac header req s)) = None \<and>
         fst (snd (handleToolsCall ops gc jc getenv now ac header req s)) = s"
proof (cases "mcpIdentity False header")
  case (Inr ma)
  then have "ma = None" by (rule Check_None_identity)
  with Inr assms show ?thesis
    by (auto simp: handleToolsCall_def AuthorizeToolCall_def split: option.split)
qed (use assms in \<open>auto simp: handleToolsCall_def\<close>)

subsubsection \<open>Sample server\<close>

definition sampleTool :: tool where
  "sampleTool = \<lparr>tl_Name = ''restart'', tl_Description = [], tl_InputSchema = [], tl_Handler = Some (\<lambda>_ _. Inr JNull),
     tl_MinClearance = 1, tl_Static = True, tl_Category = []\<rparr>"

definition sampleCodec :: jsonCodec where
  "sampleCodec = \<lparr>jc_request = (\<lambda>b. Some \<lparr>rq_JSONRPC = ''2.0'', rq_ID = ''1'', rq_Method = ''tools/call'', rq_Params = b\<rparr>),
     jc_params = (\<lambda>n. Some \<lparr>tp_Name = n, tp_Arguments = []\<rparr>), jc_args = (\<lambda>_. None), jc_marshal = (\<lambda>_. Some ''null'')\<rparr>"

definition sampleServer :: "(clearanceMem, tsMap, tsMap, govBreaker) mcpServer" where
  "sampleServer = (NewServer ''v'' [(''restart'', sampleTool)]
     (Some (NewInMemoryClearanceStore [WithAgents [(''ops'', 2)]])) (Some (NewEngineFromConfig sampleConfig)))\<lparr>ms_initialized := True\<rparr>"

definition sampleHeader :: "string \<Rightarrow> string" where
  "sampleHeader h = (if h = ''X-Agent-Id'' then ''ops'' else [])"

lemma sample_call:
  "\<exists>resp s' iv. handleRPC inMemoryOps GetClearance sampleCodec (\<lambda>_. []) 10 (emptyAuthContext\<lparr>ac_Validated := True\<rparr>) sampleHeader
     ''POST'' (BodyRead ''restart'') sampleServer = (resp, s', Some iv)"
proof -
  obtain e' where c: "Check inMemoryOps 10 ''ops'' ''restart'' [] (Some ''action'') (NewEngineFromConfig sampleConfig) = (allowed, e')"
    using sample_Check by (auto simp: Check_action_default)
  have "govCheck inMemoryOps sampleCodec 10 (Some \<lparr>ma_AgentID = ''ops'', ma_TenantID = []\<rparr>) sampleTool
      \<lparr>tp_Name = ''restart'', tp_Arguments = []\<rparr> sampleServer = (Some allowed, sampleServer\<lparr>ms_govEngine := Some e'\<rparr>)"
    by (simp add: govCheck_def sampleServer_def NewServer_def sampleCodec_def toolCategory_def sampleTool_def c)
  moreover have "AuthorizeToolCall GetClearance (Some \<lparr>ma_AgentID = ''ops'', ma_TenantID = []\<rparr>) sampleTool
      (NewInMemoryClearanceStore [WithAgents [(''ops'', 2)]]) = None"
    by (simp add: AuthorizeToolCall_def GetClearance_def NewInMemoryClearanceStore_def WithAgents_def sampleTool_def mget_def mput_def)
  moreover have "mcpIdentity True sampleHeader = Inr (Some \<lparr>ma_AgentID = ''ops'', ma_TenantID = []\<rparr>)"
    by (simp add: mcpIdentity_def sampleHeader_def)
  moreover have "ms_initialized sampleServer" "Tool_Get (ms_registry sampleServer) ''restart'' = Some sampleTool"
    "ms_clearanceStore sampleServer = Some (NewInMemoryClearanceStore [WithAgents [(''ops'', 2)]])"
    by (simp_all add: sampleServer_def NewServer_def Tool_Get_def mget_def)
  ultimately show ?thesis
    by (simp add: handleRPC_def handleToolsCall_def sampleCodec_def split: prod.split)
qed

subsection \<open>Properties\<close>

text \<open>C19. A tool handler runs only when authorised. If a request makes the MCP server run a tool handler, it is a POST of a
  tools/call request, the server has been initialised, the identity headers are trusted (validated credentials or dev mode),
  the agent they name has a clearance tier of at least the minimum of the tool, the tool is the registered tool of the name in
  the request and runs on the arguments of the request; and if a governance engine is loaded, it allowed this agent to call
  this tool with exactly these arguments (decoded, or none when they are no JSON object). Without an engine there is no
  governance check. The targets that the tool invoke_tool runs are not checked by the engine: it only sees the call of
  invoke_tool.\<close>
theorem mcp_tool_run_authorized:
  assumes "handleRPC ops GetClearance jc getenv now ac header httpMethod body s = (resp, s', Some iv)"
  shows "ms_initialized s \<and> (ac_Validated ac \<or> DevMode getenv) \<and>
    (\<exists>b req p st ma t. httpMethod = ''POST'' \<and> body = BodyRead b \<and> jc_request jc b = Some req \<and> rq_Method req = ''tools/call'' \<and>
       jc_params jc (rq_Params req) = Some p \<and> Tool_Get (ms_registry s) (tp_Name p) = Some (iv_tool iv) \<and> iv_args iv = tp_Arguments p \<and>
       ms_clearanceStore s = Some st \<and> iv_auth iv = Some ma \<and> ma_AgentID ma \<noteq> [] \<and>
       ma_AgentID ma \<in> {header ''X-Agent-Id'', header ''X-Tenant-Id''} \<and>
       tierView st (ma_AgentID ma) = Some t \<and> tl_MinClearance (iv_tool iv) \<le> t \<and>
       (case ms_govEngine s of None \<Rightarrow> True
        | Some e \<Rightarrow> d_Verdict (fst (Check ops now (ma_AgentID ma) (tp_Name p) (case jc_args jc (iv_args iv) of Some as \<Rightarrow> as | None \<Rightarrow> [])
                     (Some (toolCategory (iv_tool iv))) e)) = Allow))"
proof -
  obtain b req where h: "handleToolsCall ops GetClearance jc getenv now ac header req s = (resp, s', Some iv)"
    and b: "httpMethod = ''POST''" "body = BodyRead b" "jc_request jc b = Some req" "rq_Method req = ''tools/call''"
    using handleRPC_invokes[OF assms] by blast
  note c = memClear.call_invokes[OF h]
  from c(3,4) obtain st ma t where m: "ms_clearanceStore s = Some st" "iv_auth iv = Some ma" "ma_AgentID ma \<noteq> []"
    "ma_AgentID ma \<in> {header ''X-Agent-Id'', header ''X-Tenant-Id''}"
    "tierView st (ma_AgentID ma) = Some t" "tl_MinClearance (iv_tool iv) \<le> t" by auto
  from c(5) obtain p where p: "jc_params jc (rq_Params req) = Some p" "Tool_Get (ms_registry s) (tp_Name p) = Some (iv_tool iv)"
    "iv_args iv = tp_Arguments p"
    "\<forall>d. fst (govCheck ops jc now (iv_auth iv) (iv_tool iv) p s) = Some d \<longrightarrow> d_Verdict d = Allow" by blast
  have "d_Verdict (fst (Check ops now (ma_AgentID ma) (tp_Name p) (case jc_args jc (iv_args iv) of Some as \<Rightarrow> as | None \<Rightarrow> [])
      (Some (toolCategory (iv_tool iv))) e)) = Allow" if "ms_govEngine s = Some e" for e
    using govCheck_engine[OF that, of ops jc now ma "iv_tool iv" p] p(3,4) m(2)
    by (metis fst_conv prod.collapse)
  then have "case ms_govEngine s of None \<Rightarrow> True
        | Some e \<Rightarrow> d_Verdict (fst (Check ops now (ma_AgentID ma) (tp_Name p) (case jc_args jc (iv_args iv) of Some as \<Rightarrow> as | None \<Rightarrow> [])
                     (Some (toolCategory (iv_tool iv))) e)) = Allow" by (simp split: option.split)
  with c(1,2) b m p(1-3) show ?thesis by blast
qed

theorem mcp_tool_run_authorized_witness:
  "\<exists>st (ma :: mcpAuthContext) t. ms_clearanceStore sampleServer = Some st \<and> tierView st (ma_AgentID ma) = Some t \<and>
     ma_AgentID ma \<noteq> []"
proof -
  from sample_call obtain resp s' iv where "handleRPC inMemoryOps GetClearance sampleCodec (\<lambda>_. []) 10
     (emptyAuthContext\<lparr>ac_Validated := True\<rparr>) sampleHeader ''POST'' (BodyRead ''restart'') sampleServer = (resp, s', Some iv)" by blast
  from mcp_tool_run_authorized[OF this] show ?thesis by blast
qed

text \<open>Every tool run is reported to the circuit breaker exactly once: after a request that ran a tool, the
  engine is the one left by the governance check with a single RecordResult for the calling agent, a success exactly
  when the handler returned no error.\<close>

theorem mcp_result_recorded_once:
  assumes "handleRPC ops GetClearance jc getenv now ac header httpMethod body s = (resp, s', Some iv)" "ms_govEngine s = Some e"
  shows "\<exists>ma name as success. iv_auth iv = Some ma \<and>
    ms_govEngine s' = Some (RecordResult ops (ma_AgentID ma) success
      (snd (Check ops now (ma_AgentID ma) name as (Some (toolCategory (iv_tool iv))) e))) \<and>
    (success \<longleftrightarrow> (\<exists>h r. tl_Handler (iv_tool iv) = Some h \<and> h (Some ma) (iv_args iv) = Inr r))"
proof -
  obtain req where h: "handleToolsCall ops GetClearance jc getenv now ac header req s = (resp, s', Some iv)"
    using handleRPC_invokes[OF assms(1)] by blast
  note c = memClear.call_invokes[OF h]
  from c(4) obtain ma where ma: "iv_auth iv = Some ma" by blast
  from c(5) obtain p s1 where p: "iv_args iv = tp_Arguments p" "govCheck ops jc now (Some ma) (iv_tool iv) p s =
      (fst (govCheck ops jc now (Some ma) (iv_tool iv) p s), s1)" "runTool ops jc req (Some ma) (iv_tool iv) p s1 = (resp, s')"
    unfolding ma by blast
  define as where "as = (case jc_args jc (tp_Arguments p) of Some as \<Rightarrow> as | None \<Rightarrow> [])"
  from govCheck_engine[OF assms(2) p(2), folded as_def] obtain dec e1 where
    g: "Check ops now (ma_AgentID ma) (tp_Name p) as (Some (toolCategory (iv_tool iv))) e = (dec, e1)" "ms_govEngine s1 = Some e1"
    by blast
  from runTool_engine[OF g(2) p(3)] obtain success where
    "ms_govEngine s' = Some (RecordResult ops (ma_AgentID ma) success e1)"
    "success \<longleftrightarrow> (\<exists>h r. tl_Handler (iv_tool iv) = Some h \<and> h (Some ma) (iv_args iv) = Inr r)" unfolding p(1) by blast
  then show ?thesis
    by (intro exI[of _ ma] exI[of _ "tp_Name p"] exI[of _ as] exI[of _ success]) (simp add: g(1) ma)
qed

theorem mcp_result_recorded_once_witness:
  "\<exists>(s' :: (clearanceMem, tsMap, tsMap, govBreaker) mcpServer) (ma :: mcpAuthContext) name as success. ms_govEngine s' = Some (RecordResult inMemoryOps (ma_AgentID ma) success
     (snd (Check inMemoryOps 10 (ma_AgentID ma) name as (Some ''action'') (NewEngineFromConfig sampleConfig))))"
proof -
  from sample_call obtain resp s' iv where c: "handleRPC inMemoryOps GetClearance sampleCodec (\<lambda>_. []) 10
     (emptyAuthContext\<lparr>ac_Validated := True\<rparr>) sampleHeader ''POST'' (BodyRead ''restart'') sampleServer = (resp, s', Some iv)" by blast
  have e: "ms_govEngine sampleServer = Some (NewEngineFromConfig sampleConfig)" by (simp add: sampleServer_def NewServer_def)
  obtain name where "Tool_Get (ms_registry sampleServer) name = Some (iv_tool iv)"
    using handleRPC_invokes[OF c] memClear.call_invokes(5) by metis
  then have "iv_tool iv = sampleTool"
    by (simp add: sampleServer_def NewServer_def Tool_Get_def mget_def split: if_splits)
  then have cat: "toolCategory (iv_tool iv) = ''action''" by (simp add: toolCategory_def sampleTool_def)
  from mcp_result_recorded_once[OF c e, unfolded cat] show ?thesis by blast
qed

text \<open>Outside dev mode the server that NewServer builds never runs a tool: its handler chain has no
  authentication middleware, so no request reaches it with validated credentials; whatever the headers, every
  tools/call is answered without running a handler and without changing the server.\<close>

theorem mcp_inert_in_production:
  assumes "\<not> DevMode getenv"
  shows "snd (snd (serveMCP ops gc jc getenv now header httpMethod body s)) = None"
proof (cases "snd (snd (serveMCP ops gc jc getenv now header httpMethod body s))")
  case (Some iv)
  then obtain resp s' where "handleRPC ops gc jc getenv now emptyAuthContext header httpMethod body s = (resp, s', Some iv)"
    by (metis prod.collapse serveMCP_def)
  from handleRPC_invokes[OF this] obtain req where
    h: "handleToolsCall ops gc jc getenv now emptyAuthContext header req s = (resp, s', Some iv)" by blast
  have "\<not> ac_Validated emptyAuthContext" by (simp add: emptyAuthContext_def)
  from untrusted_no_call[OF this assms, of ops gc jc now header req s] h show ?thesis by simp
qed

theorem mcp_inert_in_production_witness:
  "snd (snd (serveMCP inMemoryOps GetClearance sampleCodec (\<lambda>_. []) 10 sampleHeader ''POST'' (BodyRead ''restart'') sampleServer)) = None"
  by (rule mcp_inert_in_production) (simp add: DevMode_def)

text \<open>The facet list does not depend on Go's map iteration order: two registries with the same entries, in
  whatever order, give the same list, sorted by name and with every registered facet exactly once.\<close>

theorem Facet_List_deterministic:
  assumes "gwf r" "gwf r'" "set r = set r'" "\<forall>(k, f)\<in>set r. k = fc_Name f"
  shows "Facet_List r = Facet_List r' \<and> sorted (map fc_Name (Facet_List r)) \<and> mset (Facet_List r) = mset (map snd r)"
proof -
  have d: "distinct r" "distinct r'" using assms(1,2) by (auto simp: gwf_def distinct_map)
  then have "mset r = mset r'" using assms(3) by (simp add: set_eq_iff_mset_eq_distinct)
  then have m: "mset (map snd r) = mset (map snd r')" by simp
  have inj: "inj_on fc_Name (set (map snd r))"
  proof (rule inj_onI)
    fix x y assume xy: "x \<in> set (map snd r)" "y \<in> set (map snd r)" "fc_Name x = fc_Name y"
    have "mget r (fc_Name z) = Some z" if z: "z \<in> set (map snd r)" for z
    proof -
      from z obtain k where k: "(k, z) \<in> set r" by auto
      with bspec[OF assms(4) k] show ?thesis by (simp add: mget_iff[OF assms(1)])
    qed
    from this[OF xy(1)] this[OF xy(2)] show "x = y" unfolding xy(3) by (metis option.inject)
  qed
  have "sort_key fc_Name (map snd r) = sort_key fc_Name (map snd r')"
    by (rule sort_key_inj_key_eq) (use m inj in simp_all)
  then show ?thesis using m by (simp add: Facet_List_def)
qed

theorem Facet_List_deterministic_witness: "Facet_List NewFacetRegistry = Facet_List (rev NewFacetRegistry)"
proof -
  have r: "NewFacetRegistry = map (\<lambda>f. (fc_Name f, f)) defaultFacets"
    by (simp add: NewFacetRegistry_def defaultFacets_def mput_def)
  have "distinct (map fc_Name defaultFacets)" by (simp add: defaultFacets_def)
  then have "gwf NewFacetRegistry" "gwf (rev NewFacetRegistry)" by (simp_all add: r gwf_def comp_def rev_map[symmetric])
  moreover have "\<forall>(k, f)\<in>set NewFacetRegistry. k = fc_Name f" by (auto simp: r)
  ultimately show ?thesis using Facet_List_deterministic[of NewFacetRegistry "rev NewFacetRegistry"] by simp
qed

end
