(* ===== verification/Run_Store.thy ===== *)
theory Run_Store
  imports AgentOS_Prelude "HOL-Library.List_Lexorder" "HOL-Library.Char_ord" "HOL-Library.Multiset"
begin

text \<open>
  The file-backed run store and event log (internal/storage/file_run_store.go, run_store.go, event_log_store.go) and
  the run and event types they hold (internal/types/stacka.go).

  \<^item> A store is its in-memory map, its access order and the content of its file; a write takes the error the file
    system reports as an argument. Memory is changed before the file is written, as in the code.
  \<^item> \<open>storageKey\<close> is built with \<open>filepath.Join\<close>, whose cleaning of dot segments is modelled (\<open>joinPath\<close>): two pairs of
    identifiers get different keys when the identifiers are plain names.
  \<^item> sort.Slice leaves the order of equal elements open; the model sorts stably, and the results about listings hold for every
    iteration order of the map, hence for every order of equal elements.
  \<^item> The locale \<open>run_store\<close> is the contract of the \<open>RunStore\<close> port that the run handlers rely on; it is interpreted on
    the file store.
\<close>

subsection \<open>Paths\<close>

fun cleanSegs :: "bool \<Rightarrow> string list \<Rightarrow> string list \<Rightarrow> string list" where
  "cleanSegs rooted stack [] = rev stack"
| "cleanSegs rooted stack (s # ss) =
     (if s = [] \<or> s = ''.'' then cleanSegs rooted stack ss
      else if s = ''..''
      then (case stack of
              [] \<Rightarrow> cleanSegs rooted (if rooted then [] else [''..'']) ss
            | up # rest \<Rightarrow> if up = ''..'' then cleanSegs rooted (''..'' # stack) ss else cleanSegs rooted rest ss)
      else cleanSegs rooted (s # stack) ss)"

definition joinPath :: "string list \<Rightarrow> string" where
  "joinPath elems =
     (let es = filter (\<lambda>e. e \<noteq> []) elems in
      if es = [] then []
      else
        let rooted = HasPrefix (hd es) ''/'';
            segs = cleanSegs rooted [] (concat (map (splitByte CHR ''/'') es)) in
        if segs = [] then (if rooted then ''/'' else ''.'')
        else (if rooted then ''/'' else []) @ joinByte CHR ''/'' segs)"

definition storageKey :: "string \<Rightarrow> string \<Rightarrow> string" where
  "storageKey tenantID runID = joinPath [''tenant'', tenantID, ''runs'', runID]"

text \<open>Identifiers without separators and dot segments.\<close>

definition plainName :: "string \<Rightarrow> bool" where
  "plainName s \<longleftrightarrow> s \<noteq> [] \<and> s \<noteq> ''.'' \<and> s \<noteq> ''..'' \<and> CHR ''/'' \<notin> set s"

subsection \<open>Runs\<close>

record runInput =
  ri_Type :: string
  ri_Text :: string

record runOptions =
  ro_Priority :: string
  ro_TimeoutMs :: int
  ro_MaxSteps :: int
  ro_StreamEvents :: bool

record runOutput =
  rout_Type :: string
  rout_Text :: string
  rout_Artifacts :: "(string, json) gomap list"

record runError =
  rer_Code :: string
  rer_Message :: string
  rer_Details :: "(string, json) gomap"

record run =
  run_TenantID :: string
  run_AgentID :: string
  run_RunID :: string
  run_Status :: string
  run_CreatedAt :: string
  run_StartedAt :: string
  run_CompletedAt :: string
  run_EventsURL :: string
  run_Input :: runInput
  run_RunOptions :: runOptions
  run_Output :: "runOutput option"
  run_Error :: "runError option"
  run_IdempotencyKey :: string
  run_RetryOf :: string
  run_ParentRunID :: string

datatype runErr = ErrRunExists | ErrInvalidRun | ErrCtx string | ErrIO string

subsection \<open>The file run store\<close>

definition maxRunsInRunStore :: nat where "maxRunsInRunStore = 5000"

record fileRunStore =
  fr_runs :: "(string, run) gomap"
  fr_runOrder :: "string list"
  fr_disk :: "(string, run) gomap option"

definition validateRun :: "run \<Rightarrow> bool" where
  "validateRun r \<longleftrightarrow> run_TenantID r \<noteq> [] \<and> run_RunID r \<noteq> []"

definition touchOrder :: "string \<Rightarrow> string list \<Rightarrow> string list" where
  "touchOrder key order = (case remove_first (\<lambda>k. k = key) order of Some o' \<Rightarrow> o' | None \<Rightarrow> order) @ [key]"

fun evictRuns :: "string list \<Rightarrow> (string, run) gomap \<Rightarrow> string list \<times> (string, run) gomap" where
  "evictRuns [] runs = ([], runs)"
| "evictRuns (oldest # order) runs =
     (if length runs > maxRunsInRunStore then evictRuns order (mdel oldest runs) else (oldest # order, runs))"

definition evictStore :: "fileRunStore \<Rightarrow> fileRunStore" where
  "evictStore s = (let (order, runs) = evictRuns (fr_runOrder s) (fr_runs s) in s\<lparr>fr_runOrder := order, fr_runs := runs\<rparr>)"

definition persistRuns :: "string option \<Rightarrow> fileRunStore \<Rightarrow> runErr option \<times> fileRunStore" where
  "persistRuns io s = (case io of Some e \<Rightarrow> (Some (ErrIO e), s) | None \<Rightarrow> (None, s\<lparr>fr_disk := Some (fr_runs s)\<rparr>))"

datatype runsFile = NoFile | ReadError string | EmptyFile | BadJSON string | RunsFile "(string, run) gomap"

definition loadRuns :: "runsFile \<Rightarrow> runErr + fileRunStore" where
  "loadRuns file =
     (case file of
        ReadError e \<Rightarrow> Inl (ErrIO e)
      | BadJSON e \<Rightarrow> Inl (ErrIO e)
      | RunsFile persisted \<Rightarrow>
          Inr (evictStore \<lparr>fr_runs = persisted, fr_runOrder = map fst persisted, fr_disk = Some persisted\<rparr>)
      | _ \<Rightarrow> Inr \<lparr>fr_runs = [], fr_runOrder = [], fr_disk = None\<rparr>)"

definition putRun :: "run \<Rightarrow> fileRunStore \<Rightarrow> fileRunStore" where
  "putRun r s =
     (let key = storageKey (run_TenantID r) (run_RunID r) in
      evictStore (s\<lparr>fr_runs := mput key r (fr_runs s), fr_runOrder := touchOrder key (fr_runOrder s)\<rparr>))"

definition Run_Create :: "string option \<Rightarrow> string option \<Rightarrow> run \<Rightarrow> fileRunStore \<Rightarrow> runErr option \<times> fileRunStore" where
  "Run_Create ctx io r s =
     (case ctx of Some e \<Rightarrow> (Some (ErrCtx e), s)
      | None \<Rightarrow>
          if \<not> validateRun r then (Some ErrInvalidRun, s)
          else if mget (fr_runs s) (storageKey (run_TenantID r) (run_RunID r)) \<noteq> None then (Some ErrRunExists, s)
          else persistRuns io (putRun r s))"

definition Run_Save :: "string option \<Rightarrow> string option \<Rightarrow> run \<Rightarrow> fileRunStore \<Rightarrow> runErr option \<times> fileRunStore" where
  "Run_Save ctx io r s =
     (case ctx of Some e \<Rightarrow> (Some (ErrCtx e), s)
      | None \<Rightarrow> if \<not> validateRun r then (Some ErrInvalidRun, s) else persistRuns io (putRun r s))"

definition Run_Get :: "string option \<Rightarrow> string \<Rightarrow> string \<Rightarrow> fileRunStore \<Rightarrow> (runErr + run option) \<times> fileRunStore" where
  "Run_Get ctx tenantID runID s =
     (case ctx of Some e \<Rightarrow> (Inl (ErrCtx e), s)
      | None \<Rightarrow>
          if tenantID = [] \<or> runID = [] then (Inr None, s)
          else
            let key = storageKey tenantID runID in
            case mget (fr_runs s) key of
              Some r \<Rightarrow> (Inr (Some r), s\<lparr>fr_runOrder := touchOrder key (fr_runOrder s)\<rparr>)
            | None \<Rightarrow> (Inr None, s))"

definition GetByIdempotencyKey :: "string option \<Rightarrow> string \<Rightarrow> string \<Rightarrow> fileRunStore \<Rightarrow> runErr + run option" where
  "GetByIdempotencyKey ctx tenantID ikey s =
     (case ctx of Some e \<Rightarrow> Inl (ErrCtx e)
      | None \<Rightarrow>
          if tenantID = [] \<or> ikey = [] then Inr None
          else Inr (find (\<lambda>r. run_TenantID r = tenantID \<and> run_IdempotencyKey r = ikey) (map snd (fr_runs s))))"

definition sortNewest :: "run list \<Rightarrow> run list" where
  "sortNewest rs = rev (sort_key run_CreatedAt (rev rs))"

definition Run_List :: "string option \<Rightarrow> string \<Rightarrow> fileRunStore \<Rightarrow> runErr + run list" where
  "Run_List ctx tenantID s =
     (case ctx of Some e \<Rightarrow> Inl (ErrCtx e)
      | None \<Rightarrow> if tenantID = [] then Inr []
                else Inr (sortNewest (filter (\<lambda>r. run_TenantID r = tenantID) (map snd (fr_runs s)))))"

definition clampLimit :: "int \<Rightarrow> int" where
  "clampLimit limit = (let l = (if limit \<le> 0 then 50 else limit) in if l > 200 then 200 else l)"

fun dropAfter :: "string \<Rightarrow> run list \<Rightarrow> run list option" where
  "dropAfter rid [] = None"
| "dropAfter rid (r # rs) = (if run_RunID r = rid then Some rs else dropAfter rid rs)"

definition agentRuns :: "string \<Rightarrow> string \<Rightarrow> fileRunStore \<Rightarrow> run list" where
  "agentRuns tenantID agentID s =
     sortNewest (filter (\<lambda>r. run_TenantID r = tenantID \<and> run_AgentID r = agentID) (map snd (fr_runs s)))"

definition ListByAgent ::
  "string option \<Rightarrow> string \<Rightarrow> string \<Rightarrow> int \<Rightarrow> string \<Rightarrow> fileRunStore \<Rightarrow> runErr + run list" where
  "ListByAgent ctx tenantID agentID limit afterRunID s =
     (case ctx of Some e \<Rightarrow> Inl (ErrCtx e)
      | None \<Rightarrow>
          if tenantID = [] \<or> agentID = [] then Inr []
          else
            let runs = agentRuns tenantID agentID s in
            case (if afterRunID \<noteq> [] then dropAfter afterRunID runs else Some runs) of
              None \<Rightarrow> Inr []
            | Some rest \<Rightarrow> Inr (take (nat (clampLimit limit)) rest))"

definition ListChildRuns :: "string option \<Rightarrow> string \<Rightarrow> string \<Rightarrow> fileRunStore \<Rightarrow> runErr + run list" where
  "ListChildRuns ctx tenantID parentRunID s =
     (case ctx of Some e \<Rightarrow> Inl (ErrCtx e)
      | None \<Rightarrow> if tenantID = [] \<or> parentRunID = [] then Inr []
                else Inr (filter (\<lambda>r. run_TenantID r = tenantID \<and> (run_RetryOf r = parentRunID \<or> run_ParentRunID r = parentRunID))
                            (map snd (fr_runs s))))"

text \<open>
  A client that follows the cursor: each page is asked with the identifier of the last run received. The argument
  \<open>ss n\<close> is the store as the request with \<open>n\<close> requests left sees it: the same runs, iterated in an order of its own.
\<close>

fun followPages :: "nat \<Rightarrow> string \<Rightarrow> string \<Rightarrow> int \<Rightarrow> string \<Rightarrow> (nat \<Rightarrow> fileRunStore) \<Rightarrow> run list" where
  "followPages 0 t a limit cursor ss = []"
| "followPages (Suc n) t a limit cursor ss =
     (case ListByAgent None t a limit cursor (ss n) of
        Inl _ \<Rightarrow> []
      | Inr page \<Rightarrow> if page = [] then [] else page @ followPages n t a limit (run_RunID (last page)) ss)"

inductive run_store_step :: "fileRunStore \<Rightarrow> fileRunStore \<Rightarrow> bool" where
  rs_create: "run_store_step s (snd (Run_Create ctx io r s))"
| rs_save: "run_store_step s (snd (Run_Save ctx io r s))"
| rs_get: "run_store_step s (snd (Run_Get ctx t i s))"

inductive_cases run_store_stepE: "run_store_step s s'"

definition keyedRuns :: "(string, run) gomap \<Rightarrow> bool" where
  "keyedRuns m \<longleftrightarrow> gwf m \<and> (\<forall>(k, r) \<in> set m. k = storageKey (run_TenantID r) (run_RunID r) \<and> validateRun r)"

definition storeInv :: "fileRunStore \<Rightarrow> bool" where
  "storeInv s \<longleftrightarrow> keyedRuns (fr_runs s) \<and> distinct (fr_runOrder s) \<and> set (fr_runOrder s) = fst ` set (fr_runs s) \<and>
     length (fr_runs s) \<le> maxRunsInRunStore"

definition loadedStore :: "fileRunStore \<Rightarrow> bool" where
  "loadedStore s \<longleftrightarrow> (\<exists>file. loadRuns file = Inr s \<and> (\<forall>m. file = RunsFile m \<longrightarrow> keyedRuns m))"

definition runView :: "fileRunStore \<Rightarrow> string \<Rightarrow> string \<Rightarrow> run option" where
  "runView s t i = mget (fr_runs s) (storageKey t i)"

subsection \<open>The event log\<close>

record traceContext =
  tc_Traceparent :: string
  tc_SpanID :: string
  tc_Tracestate :: string

record event =
  ev_EventID :: string
  ev_Sequence :: int
  ev_Time :: string
  ev_Type :: string
  ev_TenantID :: string
  ev_AgentID :: string
  ev_RunID :: string
  ev_StepID :: string
  ev_Trace :: traceContext
  ev_Payload :: "(string, json) gomap"

definition maxRunsInMemory :: nat where "maxRunsInMemory = 1000"

record eventLogStore =
  el_runs :: "(string, event list) gomap"
  el_runOrder :: "string list"
  el_disk :: "(string, event list) gomap"

definition runKey :: "string \<Rightarrow> string \<Rightarrow> string" where
  "runKey tenantID runID = tenantID @ ''/'' @ runID"

fun evictEvents :: "string list \<Rightarrow> (string, event list) gomap \<Rightarrow> (string list \<times> (string, event list) gomap) option" where
  "evictEvents [] runs = (if length runs > maxRunsInMemory then None else Some ([], runs))"
| "evictEvents (oldest # order) runs =
     (if length runs > maxRunsInMemory then evictEvents order (mdel oldest runs) else Some (oldest # order, runs))"

definition EventLog_Append :: "string option \<Rightarrow> event \<Rightarrow> eventLogStore \<Rightarrow> (runErr option \<times> eventLogStore) option" where
  "EventLog_Append io e s =
     (let key = runKey (ev_TenantID e) (ev_RunID e);
          order = (if mget (el_runs s) key = None then el_runOrder s @ [key] else el_runOrder s);
          runs = mput key (zget [] (el_runs s) key @ [e]) (el_runs s) in
      case evictEvents order runs of
        None \<Rightarrow> None
      | Some (order', runs') \<Rightarrow>
          Some (case io of
            Some err \<Rightarrow> (Some (ErrIO err), s\<lparr>el_runs := runs', el_runOrder := order'\<rparr>)
          | None \<Rightarrow> (None, s\<lparr>el_runs := runs', el_runOrder := order',
                            el_disk := mput key (zget [] runs' key) (el_disk s)\<rparr>)))"

definition QueryFromSequence :: "string \<Rightarrow> string \<Rightarrow> int \<Rightarrow> eventLogStore \<Rightarrow> event list" where
  "QueryFromSequence tenantID runID afterSequence s =
     (let events = zget [] (el_runs s) (runKey tenantID runID) in
      if afterSequence \<le> 0 then events else filter (\<lambda>e. ev_Sequence e > afterSequence) events)"

text \<open>A sequence of appends, each with the outcome of its file write; \<open>None\<close> is an index panic in the eviction loop.\<close>

fun appendAll :: "(string option \<times> event) list \<Rightarrow> eventLogStore \<Rightarrow> eventLogStore option" where
  "appendAll [] s = Some s"
| "appendAll ((io, e) # es) s =
     (case EventLog_Append io e s of None \<Rightarrow> None | Some (_, s') \<Rightarrow> appendAll es s')"

definition NewFileEventLogStore :: eventLogStore where
  "NewFileEventLogStore = \<lparr>el_runs = [], el_runOrder = [], el_disk = []\<rparr>"

definition logInv :: "eventLogStore \<Rightarrow> bool" where
  "logInv s \<longleftrightarrow> gwf (el_runs s) \<and> distinct (el_runOrder s) \<and> set (el_runOrder s) = fst ` set (el_runs s) \<and>
     length (el_runs s) \<le> maxRunsInMemory"

subsection \<open>Eviction and access order\<close>

lemma fold_mdel_set: "set (fold mdel ks m) = {e \<in> set m. fst e \<notin> set ks}"
  by (induction ks arbitrary: m) (auto simp: set_mdel)

lemma fold_mdel_gwf [simp]: "gwf m \<Longrightarrow> gwf (fold mdel ks m)"
  by (induction ks arbitrary: m) auto

lemma fold_mdel_get: "mget (fold mdel ks m) k = (if k \<in> set ks then None else mget m k)"
  by (induction ks arbitrary: m) auto

lemma order_length:
  assumes "gwf m" "distinct order" "set order = fst ` set m"
  shows "length order = length m"
  using assms by (metis distinct_card gwf_def length_map list.set_map)

lemma fold_mdel_length:
  assumes "gwf m" "distinct order" "set order = fst ` set m"
  shows "length (fold mdel (take n order) m) = length m - n"
proof -
  have keys: "fst ` set (fold mdel (take n order) m) = set (drop n order)"
  proof -
    have "set order = set (take n order) \<union> set (drop n order)" "set (take n order) \<inter> set (drop n order) = {}"
      using assms(2) by (metis append_take_drop_id set_append)
        (metis append_take_drop_id assms(2) distinct_append)
    then have "set (drop n order) = fst ` set m - set (take n order)" using assms(3) by auto
    then show ?thesis by (force simp: fold_mdel_set)
  qed
  then have "length (drop n order) = length (fold mdel (take n order) m)"
    by (intro order_length) (use assms in \<open>auto simp: keys\<close>)
  with order_length[OF assms] show ?thesis by simp
qed

lemma remove_first_filter:
  "distinct xs \<Longrightarrow> remove_first (\<lambda>x. x = k) xs = Some ys \<Longrightarrow> ys = filter (\<lambda>x. x \<noteq> k) xs"
  by (induction xs arbitrary: ys) (auto intro!: filter_True[symmetric])

lemma touchOrder_filter:
  assumes "distinct order"
  shows "touchOrder k order = filter (\<lambda>x. x \<noteq> k) order @ [k]"
proof (cases "remove_first (\<lambda>x. x = k) order")
  case None
  then have "filter (\<lambda>x. x \<noteq> k) order = order" by (auto simp: remove_first_None_iff intro!: filter_True)
  with None show ?thesis by (simp add: touchOrder_def)
next
  case (Some order')
  with remove_first_filter[OF assms Some] show ?thesis by (simp add: touchOrder_def)
qed

lemma evictRuns_eq:
  assumes "gwf m" "distinct order" "set order = fst ` set m"
  shows "evictRuns order m =
     (drop (length m - maxRunsInRunStore) order, fold mdel (take (length m - maxRunsInRunStore) order) m)"
  using assms
proof (induction order arbitrary: m)
  case Nil
  then show ?case by simp
next
  case (Cons k order)
  have k: "k \<in> fst ` set m" using Cons.prems(3) by auto
  have "set order = fst ` set (mdel k m)" using Cons.prems by auto
  then have IH: "evictRuns order (mdel k m) =
     (drop (length m - 1 - maxRunsInRunStore) order, fold mdel (take (length m - 1 - maxRunsInRunStore) order) (mdel k m))"
    using Cons.IH[of "mdel k m"] Cons.prems k by (simp add: length_mdel)
  show ?case
  proof (cases "length m > maxRunsInRunStore")
    case True
    then obtain d where d: "length m - maxRunsInRunStore = Suc d" "length m - 1 - maxRunsInRunStore = d"
      by (metis Suc_diff_Suc diff_Suc_1 diff_commute diff_diff_left plus_1_eq_Suc)
    with True IH show ?thesis by simp
  qed simp
qed

lemma evictStore_simps [simp]:
  "fr_disk (evictStore s) = fr_disk s"
  by (simp add: evictStore_def split: prod.split)

lemma evictStore_eq:
  assumes "gwf (fr_runs s)" "distinct (fr_runOrder s)" "set (fr_runOrder s) = fst ` set (fr_runs s)"
  shows "fr_runs (evictStore s) = fold mdel (take (length (fr_runs s) - maxRunsInRunStore) (fr_runOrder s)) (fr_runs s)"
    and "fr_runOrder (evictStore s) = drop (length (fr_runs s) - maxRunsInRunStore) (fr_runOrder s)"
  by (simp_all add: evictStore_def evictRuns_eq[OF assms])

lemma evictStore_inv:
  assumes "keyedRuns (fr_runs s)" "distinct (fr_runOrder s)" "set (fr_runOrder s) = fst ` set (fr_runs s)"
  shows "storeInv (evictStore s)"
proof -
  have wf: "gwf (fr_runs s)" using assms(1) by (simp add: keyedRuns_def)
  let ?d = "length (fr_runs s) - maxRunsInRunStore"
  note eq = evictStore_eq[OF wf assms(2,3)]
  have "set (fr_runOrder s) = set (take ?d (fr_runOrder s)) \<union> set (drop ?d (fr_runOrder s))"
    by (metis append_take_drop_id set_append)
  moreover have "set (take ?d (fr_runOrder s)) \<inter> set (drop ?d (fr_runOrder s)) = {}"
    using assms(2) by (metis append_take_drop_id distinct_append)
  ultimately have "set (drop ?d (fr_runOrder s)) = fst ` set (fr_runs s) - set (take ?d (fr_runOrder s))"
    using assms(3) by auto
  then have "set (fr_runOrder (evictStore s)) = fst ` set (fr_runs (evictStore s))"
    by (force simp: eq fold_mdel_set)
  moreover have "length (fr_runs (evictStore s)) \<le> maxRunsInRunStore"
    using fold_mdel_length[OF wf assms(2,3), of ?d] by (simp add: eq)
  moreover have "keyedRuns (fr_runs (evictStore s))"
    using assms(1) wf by (auto simp: keyedRuns_def eq fold_mdel_set)
  moreover have "distinct (fr_runOrder (evictStore s))" using assms(2) by (simp add: eq)
  ultimately show ?thesis by (simp add: storeInv_def)
qed

abbreviation keyOf :: "run \<Rightarrow> string" where
  "keyOf r \<equiv> storageKey (run_TenantID r) (run_RunID r)"

lemma storeInvD:
  assumes "storeInv s"
  shows "gwf (fr_runs s)" "keyedRuns (fr_runs s)" "distinct (fr_runOrder s)"
    "set (fr_runOrder s) = fst ` set (fr_runs s)" "length (fr_runs s) \<le> maxRunsInRunStore"
    "length (fr_runOrder s) = length (fr_runs s)"
  using assms order_length[of "fr_runs s" "fr_runOrder s"] by (auto simp: storeInv_def keyedRuns_def)

lemma keyedRuns_mput: "keyedRuns m \<Longrightarrow> validateRun r \<Longrightarrow> keyedRuns (mput (keyOf r) r m)"
  by (auto simp: keyedRuns_def set_mput)

lemma set_touchOrder: "distinct order \<Longrightarrow> set (touchOrder k order) = insert k (set order)"
  and distinct_touchOrder: "distinct order \<Longrightarrow> distinct (touchOrder k order)"
  by (auto simp: touchOrder_filter)

lemma putRun_inv:
  assumes "storeInv s" "validateRun r"
  shows "storeInv (putRun r s)"
  using storeInvD[OF assms(1)] assms(2) unfolding putRun_def Let_def
  by (intro evictStore_inv) (simp_all add: set_touchOrder distinct_touchOrder keyedRuns_mput)

lemma putRun_get:
  assumes "storeInv s" "validateRun r"
  shows "mget (fr_runs (putRun r s)) k =
    (if k = keyOf r then Some r
     else if length (fr_runs s) = maxRunsInRunStore \<and> mget (fr_runs s) (keyOf r) = None \<and> k = hd (fr_runOrder s) then None
     else mget (fr_runs s) k)"
proof -
  note D = storeInvD[OF assms(1)]
  let ?m = "mput (keyOf r) r (fr_runs s)" and ?o = "touchOrder (keyOf r) (fr_runOrder s)"
  let ?d = "length ?m - maxRunsInRunStore"
  have "mget (fr_runs (putRun r s)) k = mget (fold mdel (take ?d ?o) ?m) k"
    using evictStore_eq(1)[of "s\<lparr>fr_runs := ?m, fr_runOrder := ?o\<rparr>"] D
    by (simp add: putRun_def Let_def set_touchOrder distinct_touchOrder)
  also have "\<dots> = (if k \<in> set (take ?d ?o) then None else if k = keyOf r then Some r else mget (fr_runs s) k)"
    by (simp add: fold_mdel_get)
  finally have get: "mget (fr_runs (putRun r s)) k = \<dots>" .
  show ?thesis
  proof (cases "length (fr_runs s) = maxRunsInRunStore \<and> mget (fr_runs s) (keyOf r) = None")
    case True
    then have new: "keyOf r \<notin> set (fr_runOrder s)" using D(4) by (simp add: mget_None_iff)
    then have "filter (\<lambda>x. x \<noteq> keyOf r) (fr_runOrder s) = fr_runOrder s" by (auto intro: filter_True)
    then have o: "?o = fr_runOrder s @ [keyOf r]" using D(3) by (simp add: touchOrder_filter)
    have d: "?d = 1" using True new D(4) by (simp add: length_mput)
    have "fr_runOrder s \<noteq> []" using True D(6) by (auto simp: maxRunsInRunStore_def)
    then have "set (take ?d ?o) = {hd (fr_runOrder s)}" "hd (fr_runOrder s) \<noteq> keyOf r"
      unfolding d o using new by (cases "fr_runOrder s"; auto)+
    with True get show ?thesis by auto
  next
    case False
    then have d: "?d = 0" using D(5) by (auto simp: length_mput mget_None_iff)
    with False get show ?thesis by auto
  qed
qed

lemma putRun_disk [simp]: "fr_disk (putRun r s) = fr_disk s"
  by (simp add: putRun_def Let_def)

lemma persistRuns_inv: "storeInv s \<Longrightarrow> storeInv (snd (persistRuns io s))"
  by (simp add: persistRuns_def storeInv_def split: option.split)

lemma touch_inv:
  assumes "storeInv s" "mget (fr_runs s) k = Some r"
  shows "storeInv (s\<lparr>fr_runOrder := touchOrder k (fr_runOrder s)\<rparr>)"
proof -
  have "k \<in> fst ` set (fr_runs s)" using mget_in_set[OF assms(2)] by force
  with storeInvD[OF assms(1)] show ?thesis
    by (auto simp: storeInv_def set_touchOrder distinct_touchOrder)
qed

lemma loadRuns_inv: "loadedStore s \<Longrightarrow> storeInv s"
proof -
  assume "loadedStore s"
  then obtain fc where f: "loadRuns fc = Inr s" "\<And>m. fc = RunsFile m \<Longrightarrow> keyedRuns m"
    by (auto simp: loadedStore_def)
  show ?thesis
  proof (cases fc)
    case (RunsFile m)
    have "storeInv (evictStore \<lparr>fr_runs = m, fr_runOrder = map fst m, fr_disk = Some m\<rparr>)"
      using f(2)[OF RunsFile] by (intro evictStore_inv) (auto simp: keyedRuns_def gwf_def)
    with f(1) RunsFile show ?thesis by (simp add: loadRuns_def)
  qed (use f(1) in \<open>auto simp: loadRuns_def storeInv_def keyedRuns_def\<close>)
qed

lemma Run_Create_inv: "storeInv s \<Longrightarrow> storeInv (snd (Run_Create ctx io r s))"
  by (auto simp: Run_Create_def intro!: persistRuns_inv putRun_inv split: option.split)

lemma Run_Save_inv: "storeInv s \<Longrightarrow> storeInv (snd (Run_Save ctx io r s))"
  by (auto simp: Run_Save_def intro!: persistRuns_inv putRun_inv split: option.split)

lemma Run_Get_inv: "storeInv s \<Longrightarrow> storeInv (snd (Run_Get ctx t i s))"
  by (auto simp: Run_Get_def Let_def intro: touch_inv split: option.split)

interpretation run_store_sys: inv_system loadedStore run_store_step storeInv
  by unfold_locales
    (auto intro: loadRuns_inv Run_Create_inv Run_Save_inv Run_Get_inv elim: run_store_stepE)

subsection \<open>Storage keys\<close>

lemma storageKey_plain:
  assumes "plainName t" "plainName r"
  shows "storageKey t r = joinByte CHR ''/'' [''tenant'', t, ''runs'', r]"
  using assms by (simp add: storageKey_def joinPath_def plainName_def splitByte_plain Let_def)

lemma splitByte_storageKey:
  assumes "plainName t" "plainName r"
  shows "splitByte CHR ''/'' (storageKey t r) = [''tenant'', t, ''runs'', r]"
  unfolding storageKey_plain[OF assms]
  by (rule splitByte_joinByte) (use assms in \<open>simp_all add: plainName_def\<close>)

lemma storageKey_inj:
  assumes "plainName t" "plainName r" "plainName t'" "plainName r'" "storageKey t r = storageKey t' r'"
  shows "t = t' \<and> r = r'"
  using arg_cong[OF assms(5), of "splitByte CHR ''/''"]
  unfolding splitByte_storageKey[OF assms(1,2)] splitByte_storageKey[OF assms(3,4)] by simp

subsection \<open>The contract of the run store port\<close>

locale run_store =
  fixes view :: "'s \<Rightarrow> string \<Rightarrow> string \<Rightarrow> run option"
    and create :: "string option \<Rightarrow> run \<Rightarrow> 's \<Rightarrow> runErr option \<times> 's"
    and save :: "string option \<Rightarrow> run \<Rightarrow> 's \<Rightarrow> runErr option \<times> 's"
    and victim :: "'s \<Rightarrow> string \<Rightarrow> string \<Rightarrow> bool"
    and ok :: "'s \<Rightarrow> bool"
  assumes ok_save: "ok s \<Longrightarrow> ok (snd (save io r s))"
    and view_save: "ok s \<Longrightarrow> validateRun r \<Longrightarrow> view (snd (save io r s)) (run_TenantID r) (run_RunID r) = Some r"
    and frame_save: "ok s \<Longrightarrow> validateRun r \<Longrightarrow> plainName (run_TenantID r) \<Longrightarrow> plainName (run_RunID r) \<Longrightarrow>
        plainName t \<Longrightarrow> plainName i \<Longrightarrow> (t, i) \<noteq> (run_TenantID r, run_RunID r) \<Longrightarrow>
        view (snd (save io r s)) t i = (if view s (run_TenantID r) (run_RunID r) = None \<and> victim s t i then None else view s t i)"
    and create_new: "ok s \<Longrightarrow> validateRun r \<Longrightarrow> view s (run_TenantID r) (run_RunID r) = None \<Longrightarrow> create io r s = save io r s"
    and create_old: "ok s \<Longrightarrow> validateRun r \<Longrightarrow> view s (run_TenantID r) (run_RunID r) \<noteq> None \<Longrightarrow>
        create io r s = (Some ErrRunExists, s)"
begin

lemma save_updates:
  assumes "ok s" "\<forall>(io, r)\<in>set rs. validateRun r \<and> run_TenantID r = t \<and> run_RunID r = i" "view s t i = Some r0"
  shows "view (fold (\<lambda>(io, r) s. snd (save io r s)) rs s) t i = Some (last (r0 # map snd rs))"
  using assms
proof (induction rs arbitrary: s r0)
  case (Cons x rs)
  obtain io r where x: "x = (io, r)" by (cases x)
  have "ok (snd (save io r s))" "view (snd (save io r s)) t i = Some r"
    using Cons.prems x ok_save[of s io r] view_save[of s r io] by auto
  with Cons.IH[of "snd (save io r s)" r] Cons.prems(2) x show ?case by auto
qed simp

lemma save_updates_frame:
  assumes "ok s" "\<forall>(io, r)\<in>set rs. validateRun r \<and> run_TenantID r = t \<and> run_RunID r = i" "view s t i \<noteq> None"
    and "plainName t" "plainName i" "plainName t'" "plainName i'" "(t', i') \<noteq> (t, i)"
  shows "view (fold (\<lambda>(io, r) s. snd (save io r s)) rs s) t' i' = view s t' i'"
  using assms(1-3)
proof (induction rs arbitrary: s)
  case (Cons x rs)
  obtain io r where x: "x = (io, r)" by (cases x)
  have r: "validateRun r" "run_TenantID r = t" "run_RunID r = i" using Cons.prems x by auto
  have "view (snd (save io r s)) t i \<noteq> None" using view_save[of s r io] Cons.prems r by auto
  then have "view (fold (\<lambda>(io, r) s. snd (save io r s)) rs (snd (save io r s))) t' i' = view (snd (save io r s)) t' i'"
    using Cons.prems by (intro Cons.IH) (auto intro: ok_save)
  also have "\<dots> = view s t' i'"
    using frame_save[of s r t' i' io] assms(4-8) Cons.prems r by auto
  finally show ?case by (simp add: x)
qed simp

lemma lifecycle:
  assumes "ok s" "validateRun r" "run_TenantID r = t" "run_RunID r = i"
    and "\<forall>(io, r)\<in>set rs. validateRun r \<and> run_TenantID r = t \<and> run_RunID r = i" "plainName t" "plainName i" "view s t i = None"
  shows "view (fold (\<lambda>(io, r) s. snd (save io r s)) rs (snd (create io r s))) t i = Some (last (r # map snd rs)) \<and>
     (\<forall>t' i'. plainName t' \<longrightarrow> plainName i' \<longrightarrow> (t', i') \<noteq> (t, i) \<longrightarrow>
        view (fold (\<lambda>(io, r) s. snd (save io r s)) rs (snd (create io r s))) t' i' = (if victim s t' i' then None else view s t' i'))"
proof -
  have new: "create io r s = save io r s" using assms create_new[of s r] by auto
  have S: "ok (snd (save io r s))" "view (snd (save io r s)) t i = Some r"
    using ok_save[OF assms(1)] view_save[OF assms(1,2)] assms(3,4) by auto
  have "view (snd (save io r s)) t' i' = (if victim s t' i' then None else view s t' i')"
    if "plainName t'" "plainName i'" "(t', i') \<noteq> (t, i)" for t' i'
    using frame_save[OF assms(1,2) _ _ that(1,2)] that(3) assms(3,4,6-8) by simp
  then show ?thesis
    unfolding new using save_updates[OF S(1) assms(5) S(2)] save_updates_frame[OF S(1) assms(5) _ assms(6,7)] S(2) by simp
qed

end

definition evictsFor :: "fileRunStore \<Rightarrow> string \<Rightarrow> string \<Rightarrow> bool" where
  "evictsFor s t i \<longleftrightarrow> length (fr_runs s) = maxRunsInRunStore \<and> storageKey t i = hd (fr_runOrder s)"

lemma runView_persist [simp]: "runView (snd (persistRuns io s)) = runView s"
  by (auto simp: fun_eq_iff runView_def persistRuns_def split: option.split)

lemma runView_putRun:
  assumes "storeInv s" "validateRun r"
  shows "runView (putRun r s) t i =
    (if storageKey t i = keyOf r then Some r
     else if mget (fr_runs s) (keyOf r) = None \<and> evictsFor s t i then None
     else runView s t i)"
  using putRun_get[OF assms, of "storageKey t i"] by (auto simp: runView_def evictsFor_def)

interpretation file_runs: run_store runView "Run_Create None" "Run_Save None" evictsFor storeInv
proof unfold_locales
  fix s io and r :: run and t i
  assume s: "storeInv s"
  show "storeInv (snd (Run_Save None io r s))" by (rule Run_Save_inv[OF s])
  assume r: "validateRun r"
  have sv: "snd (Run_Save None io r s) = snd (persistRuns io (putRun r s))" using r by (simp add: Run_Save_def)
  show "runView (snd (Run_Save None io r s)) (run_TenantID r) (run_RunID r) = Some r"
    by (simp add: sv runView_putRun[OF s r])
  show "runView s (run_TenantID r) (run_RunID r) = None \<Longrightarrow> Run_Create None io r s = Run_Save None io r s"
    using r by (simp add: Run_Create_def Run_Save_def runView_def)
  show "runView s (run_TenantID r) (run_RunID r) \<noteq> None \<Longrightarrow> Run_Create None io r s = (Some ErrRunExists, s)"
    using r by (simp add: Run_Create_def runView_def)
  assume "plainName (run_TenantID r)" "plainName (run_RunID r)" "plainName t" "plainName i"
    "(t, i) \<noteq> (run_TenantID r, run_RunID r)"
  then have "storageKey t i \<noteq> keyOf r" using storageKey_inj by blast
  then show "runView (snd (Run_Save None io r s)) t i =
      (if runView s (run_TenantID r) (run_RunID r) = None \<and> evictsFor s t i then None else runView s t i)"
    by (auto simp: sv runView_putRun[OF s r]) (auto simp: runView_def)
qed

subsection \<open>Cursor pagination\<close>

lemma mset_sortNewest [simp]: "mset (sortNewest rs) = mset rs"
  by (simp add: sortNewest_def)

lemma set_sortNewest [simp]: "set (sortNewest rs) = set rs"
  by (simp add: sortNewest_def)

lemma agentRuns_perm:
  assumes "mset (fr_runs s') = mset (fr_runs s)" "distinct (map run_CreatedAt (agentRuns t a s))"
  shows "agentRuns t a s' = agentRuns t a s"
proof -
  let ?f = "\<lambda>s. filter (\<lambda>r. run_TenantID r = t \<and> run_AgentID r = a) (map snd (fr_runs s))"
  have m: "mset (rev (?f s')) = mset (rev (?f s))"
    using assms(1) by (simp add: mset_filter)
  have "inj_on run_CreatedAt (set (?f s))"
    using assms(2) by (simp add: agentRuns_def distinct_map)
  then have "inj_on run_CreatedAt (set (rev (?f s')))"
    using mset_eq_setD[OF m] by simp
  then have "sort_key run_CreatedAt (rev (?f s')) = sort_key run_CreatedAt (rev (?f s))"
    by (intro sort_key_inj_key_eq) (use m in simp_all)
  then show ?thesis by (simp add: agentRuns_def sortNewest_def)
qed

lemma agentRuns_ids:
  assumes "storeInv s"
  shows "distinct (map run_RunID (agentRuns t a s))" "\<forall>r\<in>set (agentRuns t a s). run_RunID r \<noteq> []"
proof -
  let ?P = "\<lambda>r. run_TenantID r = t \<and> run_AgentID r = a"
  have keyed: "\<And>e. e \<in> set (fr_runs s) \<Longrightarrow> fst e = keyOf (snd e) \<and> validateRun (snd e)"
    and wf: "distinct (map fst (fr_runs s))"
    using assms by (fastforce simp: storeInv_def keyedRuns_def gwf_def)+
  have "map fst (fr_runs s) = map keyOf (map snd (fr_runs s))" using keyed by simp
  with wf have d: "distinct (map keyOf (map snd (fr_runs s)))" by simp
  then have d': "distinct (map keyOf (filter ?P (map snd (fr_runs s))))" by (rule distinct_map_filter)
  have "map keyOf (filter ?P (map snd (fr_runs s))) = map (storageKey t) (map run_RunID (filter ?P (map snd (fr_runs s))))"
    by simp
  with d' have "distinct (map run_RunID (filter ?P (map snd (fr_runs s))))" by (simp only: distinct_map)
  moreover have "mset (map run_RunID (agentRuns t a s)) = mset (map run_RunID (filter ?P (map snd (fr_runs s))))"
    by (simp only: agentRuns_def mset_map mset_sortNewest)
  ultimately show "distinct (map run_RunID (agentRuns t a s))"
    using mset_eq_imp_distinct_iff by blast
  show "\<forall>r\<in>set (agentRuns t a s). run_RunID r \<noteq> []"
    using keyed by (force simp: agentRuns_def validateRun_def)
qed

lemma dropAfter_last:
  "distinct (map run_RunID (P @ R)) \<Longrightarrow> P \<noteq> [] \<Longrightarrow> dropAfter (run_RunID (last P)) (P @ R) = Some R"
  by (induction P) (auto split: if_splits dest!: in_set_conv_decomp[THEN iffD1] simp: image_iff)

lemma agentRuns_set:
  assumes "storeInv s"
  shows "set (agentRuns t a s) = {r. (\<exists>k. mget (fr_runs s) k = Some r) \<and> run_TenantID r = t \<and> run_AgentID r = a}"
  using mget_iff[OF storeInvD(1)[OF assms]] by (force simp: agentRuns_def)

lemma agentRuns_mset: "mset (fr_runs s') = mset (fr_runs s) \<Longrightarrow> mset (agentRuns t a s') = mset (agentRuns t a s)"
  by (simp add: agentRuns_def mset_filter mset_map)

lemma agentRuns_sorted: "sorted_wrt (\<lambda>x y. run_CreatedAt y \<le> run_CreatedAt x) (agentRuns t a s)"
proof -
  have "sorted (map run_CreatedAt (sort_key run_CreatedAt xs))" for xs :: "run list" by simp
  then show ?thesis by (simp add: agentRuns_def sortNewest_def sorted_wrt_rev sorted_wrt_map)
qed

lemma dropAfter_suffix: "dropAfter rid rs = Some rest \<Longrightarrow> \<exists>p. rs = p @ rest"
  by (induction rs) (auto split: if_splits intro: exI[of _ "_ # _"])

lemma ListByAgent_page:
  assumes "ListByAgent None t a limit cursor s = Inr page"
  shows "set page \<subseteq> set (agentRuns t a s)" "distinct (agentRuns t a s) \<Longrightarrow> distinct page"
    "sorted_wrt (\<lambda>x y. run_CreatedAt y \<le> run_CreatedAt x) page" "int (length page) \<le> clampLimit limit"
proof -
  obtain p q where pq: "agentRuns t a s = p @ page @ q" and l: "length page \<le> nat (clampLimit limit)"
  proof (cases "page = []")
    case False
    with assms obtain rest where rest: "(if cursor \<noteq> [] then dropAfter cursor (agentRuns t a s) else Some (agentRuns t a s)) = Some rest"
      and pg: "page = take (nat (clampLimit limit)) rest"
      by (auto simp: ListByAgent_def Let_def split: if_splits option.splits)
    from rest dropAfter_suffix obtain p where "agentRuns t a s = p @ rest" by (cases "cursor = []") (auto, metis)
    then have "agentRuns t a s = p @ page @ drop (nat (clampLimit limit)) rest" using pg by simp
    then show ?thesis by (rule that) (simp add: pg)
  next
    case True
    with that[of "[]" "agentRuns t a s"] show ?thesis by simp
  qed
  show "set page \<subseteq> set (agentRuns t a s)" "distinct (agentRuns t a s) \<Longrightarrow> distinct page" using pq by auto
  show "sorted_wrt (\<lambda>x y. run_CreatedAt y \<le> run_CreatedAt x) page"
    using agentRuns_sorted[of t a s] unfolding pq by (simp add: sorted_wrt_append)
  show "int (length page) \<le> clampLimit limit" using l by (simp add: clampLimit_def Let_def split: if_splits)
qed

lemma clampLimit_pos: "0 < nat (clampLimit limit)"
  by (simp add: clampLimit_def Let_def)

lemma followPages_from:
  assumes ta: "t \<noteq> []" "a \<noteq> []"
    and L: "\<And>n. agentRuns t a (ss n) = L" "distinct (map run_RunID L)" "\<forall>r\<in>set L. run_RunID r \<noteq> []"
  shows "L = P @ R \<Longrightarrow> cursor = (if P = [] then [] else run_RunID (last P)) \<Longrightarrow> length R \<le> n \<Longrightarrow>
     followPages n t a limit cursor ss = R"
proof (induction n arbitrary: P R cursor)
  case (Suc n)
  let ?l = "nat (clampLimit limit)"
  have "(if cursor \<noteq> [] then dropAfter cursor L else Some L) = Some R"
    using Suc.prems L(2,3) dropAfter_last[of P R] by (cases "P = []") auto
  then have page: "ListByAgent None t a limit cursor (ss n) = Inr (take ?l R)"
    using ta by (simp add: ListByAgent_def L(1) Let_def)
  show ?case
  proof (cases "R = []")
    case False
    then have ne: "take ?l R \<noteq> []" using clampLimit_pos[of limit] by simp
    have "length (drop ?l R) \<le> n" using Suc.prems(3) clampLimit_pos[of limit] by simp
    then have "followPages n t a limit (run_RunID (last (take ?l R))) ss = drop ?l R"
      using Suc.prems(1) ne by (intro Suc.IH[of "P @ take ?l R"]) (auto simp: last_append)
    with page ne show ?thesis by simp
  qed (simp add: page)
qed simp

subsection \<open>Event log\<close>

abbreviation eventKey :: "event \<Rightarrow> string" where
  "eventKey e \<equiv> runKey (ev_TenantID e) (ev_RunID e)"

lemma evictEvents_eq:
  assumes "gwf m" "distinct order" "set order = fst ` set m"
  shows "evictEvents order m =
     Some (drop (length m - maxRunsInMemory) order, fold mdel (take (length m - maxRunsInMemory) order) m)"
  using assms
proof (induction order arbitrary: m)
  case Nil
  then show ?case by simp
next
  case (Cons k order)
  have k: "k \<in> fst ` set m" using Cons.prems(3) by auto
  have "set order = fst ` set (mdel k m)" using Cons.prems by auto
  then have IH: "evictEvents order (mdel k m) = Some (drop (length m - 1 - maxRunsInMemory) order,
      fold mdel (take (length m - 1 - maxRunsInMemory) order) (mdel k m))"
    using Cons.IH[of "mdel k m"] Cons.prems k by (simp add: length_mdel)
  show ?case
  proof (cases "length m > maxRunsInMemory")
    case True
    then obtain d where d: "length m - maxRunsInMemory = Suc d" "length m - 1 - maxRunsInMemory = d"
      by (metis Suc_diff_Suc diff_Suc_1 diff_commute diff_diff_left plus_1_eq_Suc)
    with True IH show ?thesis by simp
  qed simp
qed

definition logOrder :: "string \<Rightarrow> eventLogStore \<Rightarrow> string list" where
  "logOrder key s = (if mget (el_runs s) key = None then el_runOrder s @ [key] else el_runOrder s)"

definition logRuns :: "event \<Rightarrow> eventLogStore \<Rightarrow> (string, event list) gomap" where
  "logRuns e s = mput (eventKey e) (zget [] (el_runs s) (eventKey e) @ [e]) (el_runs s)"

lemma logOrder_ok:
  assumes "logInv s"
  shows "gwf (logRuns e s)" "distinct (logOrder (eventKey e) s)" "set (logOrder (eventKey e) s) = fst ` set (logRuns e s)"
proof -
  have s: "gwf (el_runs s)" "distinct (el_runOrder s)" "set (el_runOrder s) = fst ` set (el_runs s)"
    using assms by (simp_all add: logInv_def)
  show "gwf (logRuns e s)" by (simp add: logRuns_def s)
  show "distinct (logOrder (eventKey e) s)" using s by (auto simp: logOrder_def mget_None_iff)
  show "set (logOrder (eventKey e) s) = fst ` set (logRuns e s)"
    using s by (cases "mget (el_runs s) (eventKey e)") (auto simp: logOrder_def logRuns_def insert_absorb mget_None_iff dest!: mget_in_set, force)
qed

definition logExcess :: "event \<Rightarrow> eventLogStore \<Rightarrow> nat" where
  "logExcess e s = length (logRuns e s) - maxRunsInMemory"

lemma EventLog_Append_eq:
  assumes "logInv s"
  shows "EventLog_Append io e s =
    (let runs = fold mdel (take (logExcess e s) (logOrder (eventKey e) s)) (logRuns e s);
         s' = s\<lparr>el_runs := runs, el_runOrder := drop (logExcess e s) (logOrder (eventKey e) s)\<rparr> in
     Some (case io of Some x \<Rightarrow> (Some (ErrIO x), s')
           | None \<Rightarrow> (None, s'\<lparr>el_disk := mput (eventKey e) (zget [] runs (eventKey e)) (el_disk s)\<rparr>)))"
proof -
  have ev: "evictEvents (logOrder (eventKey e) s) (logRuns e s) =
      Some (drop (logExcess e s) (logOrder (eventKey e) s), fold mdel (take (logExcess e s) (logOrder (eventKey e) s)) (logRuns e s))"
    unfolding logExcess_def by (rule evictEvents_eq[OF logOrder_ok[OF assms(1)]])
  show ?thesis
    unfolding EventLog_Append_def Let_def logOrder_def[of "eventKey e" s, symmetric] logRuns_def[of e s, symmetric] ev
    by (simp split: option.split)
qed

lemma logInv_keep:
  assumes "gwf m" "distinct order" "set order = fst ` set m" "length m - maxRunsInMemory \<le> d"
  shows "logInv \<lparr>el_runs = fold mdel (take d order) m, el_runOrder = drop d order, el_disk = disk\<rparr>"
proof -
  have "set order = set (take d order) \<union> set (drop d order)" "set (take d order) \<inter> set (drop d order) = {}"
    using assms(2) by (metis append_take_drop_id set_append)
      (metis append_take_drop_id assms(2) distinct_append)
  then have "set (drop d order) = fst ` set m - set (take d order)" using assms(3) by auto
  then have "set (drop d order) = fst ` set (fold mdel (take d order) m)" by (force simp: fold_mdel_set)
  moreover have "length (fold mdel (take d order) m) \<le> maxRunsInMemory"
    using fold_mdel_length[OF assms(1-3), of d] assms(4) by simp
  ultimately show ?thesis using assms(1,2) by (simp add: logInv_def)
qed

lemma EventLog_Append_inv:
  assumes "logInv s"
  obtains err s' where "EventLog_Append io e s = Some (err, s')" "logInv s'"
proof -
  have "logInv \<lparr>el_runs = fold mdel (take (logExcess e s) (logOrder (eventKey e) s)) (logRuns e s),
      el_runOrder = drop (logExcess e s) (logOrder (eventKey e) s), el_disk = disk\<rparr>" for disk
    by (rule logInv_keep[OF logOrder_ok[OF assms]]) (simp add: logExcess_def)
  then have inv: "logInv (s\<lparr>el_runs := fold mdel (take (logExcess e s) (logOrder (eventKey e) s)) (logRuns e s),
      el_runOrder := drop (logExcess e s) (logOrder (eventKey e) s)\<rparr>)" by (simp add: logInv_def)
  show thesis
    by (cases io) (use inv that in \<open>auto simp: EventLog_Append_eq[OF assms] Let_def logInv_def\<close>)
qed

lemma EventLog_Append_room:
  assumes "logInv s" "length (logRuns e s) \<le> maxRunsInMemory"
  shows "\<exists>err s'. EventLog_Append io e s = Some (err, s') \<and> logInv s' \<and> el_runs s' = logRuns e s \<and>
    el_disk s' = (if io = None then mput (eventKey e) (zget [] (logRuns e s) (eventKey e)) (el_disk s) else el_disk s)"
proof -
  obtain err s' where a: "EventLog_Append io e s = Some (err, s')" "logInv s'" using EventLog_Append_inv[OF assms(1)] .
  have "logExcess e s = 0" using assms(2) by (simp add: logExcess_def)
  with a show ?thesis by (cases io) (auto simp: EventLog_Append_eq[OF assms(1)] Let_def)
qed

lemma length_card_keys: "gwf m \<Longrightarrow> length m = card (fst ` set m)"
  by (metis distinct_card gwf_def length_map list.set_map)

lemma appendAll_view:
  assumes "logInv s" "card (fst ` set (el_runs s) \<union> eventKey ` snd ` set es) \<le> maxRunsInMemory"
  shows "\<exists>s'. appendAll es s = Some s' \<and> logInv s' \<and>
     (\<forall>k. zget [] (el_runs s') k = zget [] (el_runs s) k @ filter (\<lambda>e. eventKey e = k) (map snd es))"
  using assms
proof (induction es arbitrary: s)
  case (Cons x es)
  obtain io e where [simp]: "x = (io, e)" by (cases x)
  let ?K = "fst ` set (el_runs s) \<union> eventKey ` snd ` set (x # es)"
  have wf: "gwf (logRuns e s)" by (rule logOrder_ok[OF Cons.prems(1)])
  have keys: "fst ` set (logRuns e s) = insert (eventKey e) (fst ` set (el_runs s))" by (simp add: logRuns_def)
  have "card (fst ` set (logRuns e s)) \<le> card ?K" unfolding keys by (rule card_mono) auto
  then have "length (logRuns e s) \<le> maxRunsInMemory" using length_card_keys[OF wf] Cons.prems(2) by simp
  then obtain err s1 where s1: "EventLog_Append io e s = Some (err, s1)" "logInv s1" "el_runs s1 = logRuns e s"
    using EventLog_Append_room[OF Cons.prems(1)] by blast
  have "fst ` set (el_runs s1) \<union> eventKey ` snd ` set es = ?K" unfolding s1(3) keys by auto
  then obtain s' where "appendAll es s1 = Some s'" "logInv s'"
    "\<forall>k. zget [] (el_runs s') k = zget [] (el_runs s1) k @ filter (\<lambda>e. eventKey e = k) (map snd es)"
    using Cons.IH[OF s1(2)] Cons.prems(2) by metis
  then show ?case using s1(1,3) by (simp add: logRuns_def)
qed simp

inductive log_step :: "eventLogStore \<Rightarrow> eventLogStore \<Rightarrow> bool" where
  log_append: "EventLog_Append io e s = Some (err, s') \<Longrightarrow> log_step s s'"

inductive_cases log_stepE: "log_step s s'"

lemma NewFileEventLogStore_inv: "logInv NewFileEventLogStore"
  by (simp add: logInv_def NewFileEventLogStore_def)

interpretation log_sys: inv_system "\<lambda>s. s = NewFileEventLogStore" log_step logInv
proof unfold_locales
  show "s = NewFileEventLogStore \<Longrightarrow> logInv s" for s by (simp add: NewFileEventLogStore_inv)
  show "logInv t" if "logInv s" "log_step s t" for s t
    using that(2)
  proof (rule log_stepE)
    fix io e err
    assume "EventLog_Append io e s = Some (err, t)"
    with EventLog_Append_inv[OF that(1), of io e] show "logInv t" by auto
  qed
qed

subsection \<open>Properties\<close>

definition sampleRun :: "string \<Rightarrow> string \<Rightarrow> string \<Rightarrow> string \<Rightarrow> run" where
  "sampleRun t a i created =
     \<lparr>run_TenantID = t, run_AgentID = a, run_RunID = i, run_Status = ''queued'', run_CreatedAt = created,
      run_StartedAt = [], run_CompletedAt = [], run_EventsURL = [], run_Input = \<lparr>ri_Type = ''text'', ri_Text = ''hi''\<rparr>,
      run_RunOptions = \<lparr>ro_Priority = ''normal'', ro_TimeoutMs = 0, ro_MaxSteps = 0, ro_StreamEvents = False\<rparr>,
      run_Output = None, run_Error = None, run_IdempotencyKey = [], run_RetryOf = [], run_ParentRunID = []\<rparr>"

definition emptyRunStore :: fileRunStore where
  "emptyRunStore = \<lparr>fr_runs = [], fr_runOrder = [], fr_disk = None\<rparr>"

lemma emptyRunStore_loaded: "loadedStore emptyRunStore"
  by (auto simp: loadedStore_def emptyRunStore_def loadRuns_def intro!: exI[of _ NoFile])

lemma emptyRunStore_inv: "storeInv emptyRunStore"
  by (rule loadRuns_inv[OF emptyRunStore_loaded])

lemma storageKey_t_r1: "storageKey ''t'' ''r1'' = ''tenant/t/runs/r1''"
  by (simp add: storageKey_def joinPath_def)

lemmas sample_simps = sampleRun_def emptyRunStore_def Run_Save_def Run_Create_def Run_Get_def persistRuns_def putRun_def evictStore_def
  touchOrder_def validateRun_def maxRunsInRunStore_def mput_def mget_def mdel_def runView_def Let_def storageKey_def joinPath_def

text \<open>Every state of the run store reachable from a load by Create, Save and Get, with any context and file
  errors, holds at most 5000 runs, keeps its access order as a duplicate-free list of exactly the stored keys, and
  files every run, which has a tenant and an identifier, under its own storage key.\<close>
theorem run_store_reachable_inv:
  assumes "reachable loadedStore run_store_step s"
  shows "length (fr_runs s) \<le> 5000 \<and> distinct (fr_runOrder s) \<and> set (fr_runOrder s) = fst ` set (fr_runs s) \<and>
    (\<forall>k r. mget (fr_runs s) k = Some r \<longrightarrow> k = storageKey (run_TenantID r) (run_RunID r) \<and> validateRun r)"
proof -
  have "storeInv s" by (rule run_store_sys.inv_reachable[OF assms])
  then show ?thesis
    by (force simp: storeInv_def keyedRuns_def maxRunsInRunStore_def dest!: mget_in_set)
qed

theorem run_store_reachable_inv_witness:
  "length (fr_runs (snd (Run_Save None (Some ''disk full'') (sampleRun ''t'' ''a'' ''r1'' ''1'') emptyRunStore))) \<le> 5000 \<and>
   fr_runOrder (snd (Run_Save None (Some ''disk full'') (sampleRun ''t'' ''a'' ''r1'' ''1'') emptyRunStore)) = [''tenant/t/runs/r1'']"
proof -
  have "reachable loadedStore run_store_step (snd (Run_Save None (Some ''disk full'') (sampleRun ''t'' ''a'' ''r1'' ''1'') emptyRunStore))"
    by (rule reach_one[where init = loadedStore and s = emptyRunStore]) (rule emptyRunStore_loaded rs_save)+
  from run_store_reachable_inv[OF this]
  show ?thesis by (simp add: sample_simps)
qed

text \<open>C4. The lifecycle of a run seen through the store, for plain identifiers: creating a run that is stored is refused
  with ErrRunExists and changes nothing; creating one that is not and then saving any sequence of its updates makes a later
  lookup return the last update. Every other run is found as before, except that the creation makes a store that holds 5000
  runs drop its least recently used one. All of this holds whichever of the file writes fail. It is the contract of
  the run store port, instantiated on the file store.\<close>
theorem run_lifecycle_visible:
  assumes "storeInv s" "validateRun r" "run_TenantID r = t" "run_RunID r = i"
    and "\<forall>(io, r)\<in>set rs. validateRun r \<and> run_TenantID r = t \<and> run_RunID r = i" "plainName t" "plainName i"
  shows "(runView s t i \<noteq> None \<longrightarrow> Run_Create None io r s = (Some ErrRunExists, s)) \<and>
    (runView s t i = None \<longrightarrow>
       runView (fold (\<lambda>(io, r) s. snd (Run_Save None io r s)) rs (snd (Run_Create None io r s))) t i = Some (last (r # map snd rs)) \<and>
       (\<forall>t' i'. plainName t' \<longrightarrow> plainName i' \<longrightarrow> (t', i') \<noteq> (t, i) \<longrightarrow>
          runView (fold (\<lambda>(io, r) s. snd (Run_Save None io r s)) rs (snd (Run_Create None io r s))) t' i' =
            (if length (fr_runs s) = 5000 \<and> storageKey t' i' = hd (fr_runOrder s) then None else runView s t' i')))"
  using file_runs.create_old[OF assms(1,2), of io] file_runs.lifecycle[OF assms, of io] assms(3,4)
  by (auto simp: evictsFor_def maxRunsInRunStore_def)

theorem run_lifecycle_visible_witness:
  "runView (fold (\<lambda>(io, r) s. snd (Run_Save None io r s)) [(Some ''disk full'', (sampleRun ''t'' ''a'' ''r1'' ''1'')\<lparr>run_Status := ''running''\<rparr>)]
     (snd (Run_Create None None (sampleRun ''t'' ''a'' ''r1'' ''1'') emptyRunStore))) ''t'' ''r1'' =
   Some ((sampleRun ''t'' ''a'' ''r1'' ''1'')\<lparr>run_Status := ''running''\<rparr>)"
proof -
  have none: "runView emptyRunStore ''t'' ''r1'' = None" by (simp add: runView_def emptyRunStore_def)
  have r: "validateRun (sampleRun ''t'' ''a'' ''r1'' ''1'')" "run_TenantID (sampleRun ''t'' ''a'' ''r1'' ''1'') = ''t''"
    "run_RunID (sampleRun ''t'' ''a'' ''r1'' ''1'') = ''r1''" "plainName ''t''" "plainName ''r1''"
    by (simp_all add: validateRun_def sampleRun_def plainName_def)
  have rs: "\<forall>(io, r)\<in>set [(Some ''disk full'', (sampleRun ''t'' ''a'' ''r1'' ''1'')\<lparr>run_Status := ''running''\<rparr>)].
      validateRun r \<and> run_TenantID r = ''t'' \<and> run_RunID r = ''r1''" by (simp add: validateRun_def sampleRun_def)
  from run_lifecycle_visible[OF emptyRunStore_inv r(1-3) rs r(4,5), of None] none show ?thesis by simp
qed

text \<open>Tenant isolation of lookups: in a store whose runs have plain identifiers, a lookup by a plain tenant and
  run identifier returns only a run of that tenant with that identifier.\<close>
theorem Run_Get_isolated:
  assumes "storeInv s" "\<forall>(k, r)\<in>set (fr_runs s). plainName (run_TenantID r) \<and> plainName (run_RunID r)"
    and "plainName t" "plainName i" "fst (Run_Get ctx t i s) = Inr (Some r)"
  shows "run_TenantID r = t \<and> run_RunID r = i"
proof -
  have "mget (fr_runs s) (storageKey t i) = Some r"
    using assms(5) by (auto simp: Run_Get_def Let_def split: option.splits if_splits)
  then have "(storageKey t i, r) \<in> set (fr_runs s)" by (rule mget_in_set)
  with assms(1,2) have "storageKey t i = keyOf r" "plainName (run_TenantID r)" "plainName (run_RunID r)"
    by (auto simp: storeInv_def keyedRuns_def)
  with storageKey_inj[OF assms(3,4)] show ?thesis by metis
qed

theorem Run_Get_isolated_witness:
  "fst (Run_Get None ''t'' ''r1'' (putRun (sampleRun ''t'' ''a'' ''r1'' ''1'') emptyRunStore)) =
     Inr (Some (sampleRun ''t'' ''a'' ''r1'' ''1'')) \<and> run_TenantID (sampleRun ''t'' ''a'' ''r1'' ''1'') = ''t''"
proof -
  let ?r = "sampleRun ''t'' ''a'' ''r1'' ''1''"
  have g: "fst (Run_Get None ''t'' ''r1'' (putRun ?r emptyRunStore)) = Inr (Some ?r)" by (simp add: sample_simps)
  have "storeInv (putRun ?r emptyRunStore)"
    by (rule putRun_inv[OF emptyRunStore_inv]) (simp add: validateRun_def sampleRun_def)
  moreover have "\<forall>(k, r)\<in>set (fr_runs (putRun ?r emptyRunStore)). plainName (run_TenantID r) \<and> plainName (run_RunID r)"
    by (simp add: sample_simps plainName_def)
  ultimately show ?thesis using Run_Get_isolated[OF _ _ _ _ g] g by (simp add: plainName_def)
qed

text \<open>C21. Paging through the runs of an agent. Every page, for any limit, cursor and iteration order of the store, holds at
  most the clamped limit of runs, all runs of the agent, none twice, newest first. When no two runs of the agent share a
  creation time, following the cursor lists every run of the agent exactly once, newest first, whatever order each request
  iterates the store in and whatever limit is asked for.\<close>
theorem list_pages_complete:
  assumes "storeInv s" "t \<noteq> []" "a \<noteq> []" "\<And>n. mset (fr_runs (ss n)) = mset (fr_runs s)"
  shows "(\<forall>n cursor page. ListByAgent None t a limit cursor (ss n) = Inr page \<longrightarrow>
      set page \<subseteq> {r. (\<exists>k. mget (fr_runs s) k = Some r) \<and> run_TenantID r = t \<and> run_AgentID r = a} \<and>
      distinct page \<and> sorted_wrt (\<lambda>x y. run_CreatedAt y \<le> run_CreatedAt x) page \<and> int (length page) \<le> clampLimit limit) \<and>
    (distinct (map run_CreatedAt (agentRuns t a s)) \<and> length (agentRuns t a s) \<le> n \<longrightarrow>
      followPages n t a limit [] ss = agentRuns t a s \<and>
      set (agentRuns t a s) = {r. (\<exists>k. mget (fr_runs s) k = Some r) \<and> run_TenantID r = t \<and> run_AgentID r = a} \<and>
      sorted_wrt (\<lambda>x y. run_CreatedAt y < run_CreatedAt x) (agentRuns t a s))"
proof (intro conjI allI impI)
  fix k cursor page
  assume "ListByAgent None t a limit cursor (ss k) = Inr page"
  from ListByAgent_page[OF this] agentRuns_set[OF assms(1)] agentRuns_mset[OF assms(4)] agentRuns_ids(1)[OF assms(1)]
  show "set page \<subseteq> {r. (\<exists>k. mget (fr_runs s) k = Some r) \<and> run_TenantID r = t \<and> run_AgentID r = a}" "distinct page"
    "sorted_wrt (\<lambda>x y. run_CreatedAt y \<le> run_CreatedAt x) page" "int (length page) \<le> clampLimit limit"
    by (metis mset_eq_setD distinct_map mset_eq_imp_distinct_iff)+
next
  assume d: "distinct (map run_CreatedAt (agentRuns t a s)) \<and> length (agentRuns t a s) \<le> n"
  then show "followPages n t a limit [] ss = agentRuns t a s"
    by (intro followPages_from[OF assms(2,3) agentRuns_perm[OF assms(4)] agentRuns_ids[OF assms(1)], of "[]"]) simp_all
  show "set (agentRuns t a s) = {r. (\<exists>k. mget (fr_runs s) k = Some r) \<and> run_TenantID r = t \<and> run_AgentID r = a}"
    by (rule agentRuns_set[OF assms(1)])
  have "sorted (map run_CreatedAt (rev (agentRuns t a s)))" using agentRuns_sorted by (simp add: sorted_wrt_rev sorted_wrt_map)
  moreover have "distinct (map run_CreatedAt (rev (agentRuns t a s)))" using d by (simp add: rev_map[symmetric])
  ultimately have "sorted_wrt (<) (map run_CreatedAt (rev (agentRuns t a s)))" by (simp add: strict_sorted_iff)
  then show "sorted_wrt (\<lambda>x y. run_CreatedAt y < run_CreatedAt x) (agentRuns t a s)"
    by (simp add: sorted_wrt_rev sorted_wrt_map)
qed

definition twoRuns :: fileRunStore where
  "twoRuns = putRun (sampleRun ''t'' ''a'' ''r2'' ''2'') (putRun (sampleRun ''t'' ''a'' ''r1'' ''1'') emptyRunStore)"

theorem list_pages_complete_witness:
  "followPages 2 ''t'' ''a'' 1 [] (\<lambda>n. twoRuns\<lparr>fr_runs := rev (fr_runs twoRuns)\<rparr>) =
     [sampleRun ''t'' ''a'' ''r2'' ''2'', sampleRun ''t'' ''a'' ''r1'' ''1'']"
proof -
  have inv: "storeInv twoRuns"
    unfolding twoRuns_def by (intro putRun_inv emptyRunStore_inv) (simp_all add: validateRun_def sampleRun_def)
  have runs: "map snd (fr_runs twoRuns) = [sampleRun ''t'' ''a'' ''r1'' ''1'', sampleRun ''t'' ''a'' ''r2'' ''2'']"
    by (simp add: twoRuns_def sample_simps)
  have L: "agentRuns ''t'' ''a'' twoRuns = [sampleRun ''t'' ''a'' ''r2'' ''2'', sampleRun ''t'' ''a'' ''r1'' ''1'']"
    by (simp add: agentRuns_def runs sortNewest_def) (simp add: sampleRun_def)
  show ?thesis
    using list_pages_complete[OF inv, of "''t''" "''a''" "\<lambda>n. twoRuns\<lparr>fr_runs := rev (fr_runs twoRuns)\<rparr>" 1 2, THEN conjunct2]
    unfolding L by (simp add: sampleRun_def)
qed

text \<open>The event log refines a list of events: from a new log, appends that touch at most 1000 runs never panic,
  and a query for a run after a sequence number returns exactly the appended events of that run with a larger sequence
  number (all of them for a cursor of zero or less), in the order of the appends, whether or not the file writes
  succeeded.\<close>
theorem event_log_replay:
  assumes "card ((\<lambda>x. runKey (ev_TenantID (snd x)) (ev_RunID (snd x))) ` set es) \<le> 1000"
  shows "\<exists>s. appendAll es NewFileEventLogStore = Some s \<and>
    (\<forall>t i q. QueryFromSequence t i q s =
       filter (\<lambda>e. runKey (ev_TenantID e) (ev_RunID e) = runKey t i \<and> (q \<le> 0 \<or> q < ev_Sequence e)) (map snd es))"
proof -
  have "card (fst ` set (el_runs NewFileEventLogStore) \<union> eventKey ` snd ` set es) \<le> maxRunsInMemory"
    using assms by (simp add: NewFileEventLogStore_def maxRunsInMemory_def image_image)
  then obtain s where s: "appendAll es NewFileEventLogStore = Some s"
    "\<forall>k. zget [] (el_runs s) k = filter (\<lambda>e. eventKey e = k) (map snd es)"
    using appendAll_view[OF NewFileEventLogStore_inv] by (auto simp: NewFileEventLogStore_def)
  have "QueryFromSequence t i q s = filter (\<lambda>e. eventKey e = runKey t i \<and> (q \<le> 0 \<or> q < ev_Sequence e)) (map snd es)" for t i q
    unfolding QueryFromSequence_def Let_def s(2)[rule_format] by (auto simp: filter_filter intro!: filter_cong)
  with s(1) show ?thesis by blast
qed

definition sampleEvent :: "string \<Rightarrow> string \<Rightarrow> int \<Rightarrow> event" where
  "sampleEvent t i n = \<lparr>ev_EventID = ''e'', ev_Sequence = n, ev_Time = ''now'', ev_Type = ''step'', ev_TenantID = t, ev_AgentID = ''a'',
     ev_RunID = i, ev_StepID = [], ev_Trace = \<lparr>tc_Traceparent = [], tc_SpanID = [], tc_Tracestate = []\<rparr>, ev_Payload = []\<rparr>"

theorem event_log_replay_witness:
  "\<exists>s. appendAll [(None, sampleEvent ''t'' ''r'' 1), (Some ''io'', sampleEvent ''t'' ''r'' 2), (None, sampleEvent ''t'' ''x'' 1)]
        NewFileEventLogStore = Some s \<and>
     QueryFromSequence ''t'' ''r'' 1 s = [sampleEvent ''t'' ''r'' 2]"
proof -
  let ?es = "[(None, sampleEvent ''t'' ''r'' 1), (Some ''io'', sampleEvent ''t'' ''r'' 2), (None, sampleEvent ''t'' ''x'' 1)]"
  have "card ((\<lambda>x. runKey (ev_TenantID (snd x)) (ev_RunID (snd x))) ` set ?es) \<le> 1000"
    by (simp add: sampleEvent_def runKey_def)
  from event_log_replay[OF this] obtain s where s: "appendAll ?es NewFileEventLogStore = Some s"
    "QueryFromSequence ''t'' ''r'' 1 s =
       filter (\<lambda>e. runKey (ev_TenantID e) (ev_RunID e) = runKey ''t'' ''r'' \<and> ((1::int) \<le> 0 \<or> 1 < ev_Sequence e)) (map snd ?es)"
    by blast
  have "filter (\<lambda>e. runKey (ev_TenantID e) (ev_RunID e) = runKey ''t'' ''r'' \<and> ((1::int) \<le> 0 \<or> 1 < ev_Sequence e)) (map snd ?es) =
      [sampleEvent ''t'' ''r'' 2]"
    by (simp add: sampleEvent_def runKey_def)
  with s show ?thesis by metis
qed

subsection \<open>Behaviours at variance with the comments\<close>

text \<open>A full store that takes a new run loses its least recently used run from memory and from the file.\<close>

lemma evicted_run_lost:
  assumes "storeInv s" "length (fr_runs s) = maxRunsInRunStore" "validateRun r" "mget (fr_runs s) (keyOf r) = None"
  shows "\<exists>s' disk. Run_Create None None r s = (None, s') \<and> fr_disk s' = Some disk \<and>
    mget (fr_runs s') (hd (fr_runOrder s)) = None \<and> mget disk (hd (fr_runOrder s)) = None"
proof -
  have "fr_runOrder s \<noteq> []" using assms(2) storeInvD(6)[OF assms(1)] by (auto simp: maxRunsInRunStore_def)
  then have "hd (fr_runOrder s) \<in> fst ` set (fr_runs s)" using storeInvD(4)[OF assms(1)] hd_in_set by blast
  then have "hd (fr_runOrder s) \<noteq> keyOf r" using assms(4) unfolding mget_None_iff by metis
  then have "mget (fr_runs (putRun r s)) (hd (fr_runOrder s)) = None"
    using putRun_get[OF assms(1,3)] assms(2,4) by simp
  then show ?thesis using assms(3,4) by (simp add: Run_Create_def persistRuns_def)
qed

text \<open>An append to a run that was evicted from memory replaces its file by the single new event.\<close>

lemma event_log_overwrite:
  assumes "logInv s" "mget (el_runs s) (eventKey e) = None"
  shows "\<exists>s'. EventLog_Append None e s = Some (None, s') \<and> mget (el_disk s') (eventKey e) = Some [e]"
proof -
  have k: "eventKey e \<notin> set (el_runOrder s)" "length (el_runOrder s) = length (el_runs s)" "length (el_runs s) \<le> maxRunsInMemory"
    using assms order_length[of "el_runs s" "el_runOrder s"] by (auto simp: logInv_def mget_None_iff)
  have "length (logRuns e s) = Suc (length (el_runs s))" using assms(2) by (simp add: logRuns_def length_mput mget_None_iff)
  then have "logExcess e s \<le> length (el_runOrder s)" using k(2,3) by (simp add: logExcess_def maxRunsInMemory_def)
  then have "eventKey e \<notin> set (take (logExcess e s) (logOrder (eventKey e) s))"
    using k(1) assms(2) by (auto simp: logOrder_def dest: in_set_takeD)
  then show ?thesis using assms(2) by (simp add: EventLog_Append_eq[OF assms(1)] Let_def logRuns_def zget_def fold_mdel_get)
qed

text \<open>Creation times have the resolution of a second, and requests iterate a Go map: of two runs created in the same second a
  page boundary can lose one.\<close>

definition tiedRuns :: fileRunStore where
  "tiedRuns = putRun (sampleRun ''t'' ''a'' ''r2'' ''1'') (putRun (sampleRun ''t'' ''a'' ''r1'' ''1'') emptyRunStore)"

lemma tied_runs_skipped:
  "followPages 3 ''t'' ''a'' 1 [] (\<lambda>n. if n = 2 then tiedRuns else tiedRuns\<lparr>fr_runs := rev (fr_runs tiedRuns)\<rparr>) =
     [sampleRun ''t'' ''a'' ''r1'' ''1'']"
proof -
  have runs: "map snd (fr_runs tiedRuns) = [sampleRun ''t'' ''a'' ''r1'' ''1'', sampleRun ''t'' ''a'' ''r2'' ''1'']"
    by (simp add: tiedRuns_def sample_simps)
  then have "agentRuns ''t'' ''a'' tiedRuns = [sampleRun ''t'' ''a'' ''r1'' ''1'', sampleRun ''t'' ''a'' ''r2'' ''1'']"
    "agentRuns ''t'' ''a'' (tiedRuns\<lparr>fr_runs := rev (fr_runs tiedRuns)\<rparr>) = [sampleRun ''t'' ''a'' ''r2'' ''1'', sampleRun ''t'' ''a'' ''r1'' ''1'']"
    by (simp_all add: agentRuns_def sortNewest_def rev_map[symmetric]) (simp_all add: sampleRun_def)
  then show ?thesis by (simp add: numeral_eq_Suc ListByAgent_def clampLimit_def) (simp add: sampleRun_def)
qed

text \<open>The dot segments of a tenant identifier are cleaned away, so a lookup can name another tenant's run.\<close>

lemma storageKey_cross_tenant:
  "fst (Run_Get None ''x/../acme'' ''r1'' (putRun (sampleRun ''acme'' ''a'' ''r1'' ''1'') emptyRunStore)) =
     Inr (Some (sampleRun ''acme'' ''a'' ''r1'' ''1''))"
  by (simp add: sample_simps)

end
