(* ===== verification/Event_Sink.thy ===== *)
theory Event_Sink
  imports Run_Store "HOL-Library.Sublist"
begin

text \<open>
  The per-run event sink (agentorchestrator/events.go): numbering of events, the durable log behind it, and the bounded
  channels of the streaming subscribers.

  \<^item> A Go channel is a record of its buffered elements and whether it was closed; channels live in a store of the sink
    and are named by numbers, so the identity test of \<open>Unsubscribe\<close> is equality of names.
  \<^item> Sending on a closed channel and closing a channel twice panic in Go: those branches are \<open>None\<close>.
  \<^item> Every operation holds the mutex of the sink, so a run of the sink is a list of operations (\<open>sinkRun\<close>), receptions by
    the subscribers included, in any interleaving.
\<close>

subsection \<open>Channels and the sink\<close>

definition subscriberBufSize :: nat where "subscriberBufSize = 64"

record channel =
  ch_buf :: "event list"
  ch_closed :: bool

record eventSink =
  sk_events :: "event list"
  sk_seq :: int
  sk_runID :: string
  sk_tenant :: string
  sk_agent :: string
  sk_eventLog :: bool
  sk_subscribers :: "nat list"
  sk_done :: bool
  sk_droppedEvents :: int
  sk_chans :: "(nat, channel) gomap"
  sk_nextChan :: nat

definition NewEventSink :: "string \<Rightarrow> string \<Rightarrow> string \<Rightarrow> eventSink" where
  "NewEventSink tenantID agentID runID =
     \<lparr>sk_events = [], sk_seq = 0, sk_runID = runID, sk_tenant = tenantID, sk_agent = agentID, sk_eventLog = False,
      sk_subscribers = [], sk_done = False, sk_droppedEvents = 0, sk_chans = [], sk_nextChan = 0\<rparr>"

definition NewEventSinkWithLog :: "string \<Rightarrow> string \<Rightarrow> string \<Rightarrow> eventSink" where
  "NewEventSinkWithLog tenantID agentID runID = (NewEventSink tenantID agentID runID)\<lparr>sk_eventLog := True\<rparr>"

definition closedChan :: channel where
  "closedChan = \<lparr>ch_buf = [], ch_closed = True\<rparr>"

definition chanOf :: "eventSink \<Rightarrow> nat \<Rightarrow> channel" where
  "chanOf s c = zget closedChan (sk_chans s) c"

definition closeChan :: "nat \<Rightarrow> eventSink \<Rightarrow> eventSink option" where
  "closeChan c s =
     (if ch_closed (chanOf s c) then None
      else Some (s\<lparr>sk_chans := mput c ((chanOf s c)\<lparr>ch_closed := True\<rparr>) (sk_chans s)\<rparr>))"

definition sendOrDrop :: "event \<Rightarrow> nat \<Rightarrow> eventSink \<Rightarrow> eventSink option" where
  "sendOrDrop env c s =
     (if ch_closed (chanOf s c) then None
      else if length (ch_buf (chanOf s c)) < subscriberBufSize
      then Some (s\<lparr>sk_chans := mput c ((chanOf s c)\<lparr>ch_buf := ch_buf (chanOf s c) @ [env]\<rparr>) (sk_chans s)\<rparr>)
      else Some (s\<lparr>sk_droppedEvents := sk_droppedEvents s + 1\<rparr>))"

fun notifySubscribers :: "event \<Rightarrow> nat list \<Rightarrow> eventSink \<Rightarrow> eventSink option" where
  "notifySubscribers env [] s = Some s"
| "notifySubscribers env (c # cs) s =
     (case sendOrDrop env c s of None \<Rightarrow> None | Some s' \<Rightarrow> notifySubscribers env cs s')"

definition newEvent :: "string \<Rightarrow> string \<Rightarrow> string \<Rightarrow> (string, json) gomap \<Rightarrow> eventSink \<Rightarrow> event" where
  "newEvent eid now eventType payload s =
     \<lparr>ev_EventID = eid, ev_Sequence = sk_seq s + 1, ev_Time = now, ev_Type = eventType, ev_TenantID = sk_tenant s,
      ev_AgentID = sk_agent s, ev_RunID = sk_runID s, ev_StepID = [],
      ev_Trace = \<lparr>tc_Traceparent = ''00-00000000000000000000000000000000-0000000000000000-01'', tc_SpanID = [], tc_Tracestate = []\<rparr>,
      ev_Payload = payload\<rparr>"

definition Emit ::
  "string \<Rightarrow> string \<Rightarrow> string option \<Rightarrow> string \<Rightarrow> (string, json) gomap \<Rightarrow> eventSink \<Rightarrow> eventLogStore \<Rightarrow>
   (eventSink \<times> eventLogStore) option" where
  "Emit eid now io eventType payload s lg =
     (let env = newEvent eid now eventType payload s;
          s1 = s\<lparr>sk_seq := sk_seq s + 1, sk_events := sk_events s @ [env]\<rparr> in
      case notifySubscribers env (sk_subscribers s1) s1 of
        None \<Rightarrow> None
      | Some s2 \<Rightarrow>
          if sk_eventLog s2
          then (case EventLog_Append io env lg of None \<Rightarrow> None | Some (_, lg') \<Rightarrow> Some (s2, lg'))
          else Some (s2, lg))"

definition Events :: "eventSink \<Rightarrow> event list" where
  "Events s = sk_events s"

definition EventsFromSequence :: "int \<Rightarrow> eventSink \<Rightarrow> event list" where
  "EventsFromSequence afterSequence s = filter (\<lambda>e. ev_Sequence e > afterSequence) (sk_events s)"

definition Subscribe :: "eventSink \<Rightarrow> nat \<times> eventSink" where
  "Subscribe s =
     (let c = sk_nextChan s in
      (c, s\<lparr>sk_nextChan := c + 1, sk_chans := mput c \<lparr>ch_buf = [], ch_closed = False\<rparr> (sk_chans s),
            sk_subscribers := sk_subscribers s @ [c]\<rparr>))"

definition Unsubscribe :: "nat \<Rightarrow> eventSink \<Rightarrow> eventSink option" where
  "Unsubscribe c s =
     (case remove_first (\<lambda>x. x = c) (sk_subscribers s) of
        None \<Rightarrow> Some s
      | Some subs \<Rightarrow> closeChan c (s\<lparr>sk_subscribers := subs\<rparr>))"

fun closeAll :: "nat list \<Rightarrow> eventSink \<Rightarrow> eventSink option" where
  "closeAll [] s = Some s"
| "closeAll (c # cs) s = (case closeChan c s of None \<Rightarrow> None | Some s' \<Rightarrow> closeAll cs s')"

definition Sink_Done :: "eventSink \<Rightarrow> eventSink option" where
  "Sink_Done s =
     (if sk_done s then Some s
      else map_option (\<lambda>s'. s'\<lparr>sk_subscribers := []\<rparr>) (closeAll (sk_subscribers s) (s\<lparr>sk_done := True\<rparr>)))"

text \<open>The receiver's side of a channel: the next buffered element, or the close once the buffer is empty.\<close>

datatype recvResult = Received event | ChanClosed | WouldBlock

definition Recv :: "nat \<Rightarrow> eventSink \<Rightarrow> recvResult \<times> eventSink" where
  "Recv c s =
     (case ch_buf (chanOf s c) of
        e # es \<Rightarrow> (Received e, s\<lparr>sk_chans := mput c ((chanOf s c)\<lparr>ch_buf := es\<rparr>) (sk_chans s)\<rparr>)
      | [] \<Rightarrow> (if ch_closed (chanOf s c) then ChanClosed else WouldBlock, s))"

subsection \<open>Runs of the sink\<close>

datatype sinkOp =
    OpEmit string string "string option" string "(string, json) gomap"
  | OpSubscribe
  | OpUnsubscribe nat
  | OpRecv nat
  | OpDone

fun sinkStep :: "sinkOp \<Rightarrow> eventSink \<Rightarrow> eventLogStore \<Rightarrow> ((nat \<times> event) list \<times> eventSink \<times> eventLogStore) option" where
  "sinkStep (OpEmit eid now io ty pl) s lg = map_option (\<lambda>(s', lg'). ([], s', lg')) (Emit eid now io ty pl s lg)"
| "sinkStep OpSubscribe s lg = Some ([], snd (Subscribe s), lg)"
| "sinkStep (OpUnsubscribe c) s lg = map_option (\<lambda>s'. ([], s', lg)) (Unsubscribe c s)"
| "sinkStep (OpRecv c) s lg =
     (case Recv c s of (Received e, s') \<Rightarrow> Some ([(c, e)], s', lg) | (_, s') \<Rightarrow> Some ([], s', lg))"
| "sinkStep OpDone s lg = map_option (\<lambda>s'. ([], s', lg)) (Sink_Done s)"

fun sinkRun :: "sinkOp list \<Rightarrow> eventSink \<Rightarrow> eventLogStore \<Rightarrow> ((nat \<times> event) list \<times> eventSink \<times> eventLogStore) option" where
  "sinkRun [] s lg = Some ([], s, lg)"
| "sinkRun (op # ops) s lg =
     (case sinkStep op s lg of
        None \<Rightarrow> None
      | Some (out, s', lg') \<Rightarrow> map_option (\<lambda>(outs, r). (out @ outs, r)) (sinkRun ops s' lg'))"

definition sinkInv :: "eventSink \<Rightarrow> bool" where
  "sinkInv s \<longleftrightarrow> map ev_Sequence (sk_events s) = map int [1..<Suc (length (sk_events s))] \<and>
     sk_seq s = int (length (sk_events s)) \<and> distinct (sk_subscribers s) \<and>
     (\<forall>c\<in>set (sk_subscribers s). c < sk_nextChan s \<and> \<not> ch_closed (chanOf s c))"


subsection \<open>Facts on channels\<close>

lemma chanOf_mput [simp]:
  "chanOf (s\<lparr>sk_chans := mput c ch (sk_chans s)\<rparr>) c' = (if c' = c then ch else chanOf s c')"
  by (simp add: chanOf_def)

lemma chanOf_upd [simp]:
  "chanOf (s\<lparr>sk_droppedEvents := d\<rparr>) = chanOf s" "chanOf (s\<lparr>sk_seq := n, sk_events := es\<rparr>) = chanOf s"
  "chanOf (s\<lparr>sk_subscribers := cs\<rparr>) = chanOf s" "chanOf (s\<lparr>sk_done := b\<rparr>) = chanOf s"
  by (auto simp: chanOf_def fun_eq_iff)

definition sameButChans :: "eventSink \<Rightarrow> eventSink \<Rightarrow> bool" where
  "sameButChans s s' \<longleftrightarrow> s'\<lparr>sk_chans := sk_chans s, sk_droppedEvents := sk_droppedEvents s\<rparr> = s"

lemma sameButChansD:
  assumes "sameButChans s s'"
  shows "sk_events s' = sk_events s" "sk_seq s' = sk_seq s" "sk_subscribers s' = sk_subscribers s" "sk_done s' = sk_done s"
    "sk_nextChan s' = sk_nextChan s" "sk_eventLog s' = sk_eventLog s" "sk_tenant s' = sk_tenant s" "sk_runID s' = sk_runID s"
  using assms by (cases s; cases s'; simp add: sameButChans_def)+

lemma sendOrDrop_open:
  assumes "\<not> ch_closed (chanOf s c)"
  obtains s' where "sendOrDrop env c s = Some s'" "sameButChans s s'"
    "\<And>x. chanOf s' x = (if x = c \<and> length (ch_buf (chanOf s c)) < subscriberBufSize
        then (chanOf s c)\<lparr>ch_buf := ch_buf (chanOf s c) @ [env]\<rparr> else chanOf s x)"
    "sk_droppedEvents s' = sk_droppedEvents s + (if length (ch_buf (chanOf s c)) < subscriberBufSize then 0 else 1)"
proof (cases "length (ch_buf (chanOf s c)) < subscriberBufSize")
  case True
  show thesis
    by (rule that[of "s\<lparr>sk_chans := mput c ((chanOf s c)\<lparr>ch_buf := ch_buf (chanOf s c) @ [env]\<rparr>) (sk_chans s)\<rparr>"])
      (use assms True in \<open>auto simp: sendOrDrop_def sameButChans_def\<close>)
next
  case False
  show thesis by (rule that[of "s\<lparr>sk_droppedEvents := sk_droppedEvents s + 1\<rparr>"]) (use assms False in \<open>auto simp: sendOrDrop_def sameButChans_def\<close>)
qed

lemma notifySubscribers_open:
  assumes "distinct cs" "\<forall>c\<in>set cs. \<not> ch_closed (chanOf s c)"
  shows "\<exists>s'. notifySubscribers env cs s = Some s' \<and> sameButChans s s' \<and>
    (\<forall>x. chanOf s' x = (if x \<in> set cs \<and> length (ch_buf (chanOf s x)) < subscriberBufSize
        then (chanOf s x)\<lparr>ch_buf := ch_buf (chanOf s x) @ [env]\<rparr> else chanOf s x)) \<and>
    sk_droppedEvents s' = sk_droppedEvents s + int (length (filter (\<lambda>c. \<not> length (ch_buf (chanOf s c)) < subscriberBufSize) cs))"
  using assms
proof (induction cs arbitrary: s)
  case (Cons c cs)
  obtain s1 where s1: "sendOrDrop env c s = Some s1" "sameButChans s s1"
    "\<And>x. chanOf s1 x = (if x = c \<and> length (ch_buf (chanOf s c)) < subscriberBufSize
        then (chanOf s c)\<lparr>ch_buf := ch_buf (chanOf s c) @ [env]\<rparr> else chanOf s x)"
    "sk_droppedEvents s1 = sk_droppedEvents s + (if length (ch_buf (chanOf s c)) < subscriberBufSize then 0 else 1)"
    by (rule sendOrDrop_open[of s c env]) (use Cons.prems in auto)
  have same: "chanOf s1 x = chanOf s x" if "x \<in> set cs" for x using that Cons.prems s1(3) by auto
  then have "\<forall>c\<in>set cs. \<not> ch_closed (chanOf s1 c)" using Cons.prems by auto
  with Cons.IH[of s1] Cons.prems(1) obtain s' where s': "notifySubscribers env cs s1 = Some s'" "sameButChans s1 s'"
    "\<And>x. chanOf s' x = (if x \<in> set cs \<and> length (ch_buf (chanOf s1 x)) < subscriberBufSize
        then (chanOf s1 x)\<lparr>ch_buf := ch_buf (chanOf s1 x) @ [env]\<rparr> else chanOf s1 x)"
    "sk_droppedEvents s' = sk_droppedEvents s1 + int (length (filter (\<lambda>c. \<not> length (ch_buf (chanOf s1 c)) < subscriberBufSize) cs))"
    by auto
  have "filter (\<lambda>c. \<not> length (ch_buf (chanOf s1 c)) < subscriberBufSize) cs =
      filter (\<lambda>c. \<not> length (ch_buf (chanOf s c)) < subscriberBufSize) cs"
    using same by (intro filter_cong) auto
  then have d: "sk_droppedEvents s' = sk_droppedEvents s +
      int (length (filter (\<lambda>c. \<not> length (ch_buf (chanOf s c)) < subscriberBufSize) (c # cs)))"
    using s'(4) s1(4) by auto
  have ch: "chanOf s' x = (if x \<in> set (c # cs) \<and> length (ch_buf (chanOf s x)) < subscriberBufSize
        then (chanOf s x)\<lparr>ch_buf := ch_buf (chanOf s x) @ [env]\<rparr> else chanOf s x)" for x
    using s'(3)[of x] s1(3)[of x] same[of x] Cons.prems(1) by (cases "x = c"; cases "x \<in> set cs") auto
  have "sameButChans s s'" using s1(2) s'(2) by (cases s; cases s1; cases s') (simp add: sameButChans_def)
  with d ch s1(1) s'(1) show ?case by auto
qed (simp add: sameButChans_def)

lemma Emit_spec:
  assumes "sinkInv s" "logInv lg"
  shows "\<exists>s' lg'. Emit eid now io ty pl s lg = Some (s', lg') \<and> logInv lg' \<and>
    sk_events s' = sk_events s @ [newEvent eid now ty pl s] \<and> sk_seq s' = sk_seq s + 1 \<and>
    sk_subscribers s' = sk_subscribers s \<and> sk_done s' = sk_done s \<and> sk_nextChan s' = sk_nextChan s \<and>
    (\<forall>x. chanOf s' x = (if x \<in> set (sk_subscribers s) \<and> length (ch_buf (chanOf s x)) < subscriberBufSize
        then (chanOf s x)\<lparr>ch_buf := ch_buf (chanOf s x) @ [newEvent eid now ty pl s]\<rparr> else chanOf s x)) \<and>
    sk_droppedEvents s' = sk_droppedEvents s +
      int (length (filter (\<lambda>c. \<not> length (ch_buf (chanOf s c)) < subscriberBufSize) (sk_subscribers s)))"
proof -
  define e where "e = newEvent eid now ty pl s"
  define s1 where "s1 = s\<lparr>sk_seq := sk_seq s + 1, sk_events := sk_events s @ [e]\<rparr>"
  have s1: "chanOf s1 = chanOf s" "sk_subscribers s1 = sk_subscribers s" "sk_droppedEvents s1 = sk_droppedEvents s"
    "sk_done s1 = sk_done s" "sk_nextChan s1 = sk_nextChan s" "sk_events s1 = sk_events s @ [e]" "sk_seq s1 = sk_seq s + 1"
    by (simp_all add: s1_def)
  have "distinct (sk_subscribers s1)" "\<forall>c\<in>set (sk_subscribers s1). \<not> ch_closed (chanOf s1 c)"
    using assms(1) by (simp_all add: s1 sinkInv_def)
  from notifySubscribers_open[OF this, of e] obtain s2 where n: "notifySubscribers e (sk_subscribers s1) s1 = Some s2"
    and same: "sameButChans s1 s2"
    and ch: "\<forall>x. chanOf s2 x = (if x \<in> set (sk_subscribers s) \<and> length (ch_buf (chanOf s x)) < subscriberBufSize
        then (chanOf s x)\<lparr>ch_buf := ch_buf (chanOf s x) @ [e]\<rparr> else chanOf s x)"
    and d: "sk_droppedEvents s2 = sk_droppedEvents s +
      int (length (filter (\<lambda>c. \<not> length (ch_buf (chanOf s c)) < subscriberBufSize) (sk_subscribers s)))"
    unfolding s1 by blast
  obtain err lg1 where l: "EventLog_Append io e lg = Some (err, lg1)" "logInv lg1"
    using EventLog_Append_inv[OF assms(2)] .
  let ?lg = "if sk_eventLog s2 then lg1 else lg"
  have "Emit eid now io ty pl s lg = Some (s2, ?lg)"
    using n l(1) unfolding Emit_def Let_def e_def[symmetric] s1_def[symmetric] by simp
  moreover have "logInv ?lg" using l(2) assms(2) by simp
  ultimately show ?thesis
    using ch d sameButChansD[OF same] unfolding s1 e_def[symmetric] by auto
qed

lemma closeChan_open:
  "\<not> ch_closed (chanOf s c) \<Longrightarrow>
   closeChan c s = Some (s\<lparr>sk_chans := mput c ((chanOf s c)\<lparr>ch_closed := True\<rparr>) (sk_chans s)\<rparr>)"
  by (simp add: closeChan_def)

lemma closeAll_open:
  assumes "distinct cs" "\<forall>c\<in>set cs. \<not> ch_closed (chanOf s c)"
  shows "\<exists>s'. closeAll cs s = Some s' \<and> sameButChans s s' \<and> sk_droppedEvents s' = sk_droppedEvents s \<and>
    (\<forall>x. chanOf s' x = (if x \<in> set cs then (chanOf s x)\<lparr>ch_closed := True\<rparr> else chanOf s x))"
  using assms
proof (induction cs arbitrary: s)
  case (Cons c cs)
  define s1 where "s1 = s\<lparr>sk_chans := mput c ((chanOf s c)\<lparr>ch_closed := True\<rparr>) (sk_chans s)\<rparr>"
  have c1: "closeChan c s = Some s1" using Cons.prems by (simp add: closeChan_open s1_def)
  have ch1: "chanOf s1 x = (if x = c then (chanOf s c)\<lparr>ch_closed := True\<rparr> else chanOf s x)" for x by (simp add: s1_def)
  have "\<forall>c\<in>set cs. \<not> ch_closed (chanOf s1 c)" using Cons.prems by (auto simp: ch1)
  with Cons.IH[of s1] Cons.prems(1) obtain s' where s': "closeAll cs s1 = Some s'" "sameButChans s1 s'"
    "sk_droppedEvents s' = sk_droppedEvents s1"
    "\<And>x. chanOf s' x = (if x \<in> set cs then (chanOf s1 x)\<lparr>ch_closed := True\<rparr> else chanOf s1 x)"
    by auto
  have "sameButChans s s'" using s'(2) unfolding s1_def by (cases s; cases s') (simp add: sameButChans_def)
  moreover have "chanOf s' x = (if x \<in> set (c # cs) then (chanOf s x)\<lparr>ch_closed := True\<rparr> else chanOf s x)" for x
    using s'(4)[of x] ch1[of x] Cons.prems(1) by (cases "x = c") auto
  moreover have "sk_droppedEvents s' = sk_droppedEvents s" using s'(3) by (simp add: s1_def)
  ultimately show ?case using c1 s'(1) by auto
qed (simp add: sameButChans_def)

subsection \<open>Invariant and delivery\<close>

lemma sinkInv_Emit:
  assumes "sinkInv s" "logInv lg" "Emit eid now io ty pl s lg = Some (s', lg')"
  shows "sinkInv s' \<and> logInv lg'"
  using Emit_spec[OF assms(1,2), of eid now io ty pl] assms(1,3)
  by (auto simp: sinkInv_def newEvent_def)

lemma sinkInv_Subscribe: "sinkInv s \<Longrightarrow> sinkInv (snd (Subscribe s))"
  by (auto simp: sinkInv_def Subscribe_def Let_def chanOf_def)

lemma Unsubscribe_spec:
  assumes "sinkInv s"
  shows "\<exists>s'. Unsubscribe c s = Some s' \<and> sk_subscribers s' = filter (\<lambda>x. x \<noteq> c) (sk_subscribers s) \<and>
    (\<forall>x. x \<noteq> c \<longrightarrow> chanOf s' x = chanOf s x) \<and> sk_events s' = sk_events s \<and> sk_seq s' = sk_seq s \<and>
    sk_nextChan s' = sk_nextChan s \<and> sk_droppedEvents s' = sk_droppedEvents s \<and> sk_done s' = sk_done s"
proof (cases "remove_first (\<lambda>x. x = c) (sk_subscribers s)")
  case None
  then have "filter (\<lambda>x. x \<noteq> c) (sk_subscribers s) = sk_subscribers s"
    by (auto simp: remove_first_None_iff intro: filter_True)
  with None show ?thesis by (simp add: Unsubscribe_def)
next
  case (Some subs)
  have d: "distinct (sk_subscribers s)" and o: "c \<in> set (sk_subscribers s) \<Longrightarrow> \<not> ch_closed (chanOf s c)"
    using assms by (auto simp: sinkInv_def)
  have "subs = filter (\<lambda>x. x \<noteq> c) (sk_subscribers s)" by (rule remove_first_filter[OF d Some])
  moreover have "c \<in> set (sk_subscribers s)" using Some by (auto simp: remove_first_Some_iff)
  ultimately show ?thesis using Some o
    by (simp add: Unsubscribe_def closeChan_open) (simp add: chanOf_def)
qed

lemma sinkInv_Unsubscribe: "sinkInv s \<Longrightarrow> Unsubscribe c s = Some s' \<Longrightarrow> sinkInv s'"
  using Unsubscribe_spec[of s c] by (auto simp: sinkInv_def)

lemma Sink_Done_spec:
  assumes "sinkInv s"
  shows "\<exists>s'. Sink_Done s = Some s' \<and> sinkInv s' \<and> sk_events s' = sk_events s \<and> sk_done s' \<and>
    (\<not> sk_done s \<longrightarrow> (\<forall>c\<in>set (sk_subscribers s). ch_closed (chanOf s' c) \<and> ch_buf (chanOf s' c) = ch_buf (chanOf s c)))"
proof (cases "sk_done s")
  case False
  have "distinct (sk_subscribers s)" "\<forall>c\<in>set (sk_subscribers s). \<not> ch_closed (chanOf (s\<lparr>sk_done := True\<rparr>) c)"
    using assms by (simp_all add: sinkInv_def)
  from closeAll_open[OF this] obtain s1 where s1: "closeAll (sk_subscribers s) (s\<lparr>sk_done := True\<rparr>) = Some s1"
    "sameButChans (s\<lparr>sk_done := True\<rparr>) s1"
    "\<forall>x. chanOf s1 x = (if x \<in> set (sk_subscribers s) then (chanOf s x)\<lparr>ch_closed := True\<rparr> else chanOf s x)" by auto
  have "Sink_Done s = Some (s1\<lparr>sk_subscribers := []\<rparr>)" using False s1(1) by (simp add: Sink_Done_def)
  with s1(3) sameButChansD[OF s1(2)] assms show ?thesis by (auto simp: sinkInv_def)
qed (use assms in \<open>simp add: Sink_Done_def\<close>)

lemma Recv_spec:
  "sk_events (snd (Recv c s)) = sk_events s \<and> sk_seq (snd (Recv c s)) = sk_seq s \<and>
   sk_subscribers (snd (Recv c s)) = sk_subscribers s \<and> sk_nextChan (snd (Recv c s)) = sk_nextChan s \<and>
   sk_droppedEvents (snd (Recv c s)) = sk_droppedEvents s \<and> sk_done (snd (Recv c s)) = sk_done s \<and>
   (\<forall>x. ch_closed (chanOf (snd (Recv c s)) x) = ch_closed (chanOf s x) \<and>
        ch_buf (chanOf (snd (Recv c s)) x) = (if x = c then tl (ch_buf (chanOf s x)) else ch_buf (chanOf s x))) \<and>
   (case fst (Recv c s) of Received e \<Rightarrow> ch_buf (chanOf s c) = e # tl (ch_buf (chanOf s c)) | _ \<Rightarrow> ch_buf (chanOf s c) = [])"
  by (cases "ch_buf (chanOf s c)") (auto simp: Recv_def)

lemma sinkInv_Recv: "sinkInv s \<Longrightarrow> sinkInv (snd (Recv c s))"
  using Recv_spec[of c s] by (simp add: sinkInv_def)

definition outsOf :: "nat \<Rightarrow> (nat \<times> event) list \<Rightarrow> event list" where
  "outsOf c outs = map snd (filter (\<lambda>(x, e). x = c) outs)"

lemma outsOf_simps [simp]: "outsOf c [] = []" "outsOf c (xs @ ys) = outsOf c xs @ outsOf c ys"
  "outsOf c [(x, e)] = (if x = c then [e] else [])"
  by (auto simp: outsOf_def)

definition keepsOpen :: "nat \<Rightarrow> sinkOp \<Rightarrow> bool" where
  "keepsOpen c op \<longleftrightarrow> op \<noteq> OpUnsubscribe c \<and> op \<noteq> OpDone"

definition delivered :: "nat \<Rightarrow> (nat \<times> event) list \<Rightarrow> eventSink \<Rightarrow> eventSink \<Rightarrow> bool" where
  "delivered c outs s s' \<longleftrightarrow>
     (\<exists>new. sk_events s' = sk_events s @ new \<and> sk_droppedEvents s \<le> sk_droppedEvents s' \<and> c \<in> set (sk_subscribers s') \<and>
        subseq (outsOf c outs @ ch_buf (chanOf s' c)) (ch_buf (chanOf s c) @ new) \<and>
        (sk_droppedEvents s' = sk_droppedEvents s \<longrightarrow> outsOf c outs @ ch_buf (chanOf s' c) = ch_buf (chanOf s c) @ new))"

lemma delivered_trans:
  assumes "delivered c outs1 s s1" "delivered c outs2 s1 s2"
  shows "delivered c (outs1 @ outs2) s s2"
proof -
  obtain n1 where n1: "sk_events s1 = sk_events s @ n1" "sk_droppedEvents s \<le> sk_droppedEvents s1"
    "subseq (outsOf c outs1 @ ch_buf (chanOf s1 c)) (ch_buf (chanOf s c) @ n1)"
    "sk_droppedEvents s1 = sk_droppedEvents s \<longrightarrow> outsOf c outs1 @ ch_buf (chanOf s1 c) = ch_buf (chanOf s c) @ n1"
    using assms(1) unfolding delivered_def by blast
  obtain n2 where n2: "sk_events s2 = sk_events s1 @ n2" "sk_droppedEvents s1 \<le> sk_droppedEvents s2" "c \<in> set (sk_subscribers s2)"
    "subseq (outsOf c outs2 @ ch_buf (chanOf s2 c)) (ch_buf (chanOf s1 c) @ n2)"
    "sk_droppedEvents s2 = sk_droppedEvents s1 \<longrightarrow> outsOf c outs2 @ ch_buf (chanOf s2 c) = ch_buf (chanOf s1 c) @ n2"
    using assms(2) unfolding delivered_def by blast
  have "subseq (outsOf c outs1 @ (outsOf c outs2 @ ch_buf (chanOf s2 c))) (outsOf c outs1 @ (ch_buf (chanOf s1 c) @ n2))"
    by (rule list_emb_append_mono[OF subseq_order.order_refl n2(4)])
  also have "subseq ((outsOf c outs1 @ ch_buf (chanOf s1 c)) @ n2) ((ch_buf (chanOf s c) @ n1) @ n2)"
    by (rule list_emb_append_mono[OF n1(3) subseq_order.order_refl])
  then have "subseq (outsOf c outs1 @ (ch_buf (chanOf s1 c) @ n2)) (ch_buf (chanOf s c) @ (n1 @ n2))" by simp
  finally have "subseq (outsOf c (outs1 @ outs2) @ ch_buf (chanOf s2 c)) (ch_buf (chanOf s c) @ (n1 @ n2))" by simp
  moreover have "outsOf c (outs1 @ outs2) @ ch_buf (chanOf s2 c) = ch_buf (chanOf s c) @ (n1 @ n2)"
    if "sk_droppedEvents s2 = sk_droppedEvents s"
  proof -
    have "sk_droppedEvents s2 = sk_droppedEvents s1" "sk_droppedEvents s1 = sk_droppedEvents s" using that n1(2) n2(2) by auto
    then have "outsOf c outs2 @ ch_buf (chanOf s2 c) = ch_buf (chanOf s1 c) @ n2"
      "outsOf c outs1 @ ch_buf (chanOf s1 c) = ch_buf (chanOf s c) @ n1" using n1(4) n2(5) by auto
    then show ?thesis by (metis append.assoc outsOf_simps(2))
  qed
  ultimately show ?thesis unfolding delivered_def using n1(1,2) n2(1-3) by (intro exI[of _ "n1 @ n2"]) auto
qed

lemma delivered_Emit:
  assumes "sinkInv s" "logInv lg" "c \<in> set (sk_subscribers s)" "Emit eid now io ty pl s lg = Some (s', lg')"
  shows "delivered c [] s s'"
proof -
  define e where "e = newEvent eid now ty pl s"
  let ?full = "\<lambda>c. \<not> length (ch_buf (chanOf s c)) < subscriberBufSize"
  have E: "sk_events s' = sk_events s @ [e]" "sk_subscribers s' = sk_subscribers s"
    "chanOf s' c = (if length (ch_buf (chanOf s c)) < subscriberBufSize
        then (chanOf s c)\<lparr>ch_buf := ch_buf (chanOf s c) @ [e]\<rparr> else chanOf s c)"
    "sk_droppedEvents s' = sk_droppedEvents s + int (length (filter ?full (sk_subscribers s)))"
    using Emit_spec[OF assms(1,2), of eid now io ty pl] assms(3,4) by (simp_all add: e_def)
  show ?thesis
  proof (cases "?full c")
    case True
    then have "filter ?full (sk_subscribers s) \<noteq> []" using assms(3) by (auto simp: filter_empty_conv)
    then have "sk_droppedEvents s' \<noteq> sk_droppedEvents s" using E(4) by auto
    with True E assms(3) show ?thesis unfolding delivered_def by (intro exI[of _ "[e]"]) auto
  next
    case False
    with E assms(3) show ?thesis unfolding delivered_def by (intro exI[of _ "[e]"]) auto
  qed
qed

lemma delivered_same:
  assumes "sk_events s' = sk_events s" "sk_droppedEvents s' = sk_droppedEvents s" "c \<in> set (sk_subscribers s')"
    and "outsOf c outs @ ch_buf (chanOf s' c) = ch_buf (chanOf s c)"
  shows "delivered c outs s s'"
  using assms unfolding delivered_def by (intro exI[of _ "[]"]) simp

lemma delivered_Received:
  assumes "fst (Recv d s) = Received e" "c \<in> set (sk_subscribers s)"
  shows "delivered c [(d, e)] s (snd (Recv d s))"
proof (rule delivered_same)
  note R = Recv_spec[of d s]
  have "\<exists>es. ch_buf (chanOf s d) = e # es"
    using assms(1) by (auto simp: Recv_def split: list.splits if_splits)
  then obtain es where b: "ch_buf (chanOf s d) = e # es" ..
  have "ch_buf (chanOf (snd (Recv d s)) c) = (if c = d then tl (ch_buf (chanOf s c)) else ch_buf (chanOf s c))"
    using R by blast
  with b show "outsOf c [(d, e)] @ ch_buf (chanOf (snd (Recv d s)) c) = ch_buf (chanOf s c)"
    by (cases "c = d") auto
qed (use Recv_spec[of d s] assms(2) in simp_all)

lemma sinkStep_ok:
  assumes "sinkInv s" "logInv lg"
  shows "\<exists>out s' lg'. sinkStep op s lg = Some (out, s', lg') \<and> sinkInv s' \<and> logInv lg' \<and>
    (c \<in> set (sk_subscribers s) \<longrightarrow> keepsOpen c op \<longrightarrow> delivered c out s s')"
proof (cases op)
  case (OpEmit eid now io ty pl)
  obtain s' lg' where e: "Emit eid now io ty pl s lg = Some (s', lg')" using Emit_spec[OF assms, of eid now io ty pl] by blast
  with OpEmit sinkInv_Emit[OF assms e] delivered_Emit[OF assms _ e] show ?thesis by auto
next
  case OpSubscribe
  have "delivered c [] s (snd (Subscribe s))" if "c \<in> set (sk_subscribers s)"
    using that assms(1) unfolding delivered_def
    by (intro exI[of _ "[]"]) (auto simp: Subscribe_def Let_def sinkInv_def chanOf_def)
  with OpSubscribe assms sinkInv_Subscribe show ?thesis by auto
next
  case (OpUnsubscribe d)
  obtain s' where s': "Unsubscribe d s = Some s'" "sk_subscribers s' = filter (\<lambda>x. x \<noteq> d) (sk_subscribers s)"
    "\<forall>x. x \<noteq> d \<longrightarrow> chanOf s' x = chanOf s x" "sk_events s' = sk_events s" "sk_droppedEvents s' = sk_droppedEvents s"
    using Unsubscribe_spec[OF assms(1), of d] by blast
  then have "delivered c [] s s'" if "c \<in> set (sk_subscribers s)" "c \<noteq> d"
    using that unfolding delivered_def by (intro exI[of _ "[]"]) auto
  with OpUnsubscribe s'(1) assms sinkInv_Unsubscribe[OF assms(1) s'(1)] show ?thesis by (auto simp: keepsOpen_def)
next
  case (OpRecv d)
  have inv: "sinkInv (snd (Recv d s))" by (rule sinkInv_Recv[OF assms(1)])
  note R = Recv_spec[of d s]
  show ?thesis
  proof (cases "fst (Recv d s)")
    case (Received e)
    then have "delivered c [(d, e)] s (snd (Recv d s))" if "c \<in> set (sk_subscribers s)"
      using that by (intro delivered_Received)
    with OpRecv Received inv assms show ?thesis by (cases "Recv d s") auto
  next
    case ChanClosed
    then have "delivered c [] s (snd (Recv d s))" if "c \<in> set (sk_subscribers s)"
      using that R unfolding delivered_def by (intro exI[of _ "[]"]) auto
    with OpRecv ChanClosed inv assms show ?thesis by (cases "Recv d s") auto
  next
    case WouldBlock
    then have "delivered c [] s (snd (Recv d s))" if "c \<in> set (sk_subscribers s)"
      using that R unfolding delivered_def by (intro exI[of _ "[]"]) auto
    with OpRecv WouldBlock inv assms show ?thesis by (cases "Recv d s") auto
  qed
next
  case OpDone
  with Sink_Done_spec[OF assms(1)] assms(2) show ?thesis by (auto simp: keepsOpen_def)
qed

lemma sinkRun_ok:
  assumes "sinkInv s" "logInv lg" "c \<in> set (sk_subscribers s) \<longrightarrow> (\<forall>op\<in>set ops. keepsOpen c op)"
  shows "\<exists>outs s' lg'. sinkRun ops s lg = Some (outs, s', lg') \<and> sinkInv s' \<and> logInv lg' \<and>
    (c \<in> set (sk_subscribers s) \<longrightarrow> delivered c outs s s')"
  using assms
proof (induction ops arbitrary: s lg)
  case Nil
  then show ?case by (auto simp: delivered_def)
next
  case (Cons op ops)
  obtain out s1 lg1 where 1: "sinkStep op s lg = Some (out, s1, lg1)" "sinkInv s1" "logInv lg1"
    "c \<in> set (sk_subscribers s) \<longrightarrow> keepsOpen c op \<longrightarrow> delivered c out s s1"
    using sinkStep_ok[OF Cons.prems(1,2)] by blast
  show ?case
  proof (cases "c \<in> set (sk_subscribers s)")
    case True
    then have d: "delivered c out s s1" using 1(4) Cons.prems(3) by auto
    then obtain outs s' lg' where "sinkRun ops s1 lg1 = Some (outs, s', lg')" "sinkInv s'" "logInv lg'"
      "c \<in> set (sk_subscribers s1) \<longrightarrow> delivered c outs s1 s'"
      using Cons.IH[OF 1(2,3)] Cons.prems(3) True by fastforce
    moreover have "c \<in> set (sk_subscribers s1)" using d by (auto simp: delivered_def)
    ultimately show ?thesis using 1(1) delivered_trans[OF d] by auto
  next
    case False
    have "sinkInv s1 \<Longrightarrow> logInv lg1 \<Longrightarrow> \<exists>outs s' lg'. sinkRun ops s1 lg1 = Some (outs, s', lg') \<and> sinkInv s' \<and> logInv lg'"
      for s1 lg1
    proof (induction ops arbitrary: s1 lg1)
      case (Cons op ops)
      then show ?case using sinkStep_ok[OF Cons.prems, of op] by fastforce
    qed simp
    from this[OF 1(2,3)] False 1(1) show ?thesis by auto
  qed
qed

lemma filter_seq_drop:
  "(\<And>i. i < length es \<Longrightarrow> ev_Sequence (es ! i) = int (Suc i)) \<Longrightarrow> filter (\<lambda>e. int k < ev_Sequence e) es = drop k es"
proof (induction es rule: rev_induct)
  case (snoc e es)
  have "filter (\<lambda>e. int k < ev_Sequence e) es = drop k es"
  proof (rule snoc.IH)
    show "ev_Sequence (es ! i) = int (Suc i)" if "i < length es" for i
      using snoc.prems[of i] that by (simp add: nth_append)
  qed
  moreover have "ev_Sequence e = int (Suc (length es))" using snoc.prems[of "length es"] by simp
  ultimately show ?case by auto
qed simp

subsection \<open>Properties\<close>

lemma NewEventSink_inv [simp]: "sinkInv (NewEventSink t a r)" "sinkInv (NewEventSinkWithLog t a r)"
  by (simp_all add: sinkInv_def NewEventSink_def NewEventSinkWithLog_def)

text \<open>C12. A sink never panics and numbers its events without gaps: from a new sink, with or without a durable
  log, any sequence of emissions, subscriptions, unsubscriptions, receptions and completions runs to the end (no send on
  a closed channel, no double close, no index error in the log), the recorded events carry the sequence numbers 1, 2, 3
  and so on, and a reconnecting client that asks for the events after number \<open>k\<close> gets exactly the events beyond the
  first \<open>k\<close>.\<close>
theorem event_sink_gapless:
  assumes "s = NewEventSink t a r \<or> s = NewEventSinkWithLog t a r" "lg = NewFileEventLogStore"
  shows "\<exists>outs s' lg'. sinkRun ops s lg = Some (outs, s', lg') \<and>
    map ev_Sequence (sk_events s') = map int [1..<Suc (length (sk_events s'))] \<and>
    (\<forall>k. EventsFromSequence (int k) s' = drop k (Events s'))"
proof -
  have "sinkInv s" "sk_subscribers s = []"
    using assms(1) by (auto simp: NewEventSink_def NewEventSinkWithLog_def sinkInv_def)
  moreover have "logInv lg" using assms(2) NewFileEventLogStore_inv by simp
  ultimately obtain outs s' lg' where r: "sinkRun ops s lg = Some (outs, s', lg')" "sinkInv s'"
    using sinkRun_ok[of s lg 0 ops] by auto
  have seq: "map ev_Sequence (sk_events s') = map int [1..<Suc (length (sk_events s'))]"
    using r(2) by (simp add: sinkInv_def)
  have "ev_Sequence (sk_events s' ! i) = int (Suc i)" if "i < length (sk_events s')" for i
    using arg_cong[OF seq, of "\<lambda>xs. xs ! i"] that by (simp del: upt_Suc)
  then have "EventsFromSequence (int k) s' = drop k (Events s')" for k
    unfolding EventsFromSequence_def Events_def by (rule filter_seq_drop)
  with r(1) seq show ?thesis by blast
qed

theorem event_sink_gapless_witness:
  "\<exists>outs s' lg'. sinkRun [OpSubscribe, OpEmit ''e1'' ''now'' None ''run.started'' [], OpUnsubscribe 0, OpDone, OpEmit ''e2'' ''now'' None ''late'' []]
      (NewEventSinkWithLog ''t'' ''a'' ''r'') NewFileEventLogStore = Some (outs, s', lg') \<and>
    map ev_Sequence (sk_events s') = map int [1..<Suc (length (sk_events s'))] \<and> EventsFromSequence (int 1) s' = drop 1 (Events s')"
  using event_sink_gapless[of "NewEventSinkWithLog ''t'' ''a'' ''r''" "''t''" "''a''" "''r''" NewFileEventLogStore
      "[OpSubscribe, OpEmit ''e1'' ''now'' None ''run.started'' [], OpUnsubscribe 0, OpDone, OpEmit ''e2'' ''now'' None ''late'' []]"]
  by blast

text \<open>C13. Delivery to a subscriber: over any further operations that neither unsubscribe the channel nor complete
  the run, the events the subscriber received, followed by those still buffered for it, are a subsequence of what was
  buffered before followed by the events emitted since, in order and without duplicates; and when the counter of dropped
  events did not move, they are all of them.\<close>
theorem subscriber_delivery:
  assumes "sinkInv s" "logInv lg" "c \<in> set (sk_subscribers s)" "\<forall>op\<in>set ops. op \<noteq> OpUnsubscribe c \<and> op \<noteq> OpDone"
  shows "\<exists>outs s' lg' new. sinkRun ops s lg = Some (outs, s', lg') \<and> sk_events s' = sk_events s @ new \<and>
    subseq (map snd (filter (\<lambda>(x, e). x = c) outs) @ ch_buf (chanOf s' c)) (ch_buf (chanOf s c) @ new) \<and>
    (sk_droppedEvents s' = sk_droppedEvents s \<longrightarrow>
       map snd (filter (\<lambda>(x, e). x = c) outs) @ ch_buf (chanOf s' c) = ch_buf (chanOf s c) @ new)"
proof -
  have "c \<in> set (sk_subscribers s) \<longrightarrow> (\<forall>op\<in>set ops. keepsOpen c op)" using assms(4) by (simp add: keepsOpen_def)
  from sinkRun_ok[OF assms(1,2) this] assms(3) show ?thesis unfolding delivered_def outsOf_def by blast
qed

theorem subscriber_delivery_witness:
  "\<exists>outs s' lg' new. sinkRun [OpEmit ''e1'' ''now'' None ''run.started'' [], OpRecv 0] (snd (Subscribe (NewEventSink ''t'' ''a'' ''r'')))
      NewFileEventLogStore = Some (outs, s', lg') \<and>
    sk_events s' = sk_events (snd (Subscribe (NewEventSink ''t'' ''a'' ''r''))) @ new \<and>
    subseq (map snd (filter (\<lambda>(x, e). x = 0) outs) @ ch_buf (chanOf s' 0)) ([] @ new)"
proof -
  let ?s = "snd (Subscribe (NewEventSink ''t'' ''a'' ''r''))"
  have "sinkInv ?s" by (rule sinkInv_Subscribe) simp
  moreover have "0 \<in> set (sk_subscribers ?s)" "ch_buf (chanOf ?s 0) = []"
    by (simp_all add: Subscribe_def Let_def NewEventSink_def chanOf_def)
  ultimately show ?thesis
    using subscriber_delivery[of ?s NewFileEventLogStore 0 "[OpEmit ''e1'' ''now'' None ''run.started'' [], OpRecv 0]"]
      NewFileEventLogStore_inv by fastforce
qed

subsection \<open>Gaps around a subscription\<close>

text \<open>A channel subscribed after completion is left open by every later completion call: its receiver is never told
  that the run has ended.\<close>

lemma subscribe_after_done_never_closed:
  assumes "sinkInv s" "sk_done s"
  shows "\<exists>s'. Sink_Done (snd (Subscribe s)) = Some s' \<and> \<not> ch_closed (chanOf s' (fst (Subscribe s))) \<and>
    fst (Recv (fst (Subscribe s)) s') = WouldBlock"
  using assms(2) by (simp add: Subscribe_def Let_def Sink_Done_def chanOf_def Recv_def)

end
