(* ===== verification/Agent_Stores.thy ===== *)
theory Agent_Stores
  imports Run_Store
begin

text \<open>
  Per-agent persistence: conversation memory (internal/storage/file_memory_store.go, internal/tokens/estimate.go), the
  key-value store (internal/storage/file_kv_store.go, internal/types/storage.go) and the agent registry
  (internal/storage/agent_store.go, internal/types/tenant.go).

  \<^item> A directory of JSON files is a map from paths to contents (\<open>fileTree\<close>); a missing, empty or undecodable file and a
    read error are constructors of \<open>fileContent\<close>, and a write takes the error of the file system as an argument.
  \<^item> Token estimates multiply a word count by the float 1.3; for word counts below \<open>2 ^ 50\<close> the truncated product is
    \<open>words * 13 div 10\<close>.
  \<^item> \<open>GetRecent\<close> is shown to return the longest suffix of the conversation within both limits, the key-value store to
    be a bounded map per tenant and agent, and the agent registry to survive a restart.
\<close>

subsection \<open>Files\<close>

datatype 'a fileContent = Missing | Unreadable string | Blank | Corrupt string | Content 'a

type_synonym 'a fileTree = "(string, 'a fileContent) gomap"

definition fileAt :: "'a fileTree \<Rightarrow> string \<Rightarrow> 'a fileContent" where
  "fileAt fs path = zget Missing fs path"

datatype fsErr = FsCtx string | FsRead string | FsDecode string | FsWrite string | FsIdsRequired
  | ErrKeyTooLong | ErrInvalidKey | ErrValueTooLarge nat int | ErrMaxKeysExceeded
  | ErrAgentExists | ErrAgentNotFound | ErrInvalidAgent

definition readFile :: "'a \<Rightarrow> 'a fileContent \<Rightarrow> fsErr + 'a" where
  "readFile z fc =
     (case fc of Missing \<Rightarrow> Inr z | Unreadable e \<Rightarrow> Inl (FsRead e) | Blank \<Rightarrow> Inr z | Corrupt e \<Rightarrow> Inl (FsDecode e) | Content x \<Rightarrow> Inr x)"

definition writeFile :: "string option \<Rightarrow> string \<Rightarrow> 'a \<Rightarrow> 'a fileTree \<Rightarrow> fsErr option \<times> 'a fileTree" where
  "writeFile io path x fs = (case io of Some e \<Rightarrow> (Some (FsWrite e), fs) | None \<Rightarrow> (None, mput path (Content x) fs))"

definition agentFile :: "string \<Rightarrow> string \<Rightarrow> string \<Rightarrow> string" where
  "agentFile dataDir tenantID agentID = joinPath [dataDir, tenantID, agentID @ ''.json'']"

subsection \<open>Conversation memory\<close>

record storedMessage =
  sm_Role :: string
  sm_Content :: string
  sm_ToolCallID :: string
  sm_ToolCalls :: string
  sm_Name :: string

definition EstimateTokens :: "string \<Rightarrow> int" where
  "EstimateTokens text =
     (if text = [] then 0
      else
        let words = int (length (Fields text)) in
        if words = 0 then 4
        else let est = words * 13 div 10 in if est < 4 then 4 else est)"

definition msgTokens :: "storedMessage \<Rightarrow> int" where
  "msgTokens m = EstimateTokens (sm_Content m)"

fun trimLoop :: "int \<Rightarrow> int \<Rightarrow> storedMessage list \<Rightarrow> storedMessage list" where
  "trimLoop maxTokens tot [] = []"
| "trimLoop maxTokens tot (m # ms) =
     (if tot > maxTokens then trimLoop maxTokens (tot - msgTokens m) ms else m # ms)"

definition trimByTokens :: "storedMessage list \<Rightarrow> int \<Rightarrow> storedMessage list" where
  "trimByTokens msgs maxTokens = trimLoop maxTokens (sum_list (map msgTokens msgs)) msgs"

definition Memory_Append ::
  "string option \<Rightarrow> string option \<Rightarrow> string \<Rightarrow> string \<Rightarrow> string \<Rightarrow> storedMessage list \<Rightarrow> storedMessage list fileTree \<Rightarrow>
   fsErr option \<times> storedMessage list fileTree" where
  "Memory_Append ctx io dataDir tenantID agentID messages fs =
     (case ctx of Some e \<Rightarrow> (Some (FsCtx e), fs)
      | None \<Rightarrow>
          if tenantID = [] \<or> agentID = [] then (Some FsIdsRequired, fs)
          else
            let path = agentFile dataDir tenantID agentID in
            case readFile [] (fileAt fs path) of
              Inl e \<Rightarrow> (Some e, fs)
            | Inr existing \<Rightarrow> writeFile io path (existing @ messages) fs)"

definition GetRecent ::
  "string option \<Rightarrow> string \<Rightarrow> string \<Rightarrow> string \<Rightarrow> int \<Rightarrow> int \<Rightarrow> storedMessage list fileTree \<Rightarrow> fsErr + storedMessage list" where
  "GetRecent ctx dataDir tenantID agentID maxMessages maxTokens fs =
     (case ctx of Some e \<Rightarrow> Inl (FsCtx e)
      | None \<Rightarrow>
          if tenantID = [] \<or> agentID = [] then Inr []
          else
            case readFile [] (fileAt fs (agentFile dataDir tenantID agentID)) of
              Inl e \<Rightarrow> Inl e
            | Inr existing \<Rightarrow>
                let recent = (if maxMessages > 0 \<and> int (length existing) > maxMessages
                              then drop (length existing - nat maxMessages) existing else existing) in
                Inr (if maxTokens > 0 then trimByTokens recent maxTokens else recent))"

definition Memory_Clear ::
  "string option \<Rightarrow> string option \<Rightarrow> string \<Rightarrow> string \<Rightarrow> string \<Rightarrow> storedMessage list fileTree \<Rightarrow>
   fsErr option \<times> storedMessage list fileTree" where
  "Memory_Clear ctx io dataDir tenantID agentID fs =
     (case ctx of Some e \<Rightarrow> (Some (FsCtx e), fs)
      | None \<Rightarrow>
          if tenantID = [] \<or> agentID = [] then (Some FsIdsRequired, fs)
          else
            let path = agentFile dataDir tenantID agentID in
            if fileAt fs path = Missing then (None, fs)
            else case io of Some e \<Rightarrow> (Some (FsWrite e), fs) | None \<Rightarrow> (None, mdel path fs))"

subsection \<open>Key-value store\<close>

record kvConfig =
  kv_dataDir :: string
  kv_maxValueSize :: int
  kv_maxKeysPerAgent :: int

definition NewFileKVStore :: "string \<Rightarrow> int \<Rightarrow> int \<Rightarrow> kvConfig" where
  "NewFileKVStore dataDir maxValueSize maxKeysPerAgent =
     \<lparr>kv_dataDir = (if dataDir = [] then joinPath [''data'', ''kv''] else dataDir),
      kv_maxValueSize = (if maxValueSize \<le> 0 then 65536 else maxValueSize),
      kv_maxKeysPerAgent = (if maxKeysPerAgent \<le> 0 then 1000 else maxKeysPerAgent)\<rparr>"

definition validKeyChar :: "char \<Rightarrow> bool" where
  "validKeyChar c \<longleftrightarrow>
     (let n = of_char c :: nat in 97 \<le> n \<and> n \<le> 122 \<or> 65 \<le> n \<and> n \<le> 90 \<or> 48 \<le> n \<and> n \<le> 57 \<or>
        c = CHR ''-'' \<or> c = CHR ''_'' \<or> c = CHR ''.'')"

definition ValidateKey :: "string \<Rightarrow> fsErr option" where
  "ValidateKey key =
     (if key = [] then Some ErrInvalidKey
      else if length key > 256 then Some ErrKeyTooLong
      else if \<not> list_all validKeyChar key then Some ErrInvalidKey
      else None)"

definition ValidateValueSize :: "string \<Rightarrow> int \<Rightarrow> fsErr option" where
  "ValidateValueSize value maxSize =
     (if int (length value) > maxSize then Some (ErrValueTooLarge (length value) maxSize) else None)"

text \<open>
  The file is written by json.MarshalIndent and read by json.Unmarshal. The coder turns every byte of a string that does not
  begin a UTF-8 encoding into the replacement character (bytes EF BF BD); what it wrote is read back unchanged. The keys are
  ASCII, by \<open>ValidateKey\<close>, and stay as they are. \<open>runeLen\<close> is the length of the encoding a byte string begins with, zero
  if it begins with none (unicode/utf8).
\<close>

definition byteIn :: "nat \<Rightarrow> nat \<Rightarrow> char \<Rightarrow> bool" where
  "byteIn lo hi c \<longleftrightarrow> lo \<le> of_char c \<and> of_char c \<le> hi"

text \<open>By the first byte: the length of the encoding and the range of its second byte.\<close>

definition firstByte :: "char \<Rightarrow> nat \<times> nat \<times> nat" where
  "firstByte c =
     (if byteIn 0 127 c then (1, 0, 0) else if byteIn 194 223 c then (2, 128, 191)
      else if byteIn 224 224 c then (3, 160, 191) else if byteIn 237 237 c then (3, 128, 159) else if byteIn 225 239 c then (3, 128, 191)
      else if byteIn 240 240 c then (4, 144, 191) else if byteIn 241 243 c then (4, 128, 191) else if byteIn 244 244 c then (4, 128, 143)
      else (0, 0, 0))"

definition runeLen :: "string \<Rightarrow> nat" where
  "runeLen xs =
     (case xs of [] \<Rightarrow> 0
      | a # bs \<Rightarrow>
          (case firstByte a of (n, lo, hi) \<Rightarrow>
             if n \<le> 1 then n
             else case bs of [] \<Rightarrow> 0
               | b # cs \<Rightarrow> if n - 2 \<le> length cs \<and> byteIn lo hi b \<and> list_all (byteIn 128 191) (take (n - 2) cs) then n else 0))"

definition replacement :: string where
  "replacement = [char_of (239 :: nat), char_of (191 :: nat), char_of (189 :: nat)]"

function jsonUtf8 :: "string \<Rightarrow> string" where
  "jsonUtf8 [] = []"
| "jsonUtf8 (b # bs) =
     (if runeLen (b # bs) = 0 then replacement @ jsonUtf8 bs
      else take (runeLen (b # bs)) (b # bs) @ jsonUtf8 (drop (runeLen (b # bs)) (b # bs)))"
  by pat_completeness auto
termination by (relation "measure length") auto

function validUtf8 :: "string \<Rightarrow> bool" where
  "validUtf8 [] = True"
| "validUtf8 (b # bs) = (if runeLen (b # bs) = 0 then False else validUtf8 (drop (runeLen (b # bs)) (b # bs)))"
  by pat_completeness auto
termination by (relation "measure length") auto

type_synonym kvFiles = "(string, string) gomap fileTree"

definition kvEncode :: "(string, string) gomap \<Rightarrow> (string, string) gomap" where
  "kvEncode d = map (\<lambda>(k, v). (k, jsonUtf8 v)) d"

definition KV_Get :: "string option \<Rightarrow> kvConfig \<Rightarrow> string \<Rightarrow> string \<Rightarrow> string \<Rightarrow> kvFiles \<Rightarrow> fsErr + string option" where
  "KV_Get ctx cfg tenantID agentID key fs =
     (case ctx of Some e \<Rightarrow> Inl (FsCtx e)
      | None \<Rightarrow>
          case ValidateKey key of Some e \<Rightarrow> Inl e
          | None \<Rightarrow>
              case readFile [] (fileAt fs (agentFile (kv_dataDir cfg) tenantID agentID)) of
                Inl e \<Rightarrow> Inl e
              | Inr d \<Rightarrow> Inr (mget d key))"

definition KV_Set ::
  "string option \<Rightarrow> string option \<Rightarrow> kvConfig \<Rightarrow> string \<Rightarrow> string \<Rightarrow> string \<Rightarrow> string \<Rightarrow> kvFiles \<Rightarrow> fsErr option \<times> kvFiles" where
  "KV_Set ctx io cfg tenantID agentID key value fs =
     (case ctx of Some e \<Rightarrow> (Some (FsCtx e), fs)
      | None \<Rightarrow>
          if tenantID = [] \<or> agentID = [] then (Some FsIdsRequired, fs)
          else
            case ValidateKey key of Some e \<Rightarrow> (Some e, fs)
            | None \<Rightarrow>
                case ValidateValueSize value (kv_maxValueSize cfg) of Some e \<Rightarrow> (Some e, fs)
                | None \<Rightarrow>
                    let path = agentFile (kv_dataDir cfg) tenantID agentID in
                    case readFile [] (fileAt fs path) of
                      Inl e \<Rightarrow> (Some e, fs)
                    | Inr d \<Rightarrow>
                        if mget d key = None \<and> int (length d) \<ge> kv_maxKeysPerAgent cfg then (Some ErrMaxKeysExceeded, fs)
                        else writeFile io path (kvEncode (mput key value d)) fs)"

definition KV_Delete ::
  "string option \<Rightarrow> string option \<Rightarrow> kvConfig \<Rightarrow> string \<Rightarrow> string \<Rightarrow> string \<Rightarrow> kvFiles \<Rightarrow> fsErr option \<times> kvFiles" where
  "KV_Delete ctx io cfg tenantID agentID key fs =
     (case ctx of Some e \<Rightarrow> (Some (FsCtx e), fs)
      | None \<Rightarrow>
          case ValidateKey key of Some e \<Rightarrow> (Some e, fs)
          | None \<Rightarrow>
              let path = agentFile (kv_dataDir cfg) tenantID agentID in
              case readFile [] (fileAt fs path) of
                Inl e \<Rightarrow> (Some e, fs)
              | Inr d \<Rightarrow> writeFile io path (kvEncode (mdel key d)) fs)"

definition ListKeys :: "string option \<Rightarrow> kvConfig \<Rightarrow> string \<Rightarrow> string \<Rightarrow> kvFiles \<Rightarrow> fsErr + string list" where
  "ListKeys ctx cfg tenantID agentID fs =
     (case ctx of Some e \<Rightarrow> Inl (FsCtx e)
      | None \<Rightarrow>
          if tenantID = [] \<or> agentID = [] then Inr []
          else
            case readFile [] (fileAt fs (agentFile (kv_dataDir cfg) tenantID agentID)) of
              Inl e \<Rightarrow> Inl e
            | Inr d \<Rightarrow> Inr (sort (mkeys d)))"

subsection \<open>Agent registry\<close>

record customTool =
  ct_Name :: string
  ct_Description :: string
  ct_InputSchema :: "(string, json) gomap option"
  ct_WebhookURL :: string
  ct_Headers :: "(string, string) gomap"
  ct_TimeoutMs :: int

record agentConfig =
  ac_SystemPrompt :: string
  ac_ModelID :: string
  ac_Tools :: "string list"
  ac_CustomTools :: "customTool list"
  ac_MaxSteps :: int
  ac_TimeoutMs :: int

record agent =
  ag_AgentID :: string
  ag_TenantID :: string
  ag_Name :: string
  ag_Description :: string
  ag_Version :: string
  ag_Status :: string
  ag_Config :: "agentConfig option"
  ag_CreatedAt :: string
  ag_UpdatedAt :: string

record fileAgentStore =
  as_dir :: string
  as_agents :: "(string, agent) gomap"
  as_files :: "agent fileTree"

definition agentStorageKey :: "string \<Rightarrow> string \<Rightarrow> string" where
  "agentStorageKey tenantID agentID = joinPath [''tenant'', tenantID, ''agents'', agentID]"

definition validateAgent :: "agent \<Rightarrow> bool" where
  "validateAgent a \<longleftrightarrow> ag_TenantID a \<noteq> [] \<and> ag_AgentID a \<noteq> []"

definition persistAgent :: "string option \<Rightarrow> agent \<Rightarrow> fileAgentStore \<Rightarrow> fsErr option \<times> fileAgentStore" where
  "persistAgent io a s =
     (let (err, fs) = writeFile io (agentFile (as_dir s) (ag_TenantID a) (ag_AgentID a)) a (as_files s) in
      (err, s\<lparr>as_files := fs\<rparr>))"

definition Agent_Create :: "string option \<Rightarrow> string option \<Rightarrow> agent \<Rightarrow> fileAgentStore \<Rightarrow> fsErr option \<times> fileAgentStore" where
  "Agent_Create ctx io a s =
     (case ctx of Some e \<Rightarrow> (Some (FsCtx e), s)
      | None \<Rightarrow>
          if \<not> validateAgent a then (Some ErrInvalidAgent, s)
          else
            let key = agentStorageKey (ag_TenantID a) (ag_AgentID a) in
            if mget (as_agents s) key \<noteq> None then (Some ErrAgentExists, s)
            else persistAgent io a (s\<lparr>as_agents := mput key a (as_agents s)\<rparr>))"

definition Agent_Save :: "string option \<Rightarrow> string option \<Rightarrow> agent \<Rightarrow> fileAgentStore \<Rightarrow> fsErr option \<times> fileAgentStore" where
  "Agent_Save ctx io a s =
     (case ctx of Some e \<Rightarrow> (Some (FsCtx e), s)
      | None \<Rightarrow>
          if \<not> validateAgent a then (Some ErrInvalidAgent, s)
          else persistAgent io a (s\<lparr>as_agents := mput (agentStorageKey (ag_TenantID a) (ag_AgentID a)) a (as_agents s)\<rparr>))"

definition Agent_Get :: "string option \<Rightarrow> string \<Rightarrow> string \<Rightarrow> fileAgentStore \<Rightarrow> fsErr + agent option" where
  "Agent_Get ctx tenantID agentID s =
     (case ctx of Some e \<Rightarrow> Inl (FsCtx e)
      | None \<Rightarrow> if tenantID = [] \<or> agentID = [] then Inr None else Inr (mget (as_agents s) (agentStorageKey tenantID agentID)))"

definition Agent_List :: "string option \<Rightarrow> string \<Rightarrow> fileAgentStore \<Rightarrow> fsErr + agent list" where
  "Agent_List ctx tenantID s =
     (case ctx of Some e \<Rightarrow> Inl (FsCtx e)
      | None \<Rightarrow> if tenantID = [] then Inr [] else Inr (filter (\<lambda>a. ag_TenantID a = tenantID) (map snd (as_agents s))))"

definition Agent_Delete ::
  "string option \<Rightarrow> string option \<Rightarrow> string \<Rightarrow> string \<Rightarrow> fileAgentStore \<Rightarrow> fsErr option \<times> fileAgentStore" where
  "Agent_Delete ctx io tenantID agentID s =
     (case ctx of Some e \<Rightarrow> (Some (FsCtx e), s)
      | None \<Rightarrow>
          if tenantID = [] \<or> agentID = [] then (Some ErrAgentNotFound, s)
          else
            let key = agentStorageKey tenantID agentID in
            if mget (as_agents s) key = None then (Some ErrAgentNotFound, s)
            else
              let s1 = s\<lparr>as_agents := mdel key (as_agents s)\<rparr>; path = agentFile (as_dir s) tenantID agentID in
              if fileAt (as_files s) path = Missing then (None, s1)
              else case io of Some e \<Rightarrow> (Some (FsWrite e), s1) | None \<Rightarrow> (None, s1\<lparr>as_files := mdel path (as_files s)\<rparr>))"

fun loadWalk :: "agent fileTree \<Rightarrow> (string, agent) gomap \<Rightarrow> fsErr + (string, agent) gomap" where
  "loadWalk [] m = Inr m"
| "loadWalk ((path, fc) # fs) m =
     (if \<not> HasSuffix path ''.json'' then loadWalk fs m
      else case fc of
        Missing \<Rightarrow> loadWalk fs m
      | Unreadable e \<Rightarrow> Inl (FsRead e)
      | Blank \<Rightarrow> loadWalk fs m
      | Corrupt e \<Rightarrow> Inl (FsDecode e)
      | Content a \<Rightarrow>
          loadWalk fs (if validateAgent a then mput (agentStorageKey (ag_TenantID a) (ag_AgentID a)) a m else m))"

definition NewFileAgentStore :: "string \<Rightarrow> agent fileTree \<Rightarrow> fsErr + fileAgentStore" where
  "NewFileAgentStore dir fs =
     (case loadWalk fs [] of
        Inl e \<Rightarrow> Inl e
      | Inr m \<Rightarrow> Inr \<lparr>as_dir = (if dir = [] then joinPath [''data'', ''agents''] else dir), as_agents = m, as_files = fs\<rparr>)"


subsection \<open>Paths of agent files\<close>

lemma cleanSegs_plain2:
  assumes "plainName t" "plainName f"
  shows "cleanSegs r st (xs @ [t, f]) = cleanSegs r st xs @ [t, f]"
proof (induction xs arbitrary: st)
  case Nil
  then show ?case using assms by (simp add: plainName_def)
next
  case (Cons x xs)
  then show ?case by (cases st) simp_all
qed

lemma joinByte_snoc2:
  "joinByte d (ws @ [t, f]) = concat (map (\<lambda>w. w @ [d]) ws) @ t @ d # f"
  by (induction ws) (simp_all add: joinByte_Cons)

definition pathPrefix :: "string \<Rightarrow> string" where
  "pathPrefix d =
     (if d = [] then []
      else (if HasPrefix d ''/'' then ''/'' else []) @
           concat (map (\<lambda>w. w @ ''/'') (cleanSegs (HasPrefix d ''/'') [] (splitByte CHR ''/'' d))))"

lemma plainName_json: "plainName a \<Longrightarrow> plainName (a @ ''.json'')"
  by (cases a) (auto simp: plainName_def)

lemma agentFile_plain:
  assumes "plainName t" "plainName a"
  shows "agentFile d t a = pathPrefix d @ t @ CHR ''/'' # a @ ''.json''"
proof -
  let ?f = "a @ ''.json''"
  have f: "plainName ?f" by (rule plainName_json[OF assms(2)])
  have ne: "t \<noteq> []" "?f \<noteq> []" and sp: "splitByte CHR ''/'' t = [t]" "splitByte CHR ''/'' ?f = [?f]" "\<not> HasPrefix t ''/''"
    using assms(1) f by (auto simp: plainName_def splitByte_plain HasPrefix_iff)
  have seg: "cleanSegs r [] (splitByte CHR ''/'' d @ [t, ?f]) = cleanSegs r [] (splitByte CHR ''/'' d) @ [t, ?f]"
    "cleanSegs r [] [t, ?f] = [t, ?f]" for r
    using cleanSegs_plain2[OF assms(1) f, of r "[]" "[]"] cleanSegs_plain2[OF assms(1) f, of r "[]"] by auto
  show ?thesis
  proof (cases "d = []")
    case True
    then show ?thesis using ne sp seg(2) by (simp add: agentFile_def joinPath_def pathPrefix_def Let_def)
  next
    case False
    then show ?thesis
      using ne sp seg(1) joinByte_snoc2[of "CHR ''/''" _ t ?f]
      by (simp add: agentFile_def joinPath_def pathPrefix_def Let_def)
  qed
qed

lemma slash_split:
  "CHR ''/'' \<notin> set t \<Longrightarrow> CHR ''/'' \<notin> set t' \<Longrightarrow> t @ CHR ''/'' # f = t' @ CHR ''/'' # f' \<Longrightarrow> t = t' \<and> f = f'"
proof (induction t arbitrary: t')
  case Nil
  then show ?case by (cases t') auto
next
  case (Cons c t)
  then show ?case by (cases t') auto
qed

lemma agentFile_inj:
  assumes "plainName t" "plainName a" "plainName t'" "plainName a'"
  shows "agentFile d t a = agentFile d t' a' \<longleftrightarrow> t = t' \<and> a = a'"
proof
  assume "agentFile d t a = agentFile d t' a'"
  then have "t @ CHR ''/'' # (a @ ''.json'') = t' @ CHR ''/'' # (a' @ ''.json'')"
    by (simp add: agentFile_plain[OF assms(1,2)] agentFile_plain[OF assms(3,4)])
  from slash_split[OF _ _ this] assms(1,3) show "t = t' \<and> a = a'" by (simp add: plainName_def)
qed simp

subsection \<open>Facts on the memory store\<close>

lemma fileAt_mput: "fileAt (mput p x fs) p' = (if p' = p then x else fileAt fs p')"
  by (simp add: fileAt_def)

lemma EstimateTokens_nonneg: "0 \<le> EstimateTokens t"
  by (simp add: EstimateTokens_def Let_def)

lemma trimLoop_longest:
  assumes "tot = sum_list (map msgTokens ms)" "0 \<le> maxTokens"
  shows "\<exists>k. trimLoop maxTokens tot ms = drop k ms \<and> sum_list (map msgTokens (drop k ms)) \<le> maxTokens \<and>
    (\<forall>j<k. maxTokens < sum_list (map msgTokens (drop j ms)))"
  using assms
proof (induction ms arbitrary: tot)
  case Nil
  then show ?case by (intro exI[of _ 0]) simp
next
  case (Cons m ms)
  show ?case
  proof (cases "maxTokens < tot")
    case True
    from Cons.IH[of "tot - msgTokens m"] Cons.prems obtain k where
      k: "trimLoop maxTokens (tot - msgTokens m) ms = drop k ms" "sum_list (map msgTokens (drop k ms)) \<le> maxTokens"
        "\<forall>j<k. maxTokens < sum_list (map msgTokens (drop j ms))"
      by auto
    have "maxTokens < sum_list (map msgTokens (drop j (m # ms)))" if "j < Suc k" for j
      using that k(3) True Cons.prems(1) by (cases j) auto
    with True k(1,2) show ?thesis by (intro exI[of _ "Suc k"]) auto
  next
    case False
    with Cons.prems show ?thesis by (intro exI[of _ 0]) auto
  qed
qed

type_synonym memOp = "string \<times> string \<times> storedMessage list"

definition applyAppends :: "string \<Rightarrow> memOp list \<Rightarrow> storedMessage list fileTree" where
  "applyAppends d ops = fold (\<lambda>(t, a, ms) fs. snd (Memory_Append None None d t a ms fs)) ops []"

definition conversation :: "memOp list \<Rightarrow> string \<Rightarrow> string \<Rightarrow> storedMessage list" where
  "conversation ops t a = concat (map (\<lambda>(t', a', ms). ms) (filter (\<lambda>(t', a', ms). t' = t \<and> a' = a) ops))"

lemma applyAppends_file:
  assumes "\<forall>(t, a, ms)\<in>set ops. plainName t \<and> plainName a" "plainName t" "plainName a"
  shows "readFile [] (fileAt (applyAppends d ops) (agentFile d t a)) = Inr (conversation ops t a)"
  using assms
proof (induction ops arbitrary: t a rule: rev_induct)
  case Nil
  then show ?case by (simp add: applyAppends_def conversation_def fileAt_def readFile_def)
next
  case (snoc op ops)
  obtain t' a' ms where op: "op = (t', a', ms)" by (cases op)
  have pl: "plainName t'" "plainName a'" and ne: "t' \<noteq> []" "a' \<noteq> []" using snoc.prems(1) by (auto simp: op plainName_def)
  have IH: "plainName t \<Longrightarrow> plainName a \<Longrightarrow> readFile [] (fileAt (applyAppends d ops) (agentFile d t a)) = Inr (conversation ops t a)" for t a
    using snoc.IH snoc.prems(1) by simp
  have "applyAppends d (ops @ [op]) = mput (agentFile d t' a') (Content (conversation ops t' a' @ ms)) (applyAppends d ops)"
    using IH[OF pl] ne by (simp add: applyAppends_def op Memory_Append_def Let_def writeFile_def)
  then have "fileAt (applyAppends d (ops @ [op])) (agentFile d t a) =
      (if t = t' \<and> a = a' then Content (conversation ops t' a' @ ms) else fileAt (applyAppends d ops) (agentFile d t a))"
    using agentFile_inj[OF snoc.prems(2,3) pl] by (simp add: fileAt_mput)
  with IH[OF snoc.prems(2,3)] show ?case by (auto simp: op conversation_def readFile_def)
qed

subsection \<open>Facts on the key-value store\<close>

datatype kvOp = KSet "string option" "string option" string string string string
  | KDelete "string option" "string option" string string string

fun kvStep :: "kvConfig \<Rightarrow> kvOp \<Rightarrow> kvFiles \<Rightarrow> kvFiles" where
  "kvStep cfg (KSet ctx io t a k v) fs = snd (KV_Set ctx io cfg t a k v fs)"
| "kvStep cfg (KDelete ctx io t a k) fs = snd (KV_Delete ctx io cfg t a k fs)"

inductive kv_step :: "kvConfig \<Rightarrow> kvFiles \<Rightarrow> kvFiles \<Rightarrow> bool" for cfg where
  kv_op: "kv_step cfg fs (kvStep cfg op fs)"

inductive_cases kv_stepE: "kv_step cfg fs fs'"

lemma runeLen_prefix:
  assumes "0 < runeLen xs"
  shows "runeLen (take (runeLen xs) xs @ ys) = runeLen xs"
proof -
  obtain a bs where xs: "xs = a # bs" using assms by (cases xs) (auto simp: runeLen_def)
  obtain n lo hi where f: "firstByte a = (n, lo, hi)" by (cases "firstByte a")
  show ?thesis
  proof (cases "n \<le> 1")
    case True
    then show ?thesis using assms by (cases n) (auto simp: xs f runeLen_def)
  next
    case False
    then have "n = Suc (Suc (n - 2))" by simp
    then obtain m where n: "n = Suc (Suc m)" by blast
    obtain b cs where bs: "bs = b # cs" "m \<le> length cs" "byteIn lo hi b" "list_all (byteIn 128 191) (take m cs)"
      using assms n by (auto simp: xs f runeLen_def split: list.splits if_splits)
    then show ?thesis by (simp add: xs f n runeLen_def)
  qed
qed

lemma runeLen_le: "runeLen xs \<le> length xs"
  by (auto simp: runeLen_def split: list.split prod.split)

lemma runeLen_replacement: "runeLen (replacement @ ys) = 3"
  by (simp add: replacement_def runeLen_def firstByte_def byteIn_def)

lemma validUtf8_step: "0 < runeLen xs \<Longrightarrow> validUtf8 (drop (runeLen xs) xs) \<Longrightarrow> validUtf8 xs"
  by (cases xs) auto

lemma validUtf8_jsonUtf8: "validUtf8 (jsonUtf8 xs)"
proof (induction xs rule: jsonUtf8.induct)
  case (2 b bs)
  show ?case
  proof (cases "runeLen (b # bs) = 0")
    case True
    have "validUtf8 (replacement @ jsonUtf8 bs)"
      by (rule validUtf8_step) (use 2(1)[OF True] in \<open>simp_all add: runeLen_replacement, simp add: replacement_def\<close>)
    then show ?thesis using True by simp
  next
    case False
    let ?n = "runeLen (b # bs)"
    have n: "runeLen (take ?n (b # bs) @ jsonUtf8 (drop ?n (b # bs))) = ?n" using False by (intro runeLen_prefix) simp
    have d: "drop ?n (take ?n (b # bs) @ jsonUtf8 (drop ?n (b # bs))) = jsonUtf8 (drop ?n (b # bs))"
      using runeLen_le[of "b # bs"] by simp
    have "0 < runeLen (take ?n (b # bs) @ jsonUtf8 (drop ?n (b # bs)))" unfolding n using False by simp
    moreover have "validUtf8 (drop (runeLen (take ?n (b # bs) @ jsonUtf8 (drop ?n (b # bs)))) (take ?n (b # bs) @ jsonUtf8 (drop ?n (b # bs))))"
      unfolding n d by (rule 2(2)[OF False])
    ultimately have "validUtf8 (take ?n (b # bs) @ jsonUtf8 (drop ?n (b # bs)))" by (rule validUtf8_step)
    then show ?thesis by (simp only: jsonUtf8.simps False if_False)
  qed
qed simp

lemma jsonUtf8_valid: "validUtf8 xs \<Longrightarrow> jsonUtf8 xs = xs"
  by (induction xs rule: validUtf8.induct) (auto split: if_splits)

lemma jsonUtf8_idem [simp]: "jsonUtf8 (jsonUtf8 xs) = jsonUtf8 xs"
  by (rule jsonUtf8_valid[OF validUtf8_jsonUtf8])

lemma jsonUtf8_length: "length (jsonUtf8 xs) \<le> 3 * length xs"
proof (induction xs rule: jsonUtf8.induct)
  case (2 b bs)
  then show ?case
    using runeLen_le[of "b # bs"] by (cases "runeLen (b # bs) = 0") (auto simp: replacement_def)
qed simp

lemma mget_kvEncode [simp]: "mget (kvEncode d) k = map_option jsonUtf8 (mget d k)"
  by (simp add: kvEncode_def mget_def map_of_map)

lemma keys_kvEncode [simp]: "map fst (kvEncode d) = map fst d"
  by (simp add: kvEncode_def case_prod_beta o_def)

lemma length_kvEncode [simp]: "length (kvEncode d) = length d"
  by (simp add: kvEncode_def)

definition storedValue :: "kvConfig \<Rightarrow> string \<Rightarrow> bool" where
  "storedValue cfg x \<longleftrightarrow> (\<exists>w. int (length w) \<le> kv_maxValueSize cfg \<and> x = jsonUtf8 w)"

lemma storedValue_stable: "storedValue cfg x \<Longrightarrow> jsonUtf8 x = x"
  by (auto simp: storedValue_def)

definition kvFileOk :: "kvConfig \<Rightarrow> (string, string) gomap \<Rightarrow> bool" where
  "kvFileOk cfg d \<longleftrightarrow> gwf d \<and> int (length d) \<le> kv_maxKeysPerAgent cfg \<and>
     (\<forall>(k, v)\<in>set d. ValidateKey k = None \<and> storedValue cfg v)"

definition kvOk :: "kvConfig \<Rightarrow> kvFiles \<Rightarrow> bool" where
  "kvOk cfg fs \<longleftrightarrow> (\<forall>path. case fileAt fs path of Missing \<Rightarrow> True | Content d \<Rightarrow> kvFileOk cfg d | _ \<Rightarrow> False)"

definition kvView :: "kvConfig \<Rightarrow> kvFiles \<Rightarrow> string \<Rightarrow> string \<Rightarrow> (string, string) gomap" where
  "kvView cfg fs t a = (case fileAt fs (agentFile (kv_dataDir cfg) t a) of Content d \<Rightarrow> d | _ \<Rightarrow> [])"

lemma kvOk_read:
  assumes "kvOk cfg fs" "0 < kv_maxKeysPerAgent cfg"
  shows "readFile [] (fileAt fs (agentFile (kv_dataDir cfg) t a)) = Inr (kvView cfg fs t a)" "kvFileOk cfg (kvView cfg fs t a)"
  using assms(1)[unfolded kvOk_def, rule_format, of "agentFile (kv_dataDir cfg) t a"] assms(2)
  by (auto simp: kvView_def readFile_def kvFileOk_def split: fileContent.splits)

lemma kvOk_write:
  "kvOk cfg fs \<Longrightarrow> kvFileOk cfg d \<Longrightarrow> kvOk cfg (snd (writeFile io path d fs))"
  by (auto simp: kvOk_def writeFile_def fileAt_mput split: option.split)

lemma kvEncode_ok:
  assumes "gwf d" "int (length d) \<le> kv_maxKeysPerAgent cfg"
    "\<forall>(k, v)\<in>set d. ValidateKey k = None \<and> (storedValue cfg v \<or> int (length v) \<le> kv_maxValueSize cfg)"
  shows "kvFileOk cfg (kvEncode d)"
proof -
  have "storedValue cfg (jsonUtf8 v)" if "storedValue cfg v \<or> int (length v) \<le> kv_maxValueSize cfg" for v
    using that storedValue_stable[of cfg v] by (auto simp: storedValue_def)
  then show ?thesis using assms by (auto simp: kvFileOk_def gwf_def kvEncode_def o_def case_prod_beta)
qed

lemma kvFileOk_mput:
  assumes "kvFileOk cfg d" "ValidateKey k = None" "int (length v) \<le> kv_maxValueSize cfg"
    and "mget d k \<noteq> None \<or> int (length d) < kv_maxKeysPerAgent cfg"
  shows "kvFileOk cfg (kvEncode (mput k v d))"
proof (rule kvEncode_ok)
  show "int (length (mput k v d)) \<le> kv_maxKeysPerAgent cfg"
    using assms(1,4) by (auto simp: kvFileOk_def length_mput mget_None_iff)
qed (use assms(1-3) in \<open>auto simp: kvFileOk_def set_mput\<close>)

lemma kvFileOk_mdel: "kvFileOk cfg d \<Longrightarrow> kvFileOk cfg (kvEncode (mdel k d))"
  using order_trans[OF of_nat_mono[OF length_mdel_le[of k d], where ?'a = int]]
  by (intro kvEncode_ok) (auto simp: kvFileOk_def set_mdel)

lemma kvFileOk_get: "kvFileOk cfg d \<Longrightarrow> map_option jsonUtf8 (mget d k) = mget d k"
  by (cases "mget d k") (auto simp: kvFileOk_def storedValue_stable dest!: mget_in_set)

lemma KV_Set_ok:
  assumes "kvOk cfg fs" "0 < kv_maxKeysPerAgent cfg"
  shows "kvOk cfg (snd (KV_Set ctx io cfg t a k v fs))"
  using assms(1) kvOk_read[OF assms] kvOk_write[OF assms(1) kvFileOk_mput]
  by (auto simp: KV_Set_def Let_def ValidateValueSize_def not_le split: option.split)

lemma KV_Delete_ok:
  assumes "kvOk cfg fs" "0 < kv_maxKeysPerAgent cfg"
  shows "kvOk cfg (snd (KV_Delete ctx io cfg t a k fs))"
  using assms(1) kvOk_read[OF assms] kvOk_write[OF assms(1) kvFileOk_mdel]
  by (auto simp: KV_Delete_def Let_def split: option.split)

lemma kvOk_step:
  assumes "0 < kv_maxKeysPerAgent cfg" "kvOk cfg fs" "kv_step cfg fs fs'"
  shows "kvOk cfg fs'"
  using assms(3)
proof (rule kv_stepE)
  fix op
  assume "fs' = kvStep cfg op fs"
  then show ?thesis using assms(1,2) by (cases op) (simp_all add: KV_Set_ok KV_Delete_ok)
qed

lemma kvOk_reachable:
  assumes "0 < kv_maxKeysPerAgent cfg" "reachable (\<lambda>fs. fs = []) (kv_step cfg) fs"
  shows "kvOk cfg fs"
  using assms(2)
proof (induction rule: reachable.induct)
  case (reach_init fs)
  then show ?case by (simp add: kvOk_def fileAt_def)
next
  case (reach_step fs fs')
  show ?case by (rule kvOk_step[OF assms(1) reach_step.IH reach_step.hyps(2)])
qed

lemma kvView_write:
  assumes "plainName t" "plainName a" "plainName t'" "plainName a'"
  shows "kvView cfg (snd (writeFile None (agentFile (kv_dataDir cfg) t a) d fs)) t' a' =
    (if t' = t \<and> a' = a then d else kvView cfg fs t' a')"
  using agentFile_inj[OF assms(3,4) assms(1,2)] by (simp add: kvView_def writeFile_def fileAt_mput)

subsection \<open>Properties\<close>

text \<open>Conversation memory: after any sequence of appends by any tenants and agents with plain identifiers,
  \<open>GetRecent\<close> returns a suffix of what was appended for that tenant and agent, in order, that respects both the message
  and the token limit, and it is the longest one: every longer suffix exceeds one of the limits.\<close>
theorem GetRecent_longest_suffix:
  assumes "\<forall>(t, a, ms)\<in>set ops. plainName t \<and> plainName a" "plainName t" "plainName a" "0 < maxMessages" "0 < maxTokens"
  shows "\<exists>k. GetRecent None d t a maxMessages maxTokens (applyAppends d ops) = Inr (drop k (conversation ops t a)) \<and>
    int (length (drop k (conversation ops t a))) \<le> maxMessages \<and>
    sum_list (map msgTokens (drop k (conversation ops t a))) \<le> maxTokens \<and>
    (\<forall>j<k. maxMessages < int (length (drop j (conversation ops t a))) \<or>
       maxTokens < sum_list (map msgTokens (drop j (conversation ops t a))))"
proof -
  define C where "C = conversation ops t a"
  define n where "n = (if maxMessages < int (length C) then length C - nat maxMessages else 0)"
  have "t \<noteq> []" "a \<noteq> []" using assms(2,3) by (auto simp: plainName_def)
  then have g: "GetRecent None d t a maxMessages maxTokens (applyAppends d ops) = Inr (trimByTokens (drop n C) maxTokens)"
    using applyAppends_file[OF assms(1-3)] assms(4,5) by (simp add: GetRecent_def C_def n_def Let_def)
  obtain k where k: "trimByTokens (drop n C) maxTokens = drop k (drop n C)"
    "sum_list (map msgTokens (drop k (drop n C))) \<le> maxTokens" "\<forall>j<k. maxTokens < sum_list (map msgTokens (drop j (drop n C)))"
    using trimLoop_longest[OF refl, of maxTokens "drop n C"] assms(5) by (auto simp: trimByTokens_def)
  have len: "int (length (drop (k + n) C)) \<le> maxMessages" using assms(4) by (simp add: n_def) arith
  have "maxMessages < int (length (drop j C)) \<or> maxTokens < sum_list (map msgTokens (drop j C))" if "j < k + n" for j
  proof (cases "j < n")
    case True
    then show ?thesis using assms(4) by (auto simp: n_def split: if_splits)
  next
    case False
    then have "j - n < k" "drop (j - n) (drop n C) = drop j C" using that by auto
    with k(3) show ?thesis by metis
  qed
  with g k len show ?thesis unfolding C_def[symmetric] by (intro exI[of _ "k + n"]) simp
qed

theorem GetRecent_longest_suffix_witness:
  "\<exists>k. GetRecent None ''data'' ''t'' ''a'' 1 100
       (applyAppends ''data'' [(''t'', ''a'', [\<lparr>sm_Role = ''user'', sm_Content = ''hi'', sm_ToolCallID = [], sm_ToolCalls = [], sm_Name = []\<rparr>])]) =
     Inr (drop k (conversation [(''t'', ''a'', [\<lparr>sm_Role = ''user'', sm_Content = ''hi'', sm_ToolCallID = [], sm_ToolCalls = [], sm_Name = []\<rparr>])] ''t'' ''a''))"
  using GetRecent_longest_suffix[of "[(''t'', ''a'', [\<lparr>sm_Role = ''user'', sm_Content = ''hi'', sm_ToolCallID = [], sm_ToolCalls = [], sm_Name = []\<rparr>])]"
      "''t''" "''a''" 1 100 "''data''"]
  by (auto simp: plainName_def)

text \<open>C22. The key-value store is a bounded map per tenant and agent, for plain tenant and agent identifiers. In every state
  reached from an empty directory by any writes and deletes, with any context and file errors: an agent holds at most the
  configured number of keys, all well formed, and every value is the file coding of one within the size limit, that is the
  value itself when it is valid UTF-8 and never more than three times its length; a \<open>Set\<close> of a value above the limit is
  refused and changes nothing; any other \<open>Set\<close> of a valid key fails with \<open>ErrMaxKeysExceeded\<close>, changing nothing, exactly when
  the key is new and the agent is full, and otherwise makes \<open>Get\<close> return the value, with no effect on other keys, agents or
  tenants; and \<open>Delete\<close> removes exactly the key.\<close>
theorem kv_store_bounded_map:
  assumes "0 < kv_maxKeysPerAgent cfg" "reachable (\<lambda>fs. fs = []) (kv_step cfg) fs"
    and "plainName t" "plainName a" "plainName t'" "plainName a'" "ValidateKey k = None" "ValidateKey k' = None"
  shows "int (length (kvView cfg fs t a)) \<le> kv_maxKeysPerAgent cfg \<and>
    (\<forall>(y, x)\<in>set (kvView cfg fs t a). ValidateKey y = None \<and>
       (\<exists>w. x = jsonUtf8 w \<and> int (length w) \<le> kv_maxValueSize cfg \<and> length x \<le> 3 * length w \<and> (validUtf8 w \<longrightarrow> x = w))) \<and>
    (kv_maxValueSize cfg < int (length v) \<longrightarrow>
       KV_Set None io cfg t a k v fs = (Some (ErrValueTooLarge (length v) (kv_maxValueSize cfg)), fs)) \<and>
    (int (length v) \<le> kv_maxValueSize cfg \<longrightarrow>
       (if KV_Get None cfg t a k fs = Inr None \<and> int (length (kvView cfg fs t a)) = kv_maxKeysPerAgent cfg
        then KV_Set None None cfg t a k v fs = (Some ErrMaxKeysExceeded, fs)
        else fst (KV_Set None None cfg t a k v fs) = None \<and>
          KV_Get None cfg t' a' k' (snd (KV_Set None None cfg t a k v fs)) =
            (if (t', a', k') = (t, a, k) then Inr (Some (if validUtf8 v then v else jsonUtf8 v)) else KV_Get None cfg t' a' k' fs))) \<and>
    KV_Get None cfg t' a' k' (snd (KV_Delete None None cfg t a k fs)) =
      (if (t', a', k') = (t, a, k) then Inr None else KV_Get None cfg t' a' k' fs)"
proof -
  have ok: "kvOk cfg fs" by (rule kvOk_reachable[OF assms(1,2)])
  have ne: "t \<noteq> []" "a \<noteq> []" using assms(3,4) by (auto simp: plainName_def)
  note V = kvOk_read[OF ok assms(1)]
  have len: "int (length (kvView cfg fs t a)) \<le> kv_maxKeysPerAgent cfg" using V(2) by (simp add: kvFileOk_def)
  have vals: "\<forall>(y, x)\<in>set (kvView cfg fs t a). ValidateKey y = None \<and>
      (\<exists>w. x = jsonUtf8 w \<and> int (length w) \<le> kv_maxValueSize cfg \<and> length x \<le> 3 * length w \<and> (validUtf8 w \<longrightarrow> x = w))"
    using V(2)[of t a] jsonUtf8_valid jsonUtf8_length by (fastforce simp: kvFileOk_def storedValue_def)
  have get: "KV_Get None cfg t' a' k' fs' = Inr (mget (kvView cfg fs' t' a') k')" if "kvOk cfg fs'" "ValidateKey k' = None" for fs' t' a' k'
    using kvOk_read(1)[OF that(1) assms(1)] that(2) by (simp add: KV_Get_def)
  have big: "KV_Set None io cfg t a k v fs = (Some (ErrValueTooLarge (length v) (kv_maxValueSize cfg)), fs)"
    if "kv_maxValueSize cfg < int (length v)" using ne assms(7) that by (simp add: KV_Set_def ValidateValueSize_def)
  have KS: "kvOk cfg (snd (KV_Set None None cfg t a k v fs))" "kvOk cfg (snd (KV_Delete None None cfg t a k fs))"
    by (rule KV_Set_ok[OF ok assms(1)], rule KV_Delete_ok[OF ok assms(1)])
  note gets = get[OF KS(1) assms(8)] get[OF KS(2) assms(8)] get[OF ok assms(7)] get[OF ok assms(8)]
  have fit: "if KV_Get None cfg t a k fs = Inr None \<and> int (length (kvView cfg fs t a)) = kv_maxKeysPerAgent cfg
        then KV_Set None None cfg t a k v fs = (Some ErrMaxKeysExceeded, fs)
        else fst (KV_Set None None cfg t a k v fs) = None \<and>
          KV_Get None cfg t' a' k' (snd (KV_Set None None cfg t a k v fs)) =
            (if (t', a', k') = (t, a, k) then Inr (Some (if validUtf8 v then v else jsonUtf8 v)) else KV_Get None cfg t' a' k' fs)"
    if v: "int (length v) \<le> kv_maxValueSize cfg"
  proof (cases "KV_Get None cfg t a k fs = Inr None \<and> int (length (kvView cfg fs t a)) = kv_maxKeysPerAgent cfg")
    case True
    then show ?thesis using ne assms(7) v V(1) gets(3) by (simp add: KV_Set_def Let_def ValidateValueSize_def)
  next
    case False
    then have "\<not> (mget (kvView cfg fs t a) k = None \<and> kv_maxKeysPerAgent cfg \<le> int (length (kvView cfg fs t a)))"
      using len gets(3) by auto
    then have set: "KV_Set None None cfg t a k v fs =
        writeFile None (agentFile (kv_dataDir cfg) t a) (kvEncode (mput k v (kvView cfg fs t a))) fs"
      using ne assms(7) v V(1) by (auto simp: KV_Set_def Let_def ValidateValueSize_def)
    have "fst (KV_Set None None cfg t a k v fs) = None" unfolding set by (simp add: writeFile_def)
    moreover have "KV_Get None cfg t' a' k' (snd (KV_Set None None cfg t a k v fs)) =
        (if (t', a', k') = (t, a, k) then Inr (Some (if validUtf8 v then v else jsonUtf8 v)) else KV_Get None cfg t' a' k' fs)"
      unfolding gets unfolding set by (simp add: kvView_write[OF assms(3-6)] kvFileOk_get[OF V(2)] jsonUtf8_valid)
    ultimately show ?thesis using False by (simp only: if_False)
  qed
  have del: "KV_Delete None None cfg t a k fs = writeFile None (agentFile (kv_dataDir cfg) t a) (kvEncode (mdel k (kvView cfg fs t a))) fs"
    using assms(7) V(1) by (simp add: KV_Delete_def Let_def)
  have "KV_Get None cfg t' a' k' (snd (KV_Delete None None cfg t a k fs)) =
      (if (t', a', k') = (t, a, k) then Inr None else KV_Get None cfg t' a' k' fs)"
    unfolding gets unfolding del by (simp add: kvView_write[OF assms(3-6)] kvFileOk_get[OF V(2)])
  with len vals big fit show ?thesis by blast
qed

theorem kv_store_bounded_map_witness:
  "KV_Get None (NewFileKVStore ''d'' 0 0) ''t'' ''a'' ''k''
      (snd (KV_Set None None (NewFileKVStore ''d'' 0 0) ''t'' ''a'' ''k'' ''v'' [])) = Inr (Some ''v'')"
proof -
  let ?cfg = "NewFileKVStore ''d'' 0 0"
  have r: "reachable (\<lambda>fs. fs = []) (kv_step ?cfg) []" by (rule reach_init) simp
  have c: "0 < kv_maxKeysPerAgent ?cfg" "int (length ''v'') \<le> kv_maxValueSize ?cfg" by (simp_all add: NewFileKVStore_def)
  have k: "ValidateKey ''k'' = None" by (simp add: ValidateKey_def validKeyChar_def Let_def)
  have p: "plainName ''t''" "plainName ''a''" by (simp_all add: plainName_def)
  have "KV_Get None ?cfg ''t'' ''a'' ''k'' [] = Inr None" "int (length (kvView ?cfg [] ''t'' ''a'')) \<noteq> kv_maxKeysPerAgent ?cfg"
    using k by (simp_all add: KV_Get_def fileAt_def readFile_def kvView_def NewFileKVStore_def)
  moreover have "validUtf8 ''v''" by (simp add: runeLen_def firstByte_def byteIn_def)
  ultimately show ?thesis using kv_store_bounded_map[OF c(1) r p p k k, where v = "''v''"] c(2) by (simp del: validUtf8.simps)
qed

subsection \<open>The agent registry survives a restart\<close>

lemma agentStorageKey_inj:
  assumes "plainName t" "plainName a" "plainName t'" "plainName a'" "agentStorageKey t a = agentStorageKey t' a'"
  shows "t = t' \<and> a = a'"
proof -
  have k: "splitByte CHR ''/'' (agentStorageKey t a) = [''tenant'', t, ''agents'', a]" if "plainName t" "plainName a" for t a
  proof -
    have "agentStorageKey t a = joinByte CHR ''/'' [''tenant'', t, ''agents'', a]"
      using that by (simp add: agentStorageKey_def joinPath_def plainName_def splitByte_plain Let_def)
    moreover have "splitByte CHR ''/'' (joinByte CHR ''/'' [''tenant'', t, ''agents'', a]) = [''tenant'', t, ''agents'', a]"
      by (rule splitByte_joinByte) (use that in \<open>simp_all add: plainName_def\<close>)
    ultimately show ?thesis by metis
  qed
  show ?thesis using arg_cong[OF assms(5), of "splitByte CHR ''/''"] unfolding k[OF assms(1,2)] k[OF assms(3,4)] by simp
qed

abbreviation agentKey :: "agent \<Rightarrow> string" where "agentKey a \<equiv> agentStorageKey (ag_TenantID a) (ag_AgentID a)"

abbreviation agentPath :: "string \<Rightarrow> agent \<Rightarrow> string" where "agentPath d a \<equiv> agentFile d (ag_TenantID a) (ag_AgentID a)"

definition plainAgent :: "agent \<Rightarrow> bool" where
  "plainAgent a \<longleftrightarrow> plainName (ag_TenantID a) \<and> plainName (ag_AgentID a)"

definition registryOk :: "fileAgentStore \<Rightarrow> bool" where
  "registryOk s \<longleftrightarrow> gwf (as_files s) \<and> (\<forall>k a. mget (as_agents s) k = Some a \<longrightarrow> plainAgent a \<and> k = agentKey a) \<and>
     (\<forall>p fc. mget (as_files s) p = Some fc \<longleftrightarrow>
        (\<exists>a. fc = Content a \<and> p = agentPath (as_dir s) a \<and> mget (as_agents s) (agentKey a) = Some a))"

lemma plainAgent_valid: "plainAgent a \<Longrightarrow> validateAgent a"
  by (auto simp: plainName_def validateAgent_def plainAgent_def)

lemma path_key:
  assumes "plainAgent a" "plainAgent b"
  shows "agentPath d a = agentPath d b \<longleftrightarrow> agentKey a = agentKey b"
proof -
  have "agentPath d a = agentPath d b \<longleftrightarrow> ag_TenantID a = ag_TenantID b \<and> ag_AgentID a = ag_AgentID b"
    using assms by (intro agentFile_inj) (simp_all add: plainAgent_def)
  moreover have "agentKey a = agentKey b \<Longrightarrow> ag_TenantID a = ag_TenantID b \<and> ag_AgentID a = ag_AgentID b"
    by (rule agentStorageKey_inj) (use assms in \<open>simp_all add: plainAgent_def\<close>)
  ultimately show ?thesis by auto
qed

lemma registryOkD:
  assumes "registryOk s"
  shows "gwf (as_files s)" "\<And>k b. mget (as_agents s) k = Some b \<Longrightarrow> plainAgent b \<and> k = agentKey b"
    "\<And>p fc. mget (as_files s) p = Some fc \<longleftrightarrow>
       (\<exists>b. fc = Content b \<and> p = agentPath (as_dir s) b \<and> mget (as_agents s) (agentKey b) = Some b)"
  using assms by (simp_all add: registryOk_def)

lemma registryOk_put:
  assumes "registryOk s" "plainAgent a"
  shows "registryOk (s\<lparr>as_agents := mput (agentKey a) a (as_agents s), as_files := mput (agentPath (as_dir s) a) (Content a) (as_files s)\<rparr>)"
proof -
  note D = registryOkD[OF assms(1)]
  have S: "agentPath (as_dir s) a = agentPath (as_dir s) b \<longleftrightarrow> agentKey a = agentKey b" if "mget (as_agents s) (agentKey b) = Some b" for b
    by (rule path_key[OF assms(2)]) (use D(2)[OF that] in simp)
  have put: "mget (mput (agentKey a) a (as_agents s)) (agentKey b) = Some b \<longleftrightarrow>
      b = a \<or> agentKey b \<noteq> agentKey a \<and> mget (as_agents s) (agentKey b) = Some b" for b by auto
  have "mget (mput (agentPath (as_dir s) a) (Content a) (as_files s)) p = Some fc \<longleftrightarrow>
      (\<exists>b. fc = Content b \<and> p = agentPath (as_dir s) b \<and> mget (mput (agentKey a) a (as_agents s)) (agentKey b) = Some b)" for p fc
    unfolding put
  proof (cases "p = agentPath (as_dir s) a")
    case True
    have "b = a" if "p = agentPath (as_dir s) b" "b = a \<or> agentKey b \<noteq> agentKey a \<and> mget (as_agents s) (agentKey b) = Some b" for b
      using that True S by metis
    with True show "mget (mput (agentPath (as_dir s) a) (Content a) (as_files s)) p = Some fc \<longleftrightarrow>
      (\<exists>b. fc = Content b \<and> p = agentPath (as_dir s) b \<and> (b = a \<or> agentKey b \<noteq> agentKey a \<and> mget (as_agents s) (agentKey b) = Some b))"
      by auto
  next
    case False
    have "(b = a \<or> agentKey b \<noteq> agentKey a \<and> mget (as_agents s) (agentKey b) = Some b) \<longleftrightarrow> mget (as_agents s) (agentKey b) = Some b"
      if "p = agentPath (as_dir s) b" for b
      using that False S by metis
    with False show "mget (mput (agentPath (as_dir s) a) (Content a) (as_files s)) p = Some fc \<longleftrightarrow>
      (\<exists>b. fc = Content b \<and> p = agentPath (as_dir s) b \<and> (b = a \<or> agentKey b \<noteq> agentKey a \<and> mget (as_agents s) (agentKey b) = Some b))"
      using D(3)[of p fc] by auto
  qed
  then show ?thesis using D(1,2) assms(2) by (simp add: registryOk_def)
qed

lemma registryOk_del:
  assumes "registryOk s" "mget (as_agents s) (agentKey a) = Some a"
  shows "registryOk (s\<lparr>as_agents := mdel (agentKey a) (as_agents s), as_files := mdel (agentPath (as_dir s) a) (as_files s)\<rparr>)"
proof -
  note D = registryOkD[OF assms(1)]
  have S: "agentPath (as_dir s) a = agentPath (as_dir s) b \<longleftrightarrow> agentKey a = agentKey b" if "mget (as_agents s) (agentKey b) = Some b" for b
    by (rule path_key) (use D(2)[OF that] D(2)[OF assms(2)] in simp_all)
  have del: "mget (mdel (agentKey a) (as_agents s)) (agentKey b) = Some b \<longleftrightarrow>
      agentKey b \<noteq> agentKey a \<and> mget (as_agents s) (agentKey b) = Some b" for b by auto
  have "mget (mdel (agentPath (as_dir s) a) (as_files s)) p = Some fc \<longleftrightarrow>
      (\<exists>b. fc = Content b \<and> p = agentPath (as_dir s) b \<and> mget (mdel (agentKey a) (as_agents s)) (agentKey b) = Some b)" for p fc
  proof -
    have "(agentKey b \<noteq> agentKey a \<and> mget (as_agents s) (agentKey b) = Some b) \<longleftrightarrow>
        p \<noteq> agentPath (as_dir s) a \<and> mget (as_agents s) (agentKey b) = Some b" if "p = agentPath (as_dir s) b" for b
      using that S by metis
    then show ?thesis unfolding del using D(3)[of p fc] by auto
  qed
  then show ?thesis using D(1,2) by (simp add: registryOk_def)
qed

lemma loadWalk_contents:
  assumes "\<forall>(p, fc)\<in>set fs. HasSuffix p ''.json'' \<and> (\<exists>a. fc = Content a \<and> validateAgent a)"
  shows "loadWalk fs m = Inr (fold (\<lambda>(k, a). mput k a)
     (map (\<lambda>(p, fc). case fc of Content a \<Rightarrow> (agentKey a, a)) fs) m)"
  using assms by (induction fs m rule: loadWalk.induct) (auto split: fileContent.splits)

lemma HasSuffix_append [simp]: "HasSuffix (x @ y) y"
  by (simp add: HasSuffix_def)

lemma agentPath_json: "plainAgent a \<Longrightarrow> HasSuffix (agentPath d a) ''.json''"
  using HasSuffix_append[of "pathPrefix d @ ag_TenantID a @ CHR ''/'' # ag_AgentID a" "''.json''"]
  by (simp add: plainAgent_def agentFile_plain)

lemma map_of_graph:
  assumes "\<And>k b. (k, b) \<in> set kvs \<longleftrightarrow> f k = Some b"
  shows "map_of kvs k = f k"
proof (cases "map_of kvs k")
  case None
  then have "k \<notin> fst ` set kvs" by (simp add: map_of_eq_None_iff)
  then have "f k \<noteq> Some b" for b using assms[of k b] by force
  with None show ?thesis by (cases "f k") auto
next
  case (Some b)
  from map_of_SomeD[OF this] assms[of k b] Some show ?thesis by simp
qed

lemma registry_reload:
  assumes "registryOk s" "as_dir s \<noteq> []"
  shows "\<exists>s'. NewFileAgentStore (as_dir s) (as_files s) = Inr s' \<and> mget (as_agents s') = mget (as_agents s)"
proof -
  note D = registryOkD[OF assms(1)]
  have onDisk: "\<exists>b. fc = Content b \<and> p = agentPath (as_dir s) b \<and> mget (as_agents s) (agentKey b) = Some b" if "(p, fc) \<in> set (as_files s)" for p fc
    using that D(3)[of p fc] mget_iff[OF D(1)] by blast
  let ?kvs = "map (\<lambda>(p, fc). case fc of Content a \<Rightarrow> (agentKey a, a)) (as_files s)"
  let ?m = "fold (\<lambda>(k, a). mput k a) ?kvs []"
  have "\<forall>(p, fc)\<in>set (as_files s). HasSuffix p ''.json'' \<and> (\<exists>a. fc = Content a \<and> validateAgent a)"
    using onDisk D(2) agentPath_json plainAgent_valid by blast
  then have load: "loadWalk (as_files s) [] = Inr ?m" by (rule loadWalk_contents)
  have kvs: "(k, b) \<in> set ?kvs \<longleftrightarrow> mget (as_agents s) k = Some b" for k b
  proof
    assume "(k, b) \<in> set ?kvs"
    then obtain p fc where "(p, fc) \<in> set (as_files s)" "(case fc of Content a \<Rightarrow> (agentKey a, a)) = (k, b)" by auto
    with onDisk[of p fc] show "mget (as_agents s) k = Some b" by auto
  next
    assume b: "mget (as_agents s) k = Some b"
    then have "mget (as_files s) (agentPath (as_dir s) b) = Some (Content b)" "k = agentKey b" using D(2,3) by auto
    then have "(agentPath (as_dir s) b, Content b) \<in> set (as_files s)" "k = agentKey b" by (auto dest: mget_in_set)
    then show "(k, b) \<in> set ?kvs" by (auto intro!: rev_image_eqI)
  qed
  have "mget ?m k = map_of (rev ?kvs) k" for k
    using gomap.get_put_fold[of "[]" ?kvs k] by (simp split: option.splits)
  moreover have "map_of (rev ?kvs) k = mget (as_agents s) k" for k
    by (rule map_of_graph) (simp only: set_rev kvs)
  ultimately show ?thesis using load assms(2) by (auto simp: NewFileAgentStore_def fun_eq_iff)
qed

inductive agent_step :: "fileAgentStore \<Rightarrow> fileAgentStore \<Rightarrow> bool" where
  as_create: "plainAgent a \<Longrightarrow> agent_step s (snd (Agent_Create ctx None a s))"
| as_save: "plainAgent a \<Longrightarrow> agent_step s (snd (Agent_Save ctx None a s))"
| as_delete: "plainName t \<Longrightarrow> plainName i \<Longrightarrow> agent_step s (snd (Agent_Delete ctx None t i s))"

inductive_cases agent_stepE: "agent_step s s'"

lemma Agent_Delete_registryOk:
  assumes "registryOk s" "plainName t" "plainName i"
  shows "registryOk (snd (Agent_Delete ctx None t i s))"
proof (cases "mget (as_agents s) (agentStorageKey t i)")
  case (Some b)
  then have b: "plainAgent b" "agentStorageKey t i = agentKey b" using registryOkD(2)[OF assms(1)] by auto
  then have ti: "t = ag_TenantID b" "i = ag_AgentID b" using agentStorageKey_inj[OF assms(2,3)] by (auto simp: plainAgent_def)
  have "mget (as_files s) (agentPath (as_dir s) b) = Some (Content b)" using registryOkD(3)[OF assms(1)] Some b(2) by auto
  then have "fileAt (as_files s) (agentFile (as_dir s) t i) \<noteq> Missing" by (simp add: fileAt_def zget_def ti)
  then show ?thesis
    using registryOk_del[OF assms(1), of b] Some assms(1) by (simp add: Agent_Delete_def Let_def ti split: option.split)
qed (use assms in \<open>simp add: Agent_Delete_def Let_def split: option.split\<close>)

lemma registryOk_step: "registryOk s \<Longrightarrow> agent_step s s' \<Longrightarrow> registryOk s' \<and> as_dir s' = as_dir s"
proof (erule agent_stepE)
  fix a ctx
  assume s: "registryOk s" and a: "plainAgent a"
  show "s' = snd (Agent_Create ctx None a s) \<Longrightarrow> ?thesis" "s' = snd (Agent_Save ctx None a s) \<Longrightarrow> ?thesis"
    using registryOk_put[OF s a] s plainAgent_valid[OF a]
    by (auto simp: Agent_Create_def Agent_Save_def persistAgent_def writeFile_def Let_def split: option.split)
next
  fix t i ctx
  assume "registryOk s" "plainName t" "plainName i" "s' = snd (Agent_Delete ctx None t i s)"
  then show ?thesis using Agent_Delete_registryOk[of s t i ctx] by (auto simp: Agent_Delete_def Let_def split: option.split)
qed

definition emptyRegistry :: "string \<Rightarrow> fileAgentStore" where
  "emptyRegistry dir = \<lparr>as_dir = dir, as_agents = [], as_files = []\<rparr>"

interpretation registry: inv_system "\<lambda>s. s = emptyRegistry dir" agent_step "\<lambda>s. registryOk s \<and> as_dir s = dir" for dir
proof unfold_locales
  show "s = emptyRegistry dir \<Longrightarrow> registryOk s \<and> as_dir s = dir" for s
    by (simp add: registryOk_def emptyRegistry_def)
  show "registryOk s \<and> as_dir s = dir \<Longrightarrow> agent_step s t \<Longrightarrow> registryOk t \<and> as_dir t = dir" for s t
    using registryOk_step[of s t] by simp
qed

text \<open>The agent registry survives a restart: after any sequence of creations, updates and deletions of agents
  with plain identifiers from an empty directory, without file errors, loading the directory again gives a registry in
  which every lookup has the same answer as before.\<close>
theorem agent_registry_restart:
  assumes "dir \<noteq> []" "reachable (\<lambda>s. s = emptyRegistry dir) agent_step s"
  shows "\<exists>s'. NewFileAgentStore dir (as_files s) = Inr s' \<and> (\<forall>ctx t i. Agent_Get ctx t i s' = Agent_Get ctx t i s)"
proof -
  have "registryOk s" "as_dir s = dir" using registry.inv_reachable[OF assms(2)] by auto
  from registry_reload[OF this(1)] this(2) assms(1) obtain s' where
    s': "NewFileAgentStore dir (as_files s) = Inr s'" "mget (as_agents s') = mget (as_agents s)" by auto
  then have "Agent_Get ctx t i s' = Agent_Get ctx t i s" for ctx t i by (simp add: Agent_Get_def split: option.split)
  with s'(1) show ?thesis by blast
qed

definition sampleAgent :: agent where
  "sampleAgent = \<lparr>ag_AgentID = ''a'', ag_TenantID = ''t'', ag_Name = ''n'', ag_Description = [], ag_Version = ''1'', ag_Status = ''active'',
     ag_Config = None, ag_CreatedAt = [], ag_UpdatedAt = []\<rparr>"

theorem agent_registry_restart_witness:
  "\<exists>s'. NewFileAgentStore ''d'' (as_files (snd (Agent_Create None None sampleAgent (emptyRegistry ''d'')))) = Inr s' \<and>
     Agent_Get None ''t'' ''a'' s' = Inr (Some sampleAgent)"
proof -
  have "plainAgent sampleAgent" by (simp add: plainAgent_def sampleAgent_def plainName_def)
  then have "reachable (\<lambda>s. s = emptyRegistry ''d'') agent_step (snd (Agent_Create None None sampleAgent (emptyRegistry ''d'')))"
    by (intro reach_one[where s = "emptyRegistry ''d''"] as_create) simp_all
  moreover have "Agent_Get None ''t'' ''a'' (snd (Agent_Create None None sampleAgent (emptyRegistry ''d''))) = Inr (Some sampleAgent)"
    by (simp add: Agent_Get_def Agent_Create_def Let_def persistAgent_def writeFile_def emptyRegistry_def sampleAgent_def validateAgent_def)
  ultimately show ?thesis using agent_registry_restart[of "''d''"] by (metis list.distinct(1))
qed

end
