(* ===== verification/Run_Executor.thy ===== *)
theory Run_Executor
  imports Run_Store Agent_Stores Quota_Limiter
begin

text \<open>
  The run executor: the agent loop of a worker (agentorchestrator/agent_loop.go, executor.go, prompt.go), the tool
  registry it calls (internal/tools/registry.go) and the chat types of the model provider (modelpolicy/chat.go).

  \<^item> \<open>executeRun\<close> is the whole loop of one job: transition to running, prompt, PII gate, model call (buffered or
    streaming), tool calls, completion, and \<open>failRun\<close> on every error path. It is a total function: one iteration per
    permitted step.
  \<^item> A worker runs beside HTTP handlers and other workers. Between two accesses to shared state the environment of the
    step (\<open>stepEnv\<close>) may change the shared state by an arbitrary function, and it supplies what the step observes: context
    errors, the provider's answer, tool results, the clock and file errors. Theorems quantify over it.
  \<^item> Events and webhooks are produced as lists, in the order of the calls; the event sink itself is in Event_Sink. Metrics
    and log lines are not modelled.
  \<^item> The PII detector and redactor, the JSON codec of stored tool calls and the bodies of the tools are arguments.
\<close>

subsection \<open>Chat types\<close>

record functionCall =
  fc_Name :: string
  fc_Arguments :: string

record toolCall =
  tcl_ID :: string
  tcl_Type :: string
  tcl_Function :: functionCall

record chatMessage =
  cm_Role :: string
  cm_Content :: json
  cm_ToolCalls :: "toolCall list"
  cm_ToolCallID :: string
  cm_Name :: string

record chatUsage =
  cu_PromptTokens :: int
  cu_CompletionTokens :: int
  cu_TotalTokens :: int

record chatChoice =
  cc_Index :: int
  cc_Message :: chatMessage
  cc_FinishReason :: string

record chatResponse =
  cr_Choices :: "chatChoice list"
  cr_Usage :: chatUsage
  cr_Model :: string

record streamChunk =
  sc_Delta :: string
  sc_ToolCalls :: "toolCall list"
  sc_FinishReason :: string
  sc_Usage :: "chatUsage option"
  sc_Err :: "string option"

record toolFuncDef =
  tf_Name :: string
  tf_Description :: string
  tf_Parameters :: json

record toolDef =
  td_Type :: string
  td_Function :: toolFuncDef

record chatRequest =
  rq_Model :: string
  rq_Messages :: "chatMessage list"
  rq_Tools :: "toolDef list"

definition textMessage :: "string \<Rightarrow> string \<Rightarrow> chatMessage" where
  "textMessage role text = \<lparr>cm_Role = role, cm_Content = JStr text, cm_ToolCalls = [], cm_ToolCallID = [], cm_Name = []\<rparr>"

fun partText :: "json \<Rightarrow> string list" where
  "partText (JObj p) =
     (if jobj p ''type'' \<noteq> JStr ''text'' then []
      else case jobj p ''text'' of JStr text \<Rightarrow> (if text \<noteq> [] then [text] else []) | _ \<Rightarrow> [])"
| "partText _ = []"

definition extractTextFromParts :: "json list \<Rightarrow> string" where
  "extractTextFromParts parts = joinByte CHR '' '' (concat (map partText parts))"

definition MessageText :: "chatMessage \<Rightarrow> string" where
  "MessageText m = (case cm_Content m of JStr s \<Rightarrow> s | JArr parts \<Rightarrow> extractTextFromParts parts | _ \<Rightarrow> [])"

subsection \<open>Numbers and quoting in messages\<close>

fun natDigits :: "nat \<Rightarrow> nat \<Rightarrow> string" where
  "natDigits 0 n = []"
| "natDigits (Suc f) n = (if n < 10 then [char_of (48 + n)] else natDigits f (n div 10) @ [char_of (48 + n mod 10)])"

definition Itoa :: "int \<Rightarrow> string" where
  "Itoa i = (if i < 0 then CHR ''-'' # natDigits (Suc (nat (- i))) (nat (- i)) else natDigits (Suc (nat i)) (nat i))"

definition hexDigit :: "nat \<Rightarrow> char" where
  "hexDigit n = (if n < 10 then char_of (48 + n) else char_of (87 + n))"

definition quoteChar :: "char \<Rightarrow> string" where
  "quoteChar c =
     (let n = of_char c :: nat in
      if c = CHR 0x22 then [CHR 0x5C, CHR 0x22]
      else if c = CHR 0x5C then [CHR 0x5C, CHR 0x5C]
      else if n = 7 then CHR 0x5C # ''a'' else if n = 8 then CHR 0x5C # ''b'' else if n = 9 then CHR 0x5C # ''t''
      else if n = 10 then CHR 0x5C # ''n'' else if n = 11 then CHR 0x5C # ''v'' else if n = 12 then CHR 0x5C # ''f''
      else if n = 13 then CHR 0x5C # ''r''
      else if n < 32 \<or> n = 127 then CHR 0x5C # ''x'' @ [hexDigit (n div 16), hexDigit (n mod 16)]
      else [c])"

definition Quote :: "string \<Rightarrow> string" where
  "Quote s = [CHR 0x22] @ concat (map quoteChar s) @ [CHR 0x22]"

definition truncateStr :: "string \<Rightarrow> nat \<Rightarrow> string" where
  "truncateStr s maxLen = (if length s \<le> maxLen then s else take maxLen s @ ''...'')"

subsection \<open>Tool registry\<close>

datatype toolImpl = Builtin string | WebhookTool customTool

record runTool =
  rt_Name :: string
  rt_Description :: string
  rt_InputSchema :: json
  rt_Impl :: toolImpl

type_synonym toolRegistry = "(string, runTool) gomap"

definition Tool_Register :: "runTool \<Rightarrow> toolRegistry \<Rightarrow> toolRegistry" where
  "Tool_Register t r = mput (rt_Name t) t r"

definition toToolDef :: "runTool \<Rightarrow> toolDef" where
  "toToolDef t = \<lparr>td_Type = ''function'', td_Function = \<lparr>tf_Name = rt_Name t, tf_Description = rt_Description t, tf_Parameters = rt_InputSchema t\<rparr>\<rparr>"

definition GetToolDefs :: "string list \<Rightarrow> toolRegistry \<Rightarrow> toolDef list" where
  "GetToolDefs names r =
     (if names = [] then map (\<lambda>(_, t). toToolDef t) r
      else concat (map (\<lambda>n. case mget r n of Some t \<Rightarrow> [toToolDef t] | None \<Rightarrow> []) names))"

definition Tool_Execute :: "(toolImpl \<Rightarrow> string \<Rightarrow> string + string) \<Rightarrow> (toolImpl \<Rightarrow> string \<Rightarrow> bool) \<Rightarrow> string \<Rightarrow> string \<Rightarrow> toolRegistry \<Rightarrow> string" where
  "Tool_Execute body deadlineExceeded name args r =
     (case mget r name of
        None \<Rightarrow> CHR 0x7B # Quote ''error'' @ '':'' @ Quote ''unknown_tool'' @ '','' @ Quote ''tool'' @ '':'' @ Quote name @ [CHR 0x7D]
      | Some t \<Rightarrow>
          (case body (rt_Impl t) args of
             Inr result \<Rightarrow> result
           | Inl err \<Rightarrow>
               if deadlineExceeded (rt_Impl t) args
               then CHR 0x7B # Quote ''error'' @ '':'' @ Quote ''tool_timeout'' @ '','' @ Quote ''tool'' @ '':'' @ Quote name @ [CHR 0x7D]
               else CHR 0x7B # Quote ''error'' @ '':'' @ Quote ''tool_error'' @ '','' @ Quote ''message'' @ '':'' @ Quote err @ [CHR 0x7D]))"

definition newWebhookTool :: "customTool \<Rightarrow> runTool" where
  "newWebhookTool ct =
     \<lparr>rt_Name = ct_Name ct, rt_Description = ct_Description ct, rt_InputSchema = (case ct_InputSchema ct of Some sch \<Rightarrow> JObj sch | None \<Rightarrow> JObj [(''type'', JStr ''object''), (''properties'', JObj [])]),
      rt_Impl = WebhookTool ct\<rparr>"

fun addCustomTools :: "toolRegistry \<Rightarrow> customTool list \<Rightarrow> toolRegistry \<Rightarrow> string + toolRegistry" where
  "addCustomTools builtin [] clone = Inr clone"
| "addCustomTools builtin (ct # cts) clone =
     (if mget builtin (ct_Name ct) \<noteq> None
      then Inl (''custom tool '' @ Quote (ct_Name ct) @ '' collides with built-in tool'')
      else addCustomTools builtin cts (mput (ct_Name ct) (newWebhookTool ct) clone))"

definition RegisterCustomTools :: "customTool list \<Rightarrow> toolRegistry \<Rightarrow> string + toolRegistry" where
  "RegisterCustomTools cts r = addCustomTools r cts r"

subsection \<open>Prompt\<close>

definition storageMsgToModel :: "(string \<Rightarrow> toolCall list option) \<Rightarrow> storedMessage \<Rightarrow> chatMessage" where
  "storageMsgToModel decode m =
     \<lparr>cm_Role = sm_Role m, cm_Content = JStr (sm_Content m),
      cm_ToolCalls = (if sm_ToolCalls m \<noteq> [] then (case decode (sm_ToolCalls m) of Some tcs \<Rightarrow> tcs | None \<Rightarrow> []) else []),
      cm_ToolCallID = sm_ToolCallID m, cm_Name = sm_Name m\<rparr>"

definition modelMsgToStorage :: "(toolCall list \<Rightarrow> string option) \<Rightarrow> chatMessage \<Rightarrow> storedMessage" where
  "modelMsgToStorage encode m =
     \<lparr>sm_Role = cm_Role m, sm_Content = MessageText m, sm_ToolCallID = cm_ToolCallID m,
      sm_ToolCalls = (if cm_ToolCalls m \<noteq> [] then (case encode (cm_ToolCalls m) of Some b \<Rightarrow> b | None \<Rightarrow> []) else []),
      sm_Name = cm_Name m\<rparr>"

definition buildPrompt :: "(string \<Rightarrow> toolCall list option) \<Rightarrow> agent \<Rightarrow> run \<Rightarrow> storedMessage list \<Rightarrow> chatMessage list" where
  "buildPrompt decode ag r history =
     (case ag_Config ag of
        Some c \<Rightarrow> if ac_SystemPrompt c \<noteq> [] then [textMessage ''system'' (ac_SystemPrompt c)] else []
      | None \<Rightarrow> []) @
     map (storageMsgToModel decode) history @
     (if ri_Text (run_Input r) \<noteq> [] then [textMessage ''user'' (ri_Text (run_Input r))] else [])"

subsection \<open>Executor state and step environment\<close>

record execCfg =
  ex_defaultMaxSteps :: int
  ex_defaultModel :: string
  ex_piiDetector :: bool
  ex_piiMode :: string
  ex_tokenBudget :: bool
  ex_memMaxMessages :: int
  ex_memMaxTokens :: int
  ex_toolMaxOutput :: int
  ex_canStream :: bool
  ex_autoRetry :: bool
  ex_memDir :: string
  ex_tools :: toolRegistry

record execWorld =
  ew_runs :: fileRunStore
  ew_memory :: "storedMessage list fileTree"
  ew_budget :: tokenBudget

record runJob =
  rj_run :: run
  rj_agent :: agent

record 'w stepEnv =
  se_before :: "'w \<Rightarrow> 'w"
  se_ctx :: "string option"
  se_reply :: "chatRequest \<Rightarrow> string + chatResponse"
  se_stream :: "chatRequest \<Rightarrow> string + streamChunk list"
  se_ctxAfter :: "string option"
  se_during :: "'w \<Rightarrow> 'w"
  se_gap :: "'w \<Rightarrow> 'w"
  se_tool :: "toolImpl \<Rightarrow> string \<Rightarrow> string + string"
  se_toolDeadline :: "toolImpl \<Rightarrow> string \<Rightarrow> bool"
  se_toolMs :: "toolCall \<Rightarrow> int"
  se_clock :: time
  se_now :: string
  se_io :: "string option"

record 'd piiOps =
  pii_scan :: "string \<Rightarrow> 'd list"
  pii_redact :: "string \<Rightarrow> 'd list \<Rightarrow> string"

record toolCodec =
  tcd_encode :: "toolCall list \<Rightarrow> string option"
  tcd_decode :: "string \<Rightarrow> toolCall list option"

type_synonym emission = "string \<times> (string, json) gomap"

record hook =
  hk_Event :: string
  hk_TenantID :: string
  hk_RunID :: string
  hk_AgentID :: string
  hk_Timestamp :: string
  hk_Data :: "(string, json) gomap"

definition hookOf :: "string \<Rightarrow> run \<Rightarrow> string \<Rightarrow> (string, json) gomap \<Rightarrow> hook" where
  "hookOf ev r now d = \<lparr>hk_Event = ev, hk_TenantID = run_TenantID r, hk_RunID = run_RunID r, hk_AgentID = run_AgentID r, hk_Timestamp = now, hk_Data = d\<rparr>"

record 'w runResult =
  rr_world :: 'w
  rr_emits :: "emission list"
  rr_hooks :: "hook list"
  rr_calls :: "chatRequest list"
  rr_retry :: "run option"

definition jint :: "int \<Rightarrow> json" where "jint i = JNum (of_int i)"

definition saveRun :: "string option \<Rightarrow> string option \<Rightarrow> run \<Rightarrow> execWorld \<Rightarrow> execWorld" where
  "saveRun ctx io r w = w\<lparr>ew_runs := snd (Run_Save ctx io r (ew_runs w))\<rparr>"

subsection \<open>Phases of a run\<close>

definition transitionToRunning :: "string option \<Rightarrow> string option \<Rightarrow> string \<Rightarrow> run \<Rightarrow> execWorld \<Rightarrow> run \<times> execWorld \<times> emission list \<times> hook list" where
  "transitionToRunning ctx io now r w =
     (let r' = r\<lparr>run_Status := ''running'', run_StartedAt := now\<rparr> in
      (r', saveRun ctx io r' w, [(''run.started'', [(''run_id'', JStr (run_RunID r))])], [hookOf ''run.started'' r' now []]))"

definition maxStepsOf :: "execCfg \<Rightarrow> runJob \<Rightarrow> int" where
  "maxStepsOf cfg job =
     (let s0 = ex_defaultMaxSteps cfg;
          opt = ro_MaxSteps (run_RunOptions (rj_run job));
          s1 = (if opt > 0 then opt else s0) in
      case ag_Config (rj_agent job) of
        Some c \<Rightarrow> if ac_MaxSteps c > 0 \<and> opt = 0 then ac_MaxSteps c else s1
      | None \<Rightarrow> s1)"

definition modelIDOf :: "execCfg \<Rightarrow> runJob \<Rightarrow> string option" where
  "modelIDOf cfg job =
     (case ag_Config (rj_agent job) of
        Some c \<Rightarrow> if ac_ModelID c \<noteq> [] then Some (ac_ModelID c)
                  else if ex_defaultModel cfg \<noteq> [] then Some (ex_defaultModel cfg) else None
      | None \<Rightarrow> if ex_defaultModel cfg \<noteq> [] then Some (ex_defaultModel cfg) else None)"

definition loadAgentToolsAndDefs :: "execCfg \<Rightarrow> runJob \<Rightarrow> toolRegistry \<times> toolDef list" where
  "loadAgentToolsAndDefs cfg job =
     (case ag_Config (rj_agent job) of
        None \<Rightarrow> (ex_tools cfg, GetToolDefs [] (ex_tools cfg))
      | Some c \<Rightarrow>
          let reg = (if ac_CustomTools c \<noteq> []
                     then (case RegisterCustomTools (ac_CustomTools c) (ex_tools cfg) of Inr r \<Rightarrow> r | Inl _ \<Rightarrow> ex_tools cfg)
                     else ex_tools cfg) in
          (reg, GetToolDefs (ac_Tools c) reg))"

definition terminalStatus :: "string \<Rightarrow> bool" where
  "terminalStatus st \<longleftrightarrow> st = ''canceled'' \<or> st = ''completed'' \<or> st = ''failed''"

definition failRun :: "execCfg \<Rightarrow> execWorld stepEnv \<Rightarrow> string \<Rightarrow> string \<Rightarrow> run \<Rightarrow> execWorld \<Rightarrow> execWorld runResult" where
  "failRun cfg env code msg r w =
     (let (got, runs1) = Run_Get None (run_TenantID r) (run_RunID r) (ew_runs w);
          w1 = w\<lparr>ew_runs := runs1\<rparr>;
          ev = [(''run_id'', JStr (run_RunID r)), (''code'', JStr code), (''message'', JStr msg)];
          terminal = (case got of Inr (Some current) \<Rightarrow> if terminalStatus (run_Status current) then Some (run_Status current) else None
                      | _ \<Rightarrow> None) in
      case terminal of
        Some st \<Rightarrow>
          \<lparr>rr_world = w1, rr_emits = [(''run.failed'', ev @ [(''note'', JStr (''run already in terminal state: '' @ st))])],
           rr_hooks = [], rr_calls = [], rr_retry = None\<rparr>
      | None \<Rightarrow>
          let r' = r\<lparr>run_Status := ''failed'', run_CompletedAt := se_now env, run_Error := Some \<lparr>rer_Code = code, rer_Message = msg, rer_Details = []\<rparr>\<rparr> in
          \<lparr>rr_world = saveRun None (se_io env) r' (se_gap env w1), rr_emits = [(''run.failed'', ev)],
           rr_hooks = [hookOf ''run.failed'' r' (se_now env) [(''code'', JStr code), (''message'', JStr msg)]], rr_calls = [],
           rr_retry = (if code = ''provider_error'' \<and> run_RetryOf r = [] \<and> ex_autoRetry cfg then Some r' else None)\<rparr>)"

definition scanInputForPII :: "execCfg \<Rightarrow> 'd piiOps \<Rightarrow> chatMessage list \<Rightarrow> bool \<times> chatMessage list" where
  "scanInputForPII cfg pii msgs =
     (if \<not> ex_piiDetector cfg \<or> msgs = [] then (False, msgs)
      else
        let lastMsg = last msgs; lastText = MessageText lastMsg; detections = pii_scan pii lastText in
        if cm_Role lastMsg \<noteq> ''user'' \<or> lastText = [] then (False, msgs)
        else if detections = [] then (False, msgs)
        else if ex_piiMode cfg = ''block'' then (True, msgs)
        else if ex_piiMode cfg = ''redact''
        then (False, butlast msgs @ [lastMsg\<lparr>cm_Content := JStr (pii_redact pii lastText detections)\<rparr>])
        else (False, msgs))"

record streamAcc =
  sa_content :: string
  sa_toolCalls :: "toolCall list"
  sa_finishReason :: string
  sa_usage :: chatUsage
  sa_emits :: "emission list"

definition zeroUsage :: chatUsage where
  "zeroUsage = \<lparr>cu_PromptTokens = 0, cu_CompletionTokens = 0, cu_TotalTokens = 0\<rparr>"

fun streamLoop :: "int \<Rightarrow> streamChunk list \<Rightarrow> streamAcc \<Rightarrow> (string \<times> emission list) + streamAcc" where
  "streamLoop step [] a = Inr a"
| "streamLoop step (c # cs) a =
     (case sc_Err c of
        Some e \<Rightarrow> Inl (e, sa_emits a)
      | None \<Rightarrow>
          streamLoop step cs
            (a\<lparr>sa_content := sa_content a @ sc_Delta c,
               sa_emits := sa_emits a @ (if sc_Delta c \<noteq> [] then [(''step.token'', [(''delta'', JStr (sc_Delta c)), (''step'', jint step)])] else []),
               sa_toolCalls := sa_toolCalls a @ sc_ToolCalls c,
               sa_finishReason := (if sc_FinishReason c \<noteq> [] then sc_FinishReason c else sa_finishReason a),
               sa_usage := (case sc_Usage c of Some u \<Rightarrow> u | None \<Rightarrow> sa_usage a)\<rparr>))"

definition toolCallEvent :: "int \<Rightarrow> toolCall \<Rightarrow> emission" where
  "toolCallEvent step tc =
     (''step.tool_call'', [(''step'', jint step), (''tool_name'', JStr (fc_Name (tcl_Function tc))), (''tool_id'', JStr (tcl_ID tc))])"

definition streamModelCall :: "'w stepEnv \<Rightarrow> int \<Rightarrow> chatRequest \<Rightarrow> emission list \<times> (string + chatResponse)" where
  "streamModelCall env step req =
     (case se_stream env req of
        Inl e \<Rightarrow> ([], Inl e)
      | Inr chunks \<Rightarrow>
          (case streamLoop step chunks \<lparr>sa_content = [], sa_toolCalls = [], sa_finishReason = [], sa_usage = zeroUsage, sa_emits = []\<rparr> of
             Inl (e, ems) \<Rightarrow> (ems, Inl e)
           | Inr a \<Rightarrow>
               (sa_emits a @ map (toolCallEvent step) (sa_toolCalls a),
                Inr \<lparr>cr_Choices = [\<lparr>cc_Index = 0,
                       cc_Message = (textMessage ''assistant'' (sa_content a))\<lparr>cm_ToolCalls := sa_toolCalls a\<rparr>,
                       cc_FinishReason = (if sa_finishReason a = [] then ''stop'' else sa_finishReason a)\<rparr>],
                     cr_Usage = sa_usage a, cr_Model = rq_Model req\<rparr>)))"

definition invokeModel :: "execCfg \<Rightarrow> 'w stepEnv \<Rightarrow> run \<Rightarrow> int \<Rightarrow> chatRequest \<Rightarrow> emission list \<times> (string + chatResponse)" where
  "invokeModel cfg env r step req =
     (let inv = (''step.model_invoke'', [(''step'', jint step), (''model'', JStr (rq_Model req))]);
          (ems, reply) = (if ro_StreamEvents (run_RunOptions r) \<and> ex_canStream cfg then streamModelCall env step req
                          else ([], se_reply env req)) in
      (inv # ems, reply))"

definition truncateToolOutput :: "execCfg \<Rightarrow> string \<Rightarrow> string" where
  "truncateToolOutput cfg result =
     (if ex_toolMaxOutput cfg > 0 \<and> int (length result) > ex_toolMaxOutput cfg
      then take (nat (ex_toolMaxOutput cfg)) result @ [CHR 0x0A] @ ''... [output truncated at '' @ Itoa (ex_toolMaxOutput cfg) @ '' bytes]''
      else result)"

definition runTools :: "execCfg \<Rightarrow> 'w stepEnv \<Rightarrow> toolRegistry \<Rightarrow> toolCall list \<Rightarrow> (toolCall \<times> string) list" where
  "runTools cfg env reg tcs =
     map (\<lambda>tc. (tc, truncateToolOutput cfg (Tool_Execute (se_tool env) (se_toolDeadline env) (fc_Name (tcl_Function tc)) (fc_Arguments (tcl_Function tc)) reg))) tcs"

definition toolMessage :: "toolCall \<times> string \<Rightarrow> chatMessage" where
  "toolMessage tr = (textMessage ''tool'' (snd tr))\<lparr>cm_ToolCallID := tcl_ID (fst tr)\<rparr>"

definition toolHook :: "'w stepEnv \<Rightarrow> run \<Rightarrow> toolCall \<times> string \<Rightarrow> hook" where
  "toolHook env r tr =
     hookOf ''run.step'' r (se_now env)
       [(''step_id'', JStr (tcl_ID (fst tr))), (''tool_name'', JStr (fc_Name (tcl_Function (fst tr)))),
        (''tool_input'', JStr (truncateStr (fc_Arguments (tcl_Function (fst tr))) 512)), (''tool_output'', JStr (truncateStr (snd tr) 512)),
        (''duration_ms'', jint (se_toolMs env (fst tr)))]"

definition saveConversation :: "execCfg \<Rightarrow> toolCodec \<Rightarrow> string option \<Rightarrow> string option \<Rightarrow> run \<Rightarrow> chatMessage list \<Rightarrow> execWorld \<Rightarrow> execWorld" where
  "saveConversation cfg codec ctx io r msgs w =
     w\<lparr>ew_memory := snd (Memory_Append ctx io (ex_memDir cfg) (run_TenantID r) (run_AgentID r)
                          (map (modelMsgToStorage (tcd_encode codec)) msgs) (ew_memory w))\<rparr>"

definition recordUsage :: "execCfg \<Rightarrow> 'w stepEnv \<Rightarrow> string \<Rightarrow> int \<Rightarrow> execWorld \<Rightarrow> execWorld" where
  "recordUsage cfg env tenant tokens w =
     (if ex_tokenBudget cfg then w\<lparr>ew_budget := fst (snd (RecordTokens None (se_clock env) tenant tokens (ew_budget w)))\<rparr> else w)"

subsection \<open>The agent loop\<close>

definition traced :: "emission list \<Rightarrow> hook list \<Rightarrow> chatRequest list \<Rightarrow> 'w runResult \<Rightarrow> 'w runResult" where
  "traced ems hks calls res = res\<lparr>rr_emits := ems @ rr_emits res, rr_hooks := hks @ rr_hooks res, rr_calls := calls @ rr_calls res\<rparr>"

definition addUsage :: "chatUsage \<Rightarrow> chatUsage \<Rightarrow> chatUsage" where
  "addUsage a b =
     \<lparr>cu_PromptTokens = cu_PromptTokens a + cu_PromptTokens b, cu_CompletionTokens = cu_CompletionTokens a + cu_CompletionTokens b,
      cu_TotalTokens = cu_TotalTokens a + cu_TotalTokens b\<rparr>"

definition usageJSON :: "chatUsage \<Rightarrow> json" where
  "usageJSON u = JObj [(''prompt_tokens'', jint (cu_PromptTokens u)), (''completion_tokens'', jint (cu_CompletionTokens u)),
     (''total_tokens'', jint (cu_TotalTokens u))]"

definition completeRun ::
  "execCfg \<Rightarrow> toolCodec \<Rightarrow> execWorld stepEnv \<Rightarrow> int \<Rightarrow> chatUsage \<Rightarrow> chatMessage \<Rightarrow> chatMessage list \<Rightarrow> run \<Rightarrow> execWorld \<Rightarrow> execWorld runResult" where
  "completeRun cfg codec env step usage answer msgs r w =
     (let r' = r\<lparr>run_Status := ''completed'', run_CompletedAt := se_now env,
                 run_Output := Some \<lparr>rout_Type = ''text'', rout_Text = MessageText answer, rout_Artifacts = []\<rparr>\<rparr> in
      \<lparr>rr_world = saveConversation cfg codec (se_ctxAfter env) (se_io env) r' msgs (saveRun None (se_io env) r' w),
       rr_emits = [(''run.completed'', [(''run_id'', JStr (run_RunID r)), (''total_steps'', jint step), (''usage'', usageJSON usage)])],
       rr_hooks = [hookOf ''run.completed'' r' (se_now env) [(''total_steps'', jint step)]], rr_calls = [], rr_retry = None\<rparr>)"

definition responseEvent :: "int \<Rightarrow> chatChoice \<Rightarrow> chatUsage \<Rightarrow> emission" where
  "responseEvent step choice usage =
     (''step.model_response'', [(''step'', jint step), (''finish_reason'', JStr (cc_FinishReason choice)), (''usage'', usageJSON usage)])"

definition toolResultEvent :: "int \<Rightarrow> toolCall \<times> string \<Rightarrow> emission" where
  "toolResultEvent step tr =
     (''step.tool_result'', [(''step'', jint step), (''tool_id'', JStr (tcl_ID (fst tr))), (''result'', JStr (truncateStr (snd tr) 500))])"

fun agentLoop ::
  "execCfg \<Rightarrow> 'd piiOps \<Rightarrow> toolCodec \<Rightarrow> (nat \<Rightarrow> execWorld stepEnv) \<Rightarrow> string \<Rightarrow> toolRegistry \<Rightarrow> toolDef list \<Rightarrow> int \<Rightarrow> run \<Rightarrow>
   nat \<Rightarrow> nat \<Rightarrow> chatMessage list \<Rightarrow> chatUsage \<Rightarrow> execWorld \<Rightarrow> execWorld runResult" where
  "agentLoop cfg pii codec envs modelID reg defs maxSteps r 0 step msgs usage w =
     failRun cfg (envs (Suc step)) ''max_steps_exceeded'' (''run exceeded maximum of '' @ Itoa maxSteps @ '' steps'') r w"
| "agentLoop cfg pii codec envs modelID reg defs maxSteps r (Suc left) step msgs usage w =
     (let n = Suc step; env = envs n; w1 = se_before env w in
      if se_ctx env \<noteq> None then failRun cfg env ''canceled'' ''run canceled'' r w1
      else
        let (blocked, msgs1) = scanInputForPII cfg pii msgs in
        if blocked then failRun cfg env ''pii_blocked'' ''PII detected in input'' r w1
        else
          let req = \<lparr>rq_Model = modelID, rq_Messages = msgs1, rq_Tools = defs\<rparr>;
              (ems, reply) = invokeModel cfg env r (int n) req;
              w2 = se_during env w1 in
          case reply of
            Inl err \<Rightarrow>
              traced ems [] [req]
                (if se_ctxAfter env \<noteq> None then failRun cfg env ''canceled'' ''run canceled'' r w2
                 else failRun cfg env ''provider_error'' err r w2)
          | Inr resp \<Rightarrow>
              (case cr_Choices resp of
                 [] \<Rightarrow> traced ems [] [req] (failRun cfg env ''provider_error'' ''no choices in model response'' r w2)
               | choice # _ \<Rightarrow>
                   let usage' = addUsage usage (cr_Usage resp);
                       w3 = recordUsage cfg env (run_TenantID r) (cu_TotalTokens (cr_Usage resp)) w2;
                       ems' = ems @ [responseEvent (int n) choice (cr_Usage resp)];
                       tcs = cm_ToolCalls (cc_Message choice) in
                   if cc_FinishReason choice = ''tool_calls'' \<and> tcs \<noteq> []
                   then
                     let results = runTools cfg env reg tcs in
                     traced (ems' @ map (toolCallEvent (int n)) tcs @ map (toolResultEvent (int n)) results)
                       (map (toolHook env r) results) [req]
                       (agentLoop cfg pii codec envs modelID reg defs maxSteps r left n
                          (msgs1 @ [cc_Message choice] @ map toolMessage results) usage' w3)
                   else traced ems' [] [req] (completeRun cfg codec env (int n) usage' (cc_Message choice) msgs1 r w3)))"

definition executeRun ::
  "execCfg \<Rightarrow> 'd piiOps \<Rightarrow> toolCodec \<Rightarrow> string option \<Rightarrow> (nat \<Rightarrow> execWorld stepEnv) \<Rightarrow> runJob \<Rightarrow> execWorld \<Rightarrow> execWorld runResult" where
  "executeRun cfg pii codec ctx0 envs job w =
     (let (r, w1, ems, hks) = transitionToRunning ctx0 (se_io (envs 0)) (se_now (envs 0)) (rj_run job) (se_before (envs 0) w);
          w2 = se_during (envs 0) w1;
          maxSteps = maxStepsOf cfg job;
          history = (case GetRecent (se_ctx (envs 0)) (ex_memDir cfg) (run_TenantID r) (run_AgentID r)
                            (ex_memMaxMessages cfg) (ex_memMaxTokens cfg) (ew_memory w2) of Inr h \<Rightarrow> h | Inl _ \<Rightarrow> []);
          msgs = buildPrompt (tcd_decode codec) (rj_agent job) r history;
          (reg, defs) = loadAgentToolsAndDefs cfg job in
      traced ems hks []
        (case modelIDOf cfg job of
           None \<Rightarrow> failRun cfg (envs 0) ''no_model'' ''no model configured for agent and no default model set'' r w2
         | Some modelID \<Rightarrow> agentLoop cfg pii codec envs modelID reg defs maxSteps r (nat maxSteps) 0 msgs zeroUsage w2))"

subsection \<open>Facts on the phases\<close>

declare agentLoop.simps [simp del]

definition worldOk :: "execWorld \<Rightarrow> bool" where
  "worldOk w \<longleftrightarrow> storeInv (ew_runs w)"

definition envKeeps :: "(execWorld \<Rightarrow> bool) \<Rightarrow> execWorld stepEnv \<Rightarrow> bool" where
  "envKeeps I env \<longleftrightarrow> (\<forall>w. I w \<longrightarrow> I (se_before env w) \<and> I (se_during env w) \<and> I (se_gap env w))"

definition terminalIn :: "string \<Rightarrow> string \<Rightarrow> execWorld \<Rightarrow> bool" where
  "terminalIn t i w \<longleftrightarrow> (\<exists>r. runView (ew_runs w) t i = Some r \<and> terminalStatus (run_Status r))"

lemma envKeepsD:
  assumes "envKeeps I env" "I w"
  shows "I (se_before env w)" "I (se_during env w)" "I (se_gap env w)"
  using assms by (auto simp: envKeeps_def)

lemma traced_simps [simp]:
  "rr_world (traced ems hks calls res) = rr_world res" "rr_emits (traced ems hks calls res) = ems @ rr_emits res"
  "rr_hooks (traced ems hks calls res) = hks @ rr_hooks res" "rr_calls (traced ems hks calls res) = calls @ rr_calls res"
  "rr_retry (traced ems hks calls res) = rr_retry res"
  by (simp_all add: traced_def)

lemma saveRun_worldOk [intro]: "worldOk w \<Longrightarrow> worldOk (saveRun ctx io r w)"
  by (simp add: worldOk_def saveRun_def Run_Save_inv)

lemma saveRun_view:
  assumes "worldOk w" "validateRun r"
  shows "runView (ew_runs (saveRun None io r w)) (run_TenantID r) (run_RunID r) = Some r"
  using file_runs.view_save[of "ew_runs w" r io] assms by (simp add: worldOk_def saveRun_def)

lemma recordUsage_runs [simp]: "ew_runs (recordUsage cfg env t n w) = ew_runs w"
  by (simp add: recordUsage_def)

lemma saveConversation_runs [simp]: "ew_runs (saveConversation cfg codec ctx io r msgs w) = ew_runs w"
  by (simp add: saveConversation_def)

lemma recordUsage_worldOk [simp]: "worldOk (recordUsage cfg env t n w) = worldOk w"
  by (simp add: worldOk_def)

lemma Run_Get_view:
  assumes "storeInv s" "t \<noteq> []" "i \<noteq> []"
  shows "fst (Run_Get None t i s) = Inr (runView s t i)" "runView (snd (Run_Get None t i s)) = runView s"
    "storeInv (snd (Run_Get None t i s))"
  using assms(2,3) by (auto simp: Run_Get_def runView_def Let_def fun_eq_iff split: option.split)
    (use Run_Get_inv[OF assms(1), of None t i] assms(2,3) in \<open>auto simp: Run_Get_def Let_def\<close>)

lemma failRun_cases:
  assumes "worldOk w" "validateRun r"
  defines "w1 \<equiv> w\<lparr>ew_runs := snd (Run_Get None (run_TenantID r) (run_RunID r) (ew_runs w))\<rparr>"
  obtains (already) cur where "runView (ew_runs w) (run_TenantID r) (run_RunID r) = Some cur" "terminalStatus (run_Status cur)"
      "rr_world (failRun cfg env code msg r w) = w1" "rr_hooks (failRun cfg env code msg r w) = []"
      "map fst (rr_emits (failRun cfg env code msg r w)) = [''run.failed'']" "rr_calls (failRun cfg env code msg r w) = []"
      "rr_retry (failRun cfg env code msg r w) = None"
    | (fresh) r' where "\<not> terminalIn (run_TenantID r) (run_RunID r) w"
      "r' = r\<lparr>run_Status := ''failed'', run_CompletedAt := se_now env, run_Error := Some \<lparr>rer_Code = code, rer_Message = msg, rer_Details = []\<rparr>\<rparr>"
      "rr_world (failRun cfg env code msg r w) = saveRun None (se_io env) r' (se_gap env w1)"
      "map fst (rr_emits (failRun cfg env code msg r w)) = [''run.failed'']" "rr_calls (failRun cfg env code msg r w) = []"
proof -
  let ?t = "run_TenantID r" and ?i = "run_RunID r"
  have ne: "?t \<noteq> []" "?i \<noteq> []" using assms(2) by (auto simp: validateRun_def)
  note G = Run_Get_view[OF assms(1)[unfolded worldOk_def] ne]
  obtain got runs1 where g: "Run_Get None ?t ?i (ew_runs w) = (got, runs1)" by (cases "Run_Get None ?t ?i (ew_runs w)")
  have gv: "got = Inr (runView (ew_runs w) ?t ?i)" "w1 = w\<lparr>ew_runs := runs1\<rparr>" using G(1) g by (simp_all add: w1_def)
  show thesis
  proof (cases "terminalIn ?t ?i w")
    case True
    then obtain cur where c: "runView (ew_runs w) ?t ?i = Some cur" "terminalStatus (run_Status cur)" by (auto simp: terminalIn_def)
    show thesis by (rule already[OF c]) (use c gv g in \<open>simp_all add: failRun_def Let_def\<close>)
  next
    case False
    have "(case got of Inr (Some current) \<Rightarrow> if terminalStatus (run_Status current) then Some (run_Status current) else None | _ \<Rightarrow> None) = None"
      using False gv(1) by (auto simp: terminalIn_def split: option.split)
    then show thesis by (intro fresh[OF False refl]) (use gv g in \<open>simp_all add: failRun_def Let_def\<close>)
  qed
qed

lemma failRun_terminal:
  assumes "worldOk w" "validateRun r" "envKeeps worldOk env"
  shows "terminalIn (run_TenantID r) (run_RunID r) (rr_world (failRun cfg env code msg r w))"
proof -
  let ?w1 = "w\<lparr>ew_runs := snd (Run_Get None (run_TenantID r) (run_RunID r) (ew_runs w))\<rparr>"
  have ne: "run_TenantID r \<noteq> []" "run_RunID r \<noteq> []" using assms(2) by (auto simp: validateRun_def)
  note G = Run_Get_view[OF assms(1)[unfolded worldOk_def] ne]
  have w1: "worldOk ?w1" using G(3) by (simp add: worldOk_def)
  from assms(1,2) show ?thesis
  proof (cases rule: failRun_cases[where cfg = cfg and env = env and code = code and msg = msg])
    case (already cur)
    then show ?thesis using G(2) by (auto simp: terminalIn_def)
  next
    case (fresh r')
    have "worldOk (se_gap env ?w1)" by (rule envKeepsD(3)[OF assms(3) w1])
    moreover have "validateRun r'" "run_TenantID r' = run_TenantID r" "run_RunID r' = run_RunID r" "run_Status r' = ''failed''"
      using assms(2) fresh(2) by (auto simp: validateRun_def)
    ultimately show ?thesis using saveRun_view[of "se_gap env ?w1" r' "se_io env"] fresh(3) by (auto simp: terminalIn_def terminalStatus_def)
  qed
qed

lemma completeRun_view:
  assumes "worldOk w" "validateRun r"
  shows "\<exists>r'. runView (ew_runs (rr_world (completeRun cfg codec env n usage ans msgs r w))) (run_TenantID r) (run_RunID r) = Some r' \<and>
    run_Status r' = ''completed''"
proof -
  define r' where "r' = r\<lparr>run_Status := ''completed'', run_CompletedAt := se_now env,
      run_Output := Some \<lparr>rout_Type = ''text'', rout_Text = MessageText ans, rout_Artifacts = []\<rparr>\<rparr>"
  have "validateRun r'" "run_TenantID r' = run_TenantID r" "run_RunID r' = run_RunID r" "run_Status r' = ''completed''"
    using assms(2) by (auto simp: r'_def validateRun_def)
  moreover have "ew_runs (rr_world (completeRun cfg codec env n usage ans msgs r w)) = ew_runs (saveRun None (se_io env) r' w)"
    by (simp add: completeRun_def Let_def r'_def)
  ultimately show ?thesis using saveRun_view[OF assms(1), of r' "se_io env"] by auto
qed

lemma completeRun_terminal:
  assumes "worldOk w" "validateRun r"
  shows "terminalIn (run_TenantID r) (run_RunID r) (rr_world (completeRun cfg codec env n usage ans msgs r w))"
  using completeRun_view[OF assms, of cfg codec env n usage ans msgs] by (auto simp: terminalIn_def terminalStatus_def)

definition stepEvents :: "emission list \<Rightarrow> bool" where
  "stepEvents ems \<longleftrightarrow> (\<forall>e\<in>set ems. HasPrefix (fst e) ''step.'')"

lemma stepEvents_simps [simp]: "stepEvents []" "stepEvents (x # xs) \<longleftrightarrow> HasPrefix (fst x) ''step.'' \<and> stepEvents xs"
  "stepEvents (xs @ ys) \<longleftrightarrow> stepEvents xs \<and> stepEvents ys"
  by (auto simp: stepEvents_def)

lemma stepEvents_tools [simp]: "stepEvents (map (toolCallEvent n) tcs)" "stepEvents (map (toolResultEvent n) trs)"
  by (auto simp: stepEvents_def toolCallEvent_def toolResultEvent_def)

lemma streamLoop_events:
  "stepEvents (sa_emits a) \<Longrightarrow>
   (case streamLoop step cs a of Inl (e, ems) \<Rightarrow> stepEvents ems | Inr a' \<Rightarrow> stepEvents (sa_emits a'))"
  by (induction step cs a rule: streamLoop.induct) (auto split: option.split)

lemma invokeModel_events: "stepEvents (fst (invokeModel cfg env r n req))"
proof -
  let ?a = "\<lparr>sa_content = [], sa_toolCalls = [], sa_finishReason = [], sa_usage = zeroUsage, sa_emits = []\<rparr>"
  have "stepEvents (fst (streamModelCall env n req))"
  proof (cases "se_stream env req")
    case (Inr chunks)
    with streamLoop_events[of ?a n chunks] show ?thesis
      by (auto simp: streamModelCall_def split: sum.splits)
  qed (simp add: streamModelCall_def)
  then show ?thesis by (auto simp: invokeModel_def Let_def split: prod.split)
qed

definition piiCleared :: "execCfg \<Rightarrow> 'd piiOps \<Rightarrow> chatRequest \<Rightarrow> bool" where
  "piiCleared cfg pii req \<longleftrightarrow>
     (ex_piiDetector cfg \<longrightarrow> rq_Messages req \<noteq> [] \<longrightarrow> cm_Role (last (rq_Messages req)) = ''user'' \<longrightarrow>
        (let text = MessageText (last (rq_Messages req)) in
         text = [] \<or> pii_scan pii text = [] \<or>
         ex_piiMode cfg \<noteq> ''block'' \<and>
         (ex_piiMode cfg = ''redact'' \<longrightarrow> (\<exists>orig. pii_scan pii orig \<noteq> [] \<and> text = pii_redact pii orig (pii_scan pii orig)))))"

lemma scanInputForPII_cleared:
  assumes "scanInputForPII cfg pii msgs = (False, msgs1)"
  shows "piiCleared cfg pii \<lparr>rq_Model = mid, rq_Messages = msgs1, rq_Tools = defs\<rparr>"
  using assms by (auto simp: scanInputForPII_def piiCleared_def Let_def MessageText_def split: if_splits)

text \<open>One iteration of the loop ends the run, by a failure or a completion, or goes on with the next step.\<close>

lemma agentLoop_Suc_cases:
  fixes cfg pii codec envs modelID reg defs maxSteps r left step msgs usage w
  defines "res \<equiv> agentLoop cfg pii codec envs modelID reg defs maxSteps r (Suc left) step msgs usage w"
    and "env \<equiv> envs (Suc step)"
  obtains (fail) ems calls code msg w' where
      "res = traced ems [] calls (failRun cfg env code msg r w')"
      "w' = se_before env w \<or> w' = se_during env (se_before env w)"
      "stepEvents ems" "length calls \<le> 1" "\<forall>req\<in>set calls. piiCleared cfg pii req \<and> rq_Model req = modelID \<and> rq_Tools req = defs"
      "calls \<noteq> [] \<longrightarrow> se_ctx env = None"
    | (complete) ems req ans usage' msgs1 tokens where
      "res = traced ems [] [req] (completeRun cfg codec env (int (Suc step)) usage' ans msgs1 r
               (recordUsage cfg env (run_TenantID r) tokens (se_during env (se_before env w))))"
      "stepEvents ems" "piiCleared cfg pii req" "rq_Model req = modelID" "rq_Tools req = defs" "se_ctx env = None"
    | (continue) ems hks req msgs' usage' tokens where
      "res = traced ems hks [req] (agentLoop cfg pii codec envs modelID reg defs maxSteps r left (Suc step) msgs' usage'
               (recordUsage cfg env (run_TenantID r) tokens (se_during env (se_before env w))))"
      "stepEvents ems" "piiCleared cfg pii req" "rq_Model req = modelID" "rq_Tools req = defs" "se_ctx env = None"
proof -
  have traced_nil: "traced [] [] [] x = x" for x :: "execWorld runResult" by (simp add: traced_def)
  note unfold = res_def agentLoop.simps(2) Let_def env_def[symmetric]
  show thesis
  proof (cases "se_ctx env")
    case (Some e)
    then have "res = traced [] [] [] (failRun cfg env ''canceled'' ''run canceled'' r (se_before env w))"
      by (simp add: unfold traced_nil)
    then show thesis by (rule fail) simp_all
  next
    case None
    obtain blocked msgs1 where sc: "scanInputForPII cfg pii msgs = (blocked, msgs1)" by (cases "scanInputForPII cfg pii msgs")
    show thesis
    proof (cases blocked)
      case True
      then have "res = traced [] [] [] (failRun cfg env ''pii_blocked'' ''PII detected in input'' r (se_before env w))"
        by (simp add: unfold traced_nil None sc)
      then show thesis by (rule fail) simp_all
    next
      case False
      define req where "req = \<lparr>rq_Model = modelID, rq_Messages = msgs1, rq_Tools = defs\<rparr>"
      obtain ems reply where iv: "invokeModel cfg env r (int (Suc step)) req = (ems, reply)"
        by (cases "invokeModel cfg env r (int (Suc step)) req")
      have ems: "stepEvents ems" using invokeModel_events[of cfg env r "int (Suc step)" req] iv by simp
      have req: "piiCleared cfg pii req" "rq_Model req = modelID" "rq_Tools req = defs"
        using scanInputForPII_cleared[of cfg pii msgs msgs1] sc False by (auto simp: req_def)
      note base = unfold None sc False req_def[symmetric] iv
      show thesis
      proof (cases reply)
        case (Inl err)
        have "res = traced ems [] [req] (failRun cfg env (if se_ctxAfter env \<noteq> None then ''canceled'' else ''provider_error'')
            (if se_ctxAfter env \<noteq> None then ''run canceled'' else err) r (se_during env (se_before env w)))"
          by (simp add: base Inl del: of_nat_Suc)
        then show thesis by (rule fail) (use ems req None in simp_all)
      next
        case (Inr resp)
        show thesis
        proof (cases "cr_Choices resp")
          case Nil
          have "res = traced ems [] [req] (failRun cfg env ''provider_error'' ''no choices in model response'' r (se_during env (se_before env w)))"
            by (simp add: base Inr Nil del: of_nat_Suc)
          then show thesis by (rule fail) (use ems req None in simp_all)
        next
          case (Cons choice rest)
          have ev: "HasPrefix (fst (responseEvent n choice u)) ''step.''" for n u by (simp add: responseEvent_def)
          show thesis
          proof (cases "cc_FinishReason choice = ''tool_calls'' \<and> cm_ToolCalls (cc_Message choice) \<noteq> []")
            case True
            let ?n = "int (Suc step)" and ?tcs = "cm_ToolCalls (cc_Message choice)"
            let ?trs = "runTools cfg env reg ?tcs"
            have "res = traced ((ems @ [responseEvent ?n choice (cr_Usage resp)]) @ map (toolCallEvent ?n) ?tcs @ map (toolResultEvent ?n) ?trs)
                (map (toolHook env r) ?trs) [req]
                (agentLoop cfg pii codec envs modelID reg defs maxSteps r left (Suc step) (msgs1 @ [cc_Message choice] @ map toolMessage ?trs)
                   (addUsage usage (cr_Usage resp))
                   (recordUsage cfg env (run_TenantID r) (cu_TotalTokens (cr_Usage resp)) (se_during env (se_before env w))))"
              using True by (simp add: base Inr Cons del: of_nat_Suc)
            then show thesis by (rule continue) (use ems req None ev in simp_all)
          next
            case no_tools: False
            have "res = traced (ems @ [responseEvent (int (Suc step)) choice (cr_Usage resp)]) [] [req]
                (completeRun cfg codec env (int (Suc step)) (addUsage usage (cr_Usage resp)) (cc_Message choice) msgs1 r
                   (recordUsage cfg env (run_TenantID r) (cu_TotalTokens (cr_Usage resp)) (se_during env (se_before env w))))"
              using no_tools by (auto simp: base Inr Cons simp del: of_nat_Suc)
            then show thesis by (rule complete) (use ems req None ev in simp_all)
          qed
        qed
      qed
    qed
  qed
qed

lemma agentLoop_terminal:
  assumes "\<And>n. envKeeps worldOk (envs n)" "worldOk w" "validateRun r"
  shows "terminalIn (run_TenantID r) (run_RunID r) (rr_world (agentLoop cfg pii codec envs modelID reg defs maxSteps r left step msgs usage w))"
  using assms(2)
proof (induction left arbitrary: step msgs usage w)
  case 0
  show ?case unfolding agentLoop.simps(1) by (rule failRun_terminal[OF 0 assms(3) assms(1)])
next
  case (Suc left)
  let ?env = "envs (Suc step)"
  have w1: "worldOk (se_before ?env w)" "worldOk (se_during ?env (se_before ?env w))"
    using envKeepsD[OF assms(1)] Suc.prems by blast+
  show ?case
  proof (cases rule: agentLoop_Suc_cases[where cfg = cfg and pii = pii and codec = codec and envs = envs and modelID = modelID and reg = reg
        and defs = defs and maxSteps = maxSteps and r = r and left = left and step = step and msgs = msgs and usage = usage and w = w])
    case (fail ems calls code msg w')
    then have "worldOk w'" using w1 by blast
    with fail(1) failRun_terminal[OF _ assms(3) assms(1)] show ?thesis by simp
  next
    case (complete ems req ans usage' msgs1 tokens)
    show ?thesis unfolding complete(1) traced_simps by (rule completeRun_terminal) (use w1(2) assms(3) in simp_all)
  next
    case (continue ems hks req msgs' usage' tokens)
    with Suc.IH w1(2) show ?thesis by simp
  qed
qed

lemma failRun_trace:
  assumes "worldOk w" "validateRun r"
  shows "map fst (rr_emits (failRun cfg env code msg r w)) = [''run.failed''] \<and> rr_calls (failRun cfg env code msg r w) = []"
  using assms by (cases rule: failRun_cases[where cfg = cfg and env = env and code = code and msg = msg]) simp_all

lemma completeRun_trace:
  "map fst (rr_emits (completeRun cfg codec env n usage ans msgs r w)) = [''run.completed''] \<and>
   rr_calls (completeRun cfg codec env n usage ans msgs r w) = []"
  by (simp add: completeRun_def Let_def)

definition endsOnce :: "emission list \<Rightarrow> bool" where
  "endsOnce ems \<longleftrightarrow> (\<exists>steps fin. ems = steps @ [fin] \<and> stepEvents steps \<and> (fst fin = ''run.completed'' \<or> fst fin = ''run.failed''))"

lemma endsOnce_single:
  assumes "map fst ems = [''run.failed''] \<or> map fst ems = [''run.completed'']"
  shows "endsOnce ems"
proof -
  obtain e where "ems = [e]" "fst e = ''run.failed'' \<or> fst e = ''run.completed''" using assms by (cases ems) auto
  then show ?thesis unfolding endsOnce_def by (intro exI[of _ "[]"] exI[of _ e]) auto
qed

lemma endsOnce_prepend:
  assumes "stepEvents steps" "endsOnce ems"
  shows "endsOnce (steps @ ems)"
proof -
  obtain st fin where "ems = st @ [fin]" "stepEvents st" "fst fin = ''run.completed'' \<or> fst fin = ''run.failed''"
    using assms(2) by (auto simp: endsOnce_def)
  with assms(1) show ?thesis unfolding endsOnce_def by (intro exI[of _ "steps @ st"] exI[of _ fin]) simp
qed

lemma agentLoop_trace:
  fixes cfg and pii :: "'d piiOps" and codec modelID reg defs maxSteps
  assumes "\<And>n. envKeeps worldOk (envs n)" "worldOk w" "validateRun r"
  defines "res \<equiv> \<lambda>left step msgs usage w. agentLoop cfg pii codec envs modelID reg defs maxSteps r left step msgs usage w"
  shows "endsOnce (rr_emits (res left step msgs usage w)) \<and> length (rr_calls (res left step msgs usage w)) \<le> left \<and>
    (\<forall>req\<in>set (rr_calls (res left step msgs usage w)). piiCleared cfg pii req \<and> rq_Model req = modelID \<and> rq_Tools req = defs)"
  using assms(2)
proof (induction left arbitrary: step msgs usage w)
  case 0
  show ?case unfolding res_def agentLoop.simps(1) using failRun_trace[OF 0 assms(3)] by (simp add: endsOnce_single)
next
  case (Suc left)
  let ?env = "envs (Suc step)"
  have w1: "worldOk (se_before ?env w)" "worldOk (se_during ?env (se_before ?env w))"
    using envKeepsD[OF assms(1)] Suc.prems by blast+
  show ?case
  proof (cases rule: agentLoop_Suc_cases[where cfg = cfg and pii = pii and codec = codec and envs = envs and modelID = modelID and reg = reg
        and defs = defs and maxSteps = maxSteps and r = r and left = left and step = step and msgs = msgs and usage = usage and w = w])
    case (fail ems calls code msg w')
    then have "worldOk w'" using w1 by blast
    from failRun_trace[OF this assms(3), of cfg ?env code msg] fail endsOnce_prepend[OF fail(3) endsOnce_single]
    show ?thesis by (simp add: res_def)
  next
    case (complete ems req ans usage' msgs1 tokens)
    have "endsOnce (ems @ rr_emits (completeRun cfg codec ?env (int (Suc step)) usage' ans msgs1 r
               (recordUsage cfg ?env (run_TenantID r) tokens (se_during ?env (se_before ?env w)))))"
      by (rule endsOnce_prepend[OF complete(2) endsOnce_single]) (simp add: completeRun_trace)
    with complete completeRun_trace[of cfg codec ?env "int (Suc step)" usage' ans msgs1 r] show ?thesis
      by (simp add: res_def)
  next
    case (continue ems hks req msgs' usage' tokens)
    let ?w = "recordUsage cfg ?env (run_TenantID r) tokens (se_during ?env (se_before ?env w))"
    have IH: "endsOnce (rr_emits (res left (Suc step) msgs' usage' ?w)) \<and> length (rr_calls (res left (Suc step) msgs' usage' ?w)) \<le> left \<and>
      (\<forall>req\<in>set (rr_calls (res left (Suc step) msgs' usage' ?w)). piiCleared cfg pii req \<and> rq_Model req = modelID \<and> rq_Tools req = defs)"
      by (rule Suc.IH) (use w1(2) in simp)
    from continue(1) have "res (Suc left) step msgs usage w = traced ems hks [req] (res left (Suc step) msgs' usage' ?w)"
      by (simp add: res_def)
    with IH continue(2-5) endsOnce_prepend[OF continue(2)] show ?thesis by simp
  qed
qed

lemma transitionToRunning_simps:
  "transitionToRunning ctx io now r w =
     (r\<lparr>run_Status := ''running'', run_StartedAt := now\<rparr>, saveRun ctx io (r\<lparr>run_Status := ''running'', run_StartedAt := now\<rparr>) w,
      [(''run.started'', [(''run_id'', JStr (run_RunID r))])], [hookOf ''run.started'' (r\<lparr>run_Status := ''running'', run_StartedAt := now\<rparr>) now []])"
  by (simp add: transitionToRunning_def Let_def)

definition startedRun :: "(nat \<Rightarrow> execWorld stepEnv) \<Rightarrow> runJob \<Rightarrow> run" where
  "startedRun envs job = (rj_run job)\<lparr>run_Status := ''running'', run_StartedAt := se_now (envs 0)\<rparr>"

definition startedWorld :: "string option \<Rightarrow> (nat \<Rightarrow> execWorld stepEnv) \<Rightarrow> runJob \<Rightarrow> execWorld \<Rightarrow> execWorld" where
  "startedWorld ctx0 envs job w = se_during (envs 0) (saveRun ctx0 (se_io (envs 0)) (startedRun envs job) (se_before (envs 0) w))"

lemma startedRun_simps [simp]:
  "run_TenantID (startedRun envs job) = run_TenantID (rj_run job)" "run_RunID (startedRun envs job) = run_RunID (rj_run job)"
  "validateRun (startedRun envs job) = validateRun (rj_run job)"
  by (simp_all add: startedRun_def validateRun_def)

lemma executeRun_cases:
  obtains (no_model) hks where "modelIDOf cfg job = None"
      "executeRun cfg pii codec ctx0 envs job w =
         traced [(''run.started'', [(''run_id'', JStr (run_RunID (rj_run job)))])] hks []
           (failRun cfg (envs 0) ''no_model'' ''no model configured for agent and no default model set'' (startedRun envs job) (startedWorld ctx0 envs job w))"
    | (loop) hks modelID reg defs msgs where "modelIDOf cfg job = Some modelID"
      "executeRun cfg pii codec ctx0 envs job w =
         traced [(''run.started'', [(''run_id'', JStr (run_RunID (rj_run job)))])] hks []
           (agentLoop cfg pii codec envs modelID reg defs (maxStepsOf cfg job) (startedRun envs job) (nat (maxStepsOf cfg job)) 0 msgs zeroUsage
              (startedWorld ctx0 envs job w))"
proof -
  note simps = executeRun_def transitionToRunning_simps Let_def startedRun_def[symmetric] startedWorld_def[symmetric]
  obtain reg defs where l: "loadAgentToolsAndDefs cfg job = (reg, defs)" by (cases "loadAgentToolsAndDefs cfg job")
  show thesis
  proof (cases "modelIDOf cfg job")
    case None
    show thesis by (rule no_model[OF None]) (simp add: simps None l)
  next
    case (Some modelID)
    show thesis by (rule loop[OF Some]) (simp add: simps Some l)
  qed
qed

lemma startedWorld_ok:
  assumes "\<And>n. envKeeps worldOk (envs n)" "worldOk w"
  shows "worldOk (startedWorld ctx0 envs job w)"
  unfolding startedWorld_def using envKeepsD[OF assms(1)] saveRun_worldOk assms(2) by blast

text \<open>A failure path never overwrites a terminal state: it leaves every stored run as it was.\<close>

lemma failRun_keeps_terminal:
  assumes "worldOk w" "validateRun r" "terminalIn (run_TenantID r) (run_RunID r) w"
  shows "runView (ew_runs (rr_world (failRun cfg env code msg r w))) = runView (ew_runs w) \<and> rr_calls (failRun cfg env code msg r w) = []"
proof -
  have ne: "run_TenantID r \<noteq> []" "run_RunID r \<noteq> []" using assms(2) by (auto simp: validateRun_def)
  note G = Run_Get_view[OF assms(1)[unfolded worldOk_def] ne]
  from assms(1,2) show ?thesis
    by (cases rule: failRun_cases[where cfg = cfg and env = env and code = code and msg = msg]) (use G(2) assms(3) in simp_all)
qed

subsection \<open>Properties\<close>

text \<open>C1. Every run executed by a worker ends: whatever the provider answers, whatever the tools return, whatever
  file errors occur and however handlers and other workers change the run store in between (as long as they keep its
  invariant), the run is left in one of the terminal states completed, failed or canceled; the model is called at most as
  often as the step limit allows; and the emitted events are one run.started, then step events, then exactly one
  run.completed or run.failed.\<close>
theorem executeRun_ends:
  assumes "\<And>n w. storeInv (ew_runs w) \<Longrightarrow> storeInv (ew_runs (se_before (envs n) w)) \<and>
      storeInv (ew_runs (se_during (envs n) w)) \<and> storeInv (ew_runs (se_gap (envs n) w))"
    and "storeInv (ew_runs w)" "validateRun (rj_run job)"
  shows "(\<exists>r. runView (ew_runs (rr_world (executeRun cfg pii codec ctx0 envs job w))) (run_TenantID (rj_run job)) (run_RunID (rj_run job)) = Some r \<and>
      run_Status r \<in> {''completed'', ''failed'', ''canceled''}) \<and>
    length (rr_calls (executeRun cfg pii codec ctx0 envs job w)) \<le> nat (maxStepsOf cfg job) \<and>
    (\<exists>start steps fin. rr_emits (executeRun cfg pii codec ctx0 envs job w) = start # steps @ [fin] \<and> fst start = ''run.started'' \<and>
      (\<forall>e\<in>set steps. HasPrefix (fst e) ''step.'') \<and> fst fin \<in> {''run.completed'', ''run.failed''})"
proof -
  have keeps: "envKeeps worldOk (envs n)" for n using assms(1) by (auto simp: envKeeps_def worldOk_def)
  have w: "worldOk (startedWorld ctx0 envs job w)" by (rule startedWorld_ok[OF keeps]) (simp add: worldOk_def assms(2))
  have v: "validateRun (startedRun envs job)" using assms(3) by simp
  let ?res = "executeRun cfg pii codec ctx0 envs job w"
  have "terminalIn (run_TenantID (rj_run job)) (run_RunID (rj_run job)) (rr_world ?res) \<and>
    length (rr_calls ?res) \<le> nat (maxStepsOf cfg job) \<and>
    (\<exists>start rest. rr_emits ?res = start # rest \<and> fst start = ''run.started'' \<and> endsOnce rest)"
  proof (cases rule: executeRun_cases[where cfg = cfg and pii = pii and codec = codec and ?ctx0.0 = ctx0 and envs = envs and job = job and w = w])
    case (no_model hks)
    with failRun_terminal[OF w v keeps] failRun_trace[OF w v] endsOnce_single show ?thesis by simp
  next
    case (loop hks modelID reg defs msgs)
    with agentLoop_terminal[where envs = envs and cfg = cfg and pii = pii and codec = codec and modelID = modelID and reg = reg and defs = defs
          and msgs = msgs and usage = zeroUsage and step = 0 and maxSteps = "maxStepsOf cfg job" and left = "nat (maxStepsOf cfg job)",
          OF keeps w v]
        agentLoop_trace[where envs = envs and cfg = cfg and pii = pii and codec = codec and modelID = modelID and reg = reg and defs = defs
          and msgs = msgs and usage = zeroUsage and step = 0 and maxSteps = "maxStepsOf cfg job" and left = "nat (maxStepsOf cfg job)",
          OF keeps w v]
    show ?thesis by simp
  qed
  then show ?thesis unfolding terminalIn_def terminalStatus_def endsOnce_def stepEvents_def by blast
qed

definition sampleCfg :: execCfg where
  "sampleCfg = \<lparr>ex_defaultMaxSteps = 3, ex_defaultModel = ''m'', ex_piiDetector = True, ex_piiMode = ''block'', ex_tokenBudget = True,
     ex_memMaxMessages = 10, ex_memMaxTokens = 100, ex_toolMaxOutput = 1000, ex_canStream = False, ex_autoRetry = False,
     ex_memDir = ''data'', ex_tools = []\<rparr>"

definition sampleReply :: chatResponse where
  "sampleReply = \<lparr>cr_Choices = [\<lparr>cc_Index = 0, cc_Message = textMessage ''assistant'' ''ok'', cc_FinishReason = ''stop''\<rparr>],
     cr_Usage = zeroUsage, cr_Model = ''m''\<rparr>"

definition sampleEnv :: "execWorld stepEnv" where
  "sampleEnv = \<lparr>se_before = id, se_ctx = None, se_reply = (\<lambda>_. Inr sampleReply), se_stream = (\<lambda>_. Inr []), se_ctxAfter = None,
     se_during = id, se_gap = id, se_tool = (\<lambda>_ _. Inr []), se_toolDeadline = (\<lambda>_ _. False), se_toolMs = (\<lambda>_. 0), se_clock = 0,
     se_now = ''now'', se_io = None\<rparr>"

definition samplePII :: "unit piiOps" where
  "samplePII = \<lparr>pii_scan = (\<lambda>t. if t = ''ssn'' then [()] else []), pii_redact = (\<lambda>_ _. ''[R]'')\<rparr>"

definition sampleCodec :: toolCodec where
  "sampleCodec = \<lparr>tcd_encode = (\<lambda>_. None), tcd_decode = (\<lambda>_. None)\<rparr>"

definition sampleJob :: runJob where
  "sampleJob = \<lparr>rj_run = sampleRun ''t'' ''a'' ''r1'' ''1'', rj_agent = sampleAgent\<rparr>"

definition sampleWorld :: execWorld where
  "sampleWorld = \<lparr>ew_runs = putRun (sampleRun ''t'' ''a'' ''r1'' ''1'') emptyRunStore, ew_memory = [], ew_budget = NewTokenBudget 0\<rparr>"

lemma sample_ok:
  "storeInv (ew_runs sampleWorld)" "validateRun (rj_run sampleJob)" "run_TenantID (rj_run sampleJob) = ''t''" "run_RunID (rj_run sampleJob) = ''r1''"
  "maxStepsOf sampleCfg sampleJob = 3"
proof -
  show "storeInv (ew_runs sampleWorld)"
    unfolding sampleWorld_def by (simp, rule putRun_inv[OF emptyRunStore_inv]) (simp add: validateRun_def sampleRun_def)
qed (simp_all add: sampleJob_def sampleRun_def validateRun_def sampleAgent_def maxStepsOf_def sampleCfg_def Let_def)

theorem executeRun_ends_witness:
  "(\<exists>r. runView (ew_runs (rr_world (executeRun sampleCfg samplePII sampleCodec None (\<lambda>_. sampleEnv) sampleJob sampleWorld))) ''t'' ''r1'' = Some r \<and>
      run_Status r \<in> {''completed'', ''failed'', ''canceled''}) \<and>
   length (rr_calls (executeRun sampleCfg samplePII sampleCodec None (\<lambda>_. sampleEnv) sampleJob sampleWorld)) \<le> 3"
  using executeRun_ends[of "\<lambda>_. sampleEnv" sampleWorld sampleJob sampleCfg samplePII sampleCodec None] sample_ok
  by (simp add: sampleEnv_def)

text \<open>C15. Cancellation before the start is final: when a run is already in a terminal state in the store, its
  context is canceled, and nothing else touches the stored run, a worker that picks the job up makes no model call and
  leaves the stored run exactly as it was.\<close>
theorem canceled_run_stays:
  assumes "\<And>n w. storeInv (ew_runs w) \<Longrightarrow> storeInv (ew_runs (se_before (envs n) w)) \<and> storeInv (ew_runs (se_during (envs n) w))"
    and "\<And>n w. runView (ew_runs (se_before (envs n) w)) (run_TenantID (rj_run job)) (run_RunID (rj_run job)) =
        runView (ew_runs w) (run_TenantID (rj_run job)) (run_RunID (rj_run job))"
    and "\<And>n w. runView (ew_runs (se_during (envs n) w)) (run_TenantID (rj_run job)) (run_RunID (rj_run job)) =
        runView (ew_runs w) (run_TenantID (rj_run job)) (run_RunID (rj_run job))"
    and "storeInv (ew_runs w)" "validateRun (rj_run job)"
    and "runView (ew_runs w) (run_TenantID (rj_run job)) (run_RunID (rj_run job)) = Some cur" "run_Status cur = ''canceled''"
    and "ctx0 \<noteq> None" "se_ctx (envs 1) \<noteq> None"
  shows "runView (ew_runs (rr_world (executeRun cfg pii codec ctx0 envs job w))) (run_TenantID (rj_run job)) (run_RunID (rj_run job)) = Some cur \<and>
    rr_calls (executeRun cfg pii codec ctx0 envs job w) = []"
proof -
  let ?t = "run_TenantID (rj_run job)" and ?i = "run_RunID (rj_run job)" and ?w = "startedWorld ctx0 envs job w"
  have sv: "saveRun ctx0 io r x = x" for io r x using assms(8) by (auto simp: saveRun_def Run_Save_def)
  have ok: "worldOk ?w" "runView (ew_runs ?w) ?t ?i = Some cur"
    unfolding startedWorld_def sv worldOk_def using assms(1-4,6) by auto
  then have ok': "worldOk (se_before (envs 1) ?w)" "runView (ew_runs (se_before (envs 1) ?w)) ?t ?i = Some cur"
    using assms(1,2) by (auto simp: worldOk_def)
  have fail: "runView (ew_runs (rr_world (failRun cfg env code msg (startedRun envs job) x))) ?t ?i = Some cur \<and>
      rr_calls (failRun cfg env code msg (startedRun envs job) x) = []"
    if "worldOk x" "runView (ew_runs x) ?t ?i = Some cur" for env code msg x
    using failRun_keeps_terminal[of x "startedRun envs job" cfg env code msg] that assms(5,7) by (simp add: terminalIn_def terminalStatus_def)
  show ?thesis
  proof (cases rule: executeRun_cases[where cfg = cfg and pii = pii and codec = codec and ?ctx0.0 = ctx0 and envs = envs and job = job and w = w])
    case (no_model hks)
    with fail[OF ok] show ?thesis by simp
  next
    case (loop hks modelID reg defs msgs)
    have "agentLoop cfg pii codec envs modelID reg defs (maxStepsOf cfg job) (startedRun envs job) n 0 msgs zeroUsage ?w =
        (case n of 0 \<Rightarrow> failRun cfg (envs 1) ''max_steps_exceeded'' (''run exceeded maximum of '' @ Itoa (maxStepsOf cfg job) @ '' steps'') (startedRun envs job) ?w
         | Suc _ \<Rightarrow> failRun cfg (envs 1) ''canceled'' ''run canceled'' (startedRun envs job) (se_before (envs 1) ?w))" for n
      using assms(9) by (cases n) (simp_all add: agentLoop.simps Let_def)
    with loop(2) fail[OF ok] fail[OF ok'] show ?thesis by (simp split: nat.split)
  qed
qed

theorem canceled_run_stays_witness:
  "runView (ew_runs (rr_world (executeRun sampleCfg samplePII sampleCodec (Some ''context canceled'') (\<lambda>_. sampleEnv\<lparr>se_ctx := Some ''context canceled''\<rparr>)
      sampleJob (sampleWorld\<lparr>ew_runs := putRun ((sampleRun ''t'' ''a'' ''r1'' ''1'')\<lparr>run_Status := ''canceled''\<rparr>) emptyRunStore\<rparr>)))) ''t'' ''r1'' =
   Some ((sampleRun ''t'' ''a'' ''r1'' ''1'')\<lparr>run_Status := ''canceled''\<rparr>)"
proof -
  let ?r = "(sampleRun ''t'' ''a'' ''r1'' ''1'')\<lparr>run_Status := ''canceled''\<rparr>"
  have v: "validateRun ?r" by (simp add: validateRun_def sampleRun_def)
  have s: "storeInv (putRun ?r emptyRunStore)" by (rule putRun_inv[OF emptyRunStore_inv v])
  have "runView (putRun ?r emptyRunStore) ''t'' ''r1'' = Some ?r"
    using runView_putRun[OF emptyRunStore_inv v, of "''t''" "''r1''"] by (simp add: sampleRun_def)
  with s canceled_run_stays[of "\<lambda>_. sampleEnv\<lparr>se_ctx := Some ''context canceled''\<rparr>" sampleJob
      "sampleWorld\<lparr>ew_runs := putRun ?r emptyRunStore\<rparr>" ?r "Some ''context canceled''" sampleCfg samplePII sampleCodec] sample_ok
  show ?thesis by (simp add: sampleEnv_def)
qed

text \<open>C16. The PII gate: with the detector on, every model request of a run whose last message is a user message
  has a text without detections when the mode is block, and in redact mode a text without detections or one produced by the
  redactor. Every request names the run's model and carries the agent's tool definitions.\<close>
theorem pii_gate:
  assumes "\<And>n w. storeInv (ew_runs w) \<Longrightarrow> storeInv (ew_runs (se_before (envs n) w)) \<and>
      storeInv (ew_runs (se_during (envs n) w)) \<and> storeInv (ew_runs (se_gap (envs n) w))"
    and "storeInv (ew_runs w)" "validateRun (rj_run job)" "ex_piiDetector cfg"
    and "req \<in> set (rr_calls (executeRun cfg pii codec ctx0 envs job w))" "rq_Messages req \<noteq> []"
    and "cm_Role (last (rq_Messages req)) = ''user''" "MessageText (last (rq_Messages req)) = text" "text \<noteq> []"
  shows "(ex_piiMode cfg = ''block'' \<longrightarrow> pii_scan pii text = []) \<and>
    (ex_piiMode cfg = ''redact'' \<longrightarrow> pii_scan pii text = [] \<or> (\<exists>orig. pii_scan pii orig \<noteq> [] \<and> text = pii_redact pii orig (pii_scan pii orig))) \<and>
    modelIDOf cfg job = Some (rq_Model req)"
proof -
  have keeps: "envKeeps worldOk (envs n)" for n using assms(1) by (auto simp: envKeeps_def worldOk_def)
  have w: "worldOk (startedWorld ctx0 envs job w)" by (rule startedWorld_ok[OF keeps]) (simp add: worldOk_def assms(2))
  have v: "validateRun (startedRun envs job)" using assms(3) by simp
  have "piiCleared cfg pii req \<and> modelIDOf cfg job = Some (rq_Model req)"
  proof (cases rule: executeRun_cases[where cfg = cfg and pii = pii and codec = codec and ?ctx0.0 = ctx0 and envs = envs and job = job and w = w])
    case (no_model hks)
    with failRun_trace[OF w v] assms(5) show ?thesis by simp
  next
    case (loop hks modelID reg defs msgs)
    with agentLoop_trace[where envs = envs and cfg = cfg and pii = pii and codec = codec and modelID = modelID and reg = reg and defs = defs
          and msgs = msgs and usage = zeroUsage and step = 0 and maxSteps = "maxStepsOf cfg job" and left = "nat (maxStepsOf cfg job)",
          OF keeps w v] assms(5)
    show ?thesis by auto
  qed
  then show ?thesis using assms(4,6-9) by (auto simp: piiCleared_def Let_def)
qed

lemma sample_calls:
  "rr_calls (executeRun sampleCfg samplePII sampleCodec None (\<lambda>_. sampleEnv) sampleJob sampleWorld) =
     [\<lparr>rq_Model = ''m'', rq_Messages = [textMessage ''user'' ''hi''], rq_Tools = []\<rparr>]"
proof -
  have mem: "ew_memory (saveRun ctx io r sampleWorld) = []" for ctx io r by (simp add: saveRun_def sampleWorld_def)
  have st: "maxStepsOf sampleCfg sampleJob = 3" "modelIDOf sampleCfg sampleJob = Some ''m''" "loadAgentToolsAndDefs sampleCfg sampleJob = ([], [])"
    by (simp_all add: maxStepsOf_def modelIDOf_def loadAgentToolsAndDefs_def sampleJob_def sampleCfg_def sampleAgent_def sampleRun_def GetToolDefs_def Let_def)
  have env: "se_before sampleEnv = id" "se_during sampleEnv = id" "se_ctx sampleEnv = None" "se_reply sampleEnv req = Inr sampleReply" for req
    by (simp_all add: sampleEnv_def)
  have hist: "GetRecent None d t a mm mt [] = Inr []" for d t a mm mt
    by (simp add: GetRecent_def fileAt_def readFile_def trimByTokens_def)
  have prompt: "buildPrompt dec (rj_agent sampleJob) ((rj_run sampleJob)\<lparr>run_Status := st, run_StartedAt := now\<rparr>) [] = [textMessage ''user'' ''hi'']" for dec st now
    by (simp add: buildPrompt_def sampleJob_def sampleAgent_def sampleRun_def)
  have scan: "scanInputForPII sampleCfg samplePII [textMessage ''user'' ''hi''] = (False, [textMessage ''user'' ''hi''])"
    by (simp add: scanInputForPII_def samplePII_def textMessage_def MessageText_def Let_def)
  have inv: "snd (invokeModel sampleCfg sampleEnv r n req) = Inr sampleReply" for r n req
    by (simp add: invokeModel_def sampleCfg_def env Let_def)
  have loop: "rr_calls (agentLoop sampleCfg samplePII sampleCodec (\<lambda>_. sampleEnv) ''m'' [] [] 3 r (Suc n) 0 [textMessage ''user'' ''hi''] zeroUsage w) =
      [\<lparr>rq_Model = ''m'', rq_Messages = [textMessage ''user'' ''hi''], rq_Tools = []\<rparr>]" for r n w
    using inv[of r 1 "\<lparr>rq_Model = ''m'', rq_Messages = [textMessage ''user'' ''hi''], rq_Tools = []\<rparr>"]
    by (auto simp: agentLoop.simps(2) env scan Let_def sampleReply_def completeRun_def split: prod.split)
  have three: "(3::nat) = Suc 2" by simp
  have loop3: "rr_calls (agentLoop sampleCfg samplePII sampleCodec (\<lambda>_. sampleEnv) ''m'' [] [] 3 r 3 0 [textMessage ''user'' ''hi''] zeroUsage w) =
      [\<lparr>rq_Model = ''m'', rq_Messages = [textMessage ''user'' ''hi''], rq_Tools = []\<rparr>]" for r w
    unfolding three by (rule loop)
  show ?thesis
    unfolding executeRun_def transitionToRunning_simps Let_def st env mem
    by (simp add: mem hist prompt loop3)
qed

theorem pii_gate_witness:
  "pii_scan samplePII (MessageText (textMessage ''user'' ''hi'')) = []"
  using pii_gate[of "\<lambda>_. sampleEnv" sampleWorld sampleJob sampleCfg "\<lparr>rq_Model = ''m'', rq_Messages = [textMessage ''user'' ''hi''], rq_Tools = []\<rparr>"
      samplePII sampleCodec None "''hi''"] sample_ok sample_calls
  by (simp add: sampleEnv_def sampleCfg_def textMessage_def MessageText_def)

subsection \<open>Behaviours of note\<close>

text \<open>The completion path saves without looking at the stored state: a cancellation that was stored while the model
  was answering is overwritten.\<close>

lemma completion_overwrites_cancellation:
  assumes "storeInv (ew_runs w)" "validateRun r" "runView (ew_runs w) (run_TenantID r) (run_RunID r) = Some cur" "run_Status cur = ''canceled''"
  shows "\<exists>r'. runView (ew_runs (rr_world (completeRun cfg codec env n usage ans msgs r w))) (run_TenantID r) (run_RunID r) = Some r' \<and>
    run_Status r' = ''completed''"
  by (rule completeRun_view) (use assms in \<open>simp_all add: worldOk_def\<close>)

text \<open>A tool call is executed for any name of the registry; the list of tools of the agent only selects the definitions
  shown to the model.\<close>

lemma tool_list_not_enforced:
  assumes "mget reg name = Some t" "se_tool env (rt_Impl t) args = Inr out" "int (length out) \<le> ex_toolMaxOutput cfg"
    and "tcl_Function tc = \<lparr>fc_Name = name, fc_Arguments = args\<rparr>" "names \<noteq> []" "name \<notin> set names" "\<forall>(k, t)\<in>set reg. rt_Name t = k"
  shows "runTools cfg env reg [tc] = [(tc, out)] \<and> name \<notin> set (map (\<lambda>d. tf_Name (td_Function d)) (GetToolDefs names reg))"
proof -
  have "rt_Name t' = n" if "mget reg n = Some t'" for n t' using mget_in_set[OF that] assms(7) by auto
  then show ?thesis using assms(1-6)
    by (auto simp: runTools_def Tool_Execute_def truncateToolOutput_def GetToolDefs_def toToolDef_def split: option.splits)
qed

end
