(* ===== verification/Run_Handlers.thy ===== *)
theory Run_Handlers
  imports Run_Executor Auth_Access
begin

text \<open>
  The HTTP handlers of the run lifecycle (agentorchestrator/server.go): creating runs one by one and in batches, listing,
  reading, canceling with cascade, retrying, the restoration of the quota counters at start, and the routing of the
  /v1/runs/ and /v1/agents/ trees with their role checks.

  \<^item> \<open>server\<close> holds the shared state the handlers change: the run store, the agent store, the limiter, the token budget,
    the executor's queue and its table of cancel functions, and the audit log.
  \<^item> A request is its decoded body and a \<open>reqEnv\<close>: the clock, the fresh identifier, the state of the request context and
    the outcome of file writes. A response is \<open>RErr\<close> with the error object or \<open>ROk\<close> with the status and the body.
  \<^item> The executor queue is a Go channel; \<open>Submit\<close> blocks while it is full, so the order of the jobs is that of the
    submissions and the model appends. The server has an executor, as NewServer always builds one; the branches for a nil
    executor are left out, like correlation identifiers and metrics. A timeout in milliseconds is multiplied in 64 bits.
\<close>

subsection \<open>Requests, responses and server state\<close>

record reqEnv =
  re_clock :: time
  re_now :: string
  re_newID :: string
  re_ctx :: "string option"
  re_io :: "string option"
  re_principal :: string
  re_requestID :: string

datatype 'b resp = RErr httpError | ROk int 'b

record runCreateRequest =
  rcr_Input :: runInput
  rcr_RunOptions :: runOptions
  rcr_IdempotencyKey :: string

record auditEntry =
  au_TenantID :: string
  au_PrincipalID :: string
  au_Action :: string
  au_Resource :: string
  au_Outcome :: string
  au_RequestID :: string
  au_Meta :: "(string, json) gomap"

record queuedJob =
  qj_job :: runJob
  qj_timeout :: duration

record server =
  sv_runs :: fileRunStore
  sv_agents :: fileAgentStore
  sv_limiter :: "memoryBackend limiter"
  sv_tokenBudget :: "tokenBudget option"
  sv_memory :: "storedMessage list fileTree"
  sv_queue :: "queuedJob list"
  sv_cancels :: "string list"
  sv_canceled :: "string list"
  sv_audit :: "auditEntry list"

definition auditLog :: "reqEnv \<Rightarrow> string \<Rightarrow> string \<Rightarrow> string \<Rightarrow> string \<Rightarrow> (string, json) gomap \<Rightarrow> server \<Rightarrow> server" where
  "auditLog env tenantID action resource outcome meta s =
     s\<lparr>sv_audit := sv_audit s @ [\<lparr>au_TenantID = tenantID, au_PrincipalID = re_principal env, au_Action = action, au_Resource = resource,
        au_Outcome = outcome, au_RequestID = re_requestID env, au_Meta = meta\<rparr>]\<rparr>"

definition decConcurrent :: "string \<Rightarrow> server \<Rightarrow> server" where
  "decConcurrent tenantID s = s\<lparr>sv_limiter := Limiter_DecConcurrent DecConcurrent tenantID (sv_limiter s)\<rparr>"

definition tooMany :: "string \<Rightarrow> string \<Rightarrow> httpError" where
  "tooMany code msg = httpxError 429 code msg True"

subsection \<open>Executor queue\<close>

definition jobTimeout :: "run \<Rightarrow> agent \<Rightarrow> duration" where
  "jobTimeout r a =
     (if ro_TimeoutMs (run_RunOptions r) > 0 then sint (word_of_int (ro_TimeoutMs (run_RunOptions r) * millisecond) :: 64 word)
      else case ag_Config a of
        Some c \<Rightarrow> if ac_TimeoutMs c > 0 then sint (word_of_int (ac_TimeoutMs c * millisecond) :: 64 word) else 300 * second
      | None \<Rightarrow> 300 * second)"

definition Submit :: "run \<Rightarrow> agent \<Rightarrow> server \<Rightarrow> server" where
  "Submit r a s =
     s\<lparr>sv_cancels := List.insert (run_RunID r) (sv_cancels s),
       sv_queue := sv_queue s @ [\<lparr>qj_job = \<lparr>rj_run = r, rj_agent = a\<rparr>, qj_timeout = jobTimeout r a\<rparr>]\<rparr>"

definition Exec_Cancel :: "string \<Rightarrow> server \<Rightarrow> server" where
  "Exec_Cancel runID s = (if runID \<in> set (sv_cancels s) then s\<lparr>sv_canceled := List.insert runID (sv_canceled s)\<rparr> else s)"

text \<open>A worker takes the first job, executes it on the shared stores and forgets its cancel function. The limiter is not
  among the state it can reach.\<close>

definition worker :: "execCfg \<Rightarrow> 'd piiOps \<Rightarrow> toolCodec \<Rightarrow> string option \<Rightarrow> (nat \<Rightarrow> execWorld stepEnv) \<Rightarrow> server \<Rightarrow> server" where
  "worker cfg pii codec ctx0 envs s =
     (case sv_queue s of
        [] \<Rightarrow> s
      | q # qs \<Rightarrow>
          let w = \<lparr>ew_runs = sv_runs s, ew_memory = sv_memory s,
                   ew_budget = (case sv_tokenBudget s of Some tb \<Rightarrow> tb | None \<Rightarrow> NewTokenBudget 0)\<rparr>;
              w' = rr_world (executeRun cfg pii codec ctx0 envs (qj_job q) w) in
          s\<lparr>sv_runs := ew_runs w', sv_memory := ew_memory w',
            sv_tokenBudget := map_option (\<lambda>_. ew_budget w') (sv_tokenBudget s), sv_queue := qs,
            sv_cancels := removeAll (run_RunID (rj_run (qj_job q))) (sv_cancels s)\<rparr>)"

definition minimalAgent :: "string \<Rightarrow> string \<Rightarrow> agent" where
  "minimalAgent tenantID agentID =
     \<lparr>ag_AgentID = agentID, ag_TenantID = tenantID, ag_Name = [], ag_Description = [], ag_Version = [], ag_Status = [],
      ag_Config = None, ag_CreatedAt = [], ag_UpdatedAt = []\<rparr>"

definition resolveAgent :: "reqEnv \<Rightarrow> string \<Rightarrow> string \<Rightarrow> server \<Rightarrow> agent" where
  "resolveAgent env tenantID agentID s =
     (case Agent_Get (re_ctx env) tenantID agentID (sv_agents s) of Inr (Some a) \<Rightarrow> a | _ \<Rightarrow> minimalAgent tenantID agentID)"

subsection \<open>Creating runs\<close>

definition emptyRun :: run where
  "emptyRun = \<lparr>run_TenantID = [], run_AgentID = [], run_RunID = [], run_Status = [], run_CreatedAt = [], run_StartedAt = [],
     run_CompletedAt = [], run_EventsURL = [], run_Input = \<lparr>ri_Type = [], ri_Text = []\<rparr>,
     run_RunOptions = \<lparr>ro_Priority = [], ro_TimeoutMs = 0, ro_MaxSteps = 0, ro_StreamEvents = False\<rparr>,
     run_Output = None, run_Error = None, run_IdempotencyKey = [], run_RetryOf = [], run_ParentRunID = []\<rparr>"

definition newRun :: "reqEnv \<Rightarrow> string \<Rightarrow> string \<Rightarrow> runCreateRequest \<Rightarrow> run" where
  "newRun env tenantID agentID req =
     emptyRun\<lparr>run_TenantID := tenantID, run_AgentID := agentID, run_RunID := re_newID env, run_Status := ''queued'',
       run_CreatedAt := re_now env, run_EventsURL := ''/v1/runs/'' @ re_newID env @ ''/events'', run_Input := rcr_Input req,
       run_RunOptions := rcr_RunOptions req, run_IdempotencyKey := rcr_IdempotencyKey req\<rparr>"

definition createErr :: "runErr \<Rightarrow> httpError" where
  "createErr e =
     (case e of
        ErrRunExists \<Rightarrow> httpxError 409 ''conflict'' ''failed to persist run'' False
      | ErrInvalidRun \<Rightarrow> httpxError 400 ''invalid_request'' ''failed to persist run'' False
      | _ \<Rightarrow> httpxError 500 ''run_persist_failed'' ''failed to persist run'' True)"

text \<open>The three quota checks that open a create request, with the slot given back when the token budget refuses.\<close>

definition checkQuota :: "reqEnv \<Rightarrow> string \<Rightarrow> server \<Rightarrow> (httpError \<times> string) option \<times> server" where
  "checkQuota env tenantID s =
     (let (okQPS, l1) = Limiter_AllowQPS AllowQPS (re_clock env) tenantID (sv_limiter s); s1 = s\<lparr>sv_limiter := l1\<rparr> in
      if \<not> okQPS then (Some (tooMany ''quota_exceeded'' ''run create QPS exceeded'', ''qps_exceeded''), s1)
      else
        let (okSlot, l2) = Limiter_TryIncConcurrent TryIncConcurrent tenantID l1; s2 = s1\<lparr>sv_limiter := l2\<rparr> in
        if \<not> okSlot then (Some (tooMany ''quota_exceeded'' ''concurrent runs exceeded'', ''concurrent_exceeded''), s2)
        else
          case sv_tokenBudget s2 of
            None \<Rightarrow> (None, s2)
          | Some tb \<Rightarrow>
              let (ok, tb') = CheckBudget None (re_clock env) tenantID tb; s3 = s2\<lparr>sv_tokenBudget := Some tb'\<rparr> in
              if \<not> ok then (Some (tooMany ''token_budget_exceeded'' ''hourly token budget exceeded'', ''token_budget_exceeded''), decConcurrent tenantID s3)
              else (None, s3))"

definition handleRunCreate :: "reqEnv \<Rightarrow> string \<Rightarrow> string \<Rightarrow> string + runCreateRequest \<Rightarrow> server \<Rightarrow> run resp \<times> server" where
  "handleRunCreate env tenantID agentID body s =
     (case checkQuota env tenantID s of
        (Some (err, reason), s1) \<Rightarrow>
          (RErr err, auditLog env tenantID ''runs.create'' ''agent-orchestrator'' ''denied'' [(''reason'', JStr reason)] s1)
      | (None, s1) \<Rightarrow>
          (case body of
             Inl _ \<Rightarrow> (RErr (httpxError 400 ''invalid_json'' ''invalid json body'' False), decConcurrent tenantID s1)
           | Inr req \<Rightarrow>
               (case (if rcr_IdempotencyKey req \<noteq> [] then GetByIdempotencyKey (re_ctx env) tenantID (rcr_IdempotencyKey req) (sv_runs s1) else Inr None) of
                  Inr (Some existing) \<Rightarrow> (ROk 200 existing, decConcurrent tenantID s1)
                | _ \<Rightarrow>
                    let r = newRun env tenantID agentID req in
                    case Run_Create (re_ctx env) (re_io env) r (sv_runs s1) of
                      (Some e, runs') \<Rightarrow> (RErr (createErr e), decConcurrent tenantID (s1\<lparr>sv_runs := runs'\<rparr>))
                    | (None, runs') \<Rightarrow>
                        let s2 = auditLog env tenantID ''runs.create'' (''run/'' @ run_RunID r) ''allowed'' [(''agent_id'', JStr agentID)] (s1\<lparr>sv_runs := runs'\<rparr>) in
                        (ROk 201 r, Submit r (resolveAgent env tenantID agentID s2) s2))))"

fun batchLoop ::
  "(nat \<Rightarrow> reqEnv) \<Rightarrow> string \<Rightarrow> string \<Rightarrow> agent \<Rightarrow> nat \<Rightarrow> runCreateRequest list \<Rightarrow> run list \<Rightarrow> server \<Rightarrow> (httpError + run list) \<times> server" where
  "batchLoop envs tenantID agentID a n [] created s = (Inr created, s)"
| "batchLoop envs tenantID agentID a n (req # reqs) created s =
     (case checkQuota (envs n) tenantID s of
        (Some (err, _), s1) \<Rightarrow> (Inl err, s1)
      | (None, s1) \<Rightarrow>
          let r = newRun (envs n) tenantID agentID req in
          (case Run_Create (re_ctx (envs n)) (re_io (envs n)) r (sv_runs s1) of
             (Some _, runs') \<Rightarrow>
               let s2 = decConcurrent tenantID (s1\<lparr>sv_runs := runs'\<rparr>) in
               if created \<noteq> [] then (Inr created, s2)
               else (Inl (httpxError 500 ''run_persist_failed'' ''failed to persist run'' True), s2)
           | (None, runs') \<Rightarrow>
               batchLoop envs tenantID agentID a (Suc n) reqs (created @ [r]) (Submit r a (s1\<lparr>sv_runs := runs'\<rparr>))))"

definition handleRunBatch :: "(nat \<Rightarrow> reqEnv) \<Rightarrow> string \<Rightarrow> string \<Rightarrow> string + runCreateRequest list \<Rightarrow> server \<Rightarrow> run list resp \<times> server" where
  "handleRunBatch envs tenantID agentID body s =
     (case body of
        Inl _ \<Rightarrow> (RErr (httpxError 400 ''invalid_json'' ''invalid json body'' False), s)
      | Inr reqs \<Rightarrow>
          if reqs = [] then (RErr (httpxError 400 ''invalid_request'' ''at least one run is required'' False), s)
          else if length reqs > 50 then (RErr (httpxError 400 ''invalid_request'' ''maximum 50 runs per batch'' False), s)
          else
            (case batchLoop envs tenantID agentID (resolveAgent (envs 0) tenantID agentID s) 0 reqs [] s of
               (Inl err, s1) \<Rightarrow> (RErr err, s1)
             | (Inr created, s1) \<Rightarrow>
                 (ROk 201 created,
                  auditLog (envs 0) tenantID ''runs.batch_create'' (''agent/'' @ agentID) ''allowed'' [(''count'', jint (int (length created)))] s1)))"

subsection \<open>Reading and listing\<close>

definition listLimit :: "string \<Rightarrow> int" where
  "listLimit v =
     (let limit = (if v \<noteq> [] then (case Atoi v of Some n \<Rightarrow> if n > 0 then n else 50 | None \<Rightarrow> 50) else 50) in
      if limit > 200 then 200 else limit)"

definition handleRunList :: "reqEnv \<Rightarrow> (string \<Rightarrow> string) \<Rightarrow> string \<Rightarrow> string \<Rightarrow> server \<Rightarrow> (run list \<times> bool) resp" where
  "handleRunList env query tenantID agentID s =
     (let limit = listLimit (query ''limit''); status = query ''status'' in
      case ListByAgent (re_ctx env) tenantID agentID (limit + 1) (query ''after'') (sv_runs s) of
        Inl _ \<Rightarrow> RErr (httpxError 500 ''run_list_failed'' ''failed to list runs'' True)
      | Inr runs \<Rightarrow>
          let runs' = (if status \<noteq> [] then filter (\<lambda>r. run_Status r = status) runs else runs);
              hasMore = int (length runs') > limit in
          ROk 200 (if hasMore then take (nat limit) runs' else runs', hasMore))"

definition handleRunGet :: "reqEnv \<Rightarrow> string \<Rightarrow> string \<Rightarrow> server \<Rightarrow> run resp \<times> server" where
  "handleRunGet env tenantID runID s =
     (case Run_Get (re_ctx env) tenantID runID (sv_runs s) of
        (Inl _, runs') \<Rightarrow> (RErr (httpxError 500 ''run_lookup_failed'' ''failed to load run'' True), s\<lparr>sv_runs := runs'\<rparr>)
      | (Inr None, runs') \<Rightarrow> (RErr (httpxError 404 ''not_found'' ''run not found'' False), s\<lparr>sv_runs := runs'\<rparr>)
      | (Inr (Some r), runs') \<Rightarrow> (ROk 200 r, s\<lparr>sv_runs := runs'\<rparr>))"

subsection \<open>Canceling\<close>

definition maxCancelDepth :: "(string \<Rightarrow> string) \<Rightarrow> nat" where
  "maxCancelDepth getenv =
     (let v = getenv ''AGENTOS_MAX_DELEGATION_DEPTH'' in
      if v \<noteq> [] then (case Atoi v of Some n \<Rightarrow> if n > 0 then nat n else 5 | None \<Rightarrow> 5) else 5)"

definition activeStatus :: "string \<Rightarrow> bool" where
  "activeStatus st \<longleftrightarrow> st = ''queued'' \<or> st = ''running''"

definition cancelRun :: "reqEnv \<Rightarrow> run \<Rightarrow> run" where
  "cancelRun env r = r\<lparr>run_Status := ''canceled'', run_CompletedAt := re_now env\<rparr>"

function (sequential) cascadeCancelChildren :: "nat \<Rightarrow> reqEnv \<Rightarrow> string \<Rightarrow> string \<Rightarrow> server \<Rightarrow> server"
  and cancelChildren :: "nat \<Rightarrow> reqEnv \<Rightarrow> string \<Rightarrow> run list \<Rightarrow> server \<Rightarrow> server" where
  "cascadeCancelChildren 0 env tenantID parentRunID s = s"
| "cascadeCancelChildren (Suc levels) env tenantID parentRunID s =
     (case ListChildRuns (re_ctx env) tenantID parentRunID (sv_runs s) of
        Inl _ \<Rightarrow> s
      | Inr children \<Rightarrow> cancelChildren levels env tenantID children s)"
| "cancelChildren levels env tenantID [] s = s"
| "cancelChildren levels env tenantID (child # rest) s =
     (if \<not> activeStatus (run_Status child) then cancelChildren levels env tenantID rest s
      else
        let s1 = Exec_Cancel (run_RunID child) s;
            (err, runs') = Run_Save (re_ctx env) (re_io env) (cancelRun env child) (sv_runs s1);
            s2 = s1\<lparr>sv_runs := runs'\<rparr> in
        if err \<noteq> None then cancelChildren levels env tenantID rest s2
        else cancelChildren levels env tenantID rest
               (cascadeCancelChildren levels env tenantID (run_RunID child) (decConcurrent tenantID s2)))"
  by pat_completeness auto
termination
  by (relation "measures [\<lambda>x. case x of Inl (n, _) \<Rightarrow> n | Inr (n, _) \<Rightarrow> n,
       \<lambda>x. case x of Inl _ \<Rightarrow> 0 | Inr (_, _, _, cs, _) \<Rightarrow> length cs]") auto

definition handleCancel :: "(string \<Rightarrow> string) \<Rightarrow> reqEnv \<Rightarrow> string \<Rightarrow> string \<Rightarrow> string \<Rightarrow> server \<Rightarrow> run resp \<times> server" where
  "handleCancel getenv env httpMethod tenantID runID s =
     (if httpMethod \<noteq> ''POST'' then (RErr (httpxError 405 ''method_not_allowed'' ''method not allowed'' False), s)
      else
        case Run_Get (re_ctx env) tenantID runID (sv_runs s) of
          (Inl _, runs1) \<Rightarrow> (RErr (httpxError 500 ''run_lookup_failed'' ''failed to load run'' True), s\<lparr>sv_runs := runs1\<rparr>)
        | (Inr None, runs1) \<Rightarrow> (RErr (httpxError 404 ''not_found'' ''run not found'' False), s\<lparr>sv_runs := runs1\<rparr>)
        | (Inr (Some r), runs1) \<Rightarrow>
            let s1 = s\<lparr>sv_runs := runs1\<rparr> in
            if terminalStatus (run_Status r)
            then (RErr (httpxError 409 ''invalid_state_transition'' (''cannot cancel run in '' @ run_Status r @ '' state'') False), s1)
            else
              let s2 = Exec_Cancel (run_RunID r) s1; r' = cancelRun env r in
              case Run_Save (re_ctx env) (re_io env) r' (sv_runs s2) of
                (Some _, runs2) \<Rightarrow>
                  (RErr (httpxError 500 ''run_persist_failed'' ''failed to persist run cancellation'' True), s2\<lparr>sv_runs := runs2\<rparr>)
              | (None, runs2) \<Rightarrow>
                  let s3 = cascadeCancelChildren (maxCancelDepth getenv) env tenantID runID (s2\<lparr>sv_runs := runs2\<rparr>) in
                  (ROk 200 r', auditLog env tenantID ''runs.cancel'' (''run/'' @ runID) ''allowed'' [] (decConcurrent tenantID s3)))"

subsection \<open>Retrying\<close>

definition retryRun :: "reqEnv \<Rightarrow> run \<Rightarrow> run" where
  "retryRun env original =
     emptyRun\<lparr>run_TenantID := run_TenantID original, run_AgentID := run_AgentID original, run_RunID := re_newID env, run_Status := ''queued'',
       run_CreatedAt := re_now env, run_EventsURL := ''/v1/runs/'' @ re_newID env @ ''/events'', run_Input := run_Input original,
       run_RunOptions := run_RunOptions original, run_RetryOf := run_RunID original\<rparr>"

definition handleRunRetry :: "reqEnv \<Rightarrow> string \<Rightarrow> string \<Rightarrow> server \<Rightarrow> run resp \<times> server" where
  "handleRunRetry env tenantID runID s =
     (case Run_Get (re_ctx env) tenantID runID (sv_runs s) of
        (Inl _, runs1) \<Rightarrow> (RErr (httpxError 500 ''run_lookup_failed'' ''failed to load run'' True), s\<lparr>sv_runs := runs1\<rparr>)
      | (Inr None, runs1) \<Rightarrow> (RErr (httpxError 404 ''not_found'' ''run not found'' False), s\<lparr>sv_runs := runs1\<rparr>)
      | (Inr (Some original), runs1) \<Rightarrow>
          let s1 = s\<lparr>sv_runs := runs1\<rparr> in
          if run_Status original \<noteq> ''failed'' \<and> run_Status original \<noteq> ''error''
          then (RErr (httpxError 409 ''run_not_terminal'' ''only failed or errored runs can be retried'' False), s1)
          else
            let r = retryRun env original in
            case Run_Create (re_ctx env) (re_io env) r (sv_runs s1) of
              (Some _, runs2) \<Rightarrow>
                (RErr (httpxError 500 ''run_persist_failed'' ''failed to persist retry run'' True), s1\<lparr>sv_runs := runs2\<rparr>)
            | (None, runs2) \<Rightarrow>
                let s2 = auditLog env tenantID ''runs.retry'' (''run/'' @ run_RunID r) ''allowed''
                           [(''original_run_id'', JStr (run_RunID original)), (''agent_id'', JStr (run_AgentID original))] (s1\<lparr>sv_runs := runs2\<rparr>) in
                (ROk 201 r, Submit r (resolveAgent env tenantID (run_AgentID original) s2) s2))"

definition autoRetry :: "reqEnv \<Rightarrow> bool \<Rightarrow> run \<Rightarrow> agent \<Rightarrow> server \<Rightarrow> server" where
  "autoRetry env shutdown failed a s =
     (if shutdown then s
      else
        let r = retryRun env failed in
        case Run_Create (re_ctx env) (re_io env) r (sv_runs s) of
          (Some _, runs') \<Rightarrow> s\<lparr>sv_runs := runs'\<rparr>
        | (None, runs') \<Rightarrow>
            Submit r a (auditLog (env\<lparr>re_principal := [], re_requestID := []\<rparr>) (run_TenantID failed) ''run.auto_retry'' (''run/'' @ run_RunID r) ''allowed''
              [(''original_run_id'', JStr (run_RunID failed)), (''agent_id'', JStr (run_AgentID failed))] (s\<lparr>sv_runs := runs'\<rparr>)))"

subsection \<open>Restart\<close>

definition countActive :: "string list \<Rightarrow> fileRunStore \<Rightarrow> (string, int) gomap" where
  "countActive tenants runs =
     fold (\<lambda>t m. fold (\<lambda>r m. if activeStatus (run_Status r) then mput (run_TenantID r) (zget 0 m (run_TenantID r) + 1) m else m)
                   (case Run_List None t runs of Inr rs \<Rightarrow> rs | Inl _ \<Rightarrow> []) m) tenants []"

definition restoreConcurrentCounts :: "string list \<Rightarrow> server \<Rightarrow> server" where
  "restoreConcurrentCounts tenants s =
     (if tenants = [] then s
      else
        let counts = countActive tenants (sv_runs s) in
        if counts = [] then s
        else s\<lparr>sv_limiter := (sv_limiter s)\<lparr>lim_backend := WithInitialConcurrent counts (lim_backend (sv_limiter s))\<rparr>\<rparr>)"

subsection \<open>Routing and role checks\<close>

datatype route =
    RouteAgentList | RouteAgentCreate | RouteAgentGet string | RouteAgentUpdate string | RouteAgentDelete string
  | RouteVersions string | RouteRollback string | RouteRunBatch string | RouteRunList string | RouteRunCreate string
  | RouteMemoryClear string | RouteKV string "string list"
  | RouteCancel string | RouteRetry string | RouteEvents string | RouteStream string | RouteRunGet string

definition methodNotAllowed :: httpError where
  "methodNotAllowed = httpxError 405 ''method_not_allowed'' ''method not allowed'' False"

definition trimSlash :: "string \<Rightarrow> string" where
  "trimSlash s = rev (dropWhile (\<lambda>c. c = CHR ''/'') (rev (dropWhile (\<lambda>c. c = CHR ''/'') s)))"

text \<open>The route of a request with the role its branch requires (None where the branch has no role check).\<close>

definition agentsRoute :: "string \<Rightarrow> string \<Rightarrow> httpError + (string option \<times> route)" where
  "agentsRoute httpMethod urlPath =
     (let path = trimSlash (TrimPrefix urlPath ''/v1/agents/''); parts = splitByte CHR ''/'' path in
      if path = []
      then (if httpMethod = ''GET'' then Inr (Some ''viewer'', RouteAgentList)
            else if httpMethod = ''POST'' then Inr (Some ''developer'', RouteAgentCreate) else Inl methodNotAllowed)
      else case parts of
        [a] \<Rightarrow> (if httpMethod = ''GET'' then Inr (Some ''viewer'', RouteAgentGet a)
                else if httpMethod = ''PUT'' then Inr (Some ''developer'', RouteAgentUpdate a)
                else if httpMethod = ''DELETE'' then Inr (Some ''developer'', RouteAgentDelete a) else Inl methodNotAllowed)
      | a # p # rest \<Rightarrow>
          if rest = [] \<and> p = ''versions'' \<and> httpMethod = ''GET'' then Inr (Some ''viewer'', RouteVersions a)
          else if rest = [] \<and> p = ''rollback'' \<and> httpMethod = ''POST'' then Inr (Some ''developer'', RouteRollback a)
          else if rest = [] \<and> p = ''runs:batch'' \<and> httpMethod = ''POST'' then Inr (Some ''developer'', RouteRunBatch a)
          else if rest = [] \<and> p = ''runs''
          then (if httpMethod = ''GET'' then Inr (Some ''viewer'', RouteRunList a)
                else if httpMethod = ''POST'' then Inr (Some ''developer'', RouteRunCreate a) else Inl methodNotAllowed)
          else if rest = [] \<and> p = ''memory'' \<and> httpMethod = ''DELETE'' then Inr (None, RouteMemoryClear a)
          else if p = ''kv'' then Inr (None, RouteKV a rest)
          else Inl (httpxError 404 ''not_found'' ''not found'' False)
      | [] \<Rightarrow> Inl (httpxError 404 ''not_found'' ''not found'' False))"

definition runsRoute :: "string \<Rightarrow> string \<Rightarrow> httpError + (string option \<times> route)" where
  "runsRoute httpMethod urlPath =
     (let parts = splitByte CHR ''/'' (trimSlash (TrimPrefix urlPath ''/v1/runs/'')) in
      case parts of
        [] \<Rightarrow> Inl (httpxError 404 ''not_found'' ''not found'' False)
      | runID # rest \<Rightarrow>
          if runID = [] then Inl (httpxError 404 ''not_found'' ''not found'' False)
          else if HasSuffix runID '':cancel'' then Inr (Some ''developer'', RouteCancel (take (length runID - 7) runID))
          else if rest = [''retry''] then (if httpMethod \<noteq> ''POST'' then Inl methodNotAllowed else Inr (Some ''developer'', RouteRetry runID))
          else if rest = [''events''] then Inr (Some ''viewer'', RouteEvents runID)
          else if rest = [''stream''] then Inr (Some ''viewer'', RouteStream runID)
          else if httpMethod \<noteq> ''GET'' \<or> rest \<noteq> [] then Inl methodNotAllowed
          else Inr (Some ''viewer'', RouteRunGet runID))"

definition requireRole ::
  "(string \<Rightarrow> string) \<Rightarrow> pgFaults \<Rightarrow> time \<Rightarrow> string \<Rightarrow> authContext option \<Rightarrow> memberTable option \<Rightarrow> httpError option \<times> memberTable option" where
  "requireRole getenv faults now role ac store =
     (case RBACMiddleware getenv (GetRole (pf_getRole faults)) (CountMembers (pf_count faults)) (SetRole (pf_setRole faults) now) role ac store of
        (Inl e, store') \<Rightarrow> (if he_status e = 403 then (Some e, store') else (None, store'))
      | (Inr _, store') \<Rightarrow> (None, store'))"

definition dispatch ::
  "(string \<Rightarrow> string) \<Rightarrow> pgFaults \<Rightarrow> time \<Rightarrow> (string \<Rightarrow> bool) \<Rightarrow> (httpError + (string option \<times> route)) \<Rightarrow> authContext \<Rightarrow> memberTable option
   \<Rightarrow> (httpError + (string \<times> route)) \<times> memberTable option" where
  "dispatch getenv faults now tenantExists routed ac store =
     (case ResolveTenantHTTP getenv ac of
        Inl e \<Rightarrow> (Inl e, store)
      | Inr tenantID \<Rightarrow>
          if \<not> tenantExists tenantID then (Inl (httpxError 403 ''tenant_unknown'' ''tenant not found'' False), store)
          else case routed of
            Inl e \<Rightarrow> (Inl e, store)
          | Inr (None, rt) \<Rightarrow> (Inr (tenantID, rt), store)
          | Inr (Some role, rt) \<Rightarrow>
              (case requireRole getenv faults now role (Some ac) store of
                 (Some e, store') \<Rightarrow> (Inl e, store')
               | (None, store') \<Rightarrow> (Inr (tenantID, rt), store')))"

subsection \<open>Slots\<close>

definition slots :: "server \<Rightarrow> string \<Rightarrow> int" where
  "slots s t = zget 0 (mb_concurrent (lim_backend (sv_limiter s))) t"

definition slotsOk :: "server \<Rightarrow> bool" where
  "slotsOk s \<longleftrightarrow> gwf (mb_concurrent (lim_backend (sv_limiter s))) \<and> (\<forall>t. 0 \<le> slots s t)"

lemma slots_upd [simp]:
  "slots (s\<lparr>sv_runs := x\<rparr>) = slots s" "slots (s\<lparr>sv_tokenBudget := b\<rparr>) = slots s" "slots (auditLog env t a rs oc mt s) = slots s"
  "slots (Submit r ag s) = slots s"
  by (auto simp: slots_def fun_eq_iff auditLog_def Submit_def)

lemma slotsOk_upd [simp]:
  "slotsOk (s\<lparr>sv_runs := x\<rparr>) = slotsOk s" "slotsOk (s\<lparr>sv_tokenBudget := b\<rparr>) = slotsOk s" "slotsOk (auditLog env t a rs oc mt s) = slotsOk s"
  "slotsOk (Submit r ag s) = slotsOk s"
  by (auto simp: slotsOk_def auditLog_def Submit_def slots_def)

lemma sweepLocked_counts:
  assumes "gwf (mb_concurrent m)" "\<forall>t. 0 \<le> zget 0 (mb_concurrent m) t"
  shows "zget 0 (mb_concurrent (sweepLocked now m)) t = zget 0 (mb_concurrent m) t" "gwf (mb_concurrent (sweepLocked now m))"
proof -
  have "0 \<le> zget 0 (mb_concurrent m) t" using assms(2) by blast
  then show "zget 0 (mb_concurrent (sweepLocked now m)) t = zget 0 (mb_concurrent m) t"
    using assms(1) by (auto simp: sweepLocked_def Let_def zget_def mget_mfilter split: option.splits)
  show "gwf (mb_concurrent (sweepLocked now m))" using assms(1) by (simp add: sweepLocked_def Let_def)
qed

lemma AllowQPS_counts:
  assumes "gwf (mb_concurrent m)" "\<forall>t. 0 \<le> zget 0 (mb_concurrent m) t"
  shows "zget 0 (mb_concurrent (snd (AllowQPS now tn q m))) t = zget 0 (mb_concurrent m) t" "gwf (mb_concurrent (snd (AllowQPS now tn q m)))"
  using sweepLocked_counts[where m = "m\<lparr>mb_allowCount := mb_allowCount m + 1\<rparr>" and now = now] assms
  by (auto simp: AllowQPS_def Let_def)

lemma Limiter_AllowQPS_slots:
  assumes "slotsOk s" "Limiter_AllowQPS AllowQPS now tn (sv_limiter s) = (ok, l)"
  shows "slots (s\<lparr>sv_limiter := l\<rparr>) = slots s" "slotsOk (s\<lparr>sv_limiter := l\<rparr>)" "lim_maxConcurrent l = lim_maxConcurrent (sv_limiter s)"
proof -
  obtain m' where m': "AllowQPS now tn (lim_qps (sv_limiter s)) (lim_backend (sv_limiter s)) = (ok, m')" "l = (sv_limiter s)\<lparr>lim_backend := m'\<rparr>"
    using assms(2) by (auto simp: Limiter_AllowQPS_def split: prod.splits)
  have "gwf (mb_concurrent (lim_backend (sv_limiter s)))" "\<forall>t. 0 \<le> zget 0 (mb_concurrent (lim_backend (sv_limiter s))) t"
    using assms(1) by (auto simp: slotsOk_def slots_def)
  note c = AllowQPS_counts[OF this, of now tn "lim_qps (sv_limiter s)", unfolded m'(1), simplified]
  show "slots (s\<lparr>sv_limiter := l\<rparr>) = slots s" "slotsOk (s\<lparr>sv_limiter := l\<rparr>)" "lim_maxConcurrent l = lim_maxConcurrent (sv_limiter s)"
    using c assms(1) m'(2) by (auto simp: slots_def slotsOk_def fun_eq_iff)
qed

lemma TryInc_slots:
  assumes "slotsOk s" "Limiter_TryIncConcurrent TryIncConcurrent tn (sv_limiter s) = (ok, l)"
  shows "slots (s\<lparr>sv_limiter := l\<rparr>) = (if ok then (slots s)(tn := slots s tn + 1) else slots s)" "slotsOk (s\<lparr>sv_limiter := l\<rparr>)"
    "ok \<longleftrightarrow> slots s tn < lim_maxConcurrent (sv_limiter s)" "lim_maxConcurrent l = lim_maxConcurrent (sv_limiter s)"
  using assms
  by (auto simp: slots_def slotsOk_def Limiter_TryIncConcurrent_def TryIncConcurrent_def Let_def fun_eq_iff split: if_splits prod.splits)

lemma decConcurrent_slots:
  assumes "slotsOk s"
  shows "slots (decConcurrent tn s) = (slots s)(tn := max 0 (slots s tn - 1))" "slotsOk (decConcurrent tn s)"
    "lim_maxConcurrent (sv_limiter (decConcurrent tn s)) = lim_maxConcurrent (sv_limiter s)"
  using assms
  by (auto simp: slots_def slotsOk_def decConcurrent_def Limiter_DecConcurrent_def DecConcurrent_def Let_def fun_eq_iff)

definition sameRest :: "server \<Rightarrow> server \<Rightarrow> bool" where
  "sameRest s s' \<longleftrightarrow> sv_runs s' = sv_runs s \<and> sv_queue s' = sv_queue s \<and> sv_agents s' = sv_agents s \<and>
     lim_maxConcurrent (sv_limiter s') = lim_maxConcurrent (sv_limiter s)"

lemma checkQuota_spec:
  assumes "slotsOk s" "checkQuota env tn s = (res, s')"
  shows "slotsOk s'" "sameRest s s'" "slots s' = (if res = None then (slots s)(tn := slots s tn + 1) else slots s)"
    "lim_maxConcurrent (sv_limiter s) \<le> slots s tn \<Longrightarrow> res \<noteq> None" "res = Some (e, rsn) \<Longrightarrow> he_status e = 429"
proof -
  obtain ok1 l1 where q: "Limiter_AllowQPS AllowQPS (re_clock env) tn (sv_limiter s) = (ok1, l1)" by (cases "Limiter_AllowQPS AllowQPS (re_clock env) tn (sv_limiter s)")
  define s1 where "s1 = s\<lparr>sv_limiter := l1\<rparr>"
  have s1: "slots s1 = slots s" "slotsOk s1" "lim_maxConcurrent (sv_limiter s1) = lim_maxConcurrent (sv_limiter s)"
    using Limiter_AllowQPS_slots[OF assms(1) q] by (simp_all add: s1_def)
  obtain ok2 l2 where t: "Limiter_TryIncConcurrent TryIncConcurrent tn l1 = (ok2, l2)" by (cases "Limiter_TryIncConcurrent TryIncConcurrent tn l1")
  then have t': "Limiter_TryIncConcurrent TryIncConcurrent tn (sv_limiter s1) = (ok2, l2)" by (simp add: s1_def)
  define s2 where "s2 = s1\<lparr>sv_limiter := l2\<rparr>"
  have s2: "slots s2 = (if ok2 then (slots s)(tn := slots s tn + 1) else slots s)" "slotsOk s2"
    "ok2 \<longleftrightarrow> slots s tn < lim_maxConcurrent (sv_limiter s)" "lim_maxConcurrent (sv_limiter s2) = lim_maxConcurrent (sv_limiter s)"
    using TryInc_slots[OF s1(2) t'] s1 by (simp_all add: s2_def)
  have rest: "sameRest s s2" "sameRest s s1" using s2(4) s1(3) by (simp_all add: sameRest_def s1_def s2_def)
  have restB: "sameRest s (s2\<lparr>sv_tokenBudget := b\<rparr>)" for b using rest(1) by (simp add: sameRest_def)
  have dec: "slots (decConcurrent tn (s2\<lparr>sv_tokenBudget := b\<rparr>)) = slots s" "slotsOk (decConcurrent tn (s2\<lparr>sv_tokenBudget := b\<rparr>))"
    "sameRest s (decConcurrent tn (s2\<lparr>sv_tokenBudget := b\<rparr>))" if ok2 for b
  proof -
    have "slotsOk (s2\<lparr>sv_tokenBudget := b\<rparr>)" using s2(2) by simp
    from decConcurrent_slots[OF this, of tn] that s2(1,4) assms(1) restB[of b]
    show "slots (decConcurrent tn (s2\<lparr>sv_tokenBudget := b\<rparr>)) = slots s" "slotsOk (decConcurrent tn (s2\<lparr>sv_tokenBudget := b\<rparr>))"
      "sameRest s (decConcurrent tn (s2\<lparr>sv_tokenBudget := b\<rparr>))"
      by (auto simp: slotsOk_def sameRest_def decConcurrent_def fun_eq_iff)
  qed
  have def: "checkQuota env tn s =
      (if \<not> ok1 then (Some (tooMany ''quota_exceeded'' ''run create QPS exceeded'', ''qps_exceeded''), s1)
       else if \<not> ok2 then (Some (tooMany ''quota_exceeded'' ''concurrent runs exceeded'', ''concurrent_exceeded''), s2)
       else case sv_tokenBudget s2 of None \<Rightarrow> (None, s2)
         | Some tb \<Rightarrow>
             let (ok, tb') = CheckBudget None (re_clock env) tn tb; s3 = s2\<lparr>sv_tokenBudget := Some tb'\<rparr> in
             if \<not> ok then (Some (tooMany ''token_budget_exceeded'' ''hourly token budget exceeded'', ''token_budget_exceeded''), decConcurrent tn s3)
             else (None, s3))"
    by (auto simp: checkQuota_def q t s1_def s2_def Let_def split: option.split)
  have "slotsOk s' \<and> sameRest s s' \<and> slots s' = (if res = None then (slots s)(tn := slots s tn + 1) else slots s) \<and>
    (lim_maxConcurrent (sv_limiter s) \<le> slots s tn \<longrightarrow> res \<noteq> None) \<and> (\<forall>e rsn. res = Some (e, rsn) \<longrightarrow> he_status e = 429)"
  proof (cases "ok1 \<and> ok2")
    case False
    then show ?thesis using assms(2) s1 s2 rest by (auto simp: def tooMany_def split: if_splits)
  next
    case True
    show ?thesis
    proof (cases "sv_tokenBudget s2")
      case None
      with True assms(2) s2 rest show ?thesis by (auto simp: def)
    next
      case (Some tb)
      obtain ok tb' where b: "CheckBudget None (re_clock env) tn tb = (ok, tb')" by (cases "CheckBudget None (re_clock env) tn tb")
      with True Some assms(2) s2 restB dec[of "Some tb'"] show ?thesis by (auto simp: def tooMany_def Let_def split: if_splits)
    qed
  qed
  then show "slotsOk s'" "sameRest s s'" "slots s' = (if res = None then (slots s)(tn := slots s tn + 1) else slots s)"
    "lim_maxConcurrent (sv_limiter s) \<le> slots s tn \<Longrightarrow> res \<noteq> None" "res = Some (e, rsn) \<Longrightarrow> he_status e = 429"
    by auto
qed

lemma release_after_take:
  assumes "slotsOk s" "slotsOk s1" "slots s1 = (slots s)(tn := slots s tn + 1)"
  shows "slots (decConcurrent tn s1) = slots s"
  using decConcurrent_slots(1)[OF assms(2), of tn] assms(1,3) by (auto simp: slotsOk_def fun_eq_iff)

lemma decConcurrent_rest [simp]:
  "sv_queue (decConcurrent tn s) = sv_queue s" "sv_runs (decConcurrent tn s) = sv_runs s" "sv_agents (decConcurrent tn s) = sv_agents s"
  by (simp_all add: decConcurrent_def)

lemma auditLog_rest [simp]:
  "sv_queue (auditLog env t a rs oc mt s) = sv_queue s" "sv_runs (auditLog env t a rs oc mt s) = sv_runs s"
  "sv_limiter (auditLog env t a rs oc mt s) = sv_limiter s"
  by (simp_all add: auditLog_def)

lemma Submit_rest [simp]:
  "sv_queue (Submit r a s) = sv_queue s @ [\<lparr>qj_job = \<lparr>rj_run = r, rj_agent = a\<rparr>, qj_timeout = jobTimeout r a\<rparr>]"
  "sv_runs (Submit r a s) = sv_runs s" "sv_limiter (Submit r a s) = sv_limiter s"
  by (simp_all add: Submit_def)

lemma handleRunCreate_cases:
  assumes "slotsOk s" "handleRunCreate env tn ag body s = (rsp, s')"
  shows "slotsOk s' \<and> lim_maxConcurrent (sv_limiter s') = lim_maxConcurrent (sv_limiter s) \<and>
    ((\<exists>r q. rsp = ROk 201 r \<and> sv_queue s' = sv_queue s @ [q] \<and> rj_run (qj_job q) = r \<and> slots s' = (slots s)(tn := slots s tn + 1)) \<or>
     (\<forall>r. rsp \<noteq> ROk 201 r) \<and> sv_queue s' = sv_queue s \<and> slots s' = slots s)"
proof -
  obtain res s1 where c: "checkQuota env tn s = (res, s1)" by (cases "checkQuota env tn s")
  note Q = checkQuota_spec[OF assms(1) c]
  have rest: "sv_queue s1 = sv_queue s" "lim_maxConcurrent (sv_limiter s1) = lim_maxConcurrent (sv_limiter s)"
    using Q(2) by (simp_all add: sameRest_def)
  show ?thesis
  proof (cases res)
    case (Some er)
    with assms(2) c Q rest show ?thesis by (cases er) (auto simp: handleRunCreate_def)
  next
    case None
    then have take: "slots s1 = (slots s)(tn := slots s tn + 1)" using Q(3) by simp
    have undone: "slotsOk (decConcurrent tn x) \<and> lim_maxConcurrent (sv_limiter (decConcurrent tn x)) = lim_maxConcurrent (sv_limiter s) \<and>
        sv_queue (decConcurrent tn x) = sv_queue s \<and> slots (decConcurrent tn x) = slots s"
      if "x = s1\<lparr>sv_runs := rs\<rparr>" for x rs
      using release_after_take[OF assms(1), of x tn] decConcurrent_slots(2,3)[of x tn] Q(1) take rest that by simp
    have same: "s1\<lparr>sv_runs := sv_runs s1\<rparr> = s1" by simp
    show ?thesis
    proof (cases body)
      case (Inl e)
      with assms(2) c None undone[OF same[symmetric]] show ?thesis by (auto simp: handleRunCreate_def)
    next
      case (Inr req)
      let ?g = "if rcr_IdempotencyKey req \<noteq> [] then GetByIdempotencyKey (re_ctx env) tn (rcr_IdempotencyKey req) (sv_runs s1) else Inr None"
      let ?r = "newRun env tn ag req"
      show ?thesis
      proof (cases "\<exists>ex. ?g = Inr (Some ex)")
        case True
        with assms(2) c None Inr undone[OF same[symmetric]] show ?thesis by (auto simp: handleRunCreate_def)
      next
        case False
        obtain err runs' where cr: "Run_Create (re_ctx env) (re_io env) ?r (sv_runs s1) = (err, runs')"
          by (cases "Run_Create (re_ctx env) (re_io env) ?r (sv_runs s1)")
        have h: "handleRunCreate env tn ag body s =
            (case err of Some e \<Rightarrow> (RErr (createErr e), decConcurrent tn (s1\<lparr>sv_runs := runs'\<rparr>))
             | None \<Rightarrow> let s2 = auditLog env tn ''runs.create'' (''run/'' @ run_RunID ?r) ''allowed'' [(''agent_id'', JStr ag)] (s1\<lparr>sv_runs := runs'\<rparr>) in
                 (ROk 201 ?r, Submit ?r (resolveAgent env tn ag s2) s2))"
          using False cr by (cases ?g) (auto simp: handleRunCreate_def c None Inr Let_def split: option.splits)
        show ?thesis
        proof (cases err)
          case (Some e)
          with h assms(2) undone[OF refl] show ?thesis by auto
        next
          case n: None
          with h assms(2) Q(1) take rest show ?thesis by (auto simp: Let_def)
        qed
      qed
    qed
  qed
qed

lemma batchLoop_slots:
  assumes "slotsOk s" "batchLoop envs tn ag a n reqs created s = (res, s')"
  shows "slotsOk s' \<and> lim_maxConcurrent (sv_limiter s') = lim_maxConcurrent (sv_limiter s) \<and>
    slots s' tn \<le> max (slots s tn) (lim_maxConcurrent (sv_limiter s)) \<and> (\<exists>jobs. sv_queue s' = sv_queue s @ jobs \<and> slots s' = (slots s)(tn := slots s tn + int (length jobs)) \<and>
    (\<forall>q\<in>set jobs. run_TenantID (rj_run (qj_job q)) = tn) \<and>
    (\<forall>rs. res = Inr rs \<longrightarrow> map (\<lambda>q. rj_run (qj_job q)) jobs = drop (length created) rs \<and> take (length created) rs = created))"
  using assms
proof (induction reqs arbitrary: n created s)
  case Nil
  then show ?case by (auto intro!: exI[of _ "[]"])
next
  case (Cons req reqs)
  obtain qr s1 where c: "checkQuota (envs n) tn s = (qr, s1)" by (cases "checkQuota (envs n) tn s")
  note Q = checkQuota_spec[OF Cons.prems(1) c]
  let ?max = "\<lambda>x. lim_maxConcurrent (sv_limiter x)"
  have rest: "sv_queue s1 = sv_queue s" "?max s1 = ?max s" using Q(2) by (simp_all add: sameRest_def)
  show ?case
  proof (cases qr)
    case (Some er)
    with Cons.prems(2) c Q(1,3) rest show ?thesis by (cases er) (auto intro!: exI[of _ "[]"])
  next
    case None
    then have take: "slots s1 = (slots s)(tn := slots s tn + 1)" and room: "slots s tn < ?max s" using Q(3,4) by force+
    let ?r = "newRun (envs n) tn ag req"
    obtain err runs' where cr: "Run_Create (re_ctx (envs n)) (re_io (envs n)) ?r (sv_runs s1) = (err, runs')"
      by (cases "Run_Create (re_ctx (envs n)) (re_io (envs n)) ?r (sv_runs s1)")
    show ?thesis
    proof (cases err)
      case (Some e)
      let ?s2 = "decConcurrent tn (s1\<lparr>sv_runs := runs'\<rparr>)"
      have "slotsOk ?s2" "slots ?s2 = slots s" "sv_queue ?s2 = sv_queue s" "?max ?s2 = ?max s"
        using release_after_take[OF Cons.prems(1), of "s1\<lparr>sv_runs := runs'\<rparr>" tn] decConcurrent_slots(2,3)[of "s1\<lparr>sv_runs := runs'\<rparr>" tn] Q(1) take rest
        by simp_all
      with Cons.prems(2) c None cr Some show ?thesis by (auto simp: Let_def split: if_splits intro!: exI[of _ "[]"])
    next
      case ok: None
      let ?s2 = "Submit ?r a (s1\<lparr>sv_runs := runs'\<rparr>)"
      have s2: "slotsOk ?s2" "slots ?s2 = (slots s)(tn := slots s tn + 1)" "?max ?s2 = ?max s" using Q(1) take rest by simp_all
      have "batchLoop envs tn ag a (Suc n) reqs (created @ [?r]) ?s2 = (res, s')"
        using Cons.prems(2) c None cr ok by (simp add: Let_def)
      from Cons.IH[OF s2(1) this] obtain jobs where j: "slotsOk s'" "?max s' = ?max ?s2"
        "slots s' tn \<le> max (slots ?s2 tn) (?max ?s2)" "sv_queue s' = sv_queue ?s2 @ jobs"
        "slots s' = (slots ?s2)(tn := slots ?s2 tn + int (length jobs))" "\<forall>q\<in>set jobs. run_TenantID (rj_run (qj_job q)) = tn"
        "\<forall>rs. res = Inr rs \<longrightarrow> map (\<lambda>q. rj_run (qj_job q)) jobs = drop (length (created @ [?r])) rs \<and> take (length (created @ [?r])) rs = created @ [?r]"
        by blast
      have "map (\<lambda>q. rj_run (qj_job q)) (\<lparr>qj_job = \<lparr>rj_run = ?r, rj_agent = a\<rparr>, qj_timeout = jobTimeout ?r a\<rparr> # jobs) = drop (length created) rs \<and>
          take (length created) rs = created" if "res = Inr rs" for rs
      proof -
        have "rs = (created @ [?r]) @ map (\<lambda>q. rj_run (qj_job q)) jobs" using j(7) that by (metis append_take_drop_id)
        then show ?thesis by simp
      qed
      moreover have "slots s' tn \<le> max (slots s tn) (?max s)" "?max s' = ?max s" using j(2,3) s2 room by auto
      moreover have "run_TenantID ?r = tn" by (simp add: newRun_def)
      ultimately show ?thesis using j(1,4,5,6) s2 rest
        by (intro conjI exI[of _ "\<lparr>qj_job = \<lparr>rj_run = ?r, rj_agent = a\<rparr>, qj_timeout = jobTimeout ?r a\<rparr> # jobs"]) (auto simp: fun_eq_iff)
    qed
  qed
qed

subsection \<open>Idempotent creation\<close>

lemma find_unique:
  assumes "x \<in> set xs" "P x" "\<And>y. y \<in> set xs \<Longrightarrow> P y \<Longrightarrow> y = x"
  shows "find P xs = Some x"
  using assms
proof (induction xs)
  case (Cons a xs)
  show ?case
  proof (cases "P a")
    case True
    then show ?thesis using Cons.prems(3)[of a] by simp
  next
    case False
    then have "x \<in> set xs" using Cons.prems(1,2) by auto
    moreover have "\<And>y. y \<in> set xs \<Longrightarrow> P y \<Longrightarrow> y = x" by (rule Cons.prems(3)) simp_all
    ultimately have "find P xs = Some x" using Cons.IH Cons.prems(2) by blast
    then show ?thesis using False by simp
  qed
qed simp

lemma putRun_entries:
  assumes "storeInv s" "validateRun r" "(k, y) \<in> set (fr_runs (putRun r s))"
  shows "y = r \<or> (k, y) \<in> set (fr_runs s)"
proof -
  have "mget (fr_runs (putRun r s)) k = Some y"
    using mget_iff[OF storeInvD(1)[OF putRun_inv[OF assms(1,2)]]] assms(3) by blast
  then show ?thesis using putRun_get[OF assms(1,2), of k] by (auto split: if_splits dest: mget_in_set)
qed

lemma create_then_lookup:
  assumes "storeInv s" "validateRun r" "run_IdempotencyKey r = ik" "ik \<noteq> []"
    and "GetByIdempotencyKey None (run_TenantID r) ik s = Inr None" "Run_Create None io r s = (None, s')"
  shows "GetByIdempotencyKey None (run_TenantID r) ik s' = Inr (Some r)"
proof -
  let ?P = "\<lambda>x. run_TenantID x = run_TenantID r \<and> run_IdempotencyKey x = ik"
  have ne: "run_TenantID r \<noteq> []" using assms(2) by (simp add: validateRun_def)
  have old: "\<not> ?P y" if "y \<in> set (map snd (fr_runs s))" for y
    using assms(4,5) ne that by (auto simp: GetByIdempotencyKey_def find_None_iff)
  have "snd (Run_Create None io r s) = snd (persistRuns io (putRun r s))"
    using assms(2,6) by (auto simp: Run_Create_def split: if_splits)
  then have runs: "fr_runs s' = fr_runs (putRun r s)" using assms(6) by (auto simp: persistRuns_def split: option.splits)
  have "mget (fr_runs (putRun r s)) (keyOf r) = Some r" using putRun_get[OF assms(1,2), of "keyOf r"] by simp
  from mget_in_set[OF this] have mem: "r \<in> set (map snd (fr_runs s'))" unfolding runs by (force simp: image_iff)
  have "find ?P (map snd (fr_runs s')) = Some r"
  proof (rule find_unique[OF mem])
    show "?P r" using assms(3) by simp
    show "y = r" if "y \<in> set (map snd (fr_runs s'))" "?P y" for y
      using that old putRun_entries[OF assms(1,2)] unfolding runs by fastforce
  qed
  then show ?thesis using assms(4) ne by (simp add: GetByIdempotencyKey_def)
qed

lemma handleRunCreate_ok:
  assumes "handleRunCreate env tn ag (Inr req) s = (ROk 201 r, s')" "slotsOk s"
  obtains s1 runs' where "checkQuota env tn s = (None, s1)" "sv_runs s1 = sv_runs s" "r = newRun env tn ag req"
    "Run_Create (re_ctx env) (re_io env) r (sv_runs s) = (None, runs')" "sv_runs s' = runs'"
    "rcr_IdempotencyKey req \<noteq> [] \<longrightarrow> (\<forall>x. GetByIdempotencyKey (re_ctx env) tn (rcr_IdempotencyKey req) (sv_runs s) \<noteq> Inr (Some x))"
proof -
  obtain qr s1 where c: "checkQuota env tn s = (qr, s1)" by (cases "checkQuota env tn s")
  have runs1: "sv_runs s1 = sv_runs s" using checkQuota_spec(2)[OF assms(2) c] by (simp add: sameRest_def)
  have none: "qr = None" using assms(1) c by (cases qr) (auto simp: handleRunCreate_def)
  let ?g = "if rcr_IdempotencyKey req \<noteq> [] then GetByIdempotencyKey (re_ctx env) tn (rcr_IdempotencyKey req) (sv_runs s1) else Inr None"
  have ng: "\<forall>x. ?g \<noteq> Inr (Some x)" using assms(1) c none by (auto simp: handleRunCreate_def)
  obtain err runs' where cr: "Run_Create (re_ctx env) (re_io env) (newRun env tn ag req) (sv_runs s1) = (err, runs')"
    by (cases "Run_Create (re_ctx env) (re_io env) (newRun env tn ag req) (sv_runs s1)")
  have h: "handleRunCreate env tn ag (Inr req) s =
      (case err of Some e \<Rightarrow> (RErr (createErr e), decConcurrent tn (s1\<lparr>sv_runs := runs'\<rparr>))
       | None \<Rightarrow> let r = newRun env tn ag req; s2 = auditLog env tn ''runs.create'' (''run/'' @ run_RunID r) ''allowed'' [(''agent_id'', JStr ag)] (s1\<lparr>sv_runs := runs'\<rparr>) in
           (ROk 201 r, Submit r (resolveAgent env tn ag s2) s2))"
    using ng cr by (cases ?g) (auto simp: handleRunCreate_def c none Let_def split: option.splits)
  show thesis
  proof (rule that)
    show "checkQuota env tn s = (None, s1)" using c none by simp
    show "sv_runs s1 = sv_runs s" by (rule runs1)
    show "r = newRun env tn ag req" "sv_runs s' = runs'"
      using h assms(1) by (auto simp: Let_def split: option.splits)
    then show "Run_Create (re_ctx env) (re_io env) r (sv_runs s) = (None, runs')"
      using h assms(1) cr runs1 by (auto simp: Let_def split: option.splits)
    show "rcr_IdempotencyKey req \<noteq> [] \<longrightarrow> (\<forall>x. GetByIdempotencyKey (re_ctx env) tn (rcr_IdempotencyKey req) (sv_runs s) \<noteq> Inr (Some x))"
    proof (intro impI)
      assume "rcr_IdempotencyKey req \<noteq> []"
      then show "\<forall>x. GetByIdempotencyKey (re_ctx env) tn (rcr_IdempotencyKey req) (sv_runs s) \<noteq> Inr (Some x)"
        using ng unfolding runs1 by simp
    qed
  qed
qed

end
