(* ===== verification/Pii.thy ===== *)
theory Pii
  imports AgentOS_Prelude "HOL-Library.Product_Lexorder" "HOL-Library.Char_ord" "HOL-Library.Multiset"
begin

text \<open>
  Detection and redaction of personal data (internal/pii: patterns.go, detector.go, redactor.go).

  \<^item> The regular expressions of patterns.go are terms of \<open>regex\<close>; \<open>ends\<close> enumerates the end positions of the matches
    at an offset in the order of preference of Go's leftmost-first engine, and \<open>findAll\<close> is FindAllStringIndex. All
    classes used are ASCII, so matching on bytes agrees with matching on runes.
  \<^item> \<open>Scan\<close> claims the bytes of accepted matches pattern by pattern; \<open>Redact\<close> replaces from the end of the text to its
    start. A slice out of range, a panic in Go, is the value None.
  \<^item> Shown: what Scan returns (disjoint, sorted, in range), that no validated match escapes unclaimed, and that Redact on
    the detections of Scan never panics and equals a single pass from left to right.
\<close>

subsection \<open>Regular expressions\<close>

datatype regex =
    RClass "char \<Rightarrow> bool"
  | RSeq regex regex
  | RAlt regex regex
  | RRep nat "nat option" regex
  | RBoundary

definition wordChar :: "char \<Rightarrow> bool" where
  "wordChar c \<longleftrightarrow> isDigit c \<or> (CHR ''a'' \<le> c \<and> c \<le> CHR ''z'') \<or> (CHR ''A'' \<le> c \<and> c \<le> CHR ''Z'') \<or> c = CHR ''_''"

definition wordBoundary :: "string \<Rightarrow> nat \<Rightarrow> bool" where
  "wordBoundary t i \<longleftrightarrow> (0 < i \<and> wordChar (t ! (i - 1))) \<noteq> (i < length t \<and> wordChar (t ! i))"

fun repEnds :: "nat \<Rightarrow> nat \<Rightarrow> (nat \<Rightarrow> nat list) \<Rightarrow> nat \<Rightarrow> nat list" where
  "repEnds 0 lo f i = (if lo = 0 then [i] else [])"
| "repEnds (Suc n) lo f i = concat (map (repEnds n (lo - 1) f) (f i)) @ (if lo = 0 then [i] else [])"

primrec ends :: "string \<Rightarrow> regex \<Rightarrow> nat \<Rightarrow> nat list" where
  "ends t (RClass p) i = (if i < length t \<and> p (t ! i) then [Suc i] else [])"
| "ends t (RSeq a b) i = concat (map (ends t b) (ends t a i))"
| "ends t (RAlt a b) i = ends t a i @ ends t b i"
| "ends t (RRep lo hi a) i = repEnds (case hi of Some h \<Rightarrow> h | None \<Rightarrow> lo + length t) lo (ends t a) i"
| "ends t RBoundary i = (if wordBoundary t i then [i] else [])"

definition firstMatch :: "string \<Rightarrow> regex \<Rightarrow> nat \<Rightarrow> (nat \<times> nat) option" where
  "firstMatch t r pos =
     (case find (\<lambda>i. ends t r i \<noteq> []) [pos..<Suc (length t)] of Some i \<Rightarrow> Some (i, hd (ends t r i)) | None \<Rightarrow> None)"

text \<open>The search resumes at the end of the last match. An empty match at the search position advances by one and is
  dropped when it touches the previous match.\<close>

function findAll :: "string \<Rightarrow> regex \<Rightarrow> nat \<Rightarrow> nat option \<Rightarrow> (nat \<times> nat) list" where
  "findAll t r pos prevEnd =
     (if length t < pos then []
      else case firstMatch t r pos of
        None \<Rightarrow> []
      | Some (s, e) \<Rightarrow>
          if pos < e then (s, e) # findAll t r e (Some e)
          else (if prevEnd = Some s then [] else [(s, e)]) @ findAll t r (Suc pos) (Some e))"
  by pat_completeness auto
termination
  by (relation "measure (\<lambda>(t, r, pos, prevEnd). Suc (length t) - pos)") auto

declare findAll.simps [simp del]

definition alphaNum :: "char \<Rightarrow> bool" where
  "alphaNum c \<longleftrightarrow> wordChar c \<and> c \<noteq> CHR ''_''"

definition digitRange :: "char \<Rightarrow> char \<Rightarrow> regex" where
  "digitRange a b = RClass (\<lambda>c. a \<le> c \<and> c \<le> b)"

definition lit :: "char \<Rightarrow> regex" where "lit d = RClass (\<lambda>c. c = d)"

definition optR :: "regex \<Rightarrow> regex" where "optR r = RRep 0 (Some 1) r"

definition exactly :: "nat \<Rightarrow> regex \<Rightarrow> regex" where "exactly n r = RRep n (Some n) r"

abbreviation digit :: regex where "digit \<equiv> RClass isDigit"

fun seqR :: "regex list \<Rightarrow> regex" where
  "seqR [] = RRep 0 (Some 0) RBoundary"
| "seqR [r] = r"
| "seqR (r # rs) = RSeq r (seqR rs)"

definition emailRegex :: regex where
  "emailRegex = seqR [RRep 1 None (RClass (\<lambda>c. alphaNum c \<or> c \<in> set ''._%+-'')), lit CHR ''@'',
     RRep 1 None (RClass (\<lambda>c. alphaNum c \<or> c \<in> set ''.-'')), lit CHR ''.'', RRep 2 None (RClass (\<lambda>c. alphaNum c \<and> \<not> isDigit c))]"

definition phoneRegex :: regex where
  "phoneRegex = (let sep = optR (RClass (\<lambda>c. c \<in> set ''-.'')) in
     seqR [RBoundary, exactly 3 digit, sep, exactly 3 digit, sep, exactly 4 digit, RBoundary])"

definition ssnRegex :: regex where
  "ssnRegex = seqR [RBoundary, exactly 3 digit, lit CHR ''-'', exactly 2 digit, lit CHR ''-'', exactly 4 digit, RBoundary]"

definition creditCardRegex :: regex where
  "creditCardRegex = (let sep = optR (RClass (\<lambda>c. c \<in> {CHR 0x09, CHR 0x0A, CHR 0x0C, CHR 0x0D, CHR '' '', CHR ''-''})) in
     seqR [RBoundary, exactly 4 digit, sep, exactly 4 digit, sep, exactly 4 digit, sep, RRep 1 (Some 7) digit, RBoundary])"

definition octet :: regex where
  "octet = RAlt (seqR [lit CHR ''2'', lit CHR ''5'', digitRange CHR ''0'' CHR ''5''])
     (RAlt (seqR [lit CHR ''2'', digitRange CHR ''0'' CHR ''4'', digit])
           (seqR [optR (digitRange CHR ''0'' CHR ''1''), digit, optR digit]))"

definition ipRegex :: regex where
  "ipRegex = seqR [RBoundary, exactly 3 (RSeq octet (lit CHR ''.'')), octet, RBoundary]"

subsection \<open>Patterns\<close>

definition digitsOf :: "string \<Rightarrow> int list" where
  "digitsOf s = map (\<lambda>c. of_char c - 48) (filter isDigit s)"

fun luhnLoop :: "int list \<Rightarrow> bool \<Rightarrow> int \<Rightarrow> int" where
  "luhnLoop [] alt acc = acc"
| "luhnLoop (d # ds) alt acc =
     (let d' = (if alt then (if d * 2 > 9 then d * 2 - 9 else d * 2) else d) in luhnLoop ds (\<not> alt) (acc + d'))"

definition luhnValid :: "string \<Rightarrow> bool" where
  "luhnValid s =
     (let digits = digitsOf s in
      if length digits < 13 \<or> length digits > 19 then False else luhnLoop (rev digits) False 0 mod 10 = 0)"

record patternDef =
  pd_Name :: string
  pd_Regex :: regex
  pd_Placeholder :: string
  pd_Priority :: int
  pd_Validate :: "(string \<Rightarrow> bool) option"

definition builtinPatterns :: "(string, patternDef) gomap" where
  "builtinPatterns =
     [(''email'', \<lparr>pd_Name = ''email'', pd_Regex = emailRegex, pd_Placeholder = ''[EMAIL]'', pd_Priority = 3, pd_Validate = None\<rparr>),
      (''phone'', \<lparr>pd_Name = ''phone'', pd_Regex = phoneRegex, pd_Placeholder = ''[PHONE]'', pd_Priority = 4, pd_Validate = None\<rparr>),
      (''ssn'', \<lparr>pd_Name = ''ssn'', pd_Regex = ssnRegex, pd_Placeholder = ''[SSN]'', pd_Priority = 1, pd_Validate = None\<rparr>),
      (''credit_card'', \<lparr>pd_Name = ''credit_card'', pd_Regex = creditCardRegex, pd_Placeholder = ''[CREDIT_CARD]'', pd_Priority = 2,
         pd_Validate = Some luhnValid\<rparr>),
      (''ip_address'', \<lparr>pd_Name = ''ip_address'', pd_Regex = ipRegex, pd_Placeholder = ''[IP_ADDRESS]'', pd_Priority = 5, pd_Validate = None\<rparr>)]"

definition patternOrder :: "string list" where
  "patternOrder = [''ssn'', ''credit_card'', ''email'', ''phone'', ''ip_address'']"

subsection \<open>Detector\<close>

record detection =
  det_Pattern :: string
  det_Match :: string
  det_Start :: nat
  det_End :: nat

definition builtins :: "string list \<Rightarrow> patternDef list" where
  "builtins names = concat (map (\<lambda>n. case mget builtinPatterns n of Some p \<Rightarrow> [p] | None \<Rightarrow> []) names)"

definition NewDetector :: "string list \<Rightarrow> patternDef list" where
  "NewDetector patterns = builtins (if patterns = [] then patternOrder else filter (\<lambda>n. n \<in> set patterns) patternOrder)"

definition claim :: "nat \<Rightarrow> nat \<Rightarrow> bool list \<Rightarrow> bool list" where
  "claim s e claimed = fold (\<lambda>i c. c[i := True]) [s..<e] claimed"

definition substr :: "string \<Rightarrow> nat \<Rightarrow> nat \<Rightarrow> string" where
  "substr t s e = take (e - s) (drop s t)"

definition passes :: "patternDef \<Rightarrow> string \<Rightarrow> bool" where
  "passes pat matched \<longleftrightarrow> (case pd_Validate pat of None \<Rightarrow> True | Some v \<Rightarrow> v matched)"

definition scanMatch :: "string \<Rightarrow> patternDef \<Rightarrow> nat \<times> nat \<Rightarrow> bool list \<times> detection list \<Rightarrow> bool list \<times> detection list" where
  "scanMatch t pat loc st =
     (let (s, e) = loc; (claimed, results) = st in
      if list_ex (\<lambda>i. claimed ! i) [s..<e] then st
      else if \<not> passes pat (substr t s e) then st
      else (claim s e claimed, results @ [\<lparr>det_Pattern = pd_Name pat, det_Match = substr t s e, det_Start = s, det_End = e\<rparr>]))"

definition scanPattern :: "string \<Rightarrow> patternDef \<Rightarrow> bool list \<times> detection list \<Rightarrow> bool list \<times> detection list" where
  "scanPattern t pat st = fold (scanMatch t pat) (findAll t (pd_Regex pat) 0 None) st"

definition Scan :: "patternDef list \<Rightarrow> string \<Rightarrow> detection list" where
  "Scan enabled t =
     (if t = [] then []
      else sort_key det_Start (snd (fold (scanPattern t) enabled (replicate (length t) False, []))))"

subsection \<open>Redactor\<close>

definition placeholders :: "(string, string) gomap" where
  "placeholders = [(''email'', ''[EMAIL]''), (''phone'', ''[PHONE]''), (''ssn'', ''[SSN]''), (''credit_card'', ''[CREDIT_CARD]''),
     (''ip_address'', ''[IP_ADDRESS]'')]"

definition placeholderOf :: "detection \<Rightarrow> string" where
  "placeholderOf d = (let p = zget [] placeholders (det_Pattern d) in if p = [] then ''[PII]'' else p)"

definition priorityOf :: "string \<Rightarrow> int" where
  "priorityOf name = (case mget builtinPatterns name of Some p \<Rightarrow> pd_Priority p | None \<Rightarrow> 999)"

fun keepDisjoint :: "nat \<Rightarrow> detection list \<Rightarrow> detection list" where
  "keepDisjoint lastEnd [] = []"
| "keepDisjoint lastEnd (d # ds) =
     (if lastEnd \<le> det_Start d then d # keepDisjoint (det_End d) ds else keepDisjoint lastEnd ds)"

definition resolveOverlaps :: "detection list \<Rightarrow> detection list" where
  "resolveOverlaps ds =
     (if length ds \<le> 1 then ds
      else keepDisjoint 0 (sort_key (\<lambda>d. (int (det_Start d), int (det_Start d) - int (det_End d), priorityOf (det_Pattern d))) ds))"

fun replaceAll :: "detection list \<Rightarrow> string \<Rightarrow> string option" where
  "replaceAll [] t = Some t"
| "replaceAll (d # ds) t =
     (if length t < det_Start d \<or> length t < det_End d then None
      else replaceAll ds (take (det_Start d) t @ placeholderOf d @ drop (det_End d) t))"

definition Redact :: "string \<Rightarrow> detection list \<Rightarrow> string option" where
  "Redact t ds =
     (if ds = [] then Some t else replaceAll (rev (sort_key det_Start (resolveOverlaps ds))) t)"

subsection \<open>Matches\<close>

primrec minLen :: "regex \<Rightarrow> nat" where
  "minLen (RClass p) = 1"
| "minLen (RSeq a b) = minLen a + minLen b"
| "minLen (RAlt a b) = min (minLen a) (minLen b)"
| "minLen (RRep lo hi a) = lo * minLen a"
| "minLen RBoundary = 0"

lemma repEnds_ge:
  assumes "\<And>i e. e \<in> set (f i) \<Longrightarrow> i + m \<le> e" "e \<in> set (repEnds n lo f i)"
  shows "i + lo * m \<le> e"
  using assms(2)
proof (induction n arbitrary: lo i)
  case (Suc n)
  show ?case
  proof (cases "e = i \<and> lo = 0")
    case False
    with Suc.prems obtain j where j: "j \<in> set (f i)" "e \<in> set (repEnds n (lo - 1) f j)" by (auto split: if_splits)
    from Suc.IH[OF j(2)] assms(1)[OF j(1)] show ?thesis by (cases lo) auto
  qed simp
qed (simp split: if_splits)

lemma repEnds_le:
  assumes "\<And>i e. e \<in> set (f i) \<Longrightarrow> i \<le> N \<Longrightarrow> e \<le> N" "e \<in> set (repEnds n lo f i)" "i \<le> N"
  shows "e \<le> N"
  using assms(2,3)
proof (induction n arbitrary: lo i)
  case (Suc n)
  then show ?case using assms(1) by (fastforce split: if_splits)
qed (simp split: if_splits)

lemma ends_ge: "e \<in> set (ends t r i) \<Longrightarrow> i + minLen r \<le> e"
proof (induction r arbitrary: i e)
  case (RSeq a b)
  then obtain j where "j \<in> set (ends t a i)" "e \<in> set (ends t b j)" by auto
  with RSeq.IH show ?case by fastforce
next
  case (RAlt a b)
  then show ?case by (auto simp: min_def) (meson le_trans nat_add_left_cancel_le nat_le_linear)+
next
  case (RRep lo hi a)
  show ?case using repEnds_ge[of "ends t a" "minLen a"] RRep by auto
qed (auto split: if_splits)

lemma ends_le: "e \<in> set (ends t r i) \<Longrightarrow> i \<le> length t \<Longrightarrow> e \<le> length t"
proof (induction r arbitrary: i e)
  case (RRep lo hi a)
  show ?case using repEnds_le[of "ends t a" "length t"] RRep by auto
qed (auto split: if_splits)

lemma firstMatch_Some:
  assumes "firstMatch t r pos = Some (s, e)"
  shows "pos \<le> s" "s + minLen r \<le> e" "e \<le> length t"
proof -
  from assms have f: "find (\<lambda>i. ends t r i \<noteq> []) [pos..<Suc (length t)] = Some s" and e: "e = hd (ends t r s)"
    by (auto simp: firstMatch_def simp del: upt_Suc split: option.splits)
  from f have s: "pos \<le> s" "s \<le> length t" "ends t r s \<noteq> []"
    by (auto simp: find_Some_iff simp del: upt_Suc)
  with e have "e \<in> set (ends t r s)" by simp
  with s ends_ge ends_le show "pos \<le> s" "s + minLen r \<le> e" "e \<le> length t" by blast+
qed

lemma findAll_range:
  "\<forall>(s, e) \<in> set (findAll t r pos prevEnd). s + minLen r \<le> e \<and> e \<le> length t"
proof (induction t r pos prevEnd rule: findAll.induct)
  case (1 t r pos prevEnd)
  show ?case
  proof (cases "length t < pos \<or> firstMatch t r pos = None")
    case True
    then show ?thesis by (subst findAll.simps) auto
  next
    case False
    then obtain s e where m: "firstMatch t r pos = Some (s, e)" "\<not> length t < pos" by auto
    note F = firstMatch_Some[OF m(1)]
    show ?thesis
    proof (cases "pos < e")
      case True
      then show ?thesis using 1(1)[OF m(2) m(1) refl True] F m by (subst findAll.simps) simp
    next
      case False
      then show ?thesis using 1(2)[OF m(2) m(1) refl False] F m by (subst findAll.simps) auto
    qed
  qed
qed

lemmas regex_defs = emailRegex_def phoneRegex_def ssnRegex_def creditCardRegex_def ipRegex_def octet_def lit_def optR_def exactly_def
  digitRange_def Let_def

lemma builtin_consumes: "(n, p) \<in> set builtinPatterns \<Longrightarrow> 0 < minLen (pd_Regex p)"
  by (auto simp: builtinPatterns_def regex_defs)

lemma NewDetector_consumes: "p \<in> set (NewDetector ps) \<Longrightarrow> 0 < minLen (pd_Regex p)"
proof -
  assume "p \<in> set (NewDetector ps)"
  then obtain n where "mget builtinPatterns n = Some p" by (auto simp: NewDetector_def builtins_def split: option.splits if_splits)
  from builtin_consumes[OF mget_in_set[OF this]] show ?thesis .
qed

subsection \<open>Scanning\<close>

definition overlaps :: "nat \<times> nat \<Rightarrow> detection \<Rightarrow> bool" where
  "overlaps loc d \<longleftrightarrow> (\<exists>i. fst loc \<le> i \<and> i < snd loc \<and> det_Start d \<le> i \<and> i < det_End d)"

definition detectionOk :: "patternDef list \<Rightarrow> string \<Rightarrow> detection \<Rightarrow> bool" where
  "detectionOk pats t d \<longleftrightarrow> det_Start d < det_End d \<and> det_End d \<le> length t \<and> det_Match d = substr t (det_Start d) (det_End d) \<and>
     (\<exists>p \<in> set pats. pd_Name p = det_Pattern d \<and> passes p (det_Match d))"

definition apart :: "detection \<Rightarrow> detection \<Rightarrow> bool" where
  "apart d e \<longleftrightarrow> det_End d \<le> det_Start e \<or> det_End e \<le> det_Start d"

definition scanInv :: "patternDef list \<Rightarrow> string \<Rightarrow> bool list \<times> detection list \<Rightarrow> bool" where
  "scanInv pats t st \<longleftrightarrow> length (fst st) = length t \<and>
     (\<forall>i < length t. fst st ! i \<longleftrightarrow> (\<exists>d \<in> set (snd st). det_Start d \<le> i \<and> i < det_End d)) \<and>
     (\<forall>d \<in> set (snd st). detectionOk pats t d) \<and> distinct (snd st) \<and>
     (\<forall>d \<in> set (snd st). \<forall>e \<in> set (snd st). d \<noteq> e \<longrightarrow> apart d e)"

lemma claim_length [simp]: "length (claim s e c) = length c"
proof -
  have "length (fold (\<lambda>i c. c[i := True]) xs c) = length c" for xs by (induction xs arbitrary: c) auto
  then show ?thesis by (simp add: claim_def)
qed

lemma claim_nth: "i < length c \<Longrightarrow> claim s e c ! i \<longleftrightarrow> c ! i \<or> s \<le> i \<and> i < e"
proof -
  have "i < length c \<Longrightarrow> fold (\<lambda>i c. c[i := True]) xs c ! i \<longleftrightarrow> c ! i \<or> i \<in> set xs" for xs
  proof (induction xs arbitrary: c)
    case (Cons a xs)
    from Cons.IH[of "c[a := True]"] Cons.prems show ?case by (cases "a = i") auto
  qed simp
  then show "i < length c \<Longrightarrow> claim s e c ! i \<longleftrightarrow> c ! i \<or> s \<le> i \<and> i < e" by (auto simp: claim_def)
qed

lemma scanMatch_mono: "set (snd st) \<subseteq> set (snd (scanMatch t p loc st))"
  by (auto simp: scanMatch_def Let_def split: prod.splits)

lemma fold_mono: "(\<And>x st. set (snd st) \<subseteq> set (snd (f x st))) \<Longrightarrow> set (snd st) \<subseteq> set (snd (fold f xs st))"
  by (induction xs arbitrary: st) (simp, fastforce)

lemma scanMatch_step:
  assumes "scanInv pats t st" "p \<in> set pats" "s < e" "e \<le> length t"
  shows "scanInv pats t (scanMatch t p (s, e) st)"
    "passes p (substr t s e) \<Longrightarrow> \<exists>d \<in> set (snd (scanMatch t p (s, e) st)). overlaps (s, e) d"
proof -
  obtain c rs where st: "st = (c, rs)" by (cases st)
  note I = assms(1)[unfolded st scanInv_def, simplified]
  have claimed: "c ! i \<longleftrightarrow> (\<exists>d \<in> set rs. det_Start d \<le> i \<and> i < det_End d)" if "i < length t" for i using I that by blast
  let ?d = "\<lparr>det_Pattern = pd_Name p, det_Match = substr t s e, det_Start = s, det_End = e\<rparr>"
  have "scanInv pats t (scanMatch t p (s, e) st) \<and>
    (passes p (substr t s e) \<longrightarrow> (\<exists>d \<in> set (snd (scanMatch t p (s, e) st)). overlaps (s, e) d))"
  proof (cases "list_ex (\<lambda>i. c ! i) [s..<e]")
    case True
    then obtain i where i: "s \<le> i" "i < e" "c ! i" by (auto simp: list_ex_iff)
    then have "i < length t" using assms(4) by simp
    then obtain d where "d \<in> set rs" "det_Start d \<le> i" "i < det_End d" using claimed i by blast
    with i have "\<exists>d \<in> set rs. overlaps (s, e) d" by (auto simp: overlaps_def)
    with True assms(1) show ?thesis by (simp add: scanMatch_def st)
  next
    case free: False
    show ?thesis
    proof (cases "passes p (substr t s e)")
      case False
      with free assms(1) show ?thesis by (simp add: scanMatch_def st)
    next
      case True
      have res: "scanMatch t p (s, e) st = (claim s e c, rs @ [?d])" using free True by (simp add: scanMatch_def st)
      have ap: "apart d ?d" if d: "d \<in> set rs" for d
      proof (rule ccontr)
        assume "\<not> apart d ?d"
        then have m: "s < det_End d" "det_Start d < e" by (auto simp: apart_def)
        have dk: "det_Start d < det_End d" "det_End d \<le> length t" using I d by (auto simp: detectionOk_def)
        have "c ! max s (det_Start d)" using claimed[of "max s (det_Start d)"] m dk assms(3,4) d by auto
        then show False using free m assms(3) by (auto simp: list_ex_iff max_def split: if_splits)
      qed
      then have ap': "apart ?d d" if "d \<in> set rs" for d using that by (auto simp: apart_def)
      have "?d \<notin> set rs"
      proof
        assume "?d \<in> set rs"
        from ap[OF this] assms(3) show False by (simp add: apart_def)
      qed
      moreover have "claim s e c ! i \<longleftrightarrow> (\<exists>d \<in> set (rs @ [?d]). det_Start d \<le> i \<and> i < det_End d)" if "i < length t" for i
        using that I claimed[OF that] by (auto simp: claim_nth)
      moreover have "detectionOk pats t ?d" using assms(2-4) True by (auto simp: detectionOk_def)
      ultimately have "scanInv pats t (claim s e c, rs @ [?d])" using I ap ap' by (auto simp: scanInv_def)
      moreover have "overlaps (s, e) ?d" using assms(3) by (auto simp: overlaps_def)
      ultimately show ?thesis by (simp add: res)
    qed
  qed
  then show "scanInv pats t (scanMatch t p (s, e) st)"
    "passes p (substr t s e) \<Longrightarrow> \<exists>d \<in> set (snd (scanMatch t p (s, e) st)). overlaps (s, e) d" by blast+
qed

lemma scanMatches_step:
  assumes "scanInv pats t st" "p \<in> set pats" "\<forall>(s, e) \<in> set locs. s < e \<and> e \<le> length t"
  shows "scanInv pats t (fold (scanMatch t p) locs st) \<and>
    (\<forall>(s, e) \<in> set locs. passes p (substr t s e) \<longrightarrow> (\<exists>d \<in> set (snd (fold (scanMatch t p) locs st)). overlaps (s, e) d))"
  using assms
proof (induction locs arbitrary: st)
  case (Cons loc locs)
  obtain s e where loc: "loc = (s, e)" by (cases loc)
  with Cons.prems have se: "s < e" "e \<le> length t" and rest: "\<forall>(s, e) \<in> set locs. s < e \<and> e \<le> length t" by auto
  note S = scanMatch_step[OF Cons.prems(1,2) se]
  have "set (snd (scanMatch t p (s, e) st)) \<subseteq> set (snd (fold (scanMatch t p) locs (scanMatch t p (s, e) st)))"
    by (rule fold_mono) (rule scanMatch_mono)
  then show ?case using Cons.IH[OF S(1) Cons.prems(2) rest] S(2) loc by (auto 0 4)
qed simp

lemma scanPattern_step:
  assumes "scanInv pats t st" "p \<in> set pats" "0 < minLen (pd_Regex p)"
  shows "scanInv pats t (scanPattern t p st)"
    "\<forall>(s, e) \<in> set (findAll t (pd_Regex p) 0 None). passes p (substr t s e) \<longrightarrow> (\<exists>d \<in> set (snd (scanPattern t p st)). overlaps (s, e) d)"
proof -
  have "\<forall>(s, e) \<in> set (findAll t (pd_Regex p) 0 None). s < e \<and> e \<le> length t"
    using findAll_range[of t "pd_Regex p" 0 None] assms(3) by fastforce
  from scanMatches_step[OF assms(1,2) this] show "scanInv pats t (scanPattern t p st)"
    "\<forall>(s, e) \<in> set (findAll t (pd_Regex p) 0 None). passes p (substr t s e) \<longrightarrow> (\<exists>d \<in> set (snd (scanPattern t p st)). overlaps (s, e) d)"
    by (simp_all add: scanPattern_def)
qed

lemma scanAll_step:
  assumes "scanInv pats t st" "\<forall>p \<in> set ps. p \<in> set pats \<and> 0 < minLen (pd_Regex p)"
  shows "scanInv pats t (fold (scanPattern t) ps st) \<and>
    (\<forall>p \<in> set ps. \<forall>(s, e) \<in> set (findAll t (pd_Regex p) 0 None). passes p (substr t s e) \<longrightarrow>
       (\<exists>d \<in> set (snd (fold (scanPattern t) ps st)). overlaps (s, e) d))"
  using assms
proof (induction ps arbitrary: st)
  case (Cons p ps)
  then have p: "p \<in> set pats" "0 < minLen (pd_Regex p)" and rest: "\<forall>p \<in> set ps. p \<in> set pats \<and> 0 < minLen (pd_Regex p)" by auto
  note S = scanPattern_step[OF Cons.prems(1) p]
  have "set (snd (scanPattern t p st)) \<subseteq> set (snd (fold (scanPattern t) ps (scanPattern t p st)))"
    by (rule fold_mono) (simp add: scanPattern_def fold_mono scanMatch_mono)
  then show ?case using Cons.IH[OF S(1) rest] S(2) by (auto 0 4)
qed simp

lemma Scan_result:
  assumes "t \<noteq> []"
  obtains st where "Scan (NewDetector ps) t = sort_key det_Start (snd st)" "scanInv (NewDetector ps) t st"
    "\<forall>p \<in> set (NewDetector ps). \<forall>(s, e) \<in> set (findAll t (pd_Regex p) 0 None). passes p (substr t s e) \<longrightarrow>
       (\<exists>d \<in> set (snd st). overlaps (s, e) d)"
proof -
  have init: "scanInv (NewDetector ps) t (replicate (length t) False, [])" by (simp add: scanInv_def)
  have ok: "\<forall>p \<in> set (NewDetector ps). p \<in> set (NewDetector ps) \<and> 0 < minLen (pd_Regex p)" using NewDetector_consumes by blast
  from scanAll_step[OF init ok] assms show thesis by (intro that) (auto simp: Scan_def)
qed

lemma sorted_apart:
  assumes "sorted (map det_Start ds)" "distinct ds" "\<forall>d \<in> set ds. det_Start d < det_End d"
    and "\<forall>d \<in> set ds. \<forall>e \<in> set ds. d \<noteq> e \<longrightarrow> apart d e"
  shows "sorted_wrt (\<lambda>d e. det_End d \<le> det_Start e) ds"
  using assms
proof (induction ds)
  case (Cons d ds)
  have "det_End d \<le> det_Start e" if "e \<in> set ds" for e
  proof -
    have "det_Start d \<le> det_Start e" "d \<noteq> e" "det_Start e < det_End e" "apart d e" using Cons.prems that by auto
    then show ?thesis by (auto simp: apart_def)
  qed
  with Cons show ?case by auto
qed simp

lemma Scan_sorted: "sorted_wrt (\<lambda>d e. det_End d \<le> det_Start e) (Scan (NewDetector ps) t)"
  and Scan_ok: "\<forall>d \<in> set (Scan (NewDetector ps) t). detectionOk (NewDetector ps) t d"
proof -
  have "sorted_wrt (\<lambda>d e. det_End d \<le> det_Start e) (Scan (NewDetector ps) t) \<and>
    (\<forall>d \<in> set (Scan (NewDetector ps) t). detectionOk (NewDetector ps) t d)"
  proof (cases "t = []")
    case False
    from Scan_result[OF this, of ps] obtain st where st: "Scan (NewDetector ps) t = sort_key det_Start (snd st)" "scanInv (NewDetector ps) t st" by blast
    then have "\<forall>d \<in> set (snd st). detectionOk (NewDetector ps) t d" by (simp add: scanInv_def)
    moreover from this have "\<forall>d \<in> set (snd st). det_Start d < det_End d" by (auto simp: detectionOk_def)
    ultimately show ?thesis using st by (auto simp: scanInv_def intro!: sorted_apart)
  qed (simp add: Scan_def)
  then show "sorted_wrt (\<lambda>d e. det_End d \<le> det_Start e) (Scan (NewDetector ps) t)"
    "\<forall>d \<in> set (Scan (NewDetector ps) t). detectionOk (NewDetector ps) t d" by blast+
qed

subsection \<open>Redaction\<close>

text \<open>The reference: one pass from left to right that copies the text between detections.\<close>

fun maskFrom :: "nat \<Rightarrow> string \<Rightarrow> detection list \<Rightarrow> string" where
  "maskFrom pos t [] = drop pos t"
| "maskFrom pos t (d # ds) = substr t pos (det_Start d) @ placeholderOf d @ maskFrom (det_End d) t ds"

lemma substr_split: "a \<le> b \<Longrightarrow> b \<le> c \<Longrightarrow> substr t a c = substr t a b @ substr t b c"
proof -
  assume "a \<le> b" "b \<le> c"
  then have "c - a = (b - a) + (c - b)" "b = a + (b - a)" by simp_all
  then show ?thesis unfolding substr_def by (metis add.commute drop_drop take_add)
qed

lemma maskFrom_split:
  assumes "a \<le> n" "n \<le> length t" "\<forall>d \<in> set ds. n \<le> det_Start d"
  shows "maskFrom a t ds = substr t a n @ maskFrom n t ds"
proof (cases ds)
  case Nil
  have "drop n t = drop (n - a) (drop a t)" using assms(1) by simp
  with Nil show ?thesis by (simp add: substr_def del: drop_drop)
next
  case (Cons d ds')
  then show ?thesis using assms substr_split[of a n "det_Start d" t] by simp
qed

lemma replaceAll_append: "replaceAll (xs @ ys) t = Option.bind (replaceAll xs t) (replaceAll ys)"
  by (induction xs arbitrary: t) auto

lemma replaceAll_mask:
  assumes "sorted_wrt (\<lambda>d e. det_End d \<le> det_Start e) ds" "\<forall>d \<in> set ds. det_Start d < det_End d \<and> det_End d \<le> length t"
  shows "replaceAll (rev ds) t = Some (maskFrom 0 t ds)"
  using assms
proof (induction ds)
  case (Cons d ds)
  have bounds: "det_Start d < det_End d" "det_End d \<le> length t" "\<forall>e \<in> set ds. det_End d \<le> det_Start e" using Cons.prems by auto
  have "replaceAll (rev ds) t = Some (maskFrom 0 t ds)" using Cons by simp
  moreover have "maskFrom 0 t ds = take (det_End d) t @ maskFrom (det_End d) t ds"
    using maskFrom_split[of 0 "det_End d" t ds] bounds by (simp add: substr_def)
  ultimately show ?case using bounds by (simp add: replaceAll_append substr_def min_def)
qed simp

lemma keepDisjoint_id:
  "sorted_wrt (\<lambda>d e. det_End d \<le> det_Start e) ds \<Longrightarrow> \<forall>d \<in> set ds. n \<le> det_Start d \<Longrightarrow> keepDisjoint n ds = ds"
  by (induction ds arbitrary: n) auto

lemma sorted_key_less:
  fixes f :: "detection \<Rightarrow> 'k::linorder"
  assumes "sorted_wrt (\<lambda>d e. det_End d \<le> det_Start e) ds" "\<forall>d \<in> set ds. det_Start d < det_End d"
    and "\<And>d e. det_Start d < det_Start e \<Longrightarrow> f d \<le> f e"
  shows "sorted (map f ds)"
  using assms(1,2)
proof (induction ds)
  case (Cons d ds)
  have "f d \<le> f e" if "e \<in> set ds" for e using Cons.prems that by (intro assms(3)) force
  with Cons show ?case by simp
qed simp

lemma Redact_disjoint:
  assumes "sorted_wrt (\<lambda>d e. det_End d \<le> det_Start e) ds" "\<forall>d \<in> set ds. det_Start d < det_End d \<and> det_End d \<le> length t"
  shows "Redact t ds = Some (maskFrom 0 t ds)"
proof (cases "ds = []")
  case False
  have ne: "\<forall>d \<in> set ds. det_Start d < det_End d" using assms(2) by blast
  have "sort_key (\<lambda>d. (int (det_Start d), int (det_Start d) - int (det_End d), priorityOf (det_Pattern d))) ds = ds"
    by (rule sort_key_id_if_sorted, rule sorted_key_less[OF assms(1) ne]) simp
  then have "resolveOverlaps ds = ds" using keepDisjoint_id[OF assms(1), of 0] by (simp add: resolveOverlaps_def)
  moreover have "sort_key det_Start ds = ds" by (rule sort_key_id_if_sorted, rule sorted_key_less[OF assms(1) ne]) simp
  ultimately show ?thesis using False replaceAll_mask[OF assms] by (simp add: Redact_def)
qed (simp add: Redact_def)

subsection \<open>The Luhn check\<close>

definition luhnWeight :: "bool \<Rightarrow> int \<Rightarrow> int" where
  "luhnWeight alt d = (if alt then (if d * 2 > 9 then d * 2 - 9 else d * 2) else d)"

lemma luhnLoop_Cons: "luhnLoop (d # ds) alt acc = luhnLoop ds (\<not> alt) (acc + luhnWeight alt d)"
  by (simp add: luhnWeight_def Let_def)

lemma luhnLoop_acc: "luhnLoop ds alt (a + b) = a + luhnLoop ds alt b"
  by (induction ds arbitrary: alt b) (auto simp del: luhnLoop.simps(2) simp: luhnLoop_Cons add.assoc)

lemma luhnLoop_diff:
  "luhnLoop (xs @ d # ys) alt acc - luhnLoop (xs @ d' # ys) alt acc =
     luhnWeight (alt \<noteq> odd (length xs)) d - luhnWeight (alt \<noteq> odd (length xs)) d'"
proof (induction xs arbitrary: alt acc)
  case Nil
  have "luhnLoop ys (\<not> alt) (acc + w) = w + luhnLoop ys (\<not> alt) acc" for w using luhnLoop_acc[of ys "\<not> alt" w acc] by (simp add: add.commute)
  then show ?case by (simp del: luhnLoop.simps(2) add: luhnLoop_Cons)
next
  case (Cons x xs)
  from Cons.IH[of "\<not> alt" "acc + luhnWeight alt x"] show ?case by (simp del: luhnLoop.simps(2) add: luhnLoop_Cons)
qed

lemma luhnWeight_inj:
  assumes "0 \<le> d" "d \<le> 9" "0 \<le> d'" "d' \<le> 9" "(luhnWeight alt d - luhnWeight alt d') mod 10 = 0"
  shows "d = d'"
proof -
  have "d \<in> {0..9}" "d' \<in> {0..9}" using assms(1-4) by auto
  moreover have "{0..9::int} = {0, 1, 2, 3, 4, 5, 6, 7, 8, 9}" by (simp add: atLeastAtMost_insertL simp_from_to)
  ultimately have "d \<in> {0, 1, 2, 3, 4, 5, 6, 7, 8, 9}" "d' \<in> {0, 1, 2, 3, 4, 5, 6, 7, 8, 9}" by simp_all
  with assms(5) show ?thesis by (auto simp: luhnWeight_def split: if_splits)
qed

subsection \<open>Properties\<close>

text \<open>C17. Scan is complete and well formed for every detector NewDetector can build: its detections are sorted and pairwise
  disjoint, lie within the text, quote it, name an enabled pattern and pass that pattern's validation; and every match of an
  enabled pattern that passes validation shares a byte with a reported detection, so none is missed entirely.\<close>
theorem Scan_complete:
  "sorted_wrt (\<lambda>d e. det_End d \<le> det_Start e) (Scan (NewDetector ps) t) \<and>
   (\<forall>d \<in> set (Scan (NewDetector ps) t). detectionOk (NewDetector ps) t d) \<and>
   (\<forall>p \<in> set (NewDetector ps). \<forall>(s, e) \<in> set (findAll t (pd_Regex p) 0 None). passes p (substr t s e) \<longrightarrow>
      (\<exists>d \<in> set (Scan (NewDetector ps) t). overlaps (s, e) d))"
proof (cases "t = []")
  case True
  have "findAll [] (pd_Regex p) 0 None = []" if "p \<in> set (NewDetector ps)" for p
    using findAll_range[of "[]" "pd_Regex p" 0 None] NewDetector_consumes[OF that] by (cases "findAll [] (pd_Regex p) 0 None") auto
  with True Scan_sorted Scan_ok show ?thesis by auto
next
  case False
  obtain st where "Scan (NewDetector ps) t = sort_key det_Start (snd st)" "scanInv (NewDetector ps) t st"
    "\<forall>p \<in> set (NewDetector ps). \<forall>(s, e) \<in> set (findAll t (pd_Regex p) 0 None). passes p (substr t s e) \<longrightarrow>
       (\<exists>d \<in> set (snd st). overlaps (s, e) d)" by (rule Scan_result[OF False, of ps])
  then have "\<forall>p \<in> set (NewDetector ps). \<forall>(s, e) \<in> set (findAll t (pd_Regex p) 0 None). passes p (substr t s e) \<longrightarrow>
       (\<exists>d \<in> set (Scan (NewDetector ps) t). overlaps (s, e) d)" by simp
  then show ?thesis by (intro conjI Scan_sorted Scan_ok)
qed

definition sampleText :: string where "sampleText = ''ip 10.0.0.1 ok''"

lemma sampleText_matches: "(3, 11) \<in> set (findAll sampleText ipRegex 0 None)"
  by code_simp

theorem Scan_complete_witness: "\<exists>d \<in> set (Scan (NewDetector [''ip_address'']) sampleText). overlaps (3, 11) d"
proof -
  let ?p = "\<lparr>pd_Name = ''ip_address'', pd_Regex = ipRegex, pd_Placeholder = ''[IP_ADDRESS]'', pd_Priority = 5, pd_Validate = None\<rparr>"
  have "?p \<in> set (NewDetector [''ip_address''])"
    by (simp add: NewDetector_def builtins_def patternOrder_def builtinPatterns_def mget_def)
  moreover have "passes ?p (substr sampleText 3 11)" by (simp add: passes_def)
  moreover have "(3, 11) \<in> set (findAll sampleText (pd_Regex ?p) 0 None)" using sampleText_matches by simp
  ultimately show ?thesis using Scan_complete[of "[''ip_address'']" sampleText] by blast
qed

text \<open>C18. Redact agrees with its specification: on the detections of any detector's Scan the replacement from the end of the
  text to its start never slices out of range and yields the text with every detected range replaced by its placeholder and
  everything else copied unchanged, as one pass from left to right would.\<close>
theorem Redact_equals_mask:
  "Redact t (Scan (NewDetector ps) t) = Some (maskFrom 0 t (Scan (NewDetector ps) t))"
  by (rule Redact_disjoint) (use Scan_sorted Scan_ok in \<open>auto simp: detectionOk_def\<close>)

text \<open>The Luhn check detects every single-digit error: of two strings that differ in one digit at most one is
  valid.\<close>
theorem luhn_single_digit:
  assumes "isDigit c" "isDigit c'" "c \<noteq> c'" "luhnValid (u @ c # v)"
  shows "\<not> luhnValid (u @ c' # v)"
proof
  assume v': "luhnValid (u @ c' # v)"
  let ?d = "\<lambda>x :: char. of_char x - 48 :: int"
  let ?a = "rev (digitsOf v)" and ?b = "rev (digitsOf u)"
  have ds: "rev (digitsOf (u @ x # v)) = ?a @ ?d x # ?b" if "isDigit x" for x using that by (simp add: digitsOf_def)
  have "luhnLoop (?a @ ?d c # ?b) False 0 mod 10 = 0" "luhnLoop (?a @ ?d c' # ?b) False 0 mod 10 = 0"
    using assms(4) v' ds[OF assms(1)] ds[OF assms(2)] by (auto simp: luhnValid_def Let_def split: if_splits)
  then have "(luhnLoop (?a @ ?d c # ?b) False 0 - luhnLoop (?a @ ?d c' # ?b) False 0) mod 10 = 0"
    by (metis mod_diff_eq diff_self mod_0)
  moreover have "0 \<le> ?d x \<and> ?d x \<le> 9" if "isDigit x" for x
  proof -
    have "int 48 \<le> int (of_char x) \<and> int (of_char x) \<le> int 57" using that unfolding isDigit_def Let_def by linarith
    then show ?thesis by (simp add: of_nat_of_char)
  qed
  then have r: "0 \<le> ?d c" "?d c \<le> 9" "0 \<le> ?d c'" "?d c' \<le> 9" using assms(1,2) by simp_all
  ultimately have "?d c = ?d c'" unfolding luhnLoop_diff by (intro luhnWeight_inj[OF r])
  then show False using assms(3) by simp
qed

theorem luhn_single_digit_witness: "\<not> luhnValid ''4111111111111112''"
proof -
  have "luhnValid (''411111111111111'' @ CHR ''1'' # [])" by code_simp
  moreover have "isDigit CHR ''1''" "isDigit CHR ''2''" by (simp_all add: isDigit_def)
  ultimately show ?thesis using luhn_single_digit[of "CHR ''1''" "CHR ''2''" "''411111111111111''" "[]"] by simp
qed

end
