(* ===== verification/Run_Service.thy ===== *)
theory Run_Service
  imports Run_Handlers Pii
begin

text \<open>
  Properties of the run service as a whole: the handlers of Run_Handlers interleaved with the workers of Run_Executor.

  \<^item> \<open>serving\<close> is the step relation of a server that answers create, batch, retry and read requests of any tenant, whatever
    the answer, while workers execute the queued jobs and schedule automatic retries; it collects the runs admitted by
    create and batch requests.
  \<^item> Admission and the concurrency slots, idempotent creation, cascading cancellation and the role checks of the routes.
\<close>

subsection \<open>Traces of the service\<close>

definition queuedBy :: "server \<Rightarrow> server \<Rightarrow> run list" where
  "queuedBy s1 s2 = map (\<lambda>q. rj_run (qj_job q)) (drop (length (sv_queue s1)) (sv_queue s2))"



lemma worker_limiter [simp]: "sv_limiter (worker cfg pii codec ctx envs s) = sv_limiter s"
  by (simp add: worker_def Let_def split: list.split)

lemma slots_limiter: "sv_limiter s' = sv_limiter s \<Longrightarrow> slots s' = slots s \<and> slotsOk s' = slotsOk s"
  by (auto simp: slots_def slotsOk_def fun_eq_iff)



lemma handleRunCreate_bound:
  assumes "slotsOk s" "handleRunCreate env t ag body s = (ROk 201 r, s')"
  shows "slots s t < lim_maxConcurrent (sv_limiter s)"
proof -
  obtain res s1 where c: "checkQuota env t s = (res, s1)" by (cases "checkQuota env t s")
  with assms(2) have "res = None" by (cases res) (auto simp: handleRunCreate_def)
  then show ?thesis using checkQuota_spec(4)[OF assms(1) c] by force
qed

lemma handleRunCreate_tenant: "handleRunCreate env t ag body s = (ROk 201 r, s') \<Longrightarrow> run_TenantID r = t"
  by (auto simp: handleRunCreate_def newRun_def Let_def split: prod.splits option.splits sum.splits if_splits)

text \<open>What a request admits: the runs it queued, for its own tenant and each with a slot.\<close>

definition admits :: "string \<Rightarrow> server \<Rightarrow> server \<Rightarrow> bool" where
  "admits t s s' \<longleftrightarrow> slotsOk s' \<and> lim_maxConcurrent (sv_limiter s') = lim_maxConcurrent (sv_limiter s) \<and>
     slots s' = (slots s)(t := slots s t + int (length (queuedBy s s'))) \<and> (\<forall>r\<in>set (queuedBy s s'). run_TenantID r = t) \<and>
     slots s' t \<le> max (slots s t) (lim_maxConcurrent (sv_limiter s))"

lemma handleRunCreate_admits:
  assumes "slotsOk s" "handleRunCreate env t ag body s = (rsp, s')"
  shows "admits t s s'"
proof -
  note C = handleRunCreate_cases[OF assms]
  show ?thesis
  proof (cases "\<exists>r. rsp = ROk 201 r")
    case True
    then obtain r where r: "rsp = ROk 201 r" by blast
    then have "slots s t < lim_maxConcurrent (sv_limiter s)" "run_TenantID r = t"
      using handleRunCreate_bound[OF assms(1)] handleRunCreate_tenant assms(2) by auto
    moreover obtain q where "sv_queue s' = sv_queue s @ [q]" "rj_run (qj_job q) = r" "slots s' = (slots s)(t := slots s t + 1)"
      using C r by auto
    ultimately show ?thesis using C by (simp add: admits_def queuedBy_def)
  next
    case False
    then have "sv_queue s' = sv_queue s" "slots s' = slots s" using C by auto
    then show ?thesis using C by (simp add: admits_def queuedBy_def)
  qed
qed









subsection \<open>Cancellation\<close>

definition canceledFrom :: "reqEnv \<Rightarrow> fileRunStore \<Rightarrow> fileRunStore \<Rightarrow> bool" where
  "canceledFrom env s0 s \<longleftrightarrow> storeInv s \<and> (\<forall>k. mget (fr_runs s) k = mget (fr_runs s0) k \<or>
     (\<exists>c. mget (fr_runs s0) k = Some c \<and> \<not> terminalStatus (run_Status c) \<and> mget (fr_runs s) k = Some (cancelRun env c)))"

lemma cancelRun_sel [simp]: "run_Status (cancelRun env c) = ''canceled''" "run_RunID (cancelRun env c) = run_RunID c"
  "run_TenantID (cancelRun env c) = run_TenantID c" "validateRun (cancelRun env c) = validateRun c" "keyOf (cancelRun env c) = keyOf c"
  by (simp_all add: cancelRun_def validateRun_def)

lemma active_not_terminal: "activeStatus st \<Longrightarrow> \<not> terminalStatus st"
  by (auto simp: activeStatus_def terminalStatus_def)

lemma stored_key:
  assumes "storeInv s" "mget (fr_runs s) k = Some c"
  shows "k = keyOf c" "validateRun c"
  using mget_in_set[OF assms(2)] storeInvD(2)[OF assms(1)] by (auto simp: keyedRuns_def)

lemma canceledFrom_refl: "storeInv s \<Longrightarrow> canceledFrom env s s"
  by (simp add: canceledFrom_def)

lemma canceledFrom_trans:
  assumes "canceledFrom env s0 s1" "canceledFrom env s1 s2"
  shows "canceledFrom env s0 s2"
proof -
  have "mget (fr_runs s2) k = mget (fr_runs s0) k \<or>
     (\<exists>c. mget (fr_runs s0) k = Some c \<and> \<not> terminalStatus (run_Status c) \<and> mget (fr_runs s2) k = Some (cancelRun env c))" for k
  proof (cases "mget (fr_runs s1) k = mget (fr_runs s0) k")
    case True
    then show ?thesis using assms(2) unfolding canceledFrom_def by metis
  next
    case False
    then obtain c where c: "mget (fr_runs s0) k = Some c" "\<not> terminalStatus (run_Status c)" "mget (fr_runs s1) k = Some (cancelRun env c)"
      using assms(1) unfolding canceledFrom_def by metis
    have "mget (fr_runs s2) k = mget (fr_runs s1) k"
    proof (rule ccontr)
      assume "\<not> ?thesis"
      then obtain c' where "mget (fr_runs s1) k = Some c'" "\<not> terminalStatus (run_Status c')"
        using assms(2) unfolding canceledFrom_def by metis
      with c show False by (simp add: terminalStatus_def)
    qed
    with c show ?thesis by auto
  qed
  then show ?thesis using assms(2) by (auto simp: canceledFrom_def)
qed

lemma Run_Save_present:
  assumes "storeInv s" "mget (fr_runs s) (keyOf c) = Some c'" "validateRun c"
  shows "mget (fr_runs (snd (Run_Save None io c s))) k = (if k = keyOf c then Some c else mget (fr_runs s) k)"
proof -
  have "fr_runs (snd (Run_Save None io c s)) = fr_runs (putRun c s)"
    using assms(3) by (auto simp: Run_Save_def persistRuns_def split: option.splits)
  then show ?thesis using putRun_get[OF assms(1,3), of k] assms(2) by simp
qed

text \<open>Saving the canceled version of a run that the store held, live, when it was read.\<close>

lemma cancel_save:
  assumes "canceledFrom env s0 s" "mget (fr_runs s0) (keyOf c) = Some c" "\<not> terminalStatus (run_Status c)" "storeInv s0"
  shows "canceledFrom env s0 (snd (Run_Save None io (cancelRun env c) s))"
    "mget (fr_runs (snd (Run_Save None io (cancelRun env c) s))) (keyOf c) = Some (cancelRun env c)"
proof -
  have inv: "storeInv s" using assms(1) by (simp add: canceledFrom_def)
  obtain c' where c': "mget (fr_runs s) (keyOf c) = Some c'" using assms(1,2) unfolding canceledFrom_def by metis
  have v: "validateRun (cancelRun env c)" using stored_key(2)[OF assms(4,2)] by simp
  have get: "mget (fr_runs (snd (Run_Save None io (cancelRun env c) s))) k = (if k = keyOf c then Some (cancelRun env c) else mget (fr_runs s) k)" for k
    using Run_Save_present[OF inv _ v, of c' io k] c' by simp
  show "mget (fr_runs (snd (Run_Save None io (cancelRun env c) s))) (keyOf c) = Some (cancelRun env c)" by (simp add: get)
  show "canceledFrom env s0 (snd (Run_Save None io (cancelRun env c) s))"
    unfolding canceledFrom_def get using Run_Save_inv[OF inv] assms(1-3) by (auto simp: canceledFrom_def)
qed

lemma Exec_Cancel_runs [simp]: "sv_runs (Exec_Cancel i s) = sv_runs s"
  by (simp add: Exec_Cancel_def)

definition liveIn :: "fileRunStore \<Rightarrow> run list \<Rightarrow> bool" where
  "liveIn s0 cs \<longleftrightarrow> (\<forall>c \<in> set cs. activeStatus (run_Status c) \<longrightarrow> mget (fr_runs s0) (keyOf c) = Some c)"

definition allCanceled :: "reqEnv \<Rightarrow> run list \<Rightarrow> fileRunStore \<Rightarrow> bool" where
  "allCanceled env cs s \<longleftrightarrow> (\<forall>c \<in> set cs. activeStatus (run_Status c) \<longrightarrow> mget (fr_runs s) (keyOf c) = Some (cancelRun env c))"

lemma canceled_stays:
  assumes "canceledFrom env s s'" "mget (fr_runs s) k = Some (cancelRun env c)"
  shows "mget (fr_runs s') k = Some (cancelRun env c)"
  using assms unfolding canceledFrom_def by (metis cancelRun_sel(1) option.inject terminalStatus_def)

lemma ListChildRuns_live:
  assumes "storeInv s" "ListChildRuns ctx tn p s = Inr cs"
  shows "liveIn s cs"
proof -
  have "mget (fr_runs s) (keyOf c) = Some c" if "c \<in> set cs" for c
  proof -
    have "c \<in> snd ` set (fr_runs s)" using assms(2) that by (auto simp: ListChildRuns_def split: if_splits option.splits)
    then obtain k where k: "(k, c) \<in> set (fr_runs s)" by auto
    then have "mget (fr_runs s) k = Some c" using mget_iff[OF storeInvD(1)[OF assms(1)]] by blast
    with stored_key(1)[OF assms(1) this] show ?thesis by simp
  qed
  then show ?thesis by (simp add: liveIn_def)
qed

definition keepsCanceled :: "reqEnv \<Rightarrow> fileRunStore \<Rightarrow> fileRunStore \<Rightarrow> fileRunStore \<Rightarrow> bool" where
  "keepsCanceled env s0 s s' \<longleftrightarrow> (\<forall>k c. mget (fr_runs s0) k = Some c \<longrightarrow> mget (fr_runs s) k = Some (cancelRun env c) \<longrightarrow>
     mget (fr_runs s') k = Some (cancelRun env c))"

lemma keepsCanceled_trans: "keepsCanceled env s0 s1 s2 \<Longrightarrow> keepsCanceled env s0 s2 s3 \<Longrightarrow> keepsCanceled env s0 s1 s3"
  by (simp add: keepsCanceled_def)

lemma canceledFrom_keeps: "canceledFrom env s s' \<Longrightarrow> keepsCanceled env s0 s s'"
  by (auto simp: keepsCanceled_def intro: canceled_stays)

text \<open>What the loop over a list of children does, for any earlier state in which the active ones were stored live.\<close>

definition childrenDone :: "reqEnv \<Rightarrow> run list \<Rightarrow> fileRunStore \<Rightarrow> fileRunStore \<Rightarrow> bool" where
  "childrenDone env cs s s' \<longleftrightarrow> (\<forall>s0. storeInv s0 \<longrightarrow> canceledFrom env s0 s \<longrightarrow> liveIn s0 cs \<longrightarrow>
     canceledFrom env s0 s' \<and> allCanceled env cs s' \<and> keepsCanceled env s0 s s')"

lemma childrenDone_Cons:
  assumes "runs2 = snd (Run_Save None io (cancelRun env c) s)" "activeStatus (run_Status c)"
    and "storeInv runs2 \<Longrightarrow> canceledFrom env runs2 s3" "childrenDone env cs s3 s'"
  shows "childrenDone env (c # cs) s s'"
  unfolding childrenDone_def
proof (intro allI impI)
  fix s0
  assume s0: "storeInv s0" "canceledFrom env s0 s" "liveIn s0 (c # cs)"
  then have c0: "mget (fr_runs s0) (keyOf c) = Some c" and rest: "liveIn s0 cs" using assms(2) by (auto simp: liveIn_def)
  note S = cancel_save[OF s0(2) c0 active_not_terminal[OF assms(2)] s0(1), of io, folded assms(1)]
  have c23: "canceledFrom env runs2 s3" using assms(3) S(1) by (simp add: canceledFrom_def)
  have "canceledFrom env s0 s3" by (rule canceledFrom_trans[OF S(1) c23])
  with assms(4) s0(1) rest have D: "canceledFrom env s0 s'" "allCanceled env cs s'" "keepsCanceled env s0 s3 s'"
    by (simp_all add: childrenDone_def)
  have k2': "keepsCanceled env s0 runs2 s'" by (rule keepsCanceled_trans[OF canceledFrom_keeps[OF c23] D(3)])
  have inv: "storeInv s" using s0(2) by (simp add: canceledFrom_def)
  obtain c' where "mget (fr_runs s) (keyOf c) = Some c'" using s0(2) c0 unfolding canceledFrom_def by metis
  then have "mget (fr_runs runs2) k = (if k = keyOf c then Some (cancelRun env c) else mget (fr_runs s) k)" for k
    using Run_Save_present[OF inv, of "cancelRun env c" c' io k] stored_key(2)[OF s0(1) c0] assms(1) by simp
  then have "keepsCanceled env s0 s runs2" using c0 by (auto simp: keepsCanceled_def)
  from keepsCanceled_trans[OF this k2'] D S(2) k2' c0 show
    "canceledFrom env s0 s' \<and> allCanceled env (c # cs) s' \<and> keepsCanceled env s0 s s'"
    by (auto simp: allCanceled_def keepsCanceled_def)
qed

lemma cascade_canceledFrom:
  "re_ctx env = None \<Longrightarrow> storeInv (sv_runs s) \<Longrightarrow> canceledFrom env (sv_runs s) (sv_runs (cascadeCancelChildren n env tn p s))"
  "re_ctx env = None \<Longrightarrow> childrenDone env cs (sv_runs s') (sv_runs (cancelChildren n env tn cs s'))"
proof (induction n env tn p s and n env tn cs s' rule: cascadeCancelChildren_cancelChildren.induct)
  case (1 env tn p s)
  then show ?case by (simp add: canceledFrom_refl)
next
  case (2 n env tn p s)
  show ?case
  proof (cases "ListChildRuns (re_ctx env) tn p (sv_runs s)")
    case (Inl e)
    then show ?thesis using 2 by (simp add: canceledFrom_refl)
  next
    case (Inr cs)
    from 2(1)[OF Inr 2(2)] 2(3) canceledFrom_refl[OF 2(3)] ListChildRuns_live[OF 2(3) Inr] show ?thesis
      using Inr by (simp add: childrenDone_def)
  qed
next
  case (3 n env tn s)
  then show ?case by (simp add: childrenDone_def allCanceled_def keepsCanceled_def)
next
  case (4 n env tn c cs s)
  show ?case
  proof (cases "activeStatus (run_Status c)")
    case False
    then show ?thesis using 4(1)[OF False 4(5)] by (simp add: childrenDone_def allCanceled_def liveIn_def)
  next
    case True
    define s1 where "s1 = Exec_Cancel (run_RunID c) s"
    obtain err runs' where sv: "Run_Save (re_ctx env) (re_io env) (cancelRun env c) (sv_runs s1) = (err, runs')"
      by (cases "Run_Save (re_ctx env) (re_io env) (cancelRun env c) (sv_runs s1)")
    define s2 where "s2 = s1\<lparr>sv_runs := runs'\<rparr>"
    define s3 where "s3 = (if err \<noteq> None then s2 else cascadeCancelChildren n env tn (run_RunID c) (decConcurrent tn s2))"
    have step: "cancelChildren n env tn (c # cs) s = cancelChildren n env tn cs s3"
      using True sv by (simp add: s1_def s2_def s3_def Let_def)
    have runs': "runs' = snd (Run_Save None (re_io env) (cancelRun env c) (sv_runs s))" using sv 4(5) by (simp add: s1_def)
    have act: "\<not> \<not> activeStatus (run_Status c)" using True by simp
    have "canceledFrom env runs' (sv_runs s3)" if "storeInv runs'"
    proof (cases "err = None")
      case n: True
      have "\<not> err \<noteq> None" using n by simp
      from 4(3)[OF act s1_def sv[symmetric] refl s2_def this 4(5)] that n show ?thesis by (simp add: s3_def s2_def)
    qed (use that in \<open>simp add: s3_def s2_def canceledFrom_refl\<close>)
    moreover have "childrenDone env cs (sv_runs s3) (sv_runs (cancelChildren n env tn cs s3))"
    proof (cases "err = None")
      case n: True
      have "\<not> err \<noteq> None" using n by simp
      from 4(4)[OF act s1_def sv[symmetric] refl s2_def this 4(5)] n show ?thesis by (simp add: s3_def)
    next
      case False
      from 4(2)[OF act s1_def sv[symmetric] refl s2_def False 4(5)] False show ?thesis by (simp add: s3_def)
    qed
    ultimately show ?thesis unfolding step by (rule childrenDone_Cons[OF runs' True])
  qed
qed

lemma Run_Get_Some:
  assumes "Run_Get ctx tn i s = (Inr (Some r), s')" "storeInv s"
  shows "ctx = None" "tn \<noteq> []" "i \<noteq> []" "mget (fr_runs s) (storageKey tn i) = Some r" "fr_runs s' = fr_runs s" "storeInv s'"
proof -
  have "storeInv (snd (Run_Get ctx tn i s))" by (rule Run_Get_inv[OF assms(2)])
  then show "ctx = None" "tn \<noteq> []" "i \<noteq> []" "mget (fr_runs s) (storageKey tn i) = Some r" "fr_runs s' = fr_runs s" "storeInv s'"
    using assms(1) by (auto simp: Run_Get_def Let_def split: option.splits if_splits)
qed

lemma maxCancelDepth_pos: "0 < maxCancelDepth getenv"
  by (simp add: maxCancelDepth_def Let_def split: option.split)

lemma cascade_children:
  assumes "re_ctx env = None" "storeInv (sv_runs s)" "0 < n" "ListChildRuns None tn p (sv_runs s) = Inr cs"
  shows "allCanceled env cs (sv_runs (cascadeCancelChildren n env tn p s))"
proof -
  from assms(3) obtain m where n: "n = Suc m" by (cases n) auto
  have "allCanceled env cs (sv_runs (cancelChildren m env tn cs s))"
    using cascade_canceledFrom(2)[OF assms(1), of cs s m tn] assms(2) canceledFrom_refl[OF assms(2)] ListChildRuns_live[OF assms(2,4)]
    by (simp add: childrenDone_def)
  then show ?thesis using assms(1,4) n by simp
qed

text \<open>The runs a cancellation may reach: the run itself and, within the tenant, what was started or retried from it.\<close>

inductive lineage :: "fileRunStore \<Rightarrow> string \<Rightarrow> string \<Rightarrow> string \<Rightarrow> bool" for s tn i where
  self: "lineage s tn i i"
| child: "lineage s tn i j \<Longrightarrow> mget (fr_runs s) k = Some c \<Longrightarrow> run_TenantID c = tn \<Longrightarrow> run_RetryOf c = j \<or> run_ParentRunID c = j \<Longrightarrow>
    lineage s tn i (run_RunID c)"

definition touchesOnly :: "reqEnv \<Rightarrow> string \<Rightarrow> string \<Rightarrow> fileRunStore \<Rightarrow> fileRunStore \<Rightarrow> bool" where
  "touchesOnly env tn i s0 s \<longleftrightarrow> canceledFrom env s0 s \<and> (\<forall>k. mget (fr_runs s) k \<noteq> mget (fr_runs s0) k \<longrightarrow> k = storageKey tn i \<or>
     (\<exists>c. mget (fr_runs s0) k = Some c \<and> run_TenantID c = tn \<and> lineage s0 tn i (run_RunID c)))"

definition familyIn :: "string \<Rightarrow> string \<Rightarrow> fileRunStore \<Rightarrow> run list \<Rightarrow> bool" where
  "familyIn tn i s0 cs \<longleftrightarrow> (\<forall>c\<in>set cs. activeStatus (run_Status c) \<longrightarrow>
     mget (fr_runs s0) (keyOf c) = Some c \<and> run_TenantID c = tn \<and> lineage s0 tn i (run_RunID c))"

lemma familyIn_Cons: "familyIn tn i s0 (c # cs) \<longleftrightarrow> familyIn tn i s0 [c] \<and> familyIn tn i s0 cs"
  unfolding familyIn_def list.set by blast

lemma within_save:
  assumes "touchesOnly env tn i s0 s" "storeInv s0" "familyIn tn i s0 [c]" "activeStatus (run_Status c)"
  shows "touchesOnly env tn i s0 (snd (Run_Save None io (cancelRun env c) s))"
proof -
  have c: "mget (fr_runs s0) (keyOf c) = Some c" "run_TenantID c = tn" "lineage s0 tn i (run_RunID c)"
    using assms(3,4) unfolding familyIn_def by (metis list.set_intros(1))+
  have cf: "canceledFrom env s0 s" using assms(1) by (simp add: touchesOnly_def)
  obtain c' where c': "mget (fr_runs s) (keyOf c) = Some c'" using cf c(1) unfolding canceledFrom_def by metis
  have get: "mget (fr_runs (snd (Run_Save None io (cancelRun env c) s))) k = (if k = keyOf c then Some (cancelRun env c) else mget (fr_runs s) k)" for k
    using Run_Save_present[of s "cancelRun env c" c' io k] cf c' stored_key(2)[OF assms(2) c(1)] by (simp add: canceledFrom_def)
  show ?thesis
    using cancel_save(1)[OF cf c(1) active_not_terminal[OF assms(4)] assms(2)] assms(1) c
    unfolding touchesOnly_def get by auto
qed

lemma children_family:
  assumes "canceledFrom env s0 s" "lineage s0 tn i p" "ListChildRuns ctx tn p s = Inr cs"
  shows "familyIn tn i s0 cs"
  unfolding familyIn_def
proof (intro ballI impI)
  fix c
  assume c: "c \<in> set cs" "activeStatus (run_Status c)"
  have inv: "storeInv s" using assms(1) by (simp add: canceledFrom_def)
  have st: "mget (fr_runs s) (keyOf c) = Some c" using ListChildRuns_live[OF inv assms(3)] c by (simp add: liveIn_def)
  have ch: "run_TenantID c = tn" "run_RetryOf c = p \<or> run_ParentRunID c = p"
    using assms(3) c(1) by (auto simp: ListChildRuns_def split: if_splits option.splits)
  have "mget (fr_runs s0) (keyOf c) = Some c"
    using assms(1) st c(2) unfolding canceledFrom_def by (metis cancelRun_sel(1) active_not_terminal option.inject terminalStatus_def)
  then show "mget (fr_runs s0) (keyOf c) = Some c \<and> run_TenantID c = tn \<and> lineage s0 tn i (run_RunID c)"
    using ch lineage.child[OF assms(2)] by blast
qed

lemma cascade_within:
  "re_ctx env = None \<Longrightarrow> storeInv s0 \<Longrightarrow> touchesOnly env tn i s0 (sv_runs s) \<Longrightarrow> lineage s0 tn i p \<Longrightarrow>
     touchesOnly env tn i s0 (sv_runs (cascadeCancelChildren n env tn p s))"
  "re_ctx env = None \<Longrightarrow> storeInv s0 \<Longrightarrow> touchesOnly env tn i s0 (sv_runs s') \<Longrightarrow> familyIn tn i s0 cs \<Longrightarrow>
     touchesOnly env tn i s0 (sv_runs (cancelChildren n env tn cs s'))"
proof (induction n env tn p s and n env tn cs s' rule: cascadeCancelChildren_cancelChildren.induct)
  case (2 n env tn p s)
  show ?case
  proof (cases "ListChildRuns (re_ctx env) tn p (sv_runs s)")
    case (Inl e)
    then show ?thesis using 2 by simp
  next
    case (Inr cs)
    have "canceledFrom env s0 (sv_runs s)" using 2(4) by (simp add: touchesOnly_def)
    from children_family[OF this 2(5) Inr] 2(1)[OF Inr 2(2,3,4)] Inr show ?thesis by simp
  qed
next
  case (4 n env tn c cs s)
  have fam: "familyIn tn i s0 [c]" "familyIn tn i s0 cs" using 4(8) familyIn_Cons by blast+
  show ?case
  proof (cases "activeStatus (run_Status c)")
    case False
    then show ?thesis using 4(1)[OF False 4(5,6,7) fam(2)] by simp
  next
    case True
    define s1 where "s1 = Exec_Cancel (run_RunID c) s"
    obtain err runs' where sv: "Run_Save (re_ctx env) (re_io env) (cancelRun env c) (sv_runs s1) = (err, runs')"
      by (cases "Run_Save (re_ctx env) (re_io env) (cancelRun env c) (sv_runs s1)")
    define s2 where "s2 = s1\<lparr>sv_runs := runs'\<rparr>"
    have act: "\<not> \<not> activeStatus (run_Status c)" using True by simp
    have "runs' = snd (Run_Save None (re_io env) (cancelRun env c) (sv_runs s))" using sv 4(5) by (simp add: s1_def)
    then have w2: "touchesOnly env tn i s0 (sv_runs s2)" using within_save[OF 4(7,6) fam(1) True] by (simp add: s2_def)
    show ?thesis
    proof (cases "err = None")
      case n: True
      then have e: "\<not> err \<noteq> None" by simp
      have "lineage s0 tn i (run_RunID c)" using fam(1) True by (simp add: familyIn_def)
      then have "touchesOnly env tn i s0 (sv_runs (cascadeCancelChildren n env tn (run_RunID c) (decConcurrent tn s2)))"
        using 4(3)[OF act s1_def sv[symmetric] refl s2_def e 4(5,6)] w2 by simp
      from 4(4)[OF act s1_def sv[symmetric] refl s2_def e 4(5,6) this fam(2)] show ?thesis
        using True sv n by (simp add: s1_def s2_def Let_def)
    next
      case False
      from 4(2)[OF act s1_def sv[symmetric] refl s2_def False 4(5,6) w2 fam(2)] show ?thesis
        using True sv False by (simp add: s1_def s2_def Let_def)
    qed
  qed
qed simp_all

lemma canceled_child:
  assumes "storeInv s0" "re_ctx env = None" "storeInv (sv_runs s2)" "canceledFrom env s0 (sv_runs s2)" "tn \<noteq> []" "i \<noteq> []"
    and "ListChildRuns None tn i s0 = Inr cs" "c \<in> set cs" "activeStatus (run_Status c)"
  shows "mget (fr_runs (sv_runs (cascadeCancelChildren (maxCancelDepth getenv) env tn i s2))) (keyOf c) = Some (cancelRun env c)"
proof -
  have c0: "mget (fr_runs s0) (keyOf c) = Some c" using ListChildRuns_live[OF assms(1,7)] assms(8,9) by (simp add: liveIn_def)
  show ?thesis
  proof (cases "mget (fr_runs (sv_runs s2)) (keyOf c) = Some c")
    case True
    then have "c \<in> set (map snd (fr_runs (sv_runs s2)))" using mget_in_set by force
    moreover have "run_TenantID c = tn \<and> (run_RetryOf c = i \<or> run_ParentRunID c = i)"
      using assms(5-8) by (auto simp: ListChildRuns_def)
    ultimately obtain cs2 where "ListChildRuns None tn i (sv_runs s2) = Inr cs2" "c \<in> set cs2"
      using assms(5,6) by (auto simp: ListChildRuns_def)
    then show ?thesis using cascade_children[OF assms(2,3) maxCancelDepth_pos[of getenv], of tn i cs2] assms(9) by (simp add: allCanceled_def)
  next
    case False
    then have "mget (fr_runs (sv_runs s2)) (keyOf c) = Some (cancelRun env c)" using assms(4) c0 unfolding canceledFrom_def by (metis option.inject)
    then show ?thesis by (rule canceled_stays[OF cascade_canceledFrom(1)[OF assms(2,3)]])
  qed
qed

subsection \<open>Properties\<close>


text \<open>The slot of a run is not given back when a worker ends it.\<close>

lemma slots_kept_by_worker: "slots (worker cfg (pii :: detection piiOps) codec ctx stepEnvs s) t = slots s t"
  using slots_limiter[OF worker_limiter] by metis

definition sampleServer :: server where
  "sampleServer = \<lparr>sv_runs = emptyRunStore, sv_agents = \<lparr>as_dir = [], as_agents = [], as_files = []\<rparr>,
     sv_limiter = \<lparr>lim_backend = NewMemoryBackend, lim_qps = 5, lim_maxConcurrent = 1\<rparr>, sv_tokenBudget = None, sv_memory = [], sv_queue = [],
     sv_cancels = [], sv_canceled = [], sv_audit = []\<rparr>"

definition sampleReq :: runCreateRequest where
  "sampleReq = \<lparr>rcr_Input = \<lparr>ri_Type = ''text'', ri_Text = ''hi''\<rparr>,
     rcr_RunOptions = \<lparr>ro_Priority = [], ro_TimeoutMs = 0, ro_MaxSteps = 0, ro_StreamEvents = False\<rparr>, rcr_IdempotencyKey = ''k1''\<rparr>"

definition sampleReqEnv :: reqEnv where
  "sampleReqEnv = \<lparr>re_clock = 5, re_now = ''now'', re_newID = ''r1'', re_ctx = None, re_io = None, re_principal = ''p'', re_requestID = ''q''\<rparr>"

lemma sampleServer_ok: "slotsOk sampleServer" "storeInv (sv_runs sampleServer)" "slots sampleServer t = 0"
  by (simp_all add: slotsOk_def slots_def sampleServer_def NewMemoryBackend_def emptyRunStore_inv)

lemma sample_create: "fst (handleRunCreate sampleReqEnv ''t'' ''a'' (Inr sampleReq) sampleServer) = ROk 201 (newRun sampleReqEnv ''t'' ''a'' sampleReq)"
proof -
  have q: "Limiter_AllowQPS AllowQPS 5 ''t'' (sv_limiter sampleServer) =
      (True, (sv_limiter sampleServer)\<lparr>lim_backend := snd (AllowQPS 5 ''t'' 5 NewMemoryBackend)\<rparr>)"
    by (simp add: Limiter_AllowQPS_def sampleServer_def AllowQPS_def NewMemoryBackend_def limiterSweepEvery_def refillBucket_def elapsedSeconds_def Let_def)
  have z: "zget 0 (mb_concurrent (snd (AllowQPS 5 ''t'' 5 NewMemoryBackend))) ''t'' = 0"
    using AllowQPS_counts(1)[of NewMemoryBackend 5 "''t''" 5 "''t''"] by (simp add: NewMemoryBackend_def)
  have c: "\<exists>s1. checkQuota sampleReqEnv ''t'' sampleServer = (None, s1)"
  proof -
    have clk: "re_clock sampleReqEnv = 5" by (simp add: sampleReqEnv_def)
    have lim: "lim_maxConcurrent (sv_limiter sampleServer) = 1" "sv_tokenBudget sampleServer = None" by (simp_all add: sampleServer_def)
    show ?thesis unfolding checkQuota_def clk q Let_def
      using z by (simp add: Limiter_TryIncConcurrent_def TryIncConcurrent_def lim Let_def)
  qed
  then obtain s1 where s1: "checkQuota sampleReqEnv ''t'' sampleServer = (None, s1)" by blast
  have runs: "sv_runs s1 = emptyRunStore"
    using checkQuota_spec(2)[OF sampleServer_ok(1) s1] by (simp add: sameRest_def sampleServer_def)
  have g: "GetByIdempotencyKey None ''t'' ''k1'' emptyRunStore = Inr None" by (simp add: GetByIdempotencyKey_def emptyRunStore_def)
  have cr: "fst (Run_Create None None (newRun sampleReqEnv ''t'' ''a'' sampleReq) emptyRunStore) = None"
    by (simp add: Run_Create_def validateRun_def newRun_def emptyRunStore_def sampleReqEnv_def persistRuns_def)
  have req: "rcr_IdempotencyKey sampleReq = ''k1''" "re_ctx sampleReqEnv = None" "re_io sampleReqEnv = None"
    by (simp_all add: sampleReq_def sampleReqEnv_def)
  show ?thesis
    using cr by (auto simp: handleRunCreate_def s1 runs req g Let_def split: prod.split option.split)
qed


text \<open>C11. Creation is idempotent: a second create request of the tenant with the idempotency key of a run just created
  is answered with that run and status 200, or with 429 by the quota; in both cases it stores nothing, queues no job and
  keeps no slot.\<close>
theorem create_idempotent:
  assumes "slotsOk s" "storeInv (sv_runs s)" "re_ctx env = None" "re_ctx env2 = None"
    and "rcr_IdempotencyKey req \<noteq> []" "rcr_IdempotencyKey req2 = rcr_IdempotencyKey req"
    and "handleRunCreate env t ag (Inr req) s = (ROk 201 r, s1)" "handleRunCreate env2 t ag2 (Inr req2) s1 = (rsp, s2)"
  shows "sv_runs s2 = sv_runs s1 \<and> sv_queue s2 = sv_queue s1 \<and> slots s2 = slots s1 \<and>
    (rsp = ROk 200 r \<or> (\<exists>e. rsp = RErr e \<and> he_status e = 429))"
proof -
  from handleRunCreate_ok[OF assms(7,1)] obtain runs' where c: "r = newRun env t ag req"
    "Run_Create None (re_io env) r (sv_runs s) = (None, runs')" "sv_runs s1 = runs'"
    "\<forall>x. GetByIdempotencyKey None t (rcr_IdempotencyKey req) (sv_runs s) \<noteq> Inr (Some x)"
    using assms(3,5) by metis
  have v: "validateRun r" using c(2) by (auto simp: Run_Create_def split: if_splits)
  have sel: "run_TenantID r = t" "run_IdempotencyKey r = rcr_IdempotencyKey req" using c(1) by (simp_all add: newRun_def emptyRun_def)
  have "GetByIdempotencyKey None (run_TenantID r) (rcr_IdempotencyKey req) (sv_runs s) = Inr None"
    using c(4) sel by (cases "find (\<lambda>x. run_TenantID x = t \<and> run_IdempotencyKey x = rcr_IdempotencyKey req) (map snd (fr_runs (sv_runs s)))")
      (auto simp: GetByIdempotencyKey_def split: if_splits)
  from create_then_lookup[OF assms(2) v sel(2) assms(5) this c(2)] have look: "GetByIdempotencyKey None t (rcr_IdempotencyKey req) (sv_runs s1) = Inr (Some r)"
    using c(3) sel(1) by simp
  have ok1: "slotsOk s1" using handleRunCreate_admits[OF assms(1,7)] by (simp add: admits_def)
  have not201: "\<forall>x. rsp \<noteq> ROk 201 x" and runs: "sv_runs s2 = sv_runs s1" and res: "rsp = ROk 200 r \<or> (\<exists>e. rsp = RErr e \<and> he_status e = 429)"
  proof -
    obtain qr s3 where q: "checkQuota env2 t s1 = (qr, s3)" by (cases "checkQuota env2 t s1")
    have s3: "sv_runs s3 = sv_runs s1" using checkQuota_spec(2)[OF ok1 q] by (simp add: sameRest_def)
    have "(rsp = ROk 200 r \<or> (\<exists>e. rsp = RErr e \<and> he_status e = 429)) \<and> sv_runs s2 = sv_runs s1 \<and> (\<forall>x. rsp \<noteq> ROk 201 x)"
    proof (cases qr)
      case None
      then show ?thesis using assms(4-6,8) q s3 look by (auto simp: handleRunCreate_def)
    next
      case (Some er)
      obtain e rsn where "er = (e, rsn)" by (cases er)
      with Some checkQuota_spec(5)[OF ok1 q] assms(8) q s3 show ?thesis by (auto simp: handleRunCreate_def)
    qed
    then show "\<forall>x. rsp \<noteq> ROk 201 x" "sv_runs s2 = sv_runs s1" "rsp = ROk 200 r \<or> (\<exists>e. rsp = RErr e \<and> he_status e = 429)" by blast+
  qed
  from handleRunCreate_cases[OF ok1 assms(8)] not201 have "sv_queue s2 = sv_queue s1 \<and> slots s2 = slots s1" by blast
  with runs res show ?thesis by blast
qed

theorem create_idempotent_witness:
  "\<exists>s1. sv_queue (snd (handleRunCreate sampleReqEnv ''t'' ''b'' (Inr sampleReq) s1)) = sv_queue s1 \<and> sv_queue s1 \<noteq> []"
proof -
  let ?s1 = "snd (handleRunCreate sampleReqEnv ''t'' ''a'' (Inr sampleReq) sampleServer)"
  have c: "handleRunCreate sampleReqEnv ''t'' ''a'' (Inr sampleReq) sampleServer = (ROk 201 (newRun sampleReqEnv ''t'' ''a'' sampleReq), ?s1)"
    using sample_create by (metis prod.collapse)
  have "rcr_IdempotencyKey sampleReq \<noteq> []" "re_ctx sampleReqEnv = None" by (simp_all add: sampleReq_def sampleReqEnv_def)
  with create_idempotent[OF sampleServer_ok(1,2) _ _ _ refl c, of sampleReqEnv "''b''"
      "fst (handleRunCreate sampleReqEnv ''t'' ''b'' (Inr sampleReq) ?s1)" "snd (handleRunCreate sampleReqEnv ''t'' ''b'' (Inr sampleReq) ?s1)"]
  have "sv_queue (snd (handleRunCreate sampleReqEnv ''t'' ''b'' (Inr sampleReq) ?s1)) = sv_queue ?s1" by simp
  moreover have "sv_queue ?s1 \<noteq> []" using handleRunCreate_cases[OF sampleServer_ok(1) c] by auto
  ultimately show ?thesis by blast
qed

text \<open>C3. Cancellation cascades and touches nothing else: when handleCancel answers 200 with run r, the run was stored, not in
  a terminal state, r is its canceled version and is what the store now holds for the identifiers of the request, with or
  without children; every child of the run that was queued or running is canceled too; and every stored run is unchanged, or
  was not in a terminal state, is now its canceled version, and is the run of the request or one of its tenant that was
  started or retried from it, directly or not. This holds for cyclic parent links and for write errors on the children.\<close>
theorem handleCancel_cascade:
  assumes "storeInv (sv_runs s)" "handleCancel getenv env ''POST'' tn i s = (ROk 200 r, s')"
  shows "(\<exists>r0. runView (sv_runs s) tn i = Some r0 \<and> \<not> terminalStatus (run_Status r0) \<and> r = cancelRun env r0) \<and>
    runView (sv_runs s') tn i = Some r \<and> run_Status r = ''canceled'' \<and>
    (\<forall>cs. ListChildRuns None tn i (sv_runs s) = Inr cs \<longrightarrow> (\<forall>c\<in>set cs. activeStatus (run_Status c) \<longrightarrow>
       runView (sv_runs s') (run_TenantID c) (run_RunID c) = Some (cancelRun env c))) \<and>
    (\<forall>t j. runView (sv_runs s') t j = runView (sv_runs s) t j \<or>
       (\<exists>x. runView (sv_runs s) t j = Some x \<and> \<not> terminalStatus (run_Status x) \<and> runView (sv_runs s') t j = Some (cancelRun env x) \<and>
          (storageKey t j = storageKey tn i \<or> run_TenantID x = tn \<and> lineage (sv_runs s) tn i (run_RunID x))))"
proof -
  from assms(2) obtain r0 runs1 where g: "Run_Get (re_ctx env) tn i (sv_runs s) = (Inr (Some r0), runs1)" and nt: "\<not> terminalStatus (run_Status r0)"
    by (auto simp: handleCancel_def Let_def split: prod.splits sum.splits option.splits if_splits)
  note G = Run_Get_Some[OF g assms(1)]
  define s2 where "s2 = Exec_Cancel (run_RunID r0) (s\<lparr>sv_runs := runs1\<rparr>)"
  obtain err runs2 where sv: "Run_Save None (re_io env) (cancelRun env r0) runs1 = (err, runs2)" by (cases "Run_Save None (re_io env) (cancelRun env r0) runs1")
  define s3 where "s3 = cascadeCancelChildren (maxCancelDepth getenv) env tn i (s2\<lparr>sv_runs := runs2\<rparr>)"
  have h: "r = cancelRun env r0" "sv_runs s' = sv_runs s3"
    using assms(2) g nt sv G(1) by (auto simp: handleCancel_def Let_def s2_def s3_def split: option.splits)
  have key: "storageKey tn i = keyOf r0" using stored_key(1)[OF assms(1) G(4)] .
  have base: "canceledFrom env (sv_runs s) runs1" using G(5,6) by (simp add: canceledFrom_def)
  have runs2: "runs2 = snd (Run_Save None (re_io env) (cancelRun env r0) runs1)" using sv by simp
  note S = cancel_save[OF base G(4)[unfolded key] nt assms(1), of "re_io env", folded runs2]
  have inv2: "storeInv (sv_runs (s2\<lparr>sv_runs := runs2\<rparr>))" using S(1) by (simp add: canceledFrom_def)
  have cf2: "canceledFrom env (sv_runs s) (sv_runs (s2\<lparr>sv_runs := runs2\<rparr>))" using S(1) by simp
  have w2: "touchesOnly env tn i (sv_runs s) runs2"
    using S(1) Run_Save_present[OF G(6), of "cancelRun env r0" r0 "re_io env"] G(4,5) key stored_key(2)[OF assms(1) G(4)]
    by (auto simp: touchesOnly_def runs2)
  have w3: "touchesOnly env tn i (sv_runs s) (sv_runs s3)"
    using cascade_within(1)[OF G(1) assms(1), of tn i "s2\<lparr>sv_runs := runs2\<rparr>" i] w2 by (simp add: s3_def lineage.self)
  have casc: "canceledFrom env runs2 (sv_runs s3)"
    using cascade_canceledFrom(1)[OF G(1) inv2, of "maxCancelDepth getenv" tn i] by (simp add: s3_def)
  have root: "mget (fr_runs (sv_runs s3)) (keyOf r0) = Some (cancelRun env r0)" by (rule canceled_stays[OF casc S(2)])
  have kids: "mget (fr_runs (sv_runs s3)) (keyOf c) = Some (cancelRun env c)"
    if "ListChildRuns None tn i (sv_runs s) = Inr cs" "c \<in> set cs" "activeStatus (run_Status c)" for cs c
    using canceled_child[OF assms(1) G(1) inv2 cf2 G(2,3) that, of getenv] by (simp add: s3_def)
  have frame: "mget (fr_runs (sv_runs s3)) k = mget (fr_runs (sv_runs s)) k \<or>
      (\<exists>x. mget (fr_runs (sv_runs s)) k = Some x \<and> \<not> terminalStatus (run_Status x) \<and> mget (fr_runs (sv_runs s3)) k = Some (cancelRun env x) \<and>
         (k = storageKey tn i \<or> run_TenantID x = tn \<and> lineage (sv_runs s) tn i (run_RunID x)))" for k
  proof (cases "mget (fr_runs (sv_runs s3)) k = mget (fr_runs (sv_runs s)) k")
    case False
    then have reach: "k = storageKey tn i \<or> (\<exists>c. mget (fr_runs (sv_runs s)) k = Some c \<and> run_TenantID c = tn \<and> lineage (sv_runs s) tn i (run_RunID c))"
      using w3 unfolding touchesOnly_def by blast
    have "canceledFrom env (sv_runs s) (sv_runs s3)" using w3 by (simp add: touchesOnly_def)
    with False obtain x where x: "mget (fr_runs (sv_runs s)) k = Some x" "\<not> terminalStatus (run_Status x)"
      "mget (fr_runs (sv_runs s3)) k = Some (cancelRun env x)" unfolding canceledFrom_def by blast
    with reach show ?thesis by auto
  qed simp
  show ?thesis unfolding runView_def h
    by (intro conjI allI impI ballI exI[of _ r0] G(4) nt refl frame kids) (simp_all add: root key)
qed

definition treeServer :: server where
  "treeServer = sampleServer\<lparr>sv_runs := putRun ((sampleRun ''t'' ''a'' ''r2'' ''2'')\<lparr>run_ParentRunID := ''r1'', run_Status := ''queued''\<rparr>)
     (putRun ((sampleRun ''t'' ''a'' ''r1'' ''1'')\<lparr>run_Status := ''running''\<rparr>) emptyRunStore)\<rparr>"

theorem handleCancel_cascade_witness:
  "\<exists>x. runView (sv_runs (snd (handleCancel (\<lambda>_. []) sampleReqEnv ''POST'' ''t'' ''r1'' treeServer))) ''t'' ''r2'' = Some x \<and> run_Status x = ''canceled''"
proof -
  let ?p = "(sampleRun ''t'' ''a'' ''r1'' ''1'')\<lparr>run_Status := ''running''\<rparr>"
  let ?c = "(sampleRun ''t'' ''a'' ''r2'' ''2'')\<lparr>run_ParentRunID := ''r1'', run_Status := ''queued''\<rparr>"
  have v: "validateRun ?p" "validateRun ?c" by (simp_all add: validateRun_def sampleRun_def)
  have inv: "storeInv (sv_runs treeServer)" unfolding treeServer_def
    by (simp, intro putRun_inv emptyRunStore_inv v)
  have runs: "fr_runs (sv_runs treeServer) = [(''tenant/t/runs/r1'', ?p), (''tenant/t/runs/r2'', ?c)]" by code_simp
  have k: "storageKey ''t'' ''r1'' = ''tenant/t/runs/r1''" "storageKey ''t'' ''r2'' = ''tenant/t/runs/r2''" by code_simp+
  have ch: "ListChildRuns None ''t'' ''r1'' (sv_runs treeServer) = Inr [?c]" by (simp add: ListChildRuns_def runs sampleRun_def)
  have get: "\<exists>s1. Run_Get None ''t'' ''r1'' (sv_runs treeServer) = (Inr (Some ?p), s1)" by (simp add: Run_Get_def Let_def k runs mget_def)
  then obtain s1 where s1: "Run_Get None ''t'' ''r1'' (sv_runs treeServer) = (Inr (Some ?p), s1)" by blast
  have sv: "\<exists>s2. Run_Save None None (cancelRun sampleReqEnv ?p) s1 = (None, s2)" using v by (simp add: Run_Save_def persistRuns_def)
  have nt: "\<not> terminalStatus ''running''" by (simp add: terminalStatus_def)
  have e: "re_ctx sampleReqEnv = None" "re_io sampleReqEnv = None" by (simp_all add: sampleReqEnv_def)
  have "fst (handleCancel (\<lambda>_. []) sampleReqEnv ''POST'' ''t'' ''r1'' treeServer) = ROk 200 (cancelRun sampleReqEnv ?p)"
    using sv nt by (auto simp: handleCancel_def e s1 Let_def)
  then have "handleCancel (\<lambda>_. []) sampleReqEnv ''POST'' ''t'' ''r1'' treeServer =
      (ROk 200 (cancelRun sampleReqEnv ?p), snd (handleCancel (\<lambda>_. []) sampleReqEnv ''POST'' ''t'' ''r1'' treeServer))"
    by (metis prod.collapse)
  from handleCancel_cascade[OF inv this] ch show ?thesis by (fastforce simp: activeStatus_def sampleRun_def)
qed

subsection \<open>Role checks\<close>

lemma RBAC_denials:
  assumes "RBACMiddleware getenv (GetRole f1) (CountMembers f2) (SetRole f3 now) role ac store = (Inl e, store')"
  shows "he_status e = 403"
proof -
  have r: "resolveRole (GetRole f1) (CountMembers f2) (SetRole f3 now) t a st = (Inl x, st') \<Longrightarrow> he_status x = 403" for t a st x st'
    by (auto simp: resolveRole_def forbidden_def split: if_splits sum.splits storeErr.splits prod.splits option.splits)
  from assms show ?thesis
    by (auto simp: RBACMiddleware_def forbidden_def split: if_splits sum.splits prod.splits option.splits dest: r)
qed

lemma requireRole_passes:
  assumes "requireRole getenv faults now role (Some ac) (Some tbl) = (None, store')"
  obtains res tbl' where "RBACMiddleware getenv (GetRole (pf_getRole faults)) (CountMembers (pf_count faults)) (SetRole (pf_setRole faults) now) role (Some ac) (Some tbl) =
    (Inr res, Some tbl')" "store' = Some tbl'"
proof -
  obtain res st where R: "RBACMiddleware getenv (GetRole (pf_getRole faults)) (CountMembers (pf_count faults)) (SetRole (pf_setRole faults) now) role (Some ac) (Some tbl) = (res, st)"
    by (cases "RBACMiddleware getenv (GetRole (pf_getRole faults)) (CountMembers (pf_count faults)) (SetRole (pf_setRole faults) now) role (Some ac) (Some tbl)")
  have some: "\<exists>tbl'. st = Some tbl'" using R by (auto simp: RBACMiddleware_def split: if_splits sum.splits prod.splits)
  show thesis
  proof (cases res)
    case (Inl e)
    with R RBAC_denials[OF R[unfolded Inl]] assms show ?thesis by (simp add: requireRole_def)
  next
    case (Inr a)
    obtain tbl' where t: "st = Some tbl'" using some by blast
    show ?thesis
      by (rule that[of a tbl']) (use R Inr t assms in \<open>simp_all add: requireRole_def\<close>)
  qed
qed

definition openRoute :: "route \<Rightarrow> bool" where
  "openRoute rt \<longleftrightarrow> (\<exists>a. rt = RouteMemoryClear a) \<or> (\<exists>a ks. rt = RouteKV a ks)"

definition changes :: "route \<Rightarrow> bool" where
  "changes rt \<longleftrightarrow> (case rt of RouteAgentCreate \<Rightarrow> True | RouteAgentUpdate _ \<Rightarrow> True | RouteAgentDelete _ \<Rightarrow> True | RouteRollback _ \<Rightarrow> True
     | RouteRunBatch _ \<Rightarrow> True | RouteRunCreate _ \<Rightarrow> True | RouteCancel _ \<Rightarrow> True | RouteRetry _ \<Rightarrow> True | _ \<Rightarrow> False)"

lemma agentsRoute_roles:
  "agentsRoute m p = Inr (ro, rt) \<Longrightarrow> (openRoute rt \<and> ro = None) \<or> (\<not> openRoute rt \<and> ro = Some (if changes rt then ''developer'' else ''viewer''))"
  by (auto simp: agentsRoute_def Let_def openRoute_def changes_def split: if_splits list.splits)

lemma runsRoute_roles:
  "runsRoute m p = Inr (ro, rt) \<Longrightarrow> \<not> openRoute rt \<and> ro = Some (if changes rt then ''developer'' else ''viewer'')"
  by (auto simp: runsRoute_def Let_def openRoute_def changes_def split: if_splits list.splits)

text \<open>C9. Routes are guarded: when a request to the /v1/agents/ or /v1/runs/ tree reaches its handler on a server with a
  member table, the tenant was resolved and exists, and, unless the route is the memory clear or the key-value route, the
  principal is not empty and holds a role of the tenant with the permission of a developer for every route that changes
  state and of a viewer for the others.\<close>
theorem routes_guarded:
  assumes "dispatch getenv faults now tenantExists (if runs then runsRoute m p else agentsRoute m p) ac (Some tbl) = (Inr (t, rt), store')"
    and "gwf tbl"
  shows "RequireTenant getenv ac = Inr t \<and> tenantExists t \<and>
    (\<not> openRoute rt \<longrightarrow> ac_PrincipalID ac \<noteq> [] \<and> (\<exists>r tbl'. store' = Some tbl' \<and> HasPermission r (if changes rt then ''developer'' else ''viewer'') \<and>
      (ac_Role ac \<noteq> [] \<and> r = ac_Role ac \<or> ac_Role ac = [] \<and> roleView tbl' t (ac_PrincipalID ac) = Some r)))"
proof -
  let ?routed = "if runs then runsRoute m p else agentsRoute m p"
  have ten: "RequireTenant getenv ac = Inr t" "tenantExists t"
    using assms(1) by (auto simp: dispatch_def ResolveTenantHTTP_def split: sum.splits tenantErr.splits if_splits option.splits prod.splits)
  obtain ro where ro: "?routed = Inr (ro, rt)"
    using assms(1) by (auto simp: dispatch_def split: sum.splits if_splits option.splits prod.splits)
  have role: "ro = Some (if changes rt then ''developer'' else ''viewer'')" if "\<not> openRoute rt"
    using ro that agentsRoute_roles[of m p ro rt] runsRoute_roles[of m p ro rt] by (cases runs) simp_all
  have "ac_PrincipalID ac \<noteq> [] \<and> (\<exists>r tbl'. store' = Some tbl' \<and> HasPermission r (if changes rt then ''developer'' else ''viewer'') \<and>
      (ac_Role ac \<noteq> [] \<and> r = ac_Role ac \<or> ac_Role ac = [] \<and> roleView tbl' t (ac_PrincipalID ac) = Some r))" if g: "\<not> openRoute rt"
  proof -
    define rl where "rl = (if changes rt then ''developer'' else ''viewer'')"
    have "ResolveTenantHTTP getenv ac = Inr t" using ten(1) by (simp add: ResolveTenantHTTP_def)
    then have "requireRole getenv faults now rl (Some ac) (Some tbl) = (None, store')"
      using assms(1) ten(2) unfolding ro role[OF g, folded rl_def] by (simp add: dispatch_def split: prod.splits option.splits)
    then obtain res tbl' where "RBACMiddleware getenv (GetRole (pf_getRole faults)) (CountMembers (pf_count faults)) (SetRole (pf_setRole faults) now) rl (Some ac) (Some tbl) =
      (Inr res, Some tbl')" "store' = Some tbl'" by (rule requireRole_passes)
    from pgm.RBAC_sound[OF assms(2) this(1)] this(2) ten(1) show ?thesis by (auto simp: rl_def)
  qed
  with ten show ?thesis by blast
qed

theorem routes_guarded_witness:
  "HasPermission ''owner'' ''developer'' \<and>
   fst (dispatch (\<lambda>_. []) \<lparr>pf_getRole = None, pf_count = None, pf_setRole = None, pf_apiKey = None\<rparr> 5 (\<lambda>_. True)
     (if True then runsRoute ''POST'' ''/v1/runs/r1/retry'' else agentsRoute ''POST'' ''/v1/runs/r1/retry'')
     (emptyAuthContext\<lparr>ac_TenantID := ''t1'', ac_PrincipalID := ''alice''\<rparr>) (Some sampleMembers)) = Inr (''t1'', RouteRetry ''r1'')"
proof -
  let ?ac = "emptyAuthContext\<lparr>ac_TenantID := ''t1'', ac_PrincipalID := ''alice''\<rparr>"
  let ?f = "\<lparr>pf_getRole = None, pf_count = None, pf_setRole = None, pf_apiKey = None\<rparr>"
  let ?d = "dispatch (\<lambda>_. []) ?f 5 (\<lambda>_. True) (if True then runsRoute ''POST'' ''/v1/runs/r1/retry'' else agentsRoute ''POST'' ''/v1/runs/r1/retry'') ?ac (Some sampleMembers)"
  have t: "RequireTenant (\<lambda>_. []) ?ac = Inr ''t1''"
    by (simp add: RequireTenant_def emptyAuthContext_def TrimSpace_def isSpace_def)
  have rt: "runsRoute ''POST'' ''/v1/runs/r1/retry'' = Inr (Some ''developer'', RouteRetry ''r1'')" by code_simp
  have "resolveRole (GetRole None) (CountMembers None) (SetRole None 5) ''t1'' ?ac sampleMembers = (Inr ''owner'', sampleMembers)"
    by (simp add: resolveRole_def emptyAuthContext_def GetRole_def mget_def sampleMembers_def)
  moreover have "HasPermission ''owner'' ''developer''" by (simp add: HasPermission_def roleLevel_def mget_def)
  ultimately have rb: "RBACMiddleware (\<lambda>_. []) (GetRole None) (CountMembers None) (SetRole None 5) ''developer'' (Some ?ac)
      (Some sampleMembers) = (Inr (Some (?ac\<lparr>ac_Role := ''owner''\<rparr>)), Some sampleMembers)"
    by (simp add: RBACMiddleware_def t)
  then have d: "?d = (Inr (''t1'', RouteRetry ''r1''), Some sampleMembers)"
    by (simp add: dispatch_def ResolveTenantHTTP_def t rt requireRole_def)
  have "gwf sampleMembers" by (simp add: gwf_def sampleMembers_def)
  from routes_guarded[OF d this] have "\<exists>r. HasPermission r ''developer'' \<and> roleView sampleMembers ''t1'' ''alice'' = Some r"
    by (auto simp: openRoute_def changes_def emptyAuthContext_def)
  then show ?thesis using d by (auto simp: roleView_def sampleMembers_def mget_def)
qed

text \<open>The memory clear and key-value routes have no role check: any caller whose tenant resolves reaches them.\<close>

lemma memory_clear_unguarded:
  assumes "RequireTenant getenv ac = Inr t" "tenantExists t"
  shows "fst (dispatch getenv faults now tenantExists (agentsRoute ''DELETE'' ''/v1/agents/a1/memory'') ac store) = Inr (t, RouteMemoryClear ''a1'')"
proof -
  have "agentsRoute ''DELETE'' ''/v1/agents/a1/memory'' = Inr (None, RouteMemoryClear ''a1'')" by code_simp
  then show ?thesis using assms by (simp add: dispatch_def ResolveTenantHTTP_def)
qed

text \<open>With the largest page size a listing never announces a next page, however many runs the agent has.\<close>

lemma full_page_hides_rest:
  assumes "listLimit (query ''limit'') = 200" "handleRunList env query tn ag s = ROk 200 (rs, hasMore)"
  shows "\<not> hasMore"
proof -
  have "length page \<le> 200" if "ListByAgent ctx tn ag 201 cur st = Inr page" for ctx cur st page
    using that by (auto simp: ListByAgent_def clampLimit_def Let_def split: option.splits if_splits)
  moreover have "length (filter P page) \<le> length page" for P and page :: "run list" by simp
  ultimately have le: "length (filter P page) \<le> 200" "length page \<le> 200" if "ListByAgent ctx tn ag 201 cur st = Inr page" for P ctx cur st page
    using that by (meson le_trans)+
  show ?thesis
  proof (cases "ListByAgent (re_ctx env) tn ag 201 (query ''after'') (sv_runs s)")
    case (Inl e)
    then show ?thesis using assms by (simp add: handleRunList_def Let_def)
  next
    case (Inr page)
    have "length (filter (\<lambda>r. run_Status r = query ''status'') page) \<le> 200" "length page \<le> 200" by (rule le(1)[OF Inr], rule le(2)[OF Inr])
    then show ?thesis using assms Inr by (auto simp: handleRunList_def Let_def not_less split: if_splits)
  qed
qed

end
