(* ===== verification/Math_Eval.thy ===== *)
theory Math_Eval
  imports AgentOS_Prelude
begin

text \<open>
  The math_eval tool (internal/tools/math_eval.go): a recursive descent parser that evaluates while it parses.

  \<^item> The parser's position is the rest of the input; the position in an error is the length already consumed. Every method
    of mathParser is a function with a fuel argument, None standing for exhausted fuel; \<open>evalExpr\<close> starts with fuel that
    is shown to be enough for every input.
  \<^item> float64 arithmetic, package math, strconv.ParseFloat and the JSON encoding of a result are the fields of \<open>floatOps\<close>.
  \<^item> Shown: the parser always returns; it evaluates the printed form of every expression of the grammar to its value or
    its first error, with the usual precedences and left associativity.
\<close>

subsection \<open>Characters\<close>

text \<open>unicode.IsLetter and unicode.IsSpace on the rune of a single byte (Latin-1).\<close>

definition isLetterByte :: "char \<Rightarrow> bool" where
  "isLetterByte c =
     (let n = of_char c :: nat in
      (65 \<le> n \<and> n \<le> 90) \<or> (97 \<le> n \<and> n \<le> 122) \<or> n = 170 \<or> n = 181 \<or> n = 186 \<or> (192 \<le> n \<and> n \<noteq> 215 \<and> n \<noteq> 247))"

definition isSpaceByte :: "char \<Rightarrow> bool" where
  "isSpaceByte c = (let n = of_char c :: nat in (9 \<le> n \<and> n \<le> 13) \<or> n = 32 \<or> n = 133 \<or> n = 160)"

definition skipWhitespace :: "string \<Rightarrow> string" where
  "skipWhitespace s = dropWhile isSpaceByte s"

subsection \<open>Values and errors\<close>

record 'a floatOps =
  fo_add :: "'a \<Rightarrow> 'a \<Rightarrow> 'a"
  fo_sub :: "'a \<Rightarrow> 'a \<Rightarrow> 'a"
  fo_mul :: "'a \<Rightarrow> 'a \<Rightarrow> 'a"
  fo_div :: "'a \<Rightarrow> 'a \<Rightarrow> 'a"
  fo_mod :: "'a \<Rightarrow> 'a \<Rightarrow> 'a"
  fo_neg :: "'a \<Rightarrow> 'a"
  fo_isZero :: "'a \<Rightarrow> bool"
  fo_pi :: 'a
  fo_e :: 'a
  fo_fun1 :: "string \<Rightarrow> 'a \<Rightarrow> 'a"
  fo_fun2 :: "string \<Rightarrow> 'a \<Rightarrow> 'a \<Rightarrow> 'a"
  fo_parse :: "string \<Rightarrow> string + 'a"
  fo_json :: "'a \<Rightarrow> string option"

datatype mathErr =
    UnexpectedChar nat char | DivisionByZero | ModuloByZero | UnexpectedEnd | MissingParen | UnknownIdentifier string
  | WrongArgs string nat | UnknownFunction string | MissingParenInCall | ExpectedCommaOrParen | ExpectedNumber nat | ParseFloatErr string

type_synonym 'x parsed = "(mathErr + 'x \<times> string) option"

definition bindP :: "'x parsed \<Rightarrow> ('x \<Rightarrow> string \<Rightarrow> 'y parsed) \<Rightarrow> 'y parsed" where
  "bindP r f = (case r of None \<Rightarrow> None | Some (Inl e) \<Rightarrow> Some (Inl e) | Some (Inr (v, s)) \<Rightarrow> f v s)"

definition mathFuns1 :: "string list" where
  "mathFuns1 = [''sqrt'', ''abs'', ''floor'', ''ceil'', ''round'', ''log'', ''log10'']"

definition mathFuns2 :: "string list" where
  "mathFuns2 = [''pow'', ''min'', ''max'']"

definition applyFunc :: "'a floatOps \<Rightarrow> string \<Rightarrow> 'a list \<Rightarrow> mathErr + 'a" where
  "applyFunc ops name args =
     (if name \<in> set mathFuns1 then (case args of [x] \<Rightarrow> Inr (fo_fun1 ops name x) | _ \<Rightarrow> Inl (WrongArgs name 1))
      else if name \<in> set mathFuns2 then (case args of [x, y] \<Rightarrow> Inr (fo_fun2 ops name x y) | _ \<Rightarrow> Inl (WrongArgs name 2))
      else Inl (UnknownFunction name))"

definition applyAdd :: "'a floatOps \<Rightarrow> char \<Rightarrow> 'a \<Rightarrow> 'a \<Rightarrow> 'a" where
  "applyAdd ops op x y = (if op = CHR ''+'' then fo_add ops x y else fo_sub ops x y)"

definition applyMul :: "'a floatOps \<Rightarrow> char \<Rightarrow> 'a \<Rightarrow> 'a \<Rightarrow> mathErr + 'a" where
  "applyMul ops op x y =
     (if op = CHR ''*'' then Inr (fo_mul ops x y)
      else if op = CHR ''/'' then (if fo_isZero ops y then Inl DivisionByZero else Inr (fo_div ops x y))
      else (if fo_isZero ops y then Inl ModuloByZero else Inr (fo_mod ops x y)))"

subsection \<open>Numbers\<close>

definition signLen :: "string \<Rightarrow> nat" where
  "signLen s = (case s of c # _ \<Rightarrow> if c = CHR ''+'' \<or> c = CHR ''-'' then 1 else 0 | [] \<Rightarrow> 0)"

definition expLen :: "string \<Rightarrow> nat" where
  "expLen s =
     (case s of
        c # r \<Rightarrow> if c = CHR ''e'' \<or> c = CHR ''E''
                  then (let k = signLen r in 1 + k + length (takeWhile isDigit (drop k r))) else 0
      | [] \<Rightarrow> 0)"

definition fracLen :: "string \<Rightarrow> nat" where
  "fracLen s = (case s of c # r \<Rightarrow> if c = CHR ''.'' then 1 + length (takeWhile isDigit r) else 0 | [] \<Rightarrow> 0)"

definition parseNumber :: "'a floatOps \<Rightarrow> nat \<Rightarrow> string \<Rightarrow> 'a parsed" where
  "parseNumber ops inLen s0 =
     (let s = skipWhitespace s0;
          k1 = signLen s;
          k2 = k1 + length (takeWhile isDigit (drop k1 s));
          k3 = k2 + fracLen (drop k2 s);
          k4 = k3 + expLen (drop k3 s) in
      if \<not> list_ex isDigit (take k3 s) then Some (Inl (ExpectedNumber (inLen - length s)))
      else (case fo_parse ops (take k4 s) of
              Inl e \<Rightarrow> Some (Inl (ParseFloatErr e))
            | Inr v \<Rightarrow> Some (Inr (v, drop k4 s))))"

subsection \<open>The parser\<close>

text \<open>The methods of mathParser that precede parseExpr in a derivation take the parser of expressions as an argument
  (\<open>pe\<close>); \<open>parseExpr\<close> ties the knot on the nesting depth. Each loop has fuel for one iteration per byte.\<close>

type_synonym 'a parser = "string \<Rightarrow> 'a parsed"

fun argsLoop :: "nat \<Rightarrow> 'a parser \<Rightarrow> 'a list \<Rightarrow> string \<Rightarrow> 'a list parsed" where
  "argsLoop 0 pe args s = None"
| "argsLoop (Suc n) pe args s =
     bindP (pe s) (\<lambda>val s1.
       case skipWhitespace s1 of
         [] \<Rightarrow> Some (Inl MissingParenInCall)
       | c # s2 \<Rightarrow>
           if c = CHR '')'' then Some (Inr (args @ [val], s2))
           else if c \<noteq> CHR '','' then Some (Inl ExpectedCommaOrParen)
           else argsLoop n pe (args @ [val]) s2)"

definition parseArgs :: "'a parser \<Rightarrow> string \<Rightarrow> 'a list parsed" where
  "parseArgs pe s =
     (case skipWhitespace s of
        [] \<Rightarrow> argsLoop 1 pe [] []
      | c # s2 \<Rightarrow> if c = CHR '')'' then Some (Inr ([], s2)) else argsLoop (Suc (length (c # s2))) pe [] (c # s2))"

definition parseFunc :: "'a floatOps \<Rightarrow> 'a parser \<Rightarrow> string \<Rightarrow> 'a parsed" where
  "parseFunc ops pe s =
     (let name = ToLower (takeWhile (\<lambda>c. isLetterByte c \<or> isDigit c) s);
          s1 = dropWhile (\<lambda>c. isLetterByte c \<or> isDigit c) s in
      if name = ''pi'' then Some (Inr (fo_pi ops, s1))
      else if name = ''e'' then Some (Inr (fo_e ops, s1))
      else case skipWhitespace s1 of
        [] \<Rightarrow> Some (Inl (UnknownIdentifier name))
      | c # s2 \<Rightarrow>
          if c \<noteq> CHR ''('' then Some (Inl (UnknownIdentifier name))
          else bindP (parseArgs pe s2) (\<lambda>args s3.
                 case applyFunc ops name args of Inl e \<Rightarrow> Some (Inl e) | Inr v \<Rightarrow> Some (Inr (v, s3))))"

definition parsePrimary :: "'a floatOps \<Rightarrow> nat \<Rightarrow> 'a parser \<Rightarrow> string \<Rightarrow> 'a parsed" where
  "parsePrimary ops inLen pe s =
     (case skipWhitespace s of
        [] \<Rightarrow> Some (Inl UnexpectedEnd)
      | c # s2 \<Rightarrow>
          if c = CHR ''('' then
            bindP (pe s2) (\<lambda>val s3.
              case skipWhitespace s3 of
                [] \<Rightarrow> Some (Inl MissingParen)
              | d # s4 \<Rightarrow> if d \<noteq> CHR '')'' then Some (Inl MissingParen) else Some (Inr (val, s4)))
          else if isLetterByte c then parseFunc ops pe (c # s2)
          else parseNumber ops inLen (c # s2))"

definition parseUnary :: "'a floatOps \<Rightarrow> nat \<Rightarrow> 'a parser \<Rightarrow> string \<Rightarrow> 'a parsed" where
  "parseUnary ops inLen pe s =
     (case skipWhitespace s of
        [] \<Rightarrow> parsePrimary ops inLen pe []
      | c # s2 \<Rightarrow>
          if c = CHR ''-'' then bindP (parsePrimary ops inLen pe s2) (\<lambda>val s3. Some (Inr (fo_neg ops val, s3)))
          else if c = CHR ''+'' then parsePrimary ops inLen pe s2
          else parsePrimary ops inLen pe (c # s2))"

fun mulDivLoop :: "nat \<Rightarrow> 'a floatOps \<Rightarrow> 'a parser \<Rightarrow> 'a \<Rightarrow> string \<Rightarrow> 'a parsed" where
  "mulDivLoop 0 ops pu left s = None"
| "mulDivLoop (Suc n) ops pu left s =
     (case skipWhitespace s of
        [] \<Rightarrow> Some (Inr (left, []))
      | op # s2 \<Rightarrow>
          if op \<noteq> CHR ''*'' \<and> op \<noteq> CHR ''/'' \<and> op \<noteq> CHR ''%'' then Some (Inr (left, op # s2))
          else bindP (pu s2) (\<lambda>right s3.
                 case applyMul ops op left right of Inl e \<Rightarrow> Some (Inl e) | Inr v \<Rightarrow> mulDivLoop n ops pu v s3))"

definition parseMulDiv :: "'a floatOps \<Rightarrow> nat \<Rightarrow> 'a parser \<Rightarrow> string \<Rightarrow> 'a parsed" where
  "parseMulDiv ops inLen pe s =
     bindP (parseUnary ops inLen pe s) (\<lambda>left s1. mulDivLoop (Suc (length s1)) ops (parseUnary ops inLen pe) left s1)"

fun addSubLoop :: "nat \<Rightarrow> 'a floatOps \<Rightarrow> 'a parser \<Rightarrow> 'a \<Rightarrow> string \<Rightarrow> 'a parsed" where
  "addSubLoop 0 ops pm left s = None"
| "addSubLoop (Suc n) ops pm left s =
     (case skipWhitespace s of
        [] \<Rightarrow> Some (Inr (left, []))
      | op # s2 \<Rightarrow>
          if op \<noteq> CHR ''+'' \<and> op \<noteq> CHR ''-'' then Some (Inr (left, op # s2))
          else bindP (pm s2) (\<lambda>right. addSubLoop n ops pm (applyAdd ops op left right)))"

definition parseAddSub :: "'a floatOps \<Rightarrow> nat \<Rightarrow> 'a parser \<Rightarrow> string \<Rightarrow> 'a parsed" where
  "parseAddSub ops inLen pe s =
     bindP (parseMulDiv ops inLen pe s) (\<lambda>left s1. addSubLoop (Suc (length s1)) ops (parseMulDiv ops inLen pe) left s1)"

primrec parseExpr :: "nat \<Rightarrow> 'a floatOps \<Rightarrow> nat \<Rightarrow> string \<Rightarrow> 'a parsed" where
  "parseExpr 0 ops inLen s = None"
| "parseExpr (Suc depth) ops inLen s = parseAddSub ops inLen (parseExpr depth ops inLen) s"

definition evalExpr :: "'a floatOps \<Rightarrow> string \<Rightarrow> (mathErr + 'a) option" where
  "evalExpr ops expr =
     (let s = TrimSpace expr in
      case parseExpr (Suc (length s)) ops (length s) s of
        None \<Rightarrow> None
      | Some (Inl e) \<Rightarrow> Some (Inl e)
      | Some (Inr (v, s1)) \<Rightarrow>
          (case skipWhitespace s1 of
             [] \<Rightarrow> Some (Inr v)
           | c # s2 \<Rightarrow> Some (Inl (UnexpectedChar (length s - length (c # s2)) c))))"

text \<open>The tool: a decoded input, and the document returned. An error of json.Marshal is dropped by the code, which then
  returns the empty string.\<close>

datatype toolErr = InvalidInput string | ExpressionRequired | EvaluationError mathErr

definition MathEval_Execute :: "'a floatOps \<Rightarrow> string + string \<Rightarrow> (toolErr + (string \<times> string) option) option" where
  "MathEval_Execute ops input =
     (case input of
        Inl e \<Rightarrow> Some (Inl (InvalidInput e))
      | Inr expression \<Rightarrow>
          if expression = [] then Some (Inl ExpressionRequired)
          else map_option (\<lambda>r. case r of
                 Inl e \<Rightarrow> Inl (EvaluationError e)
               | Inr v \<Rightarrow> Inr (map_option (\<lambda>j. (expression, j)) (fo_json ops v))) (evalExpr ops expression))"

subsection \<open>Fuel\<close>

definition okP :: "nat \<Rightarrow> 'x parsed \<Rightarrow> bool" where
  "okP k r \<longleftrightarrow> (case r of None \<Rightarrow> False | Some (Inl e) \<Rightarrow> True | Some (Inr (v, s)) \<Rightarrow> length s \<le> k)"

lemma okP_simps [simp]: "\<not> okP k None" "okP k (Some (Inl e))" "okP k (Some (Inr (v, s))) \<longleftrightarrow> length s \<le> k"
  by (simp_all add: okP_def)

lemma okP_bind: "okP k r \<Longrightarrow> (\<And>v s. length s \<le> k \<Longrightarrow> okP k' (f v s)) \<Longrightarrow> okP k' (bindP r f)"
proof (cases r)
  case (Some x)
  assume "okP k r" "\<And>v s. length s \<le> k \<Longrightarrow> okP k' (f v s)"
  with Some show ?thesis by (cases x) (auto simp: bindP_def)
qed simp

lemma okP_mono: "okP k r \<Longrightarrow> k \<le> k' \<Longrightarrow> okP k' r"
  by (auto simp: okP_def split: option.splits sum.splits)

lemma skip_length: "length (skipWhitespace s) \<le> length s"
  by (simp add: skipWhitespace_def length_dropWhile_le)

lemma skip_Cons_length: "skipWhitespace s = c # r \<Longrightarrow> length r < length s"
  using skip_length[of s] by simp

lemma skip_Cons_le: "skipWhitespace s = c # r \<Longrightarrow> length s \<le> j \<Longrightarrow> length r \<le> j"
  using skip_Cons_length[of s c r] by simp

lemma parseNumber_ok: "okP (length s) (parseNumber ops inLen s)"
  using skip_length[of s] by (auto simp: parseNumber_def Let_def split: sum.split)

lemma parseNumber_length: "skipWhitespace s = c # r \<Longrightarrow> okP (length s) (parseNumber ops inLen (c # r))"
  by (rule okP_mono[OF parseNumber_ok]) (use skip_length[of s] in simp)

text \<open>A parser is good below \<open>k\<close> when it returns on every shorter input and never lengthens the rest.\<close>

definition goodP :: "nat \<Rightarrow> (string \<Rightarrow> 'x parsed) \<Rightarrow> bool" where
  "goodP k p \<longleftrightarrow> (\<forall>s. length s < k \<longrightarrow> okP (length s) (p s))"

lemma goodPD: "goodP k p \<Longrightarrow> length s < k \<Longrightarrow> length s \<le> j \<Longrightarrow> okP j (p s)"
  by (auto simp: goodP_def intro: okP_mono)

lemma argsLoop_ok: "goodP k pe \<Longrightarrow> length s < k \<Longrightarrow> length s < n \<Longrightarrow> okP (length s) (argsLoop n pe as s)"
proof (induction n arbitrary: as s)
  case (Suc n)
  have "okP (length s) (argsLoop n pe (as @ [v]) r)" if "length s1 \<le> length s" "skipWhitespace s1 = c # r" for v s1 c r
    using Suc.IH[of r "as @ [v]"] Suc.prems that skip_Cons_length[OF that(2)] by (auto intro: okP_mono)
  then show ?case using goodPD[OF Suc.prems(1,2) order_refl]
    by (auto split: list.split intro!: okP_bind[of "length s"] intro: skip_Cons_le)
qed simp

lemma parseArgs_ok:
  assumes "goodP k pe" "length s < k"
  shows "okP (length s) (parseArgs pe s)"
proof (cases "skipWhitespace s")
  case Nil
  have "okP 0 (argsLoop 1 pe [] [])" using argsLoop_ok[OF assms(1), of "[]" 1 "[]"] assms(2) by simp
  with Nil show ?thesis by (simp add: parseArgs_def) (auto intro: okP_mono)
next
  case (Cons c r)
  from skip_length[of s] Cons have l: "length (c # r) \<le> length s" by simp
  have "okP (length (c # r)) (argsLoop (Suc (length (c # r))) pe [] (c # r))" by (rule argsLoop_ok[OF assms(1)]) (use l assms(2) in simp_all)
  from okP_mono[OF this l] Cons l show ?thesis by (simp add: parseArgs_def)
qed

lemma parseFunc_ok:
  assumes "goodP k pe" "length s \<le> k"
  shows "okP (length s) (parseFunc ops pe s)"
proof -
  let ?s1 = "dropWhile (\<lambda>c. isLetterByte c \<or> isDigit c) s"
  have l1: "length ?s1 \<le> length s" by (rule length_dropWhile_le)
  have "okP (length s) (parseArgs pe r)" "length r \<le> length s" if "skipWhitespace ?s1 = c # r" for c r
    using skip_Cons_length[OF that] l1 assms by (auto intro!: okP_mono[OF parseArgs_ok[OF assms(1)]])
  then show ?thesis using l1
    by (auto simp: parseFunc_def Let_def split: list.split sum.split intro!: okP_bind[of "length s"])
qed

lemma parsePrimary_ok:
  assumes "goodP k pe" "length s \<le> k"
  shows "okP (length s) (parsePrimary ops inLen pe s)"
proof (cases "skipWhitespace s")
  case (Cons c r)
  have l: "length r < length s" "length (c # r) \<le> length s" using skip_Cons_length[OF Cons] by simp_all
  have "okP (length s) (pe r)" by (rule goodPD[OF assms(1)]) (use l assms(2) in simp_all)
  moreover have "okP (length s) (parseFunc ops pe (c # r))" by (rule okP_mono[OF parseFunc_ok[OF assms(1)]]) (use l assms(2) in simp_all)
  ultimately show ?thesis using Cons l parseNumber_length[OF Cons]
    by (auto simp: parsePrimary_def split: list.split intro!: okP_bind[of "length s" "pe r"] intro: skip_Cons_le)
qed (simp add: parsePrimary_def)

lemma parseUnary_ok:
  assumes "goodP k pe" "length s \<le> k"
  shows "okP (length s) (parseUnary ops inLen pe s)"
proof (cases "skipWhitespace s")
  case Nil
  show ?thesis using okP_mono[OF parsePrimary_ok[OF assms(1), of "[]" ops inLen], of "length s"] Nil by (simp add: parseUnary_def)
next
  case (Cons c r)
  have l: "length r \<le> length s" "length (c # r) \<le> length s" using skip_Cons_length[OF Cons] by simp_all
  have "okP (length s) (parsePrimary ops inLen pe t)" if "length t \<le> length s" for t
    by (rule okP_mono[OF parsePrimary_ok[OF assms(1)]]) (use that assms(2) in simp_all)
  then show ?thesis using Cons l by (auto simp: parseUnary_def intro!: okP_bind[of "length s"])
qed

lemma mulDivLoop_ok:
  assumes "\<And>s. length s \<le> k \<Longrightarrow> okP (length s) (p s)"
  shows "length s \<le> k \<Longrightarrow> length s < n \<Longrightarrow> okP (length s) (mulDivLoop n ops p l s)"
proof (induction n arbitrary: l s)
  case (Suc n)
  show ?case
  proof (cases "skipWhitespace s")
    case (Cons c r)
    have l: "length r < length s" "length (c # r) \<le> length s" using skip_Cons_length[OF Cons] by simp_all
    have "okP (length s) (mulDivLoop n ops p v t)" if "length t \<le> length r" for v t
      using Suc.IH[of t v] Suc.prems that l by (auto intro: okP_mono)
    moreover have "okP (length r) (p r)" by (rule assms) (use l Suc.prems in simp)
    ultimately show ?thesis using Cons l by (auto split: sum.split intro!: okP_bind[of "length r"])
  qed simp
qed simp

lemma addSubLoop_ok:
  assumes "\<And>s. length s \<le> k \<Longrightarrow> okP (length s) (p s)"
  shows "length s \<le> k \<Longrightarrow> length s < n \<Longrightarrow> okP (length s) (addSubLoop n ops p l s)"
proof (induction n arbitrary: l s)
  case (Suc n)
  show ?case
  proof (cases "skipWhitespace s")
    case (Cons c r)
    have l: "length r < length s" "length (c # r) \<le> length s" using skip_Cons_length[OF Cons] by simp_all
    have "okP (length s) (addSubLoop n ops p v t)" if "length t \<le> length r" for v t
      using Suc.IH[of t v] Suc.prems that l by (auto intro: okP_mono)
    moreover have "okP (length r) (p r)" by (rule assms) (use l Suc.prems in simp)
    ultimately show ?thesis using Cons l by (auto intro!: okP_bind[of "length r"])
  qed simp
qed simp

lemma parseMulDiv_ok:
  assumes "goodP k pe" "length s \<le> k"
  shows "okP (length s) (parseMulDiv ops inLen pe s)"
proof -
  have u: "okP (length t) (parseUnary ops inLen pe t)" if "length t \<le> k" for t by (rule parseUnary_ok[OF assms(1) that])
  show ?thesis unfolding parseMulDiv_def
    by (rule okP_bind[OF u[OF assms(2)]], rule okP_mono[OF mulDivLoop_ok[where k = k, OF u]]) (use assms(2) in simp_all)
qed

lemma parseAddSub_ok:
  assumes "goodP k pe" "length s \<le> k"
  shows "okP (length s) (parseAddSub ops inLen pe s)"
proof -
  have u: "okP (length t) (parseMulDiv ops inLen pe t)" if "length t \<le> k" for t by (rule parseMulDiv_ok[OF assms(1) that])
  show ?thesis unfolding parseAddSub_def
    by (rule okP_bind[OF u[OF assms(2)]], rule okP_mono[OF addSubLoop_ok[where k = k, OF u]]) (use assms(2) in simp_all)
qed

lemma parseExpr_good: "goodP n (parseExpr n ops inLen)"
proof (induction n)
  case (Suc n)
  then show ?case by (auto simp: goodP_def intro: parseAddSub_ok[OF Suc, unfolded goodP_def])
qed (simp add: goodP_def)

lemma bindP_cong: "okP k r \<Longrightarrow> (\<And>v s. length s \<le> k \<Longrightarrow> f v s = g v s) \<Longrightarrow> bindP r f = bindP r g"
  by (auto simp: bindP_def okP_def split: option.splits sum.splits)

lemma mulDivLoop_fuel:
  assumes "\<And>s. length s \<le> k \<Longrightarrow> okP (length s) (p s)"
  shows "length s \<le> k \<Longrightarrow> length s < n \<Longrightarrow> length s < m \<Longrightarrow> mulDivLoop n ops p l s = mulDivLoop m ops p l s"
proof (induction n arbitrary: l s m)
  case (Suc n)
  obtain m' where m: "m = Suc m'" using Suc.prems by (cases m) auto
  show ?case
  proof (cases "skipWhitespace s")
    case (Cons c r)
    have l: "length r < length s" using skip_Cons_length[OF Cons] by simp
    have "mulDivLoop n ops p v t = mulDivLoop m' ops p v t" if "length t \<le> length r" for v t
      using Suc.prems m that l by (intro Suc.IH) simp_all
    moreover have "okP (length r) (p r)" by (rule assms) (use l Suc.prems in simp)
    ultimately show ?thesis using Cons m by (auto split: sum.split intro!: bindP_cong)
  qed (simp add: m)
qed simp

lemma addSubLoop_fuel:
  assumes "\<And>s. length s \<le> k \<Longrightarrow> okP (length s) (p s)"
  shows "length s \<le> k \<Longrightarrow> length s < n \<Longrightarrow> length s < m \<Longrightarrow> addSubLoop n ops p l s = addSubLoop m ops p l s"
proof (induction n arbitrary: l s m)
  case (Suc n)
  obtain m' where m: "m = Suc m'" using Suc.prems by (cases m) auto
  show ?case
  proof (cases "skipWhitespace s")
    case (Cons c r)
    have l: "length r < length s" using skip_Cons_length[OF Cons] by simp
    have "addSubLoop n ops p v t = addSubLoop m' ops p v t" if "length t \<le> length r" for v t
      using Suc.prems m that l by (intro Suc.IH) simp_all
    moreover have "okP (length r) (p r)" by (rule assms) (use l Suc.prems in simp)
    ultimately show ?thesis using Cons m by (auto intro!: bindP_cong)
  qed (simp add: m)
qed simp

subsection \<open>The grammar\<close>

datatype mexpr = ETerm mterm | EAdd mexpr bool mterm
  and mterm = TUnary munary | TMul mterm char munary
  and munary = UPrim mprim | UNeg mprim | UPos mprim
  and mprim = PNum string string | PPi | PEuler | PParen mexpr | PCall1 string mexpr | PCall2 string mexpr mexpr

primrec printE :: "mexpr \<Rightarrow> string" and printT :: "mterm \<Rightarrow> string" and printU :: "munary \<Rightarrow> string" and printP :: "mprim \<Rightarrow> string" where
  "printE (ETerm t) = printT t"
| "printE (EAdd e isAdd t) = printE e @ (if isAdd then CHR ''+'' else CHR ''-'') # printT t"
| "printT (TUnary u) = printU u"
| "printT (TMul t op u) = printT t @ op # printU u"
| "printU (UPrim p) = printP p"
| "printU (UNeg p) = CHR ''-'' # printP p"
| "printU (UPos p) = CHR ''+'' # printP p"
| "printP (PNum ds fs) = ds @ (if fs = [] then [] else CHR ''.'' # fs)"
| "printP PPi = ''pi''"
| "printP PEuler = ''e''"
| "printP (PParen e) = CHR ''('' # printE e @ '')''"
| "printP (PCall1 name e) = name @ CHR ''('' # printE e @ '')''"
| "printP (PCall2 name e f) = name @ CHR ''('' # printE e @ CHR '','' # printE f @ '')''"

definition bindE :: "mathErr + 'x \<Rightarrow> ('x \<Rightarrow> mathErr + 'y) \<Rightarrow> mathErr + 'y" where
  "bindE r f = (case r of Inl e \<Rightarrow> Inl e | Inr v \<Rightarrow> f v)"

definition numVal :: "'a floatOps \<Rightarrow> string \<Rightarrow> mathErr + 'a" where
  "numVal ops w = (case fo_parse ops w of Inl e \<Rightarrow> Inl (ParseFloatErr e) | Inr v \<Rightarrow> Inr v)"

text \<open>The value of an expression, or the first error met from left to right.\<close>

primrec valE :: "'a floatOps \<Rightarrow> mexpr \<Rightarrow> mathErr + 'a" and valT :: "'a floatOps \<Rightarrow> mterm \<Rightarrow> mathErr + 'a"
  and valU :: "'a floatOps \<Rightarrow> munary \<Rightarrow> mathErr + 'a" and valP :: "'a floatOps \<Rightarrow> mprim \<Rightarrow> mathErr + 'a" where
  "valE ops (ETerm t) = valT ops t"
| "valE ops (EAdd e isAdd t) = bindE (valE ops e) (\<lambda>x. bindE (valT ops t) (\<lambda>y. Inr (if isAdd then fo_add ops x y else fo_sub ops x y)))"
| "valT ops (TUnary u) = valU ops u"
| "valT ops (TMul t op u) = bindE (valT ops t) (\<lambda>x. bindE (valU ops u) (\<lambda>y. applyMul ops op x y))"
| "valU ops (UPrim p) = valP ops p"
| "valU ops (UNeg p) = bindE (valP ops p) (\<lambda>x. Inr (fo_neg ops x))"
| "valU ops (UPos p) = valP ops p"
| "valP ops (PNum ds fs) = numVal ops (ds @ (if fs = [] then [] else CHR ''.'' # fs))"
| "valP ops PPi = Inr (fo_pi ops)"
| "valP ops PEuler = Inr (fo_e ops)"
| "valP ops (PParen e) = valE ops e"
| "valP ops (PCall1 name e) = bindE (valE ops e) (\<lambda>x. applyFunc ops name [x])"
| "valP ops (PCall2 name e f) = bindE (valE ops e) (\<lambda>x. bindE (valE ops f) (\<lambda>y. applyFunc ops name [x, y]))"

primrec wfE :: "mexpr \<Rightarrow> bool" and wfT :: "mterm \<Rightarrow> bool" and wfU :: "munary \<Rightarrow> bool" and wfP :: "mprim \<Rightarrow> bool" where
  "wfE (ETerm t) = wfT t"
| "wfE (EAdd e isAdd t) = (wfE e \<and> wfT t)"
| "wfT (TUnary u) = wfU u"
| "wfT (TMul t op u) = (wfT t \<and> op \<in> set ''*/%'' \<and> wfU u)"
| "wfU (UPrim p) = wfP p"
| "wfU (UNeg p) = wfP p"
| "wfU (UPos p) = wfP p"
| "wfP (PNum ds fs) = (ds \<noteq> [] \<and> list_all isDigit ds \<and> list_all isDigit fs)"
| "wfP PPi = True"
| "wfP PEuler = True"
| "wfP (PParen e) = wfE e"
| "wfP (PCall1 name e) = (name \<in> set (mathFuns1 @ mathFuns2) \<and> wfE e)"
| "wfP (PCall2 name e f) = (name \<in> set (mathFuns1 @ mathFuns2) \<and> wfE e \<and> wfE f)"

text \<open>What may follow: \<open>endP\<close> after a primary, \<open>endT\<close> after a term.\<close>

definition endP :: "string \<Rightarrow> bool" where
  "endP s \<longleftrightarrow> s = [] \<or> hd s \<in> set ''+-*/%),''"

definition endT :: "string \<Rightarrow> bool" where
  "endT s \<longleftrightarrow> s = [] \<or> hd s \<in> set ''+-),''"

definition thenP :: "mathErr + 'x \<Rightarrow> ('x \<Rightarrow> 'y parsed) \<Rightarrow> 'y parsed" where
  "thenP r f = (case r of Inl e \<Rightarrow> Some (Inl e) | Inr v \<Rightarrow> f v)"

lemma thenP_simps [simp]: "thenP (Inl e) f = Some (Inl e)" "thenP (Inr v) f = f v"
  by (simp_all add: thenP_def)

lemma bindP_simps [simp]: "bindP (Some (Inl e)) f = Some (Inl e)" "bindP (Some (Inr (v, s))) f = f v s"
  by (simp_all add: bindP_def)

lemma bindP_thenP [simp]: "bindP (thenP r g) f = thenP r (\<lambda>v. bindP (g v) f)"
  by (cases r) simp_all

lemma thenP_bindE [simp]: "thenP (bindE r g) f = thenP r (\<lambda>v. thenP (g v) f)"
  by (cases r) (simp_all add: bindE_def)

lemma skip_id: "\<not> isSpaceByte c \<Longrightarrow> skipWhitespace (c # s) = c # s" "skipWhitespace [] = []"
  by (simp_all add: skipWhitespace_def)

lemma isDigit_props: "isDigit c \<Longrightarrow> \<not> isSpaceByte c \<and> \<not> isLetterByte c \<and> c \<notin> set ''+-().,eE''"
  by (auto simp: isDigit_def isSpaceByte_def isLetterByte_def Let_def)

lemma isLetter_props: "isLetterByte c \<Longrightarrow> \<not> isSpaceByte c \<and> c \<notin> set ''+-()''"
  by (auto simp: isSpaceByte_def isLetterByte_def Let_def)

lemma op_props:
  assumes "c \<in> set ''+-*/%(),''"
  shows "\<not> isSpaceByte c" "\<not> isDigit c" "\<not> isLetterByte c" "c \<noteq> CHR ''.''" "c \<noteq> CHR ''e''" "c \<noteq> CHR ''E''"
  using assms by (auto simp: isSpaceByte_def isLetterByte_def isDigit_def Let_def)

definition funNameOk :: "string \<Rightarrow> bool" where
  "funNameOk name \<longleftrightarrow> (case name of c # r \<Rightarrow> isLetterByte c | [] \<Rightarrow> False) \<and> list_all (\<lambda>c. isLetterByte c \<or> isDigit c) name \<and>
     ToLower name = name \<and> name \<noteq> ''pi'' \<and> name \<noteq> ''e''"

lemma funName:
  assumes "name \<in> set (mathFuns1 @ mathFuns2)"
  shows "\<exists>c r. name = c # r \<and> isLetterByte c" "list_all (\<lambda>c. isLetterByte c \<or> isDigit c) name" "ToLower name = name" "name \<noteq> ''pi''" "name \<noteq> ''e''"
proof -
  have "list_all funNameOk (mathFuns1 @ mathFuns2)" by code_simp
  then have "funNameOk name" using assms by (simp only: list_all_iff)
  then show "\<exists>c r. name = c # r \<and> isLetterByte c" "list_all (\<lambda>c. isLetterByte c \<or> isDigit c) name" "ToLower name = name" "name \<noteq> ''pi''" "name \<noteq> ''e''"
    unfolding funNameOk_def by (cases name; simp)+
qed

lemma printP_hd: "wfP p \<Longrightarrow> \<exists>c r. printP p = c # r \<and> \<not> isSpaceByte c \<and> c \<notin> set ''+-)''"
proof (cases p)
  case (PNum ds fs)
  assume "wfP p"
  with PNum obtain c r where "ds = c # r" "isDigit c" by (cases ds) auto
  with PNum isDigit_props[of c] show ?thesis by auto
next
  case (PCall1 name e)
  assume "wfP p"
  with PCall1 funName(1)[of name] isLetter_props show ?thesis by auto
next
  case (PCall2 name e f)
  assume "wfP p"
  with PCall2 funName(1)[of name] isLetter_props show ?thesis by auto
qed (simp_all add: isSpaceByte_def)

lemma printU_hd: "wfU u \<Longrightarrow> \<exists>c r. printU u = c # r \<and> \<not> isSpaceByte c \<and> c \<noteq> CHR '')''"
  using printP_hd by (cases u) (fastforce simp: isSpaceByte_def)+

lemma print_hd:
  "wfE e \<Longrightarrow> \<exists>c r. printE e = c # r \<and> \<not> isSpaceByte c \<and> c \<noteq> CHR '')''"
  "wfT t \<Longrightarrow> \<exists>c r. printT t = c # r \<and> \<not> isSpaceByte c \<and> c \<noteq> CHR '')''"
  "wfU u \<Longrightarrow> True" "wfP p \<Longrightarrow> True"
proof (induction e and t and u and p)
  case (EAdd e b t)
  then obtain c r where "printE e = c # r \<and> \<not> isSpaceByte c \<and> c \<noteq> CHR '')''" by auto
  then show ?case by auto
next
  case (TMul t op u)
  then obtain c r where "printT t = c # r \<and> \<not> isSpaceByte c \<and> c \<noteq> CHR '')''" by auto
  then show ?case by auto
next
  case (TUnary u)
  then show ?case using printU_hd[of u] by simp
qed simp_all

lemma endP_cases:
  assumes "endP s"
  obtains "s = []" | c r where "s = c # r" "c \<in> set ''+-*/%(),''" "c \<in> set ''+-*/%),''"
  using assms by (cases s) (auto simp: endP_def)

lemma takeWhile_end:
  assumes "list_all P xs" "endP rest" "\<And>c. c \<in> set ''+-*/%(),'' \<Longrightarrow> \<not> P c"
  shows "takeWhile P (xs @ rest) = xs" "dropWhile P (xs @ rest) = rest"
proof -
  have "takeWhile P rest = []" "dropWhile P rest = rest" using assms(2) by (cases rule: endP_cases; simp add: assms(3))+
  then show "takeWhile P (xs @ rest) = xs" "dropWhile P (xs @ rest) = rest"
    using assms(1) by (simp_all add: takeWhile_append2 dropWhile_append2 list_all_iff)
qed

lemma parseNumber_print:
  assumes "wfP (PNum ds fs)" "endP rest"
  shows "parseNumber ops inLen (printP (PNum ds fs) @ rest) = thenP (valP ops (PNum ds fs)) (\<lambda>v. Some (Inr (v, rest)))"
proof -
  let ?w = "printP (PNum ds fs)"
  from assms(1) obtain d ds' where ds: "ds = d # ds'" "isDigit d" "list_all isDigit ds" "list_all isDigit fs" by (cases ds) auto
  note nd = op_props(2)
  have skip: "skipWhitespace (?w @ rest) = ?w @ rest" using ds isDigit_props[of d] by (simp add: skip_id)
  have sign: "signLen (?w @ rest) = 0" using ds isDigit_props[of d] by (auto simp: signLen_def)
  have int: "takeWhile isDigit (?w @ rest) = ds"
  proof (cases "fs = []")
    case True
    then show ?thesis using takeWhile_end(1)[OF ds(3) assms(2) nd] by simp
  next
    case False
    have "\<not> isDigit CHR ''.''" by (simp add: isDigit_def)
    then show ?thesis using False ds(3) by (simp add: takeWhile_append2 list_all_iff)
  qed
  have frac: "fracLen (drop (length ds) (?w @ rest)) = length ?w - length ds"
  proof (cases "fs = []")
    case True
    from assms(2) show ?thesis by (cases rule: endP_cases) (use True op_props(4) in \<open>auto simp: fracLen_def\<close>)
  next
    case False
    then show ?thesis using takeWhile_end(1)[OF ds(4) assms(2) nd] by (simp add: fracLen_def)
  qed
  have exp: "expLen rest = 0" using assms(2) by (cases rule: endP_cases) (use op_props(5,6) in \<open>auto simp: expLen_def\<close>)
  have len: "length ds \<le> length ?w" by simp
  have dig: "list_ex isDigit ?w" using ds by simp
  show ?thesis
    unfolding parseNumber_def skip Let_def sign
    using int frac exp len dig by (auto simp: numVal_def list_ex_iff split: sum.split)
qed

declare addSubLoop.simps(2) [simp del] mulDivLoop.simps(2) [simp del]

lemma addSubLoop_stop: "s = [] \<or> \<not> isSpaceByte (hd s) \<and> hd s \<notin> set ''+-'' \<Longrightarrow> addSubLoop (Suc n) ops pm v s = Some (Inr (v, s))"
  by (cases s) (auto simp: skip_id addSubLoop.simps(2))

lemma mulDivLoop_stop: "endT s \<Longrightarrow> mulDivLoop (Suc n) ops pu v s = Some (Inr (v, s))"
  by (cases s) (auto simp: skip_id endT_def isSpaceByte_def mulDivLoop.simps(2))

lemma unary_skip: "wfP p \<Longrightarrow> parseUnary ops inLen pe (printP p @ rest) = parsePrimary ops inLen pe (printP p @ rest)"
  using printP_hd[of p] by (auto simp: parseUnary_def skip_id)

lemma parsePrimary_call:
  assumes "name \<in> set (mathFuns1 @ mathFuns2)"
  shows "parsePrimary ops inLen pe (name @ CHR ''('' # s) =
    bindP (parseArgs pe s) (\<lambda>args s3. thenP (applyFunc ops name args) (\<lambda>v. Some (Inr (v, s3))))"
proof -
  note F = funName[OF assms]
  from F(1) obtain c r where n: "name = c # r" "isLetterByte c" by blast
  have nl: "\<not> (isLetterByte CHR ''('' \<or> isDigit CHR ''('')" using op_props(2,3)[of "CHR ''(''"] by simp
  have tw: "takeWhile (\<lambda>c. isLetterByte c \<or> isDigit c) (name @ CHR ''('' # s) = name"
    "dropWhile (\<lambda>c. isLetterByte c \<or> isDigit c) (name @ CHR ''('' # s) = CHR ''('' # s"
    using F(2) nl by (simp_all add: takeWhile_append2 dropWhile_append2 list_all_iff)
  have "parsePrimary ops inLen pe (name @ CHR ''('' # s) = parseFunc ops pe (name @ CHR ''('' # s)"
    using n isLetter_props[OF n(2)] by (auto simp: parsePrimary_def skip_id)
  then show ?thesis using F(3-5) op_props(1)[of "CHR ''(''"] by (simp add: parseFunc_def tw skip_id thenP_def)
qed

lemma parsePrimary_const:
  assumes "w = ''pi'' \<or> w = ''e''" "endP rest"
  shows "parsePrimary ops inLen pe (w @ rest) = Some (Inr (if w = ''pi'' then fo_pi ops else fo_e ops, rest))"
proof -
  have l: "list_all (\<lambda>c. isLetterByte c \<or> isDigit c) w" using assms(1) by (auto simp: isLetterByte_def)
  note tw = takeWhile_end[OF l assms(2)]
  have "takeWhile (\<lambda>c. isLetterByte c \<or> isDigit c) (w @ rest) = w" "dropWhile (\<lambda>c. isLetterByte c \<or> isDigit c) (w @ rest) = rest"
    by (rule tw; use op_props(2,3) in blast)+
  moreover have "ToLower w = w" using assms(1) by (auto simp: ToLower_def lowerChar_def)
  ultimately have "parseFunc ops pe (w @ rest) = Some (Inr (if w = ''pi'' then fo_pi ops else fo_e ops, rest))"
    using assms(1) by (auto simp: parseFunc_def)
  moreover have "parsePrimary ops inLen pe (w @ rest) = parseFunc ops pe (w @ rest)"
    using assms(1) by (auto simp: parsePrimary_def skip_id isSpaceByte_def isLetterByte_def)
  ultimately show ?thesis by simp
qed

text \<open>The parser of expressions at a given depth, followed by a closing parenthesis or a comma.\<close>

definition parsesE :: "'a floatOps \<Rightarrow> nat \<Rightarrow> mexpr \<Rightarrow> bool" where
  "parsesE ops inLen e \<longleftrightarrow> (\<forall>n rest. length (printE e @ rest) \<le> n \<longrightarrow> endT rest \<longrightarrow>
     parseAddSub ops inLen (parseExpr n ops inLen) (printE e @ rest) =
       thenP (valE ops e) (\<lambda>v. addSubLoop (Suc (length rest)) ops (parseMulDiv ops inLen (parseExpr n ops inLen)) v rest))"

lemma parsesED:
  assumes "parsesE ops inLen e" "length (printE e @ rest) < n" "rest = [] \<or> hd rest \<in> set '',)''"
  shows "parseExpr n ops inLen (printE e @ rest) = thenP (valE ops e) (\<lambda>v. Some (Inr (v, rest)))"
proof -
  obtain m where m: "n = Suc m" using assms(2) by (cases n) auto
  have "rest = [] \<or> \<not> isSpaceByte (hd rest) \<and> hd rest \<notin> set ''+-''" using assms(3) op_props(1)[of "hd rest"] by auto
  then have "addSubLoop (Suc (length rest)) ops pm v rest = Some (Inr (v, rest))" for pm v by (rule addSubLoop_stop)
  moreover have "endT rest" using assms(3) by (auto simp: endT_def)
  ultimately show ?thesis using assms(1,2) m by (simp add: parsesE_def)
qed

lemma parseArgs_one:
  assumes "parsesE ops inLen e" "wfE e" "length (printE e @ CHR '')'' # rest) < n"
  shows "parseArgs (parseExpr n ops inLen) (printE e @ CHR '')'' # rest) = thenP (valE ops e) (\<lambda>x. Some (Inr ([x], rest)))"
proof -
  obtain c r where c: "printE e = c # r" "\<not> isSpaceByte c" "c \<noteq> CHR '')''" using print_hd(1)[OF assms(2)] by blast
  have p: "parseExpr n ops inLen (printE e @ CHR '')'' # rest) = thenP (valE ops e) (\<lambda>v. Some (Inr (v, CHR '')'' # rest)))"
    by (rule parsesED[OF assms(1,3)]) simp
  have "parseArgs (parseExpr n ops inLen) (printE e @ CHR '')'' # rest) =
      argsLoop (Suc (length (printE e @ CHR '')'' # rest))) (parseExpr n ops inLen) [] (printE e @ CHR '')'' # rest)"
    using c by (simp add: parseArgs_def skip_id del: argsLoop.simps)
  then show ?thesis using op_props(1)[of "CHR '')''"] by (simp add: p skip_id)
qed

lemma parseArgs_two:
  assumes "parsesE ops inLen e" "parsesE ops inLen f" "wfE e" "length (printE e @ CHR '','' # printE f @ CHR '')'' # rest) < n"
  shows "parseArgs (parseExpr n ops inLen) (printE e @ CHR '','' # printE f @ CHR '')'' # rest) =
    thenP (valE ops e) (\<lambda>x. thenP (valE ops f) (\<lambda>y. Some (Inr ([x, y], rest))))"
proof -
  obtain c r where c: "printE e = c # r" "\<not> isSpaceByte c" "c \<noteq> CHR '')''" using print_hd(1)[OF assms(3)] by blast
  let ?s = "printE e @ CHR '','' # printE f @ CHR '')'' # rest"
  have p: "parseExpr n ops inLen ?s = thenP (valE ops e) (\<lambda>v. Some (Inr (v, CHR '','' # printE f @ CHR '')'' # rest)))"
    by (rule parsesED[OF assms(1,4)]) simp
  have q: "parseExpr n ops inLen (printE f @ CHR '')'' # rest) = thenP (valE ops f) (\<lambda>v. Some (Inr (v, CHR '')'' # rest)))"
    by (rule parsesED[OF assms(2)]) (use assms(4) in simp_all)
  obtain k where k: "length ?s = Suc k" using c by simp
  have "parseArgs (parseExpr n ops inLen) ?s = argsLoop (Suc (Suc k)) (parseExpr n ops inLen) [] ?s"
    using c k by (simp add: parseArgs_def skip_id del: argsLoop.simps)
  also have "\<dots> = thenP (valE ops e) (\<lambda>x. thenP (valE ops f) (\<lambda>y. Some (Inr ([x, y], rest))))"
    using op_props(1)[of "CHR '')''"] op_props(1)[of "CHR '',''"] by (simp add: p q skip_id)
  finally show ?thesis .
qed

lemma print_parse:
  "wfE e \<Longrightarrow> parsesE ops inLen e"
  "wfT t \<Longrightarrow> (\<forall>n rest. length (printT t @ rest) \<le> n \<longrightarrow> endP rest \<longrightarrow> parseMulDiv ops inLen (parseExpr n ops inLen) (printT t @ rest) =
       thenP (valT ops t) (\<lambda>v. mulDivLoop (Suc (length rest)) ops (parseUnary ops inLen (parseExpr n ops inLen)) v rest))"
  "wfU u \<Longrightarrow> (\<forall>n rest. length (printU u @ rest) \<le> n \<longrightarrow> endP rest \<longrightarrow> parseUnary ops inLen (parseExpr n ops inLen) (printU u @ rest) =
       thenP (valU ops u) (\<lambda>v. Some (Inr (v, rest))))"
  "wfP p \<Longrightarrow> (\<forall>n rest. length (printP p @ rest) \<le> n \<longrightarrow> endP rest \<longrightarrow> parsePrimary ops inLen (parseExpr n ops inLen) (printP p @ rest) =
       thenP (valP ops p) (\<lambda>v. Some (Inr (v, rest))))"
proof (induction e and t and u and p)
  case (ETerm t)
  have "endP rest" if "endT rest" for rest using that by (auto simp: endP_def endT_def)
  with ETerm show ?case by (auto simp: parsesE_def parseAddSub_def mulDivLoop_stop)
next
  case (EAdd e isAdd t)
  let ?op = "if isAdd then CHR ''+'' else CHR ''-''"
  show ?case unfolding parsesE_def
  proof (intro allI impI)
    fix n rest
    assume len: "length (printE (EAdd e isAdd t) @ rest) \<le> n" and er: "endT rest"
    let ?pm = "parseMulDiv ops inLen (parseExpr n ops inLen)"
    have pm: "okP (length s) (?pm s)" if "length s \<le> n" for s using parseMulDiv_ok[OF parseExpr_good that] .
    have fuel: "addSubLoop (Suc (length (printT t @ rest))) ops ?pm v rest = addSubLoop (Suc (length rest)) ops ?pm v rest" for v
      by (rule addSubLoop_fuel[where k = n, OF pm]) (use len in simp_all)
    have e: "parseAddSub ops inLen (parseExpr n ops inLen) (printE e @ ?op # printT t @ rest) =
        thenP (valE ops e) (\<lambda>v. addSubLoop (Suc (length (?op # printT t @ rest))) ops ?pm v (?op # printT t @ rest))"
      using EAdd len by (simp add: parsesE_def endT_def)
    have "endP rest" using er by (auto simp: endP_def endT_def)
    then have t: "?pm (printT t @ rest) = thenP (valT ops t) (\<lambda>v. Some (Inr (v, rest)))"
      using EAdd len er by (simp add: mulDivLoop_stop)
    have op: "\<not> isSpaceByte ?op" "?op = CHR ''+'' \<or> ?op = CHR ''-''" by (auto simp: isSpaceByte_def)
    have "addSubLoop (Suc (length (?op # printT t @ rest))) ops ?pm v (?op # printT t @ rest) =
        thenP (valT ops t) (\<lambda>w. addSubLoop (Suc (length rest)) ops ?pm (applyAdd ops ?op v w) rest)" for v
      using op fuel by (auto simp: skip_id t addSubLoop.simps(2))
    then show "parseAddSub ops inLen (parseExpr n ops inLen) (printE (EAdd e isAdd t) @ rest) =
        thenP (valE ops (EAdd e isAdd t)) (\<lambda>v. addSubLoop (Suc (length rest)) ops ?pm v rest)"
      using e by (cases isAdd) (simp_all add: applyAdd_def)
  qed
next
  case (TUnary u)
  then show ?case by (simp add: parseMulDiv_def)
next
  case (TMul t op u)
  show ?case
  proof (intro allI impI)
    fix n rest
    assume len: "length (printT (TMul t op u) @ rest) \<le> n" and er: "endP rest"
    let ?pu = "parseUnary ops inLen (parseExpr n ops inLen)"
    have pu: "okP (length s) (?pu s)" if "length s \<le> n" for s using parseUnary_ok[OF parseExpr_good that] .
    have fuel: "mulDivLoop (Suc (length (printU u @ rest))) ops ?pu v rest = mulDivLoop (Suc (length rest)) ops ?pu v rest" for v
      by (rule mulDivLoop_fuel[where k = n, OF pu]) (use len in simp_all)
    have wop: "op \<in> set ''*/%''" using TMul.prems by simp
    have t: "parseMulDiv ops inLen (parseExpr n ops inLen) (printT t @ op # printU u @ rest) =
        thenP (valT ops t) (\<lambda>v. mulDivLoop (Suc (length (op # printU u @ rest))) ops ?pu v (op # printU u @ rest))"
    proof -
      have "endP (op # printU u @ rest)" using wop by (auto simp: endP_def)
      moreover have "length (printT t @ op # printU u @ rest) \<le> n" using len by simp
      moreover have "wfT t" using TMul.prems by simp
      ultimately show ?thesis using TMul.IH(1) by blast
    qed
    have u: "?pu (printU u @ rest) = thenP (valU ops u) (\<lambda>v. Some (Inr (v, rest)))" using TMul len er by simp
    have "\<not> isSpaceByte op" "op = CHR ''*'' \<or> op = CHR ''/'' \<or> op = CHR ''%''" using wop op_props(1)[of op] by auto
    then have "mulDivLoop (Suc (length (op # printU u @ rest))) ops ?pu v (op # printU u @ rest) =
        thenP (valU ops u) (\<lambda>w. thenP (applyMul ops op v w) (\<lambda>x. mulDivLoop (Suc (length rest)) ops ?pu x rest))" for v
      using fuel by (auto simp: skip_id u mulDivLoop.simps(2) thenP_def split: sum.split)
    then show "parseMulDiv ops inLen (parseExpr n ops inLen) (printT (TMul t op u) @ rest) =
        thenP (valT ops (TMul t op u)) (\<lambda>v. mulDivLoop (Suc (length rest)) ops ?pu v rest)"
      using t by simp
  qed
next
  case (UPrim p)
  then show ?case by (simp add: unary_skip)
next
  case (UNeg p)
  then show ?case by (simp add: parseUnary_def skip_id isSpaceByte_def)
next
  case (UPos p)
  then show ?case by (simp add: parseUnary_def skip_id isSpaceByte_def)
next
  case (PNum ds fs)
  obtain d r where d: "ds = d # r" "isDigit d" using PNum by (cases ds) auto
  have "parsePrimary ops inLen pe (printP (PNum ds fs) @ rest) = parseNumber ops inLen (printP (PNum ds fs) @ rest)" for pe rest
    using d isDigit_props[OF d(2)] by (auto simp: parsePrimary_def skip_id)
  then show ?case using parseNumber_print[OF PNum] by metis
next
  case PPi
  then show ?case by (simp add: parsePrimary_const[where w = "''pi''", simplified])
next
  case PEuler
  then show ?case by (simp add: parsePrimary_const[where w = "''e''", simplified])
next
  case (PParen e)
  show ?case
  proof (intro allI impI)
    fix n rest
    assume len: "length (printP (PParen e) @ rest) \<le> n"
    have "parseExpr n ops inLen (printE e @ CHR '')'' # rest) = thenP (valE ops e) (\<lambda>v. Some (Inr (v, CHR '')'' # rest)))"
      by (rule parsesED) (use PParen len in simp_all)
    then show "parsePrimary ops inLen (parseExpr n ops inLen) (printP (PParen e) @ rest) = thenP (valP ops (PParen e)) (\<lambda>v. Some (Inr (v, rest)))"
      using op_props(1)[of "CHR ''(''"] op_props(1)[of "CHR '')''"] by (simp add: parsePrimary_def skip_id)
  qed
next
  case (PCall1 name e)
  then show ?case using parsePrimary_call[of name ops inLen] parseArgs_one[of ops inLen e] by simp
next
  case (PCall2 name e f)
  then show ?case using parsePrimary_call[of name ops inLen] parseArgs_two[of ops inLen e f] by simp
qed

definition noSpace :: "string \<Rightarrow> bool" where
  "noSpace s \<longleftrightarrow> (\<forall>c \<in> set s. \<not> isSpace c)"

lemma noSpace_simps [simp]: "noSpace []" "noSpace (c # s) \<longleftrightarrow> \<not> isSpace c \<and> noSpace s" "noSpace (s @ t) \<longleftrightarrow> noSpace s \<and> noSpace t"
  by (auto simp: noSpace_def)

lemma noSpace_chars: "list_all (\<lambda>c. isLetterByte c \<or> isDigit c) s \<Longrightarrow> noSpace s" "list_all isDigit s \<Longrightarrow> noSpace s"
proof -
  have "\<not> isSpace c" if "isLetterByte c \<or> isDigit c" for c
  proof -
    have "isSpace c \<Longrightarrow> isSpaceByte c" by (auto simp: isSpace_def isSpaceByte_def)
    then show ?thesis using that isDigit_props[of c] isLetter_props[of c] by blast
  qed
  then show "list_all (\<lambda>c. isLetterByte c \<or> isDigit c) s \<Longrightarrow> noSpace s" "list_all isDigit s \<Longrightarrow> noSpace s"
    by (auto simp: list_all_iff noSpace_def)
qed

lemma op_noSpace: "c \<in> set ''+-*/%(),.'' \<Longrightarrow> \<not> isSpace c"
  by (auto simp: isSpace_def)

lemma print_no_space:
  "wfE e \<Longrightarrow> noSpace (printE e)" "wfT t \<Longrightarrow> noSpace (printT t)" "wfU u \<Longrightarrow> noSpace (printU u)" "wfP p \<Longrightarrow> noSpace (printP p)"
proof (induction e and t and u and p)
  case (TMul t op u)
  then show ?case using op_noSpace[of op] by auto
next
  case (PNum ds fs)
  then show ?case using noSpace_chars(2)[of ds] noSpace_chars(2)[of fs] op_noSpace[of "CHR ''.''"] by simp
next
  case (PCall1 name e)
  then show ?case using noSpace_chars(1)[OF funName(2)[of name]] op_noSpace by simp
next
  case (PCall2 name e f)
  then show ?case using noSpace_chars(1)[OF funName(2)[of name]] op_noSpace by simp
qed (simp_all add: op_noSpace noSpace_chars(1) isLetterByte_def isSpace_def)

lemma TrimSpace_id:
  assumes "noSpace s"
  shows "TrimSpace s = s"
proof -
  have d: "dropWhile isSpace t = t" if "noSpace t" for t using that by (cases t) auto
  have "noSpace (rev s)" using assms by (simp add: noSpace_def)
  then show ?thesis using d[OF assms] d[of "rev s"] by (simp add: TrimSpace_def)
qed

subsection \<open>Properties\<close>

text \<open>C27. evalExpr always returns: for every input and every float arithmetic the fuel suffices, so the tool ends with a
  value or an error; the recursion depth is at most one more than the number of bytes.\<close>
theorem evalExpr_returns:
  "evalExpr ops expr \<noteq> None \<and> MathEval_Execute ops input \<noteq> None"
proof -
  have "evalExpr ops x \<noteq> None" for x
  proof -
    let ?s = "TrimSpace x"
    have "okP (length ?s) (parseExpr (Suc (length ?s)) ops (length ?s) ?s)" using goodPD[OF parseExpr_good] by blast
    then show ?thesis by (auto simp: evalExpr_def Let_def okP_def split: option.splits sum.splits list.splits)
  qed
  then show ?thesis by (simp add: MathEval_Execute_def split: sum.split)
qed

text \<open>Round trip of the parser: every expression of the grammar, printed without redundant parentheses, is
  evaluated to its value: multiplication, division and modulo before addition and subtraction, equal levels from left to
  right, signs on primaries. If an operation fails (division or modulo by zero, a wrong argument count, a number out of
  range) the result is the first error from left to right.\<close>
theorem evalExpr_print:
  assumes "wfE e"
  shows "evalExpr ops (printE e) = Some (valE ops e)"
proof -
  let ?s = "printE e"
  have "TrimSpace ?s = ?s" using TrimSpace_id[OF print_no_space(1)[OF assms]] .
  moreover have "parseExpr (Suc (length ?s)) ops (length ?s) ?s = thenP (valE ops e) (\<lambda>v. Some (Inr (v, [])))"
    using parsesED[OF print_parse(1)[OF assms], of "[]" "Suc (length ?s)" ops "length ?s"] by simp
  ultimately show ?thesis by (cases "valE ops e") (simp_all add: evalExpr_def skip_id)
qed

definition intOps :: "int floatOps" where
  "intOps = \<lparr>fo_add = (+), fo_sub = (-), fo_mul = (*), fo_div = (div), fo_mod = (mod), fo_neg = uminus, fo_isZero = (\<lambda>x. x = 0), fo_pi = 3, fo_e = 2,
     fo_fun1 = (\<lambda>_ x. \<bar>x\<bar>), fo_fun2 = (\<lambda>_ x y. max x y), fo_parse = (\<lambda>w. case Atoi w of Some n \<Rightarrow> Inr n | None \<Rightarrow> Inl w), fo_json = (\<lambda>_. None)\<rparr>"

theorem evalExpr_print_witness:
  "evalExpr intOps ''8-2-3*max(1,2)'' = Some (Inr 0) \<and> evalExpr intOps ''1/0'' = Some (Inl DivisionByZero)"
proof -
  let ?n = "\<lambda>d. UPrim (PNum [d] [])"
  let ?e = "EAdd (EAdd (ETerm (TUnary (?n CHR ''8''))) False (TUnary (?n CHR ''2''))) False
      (TMul (TUnary (?n CHR ''3'')) CHR ''*'' (UPrim (PCall2 ''max'' (ETerm (TUnary (?n CHR ''1''))) (ETerm (TUnary (?n CHR ''2''))))))"
  let ?d = "ETerm (TMul (TUnary (?n CHR ''1'')) CHR ''/'' (?n CHR ''0''))"
  have "wfE ?e" "wfE ?d" by code_simp+
  moreover have "printE ?e = ''8-2-3*max(1,2)''" "printE ?d = ''1/0''" by simp_all
  moreover have "valE intOps ?e = Inr 0" "valE intOps ?d = Inl DivisionByZero" by code_simp+
  ultimately show ?thesis using evalExpr_print[of ?e intOps] evalExpr_print[of ?d intOps] by simp
qed

text \<open>A result that JSON cannot represent makes the tool succeed with an empty document.\<close>

lemma MathEval_nan_empty:
  assumes "expr \<noteq> []" "evalExpr ops expr = Some (Inr v)" "fo_json ops v = None"
  shows "MathEval_Execute ops (Inr expr) = Some (Inr None)"
  using assms by (simp add: MathEval_Execute_def)

end
