(* ===== verification/Fed_Stores.thy ===== *)
theory Fed_Stores
  imports Agent_Stores "HOL-Library.Sublist"
begin

text \<open>
  The state kept by the federation service: the index of forwarded runs (federation/forward_index.go), the store of
  ingested remote events (federation/event_store.go) and the per-connection filter of the SSE proxy
  (federation/sse_proxy.go).

  \<^item> A decoded JSON object is a Go map to \<open>json\<close> values, so a type assertion is a case distinction. The decoder never
    produces the json.Number, int and int64 cases of \<open>eventSequence\<close>, which are therefore absent.
  \<^item> An integer conversion of a float64 that does not fit is implementation-specific in Go; \<open>floatToInt\<close> has the result of
    amd64, the least 64-bit integer.
  \<^item> \<open>Ingest\<close> indexes the eviction order, which panics when the slice is empty: the panic is the result None, and the
    invariant \<open>eventStoreOk\<close> shows that it never happens.
  \<^item> The invariants: both stores are bounded; the events of a run have strictly increasing sequence numbers and distinct
    identifiers (up to the cap of the identifier set); a replay is the tail after the cursor; the proxy forwards a
    subsequence with the same guarantees.
\<close>

subsection \<open>JSON access\<close>

type_synonym jmap = "(string, json) gomap"

definition asObj :: "json \<Rightarrow> jmap option" where
  "asObj j = (case j of JObj m \<Rightarrow> Some m | _ \<Rightarrow> None)"

definition asArr :: "json \<Rightarrow> json list option" where
  "asArr j = (case j of JArr xs \<Rightarrow> Some xs | _ \<Rightarrow> None)"

definition strField :: "jmap \<Rightarrow> string \<Rightarrow> string" where
  "strField m k = (case asString (jobj m k) of Some s \<Rightarrow> s | None \<Rightarrow> [])"

definition floatToInt :: "rat \<Rightarrow> int" where
  "floatToInt x =
     (let t = (if 0 \<le> x then \<lfloor>x\<rfloor> else \<lceil>x\<rceil>) in if - (2 ^ 63) \<le> t \<and> t < 2 ^ 63 then t else - (2 ^ 63))"

subsection \<open>Forward index\<close>

abbreviation maxForwardEntries :: nat where "maxForwardEntries \<equiv> 10000"
abbreviation forwardEntryTTL :: duration where "forwardEntryTTL \<equiv> 24 * hour"
abbreviation forwardSweepEvery :: int where "forwardSweepEvery \<equiv> 50"

type_synonym forwardKey = "string \<times> string"

record forwardTarget =
  ft_RemoteStackID :: string
  ft_RemoteEventsURL :: string
  ft_createdAt :: time

record forwardIndex =
  fi_m :: "(forwardKey, forwardTarget) gomap"
  fi_path :: string
  fi_setCount :: int

record forwardIndexRecord =
  fr_TenantID :: string
  fr_RunID :: string
  fr_RemoteStackID :: string
  fr_RemoteEventsURL :: string

definition newForwardIndex :: forwardIndex where
  "newForwardIndex = \<lparr>fi_m = [], fi_path = [], fi_setCount = 0\<rparr>"

definition loadRecord :: "time \<Rightarrow> forwardIndexRecord \<Rightarrow> (forwardKey, forwardTarget) gomap \<Rightarrow> (forwardKey, forwardTarget) gomap" where
  "loadRecord now r m =
     mput (fr_TenantID r, fr_RunID r)
       \<lparr>ft_RemoteStackID = fr_RemoteStackID r, ft_RemoteEventsURL = fr_RemoteEventsURL r, ft_createdAt = now\<rparr> m"

definition fi_load :: "time \<Rightarrow> forwardIndexRecord list fileTree \<Rightarrow> forwardIndex \<Rightarrow> forwardIndex" where
  "fi_load now fs i =
     (if fi_path i = [] then i
      else case fileAt fs (fi_path i) of
        Content recs \<Rightarrow> i\<lparr>fi_m := fold (loadRecord now) recs (fi_m i)\<rparr>
      | _ \<Rightarrow> i)"

definition newForwardIndexPersistent :: "time \<Rightarrow> string \<Rightarrow> forwardIndexRecord list fileTree \<Rightarrow> forwardIndex" where
  "newForwardIndexPersistent now path fs = fi_load now fs \<lparr>fi_m = [], fi_path = path, fi_setCount = 0\<rparr>"

definition toRecord :: "forwardKey \<times> forwardTarget \<Rightarrow> forwardIndexRecord" where
  "toRecord e = \<lparr>fr_TenantID = fst (fst e), fr_RunID = snd (fst e),
     fr_RemoteStackID = ft_RemoteStackID (snd e), fr_RemoteEventsURL = ft_RemoteEventsURL (snd e)\<rparr>"

definition persistLocked :: "string option \<Rightarrow> forwardIndex \<Rightarrow> forwardIndexRecord list fileTree \<Rightarrow> forwardIndexRecord list fileTree" where
  "persistLocked io i fs = (if fi_path i = [] then fs else snd (writeFile io (fi_path i) (map toRecord (fi_m i)) fs))"

definition sweepExpiredLocked :: "time \<Rightarrow> (forwardKey, forwardTarget) gomap \<Rightarrow> (forwardKey, forwardTarget) gomap" where
  "sweepExpiredLocked now m = mfilter (\<lambda>k v. \<not> (ft_createdAt v \<noteq> 0 \<and> ft_createdAt v < now - forwardEntryTTL)) m"

fun oldestEntry :: "(forwardKey \<times> time) option \<Rightarrow> (forwardKey, forwardTarget) gomap \<Rightarrow> (forwardKey \<times> time) option" where
  "oldestEntry best [] = best"
| "oldestEntry best ((k, v) # m) =
     (case best of
        None \<Rightarrow> oldestEntry (Some (k, ft_createdAt v)) m
      | Some (k0, t0) \<Rightarrow> if ft_createdAt v < t0 then oldestEntry (Some (k, ft_createdAt v)) m else oldestEntry best m)"

definition evictOldestLocked :: "(forwardKey, forwardTarget) gomap \<Rightarrow> (forwardKey, forwardTarget) gomap" where
  "evictOldestLocked m = (case oldestEntry None m of None \<Rightarrow> m | Some (k, _) \<Rightarrow> mdel k m)"

definition fi_Set ::
  "string option \<Rightarrow> time \<Rightarrow> string \<Rightarrow> string \<Rightarrow> string \<Rightarrow> string \<Rightarrow> forwardIndex \<Rightarrow> forwardIndexRecord list fileTree
   \<Rightarrow> forwardIndex \<times> forwardIndexRecord list fileTree" where
  "fi_Set io now tenantID runID remoteStackID remoteEventsURL i fs =
     (let m1 = mput (tenantID, runID)
                 \<lparr>ft_RemoteStackID = remoteStackID, ft_RemoteEventsURL = remoteEventsURL, ft_createdAt = now\<rparr> (fi_m i);
          n = fi_setCount i + 1;
          m2 = (if n mod forwardSweepEvery = 0 then sweepExpiredLocked now m1 else m1);
          m3 = (if length m2 > maxForwardEntries then evictOldestLocked m2 else m2);
          i' = i\<lparr>fi_m := m3, fi_setCount := n\<rparr> in
      (i', persistLocked io i' fs))"

definition fi_Get :: "string \<Rightarrow> string \<Rightarrow> forwardIndex \<Rightarrow> forwardTarget option" where
  "fi_Get tenantID runID i = mget (fi_m i) (tenantID, runID)"

subsection \<open>Event store\<close>

abbreviation maxStoredRuns :: nat where "maxStoredRuns \<equiv> 500"
abbreviation maxSeenEventIDs :: nat where "maxSeenEventIDs \<equiv> 10000"

type_synonym storeKey = "string \<times> string"

record storedEvents =
  se_seen :: "string list"
  se_lastSequence :: int
  se_events :: "jmap list"

record eventStore =
  es_m :: "(storeKey, storedEvents) gomap"
  es_runOrder :: "storeKey list"

definition newEventStore :: eventStore where
  "newEventStore = \<lparr>es_m = [], es_runOrder = []\<rparr>"

definition eventSequence :: "jmap \<Rightarrow> int" where
  "eventSequence eventObj =
     (case jobj eventObj ''sequence'' of
        JNum x \<Rightarrow> floatToInt x
      | JStr s \<Rightarrow> (case Atoi s of Some i \<Rightarrow> i | None \<Rightarrow> 0)
      | _ \<Rightarrow> 0)"

definition ingestOne :: "jmap \<Rightarrow> storedEvents \<Rightarrow> bool \<times> storedEvents" where
  "ingestOne env st =
     (case asObj (jobj env ''event'') of
        None \<Rightarrow> (False, st)
      | Some eventObj \<Rightarrow>
          let eid = strField eventObj ''event_id''; seq = eventSequence eventObj in
          if eid = [] then (False, st)
          else if seq \<noteq> 0 \<and> seq \<le> se_lastSequence st then (False, st)
          else if eid \<in> set (se_seen st) then (False, st)
          else
            let seen = (if length (se_seen st) \<ge> maxSeenEventIDs then drop (maxSeenEventIDs div 10) (se_seen st) else se_seen st) in
            (True, st\<lparr>se_seen := seen @ [eid],
                      se_lastSequence := (if seq > se_lastSequence st then seq else se_lastSequence st),
                      se_events := se_events st @ [env]\<rparr>))"

fun ingestLoop :: "jmap list \<Rightarrow> nat \<Rightarrow> nat \<Rightarrow> storedEvents \<Rightarrow> nat \<times> nat \<times> storedEvents" where
  "ingestLoop [] accepted rejected st = (accepted, rejected, st)"
| "ingestLoop (env # envs) accepted rejected st =
     (case ingestOne env st of
        (True, st') \<Rightarrow> ingestLoop envs (accepted + 1) rejected st'
      | (False, st') \<Rightarrow> ingestLoop envs accepted (rejected + 1) st')"

fun evictStoredRuns :: "(storeKey, storedEvents) gomap \<Rightarrow> storeKey list \<Rightarrow> ((storeKey, storedEvents) gomap \<times> storeKey list) option" where
  "evictStoredRuns m [] = (if length m > maxStoredRuns then None else Some (m, []))"
| "evictStoredRuns m (k # ks) = (if length m > maxStoredRuns then evictStoredRuns (mdel k m) ks else Some (m, k # ks))"

definition emptyStored :: storedEvents where
  "emptyStored = \<lparr>se_seen = [], se_lastSequence = 0, se_events = []\<rparr>"

definition Ingest :: "string \<Rightarrow> string \<Rightarrow> jmap list \<Rightarrow> eventStore \<Rightarrow> (nat \<times> nat \<times> eventStore) option" where
  "Ingest tenantID runID envelopes s =
     (let k = (tenantID, runID);
          st = (case mget (es_m s) k of Some st \<Rightarrow> st | None \<Rightarrow> emptyStored);
          order = (case mget (es_m s) k of Some _ \<Rightarrow> es_runOrder s | None \<Rightarrow> es_runOrder s @ [k]) in
      case ingestLoop envelopes 0 0 st of
        (accepted, rejected, st') \<Rightarrow>
          map_option (\<lambda>(m, ord). (accepted, rejected, \<lparr>es_m = m, es_runOrder = ord\<rparr>))
            (evictStoredRuns (mput k st' (es_m s)) order))"

definition es_List :: "string \<Rightarrow> string \<Rightarrow> eventStore \<Rightarrow> jmap list option" where
  "es_List tenantID runID s = map_option se_events (mget (es_m s) (tenantID, runID))"

definition envSequence :: "jmap \<Rightarrow> int" where
  "envSequence env = (case asObj (jobj env ''event'') of Some e \<Rightarrow> eventSequence e | None \<Rightarrow> 0)"

definition ListFromSequence :: "string \<Rightarrow> string \<Rightarrow> int \<Rightarrow> eventStore \<Rightarrow> jmap list option" where
  "ListFromSequence tenantID runID fromSequence s =
     map_option (\<lambda>st. filter (\<lambda>env. envSequence env = 0 \<or> envSequence env > fromSequence) (se_events st))
       (mget (es_m s) (tenantID, runID))"

subsection \<open>Event filter of the proxy\<close>

text \<open>
  The loop reads lines ending in a newline until the end of the stream or a read error; a last line without a newline is
  dropped. \<open>unmarshal\<close> is json.Unmarshal into a map.
\<close>

datatype readEnd = EOF | ReadErr string

fun readLines :: "string \<Rightarrow> string \<Rightarrow> string list" where
  "readLines acc [] = []"
| "readLines acc (c # cs) = (if c = CHR 0x0A then rev (c # acc) # readLines [] cs else readLines (c # acc) cs)"

definition trimEOL :: "string \<Rightarrow> string" where
  "trimEOL s = rev (dropWhile (\<lambda>c. c = CHR 0x0D \<or> c = CHR 0x0A) (rev s))"

definition lineEvent :: "(string \<Rightarrow> jmap option) \<Rightarrow> string \<Rightarrow> (string \<times> int) option" where
  "lineEvent unmarshal line =
     (let trim = trimEOL line in
      if \<not> HasPrefix trim ''data:'' then None
      else case unmarshal (TrimSpace (TrimPrefix trim ''data:'')) of
        None \<Rightarrow> None
      | Some env \<Rightarrow>
          (case asObj (jobj env ''event'') of
             None \<Rightarrow> None
           | Some eventObj \<Rightarrow> Some (strField eventObj ''event_id'',
               case jobj eventObj ''sequence'' of JNum x \<Rightarrow> floatToInt x | _ \<Rightarrow> 0)))"

fun proxyLoop :: "(string \<Rightarrow> jmap option) \<Rightarrow> readEnd \<Rightarrow> string list \<Rightarrow> int \<Rightarrow> string list \<Rightarrow> string list \<times> string option" where
  "proxyLoop unmarshal rend seen lastSeq [] = ([], case rend of EOF \<Rightarrow> None | ReadErr e \<Rightarrow> Some e)"
| "proxyLoop unmarshal rend seen lastSeq (line # lines) =
     (case lineEvent unmarshal line of
        None \<Rightarrow> (let (out, err) = proxyLoop unmarshal rend seen lastSeq lines in (line # out, err))
      | Some (eid, seq) \<Rightarrow>
          if eid \<noteq> [] \<and> eid \<in> set seen then proxyLoop unmarshal rend seen lastSeq lines
          else
            let seen' = (if eid \<noteq> [] then eid # seen else seen) in
            if seq \<noteq> 0 \<and> seq \<le> lastSeq then proxyLoop unmarshal rend seen' lastSeq lines
            else
              let lastSeq' = (if seq > lastSeq then seq else lastSeq);
                  (out, err) = proxyLoop unmarshal rend seen' lastSeq' lines in
              (line # out, err))"

definition storedFrame :: "(jmap \<Rightarrow> string) \<Rightarrow> jmap \<Rightarrow> string list" where
  "storedFrame marshal env = [''event: agentos.event'' @ [CHR 0x0A], ''data: '' @ marshal env @ [CHR 0x0A], [CHR 0x0A]]"

definition StreamStoredEvents :: "(jmap \<Rightarrow> string) \<Rightarrow> bool \<Rightarrow> jmap list \<Rightarrow> string option \<times> string list" where
  "StreamStoredEvents marshal flusher envelopes =
     (if \<not> flusher then (Some ''streaming unsupported by response writer'', [])
      else (None, concat (map (storedFrame marshal) envelopes)))"

subsection \<open>Forward index: bound and lookup\<close>

definition fiOk :: "forwardIndex \<Rightarrow> bool" where
  "fiOk i \<longleftrightarrow> gwf (fi_m i) \<and> length (fi_m i) \<le> maxForwardEntries"

definition expired :: "time \<Rightarrow> forwardTarget \<Rightarrow> bool" where
  "expired now v \<longleftrightarrow> ft_createdAt v \<noteq> 0 \<and> ft_createdAt v < now - forwardEntryTTL"

lemma gwf_same_keys:
  assumes "gwf m" "gwf m'" "fst ` set m \<subseteq> fst ` set m'" "length m' \<le> length m"
  shows "fst ` set m = fst ` set m'"
  by (rule card_seteq) (use assms in \<open>simp_all flip: length_card_keys\<close>)

lemma oldestEntry_Some:
  "oldestEntry (Some (k0, t0)) m = Some (k, t) \<Longrightarrow>
     (k = k0 \<and> t = t0 \<or> (\<exists>v. (k, v) \<in> set m \<and> ft_createdAt v = t)) \<and> t \<le> t0 \<and> (\<forall>(k', v) \<in> set m. t \<le> ft_createdAt v)"
proof (induction m arbitrary: k0 t0)
  case (Cons e m)
  obtain k1 v1 where [simp]: "e = (k1, v1)" by (cases e)
  show ?case
  proof (cases "ft_createdAt v1 < t0")
    case True
    with Cons.prems have "oldestEntry (Some (k1, ft_createdAt v1)) m = Some (k, t)" by simp
    from Cons.IH[OF this] True show ?thesis by fastforce
  next
    case False
    with Cons.prems have "oldestEntry (Some (k0, t0)) m = Some (k, t)" by simp
    from Cons.IH[OF this] False show ?thesis by fastforce
  qed
qed simp

lemma oldestEntry_total: "\<exists>k t. oldestEntry (Some b) m = Some (k, t)"
proof (induction m arbitrary: b)
  case Nil then show ?case by (cases b) simp
next
  case (Cons e m) then show ?case by (cases e; cases b) simp
qed

lemma oldestEntry_None:
  assumes "m \<noteq> []"
  obtains k v where "oldestEntry None m = Some (k, ft_createdAt v)" "(k, v) \<in> set m"
    "\<forall>(k', v') \<in> set m. ft_createdAt v \<le> ft_createdAt v'"
proof -
  obtain k1 v1 m' where m: "m = (k1, v1) # m'" using assms by (cases m) auto
  obtain k t where o: "oldestEntry (Some (k1, ft_createdAt v1)) m' = Some (k, t)" using oldestEntry_total by blast
  from oldestEntry_Some[OF o] obtain v where v: "(k, v) \<in> set m" "ft_createdAt v = t" "\<forall>(k', v') \<in> set m. t \<le> ft_createdAt v'"
    unfolding m by auto
  show ?thesis by (rule that[of k v]) (use o v in \<open>simp_all add: m\<close>)
qed

lemma evictOldest_facts:
  assumes "gwf m" "m \<noteq> []"
  obtains k v where "mget m k = Some v" "evictOldestLocked m = mdel k m" "\<forall>k' v'. mget m k' = Some v' \<longrightarrow> ft_createdAt v \<le> ft_createdAt v'"
    "length (evictOldestLocked m) = length m - 1"
proof -
  obtain k v where o: "oldestEntry None m = Some (k, ft_createdAt v)" "(k, v) \<in> set m"
    "\<forall>(k', v') \<in> set m. ft_createdAt v \<le> ft_createdAt v'" by (rule oldestEntry_None[OF assms(2)])
  have e: "evictOldestLocked m = mdel k m" using o(1) by (simp add: evictOldestLocked_def)
  have "k \<in> fst ` set m" using o(2) by force
  then have l: "length (mdel k m) = length m - 1" using length_mdel[OF assms(1), of k] by simp
  show ?thesis
    by (rule that[of k v]) (use o(2,3) e l mget_in_set in \<open>auto simp: mget_iff[OF assms(1)]\<close>)
qed

lemma sweep_get:
  "gwf m \<Longrightarrow> mget (sweepExpiredLocked now m) k = (case mget m k of None \<Rightarrow> None | Some v \<Rightarrow> if expired now v then None else Some v)"
  by (auto simp: sweepExpiredLocked_def mget_mfilter expired_def split: option.split)

lemma sweep_ok: "gwf m \<Longrightarrow> gwf (sweepExpiredLocked now m)" "length (sweepExpiredLocked now m) \<le> length m"
  by (simp_all add: sweepExpiredLocked_def)

text \<open>The map after a Set, before persisting.\<close>

lemma fi_Set_steps:
  assumes ok: "fiOk i" and st: "fi_Set io now t r sid url i fs = (i', fs')"
  defines "tgt \<equiv> \<lparr>ft_RemoteStackID = sid, ft_RemoteEventsURL = url, ft_createdAt = now\<rparr>"
  obtains m2 where "gwf m2"
    "\<forall>k. mget m2 k = mget (mput (t, r) tgt (fi_m i)) k \<or>
          mget m2 k = None \<and> (\<exists>v. mget (mput (t, r) tgt (fi_m i)) k = Some v \<and> expired now v)"
    "length m2 \<le> length (mput (t, r) tgt (fi_m i))"
    "fi_m i' = (if length m2 > maxForwardEntries then evictOldestLocked m2 else m2)"
    "fi_path i' = fi_path i" "fs' = persistLocked io i' fs"
proof -
  let ?m1 = "mput (t, r) tgt (fi_m i)"
  let ?m2 = "if (fi_setCount i + 1) mod forwardSweepEvery = 0 then sweepExpiredLocked now ?m1 else ?m1"
  have g: "gwf ?m1" using ok by (simp add: fiOk_def)
  show ?thesis
    by (rule that[of ?m2])
      (use st g sweep_ok(1)[OF g] sweep_ok(2) in \<open>auto simp: fi_Set_def Let_def tgt_def sweep_get split: option.splits\<close>)
qed

lemma fi_Set_ok:
  assumes ok: "fiOk i" and st: "fi_Set io now t r sid url i fs = (i', fs')"
  shows "fiOk i'"
proof -
  let ?tgt = "\<lparr>ft_RemoteStackID = sid, ft_RemoteEventsURL = url, ft_createdAt = now\<rparr>"
  obtain m2 where m2: "gwf m2" "\<forall>k. mget m2 k = mget (mput (t, r) ?tgt (fi_m i)) k \<or>
          mget m2 k = None \<and> (\<exists>v. mget (mput (t, r) ?tgt (fi_m i)) k = Some v \<and> expired now v)"
    "length m2 \<le> length (mput (t, r) ?tgt (fi_m i))"
    "fi_m i' = (if length m2 > maxForwardEntries then evictOldestLocked m2 else m2)"
    "fi_path i' = fi_path i" "fs' = persistLocked io i' fs"
    by (rule fi_Set_steps[OF ok st])
  have len: "length m2 \<le> Suc (length (fi_m i))" using m2(3) length_mput_le by (rule order_trans)
  show ?thesis
  proof (cases "length m2 > maxForwardEntries")
    case True
    then have ne: "m2 \<noteq> []" by auto
    obtain k where "evictOldestLocked m2 = mdel k m2" "length (evictOldestLocked m2) = length m2 - 1"
      by (rule evictOldest_facts[OF m2(1) ne])
    with True m2(1,4) len ok show ?thesis by (auto simp: fiOk_def)
  next
    case False
    with m2(1,4) show ?thesis by (simp add: fiOk_def)
  qed
qed

lemma fi_Set_new:
  assumes ok: "fiOk i" and st: "fi_Set io now t r sid url i fs = (i', fs')"
    and room: "length (fi_m i) < maxForwardEntries \<or> fi_Get t r i \<noteq> None \<or> (\<exists>k v. k \<noteq> (t, r) \<and> mget (fi_m i) k = Some v \<and> ft_createdAt v < now)"
  shows "fi_Get t r i' = Some \<lparr>ft_RemoteStackID = sid, ft_RemoteEventsURL = url, ft_createdAt = now\<rparr>"
proof -
  let ?tgt = "\<lparr>ft_RemoteStackID = sid, ft_RemoteEventsURL = url, ft_createdAt = now\<rparr>"
  obtain m2 where m2: "gwf m2" "\<forall>k. mget m2 k = mget (mput (t, r) ?tgt (fi_m i)) k \<or>
          mget m2 k = None \<and> (\<exists>v. mget (mput (t, r) ?tgt (fi_m i)) k = Some v \<and> expired now v)"
    "length m2 \<le> length (mput (t, r) ?tgt (fi_m i))"
    "fi_m i' = (if length m2 > maxForwardEntries then evictOldestLocked m2 else m2)"
    "fi_path i' = fi_path i" "fs' = persistLocked io i' fs"
    by (rule fi_Set_steps[OF ok st])
  have new: "mget m2 (t, r) = Some ?tgt" using m2(2)[rule_format, of "(t, r)"] by (simp add: expired_def)
  show ?thesis
  proof (cases "length m2 > maxForwardEntries")
    case False
    with m2(4) new show ?thesis by (simp add: fi_Get_def)
  next
    case True
    with m2(3) ok have full: "length (fi_m i) = maxForwardEntries" "(t, r) \<notin> fst ` set (fi_m i)" "length m2 = Suc maxForwardEntries"
      by (auto simp: length_mput fiOk_def split: if_splits)
    then have "fi_Get t r i = None" by (simp add: fi_Get_def mget_None_iff)
    with room full obtain k v where old: "k \<noteq> (t, r)" "mget (fi_m i) k = Some v" "ft_createdAt v < now" by auto
    have ne: "m2 \<noteq> []" using True by auto
    obtain k1 v1 where ev: "mget m2 k1 = Some v1" "evictOldestLocked m2 = mdel k1 m2"
      "\<forall>k' v'. mget m2 k' = Some v' \<longrightarrow> ft_createdAt v1 \<le> ft_createdAt v'"
      by (rule evictOldest_facts[OF m2(1) ne])
    \<comment> \<open>no entry was swept: the map has grown by the new key and still has all its entries\<close>
    have sub: "fst ` set m2 \<subseteq> fst ` set (mput (t, r) ?tgt (fi_m i))"
    proof
      fix a assume "a \<in> fst ` set m2"
      then have "mget m2 a \<noteq> None" by (simp add: mget_None_iff)
      then have "mget (mput (t, r) ?tgt (fi_m i)) a \<noteq> None" using m2(2)[rule_format, of a] by auto
      then show "a \<in> fst ` set (mput (t, r) ?tgt (fi_m i))" by (simp only: mget_None_iff not_not)
    qed
    have g1: "gwf (mput (t, r) ?tgt (fi_m i))" using ok by (simp add: fiOk_def)
    have "length (mput (t, r) ?tgt (fi_m i)) \<le> length m2" using full ok by (simp add: length_mput)
    then have "fst ` set m2 = fst ` set (mput (t, r) ?tgt (fi_m i))" by (rule gwf_same_keys[OF m2(1) g1 sub])
    moreover have "k \<in> fst ` set (fi_m i)" using mget_in_set[OF old(2)] by force
    ultimately have "mget m2 k \<noteq> None" by (simp add: mget_None_iff)
    with m2(2)[rule_format, of k] old have "mget m2 k = Some v" by simp
    with ev(3) old(3) have "ft_createdAt v1 < now" by fastforce
    with ev(1) new have "k1 \<noteq> (t, r)" by auto
    with ev(2) new True m2(4) show ?thesis by (simp add: fi_Get_def)
  qed
qed

lemma fi_Set_other:
  assumes ok: "fiOk i" and st: "fi_Set io now t r sid url i fs = (i', fs')"
    and k: "(t', r') \<noteq> (t, r)" and old: "fi_Get t' r' i = Some v"
  shows "fi_Get t' r' i' = Some v \<or> fi_Get t' r' i' = None \<and> (expired now v \<or>
     length (fi_m i) = maxForwardEntries \<and> ft_createdAt v \<le> now \<and>
     (\<forall>t'' r'' w. fi_Get t'' r'' i = Some w \<longrightarrow> (t'', r'') = (t, r) \<or> expired now w \<or> ft_createdAt v \<le> ft_createdAt w))"
proof -
  let ?tgt = "\<lparr>ft_RemoteStackID = sid, ft_RemoteEventsURL = url, ft_createdAt = now\<rparr>"
  obtain m2 where m2: "gwf m2" "\<forall>k. mget m2 k = mget (mput (t, r) ?tgt (fi_m i)) k \<or>
          mget m2 k = None \<and> (\<exists>v. mget (mput (t, r) ?tgt (fi_m i)) k = Some v \<and> expired now v)"
    "length m2 \<le> length (mput (t, r) ?tgt (fi_m i))"
    "fi_m i' = (if length m2 > maxForwardEntries then evictOldestLocked m2 else m2)"
    "fi_path i' = fi_path i" "fs' = persistLocked io i' fs"
    by (rule fi_Set_steps[OF ok st])
  from m2(2)[rule_format, of "(t', r')"] k old
  consider (swept) "mget m2 (t', r') = None" "expired now v" | (kept) "mget m2 (t', r') = Some v"
    by (auto simp: fi_Get_def)
  then show ?thesis
  proof cases
    case swept
    have "mget (fi_m i') (t', r') = None"
    proof (cases "m2 = []")
      case False
      then obtain k1 where "evictOldestLocked m2 = mdel k1 m2" by (rule evictOldest_facts[OF m2(1)])
      with swept m2(4) show ?thesis by simp
    qed (use swept m2(4) in simp)
    with swept show ?thesis by (simp add: fi_Get_def)
  next
    case kept
    show ?thesis
    proof (cases "length m2 > maxForwardEntries")
      case False
      with kept m2(4) show ?thesis by (simp add: fi_Get_def)
    next
      case True
      with m2(3) ok have full: "length (fi_m i) = maxForwardEntries" by (auto simp: length_mput fiOk_def split: if_splits)
      have ne: "m2 \<noteq> []" using True by auto
      obtain k1 v1 where ev: "mget m2 k1 = Some v1" "evictOldestLocked m2 = mdel k1 m2"
        "\<forall>k' v'. mget m2 k' = Some v' \<longrightarrow> ft_createdAt v1 \<le> ft_createdAt v'"
        by (rule evictOldest_facts[OF m2(1) ne])
      show ?thesis
      proof (cases "k1 = (t', r')")
        case False
        with ev(2) kept True m2(4) show ?thesis by (simp add: fi_Get_def)
      next
        case same: True
        then have gone: "fi_Get t' r' i' = None" "v1 = v" using ev kept True m2(4) by (simp_all add: fi_Get_def)
        have "mget m2 (t, r) = Some ?tgt" using m2(2)[rule_format, of "(t, r)"] by (simp add: expired_def)
        then have now: "ft_createdAt v \<le> now" using ev(3)[rule_format, of "(t, r)" ?tgt] gone by simp
        have "ft_createdAt v \<le> ft_createdAt w" if "fi_Get t'' r'' i = Some w" "(t'', r'') \<noteq> (t, r)" "\<not> expired now w" for t'' r'' w
          using m2(2)[rule_format, of "(t'', r'')"] that ev(3)[rule_format, of "(t'', r'')" w] gone by (auto simp: fi_Get_def)
        with gone full now show ?thesis by blast
      qed
    qed
  qed
qed

text \<open>A restart reads the records back; only the creation times are lost.\<close>

lemma fold_loadRecord:
  assumes "gwf m"
  shows "gwf (fold (loadRecord now) (map toRecord es) m) \<and>
    (gwf es \<longrightarrow> mget (fold (loadRecord now) (map toRecord es) m) k =
      (case mget es k of Some v \<Rightarrow> Some (v\<lparr>ft_createdAt := now\<rparr>) | None \<Rightarrow> mget m k))"
  using assms
proof (induction es arbitrary: m)
  case (Cons e es)
  obtain k1 v1 where [simp]: "e = (k1, v1)" by (cases e)
  have r: "loadRecord now (toRecord (k1, v1)) m = mput k1 (v1\<lparr>ft_createdAt := now\<rparr>) m"
    by (simp add: loadRecord_def toRecord_def) (cases v1, simp)
  have "mget es k1 = None" if "gwf (e # es)" using that by (simp add: gwf_Cons mget_None_iff)
  then show ?case using Cons.IH[of "mput k1 (v1\<lparr>ft_createdAt := now\<rparr>) m"] Cons.prems
    by (auto simp: r mget_Cons gwf_Cons split: option.splits)
qed simp

lemma restart_get:
  assumes "gwf (fi_m i)" "fi_path i \<noteq> []"
  shows "fi_Get t r (newForwardIndexPersistent now (fi_path i) (persistLocked None i fs)) =
    map_option (\<lambda>v. v\<lparr>ft_createdAt := now\<rparr>) (fi_Get t r i)"
  using assms fold_loadRecord[OF gwf_Nil, of now "fi_m i" "(t, r)"]
  by (simp add: fi_Get_def newForwardIndexPersistent_def fi_load_def persistLocked_def writeFile_def fileAt_def split: option.split)

subsection \<open>Event store: order, distinctness and bound\<close>

definition envID :: "jmap \<Rightarrow> string" where
  "envID env = (case asObj (jobj env ''event'') of Some e \<Rightarrow> strField e ''event_id'' | None \<Rightarrow> [])"

definition ordered :: "int list \<Rightarrow> bool" where
  "ordered ns \<longleftrightarrow> sorted_wrt (<) (filter (\<lambda>n. n \<noteq> 0) ns)"

definition storedOk :: "storedEvents \<Rightarrow> bool" where
  "storedOk st \<longleftrightarrow>
     0 \<le> se_lastSequence st \<and> length (se_seen st) \<le> maxSeenEventIDs \<and>
     (\<forall>e \<in> set (se_events st). envID e \<noteq> [] \<and> 0 \<le> envSequence e \<and> envSequence e \<le> se_lastSequence st) \<and>
     ordered (map envSequence (se_events st)) \<and> distinct (se_seen st) \<and>
     (length (se_events st) \<le> maxSeenEventIDs \<longrightarrow> se_seen st = map envID (se_events st))"

definition eventStoreOk :: "eventStore \<Rightarrow> bool" where
  "eventStoreOk s \<longleftrightarrow> gwf (es_m s) \<and> length (es_m s) \<le> maxStoredRuns \<and>
     distinct (es_runOrder s) \<and> set (es_runOrder s) = fst ` set (es_m s) \<and> (\<forall>(k, st) \<in> set (es_m s). storedOk st)"

lemma ordered_snoc: "ordered ns \<Longrightarrow> n = 0 \<or> (\<forall>m \<in> set ns. m < n) \<Longrightarrow> ordered (ns @ [n])"
  by (auto simp: ordered_def sorted_wrt_append)

lemma emptyStored_ok: "storedOk emptyStored"
  by (simp add: storedOk_def emptyStored_def ordered_def)

lemma ingestOne_rejects: "ingestOne env st = (False, st') \<Longrightarrow> st' = st"
  by (auto simp: ingestOne_def Let_def split: option.splits if_splits)

lemma ingestOne_accepts:
  assumes "ingestOne env st = (True, st')"
  shows "se_events st' = se_events st @ [env]" "envID env \<noteq> []" "envID env \<notin> set (se_seen st)"
    "envSequence env = 0 \<or> se_lastSequence st < envSequence env" "se_lastSequence st' = max (se_lastSequence st) (envSequence env)"
    "se_seen st' = (if length (se_seen st) \<ge> maxSeenEventIDs then drop 1000 (se_seen st) else se_seen st) @ [envID env]"
  using assms
  by (auto simp: ingestOne_def Let_def envID_def envSequence_def split: option.splits if_splits)

lemma ingestOne_ok:
  assumes ok: "storedOk st" and one: "ingestOne env st = (b, st')"
  shows "storedOk st'"
proof (cases b)
  case False
  with one have "st' = st" using ingestOne_rejects[of env st st'] by simp
  with ok show ?thesis by simp
next
  case True
  with one have one: "ingestOne env st = (True, st')" by simp
  note acc = ingestOne_accepts[OF one]
  note ok' = ok[unfolded storedOk_def]
  let ?n = "envSequence env"
  have pos: "0 \<le> ?n" using acc(4) ok' by auto
  have ord: "ordered (map envSequence (se_events st) @ [?n])"
    by (rule ordered_snoc) (use ok' acc(4) in fastforce)+
  have evs: "\<forall>e \<in> set (se_events st'). envID e \<noteq> [] \<and> 0 \<le> envSequence e \<and> envSequence e \<le> se_lastSequence st'"
    using ok' pos acc(1,2,5) by (auto intro: max.coboundedI1)
  have seen: "length (se_seen st') \<le> maxSeenEventIDs" "distinct (se_seen st')"
    using ok' acc(3,6) by (auto dest: in_set_dropD)
  have all: "se_seen st' = map envID (se_events st')" if "length (se_events st') \<le> maxSeenEventIDs"
  proof -
    from that acc(1) have "length (se_events st) < maxSeenEventIDs" by simp
    moreover from this ok' have "se_seen st = map envID (se_events st)" by simp
    ultimately show ?thesis using acc(1,6) by simp
  qed
  show ?thesis unfolding storedOk_def
    using ok' pos evs ord seen all acc(1,5) by auto
qed

lemma ingestLoop_ok:
  "storedOk st \<Longrightarrow> ingestLoop envs a r st = (a', r', st') \<Longrightarrow>
     storedOk st' \<and> a' + r' = a + r + length envs \<and> (\<exists>new. se_events st' = se_events st @ new \<and> subseq new envs \<and> length new = a' - a \<and> a \<le> a')"
proof (induction envs arbitrary: a r st)
  case (Cons env envs)
  obtain b st1 where one: "ingestOne env st = (b, st1)" by fastforce
  have ok1: "storedOk st1" by (rule ingestOne_ok[OF Cons.prems(1) one])
  show ?case
  proof (cases b)
    case True
    with one Cons.prems(2) have "ingestLoop envs (a + 1) r st1 = (a', r', st')" by simp
    from Cons.IH[OF ok1 this] obtain new where "storedOk st'" "a' + r' = a + 1 + r + length envs"
      "se_events st' = se_events st1 @ new" "subseq new envs" "length new = a' - (a + 1)" "a + 1 \<le> a'" by auto
    moreover have "se_events st1 = se_events st @ [env]" using one True ingestOne_accepts(1)[of env st st1] by simp
    ultimately show ?thesis by (auto intro!: exI[of _ "env # new"])
  next
    case False
    with one Cons.prems(2) have "ingestLoop envs a (r + 1) st1 = (a', r', st')" by simp
    from Cons.IH[OF ok1 this] ingestOne_rejects[of env st st1] one False show ?thesis by auto
  qed
qed auto

lemma evictStoredRuns_ok:
  assumes "gwf m" "distinct ks" "set ks = fst ` set m" "length m \<le> Suc maxStoredRuns"
  shows "\<exists>m' ks'. evictStoredRuns m ks = Some (m', ks') \<and> gwf m' \<and> length m' \<le> maxStoredRuns \<and> distinct ks' \<and>
    set ks' = fst ` set m' \<and> set m' \<subseteq> set m \<and> (if length m \<le> maxStoredRuns then m' = m else m' = mdel (hd ks) m)"
proof (cases "length m \<le> maxStoredRuns")
  case True
  with assms show ?thesis by (cases ks) auto
next
  case False
  then have "m \<noteq> []" by auto
  with assms(3) obtain k ks1 where ks: "ks = k # ks1" by (cases ks) auto
  have k: "k \<in> fst ` set m" "set ks1 = fst ` set m - {k}" using assms(2,3) ks by auto
  have "length (mdel k m) = length m - 1" using length_mdel[OF assms(1), of k] k(1) by simp
  then have l: "length (mdel k m) \<le> maxStoredRuns" using assms(4) by simp
  then have "evictStoredRuns m ks = Some (mdel k m, ks1)" using False ks by (cases ks1) auto
  moreover have "distinct ks1" using assms(2) ks by simp
  moreover have "set (mdel k m) \<subseteq> set m" by (auto simp: set_mdel)
  ultimately show ?thesis using l k(2) assms(1) ks False by (intro exI[of _ "mdel k m"] exI[of _ ks1]) simp
qed

lemma Ingest_spec:
  assumes ok: "eventStoreOk s"
  obtains acc rej s' where "Ingest t r envs s = Some (acc, rej, s')" "eventStoreOk s'" "acc + rej = length envs"
    "\<exists>new. es_List t r s' = Some ((case es_List t r s of Some evs \<Rightarrow> evs | None \<Rightarrow> []) @ new) \<and> subseq new envs \<and> length new = acc"
    "\<forall>k. k \<noteq> (t, r) \<longrightarrow> mget (es_m s') k = mget (es_m s) k \<or>
        mget (es_m s') k = None \<and> length (es_m s) = maxStoredRuns \<and> mget (es_m s) (t, r) = None \<and> es_runOrder s \<noteq> [] \<and> k = hd (es_runOrder s)"
proof -
  let ?k = "(t, r)"
  define st where "st = (case mget (es_m s) ?k of Some st \<Rightarrow> st | None \<Rightarrow> emptyStored)"
  define ord where "ord = (case mget (es_m s) ?k of Some _ \<Rightarrow> es_runOrder s | None \<Rightarrow> es_runOrder s @ [?k])"
  note ok' = ok[unfolded eventStoreOk_def]
  obtain a rj st' where loop: "ingestLoop envs 0 0 st = (a, rj, st')" by (cases "ingestLoop envs 0 0 st") auto
  have "storedOk st" using ok' emptyStored_ok by (auto simp: st_def dest!: mget_in_set split: option.split)
  from ingestLoop_ok[OF this loop] have st': "storedOk st'" "a + rj = length envs"
    "\<exists>new. se_events st' = se_events st @ new \<and> subseq new envs \<and> length new = a" by auto
  let ?m = "mput ?k st' (es_m s)"
  have keys: "?k \<in> fst ` set (es_m s) \<longleftrightarrow> mget (es_m s) ?k \<noteq> None" by (simp add: mget_None_iff)
  have m: "gwf ?m" "distinct ord" "set ord = fst ` set ?m" "length ?m \<le> Suc maxStoredRuns"
    using ok' keys by (auto simp: ord_def length_mput split: option.splits)
  obtain m' ks' where ev: "evictStoredRuns ?m ord = Some (m', ks')" "gwf m'" "length m' \<le> maxStoredRuns" "distinct ks'"
    "set ks' = fst ` set m'" "set m' \<subseteq> set ?m" "if length ?m \<le> maxStoredRuns then m' = ?m else m' = mdel (hd ord) ?m"
    using evictStoredRuns_ok[OF m] by blast
  let ?s' = "\<lparr>es_m = m', es_runOrder = ks'\<rparr>"
  have run: "Ingest t r envs s = Some (a, rj, ?s')"
    using loop ev(1) by (simp add: Ingest_def Let_def st_def ord_def split: option.splits)
  have "storedOk x" if "(k, x) \<in> set m'" for k x
    using that ev(6) set_mput_subset[of ?k st' "es_m s"] st'(1) ok' by blast
  with ev(2-5) have good: "eventStoreOk ?s'" by (auto simp: eventStoreOk_def)
  have evs: "se_events st = (case es_List t r s of Some evs \<Rightarrow> evs | None \<Rightarrow> [])"
    by (simp add: st_def es_List_def emptyStored_def split: option.split)
  have full: "length (es_m s) = maxStoredRuns \<and> mget (es_m s) ?k = None \<and> es_runOrder s \<noteq> [] \<and> ?k \<notin> set (es_runOrder s)"
    if big: "\<not> length ?m \<le> maxStoredRuns"
  proof -
    have f: "length (es_m s) = maxStoredRuns" "?k \<notin> fst ` set (es_m s)" using big ok' by (auto simp: length_mput split: if_splits)
    then have "es_m s \<noteq> []" by auto
    then have "fst ` set (es_m s) \<noteq> {}" by simp
    then have "es_runOrder s \<noteq> []" using ok' by auto
    with f ok' show ?thesis by (simp add: mget_None_iff)
  qed
  have "mget m' ?k = Some st'"
  proof (cases "length ?m \<le> maxStoredRuns")
    case False
    with full have "hd ord \<in> set (es_runOrder s)" by (simp add: ord_def)
    with full[OF False] ev(7) False show ?thesis by auto
  qed (use ev(7) in simp)
  then have new: "\<exists>new. es_List t r ?s' = Some (se_events st @ new) \<and> subseq new envs \<and> length new = a"
    using st'(3) by (simp add: es_List_def)
  have "mget m' k = mget (es_m s) k \<or> mget m' k = None \<and> length (es_m s) = maxStoredRuns \<and> mget (es_m s) ?k = None \<and>
      es_runOrder s \<noteq> [] \<and> k = hd (es_runOrder s)" if "k \<noteq> ?k" for k
  proof (cases "length ?m \<le> maxStoredRuns \<or> k \<noteq> hd ord")
    case True
    with ev(7) that show ?thesis by (auto split: if_splits)
  next
    case False
    with full ev(7) show ?thesis by (simp add: ord_def)
  qed
  then show ?thesis using that[OF run good st'(2)] new evs by simp
qed

inductive ingest_step :: "eventStore \<Rightarrow> eventStore \<Rightarrow> bool" where
  "Ingest t r envs s = Some (acc, rej, s') \<Longrightarrow> ingest_step s s'"

interpretation fed_events: inv_system "\<lambda>s. s = newEventStore" ingest_step eventStoreOk
proof
  fix s t assume ok: "eventStoreOk s" and "ingest_step s t"
  from this(2) obtain te r envs acc rej where run: "Ingest te r envs s = Some (acc, rej, t)" by (auto elim: ingest_step.cases)
  obtain acc' rej' s' where "Ingest te r envs s = Some (acc', rej', s')" "eventStoreOk s'"
    by (rule Ingest_spec[OF ok])
  with run show "eventStoreOk t" by simp
qed (auto simp: newEventStore_def eventStoreOk_def)

lemma eventStoreOk_run:
  assumes "eventStoreOk s" "es_List t r s = Some evs"
  obtains st where "mget (es_m s) (t, r) = Some st" "se_events st = evs" "storedOk st"
proof -
  obtain st where st: "mget (es_m s) (t, r) = Some st" "se_events st = evs" using assms(2) by (auto simp: es_List_def)
  with assms(1) have "storedOk st" using mget_in_set[OF st(1)] by (auto simp: eventStoreOk_def)
  with st show ?thesis by (rule that)
qed

lemma ordered_filter_drop:
  assumes "ordered (map f xs)" "\<forall>x \<in> set xs. f x \<noteq> (0 :: int)"
  shows "filter (\<lambda>x. f x = 0 \<or> f x > n) xs = dropWhile (\<lambda>x. f x \<le> n) xs"
  using assms
proof (induction xs)
  case (Cons x xs)
  have "filter (\<lambda>n. n \<noteq> 0) (map f xs) = map f xs" using Cons.prems(2) by (auto simp: filter_id_conv)
  with Cons.prems have s: "\<forall>y \<in> set xs. f x < f y" "ordered (map f xs)" by (auto simp: ordered_def)
  show ?case
  proof (cases "f x \<le> n")
    case True
    with Cons.IH[OF s(2)] Cons.prems(2) show ?thesis by simp
  next
    case False
    with s(1) have "filter (\<lambda>x. f x = 0 \<or> f x > n) xs = xs" by (auto simp: filter_id_conv)
    with False show ?thesis by simp
  qed
qed simp

lemma eventStoreOk_listed:
  assumes ok: "eventStoreOk s" and evs: "es_List t r s = Some evs"
  shows "(\<forall>e \<in> set evs. envID e \<noteq> [] \<and> 0 \<le> envSequence e) \<and> ordered (map envSequence evs) \<and>
      (length evs \<le> maxSeenEventIDs \<longrightarrow> distinct (map envID evs)) \<and>
      ((\<forall>e \<in> set evs. envSequence e \<noteq> 0) \<longrightarrow> ListFromSequence t r n s = Some (dropWhile (\<lambda>e. envSequence e \<le> n) evs))"
proof -
  obtain st where st: "mget (es_m s) (t, r) = Some st" "se_events st = evs" "storedOk st" by (rule eventStoreOk_run[OF ok evs])
  then have f: "(\<forall>e \<in> set evs. envID e \<noteq> [] \<and> 0 \<le> envSequence e)" "ordered (map envSequence evs)"
    "length evs \<le> maxSeenEventIDs \<longrightarrow> distinct (map envID evs)" by (auto simp: storedOk_def)
  have "ListFromSequence t r n s = Some (dropWhile (\<lambda>e. envSequence e \<le> n) evs)" if "\<forall>e \<in> set evs. envSequence e \<noteq> 0"
    using ordered_filter_drop[OF f(2) that, of n] st(1,2) by (simp add: ListFromSequence_def)
  with f show ?thesis by blast
qed

lemma rejected_ingest_evicts:
  assumes ok: "eventStoreOk s" and full: "length (es_m s) = maxStoredRuns" and new: "mget (es_m s) (t, r) = None"
  shows "\<exists>s'. Ingest t r [[]] s = Some (0, 1, s') \<and> mget (es_m s') (hd (es_runOrder s)) = None"
proof -
  note ok' = ok[unfolded eventStoreOk_def]
  have "es_m s \<noteq> []" using full by auto
  then have "set (es_runOrder s) \<noteq> {}" using ok' by simp
  then obtain k ks where k: "es_runOrder s = k # ks" by (cases "es_runOrder s") auto
  have absent: "(t, r) \<notin> fst ` set (es_m s)" using new by (simp add: mget_None_iff)
  have len: "length (mput (t, r) emptyStored (es_m s)) = Suc maxStoredRuns" using full absent by (simp add: length_mput)
  have "k \<in> fst ` set (es_m s)" using ok' k by auto
  then have "length (mdel k (mput (t, r) emptyStored (es_m s))) = maxStoredRuns"
    using len ok' by (simp add: length_mdel)
  then have "evictStoredRuns (mput (t, r) emptyStored (es_m s)) (k # ks @ [(t, r)]) = Some (mdel k (mput (t, r) emptyStored (es_m s)), ks @ [(t, r)])"
    using len by (cases ks) simp_all
  moreover have "ingestLoop [[]] 0 0 emptyStored = (0, 1, emptyStored)"
    by (simp add: ingestOne_def jobj_def asObj_def)
  ultimately show ?thesis using new k by (simp add: Ingest_def Let_def)
qed

subsection \<open>Proxy: what the client sees\<close>

abbreviation lineIDs :: "(string \<Rightarrow> jmap option) \<Rightarrow> string list \<Rightarrow> string list" where
  "lineIDs um ls \<equiv> filter (\<lambda>i. i \<noteq> []) (map fst (List.map_filter (lineEvent um) ls))"

abbreviation lineSeqs :: "(string \<Rightarrow> jmap option) \<Rightarrow> string list \<Rightarrow> int list" where
  "lineSeqs um ls \<equiv> filter (\<lambda>n. n \<noteq> 0) (map snd (List.map_filter (lineEvent um) ls))"

lemma map_filter_Cons: "List.map_filter f (x # xs) = (case f x of None \<Rightarrow> [] | Some y \<Rightarrow> [y]) @ List.map_filter f xs"
  by (simp add: List.map_filter_def split: option.split)

lemma map_filter_Nil [simp]: "List.map_filter f [] = []"
  by (simp add: List.map_filter_def)

lemma proxyLoop_filters:
  assumes "proxyLoop um rend seen lastSeq lines = (out, err)"
  shows "subseq out lines \<and> filter (\<lambda>l. lineEvent um l = None) out = filter (\<lambda>l. lineEvent um l = None) lines \<and>
    distinct (lineIDs um out) \<and> set (lineIDs um out) \<inter> set seen = {} \<and>
    sorted_wrt (<) (lineSeqs um out) \<and> (\<forall>n \<in> set (lineSeqs um out). lastSeq < n)"
  using assms
proof (induction lines arbitrary: seen lastSeq out)
  case Nil
  then show ?case by simp
next
  case (Cons l ls)
  show ?case
  proof (cases "lineEvent um l")
    case None
    with Cons.prems obtain o1 where o1: "proxyLoop um rend seen lastSeq ls = (o1, err)" "out = l # o1"
      by (auto split: prod.splits)
    from Cons.IH[OF o1(1)] None o1(2) show ?thesis by (simp add: map_filter_Cons)
  next
    case (Some e)
    obtain eid seq where e: "e = (eid, seq)" by (cases e)
    let ?seen = "if eid \<noteq> [] then eid # seen else seen"
    consider (dup) "eid \<noteq> []" "eid \<in> set seen" | (old) "\<not> (eid \<noteq> [] \<and> eid \<in> set seen)" "seq \<noteq> 0" "seq \<le> lastSeq"
      | (fresh) "\<not> (eid \<noteq> [] \<and> eid \<in> set seen)" "seq = 0 \<or> lastSeq < seq" by fastforce
    then show ?thesis
    proof cases
      case dup
      with Some e Cons.prems have "proxyLoop um rend seen lastSeq ls = (out, err)" by simp
      from Cons.IH[OF this] Some show ?thesis by auto
    next
      case old
      with Some e Cons.prems have "proxyLoop um rend ?seen lastSeq ls = (out, err)" by (simp add: Let_def split: if_splits)
      from Cons.IH[OF this] Some show ?thesis by (auto split: if_splits)
    next
      case fresh
      obtain o1 where o1: "proxyLoop um rend ?seen (if seq > lastSeq then seq else lastSeq) ls = (o1, err)" "out = l # o1"
        using fresh Some e Cons.prems by (auto simp: Let_def split: prod.splits if_splits)
      from Cons.IH[OF o1(1)] fresh Some e o1(2) show ?thesis
        by (auto simp: map_filter_Cons split: if_splits)
    qed
  qed
qed

lemma proxyLoop_lossless:
  assumes "distinct (lineIDs um lines)" "set (lineIDs um lines) \<inter> set seen = {}"
    "sorted_wrt (<) (lineSeqs um lines)" "\<forall>n \<in> set (lineSeqs um lines). lastSeq < n" "0 \<le> lastSeq"
  shows "fst (proxyLoop um rend seen lastSeq lines) = lines"
  using assms
proof (induction lines arbitrary: seen lastSeq)
  case (Cons l ls)
  show ?case
  proof (cases "lineEvent um l")
    case None
    with Cons.IH[of seen lastSeq] Cons.prems show ?thesis
      by (cases "proxyLoop um rend seen lastSeq ls") (simp add: map_filter_Cons)
  next
    case (Some e)
    obtain eid seq where e: "e = (eid, seq)" by (cases e)
    have "fst (proxyLoop um rend (if eid \<noteq> [] then eid # seen else seen) (if seq > lastSeq then seq else lastSeq) ls) = ls"
      by (rule Cons.IH) (use Cons.prems Some e in \<open>auto simp: map_filter_Cons split: if_splits\<close>)
    moreover have "\<not> (eid \<noteq> [] \<and> eid \<in> set seen)" "seq = 0 \<or> lastSeq < seq"
      using Cons.prems Some e by (auto simp: map_filter_Cons split: if_splits)
    ultimately show ?thesis using Some e
      by (cases "proxyLoop um rend (if eid \<noteq> [] then eid # seen else seen) (if seq > lastSeq then seq else lastSeq) ls") (auto simp: Let_def)
  qed
qed simp

lemma readLines_line: "CHR 0x0A \<notin> set x \<Longrightarrow> readLines acc (x @ CHR 0x0A # rest) = (rev acc @ x @ [CHR 0x0A]) # readLines [] rest"
  by (induction x arbitrary: acc) auto

definition jsonText :: "string \<Rightarrow> bool" where
  "jsonText x \<longleftrightarrow> CHR 0x0A \<notin> set x \<and> x \<noteq> [] \<and> hd x = CHR ''{'' \<and> last x = CHR ''}''"

lemma readLines_frames:
  assumes "\<forall>e \<in> set es. jsonText (ms e)"
  shows "readLines [] (concat (concat (map (storedFrame ms) es))) = concat (map (storedFrame ms) es)"
  using assms
proof (induction es)
  case (Cons e es)
  have "CHR 0x0A \<notin> set (''data: '' @ ms e)" using Cons.prems by (simp add: jsonText_def)
  from readLines_line[OF this, of "[]" "CHR 0x0A # concat (concat (map (storedFrame ms) es))"]
    readLines_line[of "''event: agentos.event''" "[]" "''data: '' @ ms e @ CHR 0x0A # CHR 0x0A # concat (concat (map (storedFrame ms) es))"]
  show ?case using Cons by (simp add: storedFrame_def[of ms e])
qed simp

lemma TrimSpace_jsonText: "jsonText x \<Longrightarrow> TrimSpace (CHR '' '' # x) = x"
proof -
  assume j: "jsonText x"
  then obtain y where y: "x = y @ [CHR ''}'']" by (cases x rule: rev_cases) (auto simp: jsonText_def)
  obtain z where z: "x = CHR ''{'' # z" using j by (cases x) (auto simp: jsonText_def)
  have s: "isSpace CHR '' ''" "\<not> isSpace CHR ''{''" "\<not> isSpace CHR ''}''" by (simp_all add: isSpace_def)
  have "dropWhile isSpace (CHR '' '' # x) = x" using z s by simp
  moreover have "dropWhile isSpace (rev x) = rev x" using y s by simp
  ultimately show ?thesis by (simp add: TrimSpace_def)
qed

lemma trimEOL_jsonText: "jsonText x \<Longrightarrow> trimEOL (p @ x @ [CHR 0x0A]) = p @ x"
  by (cases x rule: rev_cases) (auto simp: jsonText_def trimEOL_def)

definition proxySequence :: "jmap \<Rightarrow> int" where
  "proxySequence env = (case asObj (jobj env ''event'') of None \<Rightarrow> 0
     | Some e \<Rightarrow> (case jobj e ''sequence'' of JNum x \<Rightarrow> floatToInt x | _ \<Rightarrow> 0))"

lemma proxySequence_cases: "proxySequence env = 0 \<or> proxySequence env = envSequence env"
  by (auto simp: proxySequence_def envSequence_def eventSequence_def split: option.split json.split)

lemma lineEvent_frame:
  assumes "jsonText (ms e)" "um (ms e) = Some e" "envID e \<noteq> []"
  shows "lineEvent um (''data: '' @ ms e @ [CHR 0x0A]) = Some (envID e, proxySequence e)"
proof -
  have t: "trimEOL (''data: '' @ ms e @ [CHR 0x0A]) = ''data: '' @ ms e" by (rule trimEOL_jsonText[OF assms(1)])
  have p: "TrimSpace (TrimPrefix (''data: '' @ ms e) ''data:'') = ms e"
    using TrimSpace_jsonText[OF assms(1)] by (simp add: TrimPrefix_def)
  have h: "HasPrefix (''data: '' @ ms e) ''data:''" by simp
  have "\<exists>x. asObj (jobj e ''event'') = Some x" using assms(3) by (auto simp: envID_def split: option.splits)
  then show ?thesis unfolding lineEvent_def Let_def t p
    using h assms(2) by (auto simp: envID_def proxySequence_def)
qed

lemma frames_events:
  assumes "\<forall>e \<in> set es. jsonText (ms e) \<and> um (ms e) = Some e \<and> envID e \<noteq> []"
  shows "List.map_filter (lineEvent um) (concat (map (storedFrame ms) es)) = map (\<lambda>e. (envID e, proxySequence e)) es"
  using assms
proof (induction es)
  case (Cons e es)
  have "lineEvent um (''event: agentos.event'' @ [CHR 0x0A]) = None" "lineEvent um [CHR 0x0A] = None"
    by (simp_all add: lineEvent_def trimEOL_def)
  moreover have "lineEvent um (''data: '' @ ms e @ [CHR 0x0A]) = Some (envID e, proxySequence e)"
    by (rule lineEvent_frame) (use Cons.prems in auto)
  ultimately show ?case using Cons by (simp add: storedFrame_def map_filter_Cons)
qed simp

lemma ordered_sub:
  assumes "sorted_wrt (<) (filter (\<lambda>n. n \<noteq> 0) (map f xs))" "\<forall>x. g x = (0 :: int) \<or> g x = f x"
  shows "sorted_wrt (<) (filter (\<lambda>n. n \<noteq> 0) (map g xs))"
  using assms(1)
proof (induction xs)
  case (Cons x xs)
  have "set (filter (\<lambda>n. n \<noteq> 0) (map g xs)) \<subseteq> set (filter (\<lambda>n. n \<noteq> 0) (map f xs))"
    using assms(2) by (auto simp: image_iff)
  with Cons assms(2)[rule_format, of x] show ?case by (auto split: if_splits)
qed simp

subsection \<open>Properties\<close>

text \<open>The index of forwarded runs is a bounded map: from an index within its cap, a Set keeps the cap; the new
  mapping is found afterwards whenever there is room, the key was known, or some entry is older than now; any other
  mapping is kept unless it has expired or it is the oldest live entry of a full index; and after a successful write a
  restart finds exactly the same targets, their creation times reset.\<close>

theorem forward_index_contract:
  assumes ok: "fiOk i" and st: "fi_Set io now t r sid url i fs = (i', fs')"
  shows "fiOk i' \<and>
    (length (fi_m i) < maxForwardEntries \<or> fi_Get t r i \<noteq> None \<or> (\<exists>k v. k \<noteq> (t, r) \<and> mget (fi_m i) k = Some v \<and> ft_createdAt v < now) \<longrightarrow>
      fi_Get t r i' = Some \<lparr>ft_RemoteStackID = sid, ft_RemoteEventsURL = url, ft_createdAt = now\<rparr>) \<and>
    (\<forall>t' r' v. (t', r') \<noteq> (t, r) \<and> fi_Get t' r' i = Some v \<longrightarrow>
      fi_Get t' r' i' = Some v \<or> fi_Get t' r' i' = None \<and> (expired now v \<or>
        length (fi_m i) = maxForwardEntries \<and> ft_createdAt v \<le> now \<and>
        (\<forall>t'' r'' w. fi_Get t'' r'' i = Some w \<longrightarrow> (t'', r'') = (t, r) \<or> expired now w \<or> ft_createdAt v \<le> ft_createdAt w))) \<and>
    (io = None \<and> fi_path i \<noteq> [] \<longrightarrow> (\<forall>t' r' later.
      fi_Get t' r' (newForwardIndexPersistent later (fi_path i) fs') = map_option (\<lambda>v. v\<lparr>ft_createdAt := later\<rparr>) (fi_Get t' r' i')))"
proof -
  have ok': "fiOk i'" by (rule fi_Set_ok[OF ok st])
  have "fi_Get t' r' (newForwardIndexPersistent later (fi_path i) fs') = map_option (\<lambda>v. v\<lparr>ft_createdAt := later\<rparr>) (fi_Get t' r' i')"
    if "io = None" "fi_path i \<noteq> []" for t' r' later
  proof -
    have "fi_path i' = fi_path i" "fs' = persistLocked None i' fs" using st that(1) by (auto simp: fi_Set_def Let_def)
    with restart_get[of i' t' r' later fs] ok' that(2) show ?thesis by (simp add: fiOk_def)
  qed
  with ok' fi_Set_new[OF ok st] fi_Set_other[OF ok st] show ?thesis by blast
qed

definition sampleIndex :: forwardIndex where
  "sampleIndex = \<lparr>fi_m = [((''acme'', ''r1''), \<lparr>ft_RemoteStackID = ''eu'', ft_RemoteEventsURL = ''http://eu/e'', ft_createdAt = 5\<rparr>)],
     fi_path = ''idx.json'', fi_setCount = 0\<rparr>"

theorem forward_index_contract_witness:
  "let (i', fs') = fi_Set None 9 ''acme'' ''r2'' ''us'' ''http://us/e'' sampleIndex [] in
   fiOk i' \<and> fi_Get ''acme'' ''r2'' i' = Some \<lparr>ft_RemoteStackID = ''us'', ft_RemoteEventsURL = ''http://us/e'', ft_createdAt = 9\<rparr> \<and>
   fi_Get ''acme'' ''r2'' (newForwardIndexPersistent 20 ''idx.json'' fs') =
     Some \<lparr>ft_RemoteStackID = ''us'', ft_RemoteEventsURL = ''http://us/e'', ft_createdAt = 20\<rparr>"
proof -
  have ok: "fiOk sampleIndex" by (simp add: fiOk_def sampleIndex_def gwf_def)
  obtain i' fs' where st: "fi_Set None 9 ''acme'' ''r2'' ''us'' ''http://us/e'' sampleIndex [] = (i', fs')" by fastforce
  note c = forward_index_contract[OF ok st]
  have "fi_Get ''acme'' ''r2'' i' = Some \<lparr>ft_RemoteStackID = ''us'', ft_RemoteEventsURL = ''http://us/e'', ft_createdAt = 9\<rparr>"
    using c by (simp add: sampleIndex_def)
  with st c show ?thesis by (simp add: sampleIndex_def)
qed

text \<open>In every state the federation event store can reach: an ingest call returns (it never panics) and counts
  each envelope as accepted or rejected; the events of a run carry identifiers, their sequence numbers are nonnegative
  and strictly increasing where given, and they are distinct while the run has at most 10000 events; an ingest appends
  the accepted envelopes in their order and touches no other run, except that a new run may push out the oldest one
  when 500 runs are stored; a replay of a fully sequenced run from a cursor is exactly the tail after that cursor.\<close>

theorem fed_events_ordered:
  assumes reach: "reachable (\<lambda>s. s = newEventStore) ingest_step s"
  shows "(\<exists>acc rej s'. Ingest t r envs s = Some (acc, rej, s') \<and> acc + rej = length envs \<and>
      (\<exists>new. es_List t r s' = Some ((case es_List t r s of Some evs \<Rightarrow> evs | None \<Rightarrow> []) @ new) \<and> subseq new envs \<and> length new = acc) \<and>
      (\<forall>k. k \<noteq> (t, r) \<longrightarrow> mget (es_m s') k = mget (es_m s) k \<or>
        mget (es_m s') k = None \<and> length (es_m s) = maxStoredRuns \<and> mget (es_m s) (t, r) = None \<and> k = hd (es_runOrder s))) \<and>
    (\<forall>evs. es_List t r s = Some evs \<longrightarrow>
      (\<forall>e \<in> set evs. envID e \<noteq> [] \<and> 0 \<le> envSequence e) \<and> ordered (map envSequence evs) \<and>
      (length evs \<le> maxSeenEventIDs \<longrightarrow> distinct (map envID evs)) \<and>
      ((\<forall>e \<in> set evs. envSequence e \<noteq> 0) \<longrightarrow> ListFromSequence t r n s = Some (dropWhile (\<lambda>e. envSequence e \<le> n) evs)))"
proof (rule conjI)
  have ok: "eventStoreOk s" using fed_events.inv_reachable[OF reach] .
  obtain acc rej s' where sp: "Ingest t r envs s = Some (acc, rej, s')" "eventStoreOk s'" "acc + rej = length envs"
    "\<exists>new. es_List t r s' = Some ((case es_List t r s of Some evs \<Rightarrow> evs | None \<Rightarrow> []) @ new) \<and> subseq new envs \<and> length new = acc"
    "\<forall>k. k \<noteq> (t, r) \<longrightarrow> mget (es_m s') k = mget (es_m s) k \<or>
        mget (es_m s') k = None \<and> length (es_m s) = maxStoredRuns \<and> mget (es_m s) (t, r) = None \<and> es_runOrder s \<noteq> [] \<and> k = hd (es_runOrder s)"
    by (rule Ingest_spec[OF ok])
  then show "\<exists>acc rej s'. Ingest t r envs s = Some (acc, rej, s') \<and> acc + rej = length envs \<and>
      (\<exists>new. es_List t r s' = Some ((case es_List t r s of Some evs \<Rightarrow> evs | None \<Rightarrow> []) @ new) \<and> subseq new envs \<and> length new = acc) \<and>
      (\<forall>k. k \<noteq> (t, r) \<longrightarrow> mget (es_m s') k = mget (es_m s) k \<or>
        mget (es_m s') k = None \<and> length (es_m s) = maxStoredRuns \<and> mget (es_m s) (t, r) = None \<and> k = hd (es_runOrder s))"
    by blast
  show "\<forall>evs. es_List t r s = Some evs \<longrightarrow>
      (\<forall>e \<in> set evs. envID e \<noteq> [] \<and> 0 \<le> envSequence e) \<and> ordered (map envSequence evs) \<and>
      (length evs \<le> maxSeenEventIDs \<longrightarrow> distinct (map envID evs)) \<and>
      ((\<forall>e \<in> set evs. envSequence e \<noteq> 0) \<longrightarrow> ListFromSequence t r n s = Some (dropWhile (\<lambda>e. envSequence e \<le> n) evs))"
    using eventStoreOk_listed[OF ok] by blast
qed

definition sampleEnv :: "string \<Rightarrow> rat \<Rightarrow> jmap" where
  "sampleEnv i n = [(''event'', JObj [(''event_id'', JStr i), (''run_id'', JStr ''r1''), (''sequence'', JNum n)])]"

definition sampleStore :: eventStore where
  "sampleStore = \<lparr>es_m = [((''acme'', ''r1''), \<lparr>se_seen = [''a'', ''b''], se_lastSequence = 2, se_events = [sampleEnv ''a'' 1, sampleEnv ''b'' 2]\<rparr>)],
     es_runOrder = [(''acme'', ''r1'')]\<rparr>"

lemma sampleEnv_event: "envID (sampleEnv i n) = i" "envSequence (sampleEnv i n) = floatToInt n"
  by (simp_all add: sampleEnv_def envID_def envSequence_def jobj_def zget_def mget_def asObj_def strField_def asString_def eventSequence_def)

lemma sampleStore_reachable: "reachable (\<lambda>s. s = newEventStore) ingest_step sampleStore"
proof (rule reach_one)
  have "Ingest ''acme'' ''r1'' [sampleEnv ''a'' 1, sampleEnv ''b'' 2, sampleEnv ''c'' 2] newEventStore = Some (2, 1, sampleStore)"
    by code_simp
  then show "ingest_step newEventStore sampleStore" by (rule ingest_step.intros)
qed simp

theorem fed_events_ordered_witness:
  "ListFromSequence ''acme'' ''r1'' 1 sampleStore = Some [sampleEnv ''b'' 2] \<and>
   (\<exists>acc rej s'. Ingest ''acme'' ''r1'' [sampleEnv ''c'' 2] sampleStore = Some (acc, rej, s') \<and> acc + rej = 1)"
proof
  have l: "es_List ''acme'' ''r1'' sampleStore = Some [sampleEnv ''a'' 1, sampleEnv ''b'' 2]" by code_simp
  note f = fed_events_ordered[OF sampleStore_reachable]
  from f[of "''acme''" "''r1''" "[]" 1] l show "ListFromSequence ''acme'' ''r1'' 1 sampleStore = Some [sampleEnv ''b'' 2]"
    by (simp add: sampleEnv_event floatToInt_def)
  from f[of "''acme''" "''r1''" "[sampleEnv ''c'' 2]" 0]
  show "\<exists>acc rej s'. Ingest ''acme'' ''r1'' [sampleEnv ''c'' 2] sampleStore = Some (acc, rej, s') \<and> acc + rej = 1" by auto
qed

text \<open>Whatever lines the remote stack sends, the proxy writes a subsequence of them: every line that is not an
  event is passed on, no event identifier is sent twice on a connection, and the sequence numbers sent are strictly
  increasing and beyond the cursor of the client. A stream that already has distinct identifiers and increasing numbers
  beyond a nonnegative cursor passes unchanged.\<close>

theorem sse_proxy_filters:
  "let out = fst (proxyLoop um rend [] from lines) in
     subseq out lines \<and> filter (\<lambda>l. lineEvent um l = None) out = filter (\<lambda>l. lineEvent um l = None) lines \<and>
     distinct (lineIDs um out) \<and> sorted_wrt (<) (lineSeqs um out) \<and> (\<forall>n \<in> set (lineSeqs um out). from < n) \<and>
     (0 \<le> from \<and> distinct (lineIDs um lines) \<and> sorted_wrt (<) (lineSeqs um lines) \<and> (\<forall>n \<in> set (lineSeqs um lines). from < n) \<longrightarrow> out = lines)"
proof -
  obtain out err where o: "proxyLoop um rend [] from lines = (out, err)" by fastforce
  from proxyLoop_filters[OF o] proxyLoop_lossless[of um lines "[]" "from" rend] o show ?thesis by simp
qed

theorem sse_proxy_filters_witness:
  "fst (proxyLoop (\<lambda>x. if x = ''A'' then Some (sampleEnv ''a'' 1) else if x = ''B'' then Some (sampleEnv ''b'' 2) else None) EOF [] 0
     [''data: A'', ''data: B'']) = [''data: A'', ''data: B'']"
  using sse_proxy_filters[of "\<lambda>x. if x = ''A'' then Some (sampleEnv ''a'' 1) else if x = ''B'' then Some (sampleEnv ''b'' 2) else None" EOF 0
     "[''data: A'', ''data: B'']"]
  by (simp add: map_filter_Cons lineEvent_def trimEOL_def TrimPrefix_def TrimSpace_def isSpace_def sampleEnv_def jobj_def zget_def mget_def
      asObj_def strField_def asString_def floatToInt_def)

text \<open>Two federation hops lose nothing: when a stack streams the stored events of a run after a cursor and another
  stack proxies that stream with the same cursor, the proxy writes the stream unchanged, for every run of at most 10000
  events in every reachable state, provided the JSON text of each event decodes to it.\<close>

theorem relay_lossless:
  assumes reach: "reachable (\<lambda>s. s = newEventStore) ingest_step s"
    and evs: "es_List t r s = Some evs" "length evs \<le> maxSeenEventIDs"
    and sent: "ListFromSequence t r from s = Some sent" "0 \<le> from"
    and codec: "\<forall>e \<in> set evs. jsonText (marshal e) \<and> unmarshal (marshal e) = Some e"
  shows "proxyLoop unmarshal EOF [] from (readLines [] (concat (snd (StreamStoredEvents marshal True sent)))) =
    (snd (StreamStoredEvents marshal True sent), None)"
proof -
  have ok: "eventStoreOk s" using fed_events.inv_reachable[OF reach] .
  obtain st where st: "mget (es_m s) (t, r) = Some st" "se_events st = evs" "storedOk st" by (rule eventStoreOk_run[OF ok evs(1)])
  have sent': "sent = filter (\<lambda>e. envSequence e = 0 \<or> envSequence e > from) evs" using sent(1) st by (simp add: ListFromSequence_def)
  let ?ls = "concat (map (storedFrame marshal) sent)"
  have ev: "List.map_filter (lineEvent unmarshal) ?ls = map (\<lambda>e. (envID e, proxySequence e)) sent"
    by (rule frames_events) (use codec sent' st in \<open>auto simp: storedOk_def\<close>)
  have ids: "map fst (List.map_filter (lineEvent unmarshal) ?ls) = map envID sent" by (simp add: ev comp_def)
  have "distinct (map envID evs)" using st evs(2) by (auto simp: storedOk_def)
  then have "distinct (map envID sent)" unfolding sent' by (rule distinct_map_filter)
  then have d: "distinct (lineIDs unmarshal ?ls)" unfolding ids by (rule distinct_filter)
  have "sorted_wrt (<) (filter (\<lambda>n. n \<noteq> 0) (map envSequence evs))" using st(2,3) by (simp add: storedOk_def ordered_def)
  then have "sorted_wrt (<) (filter (\<lambda>n. n \<noteq> 0) (map proxySequence evs))" by (rule ordered_sub) (simp add: proxySequence_cases)
  then have "sorted_wrt (<) (filter (\<lambda>n. n \<noteq> 0) (map proxySequence sent))"
    using sorted_wrt_filter[of "\<lambda>x y. proxySequence x < proxySequence y" "filter (\<lambda>x. proxySequence x \<noteq> 0) evs"
        "\<lambda>e. envSequence e = 0 \<or> from < envSequence e"]
    unfolding sent' by (simp add: filter_map comp_def sorted_wrt_map conj_commute)
  then have so: "sorted_wrt (<) (lineSeqs unmarshal ?ls)" by (simp add: ev comp_def)
  have gt: "\<forall>n \<in> set (lineSeqs unmarshal ?ls). from < n"
  proof
    fix n assume "n \<in> set (lineSeqs unmarshal ?ls)"
    then obtain e where "e \<in> set sent" "n = proxySequence e" "n \<noteq> 0" by (auto simp: ev)
    with proxySequence_cases[of e] sent' show "from < n" by auto
  qed
  have "readLines [] (concat ?ls) = ?ls" by (rule readLines_frames) (use codec sent' in auto)
  moreover have "fst (proxyLoop unmarshal EOF [] from ?ls) = ?ls" by (rule proxyLoop_lossless[OF d _ so gt sent(2)]) simp
  moreover have "snd (proxyLoop unmarshal EOF seen q ls) = None" for seen q ls
    by (induction ls arbitrary: seen q) (auto simp: Let_def split: option.split prod.split; metis snd_conv)+
  ultimately show ?thesis by (simp add: StreamStoredEvents_def prod_eq_iff)
qed

theorem relay_lossless_witness:
  "let marshal = (\<lambda>e. if envID e = ''a'' then ''{A}'' else ''{B}'');
       unmarshal = (\<lambda>x. if x = ''{A}'' then Some (sampleEnv ''a'' 1) else if x = ''{B}'' then Some (sampleEnv ''b'' 2) else None) in
   proxyLoop unmarshal EOF [] 1 (readLines [] (concat (snd (StreamStoredEvents marshal True [sampleEnv ''b'' 2])))) =
     (storedFrame marshal (sampleEnv ''b'' 2), None)"
proof -
  let ?ms = "\<lambda>e. if envID e = ''a'' then ''{A}'' else ''{B}''"
  let ?um = "\<lambda>x. if x = ''{A}'' then Some (sampleEnv ''a'' 1) else if x = ''{B}'' then Some (sampleEnv ''b'' 2) else None"
  have l: "es_List ''acme'' ''r1'' sampleStore = Some [sampleEnv ''a'' 1, sampleEnv ''b'' 2]"
    and f: "ListFromSequence ''acme'' ''r1'' 1 sampleStore = Some [sampleEnv ''b'' 2]" by code_simp+
  have c: "\<forall>e \<in> set [sampleEnv ''a'' 1, sampleEnv ''b'' 2]. jsonText (?ms e) \<and> ?um (?ms e) = Some e"
    by (simp add: sampleEnv_event jsonText_def)
  show ?thesis using relay_lossless[OF sampleStore_reachable l _ f _ c] by (simp add: StreamStoredEvents_def)
qed

end
