(* ===== verification/Federation.thy ===== *)
theory Federation
  imports Fed_Stores Run_Handlers
begin

text \<open>
  The federation service (federation/peer_registry.go, forwarder.go, jwt.go, listen.go, sse_proxy.go, server.go): the
  peer registry with its health checks, the forwarding of runs with retries, the JWT gate and the HTTP handlers over the
  stores of \<open>Fed_Stores\<close>.

  \<^item> The HTTP client is a function of the attempt number: a transport error or a response with its status and the decoded
    body. Requests are recorded as values, so theorems can speak about what is sent and to whom.
  \<^item> golang-jwt is third-party: \<open>parseWithClaims\<close> stands for jwt.ParseWithClaims with the verifier's key and the allowed
    algorithms; its errors are the sentinel errors the code distinguishes.
  \<^item> Handlers take the method, the auth context left by WithAuth, the decoded body and the server state; the response is
    \<open>RErr\<close> or \<open>ROk\<close> as in \<open>Run_Handlers\<close>. Metrics, logging and correlation identifiers are left out.
  \<^item> \<open>fedHandler\<close> composes the JWT gate, WithAuth and the route table in the order of Server.Handler.
\<close>

subsection \<open>Peer registry\<close>

record peerInfo =
  pi_StackID :: string
  pi_Environment :: string
  pi_Region :: string
  pi_APIVersions :: "string list"
  pi_OrchestratorURL :: string
  pi_ModelPolicyURL :: string
  pi_Build :: "string \<times> string \<times> string"

record peersFile =
  pf_Local :: peerInfo
  pf_Peers :: "peerInfo list"

record peerHealth =
  ph_Healthy :: bool
  ph_LastCheck :: time
  ph_LastError :: string
  ph_Latency :: duration

record registry =
  rg_Local :: peerInfo
  rg_peers :: "(string, peerInfo) gomap"
  rg_health :: "(string, peerHealth) gomap"
  rg_stopped :: bool

definition emptyPeer :: peerInfo where
  "emptyPeer = \<lparr>pi_StackID = [], pi_Environment = [], pi_Region = [], pi_APIVersions = [], pi_OrchestratorURL = [],
     pi_ModelPolicyURL = [], pi_Build = ([], [], [])\<rparr>"

definition zeroHealth :: peerHealth where
  "zeroHealth = \<lparr>ph_Healthy = False, ph_LastCheck = 0, ph_LastError = [], ph_Latency = 0\<rparr>"

definition overrideLocal :: "(string \<Rightarrow> string) \<Rightarrow> peerInfo \<Rightarrow> peerInfo" where
  "overrideLocal getenv p =
     (let stackID = TrimSpace (getenv ''AGENTOS_STACK_ID''); env = TrimSpace (getenv ''AGENTOS_ENVIRONMENT'');
          region = TrimSpace (getenv ''AGENTOS_REGION'');
          p1 = (if stackID \<noteq> [] then p\<lparr>pi_StackID := stackID\<rparr> else p);
          p2 = (if env \<noteq> [] then p1\<lparr>pi_Environment := env\<rparr> else p1) in
      if region \<noteq> [] then p2\<lparr>pi_Region := region\<rparr> else p2)"

definition putPeer :: "peerInfo \<Rightarrow> (string, peerInfo) gomap \<Rightarrow> (string, peerInfo) gomap" where
  "putPeer p m = (if pi_StackID p = [] then m else mput (pi_StackID p) p m)"

definition LoadRegistryFromEnv :: "(string \<Rightarrow> string) \<Rightarrow> (string \<Rightarrow> string + peersFile) \<Rightarrow> string + registry" where
  "LoadRegistryFromEnv getenv readPeers =
     (let path = TrimSpace (getenv ''AGENTOS_PEERS_FILE'') in
      if path = [] then Inr \<lparr>rg_Local = emptyPeer, rg_peers = [], rg_health = [], rg_stopped = False\<rparr>
      else case readPeers path of
        Inl e \<Rightarrow> Inl e
      | Inr pf \<Rightarrow> Inr \<lparr>rg_Local = overrideLocal getenv (pf_Local pf), rg_peers = fold putPeer (pf_Peers pf) [],
                      rg_health = [], rg_stopped = False\<rparr>)"

definition Registry_Get :: "registry \<Rightarrow> string \<Rightarrow> peerInfo option" where
  "Registry_Get r stackID = mget (rg_peers r) stackID"

definition AddPeer :: "peerInfo \<Rightarrow> registry \<Rightarrow> registry" where
  "AddPeer peer r =
     (if pi_StackID peer = [] then r
      else r\<lparr>rg_peers := mput (pi_StackID peer) peer (rg_peers r),
             rg_health := (if mget (rg_health r) (pi_StackID peer) = None then mput (pi_StackID peer) zeroHealth (rg_health r) else rg_health r)\<rparr>)"

definition RemovePeer :: "string \<Rightarrow> registry \<Rightarrow> registry" where
  "RemovePeer stackID r = r\<lparr>rg_peers := mdel stackID (rg_peers r), rg_health := mdel stackID (rg_health r)\<rparr>"

definition Registry_List :: "registry \<Rightarrow> peerInfo list" where
  "Registry_List r = map snd (rg_peers r)"

definition HealthyPeers :: "registry \<Rightarrow> peerInfo list" where
  "HealthyPeers r = map snd (filter (\<lambda>(sid, p). case mget (rg_health r) sid of Some h \<Rightarrow> ph_Healthy h | None \<Rightarrow> False) (rg_peers r))"

definition GetHealth :: "registry \<Rightarrow> string \<Rightarrow> peerHealth option" where
  "GetHealth r stackID = mget (rg_health r) stackID"

definition updateHealth :: "time \<Rightarrow> string \<Rightarrow> bool \<Rightarrow> string \<Rightarrow> duration \<Rightarrow> registry \<Rightarrow> registry" where
  "updateHealth now stackID healthy errMsg latency r =
     r\<lparr>rg_health := mput stackID \<lparr>ph_Healthy = healthy, ph_LastCheck = now, ph_LastError = errMsg, ph_Latency = latency\<rparr> (rg_health r)\<rparr>"

definition trimRightSlash :: "string \<Rightarrow> string" where
  "trimRightSlash s = rev (dropWhile (\<lambda>c. c = CHR ''/'') (rev s))"

definition healthURL :: "peerInfo \<Rightarrow> string" where
  "healthURL peer = trimRightSlash (pi_OrchestratorURL peer) @ ''/health''"

text \<open>One probe of a peer: the error of building the request, the transport error or status, the latency and the clock.\<close>

record probe =
  pr_newReq :: "string option"
  pr_do :: "string + int"
  pr_latency :: duration
  pr_now :: time

definition checkPeer :: "probe \<Rightarrow> peerInfo \<Rightarrow> registry \<Rightarrow> registry" where
  "checkPeer p peer r =
     (case pr_newReq p of
        Some e \<Rightarrow> updateHealth (pr_now p) (pi_StackID peer) False e 0 r
      | None \<Rightarrow>
          (case pr_do p of
             Inl e \<Rightarrow> updateHealth (pr_now p) (pi_StackID peer) False e (pr_latency p) r
           | Inr status \<Rightarrow>
               let healthy = (status = 200) in
               updateHealth (pr_now p) (pi_StackID peer) healthy
                 (if healthy then [] else ''health check returned status '' @ Itoa status) (pr_latency p) r))"

definition checkAllPeers :: "(string \<Rightarrow> probe) \<Rightarrow> registry \<Rightarrow> registry" where
  "checkAllPeers probes r = fold (\<lambda>peer. checkPeer (probes (healthURL peer)) peer) (Registry_List r) r"

datatype tick = Tick "string \<Rightarrow> probe" | Stop

fun healthLoop :: "tick list \<Rightarrow> registry \<Rightarrow> registry" where
  "healthLoop [] r = r"
| "healthLoop (Stop # ts) r = r"
| "healthLoop (Tick probes # ts) r = healthLoop ts (checkAllPeers probes r)"

definition StartHealthChecks :: "(string \<Rightarrow> probe) \<Rightarrow> tick list \<Rightarrow> registry \<Rightarrow> registry" where
  "StartHealthChecks first ticks r = healthLoop ticks (checkAllPeers first r)"

definition StopHealthChecks :: "registry \<Rightarrow> registry" where
  "StopHealthChecks r = r\<lparr>rg_stopped := True\<rparr>"

subsection \<open>Forwarder\<close>

record forwarder =
  fw_MaxAttempts :: int
  fw_BaseBackoff :: duration

definition posEnv :: "(string \<Rightarrow> string) \<Rightarrow> string \<Rightarrow> int option" where
  "posEnv getenv name =
     (let v = TrimSpace (getenv name) in
      if v = [] then None else case Atoi v of Some n \<Rightarrow> if n > 0 then Some n else None | None \<Rightarrow> None)"

definition NewForwarder :: "(string \<Rightarrow> string) \<Rightarrow> forwarder" where
  "NewForwarder getenv =
     \<lparr>fw_MaxAttempts = (case posEnv getenv ''AGENTOS_FED_FORWARD_MAX_ATTEMPTS'' of Some n \<Rightarrow> n | None \<Rightarrow> 3),
      fw_BaseBackoff = (case posEnv getenv ''AGENTOS_FED_FORWARD_BASE_BACKOFF_MS'' of Some n \<Rightarrow> n * millisecond | None \<Rightarrow> 250 * millisecond)\<rparr>"

record httpReq =
  hq_method :: string
  hq_url :: string
  hq_headers :: "(string, string) gomap"
  hq_body :: json

record httpResp =
  hs_status :: int
  hs_statusText :: string
  hs_body :: "string + jmap"

type_synonym httpDo = "nat \<Rightarrow> string + httpResp"

record forwarded =
  fd_runID :: string
  fd_eventsURL :: string
  fd_status :: string

definition forwardHeaders :: "string \<Rightarrow> string \<Rightarrow> string \<Rightarrow> (string, string) gomap" where
  "forwardHeaders tenantID principalID bearer =
     [(''Content-Type'', ''application/json''), (''X-Tenant-Id'', tenantID)]
     @ (if principalID \<noteq> [] then [(''X-Principal-Id'', principalID)] else [])
     @ (if bearer \<noteq> [] then [(''Authorization'', ''Bearer '' @ bearer)] else [])"

definition absEvents :: "string \<Rightarrow> string \<Rightarrow> string" where
  "absEvents base eventsURL =
     (if HasPrefix eventsURL ''/'' then trimRightSlash base @ eventsURL
      else if HasPrefix eventsURL ''http://'' \<or> HasPrefix eventsURL ''https://'' then eventsURL
      else trimRightSlash base @ ''/'' @ eventsURL)"

definition objField :: "jmap \<Rightarrow> string \<Rightarrow> jmap" where
  "objField m k = (case asObj (jobj m k) of Some o1 \<Rightarrow> o1 | None \<Rightarrow> [])"

definition acceptResponse :: "string \<Rightarrow> string + jmap \<Rightarrow> string + forwarded" where
  "acceptResponse base body =
     (case body of
        Inl e \<Rightarrow> Inl e
      | Inr decoded \<Rightarrow>
          let runObj = objField decoded ''run''; runID = strField runObj ''run_id''; eventsURL = strField runObj ''events_url'';
              status = strField runObj ''status'' in
          if runID = [] \<or> eventsURL = [] then Inl ''remote response missing run_id/events_url''
          else Inr \<lparr>fd_runID = runID, fd_eventsURL = absEvents base eventsURL, fd_status = (if status = [] then ''queued'' else status)\<rparr>)"

text \<open>
  The attempts of ForwardRun: \<open>left\<close> attempts remain. The result has the number of requests sent and the time slept.
\<close>

fun forwardLoop :: "httpDo \<Rightarrow> string \<Rightarrow> duration \<Rightarrow> nat \<Rightarrow> nat \<Rightarrow> string \<Rightarrow> (string + forwarded) \<times> nat \<times> duration" where
  "forwardLoop do base backoff attempt 0 lastErr = (Inl lastErr, attempt - 1, 0)"
| "forwardLoop do base backoff attempt (Suc left) lastErr =
     (let retry = (\<lambda>err. let nap = (if left > 0 then int attempt * backoff else 0);
                             (res, n, slept) = forwardLoop do base backoff (Suc attempt) left err in
                         (res, n, nap + slept)) in
      case do attempt of
        Inl e \<Rightarrow> retry e
      | Inr resp \<Rightarrow>
          if 200 \<le> hs_status resp \<and> hs_status resp < 300 then (acceptResponse base (hs_body resp), attempt, 0)
          else
            let err = ''remote agent-orchestrator returned '' @ hs_statusText resp in
            if 400 \<le> hs_status resp \<and> hs_status resp < 500 then (Inl err, attempt, 0) else retry err)"

definition runsURL :: "string \<Rightarrow> string \<Rightarrow> string" where
  "runsURL base agentID = trimRightSlash base @ ''/v1/agents/'' @ agentID @ ''/runs''"

definition ForwardRun ::
  "(string \<Rightarrow> string option) \<Rightarrow> (json \<Rightarrow> string option) \<Rightarrow> httpDo \<Rightarrow> forwarder \<Rightarrow> string \<Rightarrow> string \<Rightarrow> string \<Rightarrow> string \<Rightarrow> string \<Rightarrow> jmap
   \<Rightarrow> (string + forwarded) \<times> httpReq list \<times> duration" where
  "ForwardRun badURL marshalErr do f base agentID tenantID principalID bearer runCreateReq =
     (let maxAttempts = (if fw_MaxAttempts f \<le> 0 then 1 else nat (fw_MaxAttempts f));
          backoff = (if fw_BaseBackoff f \<le> 0 then 250 * millisecond else fw_BaseBackoff f);
          url = runsURL base agentID in
      case marshalErr (JObj runCreateReq) of
        Some e \<Rightarrow> (Inl (''failed to marshal run create request: '' @ e), [], 0)
      | None \<Rightarrow>
          (case badURL url of
             Some e \<Rightarrow> (Inl (''failed to create HTTP request: '' @ e), [], 0)
           | None \<Rightarrow>
               let (res, n, slept) = forwardLoop do base backoff 1 maxAttempts [] in
               (res, replicate n \<lparr>hq_method = ''POST'', hq_url = url, hq_headers = forwardHeaders tenantID principalID bearer,
                                  hq_body = JObj runCreateReq\<rparr>, slept)))"

subsection \<open>SSE proxy\<close>

record streamResp =
  sr_status :: int
  sr_statusText :: string
  sr_body :: string
  sr_end :: readEnd

fun proxyAttempts :: "(nat \<Rightarrow> string + streamResp) \<Rightarrow> nat \<Rightarrow> nat \<Rightarrow> string \<Rightarrow> (string + streamResp) \<times> nat" where
  "proxyAttempts do attempt 0 lastErr = (Inl lastErr, attempt - 1)"
| "proxyAttempts do attempt (Suc left) lastErr =
     (case do attempt of Inr resp \<Rightarrow> (Inr resp, attempt) | Inl e \<Rightarrow> proxyAttempts do (Suc attempt) left e)"

definition addFromSequence :: "(string \<Rightarrow> int \<Rightarrow> string option) \<Rightarrow> string \<Rightarrow> int \<Rightarrow> string" where
  "addFromSequence setQuery remoteEventsURL fromSequence =
     (if fromSequence \<le> 0 then remoteEventsURL
      else case setQuery remoteEventsURL fromSequence of Some u \<Rightarrow> u | None \<Rightarrow> remoteEventsURL)"

text \<open>
  The environment of the proxy: request construction, url.Parse with Query.Set, the client per attempt, whether the
  response writer can flush, and json.Unmarshal. The result is an error before anything was written, or the lines
  written with the error that ended the stream, and the requests sent.
\<close>

record proxyEnv =
  px_badURL :: "string \<Rightarrow> string option"
  px_setQuery :: "string \<Rightarrow> int \<Rightarrow> string option"
  px_do :: "nat \<Rightarrow> string + streamResp"
  px_flusher :: bool
  px_unmarshal :: "string \<Rightarrow> jmap option"
  px_marshal :: "jmap \<Rightarrow> string"

definition proxyHeaders :: "string \<Rightarrow> string \<Rightarrow> string \<Rightarrow> (string, string) gomap" where
  "proxyHeaders tenantID principalID bearer =
     [(''Accept'', ''text/event-stream''), (''X-Tenant-Id'', tenantID)]
     @ (if principalID \<noteq> [] then [(''X-Principal-Id'', principalID)] else [])
     @ (if bearer \<noteq> [] then [(''Authorization'', ''Bearer '' @ bearer)] else [])"

definition Proxy :: "proxyEnv \<Rightarrow> string \<Rightarrow> string \<Rightarrow> string \<Rightarrow> string \<Rightarrow> int \<Rightarrow> (string + (string list \<times> string option)) \<times> httpReq list" where
  "Proxy pe remoteEventsURL tenantID principalID bearer fromSequence =
     (let targetURL = addFromSequence (px_setQuery pe) remoteEventsURL fromSequence in
      case px_badURL pe targetURL of
        Some e \<Rightarrow> (Inl e, [])
      | None \<Rightarrow>
          (case proxyAttempts (px_do pe) 1 3 [] of
             (res, n) \<Rightarrow>
               let reqs = replicate n \<lparr>hq_method = ''GET'', hq_url = targetURL, hq_headers = proxyHeaders tenantID principalID bearer, hq_body = JNull\<rparr> in
               case res of
                 Inl e \<Rightarrow> (Inl e, reqs)
               | Inr resp \<Rightarrow>
                   if sr_status resp < 200 \<or> sr_status resp \<ge> 300 then (Inl (''remote events returned '' @ sr_statusText resp), reqs)
                   else if \<not> px_flusher pe then (Inl ''streaming unsupported by response writer'', reqs)
                   else (Inr (proxyLoop (px_unmarshal pe) (sr_end resp) [] fromSequence (readLines [] (sr_body resp))), reqs)))"

subsection \<open>JWT gate and TLS configuration\<close>

datatype jwtLibErr = JwtTokenExpired | JwtSignatureInvalid | JwtMalformed | JwtOther

datatype verifyErr = ErrInvalidToken | ErrTokenExpired | ErrInvalidSignature

record jwtPayload =
  jp_TenantID :: string
  jp_PrincipalID :: string
  jp_Subject :: string
  jp_Issuer :: string
  jp_Audience :: "string list"
  jp_ExpiresAt :: "int option"
  jp_IssuedAt :: "int option"

record jwtClaims =
  jc_TenantID :: string
  jc_PrincipalID :: string
  jc_Subject :: string
  jc_Issuer :: string
  jc_Audience :: string
  jc_ExpiresAt :: int
  jc_IssuedAt :: int

definition Verify :: "(string \<Rightarrow> jwtLibErr list + (jwtPayload \<times> bool)) \<Rightarrow> string \<Rightarrow> verifyErr + jwtClaims" where
  "Verify parseWithClaims tokenStr =
     (case parseWithClaims tokenStr of
        Inl errs \<Rightarrow>
          if JwtTokenExpired \<in> set errs then Inl ErrTokenExpired
          else if JwtSignatureInvalid \<in> set errs then Inl ErrInvalidSignature
          else if JwtMalformed \<in> set errs then Inl ErrInvalidToken
          else Inl ErrInvalidToken
      | Inr (parsed, valid) \<Rightarrow>
          if \<not> valid then Inl ErrInvalidToken
          else Inr \<lparr>jc_TenantID = jp_TenantID parsed, jc_PrincipalID = jp_PrincipalID parsed, jc_Subject = jp_Subject parsed,
                   jc_Issuer = jp_Issuer parsed, jc_Audience = (case jp_Audience parsed of [] \<Rightarrow> [] | a # _ \<Rightarrow> a),
                   jc_ExpiresAt = (case jp_ExpiresAt parsed of None \<Rightarrow> 0 | Some t \<Rightarrow> t),
                   jc_IssuedAt = (case jp_IssuedAt parsed of None \<Rightarrow> 0 | Some t \<Rightarrow> t)\<rparr>)"

definition fedDevMode :: "(string \<Rightarrow> string) \<Rightarrow> bool" where
  "fedDevMode getenv \<longleftrightarrow> TrimSpace (getenv ''AGENTOS_FED_AUTH_DISABLED'') = ''1''"

definition parsePublicKey ::
  "(string \<Rightarrow> (string \<times> string) option) \<Rightarrow> (string \<Rightarrow> string + 'k) \<Rightarrow> (string \<Rightarrow> string + 'k) \<Rightarrow> string \<Rightarrow> string + 'k" where
  "parsePublicKey pemDecode parsePKIX parsePKCS1 data =
     (case pemDecode data of
        None \<Rightarrow> Inl ''failed to decode PEM block''
      | Some (ty, bytes) \<Rightarrow>
          if ty = ''PUBLIC KEY'' then parsePKIX bytes
          else if ty = ''RSA PUBLIC KEY'' then parsePKCS1 bytes
          else Inl (''unsupported key type: '' @ ty))"

definition NewJWTVerifier ::
  "(string \<Rightarrow> string) \<Rightarrow> (string \<Rightarrow> string + string) \<Rightarrow> (string \<Rightarrow> string + 'k) \<Rightarrow> string + 'k option" where
  "NewJWTVerifier getenv readFileBytes parseKey =
     (if fedDevMode getenv then Inr None
      else
        let publicKeyPath = TrimSpace (getenv ''AGENTOS_FED_JWT_PUBLIC_KEY'') in
        if publicKeyPath = []
        then Inl ''AGENTOS_FED_JWT_PUBLIC_KEY not set; set AGENTOS_FED_AUTH_DISABLED=1 for dev mode''
        else case readFileBytes publicKeyPath of
          Inl e \<Rightarrow> Inl (''failed to read public key '' @ publicKeyPath @ '': '' @ e)
        | Inr data \<Rightarrow>
            (case parseKey data of Inl e \<Rightarrow> Inl (''failed to parse public key: '' @ e) | Inr k \<Rightarrow> Inr (Some k)))"

definition setHeader :: "string \<Rightarrow> string \<Rightarrow> (string \<Rightarrow> string) \<Rightarrow> string \<Rightarrow> string" where
  "setHeader name v header = (if v = [] then header else header(name := v))"

definition bearerOf :: "string \<Rightarrow> string" where
  "bearerOf authHeader = (if HasPrefix (ToLower authHeader) ''bearer '' then TrimSpace (drop 7 authHeader) else [])"

definition JWTMiddleware ::
  "(string \<Rightarrow> string) \<Rightarrow> (string \<Rightarrow> verifyErr + jwtClaims) option \<Rightarrow> (string \<Rightarrow> string) \<Rightarrow> httpError + (string \<Rightarrow> string)" where
  "JWTMiddleware getenv verifier header =
     (case verifier of
        None \<Rightarrow>
          if fedDevMode getenv then Inr header
          else Inl (httpxError 503 ''auth_unavailable'' ''federation auth not configured'' False)
      | Some verify \<Rightarrow>
          let token = bearerOf (header ''Authorization'') in
          if token = [] then Inl (httpxError 401 ''unauthorized'' ''missing bearer token'' False)
          else case verify token of
            Inl e \<Rightarrow> Inl (httpxError 401 ''unauthorized'' (if e = ErrTokenExpired then ''token expired'' else ''invalid token'') False)
          | Inr claims \<Rightarrow>
              Inr (setHeader ''X-JWT-Subject'' (jc_Subject claims)
                    (setHeader ''X-JWT-Principal-Id'' (jc_PrincipalID claims)
                      (setHeader ''X-JWT-Tenant-Id'' (jc_TenantID claims) header))))"

datatype tlsMode = PlainHTTP | TLSOnly | MutualTLS

definition loadMTLSServerConfig :: "(string \<Rightarrow> string) \<Rightarrow> (string \<Rightarrow> bool) \<Rightarrow> tlsMode" where
  "loadMTLSServerConfig getenv goodCA =
     (if \<not> EqualFold (TrimSpace (getenv ''AGENTOS_FED_REQUIRE_MTLS'')) ''true'' then PlainHTTP
      else if TrimSpace (getenv ''AGENTOS_FED_SERVER_CERT'') = [] \<or> TrimSpace (getenv ''AGENTOS_FED_SERVER_KEY'') = [] then PlainHTTP
      else let ca = TrimSpace (getenv ''AGENTOS_FED_CA_CERT'') in
           if ca \<noteq> [] \<and> goodCA ca then MutualTLS else TLSOnly)"

subsection \<open>Handlers\<close>

record fedServer =
  fs_registry :: "registry option"
  fs_forward :: forwarder
  fs_index :: forwardIndex
  fs_files :: "forwardIndexRecord list fileTree"
  fs_events :: eventStore
  fs_audit :: "auditEntry list"

record forwardBody =
  fb_tenantID :: string
  fb_stackID :: string
  fb_run :: forwarded

datatype fedBody =
    FPeer peerInfo
  | FCapabilities string
  | FForwarded forwardBody
  | FIngested nat nat
  | FStream "string list" "string option"
  | FRegistered peerInfo
  | FHealth

text \<open>What a handler sees of the outside: the clock, the outcome of file writes, and the HTTP clients.\<close>

record fedEnv =
  fe_now :: time
  fe_io :: "string option"
  fe_badURL :: "string \<Rightarrow> string option"
  fe_marshalErr :: "json \<Rightarrow> string option"
  fe_do :: httpDo
  fe_proxy :: proxyEnv

record fedRequest =
  fq_method :: string
  fq_path :: string
  fq_query :: "string \<Rightarrow> string"
  fq_body :: "string + jmap"
  fq_peer :: "string + peerInfo"

definition newFedServer ::
  "(string \<Rightarrow> string) \<Rightarrow> (string \<Rightarrow> string + peersFile) \<Rightarrow> time \<Rightarrow> forwardIndexRecord list fileTree \<Rightarrow> fedServer" where
  "newFedServer getenv readPeers now files =
     (let path = getenv ''AGENTOS_FED_FORWARD_INDEX_FILE'';
          idxPath = (if path = [] then ''data/federation/forward-index.json'' else path) in
      \<lparr>fs_registry = (case LoadRegistryFromEnv getenv readPeers of Inl _ \<Rightarrow> None | Inr r \<Rightarrow> Some r),
       fs_forward = NewForwarder getenv, fs_index = newForwardIndexPersistent now idxPath files, fs_files = files,
       fs_events = newEventStore, fs_audit = []\<rparr>)"

definition fedAudit :: "string \<Rightarrow> string \<Rightarrow> string \<Rightarrow> string \<Rightarrow> (string \<Rightarrow> string) \<Rightarrow> jmap \<Rightarrow> fedServer \<Rightarrow> fedServer" where
  "fedAudit tenantID principalID action resource header meta s =
     s\<lparr>fs_audit := fs_audit s @ [\<lparr>au_TenantID = tenantID, au_PrincipalID = principalID, au_Action = action, au_Resource = resource,
        au_Outcome = ''allowed'', au_RequestID = header ''X-Request-Id'', au_Meta = meta\<rparr>]\<rparr>"

definition bearerToken :: "string \<Rightarrow> string" where
  "bearerToken header =
     (let h = TrimSpace header in
      if HasPrefix (ToLower h) ''bearer '' then TrimSpace (drop (length ''bearer '') h) else [])"

definition headerTenant :: "(string \<Rightarrow> string) \<Rightarrow> authContext \<Rightarrow> httpError + string" where
  "headerTenant getenv ac =
     (case RequireTenant getenv ac of
        Inl ErrTenantMismatch \<Rightarrow> Inl (httpxError 400 ''tenant_mismatch'' (tenantErrMsg ErrTenantMismatch) False)
      | Inl ErrTenantRequired \<Rightarrow> Inr []
      | Inr t \<Rightarrow> Inr t)"

definition payloadTenant :: "string \<Rightarrow> jmap \<Rightarrow> httpError + string" where
  "payloadTenant tenantHdr authObj =
     (let tenantPayload = strField authObj ''tenant_id''; tenantID = (if tenantPayload = [] then tenantHdr else tenantPayload) in
      if tenantID = [] then Inl (httpxError 401 ''unauthorized'' ''tenant_id required'' False)
      else if tenantHdr \<noteq> [] \<and> tenantPayload \<noteq> [] \<and> TrimSpace tenantHdr \<noteq> TrimSpace tenantPayload
      then Inl (httpxError 400 ''tenant_mismatch'' ''tenant_id mismatch between header and payload auth'' False)
      else Inr tenantID)"

definition badRequest :: "string \<Rightarrow> httpError" where
  "badRequest msg = httpxError 400 ''invalid_request'' msg False"

definition invalidJSON :: httpError where
  "invalidJSON = httpxError 400 ''invalid_json'' ''invalid json body'' False"

definition noRegistry :: "string \<Rightarrow> httpError" where
  "noRegistry msg = httpxError 503 ''unavailable'' msg True"

definition handlePeerInfo :: "fedRequest \<Rightarrow> fedServer \<Rightarrow> fedBody resp" where
  "handlePeerInfo rq s =
     (if fq_method rq \<noteq> ''GET'' then RErr methodNotAllowed
      else case fs_registry s of
        None \<Rightarrow> RErr (noRegistry ''peer registry not configured (AGENTOS_PEERS_FILE)'')
      | Some r \<Rightarrow> ROk 200 (FPeer (rg_Local r)))"

definition handlePeerCapabilities :: "(string \<Rightarrow> string) \<Rightarrow> fedRequest \<Rightarrow> fedBody resp" where
  "handlePeerCapabilities getenv rq =
     (if fq_method rq \<noteq> ''GET'' then RErr methodNotAllowed
      else let peerID = TrimSpace (getenv ''AGENTOS_STACK_ID'') in
           ROk 200 (FCapabilities (if peerID = [] then ''stk_local'' else peerID)))"

definition runCreateOf :: "jmap \<Rightarrow> jmap" where
  "runCreateOf runReq = map (\<lambda>k. (k, jobj runReq k)) [''input'', ''context'', ''tooling'', ''run_options'', ''idempotency_key'']"

definition handleForwardRun ::
  "(string \<Rightarrow> string) \<Rightarrow> fedEnv \<Rightarrow> (string \<Rightarrow> string) \<Rightarrow> authContext \<Rightarrow> fedRequest \<Rightarrow> fedServer \<Rightarrow> fedBody resp \<times> httpReq list \<times> fedServer" where
  "handleForwardRun getenv env header ac rq s =
     (let fail = (\<lambda>e. (RErr e, [], s)) in
      if fq_method rq \<noteq> ''POST'' then fail methodNotAllowed
      else case fs_registry s of
        None \<Rightarrow> fail (noRegistry ''peer registry not configured (AGENTOS_PEERS_FILE)'')
      | Some reg \<Rightarrow>
      (case headerTenant getenv ac of
        Inl e \<Rightarrow> fail e
      | Inr tenantHdr \<Rightarrow>
      (case fq_body rq of
        Inl _ \<Rightarrow> fail invalidJSON
      | Inr req \<Rightarrow>
      (case asObj (jobj req ''forward'') of
        None \<Rightarrow> fail (badRequest ''missing forward object'')
      | Some forwardObj \<Rightarrow>
      (case (asObj (jobj forwardObj ''target_selector''), asObj (jobj forwardObj ''auth''), asObj (jobj forwardObj ''run_request'')) of
        (Some selector, Some authObj, Some runReq) \<Rightarrow>
          let targetStackID = strField selector ''stack_id'' in
          if targetStackID = [] then fail (badRequest ''target_selector.stack_id required'')
          else
          (case payloadTenant tenantHdr authObj of
            Inl e \<Rightarrow> fail e
          | Inr tenantID \<Rightarrow>
          (case Registry_Get reg targetStackID of
            None \<Rightarrow> fail (httpxError 404 ''peer_not_found'' ''target peer not found'' False)
          | Some peer \<Rightarrow>
              let agentID = strField runReq ''agent_id''; principal = strField authObj ''principal_id'' in
              if agentID = [] then fail (badRequest ''run_request.agent_id required'')
              else
              (case ForwardRun (fe_badURL env) (fe_marshalErr env) (fe_do env) (fs_forward s) (pi_OrchestratorURL peer) agentID tenantID
                      principal (bearerToken (header ''Authorization'')) (runCreateOf runReq) of
                 (Inl e, reqs, _) \<Rightarrow> (RErr (httpxError 502 ''forward_failed'' e True), reqs, s)
               | (Inr fd, reqs, _) \<Rightarrow>
                   (case fi_Set (fe_io env) (fe_now env) tenantID (fd_runID fd) (pi_StackID peer) (fd_eventsURL fd) (fs_index s) (fs_files s) of
                      (index', files') \<Rightarrow>
                        (ROk 200 (FForwarded \<lparr>fb_tenantID = tenantID, fb_stackID = pi_StackID peer, fb_run = fd\<rparr>), reqs,
                         fedAudit tenantID principal ''federation.runs.forward'' (''run/'' @ fd_runID fd) header
                           [(''target_stack_id'', JStr (pi_StackID peer))] (s\<lparr>fs_index := index', fs_files := files'\<rparr>)))))
          )
      | _ \<Rightarrow> fail (badRequest ''missing required forward fields''))))))"

text \<open>The loop of the ingest handler; None is the panic of \<open>Ingest\<close>, which the server invariant excludes.\<close>

fun ingestEvents :: "string \<Rightarrow> json list \<Rightarrow> nat \<Rightarrow> nat \<Rightarrow> eventStore \<Rightarrow> (nat \<times> nat \<times> eventStore) option" where
  "ingestEvents tenantID [] a r es = Some (a, r, es)"
| "ingestEvents tenantID (ev # evs) a r es =
     (case asObj ev of
        None \<Rightarrow> ingestEvents tenantID evs a (r + 1) es
      | Some env \<Rightarrow>
          let runID = strField (objField env ''event'') ''run_id'' in
          if runID = [] then ingestEvents tenantID evs a (r + 1) es
          else case Ingest tenantID runID [env] es of
            None \<Rightarrow> None
          | Some (a1, r1, es1) \<Rightarrow> ingestEvents tenantID evs (a + a1) (r + r1) es1)"

definition handleEventsIngest ::
  "(string \<Rightarrow> string) \<Rightarrow> (string \<Rightarrow> string) \<Rightarrow> authContext \<Rightarrow> fedRequest \<Rightarrow> fedServer \<Rightarrow> (fedBody resp \<times> fedServer) option" where
  "handleEventsIngest getenv header ac rq s =
     (if fq_method rq \<noteq> ''POST'' then Some (RErr methodNotAllowed, s)
      else case headerTenant getenv ac of
        Inl e \<Rightarrow> Some (RErr e, s)
      | Inr tenantHdr \<Rightarrow>
      (case fq_body rq of
        Inl _ \<Rightarrow> Some (RErr invalidJSON, s)
      | Inr req \<Rightarrow>
      (case asObj (jobj req ''auth'') of
        None \<Rightarrow> Some (RErr (badRequest ''missing auth''), s)
      | Some authObj \<Rightarrow>
      (case payloadTenant tenantHdr authObj of
        Inl e \<Rightarrow> Some (RErr e, s)
      | Inr tenantID \<Rightarrow>
          let events = (case asArr (jobj req ''events'') of Some evs \<Rightarrow> evs | None \<Rightarrow> []) in
          map_option (\<lambda>(a, r, es).
              (ROk 200 (FIngested a r),
               fedAudit tenantID (strField authObj ''principal_id'') ''federation.events.ingest'' (''peer/'' @ strField req ''peer_id'') header
                 [(''accepted'', JNum (of_nat a)), (''rejected'', JNum (of_nat r))] (s\<lparr>fs_events := es\<rparr>)))
            (ingestEvents tenantID events 0 0 (fs_events s))))))"

definition fromSeqOf :: "fedRequest \<Rightarrow> int" where
  "fromSeqOf rq =
     (let v = fq_query rq ''from_sequence'' in
      if v = [] then 0 else case Atoi v of Some n \<Rightarrow> if n > 0 then n else 0 | None \<Rightarrow> 0)"

definition handleRunEvents ::
  "(string \<Rightarrow> string) \<Rightarrow> fedEnv \<Rightarrow> (string \<Rightarrow> string) \<Rightarrow> authContext \<Rightarrow> fedRequest \<Rightarrow> fedServer \<Rightarrow> fedBody resp \<times> httpReq list" where
  "handleRunEvents getenv env header ac rq s =
     (if fq_method rq \<noteq> ''GET'' then (RErr methodNotAllowed, [])
      else case ResolveTenantHTTP getenv ac of
        Inl e \<Rightarrow> (RErr e, [])
      | Inr tenantID \<Rightarrow>
          (case splitByte CHR ''/'' (trimSlash (TrimPrefix (fq_path rq) ''/v1/federation/runs/'')) of
             [runID, p] \<Rightarrow>
               if p \<noteq> ''events'' then (RErr (httpxError 404 ''not_found'' ''not found'' False), [])
               else
               (let fromSeq = fromSeqOf rq;
                    stored = (case ListFromSequence tenantID runID fromSeq (fs_events s) of
                        Some envs \<Rightarrow> (ROk 200 (FStream (snd (StreamStoredEvents (px_marshal (fe_proxy env)) (px_flusher (fe_proxy env)) envs)) None), [])
                      | None \<Rightarrow> (RErr (httpxError 404 ''not_found'' ''run not found'' False), [])) in
                case fi_Get tenantID runID (fs_index s) of
                  Some tgt \<Rightarrow>
                    if ft_RemoteEventsURL tgt \<noteq> []
                    then (case Proxy (fe_proxy env) (ft_RemoteEventsURL tgt) tenantID (ac_PrincipalID ac) (bearerToken (header ''Authorization'')) fromSeq of
                            (Inl e, reqs) \<Rightarrow> (RErr (httpxError 502 ''events_proxy_failed'' e True), reqs)
                          | (Inr (lines, err), reqs) \<Rightarrow> (ROk 200 (FStream lines err), reqs))
                    else stored
                | None \<Rightarrow> stored)
           | _ \<Rightarrow> (RErr (httpxError 404 ''not_found'' ''not found'' False), [])))"

definition handlePeers :: "(string \<Rightarrow> string) \<Rightarrow> authContext \<Rightarrow> fedRequest \<Rightarrow> fedServer \<Rightarrow> fedBody resp \<times> fedServer" where
  "handlePeers header ac rq s =
     (if fq_method rq \<noteq> ''POST'' then (RErr methodNotAllowed, s)
      else case fs_registry s of
        None \<Rightarrow> (RErr (noRegistry ''peer registry not configured''), s)
      | Some reg \<Rightarrow>
          (case fq_peer rq of
             Inl _ \<Rightarrow> (RErr invalidJSON, s)
           | Inr peer \<Rightarrow>
               if pi_StackID peer = [] then (RErr (badRequest ''stack_id is required''), s)
               else (ROk 201 (FRegistered peer),
                     fedAudit [] (ac_PrincipalID ac) ''federation.peers.register'' (''peer/'' @ pi_StackID peer) header
                       [(''stack_id'', JStr (pi_StackID peer)), (''region'', JStr (pi_Region peer))]
                       (s\<lparr>fs_registry := Some (AddPeer peer reg)\<rparr>))))"

subsection \<open>The composed handler\<close>

datatype fedRoute = FrHealth | FrPeer | FrCapabilities | FrPeers | FrForward | FrRunEvents | FrIngest | FrMetrics | FrNone

definition fedRouteOf :: "string \<Rightarrow> fedRoute" where
  "fedRouteOf path =
     (if path = ''/v1/federation/health'' then FrHealth
      else if path = ''/v1/federation/peer'' then FrPeer
      else if path = ''/v1/federation/peer/capabilities'' then FrCapabilities
      else if path = ''/v1/federation/peers'' then FrPeers
      else if path = ''/v1/federation/runs:forward'' then FrForward
      else if path = ''/v1/federation/events:ingest'' then FrIngest
      else if path = ''/metrics'' then FrMetrics
      else if HasPrefix path ''/v1/federation/runs/'' then FrRunEvents else FrNone)"

definition MetricsRequireAuth :: "(string \<Rightarrow> string) \<Rightarrow> bool" where
  "MetricsRequireAuth getenv =
     (let v = getenv ''AGENTOS_METRICS_REQUIRE_AUTH'' in
      if v = [] then True else case Atoi v of None \<Rightarrow> True | Some i \<Rightarrow> i \<noteq> 0)"

definition routeFed ::
  "(string \<Rightarrow> string) \<Rightarrow> fedEnv \<Rightarrow> (string \<Rightarrow> string) \<Rightarrow> authContext \<Rightarrow> fedRequest \<Rightarrow> fedServer \<Rightarrow> (fedBody resp \<times> httpReq list \<times> fedServer) option" where
  "routeFed getenv env header ac rq s =
     (case fedRouteOf (fq_path rq) of
        FrHealth \<Rightarrow> Some (ROk 200 FHealth, [], s)
      | FrPeer \<Rightarrow> Some (handlePeerInfo rq s, [], s)
      | FrCapabilities \<Rightarrow> Some (handlePeerCapabilities getenv rq, [], s)
      | FrPeers \<Rightarrow> (case handlePeers header ac rq s of (resp, s') \<Rightarrow> Some (resp, [], s'))
      | FrForward \<Rightarrow> Some (handleForwardRun getenv env header ac rq s)
      | FrRunEvents \<Rightarrow> (case handleRunEvents getenv env header ac rq s of (resp, reqs) \<Rightarrow> Some (resp, reqs, s))
      | FrIngest \<Rightarrow> map_option (\<lambda>(resp, s'). (resp, [], s')) (handleEventsIngest getenv header ac rq s)
      | FrMetrics \<Rightarrow> Some (case ProtectMetrics getenv (MetricsRequireAuth getenv) ac of Some e \<Rightarrow> RErr e | None \<Rightarrow> ROk 200 FHealth, [], s)
      | FrNone \<Rightarrow> Some (RErr (httpxError 404 [] ''404 page not found'' False), [], s))"

definition fedHandler ::
  "(string \<Rightarrow> string) \<Rightarrow> (string \<Rightarrow> verifyErr + jwtClaims) option \<Rightarrow> (oidcConfig \<times> (string \<Rightarrow> string + jmap)) option \<Rightarrow> fedEnv
   \<Rightarrow> (string \<Rightarrow> string) \<Rightarrow> fedRequest \<Rightarrow> fedServer \<Rightarrow> (fedBody resp \<times> httpReq list \<times> fedServer) option" where
  "fedHandler getenv verifier oidc env header rq s =
     (case JWTMiddleware getenv verifier header of
        Inl e \<Rightarrow> Some (RErr e, [], s)
      | Inr header' \<Rightarrow>
          (case WithAuth oidc header' of
             Inl e \<Rightarrow> Some (RErr e, [], s)
           | Inr ac \<Rightarrow> routeFed getenv env header' ac rq s))"

subsection \<open>Facts on the forwarder\<close>

text \<open>An attempt is decisive when its response ends the loop: success or a client error.\<close>

definition decisive :: "string + httpResp \<Rightarrow> bool" where
  "decisive x = (case x of Inl _ \<Rightarrow> False | Inr resp \<Rightarrow> 200 \<le> hs_status resp \<and> hs_status resp < 300 \<or> 400 \<le> hs_status resp \<and> hs_status resp < 500)"

definition attemptErr :: "string + httpResp \<Rightarrow> string" where
  "attemptErr x = (case x of Inl e \<Rightarrow> e | Inr resp \<Rightarrow> ''remote agent-orchestrator returned '' @ hs_statusText resp)"

definition outcome :: "string \<Rightarrow> string + httpResp \<Rightarrow> string + forwarded" where
  "outcome base x =
     (case x of
        Inr resp \<Rightarrow> if 200 \<le> hs_status resp \<and> hs_status resp < 300 then acceptResponse base (hs_body resp) else Inl (attemptErr x)
      | Inl e \<Rightarrow> Inl e)"

definition attemptsOf :: "forwarder \<Rightarrow> nat" where
  "attemptsOf f = (if fw_MaxAttempts f \<le> 0 then 1 else nat (fw_MaxAttempts f))"

definition backoffOf :: "forwarder \<Rightarrow> duration" where
  "backoffOf f = (if fw_BaseBackoff f \<le> 0 then 250 * millisecond else fw_BaseBackoff f)"

definition forwardReq :: "string \<Rightarrow> string \<Rightarrow> string \<Rightarrow> string \<Rightarrow> string \<Rightarrow> jmap \<Rightarrow> httpReq" where
  "forwardReq base agentID tenantID principalID bearer body = \<lparr>hq_method = ''POST'', hq_url = runsURL base agentID,
     hq_headers = forwardHeaders tenantID principalID bearer, hq_body = JObj body\<rparr>"

lemma forwardLoop_decisive:
  assumes "decisive (do k)" "attempt \<le> k" "k < attempt + left" "\<forall>j. attempt \<le> j \<and> j < k \<longrightarrow> \<not> decisive (do j)"
  shows "forwardLoop do base b attempt left err = (outcome base (do k), k, b * (\<Sum>j = attempt..<k. int j))"
  using assms
proof (induction left arbitrary: attempt err)
  case (Suc left)
  show ?case
  proof (cases "attempt = k")
    case True
    with Suc.prems(1) show ?thesis
      by (auto simp: Let_def decisive_def outcome_def attemptErr_def split: sum.splits)
  next
    case False
    with Suc.prems have lt: "attempt < k" "\<not> decisive (do attempt)" "0 < left" by auto
    have ih: "forwardLoop do base b (Suc attempt) left e = (outcome base (do k), k, b * (\<Sum>j = Suc attempt..<k. int j))" for e
      by (rule Suc.IH) (use Suc.prems lt in auto)
    have sum: "(\<Sum>j = attempt..<k. int j) = int attempt + (\<Sum>j = Suc attempt..<k. int j)" using lt(1) by (rule sum.atLeast_Suc_lessThan)
    show ?thesis using lt(2,3) by (auto simp: Let_def decisive_def ih sum algebra_simps split: sum.splits)
  qed
qed simp

lemma forwardLoop_exhausted:
  assumes "\<forall>j. attempt \<le> j \<and> j < attempt + left \<longrightarrow> \<not> decisive (do j)" "0 < left"
  shows "forwardLoop do base b attempt left err =
    (Inl (attemptErr (do (attempt + left - 1))), attempt + left - 1, b * (\<Sum>j = attempt..<attempt + left - 1. int j))"
  using assms
proof (induction left arbitrary: attempt err)
  case (Suc left)
  have nd: "\<not> decisive (do attempt)" using Suc.prems(1) by simp
  show ?case
  proof (cases "left = 0")
    case True
    with nd show ?thesis by (auto simp: Let_def decisive_def attemptErr_def split: sum.splits)
  next
    case False
    have ih: "forwardLoop do base b (Suc attempt) left e = (Inl (attemptErr (do (Suc attempt + left - 1))), Suc attempt + left - 1,
      b * (\<Sum>j = Suc attempt..<Suc attempt + left - 1. int j))" for e
      by (rule Suc.IH) (use Suc.prems False in auto)
    have sum: "(\<Sum>j = attempt..<attempt + left. int j) = int attempt + (\<Sum>j = Suc attempt..<attempt + left. int j)"
      using False by (intro sum.atLeast_Suc_lessThan) simp
    show ?thesis using nd False by (auto simp: Let_def decisive_def attemptErr_def ih sum algebra_simps split: sum.splits)
  qed
qed simp

subsection \<open>Facts on the gate\<close>

lemma JWT_header_other:
  assumes "JWTMiddleware getenv verifier header = Inr header'" "name \<notin> {''X-JWT-Subject'', ''X-JWT-Principal-Id'', ''X-JWT-Tenant-Id''}"
  shows "header' name = header name"
  using assms by (auto simp: JWTMiddleware_def setHeader_def Let_def split: option.splits sum.splits if_splits)

lemma FromRequest_cong:
  assumes "\<forall>n \<in> {''X-Tenant-Id'', ''X-Principal-Id'', ''X-Scopes'', ''X-Subject-Type'', ''X-Api-Key-Id'', ''Authorization''}. h n = h' n"
  shows "FromRequest h = FromRequest h'"
  using assms by (simp add: FromRequest_def)

lemma routeFed_cong:
  assumes "h ''Authorization'' = h' ''Authorization''" "h ''X-Request-Id'' = h' ''X-Request-Id''"
  shows "routeFed getenv env h ac rq s = routeFed getenv env h' ac rq s"
proof -
  have a: "fedAudit t p act r h m st = fedAudit t p act r h' m st" for t p act r m st
    using assms(2) by (simp add: fedAudit_def)
  have "handlePeers h ac rq s = handlePeers h' ac rq s" "handleEventsIngest getenv h ac rq s = handleEventsIngest getenv h' ac rq s"
    unfolding handlePeers_def handleEventsIngest_def a by (rule refl)+
  moreover have "handleRunEvents getenv env h ac rq s = handleRunEvents getenv env h' ac rq s"
    unfolding handleRunEvents_def assms(1) ..
  moreover have "handleForwardRun getenv env h ac rq s = handleForwardRun getenv env h' ac rq s"
    unfolding handleForwardRun_def assms(1) a ..
  ultimately show ?thesis by (simp add: routeFed_def split: fedRoute.split)
qed

subsection \<open>Facts on the handlers\<close>

definition fedOk :: "fedServer \<Rightarrow> bool" where
  "fedOk s \<longleftrightarrow> eventStoreOk (fs_events s) \<and> fiOk (fs_index s)"

lemma fedAudit_sel [simp]:
  "fs_registry (fedAudit t p a r h m s) = fs_registry s" "fs_forward (fedAudit t p a r h m s) = fs_forward s"
  "fs_index (fedAudit t p a r h m s) = fs_index s" "fs_files (fedAudit t p a r h m s) = fs_files s"
  "fs_events (fedAudit t p a r h m s) = fs_events s"
  by (simp_all add: fedAudit_def)

lemma fedOk_audit [simp]: "fedOk (fedAudit t p a r h m s) = fedOk s"
  by (simp add: fedOk_def)

lemma handleForwardRun_cases:
  assumes "handleForwardRun getenv env header ac rq s = (resp, reqs, s')"
  obtains (failed) e where "resp = RErr e" "s' = s"
  | (sent) reg peer agentID tenantID principal req fd i' fs' meta n where
      "fs_registry s = Some reg" "Registry_Get reg (fst peer) = Some (snd peer)" "agentID \<noteq> []" "tenantID \<noteq> []"
      "ForwardRun (fe_badURL env) (fe_marshalErr env) (fe_do env) (fs_forward s) (pi_OrchestratorURL (snd peer)) agentID tenantID principal
         (bearerToken (header ''Authorization'')) req = (Inr fd, reqs, n)"
      "fi_Set (fe_io env) (fe_now env) tenantID (fd_runID fd) (pi_StackID (snd peer)) (fd_eventsURL fd) (fs_index s) (fs_files s) = (i', fs')"
      "resp = ROk 200 (FForwarded \<lparr>fb_tenantID = tenantID, fb_stackID = pi_StackID (snd peer), fb_run = fd\<rparr>)"
      "s' = fedAudit tenantID principal ''federation.runs.forward'' (''run/'' @ fd_runID fd) header meta (s\<lparr>fs_index := i', fs_files := fs'\<rparr>)"
proof -
  have pt: "payloadTenant h a = Inr t \<Longrightarrow> t \<noteq> []" for h a t
    by (auto simp: payloadTenant_def Let_def split: if_splits)
  show ?thesis
  proof (cases "\<exists>e. resp = RErr e \<and> s' = s")
    case True
    with failed show ?thesis by blast
  next
    case False
    note d = assms[unfolded handleForwardRun_def Let_def]
    have m: "fq_method rq = ''POST''" by (rule ccontr) (use d False in auto)
    obtain reg where reg: "fs_registry s = Some reg" using d False m by (cases "fs_registry s") auto
    obtain hdr where hdr: "headerTenant getenv ac = Inr hdr" using d False m reg by (cases "headerTenant getenv ac") auto
    obtain req where req: "fq_body rq = Inr req" using d False m reg hdr by (cases "fq_body rq") auto
    obtain fo where fo: "asObj (jobj req ''forward'') = Some fo" using d False m reg hdr req by (cases "asObj (jobj req ''forward'')") auto
    note d1 = d[unfolded m reg hdr req, simplified, unfolded fo, simplified]
    obtain sel where sel: "asObj (jobj fo ''target_selector'') = Some sel" using d1 False by (cases "asObj (jobj fo ''target_selector'')") auto
    obtain au where au: "asObj (jobj fo ''auth'') = Some au" using d1 False sel by (cases "asObj (jobj fo ''auth'')") auto
    obtain rr where rr: "asObj (jobj fo ''run_request'') = Some rr" using d1 False sel au by (cases "asObj (jobj fo ''run_request'')") auto
    note d2 = d1[unfolded sel, simplified, unfolded au, simplified, unfolded rr, simplified]
    have sid: "strField sel ''stack_id'' \<noteq> []" by (rule notI) (use d2 False in auto)
    obtain t where t: "payloadTenant hdr au = Inr t" using d2 False sid by (cases "payloadTenant hdr au") auto
    obtain peer where peer: "Registry_Get reg (strField sel ''stack_id'') = Some peer"
      using d2 False sid t by (cases "Registry_Get reg (strField sel ''stack_id'')") auto
    have ag: "strField rr ''agent_id'' \<noteq> []" by (rule notI) (use d2 False sid t peer in auto)
    obtain res rqs n where fr: "ForwardRun (fe_badURL env) (fe_marshalErr env) (fe_do env) (fs_forward s) (pi_OrchestratorURL peer) (strField rr ''agent_id'') t
        (strField au ''principal_id'') (bearerToken (header ''Authorization'')) (runCreateOf rr) = (res, rqs, n)"
      by (cases rule: prod_cases3)
    note d3 = d2[unfolded t, simplified, unfolded peer, simplified, unfolded fr, simplified]
    obtain fd where fd: "res = Inr fd" using d3 False sid ag fr by (cases res) auto
    obtain i' fs' where st: "fi_Set (fe_io env) (fe_now env) t (fd_runID fd) (pi_StackID peer) (fd_eventsURL fd) (fs_index s) (fs_files s) = (i', fs')"
      by fastforce
    from d3 sid ag fr fd st have out: "resp = ROk 200 (FForwarded \<lparr>fb_tenantID = t, fb_stackID = pi_StackID peer, fb_run = fd\<rparr>)" "reqs = rqs"
      "s' = fedAudit t (strField au ''principal_id'') ''federation.runs.forward'' (''run/'' @ fd_runID fd) header
          [(''target_stack_id'', JStr (pi_StackID peer))] (s\<lparr>fs_index := i', fs_files := fs'\<rparr>)" by auto
    show ?thesis
      by (rule sent[of reg "(strField sel ''stack_id'', peer)"]) (use reg peer ag pt[OF t] fr fd st out in auto)
  qed
qed

lemma ingestEvents_ok:
  assumes "eventStoreOk es"
  shows "\<exists>a' r' es'. ingestEvents tenantID evs a r es = Some (a', r', es') \<and> eventStoreOk es' \<and> a' + r' = a + r + length evs"
  using assms
proof (induction evs arbitrary: a r es)
  case (Cons ev evs)
  show ?case
  proof (cases "asObj ev")
    case None
    with Cons.IH[OF Cons.prems, of a "r + 1"] show ?thesis by simp
  next
    case (Some env)
    let ?run = "strField (objField env ''event'') ''run_id''"
    show ?thesis
    proof (cases "?run = []")
      case True
      with Some Cons.IH[OF Cons.prems, of a "r + 1"] show ?thesis by simp
    next
      case False
      obtain a1 r1 es1 where i: "Ingest tenantID ?run [env] es = Some (a1, r1, es1)" "eventStoreOk es1" "a1 + r1 = length [env]"
        by (rule Ingest_spec[OF Cons.prems])
      obtain a' r' es' where n: "ingestEvents tenantID evs (a + a1) (r + r1) es1 = Some (a', r', es')" "eventStoreOk es'"
        "a' + r' = (a + a1) + (r + r1) + length evs" using Cons.IH[OF i(2), of "a + a1" "r + r1"] by blast
      with Some False i show ?thesis by simp
    qed
  qed
qed simp

lemma handleEventsIngest_ok:
  assumes "fedOk s"
  shows "\<exists>resp s'. handleEventsIngest getenv header ac rq s = Some (resp, s') \<and> fedOk s'"
proof -
  have ok: "eventStoreOk (fs_events s)" "fiOk (fs_index s)" using assms by (simp_all add: fedOk_def)
  have "\<exists>a r es. ingestEvents t evs 0 0 (fs_events s) = Some (a, r, es) \<and> fedOk (fedAudit t p ac' rs h m (s\<lparr>fs_events := es\<rparr>))" for t evs p ac' rs h m
    using ingestEvents_ok[OF ok(1), of t evs 0 0] ok(2) by (auto simp: fedOk_def)
  note * = this
  show ?thesis
  proof (cases "\<exists>resp. handleEventsIngest getenv header ac rq s = Some (resp, s)")
    case True
    with assms show ?thesis by blast
  next
    case False
    then obtain hdr req authObj t where c: "fq_method rq = ''POST''" "headerTenant getenv ac = Inr hdr" "fq_body rq = Inr req"
      "asObj (jobj req ''auth'') = Some authObj" "payloadTenant hdr authObj = Inr t"
      by (auto simp: handleEventsIngest_def split: if_splits option.splits sum.splits)
    let ?evs = "case asArr (jobj req ''events'') of Some evs \<Rightarrow> evs | None \<Rightarrow> []"
    obtain a r es where i: "ingestEvents t ?evs 0 0 (fs_events s) = Some (a, r, es)" using *[of t ?evs] by blast
    with *[of t ?evs] c show ?thesis by (simp add: handleEventsIngest_def Let_def)
  qed
qed

lemma routeFed_ok:
  assumes ok: "fedOk s"
  shows "\<exists>resp reqs s'. routeFed getenv env header ac rq s = Some (resp, reqs, s') \<and> fedOk s'"
proof (cases "fedRouteOf (fq_path rq)")
  case FrPeers
  have "fedOk (snd (handlePeers header ac rq s))"
    using ok by (auto simp: handlePeers_def fedOk_def split: option.split sum.split)
  with FrPeers show ?thesis by (cases "handlePeers header ac rq s") (simp add: routeFed_def)
next
  case FrForward
  obtain resp reqs s' where h: "handleForwardRun getenv env header ac rq s = (resp, reqs, s')" by (rule prod_cases3)
  have "fedOk s'"
    using h
  proof (cases rule: handleForwardRun_cases)
    case (sent reg peer agentID tenantID principal req fd i' fs' meta n)
    have "fiOk i'" by (rule fi_Set_ok[OF _ sent(6)]) (use ok in \<open>simp add: fedOk_def\<close>)
    with ok sent(8) show ?thesis by (simp add: fedOk_def)
  qed (use ok in simp)
  with FrForward h show ?thesis by (simp add: routeFed_def)
next
  case FrRunEvents
  with ok show ?thesis by (cases "handleRunEvents getenv env header ac rq s") (simp add: routeFed_def)
next
  case FrIngest
  obtain resp s' where "handleEventsIngest getenv header ac rq s = Some (resp, s')" "fedOk s'"
    using handleEventsIngest_ok[OF ok] by blast
  with FrIngest show ?thesis by (simp add: routeFed_def)
qed (use ok in \<open>simp_all add: routeFed_def\<close>)

lemma fedHandler_ok:
  assumes "fedOk s"
  shows "\<exists>resp reqs s'. fedHandler getenv verifier oidc env header rq s = Some (resp, reqs, s') \<and> fedOk s'"
  using assms routeFed_ok[OF assms] by (auto simp: fedHandler_def split: sum.split)

inductive fed_step :: "fedServer \<Rightarrow> fedServer \<Rightarrow> bool" where
  "fedHandler getenv verifier oidc env header rq s = Some (resp, reqs, s') \<Longrightarrow> fed_step s s'"

definition freshFed :: "fedServer \<Rightarrow> bool" where
  "freshFed s \<longleftrightarrow> (\<exists>getenv readPeers now files. s = newFedServer getenv readPeers now files \<and>
     (\<forall>path recs. fileAt files path = Content recs \<longrightarrow> length recs \<le> maxForwardEntries))"

lemma fold_loadRecord_ok:
  "gwf m \<Longrightarrow> gwf (fold (loadRecord now) recs m) \<and> length (fold (loadRecord now) recs m) \<le> length m + length recs"
proof (induction recs arbitrary: m)
  case (Cons r recs)
  have g: "gwf (loadRecord now r m)" using Cons.prems by (simp add: loadRecord_def)
  have "length (loadRecord now r m) \<le> Suc (length m)" by (simp add: loadRecord_def length_mput)
  with Cons.IH[OF g] show ?case by simp
qed simp

interpretation fed_server: inv_system freshFed fed_step fedOk
proof
  fix s assume "freshFed s"
  then obtain getenv readPeers now files where s: "s = newFedServer getenv readPeers now files"
    and small: "\<forall>path recs. fileAt files path = Content recs \<longrightarrow> length recs \<le> maxForwardEntries" by (auto simp: freshFed_def)
  have "fiOk (newForwardIndexPersistent now path files)" for path
  proof (cases "path \<noteq> [] \<and> (\<exists>recs. fileAt files path = Content recs)")
    case True
    then obtain recs where c: "path \<noteq> []" "fileAt files path = Content recs" by blast
    then have "length recs \<le> maxForwardEntries" using small by blast
    with c fold_loadRecord_ok[OF gwf_Nil, of now recs] show ?thesis
      by (simp add: newForwardIndexPersistent_def fi_load_def fiOk_def)
  next
    case False
    then show ?thesis by (auto simp: newForwardIndexPersistent_def fi_load_def fiOk_def split: fileContent.split)
  qed
  then show "fedOk s" by (simp add: s newFedServer_def fedOk_def Let_def newEventStore_def eventStoreOk_def)
next
  fix s t assume ok: "fedOk s" and "fed_step s t"
  from this(2) obtain getenv verifier oidc env header rq resp reqs where
    h: "fedHandler getenv verifier oidc env header rq s = Some (resp, reqs, t)" by (auto elim: fed_step.cases)
  from fedHandler_ok[OF ok, of getenv verifier oidc env header rq] h show "fedOk t" by auto
qed

lemma fi_Set_absent:
  assumes ok: "fiOk i" and st: "fi_Set io now t r sid url i fs = (i', fs')"
  shows "(t', r') \<noteq> (t, r) \<Longrightarrow> fi_Get t' r' i = None \<Longrightarrow> fi_Get t' r' i' = None"
proof -
  assume a: "(t', r') \<noteq> (t, r)" "fi_Get t' r' i = None"
  let ?tgt = "\<lparr>ft_RemoteStackID = sid, ft_RemoteEventsURL = url, ft_createdAt = now\<rparr>"
  obtain m2 where m2: "gwf m2" "\<forall>k. mget m2 k = mget (mput (t, r) ?tgt (fi_m i)) k \<or>
          mget m2 k = None \<and> (\<exists>v. mget (mput (t, r) ?tgt (fi_m i)) k = Some v \<and> expired now v)"
    "length m2 \<le> length (mput (t, r) ?tgt (fi_m i))"
    "fi_m i' = (if length m2 > maxForwardEntries then evictOldestLocked m2 else m2)"
    "fi_path i' = fi_path i" "fs' = persistLocked io i' fs"
    by (rule fi_Set_steps[OF ok st])
  have n: "mget m2 (t', r') = None" using m2(2)[rule_format, of "(t', r')"] a by (auto simp: fi_Get_def)
  have "mget (evictOldestLocked m2) (t', r') = None"
    using n by (auto simp: evictOldestLocked_def split: option.split)
  with n m2(4) show ?thesis by (simp add: fi_Get_def)
qed

lemma proxyAttempts_bound: "1 \<le> a \<Longrightarrow> snd (proxyAttempts do1 a l e) < a + l"
proof (induction l arbitrary: a e)
  case (Suc l)
  from Suc.IH[of "Suc a"] show ?case by (simp split: sum.split)
qed simp

lemma trimSlash_id: "s \<noteq> [] \<Longrightarrow> hd s \<noteq> CHR ''/'' \<Longrightarrow> last s \<noteq> CHR ''/'' \<Longrightarrow> trimSlash s = s"
  unfolding trimSlash_def by (simp add: dropWhile_eq_self_iff[THEN iffD2] hd_rev)

lemma events_path:
  assumes "r \<noteq> []" "CHR ''/'' \<notin> set r"
  shows "splitByte CHR ''/'' (trimSlash (TrimPrefix (''/v1/federation/runs/'' @ r @ ''/events'') ''/v1/federation/runs/'')) = [r, ''events'']"
proof -
  have h: "hd r \<noteq> CHR ''/''" using assms by (cases r) auto
  have "trimSlash (r @ ''/events'') = r @ ''/events''" by (rule trimSlash_id) (use assms h in auto)
  moreover have "TrimPrefix (''/v1/federation/runs/'' @ r @ ''/events'') ''/v1/federation/runs/'' = r @ ''/events''"
    unfolding TrimPrefix_def using HasPrefix_append[of "''/v1/federation/runs/''" "r @ ''/events''"] by simp
  moreover have "splitByte CHR ''/'' (r @ CHR ''/'' # ''events'') = r # splitByte CHR ''/'' ''events''" by (rule splitByte_append[OF assms(2)])
  ultimately show ?thesis by simp
qed

subsection \<open>Properties\<close>

text \<open>C25. The federation service fails closed: without a verifier every request is answered with 503 and nothing
  changes, unless authentication is switched off explicitly; with a verifier, a request that is answered successfully,
  changes the state or causes an outgoing request carried a bearer token that the JWT library accepted as valid.\<close>

theorem federation_gate:
  "(\<not> fedDevMode getenv \<longrightarrow> fedHandler getenv None oidc env header rq s =
      Some (RErr (httpxError 503 ''auth_unavailable'' ''federation auth not configured'' False), [], s)) \<and>
   (fedHandler getenv (Some (Verify parse)) oidc env header rq s = Some (resp, reqs, s') \<and>
      ((\<exists>code body. resp = ROk code body) \<or> s' \<noteq> s \<or> reqs \<noteq> []) \<longrightarrow>
      bearerOf (header ''Authorization'') \<noteq> [] \<and> (\<exists>payload. parse (bearerOf (header ''Authorization'')) = Inr (payload, True)))"
proof (rule conjI; rule impI)
  assume "\<not> fedDevMode getenv"
  then show "fedHandler getenv None oidc env header rq s =
      Some (RErr (httpxError 503 ''auth_unavailable'' ''federation auth not configured'' False), [], s)"
    by (simp add: fedHandler_def JWTMiddleware_def)
next
  assume "fedHandler getenv (Some (Verify parse)) oidc env header rq s = Some (resp, reqs, s') \<and>
      ((\<exists>code body. resp = ROk code body) \<or> s' \<noteq> s \<or> reqs \<noteq> [])"
  then have h: "fedHandler getenv (Some (Verify parse)) oidc env header rq s = Some (resp, reqs, s')"
    and did: "(\<exists>code body. resp = ROk code body) \<or> s' \<noteq> s \<or> reqs \<noteq> []" by auto
  let ?tok = "bearerOf (header ''Authorization'')"
  have "\<exists>header'. JWTMiddleware getenv (Some (Verify parse)) header = Inr header'"
    by (rule ccontr) (use h did in \<open>auto simp: fedHandler_def split: sum.splits\<close>)
  then obtain claims where "?tok \<noteq> []" "Verify parse ?tok = Inr claims"
    by (auto simp: JWTMiddleware_def Let_def split: if_splits sum.splits)
  moreover from this(2) have "\<exists>payload. parse ?tok = Inr (payload, True)"
    by (auto simp: Verify_def split: sum.splits prod.splits if_splits)
  ultimately show "?tok \<noteq> [] \<and> (\<exists>payload. parse ?tok = Inr (payload, True))" by blast
qed

text \<open>The identity in a verified token is not used: two verifiers that accept the token of a request with different
  claims give the same response, outgoing requests and state. The tenant a federation request acts for comes from its
  headers and its body alone.\<close>

theorem federation_claims_ignored:
  assumes "verify (bearerOf (header ''Authorization'')) = Inr c1" "verify' (bearerOf (header ''Authorization'')) = Inr c2"
  shows "fedHandler getenv (Some verify) oidc env header rq s = fedHandler getenv (Some verify') oidc env header rq s"
proof (cases "bearerOf (header ''Authorization'') = []")
  case True
  then show ?thesis by (simp add: fedHandler_def JWTMiddleware_def)
next
  case False
  with assms obtain h1 h2 where h: "JWTMiddleware getenv (Some verify) header = Inr h1" "JWTMiddleware getenv (Some verify') header = Inr h2"
    by (simp add: JWTMiddleware_def Let_def)
  have eq: "h1 n = h2 n" if "n \<notin> {''X-JWT-Subject'', ''X-JWT-Principal-Id'', ''X-JWT-Tenant-Id''}" for n
    using JWT_header_other[OF h(1) that] JWT_header_other[OF h(2) that] by simp
  have fr: "FromRequest h1 = FromRequest h2" by (rule FromRequest_cong) (simp add: eq)
  have "WithAuth oidc h1 = WithAuth oidc h2" by (simp add: WithAuth_def fr)
  moreover have "routeFed getenv env h1 ac rq s = routeFed getenv env h2 ac rq s" for ac by (rule routeFed_cong) (simp_all add: eq)
  ultimately show ?thesis by (simp add: fedHandler_def h split: sum.split)
qed

text \<open>Forwarding sends between one and the configured number of identical POST requests, stops at the first
  response that is a success or a client error and reports exactly that response, otherwise reports the last failure
  after using all attempts, and sleeps the sum of a linearly growing backoff in between.\<close>

theorem ForwardRun_attempts:
  assumes "badURL (runsURL base agentID) = None" "marshalErr (JObj body) = None"
  shows "(\<exists>k. 1 \<le> k \<and> k \<le> (attemptsOf f) \<and> decisive (do k) \<and> (\<forall>j. 1 \<le> j \<and> j < k \<longrightarrow> \<not> decisive (do j)) \<and>
            ForwardRun badURL marshalErr do f base agentID tenantID principalID bearer body =
              (outcome base (do k), replicate k (forwardReq base agentID tenantID principalID bearer body), backoffOf f * (\<Sum>j = 1..<k. int j))) \<or>
         (\<forall>j. 1 \<le> j \<and> j \<le> (attemptsOf f) \<longrightarrow> \<not> decisive (do j)) \<and>
            ForwardRun badURL marshalErr do f base agentID tenantID principalID bearer body =
              (Inl (attemptErr (do (attemptsOf f))), replicate (attemptsOf f) (forwardReq base agentID tenantID principalID bearer body), backoffOf f * (\<Sum>j = 1..<(attemptsOf f). int j))"
proof -
  have run: "ForwardRun badURL marshalErr do f base agentID tenantID principalID bearer body =
      (case forwardLoop do base (backoffOf f) 1 (attemptsOf f) [] of (res, n, slept) \<Rightarrow> (res, replicate n (forwardReq base agentID tenantID principalID bearer body), slept))"
    using assms by (simp add: ForwardRun_def Let_def attemptsOf_def backoffOf_def forwardReq_def split: prod.split)
  have pos: "0 < (attemptsOf f)" by (simp add: attemptsOf_def)
  show ?thesis
  proof (cases "\<exists>k. 1 \<le> k \<and> k \<le> (attemptsOf f) \<and> decisive (do k)")
    case True
    then have "\<exists>k. 1 \<le> k \<and> decisive (do k)" by blast
    then obtain k where k: "1 \<le> k" "decisive (do k)" "\<forall>j. 1 \<le> j \<and> j < k \<longrightarrow> \<not> decisive (do j)"
      unfolding exists_least_iff[of "\<lambda>k. 1 \<le> k \<and> decisive (do k)"] by blast
    have "k \<le> attemptsOf f"
    proof (rule ccontr)
      assume "\<not> k \<le> attemptsOf f"
      with True k(3) show False by auto
    qed
    with k have "forwardLoop do base (backoffOf f) 1 (attemptsOf f) [] = (outcome base (do k), k, backoffOf f * (\<Sum>j = 1..<k. int j))"
      by (intro forwardLoop_decisive) auto
    with k \<open>k \<le> attemptsOf f\<close> show ?thesis by (auto simp: run)
  next
    case False
    then have "\<forall>j. 1 \<le> j \<and> j < 1 + (attemptsOf f) \<longrightarrow> \<not> decisive (do j)" by auto
    from forwardLoop_exhausted[OF this pos, of base "backoffOf f" "[]"] False show ?thesis by (auto simp: run)
  qed
qed

text \<open>Whatever sequence of requests a federation server has handled since its start, on an index file of at most
  10000 records, the next request is answered (the event store never panics), and the index of forwarded runs and the
  event store stay within their bounds with their ordering invariants.\<close>

theorem federation_server_bounded:
  assumes "reachable freshFed fed_step s"
  shows "(\<exists>resp reqs s'. fedHandler getenv verifier oidc env header rq s = Some (resp, reqs, s') \<and> fedOk s') \<and>
    length (fi_m (fs_index s)) \<le> 10000 \<and> length (es_m (fs_events s)) \<le> 500 \<and>
    (\<forall>(k, st) \<in> set (es_m (fs_events s)). ordered (map envSequence (se_events st)))"
proof -
  have ok: "fedOk s" using fed_server.inv_reachable[OF assms] .
  with fedHandler_ok[OF ok, of getenv verifier oidc env header rq] show ?thesis
    by (auto simp: fedOk_def fiOk_def eventStoreOk_def storedOk_def)
qed

text \<open>Forwarding and streaming fit together: after a run was forwarded for a tenant, with room in the index, a
  request for its events in the name of that tenant is proxied to the address the peer returned, carrying that tenant,
  the caller's principal and bearer token, in at most three attempts; for every other tenant without a run of that
  identifier the answer is the same as before.\<close>

theorem forward_then_events:
  assumes fwd: "handleForwardRun getenv env header ac rq s = (ROk st (FForwarded fb), reqs, s')"
    and ok: "fiOk (fs_index s)" and room: "length (fi_m (fs_index s)) < maxForwardEntries"
    and run: "fd_runID (fb_run fb) = r" "r \<noteq> []" "CHR ''/'' \<notin> set r"
    and get: "fq_method rq2 = ''GET''" "fq_path rq2 = ''/v1/federation/runs/'' @ r @ ''/events''"
  shows "(ResolveTenantHTTP getenv ac2 = Inr (fb_tenantID fb) \<and> fd_eventsURL (fb_run fb) \<noteq> [] \<longrightarrow>
      (\<exists>n. n \<le> 3 \<and> snd (handleRunEvents getenv env2 header2 ac2 rq2 s') =
        replicate n \<lparr>hq_method = ''GET'', hq_url = addFromSequence (px_setQuery (fe_proxy env2)) (fd_eventsURL (fb_run fb)) (fromSeqOf rq2),
          hq_headers = proxyHeaders (fb_tenantID fb) (ac_PrincipalID ac2) (bearerToken (header2 ''Authorization'')), hq_body = JNull\<rparr>)) \<and>
    (\<forall>t2. ResolveTenantHTTP getenv ac2 = Inr t2 \<and> t2 \<noteq> fb_tenantID fb \<and> fi_Get t2 r (fs_index s) = None \<longrightarrow>
      handleRunEvents getenv env2 header2 ac2 rq2 s' = handleRunEvents getenv env2 header2 ac2 rq2 s)"
proof -
  from fwd obtain tid sid url i' fs' p m where
    st: "fi_Set (fe_io env) (fe_now env) tid r sid url (fs_index s) (fs_files s) = (i', fs')"
    and fb: "fb_tenantID fb = tid" "fd_eventsURL (fb_run fb) = url"
    and s': "s' = fedAudit tid p ''federation.runs.forward'' (''run/'' @ r) header m (s\<lparr>fs_index := i', fs_files := fs'\<rparr>)"
    by (cases rule: handleForwardRun_cases) (use run(1) in auto)
  have new: "fi_Get tid r i' = Some \<lparr>ft_RemoteStackID = sid, ft_RemoteEventsURL = url, ft_createdAt = fe_now env\<rparr>"
    by (rule fi_Set_new[OF ok st]) (use room in simp)
  note path = events_path[OF run(2,3), folded get(2)]
  have mine: "\<exists>n. n \<le> 3 \<and> snd (handleRunEvents getenv env2 header2 ac2 rq2 s') =
        replicate n \<lparr>hq_method = ''GET'', hq_url = addFromSequence (px_setQuery (fe_proxy env2)) (fd_eventsURL (fb_run fb)) (fromSeqOf rq2),
          hq_headers = proxyHeaders (fb_tenantID fb) (ac_PrincipalID ac2) (bearerToken (header2 ''Authorization'')), hq_body = JNull\<rparr>"
    if t: "ResolveTenantHTTP getenv ac2 = Inr (fb_tenantID fb)" and u: "fd_eventsURL (fb_run fb) \<noteq> []"
  proof -
    let ?P = "Proxy (fe_proxy env2) url tid (ac_PrincipalID ac2) (bearerToken (header2 ''Authorization'')) (fromSeqOf rq2)"
    have "snd (handleRunEvents getenv env2 header2 ac2 rq2 s') = snd ?P"
      using get t u path new fb s' by (simp add: handleRunEvents_def Let_def split: prod.split sum.split)
    moreover obtain res n where pa: "proxyAttempts (px_do (fe_proxy env2)) 1 3 [] = (res, n)" by fastforce
    have "n \<le> 3" using proxyAttempts_bound[of 1 "px_do (fe_proxy env2)" 3 "[]"] pa by simp
    have "snd ?P = [] \<or> snd ?P = replicate n \<lparr>hq_method = ''GET'', hq_url = addFromSequence (px_setQuery (fe_proxy env2)) url (fromSeqOf rq2),
          hq_headers = proxyHeaders tid (ac_PrincipalID ac2) (bearerToken (header2 ''Authorization'')), hq_body = JNull\<rparr>"
      by (auto simp: Proxy_def Let_def pa[unfolded One_nat_def] split: option.split sum.split)
    then show ?thesis using \<open>n \<le> 3\<close> fb calculation by (metis le0 replicate_0)
  qed
  have "handleRunEvents getenv env2 header2 ac2 rq2 s' = handleRunEvents getenv env2 header2 ac2 rq2 s"
    if t: "ResolveTenantHTTP getenv ac2 = Inr t2" and ne: "t2 \<noteq> fb_tenantID fb" and none: "fi_Get t2 r (fs_index s) = None" for t2
  proof -
    have "fi_Get t2 r i' = None"
      using fi_Set_absent[OF ok st] ne none fb by simp
    with s' none t get path show ?thesis by (simp add: handleRunEvents_def Let_def)
  qed
  with mine show ?thesis by blast
qed

subsection \<open>Witnesses\<close>

definition samplePeer :: peerInfo where
  "samplePeer = emptyPeer\<lparr>pi_StackID := ''eu'', pi_OrchestratorURL := ''http://eu:8081/''\<rparr>"

definition sampleFed :: fedServer where
  "sampleFed = \<lparr>fs_registry = Some \<lparr>rg_Local = emptyPeer, rg_peers = [(''eu'', samplePeer)], rg_health = [], rg_stopped = False\<rparr>,
     fs_forward = \<lparr>fw_MaxAttempts = 3, fw_BaseBackoff = 250 * millisecond\<rparr>,
     fs_index = \<lparr>fi_m = [], fi_path = ''idx.json'', fi_setCount = 0\<rparr>, fs_files = [], fs_events = newEventStore, fs_audit = []\<rparr>"

definition sampleDo :: httpDo where
  "sampleDo n = (if n = 1 then Inl ''timeout''
     else Inr \<lparr>hs_status = 201, hs_statusText = ''201 Created'',
                hs_body = Inr [(''run'', JObj [(''run_id'', JStr ''run_7''), (''events_url'', JStr ''/v1/runs/run_7/events'')])]\<rparr>)"

definition sampleProxy :: proxyEnv where
  "sampleProxy = \<lparr>px_badURL = (\<lambda>_. None), px_setQuery = (\<lambda>u n. Some u), px_do = (\<lambda>_. Inl ''refused''), px_flusher = True,
     px_unmarshal = (\<lambda>_. None), px_marshal = (\<lambda>_. [])\<rparr>"

definition sampleFedEnv :: fedEnv where
  "sampleFedEnv = \<lparr>fe_now = 9, fe_io = None, fe_badURL = (\<lambda>_. None), fe_marshalErr = (\<lambda>_. None), fe_do = sampleDo, fe_proxy = sampleProxy\<rparr>"

definition sampleForward :: fedRequest where
  "sampleForward = \<lparr>fq_method = ''POST'', fq_path = ''/v1/federation/runs:forward'', fq_query = (\<lambda>_. []),
     fq_body = Inr [(''forward'', JObj [(''target_selector'', JObj [(''stack_id'', JStr ''eu'')]), (''auth'', JObj [(''tenant_id'', JStr ''acme'')]),
        (''run_request'', JObj [(''agent_id'', JStr ''a1'')])])], fq_peer = Inl []\<rparr>"

definition sampleEventsReq :: fedRequest where
  "sampleEventsReq = \<lparr>fq_method = ''GET'', fq_path = ''/v1/federation/runs/run_7/events'', fq_query = (\<lambda>_. []), fq_body = Inl [], fq_peer = Inl []\<rparr>"

definition sampleForwarded :: forwardBody where
  "sampleForwarded = \<lparr>fb_tenantID = ''acme'', fb_stackID = ''eu'',
     fb_run = \<lparr>fd_runID = ''run_7'', fd_eventsURL = ''http://eu:8081/v1/runs/run_7/events'', fd_status = ''queued''\<rparr>\<rparr>"

lemma sample_forward:
  "fst (handleForwardRun (\<lambda>_. []) sampleFedEnv (\<lambda>_. []) emptyAuthContext sampleForward sampleFed) = ROk 200 (FForwarded sampleForwarded)"
  by code_simp

lemma samplePeer_fresh: "freshFed (newFedServer (\<lambda>_. []) (\<lambda>_. Inl []) 0 [])"
  unfolding freshFed_def
  by (intro exI[of _ "\<lambda>_. []"] exI[of _ "\<lambda>_. Inl []"] exI[of _ 0] exI[of _ "[]"]) (simp add: fileAt_def)

theorem forward_then_events_witness:
  "\<exists>n \<le> 3. snd (handleRunEvents (\<lambda>_. []) sampleFedEnv (\<lambda>_. []) (emptyAuthContext\<lparr>ac_TenantID := ''acme''\<rparr>) sampleEventsReq
      (snd (snd (handleForwardRun (\<lambda>_. []) sampleFedEnv (\<lambda>_. []) emptyAuthContext sampleForward sampleFed)))) =
    replicate n \<lparr>hq_method = ''GET'', hq_url = ''http://eu:8081/v1/runs/run_7/events'', hq_headers = proxyHeaders ''acme'' [] [], hq_body = JNull\<rparr>"
proof -
  let ?ac = "emptyAuthContext\<lparr>ac_TenantID := ''acme''\<rparr>"
  obtain reqs s' where h: "handleForwardRun (\<lambda>_. []) sampleFedEnv (\<lambda>_. []) emptyAuthContext sampleForward sampleFed =
      (ROk 200 (FForwarded sampleForwarded), reqs, s')" using sample_forward
    by (cases "handleForwardRun (\<lambda>_. []) sampleFedEnv (\<lambda>_. []) emptyAuthContext sampleForward sampleFed") simp
  have t: "ResolveTenantHTTP (\<lambda>_. []) ?ac = Inr ''acme''" by code_simp
  have f: "fiOk (fs_index sampleFed)" "length (fi_m (fs_index sampleFed)) < maxForwardEntries" by (simp_all add: sampleFed_def fiOk_def)
  have b: "bearerToken [] = []" "fromSeqOf sampleEventsReq = 0" by code_simp+
  show ?thesis unfolding h snd_conv
    using forward_then_events[OF h f, of "''run_7''" sampleEventsReq ?ac sampleFedEnv "\<lambda>_. []"] t b
    by (simp add: sampleForwarded_def sampleEventsReq_def emptyAuthContext_def addFromSequence_def)
qed

theorem ForwardRun_attempts_witness:
  "\<exists>res n slept. ForwardRun (\<lambda>_. None) (\<lambda>_. None) sampleDo (fs_forward sampleFed) ''http://eu'' ''a1'' ''acme'' [] [] [] =
     (res, replicate n (forwardReq ''http://eu'' ''a1'' ''acme'' [] [] []), slept) \<and> n \<le> 3"
proof -
  have "attemptsOf (fs_forward sampleFed) = 3" by (simp add: attemptsOf_def sampleFed_def)
  with ForwardRun_attempts[of "\<lambda>_. None" "''http://eu''" "''a1''" "\<lambda>_. None" "[]" "fs_forward sampleFed" sampleDo "''acme''" "[]" "[]"]
  show ?thesis by auto
qed

theorem federation_server_bounded_witness:
  "length (es_m (fs_events (newFedServer (\<lambda>_. []) (\<lambda>_. Inl []) 0 []))) \<le> 500 \<and>
   (\<exists>resp reqs s'. fedHandler (\<lambda>_. []) None None sampleFedEnv (\<lambda>_. []) sampleForward (newFedServer (\<lambda>_. []) (\<lambda>_. Inl []) 0 []) =
      Some (resp, reqs, s') \<and> fedOk s')"
  using federation_server_bounded[OF reach_init[of freshFed, OF samplePeer_fresh]] by blast

theorem federation_gate_witness:
  "bearerOf ''Bearer abc'' \<noteq> [] \<and>
   fedHandler (\<lambda>_. []) None None sampleFedEnv (\<lambda>_. []) sampleForward sampleFed =
     Some (RErr (httpxError 503 ''auth_unavailable'' ''federation auth not configured'' False), [], sampleFed)"
proof -
  let ?h = "\<lambda>n. if n = ''Authorization'' then ''Bearer abc'' else []"
  let ?p = "\<lambda>t. Inr (\<lparr>jp_TenantID = [], jp_PrincipalID = [], jp_Subject = [], jp_Issuer = [], jp_Audience = [], jp_ExpiresAt = None, jp_IssuedAt = None\<rparr>, True)"
  let ?rq = "sampleEventsReq\<lparr>fq_path := ''/v1/federation/peer''\<rparr>"
  have tok: "bearerOf ''Bearer abc'' = ''abc''" by code_simp
  have r: "fedHandler (\<lambda>_. []) (Some (Verify ?p)) None sampleFedEnv ?h ?rq sampleFed = Some (ROk 200 (FPeer emptyPeer), [], sampleFed)"
    by (simp add: fedHandler_def JWTMiddleware_def Verify_def tok WithAuth_def routeFed_def
        fedRouteOf_def handlePeerInfo_def sampleEventsReq_def sampleFed_def setHeader_def)
  have d: "\<not> fedDevMode (\<lambda>_. [])" by (simp add: fedDevMode_def)
  from federation_gate[of "\<lambda>_. []" None sampleFedEnv ?h ?rq sampleFed ?p "ROk 200 (FPeer emptyPeer)" "[]" sampleFed] r tok
    federation_gate[of "\<lambda>_. []" None sampleFedEnv "\<lambda>_. []" sampleForward sampleFed] d
  show ?thesis by simp
qed

text \<open>Requiring mutual TLS without a complete configuration falls back to a weaker mode instead of failing.\<close>

lemma mtls_fails_open:
  assumes "EqualFold (TrimSpace (getenv ''AGENTOS_FED_REQUIRE_MTLS'')) ''true''"
  shows "TrimSpace (getenv ''AGENTOS_FED_SERVER_CERT'') = [] \<Longrightarrow> loadMTLSServerConfig getenv goodCA = PlainHTTP"
    and "TrimSpace (getenv ''AGENTOS_FED_SERVER_CERT'') \<noteq> [] \<Longrightarrow> TrimSpace (getenv ''AGENTOS_FED_SERVER_KEY'') \<noteq> [] \<Longrightarrow>
      \<not> goodCA (TrimSpace (getenv ''AGENTOS_FED_CA_CERT'')) \<Longrightarrow> loadMTLSServerConfig getenv goodCA = TLSOnly"
  using assms by (simp_all add: loadMTLSServerConfig_def Let_def)

end
