(* ===== verification/Run_Streams.thy ===== *)
theory Run_Streams
  imports Event_Sink Run_Handlers
begin

text \<open>
  Reading the events of a run: the executor's table of event sinks (agentorchestrator/executor.go), the replay endpoint
  handleEvents and the live endpoint handleStream (agentorchestrator/server.go), on top of \<open>Event_Sink\<close> and the durable
  event log of \<open>Run_Store\<close>.

  \<^item> The sink of a run is shared by pointer between the worker and the readers: the table holds the sink itself and
    \<open>finishSink\<close> updates it there.
  \<^item> handleStream runs concurrently with the run it watches. \<open>stream_step\<close> interleaves the steps of the handler (replay,
    subscribe, receive, heartbeat, client gone) with arbitrary operations of others on the sink. Others never receive
    from or unsubscribe the handler's channel, and the worker emits nothing after it called Done; both are guards of the
    environment step, taken from executor.go.
  \<^item> The fields \<open>ss_at\<close>, \<open>ss_sub\<close> and \<open>ss_drop\<close> record, for the specification only, the number of events at the replay
    and at the subscription and the drop counter at the subscription.
\<close>

subsection \<open>The table of sinks\<close>

abbreviation sinkTTL :: duration where "sinkTTL \<equiv> 5 * minute"

record sinkTable =
  tb_sinks :: "(string, eventSink) gomap"
  tb_completed :: "(string, time) gomap"

definition submitSink :: "string \<Rightarrow> eventSink \<Rightarrow> sinkTable \<Rightarrow> sinkTable" where
  "submitSink runID sink t = t\<lparr>tb_sinks := mput runID sink (tb_sinks t)\<rparr>"

definition Executor_Events :: "string \<Rightarrow> sinkTable \<Rightarrow> eventSink option" where
  "Executor_Events runID t = mget (tb_sinks t) runID"

definition EventSinkForRun :: "string \<Rightarrow> sinkTable \<Rightarrow> eventSink option" where
  "EventSinkForRun runID t = Executor_Events runID t"

definition staleRuns :: "time \<Rightarrow> (string, time) gomap \<Rightarrow> string list" where
  "staleRuns now m = map fst (filter (\<lambda>(r, completedAt). completedAt < now - sinkTTL) m)"

definition evictStaleSinks :: "time \<Rightarrow> sinkTable \<Rightarrow> sinkTable" where
  "evictStaleSinks now t =
     fold (\<lambda>r t. t\<lparr>tb_sinks := mdel r (tb_sinks t), tb_completed := mdel r (tb_completed t)\<rparr>) (staleRuns now (tb_completed t)) t"

definition finishSink :: "time \<Rightarrow> string \<Rightarrow> sinkTable \<Rightarrow> sinkTable option" where
  "finishSink now runID t =
     (case mget (tb_sinks t) runID of
        None \<Rightarrow> Some (evictStaleSinks now (t\<lparr>tb_completed := mput runID now (tb_completed t)\<rparr>))
      | Some sink \<Rightarrow>
          map_option (\<lambda>sink'. evictStaleSinks now (t\<lparr>tb_sinks := mput runID sink' (tb_sinks t), tb_completed := mput runID now (tb_completed t)\<rparr>))
            (Sink_Done sink))"

subsection \<open>Replay\<close>

datatype streamLine = SEvent event | SDone | SHeartbeat

definition eventsOf :: "streamLine list \<Rightarrow> event list" where
  "eventsOf ls = concat (map (\<lambda>l. case l of SEvent e \<Rightarrow> [e] | _ \<Rightarrow> []) ls)"

definition lastEventID :: "string \<Rightarrow> int" where
  "lastEventID v = (if v = [] then 0 else case Atoi v of Some n \<Rightarrow> n | None \<Rightarrow> 0)"

definition syntheticEvent :: "reqEnv \<Rightarrow> run \<Rightarrow> event" where
  "syntheticEvent env r =
     \<lparr>ev_EventID = re_newID env, ev_Sequence = 1, ev_Time = re_now env, ev_Type = ''agentos.run.step.completed'', ev_TenantID = run_TenantID r,
      ev_AgentID = run_AgentID r, ev_RunID = run_RunID r, ev_StepID = ''step_1'',
      ev_Trace = \<lparr>tc_Traceparent = ''00-00000000000000000000000000000000-0000000000000000-01'', tc_SpanID = [], tc_Tracestate = []\<rparr>,
      ev_Payload = [(''status'', JStr ''ok'')]\<rparr>"

definition eventsAfter :: "reqEnv \<Rightarrow> sinkTable \<Rightarrow> eventLogStore option \<Rightarrow> run \<Rightarrow> string \<Rightarrow> string \<Rightarrow> int \<Rightarrow> event list" where
  "eventsAfter env t lg r tenantID runID afterSequence =
     (let envs1 = (case Executor_Events runID t of
                     Some sink \<Rightarrow> if afterSequence > 0 then EventsFromSequence afterSequence sink else Events sink
                   | None \<Rightarrow> []);
          envs2 = (case lg of
                     Some l \<Rightarrow> if envs1 = [] \<and> QueryFromSequence tenantID runID afterSequence l \<noteq> [] then QueryFromSequence tenantID runID afterSequence l else envs1
                   | None \<Rightarrow> envs1) in
      if envs2 = [] \<and> afterSequence = 0 then [syntheticEvent env r] else envs2)"

definition handleEvents ::
  "reqEnv \<Rightarrow> string \<Rightarrow> bool \<Rightarrow> string \<Rightarrow> sinkTable \<Rightarrow> eventLogStore option \<Rightarrow> string \<Rightarrow> string \<Rightarrow> server \<Rightarrow> event list resp \<times> server" where
  "handleEvents env httpMethod flusher lastID t lg tenantID runID s =
     (if httpMethod \<noteq> ''GET'' then (RErr methodNotAllowed, s)
      else case Run_Get (re_ctx env) tenantID runID (sv_runs s) of
        (Inl _, runs') \<Rightarrow> (RErr (httpxError 500 ''run_lookup_failed'' ''failed to load run'' True), s\<lparr>sv_runs := runs'\<rparr>)
      | (Inr None, runs') \<Rightarrow> (RErr (httpxError 404 ''not_found'' ''run not found'' False), s\<lparr>sv_runs := runs'\<rparr>)
      | (Inr (Some r), runs') \<Rightarrow>
          if \<not> flusher then (RErr (httpxError 500 [] ''streaming unsupported'' False), s\<lparr>sv_runs := runs'\<rparr>)
          else (ROk 200 (eventsAfter env t lg r tenantID runID (lastEventID lastID)), s\<lparr>sv_runs := runs'\<rparr>))"

subsection \<open>Live streaming\<close>

datatype streamStart = StartErr httpError | StartDone | StartLive eventSink int

definition handleStreamStart ::
  "reqEnv \<Rightarrow> string \<Rightarrow> bool \<Rightarrow> string \<Rightarrow> sinkTable \<Rightarrow> string \<Rightarrow> string \<Rightarrow> server \<Rightarrow> streamStart \<times> server" where
  "handleStreamStart env httpMethod flusher query t tenantID runID s =
     (if httpMethod \<noteq> ''GET'' then (StartErr methodNotAllowed, s)
      else case Run_Get (re_ctx env) tenantID runID (sv_runs s) of
        (Inl _, runs') \<Rightarrow> (StartErr (httpxError 500 ''run_lookup_failed'' ''failed to load run'' True), s\<lparr>sv_runs := runs'\<rparr>)
      | (Inr None, runs') \<Rightarrow> (StartErr (httpxError 404 ''not_found'' ''run not found'' False), s\<lparr>sv_runs := runs'\<rparr>)
      | (Inr (Some r), runs') \<Rightarrow>
          (let s1 = s\<lparr>sv_runs := runs'\<rparr> in
           if run_Status r \<in> {''completed'', ''failed'', ''canceled''} then (StartDone, s1)
           else case EventSinkForRun runID t of
             None \<Rightarrow> (StartErr (httpxError 404 ''not_found'' ''no active event sink for run'' False), s1)
           | Some sink \<Rightarrow>
               if \<not> flusher then (StartErr (httpxError 500 [] ''streaming unsupported'' False), s1)
               else (StartLive sink (if query = [] then 0 else case Atoi query of Some n \<Rightarrow> n | None \<Rightarrow> 0), s1)))"

definition replayOf :: "int \<Rightarrow> eventSink \<Rightarrow> event list" where
  "replayOf fromSequence sink =
     (if fromSequence < 0 then [] else if fromSequence > 0 then EventsFromSequence fromSequence sink else Events sink)"

datatype streamPhase = PReplay | PSubscribe | PLive nat | PEnded

record streamState =
  ss_sink :: eventSink
  ss_log :: eventLogStore
  ss_phase :: streamPhase
  ss_out :: "streamLine list"
  ss_at :: nat
  ss_sub :: nat
  ss_drop :: int

definition streamReplay :: "int \<Rightarrow> streamState \<Rightarrow> streamState" where
  "streamReplay fromSequence st =
     st\<lparr>ss_out := ss_out st @ map SEvent (replayOf fromSequence (ss_sink st)), ss_phase := PSubscribe, ss_at := length (sk_events (ss_sink st))\<rparr>"

definition streamSubscribe :: "streamState \<Rightarrow> streamState" where
  "streamSubscribe st =
     (case Subscribe (ss_sink st) of (c, sink') \<Rightarrow>
        st\<lparr>ss_sink := sink', ss_phase := PLive c, ss_sub := length (sk_events sink'), ss_drop := sk_droppedEvents sink'\<rparr>)"

text \<open>The reception case of the select: an event, or the close with the deferred Unsubscribe; None when it blocks.\<close>

definition streamRecv :: "nat \<Rightarrow> streamState \<Rightarrow> streamState option" where
  "streamRecv c st =
     (case Recv c (ss_sink st) of
        (Received e, sink') \<Rightarrow> Some (st\<lparr>ss_sink := sink', ss_out := ss_out st @ [SEvent e]\<rparr>)
      | (ChanClosed, sink') \<Rightarrow>
          map_option (\<lambda>sink2. st\<lparr>ss_sink := sink2, ss_out := ss_out st @ [SDone], ss_phase := PEnded\<rparr>) (Unsubscribe c sink')
      | (WouldBlock, _) \<Rightarrow> None)"

inductive stream_step :: "int \<Rightarrow> streamState \<Rightarrow> streamState \<Rightarrow> bool" for fromSequence :: int where
  step_replay: "ss_phase st = PReplay \<Longrightarrow> stream_step fromSequence st (streamReplay fromSequence st)"
| step_subscribe: "ss_phase st = PSubscribe \<Longrightarrow> stream_step fromSequence st (streamSubscribe st)"
| step_recv: "ss_phase st = PLive c \<Longrightarrow> streamRecv c st = Some st' \<Longrightarrow> stream_step fromSequence st st'"
| step_heartbeat: "ss_phase st = PLive c \<Longrightarrow> stream_step fromSequence st (st\<lparr>ss_out := ss_out st @ [SHeartbeat]\<rparr>)"
| step_gone: "ss_phase st = PLive c \<Longrightarrow> Unsubscribe c (ss_sink st) = Some sink' \<Longrightarrow>
    stream_step fromSequence st (st\<lparr>ss_sink := sink', ss_phase := PEnded\<rparr>)"
| step_env: "sinkStep op (ss_sink st) (ss_log st) = Some (outs, sink', lg') \<Longrightarrow>
    \<forall>c. ss_phase st = PLive c \<longrightarrow> op \<noteq> OpRecv c \<and> op \<noteq> OpUnsubscribe c \<Longrightarrow>
    sk_done (ss_sink st) \<longrightarrow> (\<forall>eid now io ty pl. op \<noteq> OpEmit eid now io ty pl) \<Longrightarrow>
    stream_step fromSequence st (st\<lparr>ss_sink := sink', ss_log := lg'\<rparr>)"

definition streamInit :: "streamState \<Rightarrow> bool" where
  "streamInit st \<longleftrightarrow> ss_phase st = PReplay \<and> ss_out st = [] \<and> sinkInv (ss_sink st) \<and> logInv (ss_log st)"

inductive_cases stream_stepE: "stream_step fromSequence st st'"

subsection \<open>What an operation of others leaves alone\<close>

lemma closeAll_dropped: "closeAll cs s = Some s' \<Longrightarrow> sk_droppedEvents s' = sk_droppedEvents s \<and> sk_nextChan s' = sk_nextChan s"
proof (induction cs arbitrary: s)
  case (Cons c cs)
  then obtain s1 where "closeChan c s = Some s1" "closeAll cs s1 = Some s'" by (auto split: option.splits)
  with Cons.IH[of s1] show ?case by (auto simp: closeChan_def split: if_splits)
qed simp

lemma Sink_Done_frame:
  assumes "Sink_Done s = Some s'"
  shows "sk_droppedEvents s' = sk_droppedEvents s \<and> sk_nextChan s' = sk_nextChan s \<and> (sk_done s \<longrightarrow> s' = s)"
  using assms closeAll_dropped by (fastforce simp: Sink_Done_def split: if_splits)

lemma sinkStep_frame:
  assumes inv: "sinkInv s" "logInv lg" and st: "sinkStep op s lg = Some (outs, s', lg')"
  obtains new where "sk_events s' = sk_events s @ new" "sk_nextChan s \<le> sk_nextChan s'" "sk_droppedEvents s \<le> sk_droppedEvents s'"
    "sk_done s \<longrightarrow> sk_done s'"
    "(\<forall>eid now io ty pl. op \<noteq> OpEmit eid now io ty pl) \<longrightarrow> new = [] \<and> sk_droppedEvents s' = sk_droppedEvents s"
proof (cases op)
  case (OpEmit eid now io ty pl)
  from Emit_spec[OF inv, of eid now io ty pl] st OpEmit show ?thesis by (intro that[of "[newEvent eid now ty pl s]"]) auto
next
  case OpSubscribe
  with st show ?thesis by (intro that[of "[]"]) (auto simp: Subscribe_def Let_def)
next
  case (OpUnsubscribe c)
  with st Unsubscribe_spec[OF inv(1), of c] show ?thesis by (intro that[of "[]"]) auto
next
  case (OpRecv c)
  obtain res s1 where r: "Recv c s = (res, s1)" by fastforce
  have "s' = s1" using st OpRecv r by (cases res) auto
  with Recv_spec[of c s] r show ?thesis by (intro that[of "[]"]) auto
next
  case OpDone
  with st have d: "Sink_Done s = Some s'" by auto
  from Sink_Done_spec[OF inv(1)] Sink_Done_frame[OF d] d show ?thesis by (intro that[of "[]"]) auto
qed

text \<open>A channel whose run is done only changes through its own receiver.\<close>

lemma sinkStep_quiet:
  assumes inv: "sinkInv s" and st: "sinkStep op s lg = Some (outs, s', lg')" and c: "c < sk_nextChan s" "sk_done s"
    and op: "op \<noteq> OpRecv c" "op \<noteq> OpUnsubscribe c" "\<forall>eid now io ty pl. op \<noteq> OpEmit eid now io ty pl"
  shows "ch_buf (chanOf s' c) = ch_buf (chanOf s c)"
proof (cases op)
  case OpSubscribe
  with st c show ?thesis by (auto simp: Subscribe_def Let_def chanOf_def)
next
  case (OpUnsubscribe d)
  with st op Unsubscribe_spec[OF inv, of d] show ?thesis by auto
next
  case (OpRecv d)
  obtain res s1 where r: "Recv d s = (res, s1)" by fastforce
  have "s' = s1" using st OpRecv r by (cases res) auto
  with Recv_spec[of d s] r op OpRecv show ?thesis by auto
next
  case OpDone
  with st c Sink_Done_frame show ?thesis by auto
qed (use op in simp)

lemma sinkStep_outs: "sinkStep op s lg = Some (outs, s', lg') \<Longrightarrow> op \<noteq> OpRecv c \<Longrightarrow> outsOf c outs = []"
  by (cases op) (auto split: prod.splits recvResult.splits)

lemma Sink_Done_buf:
  assumes inv: "sinkInv s" and d: "Sink_Done s = Some s'" and c: "c \<in> set (sk_subscribers s)"
  shows "ch_buf (chanOf s' c) = ch_buf (chanOf s c)"
  using Sink_Done_spec[OF inv] Sink_Done_frame[OF d] d c by (cases "sk_done s") auto

subsection \<open>The invariant of a stream\<close>

definition replayed :: "int \<Rightarrow> event list \<Rightarrow> event list" where
  "replayed fromSequence evs = (if fromSequence < 0 then [] else filter (\<lambda>e. ev_Sequence e > fromSequence) evs)"

definition expected :: "int \<Rightarrow> streamState \<Rightarrow> event list" where
  "expected fromSequence st = replayed fromSequence (take (ss_at st) (sk_events (ss_sink st))) @ drop (ss_sub st) (sk_events (ss_sink st))"

definition pendingOf :: "streamState \<Rightarrow> event list" where
  "pendingOf st = (case ss_phase st of PLive c \<Rightarrow> ch_buf (chanOf (ss_sink st) c) | _ \<Rightarrow> [])"

definition noDrops :: "streamState \<Rightarrow> bool" where
  "noDrops st \<longleftrightarrow> sk_droppedEvents (ss_sink st) = ss_drop st"

definition liveInv :: "int \<Rightarrow> streamState \<Rightarrow> nat \<Rightarrow> bool" where
  "liveInv fromSequence st c \<longleftrightarrow>
     ss_at st \<le> ss_sub st \<and> ss_sub st \<le> length (sk_events (ss_sink st)) \<and> c < sk_nextChan (ss_sink st) \<and>
     (c \<in> set (sk_subscribers (ss_sink st)) \<or> sk_done (ss_sink st)) \<and> SDone \<notin> set (ss_out st) \<and> ss_drop st \<le> sk_droppedEvents (ss_sink st) \<and>
     subseq (eventsOf (ss_out st) @ ch_buf (chanOf (ss_sink st) c)) (expected fromSequence st) \<and>
     (noDrops st \<longrightarrow> eventsOf (ss_out st) @ ch_buf (chanOf (ss_sink st) c) = expected fromSequence st)"

definition endedInv :: "int \<Rightarrow> streamState \<Rightarrow> bool" where
  "endedInv fromSequence st \<longleftrightarrow>
     ss_at st \<le> ss_sub st \<and> ss_sub st \<le> length (sk_events (ss_sink st)) \<and> subseq (eventsOf (ss_out st)) (expected fromSequence st) \<and>
     (SDone \<in> set (ss_out st) \<longrightarrow> sk_done (ss_sink st) \<and> (noDrops st \<longrightarrow> eventsOf (ss_out st) = expected fromSequence st))"

definition streamInv :: "int \<Rightarrow> streamState \<Rightarrow> bool" where
  "streamInv fromSequence st \<longleftrightarrow> sinkInv (ss_sink st) \<and> logInv (ss_log st) \<and>
     (case ss_phase st of
        PReplay \<Rightarrow> ss_out st = []
      | PSubscribe \<Rightarrow> ss_at st \<le> length (sk_events (ss_sink st)) \<and> SDone \<notin> set (ss_out st) \<and>
          eventsOf (ss_out st) = replayed fromSequence (take (ss_at st) (sk_events (ss_sink st)))
      | PLive c \<Rightarrow> liveInv fromSequence st c
      | PEnded \<Rightarrow> endedInv fromSequence st)"

lemma eventsOf_simps [simp]:
  "eventsOf [] = []" "eventsOf (xs @ ys) = eventsOf xs @ eventsOf ys" "eventsOf [SEvent e] = [e]" "eventsOf [SDone] = []"
  "eventsOf [SHeartbeat] = []" "eventsOf (map SEvent es) = es"
  by (simp_all add: eventsOf_def comp_def)

lemma replayOf_replayed:
  assumes "sinkInv s"
  shows "replayOf n s = replayed n (sk_events s)"
proof -
  have "\<forall>e \<in> set (sk_events s). 0 < ev_Sequence e"
  proof
    fix e assume "e \<in> set (sk_events s)"
    then have "ev_Sequence e \<in> set (map ev_Sequence (sk_events s))" by simp
    then show "0 < ev_Sequence e" using assms unfolding sinkInv_def by (auto simp del: upt_Suc)
  qed
  then show ?thesis by (auto simp: replayOf_def replayed_def EventsFromSequence_def Events_def filter_id_conv)
qed

lemma step_replay_ok: "streamInv n st \<Longrightarrow> ss_phase st = PReplay \<Longrightarrow> streamInv n (streamReplay n st)"
  by (auto simp: streamInv_def streamReplay_def replayOf_replayed)

lemma step_subscribe_ok:
  assumes "streamInv n st" "ss_phase st = PSubscribe"
  shows "streamInv n (streamSubscribe st)"
proof -
  let ?s = "ss_sink st"
  have inv: "sinkInv ?s" using assms(1) by (simp add: streamInv_def)
  have b: "ch_buf (chanOf (snd (Subscribe ?s)) (sk_nextChan ?s)) = []" "sk_events (snd (Subscribe ?s)) = sk_events ?s"
    "sk_nextChan ?s \<in> set (sk_subscribers (snd (Subscribe ?s)))" "sk_nextChan ?s < sk_nextChan (snd (Subscribe ?s))"
    by (simp_all add: Subscribe_def Let_def chanOf_def)
  have e: "streamSubscribe st = st\<lparr>ss_sink := snd (Subscribe ?s), ss_phase := PLive (sk_nextChan ?s), ss_sub := length (sk_events ?s),
      ss_drop := sk_droppedEvents (snd (Subscribe ?s))\<rparr>"
    by (simp add: streamSubscribe_def Subscribe_def Let_def)
  show ?thesis unfolding e using assms sinkInv_Subscribe[OF inv] b
    by (simp add: streamInv_def liveInv_def expected_def)
qed

lemma expected_cong:
  "sk_events (ss_sink st') = sk_events (ss_sink st) \<Longrightarrow> ss_at st' = ss_at st \<Longrightarrow> ss_sub st' = ss_sub st \<Longrightarrow> expected n st' = expected n st"
  by (simp add: expected_def)

lemma expected_grow:
  assumes "sk_events (ss_sink st') = sk_events (ss_sink st) @ new" "ss_at st' = ss_at st" "ss_sub st' = ss_sub st"
    "ss_at st \<le> ss_sub st" "ss_sub st \<le> length (sk_events (ss_sink st))"
  shows "expected n st' = expected n st @ new"
  using assms by (simp add: expected_def)

lemma step_recv_ok:
  assumes inv: "streamInv n st" and ph: "ss_phase st = PLive c" and st: "streamRecv c st = Some st'"
  shows "streamInv n st'"
proof -
  let ?s = "ss_sink st"
  have si: "sinkInv ?s" and lv: "liveInv n st c" and lg: "logInv (ss_log st)" using inv ph by (simp_all add: streamInv_def)
  obtain res s1 where r: "Recv c ?s = (res, s1)" by fastforce
  note R = Recv_spec[of c ?s, unfolded r, simplified]
  show ?thesis
  proof (cases res)
    case (Received e)
    then have st': "st' = st\<lparr>ss_sink := s1, ss_out := ss_out st @ [SEvent e]\<rparr>" using st r by (simp add: streamRecv_def)
    have "expected n st' = expected n st" by (rule expected_cong) (use st' R in auto)
    moreover have "ch_buf (chanOf ?s c) = e # ch_buf (chanOf s1 c)" using R Received by simp
    ultimately have "liveInv n st' c" using lv R st' by (simp add: liveInv_def noDrops_def)
    moreover have "sinkInv s1" using sinkInv_Recv[OF si, of c] r by simp
    ultimately show ?thesis using st' ph lg by (simp add: streamInv_def)
  next
    case ChanClosed
    then have s1: "s1 = ?s" "ch_closed (chanOf ?s c)" "ch_buf (chanOf ?s c) = []" using r by (auto simp: Recv_def split: list.splits if_splits)
    then have "c \<notin> set (sk_subscribers ?s)" using si by (auto simp: sinkInv_def)
    then have dn: "sk_done ?s" using lv by (simp add: liveInv_def)
    obtain s2 where s2: "Unsubscribe c ?s = Some s2" using Unsubscribe_spec[OF si, of c] by blast
    then have st': "st' = st\<lparr>ss_sink := s2, ss_out := ss_out st @ [SDone], ss_phase := PEnded\<rparr>" using st r s1(1) ChanClosed by (simp add: streamRecv_def)
    have f: "sk_events s2 = sk_events ?s" "sk_droppedEvents s2 = sk_droppedEvents ?s" "sk_done s2 = sk_done ?s" using Unsubscribe_spec[OF si, of c] s2 by auto
    have "expected n st' = expected n st" by (rule expected_cong) (use st' f in auto)
    then have "endedInv n st'" using lv st' f dn s1(3) by (simp add: liveInv_def endedInv_def noDrops_def)
    then show ?thesis using st' lg sinkInv_Unsubscribe[OF si s2] by (simp add: streamInv_def)
  next
    case WouldBlock
    with st r show ?thesis by (simp add: streamRecv_def)
  qed
qed

lemma step_gone_ok:
  assumes inv: "streamInv n st" and ph: "ss_phase st = PLive c" and u: "Unsubscribe c (ss_sink st) = Some s2"
  shows "streamInv n (st\<lparr>ss_sink := s2, ss_phase := PEnded\<rparr>)"
proof -
  have si: "sinkInv (ss_sink st)" and lv: "liveInv n st c" and lg: "logInv (ss_log st)" using inv ph by (simp_all add: streamInv_def)
  have f: "sk_events s2 = sk_events (ss_sink st)" using Unsubscribe_spec[OF si, of c] u by auto
  have "expected n (st\<lparr>ss_sink := s2, ss_phase := PEnded\<rparr>) = expected n st" by (rule expected_cong) (use f in auto)
  moreover have "subseq (eventsOf (ss_out st)) (expected n st)"
    using lv subseq_order.trans[OF subseq_rev_drop_many[OF subseq_order.refl]] by (auto simp: liveInv_def)
  ultimately have "endedInv n (st\<lparr>ss_sink := s2, ss_phase := PEnded\<rparr>)" using lv f by (simp add: endedInv_def liveInv_def)
  then show ?thesis using lg sinkInv_Unsubscribe[OF si u] by (simp add: streamInv_def)
qed

lemma step_env_ok:
  assumes inv: "streamInv n st" and op: "sinkStep op (ss_sink st) (ss_log st) = Some (outs, s', lg')"
    and mine: "\<forall>c. ss_phase st = PLive c \<longrightarrow> op \<noteq> OpRecv c \<and> op \<noteq> OpUnsubscribe c"
    and quiet: "sk_done (ss_sink st) \<longrightarrow> (\<forall>eid now io ty pl. op \<noteq> OpEmit eid now io ty pl)"
  shows "streamInv n (st\<lparr>ss_sink := s', ss_log := lg'\<rparr>)"
proof -
  let ?s = "ss_sink st" and ?st' = "st\<lparr>ss_sink := s', ss_log := lg'\<rparr>"
  have si: "sinkInv ?s" and lg: "logInv (ss_log st)" using inv by (simp_all add: streamInv_def)
  have ok: "sinkInv s'" "logInv lg'" using sinkStep_ok[OF si lg, of op 0] op by auto
  obtain new where f: "sk_events s' = sk_events ?s @ new" "sk_nextChan ?s \<le> sk_nextChan s'" "sk_droppedEvents ?s \<le> sk_droppedEvents s'"
    "sk_done ?s \<longrightarrow> sk_done s'"
    "(\<forall>eid now io ty pl. op \<noteq> OpEmit eid now io ty pl) \<longrightarrow> new = [] \<and> sk_droppedEvents s' = sk_droppedEvents ?s"
    by (rule sinkStep_frame[OF si lg op])
  show ?thesis
  proof (cases "ss_phase st")
    case PReplay
    with inv ok show ?thesis by (simp add: streamInv_def)
  next
    case PSubscribe
    with inv ok f(1) show ?thesis by (simp add: streamInv_def)
  next
    case PEnded
    then have e: "endedInv n st" using inv by (simp add: streamInv_def)
    then have x: "expected n ?st' = expected n st @ new" by (intro expected_grow) (use f(1) in \<open>auto simp: endedInv_def\<close>)
    have "new = [] \<and> sk_droppedEvents s' = sk_droppedEvents ?s" if "sk_done ?s" using quiet f(5) that by blast
    with e x f have "endedInv n ?st'" by (auto simp: endedInv_def noDrops_def intro: subseq_rev_drop_many)
    with PEnded ok show ?thesis by (simp add: streamInv_def)
  next
    case (PLive c)
    then have l: "liveInv n st c" using inv by (simp add: streamInv_def)
    then have x: "expected n ?st' = expected n st @ new" by (intro expected_grow) (use f(1) in \<open>auto simp: liveInv_def\<close>)
    have notmine: "op \<noteq> OpRecv c" "op \<noteq> OpUnsubscribe c" using mine PLive by auto
    let ?b = "ch_buf (chanOf ?s c)" and ?b' = "ch_buf (chanOf s' c)"
    have key: "(c \<in> set (sk_subscribers s') \<or> sk_done s') \<and> subseq ?b' (?b @ new) \<and> (sk_droppedEvents s' = sk_droppedEvents ?s \<longrightarrow> ?b' = ?b @ new)"
    proof (cases "c \<in> set (sk_subscribers ?s) \<and> op \<noteq> OpDone")
      case True
      then have "delivered c outs ?s s'" using sinkStep_ok[OF si lg, of op c] op notmine by (auto simp: keepsOpen_def)
      moreover have "outsOf c outs = []" by (rule sinkStep_outs[OF op notmine(1)])
      ultimately show ?thesis using f(1) by (auto simp: delivered_def)
    next
      case False
      show ?thesis
      proof (cases "op = OpDone")
        case True
        then have d: "Sink_Done ?s = Some s'" using op by auto
        have "?b' = ?b" using l Sink_Done_buf[OF si d] Sink_Done_frame[OF d] by (auto simp: liveInv_def)
        moreover have "sk_done s'" using Sink_Done_spec[OF si] d by auto
        ultimately show ?thesis using f(5) True by auto
      next
        case ne: False
        with False l have dn: "sk_done ?s" by (auto simp: liveInv_def)
        with quiet have q: "\<forall>eid now io ty pl. op \<noteq> OpEmit eid now io ty pl" by blast
        have "?b' = ?b" by (rule sinkStep_quiet[OF si op _ dn notmine q]) (use l in \<open>simp add: liveInv_def\<close>)
        with dn q f(4,5) show ?thesis by auto
      qed
    qed
    have "subseq (eventsOf (ss_out st) @ ?b') (expected n st @ new)"
    proof -
      have "subseq (eventsOf (ss_out st) @ ?b') (eventsOf (ss_out st) @ ?b @ new)"
        by (intro list_emb_append_mono) (use key in auto)
      moreover have "subseq ((eventsOf (ss_out st) @ ?b) @ new) (expected n st @ new)"
        by (intro list_emb_append_mono) (use l in \<open>auto simp: liveInv_def\<close>)
      ultimately show ?thesis by (simp add: subseq_order.trans)
    qed
    with l x key f have "liveInv n ?st' c" by (auto simp: liveInv_def noDrops_def)
    with PLive ok show ?thesis by (simp add: streamInv_def)
  qed
qed

interpretation stream_sys: inv_system streamInit "stream_step n" "streamInv n" for n
proof
  fix st assume "streamInit st"
  then show "streamInv n st" by (simp add: streamInit_def streamInv_def)
next
  fix st st' assume inv: "streamInv n st" and "stream_step n st st'"
  from this(2) show "streamInv n st'"
  proof (cases rule: stream_step.cases)
    case step_replay
    with step_replay_ok[OF inv] show ?thesis by simp
  next
    case step_subscribe
    with step_subscribe_ok[OF inv] show ?thesis by simp
  next
    case (step_recv c)
    with step_recv_ok[OF inv] show ?thesis by simp
  next
    case (step_heartbeat c)
    with inv show ?thesis by (simp add: streamInv_def liveInv_def noDrops_def expected_def)
  next
    case (step_gone c sink')
    with step_gone_ok[OF inv] show ?thesis by simp
  next
    case (step_env op outs sink' lg')
    with step_env_ok[OF inv] show ?thesis by simp
  qed
qed

lemma sorted_wrt_sub: "subseq xs ys \<Longrightarrow> sorted_wrt P ys \<Longrightarrow> sorted_wrt P xs"
proof (induction rule: list_emb.induct)
  case (list_emb_Cons2 x y xs ys)
  then show ?case by (fastforce elim: list_emb_set)
qed auto

lemma replayed_sub: "subseq (replayed n xs) xs"
  by (simp add: replayed_def subseq_filter_left)

lemma expected_sub:
  assumes "ss_at st \<le> ss_sub st"
  shows "subseq (expected n st) (sk_events (ss_sink st))"
proof -
  let ?e = "sk_events (ss_sink st)"
  have "subseq (drop (ss_sub st) ?e) (drop (ss_at st) ?e)"
    using assms by (metis drop_drop le_add_diff_inverse2 subseq_drop_many subseq_order.refl append_take_drop_id)
  then have "subseq (replayed n (take (ss_at st) ?e) @ drop (ss_sub st) ?e) (take (ss_at st) ?e @ drop (ss_at st) ?e)"
    by (intro list_emb_append_mono replayed_sub)
  then show ?thesis by (simp add: expected_def)
qed

lemma streamInv_sub:
  assumes inv: "streamInv n st"
  shows "subseq (eventsOf (ss_out st)) (sk_events (ss_sink st))"
proof (cases "ss_phase st")
  case PReplay
  with inv show ?thesis by (simp add: streamInv_def)
next
  case PSubscribe
  let ?e = "sk_events (ss_sink st)"
  have "subseq (replayed n (take (ss_at st) ?e)) (take (ss_at st) ?e @ drop (ss_at st) ?e)" by (intro subseq_rev_drop_many replayed_sub)
  with inv PSubscribe show ?thesis by (simp add: streamInv_def)
next
  case (PLive c)
  with inv have l: "liveInv n st c" by (simp add: streamInv_def)
  then have "subseq (eventsOf (ss_out st)) (expected n st)"
    using subseq_order.trans[OF subseq_rev_drop_many[OF subseq_order.refl]] by (auto simp: liveInv_def)
  with expected_sub[of st n] l show ?thesis using subseq_order.trans by (auto simp: liveInv_def)
next
  case PEnded
  with inv expected_sub[of st n] show ?thesis using subseq_order.trans by (auto simp: streamInv_def endedInv_def)
qed

lemma sinkInv_sorted:
  assumes "sinkInv s"
  shows "sorted_wrt (<) (map ev_Sequence (sk_events s))"
  using assms by (simp add: sinkInv_def sorted_wrt_map del: upt_Suc)

lemma sinkInv_nth:
  assumes "sinkInv s" "i < length (sk_events s)"
  shows "ev_Sequence (sk_events s ! i) = int (Suc i)"
proof -
  have "map ev_Sequence (sk_events s) = map int [1..<Suc (length (sk_events s))]" using assms(1) by (simp add: sinkInv_def)
  from arg_cong[OF this, of "\<lambda>xs. xs ! i"] assms(2) show ?thesis by (simp del: upt_Suc)
qed

subsection \<open>Executable schedules\<close>

datatype streamAction = AReplay | ASubscribe | ARecv | AHeartbeat | AGone | AEnv sinkOp

definition isEmit :: "sinkOp \<Rightarrow> bool" where
  "isEmit op = (case op of OpEmit _ _ _ _ _ \<Rightarrow> True | _ \<Rightarrow> False)"

definition envOk :: "sinkOp \<Rightarrow> streamState \<Rightarrow> bool" where
  "envOk op st = ((case ss_phase st of PLive c \<Rightarrow> op \<noteq> OpRecv c \<and> op \<noteq> OpUnsubscribe c | _ \<Rightarrow> True) \<and> (sk_done (ss_sink st) \<longrightarrow> \<not> isEmit op))"

fun streamAct :: "int \<Rightarrow> streamAction \<Rightarrow> streamState \<Rightarrow> streamState option" where
  "streamAct n AReplay st = (if ss_phase st = PReplay then Some (streamReplay n st) else None)"
| "streamAct n ASubscribe st = (if ss_phase st = PSubscribe then Some (streamSubscribe st) else None)"
| "streamAct n ARecv st = (case ss_phase st of PLive c \<Rightarrow> streamRecv c st | _ \<Rightarrow> None)"
| "streamAct n AHeartbeat st = (case ss_phase st of PLive c \<Rightarrow> Some (st\<lparr>ss_out := ss_out st @ [SHeartbeat]\<rparr>) | _ \<Rightarrow> None)"
| "streamAct n AGone st = (case ss_phase st of PLive c \<Rightarrow> map_option (\<lambda>sink'. st\<lparr>ss_sink := sink', ss_phase := PEnded\<rparr>) (Unsubscribe c (ss_sink st)) | _ \<Rightarrow> None)"
| "streamAct n (AEnv op) st =
     (if envOk op st then map_option (\<lambda>(_, sink', lg'). st\<lparr>ss_sink := sink', ss_log := lg'\<rparr>) (sinkStep op (ss_sink st) (ss_log st)) else None)"

fun streamActs :: "int \<Rightarrow> streamAction list \<Rightarrow> streamState \<Rightarrow> streamState option" where
  "streamActs n [] st = Some st"
| "streamActs n (a # as) st = (case streamAct n a st of None \<Rightarrow> None | Some st' \<Rightarrow> streamActs n as st')"

lemma streamAct_step: "streamAct n a st = Some st' \<Longrightarrow> stream_step n st st'"
proof (cases a)
  case (AEnv op)
  assume "streamAct n a st = Some st'"
  with AEnv obtain outs sink' lg' where "envOk op st" "sinkStep op (ss_sink st) (ss_log st) = Some (outs, sink', lg')"
    "st' = st\<lparr>ss_sink := sink', ss_log := lg'\<rparr>" by (auto split: if_splits)
  then show ?thesis using step_env[of op st outs sink' lg' n] by (auto simp: envOk_def isEmit_def split: streamPhase.splits sinkOp.splits)
qed (auto intro: step_replay step_subscribe step_recv step_heartbeat step_gone split: if_splits streamPhase.splits)

lemma streamActs_reach:
  "reachable streamInit (stream_step n) st \<Longrightarrow> streamActs n as st = Some st' \<Longrightarrow> reachable streamInit (stream_step n) st'"
proof (induction as arbitrary: st)
  case (Cons a as)
  then obtain st1 where s: "streamAct n a st = Some st1" "streamActs n as st1 = Some st'" by (auto split: option.splits)
  with Cons.IH[OF reach_step[OF Cons.prems(1) streamAct_step[OF s(1)]]] show ?case by simp
qed simp

definition sampleStream :: streamState where
  "sampleStream = \<lparr>ss_sink = NewEventSink ''t'' ''a'' ''r'', ss_log = NewFileEventLogStore, ss_phase = PReplay, ss_out = [], ss_at = 0, ss_sub = 0, ss_drop = 0\<rparr>"

abbreviation emitOne :: "string \<Rightarrow> streamAction" where
  "emitOne i \<equiv> AEnv (OpEmit i ''now'' None ''agentos.run.started'' [])"

lemma Some_case: "(case x of None \<Rightarrow> False | Some y \<Rightarrow> P y) \<Longrightarrow> \<exists>y. x = Some y \<and> P y"
  by (cases x) auto

lemma sampleStream_reach: "streamActs n as sampleStream = Some st \<Longrightarrow> reachable streamInit (stream_step n) st"
  by (rule streamActs_reach[OF reach_init]) (simp_all add: streamInit_def sampleStream_def NewFileEventLogStore_inv)

text \<open>An event emitted between the replay and the subscription is never sent, although the client is told that the run is done.\<close>

lemma stream_gap_loses:
  "\<exists>st. reachable streamInit (stream_step 0) st \<and> noDrops st \<and> SDone \<in> set (ss_out st) \<and> eventsOf (ss_out st) = [] \<and> Events (ss_sink st) \<noteq> []"
proof -
  let ?as = "[AReplay, emitOne ''e1'', ASubscribe, AEnv OpDone, ARecv]"
  have "case streamActs 0 ?as sampleStream of None \<Rightarrow> False
      | Some st \<Rightarrow> noDrops st \<and> SDone \<in> set (ss_out st) \<and> eventsOf (ss_out st) = [] \<and> Events (ss_sink st) \<noteq> []"
    by code_simp
  from Some_case[OF this] show ?thesis using sampleStream_reach[of 0 ?as] by blast
qed

subsection \<open>Sinks and the durable log\<close>

lemma mget_fold_mdel: "mget (fold mdel rs m) r = (if r \<in> set rs then None else mget m r)"
  by (induction rs arbitrary: m) auto

lemma evictStaleSinks_sinks: "tb_sinks (evictStaleSinks now t) = fold mdel (staleRuns now (tb_completed t)) (tb_sinks t)"
proof -
  have "tb_sinks (fold (\<lambda>r t. t\<lparr>tb_sinks := mdel r (tb_sinks t), tb_completed := mdel r (tb_completed t)\<rparr>) rs t) = fold mdel rs (tb_sinks t)" for rs t
    by (induction rs arbitrary: t) auto
  then show ?thesis by (simp add: evictStaleSinks_def)
qed

lemma notifySubscribers_fields:
  "notifySubscribers e cs s = Some s' \<Longrightarrow> sk_eventLog s' = sk_eventLog s \<and> sk_tenant s' = sk_tenant s \<and> sk_runID s' = sk_runID s"
proof (induction cs arbitrary: s)
  case (Cons c cs)
  then obtain s1 where "sendOrDrop e c s = Some s1" "notifySubscribers e cs s1 = Some s'" by (auto split: option.splits)
  with Cons.IH[of s1] show ?case by (auto simp: sendOrDrop_def split: if_splits)
qed simp

lemma closeAll_fields:
  "closeAll cs s = Some s' \<Longrightarrow> sk_eventLog s' = sk_eventLog s \<and> sk_tenant s' = sk_tenant s \<and> sk_runID s' = sk_runID s"
proof (induction cs arbitrary: s)
  case (Cons c cs)
  then obtain s1 where "closeChan c s = Some s1" "closeAll cs s1 = Some s'" by (auto split: option.splits)
  with Cons.IH[of s1] show ?case by (auto simp: closeChan_def split: if_splits)
qed simp

definition logAgrees :: "string \<Rightarrow> string \<Rightarrow> eventSink \<Rightarrow> eventLogStore \<Rightarrow> bool" where
  "logAgrees t r s lg \<longleftrightarrow> sinkInv s \<and> logInv lg \<and> sk_eventLog s \<and> sk_tenant s = t \<and> sk_runID s = r \<and>
     fst ` set (el_runs lg) \<subseteq> {runKey t r} \<and> zget [] (el_runs lg) (runKey t r) = sk_events s"

lemma Emit_log:
  assumes ag: "logAgrees t r s lg" and e: "Emit eid now io ty pl s lg = Some (s', lg')"
  shows "logAgrees t r s' lg'"
proof -
  let ?e = "newEvent eid now ty pl s"
  let ?s1 = "s\<lparr>sk_seq := sk_seq s + 1, sk_events := sk_events s @ [?e]\<rparr>"
  note a = ag[unfolded logAgrees_def]
  obtain s2 where n: "notifySubscribers ?e (sk_subscribers ?s1) ?s1 = Some s2"
    using e unfolding Emit_def Let_def by (auto split: option.splits)
  note f = notifySubscribers_fields[OF n]
  obtain err where ap: "EventLog_Append io ?e lg = Some (err, lg')" and s': "s' = s2"
    using e n f a unfolding Emit_def Let_def by (auto split: option.splits)
  have key: "eventKey ?e = runKey t r" using a by (simp add: newEvent_def)
  have ev: "sk_events s' = sk_events s @ [?e]" using Emit_spec[of s lg eid now io ty pl] a e by auto
  have "length (logRuns ?e lg) \<le> maxRunsInMemory"
  proof -
    have g: "gwf (logRuns ?e lg)" using a by (simp add: logRuns_def logInv_def)
    have "fst ` set (logRuns ?e lg) \<subseteq> {runKey t r}" using a key by (auto simp: logRuns_def)
    then have "card (fst ` set (logRuns ?e lg)) \<le> card {runKey t r}" by (intro card_mono) auto
    then show ?thesis by (simp add: length_card_keys[OF g] maxRunsInMemory_def)
  qed
  then have r: "el_runs lg' = logRuns ?e lg" using EventLog_Append_room[of lg ?e io] ap a by auto
  have "zget [] (el_runs lg') (runKey t r) = sk_events s'" using r key a ev by (simp add: logRuns_def)
  moreover have "fst ` set (el_runs lg') \<subseteq> {runKey t r}" using r key a by (auto simp: logRuns_def)
  moreover have "sinkInv s' \<and> logInv lg'" by (rule sinkInv_Emit[of s lg]) (use a e in auto)
  ultimately show ?thesis using f s' a by (simp add: logAgrees_def)
qed

lemma sinkStep_log:
  assumes ag: "logAgrees t r s lg" and st: "sinkStep op s lg = Some (outs, s', lg')"
  shows "logAgrees t r s' lg'"
proof -
  note a = ag[unfolded logAgrees_def]
  have si: "sinkInv s" "logInv lg" using a by auto
  show ?thesis
  proof (cases op)
    case (OpEmit eid now io ty pl)
    with st have "Emit eid now io ty pl s lg = Some (s', lg')" by auto
    then show ?thesis by (rule Emit_log[OF ag])
  next
    case OpSubscribe
    with st a sinkInv_Subscribe[OF si(1)] show ?thesis by (auto simp: logAgrees_def Subscribe_def Let_def)
  next
    case (OpUnsubscribe c)
    then have u: "Unsubscribe c s = Some s'" "lg' = lg" using st by auto
    have "sk_eventLog s' = sk_eventLog s \<and> sk_tenant s' = sk_tenant s \<and> sk_runID s' = sk_runID s \<and> sk_events s' = sk_events s"
      using u(1) by (auto simp: Unsubscribe_def closeChan_def split: option.splits if_splits)
    with a u sinkInv_Unsubscribe[OF si(1) u(1)] show ?thesis by (simp add: logAgrees_def)
  next
    case (OpRecv c)
    obtain res s1 where r: "Recv c s = (res, s1)" by fastforce
    have s1: "s' = s1" "lg' = lg" using st OpRecv r by (cases res; auto)+
    have "sk_eventLog s1 = sk_eventLog s \<and> sk_tenant s1 = sk_tenant s \<and> sk_runID s1 = sk_runID s \<and> sk_events s1 = sk_events s"
      using r by (auto simp: Recv_def split: list.splits)
    with a s1 sinkInv_Recv[OF si(1), of c] r show ?thesis by (simp add: logAgrees_def)
  next
    case OpDone
    then have d: "Sink_Done s = Some s'" "lg' = lg" using st by auto
    have "sk_eventLog s' = sk_eventLog s \<and> sk_tenant s' = sk_tenant s \<and> sk_runID s' = sk_runID s"
      using d(1) closeAll_fields by (fastforce simp: Sink_Done_def split: if_splits)
    with a d Sink_Done_spec[OF si(1)] show ?thesis by (auto simp: logAgrees_def)
  qed
qed

lemma sinkRun_log: "logAgrees t r s lg \<Longrightarrow> sinkRun ops s lg = Some (outs, s', lg') \<Longrightarrow> logAgrees t r s' lg'"
proof (induction ops arbitrary: s lg outs)
  case (Cons op ops)
  then obtain o1 s1 lg1 o2 where "sinkStep op s lg = Some (o1, s1, lg1)" "sinkRun ops s1 lg1 = Some (o2, s', lg')"
    by (auto split: option.splits)
  with Cons.IH[OF sinkStep_log[OF Cons.prems(1)]] show ?case by blast
qed simp

lemma logAgrees_new: "logAgrees t r (NewEventSinkWithLog t a r) NewFileEventLogStore"
  by (simp add: logAgrees_def NewFileEventLogStore_inv) (simp add: NewEventSinkWithLog_def NewEventSink_def NewFileEventLogStore_def)

lemma new_no_subscribers: "sk_subscribers (NewEventSinkWithLog t a r) = []"
  by (simp add: NewEventSinkWithLog_def NewEventSink_def)

lemma after_drop:
  assumes "sinkInv s" "0 \<le> q"
  shows "filter (\<lambda>e. q < ev_Sequence e) (sk_events s) = drop (nat q) (sk_events s)"
proof -
  have "filter (\<lambda>e. int (nat q) < ev_Sequence e) (sk_events s) = drop (nat q) (sk_events s)"
    by (rule filter_seq_drop) (use sinkInv_nth[OF assms(1)] in blast)
  with assms(2) show ?thesis by simp
qed

subsection \<open>Properties\<close>

text \<open>C14. A client of the live stream sees, whatever the interleaving of the run, the handler and other subscribers,
  events of the run in strictly increasing order without duplicates. As long as no event was dropped, what it was sent
  together with what is buffered for it is the replay followed by every event emitted since it subscribed; and when it
  is told that the run is done, the run is done and it has received all of these. So when no event fell between the
  replay and the subscription and the cursor was not ahead of the run, it has received exactly the events after its
  cursor.\<close>

theorem stream_exact:
  assumes reach: "reachable streamInit (stream_step from) st"
  shows "sorted_wrt (<) (map ev_Sequence (eventsOf (ss_out st))) \<and> subseq (eventsOf (ss_out st)) (Events (ss_sink st)) \<and>
    ((\<exists>c. ss_phase st = PLive c) \<and> noDrops st \<longrightarrow>
      eventsOf (ss_out st) @ pendingOf st = replayed from (take (ss_at st) (Events (ss_sink st))) @ drop (ss_sub st) (Events (ss_sink st))) \<and>
    (SDone \<in> set (ss_out st) \<and> noDrops st \<longrightarrow> sk_done (ss_sink st) \<and>
      eventsOf (ss_out st) = replayed from (take (ss_at st) (Events (ss_sink st))) @ drop (ss_sub st) (Events (ss_sink st)) \<and>
      (ss_at st = ss_sub st \<and> 0 \<le> from \<and> from \<le> int (ss_at st) \<longrightarrow> eventsOf (ss_out st) = EventsFromSequence from (ss_sink st)))"
proof -
  let ?e = "sk_events (ss_sink st)"
  have inv: "streamInv from st" by (rule stream_sys.inv_reachable[OF reach])
  then have si: "sinkInv (ss_sink st)" by (simp add: streamInv_def)
  have sub: "subseq (eventsOf (ss_out st)) ?e" by (rule streamInv_sub[OF inv])
  have "sorted_wrt (<) (map ev_Sequence (eventsOf (ss_out st)))"
    by (rule sorted_wrt_sub[OF subseq_map[OF sub] sinkInv_sorted[OF si]])
  moreover have "eventsOf (ss_out st) @ pendingOf st = expected from st" if "ss_phase st = PLive c" "noDrops st" for c
    using inv that by (simp add: streamInv_def liveInv_def pendingOf_def)
  moreover have dn: "sk_done (ss_sink st) \<and> eventsOf (ss_out st) = expected from st" if "SDone \<in> set (ss_out st)" "noDrops st"
    using inv that by (auto simp: streamInv_def liveInv_def endedInv_def split: streamPhase.splits)
  moreover have "expected from st = EventsFromSequence from (ss_sink st)" if g: "ss_at st = ss_sub st" "0 \<le> from" "from \<le> int (ss_at st)"
  proof -
    have "filter (\<lambda>e. ev_Sequence e > from) (drop (ss_at st) ?e) = drop (ss_at st) ?e"
      using sinkInv_nth[OF si] g by (auto simp: filter_id_conv in_set_conv_nth)
    then have "filter (\<lambda>e. ev_Sequence e > from) ?e = filter (\<lambda>e. ev_Sequence e > from) (take (ss_at st) ?e) @ drop (ss_at st) ?e"
      by (metis append_take_drop_id filter_append)
    then show ?thesis using g by (simp add: expected_def replayed_def EventsFromSequence_def)
  qed
  ultimately show ?thesis using sub unfolding expected_def Events_def by (metis (no_types, lifting))
qed

theorem stream_exact_witness:
  "\<exists>st. reachable streamInit (stream_step 0) st \<and> SDone \<in> set (ss_out st) \<and> length (Events (ss_sink st)) = 2 \<and>
     eventsOf (ss_out st) = EventsFromSequence 0 (ss_sink st)"
proof -
  let ?as = "[emitOne ''e1'', AReplay, ASubscribe, emitOne ''e2'', AHeartbeat, AEnv OpDone, ARecv, ARecv]"
  have "case streamActs 0 ?as sampleStream of None \<Rightarrow> False
      | Some st \<Rightarrow> noDrops st \<and> SDone \<in> set (ss_out st) \<and> length (Events (ss_sink st)) = 2 \<and> ss_at st = ss_sub st"
    by code_simp
  from Some_case[OF this] obtain st where st: "streamActs 0 ?as sampleStream = Some st" "noDrops st" "SDone \<in> set (ss_out st)"
    "length (Events (ss_sink st)) = 2" "ss_at st = ss_sub st" by blast
  have r: "reachable streamInit (stream_step 0) st" by (rule sampleStream_reach[OF st(1)])
  have "eventsOf (ss_out st) = EventsFromSequence 0 (ss_sink st)" using stream_exact[OF r] st(2-5) by (metis of_nat_0_le_iff order_refl)
  with r st(3,4) show ?thesis by blast
qed

text \<open>A reader of the event endpoint does not notice that the in-memory sink of a run was evicted: for every history
  of a run with the durable log, and every cursor from zero on, the answer is the same from the sink and from the log, the
  events after the cursor without a gap (or the synthetic event when there are none at all and the cursor is zero).\<close>

theorem events_survive_eviction:
  assumes hist: "sinkRun ops (NewEventSinkWithLog t a r) NewFileEventLogStore = Some (outs, s, lg)"
    and cur: "0 \<le> q" and sink: "Executor_Events r T1 = Some s" "Executor_Events r T2 = None"
  shows "eventsAfter env T1 (Some lg) rn t r q = eventsAfter env T2 (Some lg) rn t r q \<and>
    eventsAfter env T1 (Some lg) rn t r q = (if Events s = [] \<and> q = 0 then [syntheticEvent env rn] else drop (nat q) (Events s))"
proof -
  have ag: "logAgrees t r s lg" by (rule sinkRun_log[OF logAgrees_new hist])
  have si: "sinkInv s" using ag by (simp add: logAgrees_def)
  have qr: "QueryFromSequence t r q lg = drop (nat q) (sk_events s)"
    using ag cur after_drop[OF si cur] by (auto simp: QueryFromSequence_def Let_def logAgrees_def)
  have mem: "(if q > 0 then EventsFromSequence q s else Events s) = drop (nat q) (sk_events s)"
    using cur after_drop[OF si cur] by (auto simp: EventsFromSequence_def Events_def)
  have "q = 0 \<Longrightarrow> drop (nat q) (sk_events s) = sk_events s" by simp
  with qr mem sink show ?thesis unfolding eventsAfter_def Let_def by (auto simp: Events_def)
qed

theorem events_survive_eviction_witness:
  "let T1 = \<lparr>tb_sinks = [], tb_completed = []\<rparr>; ops = [OpEmit ''e1'' ''now'' None ''started'' [], OpEmit ''e2'' ''now'' None ''completed'' [], OpDone] in
   \<exists>outs s lg. sinkRun ops (NewEventSinkWithLog ''t'' ''a'' ''r'') NewFileEventLogStore = Some (outs, s, lg) \<and>
     (\<forall>env rn. eventsAfter env (submitSink ''r'' s T1) (Some lg) rn ''t'' ''r'' 1 = eventsAfter env T1 (Some lg) rn ''t'' ''r'' 1)"
proof -
  let ?T = "\<lparr>tb_sinks = [], tb_completed = []\<rparr>" and ?ops = "[OpEmit ''e1'' ''now'' None ''started'' [], OpEmit ''e2'' ''now'' None ''completed'' [], OpDone]"
  have "0 \<in> set (sk_subscribers (NewEventSinkWithLog ''t'' ''a'' ''r'')) \<longrightarrow> (\<forall>op \<in> set ?ops. keepsOpen 0 op)" by (simp add: new_no_subscribers)
  from sinkRun_ok[OF NewEventSink_inv(2) NewFileEventLogStore_inv this] obtain outs s lg where
    r: "sinkRun ?ops (NewEventSinkWithLog ''t'' ''a'' ''r'') NewFileEventLogStore = Some (outs, s, lg)" by blast
  have "Executor_Events ''r'' (submitSink ''r'' s ?T) = Some s" "Executor_Events ''r'' ?T = None"
    by (simp_all add: Executor_Events_def submitSink_def)
  then have "\<forall>env rn. eventsAfter env (submitSink ''r'' s ?T) (Some lg) rn ''t'' ''r'' 1 = eventsAfter env ?T (Some lg) rn ''t'' ''r'' 1"
    using events_survive_eviction[OF r, of 1] by simp
  with r show ?thesis unfolding Let_def by blast
qed

text \<open>The sink of a run that has not completed stays in the table when other runs finish, and that of a run finished
  less than five minutes ago too.\<close>

lemma finishSink_keeps:
  assumes "finishSink now r T = Some T'" "r' \<noteq> r" "gwf (tb_completed T)" "case mget (tb_completed T) r' of None \<Rightarrow> True | Some c \<Rightarrow> now - sinkTTL \<le> c"
  shows "Executor_Events r' T' = Executor_Events r' T"
proof -
  have "r' \<notin> set (staleRuns now (mput r now (tb_completed T)))"
  proof
    assume "r' \<in> set (staleRuns now (mput r now (tb_completed T)))"
    then obtain c where c: "(r', c) \<in> set (mput r now (tb_completed T))" "c < now - sinkTTL" by (auto simp: staleRuns_def)
    then have "mget (tb_completed T) r' = Some c" using assms(2,3) set_mput[OF assms(3), of r now] by (auto simp: mget_iff)
    with assms(4) c(2) show False by simp
  qed
  with assms(1,2) show ?thesis
    by (auto simp: finishSink_def Executor_Events_def evictStaleSinks_sinks mget_fold_mdel split: option.splits)
qed

end
