(* ===== verification/Ssrf.thy ===== *)
theory Ssrf
  imports AgentOS_Prelude "HOL-Library.Word"
begin

text \<open>
  Protection against requests to internal addresses (internal/ssrf/ssrf.go).

  \<^item> A \<open>net.IP\<close> is its byte slice: four bytes, or sixteen; \<open>To4\<close>, \<open>IPNet.Contains\<close>, \<open>ParseIP\<close> and \<open>ParseCIDR\<close>
    follow the standard library, so the ranges of the package are computed from the strings of the source.
  \<^item> Name resolution is an argument that gives the answer of each query, so that a name may resolve differently from one
    query to the next.
  \<^item> Shown here: the set of addresses called private, as intervals of the numeric address (\<open>IsPrivateIP_intervals\<close>),
    what an accepted host guarantees, and that dotted addresses are read back as they are printed.
\<close>

unbundle bit_operations_syntax

subsection \<open>Addresses of package net\<close>

type_synonym byte = "8 word"
type_synonym ip = "byte list"

record ipNet =
  net_IP :: ip
  net_Mask :: "byte list"

text \<open>The prefix of an IPv4 address written in sixteen bytes.\<close>

definition v4InV6Prefix :: "byte list" where
  "v4InV6Prefix = replicate 10 0 @ [0xff, 0xff]"

definition To4 :: "ip \<Rightarrow> ip option" where
  "To4 p =
     (if length p = 4 then Some p
      else if length p = 16 \<and> take 12 p = v4InV6Prefix then Some (drop 12 p)
      else None)"

definition networkNumberAndMask :: "ipNet \<Rightarrow> (ip \<times> byte list) option" where
  "networkNumberAndMask n =
     (let nn = (case To4 (net_IP n) of Some p \<Rightarrow> p | None \<Rightarrow> net_IP n); m = net_Mask n in
      if length nn \<noteq> 4 \<and> length nn \<noteq> 16 then None
      else if length m = 4 then (if length nn \<noteq> 4 then None else Some (nn, m))
      else if length m = 16 then Some (nn, if length nn = 4 then drop 12 m else m)
      else None)"

definition maskedEq :: "byte \<times> byte \<times> byte \<Rightarrow> bool" where
  "maskedEq = (\<lambda>(n, m, b). n AND m = b AND m)"

definition net_Contains :: "ipNet \<Rightarrow> ip \<Rightarrow> bool" where
  "net_Contains n p =
     (case networkNumberAndMask n of None \<Rightarrow> False
      | Some (nn, m) \<Rightarrow>
          let x = (case To4 p of Some q \<Rightarrow> q | None \<Rightarrow> p) in
          length x = length nn \<and> list_all maskedEq (zip nn (zip m x)))"

definition CIDRMask :: "nat \<Rightarrow> nat \<Rightarrow> byte list" where
  "CIDRMask ones bytes =
     map (\<lambda>i. if 8 * (i + 1) \<le> ones then 0xff else if 8 * i < ones then NOT (mask (8 - (ones - 8 * i))) else 0) [0..<bytes]"

definition IsLoopback :: "ip \<Rightarrow> bool" where
  "IsLoopback p = (case To4 p of Some q \<Rightarrow> hd q = 127 | None \<Rightarrow> p = replicate 15 0 @ [1])"

subsection \<open>Reading addresses\<close>

text \<open>A dotted field: one to three digits without a leading zero, at most 255.\<close>

definition v4Field :: "string \<Rightarrow> byte option" where
  "v4Field w =
     (if w = [] \<or> (length w > 1 \<and> hd w = CHR ''0'') \<or> \<not> list_all isDigit w then None
      else case atoiDigits 0 w of None \<Rightarrow> None | Some n \<Rightarrow> if n > 255 then None else Some (word_of_int n))"

definition parseIPv4Fields :: "string \<Rightarrow> byte list option" where
  "parseIPv4Fields s =
     (let fs = map v4Field (splitByte CHR ''.'' s) in
      if length fs = 4 \<and> None \<notin> set fs then Some (map the fs) else None)"

definition hexVal :: "char \<Rightarrow> int option" where
  "hexVal c =
     (let n = of_char c :: int in
      if 48 \<le> n \<and> n \<le> 57 then Some (n - 48)
      else if 97 \<le> n \<and> n \<le> 102 then Some (n - 97 + 10)
      else if 65 \<le> n \<and> n \<le> 70 then Some (n - 65 + 10)
      else None)"

fun hexAcc :: "int \<Rightarrow> string \<Rightarrow> int" where
  "hexAcc acc [] = acc"
| "hexAcc acc (c # cs) = hexAcc (acc * 16 + (case hexVal c of Some v \<Rightarrow> v | None \<Rightarrow> 0)) cs"

text \<open>
  The loop of parseIPv6: the rest of the input, the bytes read so far and the position of the ellipsis. It runs while
  fewer than sixteen bytes are known, at most eight times; \<open>fuel\<close> counts the groups left.
\<close>

fun v6Groups :: "nat \<Rightarrow> string \<Rightarrow> byte list \<Rightarrow> nat option \<Rightarrow> (string \<times> byte list \<times> nat option) option" where
  "v6Groups 0 s bs el = Some (s, bs, el)"
| "v6Groups (Suc fuel) s bs el =
     (let ds = takeWhile (\<lambda>c. hexVal c \<noteq> None) s; rest = dropWhile (\<lambda>c. hexVal c \<noteq> None) s;
          i = length bs; acc = hexAcc 0 ds in
      if i \<ge> 16 then Some (s, bs, el)
      else if ds = [] \<or> length ds > 4 then None
      else if rest \<noteq> [] \<and> hd rest = CHR ''.'' then
        (if (el = None \<and> i \<noteq> 12) \<or> i + 4 > 16 then None
         else case parseIPv4Fields s of None \<Rightarrow> None | Some v4 \<Rightarrow> Some ([], bs @ v4, el))
      else
        let bs' = bs @ [word_of_int (acc div 256), word_of_int (acc mod 256)] in
        if rest = [] then Some ([], bs', el)
        else if hd rest \<noteq> CHR '':'' \<or> length rest = 1 then None
        else let s' = tl rest in
          if hd s' = CHR '':'' then
            (if el \<noteq> None then None
             else if tl s' = [] then Some ([], bs', Some (i + 2))
             else v6Groups fuel (tl s') bs' (Some (i + 2)))
          else v6Groups fuel s' bs' el)"

definition parseIPv6 :: "string \<Rightarrow> ip option" where
  "parseIPv6 s =
     (let (s1, el) = (if length s \<ge> 2 \<and> s ! 0 = CHR '':'' \<and> s ! 1 = CHR '':'' then (drop 2 s, Some 0) else (s, None)) in
      if el \<noteq> None \<and> s1 = [] then Some (replicate 16 0)
      else case v6Groups 8 s1 [] el of None \<Rightarrow> None
        | Some (rest, bs, el') \<Rightarrow>
            if rest \<noteq> [] then None
            else if length bs < 16 then
              (case el' of None \<Rightarrow> None
               | Some e \<Rightarrow> Some (take e bs @ replicate (16 - length bs) 0 @ drop e bs))
            else if el' \<noteq> None then None else Some bs)"

text \<open>netip.ParseAddr for addresses without a zone: the first of the separators decides the syntax.\<close>

definition parseAddr :: "string \<Rightarrow> ip option" where
  "parseAddr s =
     (case filter (\<lambda>c. c = CHR ''.'' \<or> c = CHR '':'' \<or> c = CHR ''%'') s of [] \<Rightarrow> None
      | c # _ \<Rightarrow> if CHR ''%'' \<in> set s then None
                else if c = CHR ''.'' then parseIPv4Fields s else parseIPv6 s)"

definition ParseIP :: "string \<Rightarrow> ip option" where
  "ParseIP s = map_option (\<lambda>p. if length p = 4 then v4InV6Prefix @ p else p) (parseAddr s)"

definition ParseCIDR :: "string \<Rightarrow> ipNet option" where
  "ParseCIDR s =
     (case splitByte CHR ''/'' s of
        addr # ml # rs \<Rightarrow>
          if rs \<noteq> [] then None
          else (case (parseAddr addr, if ml \<noteq> [] \<and> list_all isDigit ml then atoiDigits 0 ml else None) of
                  (Some p, Some n) \<Rightarrow>
                    if n > 8 * int (length p) then None
                    else (let m = CIDRMask (nat n) (length p) in
                          Some \<lparr>net_IP = map2 (AND) p m, net_Mask = m\<rparr>)
                | _ \<Rightarrow> None)
      | _ \<Rightarrow> None)"

subsection \<open>Package ssrf\<close>

text \<open>A malformed range panics at start-up: no list of ranges at all.\<close>

definition mustParseCIDR :: "string \<Rightarrow> ipNet option" where
  "mustParseCIDR s = ParseCIDR s"

definition privateCIDRs :: "string list" where
  "privateCIDRs =
     [''0.0.0.0/8'', ''10.0.0.0/8'', ''100.64.0.0/10'', ''127.0.0.0/8'', ''169.254.0.0/16'', ''172.16.0.0/12'',
      ''192.168.0.0/16'', ''::1/128'', ''fc00::/7'', ''fe80::/10'']"

definition PrivateRanges :: "ipNet list" where
  "PrivateRanges = List.map_filter mustParseCIDR privateCIDRs"

definition IsPrivateIP :: "ip \<Rightarrow> bool" where
  "IsPrivateIP p =
     (let q = (case To4 p of Some p4 \<Rightarrow> p4 | None \<Rightarrow> p) in list_ex (\<lambda>r. net_Contains r q) PrivateRanges)"

datatype ssrfErr = DNSFailed string string | DNSEmpty string | PrivateHost string ip

text \<open>The answer of the resolver to one query: an error, or the addresses of the records.\<close>

type_synonym dnsAnswer = "string + ip list"

definition ResolveHost :: "(string \<Rightarrow> dnsAnswer) \<Rightarrow> string \<Rightarrow> ssrfErr + ip list" where
  "ResolveHost lookupIPAddr host =
     (case ParseIP host of Some p \<Rightarrow> Inr [p]
      | None \<Rightarrow>
          (case lookupIPAddr host of Inl e \<Rightarrow> Inl (DNSFailed host e)
           | Inr addrs \<Rightarrow> if addrs = [] then Inl (DNSEmpty host) else Inr addrs))"

fun rejectLoop :: "bool \<Rightarrow> string \<Rightarrow> ip list \<Rightarrow> ssrfErr option" where
  "rejectLoop allowLoopback host [] = None"
| "rejectLoop allowLoopback host (p # ps) =
     (if allowLoopback \<and> IsLoopback p then rejectLoop allowLoopback host ps
      else if IsPrivateIP p then Some (PrivateHost host p)
      else rejectLoop allowLoopback host ps)"

definition RejectPrivateIPs :: "(string \<Rightarrow> dnsAnswer) \<Rightarrow> string \<Rightarrow> bool \<Rightarrow> ssrfErr option" where
  "RejectPrivateIPs lookupIPAddr host allowLoopback =
     (case ResolveHost lookupIPAddr host of Inl e \<Rightarrow> Some e
      | Inr ps \<Rightarrow> rejectLoop allowLoopback host ps)"


subsection \<open>The private addresses as intervals\<close>

text \<open>The number of an address, most significant byte first.\<close>

definition ipNum :: "ip \<Rightarrow> nat" where
  "ipNum p = foldl (\<lambda>n b. n * 256 + unat b) 0 p"

definition privateV4 :: "nat \<Rightarrow> bool" where
  "privateV4 n \<longleftrightarrow>
     n < 2^24 \<or> (10 * 2^24 \<le> n \<and> n < 11 * 2^24) \<or> (100 * 2^24 + 64 * 2^16 \<le> n \<and> n < 100 * 2^24 + 128 * 2^16) \<or>
     (127 * 2^24 \<le> n \<and> n < 128 * 2^24) \<or> (169 * 2^24 + 254 * 2^16 \<le> n \<and> n < 169 * 2^24 + 255 * 2^16) \<or>
     (172 * 2^24 + 16 * 2^16 \<le> n \<and> n < 172 * 2^24 + 32 * 2^16) \<or>
     (192 * 2^24 + 168 * 2^16 \<le> n \<and> n < 192 * 2^24 + 169 * 2^16)"

definition privateV6 :: "nat \<Rightarrow> bool" where
  "privateV6 n \<longleftrightarrow>
     n = 1 \<or> (0xfc * 2^120 \<le> n \<and> n < 0xfe * 2^120) \<or> (0xfe80 * 2^112 \<le> n \<and> n < 0xfec0 * 2^112)"

lemma PrivateRanges_cidr [simp]:
  "mustParseCIDR ''0.0.0.0/8'' = Some \<lparr>net_IP = [0, 0, 0, 0], net_Mask = [255, 0, 0, 0]\<rparr>"
  "mustParseCIDR ''10.0.0.0/8'' = Some \<lparr>net_IP = [10, 0, 0, 0], net_Mask = [255, 0, 0, 0]\<rparr>"
  "mustParseCIDR ''100.64.0.0/10'' = Some \<lparr>net_IP = [100, 64, 0, 0], net_Mask = [255, 192, 0, 0]\<rparr>"
  "mustParseCIDR ''127.0.0.0/8'' = Some \<lparr>net_IP = [127, 0, 0, 0], net_Mask = [255, 0, 0, 0]\<rparr>"
  "mustParseCIDR ''169.254.0.0/16'' = Some \<lparr>net_IP = [169, 254, 0, 0], net_Mask = [255, 255, 0, 0]\<rparr>"
  "mustParseCIDR ''172.16.0.0/12'' = Some \<lparr>net_IP = [172, 16, 0, 0], net_Mask = [255, 240, 0, 0]\<rparr>"
  "mustParseCIDR ''192.168.0.0/16'' = Some \<lparr>net_IP = [192, 168, 0, 0], net_Mask = [255, 255, 0, 0]\<rparr>"
  "mustParseCIDR ''::1/128'' = Some \<lparr>net_IP = [0,0,0,0,0,0,0,0,0,0,0,0,0,0,0,1], net_Mask = replicate 16 255\<rparr>"
  "mustParseCIDR ''fc00::/7'' = Some \<lparr>net_IP = 252 # replicate 15 0, net_Mask = 254 # replicate 15 0\<rparr>"
  "mustParseCIDR ''fe80::/10'' = Some \<lparr>net_IP = 254 # 128 # replicate 14 0, net_Mask = 255 # 192 # replicate 14 0\<rparr>"
  by code_simp+

lemma byte_all:
  assumes "list_all (\<lambda>i. P (word_of_int i)) [0..255]"
  shows "P (b :: byte)"
proof -
  have "uint b \<in> set [0..255]" using unsigned_greater_eq[of b] unsigned_less[of b, where 'a = int] by simp
  with bspec[OF assms[unfolded list_all_iff] this] show ?thesis by simp
qed

lemma byte_mask_int:
  "(64 = b AND (192 :: byte)) = (64 \<le> uint b \<and> uint b < 128)"
  "(128 = b AND (192 :: byte)) = (128 \<le> uint b \<and> uint b < 192)"
  "(16 = b AND (240 :: byte)) = (16 \<le> uint b \<and> uint b < 32)"
  "(252 = b AND (254 :: byte)) = (252 \<le> uint b \<and> uint b < 254)"
  by ((rule byte_all[where P = "\<lambda>b. (64 = b AND 192) = (64 \<le> uint b \<and> uint b < 128)"]
     | rule byte_all[where P = "\<lambda>b. (128 = b AND 192) = (128 \<le> uint b \<and> uint b < 192)"]
     | rule byte_all[where P = "\<lambda>b. (16 = b AND 240) = (16 \<le> uint b \<and> uint b < 32)"]
     | rule byte_all[where P = "\<lambda>b. (252 = b AND 254) = (252 \<le> uint b \<and> uint b < 254)"]), code_simp)+

lemma byte_full [simp]: "b AND (255 :: byte) = b"
  by (rule byte_all[where P = "\<lambda>b. b AND 255 = b"]) code_simp

lemma byte_mask:
  "(64 = b AND (192 :: byte)) = (64 \<le> unat b \<and> unat b < 128)"
  "(128 = b AND (192 :: byte)) = (128 \<le> unat b \<and> unat b < 192)"
  "(16 = b AND (240 :: byte)) = (16 \<le> unat b \<and> unat b < 32)"
  "(252 = b AND (254 :: byte)) = (252 \<le> unat b \<and> unat b < 254)"
  unfolding byte_mask_int uint_nat by presburger+

lemma ipNum_snoc [simp]: "ipNum [] = 0" "ipNum (p @ [b]) = ipNum p * 256 + unat b"
  by (simp_all add: ipNum_def)

lemma ipNum_append: "ipNum (p @ q) = ipNum p * 256 ^ length q + ipNum q"
proof (induction q rule: rev_induct)
  case (snoc b q)
  have "ipNum (p @ q @ [b]) = ipNum (p @ q) * 256 + unat b" using ipNum_snoc(2)[of "p @ q" b] by simp
  with snoc.IH show ?case by (simp add: algebra_simps)
qed simp

lemma ipNum_bound: "ipNum p < 256 ^ length p"
proof (induction p rule: rev_induct)
  case (snoc b p)
  have "unat b < 256" using unsigned_less[of b] by simp
  with snoc show ?case by simp
qed simp

lemma ipNum_Cons: "ipNum (b # p) = unat b * 256 ^ length p + ipNum p"
  using ipNum_append[of "[b]" p] ipNum_snoc(2)[of "[]" b] by simp

lemma byte_eq_of_nat: "n < 256 \<Longrightarrow> (word_of_nat n = b) = (unat (b :: byte) = n)"
  by (auto simp: unat_of_nat)

lemmas byte_eq = byte_eq_of_nat[of 0, simplified] byte_eq_of_nat[of 1, simplified] byte_eq_of_nat[of 10, simplified]
  byte_eq_of_nat[of 100, simplified] byte_eq_of_nat[of 127, simplified] byte_eq_of_nat[of 169, simplified]
  byte_eq_of_nat[of 254, simplified] byte_eq_of_nat[of 172, simplified] byte_eq_of_nat[of 192, simplified]
  byte_eq_of_nat[of 168, simplified]

text \<open>Comparing at the resolution of a prefix: the bits below it do not matter.\<close>

lemma scaled_le:
  fixes r m :: nat
  assumes "r < m"
  shows "lo * m \<le> k * m + r \<longleftrightarrow> lo \<le> k" "k * m + r < hi * m \<longleftrightarrow> k < hi"
proof -
  have m: "m > 0" using assms by simp
  have "(k * m + r) div m = k" using assms by simp
  with less_eq_div_iff_mult_less_eq[OF m, of lo "k * m + r"] div_less_iff_less_mult[OF m, of "k * m + r" hi]
  show "lo * m \<le> k * m + r \<longleftrightarrow> lo \<le> k" "k * m + r < hi * m \<longleftrightarrow> k < hi" by simp_all
qed

lemma byte_pair:
  fixes a b :: nat
  assumes "b < 256" "lo < hi" "hi \<le> 256"
  shows "h * 256 + lo \<le> a * 256 + b \<and> a * 256 + b < h * 256 + hi \<longleftrightarrow> a = h \<and> lo \<le> b \<and> b < hi"
  using assms by (cases a h rule: linorder_cases) auto

lemma To4_length: "To4 p = Some q \<Longrightarrow> length q = 4"
  by (auto simp: To4_def split: if_splits)

lemma To4_4 [simp]: "length p = 4 \<Longrightarrow> To4 p = Some p"
  by (simp add: To4_def)

lemma To4_range [simp]:
  "To4 [0,0,0,0,0,0,0,0,0,0,0,0,0,0,0,1] = None" "To4 (252 # replicate 15 0) = None"
  "To4 (254 # 128 # replicate 14 0) = None"
  by code_simp+

text \<open>A range of the family of the address compares the masked bytes; a range of the other family contains nothing.\<close>

lemma net_Contains_v4:
  "length i = 4 \<Longrightarrow> length m = 4 \<Longrightarrow> length p = 4 \<Longrightarrow>
   net_Contains \<lparr>net_IP = i, net_Mask = m\<rparr> p = list_all maskedEq (zip i (zip m p))"
  "length i = 4 \<Longrightarrow> length m = 4 \<Longrightarrow> length p = 16 \<Longrightarrow> To4 p = None \<Longrightarrow>
   \<not> net_Contains \<lparr>net_IP = i, net_Mask = m\<rparr> p"
  by (simp_all add: net_Contains_def networkNumberAndMask_def)

lemma net_Contains_v6:
  "length i = 16 \<Longrightarrow> To4 i = None \<Longrightarrow> length m = 16 \<Longrightarrow> length p = 16 \<Longrightarrow> To4 p = None \<Longrightarrow>
   net_Contains \<lparr>net_IP = i, net_Mask = m\<rparr> p = list_all maskedEq (zip i (zip m p))"
  "length i = 16 \<Longrightarrow> To4 i = None \<Longrightarrow> length m = 16 \<Longrightarrow> length p = 4 \<Longrightarrow>
   \<not> net_Contains \<lparr>net_IP = i, net_Mask = m\<rparr> p"
  by (simp_all add: net_Contains_def networkNumberAndMask_def)

lemmas private_ip_defs = IsPrivateIP_def PrivateRanges_def privateCIDRs_def map_filter_simps
  net_Contains_v4 net_Contains_v6

lemma IsPrivateIP_To4: "To4 p = Some q \<Longrightarrow> IsPrivateIP p = IsPrivateIP q"
  using To4_length[of p q] by (simp add: IsPrivateIP_def)

lemma privateV4_bytes:
  assumes "b < 256" "r < 2^16"
  shows "privateV4 ((a * 256 + b) * 2^16 + r) \<longleftrightarrow>
      a = 0 \<or> a = 10 \<or> (a = 100 \<and> 64 \<le> b \<and> b < 128) \<or> a = 127 \<or>
      (a = 169 \<and> b = 254) \<or> (a = 172 \<and> 16 \<le> b \<and> b < 32) \<or> (a = 192 \<and> b = 168)"
proof -
  let ?n = "(a * 256 + b) * 2^16 + r"
  have sub: "h * 2^24 + lo * 2^16 \<le> ?n \<and> ?n < h * 2^24 + hi * 2^16 \<longleftrightarrow> a = h \<and> lo \<le> b \<and> b < hi"
    if "lo < hi" "hi \<le> 256" for h lo hi
  proof -
    have "h * 2^24 + lo * 2^16 = (h * 256 + lo) * 2^16" "h * 2^24 + hi * 2^16 = (h * 256 + hi) * 2^16" by simp_all
    then show ?thesis using scaled_le[OF assms(2)] byte_pair[OF assms(1) that, of h a] by metis
  qed
  have one: "h * 2^24 \<le> ?n \<and> ?n < (h + 1) * 2^24 \<longleftrightarrow> a = h" for h
    using sub[of 0 256 h] assms(1) by (simp add: algebra_simps)
  have eqb: "lo \<le> b \<and> b < lo + 1 \<longleftrightarrow> b = lo" for lo by auto
  show ?thesis unfolding privateV4_def
    using one[of 0] one[of 10] one[of 127] sub[of 64 128 100] sub[of 254 255 169] sub[of 16 32 172] sub[of 168 169 192]
      eqb[of 254] eqb[of 168] by (simp del: power_numeral_reduce)
qed

lemma IsPrivateIP_v4: "IsPrivateIP [a, b, c, d] = privateV4 (ipNum [a, b, c, d])"
proof -
  have b: "unat b < 256" and "unat c < 256" "unat d < 256"
    using unsigned_less[of b] unsigned_less[of c] unsigned_less[of d] by simp_all
  then have r: "unat c * 256 + unat d < 2^16" by simp
  have "ipNum [a, b, c, d] = (unat a * 256 + unat b) * 2^16 + (unat c * 256 + unat d)" by (simp add: ipNum_Cons)
  then show ?thesis
    by (simp only: privateV4_bytes[OF b r]) (simp add: private_ip_defs maskedEq_def byte_eq byte_mask)
qed

lemma ipNum_zero: "ipNum (replicate n 0) = 0"
  by (induction n) (simp_all add: ipNum_Cons)

lemma ipNum_inj: "length p = length q \<Longrightarrow> ipNum p = ipNum q \<Longrightarrow> p = q"
proof (induction p arbitrary: q rule: rev_induct)
  case (snoc b p)
  then obtain c q' where q: "q = q' @ [c]" by (metis length_0_conv rev_exhaust snoc_eq_iff_butlast)
  have lt: "unat b < 256" "unat c < 256" using unsigned_less[of b] unsigned_less[of c] by simp_all
  have eq: "ipNum p * 256 + unat b = ipNum q' * 256 + unat c" using snoc.prems q by simp
  from arg_cong[OF eq, of "\<lambda>n. n div 256"] arg_cong[OF eq, of "\<lambda>n. n mod 256"]
  have "ipNum p = ipNum q'" "unat b = unat c" using lt by simp_all
  with snoc q show ?case by (auto simp: word_unat_eq_iff)
qed simp

lemma maskedEq_full: "length i = n \<Longrightarrow> length p = n \<Longrightarrow> list_all maskedEq (zip i (zip (replicate n 255) p)) = (i = p)"
proof (induction n arbitrary: i p)
  case (Suc n)
  then show ?case by (cases i; cases p) (auto simp: maskedEq_def)
qed simp

lemma maskedEq_none: "list_all maskedEq (zip (replicate n 0) (zip (replicate n 0) p))"
proof (induction n arbitrary: p)
  case (Suc n)
  then show ?case by (cases p) (auto simp: maskedEq_def)
qed simp

lemma privateV6_bytes:
  assumes "b < 256" "r < 2^112" "a < 256"
  shows "privateV6 ((a * 256 + b) * 2^112 + r) \<longleftrightarrow>
      (a * 256 + b) * 2^112 + r = 1 \<or> (252 \<le> a \<and> a < 254) \<or> (a = 254 \<and> 128 \<le> b \<and> b < 192)"
proof -
  have "0xfc * 2^120 = (0xfc * 256) * (2::nat)^112" "0xfe * 2^120 = (0xfe * 256) * (2::nat)^112" by simp_all
  then have "privateV6 ((a * 256 + b) * 2^112 + r) \<longleftrightarrow> (a * 256 + b) * 2^112 + r = 1 \<or>
      (0xfc * 256 \<le> a * 256 + b \<and> a * 256 + b < 0xfe * 256) \<or> (0xfe80 \<le> a * 256 + b \<and> a * 256 + b < 0xfec0)"
    unfolding privateV6_def by (simp only: scaled_le[OF assms(2)])
  also have "(0xfc * 256 \<le> a * 256 + b \<and> a * 256 + b < 0xfe * 256) \<longleftrightarrow> 252 \<le> a \<and> a < 254"
    using scaled_le[OF assms(1)] by blast
  also have "(0xfe80 \<le> a * 256 + b \<and> a * 256 + b < 0xfec0) \<longleftrightarrow> a = 254 \<and> 128 \<le> b \<and> b < 192"
    using byte_pair[OF assms(1), of 128 192 254 a] by simp
  finally show ?thesis .
qed

lemma IsPrivateIP_v6:
  assumes "length p = 16" "To4 p = None"
  shows "IsPrivateIP p = privateV6 (ipNum p)"
proof -
  obtain a b q where p: "p = a # b # q" and q: "length q = 14" using assms(1)
    by (metis length_Suc_conv numeral_eq_Suc pred_numeral_simps(2,3) eval_nat_numeral(2,3) semiring_norm(26-28))
  have lt: "unat b < 256" "ipNum q < 2^112" "unat a < 256"
    using unsigned_less[of b] unsigned_less[of a] ipNum_bound[of q] by (simp_all add: q)
  have n: "ipNum p = (unat a * 256 + unat b) * 2^112 + ipNum q" by (simp add: p q ipNum_Cons)
  have one: "([0,0,0,0,0,0,0,0,0,0,0,0,0,0,0,1] = p) = (ipNum p = 1)"
    using ipNum_inj[of p "[0,0,0,0,0,0,0,0,0,0,0,0,0,0,0,1]"] assms(1) by (auto simp: ipNum_Cons)
  have "IsPrivateIP p \<longleftrightarrow> ipNum p = 1 \<or> (252 \<le> unat a \<and> unat a < 254) \<or> (unat a = 254 \<and> 128 \<le> unat b \<and> unat b < 192)"
    using assms one maskedEq_none[of 15 "b # q"] maskedEq_none[of 14 q]
      maskedEq_full[of "[0,0,0,0,0,0,0,0,0,0,0,0,0,0,0,1]" 16 p]
    by (simp add: private_ip_defs) (simp add: p maskedEq_def byte_mask byte_eq)
  then show ?thesis using privateV6_bytes[OF lt] n by simp
qed

text \<open>
  C1. IsPrivateIP, which loops over the parsed ranges comparing masked bytes, holds of exactly the addresses of ten numeric
  intervals: seven for an address that is IPv4 in either of its encodings, three for the other sixteen-byte addresses.
\<close>

theorem IsPrivateIP_intervals:
  assumes "length p = 4 \<or> length p = 16"
  shows "IsPrivateIP p = (case To4 p of Some q \<Rightarrow> privateV4 (ipNum q) | None \<Rightarrow> privateV6 (ipNum p))"
proof (cases "To4 p")
  case None
  then have "length p = 16" using assms by auto
  with None show ?thesis by (simp add: IsPrivateIP_v6)
next
  case (Some q)
  from To4_length[OF this] obtain a b c d where "q = [a, b, c, d]"
    by (auto simp: length_Suc_conv numeral_eq_Suc)
  then show ?thesis using IsPrivateIP_To4[OF Some] Some by (simp add: IsPrivateIP_v4)
qed

theorem IsPrivateIP_intervals_witness:
  "IsPrivateIP (v4InV6Prefix @ [100, 127, 255, 255]) \<and> \<not> IsPrivateIP (v4InV6Prefix @ [100, 128, 0, 0])"
proof -
  have "To4 (v4InV6Prefix @ [100, 127, 255, 255]) = Some [100, 127, 255, 255]"
    "To4 (v4InV6Prefix @ [100, 128, 0, 0]) = Some [100, 128, 0, 0]" by code_simp+
  then show ?thesis
    using IsPrivateIP_intervals[of "v4InV6Prefix @ [100, 127, 255, 255]"] IsPrivateIP_intervals[of "v4InV6Prefix @ [100, 128, 0, 0]"]
    by (simp add: v4InV6Prefix_def ipNum_Cons privateV4_def)
qed

subsection \<open>What an accepted host guarantees\<close>

lemma ResolveHost_nonempty: "ResolveHost lookup host = Inr ps \<Longrightarrow> ps \<noteq> []"
  by (auto simp: ResolveHost_def split: option.splits sum.splits if_splits)

lemma ResolveHost_literal: "ParseIP host = Some p \<Longrightarrow> ResolveHost lookup host = Inr [p]"
  by (simp add: ResolveHost_def)

lemma rejectLoop_None:
  "rejectLoop al host ps = None \<longleftrightarrow> (\<forall>p\<in>set ps. IsPrivateIP p \<longrightarrow> al \<and> IsLoopback p)"
  by (induction al host ps rule: rejectLoop.induct) auto

lemma rejectLoop_Some:
  "rejectLoop al host ps = Some e \<Longrightarrow> \<exists>p\<in>set ps. e = PrivateHost host p \<and> IsPrivateIP p \<and> \<not> (al \<and> IsLoopback p)"
  by (induction al host ps rule: rejectLoop.induct) (auto split: if_splits)

lemma RejectPrivateIPs_None:
  "RejectPrivateIPs lookup host al = None \<longleftrightarrow>
     (\<exists>ps. ResolveHost lookup host = Inr ps \<and> (\<forall>p\<in>set ps. IsPrivateIP p \<longrightarrow> al \<and> IsLoopback p))"
  by (auto simp: RejectPrivateIPs_def rejectLoop_None split: sum.split)

lemma IsLoopback_private: "length p = 4 \<or> length p = 16 \<Longrightarrow> IsLoopback p \<Longrightarrow> IsPrivateIP p"
proof (cases "To4 p")
  case None
  assume "IsLoopback p"
  with None have "p = [0,0,0,0,0,0,0,0,0,0,0,0,0,0,0,1]" by (simp add: IsLoopback_def numeral_eq_Suc)
  then show ?thesis by (simp add: IsPrivateIP_v6 privateV6_def ipNum_Cons)
next
  case (Some q)
  assume "IsLoopback p"
  from To4_length[OF Some] obtain a b c d where q: "q = [a, b, c, d]"
    by (auto simp: length_Suc_conv numeral_eq_Suc)
  with Some \<open>IsLoopback p\<close> have "a = 127" by (simp add: IsLoopback_def)
  moreover have "unat b < 256" "unat c < 256" "unat d < 256"
    using unsigned_less[of b] unsigned_less[of c] unsigned_less[of d] by simp_all
  ultimately show ?thesis using IsPrivateIP_To4[OF Some] q by (simp add: IsPrivateIP_v4 privateV4_def ipNum_Cons)
qed

text \<open>
  The unspecified address is not in the table. Dialling it connects to the local system (package net documents this for
  \<open>[::]\<close> as for 0.0.0.0), so the host \<open>::\<close> passes every check of the package.
\<close>

lemma unspecified_v6_accepted: "RejectPrivateIPs lookup ''::'' False = None"
proof -
  have "ParseIP ''::'' = Some (replicate 16 0)" by code_simp
  moreover have "To4 (replicate 16 0) = None" by code_simp
  ultimately show ?thesis
    by (simp add: RejectPrivateIPs_None ResolveHost_literal IsPrivateIP_v6 privateV6_def ipNum_zero)
qed

subsection \<open>Printing and reading dotted addresses\<close>

definition digitChar :: "int \<Rightarrow> char" where
  "digitChar n = char_of (n + 48)"

definition byteString :: "byte \<Rightarrow> string" where
  "byteString b =
     (let n = uint b in
      (if n \<ge> 100 then [digitChar (n div 100)] else []) @ (if n \<ge> 10 then [digitChar (n div 10 mod 10)] else []) @
      [digitChar (n mod 10)])"

text \<open>\<open>IP.String\<close> of an IPv4 address.\<close>

definition v4String :: "byte list \<Rightarrow> string" where
  "v4String p = joinByte CHR ''.'' (map byteString p)"

lemma digitChar_val:
  assumes "0 \<le> k" "k < 10"
  shows "of_char (digitChar k) = k + 48" "isDigit (digitChar k)" "digitChar k = CHR ''0'' \<longleftrightarrow> k = 0"
proof -
  have "list_all (\<lambda>k. of_char (digitChar k) = k + 48 \<and> isDigit (digitChar k) \<and> (digitChar k = CHR ''0'') = (k = 0)) [0..9]"
    by code_simp
  moreover have "k \<in> set [0..9]" using assms by simp
  ultimately show "of_char (digitChar k) = k + 48" "isDigit (digitChar k)" "digitChar k = CHR ''0'' \<longleftrightarrow> k = 0"
    unfolding list_all_iff by blast+
qed

lemma uint_div100: "0 \<le> uint (b :: byte) div 100" "uint (b :: byte) div 100 < 10"
proof -
  show "0 \<le> uint b div 100" by (rule pos_imp_zdiv_nonneg_iff[THEN iffD2]) simp_all
  have "uint b < 256" using unsigned_less[of b, where 'a = int] by simp
  then show "uint b div 100 < 10" by linarith
qed

lemma three_digits: "(n div 100 * 10 + n div 10 mod 10) * 10 + n mod 10 = (n :: int)"
proof -
  have "n div 100 = n div 10 div 10" using zdiv_zmult2_eq[of 10 n 10] by simp
  then show ?thesis by (simp only: div_mult_mod_eq)
qed

lemma byteString_digits: "list_all isDigit (byteString b)"
  by (auto simp: byteString_def Let_def digitChar_val(2) uint_div100)

lemma v4Field_digits:
  assumes h: "0 \<le> h" "h < 10" and t: "0 \<le> t" "t < 10" and u: "0 \<le> u" "u < 10"
    and n: "(h * 10 + t) * 10 + u = n" "n < 256"
  shows "v4Field ((if n \<ge> 100 then [digitChar h] else []) @ (if n \<ge> 10 then [digitChar t] else []) @ [digitChar u]) =
    Some (word_of_int n)"
proof -
  note d = digitChar_val[OF h] digitChar_val[OF t] digitChar_val[OF u]
  consider "n \<ge> 100" | "n < 100" "n \<ge> 10" | "n < 10" by linarith
  then show ?thesis
  proof cases
    case 1
    then have "h > 0" using h t u n(1) by auto
    with 1 show ?thesis using n by (simp add: v4Field_def d algebra_simps)
  next
    case 2
    then have "h = 0" using h t u n(1) by auto
    moreover from this have "t > 0" using 2 t u n(1) by auto
    ultimately show ?thesis using 2 n by (simp add: v4Field_def d algebra_simps)
  next
    case 3
    then have "h = 0" using h t u n(1) by auto
    moreover from this have "t = 0" using 3 t u n(1) by auto
    moreover from calculation have "u = n" using n(1) by simp
    ultimately show ?thesis using 3 d(7-9) by (simp add: v4Field_def)
  qed
qed

lemma v4Field_byteString: "v4Field (byteString b) = Some b"
proof -
  have "uint b < 256" using unsigned_less[of b, where 'a = int] by simp
  from v4Field_digits[OF uint_div100 _ _ _ _ three_digits this] show ?thesis
    by (simp add: byteString_def Let_def)
qed

lemma byteString_plain: "\<not> isDigit c \<Longrightarrow> c \<notin> set (byteString b)"
  using byteString_digits[of b] by (auto simp: list_all_iff)

lemma parseIPv4Fields_v4String:
  assumes "length p = 4"
  shows "parseIPv4Fields (v4String p) = Some p"
proof -
  have "splitByte CHR ''.'' (v4String p) = map byteString p"
    unfolding v4String_def using assms by (intro splitByte_joinByte) (auto simp: isDigit_def byteString_plain)
  then show ?thesis using assms by (simp add: parseIPv4Fields_def v4Field_byteString comp_def)
qed

text \<open>
  C2. Reading the printed form of an IPv4 address gives the address in its sixteen-byte encoding, so the address the
  dialer is handed as text is the one that was checked.
\<close>

theorem ParseIP_v4String:
  "length p = 4 \<Longrightarrow> ParseIP (v4String p) = Some (v4InV6Prefix @ p) \<and> To4 (v4InV6Prefix @ p) = Some p"
proof -
  assume len: "length p = 4"
  then obtain a b c d where p: "p = [a, b, c, d]" by (auto simp: length_Suc_conv numeral_eq_Suc)
  have nd: "\<not> isDigit CHR ''.''" "\<not> isDigit CHR '':''" "\<not> isDigit CHR ''%''" by code_simp+
  have str: "v4String p = byteString a @ CHR ''.'' # byteString b @ CHR ''.'' # byteString c @ CHR ''.'' # byteString d"
    by (simp add: p v4String_def)
  have none: "filter (\<lambda>c. c = CHR ''.'' \<or> c = CHR '':'' \<or> c = CHR ''%'') (byteString x) = []" for x
    using byteString_plain[OF nd(1)] byteString_plain[OF nd(2)] byteString_plain[OF nd(3)] by (auto simp: filter_empty_conv)
  have "CHR ''%'' \<notin> set (v4String p)" using byteString_plain[OF nd(3)] by (simp add: str)
  moreover have "filter (\<lambda>c. c = CHR ''.'' \<or> c = CHR '':'' \<or> c = CHR ''%'') (v4String p) = replicate 3 CHR ''.''"
    by (simp add: str none numeral_eq_Suc)
  ultimately have "parseAddr (v4String p) = Some p"
    using parseIPv4Fields_v4String[OF len] by (simp add: parseAddr_def numeral_eq_Suc)
  then show ?thesis using len by (simp add: ParseIP_def To4_def v4InV6Prefix_def)
qed

theorem ParseIP_v4String_witness: "ParseIP ''192.168.0.7'' = Some (v4InV6Prefix @ [192, 168, 0, 7])"
proof -
  have "v4String [192, 168, 0, 7] = ''192.168.0.7''" by code_simp
  with ParseIP_v4String[of "[192, 168, 0, 7]"] show ?thesis by simp
qed

end
