(* ===== verification/Http_Fetch.thy ===== *)
theory Http_Fetch
  imports Ssrf Run_Executor MCP_Server
begin

text \<open>
  Outgoing HTTP requests made for agents: the fetcher behind the MCP tools (internal/httpfetch/fetcher.go, mcp/tools/http.go),
  the http_fetch tool (internal/tools/http_fetch.go) and webhook tools (internal/tools/webhook_tool.go).

  \<^item> \<open>netEnv\<close> is the outside: the answer of every DNS query, the URL parser, the proxy configuration, the failures of
    connections, whether an idle connection is reused, and the answer of the remote side to every request. \<open>netWorld\<close> is
    what happened: the number of queries, the idle connections of the transport and the log of the requests sent, each
    with the address of the connection it was sent on.
  \<^item> \<open>clientDo\<close> is the loop of \<open>http.Client.Do\<close>: send, decide on a redirect, ask the policy, continue. It takes fuel;
    every policy of the program refuses after a fixed number of requests, so a small constant is enough
    (\<open>clientDo_returns\<close>).
  \<^item> Requests are represented by method, URL and body. Header fields are given to the first request only and reach
    the remote side through \<open>e_exchange\<close>; dialling the text of an address is dialling the address (see
    \<open>ParseIP_v4String\<close>).
  \<^item> The transport's own repetition of a request on a reused connection that turns out to be dead is not modelled: it would
    go through the same dialler again.
  \<^item> The regular expressions of the HTML conversion are sequences of atoms with Go's leftmost-first semantics. json.Indent
    and the JSON decoders are arguments.
\<close>

subsection \<open>URLs and network addresses\<close>

record url =
  u_Scheme :: string
  u_Hostname :: string
  u_Port :: string

definition JoinHostPort :: "string \<Rightarrow> string \<Rightarrow> string" where
  "JoinHostPort host port =
     (if CHR '':'' \<in> set host then CHR ''['' # host @ '']:'' @ port else host @ CHR '':'' # port)"

text \<open>The port starts after the last colon.\<close>

fun lastColon :: "string \<Rightarrow> (string \<times> string) option" where
  "lastColon [] = None"
| "lastColon (c # cs) =
     (case lastColon cs of Some (h, p) \<Rightarrow> Some (c # h, p)
      | None \<Rightarrow> if c = CHR '':'' then Some ([], cs) else None)"

datatype addrErr = MissingPort | TooManyColons | MissingBracket | UnexpectedBracket

definition SplitHostPort :: "string \<Rightarrow> addrErr + string \<times> string" where
  "SplitHostPort hostport =
     (case lastColon hostport of None \<Rightarrow> Inl MissingPort
      | Some (hpre, port) \<Rightarrow>
          if hostport \<noteq> [] \<and> hd hostport = CHR ''['' then
            (let inner = takeWhile (\<lambda>c. c \<noteq> CHR '']'') hostport; rest = drop (length inner) hostport in
             if rest = [] then Inl MissingBracket
             else if tl rest = [] then Inl MissingPort
             else if length inner + 1 = length hpre then
               (if CHR ''['' \<in> set (tl hostport) \<or> CHR '']'' \<in> set (tl rest) then Inl UnexpectedBracket
                else Inr (tl inner, port))
             else if hd (tl rest) = CHR '':'' then Inl TooManyColons
             else Inl MissingPort)
          else if CHR '':'' \<in> set hpre then Inl TooManyColons
          else if CHR ''['' \<in> set hostport \<or> CHR '']'' \<in> set hostport then Inl UnexpectedBracket
          else Inr (hpre, port))"

subsection \<open>The outside and what happened\<close>

text \<open>A connection: to an address chosen by the program, or to a host name left to the dialer.\<close>

datatype dialTarget = DialIP ip string | DialAddr string

record hop =
  hop_Method :: string
  hop_URL :: url
  hop_Body :: string

record response =
  rs_StatusCode :: int
  rs_Header :: "(string, string) gomap"
  rs_Body :: string
  rs_ReadErr :: "string option"

datatype fetchErr =
    InvalidURL string | NilURL | UnsupportedScheme string | NoHost | Ssrf ssrfErr | Blocklisted string | NotAllowlisted string
  | TooManyRedirects nat | InvalidDial addrErr | PrivateDial string ip | UnsupportedMethod string | BadRequest string
  | TransportErr string | ReadErr string | RequestFailed fetchErr | InvalidInput string | MissingParam string | EncodeErr string

type_synonym connKey = "url option \<times> string \<times> string"

record netWorld =
  w_queries :: nat
  w_idle :: "(connKey, dialTarget) gomap"
  w_sent :: "(dialTarget \<times> hop) list"

record netEnv =
  e_lookup :: "nat \<Rightarrow> string \<Rightarrow> dnsAnswer"
  e_parseURL :: "string \<Rightarrow> string + url"
  e_parseRef :: "url \<Rightarrow> string \<Rightarrow> string + url"
  e_toASCII :: "string \<Rightarrow> string"
  e_proxy :: "url \<Rightarrow> url option"
  e_reuse :: "nat \<Rightarrow> bool"
  e_connect :: "nat \<Rightarrow> dialTarget \<Rightarrow> string option"
  e_exchange :: "(dialTarget \<times> hop) list \<Rightarrow> (string, string) gomap \<Rightarrow> string + response"

definition portMap :: "string \<Rightarrow> string" where
  "portMap scheme = (if scheme = ''http'' then ''80'' else if scheme = ''https'' then ''443'' else [])"

definition canonicalAddr :: "netEnv \<Rightarrow> url \<Rightarrow> string" where
  "canonicalAddr env u =
     JoinHostPort (e_toASCII env (u_Hostname u)) (if u_Port u = [] then portMap (u_Scheme u) else u_Port u)"

text \<open>One resolution: a literal needs no query.\<close>

definition resolveStep :: "netEnv \<Rightarrow> string \<Rightarrow> netWorld \<Rightarrow> (ssrfErr + ip list) \<times> netWorld" where
  "resolveStep env host w =
     (ResolveHost (e_lookup env (w_queries w)) host,
      if ParseIP host = None then w\<lparr>w_queries := Suc (w_queries w)\<rparr> else w)"

definition rejectStep :: "netEnv \<Rightarrow> string \<Rightarrow> bool \<Rightarrow> netWorld \<Rightarrow> ssrfErr option \<times> netWorld" where
  "rejectStep env host al w =
     (RejectPrivateIPs (e_lookup env (w_queries w)) host al, snd (resolveStep env host w))"

subsection \<open>The client of net/http\<close>

type_synonym dialer = "string \<Rightarrow> netWorld \<Rightarrow> (fetchErr + dialTarget) \<times> netWorld"

definition connKeyOf :: "netEnv \<Rightarrow> (url \<Rightarrow> url option) \<Rightarrow> url \<Rightarrow> connKey" where
  "connKeyOf env proxy u =
     (proxy u, u_Scheme u, if proxy u \<noteq> None \<and> u_Scheme u = ''http'' then [] else canonicalAddr env u)"

text \<open>A connection for a request: an idle one with the same key, or a new one made by the dial function.\<close>

definition getConn :: "netEnv \<Rightarrow> (url \<Rightarrow> url option) \<Rightarrow> dialer \<Rightarrow> url \<Rightarrow> dialer" where
  "getConn env proxy dial u addr w =
     (let key = connKeyOf env proxy u in
      case (if e_reuse env (length (w_sent w)) then mget (w_idle w) key else None) of
        Some t \<Rightarrow> (Inr t, w)
      | None \<Rightarrow>
          (case dial addr w of (Inl e, w1) \<Rightarrow> (Inl e, w1)
           | (Inr t, w1) \<Rightarrow>
               (case e_connect env (length (w_sent w1)) t of Some e \<Rightarrow> (Inl (TransportErr e), w1)
                | None \<Rightarrow> (Inr t, w1\<lparr>w_idle := mput key t (w_idle w1)\<rparr>))))"

definition roundTrip ::
  "netEnv \<Rightarrow> (url \<Rightarrow> url option) \<Rightarrow> dialer \<Rightarrow> (string, string) gomap \<Rightarrow> hop \<Rightarrow> netWorld \<Rightarrow> (fetchErr + response) \<times> netWorld" where
  "roundTrip env proxy dial hdr h w =
     (let u = hop_URL h in
      if u_Scheme u \<noteq> ''http'' \<and> u_Scheme u \<noteq> ''https'' then (Inl (TransportErr ''unsupported protocol scheme''), w)
      else if u_Hostname u = [] \<and> u_Port u = [] then (Inl (TransportErr ''no Host in request URL''), w)
      else
        case getConn env proxy dial u (canonicalAddr env (case proxy u of Some p \<Rightarrow> p | None \<Rightarrow> u)) w of
          (Inl e, w1) \<Rightarrow> (Inl e, w1)
        | (Inr t, w1) \<Rightarrow>
            (let w2 = w1\<lparr>w_sent := w_sent w1 @ [(t, h)]\<rparr> in
             case e_exchange env (w_sent w2) hdr of Inl e \<Rightarrow> (Inl (TransportErr e), w2) | Inr r \<Rightarrow> (Inr r, w2)))"

text \<open>Whether a response asks for another request: its method, and whether the body is sent again.\<close>

definition redirectBehavior :: "string \<Rightarrow> response \<Rightarrow> (string \<times> bool) option" where
  "redirectBehavior m r =
     (if rs_StatusCode r \<in> {301, 302, 303} then
        Some (if m \<noteq> ''GET'' \<and> m \<noteq> ''HEAD'' then ''GET'' else m, False)
      else if rs_StatusCode r \<in> {307, 308} then Some (m, True)
      else None)"

type_synonym redirectPolicy = "hop \<Rightarrow> hop list \<Rightarrow> netWorld \<Rightarrow> fetchErr option \<times> netWorld"
type_synonym sender = "hop \<Rightarrow> netWorld \<Rightarrow> (fetchErr + response) \<times> netWorld"

fun clientDo :: "netEnv \<Rightarrow> sender \<Rightarrow> redirectPolicy \<Rightarrow> nat \<Rightarrow> hop list \<Rightarrow> hop \<Rightarrow> netWorld \<Rightarrow> ((fetchErr + response) \<times> netWorld) option" where
  "clientDo env send policy 0 via h w = None"
| "clientDo env send policy (Suc fuel) via h w =
     (case send h w of (Inl e, w1) \<Rightarrow> Some (Inl e, w1)
      | (Inr r, w1) \<Rightarrow>
          (case redirectBehavior (hop_Method h) r of None \<Rightarrow> Some (Inr r, w1)
           | Some (m, keepBody) \<Rightarrow>
               (let loc = zget [] (rs_Header r) ''Location'' in
                if loc = [] then Some (Inr r, w1)
                else case e_parseRef env (hop_URL h) loc of Inl e \<Rightarrow> Some (Inl (TransportErr e), w1)
                  | Inr u \<Rightarrow>
                      (let h' = \<lparr>hop_Method = m, hop_URL = u, hop_Body = if keepBody then hop_Body h else []\<rparr> in
                       case policy h' (via @ [h]) w1 of
                         (Some e, w2) \<Rightarrow> Some (Inl e, w2)
                       | (None, w2) \<Rightarrow> clientDo env send policy fuel (via @ [h]) h' w2))))"

text \<open>\<open>io.ReadAll\<close> of a reader limited to n bytes, over the bytes of a body and the error that ends it.\<close>

definition readLimited :: "int \<Rightarrow> response \<Rightarrow> string + string" where
  "readLimited n r =
     (if int (length (rs_Body r)) \<ge> n then Inr (take (nat n) (rs_Body r))
      else case rs_ReadErr r of Some e \<Rightarrow> Inl e | None \<Rightarrow> Inr (rs_Body r))"

text \<open>Addition of 64-bit signed integers.\<close>

definition add64 :: "int \<Rightarrow> int \<Rightarrow> int" where
  "add64 a b = sint (word_of_int a + word_of_int b :: 64 word)"

subsection \<open>HTML to markdown\<close>

text \<open>
  The expressions of the conversion are sequences of atoms: one of some literal strings, a repetition of a character class
  (greedy or lazy, with a lower and an optional upper bound), and the two ends of a group.
\<close>

datatype atom = ALit "string list" | ARep bool nat "nat option" "char \<Rightarrow> bool" | AOpen nat | AClose nat

type_synonym captures = "(nat, nat) gomap \<times> (nat, string) gomap"

text \<open>How many characters a repetition may take, in the order the matcher tries.\<close>

definition repCounts :: "bool \<Rightarrow> nat \<Rightarrow> nat option \<Rightarrow> (char \<Rightarrow> bool) \<Rightarrow> string \<Rightarrow> nat list" where
  "repCounts greedy lo hi p s =
     (let n = length (takeWhile p s); m = (case hi of None \<Rightarrow> n | Some h \<Rightarrow> min h n); ks = [lo..<Suc m] in
      if greedy then rev ks else ks)"

text \<open>
  The first match in the order of preference, as a pair of the length matched and the groups. \<open>pre\<close> is what was matched so
  far, in reverse.
\<close>

fun firstSome :: "('a \<Rightarrow> 'b option) \<Rightarrow> 'a list \<Rightarrow> 'b option" where
  "firstSome f [] = None"
| "firstSome f (x # xs) = (case f x of Some y \<Rightarrow> Some y | None \<Rightarrow> firstSome f xs)"

lemma firstSome_cong [fundef_cong]: "xs = ys \<Longrightarrow> (\<And>x. x \<in> set ys \<Longrightarrow> f x = g x) \<Longrightarrow> firstSome f xs = firstSome g ys"
proof (induction xs arbitrary: ys)
  case (Cons x xs)
  then show ?case by (auto split: option.split)
qed simp

fun matchAtoms :: "atom list \<Rightarrow> string \<Rightarrow> string \<Rightarrow> captures \<Rightarrow> (nat \<times> (nat, string) gomap) option" where
  "matchAtoms [] pre s caps = Some (length pre, snd caps)"
| "matchAtoms (ALit ws # as) pre s caps =
     firstSome (\<lambda>w. if HasPrefix s w then matchAtoms as (rev w @ pre) (drop (length w) s) caps else None) ws"
| "matchAtoms (ARep g lo hi p # as) pre s caps =
     firstSome (\<lambda>k. matchAtoms as (rev (take k s) @ pre) (drop k s) caps) (repCounts g lo hi p s)"
| "matchAtoms (AOpen n # as) pre s caps = matchAtoms as pre s (mput n (length pre) (fst caps), snd caps)"
| "matchAtoms (AClose n # as) pre s caps =
     matchAtoms as pre s (fst caps, mput n (drop (zget 0 (fst caps) n) (rev pre)) (snd caps))"

definition matchAt :: "atom list \<Rightarrow> string \<Rightarrow> (nat \<times> (nat, string) gomap) option" where
  "matchAt r s = matchAtoms r [] s ([], [])"

text \<open>
  \<open>ReplaceAllStringFunc\<close> and \<open>ReplaceAllString\<close> for an expression that matches no empty string: left to right, each
  match replaced by what the template makes of its text and groups.
\<close>

function replaceAllFunc :: "atom list \<Rightarrow> (string \<Rightarrow> (nat, string) gomap \<Rightarrow> string) \<Rightarrow> string \<Rightarrow> string" where
  "replaceAllFunc r f s =
     (case s of [] \<Rightarrow> []
      | c # cs \<Rightarrow>
          (case matchAt r s of
             None \<Rightarrow> c # replaceAllFunc r f cs
           | Some (n, g) \<Rightarrow> f (take (max 1 n) s) g @ replaceAllFunc r f (drop (max 1 n) s)))"
  by pat_completeness auto
termination by (relation "measure (\<lambda>(r, f, s). length s)") (auto simp: max_def)

definition anyNoNL :: "char \<Rightarrow> bool" where "anyNoNL c \<longleftrightarrow> c \<noteq> CHR 0x0A"
definition anyChar :: "char \<Rightarrow> bool" where "anyChar c \<longleftrightarrow> True"
definition notGT :: "char \<Rightarrow> bool" where "notGT c \<longleftrightarrow> c \<noteq> CHR ''>''"
definition notQuote :: "char \<Rightarrow> bool" where "notQuote c \<longleftrightarrow> c \<noteq> CHR 0x22"
definition regexSpace :: "char \<Rightarrow> bool" where
  "regexSpace c \<longleftrightarrow> c \<in> set [CHR '' '', CHR 0x09, CHR 0x0A, CHR 0x0C, CHR 0x0D]"

text \<open>
  A literal letter under the flag i: the letter, its capital, and for s the long s (U+017F, here its two bytes), which Go
  folds to it.
\<close>

definition foldLit :: "char \<Rightarrow> atom" where
  "foldLit c =
     (let n = of_char c :: nat in
      ALit ([c] # (if 97 \<le> n \<and> n \<le> 122 then [[char_of (n - 32)]] else []) @ (if c = CHR ''s'' then [[CHR 0xC5, CHR 0xBF]] else [])))"

definition foldWord :: "string \<Rightarrow> atom list" where "foldWord w = map foldLit w"
definition word1 :: "string \<Rightarrow> atom list" where "word1 w = [ALit [w]]"
definition group1 :: "nat \<Rightarrow> atom list \<Rightarrow> atom list" where "group1 n as = AOpen n # as @ [AClose n]"

definition reScript :: "atom list" where
  "reScript = word1 ''<'' @ foldWord ''script'' @ [ARep True 0 None notGT] @ word1 ''>'' @ [ARep False 0 None anyChar] @
     word1 ''</'' @ foldWord ''script'' @ word1 ''>''"
definition reStyle :: "atom list" where
  "reStyle = word1 ''<'' @ foldWord ''style'' @ [ARep True 0 None notGT] @ word1 ''>'' @ [ARep False 0 None anyChar] @
     word1 ''</'' @ foldWord ''style'' @ word1 ''>''"
definition reComment :: "atom list" where
  "reComment = word1 ''<!--'' @ [ARep False 0 None anyChar] @ word1 ''-->''"

definition reHeading :: "char \<Rightarrow> atom list" where
  "reHeading d = word1 ''<'' @ foldWord ''h'' @ word1 [d] @ [ARep True 0 None notGT] @ word1 ''>'' @
     group1 1 [ARep False 0 None anyNoNL] @ word1 ''</'' @ foldWord ''h'' @ word1 [d] @ word1 ''>''"

definition reLink :: "atom list" where
  "reLink = word1 ''<'' @ foldWord ''a'' @ [ARep True 1 None notGT] @ foldWord ''href'' @ word1 [CHR ''='', CHR 0x22] @
     group1 1 [ARep True 0 None notQuote] @ word1 [CHR 0x22] @ [ARep True 0 None notGT] @ word1 ''>'' @
     group1 2 [ARep False 0 None anyNoNL] @ word1 ''</'' @ foldWord ''a'' @ word1 ''>''"
definition reLi :: "atom list" where
  "reLi = word1 ''<'' @ foldWord ''li'' @ [ARep True 0 None notGT] @ word1 ''>'' @ group1 1 [ARep False 0 None anyNoNL] @
     word1 ''</'' @ foldWord ''li'' @ word1 ''>''"
definition reParagraph :: "atom list" where
  "reParagraph = word1 ''<'' @ [ARep True 0 (Some 1) (\<lambda>c. c = CHR ''/'')] @ foldWord ''p'' @ [ARep True 0 None notGT] @ word1 ''>''"
definition reBr :: "atom list" where
  "reBr = word1 ''<'' @ foldWord ''br'' @ [ARep True 0 None regexSpace, ARep True 0 (Some 1) (\<lambda>c. c = CHR ''/'')] @ word1 ''>''"
definition reTag :: "atom list" where
  "reTag = word1 ''<'' @ [ARep True 1 None notGT] @ word1 ''>''"
definition reMultiNL :: "atom list" where
  "reMultiNL = [ARep True 3 None (\<lambda>c. c = CHR 0x0A)]"
definition reEntity :: "atom list" where
  "reEntity = word1 ''&'' @ [ALit [''amp'', ''lt'', ''gt'', ''quot'', ''apos'', ''nbsp'']] @ word1 '';''"

definition decodeEntity :: "string \<Rightarrow> string" where
  "decodeEntity e =
     (if e = ''&amp;'' then ''&'' else if e = ''&lt;'' then ''<'' else if e = ''&gt;'' then ''>''
      else if e = ''&quot;'' then [CHR 0x22] else if e = ''&apos;'' then [CHR 0x27]
      else if e = ''&nbsp;'' then '' '' else e)"

definition heading :: "char \<Rightarrow> string \<Rightarrow> string \<Rightarrow> string" where
  "heading d hashes = replaceAllFunc (reHeading d) (\<lambda>t g. [CHR 0x0A] @ hashes @ '' '' @ zget [] g 1 @ [CHR 0x0A])"

definition dropAll :: "atom list \<Rightarrow> string \<Rightarrow> string" where
  "dropAll r = replaceAllFunc r (\<lambda>t g. [])"

definition convertMarkup :: "string \<Rightarrow> string" where
  "convertMarkup html =
     (let s = dropAll reComment (dropAll reStyle (dropAll reScript html));
          s = heading CHR ''1'' ''#'' s; s = heading CHR ''2'' ''##'' s; s = heading CHR ''3'' ''###'' s;
          s = heading CHR ''4'' ''####'' s; s = heading CHR ''5'' ''#####'' s; s = heading CHR ''6'' ''######'' s;
          s = replaceAllFunc reLink (\<lambda>t g. ''['' @ zget [] g 2 @ ''](''  @ zget [] g 1 @ '')'') s;
          s = replaceAllFunc reLi (\<lambda>t g. [CHR 0x0A] @ ''- '' @ zget [] g 1) s;
          s = replaceAllFunc reParagraph (\<lambda>t g. [CHR 0x0A]) s;
          s = replaceAllFunc reBr (\<lambda>t g. [CHR 0x0A]) s in
      dropAll reTag s)"

definition htmlToMarkdown :: "string \<Rightarrow> string" where
  "htmlToMarkdown html =
     (let s = replaceAllFunc reEntity (\<lambda>t g. decodeEntity t) (convertMarkup html);
          s = replaceAllFunc reMultiNL (\<lambda>t g. [CHR 0x0A, CHR 0x0A]) s in
      TrimSpace s)"

subsection \<open>The fetcher (httpfetch)\<close>

record httpFetcher =
  hf_allowlist :: "string list"
  hf_blocklist :: "string list"
  hf_maxSize :: int
  hf_timeout :: duration
  hf_skipSSRF :: bool
  hf_skipTLSVerify :: bool

datatype fetchOption =
    WithAllowlist "string list" | WithBlocklist "string list" | WithMaxSize int | WithTimeout duration
  | WithSkipSSRF | WithSkipTLSVerify

definition DefaultMaxSize :: int where "DefaultMaxSize = 10 * 1024 * 1024"
definition DefaultTimeout :: duration where "DefaultTimeout = 30 * 1000000000"
definition maxRedirects :: nat where "maxRedirects = 5"

fun applyFetchOption :: "fetchOption \<Rightarrow> httpFetcher \<Rightarrow> httpFetcher" where
  "applyFetchOption (WithAllowlist ds) f = f\<lparr>hf_allowlist := ds\<rparr>"
| "applyFetchOption (WithBlocklist ds) f = f\<lparr>hf_blocklist := ds\<rparr>"
| "applyFetchOption (WithMaxSize n) f = f\<lparr>hf_maxSize := n\<rparr>"
| "applyFetchOption (WithTimeout d) f = f\<lparr>hf_timeout := d\<rparr>"
| "applyFetchOption WithSkipSSRF f = f\<lparr>hf_skipSSRF := True\<rparr>"
| "applyFetchOption WithSkipTLSVerify f = f\<lparr>hf_skipTLSVerify := True\<rparr>"

definition NewHTTPFetcher :: "fetchOption list \<Rightarrow> httpFetcher" where
  "NewHTTPFetcher opts =
     fold applyFetchOption opts
       \<lparr>hf_allowlist = [], hf_blocklist = [], hf_maxSize = DefaultMaxSize, hf_timeout = DefaultTimeout,
        hf_skipSSRF = False, hf_skipTLSVerify = False\<rparr>"

text \<open>The first private address of a resolution, if any.\<close>

fun firstPrivate :: "bool \<Rightarrow> ip list \<Rightarrow> ip option" where
  "firstPrivate al [] = None"
| "firstPrivate al (p # ps) =
     (if al \<and> IsLoopback p then firstPrivate al ps else if IsPrivateIP p then Some p else firstPrivate al ps)"

definition fetcher_safeDialContext :: "httpFetcher \<Rightarrow> netEnv \<Rightarrow> dialer" where
  "fetcher_safeDialContext f env addr w =
     (case SplitHostPort addr of Inl e \<Rightarrow> (Inl (InvalidDial e), w)
      | Inr (host, port) \<Rightarrow>
          if hf_skipSSRF f then (Inr (DialAddr addr), w)
          else
            (case resolveStep env host w of (Inl e, w1) \<Rightarrow> (Inl (Ssrf e), w1)
             | (Inr ips, w1) \<Rightarrow>
                 (case firstPrivate False ips of Some p \<Rightarrow> (Inl (PrivateDial host p), w1)
                  | None \<Rightarrow> (Inr (DialIP (hd ips) port), w1))))"

definition checkDomainFilters :: "httpFetcher \<Rightarrow> string \<Rightarrow> fetchErr option" where
  "checkDomainFilters f host0 =
     (let host = ToLower host0 in
      if list_ex (\<lambda>b. ToLower b = host) (hf_blocklist f) then Some (Blocklisted host)
      else if length (hf_allowlist f) > 0 then
        (if list_ex (\<lambda>a. ToLower a = host) (hf_allowlist f) then None else Some (NotAllowlisted host))
      else None)"

definition rejectPrivateIP :: "netEnv \<Rightarrow> string \<Rightarrow> netWorld \<Rightarrow> ssrfErr option \<times> netWorld" where
  "rejectPrivateIP env host = rejectStep env host False"

definition validateURL :: "httpFetcher \<Rightarrow> netEnv \<Rightarrow> url option \<Rightarrow> netWorld \<Rightarrow> fetchErr option \<times> netWorld" where
  "validateURL f env parsed w =
     (case parsed of None \<Rightarrow> (Some NilURL, w)
      | Some u \<Rightarrow>
          if u_Scheme u \<noteq> ''http'' \<and> u_Scheme u \<noteq> ''https'' then (Some (UnsupportedScheme (u_Scheme u)), w)
          else if u_Hostname u = [] then (Some NoHost, w)
          else if \<not> hf_skipSSRF f then
            (case rejectPrivateIP env (u_Hostname u) w of (Some e, w1) \<Rightarrow> (Some (Ssrf e), w1)
             | (None, w1) \<Rightarrow> (checkDomainFilters f (u_Hostname u), w1))
          else (checkDomainFilters f (u_Hostname u), w))"

definition fetcher_checkRedirect :: "httpFetcher \<Rightarrow> netEnv \<Rightarrow> redirectPolicy" where
  "fetcher_checkRedirect f env h via w =
     (if length via \<ge> maxRedirects then (Some (TooManyRedirects maxRedirects), w)
      else validateURL f env (Some (hop_URL h)) w)"

text \<open>\<open>f.client.Do\<close>: the cloned default transport takes its proxy from the environment.\<close>

definition fetcher_Do :: "httpFetcher \<Rightarrow> netEnv \<Rightarrow> (string, string) gomap \<Rightarrow> hop \<Rightarrow> netWorld \<Rightarrow> ((fetchErr + response) \<times> netWorld) option" where
  "fetcher_Do f env hdr h w =
     clientDo env (roundTrip env (e_proxy env) (fetcher_safeDialContext f env) hdr) (fetcher_checkRedirect f env)
       (Suc maxRedirects) [] h w"

record fetchResult =
  fr_URL :: string
  fr_StatusCode :: int
  fr_ContentType :: string
  fr_Body :: string
  fr_BytesFetched :: int

record pingResult =
  pr_URL :: string
  pr_StatusCode :: int
  pr_LatencyMs :: int

definition prettyPrintJSON :: "(string \<Rightarrow> string option) \<Rightarrow> string \<Rightarrow> string" where
  "prettyPrintJSON indent s = (case indent s of None \<Rightarrow> s | Some t \<Rightarrow> t)"

text \<open>The slice \<open>body[:maxSize]\<close> panics on a negative bound: None.\<close>

definition truncateBody :: "int \<Rightarrow> string \<Rightarrow> (string \<times> bool) option" where
  "truncateBody maxSize body =
     (if int (length body) > maxSize then
        (if maxSize < 0 then None else Some (take (nat maxSize) body, True))
      else Some (body, False))"

definition convertBody :: "(string \<Rightarrow> string option) \<Rightarrow> string \<Rightarrow> string \<Rightarrow> string" where
  "convertBody indent contentType body =
     (if Contains contentType ''text/html'' then htmlToMarkdown body
      else if Contains contentType ''application/json'' then prettyPrintJSON indent body
      else body)"

definition readResult :: "httpFetcher \<Rightarrow> (string \<Rightarrow> string option) \<Rightarrow> string \<Rightarrow> response \<Rightarrow> (fetchErr + fetchResult) option" where
  "readResult f indent rawURL r =
     (let contentType = zget [] (rs_Header r) ''Content-Type'' in
      case readLimited (add64 (hf_maxSize f) 1) r of Inl e \<Rightarrow> Some (Inl (ReadErr e))
      | Inr raw \<Rightarrow>
          (case truncateBody (hf_maxSize f) raw of None \<Rightarrow> None
           | Some (body, truncated) \<Rightarrow>
               let bodyStr = convertBody indent contentType body in
               Some (Inr \<lparr>fr_URL = rawURL, fr_StatusCode = rs_StatusCode r, fr_ContentType = contentType,
                 fr_Body = (if truncated then bodyStr @ CHR 0x0A # ''[truncated]'' else bodyStr),
                 fr_BytesFetched = int (length body)\<rparr>)))"

definition Fetch :: "httpFetcher \<Rightarrow> netEnv \<Rightarrow> (string \<Rightarrow> string option) \<Rightarrow> string \<Rightarrow> netWorld \<Rightarrow> ((fetchErr + fetchResult) \<times> netWorld) option" where
  "Fetch f env indent rawURL w =
     (case e_parseURL env rawURL of Inl e \<Rightarrow> Some (Inl (InvalidURL e), w)
      | Inr u \<Rightarrow>
          (case validateURL f env (Some u) w of (Some e, w1) \<Rightarrow> Some (Inl e, w1)
           | (None, w1) \<Rightarrow>
               (case fetcher_Do f env [(''User-Agent'', ''AgentOS-FetchURL/1.0'')]
                       \<lparr>hop_Method = ''GET'', hop_URL = u, hop_Body = []\<rparr> w1 of
                  None \<Rightarrow> None
                | Some (Inl e, w2) \<Rightarrow> Some (Inl (RequestFailed e), w2)
                | Some (Inr r, w2) \<Rightarrow> map_option (\<lambda>x. (x, w2)) (readResult f indent rawURL r))))"

definition upperChar :: "char \<Rightarrow> char" where
  "upperChar c = (let n = of_char c :: nat in if 97 \<le> n \<and> n \<le> 122 then char_of (n - 32) else c)"

definition ToUpper :: "string \<Rightarrow> string" where "ToUpper s = map upperChar s"

definition allowedMethods :: "string list" where
  "allowedMethods = [''GET'', ''POST'', ''PUT'', ''DELETE'', ''PATCH'', ''HEAD'', ''OPTIONS'']"

definition methodAllowsBody :: "string \<Rightarrow> bool" where
  "methodAllowsBody m \<longleftrightarrow> m \<in> set [''POST'', ''PUT'', ''PATCH'']"

text \<open>\<open>Header.Set\<close> stores under the canonical name; a name that is no token is kept as it is.\<close>

definition tokenChar :: "char \<Rightarrow> bool" where
  "tokenChar c \<longleftrightarrow>
     (let n = of_char c :: nat in
      48 \<le> n \<and> n \<le> 57 \<or> 65 \<le> n \<and> n \<le> 90 \<or> 97 \<le> n \<and> n \<le> 122 \<or> c \<in> set ''!#$%&*+-.^_|~'' \<or> n = 39 \<or> n = 96)"

fun canonBytes :: "bool \<Rightarrow> string \<Rightarrow> string" where
  "canonBytes upper [] = []"
| "canonBytes upper (c # cs) = (if upper then upperChar c else lowerChar c) # canonBytes (c = CHR ''-'') cs"

definition canonicalHeaderKey :: "string \<Rightarrow> string" where
  "canonicalHeaderKey k = (if list_all tokenChar k then canonBytes True k else k)"

definition setHeaders :: "(string, string) gomap \<Rightarrow> (string, string) gomap \<Rightarrow> (string, string) gomap" where
  "setHeaders headers h0 = fold (\<lambda>(k, v) h. mput (canonicalHeaderKey k) v h) headers h0"

definition Request ::
  "httpFetcher \<Rightarrow> netEnv \<Rightarrow> (string \<Rightarrow> string option) \<Rightarrow> string \<Rightarrow> string \<Rightarrow> (string, string) gomap \<Rightarrow> string \<Rightarrow> netWorld \<Rightarrow>
   ((fetchErr + fetchResult) \<times> netWorld) option" where
  "Request f env indent method0 rawURL headers body w =
     (let method = ToUpper method0 in
      if method \<notin> set allowedMethods then Some (Inl (UnsupportedMethod method), w)
      else case e_parseURL env rawURL of Inl e \<Rightarrow> Some (Inl (InvalidURL e), w)
      | Inr u \<Rightarrow>
          (case validateURL f env (Some u) w of (Some e, w1) \<Rightarrow> Some (Inl e, w1)
           | (None, w1) \<Rightarrow>
               (case fetcher_Do f env (setHeaders headers [(''User-Agent'', ''AgentOS-HTTPRequest/1.0'')])
                       \<lparr>hop_Method = method, hop_URL = u,
                        hop_Body = if methodAllowsBody method \<and> body \<noteq> [] then body else []\<rparr> w1 of
                  None \<Rightarrow> None
                | Some (Inl e, w2) \<Rightarrow> Some (Inl (RequestFailed e), w2)
                | Some (Inr r, w2) \<Rightarrow> map_option (\<lambda>x. (x, w2)) (readResult f indent rawURL r))))"

definition Ping :: "httpFetcher \<Rightarrow> netEnv \<Rightarrow> time \<Rightarrow> time \<Rightarrow> string \<Rightarrow> netWorld \<Rightarrow> ((fetchErr + pingResult) \<times> netWorld) option" where
  "Ping f env start stop rawURL w =
     (case e_parseURL env rawURL of Inl e \<Rightarrow> Some (Inl (InvalidURL e), w)
      | Inr u \<Rightarrow>
          (case validateURL f env (Some u) w of (Some e, w1) \<Rightarrow> Some (Inl e, w1)
           | (None, w1) \<Rightarrow>
               (case fetcher_Do f env [(''User-Agent'', ''AgentOS-Ping/1.0'')]
                       \<lparr>hop_Method = ''HEAD'', hop_URL = u, hop_Body = []\<rparr> w1 of
                  None \<Rightarrow> None
                | Some (Inl e, w2) \<Rightarrow> Some (Inl (RequestFailed e), w2)
                | Some (Inr r, w2) \<Rightarrow>
                    Some (Inr \<lparr>pr_URL = rawURL, pr_StatusCode = rs_StatusCode r, pr_LatencyMs = (stop - start) div 1000000\<rparr>, w2))))"

subsection \<open>The http_fetch tool\<close>

definition maxBodyBytes :: int where "maxBodyBytes = 32 * 1024"
definition httpFetchMaxRedirect :: nat where "httpFetchMaxRedirect = 5"

definition validateFetchTarget :: "netEnv \<Rightarrow> url option \<Rightarrow> bool \<Rightarrow> netWorld \<Rightarrow> fetchErr option \<times> netWorld" where
  "validateFetchTarget env parsed allowLoopback w =
     (case parsed of None \<Rightarrow> (Some NilURL, w)
      | Some u \<Rightarrow>
          if u_Scheme u \<noteq> ''http'' \<and> u_Scheme u \<noteq> ''https'' then (Some (UnsupportedScheme (u_Scheme u)), w)
          else if u_Hostname u = [] then (Some NoHost, w)
          else (case rejectStep env (u_Hostname u) allowLoopback w of (e, w1) \<Rightarrow> (map_option Ssrf e, w1)))"

definition tools_safeDialContext :: "bool \<Rightarrow> netEnv \<Rightarrow> dialer" where
  "tools_safeDialContext allowLoopback env addr w =
     (case SplitHostPort addr of Inl e \<Rightarrow> (Inl (InvalidDial e), w)
      | Inr (host, port) \<Rightarrow>
          (case resolveStep env host w of (Inl e, w1) \<Rightarrow> (Inl (Ssrf e), w1)
           | (Inr ips, w1) \<Rightarrow>
               (case firstPrivate allowLoopback ips of Some p \<Rightarrow> (Inl (PrivateDial host p), w1)
                | None \<Rightarrow> (Inr (DialIP (hd ips) port), w1))))"

definition httpFetchCheckRedirect :: "bool \<Rightarrow> netEnv \<Rightarrow> redirectPolicy" where
  "httpFetchCheckRedirect allowLoopback env h via w =
     (if length via \<ge> httpFetchMaxRedirect then (Some (TooManyRedirects httpFetchMaxRedirect), w)
      else validateFetchTarget env (Some (hop_URL h)) allowLoopback w)"

record httpFetchInput =
  fi_URL :: string
  fi_Method :: string
  fi_Headers :: "(string, string) gomap"
  fi_Body :: string

record httpFetchOutput =
  fo_Status :: int
  fo_Headers :: "(string, string) gomap"
  fo_Body :: string

definition validMethod :: "string \<Rightarrow> bool" where
  "validMethod m \<longleftrightarrow> m \<noteq> [] \<and> list_all tokenChar m"

definition capBody :: "string \<Rightarrow> string" where
  "capBody raw = (if int (length raw) > maxBodyBytes then take (nat maxBodyBytes) raw else raw)"

text \<open>
  The transport is made for the call, without a proxy: it starts with no idle connection. Decoding of the input and
  encoding of the output are arguments.
\<close>

definition HTTPFetchTool_Execute ::
  "bool \<Rightarrow> netEnv \<Rightarrow> (string \<Rightarrow> string + httpFetchInput) \<Rightarrow> (httpFetchOutput \<Rightarrow> string + string) \<Rightarrow> string \<Rightarrow> netWorld \<Rightarrow>
   ((fetchErr + string) \<times> netWorld) option" where
  "HTTPFetchTool_Execute allowLoopback env unmarshal marshal input w =
     (case unmarshal input of Inl e \<Rightarrow> Some (Inl (InvalidInput e), w)
      | Inr inp \<Rightarrow>
          if fi_URL inp = [] then Some (Inl (MissingParam ''url''), w)
          else
            (let method = (if fi_Method inp = [] then ''GET'' else fi_Method inp) in
             case e_parseURL env (fi_URL inp) of Inl e \<Rightarrow> Some (Inl (InvalidURL e), w)
             | Inr u \<Rightarrow>
                 (case validateFetchTarget env (Some u) allowLoopback w of (Some e, w1) \<Rightarrow> Some (Inl e, w1)
                  | (None, w1) \<Rightarrow>
                      if \<not> validMethod method then Some (Inl (BadRequest method), w1)
                      else
                        (case clientDo env (roundTrip env (\<lambda>u. None) (tools_safeDialContext allowLoopback env) (setHeaders (fi_Headers inp) []))
                                (httpFetchCheckRedirect allowLoopback env) (Suc httpFetchMaxRedirect) []
                                \<lparr>hop_Method = method, hop_URL = u, hop_Body = fi_Body inp\<rparr> (w1\<lparr>w_idle := []\<rparr>) of
                           None \<Rightarrow> None
                         | Some (Inl e, w2) \<Rightarrow> Some (Inl (RequestFailed e), w2)
                         | Some (Inr r, w2) \<Rightarrow>
                             (case readLimited (maxBodyBytes + 1) r of Inl e \<Rightarrow> Some (Inl (ReadErr e), w2)
                              | Inr raw \<Rightarrow>
                                  (case marshal \<lparr>fo_Status = rs_StatusCode r, fo_Headers = rs_Header r, fo_Body = capBody raw\<rparr> of
                                     Inl e \<Rightarrow> Some (Inl (EncodeErr e), w2) | Inr out \<Rightarrow> Some (Inr out, w2)))))))"

subsection \<open>Webhook tools\<close>

text \<open>The default policy of net/http: ten requests.\<close>

definition defaultCheckRedirect :: redirectPolicy where
  "defaultCheckRedirect h via w = (if length via \<ge> 10 then (Some (TooManyRedirects 10), w) else (None, w))"

definition webhook_DialContext :: "bool \<Rightarrow> netEnv \<Rightarrow> dialer" where
  "webhook_DialContext allowLoopback env addr w =
     (case SplitHostPort addr of Inl e \<Rightarrow> (Inl (InvalidDial e), w)
      | Inr (host, port) \<Rightarrow>
          (case resolveStep env host w of (Inl e, w1) \<Rightarrow> (Inl (Ssrf e), w1)
           | (Inr ips, w1) \<Rightarrow>
               (case firstPrivate allowLoopback ips of Some p \<Rightarrow> (Inl (PrivateDial host p), w1)
                | None \<Rightarrow> (Inr (DialIP (hd ips) port), w1))))"

text \<open>
  The arguments are decoded as JSON, or passed as a string when that fails; no input is null. \<open>marshal\<close> encodes the object
  with the single member \<open>input\<close>.
\<close>

definition webhookArgs :: "(string \<Rightarrow> json option) \<Rightarrow> string \<Rightarrow> json" where
  "webhookArgs unmarshal input =
     (if input = [] then JNull else case unmarshal input of Some j \<Rightarrow> j | None \<Rightarrow> JStr input)"

definition WebhookTool_Execute ::
  "string \<Rightarrow> (string, string) gomap \<Rightarrow> bool \<Rightarrow> netEnv \<Rightarrow> (string \<Rightarrow> json option) \<Rightarrow> (json \<Rightarrow> string + string) \<Rightarrow> string \<Rightarrow> netWorld \<Rightarrow>
   ((fetchErr + string) \<times> netWorld) option" where
  "WebhookTool_Execute webhookURL headers allowLoopback env unmarshal marshal input w =
     (case e_parseURL env webhookURL of Inl e \<Rightarrow> Some (Inl (InvalidURL e), w)
      | Inr u \<Rightarrow>
          if u_Scheme u \<noteq> ''http'' \<and> u_Scheme u \<noteq> ''https'' then Some (Inl (UnsupportedScheme (u_Scheme u)), w)
          else
            (case marshal (JObj [(''input'', webhookArgs unmarshal input)]) of Inl e \<Rightarrow> Some (Inl (EncodeErr e), w)
             | Inr body \<Rightarrow>
                 (case clientDo env (roundTrip env (\<lambda>u. None) (webhook_DialContext allowLoopback env)
                         (setHeaders headers [(''Content-Type'', ''application/json'')]))
                         defaultCheckRedirect 11 [] \<lparr>hop_Method = ''POST'', hop_URL = u, hop_Body = body\<rparr> (w\<lparr>w_idle := []\<rparr>) of
                    None \<Rightarrow> None
                  | Some (Inl e, w2) \<Rightarrow> Some (Inl (RequestFailed e), w2)
                  | Some (Inr r, w2) \<Rightarrow>
                      (case readLimited (maxBodyBytes + 1) r of Inl e \<Rightarrow> Some (Inl (ReadErr e), w2)
                       | Inr raw \<Rightarrow> Some (Inr (capBody raw), w2)))))"

subsection \<open>The MCP tools\<close>

record httpRequestInput =
  hi_URL :: string
  hi_Method :: string
  hi_Headers :: "(string, string) gomap"
  hi_Body :: string

type_synonym fetchURLResponse = fetchResult

definition makeFetchURLHandler ::
  "httpFetcher \<Rightarrow> netEnv \<Rightarrow> (string \<Rightarrow> string option) \<Rightarrow> (string \<Rightarrow> string + string) \<Rightarrow> string \<Rightarrow> netWorld \<Rightarrow>
   ((fetchErr + fetchURLResponse) \<times> netWorld) option" where
  "makeFetchURLHandler f env indent unmarshal params w =
     (case unmarshal params of Inl e \<Rightarrow> Some (Inl (InvalidInput e), w)
      | Inr rawURL \<Rightarrow>
          if rawURL = [] then Some (Inl (MissingParam ''url''), w)
          else Fetch f env indent rawURL w)"

definition makeHTTPRequestHandler ::
  "httpFetcher \<Rightarrow> netEnv \<Rightarrow> (string \<Rightarrow> string option) \<Rightarrow> (string \<Rightarrow> string + httpRequestInput) \<Rightarrow> string \<Rightarrow> netWorld \<Rightarrow>
   ((fetchErr + fetchURLResponse) \<times> netWorld) option" where
  "makeHTTPRequestHandler f env indent unmarshal params w =
     (case unmarshal params of Inl e \<Rightarrow> Some (Inl (InvalidInput e), w)
      | Inr inp \<Rightarrow>
          if hi_URL inp = [] then Some (Inl (MissingParam ''url''), w)
          else if hi_Method inp = [] then Some (Inl (MissingParam ''method''), w)
          else Request f env indent (hi_Method inp) (hi_URL inp) (hi_Headers inp) (hi_Body inp) w)"

definition makePingURLHandler ::
  "httpFetcher \<Rightarrow> netEnv \<Rightarrow> (string \<Rightarrow> string + string) \<Rightarrow> time \<Rightarrow> time \<Rightarrow> string \<Rightarrow> netWorld \<Rightarrow>
   ((fetchErr + pingResult) \<times> netWorld) option" where
  "makePingURLHandler f env unmarshal start stop params w =
     (case unmarshal params of Inl e \<Rightarrow> Some (Inl (InvalidInput e), w)
      | Inr rawURL \<Rightarrow>
          if rawURL = [] then Some (Inl (MissingParam ''url''), w)
          else Ping f env start stop rawURL w)"

text \<open>Registration stops at the first tool the registry refuses; descriptions and schemas are left to the argument.\<close>

definition httpTools :: "(string \<Rightarrow> tool) \<Rightarrow> tool list" where
  "httpTools base =
     [(base ''fetch_url'')\<lparr>tl_Name := ''fetch_url'', tl_MinClearance := ClearanceInternal, tl_Static := True\<rparr>,
      (base ''http_request'')\<lparr>tl_Name := ''http_request'', tl_MinClearance := ClearanceAdmin, tl_Static := True\<rparr>,
      (base ''ping_url'')\<lparr>tl_Name := ''ping_url'', tl_MinClearance := ClearanceInternal, tl_Static := True\<rparr>]"

fun registerTools :: "tool list \<Rightarrow> toolRegistry \<Rightarrow> registryErr option \<times> toolRegistry" where
  "registerTools [] reg = (None, reg)"
| "registerTools (t # ts) reg =
     (case Tool_Register t reg of (Some e, reg1) \<Rightarrow> (Some e, reg1) | (None, reg1) \<Rightarrow> registerTools ts reg1)"

definition RegisterHTTPTools :: "(string \<Rightarrow> tool) \<Rightarrow> toolRegistry \<Rightarrow> registryErr option \<times> toolRegistry" where
  "RegisterHTTPTools base reg = registerTools (httpTools base) reg"

subsection \<open>A client with a checked dialer and a redirect policy\<close>

text \<open>
  The contract between the redirect loop and what the program plugs into it: a sender that logs at most the request it is
  given, on a connection the program accepts, and a policy that lets only accepted requests through, fewer than \<open>lim\<close> of
  them after the first.
\<close>

locale http_client =
  fixes send :: sender and policy :: redirectPolicy and inv :: "netWorld \<Rightarrow> bool"
    and okTarget :: "dialTarget \<Rightarrow> bool" and okHop :: "hop \<Rightarrow> bool" and lim :: nat
  assumes send_inv: "inv w \<Longrightarrow> send h w = (r, w') \<Longrightarrow> inv w'"
    and send_sent: "inv w \<Longrightarrow> send h w = (r, w') \<Longrightarrow>
      w_sent w' = w_sent w \<or> (\<exists>t. okTarget t \<and> w_sent w' = w_sent w @ [(t, h)])"
    and policy_inv: "inv w \<Longrightarrow> policy h via w = (e, w') \<Longrightarrow> inv w' \<and> w_sent w' = w_sent w"
    and policy_ok: "policy h via w = (None, w') \<Longrightarrow> okHop h \<and> length via < lim"
begin

lemma clientDo_returns:
  "fuel > 0 \<Longrightarrow> lim \<le> length via + fuel \<Longrightarrow> \<exists>r. clientDo env send policy fuel via h w = Some r"
proof (induction fuel arbitrary: via h w)
  case (Suc fuel)
  have "\<exists>r. clientDo env send policy fuel (via @ [h]) h' w2 = Some r"
    if "policy h' (via @ [h]) w1 = (None, w2)" for h' w1 w2
    using Suc.IH[of "via @ [h]" h' w2] policy_ok[OF that] Suc.prems(2) by simp
  then show ?case by (auto simp: Let_def split: prod.splits sum.splits option.splits)
qed simp

lemma clientDo_sent:
  assumes "clientDo env send policy fuel via h w = Some (r, w')" "inv w" "okHop h"
  shows "inv w' \<and> (\<exists>new. w_sent w' = w_sent w @ new \<and> (\<forall>(t, h)\<in>set new. okTarget t \<and> okHop h) \<and>
    length via + length new \<le> max lim (Suc (length via)))"
  using assms
proof (induction fuel arbitrary: via h w)
  case (Suc fuel)
  obtain r1 w1 where s: "send h w = (r1, w1)" by (cases "send h w")
  note i1 = send_inv[OF Suc.prems(2) s]
  from send_sent[OF Suc.prems(2) s] Suc.prems(3) obtain new1 where n1: "w_sent w1 = w_sent w @ new1"
    "\<forall>(t, h)\<in>set new1. okTarget t \<and> okHop h" "length new1 \<le> 1" by auto
  have stop: ?case if "w' = w1" using that i1 n1 by fastforce
  have refuse: ?case if "policy h' via' w1 = (e, w')" for h' via' e
    using policy_inv[OF i1 that] n1 by fastforce
  have cont: ?case if p: "policy h' (via @ [h]) w1 = (None, w2)"
    and c: "clientDo env send policy fuel (via @ [h]) h' w2 = Some (r, w')" for h' w2
  proof -
    from Suc.IH[OF c] policy_inv[OF i1 p] policy_ok[OF p] obtain new where "inv w'"
      "w_sent w' = w_sent w2 @ new" "\<forall>(t, h)\<in>set new. okTarget t \<and> okHop h"
      "length (via @ [h]) + length new \<le> max lim (Suc (length (via @ [h])))" by auto
    moreover have "w_sent w2 = w_sent w1" "length (via @ [h]) < lim" using policy_inv[OF i1 p] policy_ok[OF p] by auto
    ultimately show ?thesis using n1 by (intro conjI exI[of _ "new1 @ new"]) auto
  qed
  from Suc.prems(1) s consider "w' = w1" | h' via' e where "policy h' via' w1 = (e, w')"
    | h' w2 where "policy h' (via @ [h]) w1 = (None, w2)" "clientDo env send policy fuel (via @ [h]) h' w2 = Some (r, w')"
    by (auto simp: Let_def split: prod.splits sum.splits option.splits if_splits)
  then show ?case by cases (erule stop refuse cont; assumption)+
qed simp

end

text \<open>A dial function that logs nothing, keeps the idle connections and returns only accepted targets.\<close>

definition dialOk :: "(dialTarget \<Rightarrow> bool) \<Rightarrow> dialer \<Rightarrow> bool" where
  "dialOk okT dial \<longleftrightarrow> (\<forall>addr w r w'. dial addr w = (r, w') \<longrightarrow>
     w_sent w' = w_sent w \<and> w_idle w' = w_idle w \<and> (\<forall>t. r = Inr t \<longrightarrow> okT t))"

definition idleOk :: "(dialTarget \<Rightarrow> bool) \<Rightarrow> netWorld \<Rightarrow> bool" where
  "idleOk okT w \<longleftrightarrow> (\<forall>k t. mget (w_idle w) k = Some t \<longrightarrow> okT t)"

lemma resolveStep_frame: "resolveStep env host w = (r, w') \<Longrightarrow> w_sent w' = w_sent w \<and> w_idle w' = w_idle w"
  by (auto simp: resolveStep_def split: if_splits)

lemma rejectStep_frame: "rejectStep env host al w = (r, w') \<Longrightarrow> w_sent w' = w_sent w \<and> w_idle w' = w_idle w"
  using resolveStep_frame[of env host w] by (cases "resolveStep env host w") (auto simp: rejectStep_def)

lemma getConn_ok:
  assumes d: "dialOk okT dial" and i: "idleOk okT w" and g: "getConn env proxy dial u addr w = (r, w')"
  shows "idleOk okT w' \<and> w_sent w' = w_sent w \<and> (\<forall>t. r = Inr t \<longrightarrow> okT t)"
proof -
  consider t where "r = Inr t" "w' = w" "mget (w_idle w) (connKeyOf env proxy u) = Some t"
    | e where "r = Inl e" "snd (dial addr w) = w'"
    | t w1 where "dial addr w = (Inr t, w1)" "r = Inr t" "w' = w1\<lparr>w_idle := mput (connKeyOf env proxy u) t (w_idle w1)\<rparr>"
    using g by (auto simp: getConn_def Let_def split: option.splits sum.splits prod.splits if_splits)
  then show ?thesis
  proof cases
    case 1
    with i have "okT t" unfolding idleOk_def by blast
    with 1 i show ?thesis by simp
  next
    case 2
    with d i show ?thesis by (cases "dial addr w") (auto simp: dialOk_def idleOk_def)
  next
    case 3
    with d have "okT t" "w_sent w1 = w_sent w" "w_idle w1 = w_idle w" by (auto simp: dialOk_def)
    with 3 i show ?thesis by (auto simp: idleOk_def mget_mput)
  qed
qed

lemma roundTrip_ok:
  assumes d: "dialOk okT dial" and i: "idleOk okT w" and rt: "roundTrip env proxy dial hdr h w = (r, w')"
  shows "idleOk okT w' \<and> (w_sent w' = w_sent w \<or> (\<exists>t. okT t \<and> w_sent w' = w_sent w @ [(t, h)]))"
proof -
  let ?u = "hop_URL h"
  consider "w' = w" | g addr where "getConn env proxy dial ?u addr w = (g, w')"
    | t w1 addr where "getConn env proxy dial ?u addr w = (Inr t, w1)" "w' = w1\<lparr>w_sent := w_sent w1 @ [(t, h)]\<rparr>"
    using rt by (auto simp: roundTrip_def Let_def split: option.splits sum.splits prod.splits if_splits)
  then show ?thesis
  proof cases
    case 1
    with i show ?thesis by simp
  next
    case 2
    with getConn_ok[OF d i] show ?thesis by blast
  next
    case 3
    with getConn_ok[OF d i 3(1)] show ?thesis by (auto simp: idleOk_def)
  qed
qed

lemma firstPrivate_None: "firstPrivate al ps = None \<longleftrightarrow> (\<forall>p\<in>set ps. IsPrivateIP p \<longrightarrow> al \<and> IsLoopback p)"
  by (induction al ps rule: firstPrivate.induct) auto

definition publicTarget :: "bool \<Rightarrow> dialTarget \<Rightarrow> bool" where
  "publicTarget al t \<longleftrightarrow> (\<exists>p port. t = DialIP p port \<and> (IsPrivateIP p \<longrightarrow> al \<and> IsLoopback p))"

lemma firstPrivate_public: "ResolveHost lookup host = Inr ps \<Longrightarrow> firstPrivate al ps = None \<Longrightarrow> publicTarget al (DialIP (hd ps) port)"
  using ResolveHost_nonempty by (fastforce simp: publicTarget_def firstPrivate_None intro: hd_in_set)

lemma fetcher_dialOk: "dialOk (\<lambda>t. hf_skipSSRF f \<or> publicTarget False t) (fetcher_safeDialContext f env)"
  unfolding dialOk_def fetcher_safeDialContext_def
  by (auto simp: resolveStep_def split: sum.splits option.splits if_splits intro: firstPrivate_public)

lemma tools_dialOk: "dialOk (publicTarget al) (tools_safeDialContext al env)"
  unfolding dialOk_def tools_safeDialContext_def
  by (auto simp: resolveStep_def split: sum.splits option.splits if_splits intro: firstPrivate_public)

lemma webhook_dialOk: "dialOk (publicTarget al) (webhook_DialContext al env)"
  unfolding dialOk_def webhook_DialContext_def
  by (auto simp: resolveStep_def split: sum.splits option.splits if_splits intro: firstPrivate_public)

subsection \<open>The three clients keep the contract\<close>

definition webScheme :: "hop \<Rightarrow> bool" where
  "webScheme h \<longleftrightarrow> u_Scheme (hop_URL h) \<in> {''http'', ''https''}"

definition fetchable :: "httpFetcher \<Rightarrow> hop \<Rightarrow> bool" where
  "fetchable f h \<longleftrightarrow> webScheme h \<and> u_Hostname (hop_URL h) \<noteq> [] \<and> checkDomainFilters f (u_Hostname (hop_URL h)) = None"

lemma validateURL_frame: "validateURL f env u w = (e, w') \<Longrightarrow> w_sent w' = w_sent w \<and> w_idle w' = w_idle w"
  using rejectStep_frame
  by (fastforce simp: validateURL_def rejectPrivateIP_def split: option.splits if_splits prod.splits)

lemma validateURL_None:
  "validateURL f env (Some u) w = (None, w') \<Longrightarrow>
     u_Scheme u \<in> {''http'', ''https''} \<and> u_Hostname u \<noteq> [] \<and> checkDomainFilters f (u_Hostname u) = None"
  by (auto simp: validateURL_def split: option.splits if_splits prod.splits)

lemma validateFetchTarget_frame: "validateFetchTarget env u al w = (e, w') \<Longrightarrow> w_sent w' = w_sent w \<and> w_idle w' = w_idle w"
  using rejectStep_frame
  by (fastforce simp: validateFetchTarget_def split: option.splits if_splits prod.splits)

lemma validateFetchTarget_None:
  "validateFetchTarget env (Some u) al w = (None, w') \<Longrightarrow> u_Scheme u \<in> {''http'', ''https''} \<and> u_Hostname u \<noteq> []"
  by (auto simp: validateFetchTarget_def split: option.splits if_splits prod.splits)

interpretation fetcher_client: http_client
  "roundTrip env (e_proxy env) (fetcher_safeDialContext f env) hdr" "fetcher_checkRedirect f env"
  "idleOk (\<lambda>t. hf_skipSSRF f \<or> publicTarget False t)" "\<lambda>t. hf_skipSSRF f \<or> publicTarget False t" "fetchable f" maxRedirects
  for f env hdr
proof unfold_locales
  fix h via w e w'
  show "idleOk (\<lambda>t. hf_skipSSRF f \<or> publicTarget False t) w \<Longrightarrow> fetcher_checkRedirect f env h via w = (e, w') \<Longrightarrow>
      idleOk (\<lambda>t. hf_skipSSRF f \<or> publicTarget False t) w' \<and> w_sent w' = w_sent w"
    using validateURL_frame[of f env "Some (hop_URL h)" w e w']
    by (auto simp: fetcher_checkRedirect_def idleOk_def split: if_splits)
next
  fix h via w w'
  show "fetcher_checkRedirect f env h via w = (None, w') \<Longrightarrow> fetchable f h \<and> length via < maxRedirects"
    using validateURL_None[of f env "hop_URL h" w w']
    by (auto simp: fetcher_checkRedirect_def fetchable_def webScheme_def split: if_splits)
qed (use roundTrip_ok[OF fetcher_dialOk] in blast)+

interpretation fetch_tool_client: http_client
  "roundTrip env (\<lambda>u. None) (tools_safeDialContext al env) hdr" "httpFetchCheckRedirect al env"
  "idleOk (publicTarget al)" "publicTarget al" "\<lambda>h. webScheme h \<and> u_Hostname (hop_URL h) \<noteq> []" httpFetchMaxRedirect
  for al env hdr
proof unfold_locales
  fix h via w e w'
  show "idleOk (publicTarget al) w \<Longrightarrow> httpFetchCheckRedirect al env h via w = (e, w') \<Longrightarrow>
      idleOk (publicTarget al) w' \<and> w_sent w' = w_sent w"
    using validateFetchTarget_frame[of env "Some (hop_URL h)" al w e w']
    by (auto simp: httpFetchCheckRedirect_def idleOk_def split: if_splits)
next
  fix h via w w'
  show "httpFetchCheckRedirect al env h via w = (None, w') \<Longrightarrow>
      (webScheme h \<and> u_Hostname (hop_URL h) \<noteq> []) \<and> length via < httpFetchMaxRedirect"
    using validateFetchTarget_None[of env "hop_URL h" al w w']
    by (auto simp: httpFetchCheckRedirect_def webScheme_def split: if_splits)
qed (use roundTrip_ok[OF tools_dialOk] in blast)+

interpretation webhook_client: http_client
  "roundTrip env (\<lambda>u. None) (webhook_DialContext al env) hdr" defaultCheckRedirect
  "idleOk (publicTarget al)" "publicTarget al" "\<lambda>h. True" 10
  for al env hdr
  by unfold_locales (use roundTrip_ok[OF webhook_dialOk] in \<open>(blast | auto simp: defaultCheckRedirect_def split: if_splits)\<close>)+

subsection \<open>Calls of the fetcher\<close>

text \<open>Any sequence of calls on one fetcher, which shares its transport and so its idle connections.\<close>

datatype fetchCall =
    CallFetch string | CallRequest string string "(string, string) gomap" string | CallPing string time time

fun runCall :: "httpFetcher \<Rightarrow> netEnv \<Rightarrow> (string \<Rightarrow> string option) \<Rightarrow> fetchCall \<Rightarrow> netWorld \<Rightarrow> netWorld option" where
  "runCall f env indent (CallFetch u) w = map_option snd (Fetch f env indent u w)"
| "runCall f env indent (CallRequest m u hs b) w = map_option snd (Request f env indent m u hs b w)"
| "runCall f env indent (CallPing u t0 t1) w = map_option snd (Ping f env t0 t1 u w)"

fun runCalls :: "httpFetcher \<Rightarrow> netEnv \<Rightarrow> (string \<Rightarrow> string option) \<Rightarrow> fetchCall list \<Rightarrow> netWorld \<Rightarrow> netWorld option" where
  "runCalls f env indent [] w = Some w"
| "runCalls f env indent (c # cs) w = Option.bind (runCall f env indent c w) (runCalls f env indent cs)"

definition freshWorld :: netWorld where
  "freshWorld = \<lparr>w_queries = 0, w_idle = [], w_sent = []\<rparr>"

text \<open>
  A step of the world in which every new request went over an accepted connection to an accepted URL, at most
  \<open>maxRedirects\<close> of them.
\<close>

definition okTargetOf :: "httpFetcher \<Rightarrow> dialTarget \<Rightarrow> bool" where
  "okTargetOf f = (\<lambda>t. hf_skipSSRF f \<or> publicTarget False t)"

definition safeCall :: "httpFetcher \<Rightarrow> netWorld \<Rightarrow> netWorld \<Rightarrow> bool" where
  "safeCall f w w' \<longleftrightarrow> idleOk (okTargetOf f) w' \<and>
     (\<exists>new. w_sent w' = w_sent w @ new \<and> (\<forall>(t, h)\<in>set new. okTargetOf f t \<and> fetchable f h) \<and> length new \<le> maxRedirects)"

lemma safeCall_frame: "idleOk (okTargetOf f) w \<Longrightarrow> w_sent w' = w_sent w \<Longrightarrow> w_idle w' = w_idle w \<Longrightarrow> safeCall f w w'"
  by (auto simp: safeCall_def idleOk_def)

lemma fetcher_Do_safe:
  assumes "idleOk (okTargetOf f) w" "fetchable f h"
  shows "\<exists>r w'. fetcher_Do f env hdr h w = Some (r, w') \<and> safeCall f w w'"
proof -
  obtain r w' where d: "fetcher_Do f env hdr h w = Some (r, w')"
    using fetcher_client.clientDo_returns[of "Suc maxRedirects" "[]" env env f hdr h w] unfolding fetcher_Do_def by auto
  from fetcher_client.clientDo_sent[OF this[unfolded fetcher_Do_def] assms[unfolded okTargetOf_def]] d
  show ?thesis by (auto simp: safeCall_def okTargetOf_def maxRedirects_def)
qed

lemma validated_Do:
  assumes i: "idleOk (okTargetOf f) w" and post: "\<And>r w'. \<exists>x. post r w' = Some (x, w')"
  shows "\<exists>x w'. (case e_parseURL env rawURL of Inl e \<Rightarrow> Some (Inl (InvalidURL e), w)
      | Inr u \<Rightarrow>
          (case validateURL f env (Some u) w of (Some e, w1) \<Rightarrow> Some (Inl e, w1)
           | (None, w1) \<Rightarrow>
               (case fetcher_Do f env hdr \<lparr>hop_Method = m, hop_URL = u, hop_Body = b\<rparr> w1 of
                  None \<Rightarrow> None
                | Some (Inl e, w2) \<Rightarrow> Some (Inl (RequestFailed e), w2)
                | Some (Inr r, w2) \<Rightarrow> post r w2))) = Some (x, w') \<and> safeCall f w w'"
proof (cases "e_parseURL env rawURL")
  case (Inl e)
  with i show ?thesis by (simp add: safeCall_frame)
next
  case (Inr u)
  obtain v w1 where v: "validateURL f env (Some u) w = (v, w1)" by (cases "validateURL f env (Some u) w")
  note fr = validateURL_frame[OF v]
  show ?thesis
  proof (cases v)
    case (Some e)
    with Inr v fr i show ?thesis by (simp add: safeCall_frame)
  next
    case None
    with validateURL_None v have "fetchable f \<lparr>hop_Method = m, hop_URL = u, hop_Body = b\<rparr>"
      by (simp add: fetchable_def webScheme_def)
    moreover have "idleOk (okTargetOf f) w1" using i fr by (simp add: idleOk_def)
    ultimately obtain r w2 where d: "fetcher_Do f env hdr \<lparr>hop_Method = m, hop_URL = u, hop_Body = b\<rparr> w1 = Some (r, w2)"
      "safeCall f w w2" using fetcher_Do_safe[of f w1 _ env hdr] fr by (fastforce simp: safeCall_def)
    with Inr v None post[of _ w2] show ?thesis by (cases r) (simp, fastforce)
  qed
qed

lemma readResult_total: "0 \<le> hf_maxSize f \<Longrightarrow> \<exists>x. readResult f indent u r = Some x"
  by (auto simp: readResult_def truncateBody_def Let_def split: sum.split)

lemma runCall_safe:
  assumes i: "idleOk (okTargetOf f) w" and m: "0 \<le> hf_maxSize f"
  shows "\<exists>w'. runCall f env indent c w = Some w' \<and> safeCall f w w'"
proof -
  have post: "\<exists>x. map_option (\<lambda>x. (x, w')) (readResult f indent u r) = Some (x, w')" for u r w'
    using readResult_total[OF m, of indent u r] by auto
  show ?thesis
  proof (cases c)
    case (CallFetch u)
    show ?thesis using validated_Do[OF i post, where env = env] unfolding CallFetch runCall.simps Fetch_def by fastforce
  next
    case (CallRequest md u hs b)
    show ?thesis
    proof (cases "ToUpper md \<in> set allowedMethods")
      case True
      with validated_Do[OF i post, where env = env] show ?thesis
        unfolding CallRequest runCall.simps Request_def Let_def by fastforce
    next
      case False
      with i show ?thesis by (simp add: CallRequest Request_def safeCall_frame)
    qed
  next
    case (CallPing u t0 t1)
    have "\<exists>x. Some (Inr \<lparr>pr_URL = u, pr_StatusCode = rs_StatusCode r, pr_LatencyMs = (t1 - t0) div 1000000\<rparr>, w') = Some (x, w')"
      for r and w' :: netWorld by simp
    from validated_Do[OF i this, where env = env] show ?thesis unfolding CallPing runCall.simps Ping_def by fastforce
  qed
qed

lemma runCalls_safe:
  assumes "idleOk (okTargetOf f) w" "0 \<le> hf_maxSize f"
  shows "\<exists>w' new. runCalls f env indent cs w = Some w' \<and> w_sent w' = w_sent w @ new \<and>
    (\<forall>(t, h)\<in>set new. okTargetOf f t \<and> fetchable f h) \<and> length new \<le> maxRedirects * length cs"
  using assms
proof (induction cs arbitrary: w)
  case (Cons c cs)
  from runCall_safe[OF Cons.prems, of env indent c] obtain w1 new1 where 1: "runCall f env indent c w = Some w1" "idleOk (okTargetOf f) w1"
    "w_sent w1 = w_sent w @ new1" "\<forall>(t, h)\<in>set new1. okTargetOf f t \<and> fetchable f h" "length new1 \<le> maxRedirects"
    unfolding safeCall_def by blast
  from Cons.IH[OF 1(2) Cons.prems(2)] obtain w' new where 2: "runCalls f env indent cs w1 = Some w'" "w_sent w' = w_sent w1 @ new"
    "\<forall>(t, h)\<in>set new. okTargetOf f t \<and> fetchable f h" "length new \<le> maxRedirects * length cs" by blast
  have "runCalls f env indent (c # cs) w = Some w' \<and> w_sent w' = w_sent w @ (new1 @ new) \<and>
    (\<forall>(t, h)\<in>set (new1 @ new). okTargetOf f t \<and> fetchable f h) \<and> length (new1 @ new) \<le> maxRedirects * length (c # cs)"
    using 1 2 by auto
  then show ?case by blast
qed simp

text \<open>C10. 
  C1. Whatever is asked of a fetcher with SSRF protection, whatever DNS answers from one query to the next, and wherever
  servers redirect: every call returns, a call sends at most five requests, each over a connection to an address outside
  the private ranges, and only to http(s) URLs whose host passes the domain filters. This covers reused connections, since
  the whole sequence of calls shares one transport.
\<close>

theorem fetcher_calls_safe:
  assumes "\<not> hf_skipSSRF f" "0 \<le> hf_maxSize f"
  shows "\<exists>w. runCalls f env indent cs freshWorld = Some w \<and> length (w_sent w) \<le> 5 * length cs \<and>
    (\<forall>t h. (t, h) \<in> set (w_sent w) \<longrightarrow>
       (\<exists>p port. t = DialIP p port \<and> \<not> IsPrivateIP p) \<and>
       u_Scheme (hop_URL h) \<in> {''http'', ''https''} \<and> checkDomainFilters f (u_Hostname (hop_URL h)) = None)"
proof -
  have "idleOk (okTargetOf f) freshWorld" by (simp add: idleOk_def freshWorld_def mget_def)
  from runCalls_safe[OF this assms(2), of env indent cs] obtain w where w: "runCalls f env indent cs freshWorld = Some w"
    "\<forall>(t, h)\<in>set (w_sent w). okTargetOf f t \<and> fetchable f h" "length (w_sent w) \<le> 5 * length cs"
    by (auto simp: freshWorld_def maxRedirects_def)
  from w(2) assms(1) have "(\<exists>p port. t = DialIP p port \<and> \<not> IsPrivateIP p) \<and> u_Scheme (hop_URL h) \<in> {''http'', ''https''} \<and>
      checkDomainFilters f (u_Hostname (hop_URL h)) = None" if "(t, h) \<in> set (w_sent w)" for t h
    using that by (fastforce simp: okTargetOf_def publicTarget_def fetchable_def webScheme_def)
  with w show ?thesis by blast
qed

text \<open>A resolver that rebinds a name: public for the first query, private from then on.\<close>

definition rebindEnv :: netEnv where
  "rebindEnv = \<lparr>e_lookup = (\<lambda>n h. Inr [if n = 0 then [93, 184, 216, 34] else [10, 0, 0, 1]]),
     e_parseURL = (\<lambda>s. Inr \<lparr>u_Scheme = ''http'', u_Hostname = s, u_Port = []\<rparr>),
     e_parseRef = (\<lambda>u s. Inr u), e_toASCII = (\<lambda>s. s), e_proxy = (\<lambda>u. None), e_reuse = (\<lambda>n. True),
     e_connect = (\<lambda>n t. None), e_exchange = (\<lambda>l h. Inr \<lparr>rs_StatusCode = 200, rs_Header = [], rs_Body = [], rs_ReadErr = None\<rparr>)\<rparr>"

lemma rebind_refused:
  "Fetch (NewHTTPFetcher []) rebindEnv Some ''evil.example'' freshWorld =
     Some (Inl (RequestFailed (PrivateDial ''evil.example'' [10, 0, 0, 1])), freshWorld\<lparr>w_queries := 2\<rparr>)"
  by code_simp

theorem fetcher_calls_safe_witness:
  "\<exists>w. runCalls (NewHTTPFetcher []) rebindEnv Some [CallFetch ''93.184.216.34'', CallFetch ''evil.example''] freshWorld = Some w \<and>
     w_sent w = [(DialIP (v4InV6Prefix @ [93, 184, 216, 34]) ''80'', \<lparr>hop_Method = ''GET'',
       hop_URL = \<lparr>u_Scheme = ''http'', u_Hostname = ''93.184.216.34'', u_Port = []\<rparr>, hop_Body = []\<rparr>)] \<and>
     \<not> IsPrivateIP (v4InV6Prefix @ [93, 184, 216, 34])"
proof -
  have s: "map_option w_sent (runCalls (NewHTTPFetcher []) rebindEnv Some [CallFetch ''93.184.216.34'', CallFetch ''evil.example''] freshWorld) =
     Some [(DialIP (v4InV6Prefix @ [93, 184, 216, 34]) ''80'', \<lparr>hop_Method = ''GET'',
       hop_URL = \<lparr>u_Scheme = ''http'', u_Hostname = ''93.184.216.34'', u_Port = []\<rparr>, hop_Body = []\<rparr>)]"
    by code_simp
  have "\<not> hf_skipSSRF (NewHTTPFetcher [])" "0 \<le> hf_maxSize (NewHTTPFetcher [])" by code_simp+
  from fetcher_calls_safe[OF this, of rebindEnv Some "[CallFetch ''93.184.216.34'', CallFetch ''evil.example'']"] s
  show ?thesis by fastforce
qed

subsection \<open>Size limit\<close>

lemma add64_exact: "- (2 ^ 63) \<le> a + b \<Longrightarrow> a + b < 2 ^ 63 \<Longrightarrow> add64 a b = a + b"
  using sint_word_of_int64[of "a + b"] by (simp add: add64_def)

text \<open>C26. 
  C1. The size limit is exact: of a body within the limit everything is returned, of a longer one the first maxSize bytes
  with the marker; BytesFetched counts the bytes kept; and a read error is reported exactly when the stream breaks before
  more than maxSize bytes have arrived.
\<close>

theorem readResult_exact:
  assumes "0 \<le> hf_maxSize f" "hf_maxSize f < 2 ^ 63 - 1"
  shows "readResult f indent rawURL r =
    (let n = nat (hf_maxSize f); ct = zget [] (rs_Header r) ''Content-Type''; over = length (rs_Body r) > n in
     Some (if \<not> over \<and> rs_ReadErr r \<noteq> None then Inl (ReadErr (the (rs_ReadErr r)))
       else Inr \<lparr>fr_URL = rawURL, fr_StatusCode = rs_StatusCode r, fr_ContentType = ct,
         fr_Body = convertBody indent ct (take n (rs_Body r)) @ (if over then CHR 0x0A # ''[truncated]'' else []),
         fr_BytesFetched = int (min (length (rs_Body r)) n)\<rparr>))"
proof -
  have a: "add64 (hf_maxSize f) 1 = hf_maxSize f + 1" using assms by (intro add64_exact) auto
  show ?thesis
  proof (cases "length (rs_Body r) > nat (hf_maxSize f)")
    case True
    then have "readLimited (hf_maxSize f + 1) r = Inr (take (nat (hf_maxSize f + 1)) (rs_Body r))"
      using assms by (simp add: readLimited_def) linarith
    moreover have "truncateBody (hf_maxSize f) (take (nat (hf_maxSize f + 1)) (rs_Body r)) = Some (take (nat (hf_maxSize f)) (rs_Body r), True)"
      using True assms by (auto simp: truncateBody_def min_def)
    ultimately show ?thesis using True a by (simp add: readResult_def Let_def min_def)
  next
    case False
    then have "readLimited (hf_maxSize f + 1) r = (case rs_ReadErr r of Some e \<Rightarrow> Inl e | None \<Rightarrow> Inr (rs_Body r))"
      using assms by (auto simp: readLimited_def)
    moreover have "truncateBody (hf_maxSize f) (rs_Body r) = Some (rs_Body r, False)"
      using False assms by (auto simp: truncateBody_def)
    ultimately show ?thesis using False a by (auto simp: readResult_def Let_def min_def split: option.split)
  qed
qed

definition bodyOf :: "string \<Rightarrow> string option \<Rightarrow> response" where
  "bodyOf b e = \<lparr>rs_StatusCode = 200, rs_Header = [(''Content-Type'', ''text/plain'')], rs_Body = b, rs_ReadErr = e\<rparr>"

theorem readResult_exact_witness:
  "readResult (NewHTTPFetcher [WithMaxSize 3]) Some ''u'' (bodyOf ''abcd'' (Some ''reset'')) =
     Some (Inr \<lparr>fr_URL = ''u'', fr_StatusCode = 200, fr_ContentType = ''text/plain'',
       fr_Body = ''abc'' @ CHR 0x0A # ''[truncated]'', fr_BytesFetched = 3\<rparr>) \<and>
   readResult (NewHTTPFetcher [WithMaxSize 3]) Some ''u'' (bodyOf ''abc'' (Some ''reset'')) = Some (Inl (ReadErr ''reset''))"
proof -
  have f: "hf_maxSize (NewHTTPFetcher [WithMaxSize 3]) = 3" by code_simp
  then have "0 \<le> hf_maxSize (NewHTTPFetcher [WithMaxSize 3])" "hf_maxSize (NewHTTPFetcher [WithMaxSize 3]) < 2 ^ 63 - 1" by simp_all
  note readResult_exact[OF this, of Some "''u''"]
  then show ?thesis by (simp add: f bodyOf_def zget_def mget_def convertBody_def)
qed

text \<open>With the largest 64-bit limit the sum maxSize+1 wraps and nothing is read at all.\<close>

lemma maxSize_overflow:
  assumes "hf_maxSize f = 2 ^ 63 - 1"
  shows "readLimited (add64 (hf_maxSize f) 1) r = Inr []"
proof -
  have "add64 (2 ^ 63 - 1) 1 = - (2 ^ 63)" by code_simp
  then show ?thesis by (simp add: assms readLimited_def)
qed

subsection \<open>The other tools\<close>

text \<open>
  C1. The http_fetch tool always returns, and each of the at most five requests it sends, redirects included, is to an
  http(s) URL over a connection to an address outside the private ranges, or to loopback when that is allowed.
\<close>

theorem http_fetch_tool_safe:
  "\<exists>r w' new. HTTPFetchTool_Execute al env unmarshal marshal input w = Some (r, w') \<and> w_sent w' = w_sent w @ new \<and>
     length new \<le> 5 \<and> (\<forall>(t, h)\<in>set new. publicTarget al t \<and> webScheme h)"
proof -
  let ?E = "HTTPFetchTool_Execute al env unmarshal marshal input w"
  have early: ?thesis if "?E = Some (r, w1)" "w_sent w1 = w_sent w" for r w1 using that by auto
  have main: ?thesis if v: "validateFetchTarget env (Some u) al w = (None, w1)"
    and e: "?E = (case clientDo env (roundTrip env (\<lambda>u. None) (tools_safeDialContext al env) hdr) (httpFetchCheckRedirect al env)
        (Suc httpFetchMaxRedirect) [] \<lparr>hop_Method = md, hop_URL = u, hop_Body = b\<rparr> (w1\<lparr>w_idle := []\<rparr>) of
        None \<Rightarrow> None | Some (x, w2) \<Rightarrow> Some (post x, w2))" for u w1 hdr md b post
  proof -
    let ?h = "\<lparr>hop_Method = md, hop_URL = u, hop_Body = b\<rparr>"
    obtain x w2 where c: "clientDo env (roundTrip env (\<lambda>u. None) (tools_safeDialContext al env) hdr) (httpFetchCheckRedirect al env)
        (Suc httpFetchMaxRedirect) [] ?h (w1\<lparr>w_idle := []\<rparr>) = Some (x, w2)"
      using fetch_tool_client.clientDo_returns[of "Suc httpFetchMaxRedirect" "[]"] by fastforce
    have i: "idleOk (publicTarget al) (w1\<lparr>w_idle := []\<rparr>)" by (simp add: idleOk_def mget_def)
    have h: "webScheme ?h \<and> u_Hostname (hop_URL ?h) \<noteq> []" using validateFetchTarget_None[OF v] by (simp add: webScheme_def)
    from fetch_tool_client.clientDo_sent[OF c i h]
    obtain new where "w_sent w2 = w_sent w1 @ new" "\<forall>(t, h)\<in>set new. publicTarget al t \<and> webScheme h" "length new \<le> 5"
      by (fastforce simp: httpFetchMaxRedirect_def)
    with c e validateFetchTarget_frame[OF v] show ?thesis by auto
  qed
  show ?thesis
  proof (cases "unmarshal input")
    case (Inl e)
    then show ?thesis using early by (simp add: HTTPFetchTool_Execute_def)
  next
    case inp: (Inr inp)
    let ?m = "if fi_Method inp = [] then ''GET'' else fi_Method inp"
    show ?thesis
    proof (cases "fi_URL inp = []")
      case True
      then show ?thesis using early inp by (simp add: HTTPFetchTool_Execute_def)
    next
      case url: False
      show ?thesis
      proof (cases "e_parseURL env (fi_URL inp)")
        case (Inl e)
        then show ?thesis using early inp url by (simp add: HTTPFetchTool_Execute_def Let_def)
      next
        case u: (Inr u)
        obtain v w1 where v: "validateFetchTarget env (Some u) al w = (v, w1)" by (cases "validateFetchTarget env (Some u) al w")
        show ?thesis
        proof (cases "v = None \<and> validMethod ?m")
          case False
          then show ?thesis using early inp url u v validateFetchTarget_frame[OF v]
            by (cases v) (auto simp: HTTPFetchTool_Execute_def Let_def split: if_splits)
        next
          case True
          then have v': "validateFetchTarget env (Some u) al w = (None, w1)" using v by simp
          show ?thesis
            by (rule main[OF v', where hdr = "setHeaders (fi_Headers inp) []" and md = ?m and b = "fi_Body inp" and
                  post = "\<lambda>x. case x of Inl e \<Rightarrow> Inl (RequestFailed e) | Inr r \<Rightarrow>
                    (case readLimited (maxBodyBytes + 1) r of Inl e \<Rightarrow> Inl (ReadErr e)
                     | Inr raw \<Rightarrow> (case marshal \<lparr>fo_Status = rs_StatusCode r, fo_Headers = rs_Header r, fo_Body = capBody raw\<rparr> of
                         Inl e \<Rightarrow> Inl (EncodeErr e) | Inr out \<Rightarrow> Inr out))"])
              (use True inp url u v' in \<open>simp add: HTTPFetchTool_Execute_def Let_def split: option.split sum.split\<close>)
        qed
      qed
    qed
  qed
qed

definition plainInput :: "string \<Rightarrow> string + httpFetchInput" where
  "plainInput s = Inr \<lparr>fi_URL = s, fi_Method = [], fi_Headers = [], fi_Body = []\<rparr>"

theorem http_fetch_tool_safe_witness:
  "\<exists>w' h. HTTPFetchTool_Execute False rebindEnv plainInput (\<lambda>o1. Inr (fo_Body o1)) ''93.184.216.34'' freshWorld = Some (Inr [], w') \<and>
     w_sent w' = [(DialIP (v4InV6Prefix @ [93, 184, 216, 34]) ''80'', h)] \<and> webScheme h \<and>
     \<not> IsPrivateIP (v4InV6Prefix @ [93, 184, 216, 34])"
proof -
  have e: "map_option (\<lambda>(r, w). (r, w_sent w)) (HTTPFetchTool_Execute False rebindEnv plainInput (\<lambda>o1. Inr (fo_Body o1)) ''93.184.216.34'' freshWorld) =
    Some (Inr [], [(DialIP (v4InV6Prefix @ [93, 184, 216, 34]) ''80'', \<lparr>hop_Method = ''GET'',
       hop_URL = \<lparr>u_Scheme = ''http'', u_Hostname = ''93.184.216.34'', u_Port = []\<rparr>, hop_Body = []\<rparr>)])"
    by code_simp
  from http_fetch_tool_safe[of False rebindEnv plainInput "\<lambda>o1. Inr (fo_Body o1)" "''93.184.216.34''" freshWorld] e
  show ?thesis by (auto simp: freshWorld_def publicTarget_def)
qed

text \<open>
  C1. A webhook tool always returns, and each of the at most ten requests it sends goes over a connection to an address
  outside the private ranges, or to loopback when that is allowed. The targets of redirects are not validated: the dial
  function alone protects them.
\<close>

theorem webhook_tool_safe:
  "\<exists>r w' new. WebhookTool_Execute webhookURL headers al env unmarshal marshal input w = Some (r, w') \<and>
     w_sent w' = w_sent w @ new \<and> length new \<le> 10 \<and> (\<forall>(t, h)\<in>set new. publicTarget al t)"
proof -
  let ?hdr = "setHeaders headers [(''Content-Type'', ''application/json'')]"
  let ?do = "\<lambda>u b. clientDo env (roundTrip env (\<lambda>u. None) (webhook_DialContext al env) ?hdr) defaultCheckRedirect 11 []
    \<lparr>hop_Method = ''POST'', hop_URL = u, hop_Body = b\<rparr> (w\<lparr>w_idle := []\<rparr>)"
  have sent: "\<exists>x w2 new. ?do u b = Some (x, w2) \<and> w_sent w2 = w_sent w @ new \<and> length new \<le> 10 \<and>
      (\<forall>(t, h)\<in>set new. publicTarget al t)" for u b
  proof -
    obtain x w2 where c: "?do u b = Some (x, w2)"
      using webhook_client.clientDo_returns[of 11 "[]"] by fastforce
    have "idleOk (publicTarget al) (w\<lparr>w_idle := []\<rparr>)" by (simp add: idleOk_def mget_def)
    from webhook_client.clientDo_sent[OF c this] c show ?thesis by auto
  qed
  show ?thesis
  proof (cases "\<exists>u b. e_parseURL env webhookURL = Inr u \<and> u_Scheme u \<in> {''http'', ''https''} \<and>
      marshal (JObj [(''input'', webhookArgs unmarshal input)]) = Inr b")
    case False
    then show ?thesis by (auto simp: WebhookTool_Execute_def split: sum.splits)
  next
    case True
    then obtain u b where ub: "e_parseURL env webhookURL = Inr u" "u_Scheme u \<in> {''http'', ''https''}"
      "marshal (JObj [(''input'', webhookArgs unmarshal input)]) = Inr b" by blast
    obtain x w2 new where "?do u b = Some (x, w2)" "w_sent w2 = w_sent w @ new" "length new \<le> 10"
      "\<forall>(t, h)\<in>set new. publicTarget al t" using sent by blast
    with ub show ?thesis by (cases x) (auto simp: WebhookTool_Execute_def split: sum.splits)
  qed
qed

subsection \<open>Behaviours worth knowing\<close>

text \<open>The unspecified IPv6 address passes the default fetcher and is dialled, which reaches the local system.\<close>

lemma unspecified_v6_dialled:
  "map_option w_sent (runCalls (NewHTTPFetcher []) rebindEnv Some [CallFetch ''::''] freshWorld) =
     Some [(DialIP (replicate 16 0) ''80'', \<lparr>hop_Method = ''GET'',
       hop_URL = \<lparr>u_Scheme = ''http'', u_Hostname = ''::'', u_Port = []\<rparr>, hop_Body = []\<rparr>)]"
  by code_simp

text \<open>A blocked domain written with the final dot of an absolute name is not blocked.\<close>

lemma blocklist_trailing_dot:
  "checkDomainFilters (NewHTTPFetcher [WithBlocklist [''evil.com'']]) ''EVIL.com'' = Some (Blocklisted ''evil.com'')"
  "checkDomainFilters (NewHTTPFetcher [WithBlocklist [''evil.com'']]) ''evil.com.'' = None"
  by code_simp+

lemma lastColon_snoc: "CHR '':'' \<notin> set p \<Longrightarrow> lastColon (h @ CHR '':'' # p) = Some (h, p)"
proof (induction h)
  case Nil
  then have "lastColon p = None" by (induction p) auto
  then show ?case by simp
qed simp

text \<open>A joined address is split into the parts it was made of: the dial function checks the host of the URL.\<close>

lemma SplitHostPort_JoinHostPort:
  assumes "CHR '':'' \<notin> set port" "set (host @ port) \<inter> {CHR ''['', CHR '']''} = {}"
  shows "SplitHostPort (JoinHostPort host port) = Inr (host, port)"
proof (cases "CHR '':'' \<in> set host")
  case True
  let ?s = "CHR ''['' # host @ '']:'' @ port"
  have "lastColon ?s = Some (CHR ''['' # host @ '']'', port)"
    using lastColon_snoc[OF assms(1), of "CHR ''['' # host @ '']''"] by simp
  moreover have tw: "takeWhile (\<lambda>c. c \<noteq> CHR '']'') ?s = CHR ''['' # host"
    using assms(2) by (auto simp: takeWhile_append takeWhile_eq_all_conv)
  ultimately show ?thesis using True assms by (auto simp: JoinHostPort_def SplitHostPort_def Let_def)
next
  case False
  with lastColon_snoc[OF assms(1), of host] assms show ?thesis
    by (cases host) (auto simp: JoinHostPort_def SplitHostPort_def)
qed

text \<open>The HTTP tools register at their clearances: arbitrary requests need an administrator.\<close>

lemma RegisterHTTPTools_clearance:
  assumes "\<forall>n. tl_Handler (base n) \<noteq> None" "RegisterHTTPTools base [] = (e, reg)"
  shows "e = None \<and> map_option tl_MinClearance (Tool_Get reg ''http_request'') = Some ClearanceAdmin \<and>
    map_option tl_MinClearance (Tool_Get reg ''fetch_url'') = Some ClearanceInternal"
proof -
  have h: "(tl_Handler (base n) = None) = False" for n using assms(1) by simp
  have "mget [] k = None" for k :: string by (simp add: mget_def)
  with assms(2) show ?thesis
    by (simp add: RegisterHTTPTools_def httpTools_def Tool_Register_def Tool_Get_def mget_mput h) (auto simp: mget_mput)
qed

subsection \<open>No tag survives the conversion\<close>

text \<open>A tag: an opening bracket, at least one character other than a closing one, and a closing bracket.\<close>

definition hasTag :: "string \<Rightarrow> bool" where
  "hasTag s \<longleftrightarrow> (\<exists>a b c. s = a @ CHR ''<'' # b @ CHR ''>'' # c \<and> b \<noteq> [] \<and> CHR ''>'' \<notin> set b)"

lemma hasTag_Cons:
  assumes "hasTag (c # s)" "\<not> hasTag s"
  shows "c = CHR ''<'' \<and> (\<exists>b d. s = b @ CHR ''>'' # d \<and> b \<noteq> [] \<and> CHR ''>'' \<notin> set b)"
proof -
  from assms(1) obtain a b d where *: "c # s = a @ CHR ''<'' # b @ CHR ''>'' # d" "b \<noteq> []" "CHR ''>'' \<notin> set b"
    unfolding hasTag_def by blast
  show ?thesis
  proof (cases a)
    case Nil
    with * show ?thesis by auto
  next
    case (Cons x a')
    with * have "hasTag s" unfolding hasTag_def by auto
    with assms(2) show ?thesis by blast
  qed
qed

lemma firstSome_None: "firstSome f xs = None \<longleftrightarrow> (\<forall>x\<in>set xs. f x = None)"
  by (induction xs) (auto split: option.split)

lemma matchAt_reTag_None:
  assumes "matchAt reTag (c # s) = None" "c = CHR ''<''" "s = d # s'" "d \<noteq> CHR ''>''"
  shows "CHR ''>'' \<notin> set s"
proof
  assume gt: "CHR ''>'' \<in> set s"
  let ?k = "length (takeWhile notGT s)"
  have d: "drop ?k s = dropWhile notGT s" by (metis dropWhile_eq_drop)
  from gt have "dropWhile notGT s \<noteq> []" by (auto simp: dropWhile_eq_Nil_conv notGT_def)
  then obtain r where r: "drop ?k s = CHR ''>'' # r"
    using d hd_dropWhile[of notGT s] by (cases "dropWhile notGT s") (auto simp: notGT_def)
  have "?k \<in> set (repCounts True 1 None notGT s)" using assms(3,4) by (auto simp: repCounts_def notGT_def)
  moreover have "firstSome (\<lambda>k. matchAtoms [ALit [''>'']] (rev (take k s) @ ''<'') (drop k s) ([], [])) (repCounts True 1 None notGT s) = None"
    using assms(1,2) by (simp add: matchAt_def reTag_def word1_def split: option.splits)
  ultimately have "matchAtoms [ALit [''>'']] (rev (take ?k s) @ ''<'') (drop ?k s) ([], []) = None"
    unfolding firstSome_None by blast
  with r show False by simp
qed

lemma dropAll_Nil [simp]: "dropAll r [] = []"
  by (simp add: dropAll_def replaceAllFunc.simps)

lemma dropAll_Cons:
  "dropAll r (c # cs) =
     (case matchAt r (c # cs) of None \<Rightarrow> c # dropAll r cs | Some (n, g) \<Rightarrow> dropAll r (drop (max 1 n) (c # cs)))"
  unfolding dropAll_def by (subst replaceAllFunc.simps) (simp split: option.split)

lemma dropAll_set: "set (dropAll r s) \<subseteq> set s"
proof (induction "length s" arbitrary: s rule: less_induct)
  case less
  show ?case
  proof (cases s)
    case (Cons c cs)
    have 1: "set (dropAll r cs) \<subseteq> set cs" using less[of cs] Cons by simp
    have 2: "set (dropAll r (drop (max 1 n) s)) \<subseteq> set s" for n
      using less[of "drop (max 1 n) s"] Cons set_drop_subset[of "max 1 n" s] by fastforce
    show ?thesis using 1 2 unfolding Cons dropAll_Cons by (auto split: option.splits)
  qed simp
qed

lemma dropAll_reTag_clean: "\<not> hasTag (dropAll reTag s)"
proof (induction "length s" arbitrary: s rule: less_induct)
  case less
  show ?case
  proof (cases s)
    case Nil
    then show ?thesis by (simp add: hasTag_def)
  next
    case (Cons c cs)
    show ?thesis
    proof (cases "matchAt reTag s")
      case (Some x)
      obtain n g where "x = (n, g)" by (cases x)
      with Some less[of "drop (max 1 n) s"] show ?thesis by (simp add: Cons dropAll_Cons)
    next
      case None
      have ih: "\<not> hasTag (dropAll reTag cs)" using less[of cs] Cons by simp
      have "dropAll reTag s = c # dropAll reTag cs" using None by (simp add: Cons dropAll_Cons)
      moreover have "\<not> hasTag (c # dropAll reTag cs)"
      proof
        assume "hasTag (c # dropAll reTag cs)"
        from hasTag_Cons[OF this ih] obtain b d where c: "c = CHR ''<''"
          and b: "dropAll reTag cs = b @ CHR ''>'' # d" "b \<noteq> []" "CHR ''>'' \<notin> set b" by blast
        then have gt: "CHR ''>'' \<in> set cs" using dropAll_set[of reTag cs] by auto
        then obtain e es where cs: "cs = e # es" by (cases cs) auto
        show False
        proof (cases "e = CHR ''>''")
          case True
          then have "matchAt reTag cs = None" by (simp add: cs matchAt_def reTag_def word1_def)
          then have "dropAll reTag cs = CHR ''>'' # dropAll reTag es" using True by (simp add: cs dropAll_Cons)
          with b show False by (cases b) auto
        next
          case False
          with matchAt_reTag_None[OF None[unfolded Cons] c cs] gt show False by blast
        qed
      qed
      ultimately show ?thesis by simp
    qed
  qed
qed

text \<open>
  C1. Before the entities are decoded, the text made from an HTML page contains no tag: no opening bracket is followed by
  characters and a closing bracket, whatever the page is made of.
\<close>

theorem convertMarkup_no_tags: "\<not> hasTag (convertMarkup html)"
  unfolding convertMarkup_def Let_def by (rule dropAll_reTag_clean)

end
