(* ===== verification/Cursor_Paging.thy ===== *)
theory Cursor_Paging
  imports AgentOS_Prelude
begin

text \<open>
  Listings paged by a cursor: the client sends the key of the last element it received and gets the elements with larger
  keys, at most a page of them, and whether there are more. Several endpoints of the server work this way; the locale
  states their contract, and the lemma in it that a client following the cursor sees every element exactly once.
\<close>

fun followCursor :: "('k \<Rightarrow> 'a list \<times> bool) \<Rightarrow> ('a \<Rightarrow> 'k) \<Rightarrow> nat \<Rightarrow> 'k \<Rightarrow> 'a list" where
  "followCursor page key 0 c = []"
| "followCursor page key (Suc n) c =
     (case page c of (xs, hm) \<Rightarrow> if hm then xs @ followCursor page key n (key (last xs)) else xs)"

lemma dropWhile_sorted: "sorted (map f xs) \<Longrightarrow> dropWhile (\<lambda>x. f x \<le> (c :: 'a :: linorder)) xs = filter (\<lambda>x. c < f x) xs"
proof (induction xs)
  case (Cons x xs)
  show ?case
  proof (cases "f x \<le> c")
    case False
    then have "\<forall>y\<in>set (x # xs). c < f y" using Cons.prems by auto
    then show ?thesis using False by simp
  qed (use Cons in simp)
qed simp

lemma filter_after_nth:
  fixes f :: "'b \<Rightarrow> 'a :: linorder"
  assumes "sorted_wrt (<) (map f xs)" "0 < k" "k < length xs"
  shows "filter (\<lambda>x. f (xs ! (k - 1)) < f x) xs = drop k xs"
proof -
  have lt: "f (xs ! i) < f (xs ! j)" if "i < j" "j < length xs" for i j
    using sorted_wrt_nth_less[OF assms(1), of i j] that by simp
  have "f x \<le> f (xs ! (k - 1))" if "x \<in> set (take k xs)" for x
  proof -
    from that obtain i where i: "i < k" "x = xs ! i" by (auto simp: in_set_conv_nth)
    show ?thesis
    proof (cases "i = k - 1")
      case False
      with i assms have "f (xs ! i) < f (xs ! (k - 1))" by (intro lt) auto
      with i show ?thesis by simp
    qed (use i in simp)
  qed
  then have "filter (\<lambda>x. f (xs ! (k - 1)) < f x) (take k xs) = []" by (auto simp: filter_empty_conv not_less)
  moreover have "filter (\<lambda>x. f (xs ! (k - 1)) < f x) (drop k xs) = drop k xs"
    using lt assms by (auto simp: filter_id_conv in_set_conv_nth)
  ultimately show ?thesis by (metis append_take_drop_id filter_append append_Nil)
qed

locale cursor_paging =
  fixes page :: "'k :: linorder \<Rightarrow> 'a list \<times> bool" and key :: "'a \<Rightarrow> 'k" and items :: "'a list" and k :: nat and start :: 'k
  assumes page_size: "0 < k"
    and keys_sorted: "sorted (map key items)"
    and page_start: "page start = (take k items, k < length items)"
    and page_next: "c \<noteq> start \<Longrightarrow>
      page c = (take k (filter (\<lambda>x. c < key x) items), k < length (filter (\<lambda>x. c < key x) items))"
begin

lemma next_cursor:
  assumes "sorted_wrt (<) (map key F)" "k < length F"
  shows "filter (\<lambda>x. key (last (take k F)) < key x) F = drop k F" "last (take k F) \<in> set F"
proof -
  have lst: "last (take k F) = F ! (k - 1)" using page_size assms(2) by (subst last_conv_nth) auto
  then show "filter (\<lambda>x. key (last (take k F)) < key x) F = drop k F" using filter_after_nth[OF assms(1) page_size assms(2)] by simp
  show "last (take k F) \<in> set F" using lst assms(2) by simp
qed

lemma follow_from:
  assumes "distinct (map key items)" "\<forall>x\<in>set items. key x \<noteq> start" "c \<noteq> start" "length (filter (\<lambda>x. c < key x) items) < n"
  shows "followCursor page key n c = filter (\<lambda>x. c < key x) items"
  using assms(3,4)
proof (induction n arbitrary: c)
  case (Suc n)
  define F where "F = filter (\<lambda>x. c < key x) items"
  have page: "page c = (take k F, k < length F)" using Suc.prems by (simp add: page_next F_def)
  show ?case
  proof (cases "k < length F")
    case False
    then show ?thesis by (simp add: page flip: F_def)
  next
    case True
    have srt: "sorted_wrt (<) (map key F)" using keys_sorted assms(1) 
      by (auto simp: F_def strict_sorted_iff sorted_filter distinct_map_filter)
    note nc = next_cursor[OF srt True]
    have "c < key (last (take k F))" using nc(2) by (simp add: F_def)
    then have "filter (\<lambda>x. key (last (take k F)) < key x) items = filter (\<lambda>x. key (last (take k F)) < key x) F"
      unfolding F_def by (auto simp: filter_filter intro!: filter_cong)
    then have nxt: "filter (\<lambda>x. key (last (take k F)) < key x) items = drop k F" using nc(1) by simp
    moreover have "key (last (take k F)) \<noteq> start" using nc(2) assms(2) by (auto simp: F_def)
    moreover have "length (drop k F) < n" using Suc.prems(2) page_size True by (simp flip: F_def)
    ultimately show ?thesis using Suc.IH[of "key (last (take k F))"] True by (simp add: page flip: F_def)
  qed
qed simp

lemma follow_all:
  assumes "distinct (map key items)" "\<forall>x\<in>set items. key x \<noteq> start" "length items < n"
  shows "followCursor page key n start = items"
proof (cases n)
  case (Suc m)
  show ?thesis
  proof (cases "k < length items")
    case True
    have srt: "sorted_wrt (<) (map key items)" using keys_sorted assms(1) by (simp add: strict_sorted_iff)
    note nc = next_cursor[OF srt True]
    have "followCursor page key m (key (last (take k items))) = drop k items"
      using follow_from[OF assms(1,2), of "key (last (take k items))" m] nc assms(2,3) Suc page_size True by auto
    then show ?thesis using True by (simp add: Suc page_start)
  qed (simp add: Suc page_start)
qed (use assms(3) in simp)

end

end
