(* ===== verification/Agent_Versions.thy ===== *)
theory Agent_Versions
  imports Run_Handlers Cursor_Paging
begin

text \<open>
  Agents and their version history: the in-memory snapshot store (internal/storage/postgres/agent_version_store.go) and the
  agent handlers of agentorchestrator/server.go, from listing to rollback.

  \<^item> \<open>agentService\<close> is the part of the server the handlers change: the server of \<open>Run_Handlers\<close> and the snapshot store.
  \<^item> A request makes several store calls; \<open>ctxs i\<close> is the state of the request context at the i-th of them.
  \<^item> A snapshot holds the encoded configuration; \<open>codec\<close> is the pair of json.Marshal and json.Unmarshal on it.
  \<^item> Shown: the snapshot store stays bounded with increasing identifiers; the history of an agent is the list of its
    configurations, and a rollback appends an earlier one (\<open>rollback_history\<close>); listing pages through all agents.
\<close>

subsection \<open>The snapshot store\<close>

record agentVersion =
  av_ID :: int
  av_TenantID :: string
  av_AgentID :: string
  av_Version :: string
  av_Config :: string
  av_CreatedBy :: string
  av_CreatedAt :: string

record versionStore =
  vs_versions :: "(string, agentVersion list) gomap"
  vs_nextID :: int

definition maxVersionsPerAgent :: nat where "maxVersionsPerAgent = 1000"

definition NewMemoryAgentVersionStore :: versionStore where
  "NewMemoryAgentVersionStore = \<lparr>vs_versions = [], vs_nextID = 1\<rparr>"

definition agentVersionKey :: "string \<Rightarrow> string \<Rightarrow> string" where
  "agentVersionKey tenantID agentID = tenantID @ ''/'' @ agentID"

datatype versionErr = VsCtx string | VsRequired

definition CreateSnapshot ::
  "string option \<Rightarrow> string \<Rightarrow> string \<Rightarrow> string \<Rightarrow> string \<Rightarrow> string \<Rightarrow> string \<Rightarrow> versionStore \<Rightarrow> versionErr option \<times> versionStore" where
  "CreateSnapshot ctx now tenantID agentID version createdBy config s =
     (case ctx of Some e \<Rightarrow> (Some (VsCtx e), s)
      | None \<Rightarrow>
          if tenantID = [] \<or> agentID = [] \<or> version = [] then (Some VsRequired, s)
          else
            (let key = agentVersionKey tenantID agentID;
                 av = \<lparr>av_ID = vs_nextID s, av_TenantID = tenantID, av_AgentID = agentID, av_Version = version, av_Config = config,
                       av_CreatedBy = createdBy, av_CreatedAt = now\<rparr>;
                 versions = zget [] (vs_versions s) key @ [av];
                 versions' = (if length versions > maxVersionsPerAgent then drop (length versions - maxVersionsPerAgent) versions else versions) in
             (None, s\<lparr>vs_nextID := vs_nextID s + 1, vs_versions := mput key versions' (vs_versions s)\<rparr>)))"

definition ListVersions ::
  "string option \<Rightarrow> string \<Rightarrow> string \<Rightarrow> int \<Rightarrow> int \<Rightarrow> versionStore \<Rightarrow> versionErr + agentVersion list \<times> bool" where
  "ListVersions ctx tenantID agentID limit0 afterID s =
     (case ctx of Some e \<Rightarrow> Inl (VsCtx e)
      | None \<Rightarrow>
          if tenantID = [] \<or> agentID = [] then Inr ([], False)
          else
            (let limit = (if limit0 \<le> 0 then 20 else if limit0 > 200 then 200 else limit0);
                 filtered = sort_key av_ID (filter (\<lambda>v. av_ID v > afterID) (zget [] (vs_versions s) (agentVersionKey tenantID agentID)));
                 hasMore = int (length filtered) > limit in
             Inr (if hasMore then take (nat limit) filtered else filtered, hasMore)))"

definition GetVersion :: "string option \<Rightarrow> string \<Rightarrow> string \<Rightarrow> string \<Rightarrow> versionStore \<Rightarrow> versionErr + agentVersion option" where
  "GetVersion ctx tenantID agentID version s =
     (case ctx of Some e \<Rightarrow> Inl (VsCtx e)
      | None \<Rightarrow>
          if tenantID = [] \<or> agentID = [] \<or> version = [] then Inr None
          else Inr (find (\<lambda>v. av_Version v = version) (rev (zget [] (vs_versions s) (agentVersionKey tenantID agentID)))))"

definition CountVersions :: "string option \<Rightarrow> string \<Rightarrow> string \<Rightarrow> versionStore \<Rightarrow> versionErr + int" where
  "CountVersions ctx tenantID agentID s =
     (case ctx of Some e \<Rightarrow> Inl (VsCtx e)
      | None \<Rightarrow>
          if tenantID = [] \<or> agentID = [] then Inr 0
          else Inr (int (length (zget [] (vs_versions s) (agentVersionKey tenantID agentID)))))"

subsection \<open>The agent handlers\<close>

record agentService =
  asv_srv :: server
  asv_versions :: versionStore

record configCodec =
  cc_marshal :: "agentConfig option \<Rightarrow> string + string"
  cc_unmarshal :: "string \<Rightarrow> string + agentConfig"

record agentCreateRequest =
  acr_AgentID :: string
  acr_Name :: string
  acr_Description :: string
  acr_Config :: "agentConfig option"

record agentUpdateRequest =
  aur_Name :: string
  aur_Description :: string
  aur_Config :: "agentConfig option"

definition agentLookupFailed :: httpError where
  "agentLookupFailed = httpxError 500 ''agent_lookup_failed'' ''failed to load agent'' True"

definition agentNotFound :: httpError where
  "agentNotFound = httpxError 404 ''not_found'' ''agent not found'' False"

definition handleAgentList ::
  "(nat \<Rightarrow> string option) \<Rightarrow> (string \<Rightarrow> string) \<Rightarrow> string \<Rightarrow> agentService \<Rightarrow> (agent list \<times> bool) resp" where
  "handleAgentList ctxs query tenantID s =
     (let limit = listLimit (query ''limit''); after = query ''after'' in
      case Agent_List (ctxs 0) tenantID (sv_agents (asv_srv s)) of
        Inl _ \<Rightarrow> RErr (httpxError 500 ''agent_list_failed'' ''failed to list agents'' True)
      | Inr agents0 \<Rightarrow>
          (let agents1 = sort_key ag_AgentID agents0;
               agents2 = (if after \<noteq> [] then dropWhile (\<lambda>a. ag_AgentID a \<le> after) agents1 else agents1);
               hasMore = int (length agents2) > limit in
           ROk 200 (if hasMore then take (nat limit) agents2 else agents2, hasMore)))"

definition handleAgentGet :: "(nat \<Rightarrow> string option) \<Rightarrow> string \<Rightarrow> string \<Rightarrow> agentService \<Rightarrow> agent resp" where
  "handleAgentGet ctxs tenantID agentID s =
     (case Agent_Get (ctxs 0) tenantID agentID (sv_agents (asv_srv s)) of
        Inl _ \<Rightarrow> RErr agentLookupFailed
      | Inr None \<Rightarrow> RErr agentNotFound
      | Inr (Some a) \<Rightarrow> ROk 200 a)"

text \<open>The expression \<open>^[a-zA-Z0-9_-]{3,64}$\<close>.\<close>

definition agentIDChar :: "char \<Rightarrow> bool" where
  "agentIDChar c \<longleftrightarrow>
     (let n = of_char c :: nat in
      97 \<le> n \<and> n \<le> 122 \<or> 65 \<le> n \<and> n \<le> 90 \<or> 48 \<le> n \<and> n \<le> 57 \<or> c = CHR ''_'' \<or> c = CHR ''-'')"

definition validAgentID :: "string \<Rightarrow> bool" where
  "validAgentID s \<longleftrightarrow> 3 \<le> length s \<and> length s \<le> 64 \<and> list_all agentIDChar s"

definition invalidJSON :: httpError where
  "invalidJSON = httpxError 400 ''invalid_json'' ''invalid json body'' False"

definition nameInvalid :: httpError where
  "nameInvalid = httpxError 400 ''invalid_request'' ''name is required and must be 1-256 characters'' False"

definition validName :: "string \<Rightarrow> bool" where "validName n \<longleftrightarrow> n \<noteq> [] \<and> length n \<le> 256"

definition setAgents :: "fileAgentStore \<Rightarrow> agentService \<Rightarrow> agentService" where
  "setAgents st s = s\<lparr>asv_srv := (asv_srv s)\<lparr>sv_agents := st\<rparr>\<rparr>"

text \<open>A snapshot under the given label; a failure is logged and otherwise ignored.\<close>

definition recordSnapshot :: "reqEnv \<Rightarrow> string option \<Rightarrow> string \<Rightarrow> string \<Rightarrow> string \<Rightarrow> string \<Rightarrow> agentService \<Rightarrow> agentService" where
  "recordSnapshot env ctx tenantID agentID label config s =
     s\<lparr>asv_versions := snd (CreateSnapshot ctx (re_now env) tenantID agentID label (re_principal env) config (asv_versions s))\<rparr>"

definition recordNextSnapshot :: "reqEnv \<Rightarrow> (nat \<Rightarrow> string option) \<Rightarrow> nat \<Rightarrow> string \<Rightarrow> string \<Rightarrow> string \<Rightarrow> agentService \<Rightarrow> agentService" where
  "recordNextSnapshot env ctxs i tenantID agentID config s =
     (case CountVersions (ctxs i) tenantID agentID (asv_versions s) of
        Inl _ \<Rightarrow> s
      | Inr n \<Rightarrow> recordSnapshot env (ctxs (Suc i)) tenantID agentID (''v'' @ Itoa (n + 1)) config s)"

definition handleAgentCreate ::
  "reqEnv \<Rightarrow> (nat \<Rightarrow> string option) \<Rightarrow> configCodec \<Rightarrow> string \<Rightarrow> string + agentCreateRequest \<Rightarrow> agentService \<Rightarrow> agent resp \<times> agentService" where
  "handleAgentCreate env ctxs codec tenantID body s =
     (case body of Inl _ \<Rightarrow> (RErr invalidJSON, s)
      | Inr req \<Rightarrow>
          if acr_AgentID req = [] \<or> \<not> validAgentID (acr_AgentID req)
          then (RErr (httpxError 400 ''invalid_request'' ''agent_id must be 3-64 alphanumeric/hyphen/underscore characters'' False), s)
          else if \<not> validName (acr_Name req) then (RErr nameInvalid, s)
          else
            (let a = \<lparr>ag_AgentID = acr_AgentID req, ag_TenantID = tenantID, ag_Name = acr_Name req, ag_Description = acr_Description req,
                      ag_Version = ''1'', ag_Status = ''active'', ag_Config = acr_Config req, ag_CreatedAt = re_now env, ag_UpdatedAt = re_now env\<rparr> in
             case Agent_Create (ctxs 0) (re_io env) a (sv_agents (asv_srv s)) of
               (Some ErrAgentExists, st) \<Rightarrow> (RErr (httpxError 409 ''conflict'' ''agent already exists'' False), setAgents st s)
             | (Some _, st) \<Rightarrow> (RErr (httpxError 500 ''agent_create_failed'' ''failed to create agent'' True), setAgents st s)
             | (None, st) \<Rightarrow>
                 (ROk 201 a,
                  (case cc_marshal codec (ag_Config a) of
                     Inl _ \<Rightarrow> setAgents st s
                   | Inr cfg \<Rightarrow> recordSnapshot env (ctxs 1) tenantID (ag_AgentID a) ''v1'' cfg (setAgents st s)))))"

text \<open>The next version of an agent; a version that is no number counts as 0.\<close>

definition bumpVersion :: "agent \<Rightarrow> string" where
  "bumpVersion a = Itoa ((case Atoi (ag_Version a) of Some n \<Rightarrow> n | None \<Rightarrow> 0) + 1)"

definition agentUpdateFailed :: httpError where
  "agentUpdateFailed = httpxError 500 ''agent_update_failed'' ''failed to update agent'' True"

definition handleAgentUpdate ::
  "reqEnv \<Rightarrow> (nat \<Rightarrow> string option) \<Rightarrow> configCodec \<Rightarrow> string \<Rightarrow> string \<Rightarrow> string + agentUpdateRequest \<Rightarrow> agentService \<Rightarrow> agent resp \<times> agentService" where
  "handleAgentUpdate env ctxs codec tenantID agentID body s =
     (case Agent_Get (ctxs 0) tenantID agentID (sv_agents (asv_srv s)) of
        Inl _ \<Rightarrow> (RErr agentLookupFailed, s)
      | Inr None \<Rightarrow> (RErr agentNotFound, s)
      | Inr (Some a0) \<Rightarrow>
          (case body of Inl _ \<Rightarrow> (RErr invalidJSON, s)
           | Inr req \<Rightarrow>
               if \<not> validName (aur_Name req) then (RErr nameInvalid, s)
               else
                 (let a = a0\<lparr>ag_Version := bumpVersion a0, ag_Name := aur_Name req, ag_Description := aur_Description req,
                             ag_Config := aur_Config req, ag_UpdatedAt := re_now env\<rparr> in
                  case Agent_Save (ctxs 1) (re_io env) a (sv_agents (asv_srv s)) of
                    (Some _, st) \<Rightarrow> (RErr agentUpdateFailed, setAgents st s)
                  | (None, st) \<Rightarrow>
                      (ROk 200 a,
                       (case cc_marshal codec (ag_Config a) of
                          Inl _ \<Rightarrow> setAgents st s
                        | Inr cfg \<Rightarrow> recordNextSnapshot env ctxs 2 tenantID (ag_AgentID a) cfg (setAgents st s))))))"

definition handleAgentDelete ::
  "reqEnv \<Rightarrow> (nat \<Rightarrow> string option) \<Rightarrow> string \<Rightarrow> string \<Rightarrow> agentService \<Rightarrow> unit resp \<times> agentService" where
  "handleAgentDelete env ctxs tenantID agentID s =
     (case Agent_Delete (ctxs 0) (re_io env) tenantID agentID (sv_agents (asv_srv s)) of
        (Some ErrAgentNotFound, st) \<Rightarrow> (RErr agentNotFound, setAgents st s)
      | (Some _, st) \<Rightarrow> (RErr (httpxError 500 ''agent_delete_failed'' ''failed to delete agent'' True), setAgents st s)
      | (None, st) \<Rightarrow> (ROk 204 (), setAgents st s))"

definition versionsLimit :: "string \<Rightarrow> int" where
  "versionsLimit v =
     (let limit = (if v \<noteq> [] then (case Atoi v of Some n \<Rightarrow> if n > 0 then n else 20 | None \<Rightarrow> 20) else 20) in
      if limit > 200 then 200 else limit)"

definition afterIDOf :: "string \<Rightarrow> int" where
  "afterIDOf v = (if v \<noteq> [] then (case Atoi v of Some n \<Rightarrow> if n > 0 then n else 0 | None \<Rightarrow> 0) else 0)"

definition handleAgentVersions ::
  "(nat \<Rightarrow> string option) \<Rightarrow> (string \<Rightarrow> string) \<Rightarrow> string \<Rightarrow> string \<Rightarrow> agentService \<Rightarrow> (agentVersion list \<times> bool) resp" where
  "handleAgentVersions ctxs query tenantID agentID s =
     (case Agent_Get (ctxs 0) tenantID agentID (sv_agents (asv_srv s)) of
        Inl _ \<Rightarrow> RErr agentLookupFailed
      | Inr None \<Rightarrow> RErr agentNotFound
      | Inr (Some _) \<Rightarrow>
          (case ListVersions (ctxs 1) tenantID agentID (versionsLimit (query ''limit'')) (afterIDOf (query ''after'')) (asv_versions s) of
             Inl _ \<Rightarrow> RErr (httpxError 500 ''version_list_failed'' ''failed to list versions'' True)
           | Inr page \<Rightarrow> ROk 200 page))"

definition activeRun :: "run \<Rightarrow> bool" where
  "activeRun r \<longleftrightarrow> run_Status r = ''running'' \<or> run_Status r = ''queued''"

text \<open>The configuration of a snapshot: an empty or null one is no configuration.\<close>

definition snapshotConfig :: "configCodec \<Rightarrow> string \<Rightarrow> string + agentConfig option" where
  "snapshotConfig codec cfg =
     (if cfg \<noteq> [] \<and> cfg \<noteq> ''null'' then (case cc_unmarshal codec cfg of Inl e \<Rightarrow> Inl e | Inr c \<Rightarrow> Inr (Some c)) else Inr None)"

definition handleAgentRollback ::
  "reqEnv \<Rightarrow> (nat \<Rightarrow> string option) \<Rightarrow> configCodec \<Rightarrow> string \<Rightarrow> string \<Rightarrow> string + string \<Rightarrow> agentService \<Rightarrow> agent resp \<times> agentService" where
  "handleAgentRollback env ctxs codec tenantID agentID body s =
     (case Agent_Get (ctxs 0) tenantID agentID (sv_agents (asv_srv s)) of
        Inl _ \<Rightarrow> (RErr agentLookupFailed, s)
      | Inr None \<Rightarrow> (RErr agentNotFound, s)
      | Inr (Some a0) \<Rightarrow>
          (case body of Inl _ \<Rightarrow> (RErr invalidJSON, s)
           | Inr version \<Rightarrow>
               if version = [] then (RErr (httpxError 400 ''invalid_request'' ''version is required'' False), s)
               else
                 (case GetVersion (ctxs 1) tenantID agentID version (asv_versions s) of
                    Inl _ \<Rightarrow> (RErr (httpxError 500 ''version_lookup_failed'' ''failed to look up version'' True), s)
                  | Inr None \<Rightarrow> (RErr (httpxError 404 ''version_not_found'' ''version not found'' False), s)
                  | Inr (Some snapshot) \<Rightarrow>
                      (case ListByAgent (ctxs 2) tenantID agentID 100 [] (sv_runs (asv_srv s)) of
                         Inl _ \<Rightarrow> (RErr (httpxError 500 ''run_check_failed'' ''failed to check running runs'' True), s)
                       | Inr runs \<Rightarrow>
                           if list_ex activeRun runs
                           then (RErr (httpxError 409 ''active_runs'' ''cannot rollback while runs are active'' False), s)
                           else
                             (case snapshotConfig codec (av_Config snapshot) of
                                Inl _ \<Rightarrow> (RErr (httpxError 500 ''config_parse_failed'' ''failed to parse snapshot config'' True), s)
                              | Inr cfg \<Rightarrow>
                                  (let a = a0\<lparr>ag_Version := bumpVersion a0, ag_Config := cfg, ag_UpdatedAt := re_now env\<rparr> in
                                   case Agent_Save (ctxs 3) (re_io env) a (sv_agents (asv_srv s)) of
                                     (Some _, st) \<Rightarrow> (RErr agentUpdateFailed, setAgents st s)
                                   | (None, st) \<Rightarrow>
                                       (ROk 200 a, recordNextSnapshot env ctxs 4 tenantID agentID (av_Config snapshot) (setAgents st s))))))))"

subsection \<open>Printed numbers\<close>

lemma digit_char: "d < 10 \<Longrightarrow> isDigit (char_of (48 + d :: nat)) \<and> of_char (char_of (48 + d :: nat)) = (48 + int d :: int)"
proof -
  assume "d < 10"
  moreover have "\<forall>d\<in>set [0..<10]. isDigit (char_of (48 + d :: nat)) \<and> of_char (char_of (48 + d :: nat)) = (48 + int d :: int)"
    by code_simp
  ultimately show ?thesis by simp
qed

lemma atoiDigits_append: "atoiDigits a (xs @ ys) = Option.bind (atoiDigits a xs) (\<lambda>b. atoiDigits b ys)"
  by (induction a xs rule: atoiDigits.induct) auto

lemma atoiDigits_natDigits: "n < f \<Longrightarrow> atoiDigits 0 (natDigits f n) = Some (int n)"
proof (induction f n rule: natDigits.induct)
  case (2 f n)
  show ?case
  proof (cases "n < 10")
    case True
    with digit_char[of n] show ?thesis by simp
  next
    case False
    with 2 have "atoiDigits 0 (natDigits f (n div 10)) = Some (int (n div 10))" by simp
    moreover have "int (n div 10) * 10 + int (n mod 10) = int n" by (metis div_mult_mod_eq of_nat_add of_nat_mult of_nat_numeral)
    ultimately show ?thesis using False digit_char[of "n mod 10"] by (simp add: atoiDigits_append)
  qed
qed simp

lemma natDigits_digits: "n < f \<Longrightarrow> natDigits f n \<noteq> [] \<and> list_all isDigit (natDigits f n)"
proof (induction f n rule: natDigits.induct)
  case (2 f n)
  then show ?case using digit_char[of n] digit_char[of "n mod 10"] by (cases "n < 10") auto
qed simp

lemma Atoi_Itoa: "0 \<le> n \<Longrightarrow> n < 2 ^ 63 \<Longrightarrow> Atoi (Itoa n) = Some n"
proof -
  assume n: "0 \<le> n" "n < 2 ^ 63"
  let ?d = "natDigits (Suc (nat n)) (nat n)"
  have d: "?d \<noteq> []" "list_all isDigit ?d" using natDigits_digits[of "nat n" "Suc (nat n)"] by simp_all
  then have "hd ?d \<noteq> CHR ''-''" "hd ?d \<noteq> CHR ''+''" by (cases ?d; auto simp: isDigit_def)+
  then show ?thesis using n d atoiDigits_natDigits[of "nat n" "Suc (nat n)"]
    by (cases ?d) (auto simp: Atoi_def Itoa_def simp del: natDigits.simps)
qed

lemma Itoa_inject: "0 \<le> m \<Longrightarrow> 0 \<le> n \<Longrightarrow> Itoa m = Itoa n \<longleftrightarrow> m = n"
proof
  assume mn: "0 \<le> m" "0 \<le> n" and eq: "Itoa m = Itoa n"
  have "natDigits (Suc (nat m)) (nat m) = natDigits (Suc (nat n)) (nat n)"
    using eq mn by (simp only: Itoa_def not_less if_False if_not_P)
  from arg_cong[OF this, of "atoiDigits 0"] have "int (nat m) = int (nat n)"
    by (simp only: atoiDigits_natDigits lessI option.inject)
  with mn show "m = n" by simp
qed simp

lemma Itoa_not_Nil: "0 \<le> n \<Longrightarrow> Itoa n \<noteq> []"
  using natDigits_digits[of "nat n" "Suc (nat n)"] by (simp add: Itoa_def del: natDigits.simps)

subsection \<open>The store stays bounded and ordered\<close>

definition versionsOk :: "versionStore \<Rightarrow> bool" where
  "versionsOk s \<longleftrightarrow> gwf (vs_versions s) \<and>
     (\<forall>k vs. mget (vs_versions s) k = Some vs \<longrightarrow>
        length vs \<le> maxVersionsPerAgent \<and> sorted_wrt (\<lambda>v w. av_ID v < av_ID w) vs \<and> (\<forall>v\<in>set vs. av_ID v < vs_nextID s))"

inductive version_step :: "versionStore \<Rightarrow> versionStore \<Rightarrow> bool" where
  "version_step s (snd (CreateSnapshot ctx now t a v who cfg s))"

inductive_cases version_stepE: "version_step s s'"

lemma zget_versions:
  assumes "versionsOk s"
  shows "length (zget [] (vs_versions s) k) \<le> maxVersionsPerAgent" "sorted_wrt (\<lambda>v w. av_ID v < av_ID w) (zget [] (vs_versions s) k)"
    "v \<in> set (zget [] (vs_versions s) k) \<Longrightarrow> av_ID v < vs_nextID s"
  using assms by (cases "mget (vs_versions s) k"; auto simp: versionsOk_def zget_def)+

lemma CreateSnapshot_ok:
  assumes "versionsOk s"
  shows "versionsOk (snd (CreateSnapshot ctx now t a v who cfg s))"
proof (cases "ctx = None \<and> t \<noteq> [] \<and> a \<noteq> [] \<and> v \<noteq> []")
  case False
  then show ?thesis using assms by (auto simp: CreateSnapshot_def split: option.splits)
next
  case True
  define k where "k = agentVersionKey t a"
  define av where "av = \<lparr>av_ID = vs_nextID s, av_TenantID = t, av_AgentID = a, av_Version = v, av_Config = cfg,
    av_CreatedBy = who, av_CreatedAt = now\<rparr>"
  define vs where "vs = zget [] (vs_versions s) k @ [av]"
  define vs' where "vs' = (if length vs > maxVersionsPerAgent then drop (length vs - maxVersionsPerAgent) vs else vs)"
  have e: "snd (CreateSnapshot ctx now t a v who cfg s) = s\<lparr>vs_nextID := vs_nextID s + 1, vs_versions := mput k vs' (vs_versions s)\<rparr>"
    using True by (simp add: CreateSnapshot_def Let_def k_def av_def vs_def vs'_def)
  have old: "\<forall>w\<in>set (zget [] (vs_versions s) k). av_ID w < vs_nextID s" using zget_versions(3)[OF assms] by blast
  then have "sorted_wrt (\<lambda>v w. av_ID v < av_ID w) vs" "\<forall>w\<in>set vs. av_ID w < vs_nextID s + 1"
    using zget_versions(2)[OF assms, of k] by (fastforce simp: vs_def av_def sorted_wrt_append)+
  then have new: "sorted_wrt (\<lambda>v w. av_ID v < av_ID w) vs'" "\<forall>w\<in>set vs'. av_ID w < vs_nextID s + 1" "length vs' \<le> maxVersionsPerAgent"
    by (auto simp: vs'_def sorted_wrt_drop dest: in_set_dropD)
  from assms have keep: "\<forall>j vs. mget (vs_versions s) j = Some vs \<longrightarrow> (\<forall>w\<in>set vs. av_ID w < vs_nextID s + 1)"
    by (fastforce simp: versionsOk_def)
  show ?thesis using assms new keep unfolding e versionsOk_def by (auto simp: mget_mput gwf_mput)
qed

interpretation version_sys: inv_system "\<lambda>s. s = NewMemoryAgentVersionStore" version_step versionsOk
proof unfold_locales
  fix s assume "s = NewMemoryAgentVersionStore"
  then show "versionsOk s" by (simp add: versionsOk_def NewMemoryAgentVersionStore_def mget_def gwf_def)
next
  fix s t assume "versionsOk s" "version_step s t"
  then show "versionsOk t" by (auto elim!: version_stepE intro: CreateSnapshot_ok)
qed

subsection \<open>The history of an agent\<close>

text \<open>The abstract view: the list of the configurations an agent has had, oldest first.\<close>

datatype agentOp = OpUpdate agentUpdateRequest | OpRollback nat

fun specOp :: "agentOp \<Rightarrow> agentConfig option list \<Rightarrow> agentConfig option list" where
  "specOp (OpUpdate r) h = (if validName (aur_Name r) then h @ [aur_Config r] else h)"
| "specOp (OpRollback k) h = (if 1 \<le> k \<and> k \<le> length h then h @ [h ! (k - 1)] else h)"

definition noCtx :: "nat \<Rightarrow> string option" where "noCtx i = None"

fun runOp :: "configCodec \<Rightarrow> string \<Rightarrow> string \<Rightarrow> reqEnv \<times> agentOp \<Rightarrow> agentService \<Rightarrow> agentService" where
  "runOp codec t i (env, OpUpdate r) s = snd (handleAgentUpdate env noCtx codec t i (Inr r) s)"
| "runOp codec t i (env, OpRollback k) s = snd (handleAgentRollback env noCtx codec t i (Inr (''v'' @ Itoa (int k))) s)"

definition roundTrips :: "configCodec \<Rightarrow> agentConfig option \<Rightarrow> bool" where
  "roundTrips codec c \<longleftrightarrow> (\<exists>b. cc_marshal codec c = Inr b \<and> snapshotConfig codec b = Inr c)"

abbreviation snapshots :: "agentService \<Rightarrow> string \<Rightarrow> string \<Rightarrow> agentVersion list" where
  "snapshots s t i \<equiv> zget [] (vs_versions (asv_versions s)) (agentVersionKey t i)"

text \<open>The server holds the history: the agent has its last configuration and as many versions as the history has
  entries, and the snapshots are the encoded entries under the labels v1, v2 and so on.\<close>

definition histRel :: "configCodec \<Rightarrow> string \<Rightarrow> string \<Rightarrow> agentService \<Rightarrow> agentConfig option list \<Rightarrow> bool" where
  "histRel codec t i s h \<longleftrightarrow> t \<noteq> [] \<and> i \<noteq> [] \<and> h \<noteq> [] \<and> length h \<le> maxVersionsPerAgent \<and>
     (\<exists>a. Agent_Get None t i (sv_agents (asv_srv s)) = Inr (Some a) \<and> ag_TenantID a = t \<and> ag_AgentID a = i \<and>
        ag_Config a = last h \<and> ag_Version a = Itoa (int (length h))) \<and>
     length (snapshots s t i) = length h \<and>
     (\<forall>j < length h. av_Version (snapshots s t i ! j) = ''v'' @ Itoa (int (Suc j)) \<and>
        cc_marshal codec (h ! j) = Inr (av_Config (snapshots s t i ! j)))"

definition quiet :: "string \<Rightarrow> string \<Rightarrow> agentService \<Rightarrow> bool" where
  "quiet t i s \<longleftrightarrow> (\<exists>rs. ListByAgent None t i 100 [] (sv_runs (asv_srv s)) = Inr rs \<and> \<not> list_ex activeRun rs)"

lemma CreateSnapshot_get:
  assumes "t \<noteq> []" "i \<noteq> []" "label \<noteq> []" "length (zget [] (vs_versions vs) (agentVersionKey t i)) < maxVersionsPerAgent"
  shows "\<exists>av. av_Version av = label \<and> av_Config av = cfg \<and>
    zget [] (vs_versions (snd (CreateSnapshot None now t i label who cfg vs))) (agentVersionKey t i) =
      zget [] (vs_versions vs) (agentVersionKey t i) @ [av]"
  using assms by (simp add: CreateSnapshot_def Let_def zget_def mget_mput)

lemma recordNextSnapshot_get:
  assumes "t \<noteq> []" "i \<noteq> []" "length (snapshots s t i) < maxVersionsPerAgent"
  shows "\<exists>av. av_Version av = ''v'' @ Itoa (int (length (snapshots s t i)) + 1) \<and> av_Config av = cfg \<and>
    snapshots (recordNextSnapshot env noCtx k t i cfg s) t i = snapshots s t i @ [av]"
  using assms CreateSnapshot_get[OF assms(1,2) _ assms(3)]
  by (simp add: recordNextSnapshot_def recordSnapshot_def noCtx_def CountVersions_def)

lemma Agent_Save_Get:
  assumes "validateAgent a"
  shows "\<exists>st. Agent_Save None None a s0 = (None, st) \<and> Agent_Get None (ag_TenantID a) (ag_AgentID a) st = Inr (Some a)"
  using assms by (simp add: Agent_Save_def Agent_Get_def persistAgent_def writeFile_def Let_def mget_mput validateAgent_def)

text \<open>The common step of an update and a rollback: save the agent with the new configuration, then its snapshot.\<close>

lemma histRel_extend:
  assumes r: "histRel codec t i s h" and len: "length h < maxVersionsPerAgent"
    and sv: "Agent_Save None None a (sv_agents (asv_srv s)) = (None, st)"
    and a: "ag_TenantID a = t" "ag_AgentID a = i" "ag_Config a = c" "ag_Version a = Itoa (int (Suc (length h)))"
    and c: "cc_marshal codec c = Inr b"
  shows "histRel codec t i (recordNextSnapshot env noCtx k t i b (setAgents st s)) (h @ [c])"
proof -
  let ?s = "recordNextSnapshot env noCtx k t i b (setAgents st s)"
  from r have ne: "t \<noteq> []" "i \<noteq> []" and l: "length (snapshots s t i) = length h"
    and old: "\<forall>j < length h. av_Version (snapshots s t i ! j) = ''v'' @ Itoa (int (Suc j)) \<and>
        cc_marshal codec (h ! j) = Inr (av_Config (snapshots s t i ! j))" by (auto simp: histRel_def)
  have "snapshots (setAgents st s) t i = snapshots s t i" by (simp add: setAgents_def)
  with recordNextSnapshot_get[OF ne, of "setAgents st s" b env k] l len obtain av where
    av: "av_Version av = ''v'' @ Itoa (int (length h) + 1)" "av_Config av = b" "snapshots ?s t i = snapshots s t i @ [av]" by auto
  have "validateAgent a" using a ne by (simp add: validateAgent_def)
  from Agent_Save_Get[OF this, of "sv_agents (asv_srv s)"] sv a have g: "Agent_Get None t i st = Inr (Some a)" by auto
  have "sv_agents (asv_srv ?s) = st"
    by (simp add: recordNextSnapshot_def recordSnapshot_def setAgents_def split: sum.split)
  moreover have "av_Version (snapshots ?s t i ! j) = ''v'' @ Itoa (int (Suc j)) \<and>
        cc_marshal codec ((h @ [c]) ! j) = Inr (av_Config (snapshots ?s t i ! j))" if "j < length (h @ [c])" for j
    using that old av c l by (cases "j < length h") (auto simp: nth_append less_Suc_eq add.commute)
  ultimately show ?thesis using ne len l a g av by (auto simp: histRel_def)
qed

lemma bumpVersion_Itoa: "ag_Version a = Itoa (int n) \<Longrightarrow> n \<le> maxVersionsPerAgent \<Longrightarrow> bumpVersion a = Itoa (int (Suc n))"
  by (simp add: bumpVersion_def Atoi_Itoa maxVersionsPerAgent_def add.commute)

lemma find_rev_unique:
  assumes "j < length xs" "P (xs ! j)" "\<And>k. k < length xs \<Longrightarrow> P (xs ! k) \<Longrightarrow> k = j"
  shows "find P (rev xs) = Some (xs ! j)"
proof -
  have "find P (rev xs) \<noteq> None" using assms(1,2) by (auto simp: find_None_iff in_set_conv_nth)
  then obtain x where x: "find P (rev xs) = Some x" by auto
  then have "x \<in> set xs" "P x" using find_Some_iff[of P "rev xs" x] nth_mem[of _ "rev xs"] by auto
  then obtain k where "k < length xs" "xs ! k = x" by (auto simp: in_set_conv_nth)
  with assms(3) x \<open>P x\<close> show ?thesis by auto
qed

lemma GetVersion_hist:
  assumes "histRel codec t i s h" "1 \<le> k"
  shows "GetVersion None t i (''v'' @ Itoa (int k)) (asv_versions s) =
    Inr (if k \<le> length h then Some (snapshots s t i ! (k - 1)) else None)"
proof -
  from assms have ne: "t \<noteq> []" "i \<noteq> []" and l: "length (snapshots s t i) = length h"
    and lab: "\<And>j. j < length h \<Longrightarrow> av_Version (snapshots s t i ! j) = ''v'' @ Itoa (int (Suc j))" by (auto simp: histRel_def)
  have eq: "av_Version (snapshots s t i ! j) = ''v'' @ Itoa (int k) \<longleftrightarrow> Suc j = k" if "j < length h" for j
    using lab[OF that] Itoa_inject[of "int (Suc j)" "int k"] by auto
  have "find (\<lambda>v. av_Version v = ''v'' @ Itoa (int k)) (rev (snapshots s t i)) =
      (if k \<le> length h then Some (snapshots s t i ! (k - 1)) else None)"
  proof (cases "k \<le> length h")
    case True
    have "find (\<lambda>v. av_Version v = ''v'' @ Itoa (int k)) (rev (snapshots s t i)) = Some (snapshots s t i ! (k - 1))"
      using True assms(2) l eq[of "k - 1"] eq by (intro find_rev_unique) fastforce+
    with True show ?thesis by simp
  next
    case False
    then show ?thesis using l eq by (auto simp: find_None_iff in_set_conv_nth)
  qed
  then show ?thesis using ne by (simp add: GetVersion_def)
qed

lemma snapshotConfig_marshal: "roundTrips codec c \<Longrightarrow> cc_marshal codec c = Inr b \<Longrightarrow> snapshotConfig codec b = Inr c"
  by (auto simp: roundTrips_def)

lemma runOp_hist:
  assumes r: "histRel codec t i s h" and len: "length h < maxVersionsPerAgent" and io: "re_io env = None" and q: "quiet t i s"
    and c: "\<forall>c\<in>set (specOp op h). roundTrips codec c"
  shows "histRel codec t i (runOp codec t i (env, op) s) (specOp op h)"
proof -
  from r obtain a0 where g: "Agent_Get None t i (sv_agents (asv_srv s)) = Inr (Some a0)" "ag_TenantID a0 = t" "ag_AgentID a0 = i"
    "ag_Version a0 = Itoa (int (length h))" and ne: "t \<noteq> []" "i \<noteq> []"
    and snap: "\<And>j. j < length h \<Longrightarrow> cc_marshal codec (h ! j) = Inr (av_Config (snapshots s t i ! j))"
    by (auto simp: histRel_def)
  have v: "bumpVersion a0 = Itoa (int (Suc (length h)))" using bumpVersion_Itoa[OF g(4)] len by simp
  have sv: "\<exists>st. Agent_Save None None a (sv_agents (asv_srv s)) = (None, st)" if "ag_TenantID a = t" "ag_AgentID a = i" for a
    using Agent_Save_Get[of a] that ne by (fastforce simp: validateAgent_def)
  show ?thesis
  proof (cases op)
    case (OpUpdate req)
    show ?thesis
    proof (cases "validName (aur_Name req)")
      case False
      then show ?thesis using r g by (simp add: OpUpdate handleAgentUpdate_def noCtx_def)
    next
      case True
      define a where "a = a0\<lparr>ag_Version := bumpVersion a0, ag_Name := aur_Name req, ag_Description := aur_Description req,
        ag_Config := aur_Config req, ag_UpdatedAt := re_now env\<rparr>"
      have a: "ag_TenantID a = t" "ag_AgentID a = i" "ag_Config a = aur_Config req" "ag_Version a = Itoa (int (Suc (length h)))"
        using g v by (simp_all add: a_def)
      obtain st where st: "Agent_Save None None a (sv_agents (asv_srv s)) = (None, st)" using sv[OF a(1,2)] by blast
      from c True obtain b where b: "cc_marshal codec (aur_Config req) = Inr b" by (auto simp: OpUpdate roundTrips_def)
      have "runOp codec t i (env, op) s = recordNextSnapshot env noCtx 2 t i b (setAgents st s)"
        using g True io st b a by (simp add: OpUpdate handleAgentUpdate_def noCtx_def Let_def flip: a_def)
      then show ?thesis using histRel_extend[OF r len st a b] True by (simp add: OpUpdate)
    qed
  next
    case (OpRollback k)
    note gv = GetVersion_hist[OF r, of k]
    show ?thesis
    proof (cases "1 \<le> k \<and> k \<le> length h")
      case False
      have "GetVersion None t i (''v'' @ Itoa (int k)) (asv_versions s) = Inr None"
      proof (cases "k = 0")
        case True
        from r have l: "length (snapshots s t i) = length h"
          and lab: "\<And>j. j < length h \<Longrightarrow> av_Version (snapshots s t i ! j) = ''v'' @ Itoa (int (Suc j))" by (auto simp: histRel_def)
        have "\<forall>x\<in>set (snapshots s t i). av_Version x \<noteq> ''v'' @ Itoa (int k)"
          using lab l Itoa_inject[of _ "int k"] True by (fastforce simp: in_set_conv_nth)
        then show ?thesis using ne by (auto simp: GetVersion_def find_None_iff)
      next
        case False
        then show ?thesis using gv \<open>\<not> (1 \<le> k \<and> k \<le> length h)\<close> by auto
      qed
      then show ?thesis using r g False by (auto simp: OpRollback handleAgentRollback_def noCtx_def)
    next
      case True
      let ?sn = "snapshots s t i ! (k - 1)" and ?c = "h ! (k - 1)"
      from True gv have gv': "GetVersion None t i (''v'' @ Itoa (int k)) (asv_versions s) = Inr (Some ?sn)" by simp
      from True have "?c \<in> set (specOp op h)" by (simp add: OpRollback)
      then have sc: "snapshotConfig codec (av_Config ?sn) = Inr ?c" and m: "cc_marshal codec ?c = Inr (av_Config ?sn)"
        using c snap[of "k - 1"] True snapshotConfig_marshal by auto
      from q obtain rs where rs: "ListByAgent None t i 100 [] (sv_runs (asv_srv s)) = Inr rs" "\<not> list_ex activeRun rs"
        by (auto simp: quiet_def)
      define a where "a = a0\<lparr>ag_Version := bumpVersion a0, ag_Config := ?c, ag_UpdatedAt := re_now env\<rparr>"
      have a: "ag_TenantID a = t" "ag_AgentID a = i" "ag_Config a = ?c" "ag_Version a = Itoa (int (Suc (length h)))"
        using g v by (simp_all add: a_def)
      obtain st where st: "Agent_Save None None a (sv_agents (asv_srv s)) = (None, st)" using sv[OF a(1,2)] by blast
      have "runOp codec t i (env, op) s = recordNextSnapshot env noCtx 4 t i (av_Config ?sn) (setAgents st s)"
        using g io st[unfolded a_def] gv' rs sc by (simp add: OpRollback handleAgentRollback_def noCtx_def Let_def)
      then show ?thesis using histRel_extend[OF r len st a m] True by (simp add: OpRollback)
    qed
  qed
qed

lemma runOp_runs: "sv_runs (asv_srv (runOp codec t i eo s)) = sv_runs (asv_srv s)"
proof -
  have "sv_runs (asv_srv (recordNextSnapshot env ctxs n t i b (setAgents st s))) = sv_runs (asv_srv s)" for env ctxs n t i b st
    by (simp add: recordNextSnapshot_def recordSnapshot_def setAgents_def split: sum.split)
  moreover have "sv_runs (asv_srv (setAgents st s)) = sv_runs (asv_srv s)" for st by (simp add: setAgents_def)
  ultimately show ?thesis
    by (cases eo; cases "snd eo")
      (auto simp: handleAgentUpdate_def handleAgentRollback_def Let_def split: sum.split option.split prod.split)
qed

lemma runOps_hist:
  assumes "histRel codec t i s h" "quiet t i s" "length h + length ops \<le> maxVersionsPerAgent" "\<forall>(env, op)\<in>set ops. re_io env = None"
    "\<forall>c\<in>set (fold specOp (map snd ops) h). roundTrips codec c"
  shows "histRel codec t i (fold (runOp codec t i) ops s) (fold specOp (map snd ops) h)"
  using assms
proof (induction ops arbitrary: s h)
  case (Cons eo ops)
  obtain env op where eo: "eo = (env, op)" by (cases eo)
  have mono: "set h \<subseteq> set (specOp op h)" for op h by (cases op) auto
  have fmono: "set h \<subseteq> set (fold specOp os h)" for os h
  proof (induction os arbitrary: h)
    case (Cons o1 os)
    then show ?case using mono[of h o1] by (simp; blast)
  qed simp
  have len: "length (specOp op h) \<le> Suc (length h)" by (cases op) auto
  have "histRel codec t i (runOp codec t i (env, op) s) (specOp op h)"
    using Cons.prems fmono[of "specOp op h" "map snd ops"] by (intro runOp_hist) (auto simp: eo)
  moreover have "quiet t i (runOp codec t i eo s)" using Cons.prems(2) by (simp add: quiet_def runOp_runs)
  ultimately show ?case using Cons.IH[of "runOp codec t i eo s" "specOp op h"] Cons.prems len by (simp add: eo)
qed simp

lemma handleAgentCreate_hist:
  assumes "t \<noteq> []" "validAgentID i" "validName (acr_Name req)" "acr_AgentID req = i" "re_io env = None"
    "Agent_Get None t i (sv_agents (asv_srv s)) = Inr None" "snapshots s t i = []" "roundTrips codec (acr_Config req)"
  shows "histRel codec t i (snd (handleAgentCreate env noCtx codec t (Inr req) s)) [acr_Config req]"
proof -
  from assms(2) have i: "i \<noteq> []" by (auto simp: validAgentID_def)
  from assms(8) obtain b where b: "cc_marshal codec (acr_Config req) = Inr b" by (auto simp: roundTrips_def)
  define a where "a = \<lparr>ag_AgentID = i, ag_TenantID = t, ag_Name = acr_Name req, ag_Description = acr_Description req,
    ag_Version = ''1'', ag_Status = ''active'', ag_Config = acr_Config req, ag_CreatedAt = re_now env, ag_UpdatedAt = re_now env\<rparr>"
  have "mget (as_agents (sv_agents (asv_srv s))) (agentStorageKey t i) = None" using assms(1,6) i by (simp add: Agent_Get_def)
  then obtain st where st: "Agent_Create None None a (sv_agents (asv_srv s)) = (None, st)" "Agent_Get None t i st = Inr (Some a)"
    using assms(1) i by (simp add: Agent_Create_def Agent_Get_def validateAgent_def persistAgent_def writeFile_def Let_def mget_mput a_def)
  have "snd (handleAgentCreate env noCtx codec t (Inr req) s) = recordSnapshot env None t i ''v1'' b (setAgents st s)"
    using assms i b st by (simp add: handleAgentCreate_def noCtx_def Let_def a_def)
  moreover from CreateSnapshot_get[OF assms(1) i, of "''v1''" "asv_versions s" b "re_now env" "re_principal env"] assms(7) obtain av where
    "av_Version av = ''v1''" "av_Config av = b" "snapshots (recordSnapshot env None t i ''v1'' b (setAgents st s)) t i = [av]"
    by (auto simp: recordSnapshot_def setAgents_def maxVersionsPerAgent_def)
  moreover have "Itoa 1 = ''1''" by code_simp
  ultimately show ?thesis using assms(1) i st(2) b
    by (auto simp: histRel_def maxVersionsPerAgent_def recordSnapshot_def setAgents_def a_def)
qed

text \<open>
  C1. The version history of an agent refines a list of configurations: from the creation on, an update appends the new
  configuration, a rollback to version k appends the k-th one again (and changes nothing when there is no such version),
  the agent always runs the last entry of the list, and its version number is the length of the list. This holds up to the
  thousand snapshots the store keeps, when the stores answer, no run of the agent is active and configurations survive
  encoding.
\<close>

theorem rollback_history:
  assumes "t \<noteq> []" "validAgentID i" "validName (acr_Name req)" "acr_AgentID req = i" "re_io env0 = None" "quiet t i s"
    "Agent_Get None t i (sv_agents (asv_srv s)) = Inr None" "snapshots s t i = []"
    "length ops < 1000" "\<forall>(env, op)\<in>set ops. re_io env = None"
    "\<forall>c\<in>set (fold specOp (map snd ops) [acr_Config req]). roundTrips codec c"
  shows "let s' = fold (runOp codec t i) ops (snd (handleAgentCreate env0 noCtx codec t (Inr req) s));
             h = fold specOp (map snd ops) [acr_Config req] in
    \<exists>a. Agent_Get None t i (sv_agents (asv_srv s')) = Inr (Some a) \<and> ag_Config a = last h \<and> ag_Version a = Itoa (int (length h)) \<and>
      map av_Version (snapshots s' t i) = map (\<lambda>j. ''v'' @ Itoa (int (Suc j))) [0..<length h]"
proof -
  let ?s1 = "snd (handleAgentCreate env0 noCtx codec t (Inr req) s)"
  have sub: "set h \<subseteq> set (fold specOp os h)" for os h
  proof (induction os arbitrary: h)
    case (Cons o1 os)
    have "set h \<subseteq> set (specOp o1 h)" by (cases o1) auto
    then show ?case using Cons[of "specOp o1 h"] by simp
  qed simp
  have "roundTrips codec (acr_Config req)" using assms(11) sub[of "[acr_Config req]" "map snd ops"] by auto
  from handleAgentCreate_hist[OF assms(1-5,7,8) this] have h: "histRel codec t i ?s1 [acr_Config req]" .
  have "quiet t i ?s1" using assms(6)
    by (auto simp: quiet_def handleAgentCreate_def recordSnapshot_def setAgents_def Let_def split: sum.split option.split prod.split fsErr.split)
  from runOps_hist[OF h this _ assms(10,11)] assms(9)
  have "histRel codec t i (fold (runOp codec t i) ops ?s1) (fold specOp (map snd ops) [acr_Config req])"
    by (simp add: maxVersionsPerAgent_def)
  then show ?thesis unfolding histRel_def Let_def by (auto intro!: nth_equalityI)
qed

definition promptConfig :: "string \<Rightarrow> agentConfig" where
  "promptConfig p = \<lparr>ac_SystemPrompt = p, ac_ModelID = [], ac_Tools = [], ac_CustomTools = [], ac_MaxSteps = 0, ac_TimeoutMs = 0\<rparr>"

definition promptCodec :: configCodec where
  "promptCodec = \<lparr>cc_marshal = (\<lambda>c. case c of None \<Rightarrow> Inr ''null'' | Some c \<Rightarrow> Inr (ac_SystemPrompt c)),
     cc_unmarshal = (\<lambda>b. Inr (promptConfig b))\<rparr>"

definition emptyService :: agentService where
  "emptyService = \<lparr>asv_srv = \<lparr>sv_runs = emptyRunStore,
     sv_agents = \<lparr>as_dir = [], as_agents = [], as_files = []\<rparr>,
     sv_limiter = \<lparr>lim_backend = NewMemoryBackend, lim_qps = 5, lim_maxConcurrent = 1\<rparr>, sv_tokenBudget = None,
     sv_memory = [], sv_queue = [], sv_cancels = [], sv_canceled = [], sv_audit = []\<rparr>,
     asv_versions = NewMemoryAgentVersionStore\<rparr>"

definition plainEnv :: reqEnv where
  "plainEnv = \<lparr>re_clock = 0, re_now = ''now'', re_newID = ''id'', re_ctx = None, re_io = None, re_principal = ''p'', re_requestID = []\<rparr>"

definition createOf :: "string \<Rightarrow> agentCreateRequest" where
  "createOf p = \<lparr>acr_AgentID = ''bot'', acr_Name = ''n'', acr_Description = [], acr_Config = Some (promptConfig p)\<rparr>"

definition updateOf :: "string \<Rightarrow> agentUpdateRequest" where
  "updateOf p = \<lparr>aur_Name = ''n'', aur_Description = [], aur_Config = Some (promptConfig p)\<rparr>"

theorem rollback_history_witness:
  "let s' = fold (runOp promptCodec ''acme'' ''bot'') [(plainEnv, OpUpdate (updateOf ''b'')), (plainEnv, OpRollback 1)]
          (snd (handleAgentCreate plainEnv noCtx promptCodec ''acme'' (Inr (createOf ''a'')) emptyService)) in
   \<exists>a. Agent_Get None ''acme'' ''bot'' (sv_agents (asv_srv s')) = Inr (Some a) \<and> ag_Config a = Some (promptConfig ''a'') \<and>
     ag_Version a = ''3''"
proof -
  let ?ops = "[(plainEnv, OpUpdate (updateOf ''b'')), (plainEnv, OpRollback 1)]"
  have h: "fold specOp (map snd ?ops) [acr_Config (createOf ''a'')] =
      [Some (promptConfig ''a''), Some (promptConfig ''b''), Some (promptConfig ''a'')]" by code_simp
  have q: "\<not> list_ex activeRun [] \<and> ListByAgent None ''acme'' ''bot'' 100 [] (sv_runs (asv_srv emptyService)) = Inr []" by code_simp
  have pre: "validAgentID ''bot''" "validName (acr_Name (createOf ''a''))" "acr_AgentID (createOf ''a'') = ''bot''" "re_io plainEnv = None"
    "Agent_Get None ''acme'' ''bot'' (sv_agents (asv_srv emptyService)) = Inr None" "snapshots emptyService ''acme'' ''bot'' = []"
    "Itoa 3 = ''3''" by code_simp+
  have rt: "roundTrips promptCodec (Some (promptConfig p))" if "p \<noteq> []" "p \<noteq> ''null''" for p
    using that by (simp add: roundTrips_def promptCodec_def snapshotConfig_def) (simp add: promptConfig_def)
  from rollback_history[of "''acme''" "''bot''" "createOf ''a''" plainEnv emptyService ?ops promptCodec] pre q rt h
  show ?thesis by (auto simp: quiet_def Let_def numeral_eq_Suc)
qed

text \<open>Snapshots outlive the agent: an agent created anew under the same name can be rolled back to what was deleted.\<close>

lemma deleted_history_reachable:
  "let s1 = snd (handleAgentCreate plainEnv noCtx promptCodec ''acme'' (Inr (createOf ''a'')) emptyService);
       s2 = runOp promptCodec ''acme'' ''bot'' (plainEnv, OpUpdate (updateOf ''secret'')) s1;
       s3 = snd (handleAgentDelete plainEnv noCtx ''acme'' ''bot'' s2);
       s4 = snd (handleAgentCreate plainEnv noCtx promptCodec ''acme'' (Inr (createOf ''c'')) s3) in
   (case fst (handleAgentRollback plainEnv noCtx promptCodec ''acme'' ''bot'' (Inr ''v2'') s4) of
      ROk n a \<Rightarrow> n = 200 \<and> map_option ac_SystemPrompt (ag_Config a) = Some ''secret'' | RErr e \<Rightarrow> False)"
  by code_simp

subsection \<open>Listing\<close>

text \<open>A client that pages through the agents by the identifier of the last one received.\<close>

definition pageQuery :: "string \<Rightarrow> string \<Rightarrow> string \<Rightarrow> string" where
  "pageQuery limit after k = (if k = ''limit'' then limit else if k = ''after'' then after else [])"

definition agentPage :: "string \<Rightarrow> string \<Rightarrow> agentService \<Rightarrow> string \<Rightarrow> agent list \<times> bool" where
  "agentPage limit t s after =
     (case handleAgentList noCtx (pageQuery limit after) t s of RErr e \<Rightarrow> ([], False) | ROk c p \<Rightarrow> p)"

lemma listLimit_pos: "0 < listLimit v"
  by (auto simp: listLimit_def Let_def split: option.splits)

definition agentsOf :: "string \<Rightarrow> agentService \<Rightarrow> agent list" where
  "agentsOf t s = (case Agent_List None t (sv_agents (asv_srv s)) of Inl e \<Rightarrow> [] | Inr L \<Rightarrow> sort_key ag_AgentID L)"

lemma agentPage_eq:
  "agentPage limit t s after =
    (let F = (if after \<noteq> [] then filter (\<lambda>a. after < ag_AgentID a) (agentsOf t s) else agentsOf t s); k = nat (listLimit limit) in
     (take k F, k < length F))"
proof -
  obtain L where L: "Agent_List None t (sv_agents (asv_srv s)) = Inr L" by (cases "t = []") (auto simp: Agent_List_def)
  have "sorted (map ag_AgentID (sort_key ag_AgentID L))" by simp
  note dw = dropWhile_sorted[OF this, of after]
  have "pageQuery limit after ''limit'' = limit" "pageQuery limit after ''after'' = after" by (simp_all add: pageQuery_def)
  then show ?thesis using L listLimit_pos[of limit] dw
    by (auto simp: agentPage_def agentsOf_def handleAgentList_def noCtx_def Let_def)
qed

interpretation agent_paging: cursor_paging "agentPage limit t s" ag_AgentID "agentsOf t s" "nat (listLimit limit)" "[]"
  for limit t s
  by unfold_locales (auto simp: agentPage_eq Let_def listLimit_pos agentsOf_def split: sum.split)

text \<open>
  C1. Paging through the agents of a tenant with any page size, following the cursor until no more is announced, returns
  every agent of the tenant exactly once, in the order of the identifiers.
\<close>

theorem agent_pages_complete:
  assumes "Agent_List None t (sv_agents (asv_srv s)) = Inr L" "\<forall>a\<in>set L. ag_AgentID a \<noteq> []" "distinct (map ag_AgentID L)" "length L < n"
  shows "followCursor (agentPage limit t s) ag_AgentID n [] = sort_key ag_AgentID L"
proof -
  have e: "agentsOf t s = sort_key ag_AgentID L" using assms(1) by (simp add: agentsOf_def)
  have "distinct (map ag_AgentID (sort_key ag_AgentID L))" using assms(3) by (metis distinct_map set_sort distinct_sort)
  then show ?thesis using agent_paging.follow_all[of t s n limit] assms(2,4) by (simp add: e)
qed

definition namedAgent :: "string \<Rightarrow> agent" where
  "namedAgent i = minimalAgent ''acme'' i"

definition threeAgents :: agentService where
  "threeAgents = emptyService\<lparr>asv_srv := (asv_srv emptyService)\<lparr>sv_agents :=
     \<lparr>as_dir = [], as_agents = [(''k1'', namedAgent ''zed''), (''k2'', namedAgent ''bob''), (''k3'', namedAgent ''amy'')], as_files = []\<rparr>\<rparr>\<rparr>"

theorem agent_pages_complete_witness:
  "map ag_AgentID (followCursor (agentPage ''2'' ''acme'' threeAgents) ag_AgentID 4 []) = [''amy'', ''bob'', ''zed'']"
proof -
  have "Agent_List None ''acme'' (sv_agents (asv_srv threeAgents)) = Inr [namedAgent ''zed'', namedAgent ''bob'', namedAgent ''amy'']"
    by code_simp
  moreover have "\<forall>a\<in>set [namedAgent ''zed'', namedAgent ''bob'', namedAgent ''amy'']. ag_AgentID a \<noteq> []" by code_simp
  moreover have "distinct (map ag_AgentID [namedAgent ''zed'', namedAgent ''bob'', namedAgent ''amy''])" by code_simp
  moreover have "map ag_AgentID (sort_key ag_AgentID [namedAgent ''zed'', namedAgent ''bob'', namedAgent ''amy'']) =
     [''amy'', ''bob'', ''zed'']" by code_simp
  ultimately show ?thesis using agent_pages_complete[of "''acme''" threeAgents _ 4 "''2''"] by simp
qed

text \<open>In every reachable state the store keeps at most a thousand snapshots per agent, with increasing identifiers.\<close>

lemma version_store_bounded:
  assumes "reachable (\<lambda>s. s = NewMemoryAgentVersionStore) version_step s"
  shows "length (zget [] (vs_versions s) k) \<le> 1000" "sorted_wrt (\<lambda>v w. av_ID v < av_ID w) (zget [] (vs_versions s) k)"
  using zget_versions(1,2)[OF version_sys.inv_reachable[OF assms], where k = k] by (simp_all add: maxVersionsPerAgent_def)

end
