(* ===== verification/Tenant_Admin.thy ===== *)
theory Tenant_Admin
  imports Run_Service
begin

text \<open>
  Administration of tenants: the in-memory tenant store (internal/tenants/store.go) and the handlers of
  agentorchestrator/server.go for tenants, API keys, members, the key-value store, conversation memory, the breaker status
  and the endpoints that only delegate.

  \<^item> \<open>adminServer\<close> adds to the server of \<open>Run_Handlers\<close> the tenant store, the key and member tables (absent without a
    database), and the key-value store.
  \<^item> Decoded request bodies, the generated key material, the clock and the faults of the database are arguments.
  \<^item> Shown: default tenants survive every sequence of operations; a caller without the scope or role changes nothing; key
    and member administration stays within the tenant of the caller; and which callers the guards really exclude.
\<close>

subsection \<open>The tenant store\<close>

record tenantPolicy =
  tpo_AllowedModels :: "string list"
  tpo_DeniedModels :: "string list"
  tpo_TokenBudget :: "(int \<times> int) option"
  tpo_PIIPolicy :: "(string \<times> string list) option"

record tenant =
  tn_TenantID :: string
  tn_Name :: string
  tn_Status :: string
  tn_PlanTier :: string
  tn_Entitlements :: "(string, json) gomap option"
  tn_Quotas :: "(string, json) gomap option"
  tn_Metadata :: "(string, json) gomap option"
  tn_Policy :: "tenantPolicy option"
  tn_CreatedAt :: string
  tn_UpdatedAt :: string

record tenantStore =
  tst_tenants :: "(string, tenant) gomap"
  tst_defaults :: "string list"

datatype tenantStoreErr = ErrInvalidTenant | ErrTenantExists | ErrTenantNotFound | ErrDefaultTenant

definition NewTenantStore :: tenantStore where
  "NewTenantStore = \<lparr>tst_tenants = [], tst_defaults = []\<rparr>"

definition EnsureDefault :: "string \<Rightarrow> string \<Rightarrow> tenantStore \<Rightarrow> tenantStore" where
  "EnsureDefault now i s =
     (if i = [] then s
      else if mget (tst_tenants s) i \<noteq> None then s\<lparr>tst_defaults := List.insert i (tst_defaults s)\<rparr>
      else s\<lparr>tst_tenants := mput i \<lparr>tn_TenantID = i, tn_Name = ''default tenant'', tn_Status = ''active'', tn_PlanTier = ''default'',
               tn_Entitlements = None, tn_Quotas = None, tn_Metadata = None, tn_Policy = None, tn_CreatedAt = now, tn_UpdatedAt = now\<rparr>
               (tst_tenants s),
             tst_defaults := List.insert i (tst_defaults s)\<rparr>)"

definition Tenant_Create :: "string \<Rightarrow> tenant \<Rightarrow> tenantStore \<Rightarrow> tenantStoreErr option \<times> tenantStore" where
  "Tenant_Create now t0 s =
     (if tn_TenantID t0 = [] then (Some ErrInvalidTenant, s)
      else
        (let t1 = (if tn_Status t0 = [] then t0\<lparr>tn_Status := ''active''\<rparr> else t0);
             t2 = (if tn_CreatedAt t1 = [] then t1\<lparr>tn_CreatedAt := now\<rparr> else t1);
             t = t2\<lparr>tn_UpdatedAt := now\<rparr> in
         if mget (tst_tenants s) (tn_TenantID t) \<noteq> None then (Some ErrTenantExists, s)
         else (None, s\<lparr>tst_tenants := mput (tn_TenantID t) t (tst_tenants s)\<rparr>)))"

text \<open>Only what the update sets is changed.\<close>

definition mergeTenant :: "string \<Rightarrow> tenant \<Rightarrow> tenant \<Rightarrow> tenant" where
  "mergeTenant now upd cur =
     cur\<lparr>tn_Name := (if tn_Name upd \<noteq> [] then tn_Name upd else tn_Name cur),
         tn_PlanTier := (if tn_PlanTier upd \<noteq> [] then tn_PlanTier upd else tn_PlanTier cur),
         tn_Status := (if tn_Status upd \<noteq> [] then tn_Status upd else tn_Status cur),
         tn_Entitlements := (if tn_Entitlements upd \<noteq> None then tn_Entitlements upd else tn_Entitlements cur),
         tn_Quotas := (if tn_Quotas upd \<noteq> None then tn_Quotas upd else tn_Quotas cur),
         tn_Metadata := (if tn_Metadata upd \<noteq> None then tn_Metadata upd else tn_Metadata cur),
         tn_Policy := (if tn_Policy upd \<noteq> None then tn_Policy upd else tn_Policy cur),
         tn_UpdatedAt := now\<rparr>"

definition Tenant_Update :: "string \<Rightarrow> string \<Rightarrow> tenant \<Rightarrow> tenantStore \<Rightarrow> (tenantStoreErr + tenant) \<times> tenantStore" where
  "Tenant_Update now i upd s =
     (if i = [] then (Inl ErrInvalidTenant, s)
      else case mget (tst_tenants s) i of None \<Rightarrow> (Inl ErrTenantNotFound, s)
        | Some cur \<Rightarrow> (let t = mergeTenant now upd cur in (Inr t, s\<lparr>tst_tenants := mput i t (tst_tenants s)\<rparr>)))"

definition Tenant_Delete :: "string \<Rightarrow> tenantStore \<Rightarrow> (tenantStoreErr + tenant) \<times> tenantStore" where
  "Tenant_Delete i s =
     (if i = [] then (Inl ErrInvalidTenant, s)
      else case mget (tst_tenants s) i of None \<Rightarrow> (Inl ErrTenantNotFound, s)
        | Some cur \<Rightarrow>
            if i \<in> set (tst_defaults s) then (Inl ErrDefaultTenant, s)
            else (Inr cur, s\<lparr>tst_tenants := mdel i (tst_tenants s)\<rparr>))"

definition Tenant_Get :: "string \<Rightarrow> tenantStore \<Rightarrow> tenant option" where
  "Tenant_Get i s = (if i = [] then None else mget (tst_tenants s) i)"

definition Tenant_List :: "tenantStore \<Rightarrow> tenant list" where
  "Tenant_List s = map snd (tst_tenants s)"

subsection \<open>The server\<close>

record adminServer =
  ad_srv :: server
  ad_tenants :: tenantStore
  ad_keys :: "apiKeyRecord list option"
  ad_members :: "memberTable option"
  ad_kv :: "kvFiles option"
  ad_kvCfg :: kvConfig
  ad_kvMaxValueSize :: int
  ad_memoryDir :: "string option"

definition adAudit :: "reqEnv \<Rightarrow> string \<Rightarrow> string \<Rightarrow> string \<Rightarrow> adminServer \<Rightarrow> adminServer" where
  "adAudit env tenantID action resource s = s\<lparr>ad_srv := auditLog env tenantID action resource ''allowed'' [] (ad_srv s)\<rparr>"

definition hasScope :: "string list \<Rightarrow> string \<Rightarrow> bool" where
  "hasScope scopes target = list_ex (\<lambda>s. EqualFold (TrimSpace s) (TrimSpace target)) scopes"

definition scopeRequired :: httpError where
  "scopeRequired = httpxError 403 ''forbidden'' ''admin scope required'' False"

definition badJSON :: httpError where
  "badJSON = httpxError 400 ''invalid_json'' ''invalid json body'' False"

definition tenantsExists :: "adminServer \<Rightarrow> string \<Rightarrow> bool" where
  "tenantsExists s tenantID = (if tenantID = [] then False else Tenant_Get tenantID (ad_tenants s) \<noteq> None)"

subsection \<open>Tenants\<close>

datatype tenantReply = TenantList "tenant list" | TenantOne tenant | TenantDeleted string

definition tenantErrText :: "tenantStoreErr \<Rightarrow> string" where
  "tenantErrText e = (case e of ErrInvalidTenant \<Rightarrow> ''invalid tenant'' | ErrTenantExists \<Rightarrow> ''tenant already exists''
     | ErrTenantNotFound \<Rightarrow> ''tenant not found'' | ErrDefaultTenant \<Rightarrow> ''cannot delete default tenant'')"

definition tenantFailure :: "tenantStoreErr \<Rightarrow> tenantStoreErr \<Rightarrow> int \<Rightarrow> string \<Rightarrow> httpError" where
  "tenantFailure special e code errCode =
     (if e = special then httpxError code errCode (tenantErrText e) False
      else httpxError 400 ''invalid_request'' (tenantErrText e) False)"

definition handleTenants ::
  "reqEnv \<Rightarrow> authContext \<Rightarrow> string \<Rightarrow> string \<Rightarrow> string + tenant \<Rightarrow> adminServer \<Rightarrow> tenantReply resp \<times> adminServer" where
  "handleTenants env ac httpMethod urlPath body s =
     (if \<not> hasScope (ac_Scopes ac) ''tenants:admin'' then (RErr scopeRequired, s)
      else
        (let path = trimSlash (TrimPrefix urlPath ''/v1/admin/tenants'') in
         if path = [] then
           (if httpMethod = ''GET'' then (ROk 200 (TenantList (Tenant_List (ad_tenants s))), s)
            else if httpMethod = ''POST'' then
              (case body of Inl _ \<Rightarrow> (RErr badJSON, s)
               | Inr t \<Rightarrow>
                   (case Tenant_Create (re_now env) t (ad_tenants s) of
                      (Some e, ts) \<Rightarrow> (RErr (tenantFailure ErrTenantExists e 409 ''conflict''), s)
                    | (None, ts) \<Rightarrow>
                        (ROk 201 (TenantOne t),
                         adAudit env (tn_TenantID t) ''tenants.create'' (''tenant/'' @ tn_TenantID t) (s\<lparr>ad_tenants := ts\<rparr>))))
            else (RErr methodNotAllowed, s))
         else if httpMethod = ''GET'' then
           (case Tenant_Get path (ad_tenants s) of
              Some t \<Rightarrow> (ROk 200 (TenantOne t), s)
            | None \<Rightarrow> (RErr (httpxError 404 ''not_found'' ''tenant not found'' False), s))
         else if httpMethod = ''PUT'' \<or> httpMethod = ''PATCH'' then
           (case body of Inl _ \<Rightarrow> (RErr badJSON, s)
            | Inr t \<Rightarrow>
                (case Tenant_Update (re_now env) path t (ad_tenants s) of
                   (Inl e, ts) \<Rightarrow> (RErr (tenantFailure ErrTenantNotFound e 404 ''not_found''), s)
                 | (Inr updated, ts) \<Rightarrow>
                     (ROk 200 (TenantOne updated), adAudit env path ''tenants.update'' (''tenant/'' @ path) (s\<lparr>ad_tenants := ts\<rparr>))))
         else if httpMethod = ''DELETE'' then
           (case Tenant_Delete path (ad_tenants s) of
              (Inl e, ts) \<Rightarrow> (RErr (tenantFailure ErrTenantNotFound e 404 ''not_found''), s)
            | (Inr _, ts) \<Rightarrow>
                (ROk 200 (TenantDeleted path), adAudit env path ''tenants.delete'' (''tenant/'' @ path) (s\<lparr>ad_tenants := ts\<rparr>)))
         else (RErr methodNotAllowed, s)))"

subsection \<open>Conversation memory and key-value store\<close>

definition handleMemoryClear :: "reqEnv \<Rightarrow> string \<Rightarrow> string \<Rightarrow> adminServer \<Rightarrow> unit resp \<times> adminServer" where
  "handleMemoryClear env tenantID agentID s =
     (case ad_memoryDir s of None \<Rightarrow> (RErr (httpxError 501 ''not_implemented'' ''memory store not configured'' False), s)
      | Some dir \<Rightarrow>
          (case Memory_Clear (re_ctx env) (re_io env) dir tenantID agentID (sv_memory (ad_srv s)) of
             (Some _, fs) \<Rightarrow> (RErr (httpxError 500 ''memory_clear_failed'' ''failed to clear memory'' True),
                              s\<lparr>ad_srv := (ad_srv s)\<lparr>sv_memory := fs\<rparr>\<rparr>)
           | (None, fs) \<Rightarrow> (ROk 200 (), s\<lparr>ad_srv := (ad_srv s)\<lparr>sv_memory := fs\<rparr>\<rparr>)))"

datatype kvReply = KVKeys "string list" | KVValue string string | KVStored string | KVDeleted string

text \<open>The messages of the errors that the handler prints: those of ValidateKey, ValidateValueSize and the key limit.\<close>

definition fsErrText :: "fsErr \<Rightarrow> string" where
  "fsErrText e = (case e of
       ErrKeyTooLong \<Rightarrow> ''key exceeds maximum length of 256 characters''
     | ErrInvalidKey \<Rightarrow> ''key must contain only alphanumeric characters, hyphens, underscores, and dots''
     | ErrValueTooLarge n m \<Rightarrow> ''value exceeds maximum size: '' @ Itoa (int n) @ '' bytes (max '' @ Itoa m @ '')''
     | ErrMaxKeysExceeded \<Rightarrow> ''maximum number of keys per agent exceeded''
     | _ \<Rightarrow> [])"

text \<open>The body is read up to the maximal value size and 1024 bytes, then decoded.\<close>

definition readKVBody :: "int \<Rightarrow> string \<Rightarrow> string" where
  "readKVBody maxValueSize raw = take (nat (maxValueSize + 1024)) raw"

definition handleKV ::
  "reqEnv \<Rightarrow> string \<Rightarrow> string \<Rightarrow> string \<Rightarrow> string list \<Rightarrow> string + string \<Rightarrow> (string \<Rightarrow> string option) \<Rightarrow> adminServer \<Rightarrow> kvReply resp \<times> adminServer" where
  "handleKV env httpMethod tenantID agentID subParts body decodeValue s =
     (case ad_kv s of None \<Rightarrow> (RErr (httpxError 501 ''not_implemented'' ''kv store not configured'' False), s)
      | Some kv \<Rightarrow>
          (case subParts of
             [] \<Rightarrow>
               if httpMethod \<noteq> ''GET'' then (RErr methodNotAllowed, s)
               else
                 (case ListKeys (re_ctx env) (ad_kvCfg s) tenantID agentID kv of
                    Inl _ \<Rightarrow> (RErr (httpxError 500 ''kv_list_failed'' ''failed to list keys'' True), s)
                  | Inr ks \<Rightarrow> (ROk 200 (KVKeys ks), s))
           | key # _ \<Rightarrow>
               (case ValidateKey key of Some e \<Rightarrow> (RErr (httpxError 400 ''invalid_key'' (fsErrText e) False), s)
                | None \<Rightarrow>
                    if httpMethod = ''GET'' then
                      (case KV_Get (re_ctx env) (ad_kvCfg s) tenantID agentID key kv of
                         Inl _ \<Rightarrow> (RErr (httpxError 500 ''kv_get_failed'' ''failed to get key'' True), s)
                       | Inr None \<Rightarrow> (RErr (httpxError 404 ''not_found'' ''key not found'' False), s)
                       | Inr (Some v) \<Rightarrow> (ROk 200 (KVValue key v), s))
                    else if httpMethod = ''PUT'' then
                      (case body of Inl _ \<Rightarrow> (RErr (httpxError 400 ''read_failed'' ''failed to read body'' False), s)
                       | Inr raw \<Rightarrow>
                           (case decodeValue (readKVBody (ad_kvMaxValueSize s) raw) of None \<Rightarrow> (RErr badJSON, s)
                            | Some v \<Rightarrow>
                                (case ValidateValueSize v (ad_kvMaxValueSize s) of
                                   Some e \<Rightarrow> (RErr (httpxError 400 ''value_too_large'' (fsErrText e) False), s)
                                 | None \<Rightarrow>
                                     (case KV_Set (re_ctx env) (re_io env) (ad_kvCfg s) tenantID agentID key v kv of
                                        (Some ErrMaxKeysExceeded, kv') \<Rightarrow>
                                          (RErr (httpxError 400 ''max_keys_exceeded'' (fsErrText ErrMaxKeysExceeded) False), s\<lparr>ad_kv := Some kv'\<rparr>)
                                      | (Some _, kv') \<Rightarrow> (RErr (httpxError 500 ''kv_set_failed'' ''failed to set key'' True), s\<lparr>ad_kv := Some kv'\<rparr>)
                                      | (None, kv') \<Rightarrow> (ROk 200 (KVStored key), s\<lparr>ad_kv := Some kv'\<rparr>)))))
                    else if httpMethod = ''DELETE'' then
                      (case KV_Delete (re_ctx env) (re_io env) (ad_kvCfg s) tenantID agentID key kv of
                         (Some _, kv') \<Rightarrow> (RErr (httpxError 500 ''kv_delete_failed'' ''failed to delete key'' True), s\<lparr>ad_kv := Some kv'\<rparr>)
                       | (None, kv') \<Rightarrow> (ROk 200 (KVDeleted key), s\<lparr>ad_kv := Some kv'\<rparr>))
                    else (RErr methodNotAllowed, s))))"

subsection \<open>API keys\<close>

record adminReq =
  aq_env :: reqEnv
  aq_getenv :: "string \<Rightarrow> string"
  aq_faults :: pgFaults
  aq_ac :: authContext

text \<open>The role check of a compound handler; it may register the first member of a tenant.\<close>

definition checkRole :: "adminReq \<Rightarrow> string \<Rightarrow> adminServer \<Rightarrow> httpError option \<times> adminServer" where
  "checkRole rq role s =
     (case requireRole (aq_getenv rq) (aq_faults rq) (re_clock (aq_env rq)) role (Some (aq_ac rq)) (ad_members s) of
        (e, ms) \<Rightarrow> (e, s\<lparr>ad_members := ms\<rparr>))"

definition handleAPIKeyList ::
  "adminReq \<Rightarrow> string option \<Rightarrow> (string \<Rightarrow> string) \<Rightarrow> string \<Rightarrow> adminServer \<Rightarrow> (apiKeyRecord list \<times> bool) resp" where
  "handleAPIKeyList rq fault query tenantID s =
     (let limit = listLimit (query ''limit''); after = query ''after'' in
      case ad_keys s of None \<Rightarrow> ROk 200 ([], False)
      | Some rows \<Rightarrow>
          (case APIKey_List fault rows tenantID of
             Inl _ \<Rightarrow> RErr (httpxError 500 ''apikey_list_failed'' ''failed to list API keys'' True)
           | Inr ks \<Rightarrow>
               (let ks' = (if after \<noteq> [] then dropWhile (\<lambda>k. ak_KeyID k \<le> after) ks else ks);
                    hasMore = int (length ks') > limit in
                ROk 200 (if hasMore then take (nat limit) ks' else ks', hasMore))))"

record apiKeyRequest =
  kq_Name :: string
  kq_Role :: string
  kq_ExpiresInDays :: "int option"

record apiKeyCreated =
  kc_KeyID :: string
  kc_APIKey :: string
  kc_Name :: string
  kc_Role :: string
  kc_CreatedAt :: time
  kc_ExpiresAt :: "time option"

definition validRoles :: "string list" where
  "validRoles = [''owner'', ''admin'', ''developer'', ''viewer'']"

definition day :: duration where "day = 86400 * 1000000000"

definition noPostgresKeys :: httpError where
  "noPostgresKeys = httpxError 501 ''not_implemented'' ''API key management requires postgres backend'' False"

definition handleAPIKeyCreate ::
  "adminReq \<Rightarrow> string option \<Rightarrow> string + generatedKey \<Rightarrow> string \<Rightarrow> string + apiKeyRequest \<Rightarrow> adminServer \<Rightarrow> apiKeyCreated resp \<times> adminServer" where
  "handleAPIKeyCreate rq fault generated tenantID body s0 =
     (case checkRole rq ''admin'' s0 of
        (Some e, s) \<Rightarrow> (RErr e, s)
      | (None, s) \<Rightarrow>
          (case ad_keys s of None \<Rightarrow> (RErr noPostgresKeys, s)
           | Some rows \<Rightarrow>
               (case body of Inl _ \<Rightarrow> (RErr badJSON, s)
                | Inr req \<Rightarrow>
                    (let name = (if kq_Name req = [] then ''unnamed'' else kq_Name req);
                         role = (if kq_Role req = [] then ''developer'' else kq_Role req) in
                     if role \<notin> set validRoles
                     then (RErr (httpxError 400 ''invalid_role'' ''role must be one of: owner, admin, developer, viewer'' False), s)
                     else
                       (case generated of
                          Inl _ \<Rightarrow> (RErr (httpxError 500 ''key_generation_failed'' ''failed to generate API key'' True), s)
                        | Inr g \<Rightarrow>
                            (let now = re_clock (aq_env rq);
                                 expires = (case kq_ExpiresInDays req of Some d \<Rightarrow> if d > 0 then Some (now + d * day) else None | None \<Rightarrow> None);
                                 key = \<lparr>ak_KeyID = gk_keyID g, ak_TenantID = tenantID, ak_KeyHash = gk_keyHash g, ak_KeyPrefix = gk_prefix g,
                                        ak_Name = name, ak_Role = role, ak_CreatedBy = ac_PrincipalID (aq_ac rq), ak_CreatedAt = now,
                                        ak_ExpiresAt = expires, ak_RevokedAt = None\<rparr> in
                             case APIKey_Create fault key rows of
                               (Some _, rows') \<Rightarrow> (RErr (httpxError 500 ''key_create_failed'' ''failed to create API key'' True), s\<lparr>ad_keys := Some rows'\<rparr>)
                             | (None, rows') \<Rightarrow>
                                 (ROk 201 \<lparr>kc_KeyID = gk_keyID g, kc_APIKey = gk_fullKey g, kc_Name = name, kc_Role = role,
                                           kc_CreatedAt = now, kc_ExpiresAt = expires\<rparr>,
                                  adAudit (aq_env rq) tenantID ''apikeys.create'' (''apikey/'' @ gk_keyID g) (s\<lparr>ad_keys := Some rows'\<rparr>))))))))"

definition handleAPIKeyRevoke ::
  "adminReq \<Rightarrow> string option \<Rightarrow> string \<Rightarrow> string \<Rightarrow> adminServer \<Rightarrow> string resp \<times> adminServer" where
  "handleAPIKeyRevoke rq fault tenantID keyID s0 =
     (case checkRole rq ''admin'' s0 of
        (Some e, s) \<Rightarrow> (RErr e, s)
      | (None, s) \<Rightarrow>
          (case ad_keys s of None \<Rightarrow> (RErr noPostgresKeys, s)
           | Some rows \<Rightarrow>
               (case Revoke fault (re_clock (aq_env rq)) tenantID keyID rows of
                  (Some ErrAPIKeyNotFound, rows') \<Rightarrow> (RErr (httpxError 404 ''not_found'' ''API key not found or already revoked'' False), s\<lparr>ad_keys := Some rows'\<rparr>)
                | (Some _, rows') \<Rightarrow> (RErr (httpxError 500 ''key_revoke_failed'' ''failed to revoke API key'' True), s\<lparr>ad_keys := Some rows'\<rparr>)
                | (None, rows') \<Rightarrow>
                    (ROk 200 keyID, adAudit (aq_env rq) tenantID ''apikeys.revoke'' (''apikey/'' @ keyID) (s\<lparr>ad_keys := Some rows'\<rparr>)))))"

datatype keyReply = KeyPage "apiKeyRecord list" bool | KeyCreated apiKeyCreated | KeyRevoked string

fun mapResp :: "('a \<Rightarrow> 'b) \<Rightarrow> 'a resp \<Rightarrow> 'b resp" where
  "mapResp f (RErr e) = RErr e"
| "mapResp f (ROk n x) = ROk n (f x)"

definition handleAPIKeys ::
  "adminReq \<Rightarrow> string option \<Rightarrow> string + generatedKey \<Rightarrow> string \<Rightarrow> string \<Rightarrow> (string \<Rightarrow> string) \<Rightarrow> string + apiKeyRequest \<Rightarrow>
   adminServer \<Rightarrow> keyReply resp \<times> adminServer" where
  "handleAPIKeys rq fault generated httpMethod urlPath query body s =
     (case ResolveTenantHTTP (aq_getenv rq) (aq_ac rq) of
        Inl e \<Rightarrow> (RErr e, s)
      | Inr tenantID \<Rightarrow>
          (let keyID = trimSlash (TrimPrefix urlPath ''/v1/tenants/api-keys'') in
           if httpMethod = ''GET'' \<and> keyID = [] then (mapResp (\<lambda>(ks, b). KeyPage ks b) (handleAPIKeyList rq fault query tenantID s), s)
           else if httpMethod = ''POST'' \<and> keyID = [] then
             (case handleAPIKeyCreate rq fault generated tenantID body s of (r, s') \<Rightarrow> (mapResp KeyCreated r, s'))
           else if httpMethod = ''DELETE'' \<and> keyID \<noteq> [] then
             (case handleAPIKeyRevoke rq fault tenantID keyID s of (r, s') \<Rightarrow> (mapResp KeyRevoked r, s'))
           else (RErr methodNotAllowed, s)))"

subsection \<open>Members\<close>

record memberRequest =
  mq_PrincipalID :: string
  mq_Role :: string

datatype memberReply = MemberAdded string string string | MemberRemoved string

definition handleMembers ::
  "adminReq \<Rightarrow> string option \<Rightarrow> string \<Rightarrow> string \<Rightarrow> string + memberRequest \<Rightarrow> adminServer \<Rightarrow> memberReply resp \<times> adminServer" where
  "handleMembers rq fault httpMethod urlPath body s0 =
     (case ResolveTenantHTTP (aq_getenv rq) (aq_ac rq) of
        Inl e \<Rightarrow> (RErr e, s0)
      | Inr tenantID \<Rightarrow>
          (case checkRole rq ''owner'' s0 of
             (Some e, s) \<Rightarrow> (RErr e, s)
           | (None, s) \<Rightarrow>
               (case ad_members s of
                  None \<Rightarrow> (RErr (httpxError 501 ''not_implemented'' ''member management requires postgres backend'' False), s)
                | Some tbl \<Rightarrow>
                    (let path = trimSlash (TrimPrefix urlPath ''/v1/tenants/members'') in
                     if httpMethod = ''POST'' then
                       (case body of Inl _ \<Rightarrow> (RErr (httpxError 400 ''invalid_json'' ''invalid request body'' False), s)
                        | Inr req \<Rightarrow>
                            if mq_PrincipalID req = [] \<or> mq_Role req = []
                            then (RErr (httpxError 400 ''missing_field'' ''principal_id and role are required'' False), s)
                            else if mq_Role req \<notin> set validRoles
                            then (RErr (httpxError 400 ''invalid_role'' ''role must be one of: owner, admin, developer, viewer'' False), s)
                            else
                              (case SetRole fault (re_clock (aq_env rq)) tenantID (mq_PrincipalID req) (mq_Role req) tbl of
                                 (Some _, tbl') \<Rightarrow> (RErr (httpxError 500 ''internal'' ''failed to add member'' True), s\<lparr>ad_members := Some tbl'\<rparr>)
                               | (None, tbl') \<Rightarrow>
                                   (ROk 201 (MemberAdded tenantID (mq_PrincipalID req) (mq_Role req)),
                                    adAudit (aq_env rq) tenantID ''members.add'' (''member/'' @ mq_PrincipalID req) (s\<lparr>ad_members := Some tbl'\<rparr>))))
                     else if httpMethod = ''DELETE'' then
                       (if path = [] then (RErr (httpxError 400 ''missing_member_id'' ''member principal_id is required in path'' False), s)
                        else
                          (case DeleteMember fault tenantID path tbl of
                             (Some ErrMemberNotFound, tbl') \<Rightarrow> (RErr (httpxError 404 ''not_found'' ''member not found'' False), s\<lparr>ad_members := Some tbl'\<rparr>)
                           | (Some _, tbl') \<Rightarrow> (RErr (httpxError 500 ''internal'' ''failed to remove member'' True), s\<lparr>ad_members := Some tbl'\<rparr>)
                           | (None, tbl') \<Rightarrow>
                               (ROk 200 (MemberRemoved path),
                                adAudit (aq_env rq) tenantID ''members.remove'' (''member/'' @ path) (s\<lparr>ad_members := Some tbl'\<rparr>))))
                     else (RErr (httpxError 405 ''method_not_allowed'' ''POST or DELETE only'' False), s)))))"

subsection \<open>Endpoints that delegate\<close>

text \<open>The guard of an endpoint whose handler is configured or absent; \<open>Inr\<close> is the handler that answers.\<close>

definition scopedDelegate :: "string \<Rightarrow> authContext \<Rightarrow> 'h option \<Rightarrow> httpError + 'h" where
  "scopedDelegate msg ac h =
     (if \<not> hasScope (ac_Scopes ac) ''tenants:admin'' then Inl scopeRequired
      else case h of None \<Rightarrow> Inl (httpxError 501 ''not_implemented'' msg False) | Some x \<Rightarrow> Inr x)"

definition handleAdminBackupCheck :: "authContext \<Rightarrow> 'h option \<Rightarrow> httpError + 'h" where
  "handleAdminBackupCheck = scopedDelegate ''backup check requires postgres backend''"

definition handleAdminPurge :: "authContext \<Rightarrow> 'h option \<Rightarrow> httpError + 'h" where
  "handleAdminPurge = scopedDelegate ''purge requires postgres backend''"

definition handleAdminPIIScan :: "authContext \<Rightarrow> 'h option \<Rightarrow> httpError + 'h" where
  "handleAdminPIIScan = scopedDelegate ''pii scan requires event log''"

definition handleUsageExport :: "authContext \<Rightarrow> 'h option \<Rightarrow> httpError + 'h" where
  "handleUsageExport = scopedDelegate ''usage export requires postgres backend''"

definition handleUsage :: "adminReq \<Rightarrow> 'h option \<Rightarrow> adminServer \<Rightarrow> (httpError + 'h) \<times> adminServer" where
  "handleUsage rq h s =
     (case checkRole rq ''developer'' s of
        (Some e, s') \<Rightarrow> (Inl e, s')
      | (None, s') \<Rightarrow>
          (case h of None \<Rightarrow> (Inl (httpxError 501 ''not_implemented'' ''usage reporting requires postgres backend'' False), s')
           | Some x \<Rightarrow> (Inr x, s')))"

definition handleDataExport :: "string \<Rightarrow> ('h \<times> 'h) option \<Rightarrow> httpError + 'h" where
  "handleDataExport httpMethod h =
     (case h of None \<Rightarrow> Inl (httpxError 501 ''not_implemented'' ''data export not configured'' False)
      | Some (create, status) \<Rightarrow>
          if httpMethod = ''POST'' then Inr create else if httpMethod = ''GET'' then Inr status
          else Inl (httpxError 405 ''method_not_allowed'' ''POST or GET only'' False))"

definition handleDataDelete :: "'h option \<Rightarrow> httpError + 'h" where
  "handleDataDelete h =
     (case h of None \<Rightarrow> Inl (httpxError 501 ''not_implemented'' ''data delete not configured'' False) | Some x \<Rightarrow> Inr x)"

text \<open>The breaker status: \<open>reporter\<close> is what the provider of the executor reports, absent when there is no executor or
  its provider has no breaker.\<close>

definition handleCircuitBreakerStatus :: "string \<Rightarrow> authContext \<Rightarrow> 'st option \<Rightarrow> 'st option resp" where
  "handleCircuitBreakerStatus httpMethod ac reporter =
     (if httpMethod \<noteq> ''GET'' then RErr methodNotAllowed
      else if \<not> hasScope (ac_Scopes ac) ''tenants:admin'' then RErr scopeRequired
      else ROk 200 reporter)"

subsection \<open>Tenants stay well formed\<close>

definition tenantsOk :: "tenantStore \<Rightarrow> bool" where
  "tenantsOk s \<longleftrightarrow> gwf (tst_tenants s) \<and> list_all (\<lambda>(i, t). i \<noteq> [] \<and> tn_TenantID t = i \<and> tn_Status t \<noteq> []) (tst_tenants s) \<and>
     list_all (\<lambda>i. i \<in> fst ` set (tst_tenants s)) (tst_defaults s)"

lemma tenantsOk_put:
  assumes "tenantsOk s" "i \<noteq> []" "tn_TenantID t = i" "tn_Status t \<noteq> []"
  shows "tenantsOk (s\<lparr>tst_tenants := mput i t (tst_tenants s)\<rparr>)"
  using assms by (auto simp: tenantsOk_def list_all_iff set_mput keys_mput)

lemma tenantsOk_found: "tenantsOk s \<Longrightarrow> mget (tst_tenants s) i = Some t \<Longrightarrow> i \<noteq> [] \<and> tn_TenantID t = i \<and> tn_Status t \<noteq> []"
  by (auto simp: tenantsOk_def list_all_iff dest!: mget_in_set)

text \<open>The changes the program makes to the store: seeding a default at start and the admin handler.\<close>

inductive tenant_step :: "adminServer \<Rightarrow> adminServer \<Rightarrow> bool" where
  ts_default: "tenant_step s (s\<lparr>ad_tenants := EnsureDefault now i (ad_tenants s)\<rparr>)"
| ts_request: "handleTenants env ac httpMethod urlPath body s = (r, s') \<Longrightarrow> tenant_step s s'"

inductive_cases tenant_stepE: "tenant_step s s'"

lemma EnsureDefault_ok:
  assumes "tenantsOk s"
  shows "tenantsOk (EnsureDefault now i s)" "set (tst_defaults s) \<subseteq> set (tst_defaults (EnsureDefault now i s))"
proof -
  consider "i = []" | "i \<noteq> []" "mget (tst_tenants s) i \<noteq> None" | "i \<noteq> []" "mget (tst_tenants s) i = None" by blast
  then show "tenantsOk (EnsureDefault now i s)"
  proof cases
    case 2
    then have "i \<in> fst ` set (tst_tenants s)" by (auto simp: mget_None_iff)
    with 2 assms show ?thesis by (auto simp: EnsureDefault_def tenantsOk_def list_all_iff)
  next
    case 3
    with assms show ?thesis by (auto simp: EnsureDefault_def tenantsOk_def list_all_iff set_mput keys_mput)
  qed (use assms in \<open>simp add: EnsureDefault_def\<close>)
qed (auto simp: EnsureDefault_def)

lemma Tenant_Create_ok:
  assumes "tenantsOk s" "Tenant_Create now t s = (e, s')"
  shows "tenantsOk s' \<and> tst_defaults s' = tst_defaults s"
  using assms tenantsOk_put[OF assms(1), of "tn_TenantID t"]
  by (auto simp: Tenant_Create_def Let_def split: if_splits)

lemma Tenant_Update_ok:
  assumes "tenantsOk s" "Tenant_Update now i t s = (r, s')"
  shows "tenantsOk s' \<and> tst_defaults s' = tst_defaults s"
proof (cases "mget (tst_tenants s) i")
  case (Some cur)
  from tenantsOk_found[OF assms(1) this] have "tenantsOk (s\<lparr>tst_tenants := mput i (mergeTenant now t cur) (tst_tenants s)\<rparr>)"
    by (intro tenantsOk_put[OF assms(1)]) (auto simp: mergeTenant_def)
  with assms Some show ?thesis by (auto simp: Tenant_Update_def Let_def split: if_splits)
qed (use assms in \<open>auto simp: Tenant_Update_def split: if_splits\<close>)

lemma list_all_mdel: "list_all P m \<Longrightarrow> list_all P (mdel k m)"
  by (auto simp: list_all_iff set_mdel)

lemma Tenant_Delete_ok:
  assumes "tenantsOk s" "Tenant_Delete i s = (r, s')"
  shows "tenantsOk s' \<and> tst_defaults s' = tst_defaults s"
  using assms by (auto simp: Tenant_Delete_def tenantsOk_def list_all_mdel list_all_iff[of _ "tst_defaults _"] split: if_splits option.splits)

lemma handleTenants_store:
  assumes "handleTenants env ac httpMethod urlPath body s = (r, s')" "ad_tenants s' \<noteq> ad_tenants s"
  obtains i t e where "Tenant_Create (re_now env) t (ad_tenants s) = (None, ad_tenants s')"
  | i t u where "Tenant_Update (re_now env) i t (ad_tenants s) = (Inr u, ad_tenants s')"
  | i u where "Tenant_Delete i (ad_tenants s) = (Inr u, ad_tenants s')"
  using assms by (auto simp: handleTenants_def Let_def adAudit_def split: if_splits sum.splits prod.splits option.splits)

lemma tenant_step_ok:
  assumes "tenantsOk (ad_tenants s)" "tenant_step s s'"
  shows "tenantsOk (ad_tenants s') \<and> set (tst_defaults (ad_tenants s)) \<subseteq> set (tst_defaults (ad_tenants s'))"
  using assms(2)
proof (rule tenant_stepE)
  fix env ac m p b r
  assume h: "handleTenants env ac m p b s = (r, s')"
  show ?thesis
  proof (cases "ad_tenants s' = ad_tenants s")
    case False
    with h show ?thesis
      by (rule handleTenants_store)
         (use Tenant_Create_ok[OF assms(1)] Tenant_Update_ok[OF assms(1)] Tenant_Delete_ok[OF assms(1)] in fastforce)+
  qed (use assms(1) in simp)
qed (use EnsureDefault_ok[OF assms(1)] in simp)

interpretation tenant_sys: inv_system "\<lambda>s. ad_tenants s = NewTenantStore" tenant_step "\<lambda>s. tenantsOk (ad_tenants s)"
proof
  show "tenantsOk (ad_tenants s)" if "ad_tenants s = NewTenantStore" for s :: adminServer
    using that by (simp add: NewTenantStore_def tenantsOk_def gwf_def)
qed (use tenant_step_ok in blast)

text \<open>C24. Tenants are well formed and default tenants are permanent: in every state the tenant administration can reach,
  each tenant is filed once, under its own non-empty identifier, with a status, and a tenant seeded as a default stays
  registered (and so accepted by the run handlers) after every further sequence of administration requests.\<close>

theorem tenants_wellformed:
  assumes "reachable (\<lambda>s. ad_tenants s = NewTenantStore) tenant_step s" "i \<noteq> []"
    and "tenant_step\<^sup>*\<^sup>* (s\<lparr>ad_tenants := EnsureDefault now i (ad_tenants s)\<rparr>) s'"
  shows "distinct (map fst (tst_tenants (ad_tenants s'))) \<and>
    (\<forall>(j, t) \<in> set (tst_tenants (ad_tenants s')). j \<noteq> [] \<and> tn_TenantID t = j \<and> tn_Status t \<noteq> []) \<and> tenantsExists s' i"
proof -
  let ?s1 = "s\<lparr>ad_tenants := EnsureDefault now i (ad_tenants s)\<rparr>"
  have ok: "tenantsOk (ad_tenants s)" by (rule tenant_sys.inv_reachable[OF assms(1)])
  then have ok1: "tenantsOk (ad_tenants ?s1)" by (simp add: EnsureDefault_ok)
  have ok': "tenantsOk (ad_tenants s')" by (rule tenant_sys.inv_steps[OF assms(3) ok1])
  have "i \<in> set (tst_defaults (ad_tenants ?s1))" using assms(2) by (simp add: EnsureDefault_def)
  with assms(3) have "i \<in> set (tst_defaults (ad_tenants s'))"
  proof (induction rule: rtranclp_induct)
    case (step u v)
    from tenant_sys.inv_steps[OF step(1) ok1] tenant_step_ok[OF _ step(2)] step(3,4) show ?case by blast
  qed
  with ok' have "tenantsExists s' i"
    using assms(2) by (auto simp: tenantsOk_def list_all_iff tenantsExists_def Tenant_Get_def mget_None_iff)
  with ok' show ?thesis by (auto simp: tenantsOk_def list_all_iff gwf_def)
qed

definition sampleAdmin :: adminServer where
  "sampleAdmin = \<lparr>ad_srv = sampleServer, ad_tenants = NewTenantStore, ad_keys = Some [], ad_members = Some sampleMembers,
     ad_kv = Some [], ad_kvCfg = NewFileKVStore ''d'' 0 0, ad_kvMaxValueSize = 10, ad_memoryDir = None\<rparr>"

definition sampleAdminReq :: "authContext \<Rightarrow> adminReq" where
  "sampleAdminReq ac = \<lparr>aq_env = sampleReqEnv, aq_getenv = (\<lambda>_. []),
     aq_faults = \<lparr>pf_getRole = None, pf_count = None, pf_setRole = None, pf_apiKey = None\<rparr>, aq_ac = ac\<rparr>"

theorem tenants_wellformed_witness:
  "tenantsExists (snd (handleTenants sampleReqEnv (emptyAuthContext\<lparr>ac_Scopes := [''tenants:admin'']\<rparr>) ''DELETE'' ''/v1/admin/tenants/acme'' (Inl [])
     (sampleAdmin\<lparr>ad_tenants := EnsureDefault ''now'' ''acme'' NewTenantStore\<rparr>))) ''acme''"
proof -
  let ?s0 = "sampleAdmin\<lparr>ad_tenants := NewTenantStore\<rparr>"
  let ?s1 = "?s0\<lparr>ad_tenants := EnsureDefault ''now'' ''acme'' (ad_tenants ?s0)\<rparr>"
  let ?ac = "emptyAuthContext\<lparr>ac_Scopes := [''tenants:admin'']\<rparr>"
  have "tenant_step\<^sup>*\<^sup>* ?s1 (snd (handleTenants sampleReqEnv ?ac ''DELETE'' ''/v1/admin/tenants/acme'' (Inl []) ?s1))"
    by (rule r_into_rtranclp, rule ts_request, rule prod.collapse[symmetric])
  from tenants_wellformed[OF reach_init _ this] show ?thesis by simp
qed

subsection \<open>Key and member administration\<close>

lemma checkRole_admits:
  assumes "checkRole rq role s = (None, s')" "ad_members s = Some tbl" "gwf tbl"
  obtains t r tbl' where "RequireTenant (aq_getenv rq) (aq_ac rq) = Inr t" "HasPermission r role"
    "ac_Role (aq_ac rq) \<noteq> [] \<and> r = ac_Role (aq_ac rq) \<or> ac_Role (aq_ac rq) = [] \<and> roleView tbl' t (ac_PrincipalID (aq_ac rq)) = Some r"
    "s' = s\<lparr>ad_members := Some tbl'\<rparr>" "\<And>u p. u \<noteq> t \<Longrightarrow> roleView tbl' u p = roleView tbl u p"
    "tbl' \<noteq> tbl \<Longrightarrow> \<forall>p. roleView tbl t p = None"
proof -
  let ?g = "GetRole (pf_getRole (aq_faults rq))" and ?c = "CountMembers (pf_count (aq_faults rq))"
  let ?st = "SetRole (pf_setRole (aq_faults rq)) (re_clock (aq_env rq))"
  obtain ms where q: "requireRole (aq_getenv rq) (aq_faults rq) (re_clock (aq_env rq)) role (Some (aq_ac rq)) (Some tbl) = (None, ms)"
    "s' = s\<lparr>ad_members := ms\<rparr>"
    using assms(1,2) by (auto simp: checkRole_def split: prod.splits)
  from requireRole_passes[OF q(1)] obtain res tbl' where
    R: "RBACMiddleware (aq_getenv rq) ?g ?c ?st role (Some (aq_ac rq)) (Some tbl) = (Inr res, Some tbl')" "ms = Some tbl'" by metis
  from pgm.RBAC_sound[OF assms(3) R(1)] obtain t r where
    tr: "RequireTenant (aq_getenv rq) (aq_ac rq) = Inr t" "HasPermission r role"
      "ac_Role (aq_ac rq) \<noteq> [] \<and> r = ac_Role (aq_ac rq) \<or> ac_Role (aq_ac rq) = [] \<and> roleView tbl' t (ac_PrincipalID (aq_ac rq)) = Some r"
      "tbl' \<noteq> tbl \<Longrightarrow> \<forall>p. roleView tbl t p = None" by blast
  have "\<exists>res. resolveRole ?g ?c ?st t (aq_ac rq) tbl = (res, tbl')"
    using R(1) tr(1) by (auto simp: RBACMiddleware_def split: if_splits sum.splits prod.splits)
  then obtain res where "resolveRole ?g ?c ?st t (aq_ac rq) tbl = (res, tbl')" ..
  from pgm.resolveRole_sound(2)[OF assms(3) this] have "roleView tbl' u p = roleView tbl u p" if "u \<noteq> t" for u p
    using that by (cases "tbl' = tbl") auto
  with tr q(2) R(2) that show thesis by blast
qed

lemma checkRole_keeps:
  "checkRole rq role s = (e, s') \<Longrightarrow> ad_keys s' = ad_keys s \<and> ad_srv s' = ad_srv s \<and> ad_tenants s' = ad_tenants s"
  by (auto simp: checkRole_def split: prod.splits)

lemma ResolveTenantHTTP_iff: "ResolveTenantHTTP getenv ac = Inr t \<longleftrightarrow> RequireTenant getenv ac = Inr t"
  by (auto simp: ResolveTenantHTTP_def split: sum.splits tenantErr.splits)

text \<open>How a table of keys may change under the administration of tenant \<open>t\<close>: the other tenants' rows stay, a row at
  most becomes revoked, and new rows belong to \<open>t\<close>.\<close>

definition keysGrow :: "string \<Rightarrow> apiKeyRecord list \<Rightarrow> apiKeyRecord list \<Rightarrow> bool" where
  "keysGrow t rows rows' \<longleftrightarrow> filter (\<lambda>k. ak_TenantID k \<noteq> t) rows' = filter (\<lambda>k. ak_TenantID k \<noteq> t) rows \<and>
     list_all2 (\<lambda>k k'. k' = k \<or> ak_RevokedAt k = None \<and> (\<exists>d. k' = k\<lparr>ak_RevokedAt := Some d\<rparr>)) rows (take (length rows) rows')"

lemma filter_revokeRow: "filter (\<lambda>k. ak_TenantID k \<noteq> t) (map (revokeRow now t i) rows) = filter (\<lambda>k. ak_TenantID k \<noteq> t) rows"
  by (induction rows) (auto simp: revokeRow_def revokeHit_def)

lemma keysGrow_create: "keysGrow (ak_TenantID key) rows (rows @ [key])"
  by (simp add: keysGrow_def list_all2_refl)

lemma keysGrow_revoke: "keysGrow t rows (map (revokeRow now t i) rows)"
  by (auto simp: keysGrow_def filter_revokeRow list_all2_conv_all_nth revokeRow_def revokeHit_def)

lemma handleAPIKeyCreate_change:
  assumes "handleAPIKeyCreate rq fault g t body s = (r, s')" "ad_keys s' \<noteq> ad_keys s"
  obtains s1 rows rows' i where "checkRole rq ''admin'' s = (None, s1)" "ad_keys s = Some rows" "keysGrow t rows rows'"
    "s' = adAudit (aq_env rq) t ''apikeys.create'' i (s1\<lparr>ad_keys := Some rows'\<rparr>)"
proof -
  obtain c s1 where c: "checkRole rq ''admin'' s = (c, s1)" by (cases "checkRole rq ''admin'' s")
  note k = checkRole_keeps[OF c]
  from assms c k have "c = None" by (cases c) (auto simp: handleAPIKeyCreate_def)
  moreover from this assms c k obtain rows req gk where m: "ad_keys s = Some rows" "body = Inr req" "g = Inr gk"
    by (auto simp: handleAPIKeyCreate_def Let_def split: option.splits sum.splits if_splits)
  ultimately have "\<exists>key. ak_TenantID key = t \<and>
      s' = adAudit (aq_env rq) t ''apikeys.create'' (''apikey/'' @ gk_keyID gk) (s1\<lparr>ad_keys := Some (rows @ [key])\<rparr>)"
    using assms c k
    by (cases fault) (auto simp: handleAPIKeyCreate_def Let_def APIKey_Create_def split: if_splits, (rule exI, rule conjI[rotated], rule refl, simp)+)
  with c k m \<open>c = None\<close> keysGrow_create[of _ rows] that show thesis by metis
qed

lemma handleAPIKeyRevoke_change:
  assumes "handleAPIKeyRevoke rq fault t i s = (r, s')" "ad_keys s' \<noteq> ad_keys s"
  obtains s1 rows rows' where "checkRole rq ''admin'' s = (None, s1)" "ad_keys s = Some rows" "keysGrow t rows rows'"
    "s' = adAudit (aq_env rq) t ''apikeys.revoke'' (''apikey/'' @ i) (s1\<lparr>ad_keys := Some rows'\<rparr>)"
proof -
  obtain c s1 where c: "checkRole rq ''admin'' s = (c, s1)" by (cases "checkRole rq ''admin'' s")
  note k = checkRole_keeps[OF c]
  from assms c k have "c = None" by (cases c) (auto simp: handleAPIKeyRevoke_def)
  with assms c k that keysGrow_revoke show thesis
    by (fastforce simp: handleAPIKeyRevoke_def Revoke_def split: option.splits sum.splits if_splits)
qed

lemma handleAPIKeys_change:
  assumes "handleAPIKeys rq fault g m p query body s = (r, s')" "ad_keys s' \<noteq> ad_keys s"
  obtains t s1 rows rows' act i where "RequireTenant (aq_getenv rq) (aq_ac rq) = Inr t" "checkRole rq ''admin'' s = (None, s1)"
    "ad_keys s = Some rows" "keysGrow t rows rows'" "act \<in> {''apikeys.create'', ''apikeys.revoke''}"
    "s' = adAudit (aq_env rq) t act i (s1\<lparr>ad_keys := Some rows'\<rparr>)"
proof -
  obtain t where t: "ResolveTenantHTTP (aq_getenv rq) (aq_ac rq) = Inr t"
    using assms by (cases "ResolveTenantHTTP (aq_getenv rq) (aq_ac rq)") (auto simp: handleAPIKeys_def)
  define i where "i = trimSlash (TrimPrefix p ''/v1/tenants/api-keys'')"
  from assms t consider r1 where "handleAPIKeyCreate rq fault g t body s = (r1, s')" | r1 where "handleAPIKeyRevoke rq fault t i s = (r1, s')"
    by (auto simp: handleAPIKeys_def Let_def i_def split: if_splits prod.splits)
  then show thesis
  proof cases
    case 1
    then show ?thesis using assms(2)
      by (rule handleAPIKeyCreate_change) (rule that, use t in \<open>auto simp: ResolveTenantHTTP_iff\<close>)
  next
    case 2
    then show ?thesis using assms(2)
      by (rule handleAPIKeyRevoke_change) (rule that, use t in \<open>auto simp: ResolveTenantHTTP_iff\<close>)
  qed
qed

text \<open>Key administration is contained: a request to the API-key endpoint changes the key table only if its tenant is
  resolved and its role in that tenant (the one an API key carries, else the one the member table holds) has admin
  permission; then the rows of other tenants stay as they are, no row disappears, a row at most becomes revoked and none
  becomes valid again, and exactly one audit entry is written, under that tenant.\<close>

theorem api_key_admin_contained:
  assumes "handleAPIKeys rq fault g m p query body s = (r, s')" "ad_keys s' \<noteq> ad_keys s"
    and "ad_members s = Some tbl" "gwf tbl"
  shows "\<exists>t rl tbl' rows rows' e. RequireTenant (aq_getenv rq) (aq_ac rq) = Inr t \<and> HasPermission rl ''admin'' \<and>
      (ac_Role (aq_ac rq) \<noteq> [] \<and> rl = ac_Role (aq_ac rq) \<or> ac_Role (aq_ac rq) = [] \<and> roleView tbl' t (ac_PrincipalID (aq_ac rq)) = Some rl) \<and>
      ad_members s' = Some tbl' \<and> ad_keys s = Some rows \<and> ad_keys s' = Some rows' \<and>
      filter (\<lambda>k. ak_TenantID k \<noteq> t) rows' = filter (\<lambda>k. ak_TenantID k \<noteq> t) rows \<and>
      list_all2 (\<lambda>k k'. k' = k \<or> ak_RevokedAt k = None \<and> (\<exists>d. k' = k\<lparr>ak_RevokedAt := Some d\<rparr>)) rows (take (length rows) rows') \<and>
      sv_audit (ad_srv s') = sv_audit (ad_srv s) @ [e] \<and> au_TenantID e = t \<and> au_Outcome e = ''allowed''"
proof -
  obtain t s1 rows rows' act i where c: "RequireTenant (aq_getenv rq) (aq_ac rq) = Inr t" "checkRole rq ''admin'' s = (None, s1)"
    "ad_keys s = Some rows" "keysGrow t rows rows'" "s' = adAudit (aq_env rq) t act i (s1\<lparr>ad_keys := Some rows'\<rparr>)"
    using assms(1,2) by (rule handleAPIKeys_change)
  obtain u rl tbl' where a: "RequireTenant (aq_getenv rq) (aq_ac rq) = Inr u" "HasPermission rl ''admin''"
    "ac_Role (aq_ac rq) \<noteq> [] \<and> rl = ac_Role (aq_ac rq) \<or> ac_Role (aq_ac rq) = [] \<and> roleView tbl' u (ac_PrincipalID (aq_ac rq)) = Some rl"
    "s1 = s\<lparr>ad_members := Some tbl'\<rparr>"
    using c(2) assms(3,4) by (rule checkRole_admits)
  have "sv_audit (ad_srv s') = sv_audit (ad_srv s) @ [\<lparr>au_TenantID = t, au_PrincipalID = re_principal (aq_env rq), au_Action = act,
      au_Resource = i, au_Outcome = ''allowed'', au_RequestID = re_requestID (aq_env rq), au_Meta = []\<rparr>]" (is "_ = _ @ [?e]")
    by (simp add: c(5) a(4) adAudit_def auditLog_def)
  moreover have "ad_members s' = Some tbl'" "ad_keys s' = Some rows'" by (simp_all add: c(5) a(4) adAudit_def)
  ultimately show ?thesis using a(1-3) c(1,3,4)
    by (intro exI[of _ t] exI[of _ rl] exI[of _ tbl'] exI[of _ rows] exI[of _ rows'] exI[of _ ?e]) (simp add: keysGrow_def)
qed

definition adminAlice :: authContext where
  "adminAlice = emptyAuthContext\<lparr>ac_TenantID := ''t1'', ac_PrincipalID := ''alice''\<rparr>"

definition sampleGen :: generatedKey where
  "sampleGen = \<lparr>gk_keyID = ''key_1'', gk_fullKey = sampleToken, gk_prefix = ''01234567'', gk_keyHash = ''h''\<rparr>"

theorem api_key_admin_contained_witness:
  "\<exists>rl. HasPermission rl ''admin'' \<and> roleView sampleMembers ''t1'' ''alice'' = Some rl"
proof -
  let ?h = "handleAPIKeys (sampleAdminReq adminAlice) None (Inr sampleGen) ''POST'' ''/v1/tenants/api-keys'' (\<lambda>_. [])
    (Inr \<lparr>kq_Name = [], kq_Role = [], kq_ExpiresInDays = Some 30\<rparr>) sampleAdmin"
  have "ad_keys (snd ?h) \<noteq> ad_keys sampleAdmin \<and> ad_members (snd ?h) = Some sampleMembers" by code_simp
  moreover obtain r s' where h: "?h = (r, s')" by (cases ?h)
  ultimately have k: "ad_keys s' \<noteq> ad_keys sampleAdmin" "ad_members s' = Some sampleMembers" by simp_all
  have "ad_members sampleAdmin = Some sampleMembers" "gwf sampleMembers" by (simp_all add: sampleAdmin_def gwf_def sampleMembers_def)
  from api_key_admin_contained[OF h k(1) this] k(2)
  obtain t rl where "RequireTenant (\<lambda>_. []) adminAlice = Inr t" "HasPermission rl ''admin''" "roleView sampleMembers t ''alice'' = Some rl"
    by (auto simp: sampleAdminReq_def adminAlice_def emptyAuthContext_def)
  moreover have "RequireTenant (\<lambda>_. []) adminAlice = Inr ''t1''" by code_simp
  ultimately show ?thesis by auto
qed

text \<open>Member administration stays within the caller's tenant too, and needs the owner role.\<close>

lemma handleMembers_contained:
  assumes "handleMembers rq fault m p body s = (r, s')" "ad_members s = Some tbl" "gwf tbl"
    and "RequireTenant (aq_getenv rq) (aq_ac rq) \<noteq> Inr u" "ad_members s' = Some tbl'"
    and "checkRole rq ''owner'' s = (None, s1)"
  shows "roleView tbl' u q = roleView tbl u q"
proof -
  obtain t tbl1 where a: "RequireTenant (aq_getenv rq) (aq_ac rq) = Inr t" "s1 = s\<lparr>ad_members := Some tbl1\<rparr>"
    "\<And>u p. u \<noteq> t \<Longrightarrow> roleView tbl1 u p = roleView tbl u p"
    using assms(6,2,3) by (rule checkRole_admits) (rule that)
  have "u \<noteq> t" using a(1) assms(4) by simp
  moreover have "ResolveTenantHTTP (aq_getenv rq) (aq_ac rq) = Inr t" by (simp add: ResolveTenantHTTP_iff a(1))
  ultimately have "roleView tbl' u q = roleView tbl1 u q"
    using assms(1,5,6) a(2)
    by (auto simp: handleMembers_def Let_def adAudit_def SetRole_def DeleteMember_def roleView_def
        split: if_splits sum.splits option.splits storeErr.splits)
  with a(3) \<open>u \<noteq> t\<close> show ?thesis by simp
qed

subsection \<open>Who the guards exclude\<close>

text \<open>The scope that guards tenant administration is taken from the X-Scopes header when no bearer token is given: the
  middlewares let such a request through as it is, with or without an identity provider.\<close>

lemma header_scope_administers_tenants:
  assumes "TrimSpace (header ''Authorization'') = []" "header ''X-Scopes'' = ''tenants:admin''" "mget (tst_tenants (ad_tenants s)) i = Some t"
    and "i \<notin> set (tst_defaults (ad_tenants s))" "i \<noteq> []" "trimSlash i = i" "mget (tst_tenants (ad_tenants s)) [] = None"
  shows "\<exists>ac. WithAuth oidc header = Inr ac \<and>
    APIKeyMiddleware getenv bcryptOk now (Some (GetByPrefix f keys, Some (LookupByPrefix f keys))) ac = Inr ac \<and>
    fst (handleTenants env ac ''DELETE'' (''/v1/admin/tenants/'' @ i) (Inl []) s) = ROk 200 (TenantDeleted i)"
proof -
  let ?ac = "FromRequest header"
  have b: "ac_BearerToken ?ac = []" using FromRequest_no_authz[of header, OF assms(1)] by simp
  have "parseScopes ''tenants:admin'' = [''tenants:admin'']" by code_simp
  then have "ac_Scopes ?ac = [''tenants:admin'']"
    using assms(1,2) by (simp add: FromRequest_def Let_def ToLower_def)
  moreover have "hasScope [''tenants:admin''] ''tenants:admin''" by code_simp
  moreover have "trimSlash (TrimPrefix (''/v1/admin/tenants/'' @ i) ''/v1/admin/tenants'') = i"
    using assms(6) by (simp add: TrimPrefix_def trimSlash_def)
  ultimately have "fst (handleTenants env ?ac ''DELETE'' (''/v1/admin/tenants/'' @ i) (Inl []) s) = ROk 200 (TenantDeleted i)"
    using assms(3-5) by (simp add: handleTenants_def Tenant_Delete_def)
  moreover have "APIKeyMiddleware getenv bcryptOk now (Some (GetByPrefix f keys, Some (LookupByPrefix f keys))) ?ac = Inr ?ac"
    using b by (simp add: APIKeyMiddleware_def)
  ultimately show ?thesis using WithAuth_no_token[OF b] by blast
qed

text \<open>An admin may mint a key with the owner role, which no admin has.\<close>

lemma admin_mints_owner_key:
  "let s = sampleAdmin\<lparr>ad_members := Some [((''t1'', ''bob''), \<lparr>mem_Role = ''admin'', mem_CreatedAt = 0, mem_UpdatedAt = 0\<rparr>)]\<rparr>;
       ac = emptyAuthContext\<lparr>ac_TenantID := ''t1'', ac_PrincipalID := ''bob''\<rparr>;
       s' = snd (handleAPIKeys (sampleAdminReq ac) None (Inr sampleGen) ''POST'' ''/v1/tenants/api-keys'' (\<lambda>_. [])
                   (Inr \<lparr>kq_Name = [], kq_Role = ''owner'', kq_ExpiresInDays = None\<rparr>) s) in
   \<not> HasPermission ''admin'' ''owner'' \<and> map_option (map ak_Role) (ad_keys s') = Some [''owner'']"
  by code_simp

text \<open>An owner who removes the last member opens the tenant: the next principal that names it becomes its owner.\<close>

lemma last_member_removed_reopens:
  "let s1 = snd (handleMembers (sampleAdminReq adminAlice) None ''DELETE'' ''/v1/tenants/members/alice'' (Inl []) sampleAdmin);
       (e, s2) = checkRole (sampleAdminReq (adminAlice\<lparr>ac_PrincipalID := ''mallory''\<rparr>)) ''owner'' s1 in
   e = None \<and> map_option (\<lambda>tbl. roleView tbl ''t1'' ''mallory'') (ad_members s2) = Some (Some ''owner'')"
  by code_simp

text \<open>The pages of the key list are cut by key identifier, but the list is ordered by creation time: following the
  cursor misses keys.\<close>

lemma key_pages_lose_keys:
  "let k = (\<lambda>i c. sampleKey\<lparr>ak_KeyID := i, ak_CreatedAt := c\<rparr>);
       s = sampleAdmin\<lparr>ad_keys := Some [k ''key_a'' 2, k ''key_b'' 3, k ''key_c'' 1]\<rparr>;
       page = (\<lambda>after. handleAPIKeyList (sampleAdminReq adminAlice) None (\<lambda>q. if q = ''limit'' then ''1'' else after) ''t1'' s) in
   mapResp (\<lambda>(ks, b). (map ak_KeyID ks, b)) (page []) = ROk 200 ([''key_b''], True) \<and>
   mapResp (\<lambda>(ks, b). (map ak_KeyID ks, b)) (page ''key_b'') = ROk 200 ([''key_c''], False)"
  by code_simp

text \<open>A created tenant is answered as it was sent: the status the store gives it is not in the answer.\<close>

lemma created_tenant_echoed:
  assumes "hasScope (ac_Scopes ac) ''tenants:admin''" "tn_TenantID t = ''x''" "tn_Status t = []" "mget (tst_tenants (ad_tenants s)) ''x'' = None"
  shows "\<exists>s'. handleTenants env ac ''POST'' ''/v1/admin/tenants'' (Inr t) s = (ROk 201 (TenantOne t), s') \<and>
    map_option tn_Status (Tenant_Get ''x'' (ad_tenants s')) = Some ''active''"
  using assms by (simp add: handleTenants_def TrimPrefix_def trimSlash_def Tenant_Create_def Let_def adAudit_def Tenant_Get_def)

text \<open>A value stored over HTTP is the value read back, by any later request that is not cancelled (a decoded JSON string is
  valid UTF-8).\<close>

lemma kv_http_roundtrip:
  assumes "handleKV env ''PUT'' t a [k] (Inr raw) decodeValue s = (ROk 200 (KVStored k), s')"
    and "decodeValue (readKVBody (ad_kvMaxValueSize s) raw) = Some v" "validUtf8 v" "re_ctx env' = None"
  shows "handleKV env' ''GET'' t a [k] b decodeValue s' = (ROk 200 (KVValue k v), s')"
proof -
  obtain kv kv' where kv: "ad_kv s = Some kv" "KV_Set (re_ctx env) (re_io env) (ad_kvCfg s) t a k v kv = (None, kv')"
    "s' = s\<lparr>ad_kv := Some kv'\<rparr>" and k: "ValidateKey k = None"
    using assms(1,2) by (auto simp: handleKV_def split: option.splits prod.splits fsErr.splits)
  from kv(2) k obtain d where "kv' = mput (agentFile (kv_dataDir (ad_kvCfg s)) t a) (Content (kvEncode (mput k v d))) kv"
    by (auto simp: KV_Set_def writeFile_def Let_def split: option.splits if_splits sum.splits)
  then have "KV_Get None (ad_kvCfg s) t a k kv' = Inr (Some v)" using assms(3) by (simp add: KV_Get_def k fileAt_mput readFile_def jsonUtf8_valid)
  then show ?thesis by (simp add: handleKV_def kv(3) k assms(4))
qed

end
