(* ===== verification/Audit_Log.thy ===== *)
theory Audit_Log
  imports Pii Tenant_Admin Cursor_Paging
begin

text \<open>
  The audit log: the JSON-lines logger (internal/audit/logger.go), the scrubber of sensitive details
  (internal/audit/scrubber.go), the query of the admin API (internal/admin/audit_query.go, handleAuditLog of
  agentorchestrator/server.go), the PostgreSQL audit table (internal/storage/postgres/audit_store.go) and the PII scan
  of a run's events (internal/compliance/pii_scan.go).

  \<^item> A logger is the sink it was opened on, whether it is closed and what was written; JSON coding, the clock and the
    faults of the operating system are arguments.
  \<^item> The order in which \<open>sort.Slice\<close> leaves entries of equal time is an argument, constrained to be a sorted permutation.
  \<^item> Shown: scrubbing covers every path through objects; paging through the log returns each matching entry once when
    times differ; the log of a logger is exactly what was logged before it was closed.
\<close>

subsection \<open>The logger\<close>

record logEntry =
  le_Time :: string
  le_TenantID :: string
  le_PrincipalID :: string
  le_Action :: string
  le_Resource :: string
  le_Outcome :: string
  le_CorrelationID :: string
  le_RequestID :: string
  le_Meta :: "(string, json) gomap option"

datatype auditSink = SinkStdout | SinkStderr | SinkFile string

record jsonLineLogger =
  jl_sink :: auditSink
  jl_closed :: bool
  jl_closeOnce :: bool
  jl_lines :: "string list"

record sysFaults =
  sf_write :: "string option"
  sf_close :: "string option"

definition Logger_Log :: "string \<Rightarrow> (logEntry \<Rightarrow> string + string) \<Rightarrow> sysFaults \<Rightarrow> logEntry \<Rightarrow> jsonLineLogger \<Rightarrow> jsonLineLogger" where
  "Logger_Log now marshal sf e l =
     (if jl_closed l then l
      else
        (let e' = (if le_Time e = [] then e\<lparr>le_Time := now\<rparr> else e) in
         case marshal e' of Inl _ \<Rightarrow> l
         | Inr b \<Rightarrow> (case sf_write sf of Some _ \<Rightarrow> l | None \<Rightarrow> l\<lparr>jl_lines := jl_lines l @ [b]\<rparr>)))"

definition Logger_Close :: "sysFaults \<Rightarrow> jsonLineLogger \<Rightarrow> string option \<times> jsonLineLogger" where
  "Logger_Close sf l =
     (if jl_closeOnce l then (None, l)
      else ((case jl_sink l of SinkFile _ \<Rightarrow> sf_close sf | _ \<Rightarrow> None), l\<lparr>jl_closed := True, jl_closeOnce := True\<rparr>))"

definition auditSinkName :: "(string \<Rightarrow> string) \<Rightarrow> string" where
  "auditSinkName getenv =
     (let sink = TrimSpace (getenv ''AGENTOS_AUDIT_SINK'') in
      if sink = [] then
        (let svc = TrimSpace (getenv ''AGENTOS_SERVICE'');
             name = (if svc \<noteq> [] then svc @ ''.audit.log'' else ''audit.log'') in
         ''file:'' @ joinPath [''data'', ''audit'', name])
      else sink)"

text \<open>\<open>openFile\<close> tells whether the file of a path can be opened for appending.\<close>

definition Audit_NewFromEnv :: "(string \<Rightarrow> string) \<Rightarrow> (string \<Rightarrow> bool) \<Rightarrow> jsonLineLogger" where
  "Audit_NewFromEnv getenv openFile =
     (let sink = auditSinkName getenv;
          mk = (\<lambda>k. \<lparr>jl_sink = k, jl_closed = False, jl_closeOnce = False, jl_lines = []\<rparr>) in
      if sink = [] \<or> sink = ''stdout'' then mk SinkStdout
      else if sink = ''stderr'' then mk SinkStderr
      else if HasPrefix sink ''file:'' then
        (let p = TrimPrefix sink ''file:'' in if openFile p then mk (SinkFile p) else mk SinkStdout)
      else mk SinkStdout)"

subsection \<open>The scrubber\<close>

definition redacted :: string where "redacted = ''[REDACTED]''"

definition sensitiveKeys :: "string list" where
  "sensitiveKeys = [''password'', ''secret'', ''token'', ''api_key'', ''apikey'', ''authorization'']"

definition isSensitive :: "string \<Rightarrow> bool" where
  "isSensitive key \<longleftrightarrow> ToLower key \<in> set sensitiveKeys"

text \<open>A string without detections stays; a panic of the redactor would be \<open>None\<close>.\<close>

definition scrubString :: "string \<Rightarrow> string option" where
  "scrubString s = (let dets = Scan (NewDetector []) s in if dets \<noteq> [] then Redact s dets else Some s)"

lemma size_json_object: "(k, v) \<in> set m \<Longrightarrow> size v < Suc (size_list (size_prod (\<lambda>x. 0) size) m)"
  by (induction m) auto

function scrubValue :: "string \<Rightarrow> json \<Rightarrow> json option" where
  "scrubValue k v =
     (if isSensitive k then Some (JStr redacted)
      else case v of
        JObj m \<Rightarrow> map_option JObj (those (map (\<lambda>(k', v'). map_option (Pair k') (scrubValue k' v')) m))
      | JStr s \<Rightarrow> map_option JStr (scrubString s)
      | _ \<Rightarrow> Some v)"
  by pat_completeness auto
termination
  by (relation "measure (\<lambda>(k, v). size v)") (auto dest: size_json_object)

declare scrubValue.simps [simp del]

definition Scrub :: "(string, json) gomap option \<Rightarrow> (string, json) gomap option option" where
  "Scrub detail =
     (case detail of None \<Rightarrow> Some None
      | Some m \<Rightarrow> map_option Some (those (map (\<lambda>(k, v). map_option (Pair k) (scrubValue k v)) m)))"

type_synonym httpHeader = "(string, string list) gomap"

definition headerGet :: "httpHeader \<Rightarrow> string \<Rightarrow> string" where
  "headerGet h k = (case zget [] h k of [] \<Rightarrow> [] | v # _ \<Rightarrow> v)"

definition ScrubHeaders :: "httpHeader option \<Rightarrow> httpHeader option" where
  "ScrubHeaders headers =
     map_option (\<lambda>h. if headerGet h ''Authorization'' \<noteq> [] then mput ''Authorization'' [redacted] h else h) headers"

subsection \<open>The query\<close>

record auditQueryParams =
  aqp_Start :: string
  aqp_End :: string
  aqp_Action :: string
  aqp_Limit :: int
  aqp_After :: string

definition auditLimit :: "int \<Rightarrow> int" where
  "auditLimit n = (let l = (if n \<le> 0 then 50 else n) in if l > 200 then 200 else l)"

definition filterStart :: "(string \<Rightarrow> time option) \<Rightarrow> string \<Rightarrow> logEntry list \<Rightarrow> logEntry list" where
  "filterStart parseTime start entries =
     (if start = [] then entries
      else case parseTime start of None \<Rightarrow> entries
        | Some s \<Rightarrow> filter (\<lambda>e. case parseTime (le_Time e) of None \<Rightarrow> False | Some t \<Rightarrow> \<not> t < s) entries)"

definition filterEnd :: "(string \<Rightarrow> time option) \<Rightarrow> string \<Rightarrow> logEntry list \<Rightarrow> logEntry list" where
  "filterEnd parseTime finish entries =
     (if finish = [] then entries
      else case parseTime finish of None \<Rightarrow> entries
        | Some s \<Rightarrow> filter (\<lambda>e. case parseTime (le_Time e) of None \<Rightarrow> False | Some t \<Rightarrow> \<not> t > s) entries)"

definition filterAction :: "string \<Rightarrow> logEntry list \<Rightarrow> logEntry list" where
  "filterAction action entries = (if action = [] then entries else filter (\<lambda>e. le_Action e = action) entries)"

text \<open>\<open>reader\<close> is what ReadAll of the logger returns, absent when the logger has no such method.\<close>

definition QueryAuditLog ::
  "(logEntry list \<Rightarrow> logEntry list) \<Rightarrow> (string \<Rightarrow> time option) \<Rightarrow> logEntry list option \<Rightarrow> auditQueryParams \<Rightarrow> logEntry list \<times> bool" where
  "QueryAuditLog sortSlice parseTime reader params =
     (let limit = auditLimit (aqp_Limit params) in
      case reader of None \<Rightarrow> ([], False)
      | Some all \<Rightarrow>
          (let entries = filterAction (aqp_Action params) (filterEnd parseTime (aqp_End params)
                           (filterStart parseTime (aqp_Start params) (sortSlice all)));
               rest = (if aqp_After params \<noteq> [] then dropWhile (\<lambda>e. le_Time e \<le> aqp_After params) entries else entries);
               hasMore = int (length rest) > limit in
           (if hasMore then take (nat limit) rest else rest, hasMore)))"

definition handleAuditLog ::
  "(logEntry list \<Rightarrow> logEntry list) \<Rightarrow> (string \<Rightarrow> time option) \<Rightarrow> string \<Rightarrow> authContext \<Rightarrow> (string \<Rightarrow> string) \<Rightarrow> logEntry list option
   \<Rightarrow> (logEntry list \<times> bool) resp" where
  "handleAuditLog sortSlice parseTime httpMethod ac query reader =
     (if httpMethod \<noteq> ''GET'' then RErr methodNotAllowed
      else if \<not> hasScope (ac_Scopes ac) ''tenants:admin'' then RErr scopeRequired
      else ROk 200 (QueryAuditLog sortSlice parseTime reader
             \<lparr>aqp_Start = query ''start'', aqp_End = query ''end'', aqp_Action = query ''action'',
              aqp_Limit = listLimit (query ''limit''), aqp_After = query ''after''\<rparr>))"

subsection \<open>The audit table\<close>

record auditEvent =
  ae_TenantID :: string
  ae_Action :: string
  ae_Actor :: string
  ae_Detail :: string
  ae_Timestamp :: "time option"

definition Audit_Store :: "string option \<Rightarrow> time \<Rightarrow> (json \<Rightarrow> string + string) \<Rightarrow> json \<Rightarrow> auditEvent \<Rightarrow> auditEvent list \<Rightarrow> string option \<times> auditEvent list" where
  "Audit_Store fault now marshal detail e rows =
     (case marshal detail of Inl m \<Rightarrow> (Some (''marshal audit detail: '' @ m), rows)
      | Inr d \<Rightarrow>
          (case fault of Some f \<Rightarrow> (Some f, rows)
           | None \<Rightarrow> (None, rows @ [e\<lparr>ae_Detail := d,
                        ae_Timestamp := Some (case ae_Timestamp e of None \<Rightarrow> now | Some ts \<Rightarrow> ts)\<rparr>])))"

fun decodeRows :: "(string \<Rightarrow> string + json) \<Rightarrow> auditEvent list \<Rightarrow> string + (auditEvent \<times> json option) list" where
  "decodeRows unmarshal [] = Inr []"
| "decodeRows unmarshal (e # es) =
     (case (if ae_Detail e = [] then Inr None else case unmarshal (ae_Detail e) of Inl m \<Rightarrow> Inl (''unmarshal audit detail: '' @ m) | Inr j \<Rightarrow> Inr (Some j)) of
        Inl m \<Rightarrow> Inl m
      | Inr d \<Rightarrow> (case decodeRows unmarshal es of Inl m \<Rightarrow> Inl m | Inr ds \<Rightarrow> Inr ((e, d) # ds)))"

definition Audit_List ::
  "string option \<Rightarrow> (string \<Rightarrow> string + json) \<Rightarrow> string \<Rightarrow> int \<Rightarrow> auditEvent list \<Rightarrow> string + (auditEvent \<times> json option) list" where
  "Audit_List fault unmarshal tenantID limit rows =
     (if tenantID = [] then Inr []
      else
        (let limit' = (if limit \<le> 0 then 100 else limit) in
         case fault of Some f \<Rightarrow> Inl f
         | None \<Rightarrow> decodeRows unmarshal (take (nat limit')
               (sort_key (\<lambda>e. case ae_Timestamp e of None \<Rightarrow> 0 | Some ts \<Rightarrow> - ts) (filter (\<lambda>e. ae_TenantID e = tenantID) rows)))))"

subsection \<open>The PII scan of a run\<close>

record piiLocation =
  pl_EventIndex :: nat
  pl_Field :: string
  pl_PIIType :: string

definition extractText :: "(json \<Rightarrow> string + string) \<Rightarrow> json \<Rightarrow> string" where
  "extractText marshal v =
     (case v of JStr s \<Rightarrow> s | JNum _ \<Rightarrow> [] | JBool _ \<Rightarrow> [] | JNull \<Rightarrow> []
      | _ \<Rightarrow> (case marshal v of Inl _ \<Rightarrow> [] | Inr b \<Rightarrow> b))"

definition scanField :: "(json \<Rightarrow> string + string) \<Rightarrow> nat \<Rightarrow> string \<times> json \<Rightarrow> piiLocation list" where
  "scanField marshal i kv =
     (case kv of (field, v) \<Rightarrow>
        let t = extractText marshal v in
        if t = [] then []
        else map (\<lambda>d. \<lparr>pl_EventIndex = i, pl_Field = field, pl_PIIType = det_Pattern d\<rparr>) (Scan (NewDetector []) t))"

definition scanEvents :: "(json \<Rightarrow> string + string) \<Rightarrow> event list \<Rightarrow> piiLocation list" where
  "scanEvents marshal events = concat (map (\<lambda>(i, e). concat (map (scanField marshal i) (ev_Payload e))) (enumerate 0 events))"

definition PIIScan_ServeHTTP ::
  "(json \<Rightarrow> string + string) \<Rightarrow> string option \<Rightarrow> string \<Rightarrow> (string \<Rightarrow> string) \<Rightarrow> (string \<Rightarrow> string) \<Rightarrow> eventLogStore \<Rightarrow> piiLocation list resp" where
  "PIIScan_ServeHTTP marshal fault httpMethod query header store =
     (if httpMethod \<noteq> ''GET'' then RErr (httpxError 405 ''method_not_allowed'' ''only GET is supported'' False)
      else
        (let runID = query ''run_id'' in
         if runID = [] then RErr (httpxError 400 ''missing_run_id'' ''run_id query parameter is required'' False)
         else
           (case fault of Some _ \<Rightarrow> RErr (httpxError 500 ''internal'' ''failed to load events'' True)
            | None \<Rightarrow> ROk 200 (scanEvents marshal (QueryFromSequence (header ''X-Tenant-Id'') runID 0 store)))))"

subsection \<open>What scrubbing leaves\<close>

lemma scrubString_eq: "scrubString s = Some (maskFrom 0 s (Scan (NewDetector []) s))"
proof -
  have "Redact s (Scan (NewDetector []) s) = Some (maskFrom 0 s (Scan (NewDetector []) s))"
    by (rule Redact_disjoint) (use Scan_sorted Scan_ok in \<open>auto simp: detectionOk_def\<close>)
  then show ?thesis by (auto simp: scrubString_def Let_def Redact_def)
qed

lemma those_Some: "(\<And>x. x \<in> set xs \<Longrightarrow> f x = Some (g x)) \<Longrightarrow> those (map f xs) = Some (map g xs)"
  by (induction xs) auto

lemma scrubValue_total: "\<exists>w. scrubValue k v = Some w"
proof (induction k v rule: scrubValue.induct)
  case (1 k v)
  show ?case
  proof (cases "\<not> isSensitive k \<and> (\<exists>m. v = JObj m)")
    case True
    then obtain m where m: "v = JObj m" "\<not> isSensitive k" by blast
    have "map_option (Pair (fst x)) (scrubValue (fst x) (snd x)) = Some (fst x, the (scrubValue (fst x) (snd x)))" if "x \<in> set m" for x
      using 1[OF m(2,1) that, of "fst x" "snd x"] by fastforce
    then have "those (map (\<lambda>(k', v'). map_option (Pair k') (scrubValue k' v')) m) = Some (map (\<lambda>x. (fst x, the (scrubValue (fst x) (snd x)))) m)"
      by (intro those_Some) (simp add: case_prod_beta)
    then show ?thesis using m by (subst scrubValue.simps) simp
  next
    case False
    then show ?thesis by (subst scrubValue.simps) (auto simp: scrubString_eq split: json.split)
  qed
qed

definition scrubbedValue :: "string \<Rightarrow> json \<Rightarrow> json" where
  "scrubbedValue k v = the (scrubValue k v)"

definition scrubbedMap :: "(string, json) gomap \<Rightarrow> (string, json) gomap" where
  "scrubbedMap m = map (\<lambda>(k, v). (k, scrubbedValue k v)) m"

lemma scrubValue_eq: "scrubValue k v = Some (scrubbedValue k v)"
  using scrubValue_total[of k v] by (auto simp: scrubbedValue_def)

lemma those_scrub: "those (map (\<lambda>(k, v). map_option (Pair k) (scrubValue k v)) m) = Some (scrubbedMap m)"
  unfolding scrubbedMap_def by (rule those_Some) (auto simp: scrubValue_eq)

lemma scrubbedValue_simps:
  "isSensitive k \<Longrightarrow> scrubbedValue k v = JStr redacted"
  "\<not> isSensitive k \<Longrightarrow> scrubbedValue k (JObj m) = JObj (scrubbedMap m)"
  "\<not> isSensitive k \<Longrightarrow> scrubbedValue k (JStr s) = JStr (maskFrom 0 s (Scan (NewDetector []) s))"
  "\<not> isSensitive k \<Longrightarrow> (\<forall>m. v \<noteq> JObj m) \<Longrightarrow> (\<forall>s. v \<noteq> JStr s) \<Longrightarrow> scrubbedValue k v = v"
  by (simp_all add: scrubbedValue_def scrubValue.simps[of k] those_scrub scrubString_eq split: json.split)

lemma mget_scrubbedMap: "mget (scrubbedMap m) k = map_option (scrubbedValue k) (mget m k)"
  by (induction m) (auto simp: scrubbedMap_def mget_Cons)

text \<open>Following a path of keys through nested objects.\<close>

fun jpath :: "string list \<Rightarrow> json \<Rightarrow> json option" where
  "jpath [] v = Some v"
| "jpath (k # ks) (JObj m) = (case mget m k of None \<Rightarrow> None | Some v \<Rightarrow> jpath ks v)"
| "jpath (k # ks) v = None"

definition maskLeaf :: "json \<Rightarrow> json" where
  "maskLeaf v = (case v of JStr s \<Rightarrow> JStr (maskFrom 0 s (Scan (NewDetector []) s)) | _ \<Rightarrow> v)"

lemma jpath_scrub_plain:
  assumes "\<not> list_ex isSensitive ks" "jpath (ks @ [k]) (JObj m) = Some v" "isSensitive k \<or> (\<forall>m. v \<noteq> JObj m)"
  shows "jpath (ks @ [k]) (JObj (scrubbedMap m)) = Some (if isSensitive k then JStr redacted else maskLeaf v)"
  using assms
proof (induction ks arbitrary: m)
  case Nil
  then have "mget m k = Some v" by (auto split: option.splits)
  then show ?case using Nil by (cases v) (auto simp: mget_scrubbedMap scrubbedValue_simps maskLeaf_def)
next
  case (Cons a ks)
  then obtain w where w: "mget m a = Some w" "jpath (ks @ [k]) w = Some v" by (auto split: option.splits)
  then obtain m' where "w = JObj m'" by (cases ks; cases w) auto
  with w Cons show ?case by (simp add: mget_scrubbedMap scrubbedValue_simps)
qed

lemma jpath_leaf: "(\<forall>m. v \<noteq> JObj m) \<Longrightarrow> ks \<noteq> [] \<Longrightarrow> jpath ks v = None"
  by (cases "(ks, v)" rule: jpath.cases) auto

lemma jpath_scrub_hidden: "isSensitive k \<Longrightarrow> ks' \<noteq> [] \<Longrightarrow> jpath (ks @ k # ks') (JObj (scrubbedMap m)) = None"
proof (induction ks arbitrary: m)
  case Nil
  then show ?case by (auto simp: mget_scrubbedMap scrubbedValue_simps jpath_leaf split: option.split)
next
  case (Cons a ks)
  have "jpath (ks @ k # ks') (scrubbedValue a v) = None" for v
  proof (cases "\<not> isSensitive a \<and> (\<exists>m'. v = JObj m')")
    case True
    then show ?thesis using Cons by (auto simp: scrubbedValue_simps)
  next
    case False
    then have "\<forall>m'. scrubbedValue a v \<noteq> JObj m'" by (cases v; cases "isSensitive a") (auto simp: scrubbedValue_simps)
    then show ?thesis by (rule jpath_leaf) simp
  qed
  then show ?case by (simp add: mget_scrubbedMap split: option.split)
qed

text \<open>Scrubbing is complete on every path through objects: it never fails and keeps the keys; a value under a
  sensitive key, at any depth, is replaced by the marker and nothing below it remains; a string on a path without
  sensitive keys has every detected span masked; any other value that is not an object is kept.\<close>

theorem Scrub_paths:
  "\<exists>out. Scrub (Some m) = Some (Some out) \<and> map fst out = map fst m \<and>
     (\<forall>ks k v. \<not> list_ex isSensitive ks \<and> jpath (ks @ [k]) (JObj m) = Some v \<and> (isSensitive k \<or> (\<forall>o'. v \<noteq> JObj o')) \<longrightarrow>
        jpath (ks @ [k]) (JObj out) = Some (if isSensitive k then JStr redacted else maskLeaf v)) \<and>
     (\<forall>ks k ks'. isSensitive k \<and> ks' \<noteq> [] \<longrightarrow> jpath (ks @ k # ks') (JObj out) = None)"
proof (intro exI conjI)
  show "Scrub (Some m) = Some (Some (scrubbedMap m))" by (simp add: Scrub_def those_scrub)
  show "map fst (scrubbedMap m) = map fst m" by (simp add: scrubbedMap_def case_prod_beta)
qed (use jpath_scrub_plain jpath_scrub_hidden in blast)+

theorem Scrub_paths_witness:
  "\<exists>out. Scrub (Some [(''login'', JObj [(''Password'', JStr ''hunter2'')])]) = Some (Some out) \<and>
     jpath [''login'', ''Password''] (JObj out) = Some (JStr ''[REDACTED]'')"
proof -
  let ?m = "[(''login'', JObj [(''Password'', JStr ''hunter2'')])]"
  from Scrub_paths[of ?m] obtain out where out: "Scrub (Some ?m) = Some (Some out)"
    "\<forall>ks k v. \<not> list_ex isSensitive ks \<and> jpath (ks @ [k]) (JObj ?m) = Some v \<and> (isSensitive k \<or> (\<forall>o'. v \<noteq> JObj o')) \<longrightarrow>
        jpath (ks @ [k]) (JObj out) = Some (if isSensitive k then JStr redacted else maskLeaf v)" by blast
  have "\<not> list_ex isSensitive [''login'']" "isSensitive ''Password''" by code_simp+
  moreover have "jpath ([''login''] @ [''Password'']) (JObj ?m) = Some (JStr ''hunter2'')" by (simp add: mget_Cons)
  ultimately have "jpath ([''login''] @ [''Password'']) (JObj out) = Some (JStr redacted)" using out(2) by presburger
  with out(1) show ?thesis by (simp add: redacted_def)
qed

text \<open>Objects inside arrays are not reached.\<close>

lemma Scrub_skips_arrays:
  "Scrub (Some [(''steps'', JArr [JObj [(''password'', JStr ''hunter2'')]])]) = Some (Some [(''steps'', JArr [JObj [(''password'', JStr ''hunter2'')]])])"
proof -
  have "\<not> isSensitive ''steps''" by code_simp
  then show ?thesis by (simp add: Scrub_def scrubValue.simps)
qed

text \<open>The header is looked at through its first value only.\<close>

lemma ScrubHeaders_empty_first:
  "ScrubHeaders (Some [(''Authorization'', [[], ''Bearer x''])]) = Some [(''Authorization'', [[], ''Bearer x''])]"
  by code_simp

subsection \<open>Paging through the log\<close>

text \<open>Which entries a query asks for.\<close>

definition auditMatch :: "(string \<Rightarrow> time option) \<Rightarrow> auditQueryParams \<Rightarrow> logEntry \<Rightarrow> bool" where
  "auditMatch parseTime p e \<longleftrightarrow>
     (\<forall>s. aqp_Start p \<noteq> [] \<and> parseTime (aqp_Start p) = Some s \<longrightarrow> (\<exists>t. parseTime (le_Time e) = Some t \<and> s \<le> t)) \<and>
     (\<forall>s. aqp_End p \<noteq> [] \<and> parseTime (aqp_End p) = Some s \<longrightarrow> (\<exists>t. parseTime (le_Time e) = Some t \<and> t \<le> s)) \<and>
     (aqp_Action p \<noteq> [] \<longrightarrow> le_Action e = aqp_Action p)"

lemma filters_eq:
  "filterAction (aqp_Action p) (filterEnd parseTime (aqp_End p) (filterStart parseTime (aqp_Start p) xs)) = filter (auditMatch parseTime p) xs"
  by (auto simp: filterStart_def filterEnd_def filterAction_def filter_filter auditMatch_def not_less split: option.splits intro!: filter_cong)

lemma audit_paging:
  assumes "sorted (map le_Time (sortSlice all))"
  shows "cursor_paging (\<lambda>after. QueryAuditLog sortSlice parseTime (Some all) (p\<lparr>aqp_After := after\<rparr>)) le_Time
    (filter (auditMatch parseTime p) (sortSlice all)) (nat (auditLimit (aqp_Limit p))) []"
proof
  let ?F = "filter (auditMatch parseTime p) (sortSlice all)" and ?k = "nat (auditLimit (aqp_Limit p))"
  show pos: "0 < ?k" by (simp add: auditLimit_def Let_def)
  show srt: "sorted (map le_Time ?F)" using assms by (simp add: sorted_filter)
  have q: "QueryAuditLog sortSlice parseTime (Some all) (p\<lparr>aqp_After := c\<rparr>) =
      (take ?k (if c \<noteq> [] then dropWhile (\<lambda>e. le_Time e \<le> c) ?F else ?F), ?k < length (if c \<noteq> [] then dropWhile (\<lambda>e. le_Time e \<le> c) ?F else ?F))" for c
    using pos filters_eq[of p parseTime "sortSlice all"] by (auto simp: QueryAuditLog_def Let_def)
  show "QueryAuditLog sortSlice parseTime (Some all) (p\<lparr>aqp_After := []\<rparr>) = (take ?k ?F, ?k < length ?F)" by (simp add: q)
  show "QueryAuditLog sortSlice parseTime (Some all) (p\<lparr>aqp_After := c\<rparr>) =
      (take ?k (filter (\<lambda>x. c < le_Time x) ?F), ?k < length (filter (\<lambda>x. c < le_Time x) ?F))" if "c \<noteq> []" for c
    using that dropWhile_sorted[OF srt, of c] by (simp add: q)
qed

text \<open>Paging through the audit log with the time of the last entry as cursor returns every entry that passes the
  filters exactly once, whatever order the unstable sort leaves, as long as no two entries have the same time.\<close>

lemma audit_pages_complete:
  assumes "mset (sortSlice all) = mset all" "sorted (map le_Time (sortSlice all))"
    and "distinct (map le_Time all)" "\<forall>e\<in>set all. le_Time e \<noteq> []" "length all < n"
  shows "followCursor (\<lambda>after. QueryAuditLog sortSlice parseTime (Some all) (p\<lparr>aqp_After := after\<rparr>)) le_Time n [] =
    filter (auditMatch parseTime p) (sortSlice all)"
proof (rule cursor_paging.follow_all[OF audit_paging])
  have "mset (map le_Time (sortSlice all)) = mset (map le_Time all)" by (simp add: assms(1))
  then have "distinct (map le_Time (sortSlice all))" using assms(3) by (metis mset_eq_imp_distinct_iff)
  then show "distinct (map le_Time (filter (auditMatch parseTime p) (sortSlice all)))" by (simp add: distinct_map_filter)
  have "set (sortSlice all) = set all" by (metis assms(1) set_mset_mset)
  then show "\<forall>x\<in>set (filter (auditMatch parseTime p) (sortSlice all)). le_Time x \<noteq> []" using assms(4) by auto
  have "length (sortSlice all) = length all" by (metis assms(1) size_mset)
  then show "length (filter (auditMatch parseTime p) (sortSlice all)) < n"
    using assms(5) length_filter_le[of "auditMatch parseTime p" "sortSlice all"] by linarith
qed (rule assms(2))

definition entryAt :: "string \<Rightarrow> string \<Rightarrow> logEntry" where
  "entryAt t a = \<lparr>le_Time = t, le_TenantID = ''acme'', le_PrincipalID = [], le_Action = a, le_Resource = [], le_Outcome = ''allowed'',
     le_CorrelationID = [], le_RequestID = [], le_Meta = None\<rparr>"

text \<open>Entries of the same second are lost at a page boundary.\<close>

lemma same_second_lost:
  "map le_Action (followCursor (\<lambda>after. QueryAuditLog (sort_key le_Time) (\<lambda>_. None)
       (Some [entryAt ''09:00:01'' ''a'', entryAt ''09:00:01'' ''b'', entryAt ''09:00:02'' ''c''])
       \<lparr>aqp_Start = [], aqp_End = [], aqp_Action = [], aqp_Limit = 1, aqp_After = after\<rparr>) le_Time 4 []) = [''a'', ''c'']"
  by code_simp

text \<open>The loggers of the program have no ReadAll, so the endpoint answers an empty list whatever was logged.\<close>

lemma audit_endpoint_empty:
  "hasScope (ac_Scopes ac) ''tenants:admin'' \<Longrightarrow> handleAuditLog sortSlice parseTime ''GET'' ac query None = ROk 200 ([], False)"
  by (simp add: handleAuditLog_def QueryAuditLog_def)

text \<open>A PII scan without tenant header looks under the empty tenant: it finds nothing in the events of any tenant.\<close>

lemma pii_scan_without_tenant:
  assumes "header ''X-Tenant-Id'' = []" "query ''run_id'' \<noteq> []"
    and "\<forall>k\<in>fst ` set (el_runs store). \<exists>t j. k = runKey t j \<and> t \<noteq> [] \<and> CHR ''/'' \<notin> set t"
  shows "PIIScan_ServeHTTP marshal None ''GET'' query header store = ROk 200 []"
proof -
  have "runKey [] i \<noteq> runKey t j" if "t \<noteq> []" "CHR ''/'' \<notin> set t" for i t j
    using that by (cases t) (auto simp: runKey_def)
  then have "mget (el_runs store) (runKey [] (query ''run_id'')) = None" using assms(3) by (metis mget_None_iff)
  then show ?thesis using assms(1,2) by (simp add: PIIScan_ServeHTTP_def QueryFromSequence_def zget_def scanEvents_def)
qed

text \<open>A log file holds exactly what was logged while it was open.\<close>

lemma log_until_closed:
  assumes "\<forall>e\<in>set (es @ es'). le_Time e \<noteq> [] \<and> marshal e = Inr (enc e)" "\<not> jl_closed l" "\<not> jl_closeOnce l"
  shows "jl_lines (fold (Logger_Log now marshal \<lparr>sf_write = None, sf_close = c\<rparr>) es'
      (snd (Logger_Close \<lparr>sf_write = None, sf_close = c\<rparr> (fold (Logger_Log now marshal \<lparr>sf_write = None, sf_close = c\<rparr>) es l)))) =
    jl_lines l @ map enc es"
proof -
  have o: "fold (Logger_Log now marshal \<lparr>sf_write = None, sf_close = c\<rparr>) es l = l\<lparr>jl_lines := jl_lines l @ map enc es\<rparr>"
    using assms by (induction es arbitrary: l) (auto simp: Logger_Log_def)
  have closed: "fold (Logger_Log now marshal \<lparr>sf_write = None, sf_close = c\<rparr>) es' k = k" if "jl_closed k" for k
    using that by (induction es') (auto simp: Logger_Log_def)
  show ?thesis using assms(3) by (simp add: o Logger_Close_def closed)
qed

end
