(* ===== verification/Data_Lifecycle.thy ===== *)
theory Data_Lifecycle
  imports Audit_Log
begin

text \<open>
  The life of a tenant's data: the PostgreSQL tenant store and its API (internal/storage/postgres/tenant_store.go,
  internal/tenants/api.go, internal/tenants/delete.go), the retention purge (internal/lifecycle/purge.go,
  admin_handler.go) and the data export and deletion endpoints (internal/compliance/export.go, delete.go).

  \<^item> A table is a list of rows. Which rows a \<open>DELETE ... LIMIT\<close> takes is not specified by SQL: a mask over the
    matching rows is an argument (\<open>pick\<close>), constrained to take as many as the limit allows (\<open>pickOk\<close>).
  \<^item> Every statement may fail: \<open>faults\<close> gives the error of the n-th statement of an operation. The count of affected rows
    comes with the statement and does not fail separately.
  \<^item> Durations are int64: the products of the purge are written with their wrap-around (\<open>int64\<close>).
  \<^item> Export jobs are heap objects shared by the store and the exporting goroutine: the store maps identifiers to
    addresses.
\<close>

subsection \<open>Batched deletion\<close>

record dbRow =
  row_tenant :: string
  row_key :: string
  row_status :: string
  row_created :: time
  row_createdText :: string

definition batchSize :: nat where "batchSize = 1000"

text \<open>The rows that stay when the mask selects among the rows that satisfy \<open>P\<close>.\<close>

fun dropPicked :: "('r \<Rightarrow> bool) \<Rightarrow> bool list \<Rightarrow> 'r list \<Rightarrow> 'r list" where
  "dropPicked P bs [] = []"
| "dropPicked P bs (r # rs) =
     (if P r then (case bs of [] \<Rightarrow> r # dropPicked P [] rs
                   | b # bs' \<Rightarrow> if b then dropPicked P bs' rs else r # dropPicked P bs' rs)
      else r # dropPicked P bs rs)"

lemma dropPicked_count:
  "length (dropPicked P bs rs) + length (filter id (take (length (filter P rs)) bs)) = length rs"
  by (induction P bs rs rule: dropPicked.induct) (auto split: list.split)

type_synonym picker = "nat \<Rightarrow> nat \<Rightarrow> bool list"

definition deleteLimited :: "picker \<Rightarrow> nat \<Rightarrow> ('r \<Rightarrow> bool) \<Rightarrow> 'r list \<Rightarrow> 'r list \<times> nat" where
  "deleteLimited pick k P rows =
     (let rows' = dropPicked P (pick k (length (filter P rows))) rows in (rows', length rows - length rows'))"

text \<open>The loops of purge.go: a statement that deletes less than a full batch is the last. The first result is the error,
  then the total, the statements executed and the rows left.\<close>

function batchDelete ::
  "picker \<Rightarrow> (nat \<Rightarrow> string option) \<Rightarrow> nat \<Rightarrow> ('r \<Rightarrow> bool) \<Rightarrow> nat \<Rightarrow> 'r list \<Rightarrow> string option \<times> nat \<times> nat \<times> 'r list" where
  "batchDelete pick faults k P tot rows =
     (case faults k of Some e \<Rightarrow> (Some e, tot, Suc k, rows)
      | None \<Rightarrow>
          (case deleteLimited pick k P rows of (rows', n) \<Rightarrow>
             if n < batchSize then (None, tot + n, Suc k, rows') else batchDelete pick faults (Suc k) P (tot + n) rows'))"
  by pat_completeness auto
termination
  by (relation "measure (\<lambda>(pick, faults, k, P, tot, rows). length rows)") (auto simp: deleteLimited_def batchSize_def Let_def)

text \<open>The loop of DeleteAllData: a statement that deletes nothing is the last.\<close>

function deleteAllRows ::
  "picker \<Rightarrow> (nat \<Rightarrow> string option) \<Rightarrow> nat \<Rightarrow> ('r \<Rightarrow> bool) \<Rightarrow> 'r list \<Rightarrow> string option \<times> nat \<times> 'r list" where
  "deleteAllRows pick faults k P rows =
     (case faults k of Some e \<Rightarrow> (Some e, Suc k, rows)
      | None \<Rightarrow>
          (case deleteLimited pick k P rows of (rows', n) \<Rightarrow>
             if n = 0 then (None, Suc k, rows') else deleteAllRows pick faults (Suc k) P rows'))"
  by pat_completeness auto
termination
  by (relation "measure (\<lambda>(pick, faults, k, P, rows). length rows)") (auto simp: deleteLimited_def Let_def)

declare batchDelete.simps [simp del] deleteAllRows.simps [simp del]

subsection \<open>Retention\<close>

record purgeConfig =
  pc_RunsDays :: int
  pc_EventsDays :: int
  pc_AuditDays :: int
  pc_UsageDays :: int

record purgeResult =
  pr_DeletedRuns :: nat
  pr_DeletedEvents :: nat
  pr_DeletedAudit :: nat
  pr_DeletedUsage :: nat

definition envIntWithMinDefault :: "(string \<Rightarrow> string) \<Rightarrow> string \<Rightarrow> int \<Rightarrow> int \<Rightarrow> int" where
  "envIntWithMinDefault getenv key defaultVal minVal =
     (let raw = getenv key in
      if raw = [] then defaultVal
      else case Atoi raw of None \<Rightarrow> defaultVal | Some v \<Rightarrow> if v < minVal then minVal else v)"

definition LoadPurgeConfig :: "(string \<Rightarrow> string) \<Rightarrow> purgeConfig" where
  "LoadPurgeConfig getenv =
     \<lparr>pc_RunsDays = envIntWithMinDefault getenv ''AGENTOS_RETENTION_RUNS_DAYS'' 90 7,
      pc_EventsDays = envIntWithMinDefault getenv ''AGENTOS_RETENTION_EVENTS_DAYS'' 30 7,
      pc_AuditDays = envIntWithMinDefault getenv ''AGENTOS_RETENTION_AUDIT_DAYS'' 365 90,
      pc_UsageDays = envIntWithMinDefault getenv ''AGENTOS_RETENTION_USAGE_DAYS'' 730 90\<rparr>"

definition int64 :: "int \<Rightarrow> int" where
  "int64 x = sint (word_of_int x :: 64 word)"

definition hour :: duration where "hour = 3600 * 1000000000"

definition purgeCutoff :: "time \<Rightarrow> int \<Rightarrow> time" where
  "purgeCutoff now days = now + int64 (int64 (int64 (- days) * 24) * hour)"

record purgeDB =
  db_runs :: "dbRow list"
  db_events :: "dbRow list"
  db_audit :: "dbRow list"
  db_usage :: "dbRow list"

definition finishedStatus :: "string \<Rightarrow> bool" where
  "finishedStatus s \<longleftrightarrow> s \<in> set [''completed'', ''failed'', ''canceled'']"

text \<open>Runs carry their creation time as text, compared as strings with the formatted cutoff.\<close>

definition purgeableRun :: "string \<Rightarrow> dbRow \<Rightarrow> bool" where
  "purgeableRun cutoff r \<longleftrightarrow> row_createdText r < cutoff \<and> finishedStatus (row_status r)"

definition olderThan :: "time \<Rightarrow> dbRow \<Rightarrow> bool" where
  "olderThan cutoff r \<longleftrightarrow> row_created r < cutoff"

definition RunPurgeNow ::
  "picker \<Rightarrow> (nat \<Rightarrow> string option) \<Rightarrow> (time \<Rightarrow> string) \<Rightarrow> time \<Rightarrow> purgeConfig \<Rightarrow> purgeDB \<Rightarrow> (string + purgeResult) \<times> purgeDB" where
  "RunPurgeNow pick faults fmt now cfg db =
     (case batchDelete pick faults 0 (purgeableRun (fmt (purgeCutoff now (pc_RunsDays cfg)))) 0 (db_runs db) of
        (Some e, n, k, rows) \<Rightarrow> (Inl (''purge runs: '' @ e), db\<lparr>db_runs := rows\<rparr>)
      | (None, n1, k1, runs) \<Rightarrow>
          (case batchDelete pick faults k1 (olderThan (purgeCutoff now (pc_EventsDays cfg))) 0 (db_events db) of
             (Some e, n, k, rows) \<Rightarrow> (Inl (''purge events: '' @ e), db\<lparr>db_runs := runs, db_events := rows\<rparr>)
           | (None, n2, k2, events) \<Rightarrow>
               (case batchDelete pick faults k2 (olderThan (purgeCutoff now (pc_AuditDays cfg))) 0 (db_audit db) of
                  (Some e, n, k, rows) \<Rightarrow> (Inl (''purge audit: '' @ e), db\<lparr>db_runs := runs, db_events := events, db_audit := rows\<rparr>)
                | (None, n3, k3, audit) \<Rightarrow>
                    (case batchDelete pick faults k3 (olderThan (purgeCutoff now (pc_UsageDays cfg))) 0 (db_usage db) of
                       (Some e, n, k, rows) \<Rightarrow> (Inl (''purge usage: '' @ e),
                          db\<lparr>db_runs := runs, db_events := events, db_audit := audit, db_usage := rows\<rparr>)
                     | (None, n4, k4, usage) \<Rightarrow>
                         (Inr \<lparr>pr_DeletedRuns = n1, pr_DeletedEvents = n2, pr_DeletedAudit = n3, pr_DeletedUsage = n4\<rparr>,
                          db\<lparr>db_runs := runs, db_events := events, db_audit := audit, db_usage := usage\<rparr>)))))"

definition AdminPurgeHandler ::
  "picker \<Rightarrow> (nat \<Rightarrow> string option) \<Rightarrow> (time \<Rightarrow> string) \<Rightarrow> time \<Rightarrow> purgeConfig \<Rightarrow> string \<Rightarrow> purgeDB \<Rightarrow> purgeResult resp \<times> purgeDB" where
  "AdminPurgeHandler pick faults fmt now cfg httpMethod db =
     (if httpMethod \<noteq> ''POST'' then (RErr methodNotAllowed, db)
      else case RunPurgeNow pick faults fmt now cfg db of
        (Inl _, db') \<Rightarrow> (RErr (httpxError 500 ''purge_failed'' ''purge operation failed'' True), db')
      | (Inr res, db') \<Rightarrow> (ROk 200 res, db'))"

text \<open>The daily loop: one pass at start and one per tick; a failed pass does not end it.\<close>

fun purgeTicks ::
  "picker \<Rightarrow> (time \<Rightarrow> string) \<Rightarrow> purgeConfig \<Rightarrow> (time \<times> (nat \<Rightarrow> string option)) list \<Rightarrow> purgeDB \<Rightarrow> purgeDB" where
  "purgeTicks pick fmt cfg [] db = db"
| "purgeTicks pick fmt cfg ((now, faults) # ticks) db = purgeTicks pick fmt cfg ticks (snd (RunPurgeNow pick faults fmt now cfg db))"

subsection \<open>What batched deletion does\<close>

definition pickOk :: "nat \<Rightarrow> picker \<Rightarrow> bool" where
  "pickOk limit pick \<longleftrightarrow> (\<forall>k n. length (pick k n) = n \<and> length (filter id (pick k n)) = min limit n)"

lemma dropPicked_others: "filter (\<lambda>r. \<not> P r) (dropPicked P bs rs) = filter (\<lambda>r. \<not> P r) rs"
  by (induction P bs rs rule: dropPicked.induct) (auto split: list.split)

lemma filter_partition_length: "length (filter P xs) + length (filter (\<lambda>x. \<not> P x) xs) = length xs"
  by (induction xs) auto

lemma deleteLimited_others:
  "deleteLimited pick k P rows = (rows', n) \<Longrightarrow>
     filter (\<lambda>r. \<not> P r) rows' = filter (\<lambda>r. \<not> P r) rows \<and> length rows' + n = length rows"
  using dropPicked_count[of P "pick k (length (filter P rows))" rows]
  by (auto simp: deleteLimited_def Let_def dropPicked_others)

lemma deleteLimited_ok:
  assumes "pickOk limit pick" "deleteLimited pick k P rows = (rows', n)"
  shows "n = min limit (length (filter P rows))" "length (filter P rows') = length (filter P rows) - n"
proof -
  note o = deleteLimited_others[OF assms(2)]
  from assms dropPicked_count[of P "pick k (length (filter P rows))" rows] show n: "n = min limit (length (filter P rows))"
    by (auto simp: pickOk_def deleteLimited_def Let_def)
  have "length (filter (\<lambda>r. \<not> P r) rows') = length (filter (\<lambda>r. \<not> P r) rows)" using o by simp
  with o filter_partition_length[of P rows] filter_partition_length[of P rows']
  show "length (filter P rows') = length (filter P rows) - n" by linarith
qed

lemma no_match_left: "filter P rows' = [] \<Longrightarrow> filter (\<lambda>r. \<not> P r) rows' = filter (\<lambda>r. \<not> P r) rows \<Longrightarrow> rows' = filter (\<lambda>r. \<not> P r) rows"
  by (metis filter_True filter_empty_conv)

lemma batchDelete_others:
  "batchDelete pick faults k P tot rows = (e, n, k', rows') \<Longrightarrow>
     filter (\<lambda>r. \<not> P r) rows' = filter (\<lambda>r. \<not> P r) rows \<and> length rows' + n = length rows + tot"
proof (induction pick faults k P tot rows arbitrary: e n k' rows' rule: batchDelete.induct)
  case (1 pick faults k P tot rows)
  obtain r m where d: "deleteLimited pick k P rows = (r, m)" by (cases "deleteLimited pick k P rows")
  note o = deleteLimited_others[OF d]
  show ?case
  proof (cases "faults k = None \<and> \<not> m < batchSize")
    case True
    then have "batchDelete pick faults (Suc k) P (tot + m) r = (e, n, k', rows')"
      using 1(2) d by (simp add: batchDelete.simps[of _ _ k])
    from 1(1)[OF _ d[symmetric] _ this] True o show ?thesis by auto
  qed (use 1(2) d o in \<open>auto simp: batchDelete.simps[of _ _ k] split: option.splits if_splits\<close>)
qed

lemma batchDelete_complete:
  "pickOk batchSize pick \<Longrightarrow> batchDelete pick faults k P tot rows = (None, n, k', rows') \<Longrightarrow>
     rows' = filter (\<lambda>r. \<not> P r) rows \<and> n = tot + length (filter P rows)"
proof (induction pick faults k P tot rows arbitrary: n k' rows' rule: batchDelete.induct)
  case (1 pick faults k P tot rows)
  obtain r m where d: "deleteLimited pick k P rows = (r, m)" by (cases "deleteLimited pick k P rows")
  note o = deleteLimited_others[OF d] and c = deleteLimited_ok[OF 1(2) d]
  have f: "faults k = None" using 1(3) by (simp add: batchDelete.simps[of _ _ k] split: option.splits)
  show ?case
  proof (cases "m < batchSize")
    case True
    then have "filter P r = []" "m = length (filter P rows)" using c by (auto simp: min_def split: if_splits)
    then show ?thesis using no_match_left[of P r rows] o 1(3) f d True by (auto simp: batchDelete.simps[of _ _ k])
  next
    case False
    then have "batchDelete pick faults (Suc k) P (tot + m) r = (None, n, k', rows')" using 1(3) f d by (simp add: batchDelete.simps[of _ _ k])
    from 1(1)[OF f d[symmetric] False 1(2) this] o c False show ?thesis by auto
  qed
qed

lemma batchDelete_returns:
  "pickOk batchSize pick \<Longrightarrow> (\<And>j. faults j = None) \<Longrightarrow> \<exists>k'. batchDelete pick faults k P tot rows =
     (None, tot + length (filter P rows), k', filter (\<lambda>r. \<not> P r) rows)"
proof -
  assume a: "pickOk batchSize pick" "\<And>j. faults j = None"
  have "fst (batchDelete pick faults k P tot rows) = None" using a(2)
    by (induction pick faults k P tot rows rule: batchDelete.induct) (subst batchDelete.simps, auto split: prod.splits)
  then obtain n k' rows' where b: "batchDelete pick faults k P tot rows = (None, n, k', rows')"
    by (cases "batchDelete pick faults k P tot rows") auto
  from batchDelete_complete[OF a(1) b] b show ?thesis by blast
qed

lemma int64_id: "- (2 ^ 63) \<le> x \<Longrightarrow> x < 2 ^ 63 \<Longrightarrow> int64 x = x"
  by (simp add: int64_def sint_word_of_int64)

lemma purgeCutoff_exact:
  assumes "0 \<le> days" "days \<le> 106751"
  shows "purgeCutoff now days = now - days * day"
proof -
  have "int64 (- days) = - days" "int64 (- days * 24) = - days * 24" "int64 (- days * 24 * hour) = - days * 24 * hour"
    using assms by (auto intro!: int64_id simp: hour_def)
  then show ?thesis by (simp add: purgeCutoff_def day_def hour_def)
qed

text \<open>A retention of more than 106751 days wraps around: the cutoff lies in the future.\<close>

lemma retention_overflow: "now < purgeCutoff now 200000"
proof -
  have "int64 (int64 (int64 (- 200000) * 24) * hour) > 0" by (simp add: int64_def hour_def)
  then show ?thesis by (simp add: purgeCutoff_def)
qed

subsection \<open>Purging respects retention\<close>

lemma filter_weaker:
  assumes "filter (\<lambda>r. \<not> P r) xs = filter (\<lambda>r. \<not> P r) ys" "\<And>r. Q r \<Longrightarrow> \<not> P r"
  shows "filter Q xs = filter Q ys"
proof -
  have "filter Q zs = filter Q (filter (\<lambda>r. \<not> P r) zs)" for zs using assms(2) by (auto simp: filter_filter intro!: filter_cong)
  with assms(1) show ?thesis by metis
qed

lemma envIntWithMinDefault_min: "minVal \<le> defaultVal \<Longrightarrow> minVal \<le> envIntWithMinDefault getenv key defaultVal minVal"
  by (auto simp: envIntWithMinDefault_def Let_def split: option.split)

definition purgedBy :: "(dbRow \<Rightarrow> bool) \<Rightarrow> dbRow list \<Rightarrow> dbRow list \<Rightarrow> bool" where
  "purgedBy P rows rows' \<longleftrightarrow> filter (\<lambda>r. \<not> P r) rows' = filter (\<lambda>r. \<not> P r) rows"

lemma batchDelete_purged: "batchDelete pick faults k P tot rows = (e, n, k', rows') \<Longrightarrow> purgedBy P rows rows'"
  using batchDelete_others by (fastforce simp: purgedBy_def)

lemma purgedBy_refl [simp]: "purgedBy P rows rows"
  by (simp add: purgedBy_def)

lemma RunPurgeNow_purged:
  assumes "RunPurgeNow pick faults fmt now cfg db = (res, db')"
  shows "purgedBy (purgeableRun (fmt (purgeCutoff now (pc_RunsDays cfg)))) (db_runs db) (db_runs db')"
    "purgedBy (olderThan (purgeCutoff now (pc_EventsDays cfg))) (db_events db) (db_events db')"
    "purgedBy (olderThan (purgeCutoff now (pc_AuditDays cfg))) (db_audit db) (db_audit db')"
    "purgedBy (olderThan (purgeCutoff now (pc_UsageDays cfg))) (db_usage db) (db_usage db')"
  using assms by (auto simp: RunPurgeNow_def dest: batchDelete_purged split: prod.splits option.splits)

lemma RunPurgeNow_complete:
  assumes "RunPurgeNow pick faults fmt now cfg db = (Inr c, db')" "pickOk batchSize pick"
  shows "db_runs db' = filter (\<lambda>r. \<not> purgeableRun (fmt (purgeCutoff now (pc_RunsDays cfg))) r) (db_runs db)"
    "db_events db' = filter (\<lambda>r. \<not> olderThan (purgeCutoff now (pc_EventsDays cfg)) r) (db_events db)"
    "db_audit db' = filter (\<lambda>r. \<not> olderThan (purgeCutoff now (pc_AuditDays cfg)) r) (db_audit db)"
    "db_usage db' = filter (\<lambda>r. \<not> olderThan (purgeCutoff now (pc_UsageDays cfg)) r) (db_usage db)"
  using assms(1) batchDelete_complete[OF assms(2)] by (fastforce simp: RunPurgeNow_def split: prod.splits option.splits)+

lemma RunPurgeNow_returns:
  assumes "pickOk batchSize pick" "\<And>j. faults j = None"
  shows "\<exists>c db'. RunPurgeNow pick faults fmt now cfg db = (Inr c, db')"
proof -
  note b = batchDelete_returns[of pick faults, OF assms]
  obtain k1 where 1: "batchDelete pick faults 0 (purgeableRun (fmt (purgeCutoff now (pc_RunsDays cfg)))) 0 (db_runs db) =
      (None, length (filter (purgeableRun (fmt (purgeCutoff now (pc_RunsDays cfg)))) (db_runs db)), k1,
       filter (\<lambda>r. \<not> purgeableRun (fmt (purgeCutoff now (pc_RunsDays cfg))) r) (db_runs db))"
    using b[of 0 _ 0] by fastforce
  have 2: "\<exists>k' n rows'. batchDelete pick faults k (olderThan c) 0 rows = (None, n, k', rows')" for k c rows
    using b[of k "olderThan c" 0 rows] by blast
  obtain k2 n2 r2 where b2: "batchDelete pick faults k1 (olderThan (purgeCutoff now (pc_EventsDays cfg))) 0 (db_events db) = (None, n2, k2, r2)" using 2 by blast
  obtain k3 n3 r3 where b3: "batchDelete pick faults k2 (olderThan (purgeCutoff now (pc_AuditDays cfg))) 0 (db_audit db) = (None, n3, k3, r3)" using 2 by blast
  obtain k4 n4 r4 where b4: "batchDelete pick faults k3 (olderThan (purgeCutoff now (pc_UsageDays cfg))) 0 (db_usage db) = (None, n4, k4, r4)" using 2 by blast
  show ?thesis by (simp add: RunPurgeNow_def 1 b2 b3 b4)
qed

lemma olderThan_survives:
  assumes "purgedBy (olderThan (purgeCutoff now d)) rows rows'" "k \<le> d" "0 \<le> k" "d \<le> 106751"
  shows "filter (\<lambda>r. now - k * day \<le> row_created r) rows' = filter (\<lambda>r. now - k * day \<le> row_created r) rows"
proof (rule filter_weaker[OF assms(1)[unfolded purgedBy_def]])
  fix r :: dbRow assume "now - k * day \<le> row_created r"
  moreover have "k * day \<le> d * day" using assms(2) by (simp add: day_def)
  moreover have "purgeCutoff now d = now - d * day" using assms by (intro purgeCutoff_exact) auto
  ultimately show "\<not> olderThan (purgeCutoff now d) r" by (simp add: olderThan_def)
qed

text \<open>C28. Purging respects retention: whatever the environment sets the retention periods to (up to 106751 days, beyond
  which the duration wraps), whatever rows the database picks for a batch and wherever a statement fails, a pass keeps
  every run that is not terminal or younger than seven days, every event younger than seven days and every audit and
  usage record younger than ninety; and a pass that succeeds leaves no event older than its retention.\<close>

theorem purge_respects_retention:
  assumes "RunPurgeNow pick faults fmt now cfg db = (res, db')" "cfg = LoadPurgeConfig getenv"
    and "pc_RunsDays cfg \<le> 106751" "pc_EventsDays cfg \<le> 106751" "pc_AuditDays cfg \<le> 106751" "pc_UsageDays cfg \<le> 106751"
    and "\<And>t t'. t \<le> t' \<Longrightarrow> fmt t \<le> fmt t'"
  shows "filter (\<lambda>r. \<not> finishedStatus (row_status r) \<or> fmt (now - 7 * day) \<le> row_createdText r) (db_runs db') =
      filter (\<lambda>r. \<not> finishedStatus (row_status r) \<or> fmt (now - 7 * day) \<le> row_createdText r) (db_runs db) \<and>
    filter (\<lambda>r. now - 7 * day \<le> row_created r) (db_events db') = filter (\<lambda>r. now - 7 * day \<le> row_created r) (db_events db) \<and>
    filter (\<lambda>r. now - 90 * day \<le> row_created r) (db_audit db') = filter (\<lambda>r. now - 90 * day \<le> row_created r) (db_audit db) \<and>
    filter (\<lambda>r. now - 90 * day \<le> row_created r) (db_usage db') = filter (\<lambda>r. now - 90 * day \<le> row_created r) (db_usage db) \<and>
    ((\<exists>c. res = Inr c) \<and> pickOk 1000 pick \<longrightarrow>
       db_events db' = filter (\<lambda>r. now - pc_EventsDays cfg * day \<le> row_created r) (db_events db))"
proof -
  have m: "7 \<le> pc_RunsDays cfg" "7 \<le> pc_EventsDays cfg" "90 \<le> pc_AuditDays cfg" "90 \<le> pc_UsageDays cfg"
    by (simp_all add: assms(2) LoadPurgeConfig_def envIntWithMinDefault_min)
  note p = RunPurgeNow_purged[OF assms(1)]
  have "filter (\<lambda>r. \<not> finishedStatus (row_status r) \<or> fmt (now - 7 * day) \<le> row_createdText r) (db_runs db') =
      filter (\<lambda>r. \<not> finishedStatus (row_status r) \<or> fmt (now - 7 * day) \<le> row_createdText r) (db_runs db)"
  proof (rule filter_weaker[OF p(1)[unfolded purgedBy_def]])
    fix r :: dbRow assume r: "\<not> finishedStatus (row_status r) \<or> fmt (now - 7 * day) \<le> row_createdText r"
    have "purgeCutoff now (pc_RunsDays cfg) = now - pc_RunsDays cfg * day" using m(1) assms(3) by (intro purgeCutoff_exact) auto
    also have "\<dots> \<le> now - 7 * day" using m(1) by (simp add: day_def)
    finally have "fmt (purgeCutoff now (pc_RunsDays cfg)) \<le> fmt (now - 7 * day)" by (rule assms(7))
    with r show "\<not> purgeableRun (fmt (purgeCutoff now (pc_RunsDays cfg))) r" by (auto simp: purgeableRun_def)
  qed
  moreover have "db_events db' = filter (\<lambda>r. now - pc_EventsDays cfg * day \<le> row_created r) (db_events db)"
    if ok: "\<exists>c. res = Inr c" "pickOk 1000 pick"
  proof -
    obtain c where "res = Inr c" using ok(1) ..
    then have "db_events db' = filter (\<lambda>r. \<not> olderThan (purgeCutoff now (pc_EventsDays cfg)) r) (db_events db)"
      using RunPurgeNow_complete(2)[of pick faults fmt now cfg db c db'] assms(1) ok(2) by (simp add: batchSize_def)
    moreover have "purgeCutoff now (pc_EventsDays cfg) = now - pc_EventsDays cfg * day" using m(2) assms(4) by (intro purgeCutoff_exact) auto
    ultimately show ?thesis by (simp add: olderThan_def not_less)
  qed
  ultimately show ?thesis
    using olderThan_survives[OF p(2) m(2)] olderThan_survives[OF p(3) m(3)] olderThan_survives[OF p(4) m(4)] assms(4-6) by simp
qed

definition firstPick :: picker where
  "firstPick k n = replicate (min 1000 n) True @ replicate (n - 1000) False"

definition rowAt :: "time \<Rightarrow> dbRow" where
  "rowAt t = \<lparr>row_tenant = ''acme'', row_key = [], row_status = [], row_created = t, row_createdText = []\<rparr>"

lemma firstPick_ok: "pickOk 1000 firstPick"
  by (auto simp: pickOk_def firstPick_def min_def)

theorem purge_respects_retention_witness:
  "db_events (snd (RunPurgeNow firstPick (\<lambda>_. None) (\<lambda>_. []) (100 * day) (LoadPurgeConfig (\<lambda>_. []))
       \<lparr>db_runs = [], db_events = [rowAt 0, rowAt (99 * day)], db_audit = [], db_usage = []\<rparr>)) = [rowAt (99 * day)]"
proof -
  let ?db = "\<lparr>db_runs = [], db_events = [rowAt 0, rowAt (99 * day)], db_audit = [], db_usage = []\<rparr>"
  let ?cfg = "LoadPurgeConfig (\<lambda>_. [])"
  obtain res db' where r: "RunPurgeNow firstPick (\<lambda>_. None) (\<lambda>_. []) (100 * day) ?cfg ?db = (res, db')"
    by (cases "RunPurgeNow firstPick (\<lambda>_. None) (\<lambda>_. []) (100 * day) ?cfg ?db")
  have "\<exists>c. res = Inr c"
    using RunPurgeNow_returns[of firstPick "\<lambda>_. None" "\<lambda>_. []" "100 * day" ?cfg ?db] firstPick_ok r by (auto simp: batchSize_def)
  moreover have c: "pc_RunsDays ?cfg = 90" "pc_EventsDays ?cfg = 30" "pc_AuditDays ?cfg = 365" "pc_UsageDays ?cfg = 730"
    by (simp_all add: LoadPurgeConfig_def envIntWithMinDefault_def)
  ultimately have "db_events db' = filter (\<lambda>r. 100 * day - 30 * day \<le> row_created r) (db_events ?db)"
    using purge_respects_retention[OF r refl] firstPick_ok by simp
  then show ?thesis unfolding r by (simp add: rowAt_def day_def)
qed

subsection \<open>The tenant table\<close>

record pgTenant =
  pt_TenantID :: string
  pt_Name :: string
  pt_Slug :: string
  pt_Plan :: string
  pt_CreatedAt :: "time option"
  pt_UpdatedAt :: "time option"
  pt_DeletedAt :: "time option"

record tenantDB =
  td_tenants :: "pgTenant list"
  td_tables :: "(string, dbRow list) gomap"

datatype pgTenantErr = PgTenantNotFound | PgSlugConflict | PgError string

definition searchString :: "string \<Rightarrow> string \<Rightarrow> bool" where
  "searchString s sub = list_ex (\<lambda>i. take (length sub) (drop i s) = sub) [0..<Suc (length s - length sub)]"

definition containsStr :: "string \<Rightarrow> string \<Rightarrow> bool" where
  "containsStr s sub \<longleftrightarrow> length s \<ge> length sub \<and> searchString s sub"

definition isUniqueViolation :: "string \<Rightarrow> bool" where
  "isUniqueViolation msg \<longleftrightarrow> containsStr msg ''duplicate key'' \<or> containsStr msg ''23505''"

text \<open>The table has the tenant identifier as primary key and a unique slug; \<open>dupMsg\<close> is the message of the driver when
  an insertion violates one of them.\<close>

definition PgTenant_Create :: "string \<Rightarrow> string option \<Rightarrow> time \<Rightarrow> pgTenant \<Rightarrow> tenantDB \<Rightarrow> pgTenantErr option \<times> tenantDB" where
  "PgTenant_Create dupMsg fault now t0 db =
     (let created = (case pt_CreatedAt t0 of None \<Rightarrow> now | Some c \<Rightarrow> c);
          updated = (case pt_UpdatedAt t0 of None \<Rightarrow> created | Some u \<Rightarrow> u);
          t = t0\<lparr>pt_CreatedAt := Some created, pt_UpdatedAt := Some updated, pt_DeletedAt := None\<rparr>;
          failure = (case fault of Some e \<Rightarrow> Some e
             | None \<Rightarrow> if list_ex (\<lambda>r. pt_TenantID r = pt_TenantID t \<or> pt_Slug r = pt_Slug t) (td_tenants db) then Some dupMsg else None) in
      case failure of
        Some e \<Rightarrow> (Some (if isUniqueViolation e then PgSlugConflict else PgError (''insert tenant: '' @ e)), db)
      | None \<Rightarrow> (None, db\<lparr>td_tenants := td_tenants db @ [t]\<rparr>))"

definition liveTenant :: "string \<Rightarrow> pgTenant \<Rightarrow> bool" where
  "liveTenant i t \<longleftrightarrow> pt_TenantID t = i \<and> pt_DeletedAt t = None"

definition PgTenant_Get :: "string option \<Rightarrow> string \<Rightarrow> tenantDB \<Rightarrow> pgTenantErr + pgTenant" where
  "PgTenant_Get fault i db =
     (if i = [] then Inl PgTenantNotFound
      else case fault of Some e \<Rightarrow> Inl (PgError (''get tenant: '' @ e))
        | None \<Rightarrow> (case find (liveTenant i) (td_tenants db) of None \<Rightarrow> Inl PgTenantNotFound | Some t \<Rightarrow> Inr t))"

text \<open>An UPDATE of the rows that satisfy a condition, and the error when none does.\<close>

definition updateLive :: "string \<Rightarrow> string option \<Rightarrow> string \<Rightarrow> (pgTenant \<Rightarrow> pgTenant) \<Rightarrow> tenantDB \<Rightarrow> pgTenantErr option \<times> tenantDB" where
  "updateLive what fault i f db =
     (if i = [] then (Some PgTenantNotFound, db)
      else case fault of Some e \<Rightarrow> (Some (PgError (what @ e)), db)
        | None \<Rightarrow>
            (if list_ex (liveTenant i) (td_tenants db)
             then (None, db\<lparr>td_tenants := map (\<lambda>t. if liveTenant i t then f t else t) (td_tenants db)\<rparr>)
             else (Some PgTenantNotFound, db)))"

definition PgTenant_Update ::
  "string option \<Rightarrow> time \<Rightarrow> string \<Rightarrow> string option \<Rightarrow> string option \<Rightarrow> tenantDB \<Rightarrow> pgTenantErr option \<times> tenantDB" where
  "PgTenant_Update fault now i name plan =
     updateLive ''update tenant: '' fault i
       (\<lambda>t. t\<lparr>pt_Name := (case name of None \<Rightarrow> pt_Name t | Some n \<Rightarrow> n), pt_Plan := (case plan of None \<Rightarrow> pt_Plan t | Some q \<Rightarrow> q),
              pt_UpdatedAt := Some now\<rparr>)"

definition PgTenant_Delete :: "string option \<Rightarrow> time \<Rightarrow> string \<Rightarrow> tenantDB \<Rightarrow> pgTenantErr option \<times> tenantDB" where
  "PgTenant_Delete fault now i = updateLive ''soft delete tenant: '' fault i (\<lambda>t. t\<lparr>pt_DeletedAt := Some now\<rparr>)"

definition PgTenant_List :: "string option \<Rightarrow> tenantDB \<Rightarrow> pgTenantErr + pgTenant list" where
  "PgTenant_List fault db =
     (case fault of Some e \<Rightarrow> Inl (PgError (''list tenants: '' @ e))
      | None \<Rightarrow> Inr (take 1000 (sort_key (\<lambda>t. - (case pt_CreatedAt t of None \<Rightarrow> 0 | Some c \<Rightarrow> c))
                  (filter (\<lambda>t. pt_DeletedAt t = None) (td_tenants db)))))"

definition sameMember :: "dbRow \<Rightarrow> dbRow \<Rightarrow> bool" where
  "sameMember m r \<longleftrightarrow> row_tenant r = row_tenant m \<and> row_key r = row_key m"

definition PgTenant_AddMember :: "string option \<Rightarrow> dbRow \<Rightarrow> tenantDB \<Rightarrow> pgTenantErr option \<times> tenantDB" where
  "PgTenant_AddMember fault m db =
     (case fault of Some e \<Rightarrow> (Some (PgError (''add tenant member: '' @ e)), db)
      | None \<Rightarrow>
          (let rows = zget [] (td_tables db) ''tenant_members'';
               rows' = (if list_ex (sameMember m) rows
                        then map (\<lambda>r. if sameMember m r then r\<lparr>row_status := row_status m\<rparr> else r) rows else rows @ [m]) in
           (None, db\<lparr>td_tables := mput ''tenant_members'' rows' (td_tables db)\<rparr>)))"

definition tenantDataTables :: "string list" where
  "tenantDataTables = [''runs'', ''agents'', ''audit_events'', ''usage_records'', ''conversation_memory'', ''kv_store'', ''event_log'',
     ''api_keys'', ''tenant_members'']"

fun deleteTables ::
  "picker \<Rightarrow> (nat \<Rightarrow> string option) \<Rightarrow> nat \<Rightarrow> string \<Rightarrow> string list \<Rightarrow> (string, dbRow list) gomap \<Rightarrow> string option \<times> nat \<times> (string, dbRow list) gomap" where
  "deleteTables pick faults k i [] m = (None, k, m)"
| "deleteTables pick faults k i (tbl # tbls) m =
     (case deleteAllRows pick faults k (\<lambda>r. row_tenant r = i) (zget [] m tbl) of
        (Some e, k', rows) \<Rightarrow> (Some (''delete from '' @ tbl @ '': '' @ e), k', mput tbl rows m)
      | (None, k', rows) \<Rightarrow> deleteTables pick faults k' i tbls (mput tbl rows m))"

definition DeleteAllData :: "picker \<Rightarrow> (nat \<Rightarrow> string option) \<Rightarrow> string \<Rightarrow> tenantDB \<Rightarrow> string option \<times> tenantDB" where
  "DeleteAllData pick faults i db =
     (case deleteTables pick faults 0 i tenantDataTables (td_tables db) of
        (Some e, k, m) \<Rightarrow> (Some e, db\<lparr>td_tables := m\<rparr>)
      | (None, k, m) \<Rightarrow>
          (case faults k of Some e \<Rightarrow> (Some (''delete tenant record: '' @ e), db\<lparr>td_tables := m\<rparr>)
           | None \<Rightarrow> (None, db\<lparr>td_tables := m, td_tenants := filter (\<lambda>t. pt_TenantID t \<noteq> i) (td_tenants db)\<rparr>)))"

subsection \<open>The tenant API\<close>

record createRequest =
  crq_Name :: string
  crq_Slug :: string
  crq_Plan :: string

record tenantResponse =
  tr_TenantID :: string
  tr_Name :: string
  tr_Slug :: string
  tr_Plan :: string
  tr_CreatedAt :: string
  tr_UpdatedAt :: string
  tr_DeletedAt :: "string option"

definition fmtOpt :: "(time \<Rightarrow> string) \<Rightarrow> time option \<Rightarrow> string" where
  "fmtOpt fmt t = fmt (case t of None \<Rightarrow> 0 | Some x \<Rightarrow> x)"

definition toResponse :: "(time \<Rightarrow> string) \<Rightarrow> pgTenant \<Rightarrow> tenantResponse" where
  "toResponse fmt t = \<lparr>tr_TenantID = pt_TenantID t, tr_Name = pt_Name t, tr_Slug = pt_Slug t, tr_Plan = pt_Plan t,
     tr_CreatedAt = fmtOpt fmt (pt_CreatedAt t), tr_UpdatedAt = fmtOpt fmt (pt_UpdatedAt t), tr_DeletedAt = map_option fmt (pt_DeletedAt t)\<rparr>"

definition missingAuth :: httpError where
  "missingAuth = httpxError 401 ''unauthorized'' ''missing auth context'' False"

definition missingTenantID :: httpError where
  "missingTenantID = httpxError 400 ''missing_field'' ''tenant_id is required'' False"

definition tenantNotFound :: httpError where
  "tenantNotFound = httpxError 404 ''not_found'' ''tenant not found'' False"

definition internalErr :: "string \<Rightarrow> httpError" where
  "internalErr msg = httpxError 500 ''internal'' msg True"

definition extractTenantID :: "string \<Rightarrow> string" where
  "extractTenantID urlPath =
     (case splitByte CHR ''/'' (TrimPrefix urlPath ''/'') of
        a # b # c # _ \<Rightarrow> if a = ''v1'' \<and> b = ''tenants'' then c else []
      | _ \<Rightarrow> [])"

record tenantEnv =
  te_now :: time
  te_dupMsg :: string
  te_fault :: "nat \<Rightarrow> string option"
  te_fmt :: "time \<Rightarrow> string"
  te_hex :: string

definition API_HandleCreate ::
  "tenantEnv \<Rightarrow> authContext option \<Rightarrow> string + createRequest \<Rightarrow> tenantDB \<Rightarrow> tenantResponse resp \<times> tenantDB" where
  "API_HandleCreate env acOpt body db =
     (case acOpt of None \<Rightarrow> (RErr missingAuth, db)
      | Some ac \<Rightarrow>
          (case body of Inl _ \<Rightarrow> (RErr (httpxError 400 ''invalid_json'' ''invalid request body'' False), db)
           | Inr req \<Rightarrow>
               (let name = TrimSpace (crq_Name req); slug = TrimSpace (crq_Slug req); plan = TrimSpace (crq_Plan req) in
                if name = [] then (RErr (httpxError 400 ''missing_field'' ''name is required'' False), db)
                else if slug = [] then (RErr (httpxError 400 ''missing_field'' ''slug is required'' False), db)
                else
                  (let i = ''tnt_'' @ slug @ ''_'' @ te_hex env;
                       t = \<lparr>pt_TenantID = i, pt_Name = name, pt_Slug = slug, pt_Plan = (if plan = [] then ''starter'' else plan),
                            pt_CreatedAt = Some (te_now env), pt_UpdatedAt = Some (te_now env), pt_DeletedAt = None\<rparr> in
                   case PgTenant_Create (te_dupMsg env) (te_fault env 0) (te_now env) t db of
                     (Some PgSlugConflict, db') \<Rightarrow> (RErr (httpxError 409 ''slug_conflict'' ''tenant slug already exists'' False), db')
                   | (Some _, db') \<Rightarrow> (RErr (internalErr ''failed to create tenant''), db')
                   | (None, db') \<Rightarrow>
                       (let who = (if ac_PrincipalID ac = [] then ''system'' else ac_PrincipalID ac);
                            m = \<lparr>row_tenant = i, row_key = who, row_status = ''owner'', row_created = te_now env,
                                 row_createdText = te_fmt env (te_now env)\<rparr> in
                        (ROk 201 (toResponse (te_fmt env) t), snd (PgTenant_AddMember (te_fault env 1) m db')))))))"

definition API_HandleGet :: "tenantEnv \<Rightarrow> authContext option \<Rightarrow> string \<Rightarrow> tenantDB \<Rightarrow> tenantResponse resp" where
  "API_HandleGet env acOpt urlPath db =
     (case acOpt of None \<Rightarrow> RErr missingAuth
      | Some _ \<Rightarrow>
          (let i = extractTenantID urlPath in
           if i = [] then RErr missingTenantID
           else case PgTenant_Get (te_fault env 0) i db of
             Inl PgTenantNotFound \<Rightarrow> RErr tenantNotFound
           | Inl _ \<Rightarrow> RErr (internalErr ''failed to get tenant'')
           | Inr t \<Rightarrow> ROk 200 (toResponse (te_fmt env) t)))"

definition API_HandleUpdate ::
  "tenantEnv \<Rightarrow> authContext option \<Rightarrow> string \<Rightarrow> string + (string option \<times> string option) \<Rightarrow> tenantDB \<Rightarrow> tenantResponse resp \<times> tenantDB" where
  "API_HandleUpdate env acOpt urlPath body db =
     (case acOpt of None \<Rightarrow> (RErr missingAuth, db)
      | Some _ \<Rightarrow>
          (let i = extractTenantID urlPath in
           if i = [] then (RErr missingTenantID, db)
           else case body of Inl _ \<Rightarrow> (RErr (httpxError 400 ''invalid_json'' ''invalid request body'' False), db)
             | Inr (name, plan) \<Rightarrow>
                 (case PgTenant_Update (te_fault env 0) (te_now env) i name plan db of
                    (Some PgTenantNotFound, db') \<Rightarrow> (RErr tenantNotFound, db')
                  | (Some _, db') \<Rightarrow> (RErr (internalErr ''failed to update tenant''), db')
                  | (None, db') \<Rightarrow>
                      (case PgTenant_Get (te_fault env 1) i db' of
                         Inl _ \<Rightarrow> (RErr (internalErr ''failed to get updated tenant''), db')
                       | Inr t \<Rightarrow> (ROk 200 (toResponse (te_fmt env) t), db')))))"

text \<open>The deletion of a tenant: confirmed, marked as deleted, then purged in the background when there is a database.\<close>

record deleteAPI =
  da_db :: tenantDB
  da_hasDB :: bool
  da_audit :: "logEntry list option"

definition daLog :: "tenantEnv \<Rightarrow> string \<Rightarrow> string \<Rightarrow> string \<Rightarrow> string \<Rightarrow> (string, json) gomap option \<Rightarrow> string \<Rightarrow> deleteAPI \<Rightarrow> deleteAPI" where
  "daLog env cid who action outcome meta i s =
     s\<lparr>da_audit := map_option (\<lambda>l. l @ [\<lparr>le_Time = te_fmt env (te_now env), le_TenantID = ''system'', le_PrincipalID = who, le_Action = action,
        le_Resource = i, le_Outcome = outcome, le_CorrelationID = cid, le_RequestID = [], le_Meta = meta\<rparr>]) (da_audit s)\<rparr>"

definition confirmRequired :: "(string \<Rightarrow> string) \<Rightarrow> string \<Rightarrow> httpError" where
  "confirmRequired quote expected =
     httpxError 400 ''confirmation_required'' (''X-Confirm-Delete header must be '' @ quote expected) False"

text \<open>\<open>quote\<close> is the quoting of \<open>%q\<close>. The answer tells whether the background deletion was started, for which who.\<close>

definition DeleteAPI_HandleDelete ::
  "tenantEnv \<Rightarrow> (string \<Rightarrow> string) \<Rightarrow> string \<Rightarrow> authContext option \<Rightarrow> string \<Rightarrow> (string \<Rightarrow> string) \<Rightarrow> deleteAPI \<Rightarrow> (string \<times> string option) resp \<times> deleteAPI" where
  "DeleteAPI_HandleDelete env quote cid acOpt urlPath header s =
     (case acOpt of None \<Rightarrow> (RErr missingAuth, s)
      | Some ac \<Rightarrow>
          (let i = extractTenantID urlPath in
           if i = [] then (RErr missingTenantID, s)
           else if TrimSpace (header ''X-Confirm-Delete'') \<noteq> ''DELETE '' @ i then (RErr (confirmRequired quote (''DELETE '' @ i)), s)
           else case PgTenant_Get (te_fault env 0) i (da_db s) of
             Inl PgTenantNotFound \<Rightarrow> (RErr tenantNotFound, s)
           | Inl _ \<Rightarrow> (RErr (internalErr ''failed to verify tenant''), s)
           | Inr _ \<Rightarrow>
               (case PgTenant_Delete (te_fault env 1) (te_now env) i (da_db s) of
                  (Some PgTenantNotFound, db) \<Rightarrow> (RErr tenantNotFound, s\<lparr>da_db := db\<rparr>)
                | (Some _, db) \<Rightarrow> (RErr (internalErr ''failed to delete tenant''), s\<lparr>da_db := db\<rparr>)
                | (None, db) \<Rightarrow>
                    (let who = (if ac_PrincipalID ac = [] then ''system'' else ac_PrincipalID ac) in
                     (ROk 202 (i, if da_hasDB s then Some who else None),
                      daLog env cid who ''tenant.delete.scheduled'' ''accepted'' None i (s\<lparr>da_db := db\<rparr>))))))"

definition runAsyncDeletion ::
  "tenantEnv \<Rightarrow> picker \<Rightarrow> (nat \<Rightarrow> string option) \<Rightarrow> string \<Rightarrow> string \<Rightarrow> string \<Rightarrow> deleteAPI \<Rightarrow> deleteAPI" where
  "runAsyncDeletion env pick faults i who cid s =
     (if \<not> da_hasDB s then s
      else case DeleteAllData pick faults i (da_db s) of
        (Some e, db) \<Rightarrow> daLog env cid who ''tenant.delete.failed'' ''error'' (Some [(''error'', JStr e)]) i (s\<lparr>da_db := db\<rparr>)
      | (None, db) \<Rightarrow> daLog env cid who ''tenant.delete.completed'' ''success'' None i (s\<lparr>da_db := db\<rparr>))"

subsection \<open>Data export\<close>

record exportJob =
  ej_JobID :: string
  ej_TenantID :: string
  ej_status :: string
  ej_CreatedAt :: string
  ej_ExpiresAt :: string
  ej_filePath :: string

record exportJobStore =
  es_jobs :: "(string, nat) gomap"
  es_order :: "string list"
  es_maxJobs :: int

record exporter =
  ex_heap :: "exportJob list"
  ex_store :: exportJobStore
  ex_dir :: string
  ex_files :: "(string, json) gomap"

definition NewExportJobStore :: "int \<Rightarrow> exportJobStore" where
  "NewExportJobStore maxJobs = \<lparr>es_jobs = [], es_order = [], es_maxJobs = (if maxJobs \<le> 0 then 100 else maxJobs)\<rparr>"

definition NewExportHandler :: "(string \<Rightarrow> string) \<Rightarrow> exportJobStore \<Rightarrow> exporter" where
  "NewExportHandler getenv store =
     (let d = getenv ''AGENTOS_EXPORT_DIR'' in
      \<lparr>ex_heap = [], ex_store = store, ex_dir = (if d = [] then ''data/exports/'' else d), ex_files = []\<rparr>)"

fun evictOldest :: "int \<Rightarrow> string list \<Rightarrow> (string, nat) gomap \<Rightarrow> string list \<times> (string, nat) gomap" where
  "evictOldest maxJobs [] m = ([], m)"
| "evictOldest maxJobs (j # js) m =
     (if int (length (j # js)) \<ge> maxJobs then evictOldest maxJobs js (mdel j m) else (j # js, m))"

definition ExportStore_Add :: "string \<Rightarrow> nat \<Rightarrow> exportJobStore \<Rightarrow> exportJobStore" where
  "ExportStore_Add i addr s =
     (case evictOldest (es_maxJobs s) (es_order s) (es_jobs s) of
        (order, jobs) \<Rightarrow> s\<lparr>es_jobs := mput i addr jobs, es_order := order @ [i]\<rparr>)"

definition ExportStore_Get :: "string \<Rightarrow> exportJobStore \<Rightarrow> nat option" where
  "ExportStore_Get i s = mget (es_jobs s) i"

definition ExportStore_Len :: "exportJobStore \<Rightarrow> nat" where
  "ExportStore_Len s = length (es_jobs s)"

definition setJob :: "nat \<Rightarrow> (exportJob \<Rightarrow> exportJob) \<Rightarrow> exporter \<Rightarrow> exporter" where
  "setJob a f s = (if a < length (ex_heap s) then s\<lparr>ex_heap := (ex_heap s)[a := f (ex_heap s ! a)]\<rparr> else s)"

definition SetStatus :: "string \<Rightarrow> exportJob \<Rightarrow> exportJob" where "SetStatus v j = j\<lparr>ej_status := v\<rparr>"

definition SetFilePath :: "string \<Rightarrow> exportJob \<Rightarrow> exportJob" where "SetFilePath p j = j\<lparr>ej_filePath := p\<rparr>"

text \<open>The role of the caller is read from the subject type of the request; an empty one counts as owner.\<close>

definition ownerBySubject :: "authContext \<Rightarrow> bool" where
  "ownerBySubject ac \<longleftrightarrow> HasPermission (if ac_SubjectType ac = [] then ''owner'' else ac_SubjectType ac) ''owner''"

definition ownerGate :: "(string \<Rightarrow> string) \<Rightarrow> authContext option \<Rightarrow> httpError + (authContext \<times> string)" where
  "ownerGate getenv acOpt =
     (case acOpt of None \<Rightarrow> Inl missingAuth
      | Some ac \<Rightarrow>
          if \<not> ownerBySubject ac then Inl (httpxError 403 ''forbidden'' ''owner role required'' False)
          else case RequireTenant getenv ac of
            Inl e \<Rightarrow> Inl (httpxError 400 ''invalid_tenant'' (tenantErrMsg e) False)
          | Inr t \<Rightarrow> Inr (ac, t))"

record exportEnv =
  ee_newID :: string
  ee_now :: time
  ee_fmt :: "time \<Rightarrow> string"
  ee_parse :: "string \<Rightarrow> time option"

definition onlyMethod :: "string \<Rightarrow> httpError" where
  "onlyMethod m = httpxError 405 ''method_not_allowed'' (''only '' @ m @ '' is supported'') False"

text \<open>The answer carries the address handed to the exporting goroutine.\<close>

definition Export_HandleCreate ::
  "exportEnv \<Rightarrow> (string \<Rightarrow> string) \<Rightarrow> string \<Rightarrow> authContext option \<Rightarrow> exporter \<Rightarrow> (string \<times> nat) resp \<times> exporter" where
  "Export_HandleCreate env getenv httpMethod acOpt s =
     (if httpMethod \<noteq> ''POST'' then (RErr (onlyMethod ''POST''), s)
      else case ownerGate getenv acOpt of
        Inl e \<Rightarrow> (RErr e, s)
      | Inr (ac, t) \<Rightarrow>
          (let job = \<lparr>ej_JobID = ''exp_'' @ ee_newID env, ej_TenantID = t, ej_status = ''pending'', ej_CreatedAt = ee_fmt env (ee_now env),
                      ej_ExpiresAt = ee_fmt env (ee_now env + 7 * day), ej_filePath = []\<rparr>;
               a = length (ex_heap s) in
           (ROk 202 (ej_JobID job, a),
            s\<lparr>ex_heap := ex_heap s @ [job], ex_store := ExportStore_Add (ej_JobID job) a (ex_store s)\<rparr>)))"

definition pathBase :: "string \<Rightarrow> string" where
  "pathBase p =
     (if p = [] then ''.''
      else let q = rev (dropWhile (\<lambda>c. c = CHR ''/'') (rev p)) in
           if q = [] then ''/'' else last (splitByte CHR ''/'' q))"

record exportStatus =
  xs_JobID :: string
  xs_Status :: string
  xs_DownloadURL :: "string option"

definition Export_HandleStatus ::
  "exportEnv \<Rightarrow> string \<Rightarrow> (string \<Rightarrow> string) \<Rightarrow> string \<Rightarrow> exporter \<Rightarrow> exportStatus resp \<times> exporter" where
  "Export_HandleStatus env httpMethod query urlPath s =
     (if httpMethod \<noteq> ''GET'' then (RErr (onlyMethod ''GET''), s)
      else
        (let q = query ''job_id''; i = (if q = [] then pathBase urlPath else q) in
         if i = [] \<or> i = ''.'' \<or> i = ''/'' then (RErr (httpxError 400 ''missing_job_id'' ''job_id is required'' False), s)
         else case ExportStore_Get i (ex_store s) of
           None \<Rightarrow> (RErr (httpxError 404 ''not_found'' ''export job not found'' False), s)
         | Some a \<Rightarrow>
             (let job = ex_heap s ! a;
                  expired = (ej_status job = ''complete'' \<and> (case ee_parse env (ej_ExpiresAt job) of None \<Rightarrow> False | Some x \<Rightarrow> ee_now env > x));
                  status = (if expired then ''expired'' else ej_status job) in
              (ROk 200 \<lparr>xs_JobID = ej_JobID job, xs_Status = status,
                        xs_DownloadURL = (if status = ''complete'' \<and> ej_filePath job \<noteq> [] then Some (ej_filePath job) else None)\<rparr>,
               if expired then setJob a (SetStatus ''expired'') s else s))))"

record exportIO =
  xi_collect :: "(string \<Rightarrow> string + json) option"
  xi_mkdir :: "string option"
  xi_create :: "string option"
  xi_write :: "string option"

definition runExport :: "exportIO \<Rightarrow> nat \<Rightarrow> exporter \<Rightarrow> exporter" where
  "runExport io a s =
     (case xi_collect io of None \<Rightarrow> setJob a (SetStatus ''complete'') s
      | Some collect \<Rightarrow>
          (case collect (ej_TenantID (ex_heap s ! a)) of
             Inl _ \<Rightarrow> setJob a (SetStatus ''complete'') s
           | Inr d \<Rightarrow>
               if xi_mkdir io \<noteq> None \<or> xi_create io \<noteq> None then setJob a (SetStatus ''complete'') s
               else
                 (let p = joinPath [ex_dir s, ej_JobID (ex_heap s ! a) @ ''.json''] in
                  setJob a (SetStatus ''complete'' \<circ> SetFilePath p)
                    (if xi_write io = None then s\<lparr>ex_files := mput p d (ex_files s)\<rparr> else s))))"

subsection \<open>Data deletion\<close>

text \<open>The answer carries the deletion that is started; \<open>deleter\<close> is absent in the server.\<close>

definition Delete_ServeHTTP ::
  "(string \<Rightarrow> string) \<Rightarrow> (string \<Rightarrow> string) \<Rightarrow> string \<Rightarrow> authContext option \<Rightarrow> (string \<Rightarrow> string) \<Rightarrow> (string \<times> string) resp" where
  "Delete_ServeHTTP getenv quote httpMethod acOpt header =
     (if httpMethod \<noteq> ''POST'' then RErr (onlyMethod ''POST'')
      else case ownerGate getenv acOpt of
        Inl e \<Rightarrow> RErr e
      | Inr (ac, t) \<Rightarrow>
          if TrimSpace (header ''X-Confirm-Delete'') \<noteq> ''DELETE '' @ t then RErr (confirmRequired quote (''DELETE '' @ t))
          else ROk 202 (t, ac_PrincipalID ac))"

definition runDeletion ::
  "(string \<Rightarrow> 'd \<Rightarrow> string option \<times> 'd) option \<Rightarrow> (string \<Rightarrow> string \<Rightarrow> 'd \<Rightarrow> string option \<times> 'd) option \<Rightarrow> string \<Rightarrow> string \<Rightarrow> 'd \<Rightarrow> 'd" where
  "runDeletion deleter auditor t actor d =
     (case (case deleter of None \<Rightarrow> (None, d) | Some del \<Rightarrow> del t d) of
        (Some _, d') \<Rightarrow> d'
      | (None, d') \<Rightarrow> (case auditor of None \<Rightarrow> d' | Some logDeletion \<Rightarrow> snd (logDeletion t actor d')))"

subsection \<open>A deleted tenant leaves nothing in the listed tables\<close>

lemma deleteAllRows_others:
  "deleteAllRows pick faults k P rows = (e, k', rows') \<Longrightarrow> filter (\<lambda>r. \<not> P r) rows' = filter (\<lambda>r. \<not> P r) rows"
proof (induction pick faults k P rows arbitrary: e k' rows' rule: deleteAllRows.induct)
  case (1 pick faults k P rows)
  obtain r m where d: "deleteLimited pick k P rows = (r, m)" by (cases "deleteLimited pick k P rows")
  note o = deleteLimited_others[OF d]
  show ?case
  proof (cases "faults k = None \<and> m \<noteq> 0")
    case True
    then have "deleteAllRows pick faults (Suc k) P r = (e, k', rows')"
      using 1(2) d by (simp add: deleteAllRows.simps[of _ _ k])
    from 1(1)[OF _ d[symmetric] _ this] True o show ?thesis by auto
  qed (use 1(2) d o in \<open>auto simp: deleteAllRows.simps[of _ _ k] split: option.splits if_splits\<close>)
qed

lemma deleteAllRows_complete:
  "pickOk batchSize pick \<Longrightarrow> deleteAllRows pick faults k P rows = (None, k', rows') \<Longrightarrow> rows' = filter (\<lambda>r. \<not> P r) rows"
proof (induction pick faults k P rows arbitrary: k' rows' rule: deleteAllRows.induct)
  case (1 pick faults k P rows)
  obtain r m where d: "deleteLimited pick k P rows = (r, m)" by (cases "deleteLimited pick k P rows")
  note o = deleteLimited_others[OF d] and c = deleteLimited_ok[OF 1(2) d]
  have f: "faults k = None" using 1(3) by (simp add: deleteAllRows.simps[of _ _ k] split: option.splits)
  show ?case
  proof (cases "m = 0")
    case True
    then have "filter P r = []" using c by (auto simp: batchSize_def min_def split: if_splits)
    then show ?thesis using no_match_left[of P r rows] o 1(3) f d True by (auto simp: deleteAllRows.simps[of _ _ k])
  next
    case False
    then have "deleteAllRows pick faults (Suc k) P r = (None, k', rows')" using 1(3) f d by (simp add: deleteAllRows.simps[of _ _ k])
    from 1(1)[OF f d[symmetric] False 1(2) this] o show ?thesis by auto
  qed
qed

lemma deleteAllRows_returns: "(\<And>j. faults j = None) \<Longrightarrow> fst (deleteAllRows pick faults k P rows) = None"
  by (induction pick faults k P rows rule: deleteAllRows.induct) (subst deleteAllRows.simps, auto split: prod.splits)

lemma deleteTables_cases:
  assumes "deleteTables pick faults k i (tbl # tbls) m = (e, k', m')"
  obtains e1 k1 rows where "deleteAllRows pick faults k (\<lambda>r. row_tenant r = i) (zget [] m tbl) = (e1, k1, rows)"
    "e1 \<noteq> None \<and> e \<noteq> None \<and> m' = mput tbl rows m \<or> e1 = None \<and> deleteTables pick faults k1 i tbls (mput tbl rows m) = (e, k', m')"
  using assms by (auto split: prod.splits option.splits)

lemma deleteTables_others:
  "deleteTables pick faults k i tbls m = (e, k', m') \<Longrightarrow>
     filter (\<lambda>r. row_tenant r \<noteq> i) (zget [] m' t) = filter (\<lambda>r. row_tenant r \<noteq> i) (zget [] m t)"
proof (induction tbls arbitrary: k m)
  case (Cons tbl tbls)
  from Cons.prems obtain e1 k1 rows where d: "deleteAllRows pick faults k (\<lambda>r. row_tenant r = i) (zget [] m tbl) = (e1, k1, rows)"
    "e1 \<noteq> None \<and> e \<noteq> None \<and> m' = mput tbl rows m \<or> e1 = None \<and> deleteTables pick faults k1 i tbls (mput tbl rows m) = (e, k', m')"
    by (rule deleteTables_cases)
  then have "filter (\<lambda>r. row_tenant r \<noteq> i) (zget [] m' t) = filter (\<lambda>r. row_tenant r \<noteq> i) (zget [] (mput tbl rows m) t)"
    using Cons.IH by blast
  then show ?case using deleteAllRows_others[OF d(1)] by (simp add: zget_mput)
qed simp

lemma deleteTables_unlisted:
  "deleteTables pick faults k i tbls m = (e, k', m') \<Longrightarrow> t \<notin> set tbls \<Longrightarrow> zget [] m' t = zget [] m t"
proof (induction tbls arbitrary: k m)
  case (Cons tbl tbls)
  from Cons.prems(1) obtain e1 k1 rows where "deleteAllRows pick faults k (\<lambda>r. row_tenant r = i) (zget [] m tbl) = (e1, k1, rows)"
    and d: "e1 \<noteq> None \<and> e \<noteq> None \<and> m' = mput tbl rows m \<or> e1 = None \<and> deleteTables pick faults k1 i tbls (mput tbl rows m) = (e, k', m')"
    by (rule deleteTables_cases)
  then show ?case using Cons.IH[of k1 "mput tbl rows m"] Cons.prems(2) by (auto simp: zget_mput)
qed simp

lemma deleteTables_complete:
  "deleteTables pick faults k i tbls m = (None, k', m') \<Longrightarrow> pickOk batchSize pick \<Longrightarrow> t \<in> set tbls \<Longrightarrow>
     zget [] m' t = filter (\<lambda>r. row_tenant r \<noteq> i) (zget [] m t)"
proof (induction tbls arbitrary: k m)
  case (Cons tbl tbls)
  from Cons.prems(1) obtain k1 rows where d: "deleteAllRows pick faults k (\<lambda>r. row_tenant r = i) (zget [] m tbl) = (None, k1, rows)"
    "deleteTables pick faults k1 i tbls (mput tbl rows m) = (None, k', m')"
    by (rule deleteTables_cases) auto
  have c: "rows = filter (\<lambda>r. row_tenant r \<noteq> i) (zget [] m tbl)" using deleteAllRows_complete[OF Cons.prems(2) d(1)] .
  show ?case
  proof (cases "t \<in> set tbls")
    case True
    from Cons.IH[OF d(2) Cons.prems(2) True] c show ?thesis by (auto simp: zget_mput filter_filter)
  next
    case False
    with Cons.prems(3) have "t = tbl" by simp
    with deleteTables_unlisted[OF d(2) False] c show ?thesis by (simp add: zget_mput)
  qed
qed simp

lemma deleteTables_returns:
  "(\<And>j. faults j = None) \<Longrightarrow> fst (deleteTables pick faults k i tbls m) = None"
proof (induction tbls arbitrary: k m)
  case (Cons tbl tbls)
  obtain k1 rows where "deleteAllRows pick faults k (\<lambda>r. row_tenant r = i) (zget [] m tbl) = (None, k1, rows)"
    using deleteAllRows_returns[of faults pick k "\<lambda>r. row_tenant r = i" "zget [] m tbl"] Cons.prems
    by (cases "deleteAllRows pick faults k (\<lambda>r. row_tenant r = i) (zget [] m tbl)") auto
  with Cons.IH[OF Cons.prems] show ?case by simp
qed simp

text \<open>C29. Erasing a tenant: whatever rows the database picks and wherever a statement fails, no row of another tenant is
  touched; without failures the operation returns, and whenever it returns without error no row of the tenant is left in
  any of the listed tables and the tenant record is gone.\<close>

theorem tenant_data_erased:
  assumes "DeleteAllData pick faults i db = (e, db')" "pickOk 1000 pick"
  shows "(\<forall>t. filter (\<lambda>r. row_tenant r \<noteq> i) (zget [] (td_tables db') t) = filter (\<lambda>r. row_tenant r \<noteq> i) (zget [] (td_tables db) t)) \<and>
    filter (\<lambda>t. pt_TenantID t \<noteq> i) (td_tenants db') = filter (\<lambda>t. pt_TenantID t \<noteq> i) (td_tenants db) \<and>
    ((\<forall>j. faults j = None) \<longrightarrow> e = None) \<and>
    (e = None \<longrightarrow> (\<forall>t\<in>set tenantDataTables. \<forall>r\<in>set (zget [] (td_tables db') t). row_tenant r \<noteq> i) \<and>
       (\<forall>t\<in>set (td_tenants db'). pt_TenantID t \<noteq> i))"
proof -
  obtain e1 k m where d: "deleteTables pick faults 0 i tenantDataTables (td_tables db) = (e1, k, m)"
    by (cases "deleteTables pick faults 0 i tenantDataTables (td_tables db)") auto
  have m: "td_tables db' = m" "td_tenants db' = td_tenants db \<or> td_tenants db' = filter (\<lambda>t. pt_TenantID t \<noteq> i) (td_tenants db)"
    "e = None \<Longrightarrow> e1 = None \<and> td_tenants db' = filter (\<lambda>t. pt_TenantID t \<noteq> i) (td_tenants db)"
    using assms(1) d by (auto simp: DeleteAllData_def split: option.splits)
  have pk: "pickOk batchSize pick" using assms(2) by (simp add: batchSize_def)
  have "e = None" if "\<forall>j. faults j = None"
    using deleteTables_returns[of faults pick 0 i tenantDataTables "td_tables db"] that assms(1) d
    by (auto simp: DeleteAllData_def)
  moreover have "\<forall>r\<in>set (zget [] (td_tables db') t). row_tenant r \<noteq> i" if "e = None" "t \<in> set tenantDataTables" for t
    using deleteTables_complete[OF _ pk that(2)] d m(1) m(3)[OF that(1)] by auto
  moreover have "\<forall>t\<in>set (td_tenants db'). pt_TenantID t \<noteq> i" if "e = None" using m(3)[OF that] by auto
  ultimately show ?thesis using deleteTables_others[OF d] m(1,2) by auto
qed

theorem tenant_data_erased_witness:
  "\<exists>db'. DeleteAllData firstPick (\<lambda>_. None) ''acme'' \<lparr>td_tenants = [], td_tables = [(''runs'', [rowAt 1]), (''agent_versions'', [rowAt 2])]\<rparr> = (None, db') \<and>
     (\<forall>r\<in>set (zget [] (td_tables db') ''runs''). row_tenant r \<noteq> ''acme'')"
proof -
  let ?db = "\<lparr>td_tenants = [], td_tables = [(''runs'', [rowAt 1]), (''agent_versions'', [rowAt 2])]\<rparr>"
  obtain e db' where d: "DeleteAllData firstPick (\<lambda>_. None) ''acme'' ?db = (e, db')"
    by (cases "DeleteAllData firstPick (\<lambda>_. None) ''acme'' ?db")
  from tenant_data_erased[OF d firstPick_ok] have "e = None"
    "\<forall>t\<in>set tenantDataTables. \<forall>r\<in>set (zget [] (td_tables db') t). row_tenant r \<noteq> ''acme''" by auto
  with d show ?thesis by (simp add: tenantDataTables_def)
qed

text \<open>Tables with a tenant column that are not listed keep the rows of the erased tenant.\<close>

lemma unlisted_table_kept:
  assumes "DeleteAllData pick faults i db = (e, db')"
    and "t \<in> {''agent_versions'', ''agent_clearance'', ''agent_decisions'', ''agent_memory'', ''knowledge_documents'', ''elevation_requests'', ''managed_agents''}"
  shows "zget [] (td_tables db') t = zget [] (td_tables db) t"
proof -
  obtain e1 k m where d: "deleteTables pick faults 0 i tenantDataTables (td_tables db) = (e1, k, m)"
    by (cases "deleteTables pick faults 0 i tenantDataTables (td_tables db)") auto
  have "t \<notin> set tenantDataTables" using assms(2) by (auto simp: tenantDataTables_def)
  from deleteTables_unlisted[OF d this] assms(1) d show ?thesis by (auto simp: DeleteAllData_def split: option.splits)
qed

subsection \<open>Export jobs\<close>

inductive export_step :: "exporter \<Rightarrow> exporter \<Rightarrow> bool" where
  xs_create: "Export_HandleCreate env getenv httpMethod acOpt s = (r, s') \<Longrightarrow> export_step s s'"
| xs_status: "Export_HandleStatus env httpMethod query urlPath s = (r, s') \<Longrightarrow> export_step s s'"
| xs_run: "a < length (ex_heap s) \<Longrightarrow> export_step s (runExport io a s)"

inductive_cases export_stepE: "export_step s s'"

definition exportJobOk :: "exportJob \<Rightarrow> bool" where
  "exportJobOk j \<longleftrightarrow> ej_status j \<in> {''pending'', ''complete'', ''expired''} \<and> (ej_filePath j \<noteq> [] \<longrightarrow> ej_status j \<noteq> ''pending'')"

definition exportOk :: "exporter \<Rightarrow> bool" where
  "exportOk s \<longleftrightarrow> gwf (es_jobs (ex_store s)) \<and> 0 < es_maxJobs (ex_store s) \<and> int (length (es_order (ex_store s))) \<le> es_maxJobs (ex_store s) \<and>
     fst ` set (es_jobs (ex_store s)) \<subseteq> set (es_order (ex_store s)) \<and>
     (\<forall>(i, a)\<in>set (es_jobs (ex_store s)). a < length (ex_heap s) \<and> ej_JobID (ex_heap s ! a) = i) \<and>
     (\<forall>j\<in>set (ex_heap s). exportJobOk j)"

lemma evictOldest_effect:
  assumes "evictOldest n order m = (order', m')" "fst ` set m \<subseteq> set order" "gwf m" "0 < n"
  shows "gwf m' \<and> set m' \<subseteq> set m \<and> fst ` set m' \<subseteq> set order' \<and> int (length order') < n"
  using assms
proof (induction n order m rule: evictOldest.induct)
  case (2 n j js m)
  have "fst ` set m \<subseteq> insert j (set js)" using "2.prems"(2) by simp
  then have "fst ` set (mdel j m) \<subseteq> set js" by auto
  with 2 show ?case by (auto simp: set_mdel split: if_splits)
qed auto

lemma ExportStore_Add_ok:
  assumes "exportOk s" "ej_status job = ''pending''" "ej_filePath job = []" "ej_JobID job = i"
  shows "exportOk (s\<lparr>ex_heap := ex_heap s @ [job], ex_store := ExportStore_Add i (length (ex_heap s)) (ex_store s)\<rparr>)"
proof -
  obtain order jobs where e: "evictOldest (es_maxJobs (ex_store s)) (es_order (ex_store s)) (es_jobs (ex_store s)) = (order, jobs)"
    by (cases "evictOldest (es_maxJobs (ex_store s)) (es_order (ex_store s)) (es_jobs (ex_store s))")
  have o: "gwf jobs" "set jobs \<subseteq> set (es_jobs (ex_store s))" "fst ` set jobs \<subseteq> set order" "int (length order) < es_maxJobs (ex_store s)"
    using evictOldest_effect[OF e] assms(1) by (auto simp: exportOk_def)
  have "a < length (ex_heap s) \<and> ej_JobID (ex_heap s ! a) = i" if "(i, a) \<in> set jobs" for i a
    using that o(2) assms(1) by (auto simp: exportOk_def)
  with o assms show ?thesis
    by (auto simp: exportOk_def ExportStore_Add_def e set_mput keys_mput nth_append exportJobOk_def)
qed

lemma setJob_ok:
  assumes "exportOk s" "\<And>j. exportJobOk j \<Longrightarrow> exportJobOk (f j)" "\<And>j. ej_JobID (f j) = ej_JobID j"
  shows "exportOk (setJob a f s)"
proof (cases "a < length (ex_heap s)")
  case True
  have "exportJobOk j" if "j \<in> set ((ex_heap s)[a := f (ex_heap s ! a)])" for j
    using set_update_subset_insert[of "ex_heap s" a "f (ex_heap s ! a)"] that assms(1,2) True by (auto simp: exportOk_def)
  then show ?thesis using assms(1,3) True by (auto simp: setJob_def exportOk_def nth_list_update)
qed (use assms(1) in \<open>simp add: setJob_def\<close>)

lemma exportOk_files: "exportOk (s\<lparr>ex_files := fs\<rparr>) = exportOk s"
  by (simp add: exportOk_def)

lemma exportJobOk_done: "exportJobOk (SetStatus ''complete'' (SetFilePath p j))" "exportJobOk (SetStatus ''complete'' j)" "exportJobOk (SetStatus ''expired'' j)"
  by (simp_all add: exportJobOk_def SetStatus_def SetFilePath_def)

lemma jobID_kept [simp]: "ej_JobID (SetStatus v j) = ej_JobID j" "ej_JobID (SetFilePath p j) = ej_JobID j"
  by (simp_all add: SetStatus_def SetFilePath_def)

lemma exportOk_step: "exportOk s \<Longrightarrow> export_step s s' \<Longrightarrow> exportOk s'"
proof (erule export_stepE)
  fix env getenv m acOpt r
  assume "exportOk s" "Export_HandleCreate env getenv m acOpt s = (r, s')"
  then show ?thesis by (auto simp: Export_HandleCreate_def Let_def split: if_splits sum.splits intro!: ExportStore_Add_ok)
next
  fix env m query urlPath r
  assume "exportOk s" "Export_HandleStatus env m query urlPath s = (r, s')"
  moreover have "exportOk (setJob a (SetStatus ''expired'') s)" for a
    by (rule setJob_ok[OF \<open>exportOk s\<close>]) (simp_all add: exportJobOk_done)
  ultimately show ?thesis by (auto simp: Export_HandleStatus_def Let_def split: if_splits option.splits)
next
  fix a io
  assume ok: "exportOk s" "s' = runExport io a s"
  have c: "exportOk (setJob a (SetStatus ''complete'') s)"
    by (rule setJob_ok[OF ok(1)]) (simp_all add: exportJobOk_done)
  have "exportOk (setJob a (SetStatus ''complete'' \<circ> SetFilePath p) (if b then s\<lparr>ex_files := fs\<rparr> else s))" for p b fs
    using ok(1) by (intro setJob_ok) (simp_all add: exportJobOk_done exportOk_files)
  with c ok(2) show ?thesis by (auto simp: runExport_def Let_def split: option.split sum.split)
qed

interpretation export_sys: inv_system "\<lambda>s. s = NewExportHandler getenv (NewExportJobStore n)" export_step exportOk for getenv n
proof
  show "exportOk s" if "s = NewExportHandler getenv (NewExportJobStore n)" for s
    using that by (simp add: NewExportHandler_def NewExportJobStore_def exportOk_def Let_def)
qed (rule exportOk_step)

text \<open>However requests and exporting goroutines interleave, the store stays within its bound, every identifier leads to
  the job that has it, and an export that has run is reported as finished, also when it failed.\<close>

lemma export_store_bounded:
  assumes "reachable (\<lambda>s. s = NewExportHandler getenv (NewExportJobStore n)) export_step s"
  shows "int (ExportStore_Len (ex_store s)) \<le> es_maxJobs (ex_store s)"
    and "ExportStore_Get i (ex_store s) = Some a \<Longrightarrow> a < length (ex_heap s) \<and> ej_JobID (ex_heap s ! a) = i"
proof -
  have ok: "exportOk s" by (rule export_sys.inv_reachable[OF assms])
  then have "card (fst ` set (es_jobs (ex_store s))) \<le> card (set (es_order (ex_store s)))"
    by (intro card_mono) (auto simp: exportOk_def)
  also have "\<dots> \<le> length (es_order (ex_store s))" by (rule card_length)
  finally show "int (ExportStore_Len (ex_store s)) \<le> es_maxJobs (ex_store s)"
    using ok distinct_card[of "map fst (es_jobs (ex_store s))"] by (simp add: exportOk_def ExportStore_Len_def gwf_def)
  show "ExportStore_Get i (ex_store s) = Some a \<Longrightarrow> a < length (ex_heap s) \<and> ej_JobID (ex_heap s ! a) = i"
    using ok by (auto simp: exportOk_def ExportStore_Get_def dest!: mget_in_set)
qed

lemma export_finishes:
  assumes "a < length (ex_heap s)"
  shows "ej_status (ex_heap (runExport io a s) ! a) = ''complete''"
  using assms by (auto simp: runExport_def setJob_def SetStatus_def Let_def split: option.split sum.split)

text \<open>A caller without a subject type is an owner, of whatever tenant it names.\<close>

lemma no_subject_is_owner:
  assumes "ac_SubjectType ac = []" "RequireTenant getenv ac = Inr t"
  shows "ownerGate getenv (Some ac) = Inr (ac, t)"
  using assms by (simp add: ownerGate_def ownerBySubject_def HasPermission_def roleLevel_def mget_def)

text \<open>The deletion handler of the server has neither deleter nor auditor: the accepted deletion changes nothing.\<close>

lemma accepted_deletion_is_noop: "runDeletion None None t actor d = d"
  by (simp add: runDeletion_def)

end
