(* ===== verification/Intent_Routing.thy ===== *)
theory Intent_Routing
  imports Run_Executor
begin

text \<open>
  What the chat endpoint does to a request before a model sees it: multipart content (internal/multimodal/content.go),
  the classifier (agentorchestrator/router.go), the intent configuration (intent_config.go), the composer (composer.go)
  and the search of the knowledge-base client (internal/kbclient/client.go).

  \<^item> Content is decoded from the JSON value of a message the way encoding/json does it: object keys match fields without
    regard to case, in the order of the re-encoded (sorted) keys, and null leaves a string field as it is.
  \<^item> The replies of the classifier and the knowledge base, the decoding of YAML and SHA-256 are arguments; so is the
    multiplication of a token limit by a float64 factor.
  \<^item> A request extends the record of \<open>Run_Executor\<close> with the fields only this endpoint uses.
\<close>

subsection \<open>Multipart content\<close>

record imageURL =
  iu_URL :: string
  iu_Detail :: string

record contentPart =
  cp_Type :: string
  cp_Text :: string
  cp_ImageURL :: "imageURL option"

datatype content = TextContent string | PartsContent "contentPart list"

text \<open>Decoding into a string field; \<open>None\<close> is a type error.\<close>

definition decodeString :: "string \<Rightarrow> json \<Rightarrow> string option" where
  "decodeString old v = (case v of JStr t \<Rightarrow> Some t | JNull \<Rightarrow> Some old | _ \<Rightarrow> None)"

fun decodeImageURL :: "(string \<times> json) list \<Rightarrow> imageURL \<Rightarrow> imageURL option" where
  "decodeImageURL [] iu = Some iu"
| "decodeImageURL ((k, v) # kvs) iu =
     (if EqualFold k ''url'' then
        (case decodeString (iu_URL iu) v of None \<Rightarrow> None | Some t \<Rightarrow> decodeImageURL kvs (iu\<lparr>iu_URL := t\<rparr>))
      else if EqualFold k ''detail'' then
        (case decodeString (iu_Detail iu) v of None \<Rightarrow> None | Some t \<Rightarrow> decodeImageURL kvs (iu\<lparr>iu_Detail := t\<rparr>))
      else decodeImageURL kvs iu)"

definition emptyImageURL :: imageURL where "emptyImageURL = \<lparr>iu_URL = [], iu_Detail = []\<rparr>"

definition emptyPart :: contentPart where "emptyPart = \<lparr>cp_Type = [], cp_Text = [], cp_ImageURL = None\<rparr>"

definition sortedFields :: "(string \<times> json) list \<Rightarrow> (string \<times> json) list" where
  "sortedFields m = sort_key fst m"

fun decodePartFields :: "(string \<times> json) list \<Rightarrow> contentPart \<Rightarrow> contentPart option" where
  "decodePartFields [] p = Some p"
| "decodePartFields ((k, v) # kvs) p =
     (if EqualFold k ''type'' then
        (case decodeString (cp_Type p) v of None \<Rightarrow> None | Some t \<Rightarrow> decodePartFields kvs (p\<lparr>cp_Type := t\<rparr>))
      else if EqualFold k ''text'' then
        (case decodeString (cp_Text p) v of None \<Rightarrow> None | Some t \<Rightarrow> decodePartFields kvs (p\<lparr>cp_Text := t\<rparr>))
      else if EqualFold k ''image_url'' then
        (case v of
           JNull \<Rightarrow> decodePartFields kvs (p\<lparr>cp_ImageURL := None\<rparr>)
         | JObj m \<Rightarrow>
             (case decodeImageURL (sortedFields m) (case cp_ImageURL p of None \<Rightarrow> emptyImageURL | Some iu \<Rightarrow> iu) of
                None \<Rightarrow> None | Some iu \<Rightarrow> decodePartFields kvs (p\<lparr>cp_ImageURL := Some iu\<rparr>))
         | _ \<Rightarrow> None)
      else decodePartFields kvs p)"

definition decodePart :: "json \<Rightarrow> contentPart option" where
  "decodePart v = (case v of JObj m \<Rightarrow> decodePartFields (sortedFields m) emptyPart | JNull \<Rightarrow> Some emptyPart | _ \<Rightarrow> None)"

datatype contentErr = NotContent | NoImageURL nat | DataURL nat | FileURL nat | BadScheme nat | TooManyImages | NoPartType nat | UnknownPart nat string

definition Content_UnmarshalJSON :: "json \<Rightarrow> contentErr + content" where
  "Content_UnmarshalJSON v =
     (case v of
        JStr s \<Rightarrow> Inr (TextContent s)
      | JNull \<Rightarrow> Inr (TextContent [])
      | JArr vs \<Rightarrow> (case those (map decodePart vs) of None \<Rightarrow> Inl NotContent | Some ps \<Rightarrow> Inr (PartsContent ps))
      | _ \<Rightarrow> Inl NotContent)"

text \<open>Encoding: a string, or the array of parts with empty fields omitted.\<close>

definition encodePart :: "contentPart \<Rightarrow> json" where
  "encodePart p = JObj ((''type'', JStr (cp_Type p)) # (if cp_Text p \<noteq> [] then [(''text'', JStr (cp_Text p))] else []) @
     (case cp_ImageURL p of None \<Rightarrow> []
      | Some iu \<Rightarrow> [(''image_url'', JObj ((''url'', JStr (iu_URL iu)) # (if iu_Detail iu \<noteq> [] then [(''detail'', JStr (iu_Detail iu))] else [])))]))"

definition Content_MarshalJSON :: "content \<Rightarrow> json" where
  "Content_MarshalJSON c = (case c of TextContent s \<Rightarrow> JStr s | PartsContent ps \<Rightarrow> JArr (map encodePart ps))"

definition IsMultipart :: "content \<Rightarrow> bool" where
  "IsMultipart c = (case c of TextContent _ \<Rightarrow> False | PartsContent _ \<Rightarrow> True)"

definition Parts :: "content \<Rightarrow> contentPart list" where
  "Parts c = (case c of TextContent _ \<Rightarrow> [] | PartsContent ps \<Rightarrow> ps)"

fun joinTexts :: "string \<Rightarrow> contentPart list \<Rightarrow> string" where
  "joinTexts b [] = b"
| "joinTexts b (p # ps) =
     (if cp_Type p \<noteq> ''text'' then joinTexts b ps
      else joinTexts ((if b \<noteq> [] then b @ '' '' else b) @ cp_Text p) ps)"

definition AsText :: "content \<Rightarrow> string" where
  "AsText c = (case c of TextContent s \<Rightarrow> s | PartsContent ps \<Rightarrow> joinTexts [] ps)"

definition HasImage :: "content \<Rightarrow> bool" where
  "HasImage c = list_ex (\<lambda>p. cp_Type p = ''image_url'') (Parts c)"

definition MaxImageParts :: nat where "MaxImageParts = 8"

definition checkScheme :: "nat \<Rightarrow> string \<Rightarrow> contentErr option" where
  "checkScheme i u =
     (let lower = ToLower u in
      if HasPrefix lower ''https://'' \<or> HasPrefix lower ''http://'' then None
      else if HasPrefix lower ''data:'' then Some (DataURL i)
      else if HasPrefix lower ''file:'' then Some (FileURL i)
      else Some (BadScheme i))"

fun validateParts :: "nat \<Rightarrow> nat \<Rightarrow> contentPart list \<Rightarrow> contentErr option" where
  "validateParts i n [] = None"
| "validateParts i n (p # ps) =
     (if cp_Type p = ''text'' then validateParts (Suc i) n ps
      else if cp_Type p = ''image_url'' then
        (case cp_ImageURL p of
           None \<Rightarrow> Some (NoImageURL i)
         | Some iu \<Rightarrow>
             if iu_URL iu = [] then Some (NoImageURL i)
             else (case checkScheme i (iu_URL iu) of
                     Some e \<Rightarrow> Some e
                   | None \<Rightarrow> if Suc n > MaxImageParts then Some TooManyImages else validateParts (Suc i) (Suc n) ps))
      else if cp_Type p = [] then Some (NoPartType i)
      else Some (UnknownPart i (cp_Type p)))"

definition ValidateContent :: "content \<Rightarrow> contentErr option" where
  "ValidateContent c = (if \<not> IsMultipart c then None else validateParts 0 0 (Parts c))"

definition ImageRefForAudit :: "(string \<Rightarrow> string) \<Rightarrow> string \<Rightarrow> bool \<Rightarrow> string" where
  "ImageRefForAudit sha256hex url hashMode = (if \<not> hashMode then url else ''sha256:'' @ sha256hex url)"

subsection \<open>The classifier\<close>

datatype classifierLabel = LabelCode | LabelReasoning | LabelOps | LabelSearch | LabelAgent | LabelGeneral

datatype intentName = IntentCode | IntentReasoning | IntentOps | IntentSearch | IntentAgent | IntentGeneral

definition intentText :: "intentName \<Rightarrow> string" where
  "intentText i = (case i of IntentCode \<Rightarrow> ''code'' | IntentReasoning \<Rightarrow> ''reasoning'' | IntentOps \<Rightarrow> ''ops'' | IntentSearch \<Rightarrow> ''search''
     | IntentAgent \<Rightarrow> ''agent'' | IntentGeneral \<Rightarrow> ''general'')"

definition parseLabel :: "string \<Rightarrow> classifierLabel" where
  "parseLabel s0 =
     (let s = TrimSpace (ToLower s0) in
      if s = ''code'' then LabelCode
      else if s = ''reasoning'' \<or> s = ''r'' then LabelReasoning
      else if s = ''ops'' then LabelOps
      else if s = ''search'' then LabelSearch
      else if s = ''agent'' then LabelAgent
      else LabelGeneral)"

definition labelToIntent :: "classifierLabel \<Rightarrow> intentName" where
  "labelToIntent l = (case l of LabelCode \<Rightarrow> IntentCode | LabelReasoning \<Rightarrow> IntentReasoning | LabelOps \<Rightarrow> IntentOps
     | LabelSearch \<Rightarrow> IntentSearch | LabelAgent \<Rightarrow> IntentAgent | LabelGeneral \<Rightarrow> IntentGeneral)"

record routerConfig =
  rc_Enabled :: bool
  rc_ClassifierURL :: string

definition envOr :: "(string \<Rightarrow> string) \<Rightarrow> string \<Rightarrow> string \<Rightarrow> string" where
  "envOr getenv key fallback = (if getenv key \<noteq> [] then getenv key else fallback)"

definition LoadRouterConfig :: "(string \<Rightarrow> string) \<Rightarrow> routerConfig" where
  "LoadRouterConfig getenv =
     (let v = getenv ''ROUTER_ENABLED'' in
      \<lparr>rc_Enabled = (if v \<noteq> [] then EqualFold v ''true'' \<or> v = ''1'' else True),
       rc_ClassifierURL = envOr getenv ''AGENTOS_CLASSIFIER_URL'' ''http://localhost:8002/v1/chat/completions''\<rparr>)"

record routingDecision =
  rd_Label :: "classifierLabel option"
  rd_Intent :: intentName
  rd_Destination :: string
  rd_EnableThinking :: bool
  rd_Fallback :: bool
  rd_Error :: string

text \<open>What a call of the classifier yields: a reason why none was received, or a status and, when it is read and
  decoded, the content of the first choice and of the message field.\<close>

datatype classifierOutcome = NoReply string | Reply int "string + (string list \<times> string option)"

definition fallbackDecision :: "string \<Rightarrow> routingDecision" where
  "fallbackDecision reason = \<lparr>rd_Label = Some LabelGeneral, rd_Intent = IntentGeneral, rd_Destination = ''general'', rd_EnableThinking = False,
     rd_Fallback = True, rd_Error = reason\<rparr>"

definition replyContent :: "string list \<times> string option \<Rightarrow> string" where
  "replyContent cr = (case cr of (c # _, _) \<Rightarrow> c | ([], Some m) \<Rightarrow> m | ([], None) \<Rightarrow> [])"

definition Classify :: "(string \<Rightarrow> string \<Rightarrow> classifierOutcome) \<Rightarrow> routerConfig \<Rightarrow> string \<Rightarrow> routingDecision" where
  "Classify call cfg userPrompt =
     (if \<not> rc_Enabled cfg \<or> rc_ClassifierURL cfg = [] then fallbackDecision ''router disabled''
      else case call (rc_ClassifierURL cfg) userPrompt of
        NoReply reason \<Rightarrow> fallbackDecision reason
      | Reply status body \<Rightarrow>
          if status \<noteq> 200 then fallbackDecision (''classifier returned '' @ Itoa status)
          else (case body of Inl reason \<Rightarrow> fallbackDecision reason
                | Inr cr \<Rightarrow>
                    (let label = parseLabel (TrimSpace (ToLower (replyContent cr))); intent = labelToIntent label in
                     \<lparr>rd_Label = Some label, rd_Intent = intent, rd_Destination = intentText intent, rd_EnableThinking = (label = LabelReasoning),
                      rd_Fallback = False, rd_Error = []\<rparr>)))"

subsection \<open>Intent configuration\<close>

record intentDefaults =
  dfl_Temperature :: "rat option"
  dfl_MaxTokensMult :: rat
  dfl_EnableThinking :: bool
  dfl_KBSearchEnabled :: bool
  dfl_KBSearchLimit :: int

record intentDef =
  idf_SystemPrompt :: string
  idf_Temperature :: "rat option"
  idf_MaxTokensMult :: "rat option"
  idf_EnableThinking :: "bool option"
  idf_KBSearchEnabled :: "bool option"
  idf_KBSearchLimit :: "int option"
  idf_KBScope :: string
  idf_Destination :: string

record intentConfig =
  icf_Version :: string
  icf_Defaults :: intentDefaults
  icf_Intents :: "(string, intentDef) gomap"

definition knownIntents :: "intentName list" where
  "knownIntents = [IntentCode, IntentReasoning, IntentOps, IntentSearch, IntentAgent, IntentGeneral]"

definition emptyIntentDef :: intentDef where
  "emptyIntentDef = \<lparr>idf_SystemPrompt = [], idf_Temperature = None, idf_MaxTokensMult = None, idf_EnableThinking = None,
     idf_KBSearchEnabled = None, idf_KBSearchLimit = None, idf_KBScope = [], idf_Destination = []\<rparr>"

definition orDefault :: "'a option \<Rightarrow> 'a \<Rightarrow> 'a option" where
  "orDefault v d = (case v of None \<Rightarrow> Some d | Some x \<Rightarrow> Some x)"

definition ResolvedIntent :: "intentConfig \<Rightarrow> intentName \<Rightarrow> intentDef" where
  "ResolvedIntent cfg name =
     (case mget (icf_Intents cfg) (intentText name) of
        None \<Rightarrow> emptyIntentDef\<lparr>idf_Destination := ''model''\<rparr>
      | Some d \<Rightarrow>
          d\<lparr>idf_Temperature := (case idf_Temperature d of None \<Rightarrow> dfl_Temperature (icf_Defaults cfg) | Some t \<Rightarrow> Some t),
            idf_MaxTokensMult := orDefault (idf_MaxTokensMult d) (dfl_MaxTokensMult (icf_Defaults cfg)),
            idf_EnableThinking := orDefault (idf_EnableThinking d) (dfl_EnableThinking (icf_Defaults cfg)),
            idf_KBSearchEnabled := orDefault (idf_KBSearchEnabled d) (dfl_KBSearchEnabled (icf_Defaults cfg)),
            idf_KBSearchLimit := orDefault (idf_KBSearchLimit d) (dfl_KBSearchLimit (icf_Defaults cfg)),
            idf_Destination := (if idf_Destination d = [] then ''model'' else idf_Destination d)\<rparr>)"

datatype intentErr = MissingVersion | NoIntents | MissingIntent intentName | BadTemperature string | BadMultiplier string | BadDestination string string

definition intentDefErr :: "string \<times> intentDef \<Rightarrow> intentErr option" where
  "intentDefErr e =
     (case e of (name, d) \<Rightarrow>
        if (case idf_Temperature d of None \<Rightarrow> False | Some t \<Rightarrow> t < 0 \<or> t > 2) then Some (BadTemperature name)
        else if (case idf_MaxTokensMult d of None \<Rightarrow> False | Some m \<Rightarrow> m \<le> 0) then Some (BadMultiplier name)
        else if idf_Destination d \<noteq> [] \<and> idf_Destination d \<noteq> ''model'' \<and> idf_Destination d \<noteq> ''agent'' then Some (BadDestination name (idf_Destination d))
        else None)"

definition validateIntentConfig :: "intentConfig \<Rightarrow> intentErr option" where
  "validateIntentConfig cfg =
     (if icf_Version cfg = [] then Some MissingVersion
      else if icf_Intents cfg = [] then Some NoIntents
      else case find (\<lambda>n. mget (icf_Intents cfg) (intentText n) = None) knownIntents of
        Some n \<Rightarrow> Some (MissingIntent n)
      | None \<Rightarrow> (case find (\<lambda>e. intentDefErr e \<noteq> None) (icf_Intents cfg) of None \<Rightarrow> None | Some e \<Rightarrow> intentDefErr e))"

datatype intentLoadErr = IntentRead string | IntentParse string | IntentInvalid intentErr

definition LoadIntentConfig :: "string + string \<Rightarrow> (string \<Rightarrow> string + intentConfig) \<Rightarrow> intentLoadErr + intentConfig" where
  "LoadIntentConfig file yamlDecode =
     (case file of Inl e \<Rightarrow> Inl (IntentRead e)
      | Inr d \<Rightarrow>
          (case yamlDecode d of Inl e \<Rightarrow> Inl (IntentParse e)
           | Inr cfg \<Rightarrow> (case validateIntentConfig cfg of Some e \<Rightarrow> Inl (IntentInvalid e) | None \<Rightarrow> Inr cfg)))"

subsection \<open>The knowledge-base client\<close>

record searchResult =
  sr_ID :: string
  sr_Title :: string
  sr_Source :: string
  sr_Content :: string
  sr_Rank :: rat
  sr_Snippet :: string

record kbWire =
  kw_ID :: string
  kw_Repo :: string
  kw_Path :: string
  kw_Title :: string
  kw_Snippet :: string
  kw_Score :: rat

record kbRequest =
  kb_Method :: string
  kb_URL :: string
  kb_Query :: "(string \<times> string) list"
  kb_Headers :: "(string \<times> string) list"
  kb_Body :: "string option"

record kbClient =
  kc_baseURL :: string
  kc_apiKey :: string

text \<open>The service as the client sees it: a transport error, or a status, the start of the body and the decoded results. A
  base URL that does not parse is a transport error too.\<close>

type_synonym kbTransport = "kbRequest \<Rightarrow> string + (int \<times> string \<times> (string + kbWire list))"

definition applyAuth :: "kbClient \<Rightarrow> kbRequest \<Rightarrow> kbRequest" where
  "applyAuth c rq = (if kc_apiKey c \<noteq> [] then rq\<lparr>kb_Headers := kb_Headers rq @ [(''Authorization'', ''Bearer '' @ kc_apiKey c)]\<rparr> else rq)"

definition kbSend :: "string \<Rightarrow> kbTransport \<Rightarrow> kbRequest \<Rightarrow> string + (string + kbWire list)" where
  "kbSend what transport rq =
     (case transport rq of Inl e \<Rightarrow> Inl (''kbclient: '' @ what @ '' request failed: '' @ e)
      | Inr (status, body, ws) \<Rightarrow>
          if status < 200 \<or> status \<ge> 300 then Inl (''kbclient: '' @ what @ '' returned status '' @ Itoa status @ '': '' @ take 1024 body)
          else Inr ws)"

definition wireResult :: "kbWire \<Rightarrow> searchResult" where
  "wireResult r = \<lparr>sr_ID = kw_ID r, sr_Title = kw_Title r, sr_Source = kw_Repo r @ ''/'' @ kw_Path r, sr_Content = [], sr_Rank = kw_Score r,
     sr_Snippet = kw_Snippet r\<rparr>"

definition KB_Search :: "kbTransport \<Rightarrow> kbClient \<Rightarrow> string \<Rightarrow> string \<Rightarrow> int \<Rightarrow> string + searchResult list" where
  "KB_Search transport c tenantID query limit =
     (case kbSend ''search'' transport (applyAuth c \<lparr>kb_Method = ''GET'', kb_URL = kc_baseURL c @ ''/v1/search'',
             kb_Query = [(''tenant_id'', tenantID), (''query'', query), (''limit'', Itoa limit)], kb_Headers = [], kb_Body = None\<rparr>) of
        Inl e \<Rightarrow> Inl e
      | Inr (Inl e) \<Rightarrow> Inl (''kbclient: decode search response: '' @ e)
      | Inr (Inr wires) \<Rightarrow> Inr (map wireResult wires))"

text \<open>\<open>encode\<close> codes a document; \<open>pathEscape\<close> is that of net/url.\<close>

definition KB_Index :: "kbTransport \<Rightarrow> kbClient \<Rightarrow> string + string \<Rightarrow> string option" where
  "KB_Index transport c encoded =
     (case encoded of Inl e \<Rightarrow> Some (''kbclient: marshal index request: '' @ e)
      | Inr body \<Rightarrow>
          (case kbSend ''index'' transport (applyAuth c \<lparr>kb_Method = ''POST'', kb_URL = kc_baseURL c @ ''/v1/index'', kb_Query = [],
                  kb_Headers = [(''Content-Type'', ''application/json'')], kb_Body = Some body\<rparr>) of
             Inl e \<Rightarrow> Some e | Inr _ \<Rightarrow> None))"

definition KB_Delete :: "kbTransport \<Rightarrow> (string \<Rightarrow> string) \<Rightarrow> kbClient \<Rightarrow> string \<Rightarrow> string \<Rightarrow> string option" where
  "KB_Delete transport pathEscape c tenantID docID =
     (case kbSend ''delete'' transport (applyAuth c \<lparr>kb_Method = ''DELETE'', kb_URL = kc_baseURL c @ ''/v1/documents/'' @ pathEscape docID, kb_Query = [],
             kb_Headers = [(''X-Tenant-ID'', tenantID)], kb_Body = None\<rparr>) of
        Inl e \<Rightarrow> Some e | Inr _ \<Rightarrow> None)"

subsection \<open>The composer\<close>

record openaiRequest = chatRequest +
  oq_MaxTokens :: int
  oq_Temperature :: "rat option"
  oq_Stream :: bool
  oq_Extra :: "(string, json) gomap option"

record composeResult =
  cr_Request :: openaiRequest
  cr_IntentName :: intentName
  cr_KBResultCount :: nat
  cr_IsAgentDispatch :: bool

definition prependSystemMessage :: "chatMessage list \<Rightarrow> string \<Rightarrow> chatMessage list" where
  "prependSystemMessage msgs text = textMessage ''system'' text # msgs"

definition lastUserMsg :: "chatMessage list \<Rightarrow> string" where
  "lastUserMsg msgs = (case find (\<lambda>m. cm_Role m = ''user'') (rev msgs) of None \<Rightarrow> [] | Some m \<Rightarrow> MessageText m)"

definition kbSnippet :: "searchResult \<Rightarrow> string" where
  "kbSnippet r =
     (let s0 = TrimSpace (sr_Snippet r); s1 = (if s0 = [] then TrimSpace (sr_Content r) else s0) in
      if length s1 > 500 then take 500 s1 @ ''...'' else s1)"

definition newline :: string where "newline = [CHR 0x0A]"

definition kbEntry :: "nat \<times> searchResult \<Rightarrow> string" where
  "kbEntry e = (case e of (i, r) \<Rightarrow> ''['' @ Itoa (int i + 1) @ ''] '' @ sr_Source r @ newline @ kbSnippet r @ newline @ newline)"

definition searchKB :: "(string \<Rightarrow> string \<Rightarrow> int \<Rightarrow> string + searchResult list) \<Rightarrow> string \<Rightarrow> string \<Rightarrow> int \<Rightarrow> string \<times> nat" where
  "searchKB search tenantID query limit =
     (case search tenantID query limit of
        Inl _ \<Rightarrow> ([], 0)
      | Inr [] \<Rightarrow> ([], 0)
      | Inr results \<Rightarrow>
          (''[Knowledge Base Context]'' @ newline @ concat (map kbEntry (enumerate 0 results)) @ ''[End Knowledge Base Context]'', length results))"

definition setThinking :: "bool \<Rightarrow> openaiRequest \<Rightarrow> openaiRequest" where
  "setThinking b rq = rq\<lparr>oq_Extra := Some (mput ''chat_template_kwargs'' (JObj [(''enable_thinking'', JBool b)])
     (case oq_Extra rq of None \<Rightarrow> [] | Some m \<Rightarrow> m))\<rparr>"

text \<open>\<open>mulTokens\<close> is the product of a limit with a float64 factor, truncated.\<close>

definition applyOptions :: "(int \<Rightarrow> rat \<Rightarrow> int) \<Rightarrow> intentDef \<Rightarrow> openaiRequest \<Rightarrow> openaiRequest" where
  "applyOptions mulTokens d rq =
     (let r1 = (case idf_Temperature d of None \<Rightarrow> rq | Some t \<Rightarrow> rq\<lparr>oq_Temperature := Some t\<rparr>);
          r2 = (case idf_MaxTokensMult d of None \<Rightarrow> r1
                | Some f \<Rightarrow> if f \<noteq> 1 \<and> oq_MaxTokens r1 > 0 then r1\<lparr>oq_MaxTokens := mulTokens (oq_MaxTokens r1) f\<rparr> else r1) in
      setThinking (idf_EnableThinking d = Some True) r2)"

definition kbContext ::
  "(string \<Rightarrow> string \<Rightarrow> int \<Rightarrow> string + searchResult list) option \<Rightarrow> intentDef \<Rightarrow> string \<Rightarrow> chatMessage list \<Rightarrow> string \<times> nat" where
  "kbContext kb d tenantID msgs =
     (case kb of None \<Rightarrow> ([], 0)
      | Some search \<Rightarrow>
          (let prompt = lastUserMsg msgs in
           if idf_KBSearchEnabled d = Some True \<and> prompt \<noteq> []
           then searchKB search tenantID prompt (case idf_KBSearchLimit d of None \<Rightarrow> 5 | Some l \<Rightarrow> l) else ([], 0)))"

definition Compose ::
  "(int \<Rightarrow> rat \<Rightarrow> int) \<Rightarrow> (string \<Rightarrow> string \<Rightarrow> int \<Rightarrow> string + searchResult list) option \<Rightarrow> intentConfig \<Rightarrow> routingDecision \<Rightarrow> openaiRequest \<Rightarrow> string
   \<Rightarrow> composeResult" where
  "Compose mulTokens kb cfg decision rq tenantID =
     (let d = ResolvedIntent cfg (rd_Intent decision) in
      if idf_Destination d = ''agent''
      then \<lparr>cr_Request = rq, cr_IntentName = rd_Intent decision, cr_KBResultCount = 0, cr_IsAgentDispatch = True\<rparr>
      else
        (let r3 = applyOptions mulTokens d rq;
             (ctx, n) = kbContext kb d tenantID (rq_Messages r3);
             m4 = (if ctx \<noteq> [] then prependSystemMessage (rq_Messages r3) ctx else rq_Messages r3);
             m5 = (if idf_SystemPrompt d \<noteq> [] then prependSystemMessage m4 (idf_SystemPrompt d) else m4) in
         \<lparr>cr_Request = r3\<lparr>rq_Messages := m5\<rparr>, cr_IntentName = rd_Intent decision, cr_KBResultCount = n, cr_IsAgentDispatch = False\<rparr>))"

subsection \<open>Properties\<close>

lemma validateParts_spec:
  "validateParts i n ps = None \<longleftrightarrow>
     (\<forall>p\<in>set ps. cp_Type p = ''text'' \<or> cp_Type p = ''image_url'' \<and>
        (\<exists>iu. cp_ImageURL p = Some iu \<and> (HasPrefix (ToLower (iu_URL iu)) ''https://'' \<or> HasPrefix (ToLower (iu_URL iu)) ''http://''))) \<and>
     (filter (\<lambda>p. cp_Type p = ''image_url'') ps = [] \<or> n + length (filter (\<lambda>p. cp_Type p = ''image_url'') ps) \<le> MaxImageParts)"
proof (induction i n ps rule: validateParts.induct)
  case (2 i n p ps)
  have e: "\<not> HasPrefix (ToLower []) ''https://''" "\<not> HasPrefix (ToLower []) ''http://''" by (simp_all add: ToLower_def)
  consider "cp_Type p = ''text''" | "cp_Type p = ''image_url''" "cp_ImageURL p = None" | iu where "cp_Type p = ''image_url''" "cp_ImageURL p = Some iu"
    | "cp_Type p \<noteq> ''text''" "cp_Type p \<noteq> ''image_url''" by (cases "cp_ImageURL p") auto
  then show ?case
  proof cases
    case 3
    show ?thesis
    proof (cases "iu_URL iu = [] \<or> checkScheme i (iu_URL iu) \<noteq> None \<or> MaxImageParts < Suc n")
      case True
      then show ?thesis using 3 e by (auto simp: checkScheme_def Let_def split: if_splits)
    next
      case False
      then show ?thesis using 2(2)[OF _ 3(1,2)] 3 by (auto simp: checkScheme_def Let_def split: if_splits)
    qed
  qed (use 2 in auto)
qed simp

text \<open>Validation accepts exactly the multipart contents whose parts are texts and images with an http or https URL, at
  most eight of them; text content is always accepted.\<close>

lemma ValidateContent_spec:
  "ValidateContent c = None \<longleftrightarrow>
     (\<forall>p\<in>set (Parts c). cp_Type p = ''text'' \<or> cp_Type p = ''image_url'' \<and>
        (\<exists>iu. cp_ImageURL p = Some iu \<and> (HasPrefix (ToLower (iu_URL iu)) ''https://'' \<or> HasPrefix (ToLower (iu_URL iu)) ''http://''))) \<and>
     length (filter (\<lambda>p. cp_Type p = ''image_url'') (Parts c)) \<le> 8"
  by (cases c) (auto simp: ValidateContent_def IsMultipart_def Parts_def validateParts_spec MaxImageParts_def)

lemma fold_keys:
  "EqualFold ''type'' ''type''" "\<not> EqualFold ''text'' ''type''" "\<not> EqualFold ''image_url'' ''type''" "EqualFold ''text'' ''text''"
  "\<not> EqualFold ''image_url'' ''text''" "EqualFold ''image_url'' ''image_url''" "EqualFold ''url'' ''url''" "\<not> EqualFold ''detail'' ''url''"
  "EqualFold ''detail'' ''detail''"
  by code_simp+

lemma decodePart_encodePart: "decodePart (encodePart p) = Some p"
proof -
  have img: "decodeImageURL (sortedFields ((''url'', JStr (iu_URL iu)) # (if iu_Detail iu \<noteq> [] then [(''detail'', JStr (iu_Detail iu))] else []))) emptyImageURL = Some iu" for iu
  proof (cases "iu_Detail iu = []")
    case True
    then show ?thesis by (cases iu) (simp add: sortedFields_def fold_keys decodeString_def emptyImageURL_def)
  next
    case False
    have "sortedFields [(''url'', JStr (iu_URL iu)), (''detail'', JStr (iu_Detail iu))] = [(''detail'', JStr (iu_Detail iu)), (''url'', JStr (iu_URL iu))]"
      by (simp add: sortedFields_def less_eq_char_def)
    then show ?thesis using False by (cases iu) (simp add: fold_keys decodeString_def emptyImageURL_def)
  qed
  obtain t x io where p: "p = \<lparr>cp_Type = t, cp_Text = x, cp_ImageURL = io\<rparr>" by (cases p)
  let ?i = "\<lambda>iu. (''image_url'', JObj ((''url'', JStr (iu_URL iu)) # (if iu_Detail iu \<noteq> [] then [(''detail'', JStr (iu_Detail iu))] else [])))"
  have srt: "sortedFields [(''type'', JStr t), (''text'', JStr x), ?i iu] = [?i iu, (''text'', JStr x), (''type'', JStr t)]"
    "sortedFields [(''type'', JStr t), ?i iu] = [?i iu, (''type'', JStr t)]"
    "sortedFields [(''type'', JStr t), (''text'', JStr x)] = [(''text'', JStr x), (''type'', JStr t)]" for iu
    by (simp_all add: sortedFields_def less_eq_char_def)
  show ?thesis
  proof (cases io)
    case None
    have "sortedFields [(''type'', JStr t)] = [(''type'', JStr t)]" by (simp add: sortedFields_def)
    with None srt(3) show ?thesis by (simp add: p encodePart_def decodePart_def fold_keys decodeString_def emptyPart_def)
  next
    case (Some iu)
    note i = img[of iu]
    from Some srt(1,2)[of iu] i show ?thesis by (simp add: p encodePart_def decodePart_def fold_keys decodeString_def emptyPart_def)
  qed
qed

text \<open>Message content survives the trip through JSON: decoding the encoding of any content, text or parts, with or
  without images and details, gives that content back, although fields are omitted, sorted and matched without case.\<close>

theorem content_roundtrip: "Content_UnmarshalJSON (Content_MarshalJSON c) = Inr c"
proof (cases c)
  case (PartsContent ps)
  have "those (map decodePart (map encodePart ps)) = Some ps" by (induction ps) (simp_all add: decodePart_encodePart)
  with PartsContent show ?thesis by (simp add: Content_MarshalJSON_def Content_UnmarshalJSON_def)
qed (simp add: Content_MarshalJSON_def Content_UnmarshalJSON_def)

text \<open>Composition only prepends text system messages and sets options: the messages of the client, the model and the
  tools stay as they are.\<close>

lemma applyOptions_keeps:
  "rq_Messages (applyOptions f d rq) = rq_Messages rq" "rq_Model (applyOptions f d rq) = rq_Model rq"
  "rq_Tools (applyOptions f d rq) = rq_Tools rq" "oq_Stream (applyOptions f d rq) = oq_Stream rq"
  by (simp_all add: applyOptions_def setThinking_def Let_def split: option.split)

lemma Compose_keeps:
  "\<exists>pre. (\<forall>m\<in>set pre. \<exists>t. m = textMessage ''system'' t) \<and>
     rq_Messages (cr_Request (Compose f kb cfg d rq t)) = pre @ rq_Messages rq \<and>
     rq_Model (cr_Request (Compose f kb cfg d rq t)) = rq_Model rq \<and> rq_Tools (cr_Request (Compose f kb cfg d rq t)) = rq_Tools rq \<and>
     oq_Stream (cr_Request (Compose f kb cfg d rq t)) = oq_Stream rq"
proof -
  let ?d = "ResolvedIntent cfg (rd_Intent d)"
  obtain ctx n where k: "kbContext kb ?d t (rq_Messages rq) = (ctx, n)" by (metis surj_pair)
  show ?thesis
  proof (cases "idf_Destination ?d = ''agent''")
    case False
    then show ?thesis using k
      by (intro exI[of _ "(if idf_SystemPrompt ?d \<noteq> [] then [textMessage ''system'' (idf_SystemPrompt ?d)] else []) @
            (if ctx \<noteq> [] then [textMessage ''system'' ctx] else [])"]) (auto simp: Compose_def prependSystemMessage_def applyOptions_keeps Let_def)
  qed (simp add: Compose_def)
qed

text \<open>A configuration that gives no token multiplier anywhere multiplies every limit by zero: the limit of the client is
  dropped, since a zero limit is left out of the request to the model. Such a configuration is accepted.\<close>

definition bareConfig :: intentConfig where
  "bareConfig = \<lparr>icf_Version = ''1'', icf_Defaults = \<lparr>dfl_Temperature = None, dfl_MaxTokensMult = 0, dfl_EnableThinking = False,
     dfl_KBSearchEnabled = False, dfl_KBSearchLimit = 0\<rparr>, icf_Intents = map (\<lambda>n. (intentText n, emptyIntentDef)) knownIntents\<rparr>"

lemma missing_multiplier_drops_limit:
  assumes "0 < oq_MaxTokens rq" "mulTokens (oq_MaxTokens rq) 0 = 0"
  shows "validateIntentConfig bareConfig = None \<and> oq_MaxTokens (cr_Request (Compose mulTokens kb bareConfig (fallbackDecision []) rq t)) = 0"
proof -
  have v: "validateIntentConfig bareConfig = None" by code_simp
  have "idf_Destination (ResolvedIntent bareConfig IntentGeneral) = ''model''" "idf_Temperature (ResolvedIntent bareConfig IntentGeneral) = None"
    "idf_MaxTokensMult (ResolvedIntent bareConfig IntentGeneral) = Some 0" by code_simp+
  then show ?thesis using assms v by (auto simp: Compose_def fallbackDecision_def applyOptions_def setThinking_def Let_def split: prod.split)
qed

text \<open>The classifier never blocks a request: whatever it answers there is a decision, and one that is not a fallback has
  the intent of the label it named.\<close>

lemma Classify_sound:
  "rd_Fallback (Classify call cfg p) \<and> rd_Intent (Classify call cfg p) = IntentGeneral \<or>
   (\<exists>cr. call (rc_ClassifierURL cfg) p = Reply 200 (Inr cr) \<and> rc_Enabled cfg \<and>
      rd_Intent (Classify call cfg p) = labelToIntent (parseLabel (TrimSpace (ToLower (replyContent cr)))))"
  by (auto simp: Classify_def fallbackDecision_def Let_def split: classifierOutcome.split sum.split)

end
