(* ===== verification/Service_Config.thy ===== *)
theory Service_Config
  imports Auth_Access Run_Executor
begin

text \<open>
  Configuration read from the environment (internal/config/config.go, profile.go, validate.go).

  \<^item> The environment is \<open>getenv\<close>, the empty string for an unset variable; reading a secret file, parsing a duration and
    the existence of a file are arguments.
  \<^item> Shown: which configurations the validations accept, and what they let through.
\<close>

subsection \<open>Model provider and executor\<close>

record modelConfig =
  mc_Provider :: string
  mc_BaseURL :: string
  mc_APIKey :: string
  mc_DefaultModel :: string
  mc_Timeout :: duration

definition TrimRightNL :: "string \<Rightarrow> string" where
  "TrimRightNL s = rev (dropWhile (\<lambda>c. c = CHR 0x0A) (rev s))"

text \<open>A secret: the file named by the second variable, when it can be read, else the value of the first.\<close>

definition secretEnv :: "(string \<Rightarrow> string) \<Rightarrow> (string \<Rightarrow> string option) \<Rightarrow> string \<Rightarrow> string \<Rightarrow> string" where
  "secretEnv getenv readSecret key fileKey =
     (if getenv fileKey \<noteq> [] then (case readSecret (getenv fileKey) of None \<Rightarrow> getenv key | Some d \<Rightarrow> TrimRightNL d) else getenv key)"

text \<open>A variable that is set and accepted by \<open>ok\<close> replaces the default.\<close>

definition envParsed :: "(string \<Rightarrow> string) \<Rightarrow> (string \<Rightarrow> 'a option) \<Rightarrow> ('a \<Rightarrow> bool) \<Rightarrow> string \<Rightarrow> 'a \<Rightarrow> 'a" where
  "envParsed getenv parse ok key d =
     (if getenv key \<noteq> [] then (case parse (getenv key) of None \<Rightarrow> d | Some v \<Rightarrow> if ok v then v else d) else d)"

definition envOrDefault :: "(string \<Rightarrow> string) \<Rightarrow> string \<Rightarrow> string \<Rightarrow> string" where
  "envOrDefault getenv key fallback = (if getenv key \<noteq> [] then getenv key else fallback)"

definition seconds :: "int \<Rightarrow> duration" where "seconds n = n * 1000000000"

definition LoadModelConfig :: "(string \<Rightarrow> string) \<Rightarrow> (string \<Rightarrow> string option) \<Rightarrow> (string \<Rightarrow> duration option) \<Rightarrow> modelConfig" where
  "LoadModelConfig getenv readSecret parseDuration =
     \<lparr>mc_Provider = getenv ''AGENTOS_MODEL_PROVIDER'', mc_BaseURL = getenv ''AGENTOS_MODEL_BASE_URL'',
      mc_APIKey = secretEnv getenv readSecret ''AGENTOS_MODEL_API_KEY'' ''AGENTOS_MODEL_API_KEY_FILE'',
      mc_DefaultModel = getenv ''AGENTOS_MODEL_DEFAULT'',
      mc_Timeout = envParsed getenv parseDuration (\<lambda>_. True) ''AGENTOS_MODEL_TIMEOUT'' (seconds 60)\<rparr>"

definition providerProblems :: "modelConfig \<Rightarrow> string list" where
  "providerProblems c =
     (if mc_Provider c = [] then [''AGENTOS_MODEL_PROVIDER is required (valid: openai, anthropic, stub)'']
      else if mc_Provider c = ''stub'' then []
      else if mc_Provider c = ''openai'' then
        (if mc_BaseURL c = [] then [''AGENTOS_MODEL_BASE_URL is required when provider is openai''] else []) @
        (if mc_APIKey c = [] then [''AGENTOS_MODEL_API_KEY (or AGENTOS_MODEL_API_KEY_FILE) is required when provider is openai''] else [])
      else if mc_Provider c = ''anthropic'' then
        (if mc_APIKey c = [] then [''AGENTOS_MODEL_API_KEY (or AGENTOS_MODEL_API_KEY_FILE) is required when provider is anthropic''] else [])
      else [''AGENTOS_MODEL_PROVIDER='' @ mc_Provider c @ '' is unknown; must be stub, openai, or anthropic''])"

fun joinSep :: "string \<Rightarrow> string list \<Rightarrow> string" where
  "joinSep sep [] = []"
| "joinSep sep [x] = x"
| "joinSep sep (x # xs) = x @ sep @ joinSep sep xs"

definition reportProblems :: "string \<Rightarrow> string list \<Rightarrow> string option" where
  "reportProblems prefix problems = (if problems = [] then None else Some (prefix @ joinSep ''; '' problems))"

definition ModelConfig_Validate :: "modelConfig \<Rightarrow> string option" where
  "ModelConfig_Validate c =
     reportProblems ''model configuration invalid: ''
       (providerProblems c @ (if mc_Timeout c \<le> 0 then [''AGENTOS_MODEL_TIMEOUT must be positive''] else []))"

record execConfig =
  xc_Workers :: int
  xc_DefaultMaxSteps :: int
  xc_DefaultTimeout :: duration
  xc_ToolMaxOutputSize :: int

definition LoadExecConfig :: "(string \<Rightarrow> string) \<Rightarrow> (string \<Rightarrow> duration option) \<Rightarrow> execConfig" where
  "LoadExecConfig getenv parseDuration =
     \<lparr>xc_Workers = envParsed getenv Atoi (\<lambda>n. n > 0) ''AGENTOS_EXEC_WORKERS'' 5,
      xc_DefaultMaxSteps = envParsed getenv Atoi (\<lambda>n. n > 0) ''AGENTOS_EXEC_DEFAULT_MAX_STEPS'' 10,
      xc_DefaultTimeout = envParsed getenv parseDuration (\<lambda>d. d > 0) ''AGENTOS_EXEC_DEFAULT_TIMEOUT'' (seconds 300),
      xc_ToolMaxOutputSize = envParsed getenv Atoi (\<lambda>n. n > 0) ''AGENTOS_EXEC_TOOL_MAX_OUTPUT'' (1024 * 1024)\<rparr>"

subsection \<open>Storage\<close>

record postgresConfig =
  pg_Host :: string
  pg_Port :: int
  pg_Name :: string
  pg_User :: string
  pg_Password :: string
  pg_SSLMode :: string
  pg_PoolSize :: int

record storageConfig =
  stc_Backend :: string
  stc_Postgres :: postgresConfig
  stc_ShutdownTimeout :: duration
  stc_LogFormat :: string
  stc_MaxBodySize :: int
  stc_MemoryMaxMessages :: int
  stc_MemoryMaxTokens :: int
  stc_KVMaxValueSize :: int
  stc_KVMaxKeysPerAgent :: int
  stc_PIIEnabled :: bool
  stc_PIIDefaultMode :: string

definition LoadFromEnv :: "(string \<Rightarrow> string) \<Rightarrow> (string \<Rightarrow> string option) \<Rightarrow> (string \<Rightarrow> duration option) \<Rightarrow> storageConfig" where
  "LoadFromEnv getenv readSecret parseDuration =
     (let intVar = envParsed getenv Atoi (\<lambda>_. True) in
      \<lparr>stc_Backend = getenv ''AGENTOS_STORAGE_BACKEND'',
       stc_Postgres = \<lparr>pg_Host = getenv ''AGENTOS_DB_HOST'', pg_Port = intVar ''AGENTOS_DB_PORT'' 5432, pg_Name = getenv ''AGENTOS_DB_NAME'',
          pg_User = getenv ''AGENTOS_DB_USER'', pg_Password = secretEnv getenv readSecret ''AGENTOS_DB_PASSWORD'' ''AGENTOS_DB_PASSWORD_FILE'',
          pg_SSLMode = envOrDefault getenv ''AGENTOS_DB_SSLMODE'' ''require'', pg_PoolSize = intVar ''AGENTOS_DB_POOL_SIZE'' 10\<rparr>,
       stc_ShutdownTimeout = envParsed getenv parseDuration (\<lambda>_. True) ''AGENTOS_SHUTDOWN_TIMEOUT'' (seconds 30),
       stc_LogFormat = envOrDefault getenv ''AGENTOS_LOG_FORMAT'' [],
       stc_MaxBodySize = intVar ''AGENTOS_MAX_BODY_SIZE'' 1048576,
       stc_MemoryMaxMessages = intVar ''AGENTOS_MEMORY_MAX_MESSAGES'' 50,
       stc_MemoryMaxTokens = intVar ''AGENTOS_MEMORY_MAX_TOKENS'' 8192,
       stc_KVMaxValueSize = intVar ''AGENTOS_KV_MAX_VALUE_SIZE'' 65536,
       stc_KVMaxKeysPerAgent = intVar ''AGENTOS_KV_MAX_KEYS_PER_AGENT'' 1000,
       stc_PIIEnabled = (ToLower (envOrDefault getenv ''AGENTOS_PII_ENABLED'' ''true'') = ''true''),
       stc_PIIDefaultMode = envOrDefault getenv ''AGENTOS_PII_DEFAULT_MODE'' ''warn''\<rparr>)"

definition required :: "string \<Rightarrow> string \<Rightarrow> string list" where
  "required v name = (if v = [] then [name @ '' is required when backend is postgres''] else [])"

definition StorageConfig_Validate :: "storageConfig \<Rightarrow> string option" where
  "StorageConfig_Validate c =
     (let p = stc_Postgres c in
      reportProblems ''configuration invalid: ''
        ((if ToLower (stc_Backend c) = ''postgres''
          then required (pg_Host p) ''AGENTOS_DB_HOST'' @ required (pg_Name p) ''AGENTOS_DB_NAME'' @ required (pg_User p) ''AGENTOS_DB_USER'' @
               required (pg_Password p) ''AGENTOS_DB_PASSWORD (or AGENTOS_DB_PASSWORD_FILE)'' else []) @
         (if pg_Port p < 1 \<or> pg_Port p > 65535 then [''AGENTOS_DB_PORT='' @ Itoa (pg_Port p) @ '' is invalid; must be 1-65535''] else []) @
         (if pg_PoolSize p < 1 then [''AGENTOS_DB_POOL_SIZE='' @ Itoa (pg_PoolSize p) @ '' is invalid; must be > 0''] else [])))"

subsection \<open>MCP and knowledge base\<close>

record mcpConfig =
  mcpc_Enabled :: bool
  mcpc_Port :: int

definition LoadMCPConfig :: "(string \<Rightarrow> string) \<Rightarrow> mcpConfig" where
  "LoadMCPConfig getenv =
     \<lparr>mcpc_Enabled = (getenv ''AGENTOS_MCP_ENABLED'' \<noteq> [] \<and> ToLower (getenv ''AGENTOS_MCP_ENABLED'') = ''true''),
      mcpc_Port = envParsed getenv Atoi (\<lambda>n. n > 0 \<and> n \<le> 65535) ''AGENTOS_MCP_PORT'' 9092\<rparr>"

record kbConfig =
  kbc_URL :: string
  kbc_APIKey :: string

definition LoadKBConfig :: "(string \<Rightarrow> string) \<Rightarrow> kbConfig" where
  "LoadKBConfig getenv =
     \<lparr>kbc_URL = envOrDefault getenv ''AGENTOS_KB_URL'' ''http://nexixai-kb:9093'',
      kbc_APIKey = envOrDefault getenv ''AGENTOS_KB_API_KEY'' (getenv ''KB_API_KEY'')\<rparr>"

subsection \<open>Profiles\<close>

datatype profile = ProfileDev | ProfileDemo | ProfileProd

definition CurrentProfile :: "(string \<Rightarrow> string) \<Rightarrow> profile" where
  "CurrentProfile getenv =
     (let p = ToLower (TrimSpace (getenv ''AGENTOS_PROFILE'')) in
      if p = ''demo'' then ProfileDemo else if p = ''prod'' then ProfileProd else ProfileDev)"

definition EnsureSafeProfile :: "(string \<Rightarrow> string) \<Rightarrow> string option" where
  "EnsureSafeProfile getenv =
     (if CurrentProfile getenv \<noteq> ProfileProd then None
      else if TrimSpace (getenv ''AGENTOS_DEFAULT_TENANT'') \<noteq> [] then Some ''unsafe prod config: AGENTOS_DEFAULT_TENANT must be empty''
      else if TrimSpace (getenv ''AGENTOS_ALLOW_DEV_HEADERS'') = ''1'' then Some ''unsafe prod config: AGENTOS_ALLOW_DEV_HEADERS must be disabled''
      else None)"

text \<open>\<open>stat\<close> is the error of looking up a file, if any.\<close>

definition ValidateServiceConfig :: "(string \<Rightarrow> string) \<Rightarrow> (string \<Rightarrow> string option) \<Rightarrow> string \<Rightarrow> string option" where
  "ValidateServiceConfig getenv stat service0 =
     (if CurrentProfile getenv \<noteq> ProfileProd then None
      else
        (let service = ToLower (TrimSpace service0); peers = TrimSpace (getenv ''AGENTOS_PEERS_FILE'') in
         reportProblems (''configuration invalid for profile=prod (service='' @ service @ ''): '')
           ((if TrimSpace (getenv ''AGENTOS_METRICS_REQUIRE_AUTH'') \<noteq> ''1''
             then [''AGENTOS_METRICS_REQUIRE_AUTH must be set to 1 in prod to protect /metrics''] else []) @
            (if service = ''federation'' then
               (if peers = [] then [''AGENTOS_PEERS_FILE is required in prod (path to peer registry JSON)'']
                else case stat peers of None \<Rightarrow> [] | Some e \<Rightarrow> [''AGENTOS_PEERS_FILE='' @ peers @ '' not readable: '' @ e])
             else []))))"

subsection \<open>Properties\<close>

lemma reportProblems_None [simp]: "reportProblems p ps = None \<longleftrightarrow> ps = []"
  by (simp add: reportProblems_def)

text \<open>The execution settings are positive whatever the environment says; an unset or malformed variable gives the default.\<close>

lemma LoadExecConfig_positive:
  "0 < xc_Workers (LoadExecConfig getenv pd)" "0 < xc_DefaultMaxSteps (LoadExecConfig getenv pd)"
  "0 < xc_DefaultTimeout (LoadExecConfig getenv pd)" "0 < xc_ToolMaxOutputSize (LoadExecConfig getenv pd)"
  by (simp_all add: LoadExecConfig_def envParsed_def seconds_def split: option.split)

text \<open>A storage configuration is accepted exactly when port and pool size are in range and, for the PostgreSQL backend,
  host, database, user and password are given.\<close>

lemma storage_config_validated:
  "(StorageConfig_Validate c = None \<longleftrightarrow>
     1 \<le> pg_Port (stc_Postgres c) \<and> pg_Port (stc_Postgres c) \<le> 65535 \<and> 1 \<le> pg_PoolSize (stc_Postgres c) \<and>
     (ToLower (stc_Backend c) = ''postgres'' \<longrightarrow> pg_Host (stc_Postgres c) \<noteq> [] \<and> pg_Name (stc_Postgres c) \<noteq> [] \<and>
        pg_User (stc_Postgres c) \<noteq> [] \<and> pg_Password (stc_Postgres c) \<noteq> []))"
  by (auto simp: StorageConfig_Validate_def Let_def required_def)

text \<open>The production profile accepts the development mode of the access control: without a member store every request
  passes the role check, without a key store every request passes the key check.\<close>

lemma prod_profile_accepts_dev_mode:
  assumes "getenv ''AGENTOS_PROFILE'' = ''prod''" "getenv ''AGENTOS_DEV_MODE'' = ''true''" "getenv ''AGENTOS_DEFAULT_TENANT'' = []"
    and "getenv ''AGENTOS_ALLOW_DEV_HEADERS'' = []" "getenv ''AGENTOS_METRICS_REQUIRE_AUTH'' = ''1''"
  shows "EnsureSafeProfile getenv = None \<and> ValidateServiceConfig getenv stat ''orchestrator'' = None \<and>
    RBACMiddleware getenv getRole countMembers setRole ''owner'' (Some ac) None = (Inr (Some ac), None) \<and>
    APIKeyMiddleware getenv bcryptOk now None ac = Inr ac"
proof -
  have "CurrentProfile getenv = ProfileProd" by (simp add: CurrentProfile_def assms(1) Let_def) code_simp
  moreover have "TrimSpace ''1'' = ''1''" "TrimSpace [] = []" "ToLower (TrimSpace ''orchestrator'') = ''orchestrator''" by code_simp+
  ultimately show ?thesis using assms
    by (simp add: EnsureSafeProfile_def ValidateServiceConfig_def Let_def RBACMiddleware_def APIKeyMiddleware_def DevMode_def)
qed

text \<open>PII detection is switched off by any other spelling of true.\<close>

lemma pii_enabled_by_one_is_off: "getenv ''AGENTOS_PII_ENABLED'' = ''1'' \<Longrightarrow> \<not> stc_PIIEnabled (LoadFromEnv getenv readSecret pd)"
  by (simp add: LoadFromEnv_def envOrDefault_def Let_def) code_simp

end
