(* ===== verification/Chat_Completions.thy ===== *)
theory Chat_Completions
  imports Intent_Routing Audit_Log Service_Config
begin

text \<open>
  The OpenAI-compatible endpoints (agentorchestrator/openai_compat.go): chat completions, plain and streamed, the model
  list and embeddings.

  \<^item> The state is the number of requests in flight, the token budget with the rows given to its persistent store, and the
    audit log. A handler returns the reply, the requests it sent to the model provider and the new state.
  \<^item> The decoded body, the answers of provider, classifier and knowledge base, clocks, identifiers and SHA-256 are arguments.
  \<^item> Shown: images reach the provider only from callers with the multimodal scope, validated, and recorded; the budget
    sees exactly the usage the provider reported; what a streaming client receives; the bound on requests in flight.
\<close>

subsection \<open>Types\<close>

record openaiDelta =
  od_Role :: string
  od_Content :: string

record openaiStreamChoice =
  osc_Index :: int
  osc_Delta :: openaiDelta
  osc_FinishReason :: "string option"

record openaiStreamChunk =
  osk_ID :: string
  osk_Object :: string
  osk_Created :: int
  osk_Model :: string
  osk_Choices :: "openaiStreamChoice list"
  osk_Usage :: "chatUsage option"

record openaiChoice =
  oc_Index :: int
  oc_Message :: chatMessage
  oc_FinishReason :: string

record openaiChatResponse =
  ocr_ID :: string
  ocr_Object :: string
  ocr_Created :: int
  ocr_Model :: string
  ocr_Choices :: "openaiChoice list"
  ocr_Usage :: chatUsage

record openaiModel =
  om_ID :: string
  om_Object :: string
  om_Created :: int
  om_OwnedBy :: string

record indexedChunk = streamChunk +
  ix_Index :: int

text \<open>The reply: an error with its Retry-After header, a completion, a stream (its data lines and whether it ends with
  \<open>[DONE]\<close>), the agent notice, an upstream answer passed through, or models.\<close>

datatype chatReply =
    CError httpError "string option"
  | CPlain int string
  | CCompletion openaiChatResponse
  | CStream "openaiStreamChunk list" bool
  | CAgent intentName
  | CProxied int string
  | CModelList "openaiModel list"
  | CModel openaiModel

record chatServer =
  cs_inFlight :: nat
  cs_capacity :: "nat option"
  cs_budget :: "tokenBudget option"
  cs_rows :: "(string \<times> int) list"
  cs_audit :: "logEntry list option"
  cs_defaultModel :: string
  cs_modelBaseURL :: string
  cs_router :: routerConfig
  cs_composer :: "intentConfig option"

record chatEnv =
  ce_getenv :: "string \<Rightarrow> string"
  ce_readSecret :: "string \<Rightarrow> string option"
  ce_parseDuration :: "string \<Rightarrow> duration option"
  ce_sha256hex :: "string \<Rightarrow> string"
  ce_decode :: "string \<Rightarrow> openaiRequest option"
  ce_classifier :: "string \<Rightarrow> string \<Rightarrow> classifierOutcome"
  ce_kb :: "(string \<Rightarrow> string \<Rightarrow> int \<Rightarrow> string + searchResult list) option"
  ce_mulTokens :: "int \<Rightarrow> rat \<Rightarrow> int"
  ce_complete :: "openaiRequest \<Rightarrow> string + chatResponse"
  ce_stream :: "(openaiRequest \<Rightarrow> string + indexedChunk list) option"
  ce_flusher :: bool
  ce_store :: "hourlyUsage option"
  ce_checkAt :: time
  ce_recordAt :: time
  ce_newID :: string
  ce_unix :: int
  ce_correlation :: string
  ce_requestID :: string
  ce_contentMsg :: "nat \<times> contentErr \<Rightarrow> string"
  ce_classifyMs :: int
  ce_kbMs :: int

subsection \<open>Inspection of the messages\<close>

definition chatMultimodalScope :: string where "chatMultimodalScope = ''chat:multimodal''"

definition containsScope :: "string list \<Rightarrow> string \<Rightarrow> bool" where
  "containsScope scopes want = list_ex (\<lambda>s. s = want) scopes"

definition chatAuditImageHash :: "(string \<Rightarrow> string) \<Rightarrow> bool" where
  "chatAuditImageHash getenv = (ToLower (TrimSpace (getenv ''AGENTOS_CHAT_AUDIT_IMAGE_HASH'')) = ''1'')"

definition imageURLs :: "contentPart list \<Rightarrow> string list" where
  "imageURLs ps = List.map_filter (\<lambda>p. if cp_Type p \<noteq> ''image_url'' then None else map_option iu_URL (cp_ImageURL p)) ps"

fun inspectChatMessages :: "(string \<Rightarrow> string) \<Rightarrow> bool \<Rightarrow> nat \<Rightarrow> chatMessage list \<Rightarrow> bool \<times> string list \<Rightarrow> (nat \<times> contentErr) + bool \<times> string list" where
  "inspectChatMessages sha hashAudit i [] acc = Inr acc"
| "inspectChatMessages sha hashAudit i (msg # msgs) acc =
     (case cm_Content msg of
        JStr _ \<Rightarrow> inspectChatMessages sha hashAudit (Suc i) msgs acc
      | JNull \<Rightarrow> inspectChatMessages sha hashAudit (Suc i) msgs acc
      | v \<Rightarrow>
          (case Content_UnmarshalJSON v of
             Inl e \<Rightarrow> Inl (i, e)
           | Inr c \<Rightarrow>
               if \<not> IsMultipart c then inspectChatMessages sha hashAudit (Suc i) msgs acc
               else (case ValidateContent c of
                       Some e \<Rightarrow> Inl (i, e)
                     | None \<Rightarrow> inspectChatMessages sha hashAudit (Suc i) msgs
                         (True, snd acc @ map (\<lambda>u. ImageRefForAudit sha u hashAudit) (imageURLs (Parts c))))))"

definition providerName :: "chatEnv \<Rightarrow> string" where
  "providerName env =
     (let cfg = LoadModelConfig (ce_getenv env) (ce_readSecret env) (ce_parseDuration env) in
      if mc_Provider cfg = [] then ''stub'' else mc_Provider cfg)"

definition lastUserMessage :: "chatMessage list \<Rightarrow> string" where
  "lastUserMessage msgs =
     (case find (\<lambda>m. cm_Role m = ''user'' \<and> MessageText m \<noteq> []) (rev msgs) of None \<Rightarrow> [] | Some m \<Rightarrow> MessageText m)"

definition composeResultKBCount :: "composeResult option \<Rightarrow> int" where
  "composeResultKBCount cr = (case cr of None \<Rightarrow> 0 | Some c \<Rightarrow> int (cr_KBResultCount c))"

definition composeResultKBLatency :: "int \<Rightarrow> composeResult option \<Rightarrow> int" where
  "composeResultKBLatency ms cr = (case cr of None \<Rightarrow> 0 | Some _ \<Rightarrow> ms)"

subsection \<open>Budget and audit\<close>

definition auditChat :: "logEntry \<Rightarrow> chatServer \<Rightarrow> chatServer" where
  "auditChat e s = (case cs_audit s of None \<Rightarrow> s | Some l \<Rightarrow> s\<lparr>cs_audit := Some (l @ [e])\<rparr>)"

definition recordChatUsage :: "chatEnv \<Rightarrow> string \<Rightarrow> chatUsage \<Rightarrow> chatServer \<Rightarrow> chatServer" where
  "recordChatUsage env tenantID u s =
     (case cs_budget s of None \<Rightarrow> s
      | Some tb \<Rightarrow>
          (case RecordTokens (ce_store env) (ce_recordAt env) tenantID (cu_TotalTokens u) tb of
             (_, tb', row) \<Rightarrow> s\<lparr>cs_budget := Some tb', cs_rows := cs_rows s @ (case row of None \<Rightarrow> [] | Some r \<Rightarrow> [r])\<rparr>))"

definition checkChatBudget :: "chatEnv \<Rightarrow> string \<Rightarrow> chatServer \<Rightarrow> bool \<times> chatServer" where
  "checkChatBudget env tenantID s =
     (case cs_budget s of None \<Rightarrow> (True, s)
      | Some tb \<Rightarrow> (case CheckBudget (ce_store env) (ce_checkAt env) tenantID tb of (ok, tb') \<Rightarrow> (ok, s\<lparr>cs_budget := Some tb'\<rparr>)))"

definition multimodalEntry :: "string \<Rightarrow> string list \<Rightarrow> bool \<Rightarrow> logEntry" where
  "multimodalEntry tenantID refs hashed =
     \<lparr>le_Time = [], le_TenantID = tenantID, le_PrincipalID = [], le_Action = ''chat.multimodal'', le_Resource = ''http:/v1/chat/completions'',
      le_Outcome = ''accepted'', le_CorrelationID = [], le_RequestID = [],
      le_Meta = Some [(''image_parts'', jint (int (length refs))), (''image_refs'', JArr (map JStr refs)), (''image_hash'', JBool hashed)]\<rparr>"

definition routeEntry :: "chatEnv \<Rightarrow> authContext \<Rightarrow> string \<Rightarrow> routingDecision \<Rightarrow> composeResult option \<Rightarrow> logEntry" where
  "routeEntry env ac model d cr =
     \<lparr>le_Time = [], le_TenantID = ac_TenantID ac, le_PrincipalID = ac_PrincipalID ac, le_Action = ''chat.route'', le_Resource = ''model/'' @ model,
      le_Outcome = ''routed'', le_CorrelationID = ce_correlation env, le_RequestID = ce_requestID env,
      le_Meta = Some [(''classifier_label'', JStr (case rd_Label d of None \<Rightarrow> [] | Some l \<Rightarrow> intentText (labelToIntent l))),
        (''intent'', JStr (intentText (rd_Intent d))), (''destination'', JStr (rd_Destination d)),
        (''enable_thinking'', JBool (rd_EnableThinking d)), (''classifier_latency'', jint (if rd_Label d = None then 0 else ce_classifyMs env)),
        (''fallback'', JBool (rd_Fallback d)), (''kb_results'', jint (composeResultKBCount cr)),
        (''kb_latency_ms'', jint (composeResultKBLatency (ce_kbMs env) cr))]\<rparr>"

subsection \<open>Replies\<close>

definition choiceIndex :: "nat \<Rightarrow> int \<Rightarrow> int" where
  "choiceIndex i idx = (if idx = 0 \<and> i \<noteq> 0 then int i else idx)"

definition chatResponseOf :: "chatEnv \<Rightarrow> chatResponse \<Rightarrow> openaiChatResponse" where
  "chatResponseOf env resp =
     \<lparr>ocr_ID = ''chatcmpl-'' @ ce_newID env, ocr_Object = ''chat.completion'', ocr_Created = ce_unix env, ocr_Model = cr_Model resp,
      ocr_Choices = map (\<lambda>(i, c). \<lparr>oc_Index = choiceIndex i (cc_Index c), oc_Message = cc_Message c, oc_FinishReason = cc_FinishReason c\<rparr>)
        (enumerate 0 (cr_Choices resp)), ocr_Usage = cr_Usage resp\<rparr>"

definition singleChunk :: "chatEnv \<Rightarrow> chatResponse \<Rightarrow> openaiStreamChunk" where
  "singleChunk env resp =
     \<lparr>osk_ID = ''chatcmpl-'' @ ce_newID env, osk_Object = ''chat.completion.chunk'', osk_Created = ce_unix env, osk_Model = cr_Model resp,
      osk_Choices = map (\<lambda>(i, c). \<lparr>osc_Index = choiceIndex i (cc_Index c),
          osc_Delta = \<lparr>od_Role = cm_Role (cc_Message c), od_Content = MessageText (cc_Message c)\<rparr>, osc_FinishReason = Some (cc_FinishReason c)\<rparr>)
        (enumerate 0 (cr_Choices resp)), osk_Usage = None\<rparr>"

definition streamChunkOf :: "chatEnv \<Rightarrow> string \<Rightarrow> bool \<Rightarrow> indexedChunk \<Rightarrow> openaiStreamChunk" where
  "streamChunkOf env model first sc =
     \<lparr>osk_ID = ''chatcmpl-'' @ ce_newID env, osk_Object = ''chat.completion.chunk'', osk_Created = ce_unix env, osk_Model = model,
      osk_Choices = [\<lparr>osc_Index = ix_Index sc, osc_Delta = \<lparr>od_Role = (if first then ''assistant'' else []), od_Content = sc_Delta sc\<rparr>,
        osc_FinishReason = (if sc_FinishReason sc \<noteq> [] then Some (sc_FinishReason sc) else None)\<rparr>], osk_Usage = sc_Usage sc\<rparr>"

text \<open>The loop over the provider's chunks: the lines written, whether the stream broke, the state.\<close>

fun chatStreamLoop :: "chatEnv \<Rightarrow> string \<Rightarrow> string \<Rightarrow> bool \<Rightarrow> indexedChunk list \<Rightarrow> chatServer \<Rightarrow> openaiStreamChunk list \<times> bool \<times> chatServer" where
  "chatStreamLoop env tenantID model first [] s = ([], False, s)"
| "chatStreamLoop env tenantID model first (sc # scs) s =
     (if sc_Err sc \<noteq> None then ([], True, s)
      else
        (let s1 = (case sc_Usage sc of None \<Rightarrow> s | Some u \<Rightarrow> recordChatUsage env tenantID u s);
             (out, err, s2) = chatStreamLoop env tenantID model False scs s1 in
         (streamChunkOf env model first sc # out, err, s2)))"

definition modelError :: "string \<Rightarrow> chatReply" where
  "modelError e = CError (httpxError 502 ''model_error'' e True) None"

definition handleChatCompletionsStream :: "chatEnv \<Rightarrow> string \<Rightarrow> openaiRequest \<Rightarrow> chatServer \<Rightarrow> chatReply \<times> openaiRequest list \<times> chatServer" where
  "handleChatCompletionsStream env tenantID rq s =
     (case ce_stream env of
        None \<Rightarrow>
          (let rq' = rq\<lparr>oq_Stream := False\<rparr> in
           case ce_complete env rq' of
             Inl e \<Rightarrow> (modelError e, [rq'], s)
           | Inr resp \<Rightarrow> (CStream [singleChunk env resp] True, [rq'], recordChatUsage env tenantID (cr_Usage resp) s))
      | Some start \<Rightarrow>
          (case start rq of
             Inl e \<Rightarrow> (modelError e, [rq], s)
           | Inr chunks \<Rightarrow>
               if \<not> ce_flusher env then (CPlain 500 ''streaming unsupported'', [rq], s)
               else (let (out, err, s') = chatStreamLoop env tenantID (rq_Model rq) True chunks s in (CStream out (\<not> err), [rq], s'))))"

subsection \<open>Routing\<close>

definition visionDecision :: routingDecision where
  "visionDecision = \<lparr>rd_Label = None, rd_Intent = IntentGeneral, rd_Destination = ''model'', rd_EnableThinking = False, rd_Fallback = False, rd_Error = []\<rparr>"

definition legacyThinking :: "routingDecision \<Rightarrow> openaiRequest \<Rightarrow> openaiRequest" where
  "legacyThinking d rq = rq\<lparr>oq_Extra := Some [(''chat_template_kwargs'', JObj [(''enable_thinking'', JBool (rd_Label d = Some LabelReasoning))])]\<rparr>"

definition routeChat :: "chatEnv \<Rightarrow> chatServer \<Rightarrow> string \<Rightarrow> bool \<Rightarrow> openaiRequest \<Rightarrow> routingDecision option \<times> composeResult option \<times> openaiRequest" where
  "routeChat env s tenantID hasVision rq =
     (if hasVision then (Some visionDecision, None, rq)
      else if rc_Enabled (cs_router s) then
        (let prompt = lastUserMessage (rq_Messages rq) in
         if prompt = [] then (None, None, rq)
         else
           (let d = Classify (ce_classifier env) (cs_router s) prompt in
            case cs_composer s of
              Some cfg \<Rightarrow> (let cr = Compose (ce_mulTokens env) (ce_kb env) cfg d rq tenantID in (Some d, Some cr, cr_Request cr))
            | None \<Rightarrow> (Some d, None, legacyThinking d rq)))
      else (None, None, rq))"

definition completeChat ::
  "chatEnv \<Rightarrow> authContext \<Rightarrow> routingDecision option \<Rightarrow> composeResult option \<Rightarrow> openaiRequest \<Rightarrow> chatServer \<Rightarrow> chatReply \<times> openaiRequest list \<times> chatServer" where
  "completeChat env ac decision cr rq s =
     (case ce_complete env rq of
        Inl e \<Rightarrow> (modelError e, [rq], s)
      | Inr resp \<Rightarrow>
          (let s1 = recordChatUsage env (ac_TenantID ac) (cr_Usage resp) s;
               s2 = (case decision of None \<Rightarrow> s1 | Some d \<Rightarrow> auditChat (routeEntry env ac (rq_Model rq) d cr) s1) in
           (CCompletion (chatResponseOf env resp), [rq], s2)))"

definition handleAgentDispatch :: "routingDecision \<Rightarrow> chatReply" where
  "handleAgentDispatch d = CAgent (rd_Intent d)"

definition answerChat ::
  "chatEnv \<Rightarrow> authContext \<Rightarrow> bool \<Rightarrow> openaiRequest \<Rightarrow> chatServer \<Rightarrow> chatReply \<times> openaiRequest list \<times> chatServer" where
  "answerChat env ac hasVision rq s =
     (case routeChat env s (ac_TenantID ac) hasVision rq of
        (decision, cr, rq') \<Rightarrow>
          (case (decision, cr) of
             (Some d, Some c) \<Rightarrow>
               if cr_IsAgentDispatch c then (handleAgentDispatch d, [], s)
               else if oq_Stream rq' then handleChatCompletionsStream env (ac_TenantID ac) rq' s
               else completeChat env ac decision cr rq' s
           | _ \<Rightarrow> if oq_Stream rq' then handleChatCompletionsStream env (ac_TenantID ac) rq' s
                  else completeChat env ac decision cr rq' s))"

subsection \<open>The handler\<close>

definition chatBody :: "chatEnv \<Rightarrow> authContext \<Rightarrow> string \<Rightarrow> chatServer \<Rightarrow> chatReply \<times> openaiRequest list \<times> chatServer" where
  "chatBody env ac body s0 =
     (case checkChatBudget env (ac_TenantID ac) s0 of
        (False, s) \<Rightarrow> (CError (httpxError 429 ''token_budget_exceeded'' ''hourly token budget exceeded'' True) (Some ''60''), [], s)
      | (True, s) \<Rightarrow>
          (case ce_decode env body of
             None \<Rightarrow> (CError (httpxError 400 ''invalid_json'' ''invalid json body'' False) None, [], s)
           | Some rq0 \<Rightarrow>
               (let rq = (if rq_Model rq0 = [] then rq0\<lparr>rq_Model := cs_defaultModel s\<rparr> else rq0);
                    hashed = chatAuditImageHash (ce_getenv env) in
                case inspectChatMessages (ce_sha256hex env) hashed 0 (rq_Messages rq) (False, []) of
                  Inl e \<Rightarrow> (CError (httpxError 400 ''invalid_content'' (ce_contentMsg env e) False) None, [], s)
                | Inr (_, refs) \<Rightarrow>
                    if refs \<noteq> [] \<and> providerName env = ''anthropic''
                    then (CError (httpxError 400 ''unsupported_for_provider''
                            ''multipart content with images is not supported on the anthropic provider in v11.1'' False) None, [], s)
                    else if refs \<noteq> [] \<and> \<not> containsScope (ac_Scopes ac) chatMultimodalScope
                    then (CError (httpxError 403 ''scope_missing'' (''multimodal content requires the '' @ [CHR 0x22] @ chatMultimodalScope @ [CHR 0x22] @ '' scope'') False) None, [], s)
                    else answerChat env ac (refs \<noteq> []) rq
                           (if refs \<noteq> [] then auditChat (multimodalEntry (ac_TenantID ac) refs hashed) s else s))))"

definition acquireSlot :: "chatServer \<Rightarrow> chatServer option" where
  "acquireSlot s =
     (case cs_capacity s of None \<Rightarrow> Some s
      | Some cap \<Rightarrow> if cs_inFlight s < cap then Some (s\<lparr>cs_inFlight := cs_inFlight s + 1\<rparr>) else None)"

definition releaseSlot :: "chatServer \<Rightarrow> chatServer" where
  "releaseSlot s = (case cs_capacity s of None \<Rightarrow> s | Some _ \<Rightarrow> s\<lparr>cs_inFlight := cs_inFlight s - 1\<rparr>)"

definition handleChatCompletions ::
  "chatEnv \<Rightarrow> string \<Rightarrow> authContext \<Rightarrow> string \<Rightarrow> chatServer \<Rightarrow> chatReply \<times> openaiRequest list \<times> chatServer" where
  "handleChatCompletions env meth ac body s =
     (if meth \<noteq> ''POST'' then (CError (httpxError 405 ''method_not_allowed'' ''method not allowed'' False) None, [], s)
      else if ac_TenantID ac = [] then (CError (httpxError 401 ''unauthorized'' ''tenant_id required'' False) None, [], s)
      else case acquireSlot s of
        None \<Rightarrow> (CError (httpxError 429 ''quota_exceeded'' ''chat concurrency limit reached'' True) (Some ''5''), [], s)
      | Some s1 \<Rightarrow> (let (reply, calls, s2) = chatBody env ac body s1 in (reply, calls, releaseSlot s2)))"

text \<open>Several requests at once: one enters with its slot, one that entered runs to its end and gives the slot back.\<close>

datatype chatEvent = ChatEnter | ChatFinish chatEnv authContext string

fun chatStep :: "chatEvent \<Rightarrow> chatServer \<times> nat \<Rightarrow> chatServer \<times> nat" where
  "chatStep ChatEnter (s, n) = (case acquireSlot s of None \<Rightarrow> (s, n) | Some s' \<Rightarrow> (s', n + 1))"
| "chatStep (ChatFinish env ac body) (s, n) = (if n = 0 then (s, n) else (releaseSlot (snd (snd (chatBody env ac body s))), n - 1))"

subsection \<open>Models and embeddings\<close>

record proxyRequest =
  px_Method :: string
  px_URL :: string
  px_Authorization :: string
  px_Body :: string

datatype proxyFailure = BadProxyRequest | ProviderUnreachable string

type_synonym proxyTransport = "proxyRequest \<Rightarrow> proxyFailure + int \<times> string"

definition trimTrailingSlashes :: "string \<Rightarrow> string" where
  "trimTrailingSlashes s = rev (dropWhile (\<lambda>c. c = CHR ''/'') (rev s))"

definition proxyAuth :: "modelConfig \<Rightarrow> string" where
  "proxyAuth cfg = (if mc_APIKey cfg \<noteq> [] then ''Bearer '' @ mc_APIKey cfg else [])"

definition envModelConfig :: "chatEnv \<Rightarrow> modelConfig" where
  "envModelConfig env = LoadModelConfig (ce_getenv env) (ce_readSecret env) (ce_parseDuration env)"

text \<open>A request that cannot be built is not sent.\<close>

definition sentRequests :: "proxyTransport \<Rightarrow> proxyRequest \<Rightarrow> proxyRequest list" where
  "sentRequests send rq = (case send rq of Inl BadProxyRequest \<Rightarrow> [] | _ \<Rightarrow> [rq])"

definition defaultModelEntry :: "chatEnv \<Rightarrow> string \<Rightarrow> openaiModel" where
  "defaultModelEntry env m = \<lparr>om_ID = m, om_Object = ''model'', om_Created = ce_unix env, om_OwnedBy = ''agentos''\<rparr>"

definition chatMethodNotAllowed :: chatReply where
  "chatMethodNotAllowed = CError (httpxError 405 ''method_not_allowed'' ''method not allowed'' False) None"

definition handleModels :: "chatEnv \<Rightarrow> proxyTransport \<Rightarrow> string \<Rightarrow> chatServer \<Rightarrow> chatReply \<times> proxyRequest list" where
  "handleModels env send meth s =
     (if meth \<noteq> ''GET'' then (chatMethodNotAllowed, [])
      else if cs_modelBaseURL s = [] then (CModelList [defaultModelEntry env (cs_defaultModel s)], [])
      else
        (let rq = \<lparr>px_Method = ''GET'', px_URL = trimTrailingSlashes (cs_modelBaseURL s) @ ''/models'',
                   px_Authorization = proxyAuth (envModelConfig env), px_Body = []\<rparr> in
         case send rq of
           Inr (status, body) \<Rightarrow> if status = 200 then (CProxied 200 body, sentRequests send rq) else (CModelList [defaultModelEntry env (cs_defaultModel s)], sentRequests send rq)
         | Inl _ \<Rightarrow> (CModelList [defaultModelEntry env (cs_defaultModel s)], sentRequests send rq)))"

definition trimSlashes :: "string \<Rightarrow> string" where
  "trimSlashes s = trimTrailingSlashes (dropWhile (\<lambda>c. c = CHR ''/'') s)"

definition staticModel :: "chatEnv \<Rightarrow> string \<Rightarrow> chatServer \<Rightarrow> chatReply" where
  "staticModel env modelID s =
     (if modelID \<noteq> cs_defaultModel s then CError (httpxError 404 ''model_not_found'' (''model '' @ [CHR 0x22] @ modelID @ [CHR 0x22] @ '' not found'') False) None
      else CModel (defaultModelEntry env modelID))"

definition handleModelByID :: "chatEnv \<Rightarrow> proxyTransport \<Rightarrow> string \<Rightarrow> string \<Rightarrow> chatServer \<Rightarrow> chatReply \<times> proxyRequest list" where
  "handleModelByID env send meth urlPath s =
     (let modelID = trimSlashes (TrimPrefix urlPath ''/v1/models/'') in
      if meth \<noteq> ''GET'' then (chatMethodNotAllowed, [])
      else if modelID = [] then (CError (httpxError 400 ''invalid_request'' ''model_id is required'' False) None, [])
      else if cs_modelBaseURL s = [] then (staticModel env modelID s, [])
      else
        (let rq = \<lparr>px_Method = ''GET'', px_URL = trimTrailingSlashes (cs_modelBaseURL s) @ ''/models/'' @ modelID,
                   px_Authorization = proxyAuth (envModelConfig env), px_Body = []\<rparr> in
         case send rq of Inr (status, body) \<Rightarrow> (CProxied status body, sentRequests send rq) | Inl _ \<Rightarrow> (staticModel env modelID s, sentRequests send rq)))"

text \<open>\<open>readBody\<close>: the body, or that reading it failed.\<close>

definition handleEmbeddings :: "chatEnv \<Rightarrow> proxyTransport \<Rightarrow> string \<Rightarrow> string option \<Rightarrow> chatReply \<times> proxyRequest list" where
  "handleEmbeddings env send meth readBody =
     (let cfg = envModelConfig env in
      if meth \<noteq> ''POST'' then (chatMethodNotAllowed, [])
      else if mc_BaseURL cfg = [] then (CError (httpxError 501 ''not_configured'' ''model provider base URL not configured for embeddings'' False) None, [])
      else case readBody of
        None \<Rightarrow> (CError (httpxError 400 ''read_error'' ''failed to read request body'' False) None, [])
      | Some body \<Rightarrow>
          (let rq = \<lparr>px_Method = ''POST'', px_URL = trimTrailingSlashes (mc_BaseURL cfg) @ ''/v1/embeddings'',
                     px_Authorization = proxyAuth cfg, px_Body = take (1024 * 1024) body\<rparr> in
           case send rq of
             Inl BadProxyRequest \<Rightarrow> (CError (httpxError 500 ''proxy_error'' ''failed to create proxy request'' True) None, [])
           | Inl (ProviderUnreachable e) \<Rightarrow> (CError (httpxError 502 ''provider_error'' (''embeddings provider unreachable: '' @ e) True) None, sentRequests send rq)
           | Inr (status, b) \<Rightarrow> (CProxied status b, sentRequests send rq)))"

subsection \<open>Properties\<close>

text \<open>The images of a message, as the inspection sees them.\<close>

definition messageImages :: "chatMessage \<Rightarrow> string list" where
  "messageImages m = (case Content_UnmarshalJSON (cm_Content m) of Inl _ \<Rightarrow> [] | Inr c \<Rightarrow> imageURLs (Parts c))"

definition messageValid :: "chatMessage \<Rightarrow> bool" where
  "messageValid m = (case Content_UnmarshalJSON (cm_Content m) of Inl _ \<Rightarrow> False | Inr c \<Rightarrow> ValidateContent c = None)"

lemma text_message_valid: "cm_Content m = JStr t \<or> cm_Content m = JNull \<Longrightarrow> messageValid m \<and> messageImages m = []"
  by (auto simp: messageValid_def messageImages_def Content_UnmarshalJSON_def ValidateContent_def IsMultipart_def Parts_def imageURLs_def map_filter_def)

lemma textMessage_valid [simp]: "messageValid (textMessage r t)" "messageImages (textMessage r t) = []"
  using text_message_valid[of "textMessage r t"] by (simp_all add: textMessage_def)

lemma singlepart_images: "\<not> IsMultipart c \<Longrightarrow> imageURLs (Parts c) = [] \<and> ValidateContent c = None"
  by (cases c) (simp_all add: IsMultipart_def Parts_def imageURLs_def ValidateContent_def map_filter_def)

lemma inspect_spec:
  "inspectChatMessages sha h i msgs acc = Inr (b, refs) \<Longrightarrow>
   (\<forall>m\<in>set msgs. messageValid m) \<and> refs = snd acc @ map (\<lambda>u. ImageRefForAudit sha u h) (concat (map messageImages msgs))"
proof (induction msgs arbitrary: i acc)
  case (Cons m msgs)
  show ?case
  proof (cases "(\<exists>t. cm_Content m = JStr t) \<or> cm_Content m = JNull")
    case True
    then have "inspectChatMessages sha h (Suc i) msgs acc = Inr (b, refs)" "messageValid m" "messageImages m = []"
      using Cons.prems text_message_valid by auto
    then show ?thesis using Cons.IH by auto
  next
    case False
    then have eq: "inspectChatMessages sha h i (m # msgs) acc =
      (case Content_UnmarshalJSON (cm_Content m) of Inl e \<Rightarrow> Inl (i, e)
       | Inr c \<Rightarrow> if \<not> IsMultipart c then inspectChatMessages sha h (Suc i) msgs acc
           else (case ValidateContent c of Some e \<Rightarrow> Inl (i, e)
             | None \<Rightarrow> inspectChatMessages sha h (Suc i) msgs
                 (True, snd acc @ map (\<lambda>u. ImageRefForAudit sha u h) (imageURLs (Parts c)))))"
      by (cases "cm_Content m") simp_all
    then obtain c where c: "Content_UnmarshalJSON (cm_Content m) = Inr c"
      using Cons.prems by (cases "Content_UnmarshalJSON (cm_Content m)") simp_all
    show ?thesis
    proof (cases "IsMultipart c")
      case True
      then show ?thesis using Cons.prems Cons.IH eq c
        by (cases "ValidateContent c") (auto simp: messageValid_def messageImages_def)
    next
      case False
      then show ?thesis using Cons.prems Cons.IH eq c singlepart_images[OF False] by (auto simp: messageValid_def messageImages_def)
    qed
  qed
qed simp

lemma recordChatUsage_keeps [simp]:
  "cs_audit (recordChatUsage env t u s) = cs_audit s" "cs_inFlight (recordChatUsage env t u s) = cs_inFlight s" "cs_capacity (recordChatUsage env t u s) = cs_capacity s"
  by (simp_all add: recordChatUsage_def split: option.split prod.split)

lemma recordChatUsage_rows:
  assumes "cs_budget s = Some tb" "ce_store env = Some st"
  shows "cs_rows (recordChatUsage env t u s) = cs_rows s @ [(t, cu_TotalTokens u)] \<and> (\<exists>tb'. cs_budget (recordChatUsage env t u s) = Some tb')"
  using assms by (auto simp: recordChatUsage_def RecordTokens_def Let_def split: prod.split)

lemma auditChat_keeps [simp]:
  "cs_inFlight (auditChat e s) = cs_inFlight s" "cs_capacity (auditChat e s) = cs_capacity s" "cs_rows (auditChat e s) = cs_rows s" "cs_budget (auditChat e s) = cs_budget s"
  by (simp_all add: auditChat_def split: option.split)

lemma auditChat_log: "cs_audit (auditChat e s) = map_option (\<lambda>l. l @ [e]) (cs_audit s)"
  by (simp add: auditChat_def split: option.split)

lemma checkChatBudget_keeps:
  "checkChatBudget env t s = (ok, s') \<Longrightarrow>
   cs_audit s' = cs_audit s \<and> cs_inFlight s' = cs_inFlight s \<and> cs_capacity s' = cs_capacity s \<and> cs_rows s' = cs_rows s \<and>
   (\<forall>tb. cs_budget s = Some tb \<longrightarrow> ok = fst (CheckBudget (ce_store env) (ce_checkAt env) t tb) \<and> (\<exists>tb'. cs_budget s' = Some tb'))"
  by (auto simp: checkChatBudget_def split: option.splits prod.splits)

text \<open>The usage the provider reported for a call, up to the first error of a stream.\<close>

definition usageReported :: "chatEnv \<Rightarrow> openaiRequest \<Rightarrow> chatUsage list" where
  "usageReported env rq =
     (case (oq_Stream rq, ce_stream env) of
        (True, Some start) \<Rightarrow>
          (case start rq of Inl _ \<Rightarrow> [] | Inr chunks \<Rightarrow> List.map_filter sc_Usage (takeWhile (\<lambda>c. sc_Err c = None) chunks))
      | _ \<Rightarrow> (case ce_complete env rq of Inl _ \<Rightarrow> [] | Inr resp \<Rightarrow> [cr_Usage resp]))"

lemma chatStreamLoop_spec:
  "chatStreamLoop env t model first chunks s = (out, err, s') \<Longrightarrow>
   out = map (\<lambda>(i, c). streamChunkOf env model (first \<and> i = 0) c) (enumerate 0 (takeWhile (\<lambda>c. sc_Err c = None) chunks)) \<and>
   (err \<longleftrightarrow> (\<exists>c\<in>set chunks. sc_Err c \<noteq> None)) \<and>
   s' = fold (recordChatUsage env t) (List.map_filter sc_Usage (takeWhile (\<lambda>c. sc_Err c = None) chunks)) s"
proof (induction chunks arbitrary: first s out err s')
  case (Cons c cs)
  show ?case
  proof (cases "sc_Err c = None")
    case True
    let ?s1 = "case sc_Usage c of None \<Rightarrow> s | Some u \<Rightarrow> recordChatUsage env t u s"
    obtain out1 err1 s1 where l: "chatStreamLoop env t model False cs ?s1 = (out1, err1, s1)" by (metis surj_pair)
    have sh: "map (\<lambda>(i, c). streamChunkOf env model (first \<and> i = 0) c) (enumerate (Suc 0) xs) =
      map (\<lambda>(i, c). streamChunkOf env model (False \<and> i = 0) c) (enumerate 0 xs)" for xs
      by (simp add: list_eq_iff_nth_eq nth_enumerate_eq)
    have e: "out = streamChunkOf env model first c # out1" "err = err1" "s' = s1"
      using Cons.prems True l by (simp_all add: Let_def)
    note ih = Cons.IH[OF l]
    have "s' = fold (recordChatUsage env t) (List.map_filter sc_Usage (c # takeWhile (\<lambda>c. sc_Err c = None) cs)) s"
      using ih e by (cases "sc_Usage c") (simp_all add: map_filter_simps)
    moreover have "err \<longleftrightarrow> (\<exists>x\<in>set (c # cs). sc_Err x \<noteq> None)" using ih e True by simp
    moreover have "out = map (\<lambda>(i, c). streamChunkOf env model (first \<and> i = 0) c) (enumerate 0 (c # takeWhile (\<lambda>c. sc_Err c = None) cs))"
      using ih e sh by simp
    ultimately show ?thesis using True by simp
  next
    case False
    then show ?thesis using Cons.prems by (auto simp: map_filter_simps)
  qed
qed (auto simp: map_filter_simps)

lemma fold_recordChatUsage:
  "cs_audit (fold (recordChatUsage env t) us s) = cs_audit s" "cs_inFlight (fold (recordChatUsage env t) us s) = cs_inFlight s"
  "cs_capacity (fold (recordChatUsage env t) us s) = cs_capacity s"
  by (induction us arbitrary: s) simp_all

lemma fold_recordChatUsage_rows:
  "cs_budget s = Some tb \<Longrightarrow> ce_store env = Some st \<Longrightarrow>
   cs_rows (fold (recordChatUsage env t) us s) = cs_rows s @ map (\<lambda>u. (t, cu_TotalTokens u)) us"
proof (induction us arbitrary: s tb)
  case (Cons u us)
  from recordChatUsage_rows[OF Cons.prems, of t u] obtain tb' where
    "cs_rows (recordChatUsage env t u s) = cs_rows s @ [(t, cu_TotalTokens u)]" "cs_budget (recordChatUsage env t u s) = Some tb'" by auto
  then show ?case using Cons.IH Cons.prems(2) by simp
qed simp

text \<open>What answering does: nothing, or one call whose messages are those of the client behind system texts; the usage
  reported for the call is recorded, and the audit log only grows.\<close>

definition answered :: "chatEnv \<Rightarrow> authContext \<Rightarrow> openaiRequest \<Rightarrow> chatServer \<Rightarrow> openaiRequest list \<Rightarrow> chatServer \<Rightarrow> bool" where
  "answered env ac rq s calls s' \<longleftrightarrow>
     length calls \<le> 1 \<and>
     (\<forall>c\<in>set calls. \<exists>pre. (\<forall>m\<in>set pre. \<exists>t. m = textMessage ''system'' t) \<and> rq_Messages c = pre @ rq_Messages rq) \<and>
     (\<exists>es. cs_audit s' = map_option (\<lambda>l. l @ es) (cs_audit s)) \<and> cs_inFlight s' = cs_inFlight s \<and> cs_capacity s' = cs_capacity s \<and>
     (\<forall>tb st. cs_budget s = Some tb \<and> ce_store env = Some st \<and> ce_flusher env \<longrightarrow>
        cs_rows s' = cs_rows s @ map (\<lambda>u. (ac_TenantID ac, cu_TotalTokens u)) (concat (map (usageReported env) calls)))"

lemma map_option_append_Nil: "m = map_option (\<lambda>l. l @ []) m"
  by (cases m) simp_all

lemma answered_none: "answered env ac rq s [] s"
  by (auto simp: answered_def intro: exI[of _ "[]"] map_option_append_Nil)

lemma complete_answered:
  assumes "completeChat env ac dec cr rq s = (reply, calls, s')" "\<not> oq_Stream rq"
  shows "answered env ac rq s calls s'"
proof (cases "ce_complete env rq")
  case (Inl e)
  then show ?thesis using assms by (auto simp: completeChat_def answered_def usageReported_def intro: exI[of _ "[]"] map_option_append_Nil)
next
  case (Inr resp)
  let ?s1 = "recordChatUsage env (ac_TenantID ac) (cr_Usage resp) s"
  have c: "calls = [rq]" "s' = (case dec of None \<Rightarrow> ?s1 | Some d \<Rightarrow> auditChat (routeEntry env ac (rq_Model rq) d cr) ?s1)"
    using assms Inr by (simp_all add: completeChat_def Let_def)
  have "\<exists>es. cs_audit s' = map_option (\<lambda>l. l @ es) (cs_audit s)"
  proof (cases dec)
    case None
    then show ?thesis using c by (intro exI[of _ "[]"]) (simp add: option.map_ident)
  qed (use c in \<open>auto simp: auditChat_log\<close>)
  moreover have "cs_inFlight s' = cs_inFlight s \<and> cs_capacity s' = cs_capacity s \<and> cs_rows s' = cs_rows ?s1"
    using c by (simp split: option.split)
  ultimately show ?thesis using c Inr assms(2) recordChatUsage_rows[of s _ env _ "ac_TenantID ac" "cr_Usage resp"]
    by (auto simp: answered_def usageReported_def intro: exI[of _ "[]"])
qed

lemma stream_answered:
  assumes "handleChatCompletionsStream env (ac_TenantID ac) rq s = (reply, calls, s')" "oq_Stream rq"
  shows "answered env ac rq s calls s'"
proof (cases "ce_stream env")
  case None
  then show ?thesis using assms recordChatUsage_rows[of s _ env _ "ac_TenantID ac"] unfolding answered_def
    by (intro conjI exI[of _ "[]"]) (auto simp: handleChatCompletionsStream_def usageReported_def Let_def option.map_ident split: sum.splits)
next
  case (Some start)
  show ?thesis
  proof (cases "start rq")
    case (Inl e)
    then show ?thesis using assms Some
      by (auto simp: handleChatCompletionsStream_def answered_def usageReported_def intro: exI[of _ "[]"] map_option_append_Nil)
  next
    case (Inr chunks)
    obtain out err s1 where l: "chatStreamLoop env (ac_TenantID ac) (rq_Model rq) True chunks s = (out, err, s1)" by (metis surj_pair)
    note sp = chatStreamLoop_spec[OF l]
    have c: "calls = [rq]" "s' = (if ce_flusher env then s1 else s)"
      using assms Some Inr l by (auto simp: handleChatCompletionsStream_def split: if_splits)
    have "cs_audit s' = cs_audit s" "cs_inFlight s' = cs_inFlight s" "cs_capacity s' = cs_capacity s"
      using c sp by (simp_all add: fold_recordChatUsage)
    moreover have "cs_rows s' = cs_rows s @ map (\<lambda>u. (ac_TenantID ac, cu_TotalTokens u)) (usageReported env rq)"
      if "cs_budget s = Some tb" "ce_store env = Some st" "ce_flusher env" for tb st
      using c sp fold_recordChatUsage_rows[OF that(1,2)] that(3) Some Inr assms(2) by (simp add: usageReported_def)
    ultimately show ?thesis using c by (auto simp: answered_def intro: exI[of _ "[]"] map_option_append_Nil)
  qed
qed

lemma routeChat_messages:
  assumes "routeChat env s t v rq = (dec, cr, rq')"
  shows "\<exists>pre. (\<forall>m\<in>set pre. \<exists>t. m = textMessage ''system'' t) \<and> rq_Messages rq' = pre @ rq_Messages rq"
proof (cases "cr")
  case None
  then show ?thesis using assms by (auto simp: routeChat_def Let_def legacyThinking_def split: if_splits option.splits)
next
  case (Some c)
  then obtain cfg d where "rq' = cr_Request (Compose (ce_mulTokens env) (ce_kb env) cfg d rq t)"
    using assms by (auto simp: routeChat_def Let_def split: if_splits option.splits)
  then show ?thesis using Compose_keeps[of "ce_mulTokens env" "ce_kb env" cfg d rq t] by blast
qed

lemma answered_route:
  assumes "answered env ac rq' s calls s'" "\<exists>pre. (\<forall>m\<in>set pre. \<exists>t. m = textMessage ''system'' t) \<and> rq_Messages rq' = pre @ rq_Messages rq"
  shows "answered env ac rq s calls s'"
proof -
  from assms(2) obtain pre where p: "\<forall>m\<in>set pre. \<exists>t. m = textMessage ''system'' t" "rq_Messages rq' = pre @ rq_Messages rq" by auto
  have "\<exists>pre. (\<forall>m\<in>set pre. \<exists>t. m = textMessage ''system'' t) \<and> rq_Messages c = pre @ rq_Messages rq" if c: "c \<in> set calls" for c
  proof -
    from assms(1) c obtain q where "\<forall>m\<in>set q. \<exists>t. m = textMessage ''system'' t" "rq_Messages c = q @ rq_Messages rq'"
      unfolding answered_def by blast
    then show ?thesis using p by (intro exI[of _ "q @ pre"]) auto
  qed
  then show ?thesis using assms(1) unfolding answered_def by blast
qed

lemma answerChat_answered:
  assumes "answerChat env ac v rq s = (reply, calls, s')"
  shows "answered env ac rq s calls s'"
proof -
  obtain dec cr rq' where r: "routeChat env s (ac_TenantID ac) v rq = (dec, cr, rq')" by (metis surj_pair)
  consider "calls = []" "s' = s" | "oq_Stream rq'" "handleChatCompletionsStream env (ac_TenantID ac) rq' s = (reply, calls, s')"
    | "\<not> oq_Stream rq'" "completeChat env ac dec cr rq' s = (reply, calls, s')"
    using assms r by (auto simp: answerChat_def split: option.splits if_splits)
  then have "answered env ac rq' s calls s'"
    by cases (simp_all add: answered_none stream_answered complete_answered)
  then show ?thesis using routeChat_messages[OF r] by (rule answered_route)
qed

lemma chatBody_cases:
  assumes "chatBody env ac body s0 = (reply, calls, s')"
  obtains (refused) ok where "calls = []" "checkChatBudget env (ac_TenantID ac) s0 = (ok, s')"
  | (answered) s rq b refs where "checkChatBudget env (ac_TenantID ac) s0 = (True, s)"
    "inspectChatMessages (ce_sha256hex env) (chatAuditImageHash (ce_getenv env)) 0 (rq_Messages rq) (False, []) = Inr (b, refs)"
    "refs \<noteq> [] \<Longrightarrow> providerName env \<noteq> ''anthropic'' \<and> containsScope (ac_Scopes ac) chatMultimodalScope"
    "answered env ac rq (if refs \<noteq> [] then auditChat (multimodalEntry (ac_TenantID ac) refs (chatAuditImageHash (ce_getenv env))) s else s) calls s'"
proof -
  obtain ok s where k: "checkChatBudget env (ac_TenantID ac) s0 = (ok, s)" by (metis surj_pair)
  consider "calls = []" "s' = s" | rq0 where "ok" "ce_decode env body = Some rq0"
    using assms k by (cases ok; cases "ce_decode env body") (auto simp: chatBody_def)
  then show thesis
  proof cases
    case 1
    then show thesis using k refused by blast
  next
    case (2 rq0)
    define rq where "rq = (if rq_Model rq0 = [] then rq0\<lparr>rq_Model := cs_defaultModel s\<rparr> else rq0)"
    let ?i = "inspectChatMessages (ce_sha256hex env) (chatAuditImageHash (ce_getenv env)) 0 (rq_Messages rq) (False, [])"
    consider "calls = []" "s' = s" | b refs where "?i = Inr (b, refs)" "refs \<noteq> [] \<Longrightarrow> providerName env \<noteq> ''anthropic'' \<and> containsScope (ac_Scopes ac) chatMultimodalScope"
      "answerChat env ac (refs \<noteq> []) rq (if refs \<noteq> [] then auditChat (multimodalEntry (ac_TenantID ac) refs (chatAuditImageHash (ce_getenv env))) s else s) = (reply, calls, s')"
    proof (cases ?i)
      case (Inl e)
      then have "calls = [] \<and> s' = s" using assms k 2 by (simp add: chatBody_def Let_def flip: rq_def)
      then show thesis using that(1) by blast
    next
      case (Inr br)
      obtain b refs where br: "br = (b, refs)" by (cases br)
      show thesis
      proof (cases "refs \<noteq> [] \<and> (providerName env = ''anthropic'' \<or> \<not> containsScope (ac_Scopes ac) chatMultimodalScope)")
        case True
        then have "calls = [] \<and> s' = s" using assms k 2 Inr br by (auto simp: chatBody_def Let_def simp flip: rq_def split: if_splits)
        then show thesis using that(1) by blast
      next
        case False
        then have "answerChat env ac (refs \<noteq> []) rq (if refs \<noteq> [] then auditChat (multimodalEntry (ac_TenantID ac) refs (chatAuditImageHash (ce_getenv env))) s else s) = (reply, calls, s')"
          using assms k 2 Inr br by (auto simp: chatBody_def Let_def simp flip: rq_def)
        then show thesis using that(2)[of b refs] Inr br False by blast
      qed
    qed
    then show thesis
    proof cases
      case 1
      then show thesis using k refused by blast
    next
      case (2 b refs)
      then show thesis using answered[of s rq b refs] k \<open>ok\<close> answerChat_answered[OF 2(3)] by simp
    qed
  qed
qed

lemma handle_body:
  assumes "handleChatCompletions env meth ac body s = (reply, calls, s')"
  shows "calls = [] \<and> s' = s \<or> (\<exists>s1 s2. ac_TenantID ac \<noteq> [] \<and> acquireSlot s = Some s1 \<and> chatBody env ac body s1 = (reply, calls, s2) \<and> s' = releaseSlot s2)"
  using assms by (auto simp: handleChatCompletions_def Let_def split: if_splits option.splits prod.splits)

lemma slot_keeps:
  "acquireSlot s = Some s1 \<Longrightarrow> cs_audit s1 = cs_audit s \<and> cs_budget s1 = cs_budget s \<and> cs_rows s1 = cs_rows s \<and> cs_capacity s1 = cs_capacity s"
  "cs_audit (releaseSlot s) = cs_audit s" "cs_rows (releaseSlot s) = cs_rows s" "cs_capacity (releaseSlot s) = cs_capacity s"
  by (auto simp: acquireSlot_def releaseSlot_def split: option.splits if_splits)

lemma system_prefix_images:
  "(\<forall>m\<in>set pre. \<exists>t. m = textMessage ''system'' t) \<Longrightarrow> (\<forall>m\<in>set pre. messageValid m) \<and> concat (map messageImages pre) = []"
  by auto

text \<open>C30. Whatever the chat endpoint sends to the model provider, every content is text or a list of texts and at most
  eight http or https images. When a request carries images the caller holds the multimodal scope, the provider is not
  Anthropic, and the audit log, when there is one, has the entry that names exactly these images.\<close>

theorem chat_vision_gate:
  assumes "handleChatCompletions env meth ac body s = (reply, calls, s')" "rq \<in> set calls"
  shows "(\<forall>m\<in>set (rq_Messages rq). messageValid m) \<and>
    (\<forall>refs. refs = map (\<lambda>u. ImageRefForAudit (ce_sha256hex env) u (chatAuditImageHash (ce_getenv env))) (concat (map messageImages (rq_Messages rq))) \<longrightarrow>
       refs \<noteq> [] \<longrightarrow>
       containsScope (ac_Scopes ac) chatMultimodalScope \<and> providerName env \<noteq> ''anthropic'' \<and>
       (\<exists>es. cs_audit s' = map_option (\<lambda>l. l @ multimodalEntry (ac_TenantID ac) refs (chatAuditImageHash (ce_getenv env)) # es) (cs_audit s)))"
proof -
  obtain s1 s2 where b: "acquireSlot s = Some s1" "chatBody env ac body s1 = (reply, calls, s2)" "s' = releaseSlot s2"
    using handle_body[OF assms(1)] assms(2) by auto
  from b(2) show ?thesis
  proof (cases rule: chatBody_cases)
    case (answered s3 q bb refs)
    note insp = inspect_spec[OF answered(2)]
    obtain pre where pre: "\<forall>m\<in>set pre. \<exists>t. m = textMessage ''system'' t" "rq_Messages rq = pre @ rq_Messages q"
      using answered(4) assms(2) unfolding answered_def by blast
    have refs: "refs = map (\<lambda>u. ImageRefForAudit (ce_sha256hex env) u (chatAuditImageHash (ce_getenv env))) (concat (map messageImages (rq_Messages rq)))"
      using insp pre system_prefix_images[OF pre(1)] by simp
    obtain es where es: "cs_audit s2 = map_option (\<lambda>l. l @ es) (cs_audit (if refs \<noteq> [] then auditChat (multimodalEntry (ac_TenantID ac) refs (chatAuditImageHash (ce_getenv env))) s3 else s3))"
      using answered(4) unfolding answered_def by blast
    have "cs_audit s3 = cs_audit s" using checkChatBudget_keeps[OF answered(1)] slot_keeps(1)[OF b(1)] by simp
    then have "cs_audit s' = map_option (\<lambda>l. l @ multimodalEntry (ac_TenantID ac) refs (chatAuditImageHash (ce_getenv env)) # es) (cs_audit s)" if "refs \<noteq> []"
      using es that by (simp add: b(3) slot_keeps auditChat_log option.map_comp comp_def)
    moreover have "\<forall>m\<in>set (rq_Messages rq). messageValid m" using insp pre system_prefix_images[OF pre(1)] by auto
    ultimately show ?thesis using answered(3) by (auto simp flip: refs)
  qed (use assms(2) in simp)
qed

text \<open>The budget: a call is made only after the check of the hourly budget passed, at most one per request, and the rows
  given to the persistent store are exactly the usage the provider reported.\<close>

theorem chat_budget_exact:
  assumes "handleChatCompletions env meth ac body s = (reply, calls, s')"
    and "cs_budget s = Some tb" "ce_store env = Some st" "ce_flusher env"
  shows "length calls \<le> 1 \<and> (calls = [] \<or> fst (CheckBudget (Some st) (ce_checkAt env) (ac_TenantID ac) tb)) \<and>
    cs_rows s' = cs_rows s @ map (\<lambda>u. (ac_TenantID ac, cu_TotalTokens u)) (concat (map (usageReported env) calls))"
proof -
  consider "calls = []" "s' = s" | s1 s2 where "acquireSlot s = Some s1" "chatBody env ac body s1 = (reply, calls, s2)" "s' = releaseSlot s2"
    using handle_body[OF assms(1)] by blast
  then show ?thesis
  proof cases
    case (2 s1 s2)
    note k1 = slot_keeps(1)[OF 2(1)]
    from 2(2) show ?thesis
    proof (cases rule: chatBody_cases)
      case (refused ok)
      then show ?thesis using checkChatBudget_keeps[OF refused(2)] k1 2(3) by (simp add: slot_keeps)
    next
      case (answered s3 q bb refs)
      have k3: "cs_rows s3 = cs_rows s" "fst (CheckBudget (Some st) (ce_checkAt env) (ac_TenantID ac) tb)" "\<exists>tb'. cs_budget s3 = Some tb'"
        using checkChatBudget_keeps[OF answered(1)] k1 assms(2,3) by auto
      let ?s4 = "if refs \<noteq> [] then auditChat (multimodalEntry (ac_TenantID ac) refs (chatAuditImageHash (ce_getenv env))) s3 else s3"
      have "cs_rows ?s4 = cs_rows s" "\<exists>tb'. cs_budget ?s4 = Some tb'" using k3 by simp_all
      then show ?thesis using answered(4) assms(3,4) k3(2) 2(3) unfolding answered_def by (auto simp: slot_keeps)
    qed
  qed simp
qed

text \<open>A streaming client receives the chunks up to the first error, one line each and in order, the role on the first
  line only, and \<open>[DONE]\<close> exactly when there was no error.\<close>

lemma chat_stream_exact:
  assumes "ce_stream env = Some start" "start rq = Inr chunks" "ce_flusher env"
  shows "fst (handleChatCompletionsStream env t rq s) =
    CStream (map (\<lambda>(i, c). streamChunkOf env (rq_Model rq) (i = 0) c) (enumerate 0 (takeWhile (\<lambda>c. sc_Err c = None) chunks)))
      (\<forall>c\<in>set chunks. sc_Err c = None)"
proof -
  obtain out err s1 where l: "chatStreamLoop env t (rq_Model rq) True chunks s = (out, err, s1)" by (metis surj_pair)
  show ?thesis using assms l chatStreamLoop_spec[OF l] by (simp add: handleChatCompletionsStream_def)
qed

text \<open>The tool calls of a streamed answer are not passed on: the lines are the same whatever calls the chunks carry.\<close>

lemma stream_drops_tool_calls: "streamChunkOf env model first (sc\<lparr>sc_ToolCalls := tcs\<rparr>) = streamChunkOf env model first sc"
  by (simp add: streamChunkOf_def)

text \<open>Two choices that the provider lists out of order get the same index.\<close>

lemma choice_index_collision:
  "map oc_Index (ocr_Choices (chatResponseOf env (resp\<lparr>cr_Choices := [c\<lparr>cc_Index := 1\<rparr>, c\<lparr>cc_Index := 0\<rparr>]\<rparr>))) = [1, 1]"
  by (simp add: chatResponseOf_def choiceIndex_def)

text \<open>The requests in flight never exceed the capacity, and every slot is given back: the counter is the number of
  requests that entered and did not finish.\<close>

lemma chatBody_slots:
  "cs_inFlight (snd (snd (chatBody env ac body s))) = cs_inFlight s \<and> cs_capacity (snd (snd (chatBody env ac body s))) = cs_capacity s"
proof -
  obtain reply calls s' where b: "chatBody env ac body s = (reply, calls, s')" by (metis surj_pair)
  then show ?thesis
  proof (cases rule: chatBody_cases)
    case (refused ok)
    then show ?thesis using b checkChatBudget_keeps[OF refused(2)] by simp
  next
    case (answered s3 q bb refs)
    then show ?thesis using b checkChatBudget_keeps[OF answered(1)] unfolding answered_def by auto
  qed
qed

lemma chat_slots_step:
  assumes "cs_capacity s = Some cap" "cs_inFlight s = n" "n \<le> cap" "chatStep e (s, n) = (s', n')"
  shows "cs_capacity s' = Some cap \<and> cs_inFlight s' = n' \<and> n' \<le> cap"
  using assms chatBody_slots by (cases e) (auto simp: acquireSlot_def releaseSlot_def split: if_splits option.splits)

lemma chat_in_flight_bounded:
  "cs_capacity s = Some cap \<Longrightarrow> cs_inFlight s = n \<Longrightarrow> n \<le> cap \<Longrightarrow> fold chatStep es (s, n) = (s', n') \<Longrightarrow>
   cs_inFlight s' = n' \<and> n' \<le> cap"
proof (induction es arbitrary: s n)
  case (Cons e es)
  obtain s1 n1 where st: "chatStep e (s, n) = (s1, n1)" by (metis surj_pair)
  show ?case using chat_slots_step[OF Cons.prems(1-3) st] Cons.IH[of s1 n1] Cons.prems(4) st by simp
qed simp

text \<open>Embeddings and models are sent upstream with the key of the server; the handlers look at no caller, tenant or
  budget. The embeddings URL appends /v1 to a base URL that already ends with it, where chat appends /chat/completions.\<close>

lemma embeddings_use_server_key:
  assumes "mc_BaseURL (envModelConfig env) = ''http://m/v1''" "mc_APIKey (envModelConfig env) = key" "key \<noteq> []"
    and "\<And>rq. send rq = Inr (200, ans)"
  shows "\<exists>rq. handleEmbeddings env send ''POST'' (Some body) = (CProxied 200 ans, [rq]) \<and>
    px_Authorization rq = ''Bearer '' @ key \<and> px_URL rq = ''http://m/v1/v1/embeddings''"
  using assms by (simp add: handleEmbeddings_def Let_def sentRequests_def proxyAuth_def trimTrailingSlashes_def)

lemma models_always_answer:
  "(\<forall>e r. fst (handleModels env send ''GET'' s) \<noteq> CError e r) \<and> length (snd (handleModels env send m s)) \<le> 1"
  by (auto simp: handleModels_def Let_def sentRequests_def split: sum.split proxyFailure.split)

definition visionMessage :: chatMessage where
  "visionMessage = \<lparr>cm_Role = ''user'', cm_Content = JArr [JObj [(''type'', JStr ''image_url''), (''image_url'', JObj [(''url'', JStr ''https://i'')])]],
     cm_ToolCalls = [], cm_ToolCallID = [], cm_Name = []\<rparr>"

definition visionRequest :: openaiRequest where
  "visionRequest = \<lparr>rq_Model = ''m'', rq_Messages = [visionMessage], rq_Tools = [], oq_MaxTokens = 0, oq_Temperature = None, oq_Stream = False, oq_Extra = None\<rparr>"

definition visionResponse :: chatResponse where
  "visionResponse = \<lparr>cr_Choices = [], cr_Usage = \<lparr>cu_PromptTokens = 2, cu_CompletionTokens = 3, cu_TotalTokens = 5\<rparr>, cr_Model = ''m''\<rparr>"

definition visionEnv :: chatEnv where
  "visionEnv = \<lparr>ce_getenv = (\<lambda>_. []), ce_readSecret = (\<lambda>_. None), ce_parseDuration = (\<lambda>_. None), ce_sha256hex = (\<lambda>u. u),
     ce_decode = (\<lambda>_. Some visionRequest), ce_classifier = (\<lambda>_ _. NoReply []), ce_kb = None, ce_mulTokens = (\<lambda>n _. n),
     ce_complete = (\<lambda>_. Inr visionResponse), ce_stream = None, ce_flusher = True, ce_store = Some (\<lambda>_ _. Inr 0), ce_checkAt = 0, ce_recordAt = 0,
     ce_newID = ''i'', ce_unix = 0, ce_correlation = [], ce_requestID = [], ce_contentMsg = (\<lambda>_. []), ce_classifyMs = 0, ce_kbMs = 0\<rparr>"

definition visionServer :: chatServer where
  "visionServer = \<lparr>cs_inFlight = 0, cs_capacity = Some 1, cs_budget = Some (NewTokenBudget 100), cs_rows = [], cs_audit = Some [], cs_defaultModel = ''m'',
     cs_modelBaseURL = [], cs_router = \<lparr>rc_Enabled = True, rc_ClassifierURL = ''u''\<rparr>, cs_composer = None\<rparr>"

definition visionCaller :: authContext where
  "visionCaller = emptyAuthContext\<lparr>ac_TenantID := ''t'', ac_Scopes := [''chat:multimodal'']\<rparr>"

lemma vision_calls: "fst (snd (handleChatCompletions visionEnv ''POST'' visionCaller [] visionServer)) = [visionRequest]"
  by code_simp

theorem chat_vision_gate_witness:
  "concat (map messageImages (rq_Messages visionRequest)) = [''https://i''] \<and> containsScope (ac_Scopes visionCaller) chatMultimodalScope"
proof -
  obtain reply calls s' where h: "handleChatCompletions visionEnv ''POST'' visionCaller [] visionServer = (reply, calls, s')" by (metis surj_pair)
  have "visionRequest \<in> set calls" using vision_calls h by simp
  moreover have "concat (map messageImages (rq_Messages visionRequest)) = [''https://i'']" by code_simp
  ultimately show ?thesis using chat_vision_gate[OF h, of visionRequest] by auto
qed

theorem chat_budget_exact_witness:
  "\<exists>s'. snd (snd (handleChatCompletions visionEnv ''POST'' visionCaller [] visionServer)) = s' \<and> cs_rows s' = [(''t'', 5)]"
proof -
  obtain reply calls s' where h: "handleChatCompletions visionEnv ''POST'' visionCaller [] visionServer = (reply, calls, s')" by (metis surj_pair)
  have "calls = [visionRequest]" using vision_calls h by simp
  moreover have "usageReported visionEnv visionRequest = [cr_Usage visionResponse]" by code_simp
  ultimately show ?thesis
    using chat_budget_exact[OF h, of "NewTokenBudget 100" "\<lambda>_ _. Inr 0"] h
    by (simp add: visionServer_def visionEnv_def visionCaller_def visionResponse_def emptyAuthContext_def)
qed

end
