(* ===== verification/Model_Policy.thy ===== *)
theory Model_Policy
  imports Audit_Log Run_Executor
begin

text \<open>
  The model-policy service (modelpolicy/policy.go, usage.go, server.go and the registry of providers.go): which model a
  tenant may invoke, its token use by hour and day, and the handlers.

  \<^item> The formats of the clock (\<open>fmtHour\<close>, \<open>fmtDay\<close>) and the order in which Go visits a map are arguments.
  \<^item> Shown: what an answered invocation has passed; that the meter adds exactly the reported tokens to one tenant and
    stays within its sizes; and where the enforcement has gaps.
\<close>

subsection \<open>Policy\<close>

record modelInvokeRequest =
  mi_Operation :: string
  mi_ModelID :: string
  mi_Input :: "(string, json) gomap option"
  mi_Options :: "(string, json) gomap"

record policyCheckRequest =
  pcr_Action :: string
  pcr_Resource :: "(string, json) gomap"

definition policyScope :: "string list \<Rightarrow> string \<Rightarrow> bool" where
  "policyScope scopes target = list_ex (\<lambda>s. EqualFold (TrimSpace s) target) scopes"

definition denyReasons :: "modelInvokeRequest \<Rightarrow> string list" where
  "denyReasons rq =
     (if jobj (mi_Options rq) ''deny'' = JBool True then [''option_deny=true''] else []) @
     (if EqualFold (mi_Operation rq) ''deny'' \<or> EqualFold (mi_Operation rq) ''block'' then [''operation_blocked''] else [])"

definition containsModel :: "string list \<Rightarrow> string \<Rightarrow> bool" where
  "containsModel xs modelID = list_ex (\<lambda>m. EqualFold m modelID) xs"

definition policyEvaluate :: "string \<Rightarrow> authContext \<Rightarrow> modelInvokeRequest \<Rightarrow> tenantPolicy option \<Rightarrow> string \<times> string list" where
  "policyEvaluate tenantID ac rq pol =
     (if denyReasons rq \<noteq> [] then (''deny'', denyReasons rq)
      else if ac_Scopes ac \<noteq> [] \<and> \<not> policyScope (ac_Scopes ac) ''models:invoke'' then (''deny'', [''scope_missing:models:invoke''])
      else if tenantID = [] then (''deny'', [''tenant_missing''])
      else
        (case pol of
           None \<Rightarrow> (''allow'', [''policy_allow''])
         | Some p \<Rightarrow>
             if tpo_DeniedModels p \<noteq> [] \<and> containsModel (tpo_DeniedModels p) (mi_ModelID rq) then (''deny'', [''model_denied:'' @ mi_ModelID rq])
             else if tpo_AllowedModels p \<noteq> [] \<and> \<not> containsModel (tpo_AllowedModels p) (mi_ModelID rq)
             then (''deny'', [''model_not_allowed:'' @ mi_ModelID rq])
             else (''allow'', [''policy_allow''])))"

definition EvaluatePolicyCheck :: "string \<Rightarrow> authContext \<Rightarrow> policyCheckRequest \<Rightarrow> string \<times> string list" where
  "EvaluatePolicyCheck tenantID ac rq =
     (if tenantID = [] then (''deny'', [''tenant_missing''])
      else if EqualFold (pcr_Action rq) ''deny'' then (''deny'', [''explicit_deny_action''])
      else if ac_Scopes ac \<noteq> [] \<and> \<not> policyScope (ac_Scopes ac) ''policy:check'' then (''deny'', [''scope_missing:policy:check''])
      else (''allow'', [''policy_allow'']))"

subsection \<open>Usage meter\<close>

definition maxHourlyBuckets :: nat where "maxHourlyBuckets = 5000"
definition maxDailyBuckets :: nat where "maxDailyBuckets = 5000"
definition maxTenants :: nat where "maxTenants = 10000"
definition hourlyTTL :: duration where "hourlyTTL = 48 * 3600 * 1000000000"
definition dailyTTL :: duration where "dailyTTL = 90 * 24 * 3600 * 1000000000"
definition usageSweepEvery :: nat where "usageSweepEvery = 100"

record usageMeter =
  um_perTenant :: "(string, (string, int) gomap) gomap"
  um_hourly :: "(string, int) gomap"
  um_daily :: "(string, int) gomap"
  um_recordCount :: nat

definition newUsageMeter :: usageMeter where
  "newUsageMeter = \<lparr>um_perTenant = [], um_hourly = [], um_daily = [], um_recordCount = 0\<rparr>"

definition toInt :: "json \<Rightarrow> int option" where
  "toInt v = (case v of JNum r \<Rightarrow> Some (if r \<ge> 0 then floor r else ceiling r) | _ \<Rightarrow> None)"

record usageClock =
  uc_fmtHour :: "time \<Rightarrow> string"
  uc_fmtDay :: "time \<Rightarrow> string"
  uc_order :: "string list \<Rightarrow> string list"

definition hourKey :: "usageClock \<Rightarrow> time \<Rightarrow> string \<Rightarrow> string" where
  "hourKey uc now tenantID = tenantID @ '':'' @ uc_fmtHour uc now"

definition dayKey :: "usageClock \<Rightarrow> time \<Rightarrow> string \<Rightarrow> string" where
  "dayKey uc now tenantID = tenantID @ '':'' @ uc_fmtDay uc now"

text \<open>Buckets whose time, the last n bytes of the key, is before the cutoff.\<close>

definition expiredKey :: "nat \<Rightarrow> string \<Rightarrow> string \<Rightarrow> bool" where
  "expiredKey n cutoff k \<longleftrightarrow> length k \<ge> n \<and> drop (length k - n) k < cutoff"

definition usageSweep :: "usageClock \<Rightarrow> time \<Rightarrow> usageMeter \<Rightarrow> usageMeter" where
  "usageSweep uc now m =
     m\<lparr>um_hourly := mfilter (\<lambda>k _. \<not> expiredKey 13 (uc_fmtHour uc (now - hourlyTTL)) k) (um_hourly m),
       um_daily := mfilter (\<lambda>k _. \<not> expiredKey 10 (uc_fmtDay uc (now - dailyTTL)) k) (um_daily m)\<rparr>"

text \<open>Eviction deletes keys, in the order the map is visited, until the size fits.\<close>

fun evictMapLocked :: "nat \<Rightarrow> string list \<Rightarrow> (string, 'v) gomap \<Rightarrow> (string, 'v) gomap" where
  "evictMapLocked lim0 [] m = m"
| "evictMapLocked lim0 (k # ks) m = (let m' = mdel k m in if length m' \<le> lim0 then m' else evictMapLocked lim0 ks m')"

definition capMap :: "usageClock \<Rightarrow> nat \<Rightarrow> (string, 'v) gomap \<Rightarrow> (string, 'v) gomap" where
  "capMap uc lim0 m = (if length m > lim0 then evictMapLocked lim0 (uc_order uc (map fst m)) m else m)"

definition tallyUsage :: "(string, json) gomap \<Rightarrow> (string, int) gomap \<Rightarrow> (string, int) gomap" where
  "tallyUsage usage dst = fold (\<lambda>(k, v) d. case toInt v of None \<Rightarrow> d | Some i \<Rightarrow> mput k (zget 0 d k + i) d) usage dst"

definition usageTotal :: "(string, json) gomap \<Rightarrow> int" where
  "usageTotal usage = (case toInt (jobj usage ''total_tokens'') of None \<Rightarrow> 0 | Some i \<Rightarrow> i)"

definition usageRecord :: "usageClock \<Rightarrow> time \<Rightarrow> string \<Rightarrow> (string, json) gomap option \<Rightarrow> usageMeter \<Rightarrow> usageMeter" where
  "usageRecord uc now tenantID usage0 m0 =
     (case usage0 of None \<Rightarrow> m0
      | Some usage \<Rightarrow>
          if tenantID = [] then m0
          else
            (let m1 = m0\<lparr>um_recordCount := um_recordCount m0 + 1\<rparr>;
                 m2 = (if um_recordCount m1 mod usageSweepEvery = 0 then usageSweep uc now m1 else m1);
                 dst = zget [] (um_perTenant m2) tenantID;
                 m3 = m2\<lparr>um_perTenant := mput tenantID (tallyUsage usage dst) (um_perTenant m2)\<rparr>;
                 t = usageTotal usage; hk = hourKey uc now tenantID; dk = dayKey uc now tenantID;
                 m4 = (if t > 0
                       then m3\<lparr>um_hourly := mput hk (zget 0 (um_hourly m3) hk + t) (um_hourly m3),
                               um_daily := mput dk (zget 0 (um_daily m3) dk + t) (um_daily m3)\<rparr> else m3) in
             m4\<lparr>um_perTenant := capMap uc maxTenants (um_perTenant m4),
                um_hourly := capMap uc maxHourlyBuckets (um_hourly m4),
                um_daily := capMap uc maxDailyBuckets (um_daily m4)\<rparr>))"

definition usageCheckBudget :: "usageClock \<Rightarrow> time \<Rightarrow> string \<Rightarrow> (int \<times> int) option \<Rightarrow> usageMeter \<Rightarrow> bool \<times> string" where
  "usageCheckBudget uc now tenantID budget m =
     (case budget of None \<Rightarrow> (True, [])
      | Some (perHour, perDay) \<Rightarrow>
          if perHour \<le> 0 \<and> perDay \<le> 0 then (True, [])
          else if perHour > 0 \<and> zget 0 (um_hourly m) (hourKey uc now tenantID) \<ge> perHour then (False, ''hourly_token_budget_exceeded'')
          else if perDay > 0 \<and> zget 0 (um_daily m) (dayKey uc now tenantID) \<ge> perDay then (False, ''daily_token_budget_exceeded'')
          else (True, []))"

definition GetUsage :: "usageClock \<Rightarrow> time \<Rightarrow> string \<Rightarrow> usageMeter \<Rightarrow> int \<times> int" where
  "GetUsage uc now tenantID m = (zget 0 (um_hourly m) (hourKey uc now tenantID), zget 0 (um_daily m) (dayKey uc now tenantID))"

subsection \<open>Registry and stub\<close>

record modelInfo =
  mdl_ModelID :: string
  mdl_Provider :: string
  mdl_DisplayName :: string
  mdl_Capabilities :: "(string, json) gomap"

type_synonym invokeOutcome = "string + ((string, json) gomap \<times> (string, json) gomap)"

record providerEntry =
  pe_model :: modelInfo
  pe_impl :: "string \<Rightarrow> modelInvokeRequest \<Rightarrow> invokeOutcome"
  pe_defaults :: bool

definition tokenEstimateFromInput :: "(string, json) gomap option \<Rightarrow> int" where
  "tokenEstimateFromInput inp =
     (case inp of None \<Rightarrow> 8
      | Some m \<Rightarrow> (case jobj m ''text'' of JStr t \<Rightarrow> (if EstimateTokens t = 0 then 8 else EstimateTokens t) | _ \<Rightarrow> 12))"

definition echoInput :: "(string, json) gomap option \<Rightarrow> json" where
  "echoInput inp = (case inp of None \<Rightarrow> JNull | Some m \<Rightarrow> JObj m)"

definition stubInvoke :: "string \<Rightarrow> modelInvokeRequest \<Rightarrow> invokeOutcome" where
  "stubInvoke now rq =
     (let text = (case mi_Input rq of None \<Rightarrow> ''stub response''
                  | Some m \<Rightarrow> (case jobj m ''text'' of JStr t \<Rightarrow> (if TrimSpace t \<noteq> [] then ''stub: '' @ t else ''stub response'') | _ \<Rightarrow> ''stub response''));
          n = tokenEstimateFromInput (mi_Input rq) in
      Inr ([(''type'', JStr ''text''), (''text'', JStr text), (''echo'', echoInput (mi_Input rq)), (''ts'', JStr now)],
           [(''prompt_tokens'', jint n), (''completion_tokens'', jint 32), (''total_tokens'', jint (n + 32)), (''model_id'', JStr (mi_ModelID rq)),
            (''provider'', JStr ''stub''), (''timestamp'', JStr now)]))"

definition registerModel :: "modelInfo \<Rightarrow> (string \<Rightarrow> modelInvokeRequest \<Rightarrow> invokeOutcome) \<Rightarrow> bool \<Rightarrow> (string, providerEntry) gomap \<Rightarrow> (string, providerEntry) gomap" where
  "registerModel md impl dflt r = mput (mdl_ModelID md) \<lparr>pe_model = md, pe_impl = impl, pe_defaults = dflt\<rparr> r"

definition newModelRegistry :: "(string, providerEntry) gomap" where
  "newModelRegistry =
     registerModel \<lparr>mdl_ModelID = ''local-stub-llm'', mdl_Provider = ''stub'', mdl_DisplayName = ''Local Stub LLM'',
       mdl_Capabilities = [(''chat'', JBool True)]\<rparr> stubInvoke True []"

definition registryModels :: "(string, providerEntry) gomap \<Rightarrow> modelInfo list" where
  "registryModels r = map (pe_model \<circ> snd) r"

definition registryResolve :: "string \<Rightarrow> (string, providerEntry) gomap \<Rightarrow> providerEntry option" where
  "registryResolve modelID r =
     (case mget r modelID of Some e \<Rightarrow> Some e | None \<Rightarrow> find pe_defaults (map snd r))"

subsection \<open>The service\<close>

record policyServer =
  mp_limiter :: "memoryBackend limiter"
  mp_audit :: "logEntry list"
  mp_providers :: "(string, providerEntry) gomap"
  mp_usage :: usageMeter
  mp_tenants :: tenantStore

record policyEnv =
  pv_getenv :: "string \<Rightarrow> string"
  pv_clock :: time
  pv_now :: string
  pv_uc :: usageClock
  pv_correlation :: string
  pv_requestID :: string

definition newPolicyServer :: "(string \<Rightarrow> string) \<Rightarrow> string \<Rightarrow> policyServer" where
  "newPolicyServer getenv now =
     \<lparr>mp_limiter = NewFromEnv getenv ''AGENTOS_QUOTA_INVOKE_QPS'' ''AGENTOS_QUOTA_UNUSED_CONCURRENT'' 20 999999, mp_audit = [], mp_providers = newModelRegistry, mp_usage = newUsageMeter,
      mp_tenants = (if DefaultTenant getenv \<noteq> [] then EnsureDefault now (DefaultTenant getenv) NewTenantStore else NewTenantStore)\<rparr>"

definition auditPolicy :: "policyEnv \<Rightarrow> authContext \<Rightarrow> string \<Rightarrow> string \<Rightarrow> string \<Rightarrow> string \<Rightarrow> (string, json) gomap \<Rightarrow> policyServer \<Rightarrow> policyServer" where
  "auditPolicy env ac tenantID action resource outcome meta s =
     s\<lparr>mp_audit := mp_audit s @ [\<lparr>le_Time = [], le_TenantID = tenantID, le_PrincipalID = ac_PrincipalID ac, le_Action = action, le_Resource = resource,
        le_Outcome = outcome, le_CorrelationID = pv_correlation env, le_RequestID = pv_requestID env, le_Meta = Some meta\<rparr>]\<rparr>"

record invokeResponse =
  ir_Output :: "(string, json) gomap"
  ir_Usage :: "(string, json) gomap"
  ir_CorrelationID :: string

fun joinReasons :: "string list \<Rightarrow> string" where
  "joinReasons [] = []"
| "joinReasons [x] = x"
| "joinReasons (x # xs) = x @ ''; '' @ joinReasons xs"

definition tenantPolicyOf :: "string \<Rightarrow> policyServer \<Rightarrow> tenantPolicy option" where
  "tenantPolicyOf tenantID s = (case Tenant_Get tenantID (mp_tenants s) of None \<Rightarrow> None | Some t \<Rightarrow> tn_Policy t)"

definition budgetOf :: "tenantPolicy option \<Rightarrow> (int \<times> int) option" where
  "budgetOf pol = (case pol of None \<Rightarrow> None | Some p \<Rightarrow> tpo_TokenBudget p)"

definition invokeResolved :: "policyEnv \<Rightarrow> authContext \<Rightarrow> string \<Rightarrow> modelInvokeRequest \<Rightarrow> policyServer \<Rightarrow> invokeResponse resp \<times> policyServer" where
  "invokeResolved env ac tenantID rq s =
     (case registryResolve (mi_ModelID rq) (mp_providers s) of
        None \<Rightarrow> (RErr (httpxError 404 ''model_not_found'' ''model not found'' False), s)
      | Some e \<Rightarrow>
          (case pe_impl e (pv_now env) rq of
             Inl err \<Rightarrow> (RErr (httpxError 502 ''provider_error'' err True), s)
           | Inr (output, usage) \<Rightarrow>
               (ROk 200 \<lparr>ir_Output = output, ir_Usage = usage, ir_CorrelationID = pv_correlation env\<rparr>,
                auditPolicy env ac tenantID ''models.invoke'' (''model/'' @ mi_ModelID rq) ''allowed''
                  [(''operation'', JStr (mi_Operation rq)), (''model_id'', JStr (mdl_ModelID (pe_model e))), (''provider'', JStr (mdl_Provider (pe_model e)))]
                  (s\<lparr>mp_usage := usageRecord (pv_uc env) (pv_clock env) tenantID (Some usage) (mp_usage s)\<rparr>))))"

definition denyInvoke :: "policyEnv \<Rightarrow> authContext \<Rightarrow> string \<Rightarrow> modelInvokeRequest \<Rightarrow> string list \<Rightarrow> string \<Rightarrow> policyServer \<Rightarrow> invokeResponse resp \<times> policyServer" where
  "denyInvoke env ac tenantID rq reasons msg s =
     (RErr (httpxError 403 ''policy_blocked'' msg False),
      auditPolicy env ac tenantID ''models.invoke'' (''model/'' @ mi_ModelID rq) ''denied'' [(''policy_reasons'', JArr (map JStr reasons))] s)"

definition handleInvoke ::
  "policyEnv \<Rightarrow> string \<Rightarrow> authContext \<Rightarrow> modelInvokeRequest option \<Rightarrow> policyServer \<Rightarrow> invokeResponse resp \<times> policyServer" where
  "handleInvoke env meth ac decoded s0 =
     (if meth \<noteq> ''POST'' then (RErr (httpxError 405 ''method_not_allowed'' ''method not allowed'' False), s0)
      else case ResolveTenantHTTP (pv_getenv env) ac of
        Inl e \<Rightarrow> (RErr e, s0)
      | Inr tenantID \<Rightarrow>
          (case Limiter_AllowQPS AllowQPS (pv_clock env) tenantID (mp_limiter s0) of
             (False, l) \<Rightarrow>
               (RErr (httpxError 429 ''quota_exceeded'' ''invoke QPS exceeded'' True),
                auditPolicy env ac tenantID ''models.invoke'' ''model-policy'' ''denied'' [(''reason'', JStr ''qps_exceeded'')] (s0\<lparr>mp_limiter := l\<rparr>))
           | (True, l) \<Rightarrow>
               (let s = s0\<lparr>mp_limiter := l\<rparr> in
                case decoded of
                  None \<Rightarrow> (RErr (httpxError 400 ''invalid_json'' ''invalid json body'' False), s)
                | Some rq \<Rightarrow>
                    (let pol = tenantPolicyOf tenantID s; (decision, reasons) = policyEvaluate tenantID ac rq pol;
                         (allowed, reason) = usageCheckBudget (pv_uc env) (pv_clock env) tenantID (budgetOf pol) (mp_usage s) in
                     if decision \<noteq> ''allow'' then denyInvoke env ac tenantID rq reasons (joinReasons reasons) s
                     else if \<not> allowed then denyInvoke env ac tenantID rq [reason] reason s
                     else invokeResolved env ac tenantID rq s))))"

definition handlePolicyCheck ::
  "policyEnv \<Rightarrow> string \<Rightarrow> authContext \<Rightarrow> policyCheckRequest option \<Rightarrow> policyServer \<Rightarrow> (string \<times> string list) resp \<times> policyServer" where
  "handlePolicyCheck env meth ac decoded s =
     (if meth \<noteq> ''POST'' then (RErr (httpxError 405 ''method_not_allowed'' ''method not allowed'' False), s)
      else case ResolveTenantHTTP (pv_getenv env) ac of
        Inl e \<Rightarrow> (RErr e, s)
      | Inr tenantID \<Rightarrow>
          (case decoded of
             None \<Rightarrow> (RErr (httpxError 400 ''invalid_json'' ''invalid json body'' False), s)
           | Some rq \<Rightarrow>
               (let d = EvaluatePolicyCheck tenantID ac rq in
                (ROk 200 d, auditPolicy env ac tenantID ''policy.check'' ''policy'' (fst d)
                   [(''action'', JStr (pcr_Action rq)), (''resource'', JObj (pcr_Resource rq))] s))))"

definition policyModels :: "string \<Rightarrow> policyServer \<Rightarrow> modelInfo list resp" where
  "policyModels meth s =
     (if meth \<noteq> ''GET'' then RErr (httpxError 405 ''method_not_allowed'' ''method not allowed'' False) else ROk 200 (registryModels (mp_providers s)))"

subsection \<open>Properties\<close>

text \<open>Sizes: eviction brings a map back under its bound when it exceeds it by one, whatever order it is visited in.\<close>

lemma evict_one:
  assumes "gwf m" "length m \<le> Suc n" "ks \<noteq> []" "set ks \<subseteq> fst ` set m"
  shows "evictMapLocked n ks m = mdel (hd ks) m" "length (mdel (hd ks) m) \<le> n"
proof -
  obtain k ks' where ks: "ks = k # ks'" using assms(3) by (cases ks) auto
  have k: "k \<in> fst ` set m" using assms(4) ks by auto
  have "card (fst ` set (mdel k m)) = card (fst ` set m) - 1" using k by simp
  moreover have "card (fst ` set x) = length x" if "gwf x" for x :: "(string, 'a) gomap"
    using that distinct_card[of "map fst x"] by (simp add: gwf_def)
  ultimately have "length (mdel k m) = length m - 1" using assms(1) by (metis gwf_mdel)
  then show "length (mdel (hd ks) m) \<le> n" using assms(2) ks by simp
  then show "evictMapLocked n ks m = mdel (hd ks) m" using ks by (simp add: Let_def)
qed

definition visits :: "usageClock \<Rightarrow> bool" where
  "visits uc \<longleftrightarrow> (\<forall>ks. ks \<noteq> [] \<longrightarrow> uc_order uc ks \<noteq> [] \<and> set (uc_order uc ks) \<subseteq> set ks)"

lemma capMap_cases:
  assumes "gwf m" "length m \<le> Suc n" "visits uc"
  shows "capMap uc n m = m \<and> length m \<le> n \<or> (\<exists>k. capMap uc n m = mdel k m \<and> length (mdel k m) \<le> n)"
proof (cases "length m \<le> n")
  case False
  then have "m \<noteq> []" by auto
  then have "uc_order uc (map fst m) \<noteq> []" "set (uc_order uc (map fst m)) \<subseteq> fst ` set m"
    using assms(3) unfolding visits_def by (metis list.map_disc_iff, metis list.map_disc_iff list.set_map)
  from evict_one[OF assms(1,2) this] show ?thesis using False by (auto simp: capMap_def)
qed (simp add: capMap_def)

lemma capMap_ok: "gwf m \<Longrightarrow> length m \<le> Suc n \<Longrightarrow> visits uc \<Longrightarrow> gwf (capMap uc n m) \<and> length (capMap uc n m) \<le> n"
  using capMap_cases[of m n uc] by auto

definition meterOk :: "usageMeter \<Rightarrow> bool" where
  "meterOk m \<longleftrightarrow> gwf (um_perTenant m) \<and> gwf (um_hourly m) \<and> gwf (um_daily m) \<and>
     length (um_perTenant m) \<le> maxTenants \<and> length (um_hourly m) \<le> maxHourlyBuckets \<and> length (um_daily m) \<le> maxDailyBuckets"

lemma length_mfilter: "length (mfilter P m) \<le> length m"
  by (simp add: mfilter_def)

lemma meterOk_sweep: "meterOk m \<Longrightarrow> meterOk (usageSweep uc now m)"
  unfolding meterOk_def usageSweep_def by (auto intro: le_trans[OF length_mfilter])

lemma mput_le: "length m \<le> n \<Longrightarrow> length (mput k v m) \<le> Suc n"
  using length_mput_le[of k v m] by simp

lemma usageRecord_meterOk:
  assumes "meterOk m" "visits uc"
  shows "meterOk (usageRecord uc now t usage m)"
proof (cases "usage = None \<or> t = []")
  case True
  then show ?thesis using assms by (auto simp: usageRecord_def split: option.split)
next
  case False
  then obtain u where u: "usage = Some u" "t \<noteq> []" by auto
  define m2 where "m2 = (if um_recordCount (m\<lparr>um_recordCount := um_recordCount m + 1\<rparr>) mod usageSweepEvery = 0
    then usageSweep uc now (m\<lparr>um_recordCount := um_recordCount m + 1\<rparr>) else m\<lparr>um_recordCount := um_recordCount m + 1\<rparr>)"
  have "meterOk (m\<lparr>um_recordCount := um_recordCount m + 1\<rparr>)" using assms(1) by (simp add: meterOk_def)
  then have ok: "meterOk m2" unfolding m2_def using meterOk_sweep by auto
  show ?thesis using ok assms(2) u(2) unfolding meterOk_def usageRecord_def u(1) option.case Let_def m2_def[symmetric]
    by (auto simp: mput_le intro!: capMap_ok[THEN conjunct1] capMap_ok[THEN conjunct2])
qed

lemma meter_reachable_bounded:
  "visits uc \<Longrightarrow> meterOk (fold (\<lambda>(now, t, u) m. usageRecord uc now t u m) calls newUsageMeter)"
proof -
  assume v: "visits uc"
  have "meterOk (fold (\<lambda>(now, t, u) m. usageRecord uc now t u m) calls m)" if "meterOk m" for m
    using that by (induction calls arbitrary: m) (auto simp: usageRecord_meterOk[OF _ v])
  moreover have "meterOk newUsageMeter" by (simp add: meterOk_def newUsageMeter_def)
  ultimately show ?thesis by blast
qed

text \<open>What the clock formats give: keys of one length, and no time before its own cutoff.\<close>

definition clockOk :: "usageClock \<Rightarrow> time \<Rightarrow> bool" where
  "clockOk uc now \<longleftrightarrow> (\<forall>t. length (uc_fmtHour uc t) = 13 \<and> length (uc_fmtDay uc t) = 10) \<and>
     \<not> uc_fmtHour uc now < uc_fmtHour uc (now - hourlyTTL) \<and> \<not> uc_fmtDay uc now < uc_fmtDay uc (now - dailyTTL)"

lemma key_injective:
  "clockOk uc now \<Longrightarrow> hourKey uc now t = hourKey uc now t' \<longleftrightarrow> t = t'" "clockOk uc now \<Longrightarrow> dayKey uc now t = dayKey uc now t' \<longleftrightarrow> t = t'"
  by (simp_all add: hourKey_def dayKey_def)

lemma current_not_expired:
  "clockOk uc now \<Longrightarrow> \<not> expiredKey 13 (uc_fmtHour uc (now - hourlyTTL)) (hourKey uc now t)"
  "clockOk uc now \<Longrightarrow> \<not> expiredKey 10 (uc_fmtDay uc (now - dailyTTL)) (dayKey uc now t)"
  by (auto simp: clockOk_def expiredKey_def hourKey_def dayKey_def)

lemma zget_mfilter_keep: "gwf m \<Longrightarrow> (\<And>v. P k v) \<Longrightarrow> zget z (mfilter P m) k = zget z m k"
  by (simp add: zget_def mget_mfilter split: option.split)

lemma GetUsage_sweep: "clockOk uc now \<Longrightarrow> gwf (um_hourly m) \<Longrightarrow> gwf (um_daily m) \<Longrightarrow> GetUsage uc now t (usageSweep uc now m) = GetUsage uc now t m"
  by (simp add: GetUsage_def usageSweep_def zget_mfilter_keep current_not_expired)

text \<open>Below the size bounds the meter adds exactly the reported total to the current buckets of the tenant, sweeps included,
  and leaves the other tenants as they are.\<close>

lemma usageRecord_exact:
  assumes "meterOk m" "clockOk uc now" "t \<noteq> []" "length (um_hourly m) < maxHourlyBuckets" "length (um_daily m) < maxDailyBuckets"
  shows "GetUsage uc now t' (usageRecord uc now t (Some u) m) =
    (let (h, d) = GetUsage uc now t' m; n = (if t' = t \<and> usageTotal u > 0 then usageTotal u else 0) in (h + n, d + n))"
proof -
  define m1 where "m1 = m\<lparr>um_recordCount := um_recordCount m + 1\<rparr>"
  define m2 where "m2 = (if um_recordCount m1 mod usageSweepEvery = 0 then usageSweep uc now m1 else m1)"
  have g2: "GetUsage uc now t' m2 = GetUsage uc now t' m"
    using assms(1,2) GetUsage_sweep[of uc now m1 t'] by (simp add: m2_def m1_def meterOk_def GetUsage_def)
  have l2: "length (um_hourly m2) < maxHourlyBuckets" "length (um_daily m2) < maxDailyBuckets"
    using assms(4,5) le_less_trans[OF length_mfilter] by (auto simp: m2_def m1_def usageSweep_def)
  have cap: "capMap uc n (mput k v x) = mput k v x" "capMap uc n x = x" if "length x < n" for n k v and x :: "(string, int) gomap"
    using that length_mput_le[of k v x] by (auto simp: capMap_def)
  show ?thesis using g2 l2 assms(3) unfolding usageRecord_def option.case Let_def m1_def[symmetric] m2_def[symmetric]
    by (cases "usageTotal u > 0"; cases "t' = t") (auto simp: cap GetUsage_def key_injective[OF assms(2)] Let_def)
qed

lemma invokeResolved_cases:
  fixes env ac t rq s
  defines "out \<equiv> invokeResolved env ac t rq s"
  shows "(\<exists>e. fst out = RErr e) \<and> mp_usage (snd out) = mp_usage s \<or>
    (\<exists>e resp. registryResolve (mi_ModelID rq) (mp_providers s) = Some e \<and> fst out = ROk 200 resp \<and>
       pe_impl e (pv_now env) rq = Inr (ir_Output resp, ir_Usage resp) \<and>
       mp_usage (snd out) = usageRecord (pv_uc env) (pv_clock env) t (Some (ir_Usage resp)) (mp_usage s))"
proof (cases "registryResolve (mi_ModelID rq) (mp_providers s)")
  case (Some e)
  then show ?thesis by (cases "pe_impl e (pv_now env) rq") (auto simp: out_def invokeResolved_def auditPolicy_def)
qed (simp add: out_def invokeResolved_def)

lemma invoke_outcome:
  fixes env meth ac decoded s
  defines "out \<equiv> handleInvoke env meth ac decoded s"
  shows "case fst out of
      RErr _ \<Rightarrow> mp_usage (snd out) = mp_usage s
    | ROk _ resp \<Rightarrow>
        (\<exists>tenantID rq e. ResolveTenantHTTP (pv_getenv env) ac = Inr tenantID \<and> decoded = Some rq \<and>
           fst (Limiter_AllowQPS AllowQPS (pv_clock env) tenantID (mp_limiter s)) \<and>
           denyReasons rq = [] \<and> (ac_Scopes ac = [] \<or> policyScope (ac_Scopes ac) ''models:invoke'') \<and>
           (case tenantPolicyOf tenantID s of None \<Rightarrow> True
            | Some p \<Rightarrow> \<not> containsModel (tpo_DeniedModels p) (mi_ModelID rq) \<and>
                (tpo_AllowedModels p = [] \<or> containsModel (tpo_AllowedModels p) (mi_ModelID rq)) \<and>
                (case tpo_TokenBudget p of None \<Rightarrow> True
                 | Some (perHour, perDay) \<Rightarrow>
                     (perHour \<le> 0 \<or> fst (GetUsage (pv_uc env) (pv_clock env) tenantID (mp_usage s)) < perHour) \<and>
                     (perDay \<le> 0 \<or> snd (GetUsage (pv_uc env) (pv_clock env) tenantID (mp_usage s)) < perDay))) \<and>
           registryResolve (mi_ModelID rq) (mp_providers s) = Some e \<and> pe_impl e (pv_now env) rq = Inr (ir_Output resp, ir_Usage resp) \<and>
           mp_usage (snd out) = usageRecord (pv_uc env) (pv_clock env) tenantID (Some (ir_Usage resp)) (mp_usage s))"
proof (cases "\<exists>t l rq. meth = ''POST'' \<and> ResolveTenantHTTP (pv_getenv env) ac = Inr t \<and>
    Limiter_AllowQPS AllowQPS (pv_clock env) t (mp_limiter s) = (True, l) \<and> decoded = Some rq")
  case False
  have q: "fst out = RErr e \<Longrightarrow> mp_usage (snd out) = mp_usage s \<Longrightarrow> ?thesis" for e by simp
  show ?thesis using False by (intro q[where e = "case fst out of RErr e \<Rightarrow> e | _ \<Rightarrow> undefined"])
    (auto simp: out_def handleInvoke_def auditPolicy_def Let_def split: sum.splits prod.splits bool.splits option.splits)
next
  case True
  then obtain t l rq where h: "meth = ''POST''" "ResolveTenantHTTP (pv_getenv env) ac = Inr t"
    "Limiter_AllowQPS AllowQPS (pv_clock env) t (mp_limiter s) = (True, l)" "decoded = Some rq" by blast
  define s1 where "s1 = s\<lparr>mp_limiter := l\<rparr>"
  have s1: "mp_usage s1 = mp_usage s" "tenantPolicyOf t s1 = tenantPolicyOf t s" "mp_providers s1 = mp_providers s"
    by (simp_all add: s1_def tenantPolicyOf_def)
  obtain dec reasons where pe: "policyEvaluate t ac rq (tenantPolicyOf t s) = (dec, reasons)" by (metis surj_pair)
  obtain al reason where cb: "usageCheckBudget (pv_uc env) (pv_clock env) t (budgetOf (tenantPolicyOf t s)) (mp_usage s) = (al, reason)"
    by (metis surj_pair)
  have out: "out = (if dec \<noteq> ''allow'' then denyInvoke env ac t rq reasons (joinReasons reasons) s1
      else if \<not> al then denyInvoke env ac t rq [reason] reason s1 else invokeResolved env ac t rq s1)"
    by (simp add: out_def handleInvoke_def h Let_def s1_def s1[unfolded s1_def] pe cb)
  show ?thesis
  proof (cases "dec = ''allow'' \<and> al")
    case False
    then show ?thesis by (auto simp: out denyInvoke_def auditPolicy_def s1)
  next
    case al: True
    have pol: "denyReasons rq = []" "ac_Scopes ac = [] \<or> policyScope (ac_Scopes ac) ''models:invoke''"
      "case tenantPolicyOf t s of None \<Rightarrow> True | Some p \<Rightarrow> \<not> containsModel (tpo_DeniedModels p) (mi_ModelID rq) \<and>
         (tpo_AllowedModels p = [] \<or> containsModel (tpo_AllowedModels p) (mi_ModelID rq))"
      using pe al by (auto simp: policyEvaluate_def containsModel_def split: if_splits option.splits)
    have bud: "case tenantPolicyOf t s of None \<Rightarrow> True | Some p \<Rightarrow> (case tpo_TokenBudget p of None \<Rightarrow> True
         | Some (perHour, perDay) \<Rightarrow>
             (perHour \<le> 0 \<or> fst (GetUsage (pv_uc env) (pv_clock env) t (mp_usage s)) < perHour) \<and>
             (perDay \<le> 0 \<or> snd (GetUsage (pv_uc env) (pv_clock env) t (mp_usage s)) < perDay))"
      using cb al by (auto simp: usageCheckBudget_def budgetOf_def GetUsage_def split: option.splits if_splits)
    consider e where "fst out = RErr e" "mp_usage (snd out) = mp_usage s"
      | e resp where "registryResolve (mi_ModelID rq) (mp_providers s) = Some e" "fst out = ROk 200 resp"
        "pe_impl e (pv_now env) rq = Inr (ir_Output resp, ir_Usage resp)"
        "mp_usage (snd out) = usageRecord (pv_uc env) (pv_clock env) t (Some (ir_Usage resp)) (mp_usage s)"
      using al invokeResolved_cases[of env ac t rq s1] by (auto simp: out s1)
    then show ?thesis
    proof cases
      case 2
      then show ?thesis using pol bud h by (cases "tenantPolicyOf t s") (auto simp: s1)
    qed simp
  qed
qed

text \<open>C31. An invocation that is answered has passed every rule: the tenant is resolved, the request rate is kept, the
  request itself and the scopes do not deny it, the requested model identifier is not on the tenant's deny list and is on its
  allow list when there is one (the lists hold identifiers, compared literally but for case), and the hour and the day of the
  tenant are below its budget. The provider that answers is the one registered for the identifier, or a default one. The
  tokens the answer reports are then counted: below the size bounds of the meter the use of the tenant's current hour and day
  grows by exactly them, and that of no other tenant changes. Every other outcome leaves the usage as it was.\<close>

theorem invoke_enforces_policy:
  assumes "meterOk (mp_usage s)" "clockOk (pv_uc env) (pv_clock env)"
  shows "case handleInvoke env meth ac decoded s of
      (RErr _, s') \<Rightarrow> mp_usage s' = mp_usage s
    | (ROk _ resp, s') \<Rightarrow>
        (\<exists>tenantID rq e. ResolveTenantHTTP (pv_getenv env) ac = Inr tenantID \<and> decoded = Some rq \<and>
           fst (Limiter_AllowQPS AllowQPS (pv_clock env) tenantID (mp_limiter s)) \<and>
           denyReasons rq = [] \<and> (ac_Scopes ac = [] \<or> policyScope (ac_Scopes ac) ''models:invoke'') \<and>
           (case tenantPolicyOf tenantID s of None \<Rightarrow> True
            | Some p \<Rightarrow> \<not> containsModel (tpo_DeniedModels p) (mi_ModelID rq) \<and>
                (tpo_AllowedModels p = [] \<or> containsModel (tpo_AllowedModels p) (mi_ModelID rq)) \<and>
                (case tpo_TokenBudget p of None \<Rightarrow> True
                 | Some (perHour, perDay) \<Rightarrow>
                     (perHour \<le> 0 \<or> fst (GetUsage (pv_uc env) (pv_clock env) tenantID (mp_usage s)) < perHour) \<and>
                     (perDay \<le> 0 \<or> snd (GetUsage (pv_uc env) (pv_clock env) tenantID (mp_usage s)) < perDay))) \<and>
           registryResolve (mi_ModelID rq) (mp_providers s) = Some e \<and> pe_impl e (pv_now env) rq = Inr (ir_Output resp, ir_Usage resp) \<and>
           (length (um_hourly (mp_usage s)) < maxHourlyBuckets \<and> length (um_daily (mp_usage s)) < maxDailyBuckets \<longrightarrow>
              (\<forall>t'. GetUsage (pv_uc env) (pv_clock env) t' (mp_usage s') =
                 (let (h, d) = GetUsage (pv_uc env) (pv_clock env) t' (mp_usage s);
                      n = (if t' = tenantID \<and> usageTotal (ir_Usage resp) > 0 then usageTotal (ir_Usage resp) else 0) in (h + n, d + n)))))"
proof (cases "handleInvoke env meth ac decoded s")
  case (Pair r s')
  show ?thesis
  proof (cases r)
    case (ROk code resp)
    with Pair invoke_outcome[of env meth ac decoded s] obtain t rq e where
      o: "ResolveTenantHTTP (pv_getenv env) ac = Inr t" "decoded = Some rq" "fst (Limiter_AllowQPS AllowQPS (pv_clock env) t (mp_limiter s))"
      "denyReasons rq = []" "ac_Scopes ac = [] \<or> policyScope (ac_Scopes ac) ''models:invoke''"
      "case tenantPolicyOf t s of None \<Rightarrow> True
            | Some p \<Rightarrow> \<not> containsModel (tpo_DeniedModels p) (mi_ModelID rq) \<and>
                (tpo_AllowedModels p = [] \<or> containsModel (tpo_AllowedModels p) (mi_ModelID rq)) \<and>
                (case tpo_TokenBudget p of None \<Rightarrow> True
                 | Some (perHour, perDay) \<Rightarrow>
                     (perHour \<le> 0 \<or> fst (GetUsage (pv_uc env) (pv_clock env) t (mp_usage s)) < perHour) \<and>
                     (perDay \<le> 0 \<or> snd (GetUsage (pv_uc env) (pv_clock env) t (mp_usage s)) < perDay))"
      "registryResolve (mi_ModelID rq) (mp_providers s) = Some e" "pe_impl e (pv_now env) rq = Inr (ir_Output resp, ir_Usage resp)"
      and u: "mp_usage s' = usageRecord (pv_uc env) (pv_clock env) t (Some (ir_Usage resp)) (mp_usage s)" by auto
    have "t \<noteq> []" using o(1) by (auto simp: ResolveTenantHTTP_def RequireTenant_def Let_def split: sum.splits tenantErr.splits if_splits)
    note rec = usageRecord_exact[OF assms this, of _ "ir_Usage resp", folded u]
    show ?thesis unfolding Pair ROk prod.case resp.case
      by (rule exI[of _ t], rule exI[of _ rq], rule exI[of _ e]) (intro conjI impI allI o rec; elim conjE)
  next
    case (RErr e)
    with Pair invoke_outcome[of env meth ac decoded s] show ?thesis by simp
  qed
qed

definition samplePolicyEnv :: policyEnv where
  "samplePolicyEnv = \<lparr>pv_getenv = (\<lambda>_. []), pv_clock = 0, pv_now = ''now'',
     pv_uc = \<lparr>uc_fmtHour = (\<lambda>_. ''2026-01-01-00''), uc_fmtDay = (\<lambda>_. ''2026-01-01''), uc_order = (\<lambda>ks. ks)\<rparr>,
     pv_correlation = ''c'', pv_requestID = ''q''\<rparr>"

definition sampleInvoke :: "invokeResponse resp \<times> policyServer" where
  "sampleInvoke = handleInvoke samplePolicyEnv ''POST'' (emptyAuthContext\<lparr>ac_TenantID := ''t''\<rparr>)
     (Some \<lparr>mi_Operation = ''chat'', mi_ModelID = ''x'', mi_Input = None, mi_Options = []\<rparr>) (newPolicyServer (\<lambda>_. []) ''now'')"

theorem invoke_enforces_policy_witness:
  "GetUsage (pv_uc samplePolicyEnv) 0 ''t'' (mp_usage (snd sampleInvoke)) = (40, 40)"
proof -
  have ok: "meterOk (mp_usage (newPolicyServer (\<lambda>_. []) ''now''))" "clockOk (pv_uc samplePolicyEnv) (pv_clock samplePolicyEnv)"
    by (simp_all add: newPolicyServer_def newUsageMeter_def meterOk_def clockOk_def samplePolicyEnv_def gwf_def)
  have r: "case fst sampleInvoke of RErr _ \<Rightarrow> False | ROk _ resp \<Rightarrow> usageTotal (ir_Usage resp) = 40" by code_simp
  have "GetUsage (pv_uc samplePolicyEnv) 0 ''t'' (mp_usage (newPolicyServer (\<lambda>_. []) ''now'')) = (0, 0)"
    "ResolveTenantHTTP (pv_getenv samplePolicyEnv) (emptyAuthContext\<lparr>ac_TenantID := ''t''\<rparr>) = Inr ''t''" by code_simp+
  note base = this
  obtain code rsp where f: "fst sampleInvoke = ROk code rsp" and u: "usageTotal (ir_Usage rsp) = 40"
    using r by (cases "fst sampleInvoke") auto
  define s' where "s' = snd sampleInvoke"
  have S: "sampleInvoke = (ROk code rsp, s')" unfolding s'_def f[symmetric] by simp
  from invoke_enforces_policy[OF ok, where meth = "''POST''" and ac = "emptyAuthContext\<lparr>ac_TenantID := ''t''\<rparr>"
      and decoded = "Some \<lparr>mi_Operation = ''chat'', mi_ModelID = ''x'', mi_Input = None, mi_Options = []\<rparr>",
      folded sampleInvoke_def, unfolded S prod.case resp.case] base(2)
  have "length (um_hourly (mp_usage (newPolicyServer (\<lambda>_. []) ''now''))) < maxHourlyBuckets \<and>
      length (um_daily (mp_usage (newPolicyServer (\<lambda>_. []) ''now''))) < maxDailyBuckets \<longrightarrow>
      GetUsage (pv_uc samplePolicyEnv) (pv_clock samplePolicyEnv) ''t'' (mp_usage s') = (40, 40)"
    using base(1) u by (auto simp: samplePolicyEnv_def)
  then show ?thesis unfolding S by (simp add: newPolicyServer_def newUsageMeter_def maxHourlyBuckets_def maxDailyBuckets_def samplePolicyEnv_def)
qed

text \<open>A deny list names identifiers, and an identifier nobody registered is served by the default model: a tenant whose
  policy denies that model still gets its answer under another name.\<close>

lemma denied_model_served:
  assumes "tenantPolicyOf t s = Some \<lparr>tpo_AllowedModels = [], tpo_DeniedModels = [''local-stub-llm''], tpo_TokenBudget = None, tpo_PIIPolicy = None\<rparr>"
    and "mp_providers s = newModelRegistry" "t \<noteq> []" "ac_Scopes ac = []"
  defines "rq \<equiv> \<lparr>mi_Operation = ''chat'', mi_ModelID = ''x'', mi_Input = None, mi_Options = []\<rparr>"
  shows "fst (policyEvaluate t ac (rq\<lparr>mi_ModelID := ''local-stub-llm''\<rparr>) (tenantPolicyOf t s)) = ''deny'' \<and>
    fst (policyEvaluate t ac rq (tenantPolicyOf t s)) = ''allow'' \<and>
    map_option (mdl_ModelID \<circ> pe_model) (registryResolve ''x'' (mp_providers s)) = Some ''local-stub-llm''"
proof -
  have "EqualFold ''local-stub-llm'' ''local-stub-llm''" "\<not> EqualFold ''local-stub-llm'' ''x''" "\<not> EqualFold ''chat'' ''deny''" "\<not> EqualFold ''chat'' ''block''"
    by code_simp+
  moreover have "denyReasons (rq\<lparr>mi_ModelID := i\<rparr>) = []" for i using calculation by (simp add: denyReasons_def rq_def jobj_def)
  moreover have "denyReasons rq = []" using calculation by (simp add: denyReasons_def rq_def jobj_def)
  ultimately show ?thesis using assms(1-4)
    by (simp add: policyEvaluate_def containsModel_def rq_def newModelRegistry_def registerModel_def registryResolve_def mput_def mget_def)
qed

text \<open>No handler of the service writes its tenants, and it starts with at most the default tenant, without a policy: no
  allow list, deny list or token budget ever applies in it.\<close>

lemma handlers_keep_tenants:
  "mp_tenants (snd (handleInvoke env meth ac d s)) = mp_tenants s" "mp_tenants (snd (handlePolicyCheck env meth ac d' s)) = mp_tenants s"
  by (auto simp: handleInvoke_def handlePolicyCheck_def invokeResolved_def denyInvoke_def auditPolicy_def Let_def
      split: sum.split prod.split bool.split option.split)

lemma policies_never_apply:
  "tenantPolicyOf t (fold (\<lambda>(env, meth, ac, d) s. snd (handleInvoke env meth ac d s)) calls (newPolicyServer getenv now)) = None"
proof -
  have "mp_tenants (fold (\<lambda>(env, meth, ac, d) s. snd (handleInvoke env meth ac d s)) calls s) = mp_tenants s" for s
    by (induction calls arbitrary: s) (auto simp: handlers_keep_tenants)
  moreover have "case Tenant_Get t (mp_tenants (newPolicyServer getenv now)) of None \<Rightarrow> True | Some tn \<Rightarrow> tn_Policy tn = None"
    by (simp add: newPolicyServer_def EnsureDefault_def NewTenantStore_def Tenant_Get_def split: option.split)
  ultimately show ?thesis by (auto simp: tenantPolicyOf_def split: option.splits)
qed

text \<open>Eviction may delete the bucket that was just written: with the hourly map full, a visiting order that starts with the
  newest key forgets the tokens of the current hour.\<close>

lemma eviction_forgets:
  assumes "gwf m" "length m = n" "k \<notin> fst ` set m" "\<And>ks. uc_order uc ks = rev ks"
  shows "zget 0 (capMap uc n (mput k v m)) k = (0 :: int)"
proof -
  have m: "mput k v m = m @ [(k, v)]" using assms(3) by (induction m) (auto simp: mput_def)
  have "\<exists>ks. uc_order uc (map fst (mput k v m)) = k # ks" using assms(4) m by simp
  moreover have "length (mdel k (mput k v m)) = n"
    using assms(2,3) by (simp add: m mdel_def AList.delete_eq) (metis (mono_tags, lifting) filter_True fst_conv image_eqI split_beta)
  ultimately show ?thesis using assms(2) m by (auto simp: capMap_def Let_def)
qed

end
