(* ===== verification/Model_Providers.thy ===== *)
theory Model_Providers
  imports Chat_Completions Resilience Model_Policy
begin

text \<open>
  The model providers (modelpolicy/openai_provider.go, anthropic_provider.go, the stub and the selection in providers.go) and
  the default model (defaultmodel.go).

  \<^item> A request is a URL, headers and a JSON body; the transport that answers it, the JSON decoders of bodies and stream
    lines, and the end of the context are arguments. A stream is given by the lines bufio.Scanner finds and the error it ends
    with: a line of more than 64 KiB is such an error (token too long) and ends the list.
  \<^item> Shown: the calls of a streamed answer are assembled completely and in order; a stream is read up to its end mark;
    what is sent upstream; the number of attempts for the default model; and what the translation to Anthropic loses.
\<close>

subsection \<open>Requests\<close>

record upstreamRequest =
  ur_URL :: string
  ur_Headers :: "(string, string) gomap"
  ur_Body :: json

text \<open>An answer: status, Retry-After header and body; the failure of building or sending is a text.\<close>

record upstreamResponse =
  up_Status :: int
  up_RetryAfter :: string
  up_Body :: string

type_synonym upstream = "upstreamRequest \<Rightarrow> string + upstreamResponse"

definition omitEmpty :: "bool \<Rightarrow> string \<Rightarrow> json \<Rightarrow> (string \<times> json) list" where
  "omitEmpty b k v = (if b then [] else [(k, v)])"

definition encodeToolCall :: "toolCall \<Rightarrow> json" where
  "encodeToolCall tc = JObj [(''id'', JStr (tcl_ID tc)), (''type'', JStr (tcl_Type tc)),
     (''function'', JObj [(''name'', JStr (fc_Name (tcl_Function tc))), (''arguments'', JStr (fc_Arguments (tcl_Function tc)))])]"

definition encodeMessage :: "chatMessage \<Rightarrow> json" where
  "encodeMessage m = JObj ([(''role'', JStr (cm_Role m)), (''content'', cm_Content m)] @
     omitEmpty (cm_ToolCalls m = []) ''tool_calls'' (JArr (map encodeToolCall (cm_ToolCalls m))) @
     omitEmpty (cm_ToolCallID m = []) ''tool_call_id'' (JStr (cm_ToolCallID m)) @ omitEmpty (cm_Name m = []) ''name'' (JStr (cm_Name m)))"

definition encodeTool :: "toolDef \<Rightarrow> json" where
  "encodeTool t = JObj [(''type'', JStr (td_Type t)), (''function'', JObj ([(''name'', JStr (tf_Name (td_Function t)))] @
     omitEmpty (tf_Description (td_Function t) = []) ''description'' (JStr (tf_Description (td_Function t))) @
     omitEmpty (tf_Parameters (td_Function t) = JNull) ''parameters'' (tf_Parameters (td_Function t))))]"

definition encodeChatRequest :: "openaiRequest \<Rightarrow> (string, json) gomap" where
  "encodeChatRequest rq =
     [(''model'', JStr (rq_Model rq)), (''messages'', JArr (map encodeMessage (rq_Messages rq)))] @
     omitEmpty (rq_Tools rq = []) ''tools'' (JArr (map encodeTool (rq_Tools rq))) @
     omitEmpty (oq_MaxTokens rq = 0) ''max_tokens'' (jint (oq_MaxTokens rq)) @
     (case oq_Temperature rq of None \<Rightarrow> [] | Some t \<Rightarrow> [(''temperature'', JNum t)]) @
     omitEmpty (\<not> oq_Stream rq) ''stream'' (JBool True)"

definition marshalChatRequest :: "openaiRequest \<Rightarrow> json" where
  "marshalChatRequest rq =
     (case oq_Extra rq of None \<Rightarrow> JObj (encodeChatRequest rq)
      | Some ex \<Rightarrow> JObj (fold (\<lambda>(k, v) m. mput k v m) ex (encodeChatRequest rq)))"

subsection \<open>OpenAI\<close>

record openaiProvider =
  op_baseURL :: string
  op_apiKey :: string
  op_timeout :: duration

definition newOpenAIProvider :: "modelConfig \<Rightarrow> openaiProvider" where
  "newOpenAIProvider cfg = \<lparr>op_baseURL = trimTrailingSlashes (mc_BaseURL cfg), op_apiKey = mc_APIKey cfg, op_timeout = mc_Timeout cfg\<rparr>"

definition statusError :: "(int \<Rightarrow> string) \<Rightarrow> upstreamResponse \<Rightarrow> providerError" where
  "statusError statusText r =
     (let body = take 4096 (up_Body r) in
      \<lparr>pe_StatusCode = up_Status r, pe_Code = ''provider_error'', pe_Message = (if body = [] then statusText (up_Status r) else body), pe_RetryAfter = []\<rparr>)"

definition openaiHTTPError :: "(int \<Rightarrow> string) \<Rightarrow> upstreamResponse \<Rightarrow> providerError" where
  "openaiHTTPError statusText r =
     (let pe = statusError statusText r in
      if up_Status r = 429 then pe\<lparr>pe_Code := ''rate_limited'', pe_RetryAfter := up_RetryAfter r\<rparr> else pe)"

definition openaiSend :: "(int \<Rightarrow> string) \<Rightarrow> upstream \<Rightarrow> openaiProvider \<Rightarrow> openaiRequest \<Rightarrow> chatErr + string" where
  "openaiSend statusText send p rq =
     (case send \<lparr>ur_URL = op_baseURL p @ ''/chat/completions'',
                 ur_Headers = [(''Content-Type'', ''application/json''), (''Authorization'', ''Bearer '' @ op_apiKey p)],
                 ur_Body = marshalChatRequest rq\<rparr> of
        Inl e \<Rightarrow> Inl (ErrTransport (''provider_error: request failed: '' @ e))
      | Inr r \<Rightarrow> if up_Status r \<noteq> 200 then Inl (ErrProvider (openaiHTTPError statusText r)) else Inr (up_Body r))"

definition openaiChatComplete ::
  "(int \<Rightarrow> string) \<Rightarrow> upstream \<Rightarrow> (string \<Rightarrow> string + chatResponse) \<Rightarrow> openaiProvider \<Rightarrow> openaiRequest \<Rightarrow> chatErr + chatResponse" where
  "openaiChatComplete statusText send decode p rq =
     (case openaiSend statusText send p (rq\<lparr>oq_Stream := False\<rparr>) of
        Inl e \<Rightarrow> Inl e
      | Inr body \<Rightarrow> (case decode body of Inl e \<Rightarrow> Inl (ErrTransport (''provider_error: failed to decode response: '' @ e)) | Inr r \<Rightarrow> Inr r))"

record sseChunkChoice =
  sk_Index :: int
  sk_Content :: string
  sk_ToolCalls :: "toolCall list"
  sk_FinishReason :: "string option"

record sseChunkResponse =
  sr_Choices :: "sseChunkChoice list"
  sr_Usage :: "chatUsage option"

definition errChunk :: "string \<Rightarrow> indexedChunk" where
  "errChunk e = \<lparr>sc_Delta = [], sc_ToolCalls = [], sc_FinishReason = [], sc_Usage = None, sc_Err = Some e, ix_Index = 0\<rparr>"

definition sseToChunk :: "sseChunkResponse \<Rightarrow> indexedChunk" where
  "sseToChunk c =
     (case sr_Choices c of
        [] \<Rightarrow> \<lparr>sc_Delta = [], sc_ToolCalls = [], sc_FinishReason = [], sc_Usage = sr_Usage c, sc_Err = None, ix_Index = 0\<rparr>
      | ch # _ \<Rightarrow> \<lparr>sc_Delta = sk_Content ch, sc_ToolCalls = sk_ToolCalls ch,
                  sc_FinishReason = (case sk_FinishReason ch of None \<Rightarrow> [] | Some f \<Rightarrow> f), sc_Usage = sr_Usage c, sc_Err = None, ix_Index = sk_Index ch\<rparr>)"

text \<open>A line as the scanner gives it, with the error of the context if it has ended; at the end the scanner's own error.\<close>

fun readSSE :: "(string \<Rightarrow> string + sseChunkResponse) \<Rightarrow> string option \<Rightarrow> (string option \<times> string) list \<Rightarrow> indexedChunk list" where
  "readSSE parse scanErr [] = (case scanErr of None \<Rightarrow> [] | Some e \<Rightarrow> [errChunk (''provider_error: stream read error: '' @ e)])"
| "readSSE parse scanErr ((ctx, line) # rest) =
     (case ctx of Some e \<Rightarrow> [errChunk e]
      | None \<Rightarrow>
          if \<not> HasPrefix line ''data: '' then readSSE parse scanErr rest
          else if TrimPrefix line ''data: '' = ''[DONE]'' then []
          else (case parse (TrimPrefix line ''data: '') of
                  Inl e \<Rightarrow> [errChunk (''provider_error: failed to parse SSE chunk: '' @ e)]
                | Inr c \<Rightarrow> sseToChunk c # readSSE parse scanErr rest))"

definition openaiChatCompleteStream ::
  "(int \<Rightarrow> string) \<Rightarrow> upstream \<Rightarrow> (string \<Rightarrow> string option \<times> (string option \<times> string) list) \<Rightarrow> (string \<Rightarrow> string + sseChunkResponse)
   \<Rightarrow> openaiProvider \<Rightarrow> openaiRequest \<Rightarrow> chatErr + indexedChunk list" where
  "openaiChatCompleteStream statusText send scan parse p rq =
     (case openaiSend statusText send p (rq\<lparr>oq_Stream := True\<rparr>) of
        Inl e \<Rightarrow> Inl e | Inr body \<Rightarrow> Inr (readSSE parse (fst (scan body)) (snd (scan body))))"

subsection \<open>Anthropic\<close>

record anthropicBlock =
  ab_Type :: string
  ab_Text :: string
  ab_ID :: string
  ab_Name :: string
  ab_Input :: json
  ab_ToolUseID :: string
  ab_Content :: string

definition emptyBlock :: anthropicBlock where
  "emptyBlock = \<lparr>ab_Type = [], ab_Text = [], ab_ID = [], ab_Name = [], ab_Input = JNull, ab_ToolUseID = [], ab_Content = []\<rparr>"

datatype anthropicContent = AText string | ABlocks "anthropicBlock list"

record anthropicMessage =
  am_Role :: string
  am_Content :: anthropicContent

record anthropicTool =
  at_Name :: string
  at_Description :: string
  at_InputSchema :: json

record anthropicRequest =
  ar_Model :: string
  ar_Messages :: "anthropicMessage list"
  ar_System :: string
  ar_MaxTokens :: int
  ar_Tools :: "anthropicTool list"
  ar_Stream :: bool

record anthropicResponse =
  as_ID :: string
  as_Content :: "anthropicBlock list"
  as_StopReason :: string
  as_InputTokens :: int
  as_OutputTokens :: int

record anthropicProvider =
  an_baseURL :: string
  an_apiKey :: string
  an_timeout :: duration
  an_defaultModel :: string

definition newAnthropicProvider :: "modelConfig \<Rightarrow> anthropicProvider" where
  "newAnthropicProvider cfg =
     \<lparr>an_baseURL = trimTrailingSlashes (mc_BaseURL cfg), an_apiKey = mc_APIKey cfg, an_timeout = mc_Timeout cfg,
      an_defaultModel = (if mc_DefaultModel cfg = [] then ''claude-sonnet-4-20250514'' else mc_DefaultModel cfg)\<rparr>"

definition hasMultipart :: "openaiRequest \<Rightarrow> bool" where
  "hasMultipart rq = list_ex (\<lambda>m. (case cm_Content m of JStr _ \<Rightarrow> False | JNull \<Rightarrow> False | _ \<Rightarrow> True)) (rq_Messages rq)"

text \<open>\<open>parseArgs\<close> decodes the arguments of a tool call, null when they are not JSON.\<close>

definition toolUseBlock :: "(string \<Rightarrow> json) \<Rightarrow> toolCall \<Rightarrow> anthropicBlock" where
  "toolUseBlock parseArgs tc =
     emptyBlock\<lparr>ab_Type := ''tool_use'', ab_ID := tcl_ID tc, ab_Name := fc_Name (tcl_Function tc), ab_Input := parseArgs (fc_Arguments (tcl_Function tc))\<rparr>"

definition convertMessage :: "(string \<Rightarrow> json) \<Rightarrow> chatMessage \<Rightarrow> anthropicMessage" where
  "convertMessage parseArgs msg =
     (let t = MessageText msg in
      if cm_Role msg = ''tool''
      then \<lparr>am_Role = ''user'', am_Content = ABlocks [emptyBlock\<lparr>ab_Type := ''tool_result'', ab_ToolUseID := cm_ToolCallID msg, ab_Content := t\<rparr>]\<rparr>
      else if cm_Role msg = ''assistant'' \<and> cm_ToolCalls msg \<noteq> []
      then \<lparr>am_Role = ''assistant'',
            am_Content = ABlocks ((if t \<noteq> [] then [emptyBlock\<lparr>ab_Type := ''text'', ab_Text := t\<rparr>] else []) @ map (toolUseBlock parseArgs) (cm_ToolCalls msg))\<rparr>
      else \<lparr>am_Role = cm_Role msg, am_Content = AText t\<rparr>)"

fun convertMessages :: "(string \<Rightarrow> json) \<Rightarrow> chatMessage list \<Rightarrow> anthropicRequest \<Rightarrow> anthropicRequest" where
  "convertMessages parseArgs [] ar = ar"
| "convertMessages parseArgs (msg # msgs) ar =
     (if cm_Role msg = ''system'' then convertMessages parseArgs msgs (ar\<lparr>ar_System := MessageText msg\<rparr>)
      else convertMessages parseArgs msgs (ar\<lparr>ar_Messages := ar_Messages ar @ [convertMessage parseArgs msg]\<rparr>))"

definition buildRequest :: "(string \<Rightarrow> json) \<Rightarrow> anthropicProvider \<Rightarrow> openaiRequest \<Rightarrow> anthropicRequest" where
  "buildRequest parseArgs p rq =
     (let ar = convertMessages parseArgs (rq_Messages rq)
            \<lparr>ar_Model = (if rq_Model rq = [] then an_defaultModel p else rq_Model rq), ar_Messages = [], ar_System = [],
             ar_MaxTokens = (if oq_MaxTokens rq = 0 then 4096 else oq_MaxTokens rq), ar_Tools = [], ar_Stream = False\<rparr> in
      ar\<lparr>ar_Tools := map (\<lambda>t. \<lparr>at_Name = tf_Name (td_Function t), at_Description = tf_Description (td_Function t), at_InputSchema = tf_Parameters (td_Function t)\<rparr>)
           (rq_Tools rq)\<rparr>)"

text \<open>\<open>marshalInput\<close> encodes the input of a tool block, if it can.\<close>

fun collectBlocks :: "(json \<Rightarrow> string option) \<Rightarrow> anthropicBlock list \<Rightarrow> string \<times> toolCall list \<Rightarrow> string \<times> toolCall list" where
  "collectBlocks marshalInput [] acc = acc"
| "collectBlocks marshalInput (b # bs) (text, calls) =
     (if ab_Type b = ''text'' then collectBlocks marshalInput bs (text @ ab_Text b, calls)
      else if ab_Type b = ''tool_use'' then
        collectBlocks marshalInput bs (text, calls @ [\<lparr>tcl_ID = ab_ID b, tcl_Type = ''function'',
          tcl_Function = \<lparr>fc_Name = ab_Name b, fc_Arguments = (case marshalInput (ab_Input b) of None \<Rightarrow> ''{}'' | Some j \<Rightarrow> j)\<rparr>\<rparr>])
      else collectBlocks marshalInput bs (text, calls))"

definition anthropicTokens :: "int \<Rightarrow> int \<Rightarrow> chatUsage" where
  "anthropicTokens i j = \<lparr>cu_PromptTokens = i, cu_CompletionTokens = j, cu_TotalTokens = i + j\<rparr>"

definition mapResponse :: "(json \<Rightarrow> string option) \<Rightarrow> anthropicResponse \<Rightarrow> chatResponse" where
  "mapResponse marshalInput r =
     (let (text, calls) = collectBlocks marshalInput (as_Content r) ([], []) in
      \<lparr>cr_Choices = [\<lparr>cc_Index = 0, cc_Message = (textMessage ''assistant'' text)\<lparr>cm_ToolCalls := calls\<rparr>,
          cc_FinishReason = (if as_StopReason r = ''tool_use'' then ''tool_calls'' else ''stop'')\<rparr>],
       cr_Usage = anthropicTokens (as_InputTokens r) (as_OutputTokens r), cr_Model = as_ID r\<rparr>)"

definition anthropicHTTPError :: "(int \<Rightarrow> string) \<Rightarrow> upstreamResponse \<Rightarrow> providerError" where
  "anthropicHTTPError statusText r =
     (let pe = statusError statusText r in
      if up_Status r = 429 then pe\<lparr>pe_Code := ''rate_limited'', pe_RetryAfter := up_RetryAfter r\<rparr>
      else if up_Status r = 400 then pe\<lparr>pe_Code := ''invalid_request''\<rparr> else pe)"

definition anthropicHeaders :: "anthropicProvider \<Rightarrow> (string, string) gomap" where
  "anthropicHeaders p = [(''Content-Type'', ''application/json''), (''x-api-key'', an_apiKey p), (''anthropic-version'', ''2023-06-01'')]"

definition anthropicSend :: "(int \<Rightarrow> string) \<Rightarrow> (string \<Rightarrow> (string, string) gomap \<Rightarrow> anthropicRequest \<Rightarrow> string + upstreamResponse) \<Rightarrow> (string \<Rightarrow> json) \<Rightarrow> bool
   \<Rightarrow> anthropicProvider \<Rightarrow> openaiRequest \<Rightarrow> chatErr + string" where
  "anthropicSend statusText send parseArgs stream p rq =
     (if hasMultipart rq then Inl (ErrTransport ''anthropic provider does not support multipart content in v11.1'')
      else case send (an_baseURL p @ ''/v1/messages'') (anthropicHeaders p) ((buildRequest parseArgs p rq)\<lparr>ar_Stream := stream\<rparr>) of
        Inl e \<Rightarrow> Inl (ErrTransport (''provider_error: request failed: '' @ e))
      | Inr r \<Rightarrow> if up_Status r \<noteq> 200 then Inl (ErrProvider (anthropicHTTPError statusText r)) else Inr (up_Body r))"

definition anthropicChatComplete where
  "anthropicChatComplete statusText send parseArgs marshalInput decode p rq =
     (case anthropicSend statusText send parseArgs False p rq of
        Inl e \<Rightarrow> Inl e
      | Inr body \<Rightarrow> (case decode body of Inl e \<Rightarrow> Inl (ErrTransport (''provider_error: failed to decode response: '' @ e))
                    | Inr r \<Rightarrow> Inr (mapResponse marshalInput r)))"

text \<open>The events of the stream that matter; \<open>AOther\<close> is any other type, or one whose fields cannot be decoded.\<close>

datatype anthropicEvent =
    ABlockStart string string string
  | ATextDelta string
  | AJsonDelta string
  | AMessageDelta string "(int \<times> int) option"
  | AMessageStop
  | AOther

record pendingToolUse =
  tu_id :: string
  tu_name :: string
  tu_args :: string

definition appendArgs :: "string \<Rightarrow> pendingToolUse list \<Rightarrow> pendingToolUse list" where
  "appendArgs j tus = (if tus = [] then [] else butlast tus @ [(last tus)\<lparr>tu_args := tu_args (last tus) @ j\<rparr>])"

definition pendingCall :: "pendingToolUse \<Rightarrow> toolCall" where
  "pendingCall tu = \<lparr>tcl_ID = tu_id tu, tcl_Type = ''function'', tcl_Function = \<lparr>fc_Name = tu_name tu, fc_Arguments = tu_args tu\<rparr>\<rparr>"

definition plainChunk :: "string \<Rightarrow> indexedChunk" where
  "plainChunk d = \<lparr>sc_Delta = d, sc_ToolCalls = [], sc_FinishReason = [], sc_Usage = None, sc_Err = None, ix_Index = 0\<rparr>"

fun readAnthropicSSE :: "(string \<Rightarrow> anthropicEvent option) \<Rightarrow> string option \<Rightarrow> pendingToolUse list \<Rightarrow> (string option \<times> string) list \<Rightarrow> indexedChunk list" where
  "readAnthropicSSE parse scanErr tus [] = (case scanErr of None \<Rightarrow> [] | Some e \<Rightarrow> [errChunk (''provider_error: stream read error: '' @ e)])"
| "readAnthropicSSE parse scanErr tus ((ctx, line) # rest) =
     (case ctx of Some e \<Rightarrow> [errChunk e]
      | None \<Rightarrow>
          if \<not> HasPrefix line ''data: '' then readAnthropicSSE parse scanErr tus rest
          else (case parse (TrimPrefix line ''data: '') of
                  None \<Rightarrow> readAnthropicSSE parse scanErr tus rest
                | Some (ABlockStart ty i nm) \<Rightarrow>
                    readAnthropicSSE parse scanErr (if ty = ''tool_use'' then tus @ [\<lparr>tu_id = i, tu_name = nm, tu_args = []\<rparr>] else tus) rest
                | Some (ATextDelta t) \<Rightarrow> plainChunk t # readAnthropicSSE parse scanErr tus rest
                | Some (AJsonDelta j) \<Rightarrow> readAnthropicSSE parse scanErr (appendArgs j tus) rest
                | Some (AMessageDelta stop usage) \<Rightarrow>
                    (plainChunk [])\<lparr>sc_FinishReason := (if stop = ''end_turn'' then ''stop'' else if stop = ''tool_use'' then ''tool_calls'' else []),
                       sc_ToolCalls := (if stop = ''tool_use'' then map pendingCall tus else []),
                       sc_Usage := (case usage of None \<Rightarrow> None | Some (i, j) \<Rightarrow> Some (anthropicTokens i j))\<rparr>
                    # readAnthropicSSE parse scanErr (if stop = ''tool_use'' then [] else tus) rest
                | Some AMessageStop \<Rightarrow> []
                | Some AOther \<Rightarrow> readAnthropicSSE parse scanErr tus rest))"

definition anthropicChatCompleteStream where
  "anthropicChatCompleteStream statusText send parseArgs scan parse p rq =
     (case anthropicSend statusText send parseArgs True p rq of
        Inl e \<Rightarrow> Inl e | Inr body \<Rightarrow> Inr (readAnthropicSSE parse (fst (scan body)) [] (snd (scan body))))"

subsection \<open>The legacy call, the stub and the selection\<close>

definition invokeChatRequest :: "modelInvokeRequest \<Rightarrow> openaiRequest" where
  "invokeChatRequest rq =
     \<lparr>rq_Model = mi_ModelID rq,
      rq_Messages = [textMessage ''user'' (case mi_Input rq of None \<Rightarrow> [] | Some m \<Rightarrow> (case jobj m ''text'' of JStr t \<Rightarrow> t | _ \<Rightarrow> []))],
      rq_Tools = [], oq_MaxTokens = 0, oq_Temperature = None, oq_Stream = False, oq_Extra = None\<rparr>"

definition legacyText :: "chatResponse \<Rightarrow> string" where
  "legacyText r = (case cr_Choices r of [] \<Rightarrow> [] | c # _ \<Rightarrow> MessageText (cc_Message c))"

definition legacyUsage :: "string \<Rightarrow> string \<Rightarrow> modelInvokeRequest \<Rightarrow> chatResponse \<Rightarrow> (string, json) gomap" where
  "legacyUsage provider now rq r =
     [(''prompt_tokens'', jint (cu_PromptTokens (cr_Usage r))), (''completion_tokens'', jint (cu_CompletionTokens (cr_Usage r))),
      (''total_tokens'', jint (cu_TotalTokens (cr_Usage r))), (''model_id'', JStr (mi_ModelID rq)), (''provider'', JStr provider), (''timestamp'', JStr now)]"

definition openaiInvoke :: "(openaiRequest \<Rightarrow> chatErr + chatResponse) \<Rightarrow> string \<Rightarrow> modelInvokeRequest \<Rightarrow> chatErr + (string, json) gomap \<times> (string, json) gomap" where
  "openaiInvoke chat now rq =
     (case chat (invokeChatRequest rq) of Inl e \<Rightarrow> Inl e
      | Inr r \<Rightarrow> Inr ([(''type'', JStr ''text''), (''text'', JStr (legacyText r)), (''echo'', echoInput (mi_Input rq)), (''ts'', JStr now)],
                      legacyUsage ''openai'' now rq r))"

definition anthropicInvoke :: "(openaiRequest \<Rightarrow> chatErr + chatResponse) \<Rightarrow> string \<Rightarrow> modelInvokeRequest \<Rightarrow> chatErr + (string, json) gomap \<times> (string, json) gomap" where
  "anthropicInvoke chat now rq =
     (case chat (invokeChatRequest rq) of Inl e \<Rightarrow> Inl e
      | Inr r \<Rightarrow> Inr ([(''type'', JStr ''text''), (''text'', JStr (legacyText r)), (''ts'', JStr now)], legacyUsage ''anthropic'' now rq r))"

definition estimateTokensFromChatReq :: "openaiRequest \<Rightarrow> int" where
  "estimateTokensFromChatReq rq = sum_list (map (\<lambda>m. EstimateTokens (MessageText m) + 4) (rq_Messages rq))"

definition stubChatComplete :: "openaiRequest \<Rightarrow> chatResponse" where
  "stubChatComplete rq =
     (let text = (if rq_Messages rq \<noteq> [] \<and> TrimSpace (MessageText (last (rq_Messages rq))) \<noteq> [] then ''stub: '' @ MessageText (last (rq_Messages rq))
                  else ''stub response''); n = estimateTokensFromChatReq rq in
      \<lparr>cr_Choices = [\<lparr>cc_Index = 0, cc_Message = textMessage ''assistant'' text, cc_FinishReason = ''stop''\<rparr>],
       cr_Usage = \<lparr>cu_PromptTokens = n, cu_CompletionTokens = 32, cu_TotalTokens = n + 32\<rparr>, cr_Model = rq_Model rq\<rparr>)"

definition stubChatCompleteStream :: "openaiRequest \<Rightarrow> indexedChunk list" where
  "stubChatCompleteStream rq =
     (let r = stubChatComplete rq in
      case cr_Choices r of [] \<Rightarrow> []
      | c # _ \<Rightarrow> [(plainChunk (MessageText (cc_Message c)))\<lparr>sc_FinishReason := cc_FinishReason c, sc_Usage := Some (cr_Usage r)\<rparr>])"

datatype selectedProvider = ResilientOpenAI openaiProvider | ResilientAnthropic anthropicProvider | StubProvider

definition newProvider :: "modelConfig \<Rightarrow> string + selectedProvider" where
  "newProvider cfg =
     (if mc_Provider cfg = ''openai'' then Inr (ResilientOpenAI (newOpenAIProvider cfg))
      else if mc_Provider cfg = ''anthropic'' then Inr (ResilientAnthropic (newAnthropicProvider cfg))
      else if mc_Provider cfg = ''stub'' then Inr StubProvider
      else if mc_Provider cfg = [] then Inl ''AGENTOS_MODEL_PROVIDER is required (valid: openai, anthropic, stub)''
      else Inl (''unknown model provider '' @ [CHR 0x22] @ mc_Provider cfg @ [CHR 0x22] @ '' (valid: openai, anthropic, stub)''))"

definition NewProviderFromConfig :: "modelConfig \<Rightarrow> string + selectedProvider" where
  "NewProviderFromConfig cfg = (case ModelConfig_Validate cfg of Some e \<Rightarrow> Inl e | None \<Rightarrow> newProvider cfg)"

subsection \<open>The default model\<close>

datatype queryErr = BadModelsURL string | ModelsUnreachable string | BadStatus int | ModelsDecode string | EmptyModelList

definition QueryFirstModelID :: "(string \<Rightarrow> queryErr + int \<times> (string + string list)) \<Rightarrow> string \<Rightarrow> queryErr + string" where
  "QueryFirstModelID get baseURL =
     (case get (trimTrailingSlashes baseURL @ ''/models'') of
        Inl e \<Rightarrow> Inl e
      | Inr (status, body) \<Rightarrow>
          if status \<noteq> 200 then Inl (BadStatus status)
          else (case body of Inl e \<Rightarrow> Inl (ModelsDecode e)
                | Inr [] \<Rightarrow> Inl EmptyModelList
                | Inr (i # _) \<Rightarrow> if TrimSpace i = [] then Inl EmptyModelList else Inr (TrimSpace i)))"

definition defaultResolveBackoffs :: "duration list" where
  "defaultResolveBackoffs = map seconds [1, 1, 2, 2, 4, 4, 8, 8]"

definition defaultResolveDeadline :: duration where "defaultResolveDeadline = seconds 30"

text \<open>One attempt: the time since the start, the answers, and the errors of the context after it and during the wait.\<close>

record resolveAttempt =
  ra_elapsed :: duration
  ra_get :: "string \<Rightarrow> queryErr + int \<times> (string + string list)"
  ra_ctxErr :: "string option"
  ra_ctxWait :: "string option"

datatype resolveErr = BaseURLEmpty | ResolveEmpty | ResolveContext string | ResolveExhausted string "queryErr option"

text \<open>The result with the number of attempts made.\<close>

fun resolveWithBackoffs :: "(nat \<Rightarrow> resolveAttempt) \<Rightarrow> (string \<Rightarrow> string) \<Rightarrow> string \<Rightarrow> duration \<Rightarrow> nat \<Rightarrow> queryErr option \<Rightarrow> duration list \<Rightarrow> (resolveErr + string) \<times> nat" where
  "resolveWithBackoffs env host baseURL deadline i lastErr [] = (Inl (ResolveExhausted (host baseURL) lastErr), i)"
| "resolveWithBackoffs env host baseURL deadline i lastErr (b # bs) =
     (if deadline > 0 \<and> ra_elapsed (env i) \<ge> deadline then (Inl (ResolveExhausted (host baseURL) lastErr), i)
      else case QueryFirstModelID (ra_get (env i)) baseURL of
        Inr mid \<Rightarrow> (Inr mid, Suc i)
      | Inl EmptyModelList \<Rightarrow> (Inl ResolveEmpty, Suc i)
      | Inl e \<Rightarrow>
          (case ra_ctxErr (env i) of Some c \<Rightarrow> (Inl (ResolveContext c), Suc i)
           | None \<Rightarrow>
               (case ra_ctxWait (env i) of Some c \<Rightarrow> (Inl (ResolveContext c), Suc i)
                | None \<Rightarrow> resolveWithBackoffs env host baseURL deadline (Suc i) (Some e) bs)))"

definition ResolveDefaultModel :: "(nat \<Rightarrow> resolveAttempt) \<Rightarrow> (string \<Rightarrow> string) \<Rightarrow> modelConfig \<Rightarrow> (resolveErr + string) \<times> nat" where
  "ResolveDefaultModel env host cfg =
     (if TrimSpace (mc_DefaultModel cfg) \<noteq> [] then (Inr (TrimSpace (mc_DefaultModel cfg)), 0)
      else if mc_Provider cfg \<noteq> ''openai'' then (Inr [], 0)
      else if TrimSpace (mc_BaseURL cfg) = [] then (Inl BaseURLEmpty, 0)
      else resolveWithBackoffs env host (mc_BaseURL cfg) defaultResolveDeadline 0 None defaultResolveBackoffs)"

text \<open>\<open>parseURL\<close>: scheme and host of a URL that parses.\<close>

definition baseURLHost :: "(string \<Rightarrow> (string \<times> string) option) \<Rightarrow> string \<Rightarrow> string" where
  "baseURLHost parseURL raw =
     (case parseURL raw of None \<Rightarrow> ''<malformed base URL>''
      | Some (scheme, host) \<Rightarrow> if scheme = [] \<or> host = [] then ''<malformed base URL>'' else scheme @ ''://'' @ host)"

subsection \<open>Properties\<close>

lemma TrimPrefix_data [simp]: "TrimPrefix (CHR ''d'' # CHR ''a'' # CHR ''t'' # CHR ''a'' # CHR '':'' # CHR '' '' # d) ''data: '' = d"
  by (simp add: TrimPrefix_def)

text \<open>Reading a stream gives its chunks, in order, up to the end mark; what follows the mark is ignored.\<close>

lemma readSSE_chunks:
  assumes "\<And>c. parse (enc c) = Inr c" "\<And>c. enc c \<noteq> ''[DONE]''"
  shows "readSSE parse scanErr (map (\<lambda>c. (None, ''data: '' @ enc c)) cs @ rest) = map sseToChunk cs @ readSSE parse scanErr rest"
  using assms by (induction cs) simp_all

lemma readSSE_exact:
  assumes "\<And>c. parse (enc c) = Inr c" "\<And>c. enc c \<noteq> ''[DONE]''"
  shows "readSSE parse scanErr (map (\<lambda>c. (None, ''data: '' @ enc c)) cs @ (None, ''data: [DONE]'') # rest) = map sseToChunk cs"
  using readSSE_chunks[of parse enc scanErr cs "(None, ''data: [DONE]'') # rest"] assms by simp

text \<open>A connection that closes before the end mark is not an error: the client gets the part that came as a complete answer.\<close>

lemma truncated_stream_completes:
  assumes "\<And>c. parse (enc c) = Inr c" "\<And>c. enc c \<noteq> ''[DONE]''"
  shows "readSSE parse None (map (\<lambda>c. (None, ''data: '' @ enc c)) cs) = map sseToChunk cs" "sc_Err (sseToChunk c) = None"
  using readSSE_chunks[of parse enc None cs "[]"] assms by (simp_all add: sseToChunk_def split: list.split)

text \<open>The events of a message that carry content: blocks of text or of a tool use, in pieces.\<close>

datatype contentBlock = TextBlock "string list" | ToolBlock string string "string list"

fun blockEvents :: "contentBlock \<Rightarrow> anthropicEvent list" where
  "blockEvents (TextBlock ts) = map ATextDelta ts"
| "blockEvents (ToolBlock i nm js) = ABlockStart ''tool_use'' i nm # map AJsonDelta js"

fun blockTexts :: "contentBlock \<Rightarrow> string list" where
  "blockTexts (TextBlock ts) = ts"
| "blockTexts (ToolBlock _ _ _) = []"

fun blockCalls :: "contentBlock \<Rightarrow> toolCall list" where
  "blockCalls (TextBlock _) = []"
| "blockCalls (ToolBlock i nm js) = [\<lparr>tcl_ID = i, tcl_Type = ''function'', tcl_Function = \<lparr>fc_Name = nm, fc_Arguments = concat js\<rparr>\<rparr>]"

definition eventLines :: "(anthropicEvent \<Rightarrow> string) \<Rightarrow> anthropicEvent list \<Rightarrow> (string option \<times> string) list" where
  "eventLines enc es = map (\<lambda>e. (None, ''data: '' @ enc e)) es"

text \<open>The lines between them that carry none: event names, blank lines and comments, data that is no event, and the events
  message_start, ping, content_block_stop and the start of a block that is no tool use.\<close>

definition noise :: "(string \<Rightarrow> anthropicEvent option) \<Rightarrow> string option \<times> string \<Rightarrow> bool" where
  "noise parse l \<longleftrightarrow> fst l = None \<and>
     (if HasPrefix (snd l) ''data: ''
      then (case parse (TrimPrefix (snd l) ''data: '') of None \<Rightarrow> True | Some AOther \<Rightarrow> True | Some (ABlockStart ty _ _) \<Rightarrow> ty \<noteq> ''tool_use'' | _ \<Rightarrow> False)
      else True)"

lemma read_noise: "readAnthropicSSE parse se tus (ls @ rest) = readAnthropicSSE parse se tus (filter (\<lambda>l. \<not> noise parse l) ls @ rest)"
proof (induction ls arbitrary: tus)
  case (Cons l ls)
  obtain ctx line where l: "l = (ctx, line)" by (cases l)
  show ?case
  proof (cases "noise parse l")
    case True
    then have "readAnthropicSSE parse se tus (l # ls @ rest) = readAnthropicSSE parse se tus (ls @ rest)"
      by (auto simp: l noise_def split: if_splits option.splits anthropicEvent.splits)
    then show ?thesis using True Cons.IH by simp
  next
    case False
    then show ?thesis using Cons.IH by (simp add: l split: option.split anthropicEvent.split)
  qed
qed simp

lemma read_texts:
  assumes "\<And>e. parse (enc e) = Some e"
  shows "readAnthropicSSE parse se tus (eventLines enc (map ATextDelta ts) @ rest) = map plainChunk ts @ readAnthropicSSE parse se tus rest"
  using assms by (induction ts) (simp_all add: eventLines_def)

lemma read_json:
  assumes "\<And>e. parse (enc e) = Some e"
  shows "readAnthropicSSE parse se (tus @ [tu]) (eventLines enc (map AJsonDelta js) @ rest) =
    readAnthropicSSE parse se (tus @ [tu\<lparr>tu_args := tu_args tu @ concat js\<rparr>]) rest"
  using assms by (induction js arbitrary: tu) (simp_all add: eventLines_def appendArgs_def)

lemma read_block:
  assumes "\<And>e. parse (enc e) = Some e"
  shows "\<exists>tus'. map pendingCall tus' = map pendingCall tus @ blockCalls b \<and>
    readAnthropicSSE parse se tus (eventLines enc (blockEvents b) @ rest) = map plainChunk (blockTexts b) @ readAnthropicSSE parse se tus' rest"
proof (cases b)
  case (TextBlock ts)
  then show ?thesis using assms read_texts[of parse enc se tus ts rest, OF assms] by (intro exI[of _ tus]) (simp add: eventLines_def)
next
  case (ToolBlock i nm js)
  let ?tu = "\<lparr>tu_id = i, tu_name = nm, tu_args = []\<rparr>"
  show ?thesis using assms ToolBlock read_json[of parse enc se tus ?tu js rest, OF assms]
    by (intro exI[of _ "tus @ [?tu\<lparr>tu_args := concat js\<rparr>]"]) (simp add: eventLines_def pendingCall_def)
qed

lemma read_blocks:
  assumes "\<And>e. parse (enc e) = Some e"
  shows "\<exists>tus'. map pendingCall tus' = map pendingCall tus @ concat (map blockCalls bs) \<and>
    readAnthropicSSE parse se tus (eventLines enc (concat (map blockEvents bs)) @ rest) =
      map plainChunk (concat (map blockTexts bs)) @ readAnthropicSSE parse se tus' rest"
proof (induction bs arbitrary: tus)
  case (Cons b bs)
  let ?rest = "eventLines enc (concat (map blockEvents bs)) @ rest"
  obtain tus1 where b: "map pendingCall tus1 = map pendingCall tus @ blockCalls b"
    "readAnthropicSSE parse se tus (eventLines enc (blockEvents b) @ ?rest) = map plainChunk (blockTexts b) @ readAnthropicSSE parse se tus1 ?rest"
    using read_block[of parse enc tus b se ?rest, OF assms] by blast
  obtain tus2 where t: "map pendingCall tus2 = map pendingCall tus1 @ concat (map blockCalls bs)"
    "readAnthropicSSE parse se tus1 ?rest = map plainChunk (concat (map blockTexts bs)) @ readAnthropicSSE parse se tus2 rest"
    using Cons.IH[of tus1] by blast
  have "eventLines enc (concat (map blockEvents (b # bs))) @ rest = eventLines enc (blockEvents b) @ ?rest" by (simp add: eventLines_def)
  then show ?case using b t by (intro exI[of _ tus2]) simp
qed (auto simp: eventLines_def)

text \<open>C32. A streamed Anthropic answer is translated completely. Take any message of text and tool-use blocks, cut into pieces
  anyhow, with any stop reason and with or without a usage report, and any lines between its events that carry no content
  (event names, blank lines, undecodable data, message_start, ping and block starts and stops). The chunks are the pieces of
  text in order and then one with the finish reason (stop for end_turn, tool_calls for tool_use, none otherwise), with the
  token usage if it was reported, and for tool_use with every tool call, in order, each with the concatenation of its argument
  pieces; nothing after the end of the message is read.\<close>

theorem anthropic_stream_exact:
  assumes "\<And>e. parse (enc e) = Some e"
    and "filter (\<lambda>l. \<not> noise parse l) ls = eventLines enc (concat (map blockEvents bs) @ [AMessageDelta stop usage, AMessageStop])"
  shows "readAnthropicSSE parse scanErr [] (ls @ rest) =
    map plainChunk (concat (map blockTexts bs)) @
    [(plainChunk [])\<lparr>sc_FinishReason := (if stop = ''end_turn'' then ''stop'' else if stop = ''tool_use'' then ''tool_calls'' else []),
       sc_ToolCalls := (if stop = ''tool_use'' then concat (map blockCalls bs) else []),
       sc_Usage := map_option (\<lambda>(i, j). anthropicTokens i j) usage\<rparr>]"
proof -
  let ?rest = "eventLines enc [AMessageDelta stop usage, AMessageStop] @ rest"
  obtain tus where t: "map pendingCall tus = concat (map blockCalls bs)"
    "readAnthropicSSE parse scanErr [] (eventLines enc (concat (map blockEvents bs)) @ ?rest) =
      map plainChunk (concat (map blockTexts bs)) @ readAnthropicSSE parse scanErr tus ?rest"
    using read_blocks[of parse enc "[]" bs scanErr ?rest, OF assms(1)] by auto
  have "readAnthropicSSE parse scanErr [] (ls @ rest) = readAnthropicSSE parse scanErr [] (eventLines enc (concat (map blockEvents bs)) @ ?rest)"
    unfolding read_noise[of parse scanErr "[]" ls rest] assms(2) by (simp add: eventLines_def)
  also have "\<dots> = map plainChunk (concat (map blockTexts bs)) @ readAnthropicSSE parse scanErr tus ?rest" by (rule t(2))
  finally show ?thesis using t(1) assms(1) by (simp add: eventLines_def split: option.split)
qed

text \<open>An encoding of events for the witness: unary tags and lengths.\<close>

definition unary :: "nat \<Rightarrow> string" where "unary n = replicate n (CHR ''1'') @ ''0''"

definition encStr :: "string \<Rightarrow> string" where "encStr s = unary (length s) @ s"

definition decUnary :: "string \<Rightarrow> nat \<times> string" where
  "decUnary s = (length (takeWhile (\<lambda>c. c = CHR ''1'') s), drop 1 (dropWhile (\<lambda>c. c = CHR ''1'') s))"

definition decStr :: "string \<Rightarrow> string \<times> string" where
  "decStr s = (case decUnary s of (n, r) \<Rightarrow> (take n r, drop n r))"

lemma decUnary_unary [simp]: "decUnary (unary n @ r) = (n, r)"
  by (induction n) (auto simp: decUnary_def unary_def)

lemma decUnary_last [simp]: "decUnary (unary n) = (n, [])"
  using decUnary_unary[of n "[]"] by simp

lemma decStr_encStr [simp]: "decStr (encStr s @ r) = (s, r)" "decStr (encStr s) = (s, [])"
  using decUnary_unary[of "length s" "s @ r"] decUnary_unary[of "length s" s] by (simp_all add: decStr_def encStr_def)

definition encInt :: "int \<Rightarrow> string" where "encInt i = unary (if i < 0 then 1 else 0) @ unary (nat \<bar>i\<bar>)"

definition decInt :: "string \<Rightarrow> int \<times> string" where
  "decInt s = (case decUnary s of (sg, r) \<Rightarrow> (case decUnary r of (n, r') \<Rightarrow> (if sg = 1 then - int n else int n, r')))"

lemma decInt_encInt [simp]: "decInt (encInt i @ r) = (i, r)" "decInt (encInt i) = (i, [])"
  by (simp_all add: decInt_def encInt_def)

fun encEvent :: "anthropicEvent \<Rightarrow> string" where
  "encEvent (ABlockStart t i n) = unary 0 @ encStr t @ encStr i @ encStr n"
| "encEvent (ATextDelta t) = unary 1 @ encStr t"
| "encEvent (AJsonDelta t) = unary 2 @ encStr t"
| "encEvent (AMessageDelta t None) = unary 3 @ encStr t"
| "encEvent (AMessageDelta t (Some (i, j))) = unary 4 @ encStr t @ encInt i @ encInt j"
| "encEvent AMessageStop = unary 5"
| "encEvent AOther = unary 6"

definition decEvent :: "string \<Rightarrow> anthropicEvent option" where
  "decEvent s =
     (case decUnary s of (tag, r) \<Rightarrow>
        Some (if tag = 0 then (case decStr r of (t, r1) \<Rightarrow> (case decStr r1 of (i, r2) \<Rightarrow> ABlockStart t i (fst (decStr r2))))
              else if tag = 1 then ATextDelta (fst (decStr r)) else if tag = 2 then AJsonDelta (fst (decStr r))
              else if tag = 3 then AMessageDelta (fst (decStr r)) None
              else if tag = 4 then (case decStr r of (t, r1) \<Rightarrow> (case decInt r1 of (i, r2) \<Rightarrow> AMessageDelta t (Some (i, fst (decInt r2)))))
              else if tag = 5 then AMessageStop else AOther))"

lemma decEvent_encEvent: "decEvent (encEvent e) = Some e"
  by (cases e rule: encEvent.cases) (simp_all add: decEvent_def)

definition sampleLines :: "(string option \<times> string) list" where
  "sampleLines = [(None, ''event: message_start''), (None, ''data: '' @ encEvent AOther), (None, []),
     (None, ''data: '' @ encEvent (ABlockStart ''text'' [] [])), (None, ''event: content_block_delta''), (None, ''data: '' @ encEvent (ATextDelta ''a'')),
     (None, ''data: '' @ encEvent (ABlockStart ''tool_use'' ''i'' ''n'')), (None, ''data: '' @ encEvent (AJsonDelta ''{'')), (None, []),
     (None, ''data: '' @ encEvent (AJsonDelta ''}'')), (None, ''data: '' @ encEvent AOther),
     (None, ''data: '' @ encEvent (AMessageDelta ''tool_use'' (Some (1, 2)))), (None, ''event: message_stop''), (None, ''data: '' @ encEvent AMessageStop)]"

theorem anthropic_stream_exact_witness:
  "readAnthropicSSE decEvent None [] (sampleLines @ []) =
   map plainChunk [''a''] @
    [(plainChunk [])\<lparr>sc_FinishReason := ''tool_calls'',
       sc_ToolCalls := [\<lparr>tcl_ID = ''i'', tcl_Type = ''function'', tcl_Function = \<lparr>fc_Name = ''n'', fc_Arguments = ''{}''\<rparr>\<rparr>],
       sc_Usage := Some (anthropicTokens 1 2)\<rparr>]"
proof -
  have "filter (\<lambda>l. \<not> noise decEvent l) sampleLines =
      eventLines encEvent (concat (map blockEvents [TextBlock [''a''], ToolBlock ''i'' ''n'' [''{'', ''}'']]) @ [AMessageDelta ''tool_use'' (Some (1, 2)), AMessageStop])"
    by code_simp
  from anthropic_stream_exact[OF decEvent_encEvent this, of None "[]"] show ?thesis by simp
qed

text \<open>What the translation of the messages keeps: the conversation in order, and of the system messages the last one only.\<close>

lemma convertMessages_spec:
  "convertMessages pa msgs ar = ar\<lparr>ar_Messages := ar_Messages ar @ map (convertMessage pa) (filter (\<lambda>m. cm_Role m \<noteq> ''system'') msgs),
     ar_System := (case filter (\<lambda>m. cm_Role m = ''system'') msgs of [] \<Rightarrow> ar_System ar | ms \<Rightarrow> MessageText (last ms))\<rparr>"
  by (induction msgs arbitrary: ar) (auto split: list.splits)

lemma buildRequest_system:
  "ar_System (buildRequest pa p rq) = (case filter (\<lambda>m. cm_Role m = ''system'') (rq_Messages rq) of [] \<Rightarrow> [] | ms \<Rightarrow> MessageText (last ms))"
  "ar_Messages (buildRequest pa p rq) = map (convertMessage pa) (filter (\<lambda>m. cm_Role m \<noteq> ''system'') (rq_Messages rq))"
  by (simp_all add: buildRequest_def convertMessages_spec Let_def split: list.split)

text \<open>The prompt of an intent is prepended as a system message: when the client sends one of its own, Anthropic gets only
  the client's.\<close>

lemma intent_prompt_lost:
  assumes "rq_Messages rq = [textMessage ''system'' client, textMessage ''user'' q]"
  shows "ar_System (buildRequest pa p (rq\<lparr>rq_Messages := prependSystemMessage (rq_Messages rq) prompt\<rparr>)) = client"
  using assms by (simp add: buildRequest_system prependSystemMessage_def textMessage_def MessageText_def)

text \<open>Text in parts form carries no image, so the chat endpoint lets it pass; the Anthropic provider refuses it, with an
  error that counts as transient.\<close>

lemma text_parts_refused_by_anthropic:
  assumes "rq_Messages rq = [(textMessage ''user'' [])\<lparr>cm_Content := JArr [JObj [(''type'', JStr ''text''), (''text'', JStr ''hi'')]]\<rparr>]"
  shows "concat (map messageImages (rq_Messages rq)) = [] \<and>
    (\<exists>e. anthropicSend st send pa stream p rq = Inl e \<and> isRetryable (Some e))"
proof -
  have "messageImages ((textMessage ''user'' [])\<lparr>cm_Content := JArr [JObj [(''type'', JStr ''text''), (''text'', JStr ''hi'')]]\<rparr>) = []" by code_simp
  then show ?thesis using assms by (simp add: anthropicSend_def hasMultipart_def isRetryable_def)
qed

text \<open>A configuration with the Anthropic provider and no base URL is accepted; the request then has no host.\<close>

lemma anthropic_without_base_url:
  assumes "mc_Provider cfg = ''anthropic''" "mc_BaseURL cfg = []" "mc_APIKey cfg \<noteq> []" "mc_Timeout cfg > 0" "\<not> hasMultipart rq"
    and "\<And>u h b. HasPrefix u ''/'' \<Longrightarrow> send u h b = Inl ''unsupported protocol scheme''"
  shows "\<exists>p. NewProviderFromConfig cfg = Inr (ResilientAnthropic p) \<and>
    anthropicSend st send pa stream p rq = Inl (ErrTransport ''provider_error: request failed: unsupported protocol scheme'')"
proof -
  have "ModelConfig_Validate cfg = None" using assms by (simp add: ModelConfig_Validate_def providerProblems_def)
  then have "NewProviderFromConfig cfg = Inr (ResilientAnthropic (newAnthropicProvider cfg))"
    using assms(1) by (simp add: NewProviderFromConfig_def newProvider_def)
  moreover have "an_baseURL (newAnthropicProvider cfg) @ ''/v1/messages'' = ''/v1/messages''"
    using assms(2) by (simp add: newAnthropicProvider_def trimTrailingSlashes_def)
  ultimately show ?thesis using assms(5,6) by (intro exI[of _ "newAnthropicProvider cfg"]) (simp add: anthropicSend_def)
qed

text \<open>The answer of Anthropic is reported with its message identifier as the model.\<close>

lemma mapResponse_model: "cr_Model (mapResponse mi r) = as_ID r" "cu_TotalTokens (cr_Usage (mapResponse mi r)) = as_InputTokens r + as_OutputTokens r"
  by (simp_all add: mapResponse_def anthropicTokens_def split: prod.split)

text \<open>The body sent to an OpenAI-compatible provider has every extra field, and the other fields of the request.\<close>

lemma mget_fold_mput: "gwf ex \<Longrightarrow> mget (fold (\<lambda>(k, v) m. mput k v m) ex m) k = (case mget ex k of None \<Rightarrow> mget m k | Some v \<Rightarrow> Some v)"
proof (induction ex arbitrary: m)
  case (Cons kv ex)
  obtain k' v' where kv: "kv = (k', v')" by (cases kv)
  have n: "gwf ex" "mget ex k' = None" using Cons.prems kv by (auto simp: gwf_Cons mget_None_iff)
  show ?case using Cons.IH[OF n(1)] n(2) kv by (auto simp: mget_Cons split: option.split)
qed simp

lemma marshal_fields:
  assumes "oq_Extra rq = Some ex" "gwf ex" "marshalChatRequest rq = JObj body"
  shows "mget body k = (case mget ex k of None \<Rightarrow> mget (encodeChatRequest rq) k | Some v \<Rightarrow> Some v)"
  using assms mget_fold_mput[OF assms(2)] by (auto simp: marshalChatRequest_def)

text \<open>At most eight attempts are made for the default model; an answer that is not empty is a trimmed identifier.\<close>

lemma resolve_attempts:
  "snd (resolveWithBackoffs env host u d i le bs) \<le> i + length bs \<and>
   (\<forall>m. fst (resolveWithBackoffs env host u d i le bs) = Inr m \<longrightarrow> (\<exists>k. QueryFirstModelID (ra_get (env k)) u = Inr m))"
proof (induction bs arbitrary: i le)
  case (Cons b bs)
  consider (late) "d > 0 \<and> ra_elapsed (env i) \<ge> d" | (ok) m where "\<not> (d > 0 \<and> ra_elapsed (env i) \<ge> d)" "QueryFirstModelID (ra_get (env i)) u = Inr m"
    | (err) e where "\<not> (d > 0 \<and> ra_elapsed (env i) \<ge> d)" "QueryFirstModelID (ra_get (env i)) u = Inl e"
    by (cases "QueryFirstModelID (ra_get (env i)) u") auto
  then show ?case
  proof cases
    case ok
    then show ?thesis by auto
  next
    case err
    then show ?thesis using Cons.IH[of "Suc i" "Some e"] by (cases e) (auto split: option.split)
  qed simp
qed simp

lemma default_model_sound:
  "snd (ResolveDefaultModel env host cfg) \<le> 8 \<and>
   (\<forall>m. fst (ResolveDefaultModel env host cfg) = Inr m \<and> mc_Provider cfg = ''openai'' \<longrightarrow> (\<exists>x. m = TrimSpace x) \<and> m \<noteq> [])"
proof -
  have q: "\<exists>x. m = TrimSpace x \<and> m \<noteq> []" if "QueryFirstModelID g u = Inr m" for g u m
    using that by (auto simp: QueryFirstModelID_def split: sum.splits if_splits list.splits)
  let ?r = "resolveWithBackoffs env host (mc_BaseURL cfg) defaultResolveDeadline 0 None defaultResolveBackoffs"
  have r: "snd ?r \<le> 8" "\<And>m. fst ?r = Inr m \<Longrightarrow> \<exists>x. m = TrimSpace x \<and> m \<noteq> []"
    using resolve_attempts[of env host "mc_BaseURL cfg" defaultResolveDeadline 0 None defaultResolveBackoffs] q
    by (simp add: defaultResolveBackoffs_def, blast)
  show ?thesis
  proof (cases "TrimSpace (mc_DefaultModel cfg) \<noteq> [] \<or> mc_Provider cfg \<noteq> ''openai'' \<or> TrimSpace (mc_BaseURL cfg) = []")
    case True
    then show ?thesis by (auto simp: ResolveDefaultModel_def)
  next
    case False
    then have "ResolveDefaultModel env host cfg = ?r" by (simp add: ResolveDefaultModel_def)
    then show ?thesis using r by auto
  qed
qed

end
