(* ===== verification/MCP_Chat_Tool.thy ===== *)
theory MCP_Chat_Tool
  imports Chat_Completions MCP_Server
begin

text \<open>
  The chat tools of the MCP server (mcp/tools/chat.go): chat_completion, list_models, get_active_model, swap_model,
  get_routing_config and set_thinking_mode, with their shared state and their own copy of the content union.

  \<^item> The decoder of the arguments, the upstream transport, the classifier, the knowledge base and the clearance store are
    arguments; the body sent upstream is JSON.
  \<^item> Shown: the copy of the content rules agrees with the shared one; what is sent upstream carries the caller's messages
    unchanged behind system texts, validated; images only from cleared agents where a clearance store is configured and
    recorded where an audit log is; and that the shipped configuration has neither.
\<close>

subsection \<open>Content\<close>

definition mcpUnmarshalContent :: "json \<Rightarrow> contentErr + content" where
  "mcpUnmarshalContent v =
     (case v of
        JStr s \<Rightarrow> Inr (TextContent s)
      | JNull \<Rightarrow> Inr (TextContent [])
      | JArr vs \<Rightarrow> (case those (map decodePart vs) of None \<Rightarrow> Inl NotContent | Some ps \<Rightarrow> Inr (PartsContent ps))
      | _ \<Rightarrow> Inl NotContent)"

definition mcpMarshalContent :: "content \<Rightarrow> json" where
  "mcpMarshalContent c = (case c of PartsContent ps \<Rightarrow> JArr (map encodePart ps) | TextContent s \<Rightarrow> JStr s)"

fun mcpJoin :: "contentPart list \<Rightarrow> string \<Rightarrow> string" where
  "mcpJoin [] b = b"
| "mcpJoin (p # ps) b = (if cp_Type p \<noteq> ''text'' then mcpJoin ps b else mcpJoin ps ((if b = [] then b else b @ '' '') @ cp_Text p))"

definition mcpAsText :: "content \<Rightarrow> string" where
  "mcpAsText c = (case c of TextContent s \<Rightarrow> s | PartsContent ps \<Rightarrow> mcpJoin ps [])"

definition mcpHasImage :: "content \<Rightarrow> bool" where
  "mcpHasImage c = (case c of TextContent _ \<Rightarrow> False | PartsContent ps \<Rightarrow> list_ex (\<lambda>p. cp_Type p = ''image_url'') ps)"

definition chatMaxImageParts :: nat where "chatMaxImageParts = 8"

fun mcpValidateParts :: "nat \<Rightarrow> nat \<Rightarrow> contentPart list \<Rightarrow> contentErr option" where
  "mcpValidateParts i images [] = None"
| "mcpValidateParts i images (p # ps) =
     (if cp_Type p = ''text'' then mcpValidateParts (Suc i) images ps
      else if cp_Type p = ''image_url'' then
        (if cp_ImageURL p = None \<or> map_option iu_URL (cp_ImageURL p) = Some [] then Some (NoImageURL i)
         else
           (let u = ToLower (case cp_ImageURL p of None \<Rightarrow> [] | Some iu \<Rightarrow> iu_URL iu) in
            if HasPrefix u ''https://'' \<or> HasPrefix u ''http://'' then
              (if images + 1 > chatMaxImageParts then Some TooManyImages else mcpValidateParts (Suc i) (images + 1) ps)
            else if HasPrefix u ''data:'' then Some (DataURL i)
            else if HasPrefix u ''file:'' then Some (FileURL i)
            else Some (BadScheme i)))
      else if cp_Type p = [] then Some (NoPartType i)
      else Some (UnknownPart i (cp_Type p)))"

definition mcpValidateContent :: "content \<Rightarrow> contentErr option" where
  "mcpValidateContent c = (case c of TextContent _ \<Rightarrow> None | PartsContent ps \<Rightarrow> mcpValidateParts 0 0 ps)"

subsection \<open>Arguments, configuration and state\<close>

record mcpChatMessage =
  mm_Role :: string
  mm_Content :: content

record chatCompletionArgs =
  ca_Model :: string
  ca_Messages :: "mcpChatMessage list"
  ca_MaxTokens :: int
  ca_Temperature :: "rat option"

record chatToolsConfig =
  ctc_Model :: modelConfig
  ctc_Router :: routerConfig
  ctc_Composer :: "intentConfig option"
  ctc_ImageHash :: bool
  ctc_Clearance :: "(string \<Rightarrow> clearErr + int) option"

record chatToolsState =
  cts_defaultModel :: string
  cts_thinking :: "bool option"
  cts_audit :: "logEntry list option"

definition newChatToolsState :: "chatToolsConfig \<Rightarrow> logEntry list option \<Rightarrow> chatToolsState" where
  "newChatToolsState cfg audit = \<lparr>cts_defaultModel = mc_DefaultModel (ctc_Model cfg), cts_thinking = None, cts_audit = audit\<rparr>"

definition SwapModel :: "string \<Rightarrow> chatToolsState \<Rightarrow> string \<times> chatToolsState" where
  "SwapModel m s = (cts_defaultModel s, s\<lparr>cts_defaultModel := m\<rparr>)"

definition thinkingModeString :: "bool option \<Rightarrow> string" where
  "thinkingModeString v = (case v of None \<Rightarrow> ''classifier'' | Some True \<Rightarrow> ''true'' | Some False \<Rightarrow> ''false'')"

definition SetThinkingMode :: "bool \<Rightarrow> chatToolsState \<Rightarrow> string \<times> chatToolsState" where
  "SetThinkingMode b s = (thinkingModeString (cts_thinking s), s\<lparr>cts_thinking := Some b\<rparr>)"

record mcpChatEnv =
  mce_decode :: "string \<Rightarrow> string + chatCompletionArgs"
  mce_sha256hex :: "string \<Rightarrow> string"
  mce_classifier :: "string \<Rightarrow> string \<Rightarrow> classifierOutcome"
  mce_kb :: "(string \<Rightarrow> string \<Rightarrow> int \<Rightarrow> string + searchResult list) option"
  mce_mulTokens :: "int \<Rightarrow> rat \<Rightarrow> int"
  mce_send :: "string \<Rightarrow> string \<Rightarrow> (string, json) gomap \<Rightarrow> string + int \<times> string"
  mce_unmarshal :: "string \<Rightarrow> string + json"
  mce_contentMsg :: "nat \<times> contentErr \<Rightarrow> string"
  mce_clearMsg :: "clearErr \<Rightarrow> string"

subsection \<open>The chat completion\<close>

definition mcpImages :: "mcpChatMessage list \<Rightarrow> string list" where
  "mcpImages msgs = concat (map (\<lambda>m. if mcpHasImage (mm_Content m) then imageURLs (Parts (mm_Content m)) else []) msgs)"

fun firstInvalid :: "nat \<Rightarrow> mcpChatMessage list \<Rightarrow> (nat \<times> contentErr) option" where
  "firstInvalid i [] = None"
| "firstInvalid i (m # ms) = (case mcpValidateContent (mm_Content m) of Some e \<Rightarrow> Some (i, e) | None \<Rightarrow> firstInvalid (Suc i) ms)"

definition multimodalDenied :: "mcpChatEnv \<Rightarrow> chatToolsConfig \<Rightarrow> string \<Rightarrow> bool \<Rightarrow> string option" where
  "multimodalDenied env cfg agentID multimodal =
     (if \<not> multimodal then None
      else case ctc_Clearance cfg of None \<Rightarrow> None
      | Some getClearance \<Rightarrow>
          if agentID = [] then Some ''multimodal content requires authenticated caller (missing agent_id)''
          else (case getClearance agentID of
                  Inl e \<Rightarrow> Some (''multimodal clearance lookup failed: '' @ mce_clearMsg env e)
                | Inr tier \<Rightarrow> if tier < ClearanceExecute
                    then Some (''insufficient clearance for multimodal content: agent tier '' @ Itoa tier @ '' < required '' @ Itoa ClearanceExecute)
                    else None))"

definition mcpMultimodalEntry :: "string \<Rightarrow> string list \<Rightarrow> bool \<Rightarrow> logEntry" where
  "mcpMultimodalEntry tenantID refs hashed =
     \<lparr>le_Time = [], le_TenantID = tenantID, le_PrincipalID = [], le_Action = ''chat.multimodal'', le_Resource = ''tool:chat_completion'',
      le_Outcome = ''accepted'', le_CorrelationID = [], le_RequestID = [],
      le_Meta = Some [(''image_parts'', jint (int (length refs))), (''image_refs'', JArr (map JStr refs)), (''image_hash'', JBool hashed)]\<rparr>"

definition mcpUserPrompt :: "mcpChatMessage list \<Rightarrow> string" where
  "mcpUserPrompt msgs =
     (case find (\<lambda>m. mm_Role m = ''user'' \<and> mcpAsText (mm_Content m) \<noteq> []) (rev msgs) of None \<Rightarrow> [] | Some m \<Rightarrow> mcpAsText (mm_Content m))"

definition mcpDecision :: "mcpChatEnv \<Rightarrow> chatToolsConfig \<Rightarrow> mcpChatMessage list \<Rightarrow> routingDecision" where
  "mcpDecision env cfg msgs =
     (if list_ex (\<lambda>m. mcpHasImage (mm_Content m)) msgs then visionDecision
      else Classify (mce_classifier env) (ctc_Router cfg) (mcpUserPrompt msgs))"

definition wireMessage :: "string \<Rightarrow> json \<Rightarrow> json" where
  "wireMessage role c = JObj [(''role'', JStr role), (''content'', c)]"

definition optionalFields :: "int \<Rightarrow> rat option \<Rightarrow> (string, json) gomap \<Rightarrow> (string, json) gomap" where
  "optionalFields maxTokens temp body =
     (let b1 = (if maxTokens > 0 then mput ''max_tokens'' (jint maxTokens) body else body) in
      case temp of None \<Rightarrow> b1 | Some t \<Rightarrow> mput ''temperature'' (JNum t) b1)"

definition flatRequest :: "string \<Rightarrow> chatCompletionArgs \<Rightarrow> openaiRequest" where
  "flatRequest model args =
     \<lparr>rq_Model = model, rq_Messages = map (\<lambda>m. textMessage (mm_Role m) (mcpAsText (mm_Content m))) (ca_Messages args), rq_Tools = [],
      oq_MaxTokens = (if ca_MaxTokens args > 0 then ca_MaxTokens args else 0), oq_Temperature = ca_Temperature args, oq_Stream = False, oq_Extra = None\<rparr>"

text \<open>The messages of the composed request: those the composer put in front as text, then the caller's own contents.\<close>

definition composedMessages :: "chatMessage list \<Rightarrow> mcpChatMessage list \<Rightarrow> json list" where
  "composedMessages composed orig =
     (let n = (if length orig \<le> length composed then length composed - length orig else length composed) in
      map (\<lambda>(i, m). if i < n then wireMessage (cm_Role m) (cm_Content m)
                    else wireMessage (cm_Role m) (mcpMarshalContent (mm_Content (orig ! (i - n))))) (enumerate 0 composed))"

definition composedBody :: "bool option \<Rightarrow> openaiRequest \<Rightarrow> mcpChatMessage list \<Rightarrow> (string, json) gomap" where
  "composedBody override rq orig =
     (let extra0 = (case oq_Extra rq of None \<Rightarrow> [] | Some m \<Rightarrow> m);
          extra = (case override of None \<Rightarrow> extra0 | Some b \<Rightarrow> mput ''chat_template_kwargs'' (JObj [(''enable_thinking'', JBool b)]) extra0);
          base = [(''model'', JStr (rq_Model rq)), (''messages'', JArr (composedMessages (rq_Messages rq) orig)), (''stream'', JBool False)] in
      optionalFields (oq_MaxTokens rq) (oq_Temperature rq) (fold (\<lambda>(k, v) m. mput k v m) extra base))"

definition legacyBody :: "bool \<Rightarrow> string \<Rightarrow> chatCompletionArgs \<Rightarrow> (string, json) gomap" where
  "legacyBody thinking model args =
     optionalFields (ca_MaxTokens args) (ca_Temperature args)
       [(''model'', JStr model), (''messages'', JArr (map (\<lambda>m. wireMessage (mm_Role m) (mcpMarshalContent (mm_Content m))) (ca_Messages args))),
        (''stream'', JBool False), (''chat_template_kwargs'', JObj [(''enable_thinking'', JBool thinking)])]"

definition dispatchNotice :: "intentName \<Rightarrow> json" where
  "dispatchNotice i = JObj [(''object'', JStr ''agent.dispatch''), (''intent'', JStr (intentText i)), (''status'', JStr ''recognized''),
     (''message'', JStr ''This request has been classified as requiring agent orchestration. Agent dispatch will be available in v3.2.'')]"

text \<open>The body to send, or the notice that the request is one for agents.\<close>

definition mcpBody :: "mcpChatEnv \<Rightarrow> chatToolsConfig \<Rightarrow> chatToolsState \<Rightarrow> string \<Rightarrow> string \<Rightarrow> chatCompletionArgs \<Rightarrow> json + (string, json) gomap" where
  "mcpBody env cfg s tenantID model args =
     (let decision = mcpDecision env cfg (ca_Messages args);
          thinking = (case cts_thinking s of None \<Rightarrow> rd_EnableThinking decision | Some b \<Rightarrow> b) in
      case ctc_Composer cfg of
        None \<Rightarrow> Inr (legacyBody thinking model args)
      | Some ic \<Rightarrow>
          (let cr = Compose (mce_mulTokens env) (mce_kb env) ic decision (flatRequest model args) tenantID in
           if cr_IsAgentDispatch cr then Inl (dispatchNotice (rd_Intent decision))
           else Inr (composedBody (cts_thinking s) (cr_Request cr) (ca_Messages args))))"

definition mcpSend :: "mcpChatEnv \<Rightarrow> chatToolsConfig \<Rightarrow> (string, json) gomap \<Rightarrow> (string + json) \<times> (string, json) gomap list" where
  "mcpSend env cfg body =
     (let baseURL = trimTrailingSlashes (mc_BaseURL (ctc_Model cfg)) in
      if baseURL = [] then (Inl ''AGENTOS_MODEL_BASE_URL not configured'', [])
      else case mce_send env (baseURL @ ''/chat/completions'') (proxyAuth (ctc_Model cfg)) body of
        Inl e \<Rightarrow> (Inl (''model request failed: '' @ e), [body])
      | Inr (status, resp) \<Rightarrow>
          (let raw = take (1024 * 1024) resp in
           if status \<noteq> 200 then (Inl (''model returned HTTP '' @ Itoa status @ '': '' @ raw), [body])
           else (case mce_unmarshal env raw of Inl e \<Rightarrow> (Inl (''failed to decode model response: '' @ e), [body]) | Inr v \<Rightarrow> (Inr v, [body]))))"

definition auditTools :: "logEntry \<Rightarrow> chatToolsState \<Rightarrow> chatToolsState" where
  "auditTools e s = s\<lparr>cts_audit := map_option (\<lambda>l. l @ [e]) (cts_audit s)\<rparr>"

definition chatCompletionHandler ::
  "mcpChatEnv \<Rightarrow> chatToolsConfig \<Rightarrow> mcpAuthContext option \<Rightarrow> string \<Rightarrow> chatToolsState \<Rightarrow> (string + json) \<times> (string, json) gomap list \<times> chatToolsState" where
  "chatCompletionHandler env cfg ac params s =
     (case mce_decode env params of
        Inl e \<Rightarrow> (Inl (''invalid arguments: '' @ e), [], s)
      | Inr args \<Rightarrow>
          if ca_Messages args = [] then (Inl ''messages array must not be empty'', [], s)
          else (case firstInvalid 0 (ca_Messages args) of
            Some e \<Rightarrow> (Inl (mce_contentMsg env e), [], s)
          | None \<Rightarrow>
              (let tenantID = (case ac of None \<Rightarrow> [] | Some a \<Rightarrow> ma_TenantID a); agentID = (case ac of None \<Rightarrow> [] | Some a \<Rightarrow> ma_AgentID a);
                   multimodal = list_ex (\<lambda>m. mcpHasImage (mm_Content m)) (ca_Messages args);
                   refs = map (\<lambda>u. ImageRefForAudit (mce_sha256hex env) u (ctc_ImageHash cfg)) (mcpImages (ca_Messages args)) in
               case multimodalDenied env cfg agentID multimodal of
                 Some e \<Rightarrow> (Inl e, [], s)
               | None \<Rightarrow>
                   (let s1 = (if multimodal then auditTools (mcpMultimodalEntry tenantID refs (ctc_ImageHash cfg)) s else s);
                        model = (if ca_Model args = [] then cts_defaultModel s1 else ca_Model args) in
                    if model = [] then (Inl ''no model specified and AGENTOS_MODEL_DEFAULT not configured'', [], s1)
                    else case mcpBody env cfg s1 tenantID model args of
                      Inl notice \<Rightarrow> (Inr notice, [], s1)
                    | Inr body \<Rightarrow> (case mcpSend env cfg body of (r, calls) \<Rightarrow> (r, calls, s1))))))"

subsection \<open>The other tools\<close>

definition listModelsHandler :: "(string \<Rightarrow> string \<Rightarrow> string + int \<times> string) \<Rightarrow> (string \<Rightarrow> string + json) \<Rightarrow> chatToolsConfig \<Rightarrow> string + json" where
  "listModelsHandler get unmarshal cfg =
     (let baseURL = trimTrailingSlashes (mc_BaseURL (ctc_Model cfg)) in
      if baseURL = [] then Inl ''AGENTOS_MODEL_BASE_URL not configured''
      else case get (baseURL @ ''/models'') (proxyAuth (ctc_Model cfg)) of
        Inl e \<Rightarrow> Inl (''upstream models request failed: '' @ e)
      | Inr (status, resp) \<Rightarrow>
          (let raw = take (1024 * 1024) resp in
           if status \<noteq> 200 then Inl (''upstream returned HTTP '' @ Itoa status @ '': '' @ raw)
           else (case unmarshal raw of Inl e \<Rightarrow> Inl (''failed to decode models response: '' @ e) | Inr v \<Rightarrow> Inr v)))"

definition getActiveModelHandler :: "chatToolsState \<Rightarrow> string + json" where
  "getActiveModelHandler s =
     (if cts_defaultModel s = [] then Inl ''AGENTOS_MODEL_DEFAULT not configured'' else Inr (JObj [(''model'', JStr (cts_defaultModel s))]))"

definition swapModelHandler :: "(string \<Rightarrow> string + string) \<Rightarrow> string \<Rightarrow> chatToolsState \<Rightarrow> (string + json) \<times> chatToolsState" where
  "swapModelHandler decode params s =
     (case decode params of
        Inl e \<Rightarrow> (Inl (''invalid arguments: '' @ e), s)
      | Inr name \<Rightarrow>
          if TrimSpace name = [] then (Inl ''model_name must not be empty'', s)
          else (let (prev, s') = SwapModel name s in
                (Inr (JObj [(''previous_model'', JStr prev), (''new_model'', JStr name), (''status'', JStr ''ok'')]), s')))"

definition getRoutingConfigHandler :: "chatToolsConfig \<Rightarrow> chatToolsState \<Rightarrow> json" where
  "getRoutingConfigHandler cfg s =
     JObj [(''classifier_url'', JStr (rc_ClassifierURL (ctc_Router cfg))), (''model_base_url'', JStr (mc_BaseURL (ctc_Model cfg))),
       (''default_model'', JStr (cts_defaultModel s)), (''router_enabled'', JBool (rc_Enabled (ctc_Router cfg))),
       (''thinking_mode'', JStr (thinkingModeString (cts_thinking s)))]"

definition setThinkingModeHandler :: "(string \<Rightarrow> string + bool) \<Rightarrow> string \<Rightarrow> chatToolsState \<Rightarrow> (string + json) \<times> chatToolsState" where
  "setThinkingModeHandler decode params s =
     (case decode params of
        Inl e \<Rightarrow> (Inl (''invalid arguments: '' @ e), s)
      | Inr b \<Rightarrow> (let (prev, s') = SetThinkingMode b s in
                 (Inr (JObj [(''mode'', JStr (if b then ''true'' else ''false'')), (''previous_mode'', JStr prev)]), s')))"

text \<open>The tools with the clearance each needs.\<close>

definition chatToolTiers :: "(string \<times> int) list" where
  "chatToolTiers = [(''chat_completion'', ClearanceInternal), (''list_models'', ClearancePublic), (''get_active_model'', ClearancePublic),
     (''swap_model'', ClearanceAdmin), (''get_routing_config'', ClearanceAdmin), (''set_thinking_mode'', ClearanceAdmin)]"

subsection \<open>Properties\<close>

text \<open>The copy of the content rules in the MCP tools agrees with the shared package on every content.\<close>

lemma mcpJoin_join: "mcpJoin ps b = joinTexts b ps"
  by (induction ps arbitrary: b) auto

lemma mcpValidateParts_agrees: "mcpValidateParts i n ps = validateParts i n ps"
proof (induction ps arbitrary: i n)
  case (Cons p ps)
  then show ?case by (cases "cp_ImageURL p") (auto simp: checkScheme_def Let_def chatMaxImageParts_def MaxImageParts_def)
qed simp

lemma content_rules_agree:
  "mcpUnmarshalContent v = Content_UnmarshalJSON v" "mcpMarshalContent c = Content_MarshalJSON c" "mcpAsText c = AsText c"
  "mcpHasImage c = HasImage c" "mcpValidateContent c = ValidateContent c"
  by (simp_all add: mcpUnmarshalContent_def Content_UnmarshalJSON_def mcpMarshalContent_def Content_MarshalJSON_def mcpAsText_def AsText_def
      mcpHasImage_def HasImage_def Parts_def mcpValidateContent_def ValidateContent_def IsMultipart_def mcpJoin_join mcpValidateParts_agrees split: content.split)

definition wireOrig :: "mcpChatMessage \<Rightarrow> json" where
  "wireOrig m = wireMessage (mm_Role m) (Content_MarshalJSON (mm_Content m))"

lemma composedMessages_split:
  "composedMessages (pre @ map (\<lambda>m. textMessage (mm_Role m) (g m)) orig) orig = map (\<lambda>m. wireMessage (cm_Role m) (cm_Content m)) pre @ map wireOrig orig"
  by (rule nth_equalityI) (auto simp: composedMessages_def Let_def nth_enumerate_eq nth_append wireOrig_def textMessage_def content_rules_agree)

lemma Compose_extra:
  assumes "oq_Extra rq = None" "\<not> cr_IsAgentDispatch (Compose f kb ic d rq t)"
  shows "\<exists>v. oq_Extra (cr_Request (Compose f kb ic d rq t)) = Some [(''chat_template_kwargs'', v)]"
proof -
  have "\<exists>v. oq_Extra (applyOptions f x rq) = Some [(''chat_template_kwargs'', v)]" for x
    using assms(1) by (simp add: applyOptions_def setThinking_def Let_def mput_def split: option.split)
  then show ?thesis using assms(2) by (auto simp: Compose_def Let_def split: if_splits prod.splits)
qed

lemma optionalFields_other: "k \<noteq> ''max_tokens'' \<Longrightarrow> k \<noteq> ''temperature'' \<Longrightarrow> mget (optionalFields n t b) k = mget b k"
  by (simp add: optionalFields_def Let_def split: option.split)

lemma composedBody_messages:
  assumes "oq_Extra rq = Some [(''chat_template_kwargs'', v)]"
  shows "mget (composedBody override rq orig) ''messages'' = Some (JArr (composedMessages (rq_Messages rq) orig))"
  using assms by (cases override) (simp_all add: composedBody_def Let_def optionalFields_other mget_Cons mput_def[of _ _ "[_]"])

lemma legacyBody_messages: "mget (legacyBody b model args) ''messages'' = Some (JArr (map wireOrig (ca_Messages args)))"
  by (simp add: legacyBody_def optionalFields_other mget_Cons wireOrig_def content_rules_agree cong: map_cong)

lemma mcpBody_messages:
  assumes "mcpBody env cfg s t model args = Inr body"
  shows "\<exists>pre. (\<forall>j\<in>set pre. \<exists>txt. j = wireMessage ''system'' (JStr txt)) \<and> mget body ''messages'' = Some (JArr (pre @ map wireOrig (ca_Messages args)))"
proof (cases "ctc_Composer cfg")
  case None
  then show ?thesis using assms legacyBody_messages by (intro exI[of _ "[]"]) (auto simp: mcpBody_def Let_def)
next
  case (Some ic)
  let ?d = "mcpDecision env cfg (ca_Messages args)"
  let ?cr = "Compose (mce_mulTokens env) (mce_kb env) ic ?d (flatRequest model args) t"
  have nd: "\<not> cr_IsAgentDispatch ?cr" and b: "body = composedBody (cts_thinking s) (cr_Request ?cr) (ca_Messages args)"
    using assms Some by (auto simp: mcpBody_def Let_def split: if_splits)
  obtain pre where pre: "\<forall>m\<in>set pre. \<exists>x. m = textMessage ''system'' x" "rq_Messages (cr_Request ?cr) = pre @ rq_Messages (flatRequest model args)"
    using Compose_keeps[of "mce_mulTokens env" "mce_kb env" ic ?d "flatRequest model args" t] by blast
  obtain v where "oq_Extra (cr_Request ?cr) = Some [(''chat_template_kwargs'', v)]"
    using Compose_extra[OF _ nd] by (auto simp: flatRequest_def)
  then have "mget body ''messages'' = Some (JArr (map (\<lambda>m. wireMessage (cm_Role m) (cm_Content m)) pre @ map wireOrig (ca_Messages args)))"
    using pre(2) composedMessages_split[of pre "\<lambda>m. mcpAsText (mm_Content m)" "ca_Messages args"] by (simp add: b composedBody_messages flatRequest_def)
  moreover have "\<forall>j\<in>set (map (\<lambda>m. wireMessage (cm_Role m) (cm_Content m)) pre). \<exists>txt. j = wireMessage ''system'' (JStr txt)"
    using pre(1) by (fastforce simp: textMessage_def)
  ultimately show ?thesis by blast
qed

lemma firstInvalid_None: "firstInvalid i ms = None \<longleftrightarrow> (\<forall>m\<in>set ms. ValidateContent (mm_Content m) = None)"
  by (induction i ms rule: firstInvalid.induct) (auto simp: content_rules_agree split: option.splits)

lemma mcpSend_calls: "mcpSend env cfg b = (r, calls) \<Longrightarrow> body \<in> set calls \<Longrightarrow> b = body"
  by (auto simp: mcpSend_def Let_def split: if_splits sum.splits prod.splits)

definition cleared :: "chatToolsConfig \<Rightarrow> mcpAuthContext option \<Rightarrow> bool" where
  "cleared cfg ac \<longleftrightarrow> (case ctc_Clearance cfg of None \<Rightarrow> True
     | Some getClearance \<Rightarrow> (case ac of None \<Rightarrow> False | Some a \<Rightarrow> ma_AgentID a \<noteq> [] \<and> (\<exists>t. getClearance (ma_AgentID a) = Inr t \<and> t \<ge> 2)))"

lemma multimodalDenied_cleared:
  "multimodalDenied env cfg (case ac of None \<Rightarrow> [] | Some a \<Rightarrow> ma_AgentID a) True = None \<Longrightarrow> cleared cfg ac"
  by (auto simp: multimodalDenied_def cleared_def ClearanceExecute_def split: option.splits if_splits sum.splits)

text \<open>C33. What the chat_completion tool sends to the model is the conversation of the caller, every role and content as it
  was, behind system texts; every content has passed the validation. When a message carries an image: if the tools are
  configured with a clearance store, the agent is known and holds the execute tier there, and if they are configured with an
  audit log, it has got the entry naming the images. Nothing is required of a configuration without them, such as the one
  the command builds.\<close>

theorem mcp_chat_faithful:
  assumes "chatCompletionHandler env cfg ac params s = (r, calls, s')" "body \<in> set calls"
  shows "\<exists>args pre. mce_decode env params = Inr args \<and> (\<forall>j\<in>set pre. \<exists>txt. j = wireMessage ''system'' (JStr txt)) \<and>
    mget body ''messages'' = Some (JArr (pre @ map wireOrig (ca_Messages args))) \<and>
    (\<forall>m\<in>set (ca_Messages args). ValidateContent (mm_Content m) = None) \<and>
    (\<forall>m\<in>set (ca_Messages args). HasImage (mm_Content m) \<longrightarrow>
       (\<forall>getClearance. ctc_Clearance cfg = Some getClearance \<longrightarrow>
          (\<exists>a t. ac = Some a \<and> ma_AgentID a \<noteq> [] \<and> getClearance (ma_AgentID a) = Inr t \<and> t \<ge> 2)) \<and>
       (\<forall>l. cts_audit s = Some l \<longrightarrow> cts_audit s' = Some (l @ [mcpMultimodalEntry (case ac of None \<Rightarrow> [] | Some a \<Rightarrow> ma_TenantID a)
          (map (\<lambda>u. ImageRefForAudit (mce_sha256hex env) u (ctc_ImageHash cfg)) (mcpImages (ca_Messages args))) (ctc_ImageHash cfg)])))"
proof -
  obtain args where a: "mce_decode env params = Inr args" "ca_Messages args \<noteq> []" "firstInvalid 0 (ca_Messages args) = None"
    using assms by (auto simp: chatCompletionHandler_def split: sum.splits if_splits option.splits)
  let ?t = "case ac of None \<Rightarrow> [] | Some a \<Rightarrow> ma_TenantID a" and ?ag = "case ac of None \<Rightarrow> [] | Some a \<Rightarrow> ma_AgentID a"
  let ?mm = "list_ex (\<lambda>m. mcpHasImage (mm_Content m)) (ca_Messages args)"
  let ?e = "mcpMultimodalEntry ?t (map (\<lambda>u. ImageRefForAudit (mce_sha256hex env) u (ctc_ImageHash cfg)) (mcpImages (ca_Messages args))) (ctc_ImageHash cfg)"
  define s1 where "s1 = (if ?mm then auditTools ?e s else s)"
  define model where "model = (if ca_Model args = [] then cts_defaultModel s1 else ca_Model args)"
  have d: "multimodalDenied env cfg ?ag ?mm = None"
    using assms a by (cases "multimodalDenied env cfg ?ag ?mm") (simp_all add: chatCompletionHandler_def Let_def)
  have h: "chatCompletionHandler env cfg ac params s = (if model = [] then (Inl ''no model specified and AGENTOS_MODEL_DEFAULT not configured'', [], s1)
      else case mcpBody env cfg s1 ?t model args of Inl notice \<Rightarrow> (Inr notice, [], s1) | Inr b \<Rightarrow> (case mcpSend env cfg b of (r, calls) \<Rightarrow> (r, calls, s1)))"
    unfolding s1_def model_def using a d by (simp add: chatCompletionHandler_def Let_def)
  have bd: "mcpBody env cfg s1 ?t model args = Inr body" "s' = s1"
    using assms h by (auto dest: mcpSend_calls split: if_splits sum.splits prod.splits)
  obtain pre where pre: "\<forall>j\<in>set pre. \<exists>txt. j = wireMessage ''system'' (JStr txt)" "mget body ''messages'' = Some (JArr (pre @ map wireOrig (ca_Messages args)))"
    using mcpBody_messages[OF bd(1)] by blast
  have im: "cleared cfg ac \<and> cts_audit s' = map_option (\<lambda>l. l @ [?e]) (cts_audit s)" if "m \<in> set (ca_Messages args)" "HasImage (mm_Content m)" for m
  proof -
    have mm: ?mm using that by (auto simp: list_ex_iff content_rules_agree)
    then show ?thesis using multimodalDenied_cleared[of env cfg ac] d bd(2) by (simp add: s1_def auditTools_def)
  qed
  have c: "\<exists>a t. ac = Some a \<and> ma_AgentID a \<noteq> [] \<and> getClearance (ma_AgentID a) = Inr t \<and> t \<ge> 2"
    if "m \<in> set (ca_Messages args)" "HasImage (mm_Content m)" "ctc_Clearance cfg = Some getClearance" for m getClearance
    using im[OF that(1,2)] that(3) by (auto simp: cleared_def split: option.splits)
  have l: "cts_audit s' = Some (l @ [?e])" if "m \<in> set (ca_Messages args)" "HasImage (mm_Content m)" "cts_audit s = Some l" for m l
    using im[OF that(1,2)] that(3) by simp
  show ?thesis using a(1) pre c l a(3)[unfolded firstInvalid_None] by (intro exI[of _ args] exI[of _ pre] conjI ballI impI allI) (assumption | blast)+
qed

text \<open>Setting the thinking mode cannot be undone: no tool gives the decision back to the classifier.\<close>

lemma thinking_mode_stays:
  "cts_thinking s \<noteq> None \<Longrightarrow> cts_thinking (snd (setThinkingModeHandler dec p s)) \<noteq> None"
  "cts_thinking s \<noteq> None \<Longrightarrow> cts_thinking (snd (swapModelHandler dec' p s)) \<noteq> None"
  "cts_thinking (snd (snd (chatCompletionHandler env cfg ac p s))) = cts_thinking s"
  by (auto simp: setThinkingModeHandler_def SetThinkingMode_def swapModelHandler_def SwapModel_def chatCompletionHandler_def auditTools_def Let_def
      split: sum.split option.split prod.split)

text \<open>Any agent with the public tier reads the default model; swapping it changes every tenant's default.\<close>

lemma swap_visible:
  "dec p = Inr m \<Longrightarrow> TrimSpace m \<noteq> [] \<Longrightarrow> getActiveModelHandler (snd (swapModelHandler dec p s)) = Inr (JObj [(''model'', JStr m)])"
  by (auto simp: swapModelHandler_def SwapModel_def getActiveModelHandler_def TrimSpace_def)

definition mcpVisionArgs :: chatCompletionArgs where
  "mcpVisionArgs = \<lparr>ca_Model = ''m'', ca_Messages = [\<lparr>mm_Role = ''user'',
     mm_Content = PartsContent [\<lparr>cp_Type = ''image_url'', cp_Text = [], cp_ImageURL = Some \<lparr>iu_URL = ''https://i'', iu_Detail = []\<rparr>\<rparr>]\<rparr>],
     ca_MaxTokens = 0, ca_Temperature = None\<rparr>"

definition mcpVisionEnv :: mcpChatEnv where
  "mcpVisionEnv = \<lparr>mce_decode = (\<lambda>_. Inr mcpVisionArgs), mce_sha256hex = (\<lambda>u. u), mce_classifier = (\<lambda>_ _. NoReply []), mce_kb = None,
     mce_mulTokens = (\<lambda>n _. n), mce_send = (\<lambda>_ _ _. Inr (200, [])), mce_unmarshal = (\<lambda>_. Inr JNull), mce_contentMsg = (\<lambda>_. []), mce_clearMsg = (\<lambda>_. [])\<rparr>"

definition mcpVisionConfig :: chatToolsConfig where
  "mcpVisionConfig = \<lparr>ctc_Model = \<lparr>mc_Provider = ''openai'', mc_BaseURL = ''http://m'', mc_APIKey = [], mc_DefaultModel = ''m'', mc_Timeout = 1\<rparr>,
     ctc_Router = \<lparr>rc_Enabled = True, rc_ClassifierURL = ''u''\<rparr>, ctc_Composer = None, ctc_ImageHash = False, ctc_Clearance = Some (\<lambda>_. Inr 2)\<rparr>"

text \<open>The configuration of the command names neither a clearance store nor an audit log: an image from a caller without
  identity is sent on, and nothing is recorded.\<close>

definition shippedChatTools :: "modelConfig \<Rightarrow> routerConfig \<Rightarrow> intentConfig option \<Rightarrow> chatToolsConfig" where
  "shippedChatTools modelCfg routerCfg composer =
     \<lparr>ctc_Model = modelCfg, ctc_Router = routerCfg, ctc_Composer = composer, ctc_ImageHash = False, ctc_Clearance = None\<rparr>"

lemma shipped_images_ungated:
  defines "cfg \<equiv> shippedChatTools (ctc_Model mcpVisionConfig) (ctc_Router mcpVisionConfig) None"
  shows "\<exists>r body s'. chatCompletionHandler mcpVisionEnv cfg None [] (newChatToolsState cfg None) = (r, [body], s') \<and> cts_audit s' = None"
proof -
  have "firstInvalid 0 (ca_Messages mcpVisionArgs) = None" "list_ex (\<lambda>m. mcpHasImage (mm_Content m)) (ca_Messages mcpVisionArgs)" "ca_Messages mcpVisionArgs \<noteq> []"
    "ca_Model mcpVisionArgs = ''m''" by code_simp+
  then show ?thesis unfolding cfg_def
    by (auto simp: chatCompletionHandler_def mcpVisionEnv_def mcpVisionConfig_def shippedChatTools_def newChatToolsState_def auditTools_def
        multimodalDenied_def mcpBody_def mcpSend_def trimTrailingSlashes_def Let_def)
qed

theorem mcp_chat_faithful_witness:
  "\<exists>body. fst (snd (chatCompletionHandler mcpVisionEnv mcpVisionConfig (Some \<lparr>ma_AgentID = ''a'', ma_TenantID = ''t''\<rparr>) []
     (newChatToolsState mcpVisionConfig (Some [])))) = [body] \<and>
   (\<exists>pre. mget body ''messages'' = Some (JArr (pre @ map wireOrig (ca_Messages mcpVisionArgs))))"
proof -
  obtain r calls s' where h: "chatCompletionHandler mcpVisionEnv mcpVisionConfig (Some \<lparr>ma_AgentID = ''a'', ma_TenantID = ''t''\<rparr>) []
     (newChatToolsState mcpVisionConfig (Some [])) = (r, calls, s')" by (metis surj_pair)
  have "firstInvalid 0 (ca_Messages mcpVisionArgs) = None" "list_ex (\<lambda>m. mcpHasImage (mm_Content m)) (ca_Messages mcpVisionArgs)" "ca_Messages mcpVisionArgs \<noteq> []"
    "ca_Model mcpVisionArgs = ''m''" by code_simp+
  then have "length calls = 1" using h
    by (auto simp: chatCompletionHandler_def mcpVisionEnv_def mcpVisionConfig_def multimodalDenied_def ClearanceExecute_def mcpBody_def mcpSend_def
        trimTrailingSlashes_def Let_def)
  then obtain body where b: "calls = [body]" by (auto simp: length_Suc_conv)
  moreover have "mce_decode mcpVisionEnv [] = Inr mcpVisionArgs" by (simp add: mcpVisionEnv_def)
  ultimately show ?thesis using mcp_chat_faithful[OF h, of body] h by auto
qed

end
