(* ===== verification/Containers.thy ===== *)
theory Containers
  imports MCP_Chat_Tool
begin

text \<open>
  Containers: the sandbox executor over the Docker API (internal/sandbox/executor.go), its MCP tools (mcp/tools/sandbox.go), and
  the observation tools (mcp/tools/observe.go: metrics, alerts, container status and logs).

  \<^item> A call of the Docker API is a request whose answer, a status and a body or a transport error, is an argument. Running
    code returns the requests it made, in order.
  \<^item> Shown: every container is created without network, read-only and with bounded resources, only it is touched, and once
    Docker has named it it is removed whatever happens; frames of the multiplexed log stream are split exactly; and where the log reader loses data.
\<close>

subsection \<open>The multiplexed log stream\<close>

definition be32 :: "string \<Rightarrow> nat" where
  "be32 b = foldl (\<lambda>n c. n * 256 + of_char c) 0 b"

text \<open>The header of a frame: the stream, three zero bytes, the size.\<close>

function demuxDockerStream :: "string \<Rightarrow> string \<times> string \<Rightarrow> string \<times> string" where
  "demuxDockerStream data (out, err) =
     (if length data < 8 then (out, err)
      else
        (let streamType = (of_char (hd data) :: nat); size = be32 (take 4 (drop 4 data)); rest = drop 8 data; p = take size rest in
         demuxDockerStream (drop size rest)
           (if streamType = 1 then (out @ p, err) else if streamType = 2 then (out, err @ p) else (out, err))))"
  by pat_completeness auto
termination by (relation "measure (length \<circ> fst)") auto

declare demuxDockerStream.simps [simp del]

function stripFrames :: "string \<Rightarrow> string \<Rightarrow> string \<times> string" where
  "stripFrames raw sb =
     (if length raw < 8 then (sb, raw)
      else (let size = be32 (take 4 (drop 4 raw)); rest = drop 8 raw in stripFrames (drop size rest) (sb @ take size rest)))"
  by pat_completeness auto
termination by (relation "measure (length \<circ> fst)") auto

declare stripFrames.simps [simp del]

definition stripDockerLogHeaders :: "string \<Rightarrow> string" where
  "stripDockerLogHeaders raw = (case stripFrames raw [] of (sb, rest) \<Rightarrow> if sb = [] then rest else sb)"

subsection \<open>The Docker API\<close>

record containerSpec =
  cb_Image :: string
  cb_Cmd :: "string list"
  cb_WorkingDir :: string
  cb_NetworkDisabled :: bool
  cb_Labels :: "(string, string) gomap"
  cb_Memory :: int
  cb_NanoCPUs :: int
  cb_ReadonlyRootfs :: bool
  cb_Tmpfs :: "(string, string) gomap"
  cb_NetworkMode :: string
  cb_OpenStdin :: bool
  cb_Tty :: bool

record dockerReq =
  dk_Method :: string
  dk_Path :: string
  dk_Spec :: "containerSpec option"

record dockerEnv =
  de_http :: "dockerReq \<Rightarrow> string + int \<times> string"
  de_elapsed :: "dockerReq \<Rightarrow> duration"
  de_decodeID :: "string \<Rightarrow> string + string"
  de_decodeExit :: "string \<Rightarrow> string + int"
  de_callerGone :: bool
  de_name :: string
  de_duration :: duration

record execResult =
  er_Stdout :: string
  er_Stderr :: string
  er_ExitCode :: int
  er_TimedOut :: bool
  er_Duration :: duration

record langConfig =
  lc_Image :: string
  lc_Cmd :: "string list"

definition SupportedLanguages :: "(string, langConfig) gomap" where
  "SupportedLanguages =
     [(''python'', \<lparr>lc_Image = ''python:3.12-slim'', lc_Cmd = [''python3'', ''-c'']\<rparr>),
      (''javascript'', \<lparr>lc_Image = ''node:22-slim'', lc_Cmd = [''node'', ''-e'']\<rparr>),
      (''go'', \<lparr>lc_Image = ''golang:1.22-alpine'', lc_Cmd = [''sh'', ''-c'', ''cat > /tmp/main.go && go run /tmp/main.go'']\<rparr>),
      (''bash'', \<lparr>lc_Image = ''alpine:latest'', lc_Cmd = [''sh'', ''-c'']\<rparr>)]"

definition containsText :: "string \<Rightarrow> string \<Rightarrow> bool" where
  "containsText s t = list_ex (\<lambda>i. HasPrefix (drop i s) t) [0..<Suc (length s)]"

definition buildCommand :: "langConfig \<Rightarrow> string \<Rightarrow> string list" where
  "buildCommand lang code =
     (if length (lc_Cmd lang) = 3 \<and> lc_Cmd lang ! 0 = ''sh'' \<and> lc_Cmd lang ! 1 = ''-c'' then
        (if containsText (lc_Cmd lang ! 2) ''go run''
         then [''sh'', ''-c'', ''cat > /tmp/main.go << '' @ [CHR 0x27] @ ''GOEOF'' @ [CHR 0x27] @ newline @ code @ newline @ ''GOEOF'' @ newline @ ''go run /tmp/main.go'']
         else [''sh'', ''-c'', code])
      else lc_Cmd lang @ [code])"

definition containerPath :: "string \<Rightarrow> string \<Rightarrow> string" where
  "containerPath cid suffix = ''/v1.43/containers/'' @ cid @ suffix"

definition createReq :: "string \<Rightarrow> containerSpec \<Rightarrow> dockerReq" where
  "createReq name spec = \<lparr>dk_Method = ''POST'', dk_Path = ''/v1.43/containers/create?name=agentos-sandbox-'' @ name, dk_Spec = Some spec\<rparr>"

definition plainReq :: "string \<Rightarrow> string \<Rightarrow> string \<Rightarrow> dockerReq" where
  "plainReq meth cid suffix = \<lparr>dk_Method = meth, dk_Path = containerPath cid suffix, dk_Spec = None\<rparr>"

definition removeReq :: "string \<Rightarrow> dockerReq" where "removeReq cid = plainReq ''DELETE'' cid ''?force=true''"

definition sandboxSpec :: "string \<Rightarrow> string list \<Rightarrow> containerSpec" where
  "sandboxSpec img cmd =
     \<lparr>cb_Image = img, cb_Cmd = cmd, cb_WorkingDir = ''/sandbox'', cb_NetworkDisabled = True, cb_Labels = [(''nexixai.role'', ''sandbox'')],
      cb_Memory = 512 * 1024 * 1024, cb_NanoCPUs = 1000000000, cb_ReadonlyRootfs = True, cb_Tmpfs = [(''/tmp'', ''size=64m''), (''/sandbox'', ''size=64m'')],
      cb_NetworkMode = ''none'', cb_OpenStdin = False, cb_Tty = False\<rparr>"

definition badStatus :: "int \<Rightarrow> string \<Rightarrow> string" where
  "badStatus st body = ''unexpected status '' @ Itoa st @ '': '' @ body"

definition createContainer :: "dockerEnv \<Rightarrow> containerSpec \<Rightarrow> string + string" where
  "createContainer env spec =
     (case de_http env (createReq (de_name env) spec) of
        Inl e \<Rightarrow> Inl (''docker API call: '' @ e)
      | Inr (st, body) \<Rightarrow> if st \<noteq> 201 then Inl (badStatus st body)
          else (case de_decodeID env body of Inl e \<Rightarrow> Inl (''decode response: '' @ e) | Inr cid \<Rightarrow> Inr cid))"

text \<open>A request that must be answered with one of two statuses.\<close>

definition expectStatus :: "dockerEnv \<Rightarrow> int list \<Rightarrow> dockerReq \<Rightarrow> string option" where
  "expectStatus env oks rq =
     (case de_http env rq of Inl e \<Rightarrow> Some (''docker API call: '' @ e) | Inr (st, body) \<Rightarrow> if st \<in> set oks then None else Some (badStatus st body))"

definition startContainer :: "dockerEnv \<Rightarrow> string \<Rightarrow> string option" where
  "startContainer env cid = expectStatus env [204, 304] (plainReq ''POST'' cid ''/start'')"

definition killContainer :: "dockerEnv \<Rightarrow> string \<Rightarrow> string option" where
  "killContainer env cid = expectStatus env [204, 404] (plainReq ''POST'' cid ''/kill'')"

definition removeContainer :: "dockerEnv \<Rightarrow> string \<Rightarrow> string option" where
  "removeContainer env cid = expectStatus env [204, 404] (removeReq cid)"

text \<open>The wait has a deadline: when Docker has not begun to answer within the timeout (\<open>de_elapsed\<close>), or when the caller has
  gone away, the request fails and the context has ended.\<close>

definition waitContainer :: "dockerEnv \<Rightarrow> duration \<Rightarrow> string \<Rightarrow> string + bool \<times> int" where
  "waitContainer env timeout cid =
     (if de_elapsed env (plainReq ''POST'' cid ''/wait'') \<ge> timeout then Inr (True, -1)
      else case de_http env (plainReq ''POST'' cid ''/wait'') of
        Inl e \<Rightarrow> if de_callerGone env then Inr (True, -1) else Inl (''docker API call: '' @ e)
      | Inr (st, body) \<Rightarrow> if st \<noteq> 200 then Inl (badStatus st body)
          else (case de_decodeExit env body of Inl e \<Rightarrow> Inl (''decode response: '' @ e) | Inr c \<Rightarrow> Inr (False, c)))"

definition logsReq :: "string \<Rightarrow> dockerReq" where "logsReq cid = plainReq ''GET'' cid ''/logs?stdout=true&stderr=true''"

definition getLogs :: "dockerEnv \<Rightarrow> string \<Rightarrow> string + string \<times> string" where
  "getLogs env cid =
     (case de_http env (logsReq cid) of
        Inl e \<Rightarrow> Inl (''docker API call: '' @ e)
      | Inr (st, body) \<Rightarrow> if st \<noteq> 200 then Inl (badStatus st body) else Inr (demuxDockerStream body ([], [])))"

text \<open>Start, wait, kill when the time is up, read the logs; the removal is the last request on every path.\<close>

definition executeInContainer :: "dockerEnv \<Rightarrow> duration \<Rightarrow> string \<Rightarrow> (string + execResult) \<times> dockerReq list" where
  "executeInContainer env timeout cid =
     (let started = plainReq ''POST'' cid ''/start''; waited = plainReq ''POST'' cid ''/wait''; killed = plainReq ''POST'' cid ''/kill'' in
      case startContainer env cid of
        Some e \<Rightarrow> (Inl (''sandbox: start container: '' @ e), [started, removeReq cid])
      | None \<Rightarrow>
          (case waitContainer env timeout cid of
             Inl e \<Rightarrow> (Inl (''sandbox: wait container: '' @ e), [started, waited, removeReq cid])
           | Inr (timedOut, code) \<Rightarrow>
               (let calls = [started, waited] @ (if timedOut then [killed] else []) @ [logsReq cid, removeReq cid] in
                case getLogs env cid of
                  Inl e \<Rightarrow> (Inl (''sandbox: get logs: '' @ e), calls)
                | Inr (so, se) \<Rightarrow>
                    (Inr \<lparr>er_Stdout = so, er_Stderr = se, er_ExitCode = code, er_TimedOut = timedOut, er_Duration = de_duration env\<rparr>, calls))))"

definition runSandboxed :: "dockerEnv \<Rightarrow> duration \<Rightarrow> containerSpec \<Rightarrow> (string + execResult) \<times> dockerReq list" where
  "runSandboxed env timeout spec =
     (case createContainer env spec of
        Inl e \<Rightarrow> (Inl (''sandbox: create container: '' @ e), [createReq (de_name env) spec])
      | Inr cid \<Rightarrow> (case executeInContainer env timeout cid of (r, calls) \<Rightarrow> (r, createReq (de_name env) spec # calls)))"

definition Execute :: "dockerEnv \<Rightarrow> duration \<Rightarrow> string \<Rightarrow> string \<Rightarrow> (string + execResult) \<times> dockerReq list" where
  "Execute env timeout lang code =
     (if code = [] then (Inl ''sandbox: code must not be empty'', [])
      else case mget SupportedLanguages lang of
        None \<Rightarrow> (Inl (''sandbox: unsupported language '' @ [CHR 0x22] @ lang @ [CHR 0x22]), [])
      | Some lc \<Rightarrow> runSandboxed env timeout (sandboxSpec (lc_Image lc) (buildCommand lc code)))"

definition ExecuteShell :: "dockerEnv \<Rightarrow> duration \<Rightarrow> string \<Rightarrow> (string + execResult) \<times> dockerReq list" where
  "ExecuteShell env timeout command =
     (if command = [] then (Inl ''sandbox: command must not be empty'', [])
      else runSandboxed env timeout (sandboxSpec ''ubuntu:24.04'' [''bash'', ''-c'', command]))"

subsection \<open>The sandbox tools\<close>

definition defaultTimeoutSeconds :: int where "defaultTimeoutSeconds = 30"
definition maxTimeoutSeconds :: int where "maxTimeoutSeconds = 300"

definition sandboxTimeout :: "int option \<Rightarrow> string + int" where
  "sandboxTimeout t =
     (case t of None \<Rightarrow> Inr defaultTimeoutSeconds
      | Some n \<Rightarrow> if n < 1 then Inl ''timeout_seconds must be at least 1''
          else if n > maxTimeoutSeconds then Inl (''timeout_seconds must not exceed '' @ Itoa maxTimeoutSeconds) else Inr n)"

definition sandboxReply :: "(string + execResult) \<times> dockerReq list \<Rightarrow> (string + execResult) \<times> dockerReq list" where
  "sandboxReply rc = (case rc of (Inl e, calls) \<Rightarrow> (Inl (''execution failed: '' @ e), calls) | (Inr r, calls) \<Rightarrow> (Inr r, calls))"

definition makeExecuteCodeHandler ::
  "dockerEnv \<Rightarrow> (string \<Rightarrow> string + string \<times> string \<times> int option) \<Rightarrow> string \<Rightarrow> (string + execResult) \<times> dockerReq list" where
  "makeExecuteCodeHandler env decode params =
     (case decode params of
        Inl e \<Rightarrow> (Inl (''invalid parameters: '' @ e), [])
      | Inr (lang, code, t) \<Rightarrow>
          if lang = [] then (Inl ''language is required'', [])
          else if code = [] then (Inl ''code is required'', [])
          else (case sandboxTimeout t of Inl e \<Rightarrow> (Inl e, []) | Inr n \<Rightarrow> sandboxReply (Execute env (seconds n) lang code)))"

definition makeExecuteShellHandler ::
  "dockerEnv \<Rightarrow> (string \<Rightarrow> string + string \<times> int option) \<Rightarrow> string \<Rightarrow> (string + execResult) \<times> dockerReq list" where
  "makeExecuteShellHandler env decode params =
     (case decode params of
        Inl e \<Rightarrow> (Inl (''invalid parameters: '' @ e), [])
      | Inr (command, t) \<Rightarrow>
          if command = [] then (Inl ''command is required'', [])
          else (case sandboxTimeout t of Inl e \<Rightarrow> (Inl e, []) | Inr n \<Rightarrow> sandboxReply (ExecuteShell env (seconds n) command)))"

subsection \<open>The observation tools\<close>

record portainerContainer =
  pc_ID :: string
  pc_Names :: "string list"
  pc_State :: string
  pc_Status :: string
  pc_Image :: string
  pc_Created :: int
  pc_Ports :: json

record containerStatusResult =
  sr_Name :: string
  sr_State :: string
  sr_Status :: string
  sr_Image :: string
  sr_Created :: string
  sr_Ports :: json

text \<open>A request to Portainer: its URL and key; the answer is a status and a body.\<close>

type_synonym portainer = "string \<Rightarrow> string \<Rightarrow> string + int \<times> string"

definition makeQueryMetricsHandler :: "(string \<Rightarrow> string + json) \<Rightarrow> (string \<Rightarrow> string + string) \<Rightarrow> string \<Rightarrow> string + json" where
  "makeQueryMetricsHandler query decode params =
     (case decode params of
        Inl e \<Rightarrow> Inl (''query_metrics: invalid arguments: '' @ e)
      | Inr q \<Rightarrow> if q = [] then Inl (''query_metrics: missing required parameter '' @ [CHR 0x27] @ ''query'' @ [CHR 0x27])
          else (case query q of Inl e \<Rightarrow> Inl (''query_metrics: '' @ e) | Inr v \<Rightarrow> Inr v))"

definition makeGetAlertsHandler :: "string + json \<Rightarrow> string + json" where
  "makeGetAlertsHandler alerts = (case alerts of Inl e \<Rightarrow> Inl (''get_alerts: '' @ e) | Inr v \<Rightarrow> Inr v)"

definition listContainersURL :: "string \<Rightarrow> string \<Rightarrow> string" where
  "listContainersURL base endpointID = trimTrailingSlashes base @ ''/endpoints/'' @ endpointID @ ''/docker/containers/json?all=true''"

definition defaultEndpoint :: "string \<Rightarrow> string" where "defaultEndpoint e = (if e = [] then ''3'' else e)"

definition statusResult :: "(int \<Rightarrow> string) \<Rightarrow> string \<Rightarrow> portainerContainer \<Rightarrow> containerStatusResult" where
  "statusResult fmtTime name c =
     \<lparr>sr_Name = TrimPrefix name ''/'', sr_State = pc_State c, sr_Status = pc_Status c, sr_Image = pc_Image c, sr_Created = fmtTime (pc_Created c), sr_Ports = pc_Ports c\<rparr>"

fun findContainer :: "string \<Rightarrow> portainerContainer list \<Rightarrow> (string \<times> portainerContainer) option" where
  "findContainer target [] = None"
| "findContainer target (c # cs) =
     (case find (\<lambda>n. n = ''/'' @ target \<or> n = target) (pc_Names c) of Some n \<Rightarrow> Some (n, c) | None \<Rightarrow> findContainer target cs)"

definition makeGetContainerStatusHandler ::
  "portainer \<Rightarrow> (string \<Rightarrow> string + portainerContainer list) \<Rightarrow> (int \<Rightarrow> string) \<Rightarrow> (string \<Rightarrow> string + string \<times> string) \<Rightarrow> string \<Rightarrow> string \<Rightarrow> string
   \<Rightarrow> string + containerStatusResult list" where
  "makeGetContainerStatusHandler get decodeList fmtTime decode base key params =
     (if key = [] then Inl ''get_container_status: PORTAINER_API_KEY is not set''
      else case decode params of
        Inl e \<Rightarrow> Inl (''get_container_status: invalid arguments: '' @ e)
      | Inr (name, ep) \<Rightarrow>
          (case get (listContainersURL base (defaultEndpoint ep)) key of
             Inl e \<Rightarrow> Inl (''get_container_status: portainer request: '' @ e)
           | Inr (st, body) \<Rightarrow>
               if st = 401 then Inl ''get_container_status: portainer returned 401 Unauthorized''
               else if st \<noteq> 200 then Inl (''get_container_status: portainer returned '' @ Itoa st @ '': '' @ take 512 body)
               else (case decodeList body of
                       Inl e \<Rightarrow> Inl (''get_container_status: decode response: '' @ e)
                     | Inr cs \<Rightarrow>
                         if name = [] then Inr (map (\<lambda>c. statusResult fmtTime (case pc_Names c of [] \<Rightarrow> [] | n # _ \<Rightarrow> n) c) cs)
                         else (case findContainer name cs of
                                 Some (n, c) \<Rightarrow> Inr [statusResult fmtTime n c]
                               | None \<Rightarrow> Inl (''get_container_status: container '' @ [CHR 0x22] @ name @ [CHR 0x22] @ '' not found'')))))"

record containerLogsResult =
  lr_ContainerName :: string
  lr_Logs :: string
  lr_Lines :: nat
  lr_Timestamp :: string

definition clampTail :: "int \<Rightarrow> int" where
  "clampTail n = (let m = (if n \<le> 0 then 100 else n) in if m > 1000 then 1000 else m)"

definition logsURL :: "string \<Rightarrow> string \<Rightarrow> string \<Rightarrow> int \<Rightarrow> string" where
  "logsURL base ep cid n = trimTrailingSlashes base @ ''/endpoints/'' @ ep @ ''/docker/containers/'' @ cid @ ''/logs?stdout=1&stderr=1&tail='' @ Itoa n @ ''&timestamps=1''"

definition makeReadContainerLogsHandler ::
  "portainer \<Rightarrow> (string \<Rightarrow> string + portainerContainer list) \<Rightarrow> string \<Rightarrow> (string \<Rightarrow> string + string \<times> int \<times> string) \<Rightarrow> string \<Rightarrow> string \<Rightarrow> string
   \<Rightarrow> string + containerLogsResult" where
  "makeReadContainerLogsHandler get decodeList now decode base key params =
     (if key = [] then Inl ''read_container_logs: PORTAINER_API_KEY is not set''
      else case decode params of
        Inl e \<Rightarrow> Inl (''read_container_logs: invalid arguments: '' @ e)
      | Inr (name, n, ep0) \<Rightarrow>
          if name = [] then Inl (''read_container_logs: missing required parameter '' @ [CHR 0x27] @ ''container_name'' @ [CHR 0x27])
          else
            (let ep = defaultEndpoint ep0 in
             case get (listContainersURL base ep) key of
               Inl e \<Rightarrow> Inl (''read_container_logs: portainer list request: '' @ e)
             | Inr (st, body) \<Rightarrow>
                 if st \<noteq> 200 then Inl (''read_container_logs: portainer list returned '' @ Itoa st @ '': '' @ take 512 body)
                 else (case decodeList body of
                         Inl e \<Rightarrow> Inl (''read_container_logs: decode container list: '' @ e)
                       | Inr cs \<Rightarrow>
                           (case findContainer name (filter (\<lambda>c. pc_ID c \<noteq> []) cs) of
                              None \<Rightarrow> Inl (''read_container_logs: container '' @ [CHR 0x22] @ name @ [CHR 0x22] @ '' not found'')
                            | Some (_, c) \<Rightarrow>
                                (case get (logsURL base ep (pc_ID c) (clampTail n)) key of
                                   Inl e \<Rightarrow> Inl (''read_container_logs: portainer logs request: '' @ e)
                                 | Inr (st2, raw) \<Rightarrow>
                                     if st2 \<noteq> 200 then Inl (''read_container_logs: portainer logs returned '' @ Itoa st2 @ '': '' @ take 512 raw)
                                     else (let logs = stripDockerLogHeaders (take (1024 * 1024) raw) in
                                           Inr \<lparr>lr_ContainerName = name, lr_Logs = logs, lr_Lines = length (filter (\<lambda>ch. ch = CHR 0x0A) logs), lr_Timestamp = now\<rparr>))))))"

subsection \<open>Properties\<close>

definition be32Enc :: "nat \<Rightarrow> string" where
  "be32Enc n = [char_of (n div 16777216 mod 256), char_of (n div 65536 mod 256), char_of (n div 256 mod 256), char_of (n mod 256)]"

lemma be32_Enc: "n < 4294967296 \<Longrightarrow> be32 (be32Enc n) = n"
proof -
  assume n: "n < 4294967296"
  have d: "n div 65536 = n div 256 div 256" "n div 16777216 = n div 65536 div 256" by (simp_all add: div_mult2_eq[symmetric])
  have top: "n div 16777216 mod 256 = n div 16777216" using n by (simp add: less_mult_imp_div_less)
  have c: "of_char (char_of (k mod 256) :: char) = k mod 256" for k :: nat by simp
  have "n div 16777216 * 256 + n div 65536 mod 256 = n div 65536" unfolding d(2) by (rule div_mult_mod_eq)
  moreover have "n div 65536 * 256 + n div 256 mod 256 = n div 256" unfolding d(1) by (rule div_mult_mod_eq)
  moreover have "n div 256 * 256 + n mod 256 = n" by (rule div_mult_mod_eq)
  ultimately show ?thesis by (simp add: be32_def be32Enc_def c top)
qed

definition frame :: "nat \<times> string \<Rightarrow> string" where
  "frame f = (case f of (t, p) \<Rightarrow> [char_of t, char_of (0 :: nat), char_of (0 :: nat), char_of (0 :: nat)] @ be32Enc (length p) @ p)"

lemma frame_parts:
  assumes "length p < 4294967296"
  shows "\<not> length (frame (t, p) @ rest) < 8" "be32 (take 4 (drop 4 (frame (t, p) @ rest))) = length p" "drop 8 (frame (t, p) @ rest) = p @ rest"
    "hd (frame (t, p) @ rest) = char_of t"
proof -
  have l: "length (be32Enc (length p)) = 4" by (simp add: be32Enc_def)
  show "\<not> length (frame (t, p) @ rest) < 8" using l by (simp add: frame_def)
  have "take 4 (drop 4 (frame (t, p) @ rest)) = be32Enc (length p)" using l by (simp add: frame_def)
  then show "be32 (take 4 (drop 4 (frame (t, p) @ rest))) = length p" using be32_Enc[OF assms] by simp
  show "drop 8 (frame (t, p) @ rest) = p @ rest" using l by (simp add: frame_def drop_append)
  show "hd (frame (t, p) @ rest) = char_of t" by (simp add: frame_def)
qed

text \<open>The demultiplexer of the sandbox inverts the stream format: for any frames, the output is the payloads of
  stream 1 in order and the payloads of stream 2 in order, and an incomplete header at the end is ignored.\<close>

theorem demux_frames:
  assumes "\<forall>f\<in>set fs. fst f < 256 \<and> length (snd f) < 4294967296" "length rest < 8"
  shows "demuxDockerStream (concat (map frame fs) @ rest) (out, err) =
    (out @ concat (map snd (filter (\<lambda>f. fst f = 1) fs)), err @ concat (map snd (filter (\<lambda>f. fst f = 2) fs)))"
  using assms(1)
proof (induction fs arbitrary: out err)
  case Nil
  then show ?case using assms(2) by (simp add: demuxDockerStream.simps)
next
  case (Cons f fs)
  obtain t p where f: "f = (t, p)" by (cases f)
  have b: "t < 256" "length p < 4294967296" using Cons.prems f by auto
  note fp = frame_parts[OF b(2), of t "concat (map frame fs) @ rest"]
  have ih: "demuxDockerStream (concat (map frame fs) @ rest) (o', e') =
    (o' @ concat (map snd (filter (\<lambda>f. fst f = 1) fs)), e' @ concat (map snd (filter (\<lambda>f. fst f = 2) fs)))" for o' e'
    using Cons.IH Cons.prems by simp
  have t: "of_char (char_of t) = t" using b(1) by simp
  show ?case using ih fp t
    by (subst demuxDockerStream.simps) (simp add: f Let_def)
qed

theorem demux_frames_witness:
  "demuxDockerStream (concat (map frame [(1 :: nat, ''a''), (2, ''b''), (1, ''c'')]) @ []) ([], []) =
    ([] @ concat (map snd (filter (\<lambda>f. fst f = 1) [(1 :: nat, ''a''), (2, ''b''), (1, ''c'')])), [] @ concat (map snd (filter (\<lambda>f. fst f = 2) [(1 :: nat, ''a''), (2, ''b''), (1, ''c'')])))"
  by (rule demux_frames) simp_all

subsubsection \<open>Isolation and removal\<close>

definition isolated :: "containerSpec \<Rightarrow> bool" where
  "isolated sp \<longleftrightarrow> cb_NetworkDisabled sp \<and> cb_NetworkMode sp = ''none'' \<and> cb_ReadonlyRootfs sp \<and> cb_Memory sp = 536870912 \<and> cb_NanoCPUs sp = 1000000000
     \<and> map fst (cb_Tmpfs sp) = [''/tmp'', ''/sandbox''] \<and> \<not> cb_OpenStdin sp"

lemma sandboxSpec_isolated [simp]: "isolated (sandboxSpec img cmd)"
  by (simp add: isolated_def sandboxSpec_def)

text \<open>A request on the container \<open>cid\<close> that creates nothing.\<close>

definition concerns :: "string \<Rightarrow> dockerReq \<Rightarrow> bool" where
  "concerns cid rq \<longleftrightarrow> dk_Spec rq = None \<and> (\<exists>suffix. dk_Path rq = containerPath cid suffix)"

lemma concerns_plain [simp]: "concerns cid (plainReq meth cid suffix)" "concerns cid (removeReq cid)" "concerns cid (logsReq cid)"
  by (auto simp: concerns_def plainReq_def removeReq_def logsReq_def)

lemma executeInContainer_calls:
  "list_all (concerns cid) (snd (executeInContainer env timeout cid))" "snd (executeInContainer env timeout cid) \<noteq> []"
  "last (snd (executeInContainer env timeout cid)) = removeReq cid"
  by (auto simp: executeInContainer_def Let_def split: option.splits sum.splits prod.splits)

definition waitReq :: "string \<Rightarrow> dockerReq" where "waitReq cid = plainReq ''POST'' cid ''/wait''"
definition killReq :: "string \<Rightarrow> dockerReq" where "killReq cid = plainReq ''POST'' cid ''/kill''"

lemma executeInContainer_deadline:
  assumes "waitReq cid \<in> set (snd (executeInContainer env timeout cid))" "timeout \<le> de_elapsed env (waitReq cid)"
  shows "killReq cid \<in> set (snd (executeInContainer env timeout cid))"
  using assms
  by (auto simp: executeInContainer_def waitContainer_def waitReq_def killReq_def plainReq_def removeReq_def containerPath_def Let_def
      split: option.splits sum.splits prod.splits)

text \<open>The requests of a whole execution: nothing, or one creation of an isolated container. When Docker answers it with 201
  and a body that names the container, requests on that container alone follow, with a kill when the wait passed the timeout,
  and its removal as the last one.\<close>

definition sandboxCalls :: "dockerEnv \<Rightarrow> duration \<Rightarrow> dockerReq list \<Rightarrow> bool" where
  "sandboxCalls env timeout calls \<longleftrightarrow> calls = [] \<or>
     (\<exists>sp rest. calls = createReq (de_name env) sp # rest \<and> isolated sp \<and>
        (\<forall>body cid. de_http env (createReq (de_name env) sp) = Inr (201, body) \<and> de_decodeID env body = Inr cid \<longrightarrow>
           rest \<noteq> [] \<and> list_all (concerns cid) rest \<and> last rest = removeReq cid \<and>
           (waitReq cid \<in> set rest \<and> timeout \<le> de_elapsed env (waitReq cid) \<longrightarrow> killReq cid \<in> set rest)) \<and>
        ((\<nexists>body cid. de_http env (createReq (de_name env) sp) = Inr (201, body) \<and> de_decodeID env body = Inr cid) \<longrightarrow> rest = []))"

lemma createContainer_Inr:
  "createContainer env sp = Inr cid \<longleftrightarrow> (\<exists>body. de_http env (createReq (de_name env) sp) = Inr (201, body) \<and> de_decodeID env body = Inr cid)"
  by (auto simp: createContainer_def split: sum.splits if_splits)

lemma runSandboxed_calls:
  assumes "isolated sp"
  shows "sandboxCalls env timeout (snd (runSandboxed env timeout sp))"
proof (cases "createContainer env sp")
  case (Inl e)
  then have "\<nexists>body cid. de_http env (createReq (de_name env) sp) = Inr (201, body) \<and> de_decodeID env body = Inr cid"
    using createContainer_Inr[of env sp] by auto
  then show ?thesis using assms Inl by (auto simp: sandboxCalls_def runSandboxed_def)
next
  case (Inr cid)
  then have "snd (runSandboxed env timeout sp) = createReq (de_name env) sp # snd (executeInContainer env timeout cid)"
    by (simp add: runSandboxed_def split: prod.splits)
  moreover from Inr obtain body where "de_http env (createReq (de_name env) sp) = Inr (201, body)" "de_decodeID env body = Inr cid"
    using createContainer_Inr by blast
  ultimately show ?thesis
    using assms executeInContainer_calls[where cid = cid and env = env and timeout = timeout] executeInContainer_deadline[of cid env timeout]
    unfolding sandboxCalls_def by auto
qed

lemma Execute_calls: "sandboxCalls env timeout (snd (Execute env timeout lang code))" "sandboxCalls env timeout (snd (ExecuteShell env timeout command))"
  by (auto simp: Execute_def ExecuteShell_def runSandboxed_calls sandboxCalls_def[of _ _ "[]"] split: option.splits)

lemma sandboxReply_snd [simp]: "snd (sandboxReply rc) = snd rc"
  by (cases rc) (auto simp: sandboxReply_def split: sum.splits)

lemma sandboxTimeout_range: "sandboxTimeout t = Inr n \<Longrightarrow> 1 \<le> n \<and> n \<le> 300"
  by (auto simp: sandboxTimeout_def defaultTimeoutSeconds_def maxTimeoutSeconds_def split: option.splits if_splits)

text \<open>C34. Containment of the sandbox tools, whatever the agent sends and whatever Docker answers: \<open>execute_code\<close> and
  \<open>execute_shell\<close> make no request at all, or create one container, without network, with a read-only root file system, 512 MiB
  and one processor. When Docker answers the creation with 201 and a body that gives the identifier of the container, every
  later request concerns that container and the last is its forced removal, on every error path as well; and there is a
  timeout of one to 300 seconds such that a program that Docker still waits for when it has passed is killed. In every other
  case no request follows the creation.\<close>

theorem sandbox_contained:
  "(\<exists>n. 1 \<le> n \<and> n \<le> 300 \<and> sandboxCalls env (seconds n) (snd (makeExecuteCodeHandler env decode params)))
   \<and> (\<exists>n. 1 \<le> n \<and> n \<le> 300 \<and> sandboxCalls env (seconds n) (snd (makeExecuteShellHandler env decodeShell shellParams)))"
proof -
  have nil: "sandboxCalls env n []" for n by (simp add: sandboxCalls_def)
  have "\<exists>n. 1 \<le> n \<and> n \<le> 300 \<and> sandboxCalls env (seconds n) (snd (makeExecuteCodeHandler env decode params))"
  proof (cases "\<exists>lang code t n. decode params = Inr (lang, code, t) \<and> lang \<noteq> [] \<and> code \<noteq> [] \<and> sandboxTimeout t = Inr n")
    case True
    then show ?thesis using Execute_calls(1) sandboxTimeout_range by (fastforce simp: makeExecuteCodeHandler_def)
  next
    case False
    then have "snd (makeExecuteCodeHandler env decode params) = []"
      by (auto simp: makeExecuteCodeHandler_def split: sum.splits)
    then show ?thesis using nil by (intro exI[of _ 1]) simp
  qed
  moreover have "\<exists>n. 1 \<le> n \<and> n \<le> 300 \<and> sandboxCalls env (seconds n) (snd (makeExecuteShellHandler env decodeShell shellParams))"
  proof (cases "\<exists>command t n. decodeShell shellParams = Inr (command, t) \<and> command \<noteq> [] \<and> sandboxTimeout t = Inr n")
    case True
    then show ?thesis using Execute_calls(2) sandboxTimeout_range by (fastforce simp: makeExecuteShellHandler_def)
  next
    case False
    then have "snd (makeExecuteShellHandler env decodeShell shellParams) = []"
      by (auto simp: makeExecuteShellHandler_def split: sum.splits)
    then show ?thesis using nil by (intro exI[of _ 1]) simp
  qed
  ultimately show ?thesis by blast
qed

text \<open>A container that Docker has created stays behind when its answer cannot be decoded: the creation is the only request.\<close>

lemma undecodable_creation_leaks:
  assumes "de_http env (createReq (de_name env) sp) = Inr (201, body)" "de_decodeID env body = Inl e"
  shows "snd (runSandboxed env timeout sp) = [createReq (de_name env) sp]"
  using assms by (simp add: runSandboxed_def createContainer_def)

text \<open>A request of the executor is answered with the output of the program: on success the streams are those of the
  log of the created container, and the exit code is the one Docker reports, or -1 after the timeout.\<close>

lemma Execute_result:
  assumes "fst (executeInContainer env timeout cid) = Inr r"
  shows "getLogs env cid = Inr (er_Stdout r, er_Stderr r)" "waitContainer env timeout cid = Inr (er_TimedOut r, er_ExitCode r)" "startContainer env cid = None"
  using assms by (auto simp: executeInContainer_def Let_def split: option.splits sum.splits prod.splits)

lemma timed_out_killed:
  assumes "fst (executeInContainer env timeout cid) = Inr r" "er_TimedOut r"
  shows "killReq cid \<in> set (snd (executeInContainer env timeout cid))" "er_ExitCode r = -1"
proof -
  have w: "waitContainer env timeout cid = Inr (True, er_ExitCode r)" using Execute_result(2)[OF assms(1)] assms(2) by simp
  then show "er_ExitCode r = -1" by (auto simp: waitContainer_def split: sum.splits if_splits)
  show "killReq cid \<in> set (snd (executeInContainer env timeout cid))"
    using w Execute_result(3)[OF assms(1)] by (auto simp: executeInContainer_def killReq_def Let_def split: sum.splits)
qed

subsubsection \<open>What the log reader loses\<close>

text \<open>Logs without frame headers, as containers with a terminal have them, lose their first eight bytes.\<close>

lemma plain_logs_cut:
  assumes "8 < length raw" "length raw \<le> 1048576" "1 \<le> (of_char (raw ! 4) :: nat)"
  shows "stripDockerLogHeaders raw = drop 8 raw"
proof -
  have "take 4 (drop 4 raw) = [raw ! 4, raw ! 5, raw ! 6, raw ! 7]"
    using assms(1) by (simp add: list_eq_iff_nth_eq less_Suc_eq numeral_eq_Suc)
  then have "16777216 \<le> be32 (take 4 (drop 4 raw))" using assms(3) by (simp add: be32_def)
  then have le: "length (drop 8 raw) \<le> be32 (take 4 (drop 4 raw))" using assms(2) by simp
  have "stripFrames raw [] = stripFrames (drop (be32 (take 4 (drop 4 raw))) (drop 8 raw)) (take (be32 (take 4 (drop 4 raw))) (drop 8 raw))"
    using assms(1) by (subst stripFrames.simps) (simp add: Let_def)
  also have "\<dots> = stripFrames [] (drop 8 raw)" using le by simp
  also have "\<dots> = (drop 8 raw, [])" by (simp add: stripFrames.simps)
  finally show ?thesis using assms(1) by (simp add: stripDockerLogHeaders_def)
qed

lemma short_logs_kept: "length raw < 8 \<Longrightarrow> stripDockerLogHeaders raw = raw"
  by (simp add: stripDockerLogHeaders_def stripFrames.simps)

text \<open>Frames are stripped exactly, both streams in the order of the log.\<close>

lemma stripFrames_frames:
  assumes "\<forall>f\<in>set fs. length (snd f) < 4294967296"
  shows "stripFrames (concat (map frame fs)) sb = (sb @ concat (map snd fs), [])"
  using assms
proof (induction fs arbitrary: sb)
  case Nil
  then show ?case by (simp add: stripFrames.simps)
next
  case (Cons f fs)
  obtain t p where f: "f = (t, p)" by (cases f)
  have b: "length p < 4294967296" using Cons.prems f by simp
  note fp = frame_parts[OF b, of t "concat (map frame fs)"]
  have ih: "stripFrames (concat (map frame fs)) sb' = (sb' @ concat (map snd fs), [])" for sb' using Cons.IH Cons.prems by simp
  show ?case using ih fp by (subst stripFrames.simps) (simp add: f Let_def)
qed

text \<open>The endpoint identifier is a parameter of the tool and enters the URL as it is: with the key of the service the agent
  reaches any path of Portainer below the base.\<close>

lemma endpoint_unescaped:
  "listContainersURL ''http://p:9000/api'' ''../users?x='' = ''http://p:9000/api/endpoints/../users?x=/docker/containers/json?all=true''"
  by code_simp

lemma clampTail_range: "1 \<le> clampTail n" "clampTail n \<le> 1000"
  by (simp_all add: clampTail_def Let_def)

end
