(* ===== verification/Agent_Memory.thy ===== *)
theory Agent_Memory
  imports Containers Data_Lifecycle
begin

text \<open>
  Agent memory and knowledge: the tables \<open>agent_memory\<close> (internal/storage/postgres/agentmemory.go) and
  \<open>knowledge_documents\<close> (internal/knowledge/store.go) and the MCP tools on them (mcp/tools/memory.go, mcp/tools/knowledge.go).

  \<^item> A table is a map from its primary key to its row. The SQL statements are written as what they compute: filter, order
    (ties in the order of the table), limit. LIKE and ILIKE are implemented with their wildcards. Trigram similarity, text search rank
    and headline are arguments, and so is the failure of a statement.
  \<^item> Shown: namespaces of agents and tenants are isolated; sequential writes respect the quota, and concurrent ones do not;
    expired entries are never returned but count forever; wildcards in a thread identifier reach other threads.
\<close>

subsection \<open>The memory table\<close>

record memRow =
  mr_Value :: string
  mr_Metadata :: "(string, string) gomap"
  mr_Size :: int
  mr_CreatedAt :: time
  mr_UpdatedAt :: time
  mr_ExpiresAt :: "time option"

record memoryEntry =
  me_Key :: string
  me_Value :: string
  me_Metadata :: "(string, string) gomap"
  me_CreatedAt :: time
  me_ExpiresAt :: "time option"
  me_SizeBytes :: int

type_synonym memTable = "(string \<times> string \<times> string, memRow) gomap"

text \<open>The clock of the service, that of the database, the failures of the statements and pg_trgm.\<close>

record memEnv =
  mv_now :: time
  mv_dbNow :: time
  mv_fail :: "string \<Rightarrow> string option"
  mv_similarity :: "string \<Rightarrow> string \<Rightarrow> rat"

definition DefaultMemoryQuotaBytes :: int where "DefaultMemoryQuotaBytes = 100 * 1024 * 1024"

definition NewPostgresAgentMemoryStore :: "int \<Rightarrow> int" where
  "NewPostgresAgentMemoryStore quota = (if quota \<le> 0 then DefaultMemoryQuotaBytes else quota)"

definition requireIDs :: "string \<Rightarrow> string \<Rightarrow> string \<Rightarrow> string \<Rightarrow> string option" where
  "requireIDs agentID tenantID field v =
     (if agentID = [] then Some ''agentmemory: agent_id must not be empty''
      else if tenantID = [] then Some ''agentmemory: tenant_id must not be empty''
      else if v = [] then Some (''agentmemory: '' @ field @ '' must not be empty'')
      else None)"

definition nsRows :: "string \<Rightarrow> string \<Rightarrow> memTable \<Rightarrow> (string \<times> memRow) list" where
  "nsRows agentID tenantID t = map (\<lambda>((a, te, k), r). (k, r)) (filter (\<lambda>((a, te, k), r). a = agentID \<and> te = tenantID) t)"

definition usage :: "string \<Rightarrow> string \<Rightarrow> memTable \<Rightarrow> int" where
  "usage agentID tenantID t = sum_list (map (mr_Size \<circ> snd) (nsRows agentID tenantID t))"

definition memUsage :: "memEnv \<Rightarrow> string \<Rightarrow> string \<Rightarrow> memTable \<Rightarrow> string + int" where
  "memUsage env agentID tenantID t =
     (if agentID = [] then Inl ''agentmemory: agent_id must not be empty''
      else if tenantID = [] then Inl ''agentmemory: tenant_id must not be empty''
      else case mv_fail env ''usage'' of Some e \<Rightarrow> Inl (''agentmemory: get usage failed: '' @ e) | None \<Rightarrow> Inr (usage agentID tenantID t))"

text \<open>Store in its two parts: the reads that check the quota, and the upsert.\<close>

definition quotaCheck :: "memEnv \<Rightarrow> int \<Rightarrow> string \<Rightarrow> string \<Rightarrow> string \<Rightarrow> string \<Rightarrow> memTable \<Rightarrow> string option" where
  "quotaCheck env quota agentID tenantID key v t =
     (case memUsage env agentID tenantID t of
        Inl e \<Rightarrow> Some (''agentmemory: check quota: '' @ e)
      | Inr cur \<Rightarrow>
          (case mv_fail env ''existing'' of
             Some e \<Rightarrow> Some (''agentmemory: check existing entry: '' @ e)
           | None \<Rightarrow>
               (let existing = (case mget t (agentID, tenantID, key) of None \<Rightarrow> 0 | Some r \<Rightarrow> mr_Size r); new = int (length v) in
                if cur - existing + new > quota
                then Some (''agentmemory: quota exceeded (usage '' @ Itoa (cur - existing) @ '' + new '' @ Itoa new @ '' > quota '' @ Itoa quota @ '')'')
                else None)))"

definition upsertEntry ::
  "memEnv \<Rightarrow> string \<Rightarrow> string \<Rightarrow> string \<Rightarrow> string \<Rightarrow> duration \<Rightarrow> (string, string) gomap \<Rightarrow> memTable \<Rightarrow> string option \<times> memTable" where
  "upsertEntry env agentID tenantID key v ttl metadata t =
     (case mv_fail env ''upsert'' of
        Some e \<Rightarrow> (Some (''agentmemory: upsert failed: '' @ e), t)
      | None \<Rightarrow>
          (let now = mv_now env; created = (case mget t (agentID, tenantID, key) of None \<Rightarrow> now | Some r \<Rightarrow> mr_CreatedAt r) in
           (None, mput (agentID, tenantID, key)
              \<lparr>mr_Value = v, mr_Metadata = metadata, mr_Size = int (length v), mr_CreatedAt = created, mr_UpdatedAt = now,
               mr_ExpiresAt = (if ttl > 0 then Some (now + ttl) else None)\<rparr> t)))"

definition memStore ::
  "memEnv \<Rightarrow> int \<Rightarrow> string \<Rightarrow> string \<Rightarrow> string \<Rightarrow> string \<Rightarrow> duration \<Rightarrow> (string, string) gomap \<Rightarrow> memTable \<Rightarrow> string option \<times> memTable" where
  "memStore env quota agentID tenantID key v ttl metadata t =
     (case requireIDs agentID tenantID ''key'' key of
        Some e \<Rightarrow> (Some e, t)
      | None \<Rightarrow> (case quotaCheck env quota agentID tenantID key v t of
                  Some e \<Rightarrow> (Some e, t)
                | None \<Rightarrow> upsertEntry env agentID tenantID key v ttl metadata t))"

definition entryOf :: "string \<times> memRow \<Rightarrow> memoryEntry" where
  "entryOf kr = (case kr of (k, r) \<Rightarrow>
     \<lparr>me_Key = k, me_Value = mr_Value r, me_Metadata = mr_Metadata r, me_CreatedAt = mr_CreatedAt r, me_ExpiresAt = mr_ExpiresAt r, me_SizeBytes = mr_Size r\<rparr>)"

definition Recall :: "memEnv \<Rightarrow> string \<Rightarrow> string \<Rightarrow> string \<Rightarrow> memTable \<Rightarrow> string + memoryEntry option" where
  "Recall env agentID tenantID key t =
     (case requireIDs agentID tenantID ''key'' key of
        Some e \<Rightarrow> Inl e
      | None \<Rightarrow>
          (case mv_fail env ''select'' of
             Some e \<Rightarrow> Inl (''agentmemory: recall failed: '' @ e)
           | None \<Rightarrow>
               (case mget t (agentID, tenantID, key) of
                  None \<Rightarrow> Inr None
                | Some r \<Rightarrow> (case mr_ExpiresAt r of
                             Some x \<Rightarrow> if mv_now env > x then Inr None else Inr (Some (entryOf (key, r)))
                           | None \<Rightarrow> Inr (Some (entryOf (key, r)))))))"

text \<open>LIKE: \<open>%\<close> any text, \<open>_\<close> one character, a backslash takes the next character literally.\<close>

function like :: "string \<Rightarrow> string \<Rightarrow> bool" where
  "like [] t = (t = [])"
| "like (p # ps) t =
     (if p = CHR ''%'' then like ps t \<or> (case t of [] \<Rightarrow> False | _ # ts \<Rightarrow> like (p # ps) ts)
      else case t of
        [] \<Rightarrow> False
      | c # ts \<Rightarrow>
          if p = CHR ''_'' then like ps ts
          else if p = CHR 0x5C then (case ps of [] \<Rightarrow> False | q # qs \<Rightarrow> q = c \<and> like qs ts)
          else p = c \<and> like ps ts)"
  by pat_completeness auto
termination by (relation "measures [length \<circ> fst, length \<circ> snd]") auto

definition ilike :: "string \<Rightarrow> string \<Rightarrow> bool" where
  "ilike p t = like (ToLower p) (ToLower t)"

definition live :: "memEnv \<Rightarrow> memRow \<Rightarrow> bool" where
  "live env r = (case mr_ExpiresAt r of None \<Rightarrow> True | Some x \<Rightarrow> x > mv_dbNow env)"

definition clampResults :: "int \<Rightarrow> int \<Rightarrow> nat" where
  "clampResults dflt n = nat (min 100 (if n \<le> 0 then dflt else n))"

text \<open>A query over the namespace: select, order, limit.\<close>

definition selectRows ::
  "memEnv \<Rightarrow> string \<Rightarrow> (string \<times> memRow \<Rightarrow> bool) \<Rightarrow> (string \<times> memRow \<Rightarrow> 'o :: linorder) \<Rightarrow> nat \<Rightarrow> string \<Rightarrow> string \<Rightarrow> memTable \<Rightarrow> string + memoryEntry list" where
  "selectRows env what sel key cap agentID tenantID t =
     (case mv_fail env ''select'' of
        Some e \<Rightarrow> Inl (''agentmemory: '' @ what @ '' failed: '' @ e)
      | None \<Rightarrow> Inr (map entryOf (take cap (sort_key key (filter (\<lambda>kr. sel kr \<and> live env (snd kr)) (nsRows agentID tenantID t))))))"

definition memSearch :: "memEnv \<Rightarrow> string \<Rightarrow> string \<Rightarrow> string \<Rightarrow> int \<Rightarrow> memTable \<Rightarrow> string + memoryEntry list" where
  "memSearch env agentID tenantID q cap t =
     (case requireIDs agentID tenantID ''query'' q of
        Some e \<Rightarrow> Inl e
      | None \<Rightarrow>
          (let pat = ''%'' @ q @ ''%'' in
           selectRows env ''search'' (\<lambda>(k, r). ilike pat k \<or> ilike pat (mr_Value r)) (\<lambda>(k, r). - mr_UpdatedAt r) (clampResults 10 cap) agentID tenantID t))"

definition GetThread :: "memEnv \<Rightarrow> string \<Rightarrow> string \<Rightarrow> string \<Rightarrow> int \<Rightarrow> memTable \<Rightarrow> string + memoryEntry list" where
  "GetThread env agentID tenantID threadID cap t =
     (case requireIDs agentID tenantID ''thread_id'' threadID of
        Some e \<Rightarrow> Inl e
      | None \<Rightarrow>
          selectRows env ''get thread'' (\<lambda>(k, r). like (''thread:'' @ threadID @ '':%'') k) (\<lambda>(k, r). mr_CreatedAt r) (clampResults 50 cap) agentID tenantID t)"

definition SemanticSearch :: "memEnv \<Rightarrow> string \<Rightarrow> string \<Rightarrow> string \<Rightarrow> int \<Rightarrow> memTable \<Rightarrow> string + memoryEntry list" where
  "SemanticSearch env agentID tenantID q cap t =
     (case requireIDs agentID tenantID ''query'' q of
        Some e \<Rightarrow> Inl e
      | None \<Rightarrow>
          (let sim = mv_similarity env in
           selectRows env ''semantic search'' (\<lambda>(k, r). sim k q > 1 / 10 \<or> sim (mr_Value r) q > 1 / 10)
             (\<lambda>(k, r). - max (sim k q) (sim (mr_Value r) q)) (clampResults 10 cap) agentID tenantID t))"

definition memDelete :: "memEnv \<Rightarrow> string \<Rightarrow> string \<Rightarrow> string \<Rightarrow> memTable \<Rightarrow> string option \<times> memTable" where
  "memDelete env agentID tenantID key t =
     (case requireIDs agentID tenantID ''key'' key of
        Some e \<Rightarrow> (Some e, t)
      | None \<Rightarrow> (case mv_fail env ''delete'' of
                  Some e \<Rightarrow> (Some (''agentmemory: delete failed: '' @ e), t)
                | None \<Rightarrow> (None, mdel (agentID, tenantID, key) t)))"

subsection \<open>The memory tools\<close>

record memoryStoreInput =
  mi_Key :: string
  mi_Value :: string
  mi_TTLSeconds :: "int option"
  mi_Metadata :: "(string, string) gomap"

record memoryRecallInput =
  mq_Key :: "string option"
  mq_Query :: "string option"
  mq_Limit :: "int option"
  mq_Semantic :: "bool option"

definition memoryTTL :: "int option \<Rightarrow> duration" where
  "memoryTTL t = (case t of Some n \<Rightarrow> if n > 0 then int64 (n * second) else 0 | None \<Rightarrow> 0)"

definition makeMemoryStoreHandler ::
  "memEnv \<Rightarrow> int \<Rightarrow> (string \<Rightarrow> string + memoryStoreInput) \<Rightarrow> mcpAuthContext option \<Rightarrow> string \<Rightarrow> memTable \<Rightarrow> (string + string \<times> int) \<times> memTable" where
  "makeMemoryStoreHandler env quota decode acOpt params t =
     (case decode params of
        Inl e \<Rightarrow> (Inl (''invalid parameters: '' @ e), t)
      | Inr i \<Rightarrow>
          if mi_Key i = [] then (Inl ''key is required'', t)
          else if mi_Value i = [] then (Inl ''value is required'', t)
          else (case acOpt of
                  None \<Rightarrow> (Inl ''missing auth context'', t)
                | Some ac \<Rightarrow>
                    (case memStore env quota (ma_AgentID ac) (ma_TenantID ac) (mi_Key i) (mi_Value i) (memoryTTL (mi_TTLSeconds i)) (mi_Metadata i) t of
                       (Some e, t') \<Rightarrow> (Inl (''failed to store memory: '' @ e), t')
                     | (None, t') \<Rightarrow> (Inr (mi_Key i, int (length (mi_Value i))), t'))))"

definition positiveOr :: "int \<Rightarrow> int option \<Rightarrow> int" where
  "positiveOr d n = (case n of Some k \<Rightarrow> if k > 0 then k else d | None \<Rightarrow> d)"

definition present :: "string option \<Rightarrow> string" where "present x = (case x of Some s \<Rightarrow> s | None \<Rightarrow> [])"

definition makeMemoryRecallHandler ::
  "memEnv \<Rightarrow> (string \<Rightarrow> string + memoryRecallInput) \<Rightarrow> mcpAuthContext option \<Rightarrow> string \<Rightarrow> memTable \<Rightarrow> string + memoryEntry list \<times> nat" where
  "makeMemoryRecallHandler env decode acOpt params t =
     (case decode params of
        Inl e \<Rightarrow> Inl (''invalid parameters: '' @ e)
      | Inr i \<Rightarrow>
          (let key = present (mq_Key i); q = present (mq_Query i); cap = positiveOr 10 (mq_Limit i) in
           if key = [] \<and> q = [] then Inl ''must provide either key or query''
           else case acOpt of
             None \<Rightarrow> Inl ''missing auth context''
           | Some ac \<Rightarrow>
               if key \<noteq> [] then
                 (case Recall env (ma_AgentID ac) (ma_TenantID ac) key t of
                    Inl e \<Rightarrow> Inl (''failed to recall memory: '' @ e)
                  | Inr None \<Rightarrow> Inr ([], 0)
                  | Inr (Some en) \<Rightarrow> Inr ([en], 1))
               else if mq_Semantic i = Some True then
                 (case SemanticSearch env (ma_AgentID ac) (ma_TenantID ac) q cap t of
                    Inl e \<Rightarrow> Inl (''failed to semantic search memory: '' @ e)
                  | Inr es \<Rightarrow> Inr (es, length es))
               else
                 (case memSearch env (ma_AgentID ac) (ma_TenantID ac) q cap t of
                    Inl e \<Rightarrow> Inl (''failed to search memory: '' @ e)
                  | Inr es \<Rightarrow> Inr (es, length es))))"

definition makeGetThreadHandler ::
  "memEnv \<Rightarrow> (string \<Rightarrow> string + string \<times> int option) \<Rightarrow> mcpAuthContext option \<Rightarrow> string \<Rightarrow> memTable \<Rightarrow> string + string \<times> memoryEntry list \<times> nat" where
  "makeGetThreadHandler env decode acOpt params t =
     (case decode params of
        Inl e \<Rightarrow> Inl (''invalid parameters: '' @ e)
      | Inr (threadID, cap) \<Rightarrow>
          if threadID = [] then Inl ''thread_id is required''
          else (case acOpt of
                  None \<Rightarrow> Inl ''missing auth context''
                | Some ac \<Rightarrow>
                    (case GetThread env (ma_AgentID ac) (ma_TenantID ac) threadID (positiveOr 50 cap) t of
                       Inl e \<Rightarrow> Inl (''failed to get thread: '' @ e)
                     | Inr es \<Rightarrow> Inr (threadID, es, length es))))"

subsection \<open>Isolation\<close>

lemma selectRows_sound:
  assumes "selectRows env what sel key cap a te t = Inr es"
  shows "length es \<le> cap" "set es \<subseteq> entryOf ` {kr \<in> set (nsRows a te t). sel kr \<and> live env (snd kr)}"
  using assms by (auto simp: selectRows_def split: option.splits dest!: in_set_takeD)

lemma clampResults_le: "clampResults d n \<le> 100"
  by (simp add: clampResults_def)

lemma nsRows_mget: "mget t (a, te, k) = Some r \<Longrightarrow> (k, r) \<in> set (nsRows a te t)"
  by (force simp: nsRows_def dest: mget_in_set)

lemma nsRows_iff: "gwf t \<Longrightarrow> (k, r) \<in> set (nsRows a te t) \<longleftrightarrow> mget t (a, te, k) = Some r"
  by (force simp: nsRows_def mget_iff)

lemma selectRows_clamped:
  assumes "selectRows env what sel key (clampResults d n) a te t = Inr es"
  shows "length es \<le> 100 \<and> set es \<subseteq> entryOf ` {kr \<in> set (nsRows a te t). live env (snd kr)}"
  using selectRows_sound[OF assms] clampResults_le[of d n] by fastforce

lemma memSearch_sound:
  "memSearch env a te q cap t = Inr es \<Longrightarrow> length es \<le> 100 \<and> set es \<subseteq> entryOf ` {kr \<in> set (nsRows a te t). live env (snd kr)}"
  "SemanticSearch env a te q cap t = Inr es \<Longrightarrow> length es \<le> 100 \<and> set es \<subseteq> entryOf ` {kr \<in> set (nsRows a te t). live env (snd kr)}"
  "GetThread env a te q cap t = Inr es \<Longrightarrow> length es \<le> 100 \<and> set es \<subseteq> entryOf ` {kr \<in> set (nsRows a te t). live env (snd kr)}"
  by (auto simp only: memSearch_def SemanticSearch_def GetThread_def Let_def split: option.splits dest!: selectRows_clamped)

text \<open>An entry that may be returned: a row of the namespace that has not expired on either clock.\<close>

definition visible :: "memEnv \<Rightarrow> mcpAuthContext \<Rightarrow> memTable \<Rightarrow> memoryEntry set" where
  "visible env ac t = {entryOf (k, r) |k r. ((ma_AgentID ac, ma_TenantID ac, k), r) \<in> set t \<and>
     (case mr_ExpiresAt r of None \<Rightarrow> True | Some x \<Rightarrow> x \<ge> mv_now env \<or> x > mv_dbNow env)}"

lemma live_visible: "set es \<subseteq> entryOf ` {kr \<in> set (nsRows (ma_AgentID ac) (ma_TenantID ac) t). live env (snd kr)} \<Longrightarrow> set es \<subseteq> visible env ac t"
  by (force simp: visible_def live_def nsRows_def split: option.splits)

lemma Recall_sound:
  assumes "Recall env (ma_AgentID ac) (ma_TenantID ac) key t = Inr (Some en)"
  shows "en \<in> visible env ac t"
proof -
  obtain r where r: "mget t (ma_AgentID ac, ma_TenantID ac, key) = Some r" and en: "en = entryOf (key, r)"
    and x: "case mr_ExpiresAt r of None \<Rightarrow> True | Some x \<Rightarrow> x \<ge> mv_now env"
    using assms by (auto simp: Recall_def split: option.splits if_splits)
  show ?thesis unfolding visible_def using mget_in_set[OF r] en x by (force split: option.splits)
qed

lemma upsert_other:
  assumes "(a', te') \<noteq> (a, te)"
  shows "mget (snd (upsertEntry env a te k v ttl md t)) (a', te', k') = mget t (a', te', k')"
  using assms by (auto simp: upsertEntry_def Let_def split: option.splits)

lemma memStore_other:
  "(a', te') \<noteq> (a, te) \<Longrightarrow> mget (snd (memStore env quota a te k v ttl md t)) (a', te', k') = mget t (a', te', k')"
  by (simp add: memStore_def upsert_other split: option.splits)

text \<open>C36. Isolation of agent memory, for each of the three tools on its own and for every input: whatever \<open>memory_recall\<close>
  returns, it has an identified caller and returns at most 100 unexpired entries of the caller's own agent and tenant, with
  their number; the same holds for \<open>get_thread\<close>; and \<open>memory_store\<close> leaves the entries of every other agent or tenant as they
  are, and without an identity fails and changes nothing at all.\<close>

theorem memory_isolated:
  "(case makeMemoryRecallHandler env decode acOpt params t of Inl _ \<Rightarrow> True
    | Inr (es, n) \<Rightarrow> \<exists>ac. acOpt = Some ac \<and> length es \<le> 100 \<and> set es \<subseteq> visible env ac t \<and> n = length es) \<and>
   (case makeGetThreadHandler env decodeT acOpt paramsT t of Inl _ \<Rightarrow> True
    | Inr (th, ms, n) \<Rightarrow> \<exists>ac. acOpt = Some ac \<and> length ms \<le> 100 \<and> set ms \<subseteq> visible env ac t \<and> n = length ms) \<and>
   (case makeMemoryStoreHandler env quota decodeS acOpt paramsS t of
      (r, t') \<Rightarrow> (case acOpt of None \<Rightarrow> (\<exists>e. r = Inl e) \<and> t' = t
        | Some ac \<Rightarrow> \<forall>a te k. (a, te) = (ma_AgentID ac, ma_TenantID ac) \<or> mget t' (a, te, k) = mget t (a, te, k)))"
proof (intro conjI)
  show "case makeMemoryRecallHandler env decode acOpt params t of Inl _ \<Rightarrow> True
    | Inr (es, n) \<Rightarrow> \<exists>ac. acOpt = Some ac \<and> length es \<le> 100 \<and> set es \<subseteq> visible env ac t \<and> n = length es"
    by (auto simp: makeMemoryRecallHandler_def Let_def split: sum.splits option.splits dest!: memSearch_sound live_visible Recall_sound)
  show "case makeGetThreadHandler env decodeT acOpt paramsT t of Inl _ \<Rightarrow> True
    | Inr (th, ms, n) \<Rightarrow> \<exists>ac. acOpt = Some ac \<and> length ms \<le> 100 \<and> set ms \<subseteq> visible env ac t \<and> n = length ms"
    by (auto simp: makeGetThreadHandler_def split: sum.splits option.splits dest!: memSearch_sound live_visible)
  show "case makeMemoryStoreHandler env quota decodeS acOpt paramsS t of
      (r, t') \<Rightarrow> (case acOpt of None \<Rightarrow> (\<exists>e. r = Inl e) \<and> t' = t
        | Some ac \<Rightarrow> \<forall>a te k. (a, te) = (ma_AgentID ac, ma_TenantID ac) \<or> mget t' (a, te, k) = mget t (a, te, k))"
  proof (cases acOpt)
    case None
    then show ?thesis by (auto simp: makeMemoryStoreHandler_def split: sum.splits)
  next
    case (Some ac)
    have "mget (snd (makeMemoryStoreHandler env quota decodeS acOpt paramsS t)) (a, te, k) = mget t (a, te, k)"
      if "(a, te) \<noteq> (ma_AgentID ac, ma_TenantID ac)" for a te k
      using memStore_other[OF that]
      by (auto simp: makeMemoryStoreHandler_def Some split: sum.splits option.splits prod.splits) (metis snd_conv)+
    then show ?thesis using Some by (cases "makeMemoryStoreHandler env quota decodeS acOpt paramsS t") auto
  qed
qed

subsection \<open>The quota\<close>

definition existing :: "memTable \<Rightarrow> string \<Rightarrow> string \<Rightarrow> string \<Rightarrow> int" where
  "existing t a te k = (case mget t (a, te, k) of None \<Rightarrow> 0 | Some r \<Rightarrow> mr_Size r)"

lemma usage_Cons: "usage a te (((a', te', k), r) # t) = (if a' = a \<and> te' = te then mr_Size r else 0) + usage a te t"
  by (simp add: usage_def nsRows_def)

lemma usage_mput:
  "usage a te (mput (a', te', k) r t) = (if a' = a \<and> te' = te then usage a te t - existing t a te k + mr_Size r else usage a te t)"
proof (induction t)
  case Nil
  then show ?case by (simp add: mput_def usage_def nsRows_def existing_def)
next
  case (Cons e t)
  obtain a1 te1 k1 r1 where e: "e = ((a1, te1, k1), r1)" by (metis prod.exhaust)
  show ?case using Cons.IH by (auto simp: e mput_def usage_Cons existing_def mget_Cons)
qed

lemma usage_mdel:
  assumes "gwf t" shows "usage a te (mdel (a', te', k) t) = (if a' = a \<and> te' = te then usage a te t - existing t a te k else usage a te t)"
  using assms
proof (induction t)
  case Nil
  then show ?case by (simp add: mdel_def usage_def nsRows_def existing_def)
next
  case (Cons e t)
  obtain a1 te1 k1 r1 where e: "e = ((a1, te1, k1), r1)" by (metis prod.exhaust)
  have g: "gwf t" "(a1, te1, k1) \<notin> fst ` set t" using Cons.prems by (auto simp: e gwf_Cons)
  then have "existing t a1 te1 k1 = 0" by (auto simp: existing_def mget_None_iff[symmetric])
  then show ?case using Cons.IH[OF g(1)] by (auto simp: e mdel_def usage_Cons existing_def mget_Cons)
qed

definition memOk :: "int \<Rightarrow> memTable \<Rightarrow> bool" where
  "memOk quota t \<longleftrightarrow> gwf t \<and> (\<forall>e\<in>set t. mr_Size (snd e) = int (length (mr_Value (snd e)))) \<and> (\<forall>a te. usage a te t \<le> quota)"

lemma quotaCheck_ok: "quotaCheck env quota a te k v t = None \<Longrightarrow> usage a te t - existing t a te k + int (length v) \<le> quota"
  by (auto simp: quotaCheck_def memUsage_def existing_def Let_def split: option.splits if_splits)

lemma memStore_ok:
  assumes "memOk quota t"
  shows "memOk quota (snd (memStore env quota a te k v ttl md t))"
proof (cases "requireIDs a te ''key'' k = None \<and> quotaCheck env quota a te k v t = None")
  case True
  then have q: "usage a te t - existing t a te k + int (length v) \<le> quota" using quotaCheck_ok by blast
  show ?thesis using assms True q
    by (auto simp: memStore_def upsertEntry_def Let_def memOk_def usage_mput set_mput split: option.splits)
next
  case False
  then show ?thesis using assms by (auto simp: memStore_def split: option.splits)
qed

lemma existing_nonneg: "memOk quota t \<Longrightarrow> 0 \<le> existing t a te k"
  by (auto simp: existing_def memOk_def split: option.splits dest!: mget_in_set)

lemma memDelete_ok: "memOk quota t \<Longrightarrow> memOk quota (snd (memDelete env a te k t))"
  using existing_nonneg[of quota t a te k]
  by (auto simp: memDelete_def memOk_def usage_mdel set_mdel split: option.splits) (smt (verit, best))+

text \<open>The operations one after the other, on every input and with every failure of the database.\<close>

inductive memory_step :: "int \<Rightarrow> memTable \<Rightarrow> memTable \<Rightarrow> bool" for quota where
  step_store: "memory_step quota t (snd (makeMemoryStoreHandler env quota decode acOpt params t))"
| step_delete: "memory_step quota t (snd (memDelete env a te k t))"

lemma makeMemoryStoreHandler_ok:
  assumes "memOk quota t"
  shows "memOk quota (snd (makeMemoryStoreHandler env quota decode acOpt params t))"
proof -
  have "snd (makeMemoryStoreHandler env quota decode acOpt params t) = t \<or>
    (\<exists>a te k v ttl md. snd (makeMemoryStoreHandler env quota decode acOpt params t) = snd (memStore env quota a te k v ttl md t))"
    by (auto simp: makeMemoryStoreHandler_def split: sum.splits option.splits prod.splits) (metis snd_conv)+
  then show ?thesis using assms memStore_ok by metis
qed

interpretation memory_sys: inv_system "\<lambda>t. t = []" "memory_step (NewPostgresAgentMemoryStore q)" "memOk (NewPostgresAgentMemoryStore q)" for q
proof unfold_locales
  show "s = [] \<Longrightarrow> memOk (NewPostgresAgentMemoryStore q) s" for s
    by (simp add: memOk_def usage_def nsRows_def NewPostgresAgentMemoryStore_def DefaultMemoryQuotaBytes_def)
  show "memOk (NewPostgresAgentMemoryStore q) s \<Longrightarrow> memory_step (NewPostgresAgentMemoryStore q) s t \<Longrightarrow> memOk (NewPostgresAgentMemoryStore q) t" for s t
    by (auto elim!: memory_step.cases intro: makeMemoryStoreHandler_ok memDelete_ok)
qed

text \<open>C37. The quota of agent memory: after any sequence of \<open>memory_store\<close> calls and deletions, successful or not, the
  bytes stored by an agent in a tenant are at most the quota the store was created with, and every row has the size of its
  value.\<close>

theorem memory_quota:
  assumes "reachable (\<lambda>t. t = []) (memory_step (NewPostgresAgentMemoryStore q)) t"
  shows "usage a te t \<le> NewPostgresAgentMemoryStore q \<and> (mget t (a, te, k) = None \<or> (\<exists>r. mget t (a, te, k) = Some r \<and> mr_Size r = int (length (mr_Value r))))"
proof -
  have ok: "memOk (NewPostgresAgentMemoryStore q) t" using memory_sys.inv_reachable[OF assms] .
  then show ?thesis using mget_in_set[of t "(a, te, k)"] by (cases "mget t (a, te, k)") (force simp: memOk_def)+
qed

definition quietEnv :: memEnv where
  "quietEnv = \<lparr>mv_now = 100, mv_dbNow = 100, mv_fail = (\<lambda>_. None), mv_similarity = (\<lambda>_ _. 0)\<rparr>"

definition sampleCaller :: mcpAuthContext where "sampleCaller = \<lparr>ma_AgentID = ''a'', ma_TenantID = ''t''\<rparr>"

definition sampleWrite :: "string \<Rightarrow> string + memoryStoreInput" where
  "sampleWrite p = Inr \<lparr>mi_Key = ''thread:x:1'', mi_Value = p, mi_TTLSeconds = None, mi_Metadata = []\<rparr>"

definition sampleTable :: memTable where
  "sampleTable = snd (makeMemoryStoreHandler quietEnv 10000 sampleWrite (Some sampleCaller) ''hello'' [])"

lemma sampleTable_code:
  "sampleTable = [((''a'', ''t'', ''thread:x:1''), \<lparr>mr_Value = ''hello'', mr_Metadata = [], mr_Size = 5, mr_CreatedAt = 100, mr_UpdatedAt = 100, mr_ExpiresAt = None\<rparr>)]"
  by code_simp

theorem memory_quota_witness:
  "sampleTable \<noteq> [] \<and> usage ''a'' ''t'' sampleTable \<le> NewPostgresAgentMemoryStore 10000 \<and>
   (mget sampleTable (''a'', ''t'', ''thread:x:1'') = None \<or> (\<exists>r. mget sampleTable (''a'', ''t'', ''thread:x:1'') = Some r \<and> mr_Size r = int (length (mr_Value r))))"
proof -
  have q: "NewPostgresAgentMemoryStore 10000 = 10000" by (simp add: NewPostgresAgentMemoryStore_def)
  have "memory_step 10000 [] sampleTable" unfolding sampleTable_def by (rule step_store)
  then have "reachable (\<lambda>t. t = []) (memory_step (NewPostgresAgentMemoryStore 10000)) sampleTable" unfolding q by (intro reach_one[of _ "[]"]) simp
  from memory_quota[OF this, of "''a''" "''t''" "''thread:x:1''"] show ?thesis by (simp add: sampleTable_code)
qed

theorem memory_isolated_witness:
  "entryOf (''thread:x:1'', snd (hd sampleTable)) \<in> visible quietEnv sampleCaller sampleTable"
proof -
  have "makeMemoryRecallHandler quietEnv (\<lambda>_. Inr \<lparr>mq_Key = Some ''thread:x:1'', mq_Query = None, mq_Limit = None, mq_Semantic = None\<rparr>) (Some sampleCaller) [] sampleTable =
    Inr ([entryOf (''thread:x:1'', snd (hd sampleTable))], 1)" unfolding sampleTable_code by code_simp
  with memory_isolated[where env = quietEnv and acOpt = "Some sampleCaller" and params = "[]" and t = sampleTable and decode = "\<lambda>_. Inr \<lparr>mq_Key = Some ''thread:x:1'', mq_Query = None, mq_Limit = None, mq_Semantic = None\<rparr>"]
  show ?thesis by simp
qed

text \<open>Storing and recalling: the entry comes back until its time is over, and then no more.\<close>

lemma store_recall:
  assumes "memStore env quota a te k v ttl md t = (None, t')" "mv_fail env2 ''select'' = None"
  shows "Recall env2 a te k t' =
    Inr (if ttl > 0 \<and> mv_now env2 > mv_now env + ttl then None
         else Some (entryOf (k, \<lparr>mr_Value = v, mr_Metadata = md, mr_Size = int (length v),
           mr_CreatedAt = (case mget t (a, te, k) of None \<Rightarrow> mv_now env | Some r \<Rightarrow> mr_CreatedAt r), mr_UpdatedAt = mv_now env,
           mr_ExpiresAt = (if ttl > 0 then Some (mv_now env + ttl) else None)\<rparr>)))"
  using assms by (auto simp: memStore_def upsertEntry_def Recall_def Let_def split: option.splits if_splits)

lemma delete_recall:
  "memDelete env a te k t = (None, t') \<Longrightarrow> mv_fail env2 ''select'' = None \<Longrightarrow> Recall env2 a te k t' = Inr None"
  by (auto simp: memDelete_def Recall_def split: option.splits)

text \<open>The check and the write are separate statements: two agents' calls that both check first exceed the quota.\<close>

lemma quota_race:
  "quotaCheck quietEnv 6 ''a'' ''t'' ''k1'' ''1234'' [] = None \<and> quotaCheck quietEnv 6 ''a'' ''t'' ''k2'' ''5678'' [] = None \<and>
   usage ''a'' ''t'' (snd (upsertEntry quietEnv ''a'' ''t'' ''k2'' ''5678'' 0 [] (snd (upsertEntry quietEnv ''a'' ''t'' ''k1'' ''1234'' 0 [] [])))) = 8"
  by code_simp

text \<open>Expired entries are counted for ever: no operation of the program removes them, and a full namespace of expired entries
  refuses every new key.\<close>

lemma expired_counts:
  assumes "usage a te t = quota" "mget t (a, te, k) = None" "v \<noteq> []" "mv_fail env ''usage'' = None" "mv_fail env ''existing'' = None"
  shows "\<exists>e. memStore env quota a te k v ttl md t = (Some e, t)"
  using assms by (auto simp: memStore_def quotaCheck_def memUsage_def Let_def split: option.splits)

text \<open>The wildcards of LIKE in a thread identifier are not escaped: the thread \<open>%\<close> is every thread, \<open>a_b\<close> is also \<open>axb\<close>.\<close>

lemma thread_wildcard:
  "like (''thread:'' @ ''%'' @ '':%'') ''thread:private:1'' \<and> like (''thread:'' @ ''a_b'' @ '':%'') ''thread:axb:1''"
  by code_simp

lemma like_literal:
  assumes "set p \<inter> {CHR ''%'', CHR ''_'', CHR 0x5C} = {}"
  shows "like (p @ ''%'') s \<longleftrightarrow> HasPrefix s p"
  using assms
proof (induction p arbitrary: s)
  case Nil
  have "like ''%'' s" by (induction s) simp_all
  then show ?case by simp
next
  case (Cons c p)
  then show ?case by (cases s) auto
qed

text \<open>A thread without wildcards is exactly the keys with its prefix.\<close>

lemma GetThread_exact:
  assumes "set th \<inter> {CHR ''%'', CHR ''_'', CHR 0x5C} = {}"
  shows "like (''thread:'' @ th @ '':%'') k \<longleftrightarrow> HasPrefix k (''thread:'' @ th @ '':'')"
  using assms like_literal[of "''thread:'' @ th @ '':''" k] by simp

text \<open>A time to live of more than 292 years wraps to a negative duration: the entry never expires.\<close>

lemma ttl_overflow: "memoryTTL (Some 9300000000) \<le> 0"
  by (simp add: memoryTTL_def int64_def int_word_sint)

lemma ttl_exact: "0 < n \<Longrightarrow> n \<le> 9000000000 \<Longrightarrow> memoryTTL (Some n) = n * second"
  by (simp add: memoryTTL_def int64_id)

subsection \<open>Knowledge\<close>

record document =
  dc_TenantID :: string
  dc_Title :: string
  dc_Content :: string
  dc_Source :: string
  dc_Metadata :: "(string, string) gomap"
  dc_CreatedAt :: time

record knowledgeEnv =
  kv_now :: time
  kv_fail :: "string \<Rightarrow> string option"
  kv_matches :: "string \<Rightarrow> document \<Rightarrow> bool"
  kv_rank :: "string \<Rightarrow> document \<Rightarrow> rat"
  kv_headline :: "string \<Rightarrow> string \<Rightarrow> string"

type_synonym docTable = "(string, document) gomap"

record knowledgeResult =
  sx_ID :: string
  sx_Document :: document
  sx_Rank :: rat
  sx_Snippet :: string

definition knowledgeIndex :: "knowledgeEnv \<Rightarrow> string \<Rightarrow> document \<Rightarrow> docTable \<Rightarrow> string option \<times> docTable" where
  "knowledgeIndex env docID d t =
     (if docID = [] then (Some ''knowledge: document id must not be empty'', t)
      else if dc_TenantID d = [] then (Some ''knowledge: tenant_id must not be empty'', t)
      else if dc_Title d = [] then (Some ''knowledge: title must not be empty'', t)
      else if dc_Content d = [] then (Some ''knowledge: content must not be empty'', t)
      else case kv_fail env ''index'' of
        Some e \<Rightarrow> (Some (''knowledge: index document: '' @ e), t)
      | None \<Rightarrow> (None, mput docID (d\<lparr>dc_CreatedAt := kv_now env\<rparr>) t))"

definition knowledgeSearch :: "knowledgeEnv \<Rightarrow> string \<Rightarrow> string \<Rightarrow> int \<Rightarrow> docTable \<Rightarrow> string + knowledgeResult list" where
  "knowledgeSearch env tenantID q n t =
     (if tenantID = [] then Inl ''knowledge: tenant_id must not be empty''
      else if q = [] then Inr []
      else case kv_fail env ''search'' of
        Some e \<Rightarrow> Inl (''knowledge: search query: '' @ e)
      | None \<Rightarrow>
          Inr (map (\<lambda>(i, d). \<lparr>sx_ID = i, sx_Document = d, sx_Rank = kv_rank env q d, sx_Snippet = kv_headline env q (dc_Content d)\<rparr>)
                 (take (clampResults 10 n) (sort_key (\<lambda>(i, d). - kv_rank env q d) (filter (\<lambda>(i, d). dc_TenantID d = tenantID \<and> kv_matches env q d) t)))))"

definition knowledgeDelete :: "knowledgeEnv \<Rightarrow> string \<Rightarrow> string \<Rightarrow> docTable \<Rightarrow> string option \<times> docTable" where
  "knowledgeDelete env tenantID docID t =
     (if tenantID = [] then (Some ''knowledge: tenant_id must not be empty'', t)
      else if docID = [] then (Some ''knowledge: doc_id must not be empty'', t)
      else case kv_fail env ''delete'' of
        Some e \<Rightarrow> (Some (''knowledge: delete document: '' @ e), t)
      | None \<Rightarrow> (None, mfilter (\<lambda>i d. \<not> (dc_TenantID d = tenantID \<and> i = docID)) t))"

record indexDocumentInput =
  ii_Title :: string
  ii_Content :: string
  ii_Source :: string
  ii_Metadata :: "(string, string) gomap"

definition makeIndexDocumentHandler ::
  "knowledgeEnv \<Rightarrow> string + string \<Rightarrow> (string \<Rightarrow> string + indexDocumentInput) \<Rightarrow> mcpAuthContext option \<Rightarrow> string \<Rightarrow> docTable \<Rightarrow> (string + string) \<times> docTable" where
  "makeIndexDocumentHandler env uuid decode acOpt params t =
     (case decode params of
        Inl e \<Rightarrow> (Inl (''invalid parameters: '' @ e), t)
      | Inr i \<Rightarrow>
          if ii_Title i = [] then (Inl ''title is required'', t)
          else if ii_Content i = [] then (Inl ''content is required'', t)
          else (case acOpt of
                  None \<Rightarrow> (Inl ''missing auth context'', t)
                | Some ac \<Rightarrow>
                    (case uuid of
                       Inl e \<Rightarrow> (Inl (''generate document id: '' @ e), t)
                     | Inr docID \<Rightarrow>
                         (case knowledgeIndex env docID \<lparr>dc_TenantID = ma_TenantID ac, dc_Title = ii_Title i, dc_Content = ii_Content i, dc_Source = ii_Source i,
                             dc_Metadata = ii_Metadata i, dc_CreatedAt = 0\<rparr> t of
                            (Some e, t') \<Rightarrow> (Inl (''failed to index document: '' @ e), t')
                          | (None, t') \<Rightarrow> (Inr docID, t')))))"

definition makeSearchKnowledgeHandler ::
  "knowledgeEnv \<Rightarrow> (string \<Rightarrow> string + string \<times> int option) \<Rightarrow> mcpAuthContext option \<Rightarrow> string \<Rightarrow> docTable \<Rightarrow> string + knowledgeResult list \<times> nat" where
  "makeSearchKnowledgeHandler env decode acOpt params t =
     (case decode params of
        Inl e \<Rightarrow> Inl (''invalid parameters: '' @ e)
      | Inr (q, n) \<Rightarrow>
          if q = [] then Inl ''query is required''
          else (case acOpt of
                  None \<Rightarrow> Inl ''missing auth context''
                | Some ac \<Rightarrow>
                    (case knowledgeSearch env (ma_TenantID ac) q (positiveOr 10 n) t of
                       Inl e \<Rightarrow> Inl (''failed to search knowledge: '' @ e)
                     | Inr rs \<Rightarrow> Inr (rs, length rs))))"

text \<open>A search returns documents of the caller's tenant only, at most 100, in falling rank.\<close>

lemma search_tenant:
  assumes "makeSearchKnowledgeHandler env decode acOpt params t = Inr (rs, n)"
  shows "\<exists>ac. acOpt = Some ac \<and> length rs \<le> 100 \<and> (\<forall>r\<in>set rs. dc_TenantID (sx_Document r) = ma_TenantID ac \<and> (sx_ID r, sx_Document r) \<in> set t)"
  using assms
  by (auto simp: makeSearchKnowledgeHandler_def knowledgeSearch_def min_le_iff_disj clampResults_le split: sum.splits if_splits option.splits
      dest!: in_set_takeD)

lemma take_sorted: "sorted xs \<Longrightarrow> sorted (take n xs)"
  by (simp add: sorted_wrt_take)

lemma search_ranked:
  assumes "knowledgeSearch env te q n t = Inr rs"
  shows "sorted (map (\<lambda>r. - sx_Rank r) rs)"
proof -
  have "sorted (take m (map (\<lambda>(i, d). - kv_rank env q d) (sort_key (\<lambda>(i, d). - kv_rank env q d) xs)))" for m and xs :: docTable
    by (rule take_sorted) simp
  then show ?thesis using assms
    by (auto simp: knowledgeSearch_def take_map[symmetric] o_def case_prod_unfold split: if_splits option.splits)
qed

text \<open>Documents of a tenant are kept by the others' operations, except that an insertion with the identifier of an existing
  document replaces it and moves it to the other tenant.\<close>

lemma index_takes_over:
  "mget t docID = Some d0 \<Longrightarrow> dc_TenantID d \<noteq> [] \<Longrightarrow> dc_Title d \<noteq> [] \<Longrightarrow> dc_Content d \<noteq> [] \<Longrightarrow> docID \<noteq> [] \<Longrightarrow> kv_fail env ''index'' = None \<Longrightarrow>
   mget (snd (knowledgeIndex env docID d t)) docID = Some (d\<lparr>dc_CreatedAt := kv_now env\<rparr>)"
  by (simp add: knowledgeIndex_def)

lemma delete_other_tenant:
  assumes "gwf t" "mget t i = Some d" "dc_TenantID d \<noteq> tenantID"
  shows "mget (snd (knowledgeDelete env tenantID docID t)) i = Some d"
  using assms by (auto simp: knowledgeDelete_def mget_mfilter split: option.splits)

lemma index_keeps_others:
  assumes "i \<noteq> docID" shows "mget (snd (knowledgeIndex env docID d t)) i = mget t i"
  using assms by (simp add: knowledgeIndex_def split: option.splits)

end
