(* ===== verification/Agent_Control.thy ===== *)
theory Agent_Control
  imports Agent_Memory
begin

text \<open>
  Agent control: the manager of spawned agents (internal/agents/manager.go) with its tools (mcp/tools/agents.go), the decision log
  (mcp/tools/auditstore.go) with \<open>log_decision\<close> and \<open>get_audit_log\<close>, and clearance elevation
  (internal/storage/postgres/clearance.go, mcp/tools/governance.go).

  \<^item> The manager is a map of agents and, per parent, the set of its children; identifiers and clocks are arguments.
  \<^item> Shown: children stay in the tenant of their parent and messages within a tenant; a parent never has more than the
    configured number of active children; the decision log keeps the newest entries and returns newest first. As the program is put
    together no agent can ever be spawned and no elevation can ever be approved.
\<close>

subsection \<open>The agent manager\<close>

datatype agentStatus = AgentStatusCreated | AgentStatusRunning | AgentStatusCompleted | AgentStatusFailed

record agentMessage =
  am_ID :: string
  am_FromID :: string
  am_ToID :: string
  am_Content :: string
  am_CreatedAt :: time

record managedAgent =
  ga_ID :: string
  ga_ParentID :: string
  ga_TenantID :: string
  ga_Directive :: string
  ga_AllowedTools :: "string list"
  ga_Status :: agentStatus
  ga_Messages :: "agentMessage list"
  ga_CreatedAt :: time
  ga_UpdatedAt :: time

record agentManager =
  gm_agents :: "(string, managedAgent) gomap"
  gm_children :: "(string, string list) gomap"
  gm_max :: nat

definition DefaultMaxConcurrentAgents :: nat where "DefaultMaxConcurrentAgents = 10"

definition NewInMemoryAgentManager :: "int \<Rightarrow> agentManager" where
  "NewInMemoryAgentManager n = \<lparr>gm_agents = [], gm_children = [], gm_max = (if n \<le> 0 then DefaultMaxConcurrentAgents else nat n)\<rparr>"

definition SeedAgent :: "managedAgent \<Rightarrow> agentManager \<Rightarrow> agentManager" where
  "SeedAgent a m = m\<lparr>gm_agents := mput (ga_ID a) a (gm_agents m)\<rparr>"

definition isActive :: "agentManager \<Rightarrow> string \<Rightarrow> bool" where
  "isActive m c = (case mget (gm_agents m) c of None \<Rightarrow> False | Some a \<Rightarrow> ga_Status a = AgentStatusCreated \<or> ga_Status a = AgentStatusRunning)"

definition activeCount :: "agentManager \<Rightarrow> string \<Rightarrow> nat" where
  "activeCount m parentID = length (filter (isActive m) (zget [] (gm_children m) parentID))"

definition quoted :: "string \<Rightarrow> string" where "quoted s = [CHR 0x22] @ s @ [CHR 0x22]"

definition SpawnAgent ::
  "time \<Rightarrow> string \<Rightarrow> string \<Rightarrow> string \<Rightarrow> string \<Rightarrow> string list \<Rightarrow> agentManager \<Rightarrow> (string + managedAgent) \<times> agentManager" where
  "SpawnAgent now newID parentID tenantID directive tools m =
     (if parentID = [] then (Inl ''agents: parent_id must not be empty'', m)
      else if tenantID = [] then (Inl ''agents: tenant_id must not be empty'', m)
      else if directive = [] then (Inl ''agents: directive must not be empty'', m)
      else case mget (gm_agents m) parentID of
        None \<Rightarrow> (Inl (''agents: parent '' @ quoted parentID @ '' not found''), m)
      | Some parent \<Rightarrow>
          if ga_Status parent = AgentStatusFailed then (Inl (''agents: cannot spawn from failed parent '' @ quoted parentID), m)
          else if ga_TenantID parent \<noteq> tenantID then (Inl (''agents: tenant mismatch'' @ quoted parentID), m)
          else if activeCount m parentID \<ge> gm_max m then (Inl (''agents: parent '' @ quoted parentID @ '' has reached max concurrent agents''), m)
          else
            (let a = \<lparr>ga_ID = newID, ga_ParentID = parentID, ga_TenantID = tenantID, ga_Directive = directive, ga_AllowedTools = tools,
                      ga_Status = AgentStatusCreated, ga_Messages = [], ga_CreatedAt = now, ga_UpdatedAt = now\<rparr>;
                 kids = zget [] (gm_children m) parentID in
             (Inr a, m\<lparr>gm_agents := mput newID a (gm_agents m), gm_children := mput parentID (List.insert newID kids) (gm_children m)\<rparr>)))"

definition SendMessage :: "time \<Rightarrow> string \<Rightarrow> string \<Rightarrow> string \<Rightarrow> string \<Rightarrow> agentManager \<Rightarrow> string option \<times> agentManager" where
  "SendMessage now msgID fromID toID message m =
     (if fromID = [] then (Some ''agents: from_id must not be empty'', m)
      else if toID = [] then (Some ''agents: to_id must not be empty'', m)
      else if message = [] then (Some ''agents: message must not be empty'', m)
      else case mget (gm_agents m) fromID of
        None \<Rightarrow> (Some (''agents: sender '' @ quoted fromID @ '' not found''), m)
      | Some from_a \<Rightarrow>
          (case mget (gm_agents m) toID of
             None \<Rightarrow> (Some (''agents: recipient '' @ quoted toID @ '' not found''), m)
           | Some to_a \<Rightarrow>
               if ga_TenantID from_a \<noteq> ga_TenantID to_a then (Some ''agents: cross-tenant messaging denied'', m)
               else (None, m\<lparr>gm_agents := mput toID
                      (to_a\<lparr>ga_Messages := ga_Messages to_a @ [\<lparr>am_ID = msgID, am_FromID = fromID, am_ToID = toID, am_Content = message, am_CreatedAt = now\<rparr>],
                           ga_UpdatedAt := now\<rparr>) (gm_agents m)\<rparr>)))"

definition GetStatus :: "string \<Rightarrow> agentManager \<Rightarrow> string + managedAgent" where
  "GetStatus agentID m =
     (if agentID = [] then Inl ''agents: agent_id must not be empty''
      else case mget (gm_agents m) agentID of None \<Rightarrow> Inl (''agents: agent '' @ quoted agentID @ '' not found'') | Some a \<Rightarrow> Inr a)"

subsection \<open>The agent tools\<close>

definition makeSpawnAgentHandler ::
  "time \<Rightarrow> string \<Rightarrow> (string \<Rightarrow> string + string \<times> string list) \<Rightarrow> mcpAuthContext option \<Rightarrow> string \<Rightarrow> agentManager \<Rightarrow> (string + managedAgent) \<times> agentManager" where
  "makeSpawnAgentHandler now newID decode acOpt params m =
     (case decode params of
        Inl e \<Rightarrow> (Inl (''invalid parameters: '' @ e), m)
      | Inr (directive, tools) \<Rightarrow>
          if directive = [] then (Inl ''directive is required'', m)
          else (case acOpt of
                  None \<Rightarrow> (Inl ''missing auth context'', m)
                | Some ac \<Rightarrow> (case SpawnAgent now newID (ma_AgentID ac) (ma_TenantID ac) directive tools m of
                               (Inl e, m') \<Rightarrow> (Inl (''failed to spawn agent: '' @ e), m')
                             | (Inr a, m') \<Rightarrow> (Inr a, m'))))"

definition makeMessageAgentHandler ::
  "time \<Rightarrow> string \<Rightarrow> (string \<Rightarrow> string + string \<times> string) \<Rightarrow> mcpAuthContext option \<Rightarrow> string \<Rightarrow> agentManager \<Rightarrow> (string + string) \<times> agentManager" where
  "makeMessageAgentHandler now msgID decode acOpt params m =
     (case decode params of
        Inl e \<Rightarrow> (Inl (''invalid parameters: '' @ e), m)
      | Inr (agentID, message) \<Rightarrow>
          if agentID = [] then (Inl ''agent_id is required'', m)
          else if message = [] then (Inl ''message is required'', m)
          else (case acOpt of
                  None \<Rightarrow> (Inl ''missing auth context'', m)
                | Some ac \<Rightarrow> (case SendMessage now msgID (ma_AgentID ac) agentID message m of
                               (Some e, m') \<Rightarrow> (Inl (''failed to send message: '' @ e), m')
                             | (None, m') \<Rightarrow> (Inr agentID, m'))))"

definition makeGetAgentStatusHandler ::
  "(string \<Rightarrow> string + string) \<Rightarrow> mcpAuthContext option \<Rightarrow> string \<Rightarrow> agentManager \<Rightarrow> string + managedAgent" where
  "makeGetAgentStatusHandler decode acOpt params m =
     (case decode params of
        Inl e \<Rightarrow> Inl (''invalid parameters: '' @ e)
      | Inr agentID \<Rightarrow>
          if agentID = [] then Inl ''agent_id is required''
          else if acOpt = None then Inl ''missing auth context''
          else (case GetStatus agentID m of Inl e \<Rightarrow> Inl (''failed to get agent status: '' @ e) | Inr a \<Rightarrow> Inr a))"

subsection \<open>The decision log\<close>

record decisionEntry =
  dn_ID :: string
  dn_AgentID :: string
  dn_TenantID :: string
  dn_Decision :: string
  dn_Reasoning :: string
  dn_CreatedAt :: time

record auditStoreEntry =
  ax_ID :: string
  ax_AgentID :: string
  ax_TenantID :: string
  ax_Action :: string
  ax_Detail :: string
  ax_CreatedAt :: time

record auditStore =
  dg_entries :: "auditStoreEntry list"
  dg_maxSize :: nat

definition NewInMemoryAuditStore :: "int \<Rightarrow> auditStore" where
  "NewInMemoryAuditStore n = \<lparr>dg_entries = [], dg_maxSize = (if n \<le> 0 then 10000 else nat n)\<rparr>"

definition decisionRow :: "decisionEntry \<Rightarrow> auditStoreEntry" where
  "decisionRow e = \<lparr>ax_ID = dn_ID e, ax_AgentID = dn_AgentID e, ax_TenantID = dn_TenantID e, ax_Action = ''decision: '' @ dn_Decision e,
     ax_Detail = dn_Reasoning e, ax_CreatedAt = dn_CreatedAt e\<rparr>"

definition LogDecision :: "decisionEntry \<Rightarrow> auditStore \<Rightarrow> auditStore" where
  "LogDecision e s =
     (let es = dg_entries s @ [decisionRow e] in
      s\<lparr>dg_entries := (if length es > dg_maxSize s then drop (length es - dg_maxSize s) es else es)\<rparr>)"

fun readBack :: "string \<Rightarrow> string \<Rightarrow> nat \<Rightarrow> auditStoreEntry list \<Rightarrow> auditStoreEntry list" where
  "readBack agentID tenantID n [] = []"
| "readBack agentID tenantID n (e # es) =
     (if n = 0 then []
      else if agentID \<noteq> [] \<and> \<not> EqualFold (ax_AgentID e) agentID then readBack agentID tenantID n es
      else if tenantID \<noteq> [] \<and> \<not> EqualFold (ax_TenantID e) tenantID then readBack agentID tenantID n es
      else e # readBack agentID tenantID (n - 1) es)"

definition auditRead :: "string \<Rightarrow> string \<Rightarrow> int \<Rightarrow> auditStore \<Rightarrow> auditStoreEntry list" where
  "auditRead agentID tenantID limit s = readBack agentID tenantID (nat (if limit \<le> 0 then 50 else limit)) (rev (dg_entries s))"

definition makeLogDecisionHandler ::
  "time \<Rightarrow> string + string \<Rightarrow> (string \<Rightarrow> string + string \<times> string) \<Rightarrow> mcpAuthContext option \<Rightarrow> string \<Rightarrow> auditStore \<Rightarrow> (string + string \<times> time) \<times> auditStore" where
  "makeLogDecisionHandler now uuid decode acOpt params s =
     (case decode params of
        Inl e \<Rightarrow> (Inl (''invalid parameters: '' @ e), s)
      | Inr (decision, reasoning) \<Rightarrow>
          if decision = [] then (Inl ''decision is required'', s)
          else if reasoning = [] then (Inl ''reasoning is required'', s)
          else (case acOpt of
                  None \<Rightarrow> (Inl ''missing auth context'', s)
                | Some ac \<Rightarrow>
                    (case uuid of
                       Inl e \<Rightarrow> (Inl (''generate entry ID: '' @ e), s)
                     | Inr i \<Rightarrow>
                         (Inr (i, now), LogDecision \<lparr>dn_ID = i, dn_AgentID = ma_AgentID ac, dn_TenantID = ma_TenantID ac, dn_Decision = decision,
                            dn_Reasoning = reasoning, dn_CreatedAt = now\<rparr> s))))"

definition makeGetAuditLogHandler ::
  "(string \<Rightarrow> string + string \<times> string \<times> int) \<Rightarrow> string option \<Rightarrow> auditStore option \<Rightarrow> string + auditStoreEntry list" where
  "makeGetAuditLogHandler decode params store =
     (case (case params of None \<Rightarrow> Inr ([], [], 0) | Some p \<Rightarrow> decode p) of
        Inl e \<Rightarrow> Inl (''get_audit_log: invalid arguments: '' @ e)
      | Inr (agentID, tenantID, limit) \<Rightarrow>
          (case store of
             None \<Rightarrow> Inl ''get_audit_log: audit store not configured''
           | Some s \<Rightarrow> Inr (auditRead agentID tenantID (if limit \<le> 0 then 50 else limit) s)))"

subsection \<open>Clearance in Postgres and elevation\<close>

type_synonym clearanceTable = "(string, string \<times> int) gomap"

definition pgGetClearance :: "string option \<Rightarrow> clearanceTable \<Rightarrow> string \<Rightarrow> clearErr + int" where
  "pgGetClearance fail t agentID =
     (if agentID = [] then Inl EmptyAgent
      else case fail of
        Some e \<Rightarrow> Inl (ClearBackend e)
      | None \<Rightarrow> (case mget t agentID of None \<Rightarrow> Inl (UnknownAgent agentID) | Some (_, tier) \<Rightarrow> Inr tier))"

definition pgSetClearance :: "string option \<Rightarrow> string \<Rightarrow> string \<Rightarrow> int \<Rightarrow> clearanceTable \<Rightarrow> string option \<times> clearanceTable" where
  "pgSetClearance fail agentID tenantID tier t =
     (if agentID = [] then (Some ''clearance: agent_id must not be empty'', t)
      else if tenantID = [] then (Some ''clearance: tenant_id must not be empty'', t)
      else case fail of
        Some e \<Rightarrow> (Some (''clearance: upsert failed: '' @ e), t)
      | None \<Rightarrow> (None, mput agentID (tenantID, tier) t))"

record elevationRequest =
  ev_ID :: string
  ev_AgentID :: string
  ev_TenantID :: string
  ev_RequestedTier :: int
  ev_Reason :: string
  ev_Status :: string
  ev_ApprovedAt :: "time option"
  ev_ExpiresAt :: "time option"
  ev_CreatedAt :: time

type_synonym elevationStore = "(string, elevationRequest) gomap"

definition RequestElevation ::
  "time \<Rightarrow> string + string \<Rightarrow> string \<Rightarrow> string \<Rightarrow> int \<Rightarrow> string \<Rightarrow> elevationStore \<Rightarrow> (string + string) \<times> elevationStore" where
  "RequestElevation now uuid agentID tenantID tier reason s =
     (if agentID = [] then (Inl ''elevation: agent_id must not be empty'', s)
      else if tenantID = [] then (Inl ''elevation: tenant_id must not be empty'', s)
      else if tier < 0 \<or> tier > 4 then (Inl (''elevation: requested_tier must be 0-4, got '' @ Itoa tier), s)
      else if reason = [] then (Inl ''elevation: reason must not be empty'', s)
      else case uuid of
        Inl e \<Rightarrow> (Inl (''elevation: generate ID: '' @ e), s)
      | Inr i \<Rightarrow> (Inr i, mput i \<lparr>ev_ID = i, ev_AgentID = agentID, ev_TenantID = tenantID, ev_RequestedTier = tier, ev_Reason = reason, ev_Status = ''pending'',
                                 ev_ApprovedAt = None, ev_ExpiresAt = None, ev_CreatedAt = now\<rparr> s))"

definition GetElevationStatus :: "string \<Rightarrow> elevationStore \<Rightarrow> string + elevationRequest" where
  "GetElevationStatus requestID s =
     (if requestID = [] then Inl ''elevation: request_id must not be empty''
      else case mget s requestID of None \<Rightarrow> Inl (''elevation: request '' @ quoted requestID @ '' not found'') | Some r \<Rightarrow> Inr r)"

definition ApproveElevation :: "time \<Rightarrow> string \<Rightarrow> duration \<Rightarrow> elevationStore \<Rightarrow> string option \<times> elevationStore" where
  "ApproveElevation now requestID d s =
     (if requestID = [] then (Some ''elevation: request_id must not be empty'', s)
      else if d \<le> 0 then (Some ''elevation: duration must be positive'', s)
      else case mget s requestID of
        None \<Rightarrow> (Some (''elevation: request '' @ quoted requestID @ '' not found''), s)
      | Some r \<Rightarrow> (None, mput requestID (r\<lparr>ev_Status := ''approved'', ev_ApprovedAt := Some now, ev_ExpiresAt := Some (now + d)\<rparr>) s))"

definition DenyElevation :: "string \<Rightarrow> elevationStore \<Rightarrow> string option \<times> elevationStore" where
  "DenyElevation requestID s =
     (if requestID = [] then (Some ''elevation: request_id must not be empty'', s)
      else case mget s requestID of
        None \<Rightarrow> (Some (''elevation: request '' @ quoted requestID @ '' not found''), s)
      | Some r \<Rightarrow> (None, mput requestID (r\<lparr>ev_Status := ''denied''\<rparr>) s))"

definition makeRequestElevationHandler ::
  "time \<Rightarrow> string + string \<Rightarrow> (string \<Rightarrow> string + string \<times> int) \<Rightarrow> mcpAuthContext option \<Rightarrow> string \<Rightarrow> elevationStore \<Rightarrow> (string + string) \<times> elevationStore" where
  "makeRequestElevationHandler now uuid decode acOpt params s =
     (case decode params of
        Inl e \<Rightarrow> (Inl (''invalid parameters: '' @ e), s)
      | Inr (reason, tier) \<Rightarrow>
          if reason = [] then (Inl ''reason is required'', s)
          else if tier < 0 \<or> tier > 4 then (Inl (''requested_tier must be 0-4, got '' @ Itoa tier), s)
          else (case acOpt of
                  None \<Rightarrow> (Inl ''missing auth context'', s)
                | Some ac \<Rightarrow> (case RequestElevation now uuid (ma_AgentID ac) (ma_TenantID ac) tier reason s of
                               (Inl e, s') \<Rightarrow> (Inl (''failed to create elevation request: '' @ e), s')
                             | (Inr i, s') \<Rightarrow> (Inr i, s'))))"

text \<open>The answer: identifier, status and, when approved, the tier and the expiry.\<close>

definition makeCheckElevationStatusHandler ::
  "(string \<Rightarrow> string + string) \<Rightarrow> string \<Rightarrow> elevationStore \<Rightarrow> string + string \<times> string \<times> int option \<times> time option" where
  "makeCheckElevationStatusHandler decode params s =
     (case decode params of
        Inl e \<Rightarrow> Inl (''invalid parameters: '' @ e)
      | Inr requestID \<Rightarrow>
          if requestID = [] then Inl ''request_id is required''
          else (case GetElevationStatus requestID s of
                  Inl e \<Rightarrow> Inl (''elevation request not found: '' @ e)
                | Inr r \<Rightarrow> Inr (ev_ID r, ev_Status r,
                    if ev_Status r = ''approved'' then (Some (ev_RequestedTier r), ev_ExpiresAt r) else (None, None))))"

definition makeCheckAuthHandler ::
  "('c \<Rightarrow> string \<Rightarrow> clearErr + int) \<Rightarrow> toolRegistry \<Rightarrow> 'c \<Rightarrow> (string \<Rightarrow> string + string) \<Rightarrow> mcpAuthContext option \<Rightarrow> string \<Rightarrow> string + bool \<times> rpcMsg" where
  "makeCheckAuthHandler getC registry store decode acOpt params =
     (case decode params of
        Inl e \<Rightarrow> Inl (''invalid parameters: '' @ e)
      | Inr name \<Rightarrow>
          if name = [] then Inl ''tool_name is required''
          else (case Tool_Get registry name of
                  None \<Rightarrow> Inr (False, Msg (''tool '' @ quoted name @ '' not found''))
                | Some t \<Rightarrow> (case AuthorizeToolCall getC acOpt t store of
                              Some (_, msg) \<Rightarrow> Inr (False, msg)
                            | None \<Rightarrow> Inr (True, Msg ''agent has sufficient clearance''))))"

subsection \<open>Identifiers\<close>

unbundle bit_operations_syntax

definition hexByte :: "8 word \<Rightarrow> string" where
  "hexByte b = [hexDigit (unat b div 16), hexDigit (unat b mod 16)]"

definition hexBytes :: "8 word list \<Rightarrow> string" where "hexBytes bs = concat (map hexByte bs)"

definition newUUID :: "string + 8 word list \<Rightarrow> string + string" where
  "newUUID rand =
     (case rand of
        Inl e \<Rightarrow> Inl e
      | Inr b0 \<Rightarrow>
          (let b = b0[6 := (b0 ! 6 AND 0x0f) OR 0x40, 8 := (b0 ! 8 AND 0x3f) OR 0x80] in
           Inr (hexBytes (take 4 b) @ ''-'' @ hexBytes (take 2 (drop 4 b)) @ ''-'' @ hexBytes (take 2 (drop 6 b)) @ ''-'' @ hexBytes (take 2 (drop 8 b)) @ ''-'' @
                hexBytes (take 6 (drop 10 b)))))"

text \<open>The identifiers are of version 4 and of the RFC variant, whatever the random bytes.\<close>

lemma version_nibble: "unat ((x AND 0x0f) OR 0x40 :: 8 word) div 16 = 4"
proof -
  have "(x AND 0x0f) AND 0x40 = (0 :: 8 word)" by (simp add: and.assoc)
  then have "(x AND 0x0f) OR 0x40 = (x AND 0x0f) + (0x40 :: 8 word)" by (simp add: disjunctive_add_eq_or)
  moreover have "unat (x AND 0x0f) < 16" using word_and_le1[of x "0x0f"] by (simp add: word_le_nat_alt)
  ultimately show ?thesis by (simp add: unat_word_ariths)
qed

lemma variant_nibble: "unat ((x AND 0x3f) OR 0x80 :: 8 word) div 16 \<in> {8, 9, 10, 11}"
proof -
  have "(x AND 0x3f) AND 0x80 = (0 :: 8 word)" by (simp add: and.assoc)
  then have "(x AND 0x3f) OR 0x80 = (x AND 0x3f) + (0x80 :: 8 word)" by (simp add: disjunctive_add_eq_or)
  moreover have "unat (x AND 0x3f) < 64" using word_and_le1[of x "0x3f"] by (simp add: word_le_nat_alt)
  ultimately have "unat ((x AND 0x3f) OR 0x80 :: 8 word) = unat (x AND 0x3f) + 128 \<and> unat (x AND 0x3f) < 64" by (simp add: unat_word_ariths)
  then show ?thesis by auto
qed

subsection \<open>Containment of spawned agents\<close>

definition tenantOf :: "agentManager \<Rightarrow> string \<Rightarrow> string option" where
  "tenantOf m i = map_option ga_TenantID (mget (gm_agents m) i)"

definition agentOk :: "agentManager \<Rightarrow> string \<Rightarrow> managedAgent \<Rightarrow> bool" where
  "agentOk m i a \<longleftrightarrow> ga_ID a = i \<and> (ga_ParentID a = [] \<or> tenantOf m (ga_ParentID a) = Some (ga_TenantID a)) \<and>
     (\<forall>x\<in>set (ga_Messages a). am_ToID x = i \<and> tenantOf m (am_FromID x) = Some (ga_TenantID a))"

definition agentsOk :: "agentManager \<Rightarrow> bool" where
  "agentsOk m \<longleftrightarrow> (\<forall>i a. mget (gm_agents m) i = Some a \<longrightarrow> agentOk m i a) \<and>
     (\<forall>p. distinct (zget [] (gm_children m) p) \<and> (\<forall>c\<in>set (zget [] (gm_children m) p). mget (gm_agents m) c \<noteq> None) \<and> activeCount m p \<le> gm_max m)"

lemma agentsOk_agent: "agentsOk m \<Longrightarrow> mget (gm_agents m) i = Some a \<Longrightarrow> agentOk m i a"
  by (simp add: agentsOk_def)

lemma agentsOk_children:
  assumes "agentsOk m"
  shows "distinct (zget [] (gm_children m) p)" "activeCount m p \<le> gm_max m" "mget (gm_agents m) c = None \<Longrightarrow> c \<notin> set (zget [] (gm_children m) p)"
    "c \<in> set (zget [] (gm_children m) p) \<Longrightarrow> \<exists>a. mget (gm_agents m) c = Some a"
  using assms unfolding agentsOk_def by blast+

lemma agentOk_mono:
  assumes "agentOk m i a" "\<And>j t. tenantOf m j = Some t \<Longrightarrow> tenantOf m' j = Some t"
  shows "agentOk m' i a"
  using assms by (auto simp: agentOk_def)

text \<open>The two ways an operation changes the table: a fresh agent, and an agent with the same tenant and status.\<close>

lemma fresh_keeps:
  assumes "mget (gm_agents m) k = None" "gm_agents m' = mput k a (gm_agents m)"
  shows "tenantOf m j = Some t \<Longrightarrow> tenantOf m' j = Some t" "j \<noteq> k \<Longrightarrow> isActive m' j = isActive m j"
  using assms by (auto simp: tenantOf_def isActive_def)

lemma update_keeps:
  assumes "mget (gm_agents m) k = Some a0" "gm_agents m' = mput k a (gm_agents m)" "ga_TenantID a = ga_TenantID a0" "ga_Status a = ga_Status a0"
  shows "tenantOf m' j = tenantOf m j" "isActive m' j = isActive m j"
  using assms by (auto simp: tenantOf_def isActive_def)

lemma SeedAgent_ok:
  assumes ok: "agentsOk m" and fresh: "mget (gm_agents m) (ga_ID a) = None" and root: "ga_ParentID a = []" "ga_Messages a = []"
  shows "agentsOk (SeedAgent a m)"
proof -
  define m' where "m' = SeedAgent a m"
  have g: "gm_agents m' = mput (ga_ID a) a (gm_agents m)" "gm_children m' = gm_children m" "gm_max m' = gm_max m" by (simp_all add: m'_def SeedAgent_def)
  note k = fresh_keeps[OF fresh g(1)]
  have act: "activeCount m' p = activeCount m p" for p
    unfolding activeCount_def g(2) using agentsOk_children(3)[OF ok fresh, of p] k(2) by (metis (mono_tags, lifting) filter_cong)
  have "agentOk m' i b" if "mget (gm_agents m') i = Some b" for i b
    using that root agentOk_mono[OF agentsOk_agent[OF ok] k(1)] by (cases "i = ga_ID a") (auto simp: g(1) agentOk_def)
  then show ?thesis using ok act g unfolding agentsOk_def m'_def[symmetric] by auto
qed

lemma SpawnAgent_ok:
  assumes ok: "agentsOk m" and fresh: "mget (gm_agents m) newID = None"
  shows "agentsOk (snd (SpawnAgent now newID parentID tenantID directive tools m))"
proof (cases "snd (SpawnAgent now newID parentID tenantID directive tools m) = m")
  case False
  define m' where "m' = snd (SpawnAgent now newID parentID tenantID directive tools m)"
  let ?a = "\<lparr>ga_ID = newID, ga_ParentID = parentID, ga_TenantID = tenantID, ga_Directive = directive, ga_AllowedTools = tools,
    ga_Status = AgentStatusCreated, ga_Messages = [], ga_CreatedAt = now, ga_UpdatedAt = now\<rparr>"
  let ?kids = "zget [] (gm_children m)"
  have m': "m' = m\<lparr>gm_agents := mput newID ?a (gm_agents m), gm_children := mput parentID (List.insert newID (?kids parentID)) (gm_children m)\<rparr>"
    and par: "tenantOf m parentID = Some tenantID" and below: "activeCount m parentID < gm_max m"
    using False by (auto simp: SpawnAgent_def m'_def tenantOf_def Let_def split: if_splits option.splits)
  have g: "gm_agents m' = mput newID ?a (gm_agents m)" by (simp add: m')
  note k = fresh_keeps[OF fresh g]
  have new: "newID \<notin> set (?kids p)" for p using agentsOk_children(3)[OF ok fresh] .
  have same: "filter (isActive m') (?kids p) = filter (isActive m) (?kids p)" for p
    using k(2) new by (metis (mono_tags, lifting) filter_cong)
  have act: "activeCount m' p = (if p = parentID then Suc (activeCount m p) else activeCount m p)" for p
  proof -
    have "isActive m' newID" by (simp add: isActive_def g)
    then show ?thesis using same new by (simp add: activeCount_def m' zget_mput)
  qed
  have "agentOk m' i b" if "mget (gm_agents m') i = Some b" for i b
    using that k(1)[OF par] agentOk_mono[OF agentsOk_agent[OF ok] k(1)] by (cases "i = newID") (auto simp: g agentOk_def)
  moreover have "activeCount m' p \<le> gm_max m'" for p using act below ok by (auto simp: m' agentsOk_def)
  moreover have "distinct (zget [] (gm_children m') p)" "\<forall>c\<in>set (zget [] (gm_children m') p). mget (gm_agents m') c \<noteq> None" for p
    using ok by (auto simp: m' agentsOk_def)
  ultimately show ?thesis unfolding agentsOk_def m'_def[symmetric] by blast
qed (use ok in simp)

lemma SendMessage_ok:
  assumes ok: "agentsOk m"
  shows "agentsOk (snd (SendMessage now msgID fromID toID message m))"
proof (cases "snd (SendMessage now msgID fromID toID message m) = m")
  case False
  define m' where "m' = snd (SendMessage now msgID fromID toID message m)"
  let ?x = "\<lparr>am_ID = msgID, am_FromID = fromID, am_ToID = toID, am_Content = message, am_CreatedAt = now\<rparr>"
  obtain fr t where fr: "mget (gm_agents m) fromID = Some fr" and t: "mget (gm_agents m) toID = Some t" and te: "ga_TenantID fr = ga_TenantID t"
    and m': "m' = m\<lparr>gm_agents := mput toID (t\<lparr>ga_Messages := ga_Messages t @ [?x], ga_UpdatedAt := now\<rparr>) (gm_agents m)\<rparr>"
    using False by (auto simp: SendMessage_def m'_def split: if_splits option.splits)
  have g: "gm_agents m' = mput toID (t\<lparr>ga_Messages := ga_Messages t @ [?x], ga_UpdatedAt := now\<rparr>) (gm_agents m)" by (simp add: m')
  have tn: "tenantOf m' j = tenantOf m j" for j using update_keeps[OF t g] by simp
  have act: "isActive m' = isActive m" using update_keeps[OF t g] by auto
  have "tenantOf m fromID = Some (ga_TenantID t)" using fr te by (simp add: tenantOf_def)
  then have "agentOk m' i b" if "mget (gm_agents m') i = Some b" for i b
    using that agentsOk_agent[OF ok t] agentsOk_agent[OF ok, of i] by (auto simp: g agentOk_def tn split: if_splits)
  moreover have "activeCount m' p = activeCount m p" for p unfolding activeCount_def act by (simp add: m')
  ultimately show ?thesis using ok unfolding agentsOk_def m'_def[symmetric] by (auto simp: m')
qed (use ok in simp)

text \<open>The manager under its tools, with root agents registered in between; identifiers of new agents are fresh.\<close>

inductive agent_control_step :: "agentManager \<Rightarrow> agentManager \<Rightarrow> bool" where
  step_spawn: "mget (gm_agents m) newID = None \<Longrightarrow> agent_control_step m (snd (makeSpawnAgentHandler now newID decode acOpt params m))"
| step_message: "agent_control_step m (snd (makeMessageAgentHandler now msgID decode acOpt params m))"
| step_seed: "mget (gm_agents m) (ga_ID a) = None \<Longrightarrow> ga_ParentID a = [] \<Longrightarrow> ga_Messages a = [] \<Longrightarrow> agent_control_step m (SeedAgent a m)"

lemma spawn_handler_snd:
  "snd (makeSpawnAgentHandler now newID decode acOpt params m) = m \<or>
   (\<exists>p t d ts. snd (makeSpawnAgentHandler now newID decode acOpt params m) = snd (SpawnAgent now newID p t d ts m))"
  by (auto simp: makeSpawnAgentHandler_def split: sum.splits option.splits prod.splits) (metis snd_conv)+

lemma message_handler_snd:
  "snd (makeMessageAgentHandler now msgID decode acOpt params m) = m \<or>
   (\<exists>f t x. snd (makeMessageAgentHandler now msgID decode acOpt params m) = snd (SendMessage now msgID f t x m))"
  by (auto simp: makeMessageAgentHandler_def split: sum.splits option.splits prod.splits) (metis snd_conv)+

lemma agent_control_step_ok: "agent_control_step m m' \<Longrightarrow> agentsOk m \<Longrightarrow> agentsOk m'"
proof (induction rule: agent_control_step.induct)
  case (step_spawn m newID now decode acOpt params)
  then show ?case using spawn_handler_snd[of now newID decode acOpt params m] SpawnAgent_ok by metis
next
  case (step_message m now msgID decode acOpt params)
  then show ?case using message_handler_snd[of now msgID decode acOpt params m] SendMessage_ok by metis
next
  case (step_seed m a)
  then show ?case using SeedAgent_ok by blast
qed

interpretation agent_sys: inv_system "\<lambda>m. m = NewInMemoryAgentManager n" agent_control_step agentsOk for n
proof unfold_locales
  show "m = NewInMemoryAgentManager n \<Longrightarrow> agentsOk m" for m by (simp add: agentsOk_def NewInMemoryAgentManager_def activeCount_def)
  show "agentsOk m \<Longrightarrow> agent_control_step m m' \<Longrightarrow> agentsOk m'" for m m' by (rule agent_control_step_ok)
qed

lemma gm_max_const: "agent_control_step m m' \<Longrightarrow> gm_max m' = gm_max m"
proof (induction rule: agent_control_step.induct)
  case (step_spawn m newID now decode acOpt params)
  then show ?case using spawn_handler_snd[of now newID decode acOpt params m]
    by (auto simp: SpawnAgent_def Let_def split: if_splits option.splits)
next
  case (step_message m now msgID decode acOpt params)
  then show ?case using message_handler_snd[of now msgID decode acOpt params m]
    by (auto simp: SendMessage_def split: if_splits option.splits)
qed (simp add: SeedAgent_def)

interpretation agent_max: inv_system "\<lambda>m. m = NewInMemoryAgentManager n" agent_control_step "\<lambda>m. gm_max m = gm_max (NewInMemoryAgentManager n)" for n
  by unfold_locales (auto simp: gm_max_const)

text \<open>C38. Containment of spawned agents: in every state the tools reach, an agent belongs to the tenant of its parent, every
  message it holds is addressed to it and comes from an agent of its tenant, and a parent has at most the configured number of
  active children (10 by default).\<close>

theorem agents_contained:
  assumes "reachable (\<lambda>m. m = NewInMemoryAgentManager n) agent_control_step m" "mget (gm_agents m) i = Some a"
  shows "(ga_ParentID a = [] \<or> tenantOf m (ga_ParentID a) = Some (ga_TenantID a)) \<and>
    (\<forall>x\<in>set (ga_Messages a). am_ToID x = i \<and> tenantOf m (am_FromID x) = Some (ga_TenantID a)) \<and>
    activeCount m i \<le> (if n \<le> 0 then 10 else nat n)"
  using agent_sys.inv_reachable[OF assms(1)] agent_max.inv_reachable[OF assms(1)] assms(2)
  by (auto simp: agentsOk_def agentOk_def NewInMemoryAgentManager_def DefaultMaxConcurrentAgents_def)

definition rootAgent :: managedAgent where
  "rootAgent = \<lparr>ga_ID = ''root'', ga_ParentID = [], ga_TenantID = ''t'', ga_Directive = [], ga_AllowedTools = [], ga_Status = AgentStatusRunning,
     ga_Messages = [], ga_CreatedAt = 0, ga_UpdatedAt = 0\<rparr>"

definition sampleManager :: agentManager where
  "sampleManager = snd (makeSpawnAgentHandler 5 ''kid'' (\<lambda>p. Inr (p, [])) (Some \<lparr>ma_AgentID = ''root'', ma_TenantID = ''t''\<rparr>) ''work'' (SeedAgent rootAgent (NewInMemoryAgentManager 0)))"

lemma sampleManager_code:
  "map_option ga_ParentID (mget (gm_agents sampleManager) ''kid'') = Some ''root''" "activeCount sampleManager ''root'' = 1"
  by code_simp+

theorem agents_contained_witness:
  "\<exists>a. mget (gm_agents sampleManager) ''kid'' = Some a \<and> ga_ParentID a = ''root'' \<and>
    (ga_ParentID a = [] \<or> tenantOf sampleManager (ga_ParentID a) = Some (ga_TenantID a)) \<and>
    (\<forall>x\<in>set (ga_Messages a). am_ToID x = ''kid'' \<and> tenantOf sampleManager (am_FromID x) = Some (ga_TenantID a)) \<and>
    activeCount sampleManager ''kid'' \<le> (if (0 :: int) \<le> 0 then 10 else nat 0)"
proof -
  obtain a where a: "mget (gm_agents sampleManager) ''kid'' = Some a" "ga_ParentID a = ''root''" using sampleManager_code(1) by auto
  have 1: "agent_control_step (NewInMemoryAgentManager 0) (SeedAgent rootAgent (NewInMemoryAgentManager 0))"
    by (rule step_seed) (simp_all add: rootAgent_def NewInMemoryAgentManager_def)
  have 2: "agent_control_step (SeedAgent rootAgent (NewInMemoryAgentManager 0)) sampleManager"
    unfolding sampleManager_def by (rule step_spawn) (simp add: SeedAgent_def rootAgent_def NewInMemoryAgentManager_def)
  have 0: "reachable (\<lambda>m. m = NewInMemoryAgentManager 0) agent_control_step (NewInMemoryAgentManager 0)" by (rule reach_init) simp
  have "reachable (\<lambda>m. m = NewInMemoryAgentManager 0) agent_control_step sampleManager" by (rule reach_step[OF reach_step[OF 0 1] 2])
  from agents_contained[OF this a(1)] a show ?thesis by blast
qed

text \<open>The program creates the manager empty and registers no root agent: its tools then never spawn anything.\<close>

lemma empty_manager_stuck:
  assumes "gm_agents m = []"
  shows "makeSpawnAgentHandler now newID decode acOpt params m = (r, m') \<Longrightarrow> (\<exists>e. r = Inl e) \<and> m' = m"
    "makeMessageAgentHandler now msgID decodeM acOpt params m = (q, m'') \<Longrightarrow> (\<exists>e. q = Inl e) \<and> m'' = m"
    "\<exists>e. makeGetAgentStatusHandler decodeS acOpt params m = Inl e"
  using assms
  by (auto simp: makeSpawnAgentHandler_def SpawnAgent_def makeMessageAgentHandler_def SendMessage_def makeGetAgentStatusHandler_def GetStatus_def
      split: sum.splits option.splits if_splits prod.splits)

text \<open>No operation ends an agent: the active children of a parent only grow, so after the limit it can spawn no more.\<close>

lemma limit_permanent:
  assumes "activeCount m p \<ge> gm_max m"
  shows "\<exists>e. fst (SpawnAgent now newID p tenantID directive tools m) = Inl e"
  using assms by (auto simp: SpawnAgent_def split: option.splits)

text \<open>\<open>get_agent_status\<close> returns any agent, its directive and its messages, to any identity.\<close>

lemma status_any_tenant:
  "agentID \<noteq> [] \<Longrightarrow> decode params = Inr agentID \<Longrightarrow> mget (gm_agents m) agentID = Some a \<Longrightarrow> makeGetAgentStatusHandler decode (Some ac) params m = Inr a"
  by (simp add: makeGetAgentStatusHandler_def GetStatus_def)

subsection \<open>What the decision log keeps\<close>

definition auditMatches :: "string \<Rightarrow> string \<Rightarrow> auditStoreEntry \<Rightarrow> bool" where
  "auditMatches agentID tenantID e \<longleftrightarrow> (agentID = [] \<or> EqualFold (ax_AgentID e) agentID) \<and> (tenantID = [] \<or> EqualFold (ax_TenantID e) tenantID)"

lemma readBack_take: "readBack agentID tenantID n es = take n (filter (auditMatches agentID tenantID) es)"
proof (induction es arbitrary: n)
  case (Cons e es)
  then show ?case by (cases n) (auto simp: auditMatches_def)
qed simp

lemma LogDecision_entries: "dg_entries (LogDecision e s) = last_n (dg_maxSize s) (dg_entries s @ [decisionRow e])" "dg_maxSize (LogDecision e s) = dg_maxSize s"
  by (simp_all add: LogDecision_def Let_def last_n_def)

lemma last_n_snoc: "last_n n (last_n n xs @ [y]) = last_n n (xs @ [y])"
  by (cases "length xs \<le> n") (auto simp: last_n_def drop_append Suc_diff_le not_le)

text \<open>The decision log: after any decisions are logged to a new store, a read returns, newest first, the requested
  number of the entries that match, out of the newest \<open>maxSize\<close> decisions; none of them is changed.\<close>

theorem decision_log_exact:
  "auditRead agentID tenantID limit (fold LogDecision ds (NewInMemoryAuditStore n)) =
     take (nat (if limit \<le> 0 then 50 else limit))
       (filter (auditMatches agentID tenantID) (rev (last_n (if n \<le> 0 then 10000 else nat n) (map decisionRow ds))))"
proof -
  have "dg_maxSize (fold LogDecision ds s) = dg_maxSize s \<and>
    (last_n (dg_maxSize s) xs = dg_entries s \<longrightarrow> dg_entries (fold LogDecision ds s) = last_n (dg_maxSize s) (xs @ map decisionRow ds))" for s xs
  proof (induction ds arbitrary: s xs)
    case (Cons d ds)
    have "last_n (dg_maxSize s) xs = dg_entries s \<longrightarrow> last_n (dg_maxSize s) (xs @ [decisionRow d]) = dg_entries (LogDecision d s)"
      using last_n_snoc[of "dg_maxSize s" xs] by (auto simp: LogDecision_entries)
    then show ?case using Cons.IH[of "LogDecision d s" "xs @ [decisionRow d]"] by (simp add: LogDecision_entries)
  qed simp
  from this[of "NewInMemoryAuditStore n" "[]"]
  have "dg_entries (fold LogDecision ds (NewInMemoryAuditStore n)) = last_n (if n \<le> 0 then 10000 else nat n) (map decisionRow ds)"
    by (simp add: NewInMemoryAuditStore_def last_n_def)
  then show ?thesis by (simp add: auditRead_def readBack_take)
qed

text \<open>An entry is written under the identity of the caller, and reading takes no identity: without a filter every agent sees
  the decisions of every tenant.\<close>

lemma logged_under_caller:
  assumes "makeLogDecisionHandler now uuid decode acOpt params s = (Inr (i, t), s')"
  shows "\<exists>ac d. acOpt = Some ac \<and> s' = LogDecision d s \<and> dn_AgentID d = ma_AgentID ac \<and> dn_TenantID d = ma_TenantID ac \<and> dn_ID d = i"
  using assms by (auto simp: makeLogDecisionHandler_def split: sum.splits if_splits option.splits prod.splits)

lemma audit_log_all_tenants:
  "makeGetAuditLogHandler decode None (Some s) = Inr (take 50 (rev (dg_entries s)))"
proof -
  have "filter (auditMatches [] []) xs = xs" for xs by (simp add: auditMatches_def)
  then show ?thesis by (simp add: makeGetAuditLogHandler_def auditRead_def readBack_take)
qed

subsection \<open>Clearance and elevation\<close>

definition pgTier :: "clearanceTable \<Rightarrow> string \<Rightarrow> int option" where
  "pgTier t a = (if a = [] then None else map_option snd (mget t a))"

interpretation pgClear: clearance_store "pgGetClearance None" pgTier
  by unfold_locales (auto simp: pgGetClearance_def pgTier_def split: option.splits if_splits)

text \<open>\<open>check_authorization\<close> answers what the server itself decides.\<close>

lemma check_authorization_agrees:
  assumes "decode params = Inr name" "name \<noteq> []" "Tool_Get registry name = Some t"
  shows "(\<exists>msg. makeCheckAuthHandler getC registry store decode acOpt params = Inr (True, msg)) \<longleftrightarrow> AuthorizeToolCall getC acOpt t store = None"
  using assms by (auto simp: makeCheckAuthHandler_def split: option.splits)

lemma check_authorization_pg:
  assumes "makeCheckAuthHandler (pgGetClearance None) registry store decode acOpt params = Inr (True, msg)"
  shows "\<exists>ac name t tier. acOpt = Some ac \<and> decode params = Inr name \<and> Tool_Get registry name = Some t \<and> pgTier store (ma_AgentID ac) = Some tier \<and> tl_MinClearance t \<le> tier"
  using assms by (auto simp: makeCheckAuthHandler_def pgClear.authorize_iff split: sum.splits if_splits option.splits)

text \<open>The tools only create requests: without a caller of the approval every request stays pending.\<close>

inductive elevation_step :: "elevationStore \<Rightarrow> elevationStore \<Rightarrow> bool" where
  "elevation_step s (snd (makeRequestElevationHandler now uuid decode acOpt params s))"

definition allPending :: "elevationStore \<Rightarrow> bool" where
  "allPending s \<longleftrightarrow> (\<forall>i r. mget s i = Some r \<longrightarrow> ev_Status r = ''pending'' \<and> 0 \<le> ev_RequestedTier r \<and> ev_RequestedTier r \<le> 4)"

lemma RequestElevation_pending: "allPending s \<Longrightarrow> allPending (snd (RequestElevation now uuid a t tier reason s))"
  by (auto simp: RequestElevation_def allPending_def split: sum.splits)

interpretation elevation_sys: inv_system "\<lambda>s. s = []" elevation_step allPending
proof unfold_locales
  show "s = [] \<Longrightarrow> allPending s" for s by (simp add: allPending_def)
  have "snd (makeRequestElevationHandler now uuid decode acOpt params s) = s \<or>
    (\<exists>a t tier reason. snd (makeRequestElevationHandler now uuid decode acOpt params s) = snd (RequestElevation now uuid a t tier reason s))" for now uuid decode acOpt params s
    by (auto simp: makeRequestElevationHandler_def split: sum.splits option.splits prod.splits) (metis snd_conv)+
  then show "allPending s \<Longrightarrow> elevation_step s t \<Longrightarrow> allPending t" for s t
    by (auto elim!: elevation_step.cases) (metis RequestElevation_pending)
qed

lemma elevation_never_granted:
  assumes "reachable (\<lambda>s. s = []) elevation_step s" "makeCheckElevationStatusHandler decode params s = Inr (i, st, tier, ex)"
  shows "st = ''pending'' \<and> tier = None \<and> ex = None"
  using elevation_sys.inv_reachable[OF assms(1)] assms(2)
  by (auto simp: makeCheckElevationStatusHandler_def GetElevationStatus_def allPending_def split: sum.splits if_splits option.splits)

text \<open>An approved request is reported as approved whatever the time, and a denied one can be approved afterwards.\<close>

lemma approved_after_expiry:
  assumes "ApproveElevation now i d s = (None, s')"
  shows "\<exists>r. mget s' i = Some r \<and> makeCheckElevationStatusHandler (\<lambda>_. Inr i) p s' = Inr (ev_ID r, ''approved'', Some (ev_RequestedTier r), Some (now + d))"
  using assms by (auto simp: ApproveElevation_def makeCheckElevationStatusHandler_def GetElevationStatus_def split: if_splits option.splits)

lemma denied_then_approved:
  assumes "DenyElevation i s = (None, s1)" "0 < d"
  shows "\<exists>s2. ApproveElevation now i d s1 = (None, s2)"
  using assms by (auto simp: ApproveElevation_def DenyElevation_def split: if_splits option.splits)

text \<open>The identifiers of decisions, documents and requests.\<close>

lemma newUUID_v4:
  assumes "length b = 16"
  shows "\<exists>u. newUUID (Inr b) = Inr u \<and> length u = 36 \<and> u ! 14 = CHR ''4'' \<and> u ! 19 \<in> set ''89ab''"
proof -
  obtain a0 a1 a2 a3 a4 a5 a6 a7 a8 a9 a10 a11 a12 a13 a14 a15 where b: "b = [a0, a1, a2, a3, a4, a5, a6, a7, a8, a9, a10, a11, a12, a13, a14, a15]"
    using assms by (auto simp: length_Suc_conv numeral_eq_Suc)
  have d: "hexDigit 4 = CHR ''4''" "hexDigit 8 = CHR ''8''" "hexDigit 9 = CHR ''9''" "hexDigit 10 = CHR ''a''" "hexDigit 11 = CHR ''b''" by code_simp+
  show ?thesis using version_nibble[of a6] variant_nibble[of a8]
    by (auto simp: b newUUID_def Let_def hexBytes_def hexByte_def d)
qed

end
