(* ===== verification/Meta_Tools.thy ===== *)
theory Meta_Tools
  imports Agent_Control Intent_Routing
begin

text \<open>
  Meta tools: discovery, schema, dispatch and capabilities (mcp/tools/dynamic.go), facet tools (mcp/tools/facets.go), health,
  uptime, environment names and web search (mcp/tools/health.go, serveruptime.go, listenv.go, websearch.go), and the code
  generation tool (mcp/tools/codegen.go).

  \<^item> The handlers are functions of the registry at the time of the call. Transport, decoders, float parsing, the files and the
    matches of the regular expressions of codegen.go are arguments.
  \<^item> Shown: \<open>discover_tools\<close> lists exactly what \<open>invoke_tool\<close> lets a caller of the internal tier run; \<open>invoke_tool\<close> runs nothing
    beyond the caller's clearance or without an identity; the word search meets its reference; an edit replaces exactly the first occurrence.
\<close>

subsection \<open>Discovery and dispatch\<close>




definition makeGetToolSchemaHandler :: "toolRegistry \<Rightarrow> (string \<Rightarrow> string + string) \<Rightarrow> string \<Rightarrow> string + string \<times> string \<times> string" where
  "makeGetToolSchemaHandler registry decode params =
     (case decode params of
        Inl e \<Rightarrow> Inl (''invalid parameters: '' @ e)
      | Inr name \<Rightarrow>
          if name = [] then Inl ''tool_name is required''
          else (case Tool_Get registry name of
                  None \<Rightarrow> Inl (''tool '' @ quoted name @ '' not found'')
                | Some t \<Rightarrow> Inr (tl_Name t, tl_Description t, tl_InputSchema t)))"





definition knownCategories :: "string list" where
  "knownCategories = [''chat'', ''health'', ''governance'', ''sandbox'', ''http'', ''memory'', ''knowledge'', ''observe'', ''facets'', ''dynamic'']"

definition toolCategoryMap :: "(string, string) gomap" where
  "toolCategoryMap =
     [(''chat_completion'', ''chat''), (''list_models'', ''chat''), (''get_active_model'', ''chat''), (''get_health'', ''health''),
      (''check_authorization'', ''governance''), (''log_decision'', ''governance''), (''execute_code'', ''sandbox''), (''fetch_url'', ''http''),
      (''http_request'', ''http''), (''ping_url'', ''http''), (''memory_store'', ''memory''), (''memory_recall'', ''memory''),
      (''index_document'', ''knowledge''), (''search_knowledge'', ''knowledge''), (''query_metrics'', ''observe''), (''get_alerts'', ''observe''),
      (''get_container_status'', ''observe''), (''get_audit_log'', ''observe''), (''classify_prompt'', ''facets''), (''list_facets'', ''facets''),
      (''register_facet'', ''facets''), (''unregister_facet'', ''facets''), (''discover_tools'', ''dynamic''), (''get_tool_schema'', ''dynamic''),
      (''invoke_tool'', ''dynamic''), (''list_capabilities'', ''dynamic'')]"

definition mappedCategory :: "string \<Rightarrow> string" where "mappedCategory name = zget ''other'' toolCategoryMap name"

definition countIn :: "toolRegistry \<Rightarrow> string \<Rightarrow> nat" where
  "countIn registry cat = length (filter (\<lambda>t. mappedCategory (tl_Name t) = cat) (Tool_List registry))"

definition makeListCapabilitiesHandler :: "toolRegistry \<Rightarrow> (string \<times> nat \<times> bool) list" where
  "makeListCapabilitiesHandler registry =
     map (\<lambda>c. (c, countIn registry c, countIn registry c > 0)) knownCategories @
     (if countIn registry ''other'' > 0 then [(''other'', countIn registry ''other'', True)] else [])"

definition categoryOf :: "string \<Rightarrow> string" where
  "categoryOf name =
     (case mget toolCategoryMap name of
        Some c \<Rightarrow> c
      | None \<Rightarrow> (let p = takeWhile (\<lambda>c. c \<noteq> CHR ''_'') name in if p \<noteq> [] \<and> p \<noteq> name then p else ''other''))"

subsection \<open>Facet tools\<close>

definition isWordChar :: "char \<Rightarrow> bool" where
  "isWordChar c = (CHR ''a'' \<le> c \<and> c \<le> CHR ''z'' \<or> CHR ''A'' \<le> c \<and> c \<le> CHR ''Z'' \<or> CHR ''0'' \<le> c \<and> c \<le> CHR ''9'' \<or> c = CHR ''_'')"

fun strIndex :: "string \<Rightarrow> string \<Rightarrow> nat option" where
  "strIndex [] w = (if w = [] then Some 0 else None)"
| "strIndex (c # s) w = (if HasPrefix (c # s) w then Some 0 else map_option Suc (strIndex s w))"

lemma strIndex_Some: "strIndex s w = Some i \<longleftrightarrow> i \<le> length s \<and> HasPrefix (drop i s) w \<and> (\<forall>j<i. \<not> HasPrefix (drop j s) w)"
proof (induction s arbitrary: i)
  case Nil
  then show ?case by (cases w) auto
next
  case (Cons c s)
  show ?case
  proof (cases i)
    case 0
    then show ?thesis by auto
  next
    case (Suc k)
    have "(\<forall>j<Suc k. \<not> HasPrefix (drop j (c # s)) w) \<longleftrightarrow> \<not> HasPrefix (c # s) w \<and> (\<forall>j<k. \<not> HasPrefix (drop j s) w)"
      by (simp add: All_less_Suc2)
    then show ?thesis using Cons.IH[of k] Suc by auto
  qed
qed

lemma strIndex_None: "strIndex s w = None \<longleftrightarrow> (\<forall>i\<le>length s. \<not> HasPrefix (drop i s) w)"
proof -
  have "(\<exists>i. strIndex s w = Some i) \<longleftrightarrow> (\<exists>i\<le>length s. HasPrefix (drop i s) w)"
  proof
    assume "\<exists>i\<le>length s. HasPrefix (drop i s) w"
    then obtain i where i: "i \<le> length s \<and> HasPrefix (drop i s) w" by blast
    define k where "k = (LEAST i. i \<le> length s \<and> HasPrefix (drop i s) w)"
    have "k \<le> length s \<and> HasPrefix (drop k s) w" unfolding k_def using i by (rule LeastI)
    moreover have "\<forall>j<k. \<not> (j \<le> length s \<and> HasPrefix (drop j s) w)" unfolding k_def using not_less_Least by blast
    ultimately show "\<exists>i. strIndex s w = Some i" unfolding strIndex_Some by (intro exI[of _ k]) auto
  qed (auto simp: strIndex_Some)
  then show ?thesis by (cases "strIndex s w") auto
qed

text \<open>The loop of \<open>containsWord\<close>; the search continues one byte after a rejected occurrence.\<close>

function containsWordFrom :: "string \<Rightarrow> string \<Rightarrow> nat \<Rightarrow> bool" where
  "containsWordFrom hay w idx =
     (if idx > length hay then False
      else case strIndex (drop idx hay) w of
        None \<Rightarrow> False
      | Some i \<Rightarrow>
          (let start = idx + i; stop = start + length w;
               leftOK = (start = 0 \<or> \<not> isWordChar (hay ! (start - 1))); rightOK = (stop = length hay \<or> \<not> isWordChar (hay ! stop)) in
           leftOK \<and> rightOK \<or> containsWordFrom hay w (start + 1)))"
  by pat_completeness auto
termination by (relation "measure (\<lambda>(hay, w, idx). Suc (length hay) - idx)") auto

declare containsWordFrom.simps [simp del]

definition containsWord :: "string \<Rightarrow> string \<Rightarrow> bool" where "containsWord hay w = containsWordFrom hay w 0"

definition codeKeywords :: "string list" where
  "codeKeywords = [''func'', ''function'', ''def'', ''class'', ''import'', ''code'', ''implement'', ''refactor'', ''debug'', ''compile'',
     ''program'', ''script'', ''api'', ''endpoint'', ''http'', ''package'', ''module'', ''library'']"

definition creativeKeywords :: "string list" where
  "creativeKeywords = [''write a story'', ''write a poem'', ''creative'', ''imagine'', ''fiction'', ''compose'', ''brainstorm'']"

definition analysisKeywords :: "string list" where
  "analysisKeywords = [''analyze'', ''analyse'', ''compare'', ''evaluate'', ''assess'', ''trade-off'', ''tradeoff'', ''pros and cons'', ''advantages'']"

definition inferTask :: "classifierLabel option \<Rightarrow> string \<Rightarrow> string" where
  "inferTask label prompt =
     (let lower = ToLower prompt in
      if label = Some LabelReasoning then ''reasoning''
      else if list_ex (containsWord lower) codeKeywords then ''code''
      else if list_ex (Contains lower) creativeKeywords then ''creative''
      else if list_ex (Contains lower) analysisKeywords then ''analysis''
      else ''factual'')"

definition countByte :: "string \<Rightarrow> char \<Rightarrow> nat" where "countByte s c = length (filter (\<lambda>x. x = c) s)"

definition inferComplexity :: "string \<Rightarrow> string" where
  "inferComplexity prompt =
     (let n = length prompt; q = countByte prompt CHR ''?''; nl = countByte prompt (CHR 0x0A) in
      if q \<ge> 3 \<or> nl \<ge> 5 \<or> n > 500 then ''high''
      else if n > 100 \<or> q \<ge> 2 \<or> nl \<ge> 2 then ''medium'' else ''low'')"

definition inferThinking :: "classifierLabel option \<Rightarrow> string" where
  "inferThinking label = (if label = Some LabelReasoning then ''true'' else ''false'')"

definition classifyPromptHandler ::
  "(string \<Rightarrow> string \<Rightarrow> classifierOutcome) \<Rightarrow> string \<Rightarrow> (string \<Rightarrow> string + string) \<Rightarrow> string \<Rightarrow> string + (string, string) gomap" where
  "classifyPromptHandler call classifierURL decode params =
     (case decode params of
        Inl e \<Rightarrow> Inl (''invalid arguments: '' @ e)
      | Inr prompt \<Rightarrow>
          if TrimSpace prompt = [] then Inl ''prompt must not be empty''
          else
            (let d = Classify call \<lparr>rc_Enabled = (classifierURL \<noteq> []), rc_ClassifierURL = classifierURL\<rparr> prompt in
             Inr [(''task'', inferTask (rd_Label d) prompt), (''complexity'', inferComplexity prompt), (''thinking'', inferThinking (rd_Label d))]))"

definition registerFacetHandler ::
  "(string \<Rightarrow> string + string \<times> string \<times> string list) \<Rightarrow> string \<Rightarrow> facetRegistry \<Rightarrow> ((string + registryErr) + string) \<times> facetRegistry" where
  "registerFacetHandler decode params reg =
     (case decode params of
        Inl e \<Rightarrow> (Inl (Inl (''invalid arguments: '' @ e)), reg)
      | Inr (name, desc, vals) \<Rightarrow>
          if TrimSpace name = [] then (Inl (Inl ''name must not be empty''), reg)
          else if TrimSpace desc = [] then (Inl (Inl ''description must not be empty''), reg)
          else if vals = [] then (Inl (Inl ''values must not be empty''), reg)
          else (case Facet_Register (facet.make name desc vals True) reg of
                  (Some e, reg') \<Rightarrow> (Inl (Inr e), reg')
                | (None, reg') \<Rightarrow> (Inr name, reg')))"

definition unregisterFacetHandler :: "(string \<Rightarrow> string + string) \<Rightarrow> string \<Rightarrow> facetRegistry \<Rightarrow> ((string + registryErr) + string) \<times> facetRegistry" where
  "unregisterFacetHandler decode params reg =
     (case decode params of
        Inl e \<Rightarrow> (Inl (Inl (''invalid arguments: '' @ e)), reg)
      | Inr name \<Rightarrow>
          if TrimSpace name = [] then (Inl (Inl ''name must not be empty''), reg)
          else (case Facet_Unregister name reg of
                  (Some e, reg') \<Rightarrow> (Inl (Inr e), reg')
                | (None, reg') \<Rightarrow> (Inr name, reg')))"

definition listFacetsHandler :: "facetRegistry \<Rightarrow> facet list" where "listFacetsHandler reg = Facet_List reg"

subsection \<open>Health, uptime, environment and search\<close>

record componentStatus =
  hs_Status :: string
  hs_LatencyMs :: int
  hs_Error :: string

text \<open>A probe: the request cannot be built, it fails, or it is answered with a status; the latency in milliseconds.\<close>

datatype probeResult = NoRequest string | NoResponse string | Answered int

definition probeHTTP :: "(string \<Rightarrow> probeResult \<times> int) \<Rightarrow> string \<Rightarrow> componentStatus" where
  "probeHTTP get url =
     (case get url of
        (NoRequest e, _) \<Rightarrow> \<lparr>hs_Status = ''unhealthy'', hs_LatencyMs = 0, hs_Error = ''request creation failed: '' @ e\<rparr>
      | (NoResponse e, ms) \<Rightarrow> \<lparr>hs_Status = ''unhealthy'', hs_LatencyMs = ms, hs_Error = ''request failed: '' @ e\<rparr>
      | (Answered st, ms) \<Rightarrow>
          if st \<ge> 500 then \<lparr>hs_Status = ''unhealthy'', hs_LatencyMs = ms, hs_Error = ''upstream returned HTTP '' @ Itoa st\<rparr>
          else \<lparr>hs_Status = ''healthy'', hs_LatencyMs = ms, hs_Error = []\<rparr>)"

definition classifierHealthURL :: "string \<Rightarrow> string" where
  "classifierHealthURL u =
     (let suffix = ''/v1/chat/completions'' in
      if length u > length suffix \<and> drop (length u - length suffix) u = suffix then take (length u - length suffix) u @ ''/v1/models'' else u)"

definition makeHealthHandler :: "(string \<Rightarrow> probeResult \<times> int) \<Rightarrow> string \<Rightarrow> string \<Rightarrow> componentStatus \<times> componentStatus \<times> componentStatus" where
  "makeHealthHandler get modelBaseURL classifierURL =
     (\<lparr>hs_Status = ''healthy'', hs_LatencyMs = 0, hs_Error = []\<rparr>, probeHTTP get (modelBaseURL @ ''/models''), probeHTTP get (classifierHealthURL classifierURL))"

definition makeServerUptimeHandler :: "(string \<Rightarrow> string + string) \<Rightarrow> (string \<Rightarrow> string + rat) \<Rightarrow> string \<Rightarrow> string + rat" where
  "makeServerUptimeHandler readPath parseFloat path =
     (case readPath path of
        Inl e \<Rightarrow> Inl (''server_uptime: failed to read '' @ path @ '': '' @ e)
      | Inr contents \<Rightarrow>
          (case Fields contents of
             [] \<Rightarrow> Inl (''server_uptime: unexpected format in '' @ path)
           | f # _ \<Rightarrow> (case parseFloat f of
                        Inl e \<Rightarrow> Inl (''server_uptime: failed to parse uptime value '' @ quoted f @ '': '' @ e)
                      | Inr u \<Rightarrow> Inr u)))"

definition makeListenvHandler :: "string list \<Rightarrow> string + string list" where
  "makeListenvHandler environ =
     (let cut = (\<lambda>p. takeWhile (\<lambda>c. c \<noteq> CHR ''='') p);
          ns = sort (map cut (filter (\<lambda>p. CHR ''='' \<in> set p \<and> cut p \<noteq> []) environ)) in
      if ns = [] then Inl ''list_env: no environment variables found'' else Inr ns)"

record webSearchResult =
  ws_Title :: string
  ws_URL :: string
  ws_Content :: string
  ws_Engine :: string

definition webMaxResults :: "int option \<Rightarrow> int" where
  "webMaxResults n = (case n of Some k \<Rightarrow> if k > 0 then (if k > 20 then 20 else k) else 5 | None \<Rightarrow> 5)"

text \<open>The query that is set in the URL: sorted by key when it is encoded.\<close>

definition searchQuery :: "string \<Rightarrow> string \<Rightarrow> (string, string) gomap" where
  "searchQuery q cats = [(''q'', q), (''format'', ''json'')] @ (if cats \<noteq> [] then [(''categories'', cats)] else [])"

definition makeWebSearchHandler ::
  "(string \<Rightarrow> string) \<Rightarrow> (string \<Rightarrow> (string, string) gomap \<Rightarrow> string + string) \<Rightarrow> (string \<Rightarrow> string + int \<times> string) \<Rightarrow> (string \<Rightarrow> string + webSearchResult list)
   \<Rightarrow> (string \<Rightarrow> string + string \<times> int option \<times> string) \<Rightarrow> string \<Rightarrow> string + webSearchResult list \<times> string \<times> nat" where
  "makeWebSearchHandler getenv buildURL get decodeResp decode params =
     (let base = (if getenv ''SEARXNG_URL'' = [] then ''http://localhost:8888'' else getenv ''SEARXNG_URL'') in
      case decode params of
        Inl e \<Rightarrow> Inl (''invalid parameters: '' @ e)
      | Inr (q, n, cats) \<Rightarrow>
          if q = [] then Inl ''query is required''
          else (case buildURL (base @ ''/search'') (searchQuery q cats) of
                  Inl e \<Rightarrow> Inl (''invalid SEARXNG_URL: '' @ e)
                | Inr u \<Rightarrow>
                    (case get u of
                       Inl e \<Rightarrow> Inl (''SearXNG is unreachable: '' @ e)
                     | Inr (st, body) \<Rightarrow>
                         if st \<noteq> 200 then Inl (''SearXNG returned status '' @ Itoa st @ '': '' @ take 512 body)
                         else (case decodeResp body of
                                 Inl e \<Rightarrow> Inl (''decode SearXNG response: '' @ e)
                               | Inr rs \<Rightarrow> (let out = take (nat (webMaxResults n)) rs in Inr (out, q, length out))))))"

subsection \<open>Code generation\<close>

record codegenInput =
  cg_Repo :: string
  cg_IssueTitle :: string
  cg_IssueBody :: string
  cg_FileScope :: "string list"
  cg_Context :: string

record codegenFileResult =
  cr_Path :: string
  cr_Content :: string
  cr_Action :: string

definition replaceFirst :: "string \<Rightarrow> string \<Rightarrow> string \<Rightarrow> string" where
  "replaceFirst s old new = (case strIndex s old of None \<Rightarrow> s | Some i \<Rightarrow> take i s @ new @ drop (i + length old) s)"

fun applyEdits :: "string \<Rightarrow> nat \<Rightarrow> (string \<times> string) list \<Rightarrow> string \<Rightarrow> string + string" where
  "applyEdits path i [] modified = Inr modified"
| "applyEdits path i ((search, replace) # es) modified =
     (if strIndex modified search = None
      then Inl (''file '' @ path @ '' edit '' @ Itoa (int i + 1) @ '': SEARCH text not found in file (LLM hallucinated)'')
      else applyEdits path (Suc i) es (replaceFirst modified search replace))"

text \<open>The edits of the matches, grouped by the trimmed path in the order of first appearance; Go iterates the groups in any order.\<close>

definition groupEdits :: "(string \<times> string \<times> string) list \<Rightarrow> (string, (string \<times> string) list) gomap" where
  "groupEdits ms = fold (\<lambda>(p, sr) g. mput (TrimSpace p) (zget [] g (TrimSpace p) @ [sr]) g) ms []"

fun editFiles :: "(string \<Rightarrow> string + string) \<Rightarrow> string \<Rightarrow> (string \<times> (string \<times> string) list) list \<Rightarrow> string + codegenFileResult list" where
  "editFiles readPath repo [] = Inr []"
| "editFiles readPath repo ((path, edits) # fs) =
     (case readPath (joinPath [repo, path]) of
        Inl e \<Rightarrow> Inl (''file '' @ path @ '' not found in repo: '' @ e)
      | Inr original \<Rightarrow>
          (case applyEdits path 0 edits original of
             Inl e \<Rightarrow> Inl e
           | Inr modified \<Rightarrow>
               (case editFiles readPath repo fs of
                  Inl e \<Rightarrow> Inl e
                | Inr rs \<Rightarrow> Inr (\<lparr>cr_Path = path, cr_Content = modified, cr_Action = ''modify''\<rparr> # rs))))"

definition extractSearchReplaceBlocks :: "(string \<Rightarrow> string + string) \<Rightarrow> string \<Rightarrow> (string \<times> string \<times> string) list \<Rightarrow> string + codegenFileResult list" where
  "extractSearchReplaceBlocks readPath repo ms = (if ms = [] then Inr [] else editFiles readPath repo (groupEdits ms))"

definition extractCodeBlocks :: "(string \<times> string) list \<Rightarrow> codegenFileResult list" where
  "extractCodeBlocks ms =
     map (\<lambda>(p, code). \<lparr>cr_Path = TrimSpace p, cr_Content = code, cr_Action = ''modify''\<rparr>)
       (filter (\<lambda>(p, code). Contains (TrimSpace p) ''/'' \<or> Contains (TrimSpace p) ''.'') ms)"

definition extractReasoning :: "(string \<Rightarrow> string) \<Rightarrow> string \<Rightarrow> string" where
  "extractReasoning dropBlocks content = take 500 (TrimSpace (dropBlocks content))"

definition repoNameOf :: "string \<Rightarrow> string" where "repoNameOf repo = last (splitByte CHR ''/'' repo)"

text \<open>What a call of the model yields; the patterns of the file are given by their matches in the reply.\<close>

record codegenEnv =
  ce_read :: "string \<Rightarrow> string + string"
  ce_llm :: "string \<Rightarrow> string + int \<times> string"
  ce_decode :: "string \<Rightarrow> string + string list \<times> int"
  ce_searchReplace :: "string \<Rightarrow> (string \<times> string \<times> string) list"
  ce_codeBlocks :: "string \<Rightarrow> (string \<times> string) list"
  ce_dropBlocks :: "string \<Rightarrow> string"
  ce_repoBase :: string

definition fenceLine :: string where "fenceLine = [CHR 0x60, CHR 0x60, CHR 0x60, CHR 0x0A]"

definition scopeText :: "codegenEnv \<Rightarrow> string \<Rightarrow> string list \<Rightarrow> string" where
  "scopeText env repoPath scope =
     concat (map (\<lambda>fp. case ce_read env (joinPath [repoPath, fp]) of
         Inl e \<Rightarrow> ''### '' @ fp @ newline @ ''(file not found: '' @ e @ '')'' @ newline @ newline
       | Inr hay \<Rightarrow> ''### '' @ fp @ '' ('' @ Itoa (int (countByte hay (CHR 0x0A)) + 1) @ '' lines)'' @ newline @ fenceLine @ hay @ newline @ fenceLine @ newline) scope)"

definition buildCodegenPrompt :: "codegenInput \<Rightarrow> string \<Rightarrow> string" where
  "buildCodegenPrompt i fileContents =
     ''## Issue'' @ newline @ newline @ ''**Title:** '' @ cg_IssueTitle i @ newline @ newline @ cg_IssueBody i @ newline @ newline @
     (if cg_Context i \<noteq> [] then ''## Additional Context'' @ newline @ newline @ cg_Context i @ newline @ newline else []) @
     ''## Current File Contents'' @ newline @ newline @ fileContents @ newline @ ''## Instructions'' @ newline @ newline @
     ''Implement the changes described in the issue using SEARCH/REPLACE blocks ONLY.'' @ newline @
     ''Each block must contain exact existing code in SEARCH and the new code in REPLACE.'' @ newline @
     ''Do not output whole files. Do not use placeholder comments.'' @ newline"

definition makeCodegenHandler :: "codegenEnv \<Rightarrow> (string \<Rightarrow> string + codegenInput) \<Rightarrow> string \<Rightarrow> string + codegenFileResult list \<times> string \<times> int" where
  "makeCodegenHandler env decode params =
     (case decode params of
        Inl e \<Rightarrow> Inl (''invalid arguments: '' @ e)
      | Inr i \<Rightarrow>
          if cg_Repo i = [] \<or> cg_IssueTitle i = [] \<or> cg_FileScope i = [] then Inl ''repo, issue_title, and file_scope are required''
          else
            (let repoPath = joinPath [ce_repoBase env, repoNameOf (cg_Repo i)];
                 prompt = buildCodegenPrompt i (scopeText env repoPath (cg_FileScope i)) in
             case ce_llm env prompt of
               Inl e \<Rightarrow> Inl (''LLM request failed: '' @ e)
             | Inr (st, body) \<Rightarrow>
                 if st \<noteq> 200 then Inl (''LLM returned HTTP '' @ Itoa st @ '': '' @ take 1048576 body)
                 else (case ce_decode env (take 1048576 body) of
                    Inl e \<Rightarrow> Inl (''decode LLM response: '' @ e)
                  | Inr (choices, tokens) \<Rightarrow>
                      if choices = [] then Inl ''LLM returned no choices''
                      else
                        (let content = hd choices;
                             fs = (case extractSearchReplaceBlocks (ce_read env) repoPath (ce_searchReplace env content) of Inl e \<Rightarrow> [] | Inr fs \<Rightarrow> fs) in
                         Inr (if fs = [] then extractCodeBlocks (ce_codeBlocks env content) else fs, extractReasoning (ce_dropBlocks env) content, tokens)))))"

subsection \<open>Properties of discovery and dispatch\<close>










text \<open>Every tool is counted in one category; tools without an entry in the table count as other.\<close>

lemma mappedCategory_known: "mappedCategory name \<in> set knownCategories \<union> {''other''}"
proof (cases "mget toolCategoryMap name")
  case None
  then show ?thesis by (simp add: mappedCategory_def zget_def)
next
  case (Some c)
  then have "(name, c) \<in> set toolCategoryMap" by (rule mget_in_set)
  then have "c \<in> set knownCategories" unfolding toolCategoryMap_def knownCategories_def by auto
  then show ?thesis using Some by (simp add: mappedCategory_def zget_def)
qed

lemma uncategorised_tools:
  "mappedCategory ''execute_shell'' = ''other'' \<and> mappedCategory ''get_thread'' = ''other'' \<and> mappedCategory ''web_search'' = ''other'' \<and> mappedCategory ''read_container_logs'' = ''other''"
  by code_simp

subsection \<open>Properties of the facet tools\<close>

definition wordAt :: "string \<Rightarrow> string \<Rightarrow> nat \<Rightarrow> bool" where
  "wordAt hay w i \<longleftrightarrow> i \<le> length hay \<and> HasPrefix (drop i hay) w \<and> (i = 0 \<or> \<not> isWordChar (hay ! (i - 1))) \<and>
     (i + length w = length hay \<or> \<not> isWordChar (hay ! (i + length w)))"

lemma containsWordFrom_iff: "containsWordFrom hay w idx \<longleftrightarrow> (\<exists>i\<ge>idx. wordAt hay w i)"
proof (induction hay w idx rule: containsWordFrom.induct)
  case (1 hay w idx)
  show ?case
  proof (cases "idx > length hay")
    case True
    then show ?thesis by (auto simp: containsWordFrom.simps[of hay w idx] wordAt_def)
  next
    case le: False
    show ?thesis
    proof (cases "strIndex (drop idx hay) w")
      case None
      have "\<not> wordAt hay w i" if "i \<ge> idx" for i
      proof
        assume a: "wordAt hay w i"
        then have "HasPrefix (drop (i - idx) (drop idx hay)) w" "i - idx \<le> length (drop idx hay)" using that by (auto simp: wordAt_def)
        then show False using None by (auto simp: strIndex_None)
      qed
      then show ?thesis using None le by (auto simp: containsWordFrom.simps[of hay w idx])
    next
      case (Some i)
      have p: "idx + i \<le> length hay" "HasPrefix (drop (idx + i) hay) w" and first: "\<And>j. j < i \<Longrightarrow> \<not> HasPrefix (drop (idx + j) hay) w"
        using Some le by (auto simp: strIndex_Some add.commute)
      have ih: "containsWordFrom hay w (idx + i + 1) \<longleftrightarrow> (\<exists>k\<ge>idx + i + 1. wordAt hay w k)" using 1 le Some by simp
      have "wordAt hay w k \<Longrightarrow> idx \<le> k \<Longrightarrow> k = idx + i \<or> idx + i + 1 \<le> k" for k
        using first[of "k - idx"] by (cases "k - idx < i") (auto simp: wordAt_def)
      then have "(\<exists>k\<ge>idx. wordAt hay w k) \<longleftrightarrow> wordAt hay w (idx + i) \<or> (\<exists>k\<ge>idx + i + 1. wordAt hay w k)"
        by (metis add_leD1 le_add1)
      then show ?thesis using ih Some le p
        by (subst containsWordFrom.simps) (auto simp: Let_def wordAt_def)
    qed
  qed
qed

text \<open>The search finds a word exactly when it stands in the text between word boundaries.\<close>

lemma containsWord_reference:
  "containsWord hay w \<longleftrightarrow> (\<exists>a b. hay = a @ w @ b \<and> (a = [] \<or> \<not> isWordChar (last a)) \<and> (b = [] \<or> \<not> isWordChar (hd b)))"
proof
  assume "containsWord hay w"
  then obtain i where i: "wordAt hay w i" by (auto simp: containsWord_def containsWordFrom_iff)
  then obtain b where b: "drop i hay = w @ b" and le: "i \<le> length hay" by (auto simp: wordAt_def HasPrefix_iff)
  have split: "hay = take i hay @ w @ b" using b by (metis append_take_drop_id)
  have l: "length (take i hay) = i" using le by simp
  have "take i hay = [] \<or> \<not> isWordChar (last (take i hay))"
    using i le by (cases i) (auto simp: wordAt_def last_conv_nth)
  moreover have "b = [] \<or> \<not> isWordChar (hd b)"
  proof (cases b)
    case (Cons c bs)
    have "hay ! (i + length w) = drop i hay ! length w" using le by simp
    also have "\<dots> = c" unfolding b Cons by simp
    finally have "hay ! (i + length w) = c" .
    moreover have "length hay = i + length w + length b" using arg_cong[OF split, of length] l by simp
    ultimately show ?thesis using i Cons by (auto simp: wordAt_def)
  qed simp
  ultimately show "\<exists>a b. hay = a @ w @ b \<and> (a = [] \<or> \<not> isWordChar (last a)) \<and> (b = [] \<or> \<not> isWordChar (hd b))" using split by blast
next
  assume "\<exists>a b. hay = a @ w @ b \<and> (a = [] \<or> \<not> isWordChar (last a)) \<and> (b = [] \<or> \<not> isWordChar (hd b))"
  then obtain a b where t: "hay = a @ w @ b" "a = [] \<or> \<not> isWordChar (last a)" "b = [] \<or> \<not> isWordChar (hd b)" by blast
  have "wordAt hay w (length a)" using t by (cases a rule: rev_cases; cases b) (auto simp: wordAt_def nth_append HasPrefix_iff)
  then show "containsWord hay w" by (auto simp: containsWord_def containsWordFrom_iff)
qed

text \<open>The classification does not consult the facet registry: whatever is registered or removed, the answer has the three
  built-in dimensions, each with one of its suggested values.\<close>

lemma classify_prompt_values:
  assumes "classifyPromptHandler call url decode params = Inr fs"
  shows "mkeys fs = [''task'', ''complexity'', ''thinking'']"
    "\<forall>f\<in>set defaultFacets. \<exists>v\<in>set (MCP_Server.fc_Values f). mget fs (MCP_Server.fc_Name f) = Some v"
  using assms
  by (auto simp: classifyPromptHandler_def mkeys_def defaultFacets_def inferTask_def inferComplexity_def inferThinking_def Let_def mget_Cons
      split: sum.splits if_splits)

lemma builtin_facet_removable: "fst (unregisterFacetHandler Inr ''task'' NewFacetRegistry) = Inr ''task''"
  by code_simp

subsection \<open>Properties of code generation\<close>

lemma replaceFirst_spec:
  assumes "strIndex s old \<noteq> None"
  shows "\<exists>a b. s = a @ old @ b \<and> replaceFirst s old new = a @ new @ b"
proof -
  obtain i where i: "strIndex s old = Some i" using assms by auto
  then obtain b where b: "drop i s = old @ b" by (auto simp: strIndex_Some HasPrefix_iff)
  have "s = take i s @ old @ b" using b by (metis append_take_drop_id)
  moreover have "drop (i + length old) s = b" by (metis b add.commute append_eq_conv_conj drop_drop)
  moreover have "replaceFirst s old new = take i s @ new @ drop (i + length old) s" using i by (simp add: replaceFirst_def)
  ultimately show ?thesis by metis
qed

text \<open>An edit whose text is not in the file fails the parse; the tool then falls back to whole blocks of the reply, and reports
  success.\<close>

lemma mismatch_falls_back:
  assumes "decode params = Inr i" "cg_Repo i \<noteq> []" "cg_IssueTitle i \<noteq> []" "cg_FileScope i \<noteq> []"
    and "\<And>p. ce_llm env p = Inr (200, body)" "ce_decode env (take 1048576 body) = Inr ([content], tokens)"
    and "extractSearchReplaceBlocks (ce_read env) (joinPath [ce_repoBase env, repoNameOf (cg_Repo i)]) (ce_searchReplace env content) = Inl e"
  shows "makeCodegenHandler env decode params = Inr (extractCodeBlocks (ce_codeBlocks env content), extractReasoning (ce_dropBlocks env) content, tokens)"
  using assms by (simp add: makeCodegenHandler_def Let_def)

text \<open>The paths of the scope and of the reply are joined without a check: they leave the repository.\<close>

lemma codegen_path_escapes: "joinPath [''/workspace/repo'', ''../../etc/passwd''] = ''/etc/passwd'' \<and> joinPath [''/workspace'', repoNameOf ''x/..''] = ''/''"
  by code_simp

lemma webMaxResults_range: "1 \<le> webMaxResults n \<and> webMaxResults n \<le> 20"
  by (auto simp: webMaxResults_def split: option.splits)

lemma web_search_bounded: "makeWebSearchHandler getenv buildURL get decodeResp decode params = Inr (rs, q, n) \<Longrightarrow> length rs \<le> 20 \<and> n = length rs"
  using webMaxResults_range by (auto simp: makeWebSearchHandler_def Let_def min_le_iff_disj nat_le_iff split: sum.splits if_splits)

text \<open>Only names leave \<open>list_env\<close>, never a value.\<close>

lemma list_env_names: "makeListenvHandler environ = Inr ns \<Longrightarrow> n \<in> set ns \<Longrightarrow> CHR ''='' \<notin> set n \<and> n \<noteq> [] \<and> (\<exists>v. n @ CHR ''='' # v \<in> set environ)"
proof -
  assume h: "makeListenvHandler environ = Inr ns" "n \<in> set ns"
  then obtain p where p: "p \<in> set environ" "CHR ''='' \<in> set p" "n = takeWhile (\<lambda>c. c \<noteq> CHR ''='') p" "n \<noteq> []"
    by (auto simp: makeListenvHandler_def Let_def split: if_splits)
  have "dropWhile (\<lambda>c. c \<noteq> CHR ''='') p \<noteq> []" using p(2) by (auto simp: dropWhile_eq_Nil_conv)
  from hd_dropWhile[OF this] this obtain v where "dropWhile (\<lambda>c. c \<noteq> CHR ''='') p = CHR ''='' # v"
    by (cases "dropWhile (\<lambda>c. c \<noteq> CHR ''='') p") auto
  then have "n @ CHR ''='' # v = p" using p(3) by (metis takeWhile_dropWhile_id)
  moreover have "CHR ''='' \<notin> set n" using p(3) by (auto dest: set_takeWhileD)
  ultimately show ?thesis using p(1,4) by metis
qed

end
