(* ===== verification/Local_Tools.thy ===== *)
theory Local_Tools
  imports Meta_Tools
begin

text \<open>
  Local tools of the agent loop: files (internal/tools/file_read.go, file_write.go), diagnostic commands (shell_exec.go), JSON paths
  (json_extract.go), regular expressions (regex_match.go), delegation (agent_invoke.go) and truncation (text_summarize.go).

  \<^item> The file system is a map from the segments of absolute paths to directories, files and symbolic links; resolving follows links,
    at most 255 as filepath.EvalSymlinks does. The base directory is absolute, as the default is; a relative one
    would be resolved from the working directory, here from the root.
  \<^item> Shown: what \<open>file_read\<close> returns lies below the resolved base or in a sibling whose name extends it, which the prefix check does
    not tell apart; which links lead \<open>file_write\<close> outside; the commands that run are on the list; a JSON path reads the value it
    names.
\<close>

subsection \<open>The file system\<close>

datatype node = NDir | NFile string | NLink string

type_synonym fileSystem = "(string list, node) gomap"

datatype pathErr = NotExist | NotDirectory | TooManyLinks | IsDirectory | FileExists

definition pathSegs :: "string \<Rightarrow> string list" where "pathSegs p = filter (\<lambda>s. s \<noteq> []) (splitByte CHR ''/'' p)"

definition renderPath :: "string list \<Rightarrow> string" where "renderPath ss = CHR ''/'' # joinByte CHR ''/'' ss"

definition nodeAt :: "fileSystem \<Rightarrow> string list \<Rightarrow> node option" where
  "nodeAt fs p = (if p = [] then Some NDir else mget fs p)"

text \<open>Resolving the rest of a path from a directory; the number counts the links that may still be followed.\<close>

function walk :: "fileSystem \<Rightarrow> nat \<Rightarrow> string list \<Rightarrow> string list \<Rightarrow> pathErr + string list" where
  "walk fs n cur [] = Inr cur"
| "walk fs n cur (s # ss) =
     (if s = [] \<or> s = ''.'' then walk fs n cur ss
      else if s = ''..'' then walk fs n (butlast cur) ss
      else case nodeAt fs (cur @ [s]) of
        None \<Rightarrow> Inl NotExist
      | Some NDir \<Rightarrow> walk fs n (cur @ [s]) ss
      | Some (NFile _) \<Rightarrow> if ss = [] then Inr (cur @ [s]) else Inl NotDirectory
      | Some (NLink t) \<Rightarrow>
          if n = 0 then Inl TooManyLinks
          else walk fs (n - 1) (if HasPrefix t ''/'' then [] else cur) (pathSegs t @ ss))"
  by pat_completeness auto
termination by (relation "measures [\<lambda>(fs, n, cur, ss). n, \<lambda>(fs, n, cur, ss). length ss]") auto

definition EvalSymlinks :: "fileSystem \<Rightarrow> string \<Rightarrow> pathErr + string" where
  "EvalSymlinks fs p = (case walk fs 255 [] (pathSegs p) of Inl e \<Rightarrow> Inl e | Inr r \<Rightarrow> Inr (renderPath r))"

text \<open>os.MkdirAll: every prefix is a directory already, through links if need be, or is created in its resolved parent.\<close>

fun mkdirSegs :: "fileSystem \<Rightarrow> string list \<Rightarrow> string list \<Rightarrow> pathErr option \<times> fileSystem" where
  "mkdirSegs fs cur [] = (None, fs)"
| "mkdirSegs fs cur (s # ss) =
     (case walk fs 255 [] (cur @ [s]) of
        Inr r \<Rightarrow> if nodeAt fs r = Some NDir then mkdirSegs fs (cur @ [s]) ss else (Some NotDirectory, fs)
      | Inl NotExist \<Rightarrow>
          (case walk fs 255 [] cur of
             Inl e \<Rightarrow> (Some e, fs)
           | Inr rp \<Rightarrow> if nodeAt fs (rp @ [s]) = None then mkdirSegs (mput (rp @ [s]) NDir fs) (cur @ [s]) ss else (Some FileExists, fs))
      | Inl e \<Rightarrow> (Some e, fs))"

definition MkdirAll :: "fileSystem \<Rightarrow> string \<Rightarrow> pathErr option \<times> fileSystem" where "MkdirAll fs p = mkdirSegs fs [] (pathSegs p)"

text \<open>The file that an open with creation reaches: the kernel follows a final link as well, also one whose target does not exist.\<close>

fun openTarget :: "nat \<Rightarrow> fileSystem \<Rightarrow> string list \<Rightarrow> pathErr + string list" where
  "openTarget n fs p =
     (if p = [] then Inl IsDirectory
      else case walk fs 255 [] (butlast p) of
        Inl e \<Rightarrow> Inl e
      | Inr rp \<Rightarrow>
          (case nodeAt fs (rp @ [last p]) of
             None \<Rightarrow> if nodeAt fs rp = Some NDir then Inr (rp @ [last p]) else Inl NotDirectory
           | Some NDir \<Rightarrow> Inl IsDirectory
           | Some (NFile _) \<Rightarrow> Inr (rp @ [last p])
           | Some (NLink t) \<Rightarrow> (case n of 0 \<Rightarrow> Inl TooManyLinks | Suc k \<Rightarrow> openTarget k fs (if HasPrefix t ''/'' then pathSegs t else rp @ pathSegs t))))"

declare openTarget.simps [simp del]

subsection \<open>Safe paths\<close>

definition allowedBaseDir :: "(string \<Rightarrow> string) \<Rightarrow> string" where
  "allowedBaseDir getenv = (if getenv ''AGENTOS_TOOL_FILE_BASE_DIR'' \<noteq> [] then getenv ''AGENTOS_TOOL_FILE_BASE_DIR'' else ''/tmp/agentos-sandbox'')"

definition pathDir :: "string \<Rightarrow> string" where "pathDir p = renderPath (butlast (pathSegs p))"

datatype safeErr = BaseCreate pathErr | BaseResolve pathErr | OutsideBase string | Unresolved pathErr | OutsideViaLink string

definition absolutePath :: "string \<Rightarrow> string \<Rightarrow> string" where
  "absolutePath base p = (let cleaned = joinPath [p] in if HasPrefix cleaned ''/'' then cleaned else joinPath [base, cleaned])"

definition safePath :: "fileSystem \<Rightarrow> string \<Rightarrow> string \<Rightarrow> bool \<Rightarrow> (safeErr + string) \<times> fileSystem" where
  "safePath fs0 base p requireExists =
     (case MkdirAll fs0 base of
        (Some e, fs) \<Rightarrow> (Inl (BaseCreate e), fs)
      | (None, fs) \<Rightarrow>
          (case EvalSymlinks fs base of
             Inl e \<Rightarrow> (Inl (BaseResolve e), fs)
           | Inr realBase \<Rightarrow>
               (let abs_p = absolutePath base p in
                if \<not> HasPrefix abs_p base then (Inl (OutsideBase p), fs)
                else case EvalSymlinks fs abs_p of
                  Inr resolved \<Rightarrow> if \<not> HasPrefix resolved realBase then (Inl (OutsideViaLink p), fs) else (Inr resolved, fs)
                | Inl e \<Rightarrow>
                    if requireExists then (Inl (Unresolved e), fs)
                    else (case EvalSymlinks fs (pathDir abs_p) of
                            Inl _ \<Rightarrow> (Inr abs_p, fs)
                          | Inr parent \<Rightarrow>
                              (let r = joinPath [parent, pathBase abs_p] in
                               if \<not> HasPrefix r realBase then (Inl (OutsideViaLink p), fs) else (Inr r, fs))))))"

subsection \<open>The file tools\<close>

definition fileReadMaxSize :: nat where "fileReadMaxSize = 1024 * 1024"

definition b64Char :: "nat \<Rightarrow> char" where
  "b64Char n = (''ABCDEFGHIJKLMNOPQRSTUVWXYZabcdefghijklmnopqrstuvwxyz0123456789+/'' ! n)"

fun b64Encode :: "string \<Rightarrow> string" where
  "b64Encode [] = []"
| "b64Encode [a] = (let n = of_char a * 65536 :: nat in [b64Char (n div 262144), b64Char (n div 4096 mod 64), CHR ''='', CHR ''=''])"
| "b64Encode [a, b] = (let n = of_char a * 65536 + of_char b * 256 :: nat in [b64Char (n div 262144), b64Char (n div 4096 mod 64), b64Char (n div 64 mod 64), CHR ''=''])"
| "b64Encode (a # b # c # rest) =
     (let n = of_char a * 65536 + of_char b * 256 + of_char c :: nat in
      [b64Char (n div 262144), b64Char (n div 4096 mod 64), b64Char (n div 64 mod 64), b64Char (n mod 64)] @ b64Encode rest)"

datatype localErr = ToolErr string | PathErr safeErr | OpenErr pathErr | ReadErr

record fileReadOutput =
  fo_Path :: string
  fo_Size :: nat
  fo_Content :: string

definition FileRead :: "string \<Rightarrow> (string \<Rightarrow> string + string \<times> string) \<Rightarrow> string \<Rightarrow> fileSystem \<Rightarrow> (localErr + fileReadOutput) \<times> fileSystem" where
  "FileRead base decode input fs0 =
     (case decode input of
        Inl e \<Rightarrow> (Inl (ToolErr (''invalid input: '' @ e)), fs0)
      | Inr (path, enc) \<Rightarrow>
          if path = [] then (Inl (ToolErr ''path is required''), fs0)
          else (case safePath fs0 base path True of
                  (Inl e, fs) \<Rightarrow> (Inl (PathErr e), fs)
                | (Inr p, fs) \<Rightarrow>
                    (case walk fs 255 [] (pathSegs p) of
                       Inl e \<Rightarrow> (Inl (OpenErr e), fs)
                     | Inr r \<Rightarrow>
                         (case nodeAt fs r of
                            Some (NFile c) \<Rightarrow>
                              (let d = take fileReadMaxSize c in
                               (Inr \<lparr>fo_Path = path, fo_Size = length d, fo_Content = (if enc = ''base64'' then b64Encode d else d)\<rparr>, fs))
                          | _ \<Rightarrow> (Inl ReadErr, fs)))))"

definition fileWriteMaxSize :: nat where "fileWriteMaxSize = 1024 * 1024"

definition writeNode :: "bool \<Rightarrow> string \<Rightarrow> string list \<Rightarrow> fileSystem \<Rightarrow> fileSystem" where
  "writeNode app content r fs =
     mput r (NFile ((case nodeAt fs r of Some (NFile old) \<Rightarrow> if app then old else [] | _ \<Rightarrow> []) @ content)) fs"

definition FileWrite ::
  "string \<Rightarrow> (string \<Rightarrow> string + string \<times> string \<times> string) \<Rightarrow> string \<Rightarrow> fileSystem \<Rightarrow> (localErr + string \<times> nat \<times> string) \<times> fileSystem" where
  "FileWrite base decode input fs0 =
     (case decode input of
        Inl e \<Rightarrow> (Inl (ToolErr (''invalid input: '' @ e)), fs0)
      | Inr (path, content, mode0) \<Rightarrow>
          if path = [] then (Inl (ToolErr ''path is required''), fs0)
          else if length content > fileWriteMaxSize then (Inl (ToolErr ''content exceeds maximum size''), fs0)
          else
            (let mode = (if mode0 = [] then ''overwrite'' else mode0) in
             case safePath fs0 base path False of
               (Inl e, fs) \<Rightarrow> (Inl (PathErr e), fs)
             | (Inr p, fs) \<Rightarrow>
                 (case MkdirAll fs (pathDir p) of
                    (Some e, fs1) \<Rightarrow> (Inl (OpenErr e), fs1)
                  | (None, fs1) \<Rightarrow>
                      (case openTarget 40 fs1 (pathSegs p) of
                         Inl e \<Rightarrow> (Inl (OpenErr e), fs1)
                       | Inr r \<Rightarrow> (Inr (path, length content, mode), writeNode (mode = ''append'') content r fs1)))))"

subsection \<open>Commands\<close>

definition shellMaxOutput :: nat where "shellMaxOutput = 64 * 1024"

definition shellDefaultTimeout :: duration where "shellDefaultTimeout = 30 * second"

definition defaultDeniedCommands :: "string list" where
  "defaultDeniedCommands = [''rm'', ''rmdir'', ''mkfs'', ''dd'', ''shutdown'', ''reboot'', ''halt'', ''poweroff'', ''chmod'', ''chown'', ''mount'', ''umount'', ''kill'', ''killall'', ''pkill'']"

definition shellExecAllowedCommands :: "string list" where
  "shellExecAllowedCommands =
     [''basename'', ''cat'', ''cut'', ''date'', ''df'', ''dirname'', ''du'', ''echo'', ''false'', ''file'', ''free'', ''grep'', ''head'', ''id'', ''ls'', ''printf'',
      ''ps'', ''pwd'', ''readlink'', ''realpath'', ''rg'', ''sort'', ''ss'', ''stat'', ''tail'', ''tr'', ''true'', ''uname'', ''uniq'', ''uptime'', ''wc'', ''whereis'', ''which'', ''whoami'']"

definition toolTruncate :: "string \<Rightarrow> nat \<Rightarrow> string" where
  "toolTruncate s mx = (if length s \<le> mx then s else take mx s @ ''... [truncated]'')"

definition shellTimeout :: "int \<Rightarrow> duration" where
  "shellTimeout n = (if n > 0 then (let t = int64 (n * second) in if t > 120 * second then 120 * second else t) else shellDefaultTimeout)"

text \<open>What running a command yields: an exit code with the output, the end of the time, or a failure to run.\<close>

datatype cmdOutcome = Exited int string string | TimedOutCmd | RunFailed string

definition ShellExec ::
  "(string \<Rightarrow> string + string list) \<Rightarrow> (string list \<Rightarrow> duration \<Rightarrow> cmdOutcome) \<Rightarrow> (string \<Rightarrow> string + string \<times> int) \<Rightarrow> string
   \<Rightarrow> (string + int \<times> string \<times> string) \<times> (string list \<times> duration) option" where
  "ShellExec split run decode input =
     (case decode input of
        Inl e \<Rightarrow> (Inl (''invalid input: '' @ e), None)
      | Inr (command, secs) \<Rightarrow>
          if command = [] then (Inl ''command is required'', None)
          else (case split command of
                  Inl e \<Rightarrow> (Inl (''invalid command: '' @ e), None)
                | Inr [] \<Rightarrow> (Inl ''empty command'', None)
                | Inr (c # args) \<Rightarrow>
                    (let baseName = pathBase c in
                     if baseName \<in> set defaultDeniedCommands then (Inl (''command '' @ quoted baseName @ '' is not allowed''), None)
                     else if baseName \<notin> set shellExecAllowedCommands then (Inl (''command '' @ quoted baseName @ '' is not allowed''), None)
                     else
                       (let t = shellTimeout secs in
                        (case run (c # args) t of
                           Exited code so se \<Rightarrow> Inr (code, toolTruncate so shellMaxOutput, toolTruncate se shellMaxOutput)
                         | TimedOutCmd \<Rightarrow> Inl ''command timed out''
                         | RunFailed e \<Rightarrow> Inl (''command failed: '' @ e),
                         Some (c # args, t))))))"

subsection \<open>JSON paths, regular expressions, truncation\<close>

text \<open>A decoded object is a map; a key occurs once.\<close>

fun jsonStep :: "json \<Rightarrow> string \<Rightarrow> string + json" where
  "jsonStep (JObj kvs) part = (case map_of kvs part of None \<Rightarrow> Inl (''path not found: key '' @ quoted part @ '' does not exist'') | Some v \<Rightarrow> Inr v)"
| "jsonStep (JArr xs) part =
     (case Atoi part of
        None \<Rightarrow> Inl (''path not found: '' @ quoted part @ '' is not a valid array index'')
      | Some i \<Rightarrow> if i < 0 \<or> i \<ge> int (length xs) then Inl (''path not found: index '' @ Itoa i @ '' out of range (length '' @ Itoa (int (length xs)) @ '')'') else Inr (xs ! nat i))"
| "jsonStep _ part = Inl (''path not found: cannot traverse at '' @ quoted part)"

fun jsonWalk :: "json \<Rightarrow> string list \<Rightarrow> string + json" where
  "jsonWalk v [] = Inr v"
| "jsonWalk v (part # ps) = (case jsonStep v part of Inl e \<Rightarrow> Inl e | Inr w \<Rightarrow> jsonWalk w ps)"

definition JSONExtract :: "(string \<Rightarrow> string + string \<times> string) \<Rightarrow> (string \<Rightarrow> string + json) \<Rightarrow> string \<Rightarrow> string + json" where
  "JSONExtract decode parse input =
     (case decode input of
        Inl e \<Rightarrow> Inl (''invalid input: '' @ e)
      | Inr (js, path) \<Rightarrow>
          if js = [] then Inl ''json is required''
          else if path = [] then Inl ''path is required''
          else (case parse js of Inl e \<Rightarrow> Inl (''invalid json: '' @ e) | Inr v \<Rightarrow> jsonWalk v (splitByte CHR ''.'' path)))"

record regexMatchResult =
  rm_FullMatch :: string
  rm_Groups :: "string list"
  rm_Start :: int
  rm_End :: int

definition subText :: "string \<Rightarrow> int \<Rightarrow> int \<Rightarrow> string" where "subText s a b = take (nat (b - a)) (drop (nat a) s)"

definition regexGroups :: "string \<Rightarrow> nat \<Rightarrow> int list \<Rightarrow> string list" where
  "regexGroups s names idx =
     map (\<lambda>i. if idx ! (i * 2) \<ge> 0 then subText s (idx ! (i * 2)) (idx ! (i * 2 + 1)) else [])
       (filter (\<lambda>i. i * 2 + 1 < length idx) [1..<names])"

definition regexResults :: "string \<Rightarrow> nat \<Rightarrow> int list list \<Rightarrow> regexMatchResult list" where
  "regexResults s names idxs =
     map (\<lambda>idx. \<lparr>rm_FullMatch = subText s (idx ! 0) (idx ! 1), rm_Groups = regexGroups s names idx, rm_Start = idx ! 0, rm_End = idx ! 1\<rparr>)
       (filter (\<lambda>idx. 2 \<le> length idx) idxs)"

text \<open>The compiled expression: the number of its groups with the whole match, and the index vectors of the first matches.\<close>

definition RegexMatch ::
  "(string \<Rightarrow> string + nat \<times> (string \<Rightarrow> nat \<Rightarrow> int list list)) \<Rightarrow> (string \<Rightarrow> string + string \<times> string \<times> int) \<Rightarrow> string \<Rightarrow> string + string \<times> nat \<times> regexMatchResult list" where
  "RegexMatch compile decode input =
     (case decode input of
        Inl e \<Rightarrow> Inl (''invalid input: '' @ e)
      | Inr (pat, s, mx) \<Rightarrow>
          if pat = [] then Inl ''pattern is required''
          else if s = [] then Inl ''text is required''
          else (case compile pat of
                  Inl e \<Rightarrow> Inl (''invalid pattern: '' @ e)
                | Inr (names, vectors) \<Rightarrow>
                    (let rs = regexResults s names (vectors s (nat (if mx \<le> 0 then 100 else mx))) in Inr (pat, length rs, rs))))"

definition TextTruncate :: "(string \<Rightarrow> string + string \<times> int) \<Rightarrow> string \<Rightarrow> string + string" where
  "TextTruncate decode input =
     (case decode input of
        Inl e \<Rightarrow> Inl (''invalid input: '' @ e)
      | Inr (s, mx0) \<Rightarrow> Inr (toolTruncate s (nat (if mx0 \<le> 0 then 1000 else mx0))))"

subsection \<open>Delegation\<close>

definition DefaultMaxDelegationDepth :: int where "DefaultMaxDelegationDepth = 5"

definition maxDelegationDepth :: "(string \<Rightarrow> string) \<Rightarrow> int" where
  "maxDelegationDepth getenv =
     (let v = getenv ''AGENTOS_MAX_DELEGATION_DEPTH'' in
      if v = [] then DefaultMaxDelegationDepth
      else case Atoi v of Some n \<Rightarrow> if n > 0 then n else DefaultMaxDelegationDepth | None \<Rightarrow> DefaultMaxDelegationDepth)"

record invokeTool =
  it_runner :: "(int \<Rightarrow> string \<Rightarrow> string \<Rightarrow> string + string) option"
  it_ParentRunID :: string

record agentInvokeOutput =
  ao_ParentRunID :: string
  ao_AgentID :: string
  ao_Output :: string
  ao_Status :: string
  ao_ErrorMessage :: string

text \<open>The runner gets the depth of the child, the agent and the input; \<open>cancelled\<close> is the state of the parent's context afterwards.\<close>

definition AgentInvoke ::
  "(string \<Rightarrow> string) \<Rightarrow> (string \<Rightarrow> string + string \<times> string) \<Rightarrow> string option \<Rightarrow> int \<Rightarrow> invokeTool \<Rightarrow> string \<Rightarrow> string + agentInvokeOutput" where
  "AgentInvoke getenv decode cancelled depth t input =
     (case decode input of
        Inl e \<Rightarrow> Inl (''invalid input: '' @ e)
      | Inr (agentID, inp) \<Rightarrow>
          if agentID = [] then Inl ''agent_id is required''
          else if inp = [] then Inl ''input is required''
          else if depth \<ge> maxDelegationDepth getenv
          then Inl (''delegation depth limit reached ('' @ Itoa depth @ ''/'' @ Itoa (maxDelegationDepth getenv) @ ''): cannot invoke agent '' @ quoted agentID)
          else case it_runner t of
            None \<Rightarrow> Inl ''agent runner not configured''
          | Some run \<Rightarrow>
              (case run (depth + 1) agentID inp of
                 Inl e \<Rightarrow> (case cancelled of
                            Some c \<Rightarrow> Inl (''parent cancelled: '' @ c)
                          | None \<Rightarrow> Inr \<lparr>ao_ParentRunID = it_ParentRunID t, ao_AgentID = agentID, ao_Output = [], ao_Status = ''failed'', ao_ErrorMessage = e\<rparr>)
               | Inr out \<Rightarrow> Inr \<lparr>ao_ParentRunID = it_ParentRunID t, ao_AgentID = agentID, ao_Output = out, ao_Status = ''completed'', ao_ErrorMessage = []\<rparr>))"

text \<open>The tool as the registry creates it; nothing sets its runner.\<close>

definition newInvokeTool :: invokeTool where "newInvokeTool = \<lparr>it_runner = None, it_ParentRunID = []\<rparr>"

subsection \<open>Resolved paths\<close>

definition plainSeg :: "string \<Rightarrow> bool" where "plainSeg s \<longleftrightarrow> s \<noteq> [] \<and> CHR ''/'' \<notin> set s"

definition cat :: "string list \<Rightarrow> string" where "cat ss = concat (map (\<lambda>s. CHR ''/'' # s) ss)"

lemma cat_simps [simp]: "cat [] = []" "cat (s # ss) = CHR ''/'' # s @ cat ss"
  by (simp_all add: cat_def)

lemma renderPath_cat: "ss \<noteq> [] \<Longrightarrow> renderPath ss = cat ss"
proof (induction ss)
  case (Cons s ss)
  then show ?case by (cases ss) (auto simp: renderPath_def)
qed simp

lemma splitByte_no_sep: "\<forall>s\<in>set (splitByte d p). d \<notin> set s"
  by (induction d p rule: splitByte.induct) (auto split: if_splits list.splits)

lemma pathSegs_plain: "s \<in> set (pathSegs p) \<Longrightarrow> plainSeg s"
  using splitByte_no_sep by (auto simp: pathSegs_def plainSeg_def)

lemma pathSegs_render:
  assumes "\<forall>s\<in>set ss. plainSeg s"
  shows "pathSegs (renderPath ss) = ss"
proof (cases "ss = []")
  case False
  have "splitByte CHR ''/'' (renderPath ss) = [] # ss"
    using assms False splitByte_joinByte[of ss "CHR ''/''"] by (simp add: renderPath_def plainSeg_def)
  moreover have "filter (\<lambda>s. s \<noteq> []) ss = ss" using assms by (simp add: plainSeg_def filter_id_conv)
  ultimately show ?thesis by (simp add: pathSegs_def)
qed (simp add: pathSegs_def renderPath_def)

text \<open>A path whose every prefix is a directory and whose end is a directory or a file: nothing on it is a link.\<close>

definition dirPath :: "fileSystem \<Rightarrow> string list \<Rightarrow> bool" where
  "dirPath fs p \<longleftrightarrow> (\<forall>i\<le>length p. nodeAt fs (take i p) = Some NDir) \<and> (\<forall>s\<in>set p. plainSeg s \<and> s \<noteq> ''.'' \<and> s \<noteq> ''..'')"

definition realPath :: "fileSystem \<Rightarrow> string list \<Rightarrow> bool" where
  "realPath fs p \<longleftrightarrow> dirPath fs p \<or> (p \<noteq> [] \<and> dirPath fs (butlast p) \<and> plainSeg (last p) \<and> last p \<noteq> ''.'' \<and> last p \<noteq> ''..'' \<and> (\<exists>c. nodeAt fs p = Some (NFile c)))"

lemma dirPath_Nil [simp]: "dirPath fs []"
  by (simp add: dirPath_def nodeAt_def)

lemma dirPath_butlast: "dirPath fs p \<Longrightarrow> dirPath fs (butlast p)"
proof (cases p rule: rev_cases)
  case (snoc q x)
  assume d: "dirPath fs p"
  have "nodeAt fs (take i q) = Some NDir" if "i \<le> length q" for i
  proof -
    have "i \<le> length p \<and> take i p = take i q" using that snoc by simp
    then show ?thesis using d unfolding dirPath_def by metis
  qed
  then show ?thesis using d snoc by (simp add: dirPath_def)
qed simp

lemma dirPath_snoc: "dirPath fs p \<Longrightarrow> nodeAt fs (p @ [s]) = Some NDir \<Longrightarrow> plainSeg s \<Longrightarrow> s \<noteq> ''.'' \<Longrightarrow> s \<noteq> ''..'' \<Longrightarrow> dirPath fs (p @ [s])"
  by (auto simp: dirPath_def le_Suc_eq)

lemma walk_real:
  assumes "walk fs n cur ss = Inr r" "dirPath fs cur" "\<forall>s\<in>set ss. plainSeg s"
  shows "realPath fs r"
  using assms
proof (induction fs n cur ss rule: walk.induct)
  case (1 fs n cur)
  then show ?case by (simp add: realPath_def)
next
  case (2 fs n cur s ss)
  have plain: "plainSeg s" "\<forall>s\<in>set ss. plainSeg s" using "2.prems"(3) by auto
  consider "s = ''.''" | "s = ''..''" | "s \<noteq> ''.''" "s \<noteq> ''..''" by blast
  then show ?case
  proof cases
    case 1
    then show ?thesis using "2.IH"(1) "2.prems" plain by simp
  next
    case dd: 2
    then show ?thesis using "2.IH"(2) "2.prems" plain dirPath_butlast by simp
  next
    case nm: 3
    have ne: "s \<noteq> []" using plain by (simp add: plainSeg_def)
    obtain nd where nd: "nodeAt fs (cur @ [s]) = Some nd" using "2.prems"(1) nm ne by (auto split: option.splits)
    show ?thesis
    proof (cases nd)
      case NDir
      then show ?thesis using "2.IH"(3)[OF _ _ nd NDir] "2.prems" nm ne nd plain dirPath_snoc by simp
    next
      case (NFile c)
      then have "r = cur @ [s]" using "2.prems"(1) nm ne nd by (auto split: if_splits)
      then show ?thesis using "2.prems"(2) nd NFile nm plain by (auto simp: realPath_def)
    next
      case (NLink t)
      then have w: "walk fs (n - 1) (if HasPrefix t ''/'' then [] else cur) (pathSegs t @ ss) = Inr r" and n: "n \<noteq> 0"
        using "2.prems"(1) nm ne nd by (auto split: if_splits)
      have "\<forall>x\<in>set (pathSegs t @ ss). plainSeg x" using pathSegs_plain plain by auto
      then show ?thesis using "2.IH"(4)[OF _ _ nd NLink n w] "2.prems"(2) nm ne by simp
    qed
  qed
qed

lemma walk_dir_append:
  assumes "dirPath fs (cur @ ds)"
  shows "walk fs n cur (ds @ rest) = walk fs n (cur @ ds) rest"
  using assms
proof (induction ds arbitrary: cur)
  case (Cons d ds)
  have d: "nodeAt fs (cur @ [d]) = Some NDir" "d \<noteq> []" "d \<noteq> ''.''" "d \<noteq> ''..''"
    using Cons.prems by (auto simp: dirPath_def plainSeg_def dest: spec[of _ "Suc (length cur)"])
  show ?case using Cons.IH[of "cur @ [d]"] Cons.prems d by simp
qed simp

lemma walk_realPath: "realPath fs p \<Longrightarrow> walk fs n [] p = Inr p"
proof -
  assume "realPath fs p"
  then consider "dirPath fs p"
    | q s c where "p = q @ [s]" "dirPath fs q" "plainSeg s" "s \<noteq> ''.''" "s \<noteq> ''..''" "nodeAt fs p = Some (NFile c)"
    unfolding realPath_def by (metis append_butlast_last_id)
  then show ?thesis
  proof cases
    case 1
    then show ?thesis using walk_dir_append[of fs "[]" p n "[]"] by simp
  next
    case 2
    then show ?thesis using walk_dir_append[of fs "[]" q n "[s]"] by (simp add: plainSeg_def)
  qed
qed

lemma realPath_plain: "realPath fs p \<Longrightarrow> \<forall>s\<in>set p. plainSeg s"
  unfolding realPath_def dirPath_def by (metis append_butlast_last_id in_set_conv_decomp rotate1.simps(2) set_ConsD set_rotate1)

text \<open>What a textual prefix means for resolved paths: below the base, or below a sibling whose name extends the base's.\<close>

definition underOrSibling :: "string list \<Rightarrow> string list \<Rightarrow> bool" where
  "underOrSibling B r \<longleftrightarrow> (\<exists>rest. r = B @ rest) \<or> (\<exists>x rest. B \<noteq> [] \<and> x \<noteq> [] \<and> r = butlast B @ (last B @ x) # rest)"

lemma cat_hd: "cat ss = c # cs \<Longrightarrow> c = CHR ''/''"
  by (cases ss) auto

lemma cat_prefix:
  assumes "\<forall>s\<in>set B. plainSeg s" "\<forall>s\<in>set r. plainSeg s" "cat r = cat B @ z"
  shows "underOrSibling B r"
  using assms
proof (induction B arbitrary: r)
  case Nil
  then show ?case by (simp add: underOrSibling_def)
next
  case (Cons b bs)
  obtain x rs where r: "r = x # rs" using Cons.prems(3) by (cases r) auto
  have eq: "x @ cat rs = b @ cat bs @ z" using Cons.prems(3) r by simp
  have pb: "CHR ''/'' \<notin> set b" and px: "CHR ''/'' \<notin> set x" using Cons.prems r by (auto simp: plainSeg_def)
  from eq obtain us where us: "x = b @ us \<and> us @ cat rs = cat bs @ z \<or> x @ us = b \<and> cat rs = us @ cat bs @ z"
    unfolding append_eq_append_conv2 by blast
  have second: "us = []" if "x @ us = b" "cat rs = us @ cat bs @ z"
    using that pb cat_hd[of rs] by (cases us) auto
  show ?case
  proof (cases "us = []")
    case True
    then have "x = b" "cat rs = cat bs @ z" using us by auto
    then have "underOrSibling bs rs" using Cons.IH[of rs] Cons.prems r by simp
    then show ?thesis using r \<open>x = b\<close> unfolding underOrSibling_def by auto
  next
    case False
    then have x: "x = b @ us" "us @ cat rs = cat bs @ z" using us second by blast+
    have "bs = []" using x px False by (cases bs; cases us) auto
    then show ?thesis using x r False by (auto simp: underOrSibling_def)
  qed
qed

lemma prefix_under:
  assumes "realPath fs B" "realPath fs r" "HasPrefix (renderPath r) (renderPath B)"
  shows "underOrSibling B r"
proof (cases "B = [] \<or> r = []")
  case True
  have "r = [] \<Longrightarrow> B \<noteq> [] \<Longrightarrow> False"
  proof -
    assume "r = []" "B \<noteq> []"
    then obtain z where "renderPath [] = cat B @ z" using assms(3) renderPath_cat[of B] by (auto simp: HasPrefix_iff)
    moreover obtain b bs where "B = b # bs" "b \<noteq> []" using \<open>B \<noteq> []\<close> realPath_plain[OF assms(1)] by (cases B) (auto simp: plainSeg_def)
    ultimately show False by (simp add: renderPath_def)
  qed
  then show ?thesis using True by (auto simp: underOrSibling_def)
next
  case False
  then obtain z where "cat r = cat B @ z" using assms(3) renderPath_cat by (auto simp: HasPrefix_iff)
  then show ?thesis using cat_prefix realPath_plain assms by blast
qed

lemma EvalSymlinks_real:
  assumes "EvalSymlinks fs p = Inr q"
  shows "\<exists>r. q = renderPath r \<and> realPath fs r \<and> pathSegs q = r"
proof -
  obtain r where w: "walk fs 255 [] (pathSegs p) = Inr r" and q: "q = renderPath r" using assms by (auto simp: EvalSymlinks_def split: sum.splits)
  have "realPath fs r" using walk_real[OF w] pathSegs_plain by simp
  then show ?thesis using q pathSegs_render[of r] realPath_plain by blast
qed

lemma safePath_existing:
  assumes "safePath fs0 base p True = (Inr q, fs)"
  shows "\<exists>B r. EvalSymlinks fs base = Inr (renderPath B) \<and> realPath fs B \<and> realPath fs r \<and> pathSegs q = r \<and> underOrSibling B r"
proof -
  obtain rb where rb: "EvalSymlinks fs base = Inr rb" and q: "EvalSymlinks fs (absolutePath base p) = Inr q" and hp: "HasPrefix q rb"
    using assms by (auto simp: safePath_def Let_def split: prod.splits option.splits sum.splits if_splits)
  obtain B where B: "rb = renderPath B" "realPath fs B" using EvalSymlinks_real[OF rb] by blast
  obtain r where r: "q = renderPath r" "realPath fs r" "pathSegs q = r" using EvalSymlinks_real[OF q] by blast
  show ?thesis using rb B r prefix_under[OF B(2) r(2)] hp by blast
qed

text \<open>C40. What \<open>file_read\<close> can return: on success the content is that of a file, cut at 1 MiB, that no link leads away from, and
  it lies below the resolved base directory, or below a sibling directory or in a sibling file whose name begins with the name of the base.\<close>

theorem file_read_contained:
  assumes "FileRead base decode input fs0 = (Inr out, fs)"
  shows "\<exists>B r c enc. EvalSymlinks fs base = Inr (renderPath B) \<and> underOrSibling B r \<and> realPath fs r \<and> nodeAt fs r = Some (NFile c) \<and>
    decode input = Inr (fo_Path out, enc) \<and> fo_Size out = min (length c) 1048576 \<and>
    fo_Content out = (if enc = ''base64'' then b64Encode (take 1048576 c) else take 1048576 c)"
proof -
  obtain path enc p where d: "decode input = Inr (path, enc)" and sp: "safePath fs0 base path True = (Inr p, fs)"
    using assms by (auto simp: FileRead_def Let_def split: sum.splits prod.splits if_splits option.splits node.splits)
  obtain B r where b: "EvalSymlinks fs base = Inr (renderPath B)" "realPath fs r" "pathSegs p = r" "underOrSibling B r"
    using safePath_existing[OF sp] by blast
  have w: "walk fs 255 [] (pathSegs p) = Inr r" using walk_realPath[OF b(2)] b(3) by simp
  obtain c where "nodeAt fs r = Some (NFile c)"
    "out = \<lparr>fo_Path = path, fo_Size = length (take fileReadMaxSize c), fo_Content = (if enc = ''base64'' then b64Encode (take fileReadMaxSize c) else take fileReadMaxSize c)\<rparr>"
    using assms d sp w by (auto simp: FileRead_def Let_def split: if_splits option.splits node.splits)
  then show ?thesis using b d by (auto simp: fileReadMaxSize_def)
qed

definition sampleFS :: fileSystem where
  "sampleFS =
     [([''tmp''], NDir), ([''tmp'', ''agentos-sandbox''], NDir), ([''tmp'', ''agentos-sandbox'', ''a.txt''], NFile ''hi''),
      ([''tmp'', ''agentos-sandbox-old''], NDir), ([''tmp'', ''agentos-sandbox-old'', ''key''], NFile ''secret''),
      ([''tmp'', ''agentos-sandbox'', ''out''], NLink ''/etc/new.conf''), ([''tmp'', ''agentos-sandbox'', ''dir''], NLink ''/srv''), ([''etc''], NDir), ([''srv''], NDir)]"

definition sandboxBase :: string where "sandboxBase = ''/tmp/agentos-sandbox''"

lemma sample_safe:
  "safePath sampleFS sandboxBase ''a.txt'' True = (Inr ''/tmp/agentos-sandbox/a.txt'', sampleFS)"
  "safePath sampleFS sandboxBase ''/tmp/agentos-sandbox-old/key'' True = (Inr ''/tmp/agentos-sandbox-old/key'', sampleFS)"
  "fst (safePath sampleFS sandboxBase ''../../etc/passwd'' True) = Inl (OutsideBase ''../../etc/passwd'')"
  by code_simp+

lemma sample_walk:
  "walk sampleFS 255 [] (pathSegs ''/tmp/agentos-sandbox/a.txt'') = Inr [''tmp'', ''agentos-sandbox'', ''a.txt'']" "nodeAt sampleFS [''tmp'', ''agentos-sandbox'', ''a.txt''] = Some (NFile ''hi'')"
  "walk sampleFS 255 [] (pathSegs ''/tmp/agentos-sandbox-old/key'') = Inr [''tmp'', ''agentos-sandbox-old'', ''key'']" "nodeAt sampleFS [''tmp'', ''agentos-sandbox-old'', ''key''] = Some (NFile ''secret'')"
  by code_simp+

theorem file_read_contained_witness:
  "\<exists>B r c enc. EvalSymlinks sampleFS sandboxBase = Inr (renderPath B) \<and> underOrSibling B r \<and> realPath sampleFS r \<and> nodeAt sampleFS r = Some (NFile c) \<and>
    (Inr (''a.txt'', []) :: string + string \<times> string) = Inr (fo_Path \<lparr>fo_Path = ''a.txt'', fo_Size = 2, fo_Content = ''hi''\<rparr>, enc) \<and>
    fo_Size \<lparr>fo_Path = ''a.txt'', fo_Size = 2, fo_Content = ''hi''\<rparr> = min (length c) 1048576 \<and>
    fo_Content \<lparr>fo_Path = ''a.txt'', fo_Size = 2, fo_Content = ''hi''\<rparr> = (if enc = ''base64'' then b64Encode (take 1048576 c) else take 1048576 c)"
proof -
  have "FileRead sandboxBase (\<lambda>p. Inr (p, [])) ''a.txt'' sampleFS = (Inr \<lparr>fo_Path = ''a.txt'', fo_Size = 2, fo_Content = ''hi''\<rparr>, sampleFS)"
    by (simp add: FileRead_def sample_safe sample_walk fileReadMaxSize_def)
  from file_read_contained[OF this] show ?thesis by simp
qed

text \<open>The prefix check has no separator: a sibling directory of the sandbox is readable, and writable in the same way.\<close>

lemma sibling_readable:
  "FileRead sandboxBase (\<lambda>p. Inr (p, [])) ''/tmp/agentos-sandbox-old/key'' sampleFS = (Inr \<lparr>fo_Path = ''/tmp/agentos-sandbox-old/key'', fo_Size = 6, fo_Content = ''secret''\<rparr>, sampleFS)"
  by (simp add: FileRead_def sample_safe sample_walk fileReadMaxSize_def)

text \<open>Two links lead a write outside although the resolved prefix is checked: one whose target does not exist yet, and a linked
  directory below which the parent of the file does not exist.\<close>

lemma write_escapes:
  "map_prod id (\<lambda>fs. mget fs [''etc'', ''new.conf'']) (FileWrite sandboxBase (\<lambda>p. Inr (p, ''x'', [])) ''out'' sampleFS) = (Inr (''out'', 1, ''overwrite''), Some (NFile ''x''))"
  "map_prod id (\<lambda>fs. mget fs [''srv'', ''new'', ''f'']) (FileWrite sandboxBase (\<lambda>p. Inr (p, ''x'', [])) ''dir/new/f'' sampleFS) = (Inr (''dir/new/f'', 1, ''overwrite''), Some (NFile ''x''))"
proof -
  let ?w = "\<lambda>p. case safePath sampleFS sandboxBase p False of (Inr q, fs) \<Rightarrow> (case MkdirAll fs (pathDir q) of (None, fs1) \<Rightarrow> Some (openTarget 40 fs1 (pathSegs q)) | _ \<Rightarrow> None) | _ \<Rightarrow> None"
  have w: "?w ''out'' = Some (Inr [''etc'', ''new.conf''])" "?w ''dir/new/f'' = Some (Inr [''srv'', ''new'', ''f''])" by code_simp+
  have l: "\<not> length ''x'' > fileWriteMaxSize" by (simp add: fileWriteMaxSize_def)
  have n: "nodeAt fs1 r = None \<or> (\<exists>c. nodeAt fs1 r = Some (NFile c))" if "openTarget 40 fs1 p = Inr r" for fs1 p r
  proof -
    have "openTarget k fs1 p = Inr r \<Longrightarrow> nodeAt fs1 r = None \<or> (\<exists>c. nodeAt fs1 r = Some (NFile c))" for k p
    proof (induction k arbitrary: p)
      case 0
      then show ?case by (subst (asm) openTarget.simps) (auto split: if_splits sum.splits option.splits node.splits)
    next
      case (Suc k)
      then show ?case by (subst (asm) openTarget.simps) (auto split: if_splits sum.splits option.splits node.splits)
    qed
    then show ?thesis using that by blast
  qed
  show "map_prod id (\<lambda>fs. mget fs [''etc'', ''new.conf'']) (FileWrite sandboxBase (\<lambda>p. Inr (p, ''x'', [])) ''out'' sampleFS) = (Inr (''out'', 1, ''overwrite''), Some (NFile ''x''))"
    using w(1) l n by (auto simp: FileWrite_def Let_def writeNode_def split: prod.splits sum.splits option.splits node.splits)
  show "map_prod id (\<lambda>fs. mget fs [''srv'', ''new'', ''f'']) (FileWrite sandboxBase (\<lambda>p. Inr (p, ''x'', [])) ''dir/new/f'' sampleFS) = (Inr (''dir/new/f'', 1, ''overwrite''), Some (NFile ''x''))"
    using w(2) l n by (auto simp: FileWrite_def Let_def writeNode_def split: prod.splits sum.splits option.splits node.splits)
qed

text \<open>Reading what was written: an overwrite followed by a read of the same resolved path returns the content.\<close>

lemma writeNode_read: "r \<noteq> [] \<Longrightarrow> nodeAt (writeNode False content r fs) r = Some (NFile content)"
  by (simp add: writeNode_def nodeAt_def split: option.splits node.splits)

lemma writeNode_other: "q \<noteq> r \<Longrightarrow> nodeAt (writeNode app content r fs) q = nodeAt fs q"
  by (simp add: writeNode_def nodeAt_def)

subsection \<open>Commands, paths, delegation\<close>

text \<open>Only listed commands run: when \<open>shell_exec\<close> starts a process, the base name of its program is on the list of diagnostic
  commands and not on the list of denied ones, the arguments are those of the request, and the timeout is at most 120 seconds; every
  other request is refused without starting one. Both outputs are bounded.\<close>

theorem shell_exec_listed:
  "(case snd (ShellExec split run decode input) of
      None \<Rightarrow> \<exists>e. fst (ShellExec split run decode input) = Inl e
    | Some (argv, t) \<Rightarrow> \<exists>command secs. decode input = Inr (command, secs) \<and> split command = Inr argv \<and> argv \<noteq> [] \<and>
        pathBase (hd argv) \<in> set shellExecAllowedCommands \<and> pathBase (hd argv) \<notin> set defaultDeniedCommands \<and> t \<le> 120 * second) \<and>
   (case fst (ShellExec split run decode input) of Inl _ \<Rightarrow> True | Inr (code, so, se) \<Rightarrow> length so \<le> 65536 + 15 \<and> length se \<le> 65536 + 15)"
proof -
  have t: "shellTimeout n \<le> 120 * second" for n by (simp add: shellTimeout_def Let_def shellDefaultTimeout_def)
  have l: "length (toolTruncate s shellMaxOutput) \<le> 65536 + 15" for s by (simp add: toolTruncate_def shellMaxOutput_def)
  show ?thesis using t l
    by (auto simp: ShellExec_def Let_def split: sum.splits if_splits list.splits cmdOutcome.splits prod.splits)
qed

text \<open>The two lists are disjoint: the denied list decides nothing. And \<open>cat\<close> reads any file of the service, outside the sandbox of
  the file tools as well.\<close>

lemma denied_redundant: "set defaultDeniedCommands \<inter> set shellExecAllowedCommands = {}"
  by code_simp

lemma shell_reads_outside:
  assumes "split ''cat /etc/passwd'' = Inr [''cat'', ''/etc/passwd'']"
  shows "snd (ShellExec split run (\<lambda>c. Inr (c, 0)) ''cat /etc/passwd'') = Some ([''cat'', ''/etc/passwd''], 30 * second)"
proof -
  have "pathBase ''cat'' \<notin> set defaultDeniedCommands \<and> pathBase ''cat'' \<in> set shellExecAllowedCommands" by code_simp
  then show ?thesis using assms by (simp add: ShellExec_def Let_def shellTimeout_def shellDefaultTimeout_def)
qed

text \<open>A huge timeout wraps to a negative one: the command ends at once.\<close>

lemma shell_timeout_wraps: "shellTimeout 9300000000 < 0"
  by (simp add: shellTimeout_def int64_def int_word_sint)

text \<open>A path of an object and array nesting reads the value it names.\<close>

inductive jsonAt :: "json \<Rightarrow> string list \<Rightarrow> json \<Rightarrow> bool" where
  at_here: "jsonAt v [] v"
| at_key: "map_of kvs k = Some v \<Longrightarrow> jsonAt v ps w \<Longrightarrow> jsonAt (JObj kvs) (k # ps) w"
| at_index: "Atoi k = Some i \<Longrightarrow> 0 \<le> i \<Longrightarrow> i < int (length xs) \<Longrightarrow> jsonAt (xs ! nat i) ps w \<Longrightarrow> jsonAt (JArr xs) (k # ps) w"

lemma jsonWalk_exact: "jsonWalk v ps = Inr w \<longleftrightarrow> jsonAt v ps w"
proof
  assume "jsonAt v ps w"
  then show "jsonWalk v ps = Inr w" by (induction rule: jsonAt.induct) auto
next
  show "jsonWalk v ps = Inr w \<Longrightarrow> jsonAt v ps w"
  proof (induction ps arbitrary: v)
    case Nil
    then show ?case by (simp add: at_here)
  next
    case (Cons k ps)
    obtain x where x: "jsonStep v k = Inr x" "jsonWalk x ps = Inr w" using Cons.prems by (auto split: sum.splits)
    have "jsonAt x ps w" using Cons.IH[OF x(2)] .
    then show ?case using x(1)
      by (cases v) (auto split: option.splits if_splits intro: at_key at_index)
  qed
qed

text \<open>The marker is appended beyond the maximum.\<close>

lemma truncate_exceeds: "length s > mx \<Longrightarrow> length (toolTruncate s mx) = mx + 15"
  by (simp add: toolTruncate_def)

lemma truncate_short: "length s \<le> mx \<Longrightarrow> toolTruncate s mx = s"
  by (simp add: toolTruncate_def)

text \<open>A child runs one level deeper, within the limit; the tool that the registry creates never runs one.\<close>

lemma delegation_bounded:
  assumes "AgentInvoke getenv decode cancelled depth t input = Inr out"
  shows "depth + 1 \<le> maxDelegationDepth getenv"
  using assms by (auto simp: AgentInvoke_def split: sum.splits if_splits option.splits)

lemma delegation_unavailable: "\<exists>e. AgentInvoke getenv decode cancelled depth newInvokeTool input = Inl e"
  by (auto simp: AgentInvoke_def newInvokeTool_def split: sum.splits)

end
