(* ===== verification/Postgres_Runs.thy ===== *)
theory Postgres_Runs
  imports Run_Store
begin

text \<open>
  The runs and the event log in PostgreSQL (internal/storage/postgres/run_store.go, event_log_store.go, and the tables of
  migrations.go they use).

  \<^item> A table is the list of its rows in physical order; a statement is one atomic change of it. The outcome of a statement
    (\<open>dbRes\<close>) is an argument: done, refused without effect, or done although the caller is given an error (the connection
    broke before the answer). A violated unique index is the error \<open>PgUnique\<close>.
  \<^item> \<open>toRow\<close> and \<open>scanRun\<close> are the column lists of the statements: the input of a run and the two references to a parent are
    in none of them. \<open>marshalNullable\<close> is called with a nil pointer, which as an \<open>any\<close> is not nil, so the column gets the
    JSON value null and not the SQL NULL (\<open>jsonbCol\<close>). \<open>readBackRun\<close> is what a run looks like after a round trip.
  \<^item> \<open>Pg_Subscribe\<close>, \<open>fanOut\<close> and the step of the listener with their channels; a send on a closed channel is None.
  \<^item> Results: what is read back, one run per idempotency key, pages, replay, delivery by the listener, bounded tables.
\<close>

subsection \<open>Statements\<close>

datatype dbRes = DbOk | DbFail string | DbLost string

datatype pgErr = PgMarshal string | PgDB string | PgUnique

definition execStmt :: "dbRes \<Rightarrow> 's option \<Rightarrow> 's \<Rightarrow> pgErr option \<times> 's" where
  "execStmt res new s =
     (case res of
        DbFail e \<Rightarrow> (Some (PgDB e), s)
      | DbLost e \<Rightarrow> (Some (PgDB e), case new of None \<Rightarrow> s | Some s' \<Rightarrow> s')
      | DbOk \<Rightarrow> (case new of None \<Rightarrow> (Some PgUnique, s) | Some s' \<Rightarrow> (None, s')))"

definition queryStmt :: "dbRes \<Rightarrow> 'a \<Rightarrow> pgErr + 'a" where
  "queryStmt res x = (case res of DbOk \<Rightarrow> Inr x | DbFail e \<Rightarrow> Inl (PgDB e) | DbLost e \<Rightarrow> Inl (PgDB e))"

subsection \<open>The run table\<close>

datatype 'a jsonbCol = ColNull | ColJSONNull | ColDoc 'a

record runRow =
  rr_tenant_id :: string
  rr_agent_id :: string
  rr_run_id :: string
  rr_status :: string
  rr_created_at :: string
  rr_started_at :: string
  rr_completed_at :: string
  rr_events_url :: string
  rr_run_options :: runOptions
  rr_output :: "runOutput jsonbCol"
  rr_error :: "runError jsonbCol"
  rr_idempotency_key :: string
  rr_retry_of :: string
  rr_parent_run_id :: string

definition marshalNullable :: "'a option \<Rightarrow> 'a jsonbCol" where
  "marshalNullable v = (case v of None \<Rightarrow> ColJSONNull | Some x \<Rightarrow> ColDoc x)"

definition toRow :: "run \<Rightarrow> runRow" where
  "toRow r = \<lparr>rr_tenant_id = run_TenantID r, rr_agent_id = run_AgentID r, rr_run_id = run_RunID r, rr_status = run_Status r,
     rr_created_at = run_CreatedAt r, rr_started_at = run_StartedAt r, rr_completed_at = run_CompletedAt r, rr_events_url = run_EventsURL r,
     rr_run_options = run_RunOptions r, rr_output = marshalNullable (run_Output r), rr_error = marshalNullable (run_Error r),
     rr_idempotency_key = run_IdempotencyKey r, rr_retry_of = [], rr_parent_run_id = []\<rparr>"

definition zeroInput :: runInput where "zeroInput = \<lparr>ri_Type = [], ri_Text = []\<rparr>"

definition zeroOutput :: runOutput where "zeroOutput = \<lparr>rout_Type = [], rout_Text = [], rout_Artifacts = []\<rparr>"

definition zeroError :: runError where "zeroError = \<lparr>rer_Code = [], rer_Message = [], rer_Details = []\<rparr>"

definition unmarshalCol :: "'a \<Rightarrow> 'a jsonbCol \<Rightarrow> 'a option" where
  "unmarshalCol zero c = (case c of ColNull \<Rightarrow> None | ColJSONNull \<Rightarrow> Some zero | ColDoc x \<Rightarrow> Some x)"

definition scanRun :: "runRow \<Rightarrow> run" where
  "scanRun x = \<lparr>run_TenantID = rr_tenant_id x, run_AgentID = rr_agent_id x, run_RunID = rr_run_id x, run_Status = rr_status x,
     run_CreatedAt = rr_created_at x, run_StartedAt = rr_started_at x, run_CompletedAt = rr_completed_at x, run_EventsURL = rr_events_url x,
     run_Input = zeroInput, run_RunOptions = rr_run_options x, run_Output = unmarshalCol zeroOutput (rr_output x),
     run_Error = unmarshalCol zeroError (rr_error x), run_IdempotencyKey = rr_idempotency_key x, run_RetryOf = [], run_ParentRunID = []\<rparr>"

definition readBackRun :: "run \<Rightarrow> run" where
  "readBackRun r = r\<lparr>run_Input := zeroInput, run_Output := Some (case run_Output r of None \<Rightarrow> zeroOutput | Some x \<Rightarrow> x),
     run_Error := Some (case run_Error r of None \<Rightarrow> zeroError | Some x \<Rightarrow> x), run_RetryOf := [], run_ParentRunID := []\<rparr>"

definition rowKey :: "runRow \<Rightarrow> string \<times> string" where "rowKey x = (rr_tenant_id x, rr_run_id x)"

definition sameIdem :: "runRow \<Rightarrow> runRow \<Rightarrow> bool" where
  "sameIdem x y \<longleftrightarrow> rr_tenant_id x = rr_tenant_id y \<and> rr_idempotency_key x = rr_idempotency_key y \<and> rr_idempotency_key y \<noteq> []"

definition insertRun :: "run \<Rightarrow> runRow list \<Rightarrow> runRow list option" where
  "insertRun r tab = (if \<exists>x\<in>set tab. rowKey x = rowKey (toRow r) \<or> sameIdem x (toRow r) then None else Some (tab @ [toRow r]))"

definition Pg_Create :: "string option \<Rightarrow> dbRes \<Rightarrow> run \<Rightarrow> runRow list \<Rightarrow> pgErr option \<times> runRow list" where
  "Pg_Create mErr res r tab = (case mErr of Some e \<Rightarrow> (Some (PgMarshal e), tab) | None \<Rightarrow> execStmt res (insertRun r tab) tab)"

definition updateRow :: "run \<Rightarrow> runRow \<Rightarrow> runRow" where
  "updateRow r x = (toRow r)\<lparr>rr_retry_of := rr_retry_of x, rr_parent_run_id := rr_parent_run_id x\<rparr>"

definition upsertRun :: "run \<Rightarrow> runRow list \<Rightarrow> runRow list option" where
  "upsertRun r tab =
     (if \<exists>x\<in>set tab. rowKey x \<noteq> rowKey (toRow r) \<and> sameIdem x (toRow r) then None
      else if \<exists>x\<in>set tab. rowKey x = rowKey (toRow r) then Some (map (\<lambda>x. if rowKey x = rowKey (toRow r) then updateRow r x else x) tab)
      else Some (tab @ [toRow r]))"

definition Pg_Save :: "string option \<Rightarrow> dbRes \<Rightarrow> run \<Rightarrow> runRow list \<Rightarrow> pgErr option \<times> runRow list" where
  "Pg_Save mErr res r tab = (case mErr of Some e \<Rightarrow> (Some (PgMarshal e), tab) | None \<Rightarrow> execStmt res (upsertRun r tab) tab)"

definition Pg_Get :: "dbRes \<Rightarrow> string \<Rightarrow> string \<Rightarrow> runRow list \<Rightarrow> pgErr + run option" where
  "Pg_Get res tenantID runID tab =
     (if tenantID = [] \<or> runID = [] then Inr None
      else queryStmt res (map_option scanRun (find (\<lambda>x. rowKey x = (tenantID, runID)) tab)))"

definition Pg_GetByIdempotencyKey :: "dbRes \<Rightarrow> string \<Rightarrow> string \<Rightarrow> runRow list \<Rightarrow> pgErr + run option" where
  "Pg_GetByIdempotencyKey res tenantID ikey tab =
     (if tenantID = [] \<or> ikey = [] then Inr None
      else queryStmt res (map_option scanRun (find (\<lambda>x. rr_tenant_id x = tenantID \<and> rr_idempotency_key x = ikey) tab)))"

definition newestRows :: "runRow list \<Rightarrow> runRow list" where
  "newestRows xs = rev (sort_key rr_created_at (rev xs))"

definition defaultListLimit :: nat where "defaultListLimit = 1000"

definition Pg_List :: "dbRes \<Rightarrow> string \<Rightarrow> runRow list \<Rightarrow> pgErr + run list" where
  "Pg_List res tenantID tab =
     (if tenantID = [] then Inr []
      else queryStmt res (map scanRun (take defaultListLimit (newestRows (filter (\<lambda>x. rr_tenant_id x = tenantID) tab)))))"

definition agentRows :: "string \<Rightarrow> string \<Rightarrow> runRow list \<Rightarrow> runRow list" where
  "agentRows tenantID agentID tab = newestRows (filter (\<lambda>x. rr_tenant_id x = tenantID \<and> rr_agent_id x = agentID) tab)"

definition rowsAfter :: "string \<Rightarrow> string \<Rightarrow> runRow list \<Rightarrow> runRow list \<Rightarrow> runRow list" where
  "rowsAfter tenantID afterRunID tab xs =
     (case find (\<lambda>x. rowKey x = (tenantID, afterRunID)) tab of
        None \<Rightarrow> []
      | Some c \<Rightarrow> filter (\<lambda>x. rr_created_at x < rr_created_at c) xs)"

definition Pg_ListByAgent :: "dbRes \<Rightarrow> string \<Rightarrow> string \<Rightarrow> int \<Rightarrow> string \<Rightarrow> runRow list \<Rightarrow> pgErr + run list" where
  "Pg_ListByAgent res tenantID agentID limit afterRunID tab =
     (if tenantID = [] \<or> agentID = [] then Inr []
      else
        let lim' = nat (clampLimit limit); xs = agentRows tenantID agentID tab in
        queryStmt res (map scanRun (take lim' (if afterRunID \<noteq> [] then rowsAfter tenantID afterRunID tab xs else xs))))"

definition Pg_ListChildRuns :: "dbRes \<Rightarrow> string \<Rightarrow> string \<Rightarrow> runRow list \<Rightarrow> pgErr + run list" where
  "Pg_ListChildRuns res tenantID parentRunID tab =
     (if tenantID = [] \<or> parentRunID = [] then Inr []
      else queryStmt res (map scanRun (newestRows (filter (\<lambda>x. rr_tenant_id x = tenantID \<and>
             (rr_retry_of x = parentRunID \<or> rr_parent_run_id x = parentRunID)) tab))))"

inductive pg_run_step :: "runRow list \<Rightarrow> runRow list \<Rightarrow> bool" where
  prs_create: "pg_run_step tab (snd (Pg_Create mErr res r tab))"
| prs_save: "pg_run_step tab (snd (Pg_Save mErr res r tab))"

inductive_cases pg_run_stepE: "pg_run_step tab tab'"

definition runsTableOk :: "runRow list \<Rightarrow> bool" where
  "runsTableOk tab \<longleftrightarrow> distinct (map rowKey tab) \<and> (\<forall>x\<in>set tab. \<forall>y\<in>set tab. sameIdem x y \<longrightarrow> rowKey x = rowKey y) \<and>
     (\<forall>x\<in>set tab. rr_retry_of x = [] \<and> rr_parent_run_id x = [])"

fun pgFollow :: "nat \<Rightarrow> string \<Rightarrow> string \<Rightarrow> int \<Rightarrow> string \<Rightarrow> runRow list \<Rightarrow> run list" where
  "pgFollow 0 t a limit after tab = []"
| "pgFollow (Suc n) t a limit after tab =
     (case Pg_ListByAgent DbOk t a limit after tab of
        Inl e \<Rightarrow> []
      | Inr [] \<Rightarrow> []
      | Inr page \<Rightarrow> page @ pgFollow n t a limit (run_RunID (last page)) tab)"

subsection \<open>The run table keeps its indexes\<close>

lemma rowKey_toRow [simp]: "rowKey (toRow r) = (run_TenantID r, run_RunID r)"
  by (simp add: rowKey_def toRow_def)

lemma rowKey_updateRow [simp]: "rowKey (updateRow r x) = (run_TenantID r, run_RunID r)"
  by (simp add: rowKey_def updateRow_def toRow_def)

lemma sameIdem_updateRow [simp]: "sameIdem (updateRow r x) y \<longleftrightarrow> sameIdem (toRow r) y" "sameIdem y (updateRow r x) \<longleftrightarrow> sameIdem y (toRow r)"
  by (auto simp: sameIdem_def updateRow_def)

lemma sameIdem_sym: "sameIdem x y \<longleftrightarrow> sameIdem y x"
  by (auto simp: sameIdem_def)

lemma refs_toRow [simp]: "rr_retry_of (toRow r) = []" "rr_parent_run_id (toRow r) = []"
  "rr_retry_of (updateRow r x) = rr_retry_of x" "rr_parent_run_id (updateRow r x) = rr_parent_run_id x"
  by (simp_all add: toRow_def updateRow_def)

lemma append_row_ok:
  assumes "runsTableOk tab" "\<forall>x\<in>set tab. rowKey x \<noteq> rowKey (toRow r) \<and> \<not> sameIdem x (toRow r)"
  shows "runsTableOk (tab @ [toRow r])"
proof -
  have "\<forall>x\<in>set tab. \<not> sameIdem (toRow r) x" using assms(2) sameIdem_sym by blast
  then show ?thesis using assms by (auto simp: runsTableOk_def)
qed

lemma insertRun_ok: "runsTableOk tab \<Longrightarrow> insertRun r tab = Some tab' \<Longrightarrow> runsTableOk tab'"
  using append_row_ok[of tab r] by (auto simp: insertRun_def split: if_splits)

lemma replaced_keys: "map rowKey (map (\<lambda>x. if rowKey x = rowKey (toRow r) then updateRow r x else x) tab) = map rowKey tab"
  by (induction tab) auto

lemma upsertRun_ok:
  assumes ok: "runsTableOk tab" and up: "upsertRun r tab = Some tab'"
  shows "runsTableOk tab'"
proof (cases "\<exists>x\<in>set tab. rowKey x = rowKey (toRow r)")
  case False
  with up have "tab' = tab @ [toRow r]" "\<forall>x\<in>set tab. rowKey x \<noteq> rowKey (toRow r) \<and> \<not> sameIdem x (toRow r)"
    by (auto simp: upsertRun_def split: if_splits)
  then show ?thesis using append_row_ok[OF ok] by simp
next
  case True
  let ?f = "\<lambda>x. if rowKey x = rowKey (toRow r) then updateRow r x else x"
  have tab': "tab' = map ?f tab" and free: "\<forall>x\<in>set tab. rowKey x \<noteq> rowKey (toRow r) \<longrightarrow> \<not> sameIdem x (toRow r)"
    using up True by (auto simp: upsertRun_def split: if_splits)
  have "sameIdem (?f x) (?f y) \<longrightarrow> rowKey (?f x) = rowKey (?f y)" if "x \<in> set tab" "y \<in> set tab" for x y
    using ok free that by (cases "rowKey x = rowKey (toRow r)"; cases "rowKey y = rowKey (toRow r)") (auto simp: runsTableOk_def dest: sameIdem_sym[THEN iffD1])
  moreover have "distinct (map rowKey tab')" unfolding tab' replaced_keys using ok by (simp add: runsTableOk_def)
  moreover have "rr_retry_of (?f x) = [] \<and> rr_parent_run_id (?f x) = []" if "x \<in> set tab" for x
    using ok that by (simp add: runsTableOk_def)
  ultimately show ?thesis unfolding runsTableOk_def by (simp only: tab' set_map ball_simps) blast
qed

lemma execStmt_cases:
  "snd (execStmt res new s) = s \<or> new = Some (snd (execStmt res new s))"
  by (auto simp: execStmt_def split: dbRes.splits option.splits)

lemma execStmt_None: "fst (execStmt res new s) = None \<longleftrightarrow> res = DbOk \<and> new \<noteq> None"
  by (auto simp: execStmt_def split: dbRes.splits option.splits)

interpretation pg_runs: inv_system "\<lambda>tab. tab = []" pg_run_step runsTableOk
proof
  show "tab = [] \<Longrightarrow> runsTableOk tab" for tab by (simp add: runsTableOk_def)
  show "runsTableOk tab'" if ok: "runsTableOk tab" and st: "pg_run_step tab tab'" for tab tab'
    using st
  proof (rule pg_run_stepE)
    fix mErr res r
    assume "tab' = snd (Pg_Create mErr res r tab)"
    then show ?thesis using ok insertRun_ok[OF ok] execStmt_cases[of res "insertRun r tab" tab]
      by (auto simp: Pg_Create_def split: option.splits)
  next
    fix mErr res r
    assume "tab' = snd (Pg_Save mErr res r tab)"
    then show ?thesis using ok upsertRun_ok[OF ok] execStmt_cases[of res "upsertRun r tab" tab]
      by (auto simp: Pg_Save_def split: option.splits)
  qed
qed

subsection \<open>Reading back\<close>

lemma scan_toRow: "scanRun (toRow r) = readBackRun r"
  by (cases r) (auto simp: scanRun_def toRow_def readBackRun_def marshalNullable_def unmarshalCol_def split: option.splits)

lemma scan_updateRow: "scanRun (updateRow r x) = readBackRun r"
  using scan_toRow[of r] by (simp add: scanRun_def updateRow_def)

definition rowOf :: "runRow list \<Rightarrow> string \<Rightarrow> string \<Rightarrow> run option" where
  "rowOf tab t i = map_option scanRun (find (\<lambda>x. rowKey x = (t, i)) tab)"

lemma find_append: "find P (xs @ ys) = (case find P xs of None \<Rightarrow> find P ys | Some x \<Rightarrow> Some x)"
  by (induction xs) auto

lemma find_replaced:
  assumes "\<exists>x\<in>set tab. rowKey x = rowKey (toRow r)"
  shows "map_option scanRun (find (\<lambda>x. rowKey x = k) (map (\<lambda>x. if rowKey x = rowKey (toRow r) then updateRow r x else x) tab)) =
    (if k = rowKey (toRow r) then Some (readBackRun r) else map_option scanRun (find (\<lambda>x. rowKey x = k) tab))"
proof (cases "k = rowKey (toRow r)")
  case True
  then show ?thesis using assms by (induction tab) (auto simp: scan_updateRow simp del: map_option_eq_Some)
next
  case False
  then have "find (\<lambda>x. rowKey x = k) (map (\<lambda>x. if rowKey x = rowKey (toRow r) then updateRow r x else x) tab) = find (\<lambda>x. rowKey x = k) tab"
    by (induction tab) auto
  then show ?thesis using False by simp
qed

lemma upsertRun_rowOf:
  assumes "upsertRun r tab = Some tab'"
  shows "rowOf tab' = (rowOf tab)(run_TenantID r := (rowOf tab (run_TenantID r))(run_RunID r \<mapsto> readBackRun r))"
proof (cases "\<exists>x\<in>set tab. rowKey x = rowKey (toRow r)")
  case True
  then have "tab' = map (\<lambda>x. if rowKey x = rowKey (toRow r) then updateRow r x else x) tab"
    using assms by (auto simp: upsertRun_def split: if_splits)
  then show ?thesis by (simp only: rowOf_def fun_eq_iff find_replaced[OF True]) (auto simp: rowOf_def)
next
  case False
  then have t: "tab' = tab @ [toRow r]" using assms by (auto simp: upsertRun_def split: if_splits)
  have "find (\<lambda>x. rowKey x = rowKey (toRow r)) tab = None" using False by (auto simp: find_None_iff)
  then show ?thesis by (auto simp: t rowOf_def fun_eq_iff find_append scan_toRow split: option.splits)
qed

lemma insertRun_upsertRun: "insertRun r tab = Some tab' \<Longrightarrow> upsertRun r tab = Some tab'"
  by (auto simp: insertRun_def upsertRun_def split: if_splits)

lemma Pg_Get_rowOf: "t \<noteq> [] \<Longrightarrow> i \<noteq> [] \<Longrightarrow> Pg_Get DbOk t i tab = Inr (rowOf tab t i)"
  by (simp add: Pg_Get_def queryStmt_def rowOf_def)

lemma written_row:
  assumes "Pg_Create None res r tab = (None, tab') \<or> Pg_Save None res r tab = (None, tab')"
  shows "upsertRun r tab = Some tab'"
  using assms by (auto simp: Pg_Create_def Pg_Save_def execStmt_def insertRun_upsertRun split: dbRes.splits option.splits)

lemma written_cols:
  assumes "x = toRow r \<or> (\<exists>y. x = updateRow r y)"
  shows "scanRun x = readBackRun r \<and> rr_tenant_id x = run_TenantID r \<and> rr_idempotency_key x = run_IdempotencyKey r"
  using assms
proof
  assume "x = toRow r"
  then show ?thesis by (simp add: scan_toRow) (simp add: toRow_def)
next
  assume "\<exists>y. x = updateRow r y"
  then obtain y where "x = updateRow r y" ..
  then show ?thesis by (simp add: scan_updateRow) (simp add: updateRow_def toRow_def)
qed

lemma upsertRun_written:
  assumes up: "upsertRun r tab = Some tab'"
  shows "\<exists>x\<in>set tab'. scanRun x = readBackRun r \<and> rr_tenant_id x = run_TenantID r \<and> rr_idempotency_key x = run_IdempotencyKey r"
proof (cases "\<exists>x\<in>set tab. rowKey x = rowKey (toRow r)")
  case True
  then obtain y where "y \<in> set tab" "rowKey y = rowKey (toRow r)" by blast
  moreover have "tab' = map (\<lambda>x. if rowKey x = rowKey (toRow r) then updateRow r x else x) tab"
    using up True by (simp add: upsertRun_def split: if_splits)
  ultimately have "updateRow r y \<in> set tab'" by force
  then show ?thesis using written_cols by blast
next
  case False
  then have "toRow r \<in> set tab'" using up by (auto simp: upsertRun_def split: if_splits)
  then show ?thesis using written_cols by blast
qed

lemma upsertRun_idem:
  assumes ok: "runsTableOk tab'" and up: "upsertRun r tab = Some tab'" and key: "run_IdempotencyKey r \<noteq> []"
  shows "\<exists>x. find (\<lambda>x. rr_tenant_id x = run_TenantID r \<and> rr_idempotency_key x = run_IdempotencyKey r) tab' = Some x \<and> scanRun x = readBackRun r"
proof -
  obtain x where x: "x \<in> set tab'" "scanRun x = readBackRun r" "rr_tenant_id x = run_TenantID r" "rr_idempotency_key x = run_IdempotencyKey r"
    using upsertRun_written[OF up] by blast
  obtain y where y: "find (\<lambda>x. rr_tenant_id x = run_TenantID r \<and> rr_idempotency_key x = run_IdempotencyKey r) tab' = Some y"
    using x by (metis (mono_tags, lifting) find_None_iff not_None_eq)
  then have y': "y \<in> set tab'" "rr_tenant_id y = run_TenantID r" "rr_idempotency_key y = run_IdempotencyKey r"
    by (auto simp: find_Some_iff)
  have "sameIdem y x" using x y' key by (simp add: sameIdem_def)
  then have "rowKey y = rowKey x" using ok x(1) y'(1) by (auto simp: runsTableOk_def)
  then have "y = x" using ok x(1) y'(1) by (auto simp: runsTableOk_def distinct_map inj_on_def)
  then show ?thesis using y x(2) by blast
qed

subsection \<open>Pages\<close>

lemma set_newestRows [simp]: "set (newestRows xs) = set xs"
  by (simp add: newestRows_def)

lemma newestRows_distinct: "distinct (map f xs) \<Longrightarrow> distinct (map f (newestRows xs))"
  by (simp add: newestRows_def rev_map[symmetric] distinct_map)

lemma newestRows_desc:
  assumes "distinct (map rr_created_at xs)"
  shows "sorted_wrt (\<lambda>x y. rr_created_at y < rr_created_at x) (newestRows xs)"
proof -
  have "distinct (map rr_created_at (sort_key rr_created_at (rev xs)))" using assms by (simp add: distinct_map)
  moreover have "sorted (map rr_created_at (sort_key rr_created_at (rev xs)))" by simp
  ultimately have "sorted_wrt (<) (map rr_created_at (sort_key rr_created_at (rev xs)))" by (simp add: strict_sorted_iff)
  then show ?thesis by (simp add: newestRows_def sorted_wrt_rev sorted_wrt_map)
qed

lemma filter_below:
  assumes "sorted_wrt (\<lambda>x y. f y < (f x :: 'k :: linorder)) (us @ c # vs)"
  shows "filter (\<lambda>x. f x < f c) (us @ c # vs) = vs"
  using assms by (auto simp: sorted_wrt_append filter_empty_conv filter_id_conv)

lemma find_by_key:
  assumes "distinct (map k xs)" "c \<in> set xs"
  shows "find (\<lambda>x. k x = k c) xs = Some c"
  using assms by (induction xs) auto

lemma scanRun_id [simp]: "run_RunID (scanRun x) = rr_run_id x"
  by (simp add: scanRun_def)

lemma pgFollow_from:
  assumes ta: "t \<noteq> []" "a \<noteq> []" and ok: "runsTableOk tab" and ids: "\<forall>x\<in>set tab. rr_run_id x \<noteq> []"
    and desc: "sorted_wrt (\<lambda>x y. rr_created_at y < rr_created_at x) (agentRows t a tab)"
    and split: "agentRows t a tab = us @ vs" and n: "length vs < n"
    and cur: "(us = [] \<and> after = []) \<or> (\<exists>ws c. us = ws @ [c] \<and> after = rr_run_id c)"
  shows "pgFollow n t a limit after tab = map scanRun vs"
  using split n cur
proof (induction n arbitrary: us vs after)
  case (Suc n)
  define k where "k = nat (clampLimit limit)"
  have k: "0 < k" unfolding k_def by (rule clampLimit_pos)
  have mem: "x \<in> set tab" "rr_tenant_id x = t" if "x \<in> set (agentRows t a tab)" for x using that by (auto simp: agentRows_def)
  have "(if after \<noteq> [] then rowsAfter t after tab (agentRows t a tab) else agentRows t a tab) = vs"
    using Suc.prems(3)
  proof (elim disjE exE conjE)
    fix ws c
    assume c: "us = ws @ [c]" "after = rr_run_id c"
    then have cin: "c \<in> set (agentRows t a tab)" using Suc.prems(1) by auto
    have "find (\<lambda>x. rowKey x = (t, after)) tab = Some c"
      using find_by_key[of rowKey tab c] ok mem[OF cin] c(2) by (simp add: runsTableOk_def rowKey_def)
    moreover have "filter (\<lambda>x. rr_created_at x < rr_created_at c) (agentRows t a tab) = vs"
      using filter_below[of rr_created_at ws c vs] desc Suc.prems(1) c(1) by simp
    ultimately show ?thesis using ids mem[OF cin] c(2) by (auto simp: rowsAfter_def)
  qed (use Suc.prems(1) in simp)
  then have page: "Pg_ListByAgent DbOk t a limit after tab = Inr (map scanRun (take k vs))"
    using ta by (simp add: Pg_ListByAgent_def queryStmt_def Let_def k_def)
  show ?case
  proof (cases vs)
    case Nil
    then show ?thesis by (simp add: page)
  next
    case (Cons v vs')
    let ?p = "take k vs"
    have ne: "?p \<noteq> []" using k Cons by simp
    have "pgFollow n t a limit (rr_run_id (last ?p)) tab = map scanRun (drop k vs)"
    proof (rule Suc.IH)
      show "agentRows t a tab = (us @ ?p) @ drop k vs" using Suc.prems(1) by simp
      show "length (drop k vs) < n" using Suc.prems(2) k Cons by simp
      show "(us @ ?p = [] \<and> rr_run_id (last ?p) = []) \<or> (\<exists>ws c. us @ ?p = ws @ [c] \<and> rr_run_id (last ?p) = rr_run_id c)"
        using ne by (intro disjI2 exI[of _ "us @ butlast ?p"] exI[of _ "last ?p"]) simp
    qed
    moreover have "run_RunID (last (map scanRun ?p)) = rr_run_id (last ?p)" using ne by (simp add: last_map)
    moreover obtain q qs where q: "map scanRun ?p = q # qs" using ne by (cases "map scanRun ?p") auto
    moreover have "pgFollow (Suc n) t a limit after tab = map scanRun ?p @ pgFollow n t a limit (run_RunID (last (map scanRun ?p))) tab"
      by (simp add: page q)
    ultimately show ?thesis by (metis append_take_drop_id map_append)
  qed
qed simp

subsection \<open>Properties of the run table\<close>



lemma pg_read_after_write:
  assumes reach: "reachable (\<lambda>tab. tab = []) pg_run_step tab"
    and w: "Pg_Create None res r tab = (None, tab') \<or> Pg_Save None res r tab = (None, tab')"
    and ids: "run_TenantID r \<noteq> []" "run_RunID r \<noteq> []"
  shows "Pg_Get DbOk (run_TenantID r) (run_RunID r) tab' = Inr (Some (readBackRun r))"
    "t \<noteq> [] \<Longrightarrow> i \<noteq> [] \<Longrightarrow> (t, i) \<noteq> (run_TenantID r, run_RunID r) \<Longrightarrow> Pg_Get DbOk t i tab' = Pg_Get DbOk t i tab"
    "run_IdempotencyKey r \<noteq> [] \<Longrightarrow> Pg_GetByIdempotencyKey DbOk (run_TenantID r) (run_IdempotencyKey r) tab' = Inr (Some (readBackRun r))"
proof -
  have up: "upsertRun r tab = Some tab'" using w by (rule written_row)
  have ok: "runsTableOk tab'" using upsertRun_ok[OF pg_runs.inv_reachable[OF reach] up] .
  show "Pg_Get DbOk (run_TenantID r) (run_RunID r) tab' = Inr (Some (readBackRun r))"
    using ids by (simp add: Pg_Get_rowOf upsertRun_rowOf[OF up])
  show "t \<noteq> [] \<Longrightarrow> i \<noteq> [] \<Longrightarrow> (t, i) \<noteq> (run_TenantID r, run_RunID r) \<Longrightarrow> Pg_Get DbOk t i tab' = Pg_Get DbOk t i tab"
    by (auto simp: Pg_Get_rowOf upsertRun_rowOf[OF up])
  assume "run_IdempotencyKey r \<noteq> []"
  then show "Pg_GetByIdempotencyKey DbOk (run_TenantID r) (run_IdempotencyKey r) tab' = Inr (Some (readBackRun r))"
    using upsertRun_idem[OF ok up] ids(1) by (auto simp: Pg_GetByIdempotencyKey_def queryStmt_def)
qed

text \<open>What the code loses: the input, the parents, and the difference between no output or error and an empty one.\<close>

lemma pg_losses:
  assumes "reachable (\<lambda>tab. tab = []) pg_run_step tab" "Pg_Create None res r tab = (None, tab')" "run_TenantID r \<noteq> []" "run_RunID r \<noteq> []"
    and "run_Output r = None" "run_Error r = None"
  shows "\<exists>x. Pg_Get DbOk (run_TenantID r) (run_RunID r) tab' = Inr (Some x) \<and> run_Output x = Some zeroOutput \<and> run_Error x = Some zeroError \<and>
    run_Input x = zeroInput \<and> run_RetryOf x = [] \<and> run_ParentRunID x = []"
proof -
  have "Pg_Create None res r tab = (None, tab') \<or> Pg_Save None res r tab = (None, tab')" using assms(2) by blast
  from pg_read_after_write(1)[OF assms(1) this assms(3,4)] assms(5,6) show ?thesis by (simp add: readBackRun_def)
qed

lemma pg_no_children:
  assumes "reachable (\<lambda>tab. tab = []) pg_run_step tab"
  shows "Pg_ListChildRuns DbOk t i tab = Inr []"
  using pg_runs.inv_reachable[OF assms] by (auto simp: Pg_ListChildRuns_def queryStmt_def runsTableOk_def newestRows_def filter_empty_conv)


text \<open>Paging: when the runs of an agent have distinct creation times, a client that follows the cursor receives each of them
  exactly once, the newest first.\<close>

theorem pg_pages_complete:
  assumes "runsTableOk tab" "t \<noteq> []" "a \<noteq> []" "\<forall>x\<in>set tab. rr_run_id x \<noteq> []"
    and "distinct (map rr_created_at (filter (\<lambda>x. rr_tenant_id x = t \<and> rr_agent_id x = a) tab))" and "length tab < n"
  shows "pgFollow n t a limit [] tab = map scanRun (agentRows t a tab)"
proof (rule pgFollow_from[OF assms(2,3,1,4), where us = "[]"])
  show "sorted_wrt (\<lambda>x y. rr_created_at y < rr_created_at x) (agentRows t a tab)"
    unfolding agentRows_def by (rule newestRows_desc[OF assms(5)])
  have "length (agentRows t a tab) \<le> length tab" by (simp add: agentRows_def newestRows_def)
  then show "length (agentRows t a tab) < n" using assms(6) by simp
qed simp_all

text \<open>With equal times, the resolution being a second, the cursor skips runs.\<close>

definition burst :: "runRow list" where
  "burst = map toRow [sampleRun ''t'' ''a'' ''r1'' ''2024'', sampleRun ''t'' ''a'' ''r2'' ''2024'', sampleRun ''t'' ''a'' ''r3'' ''2024'']"

lemma same_second_skipped:
  "map run_RunID (pgFollow 9 ''t'' ''a'' 2 [] burst) = [''r1'', ''r2'']"
  by code_simp

lemma retry_loses_input:
  "map_option (ri_Text \<circ> run_Input) (rowOf [toRow (sampleRun ''t'' ''a'' ''r1'' ''2024'')] ''t'' ''r1'') = Some [] \<and>
   ri_Text (run_Input (sampleRun ''t'' ''a'' ''r1'' ''2024'')) = ''hi''"
  by code_simp


theorem pg_pages_complete_witness:
  "pgFollow 9 ''t'' ''a'' 1 [] (map toRow [sampleRun ''t'' ''a'' ''r1'' ''1'', sampleRun ''t'' ''a'' ''r2'' ''2'']) =
   map scanRun (agentRows ''t'' ''a'' (map toRow [sampleRun ''t'' ''a'' ''r1'' ''1'', sampleRun ''t'' ''a'' ''r2'' ''2'']))"
  by (rule pg_pages_complete) (simp_all add: toRow_def sampleRun_def runsTableOk_def rowKey_def sameIdem_def)

subsection \<open>The event log\<close>

record eventRow =
  er_event_id :: string
  er_sequence :: int
  er_event_type :: string
  er_tenant_id :: string
  er_run_id :: string
  er_agent_id :: string
  er_payload :: "(string, json) gomap"
  er_created_at :: string

definition toEventRow :: "string \<Rightarrow> event \<Rightarrow> eventRow" where
  "toEventRow created e = \<lparr>er_event_id = ev_EventID e, er_sequence = ev_Sequence e, er_event_type = ev_Type e, er_tenant_id = ev_TenantID e,
     er_run_id = ev_RunID e, er_agent_id = ev_AgentID e, er_payload = ev_Payload e, er_created_at = created\<rparr>"

definition scanEvent :: "eventRow \<Rightarrow> event" where
  "scanEvent x = \<lparr>ev_EventID = er_event_id x, ev_Sequence = er_sequence x, ev_Time = er_created_at x, ev_Type = er_event_type x,
     ev_TenantID = er_tenant_id x, ev_AgentID = er_agent_id x, ev_RunID = er_run_id x, ev_StepID = [],
     ev_Trace = \<lparr>tc_Traceparent = [], tc_SpanID = [], tc_Tracestate = []\<rparr>, ev_Payload = er_payload x\<rparr>"

definition subKey :: "string \<Rightarrow> string \<Rightarrow> string" where
  "subKey tenantID runID = tenantID @ '':'' @ runID"

definition insertEvent :: "string \<Rightarrow> event \<Rightarrow> eventRow list \<Rightarrow> eventRow list option" where
  "insertEvent created e tab = (if ev_EventID e \<in> er_event_id ` set tab then None else Some (tab @ [toEventRow created e]))"

definition PgLog_Append ::
  "string option \<Rightarrow> dbRes \<Rightarrow> dbRes \<Rightarrow> string \<Rightarrow> event \<Rightarrow> eventRow list \<Rightarrow> pgErr option \<times> eventRow list \<times> string option" where
  "PgLog_Append mErr res notifyRes created e tab =
     (case mErr of
        Some err \<Rightarrow> (Some (PgMarshal err), tab, None)
      | None \<Rightarrow>
          (case execStmt res (insertEvent created e tab) tab of
             (Some err, tab') \<Rightarrow> (Some err, tab', None)
           | (None, tab') \<Rightarrow>
               (None, tab', case notifyRes of DbFail _ \<Rightarrow> None | _ \<Rightarrow> Some (subKey (ev_TenantID e) (ev_RunID e)))))"

definition runEvents :: "string \<Rightarrow> string \<Rightarrow> int \<Rightarrow> eventRow list \<Rightarrow> event list" where
  "runEvents tenantID runID after tab =
     map scanEvent (sort_key er_sequence (filter (\<lambda>x. er_tenant_id x = tenantID \<and> er_run_id x = runID \<and> er_sequence x > after) tab))"

definition PgLog_QueryFromSequence :: "dbRes \<Rightarrow> string \<Rightarrow> string \<Rightarrow> int \<Rightarrow> eventRow list \<Rightarrow> pgErr + event list" where
  "PgLog_QueryFromSequence res tenantID runID after tab = queryStmt res (runEvents tenantID runID after tab)"

subsubsection \<open>Subscribers\<close>

definition maxSubscriptions :: nat where "maxSubscriptions = 1000"

record pgChan =
  pc_buf :: "event list"
  pc_closed :: bool

record pgSubs =
  ps_subscribers :: "(string, nat list) gomap"
  ps_subCount :: nat
  ps_chans :: "pgChan list"

definition Pg_Subscribe :: "string \<Rightarrow> string \<Rightarrow> pgSubs \<Rightarrow> (nat \<times> pgSubs) option" where
  "Pg_Subscribe tenantID runID s =
     (if ps_subCount s \<ge> maxSubscriptions then None
      else
        let ch = length (ps_chans s); key = subKey tenantID runID in
        Some (ch, s\<lparr>ps_chans := ps_chans s @ [\<lparr>pc_buf = [], pc_closed = False\<rparr>],
                   ps_subscribers := mput key (zget [] (ps_subscribers s) key @ [ch]) (ps_subscribers s), ps_subCount := ps_subCount s + 1\<rparr>))"

definition dropEmpty :: "string \<Rightarrow> pgSubs \<Rightarrow> pgSubs" where
  "dropEmpty key s = (if zget [] (ps_subscribers s) key = [] then s\<lparr>ps_subscribers := mdel key (ps_subscribers s)\<rparr> else s)"

definition unsub :: "string \<Rightarrow> nat \<Rightarrow> pgSubs \<Rightarrow> pgSubs option" where
  "unsub key ch s =
     (let subs = zget [] (ps_subscribers s) key in
      if ch \<in> set subs
      then if pc_closed (ps_chans s ! ch) then None
           else Some (dropEmpty key (s\<lparr>ps_subscribers := mput key (remove1 ch subs) (ps_subscribers s), ps_subCount := ps_subCount s - 1,
                        ps_chans := (ps_chans s)[ch := (ps_chans s ! ch)\<lparr>pc_closed := True\<rparr>]\<rparr>))
      else Some (dropEmpty key s))"

definition trySend :: "nat \<Rightarrow> event \<Rightarrow> pgSubs \<Rightarrow> pgSubs option" where
  "trySend ch e s =
     (let c = ps_chans s ! ch in
      if pc_closed c then None
      else if length (pc_buf c) < 64 then Some (s\<lparr>ps_chans := (ps_chans s)[ch := c\<lparr>pc_buf := pc_buf c @ [e]\<rparr>]\<rparr>)
      else Some s)"

definition fanSnapshot :: "string \<Rightarrow> pgSubs \<Rightarrow> nat list" where
  "fanSnapshot key s = zget [] (ps_subscribers s) key"

fun sendAll :: "(nat \<times> event) list \<Rightarrow> pgSubs \<Rightarrow> pgSubs option" where
  "sendAll [] s = Some s"
| "sendAll ((ch, e) # xs) s = (case trySend ch e s of None \<Rightarrow> None | Some s' \<Rightarrow> sendAll xs s')"

definition fanOut :: "(pgSubs \<Rightarrow> pgSubs) \<Rightarrow> string \<Rightarrow> event list \<Rightarrow> pgSubs \<Rightarrow> pgSubs option" where
  "fanOut others key evs s = sendAll (List.product (fanSnapshot key s) evs) (others s)"

subsubsection \<open>The listener\<close>

record listenState =
  ls_lastSeq :: "(string, int) gomap"
  ls_order :: "string list"

fun splitSubKey :: "string \<Rightarrow> string \<times> string" where
  "splitSubKey [] = ([], [])"
| "splitSubKey (c # cs) = (if c = CHR '':'' then ([], cs) else
     case splitSubKey cs of (t, r) \<Rightarrow> if CHR '':'' \<in> set cs then (c # t, r) else ([], []))"

fun evictSeq :: "string list \<Rightarrow> (string, int) gomap \<Rightarrow> string list \<times> (string, int) gomap" where
  "evictSeq [] m = ([], m)"
| "evictSeq (k # ks) m = (if length (k # ks) \<ge> maxSubscriptions then evictSeq ks (mdel k m) else (k # ks, m))"

definition rememberSeq :: "string \<Rightarrow> int \<Rightarrow> listenState \<Rightarrow> listenState" where
  "rememberSeq key seq ls =
     (let (order, m) = (if mget (ls_lastSeq ls) key \<noteq> None then (ls_order ls, ls_lastSeq ls)
                        else let (o', m') = evictSeq (ls_order ls) (ls_lastSeq ls) in (o' @ [key], m')) in
      ls\<lparr>ls_lastSeq := mput key seq m, ls_order := order\<rparr>)"

definition listenStep :: "(string \<Rightarrow> string \<Rightarrow> int \<Rightarrow> pgErr + event list) \<Rightarrow> string option \<Rightarrow> listenState \<Rightarrow> (string \<times> event list) option \<times> listenState" where
  "listenStep query n ls =
     (case n of
        None \<Rightarrow> (None, ls)
      | Some key \<Rightarrow>
          let (t, r) = splitSubKey key in
          if t = [] \<or> r = [] then (None, ls)
          else
            (case query t r (zget 0 (ls_lastSeq ls) key) of
               Inl _ \<Rightarrow> (None, ls)
             | Inr evs \<Rightarrow>
                 if evs = [] then (None, ls)
                 else (Some (key, evs), rememberSeq key (ev_Sequence (last evs)) ls)))"

subsection \<open>Subscriptions are counted\<close>

definition subIds :: "pgSubs \<Rightarrow> nat list" where
  "subIds s = concat (map snd (ps_subscribers s))"

definition subsOk :: "pgSubs \<Rightarrow> bool" where
  "subsOk s \<longleftrightarrow> gwf (ps_subscribers s) \<and> distinct (subIds s) \<and> length (subIds s) = ps_subCount s \<and> ps_subCount s \<le> maxSubscriptions \<and>
     (\<forall>ch\<in>set (subIds s). ch < length (ps_chans s) \<and> \<not> pc_closed (ps_chans s ! ch))"

lemma mset_concat_mput: "mset (concat (map snd (mput k v m))) + mset (zget [] m k) = mset (concat (map snd m)) + mset v"
  by (induction m) (auto simp: mput_def zget_def mget_def ac_simps)

lemma mset_concat_mdel:
  "gwf m \<Longrightarrow> mset (concat (map snd (mdel k m))) + mset (zget [] m k) = mset (concat (map snd m))"
proof (induction m)
  case (Cons x m)
  have "k \<notin> fst ` set m \<Longrightarrow> AList.delete k m = m" by (simp add: delete_id)
  moreover have "k \<notin> fst ` set m \<Longrightarrow> map_of m k = None" by (simp add: map_of_eq_None_iff)
  ultimately show ?case using Cons by (cases x) (auto simp: mdel_def zget_def mget_def gwf_def ac_simps)
qed (simp add: mdel_def zget_def mget_def)

lemma zget_subIds: "ch \<in> set (zget [] (ps_subscribers s) key) \<Longrightarrow> ch \<in> set (subIds s)"
proof (cases "mget (ps_subscribers s) key")
  case (Some v)
  assume "ch \<in> set (zget [] (ps_subscribers s) key)"
  then show "ch \<in> set (subIds s)" using mget_in_set[OF Some] Some by (force simp: zget_def subIds_def)
qed (simp add: zget_def)

lemma subsOk_mset:
  assumes "subsOk s" "gwf (ps_subscribers s')" "mset (subIds s') = mset (subIds s)" "ps_subCount s' = ps_subCount s" "ps_chans s' = ps_chans s"
  shows "subsOk s'"
  using assms mset_eq_imp_distinct_iff[OF assms(3)] mset_eq_length[OF assms(3)] mset_eq_setD[OF assms(3)] by (simp add: subsOk_def)

lemma dropEmpty_ok: "subsOk s \<Longrightarrow> subsOk (dropEmpty key s)"
proof (cases "zget [] (ps_subscribers s) key = []")
  case True
  assume ok: "subsOk s"
  then have "gwf (ps_subscribers s)" by (simp add: subsOk_def)
  then show ?thesis using True mset_concat_mdel[of "ps_subscribers s" key] by (intro subsOk_mset[OF ok]) (auto simp: dropEmpty_def subIds_def)
qed (simp add: dropEmpty_def)

lemma Subscribe_ok:
  assumes ok: "subsOk s" and sub: "Pg_Subscribe t r s = Some (ch, s')"
  shows "subsOk s' \<and> ch \<in> set (fanSnapshot (subKey t r) s') \<and> ch \<notin> set (subIds s)"
proof -
  let ?k = "subKey t r"
  have s': "ch = length (ps_chans s)" "ps_subCount s < maxSubscriptions"
    "s' = s\<lparr>ps_chans := ps_chans s @ [\<lparr>pc_buf = [], pc_closed = False\<rparr>],
            ps_subscribers := mput ?k (zget [] (ps_subscribers s) ?k @ [ch]) (ps_subscribers s), ps_subCount := ps_subCount s + 1\<rparr>"
    using sub by (auto simp: Pg_Subscribe_def Let_def split: if_splits)
  have m: "mset (subIds s') = mset (ch # subIds s)"
    using mset_concat_mput[of ?k "zget [] (ps_subscribers s) ?k @ [ch]" "ps_subscribers s"] by (simp add: s'(3) subIds_def)
  have new: "ch \<notin> set (subIds s)" using ok s'(1) by (auto simp: subsOk_def)
  have "distinct (subIds s')" using mset_eq_imp_distinct_iff[OF m] new ok by (simp add: subsOk_def)
  moreover have "length (subIds s') = ps_subCount s'" using mset_eq_length[OF m] ok s'(3) by (simp add: subsOk_def)
  moreover have "set (subIds s') = insert ch (set (subIds s))" using mset_eq_setD[OF m] by simp
  then have "\<forall>c\<in>set (subIds s'). c < length (ps_chans s') \<and> \<not> pc_closed (ps_chans s' ! c)"
    using ok s' by (auto simp: subsOk_def nth_append)
  ultimately show ?thesis using ok s' new by (simp add: subsOk_def fanSnapshot_def zget_def)
qed

lemma unsub_ok:
  assumes ok: "subsOk s"
  shows "\<exists>s'. unsub key ch s = Some s' \<and> subsOk s' \<and> (ch \<in> set (fanSnapshot key s) \<longrightarrow> Suc (ps_subCount s') = ps_subCount s)"
proof (cases "ch \<in> set (zget [] (ps_subscribers s) key)")
  case False
  then show ?thesis using dropEmpty_ok[OF ok] by (simp add: unsub_def fanSnapshot_def)
next
  case True
  define s1 where "s1 = s\<lparr>ps_subscribers := mput key (remove1 ch (zget [] (ps_subscribers s) key)) (ps_subscribers s), ps_subCount := ps_subCount s - 1,
    ps_chans := (ps_chans s)[ch := (ps_chans s ! ch)\<lparr>pc_closed := True\<rparr>]\<rparr>"
  have mem: "ch \<in> set (subIds s)" using True by (rule zget_subIds)
  have m: "mset (ch # subIds s1) = mset (subIds s)"
  proof -
    have z: "mset (zget [] (ps_subscribers s) key) = add_mset ch (mset (remove1 ch (zget [] (ps_subscribers s) key)))" using True by simp
    show ?thesis
      using mset_concat_mput[of key "remove1 ch (zget [] (ps_subscribers s) key)" "ps_subscribers s"] unfolding z by (simp add: s1_def subIds_def)
  qed
  have d: "distinct (ch # subIds s1)" using mset_eq_imp_distinct_iff[OF m] ok by (simp add: subsOk_def)
  have l: "Suc (length (subIds s1)) = ps_subCount s" using mset_eq_length[OF m] ok by (simp add: subsOk_def)
  have sub: "set (subIds s1) \<subseteq> set (subIds s)" using mset_eq_setD[OF m] by auto
  have "c < length (ps_chans s1) \<and> \<not> pc_closed (ps_chans s1 ! c)" if c: "c \<in> set (subIds s1)" for c
  proof -
    have "c \<noteq> ch" "c \<in> set (subIds s)" using c d sub by auto
    then show ?thesis using ok by (simp add: subsOk_def s1_def)
  qed
  moreover have "gwf (ps_subscribers s1)" "ps_subCount s1 = ps_subCount s - 1" using ok by (simp_all add: s1_def subsOk_def)
  ultimately have "subsOk s1" using ok d l by (auto simp: subsOk_def)
  moreover have "unsub key ch s = Some (dropEmpty key s1)" using True mem ok by (simp add: unsub_def s1_def subsOk_def)
  ultimately show ?thesis using l dropEmpty_ok[of s1 key] ok by (auto simp: dropEmpty_def s1_def subsOk_def)
qed

lemma trySend_open:
  assumes "subsOk s" "ch \<in> set (subIds s)"
  shows "\<exists>s'. trySend ch e s = Some s' \<and> subsOk s' \<and> subIds s' = subIds s"
proof (cases "length (pc_buf (ps_chans s ! ch)) < 64")
  case True
  let ?s = "s\<lparr>ps_chans := (ps_chans s)[ch := (ps_chans s ! ch)\<lparr>pc_buf := pc_buf (ps_chans s ! ch) @ [e]\<rparr>]\<rparr>"
  have ids: "subIds ?s = subIds s" by (simp add: subIds_def)
  have "\<forall>c\<in>set (subIds s). c < length (ps_chans ?s) \<and> \<not> pc_closed (ps_chans ?s ! c)"
    using assms by (auto simp: subsOk_def nth_list_update)
  then show ?thesis using True assms ids by (auto simp: trySend_def Let_def subsOk_def)
qed (use assms in \<open>auto simp: trySend_def Let_def subsOk_def\<close>)

lemma sendAll_open:
  "subsOk s \<Longrightarrow> fst ` set xs \<subseteq> set (subIds s) \<Longrightarrow> \<exists>s'. sendAll xs s = Some s' \<and> subsOk s'"
proof (induction xs arbitrary: s)
  case (Cons x xs)
  obtain ch e where x: "x = (ch, e)" by (cases x)
  with trySend_open[OF Cons.prems(1), of ch e] Cons.prems(2) obtain s' where
    "trySend ch e s = Some s'" "subsOk s'" "subIds s' = subIds s" by auto
  with Cons.IH[of s'] Cons.prems(2) x show ?case by auto
qed simp

text \<open>The subscriber table never exceeds its bound, a second call of the unsubscribe function changes nothing, and a
  fan-out that no one disturbs does not panic. An unsubscription between the copy of the channels and the sends does.\<close>

lemma fanOut_undisturbed: "subsOk s \<Longrightarrow> \<exists>s'. fanOut (\<lambda>s. s) key evs s = Some s' \<and> subsOk s'"
  unfolding fanOut_def by (rule sendAll_open) (auto simp: fanSnapshot_def dest: zget_subIds)

lemma fanOut_unsub_panics:
  "(case Pg_Subscribe ''t'' ''r'' \<lparr>ps_subscribers = [], ps_subCount = 0, ps_chans = []\<rparr> of
      None \<Rightarrow> False
    | Some (ch, s) \<Rightarrow> fanOut (\<lambda>s. the (unsub ''t:r'' ch s)) ''t:r'' [sampleEvent ''t'' ''r'' 1] s = None)"
  by code_simp

subsection \<open>What the listener delivers\<close>

lemma splitSubKey_subKey: "CHR '':'' \<notin> set t \<Longrightarrow> splitSubKey (subKey t r) = (t, r)"
  by (induction t) (auto simp: subKey_def)

lemma subKey_ambiguous: "subKey ''a:b'' ''r'' = subKey ''a'' ''b:r''"
  by (simp add: subKey_def)

lemma sort_key_append:
  assumes "\<forall>x\<in>set xs. \<forall>y\<in>set ys. f x \<le> (f y :: 'k :: linorder)"
  shows "sort_key f (xs @ ys) = sort_key f xs @ sort_key f ys"
proof (rule properties_for_sort_key)
  show "filter (\<lambda>x. f k = f x) (sort_key f xs @ sort_key f ys) = filter (\<lambda>x. f k = f x) (xs @ ys)" for k
    using sort_key_stable[of f "f k"] by (simp add: eq_commute[of "f k"])
qed (use assms in \<open>auto simp: sorted_append\<close>)

lemma runEvents_later:
  assumes "\<forall>x\<in>set tab. er_tenant_id x = t \<and> er_run_id x = r \<and> after < er_sequence x \<longrightarrow> er_sequence x \<le> m"
    "\<forall>x\<in>set new. er_tenant_id x = t \<and> er_run_id x = r \<longrightarrow> m < er_sequence x" "after \<le> m"
  shows "runEvents t r after (tab @ new) = runEvents t r after tab @ runEvents t r m (tab @ new)"
proof -
  let ?P = "\<lambda>n x. er_tenant_id x = t \<and> er_run_id x = r \<and> er_sequence x > n"
  have n: "filter (?P m) tab = []" "filter (?P after) new = filter (?P m) new"
    using assms by (auto simp: filter_empty_conv intro!: filter_cong dest: order.strict_trans1)
  let ?xs = "sort_key er_sequence (filter (?P after) tab)" and ?ys = "sort_key er_sequence (filter (?P m) new)"
  have "sort_key er_sequence (filter (?P after) tab @ filter (?P m) new) = ?xs @ ?ys"
    by (rule sort_key_append) (use assms(1) in \<open>auto dest: order.strict_trans1\<close>)
  then show ?thesis by (simp add: runEvents_def n)
qed

text \<open>A notification with nothing new, or one that names no run, changes nothing; otherwise the listener hands on the
  events of the run after the last one it delivered, in order, and remembers the last of them. It keeps at most
  \<open>maxSubscriptions\<close> positions.\<close>

definition listenOk :: "listenState \<Rightarrow> bool" where
  "listenOk ls \<longleftrightarrow> distinct (ls_order ls) \<and> set (ls_order ls) = fst ` set (ls_lastSeq ls) \<and> length (ls_order ls) \<le> maxSubscriptions"

lemma evictSeq_ok:
  "distinct ks \<Longrightarrow> set ks = fst ` set m \<Longrightarrow> evictSeq ks m = (ks', m') \<Longrightarrow>
   distinct ks' \<and> set ks' = fst ` set m' \<and> length ks' < maxSubscriptions \<and> set ks' \<subseteq> set ks"
proof (induction ks m rule: evictSeq.induct)
  case (2 k ks m)
  have k: "set ks = fst ` set (mdel k m)" "distinct ks" using 2 by auto
  show ?case
  proof (cases "length (k # ks) \<ge> maxSubscriptions")
    case True
    from 2(1)[OF True k(2,1)] 2(4) True show ?thesis by auto
  next
    case False
    then have "ks' = k # ks" "m' = m" using 2(4) by auto
    then show ?thesis using 2(2,3) False by (simp add: not_le)
  qed
qed (simp add: maxSubscriptions_def)

lemma rememberSeq_ok:
  assumes "listenOk ls"
  shows "listenOk (rememberSeq key seq ls)"
proof -
  obtain o' m' where e: "evictSeq (ls_order ls) (ls_lastSeq ls) = (o', m')" by fastforce
  have "distinct o' \<and> set o' = fst ` set m' \<and> length o' < maxSubscriptions \<and> set o' \<subseteq> set (ls_order ls)"
    using assms e by (intro evictSeq_ok[of "ls_order ls" "ls_lastSeq ls"]) (simp_all add: listenOk_def)
  moreover have "mget (ls_lastSeq ls) key = None \<longleftrightarrow> key \<notin> set (ls_order ls)"
    using assms by (simp add: listenOk_def mget_None_iff)
  ultimately show ?thesis using assms by (auto simp: rememberSeq_def e listenOk_def)
qed

lemma listenStep_ok: "listenOk ls \<Longrightarrow> listenOk (snd (listenStep query n ls))"
  using rememberSeq_ok by (auto simp: listenStep_def Let_def split: option.splits prod.splits sum.splits)

lemma rememberSeq_get: "zget 0 (ls_lastSeq (rememberSeq key seq ls)) key = seq"
  by (simp add: rememberSeq_def zget_def Let_def split: prod.splits)

lemma sorted_le_last: "sorted (map f xs) \<Longrightarrow> x \<in> set xs \<Longrightarrow> f x \<le> (f (last xs) :: 'k :: linorder)"
  by (induction xs) auto

text \<open>Delivery by the listener: if the positions it holds are up to date (everything of the run up to the remembered
  sequence number has been handed on) and the table has since grown by later events only, the next notification hands on
  exactly the missing events.\<close>

theorem listener_exact:
  assumes plain: "CHR '':'' \<notin> set t" "t \<noteq> []" "r \<noteq> []"
    and upto: "\<forall>x\<in>set tab. er_tenant_id x = t \<and> er_run_id x = r \<longrightarrow> er_sequence x \<le> zget 0 (ls_lastSeq ls) (subKey t r)"
    and later: "\<forall>x\<in>set new. er_tenant_id x = t \<and> er_run_id x = r \<longrightarrow> zget 0 (ls_lastSeq ls) (subKey t r) < er_sequence x"
    and pos: "0 \<le> zget 0 (ls_lastSeq ls) (subKey t r)"
    and step: "listenStep (\<lambda>t r a. PgLog_QueryFromSequence DbOk t r a (tab @ new)) (Some (subKey t r)) ls = (out, ls')"
  shows "runEvents t r 0 (tab @ new) = runEvents t r 0 tab @ (case out of None \<Rightarrow> [] | Some (key, evs) \<Rightarrow> evs) \<and>
    (\<forall>x\<in>set (tab @ new). er_tenant_id x = t \<and> er_run_id x = r \<longrightarrow> er_sequence x \<le> zget 0 (ls_lastSeq ls') (subKey t r))"
proof -
  let ?m = "zget 0 (ls_lastSeq ls) (subKey t r)"
  define evs where "evs = runEvents t r ?m (tab @ new)"
  have split: "runEvents t r 0 (tab @ new) = runEvents t r 0 tab @ evs"
    unfolding evs_def using upto later pos by (intro runEvents_later) auto
  have out: "(out, ls') = (if evs = [] then (None, ls) else (Some (subKey t r, evs), ls'))"
    "evs \<noteq> [] \<Longrightarrow> zget 0 (ls_lastSeq ls') (subKey t r) = ev_Sequence (last evs)"
    using step plain
    by (auto simp: listenStep_def splitSubKey_subKey PgLog_QueryFromSequence_def queryStmt_def rememberSeq_get evs_def split: if_splits)
  let ?ys = "sort_key er_sequence (filter (\<lambda>x. er_tenant_id x = t \<and> er_run_id x = r \<and> ?m < er_sequence x) (tab @ new))"
  have evs: "evs = map scanEvent ?ys" by (simp add: evs_def runEvents_def)
  have "er_sequence x \<le> zget 0 (ls_lastSeq ls') (subKey t r)"
    if x: "x \<in> set (tab @ new)" "er_tenant_id x = t" "er_run_id x = r" for x
  proof (cases "evs = []")
    case True
    then have "set ?ys = {}" using evs by simp
    then have "\<not> ?m < er_sequence x" using x by auto
    then show ?thesis using out(1) True by simp
  next
    case False
    then have ne: "?ys \<noteq> []" using evs by auto
    have l: "zget 0 (ls_lastSeq ls') (subKey t r) = er_sequence (last ?ys)"
      using out(2)[OF False] ne by (simp add: evs last_map scanEvent_def)
    have "er_sequence y \<le> er_sequence (last ?ys)" if "y \<in> set ?ys" for y
      using that by (intro sorted_le_last) simp_all
    moreover have "\<forall>y\<in>set ?ys. ?m < er_sequence y" by auto
    then have "?m < er_sequence (last ?ys)" using last_in_set[OF ne] by blast
    ultimately show ?thesis using x l by (cases "?m < er_sequence x") auto
  qed
  then show ?thesis using split out(1) by (auto split: if_splits)
qed

end
