(* ===== verification/Spec2Isabelle.thy ===== *)
theory Spec2Isabelle
  imports Jobs_Queue Quota_Limiter Resilience MCP_Server Run_Store Event_Sink Agent_Stores Run_Service Math_Eval Federation Run_Streams Http_Fetch Agent_Versions Data_Lifecycle Intent_Routing Chat_Completions Model_Providers MCP_Chat_Tool Containers Agent_Memory Agent_Control Meta_Tools Local_Tools Postgres_Runs
begin

text \<open>
  AgentOS: a verification development.

  The program. AgentOS is a Go server that runs LLM agents for many tenants. An HTTP layer (agentorchestrator/server.go)
  authenticates requests, checks roles and quotas, and stores runs; an executor (agentorchestrator/executor.go,
  agent_loop.go) takes the queued runs and alternates model calls (modelpolicy/) with tool calls (internal/tools/),
  writing events to a per-run sink (events.go) that is replayed and streamed to clients. A second entry point is the MCP
  server (mcp/), whose tools are guarded by clearances and by a governance engine (internal/governance/). A federation
  service (federation/) forwards runs to peer stacks and relays their events. Background jobs (internal/jobs/), file
  stores (internal/storage/) and detectors of personal data (internal/pii/) support these.

  Conventions, used in every theory.
  \<^item> Go maps are association lists with distinct keys (\<open>gomap\<close>), so that iteration order is a value and can be quantified
    over; structs are records, enums and error kinds datatypes, strings lists of bytes.
  \<^item> State is passed explicitly. Whatever the program asks of the outside (clock, fresh identifiers, random draws, the
    outcome of a file write, of a database statement, of an HTTP exchange or of a model call, the cancellation of a
    context) is an argument, per call or per step, and the theorems quantify over it.
  \<^item> Errors are values: every early return of the code is a branch of a sum or option; a Go panic (index out of range,
    send on a closed channel, division by zero) is the value None wherever the source could reach one, and the theorems
    show it unreachable or name the input that reaches it.
  \<^item> Third-party code (golang-jwt, bcrypt, YAML) and the services behind it are arguments, with documented behaviour as
    named hypotheses.

  Theories, and the part of src/ each of them models.
  \<^item> \<open>AgentOS_Prelude\<close>: Go maps, strings, JSON values, HTTP errors; locales for keyed stores and for invariants of step
    relations.
  \<^item> \<open>Jobs_Queue\<close>: internal/jobs. \<open>memoryQueue\<close> with its operations, the worker's poll and loop over the interface
    (locale \<open>job_queue\<close>). No job stays running, the queue keeps its bound in every reachable state.
  \<^item> \<open>Quota_Limiter\<close>: internal/quota. Token buckets, concurrency slots, token budgets (locale \<open>quota_backend\<close>). Rate
    bound of a bucket over any interval, refinement of an ideal bucket, bounded slots.
  \<^item> \<open>Resilience\<close>: modelpolicy/resilience.go. The circuit breaker and the retry loop of a provider call.
  \<^item> \<open>Governance\<close>: internal/governance. The engine, its trackers behind locales, kill switch, registry and loader checks.
    Checks fail closed, hourly limits hold over any history, the kill switch takes effect at once.
  \<^item> \<open>Auth_Access\<close>: internal/auth, internal/middleware, and the member and key tables of internal/storage/postgres. The
    middlewares admit only authenticated, permitted requests; a revoked key is refused.
  \<^item> \<open>MCP_Server\<close>: mcp/server.go, registry.go, auth.go, facets. A tool runs only for an authorised identity and, where
    a governance engine is loaded, with its permission for the very arguments, and its result is fed back exactly once.
  \<^item> \<open>Run_Store\<close>: internal/storage/file_run_store.go, event_log_store.go (locale \<open>run_store\<close>). Lookup and eviction laws,
    pagination complete for distinct creation times, exact replay.
  \<^item> \<open>Event_Sink\<close>: agentorchestrator/events.go. Gapless numbering, what a subscriber receives, absence of channel panics.
  \<^item> \<open>Agent_Stores\<close>: conversation memory, key-value store, agent registry of internal/storage.
  \<^item> \<open>Run_Executor\<close>: agentorchestrator/agent_loop.go, executor.go, prompt.go, internal/tools/registry.go. The loop of one
    job under arbitrary interference; it always ends the run, respects cancellation, and sends nothing that the PII
    policy blocks.
  \<^item> \<open>Run_Handlers\<close>, \<open>Run_Service\<close>: the run handlers of agentorchestrator/server.go, and their interleaving with the
    workers. Admission, idempotent creation, cascading cancel, guarded routes.
  \<^item> \<open>Run_Streams\<close>: the sink table, handleEvents and handleStream. The stream delivers the log exactly once and in order.
  \<^item> \<open>Pii\<close>: internal/pii, with a model of leftmost-first regular expression matching. The scan misses nothing, redaction
    equals masking.
  \<^item> \<open>Math_Eval\<close>: internal/tools/math_eval.go. The evaluating parser against printed expressions, totality.
  \<^item> \<open>Fed_Stores\<close>, \<open>Federation\<close>: federation/. Forward index, event store, SSE relay, peer registry, forwarder, JWT gate,
    handlers.
  \<^item> \<open>Ssrf\<close>, \<open>Http_Fetch\<close>: internal/ssrf, internal/httpfetch, internal/tools/http_fetch.go and webhook_tool.go,
    mcp/tools/http.go. Private ranges as intervals; every dialled address and every redirect is checked; reads respect the
    size limit.
  \<^item> \<open>Cursor_Paging\<close>: the contract of listings with a cursor (locale \<open>cursor_paging\<close>), interpreted by the handlers that page.
  \<^item> \<open>Agent_Versions\<close>: the agent handlers of agentorchestrator/server.go and the snapshot store. What a rollback restores,
    complete listing of agents.
  \<^item> \<open>Tenant_Admin\<close>: internal/tenants/store.go and the handlers for tenants, keys, members and agent data. Well-formed
    tenants in every reachable state; key administration stays in the tenant of the caller.
  \<^item> \<open>Audit_Log\<close>: internal/audit, internal/admin/audit_query.go, the audit table, internal/compliance/pii_scan.go. What the
    scrubber removes, paging of the query.
  \<^item> \<open>Data_Lifecycle\<close>: internal/lifecycle, internal/compliance/export.go and delete.go, internal/tenants/api.go and delete.go, the
    tenant table. The purge deletes only what is past retention; after a deletion no row of the tenant is left in the listed
    tables.
  \<^item> \<open>Intent_Routing\<close>, \<open>Chat_Completions\<close>: agentorchestrator/router.go, intent_config.go, composer.go, openai_compat.go,
    internal/multimodal, internal/kbclient. Content survives a round trip; images pass only with their scope; the budget
    records the reported usage.
  \<^item> \<open>Service_Config\<close>: internal/config. Configuration and its checks for production.
  \<^item> \<open>Model_Policy\<close>, \<open>Model_Providers\<close>: modelpolicy/policy.go, usage.go, server.go, providers.go, openai_provider.go,
    anthropic_provider.go, defaultmodel.go. Policy before every invocation; streams are assembled completely and in order.
  \<^item> \<open>MCP_Chat_Tool\<close>, \<open>Containers\<close>, \<open>Agent_Memory\<close>, \<open>Agent_Control\<close>, \<open>Meta_Tools\<close>: mcp/tools with internal/sandbox,
    internal/knowledge, internal/agents and the tables they use. Sandboxes are isolated, and removed once Docker has named them; memory is separated by
    agent and within its quota; agents act within their tenant; discovery lists exactly what can be invoked.
  \<^item> \<open>Local_Tools\<close>: the remaining tools of internal/tools: files, commands, JSON paths, regular expressions, delegation. What
    reading a file can reach.
  \<^item> \<open>Postgres_Runs\<close>: the run store and the event log of internal/storage/postgres. What is read back after a write, one run
    per idempotency key, pages, delivery by the listener.

  Fuel and bounds. Loops that are not structural are functions with a termination proof where a measure exists (regular
  expression search, pagination). \<open>Math_Eval\<close> uses fuel: its parser is mutually recursive through calls whose progress
  depends on the results; \<open>evalExpr\<close> starts with enough fuel for every input, which \<open>evalExpr_returns\<close> proves. Resolving a
  path follows at most 255 symbolic links and opening one at most 40, the limits of the Go library and of the kernel. The agent
  loop is bounded by the configured number of iterations, as in the code. Integers are unbounded where the code's values
  cannot leave the 64-bit range for reasons given beside the definition, and otherwise reduced explicitly.

  Not modelled. Start-up and wiring (cmd/agentos), logging, metrics and tracing, TLS configuration, encryption, deployment
  checks, the backup and migration commands, the dispatcher of webhook events and the usage endpoints, YAML parsing, and
  the PostgreSQL versions of the job queue, of the quota backend, of agents, conversation memory and key-value pairs; the
  manifest lists them with reasons.
\<close>

end
